(* ===== verification/NKC_Prelude.thy ===== *)
theory NKC_Prelude
  imports Main "HOL-Library.Word" "HOL-Library.List_Lexorder" "HOL-Library.Char_ord"
    "HOL-Library.Product_Lexorder"
begin

text \<open>
  Shared ground of the development: JavaScript numbers where the code tests what kind of
  number it holds, the string operations the code calls (on strings whose code units are
  below 256), the nullish operator, and the lemma collections the component theories fill.
  Times are milliseconds since the epoch, integers.
\<close>

named_theorems store_simps \<open>what a read returns after a write of a persistent table\<close>
named_theorems route_simps \<open>evaluation of the routing decisions\<close>

type_synonym time_ms = int
type_synonym byte = "8 word"
type_synonym bytes = "byte list"

subsection \<open>Numbers\<close>

text \<open>
  A JavaScript number as the guards of the code see it: an integer, a finite number with a
  fractional part strictly between \<open>k\<close> and \<open>k + 1\<close>, an infinity, or NaN.
\<close>

datatype jsnum = IntN int | FracN int | PosInf | NegInf | NaN

fun is_finite_num :: "jsnum \<Rightarrow> bool" where
  "is_finite_num (IntN _) = True"
| "is_finite_num (FracN _) = True"
| "is_finite_num _ = False"

fun is_integer_num :: "jsnum \<Rightarrow> bool" where
  "is_integer_num (IntN _) = True"
| "is_integer_num _ = False"

definition max_safe_integer :: int where
  "max_safe_integer = 9007199254740991"

fun safe_integer :: "jsnum \<Rightarrow> int option" where
  "safe_integer (IntN i) = (if \<bar>i\<bar> \<le> max_safe_integer then Some i else None)"
| "safe_integer _ = None"

fun num_ge :: "jsnum \<Rightarrow> int \<Rightarrow> bool" where
  "num_ge (IntN i) n = (n \<le> i)"
| "num_ge (FracN k) n = (n \<le> k)"
| "num_ge PosInf n = True"
| "num_ge _ n = False"

fun num_le :: "jsnum \<Rightarrow> int \<Rightarrow> bool" where
  "num_le (IntN i) n = (i \<le> n)"
| "num_le (FracN k) n = (k < n)"
| "num_le NegInf n = True"
| "num_le _ n = False"

lemma safe_integer_Some: "safe_integer x = Some i \<longleftrightarrow> x = IntN i \<and> \<bar>i\<bar> \<le> max_safe_integer"
  by (cases x) auto

subsection \<open>The nullish operator and truthiness\<close>

fun nullish :: "'a option \<Rightarrow> 'a \<Rightarrow> 'a" where
  "nullish (Some x) _ = x"
| "nullish None y = y"

fun or_else :: "'a option \<Rightarrow> 'a option \<Rightarrow> 'a option" where
  "or_else (Some x) _ = Some x"
| "or_else None y = y"

definition truthy_string :: "string option \<Rightarrow> bool" where
  "truthy_string s = (case s of None \<Rightarrow> False | Some t \<Rightarrow> t \<noteq> [])"

lemma or_else_None [simp]: "or_else x None = x"
  by (cases x) auto

lemma or_else_eq_None [simp]: "or_else x y = None \<longleftrightarrow> x = None \<and> y = None"
  by (cases x) auto

lemma truthy_string_simps [simp]:
  "truthy_string None = False" "truthy_string (Some s) = (s \<noteq> [])"
  by (simp_all add: truthy_string_def)

subsection \<open>Strings\<close>

definition js_space :: "char \<Rightarrow> bool" where
  "js_space c = (let n = (of_char c :: nat) in (9 \<le> n \<and> n \<le> 13) \<or> n = 32 \<or> n = 160)"

definition trim :: "string \<Rightarrow> string" where
  "trim s = rev (dropWhile js_space (rev (dropWhile js_space s)))"

definition starts_with :: "string \<Rightarrow> string \<Rightarrow> bool" where
  "starts_with s p = (take (length p) s = p)"

fun str_includes :: "string \<Rightarrow> string \<Rightarrow> bool" where
  "str_includes [] p = (p = [])"
| "str_includes (c # s) p = (starts_with (c # s) p \<or> str_includes s p)"

fun join_str :: "string \<Rightarrow> string list \<Rightarrow> string" where
  "join_str sep [] = []"
| "join_str sep [s] = s"
| "join_str sep (s # t # ts) = s @ sep @ join_str sep (t # ts)"

definition lower_char :: "char \<Rightarrow> char" where
  "lower_char c = (let n = (of_char c :: nat) in
     if (65 \<le> n \<and> n \<le> 90) \<or> (192 \<le> n \<and> n \<le> 222 \<and> n \<noteq> 215) then char_of (n + 32) else c)"

definition to_lower :: "string \<Rightarrow> string" where
  "to_lower s = map lower_char s"

text \<open>\<open>TextEncoder\<close> on code units below 256.\<close>

definition utf8_char :: "char \<Rightarrow> bytes" where
  "utf8_char c = (let n = (of_char c :: nat) in
     if n < 128 then [of_nat n] else [of_nat (192 + n div 64), of_nat (128 + n mod 64)])"

definition encode_utf8 :: "string \<Rightarrow> bytes" where
  "encode_utf8 s = concat (map utf8_char s)"

lemma starts_with_append [simp]: "starts_with (p @ s) p"
  by (simp add: starts_with_def)

lemma includes_iff: "str_includes s p \<longleftrightarrow> (\<exists>u v. s = u @ p @ v)"
proof (induction s)
  case Nil
  then show ?case by auto
next
  case (Cons c s)
  have "starts_with (c # s) p \<longleftrightarrow> (\<exists>v. c # s = p @ v)"
    unfolding starts_with_def by (metis append_eq_conv_conj append_take_drop_id)
  moreover have "(\<exists>u v. c # s = u @ p @ v) \<longleftrightarrow>
      (\<exists>v. c # s = p @ v) \<or> (\<exists>u v. s = u @ p @ v)"
    by (metis append_Cons append_Nil list.sel(3) neq_Nil_conv)
  ultimately show ?case using Cons.IH by simp
qed

lemma includes_trans: "str_includes s p \<Longrightarrow> str_includes p q \<Longrightarrow> str_includes s q"
  unfolding includes_iff by (metis append.assoc)

lemma length_trim: "length (trim s) \<le> length s"
  unfolding trim_def
  by (metis length_dropWhile_le length_rev order_trans)

lemma dropWhile_twice: "dropWhile P (dropWhile P s) = dropWhile P s"
  by (induction s) auto

lemma dropWhile_prefix_id:
  "m = r @ v \<Longrightarrow> (m \<noteq> [] \<Longrightarrow> \<not> P (hd m)) \<Longrightarrow> dropWhile P r = r"
  by (cases r) auto

lemma dropWhile_rev_dropWhile:
  "dropWhile P (rev (dropWhile P (rev (dropWhile P s)))) = rev (dropWhile P (rev (dropWhile P s)))"
proof (rule dropWhile_prefix_id)
  show "dropWhile P s = rev (dropWhile P (rev (dropWhile P s))) @ rev (takeWhile P (rev (dropWhile P s)))"
    by (metis rev_append rev_rev_ident takeWhile_dropWhile_id)
qed (rule hd_dropWhile)

lemma trim_idem [simp]: "trim (trim s) = trim s"
  unfolding trim_def by (simp only: dropWhile_rev_dropWhile rev_rev_ident dropWhile_twice)

subsection \<open>Lists\<close>

lemma filter_length_le_filter:
  "(\<And>x. P x \<Longrightarrow> Q x) \<Longrightarrow> length (filter P xs) \<le> length (filter Q xs)"
  by (induction xs) auto

lemma set_take_sort_key: "x \<in> set (take n (sort_key f xs)) \<Longrightarrow> x \<in> set xs"
  using in_set_takeD by fastforce

definition push_bounded :: "nat \<Rightarrow> 'a \<Rightarrow> 'a list \<Rightarrow> 'a list" where
  "push_bounded n x xs = (let ys = xs @ [x] in if n < length ys then tl ys else ys)"

lemma length_push_bounded: "length xs \<le> n \<Longrightarrow> length (push_bounded n x xs) \<le> n"
  by (auto simp: push_bounded_def Let_def)

lemma push_bounded_last: "0 < n \<Longrightarrow> last (push_bounded n x xs) = x"
  by (auto simp: push_bounded_def Let_def tl_append split: list.splits)

text \<open>\<open>Array.from(new Set(xs))\<close>: the first occurrence of each element, in order.\<close>

definition uniq :: "'a list \<Rightarrow> 'a list" where
  "uniq xs = rev (remdups (rev xs))"

lemma set_uniq [simp]: "set (uniq xs) = set xs"
  by (simp add: uniq_def)

lemma distinct_uniq [simp]: "distinct (uniq xs)"
  by (simp add: uniq_def)

lemma length_uniq_le: "length (uniq xs) \<le> length xs"
  unfolding uniq_def by (metis length_remdups_leq length_rev)

end
