(* ===== verification/Keyed_Table.thy ===== *)
theory Keyed_Table
  imports NKC_Prelude
begin

text \<open>
  The persistent tables of the program (src/src/db/schema.ts declares them over IndexedDB)
  as lists of records kept in the order of their primary key, which is the order a range
  query returns. The interface of a table, \<open>keyed_table\<close>, states what a read returns
  after each write; the stores are proved against it once and interpret it on their own
  operations.
\<close>

fun tbl_get :: "('v \<Rightarrow> string) \<Rightarrow> string \<Rightarrow> 'v list \<Rightarrow> 'v option" where
  "tbl_get key k [] = None"
| "tbl_get key k (v # t) = (if key v = k then Some v else tbl_get key k t)"

fun tbl_put :: "('v \<Rightarrow> string) \<Rightarrow> 'v \<Rightarrow> 'v list \<Rightarrow> 'v list" where
  "tbl_put key v [] = [v]"
| "tbl_put key v (w # t) =
     (if key v < key w then v # w # t
      else if key v = key w then v # t
      else w # tbl_put key v t)"

definition tbl_delete :: "('v \<Rightarrow> string) \<Rightarrow> string \<Rightarrow> 'v list \<Rightarrow> 'v list" where
  "tbl_delete key k t = filter (\<lambda>v. key v \<noteq> k) t"

definition tbl_update :: "('v \<Rightarrow> string) \<Rightarrow> string \<Rightarrow> ('v \<Rightarrow> 'v) \<Rightarrow> 'v list \<Rightarrow> 'v list" where
  "tbl_update key k f t = map (\<lambda>v. if key v = k then f v else v) t"

definition tbl_bulk_delete :: "('v \<Rightarrow> string) \<Rightarrow> string list \<Rightarrow> 'v list \<Rightarrow> 'v list" where
  "tbl_bulk_delete key ks t = filter (\<lambda>v. key v \<notin> set ks) t"

definition tbl_ok :: "('v \<Rightarrow> string) \<Rightarrow> 'v list \<Rightarrow> bool" where
  "tbl_ok key t = sorted_wrt (<) (map key t)"

subsection \<open>What the operations do\<close>

lemma tbl_ok_Nil [simp]: "tbl_ok key []"
  by (simp add: tbl_ok_def)

lemma tbl_ok_Cons: "tbl_ok key (v # t) \<longleftrightarrow> (\<forall>w \<in> set t. key v < key w) \<and> tbl_ok key t"
  by (auto simp: tbl_ok_def)

lemma tbl_get_Some: "tbl_get key k t = Some v \<Longrightarrow> v \<in> set t \<and> key v = k"
  by (induction t) (auto split: if_splits)

lemma tbl_get_None: "tbl_get key k t = None \<longleftrightarrow> k \<notin> key ` set t"
  by (induction t) auto

lemma tbl_get_iff: "tbl_ok key t \<Longrightarrow> tbl_get key k t = Some v \<longleftrightarrow> v \<in> set t \<and> key v = k"
  by (induction t) (auto simp: tbl_ok_Cons)

lemma set_tbl_put: "set (tbl_put key v t) \<subseteq> insert v (set t)"
  by (induction t) auto

lemma tbl_ok_put: "tbl_ok key t \<Longrightarrow> tbl_ok key (tbl_put key v t)"
proof (induction t)
  case Nil
  then show ?case by (simp add: tbl_ok_def)
next
  case (Cons w t)
  then have ok: "tbl_ok key t" and lt: "\<forall>u \<in> set t. key w < key u"
    by (simp_all add: tbl_ok_Cons)
  consider "key v < key w" | "key v = key w" | "key w < key v" by (rule linorder_cases)
  then show ?case
  proof cases
    case 1
    then show ?thesis using Cons.prems lt by (auto simp: tbl_ok_Cons intro: less_trans)
  next
    case 2
    then show ?thesis using ok lt by (simp add: tbl_ok_Cons)
  next
    case 3
    have "\<forall>u \<in> set (tbl_put key v t). key w < key u"
      using 3 lt set_tbl_put [of key v t] by auto
    then show ?thesis using 3 Cons.IH [OF ok] by (auto simp: tbl_ok_Cons)
  qed
qed

lemma tbl_get_put:
  "tbl_ok key t \<Longrightarrow> tbl_get key k (tbl_put key v t) = (if k = key v then Some v else tbl_get key k t)"
proof (induction t)
  case Nil
  then show ?case by simp
next
  case (Cons w t)
  then have ok: "tbl_ok key t" and lt: "\<forall>u \<in> set t. key w < key u"
    by (simp_all add: tbl_ok_Cons)
  then show ?case using Cons.IH [OF ok] by auto
qed

lemma tbl_ok_filter: "tbl_ok key t \<Longrightarrow> tbl_ok key (filter P t)"
  by (induction t) (auto simp: tbl_ok_Cons)

lemma tbl_ok_delete: "tbl_ok key t \<Longrightarrow> tbl_ok key (tbl_delete key k t)"
  unfolding tbl_delete_def by (rule tbl_ok_filter)

lemma tbl_ok_update: "(\<And>v. key (f v) = key v) \<Longrightarrow> tbl_ok key t \<Longrightarrow> tbl_ok key (tbl_update key k f t)"
  by (induction t) (auto simp: tbl_update_def tbl_ok_Cons)

lemma tbl_get_delete: "tbl_get key k (tbl_delete key j t) = (if k = j then None else tbl_get key k t)"
  by (induction t) (auto simp: tbl_delete_def)

lemma tbl_get_update:
  "(\<And>v. key (f v) = key v) \<Longrightarrow>
   tbl_get key k (tbl_update key j f t) = (if k = j then map_option f (tbl_get key k t) else tbl_get key k t)"
  by (induction t) (auto simp: tbl_update_def)

lemma tbl_get_bulk_delete:
  "tbl_get key k (tbl_bulk_delete key ks t) = (if k \<in> set ks then None else tbl_get key k t)"
  by (induction t) (auto simp: tbl_bulk_delete_def)

lemma tbl_ok_bulk_delete: "tbl_ok key t \<Longrightarrow> tbl_ok key (tbl_bulk_delete key ks t)"
  unfolding tbl_bulk_delete_def by (rule tbl_ok_filter)

subsection \<open>The interface\<close>

locale keyed_table =
  fixes key :: "'v \<Rightarrow> string"
    and get :: "string \<Rightarrow> 't \<Rightarrow> 'v option"
    and put :: "'v \<Rightarrow> 't \<Rightarrow> 't"
    and del :: "string \<Rightarrow> 't \<Rightarrow> 't"
    and upd :: "string \<Rightarrow> ('v \<Rightarrow> 'v) \<Rightarrow> 't \<Rightarrow> 't"
    and inv :: "'t \<Rightarrow> bool"
  assumes get_put: "inv t \<Longrightarrow> get k (put v t) = (if k = key v then Some v else get k t)"
    and get_del: "inv t \<Longrightarrow> get k (del j t) = (if k = j then None else get k t)"
    and get_upd: "inv t \<Longrightarrow> (\<And>v. key (f v) = key v) \<Longrightarrow>
          get k (upd j f t) = (if k = j then map_option f (get k t) else get k t)"
    and inv_put: "inv t \<Longrightarrow> inv (put v t)"
    and inv_del: "inv t \<Longrightarrow> inv (del k t)"
    and inv_upd: "inv t \<Longrightarrow> (\<And>v. key (f v) = key v) \<Longrightarrow> inv (upd k f t)"
    and get_key: "inv t \<Longrightarrow> get k t = Some v \<Longrightarrow> key v = k"
begin

lemma put_get_same: "inv t \<Longrightarrow> get (key v) (put v t) = Some v"
  by (simp add: get_put)

lemma put_get_other: "inv t \<Longrightarrow> k \<noteq> key v \<Longrightarrow> get k (put v t) = get k t"
  by (simp add: get_put)

lemma put_put: "inv t \<Longrightarrow> key v = key w \<Longrightarrow> get k (put w (put v t)) = get k (put w t)"
  by (simp add: get_put inv_put)

lemma del_put: "inv t \<Longrightarrow> get k (del (key v) (put v t)) = get k (del (key v) t)"
  by (simp add: get_put get_del inv_put)

lemma upd_absent: "inv t \<Longrightarrow> (\<And>v. key (f v) = key v) \<Longrightarrow> get j t = None \<Longrightarrow> get k (upd j f t) = get k t"
  by (simp add: get_upd)

lemma upd_upd:
  "inv t \<Longrightarrow> (\<And>v. key (f v) = key v) \<Longrightarrow> (\<And>v. key (g v) = key v) \<Longrightarrow>
   get k (upd j g (upd j f t)) = get k (upd j (\<lambda>v. g (f v)) t)"
  by (simp add: get_upd inv_upd option.map_comp comp_def)

end

text \<open>The list representation meets the interface for every record type and key.\<close>

lemma list_table_keyed:
  "keyed_table key (tbl_get key) (tbl_put key) (tbl_delete key) (tbl_update key) (tbl_ok key)"
  by unfold_locales
    (auto simp: tbl_get_put tbl_get_delete tbl_get_update tbl_ok_put tbl_ok_delete
      intro: tbl_ok_update dest: tbl_get_Some)

end
