(* ===== verification/Outbox_Store.thy ===== *)
theory Outbox_Store
  imports Keyed_Table
begin

text \<open>
  The outbox: its records and their migration (src/src/db/schema.ts) and the store over
  them (src/src/storage/outboxStore.ts). A Dexie call is one atomic read or write of a table
  kept in primary-key order; a property a record may lack is an option, and a record without
  a property is in no index over it. The lemmas say what each query selects, in which order,
  and what each write leaves to a later read.
\<close>

subsection \<open>Records\<close>

datatype outbox_status = Pending | InFlight | Acked | Expired
datatype priority = High | Normal
datatype retention = Standard | Transient

record outbox_record =
  ob_id :: string
  ob_convId :: string
  ob_createdAt :: "time_ms option"
  ob_ttlMs :: "int option"
  ob_attempt :: "int option"
  ob_nextAttemptAt :: "time_ms option"
  ob_lastError :: "string option"
  ob_ciphertext :: string
  ob_priority :: "priority option"
  ob_toDeviceId :: "string option"
  ob_torOnion :: "string option"
  ob_createdAtMs :: "time_ms option"
  ob_expiresAtMs :: "time_ms option"
  ob_lastAttemptAtMs :: "time_ms option"
  ob_nextAttemptAtMs :: "time_ms option"
  ob_attempts :: "int option"
  ob_status :: "outbox_status option"
  ob_inFlightAtMs :: "time_ms option"
  ob_ackDeadlineMs :: "time_ms option"
  ob_retention :: "retention option"
  ob_transferId :: "string option"
  ob_chunkIndex :: "jsnum option"
  ob_binaryTransport :: "bool option"

subsection \<open>The migration of stored outbox records (schema version 11)\<close>

definition OUTBOX_DEFAULT_TTL_MS :: int where
  "OUTBOX_DEFAULT_TTL_MS = 12 * 60 * 60 * 1000"

definition upgrade_outbox_v11 :: "time_ms \<Rightarrow> outbox_record \<Rightarrow> outbox_record" where
  "upgrade_outbox_v11 now r =
    (let createdAt = nullish (or_else (ob_createdAt r) (ob_createdAtMs r)) now;
         nextAttemptAt = nullish (or_else (ob_nextAttemptAt r) (ob_nextAttemptAtMs r)) createdAt;
         attempt = nullish (or_else (ob_attempt r) (ob_attempts r)) 0;
         ttlMs = nullish (ob_ttlMs r)
           (case ob_expiresAtMs r of
              Some e \<Rightarrow> if createdAt < e then e - createdAt else OUTBOX_DEFAULT_TTL_MS
            | None \<Rightarrow> OUTBOX_DEFAULT_TTL_MS)
     in r\<lparr>ob_createdAt := Some createdAt,
          ob_nextAttemptAt := Some nextAttemptAt,
          ob_attempt := Some attempt,
          ob_ttlMs := Some ttlMs,
          ob_createdAtMs := Some (nullish (ob_createdAtMs r) createdAt),
          ob_nextAttemptAtMs := Some (nullish (ob_nextAttemptAtMs r) nextAttemptAt),
          ob_attempts := Some (nullish (ob_attempts r) attempt),
          ob_expiresAtMs := Some (nullish (ob_expiresAtMs r) (createdAt + ttlMs)),
          ob_status := Some (nullish (ob_status r) Pending),
          ob_lastError := Some (nullish (ob_lastError r) [])\<rparr>)"

subsection \<open>The outbox store\<close>

definition default_patch :: "time_ms \<Rightarrow> outbox_record \<Rightarrow> outbox_record" where
  "default_patch now r =
     r\<lparr>ob_nextAttemptAtMs := Some (nullish (ob_createdAtMs r) now),
       ob_attempts := Some (nullish (ob_attempts r) 0),
       ob_status := Some (nullish (ob_status r) Pending)\<rparr>"

fun ensureOutboxDefaults ::
    "time_ms \<Rightarrow> bool \<times> outbox_record list \<Rightarrow> bool \<times> outbox_record list" where
  "ensureOutboxDefaults now (normalizedDefaults, t) =
     (if normalizedDefaults then (normalizedDefaults, t)
      else (True, map (\<lambda>r. if ob_nextAttemptAtMs r = None then default_patch now r else r) t))"

definition putOutbox :: "outbox_record \<Rightarrow> outbox_record list \<Rightarrow> outbox_record list" where
  "putOutbox = tbl_put ob_id"

definition getOutbox :: "string \<Rightarrow> outbox_record list \<Rightarrow> outbox_record option" where
  "getOutbox = tbl_get ob_id"

definition deleteOutbox :: "string \<Rightarrow> outbox_record list \<Rightarrow> outbox_record list" where
  "deleteOutbox = tbl_delete ob_id"

definition updateOutbox ::
    "string \<Rightarrow> (outbox_record \<Rightarrow> outbox_record) \<Rightarrow> outbox_record list \<Rightarrow> outbox_record list" where
  "updateOutbox = tbl_update ob_id"

definition listPendingOutbox :: "outbox_record list \<Rightarrow> outbox_record list" where
  "listPendingOutbox t = filter (\<lambda>r. ob_status r = Some Pending) t"

definition within :: "int option \<Rightarrow> int \<Rightarrow> int \<Rightarrow> bool" where
  "within x lo hi = (case x of None \<Rightarrow> False | Some v \<Rightarrow> lo \<le> v \<and> v \<le> hi)"

definition expires_after :: "outbox_record \<Rightarrow> time_ms \<Rightarrow> bool" where
  "expires_after r now = (case ob_expiresAtMs r of None \<Rightarrow> False | Some e \<Rightarrow> now < e)"

definition retryable_at :: "time_ms \<Rightarrow> outbox_record \<Rightarrow> bool" where
  "retryable_at now r \<longleftrightarrow>
     ob_status r = Some Pending \<and> within (ob_nextAttemptAtMs r) 0 now \<and> expires_after r now"

text \<open>
  The result is ordered by the next attempt, then by creation, then by id (the order of the
  index). Every writer sets the creation time, so its default below is never reached.
\<close>

definition retry_order :: "outbox_record \<Rightarrow> int \<times> int" where
  "retry_order r = (nullish (ob_nextAttemptAtMs r) 0, nullish (ob_createdAtMs r) 0)"

definition listRetryableOutbox :: "time_ms \<Rightarrow> nat \<Rightarrow> outbox_record list \<Rightarrow> outbox_record list" where
  "listRetryableOutbox now limit t = take limit (sort_key retry_order (filter (retryable_at now) t))"

definition timed_out_at :: "time_ms \<Rightarrow> outbox_record \<Rightarrow> bool" where
  "timed_out_at now r \<longleftrightarrow>
     ob_status r = Some InFlight \<and> within (ob_ackDeadlineMs r) 0 now \<and> expires_after r now"

definition listInFlightTimedOut :: "time_ms \<Rightarrow> nat \<Rightarrow> outbox_record list \<Rightarrow> outbox_record list" where
  "listInFlightTimedOut now limit t =
     take limit (sort_key (\<lambda>r. nullish (ob_ackDeadlineMs r) 0) (filter (timed_out_at now) t))"

definition in_flight_patch :: "time_ms \<Rightarrow> time_ms \<Rightarrow> outbox_record \<Rightarrow> outbox_record" where
  "in_flight_patch inFlightAt ackDeadline r =
     r\<lparr>ob_inFlightAtMs := Some inFlightAt, ob_ackDeadlineMs := Some ackDeadline,
       ob_status := Some InFlight\<rparr>"

definition markOutboxInFlightUnlessAcked ::
    "string \<Rightarrow> time_ms \<Rightarrow> time_ms \<Rightarrow> outbox_record list \<Rightarrow> bool \<times> outbox_record list" where
  "markOutboxInFlightUnlessAcked i inFlightAt ackDeadline t =
     (case getOutbox i t of
        None \<Rightarrow> (False, t)
      | Some current \<Rightarrow>
          if ob_status current = Some Acked then (False, t)
          else (True, updateOutbox i (in_flight_patch inFlightAt ackDeadline) t))"

definition expired_at :: "time_ms \<Rightarrow> outbox_record \<Rightarrow> bool" where
  "expired_at now r \<longleftrightarrow>
     (case ob_expiresAtMs r of None \<Rightarrow> False | Some e \<Rightarrow> e \<le> now) \<and>
     (ob_status r = Some Pending \<or> ob_status r = Some InFlight)"

definition deleteExpiredOutbox :: "time_ms \<Rightarrow> outbox_record list \<Rightarrow> nat \<times> outbox_record list" where
  "deleteExpiredOutbox now t =
     (let expired = filter (expired_at now) t
      in if expired = [] then (0, t)
         else (length expired, tbl_bulk_delete ob_id (map ob_id expired) t))"

definition failed_after :: "int \<Rightarrow> outbox_record \<Rightarrow> bool" where
  "failed_after minAttempts r \<longleftrightarrow>
     ob_status r = Some Pending \<and> minAttempts \<le> nullish (ob_attempts r) 0"

definition deleteFailedOutbox :: "int \<Rightarrow> outbox_record list \<Rightarrow> nat \<times> outbox_record list" where
  "deleteFailedOutbox minAttempts t =
     (let failed = filter (failed_after minAttempts) t
      in if failed = [] then (0, t)
         else (length failed, tbl_bulk_delete ob_id (map ob_id failed) t))"

definition listOutboxByConv :: "string \<Rightarrow> outbox_record list \<Rightarrow> outbox_record list" where
  "listOutboxByConv c t = filter (\<lambda>r. ob_convId r = c) t"

definition clearOutboxQueue :: "outbox_record list \<Rightarrow> outbox_record list" where
  "clearOutboxQueue t = []"

abbreviation outbox_ok :: "outbox_record list \<Rightarrow> bool" where
  "outbox_ok \<equiv> tbl_ok ob_id"

lemmas outbox_ops = putOutbox_def getOutbox_def deleteOutbox_def updateOutbox_def

interpretation outbox: keyed_table ob_id getOutbox putOutbox deleteOutbox updateOutbox outbox_ok
  unfolding outbox_ops by (rule list_table_keyed)

declare outbox.get_put [store_simps] outbox.get_del [store_simps] outbox.get_upd [store_simps]

subsection \<open>What the store guarantees\<close>

text \<open>
  The version-11 migration completes every stored record (all the fields the delivery
  path reads are present) and running it again, at any later time, changes nothing.
\<close>

theorem upgrade_completes_and_is_idempotent:
  "ob_createdAtMs (upgrade_outbox_v11 now r) \<noteq> None \<and>
   ob_expiresAtMs (upgrade_outbox_v11 now r) \<noteq> None \<and>
   ob_nextAttemptAtMs (upgrade_outbox_v11 now r) \<noteq> None \<and>
   ob_attempts (upgrade_outbox_v11 now r) \<noteq> None \<and>
   ob_status (upgrade_outbox_v11 now r) \<noteq> None \<and>
   upgrade_outbox_v11 later (upgrade_outbox_v11 now r) = upgrade_outbox_v11 now r"
  by (simp add: upgrade_outbox_v11_def Let_def)

lemma in_flight_patch_id [simp]: "ob_id (in_flight_patch a d r) = ob_id r"
  by (simp add: in_flight_patch_def)

lemma set_listRetryable: "r \<in> set (listRetryableOutbox now n t) \<Longrightarrow> r \<in> set t \<and> retryable_at now r"
  unfolding listRetryableOutbox_def by (drule set_take_sort_key) simp

lemma set_listInFlightTimedOut:
  "r \<in> set (listInFlightTimedOut now n t) \<Longrightarrow> r \<in> set t \<and> timed_out_at now r"
  unfolding listInFlightTimedOut_def by (drule set_take_sort_key) simp

lemma sorted_take_drop_le:
  assumes "sorted (map f xs)" "x \<in> set (take n xs)" "y \<in> set (drop n xs)"
  shows "f x \<le> f y"
proof -
  have "sorted (map f (take n xs) @ map f (drop n xs))"
    using assms(1) by (simp flip: map_append)
  then show ?thesis using assms(2,3) by (auto simp: sorted_append)
qed

text \<open>
  The retry query returns at most \<open>limit\<close> records, all pending, due and not expired,
  ordered by next attempt and then creation; it leaves a retryable record out only when it
  returns \<open>limit\<close> records, none of which comes after the one left out.
\<close>

theorem listRetryableOutbox_selects:
  "length (listRetryableOutbox now limit t) \<le> limit \<and>
   sorted (map retry_order (listRetryableOutbox now limit t)) \<and>
   (\<forall>r \<in> set (listRetryableOutbox now limit t). r \<in> set t \<and> retryable_at now r) \<and>
   (\<forall>r \<in> set t. retryable_at now r \<longrightarrow> r \<notin> set (listRetryableOutbox now limit t) \<longrightarrow>
      length (listRetryableOutbox now limit t) = limit \<and>
      (\<forall>q \<in> set (listRetryableOutbox now limit t). retry_order q \<le> retry_order r))"
proof -
  let ?s = "sort_key retry_order (filter (retryable_at now) t)"
  have srt: "sorted (map retry_order ?s)" by simp
  have left_out: "length (take limit ?s) = limit \<and> (\<forall>q \<in> set (take limit ?s). retry_order q \<le> retry_order r)"
    if "r \<in> set t" "retryable_at now r" "r \<notin> set (take limit ?s)" for r
  proof -
    have "r \<in> set ?s" using that by simp
    then have d: "r \<in> set (drop limit ?s)"
      using that(3) by (metis append_take_drop_id Un_iff set_append)
    then have "limit < length ?s" by (cases "limit < length ?s") auto
    with d show ?thesis using sorted_take_drop_le [OF srt _ d] by auto
  qed
  have l: "listRetryableOutbox now limit t = take limit ?s"
    by (rule listRetryableOutbox_def)
  have "length (take limit ?s) \<le> limit" by simp
  moreover have "sorted (map retry_order (take limit ?s))"
    by (metis srt sorted_wrt_take take_map)
  moreover have "\<forall>r \<in> set (take limit ?s). r \<in> set t \<and> retryable_at now r"
    using set_listRetryable [of _ now limit t] unfolding l by blast
  ultimately show ?thesis
    unfolding l using left_out by blast
qed

lemma map_of_bulk_delete_filter:
  assumes "outbox_ok t"
  shows "getOutbox i (tbl_bulk_delete ob_id (map ob_id (filter P t)) t) =
    (case getOutbox i t of None \<Rightarrow> None | Some r \<Rightarrow> if P r then None else Some r)"
proof (cases "getOutbox i t")
  case None
  then show ?thesis by (simp add: outbox_ops tbl_get_bulk_delete)
next
  case (Some r)
  then have r: "r \<in> set t" "ob_id r = i" by (auto simp: outbox_ops dest: tbl_get_Some)
  have "i \<in> ob_id ` set (filter P t) \<longleftrightarrow> P r"
    using assms Some r by (auto simp: outbox_ops tbl_get_iff) (metis tbl_get_iff option.inject)
  with Some show ?thesis by (simp add: outbox_ops tbl_get_bulk_delete)
qed

text \<open>
  The expiry sweep removes exactly the pending and in-flight records whose deadline has
  passed: acknowledged records and live ones read back unchanged.
\<close>

theorem deleteExpiredOutbox_exact:
  assumes "outbox_ok t"
  shows "getOutbox i (snd (deleteExpiredOutbox now t)) =
    (case getOutbox i t of None \<Rightarrow> None | Some r \<Rightarrow> if expired_at now r then None else Some r)"
proof (cases "filter (expired_at now) t = []")
  case True
  then have "\<not> expired_at now r" if "getOutbox i t = Some r" for r
    using that by (auto simp: outbox_ops filter_empty_conv dest: tbl_get_Some)
  with True show ?thesis by (auto simp: deleteExpiredOutbox_def Let_def split: option.splits)
next
  case False
  then show ?thesis
    using map_of_bulk_delete_filter [OF assms] by (simp add: deleteExpiredOutbox_def Let_def)
qed

lemma deleteExpiredOutbox_ok: "outbox_ok t \<Longrightarrow> outbox_ok (snd (deleteExpiredOutbox now t))"
  by (simp add: deleteExpiredOutbox_def Let_def tbl_ok_bulk_delete)

text \<open>
  Moving a record to in-flight after a successful send never touches an acknowledged
  record: an acknowledged (or deleted) record reads back as it was and the call says so.
\<close>

theorem markOutboxInFlight_respects_ack:
  assumes "outbox_ok t"
  shows "(fst (markOutboxInFlightUnlessAcked i a d t) \<longleftrightarrow>
            (\<exists>r. getOutbox i t = Some r \<and> ob_status r \<noteq> Some Acked)) \<and>
         getOutbox j (snd (markOutboxInFlightUnlessAcked i a d t)) =
           (if j = i \<and> fst (markOutboxInFlightUnlessAcked i a d t)
            then map_option (in_flight_patch a d) (getOutbox j t) else getOutbox j t)"
  using assms by (auto simp: markOutboxInFlightUnlessAcked_def store_simps split: option.splits)

lemma markOutboxInFlight_ok:
  "outbox_ok t \<Longrightarrow> outbox_ok (snd (markOutboxInFlightUnlessAcked i a d t))"
  by (auto simp: markOutboxInFlightUnlessAcked_def intro: outbox.inv_upd split: option.splits)

text \<open>Concrete records, for the witnesses.\<close>

definition sample_outbox :: "string \<Rightarrow> outbox_status \<Rightarrow> time_ms \<Rightarrow> outbox_record" where
  "sample_outbox i st expires =
     \<lparr>ob_id = i, ob_convId = ''c'', ob_createdAt = None, ob_ttlMs = None, ob_attempt = None,
      ob_nextAttemptAt = None, ob_lastError = None, ob_ciphertext = ''x'', ob_priority = None,
      ob_toDeviceId = None, ob_torOnion = None, ob_createdAtMs = Some 0, ob_expiresAtMs = Some expires,
      ob_lastAttemptAtMs = None, ob_nextAttemptAtMs = Some 0, ob_attempts = Some 0,
      ob_status = Some st, ob_inFlightAtMs = None, ob_ackDeadlineMs = None, ob_retention = None,
      ob_transferId = None, ob_chunkIndex = None, ob_binaryTransport = None\<rparr>"

lemma sample_outbox_sel [simp]:
  "ob_id (sample_outbox i st e) = i" "ob_status (sample_outbox i st e) = Some st"
  "ob_expiresAtMs (sample_outbox i st e) = Some e"
  "ob_nextAttemptAtMs (sample_outbox i st e) = Some 0"
  by (simp_all add: sample_outbox_def)

theorem deleteExpiredOutbox_exact_witness:
  "getOutbox ''m'' (snd (deleteExpiredOutbox 9 [sample_outbox ''m'' Pending 5])) = None"
proof -
  have ok: "outbox_ok [sample_outbox ''m'' Pending 5]" by (simp add: tbl_ok_def)
  show ?thesis
    using deleteExpiredOutbox_exact [OF ok, of "''m''" 9]
    by (simp add: getOutbox_def expired_at_def)
qed

theorem markOutboxInFlight_respects_ack_witness:
  "\<not> fst (markOutboxInFlightUnlessAcked ''m'' 1 2 [sample_outbox ''m'' Acked 5])"
proof -
  have ok: "outbox_ok [sample_outbox ''m'' Acked 5]" by (simp add: tbl_ok_def)
  show ?thesis
    using markOutboxInFlight_respects_ack [OF ok, of "''m''" 1 2 "''m''"]
    by (simp add: getOutbox_def)
qed

theorem listRetryableOutbox_selects_witness:
  "\<exists>q \<in> set (listRetryableOutbox 3 1 [sample_outbox ''a'' Pending 5, sample_outbox ''b'' Pending 5]).
     retryable_at 3 q"
proof -
  let ?t = "[sample_outbox ''a'' Pending 5, sample_outbox ''b'' Pending 5]"
  have "length (listRetryableOutbox 3 1 ?t) = 1" by code_simp
  then have "hd (listRetryableOutbox 3 1 ?t) \<in> set (listRetryableOutbox 3 1 ?t)" by (intro hd_in_set) auto
  then show ?thesis using listRetryableOutbox_selects [of 3 1 ?t] by blast
qed

end
