(* ===== verification/Receipt_Store.thy ===== *)
theory Receipt_Store
  imports Keyed_Table
begin

text \<open>
  Delivery and read receipts (the receipts table of src/src/db/schema.ts and
  src/src/storage/receiptStore.ts): the read cursor an actor moves forward in a
  conversation, and what a message's receipts say of it.
\<close>

datatype receipt_kind = Delivered | Read | ReadCursor

record receipt_record =
  rc_id :: string
  rc_convId :: string
  rc_msgId :: string
  rc_kind :: receipt_kind
  rc_ts :: time_ms
  rc_actorId :: "string option"
  rc_cursorTs :: "time_ms option"
  rc_anchorMsgId :: "string option"

definition putReceipt :: "receipt_record \<Rightarrow> receipt_record list \<Rightarrow> receipt_record list" where
  "putReceipt = tbl_put rc_id"

definition getReceipt :: "string \<Rightarrow> receipt_record list \<Rightarrow> receipt_record option" where
  "getReceipt = tbl_get rc_id"

abbreviation receipts_ok :: "receipt_record list \<Rightarrow> bool" where
  "receipts_ok \<equiv> tbl_ok rc_id"

lemmas receipt_ops = putReceipt_def getReceipt_def

interpretation receipts: keyed_table rc_id getReceipt putReceipt "tbl_delete rc_id"
    "tbl_update rc_id" receipts_ok
  unfolding receipt_ops by (rule list_table_keyed)

definition read_cursor_id :: "string \<Rightarrow> string \<Rightarrow> string" where
  "read_cursor_id convId actorId = ''read_cursor:'' @ convId @ '':'' @ actorId"

definition read_receipt_id :: "string \<Rightarrow> string \<Rightarrow> string" where
  "read_receipt_id msgId actorId = ''read:'' @ msgId @ '':'' @ actorId"

text \<open>
  The cursor of the payload is \<open>None\<close> where the number is not finite. An anchor of
  the empty string is falsy and writes no read receipt.
\<close>

definition putReadCursor ::
    "time_ms \<Rightarrow> string \<Rightarrow> string \<Rightarrow> time_ms option \<Rightarrow> string option \<Rightarrow>
     receipt_record list \<Rightarrow> receipt_record list" where
  "putReadCursor now convId actorId cursorTs anchorMsgId t =
     (case cursorTs of
        None \<Rightarrow> t
      | Some c \<Rightarrow>
          if convId = [] \<or> actorId = [] then t
          else
            let i = read_cursor_id convId actorId;
                existing = Option.bind (getReceipt i t) rc_cursorTs;
                nextCursorTs = max (nullish existing 0) c;
                t1 = putReceipt
                  \<lparr>rc_id = i, rc_convId = convId, rc_msgId = nullish anchorMsgId i,
                   rc_kind = ReadCursor, rc_ts = now, rc_actorId = Some actorId,
                   rc_cursorTs = Some nextCursorTs, rc_anchorMsgId = anchorMsgId\<rparr> t
            in (if truthy_string anchorMsgId
                then putReceipt
                  \<lparr>rc_id = read_receipt_id (the anchorMsgId) actorId, rc_convId = convId,
                   rc_msgId = the anchorMsgId, rc_kind = Read, rc_ts = nextCursorTs,
                   rc_actorId = Some actorId, rc_cursorTs = None, rc_anchorMsgId = None\<rparr> t1
                else t1))"

definition getReceiptState :: "string \<Rightarrow> receipt_record list \<Rightarrow> bool \<times> bool" where
  "getReceiptState msgId t =
     (let records = filter (\<lambda>r. rc_msgId r = msgId) t
      in (list_ex (\<lambda>r. rc_kind r = Delivered) records, list_ex (\<lambda>r. rc_kind r = Read) records))"

definition listReceiptsByConv :: "string \<Rightarrow> receipt_record list \<Rightarrow> receipt_record list" where
  "listReceiptsByConv c t = filter (\<lambda>r. rc_convId r = c) t"

definition note_cursor :: "receipt_record \<Rightarrow> (string \<rightharpoonup> time_ms) \<Rightarrow> (string \<rightharpoonup> time_ms)" where
  "note_cursor r m =
     (if truthy_string (rc_actorId r)
      then case rc_cursorTs r of
          None \<Rightarrow> m
        | Some c \<Rightarrow> if nullish (m (the (rc_actorId r))) 0 < c then m(the (rc_actorId r) \<mapsto> c) else m
      else m)"

definition getReadCursors :: "string \<Rightarrow> receipt_record list \<Rightarrow> (string \<rightharpoonup> time_ms)" where
  "getReadCursors convId t =
     fold note_cursor (filter (\<lambda>r. rc_convId r = convId \<and> rc_kind r = ReadCursor) t) Map.empty"

subsection \<open>Cursors only move forward\<close>

lemma read_ids_differ [simp]:
  "read_receipt_id m a \<noteq> read_cursor_id c b" "read_cursor_id c b \<noteq> read_receipt_id m a"
  by (simp_all add: read_receipt_id_def read_cursor_id_def)

text \<open>
  Storing a read cursor never moves an actor's cursor back: the record of the actor in
  that conversation holds the larger of the stored and the reported cursor (and at least
  0), and with an anchor the anchored message is recorded as read.
\<close>

theorem putReadCursor_moves_forward:
  assumes "receipts_ok t" and "convId \<noteq> []" and "actorId \<noteq> []"
  shows "\<exists>r. getReceipt (read_cursor_id convId actorId)
              (putReadCursor now convId actorId (Some c) anchor t) = Some r \<and>
            rc_cursorTs r = Some (max (nullish (Option.bind
              (getReceipt (read_cursor_id convId actorId) t) rc_cursorTs) 0) c) \<and>
            (anchor = Some m \<longrightarrow> m \<noteq> [] \<longrightarrow>
              snd (getReceiptState m (putReadCursor now convId actorId (Some c) anchor t)))"
proof -
  have read: "list_ex (\<lambda>r. rc_kind r = Read) (filter (\<lambda>r. rc_msgId r = m) u)"
    if "getReceipt i u = Some r" "rc_kind r = Read" "rc_msgId r = m" for i u r
    using that by (auto simp: getReceipt_def list_ex_iff dest: tbl_get_Some)
  show ?thesis
    using assms
    by (auto simp: putReadCursor_def Let_def receipts.get_put receipts.inv_put getReceiptState_def
        intro!: read [OF receipts.put_get_same])
qed

subsection \<open>Reading the cursors back\<close>

lemma note_cursor_mono: "nullish (m a) 0 \<le> nullish (note_cursor r m a) 0"
  by (auto simp: note_cursor_def split: option.splits)

lemma note_cursor_covers:
  "rc_actorId r = Some a \<Longrightarrow> a \<noteq> [] \<Longrightarrow> rc_cursorTs r = Some c \<Longrightarrow> c \<le> nullish (note_cursor r m a) 0"
  by (auto simp: note_cursor_def)

lemma fold_note_cursor_mono: "nullish (m a) 0 \<le> nullish (fold note_cursor rs m a) 0"
proof (induction rs arbitrary: m)
  case Nil
  then show ?case by simp
next
  case (Cons r rs)
  then show ?case using note_cursor_mono [of m a r] by (auto intro: order_trans)
qed

lemma fold_note_cursor_covers:
  assumes "r \<in> set rs" "rc_actorId r = Some a" "a \<noteq> []" "rc_cursorTs r = Some c"
  shows "c \<le> nullish (fold note_cursor rs m a) 0"
  using assms
proof (induction rs arbitrary: m)
  case Nil
  then show ?case by simp
next
  case (Cons q rs)
  show ?case
  proof (cases "r = q")
    case True
    then have "c \<le> nullish (note_cursor q m a) 0" using Cons.prems note_cursor_covers by simp
    also have "\<dots> \<le> nullish (fold note_cursor rs (note_cursor q m) a) 0" by (rule fold_note_cursor_mono)
    finally show ?thesis by simp
  qed (use Cons in auto)
qed

lemma fold_note_cursor_from:
  "fold note_cursor rs m a = Some c \<Longrightarrow>
   m a = Some c \<or> (\<exists>r \<in> set rs. rc_actorId r = Some a \<and> rc_cursorTs r = Some c)"
proof (induction rs arbitrary: m)
  case Nil
  then show ?case by simp
next
  case (Cons r rs)
  from Cons.IH [of "note_cursor r m"] Cons.prems
  consider "note_cursor r m a = Some c" | "\<exists>r \<in> set rs. rc_actorId r = Some a \<and> rc_cursorTs r = Some c"
    by auto
  then show ?case
    by cases (auto simp: note_cursor_def truthy_string_def split: option.splits if_splits)
qed

text \<open>
  The cursor table of a conversation gives each actor the largest of the cursors stored
  for it there: no stored cursor of the actor is above it, and it is one of them.
\<close>

theorem getReadCursors_is_maximum:
  assumes "a \<noteq> []"
  shows "(\<forall>r \<in> set t. rc_convId r = convId \<longrightarrow> rc_kind r = ReadCursor \<longrightarrow> rc_actorId r = Some a \<longrightarrow>
            (\<forall>c. rc_cursorTs r = Some c \<longrightarrow> c \<le> nullish (getReadCursors convId t a) 0)) \<and>
         (\<forall>c. getReadCursors convId t a = Some c \<longrightarrow>
            (\<exists>r \<in> set t. rc_convId r = convId \<and> rc_kind r = ReadCursor \<and>
               rc_actorId r = Some a \<and> rc_cursorTs r = Some c))"
  using assms fold_note_cursor_covers fold_note_cursor_from
  unfolding getReadCursors_def by fastforce

subsection \<open>Witnesses\<close>

theorem putReadCursor_moves_forward_witness:
  "\<exists>r. getReceipt (read_cursor_id ''c'' ''a'') (putReadCursor 1 ''c'' ''a'' (Some 7) (Some ''m'') []) = Some r \<and>
       rc_cursorTs r = Some 7"
proof -
  have "receipts_ok []" by simp
  from putReadCursor_moves_forward [OF this, of "''c''" "''a''" 1 7 "Some ''m''" "''m''"]
  show ?thesis by (auto simp: getReceipt_def)
qed

definition sample_cursor :: "time_ms \<Rightarrow> receipt_record" where
  "sample_cursor c = \<lparr>rc_id = ''r'', rc_convId = ''c'', rc_msgId = ''r'', rc_kind = ReadCursor,
     rc_ts = 0, rc_actorId = Some ''a'', rc_cursorTs = Some c, rc_anchorMsgId = None\<rparr>"

theorem getReadCursors_is_maximum_witness:
  "5 \<le> nullish (getReadCursors ''c'' [sample_cursor 5] ''a'') 0"
  using getReadCursors_is_maximum [of "''a''" "[sample_cursor 5]" "''c''"]
  by (simp add: sample_cursor_def)

end
