(* ===== verification/Media_Transfers.thy ===== *)
theory Media_Transfers
  imports Keyed_Table
begin

text \<open>
  The progress records of media transfers (src/src/storage/mediaTransferStore.ts): chunks
  are stored in order and acknowledged in any order. A record holds the cursor up to which
  every chunk is acknowledged and the acknowledged chunks beyond it. The per-transfer lock
  makes each operation atomic; encryption at rest is left out: the table holds the records,
  and both reads and writes need the vault key (\<open>vault\<close>).
\<close>

datatype transfer_status = Active | Complete | Failed

record media_progress =
  mp_transferId :: string
  mp_convId :: string
  mp_totalChunks :: int
  mp_storedThrough :: int
  mp_ackedThrough :: int
  mp_ackedOutOfOrder :: "int list"
  mp_status :: transfer_status
  mp_updatedAt :: time_ms

definition readUnlocked :: "bool \<Rightarrow> string \<Rightarrow> media_progress list \<Rightarrow> media_progress option" where
  "readUnlocked vault transferId t = (if vault then tbl_get mp_transferId transferId t else None)"

definition writeUnlocked ::
    "bool \<Rightarrow> time_ms \<Rightarrow> media_progress \<Rightarrow> media_progress list \<Rightarrow> bool \<times> media_progress list" where
  "writeUnlocked vault now progress t =
     (if vault then (True, tbl_put mp_transferId (progress\<lparr>mp_updatedAt := now\<rparr>) t) else (False, t))"

definition createMediaTransferProgress ::
    "bool \<Rightarrow> time_ms \<Rightarrow> string \<Rightarrow> string \<Rightarrow> int \<Rightarrow> media_progress list \<Rightarrow> bool \<times> media_progress list" where
  "createMediaTransferProgress vault now transferId convId totalChunks t =
     writeUnlocked vault now
       \<lparr>mp_transferId = transferId, mp_convId = convId, mp_totalChunks = totalChunks,
        mp_storedThrough = -1, mp_ackedThrough = -1, mp_ackedOutOfOrder = [],
        mp_status = Active, mp_updatedAt = now\<rparr> t"

definition markMediaTransferStored ::
    "bool \<Rightarrow> time_ms \<Rightarrow> string \<Rightarrow> int \<Rightarrow> media_progress list \<Rightarrow> bool \<times> media_progress list" where
  "markMediaTransferStored vault now transferId chunkIndex t =
     (case readUnlocked vault transferId t of
        None \<Rightarrow> (False, t)
      | Some current \<Rightarrow>
          if chunkIndex \<le> mp_storedThrough current then (False, t)
          else writeUnlocked vault now (current\<lparr>mp_storedThrough := chunkIndex\<rparr>) t)"

text \<open>\<open>while (pending.delete(ackedThrough + 1)) ackedThrough += 1\<close>, on a set kept as a list.\<close>

function advance_acked :: "int \<Rightarrow> int list \<Rightarrow> int \<times> int list" where
  "advance_acked a pending =
     (if a + 1 \<in> set pending then advance_acked (a + 1) (removeAll (a + 1) pending)
      else (a, pending))"
  by pat_completeness auto
termination
  by (relation "measure (\<lambda>(a, pending). length pending)") (auto simp: length_removeAll_less)

declare advance_acked.simps [simp del]

definition ack_chunk :: "int \<Rightarrow> media_progress \<Rightarrow> media_progress" where
  "ack_chunk chunkIndex current =
     (let pending0 = remdups (mp_ackedOutOfOrder current);
          pending = (if mp_ackedThrough current < chunkIndex then List.insert chunkIndex pending0 else pending0);
          adv = advance_acked (mp_ackedThrough current) pending
      in current\<lparr>mp_ackedThrough := fst adv,
           mp_ackedOutOfOrder := sort (snd adv),
           mp_status := (if fst adv = mp_totalChunks current - 1 then Complete else mp_status current)\<rparr>)"

definition markMediaTransferAcked ::
    "bool \<Rightarrow> time_ms \<Rightarrow> string \<Rightarrow> int \<Rightarrow> media_progress list \<Rightarrow> bool \<times> media_progress list" where
  "markMediaTransferAcked vault now transferId chunkIndex t =
     (case readUnlocked vault transferId t of
        None \<Rightarrow> (False, t)
      | Some current \<Rightarrow>
          if chunkIndex < 0 \<or> mp_totalChunks current \<le> chunkIndex then (False, t)
          else writeUnlocked vault now (ack_chunk chunkIndex current) t)"

definition getMediaTransferProgress :: "bool \<Rightarrow> string \<Rightarrow> media_progress list \<Rightarrow> media_progress option" where
  "getMediaTransferProgress = readUnlocked"

subsection \<open>The set of acknowledged chunks\<close>

text \<open>
  A progress record stands for the set of chunks acknowledged so far; it is well formed
  when the chunk right after the cursor is open and the record is complete as soon as
  every chunk is acknowledged.
\<close>

definition acked_set :: "media_progress \<Rightarrow> int set" where
  "acked_set p = {0..mp_ackedThrough p} \<union> set (mp_ackedOutOfOrder p)"

definition progress_ok :: "media_progress \<Rightarrow> bool" where
  "progress_ok p \<longleftrightarrow>
     -1 \<le> mp_ackedThrough p \<and> mp_ackedThrough p < mp_totalChunks p \<and>
     (\<forall>c \<in> set (mp_ackedOutOfOrder p). mp_ackedThrough p + 1 < c \<and> c < mp_totalChunks p) \<and>
     (mp_ackedThrough p = mp_totalChunks p - 1 \<longrightarrow> mp_status p = Complete)"

lemma advance_acked_runs:
  "advance_acked a s = (b, u) \<Longrightarrow>
   a \<le> b \<and> {a + 1..b} \<subseteq> set s \<and> b + 1 \<notin> set s \<and> set u = set s - {a + 1..b}"
proof (induction a s arbitrary: b u rule: advance_acked.induct)
  case (1 a s)
  show ?case
  proof (cases "a + 1 \<in> set s")
    case True
    then have step: "advance_acked (a + 1) (removeAll (a + 1) s) = (b, u)"
      using "1.prems" by (simp add: advance_acked.simps [of a s])
    note IH = "1.IH" [OF True step]
    have split: "{a + 1..b} = insert (a + 1) {a + 1 + 1..b}" using IH by auto
    have rem: "set (removeAll (a + 1) s) = set s - {a + 1}" by simp
    have "b + 1 \<noteq> a + 1" using IH by simp
    then have "b + 1 \<notin> set s" "{a + 1..b} \<subseteq> set s" "set u = set s - {a + 1..b}"
      using IH True unfolding rem split by blast+
    then show ?thesis using IH by simp
  next
    case False
    then show ?thesis using "1.prems" by (auto simp: advance_acked.simps [of a s])
  qed
qed

text \<open>
  Acknowledging chunk \<open>c\<close> of a well-formed record adds exactly \<open>c\<close> to the set of
  acknowledged chunks (a repeated acknowledgement changes nothing), keeps the record well
  formed, and marks it complete when every chunk has been acknowledged.
\<close>

theorem ack_chunk_inserts:
  assumes ok: "progress_ok p" and c: "0 \<le> c" "c < mp_totalChunks p"
  shows "acked_set (ack_chunk c p) = insert c (acked_set p) \<and> progress_ok (ack_chunk c p) \<and>
         (acked_set (ack_chunk c p) = {0..<mp_totalChunks p} \<longrightarrow> mp_status (ack_chunk c p) = Complete)"
proof -
  let ?a = "mp_ackedThrough p"
  let ?s = "if ?a < c then List.insert c (remdups (mp_ackedOutOfOrder p)) else remdups (mp_ackedOutOfOrder p)"
  obtain b u where adv: "advance_acked ?a ?s = (b, u)" by fastforce
  let ?S = "set ?s"
  have S: "?S = (if ?a < c then insert c (set (mp_ackedOutOfOrder p)) else set (mp_ackedOutOfOrder p))"
    by simp
  have p: "-1 \<le> ?a" "?a < mp_totalChunks p"
    "\<forall>x \<in> set (mp_ackedOutOfOrder p). ?a + 1 < x \<and> x < mp_totalChunks p"
    using ok by (auto simp: progress_ok_def)
  have range: "\<forall>x \<in> ?S. ?a < x \<and> x < mp_totalChunks p" using p(3) c unfolding S by auto
  have A: "?a \<le> b" "{?a + 1..b} \<subseteq> ?S" "b + 1 \<notin> ?S" "set u = ?S - {?a + 1..b}"
    using advance_acked_runs [OF adv] by blast+
  have res: "mp_ackedThrough (ack_chunk c p) = b" "set (mp_ackedOutOfOrder (ack_chunk c p)) = set u"
    "mp_totalChunks (ack_chunk c p) = mp_totalChunks p"
    "b = mp_totalChunks p - 1 \<Longrightarrow> mp_status (ack_chunk c p) = Complete"
    using adv by (simp_all add: ack_chunk_def Let_def)
  have "{0..b} = {0..?a} \<union> {?a + 1..b}" using p(1) A(1) by auto
  then have "{0..b} \<union> set u = {0..?a} \<union> ?S" using A(2,4) by auto
  moreover have "{0..?a} \<union> ?S = insert c ({0..?a} \<union> set (mp_ackedOutOfOrder p))"
    using c unfolding S by auto
  ultimately have sets: "acked_set (ack_chunk c p) = insert c (acked_set p)"
    unfolding acked_set_def res by simp
  have b: "b < mp_totalChunks p"
  proof (cases "?a < b")
    case True
    then have "b \<in> {?a + 1..b}" by simp
    then have "b \<in> ?S" using A(2) by (rule subsetD [rotated])
    then show ?thesis using range by blast
  next
    case False
    then show ?thesis using A(1) p(2) by simp
  qed
  have above: "\<forall>x \<in> set u. b + 1 < x \<and> x < mp_totalChunks p"
  proof
    fix x assume "x \<in> set u"
    then have x: "x \<in> ?S" "x \<notin> {?a + 1..b}" using A(4) by blast+
    moreover have "?a < x" "x < mp_totalChunks p" using x(1) range by blast+
    moreover have "x \<noteq> b + 1" using x(1) A(3) by blast
    ultimately show "b + 1 < x \<and> x < mp_totalChunks p" by simp
  qed
  have "mp_status (ack_chunk c p) = Complete" if "acked_set (ack_chunk c p) = {0..<mp_totalChunks p}"
  proof (rule res(4))
    show "b = mp_totalChunks p - 1"
    proof (rule ccontr)
      assume "b \<noteq> mp_totalChunks p - 1"
      then have "b + 1 \<in> acked_set (ack_chunk c p)" using b p(1) A(1) unfolding that by auto
      then show False using A(3,4) by (auto simp: acked_set_def res)
    qed
  qed
  then show ?thesis
    using sets b above res p(1) A(1) by (auto simp: progress_ok_def)
qed

lemma createMediaTransferProgress_ok:
  "0 < n \<Longrightarrow> tbl_ok mp_transferId t \<Longrightarrow>
   \<exists>p. readUnlocked True i (snd (createMediaTransferProgress True now i c n t)) = Some p \<and>
       progress_ok p \<and> acked_set p = {}"
  by (simp add: createMediaTransferProgress_def writeUnlocked_def readUnlocked_def tbl_get_put
      progress_ok_def acked_set_def)

subsection \<open>The table\<close>

interpretation transfers: keyed_table mp_transferId "readUnlocked True"
    "\<lambda>p t. snd (writeUnlocked True (mp_updatedAt p) p t)" "tbl_delete mp_transferId"
    "tbl_update mp_transferId" "tbl_ok mp_transferId"
proof -
  have "readUnlocked True = tbl_get mp_transferId"
    by (intro ext) (simp add: readUnlocked_def)
  moreover have "(\<lambda>p t. snd (writeUnlocked True (mp_updatedAt p) p t)) = tbl_put mp_transferId"
    by (intro ext) (simp add: writeUnlocked_def)
  ultimately show "keyed_table mp_transferId (readUnlocked True)
      (\<lambda>p t. snd (writeUnlocked True (mp_updatedAt p) p t)) (tbl_delete mp_transferId)
      (tbl_update mp_transferId) (tbl_ok mp_transferId)"
    by (simp add: list_table_keyed)
qed

text \<open>
  Without the vault key no transfer record is read or written; with it, acknowledging a
  chunk that is out of range or of an unknown transfer leaves every record as it was, and a
  chunk in range updates that transfer's record only.
\<close>

theorem markMediaTransferAcked_frame:
  assumes "tbl_ok mp_transferId t"
  shows "markMediaTransferAcked False now i c t = (False, t) \<and>
    readUnlocked True j (snd (markMediaTransferAcked True now i c t)) =
      (case readUnlocked True j t of
         None \<Rightarrow> None
       | Some p \<Rightarrow> Some (if j = i \<and> 0 \<le> c \<and> c < mp_totalChunks p
                          then (ack_chunk c p)\<lparr>mp_updatedAt := now\<rparr> else p))"
proof -
  have key: "mp_transferId p = i" if "tbl_get mp_transferId i t = Some p" for p
    using that by (auto dest: tbl_get_Some)
  have ack_id: "mp_transferId (ack_chunk c p) = mp_transferId p" for p
    by (simp add: ack_chunk_def Let_def)
  show ?thesis
    using assms
    by (auto simp: markMediaTransferAcked_def readUnlocked_def writeUnlocked_def tbl_get_put ack_id key
        split: option.splits)
qed

subsection \<open>Witnesses\<close>

definition sample_progress :: media_progress where
  "sample_progress = \<lparr>mp_transferId = ''t'', mp_convId = ''c'', mp_totalChunks = 3,
     mp_storedThrough = 2, mp_ackedThrough = -1, mp_ackedOutOfOrder = [1], mp_status = Active,
     mp_updatedAt = 0\<rparr>"

theorem ack_chunk_inserts_witness:
  "acked_set (ack_chunk 0 sample_progress) = insert 0 (acked_set sample_progress) \<and>
   mp_ackedThrough (ack_chunk 0 sample_progress) = 1"
proof -
  have ok: "progress_ok sample_progress" by (simp add: sample_progress_def progress_ok_def)
  have c: "(0::int) \<le> 0" "0 < mp_totalChunks sample_progress" by (simp_all add: sample_progress_def)
  have "mp_ackedThrough (ack_chunk 0 sample_progress) = 1" by code_simp
  then show ?thesis using ack_chunk_inserts [OF ok c] by simp
qed

theorem markMediaTransferAcked_frame_witness:
  "readUnlocked True ''u'' (snd (markMediaTransferAcked True 5 ''t'' 0 [sample_progress])) = None"
proof -
  have "tbl_ok mp_transferId [sample_progress]" by (simp add: tbl_ok_def)
  from markMediaTransferAcked_frame [OF this, of 5 "''t''" 0 "''u''"]
  show ?thesis by (simp add: readUnlocked_def sample_progress_def)
qed

end
