(* ===== verification/Delivery.thy ===== *)
theory Delivery
  imports Outbox_Store Receipt_Store Media_Transfers
begin

text \<open>
  Message delivery: what enqueueing and an acknowledgement do to the store
  (src/src/policies/deliveryPolicy.ts, ttl.ts) and the worker that empties the outbox
  (src/src/delivery/deliveryScheduler.ts). The worker calls a sender and a planner it is
  given; while it waits for either, other handlers (an acknowledgement, a new message) may
  change the store, so both take the store and return it. Trace logs are left out.
\<close>

record db_state =
  db_outbox :: "outbox_record list"
  db_receipts :: "receipt_record list"
  db_media :: "media_progress list"
  db_vault :: bool

definition db_ok :: "db_state \<Rightarrow> bool" where
  "db_ok db \<longleftrightarrow> outbox_ok (db_outbox db) \<and> receipts_ok (db_receipts db) \<and> tbl_ok mp_transferId (db_media db)"

subsection \<open>Policies\<close>

definition TTL_MS :: int where
  "TTL_MS = 12 * 60 * 60 * 1000"

definition computeExpiresAt :: "time_ms \<Rightarrow> time_ms" where
  "computeExpiresAt createdAtMs = createdAtMs + TTL_MS"

definition normalize_outgoing :: "time_ms \<Rightarrow> outbox_record \<Rightarrow> outbox_record" where
  "normalize_outgoing now r =
     (let createdAtMs = nullish (ob_createdAtMs r) now
      in r\<lparr>ob_createdAtMs := Some createdAtMs,
           ob_expiresAtMs := Some (nullish (ob_expiresAtMs r) (computeExpiresAt createdAtMs)),
           ob_status := Some (nullish (ob_status r) Pending),
           ob_attempts := Some (nullish (ob_attempts r) 0),
           ob_nextAttemptAtMs := Some (nullish (ob_nextAttemptAtMs r) createdAtMs)\<rparr>)"

definition enqueueOutgoing :: "time_ms \<Rightarrow> outbox_record \<Rightarrow> db_state \<Rightarrow> db_state" where
  "enqueueOutgoing now r db = db\<lparr>db_outbox := putOutbox (normalize_outgoing now r) (db_outbox db)\<rparr>"

definition delivered_receipt :: "time_ms \<Rightarrow> outbox_record \<Rightarrow> string \<Rightarrow> receipt_record" where
  "delivered_receipt now r messageId =
     \<lparr>rc_id = ''delivered:'' @ messageId, rc_convId = ob_convId r, rc_msgId = messageId,
      rc_kind = Delivered, rc_ts = now, rc_actorId = None, rc_cursorTs = None,
      rc_anchorMsgId = None\<rparr>"

definition ack_media :: "time_ms \<Rightarrow> outbox_record \<Rightarrow> db_state \<Rightarrow> db_state" where
  "ack_media now r db =
     (case (ob_transferId r, ob_chunkIndex r) of
        (Some transferId, Some (IntN c)) \<Rightarrow>
          if transferId = [] then db
          else db\<lparr>db_media := snd (markMediaTransferAcked (db_vault db) now transferId c (db_media db))\<rparr>
      | _ \<Rightarrow> db)"

definition onAckReceived :: "time_ms \<Rightarrow> string \<Rightarrow> db_state \<Rightarrow> db_state" where
  "onAckReceived now messageId db =
     (case getOutbox messageId (db_outbox db) of
        None \<Rightarrow> db
      | Some r \<Rightarrow>
          let db1 = (if ob_retention r = Some Transient
                     then (ack_media now r db)\<lparr>db_outbox := deleteOutbox messageId (db_outbox db)\<rparr>
                     else db\<lparr>db_outbox := updateOutbox messageId
                               (\<lambda>q. q\<lparr>ob_status := Some Acked\<rparr>) (db_outbox db)\<rparr>)
          in db1\<lparr>db_receipts := putReceipt (delivered_receipt now r messageId) (db_receipts db1)\<rparr>)"

definition sweepExpired :: "time_ms \<Rightarrow> db_state \<Rightarrow> db_state" where
  "sweepExpired now db = db\<lparr>db_outbox := snd (deleteExpiredOutbox now (db_outbox db))\<rparr>"

subsection \<open>The delivery worker\<close>

datatype send_result = SendOk | SendFailed bool | SendThrew

record plan_request_item =
  pr_id :: string
  pr_priority :: priority
  pr_attempts :: int
  pr_nextAttemptAtMs :: "time_ms option"
  pr_expiresAtMs :: "time_ms option"
  pr_createdAtMs :: "time_ms option"

record plan_item =
  pi_id :: string
  pi_attempts :: int
  pi_nextAttemptAtMs :: time_ms

type_synonym 'e sender = "outbox_record \<Rightarrow> db_state \<Rightarrow> 'e \<Rightarrow> send_result \<times> db_state \<times> 'e"
type_synonym 'e planner = "plan_request_item list \<Rightarrow> db_state \<Rightarrow> 'e \<Rightarrow> plan_item list option \<times> db_state \<times> 'e"

record scheduler_opts =
  so_batchSize :: nat
  so_ackTimeoutMs :: int

definition default_scheduler_opts :: scheduler_opts where
  "default_scheduler_opts = \<lparr>so_batchSize = 20, so_ackTimeoutMs = 20000\<rparr>"

record scheduler_state =
  sc_timer :: bool
  sc_running :: bool
  sc_inFlight :: "string list"

definition init_scheduler :: scheduler_state where
  "init_scheduler = \<lparr>sc_timer = False, sc_running = False, sc_inFlight = []\<rparr>"

definition past_expiry :: "outbox_record \<Rightarrow> time_ms \<Rightarrow> bool" where
  "past_expiry r now = (case ob_expiresAtMs r of None \<Rightarrow> False | Some e \<Rightarrow> e \<le> now)"

definition requeue_patch :: "time_ms \<Rightarrow> outbox_record \<Rightarrow> outbox_record" where
  "requeue_patch now r =
     r\<lparr>ob_status := Some Pending, ob_ackDeadlineMs := None, ob_inFlightAtMs := None,
       ob_nextAttemptAtMs := Some now\<rparr>"

definition requeue_one :: "time_ms \<Rightarrow> outbox_record \<Rightarrow> outbox_record list \<Rightarrow> outbox_record list" where
  "requeue_one now r t = (if past_expiry r now then t else updateOutbox (ob_id r) (requeue_patch now) t)"

definition requeue_timed_out :: "time_ms \<Rightarrow> nat \<Rightarrow> outbox_record list \<Rightarrow> outbox_record list" where
  "requeue_timed_out now batchSize t = fold (requeue_one now) (listInFlightTimedOut now batchSize t) t"

definition to_plan_item :: "outbox_record \<Rightarrow> plan_request_item" where
  "to_plan_item r =
     \<lparr>pr_id = ob_id r, pr_priority = nullish (ob_priority r) Normal,
      pr_attempts = nullish (ob_attempts r) 0, pr_nextAttemptAtMs = ob_nextAttemptAtMs r,
      pr_expiresAtMs = ob_expiresAtMs r, pr_createdAtMs = ob_createdAtMs r\<rparr>"

text \<open>\<open>new Map(selected.map(item => [item.id, item]))\<close>: the last item of an id wins.\<close>

definition planned_by_id :: "plan_item list \<Rightarrow> string \<Rightarrow> plan_item option" where
  "planned_by_id selected i = map_of (rev (map (\<lambda>p. (pi_id p, p)) selected)) i"

definition selected_records :: "plan_item list \<Rightarrow> outbox_record list \<Rightarrow> outbox_record list" where
  "selected_records selected candidates =
     List.map_filter (\<lambda>p. List.find (\<lambda>r. ob_id r = pi_id p) candidates) selected"

definition attempt_patch :: "time_ms \<Rightarrow> plan_item \<Rightarrow> outbox_record \<Rightarrow> outbox_record" where
  "attempt_patch now p r =
     r\<lparr>ob_attempts := Some (pi_attempts p), ob_lastAttemptAtMs := Some now,
       ob_nextAttemptAtMs := Some (pi_nextAttemptAtMs p)\<rparr>"

definition after_send :: "time_ms \<Rightarrow> int \<Rightarrow> string \<Rightarrow> send_result \<Rightarrow> db_state \<Rightarrow> db_state" where
  "after_send now ackTimeoutMs i res db =
     (case res of
        SendOk \<Rightarrow> db\<lparr>db_outbox := snd (markOutboxInFlightUnlessAcked i now (now + ackTimeoutMs) (db_outbox db))\<rparr>
      | _ \<Rightarrow> db)"

text \<open>
  The loop over the planned records; the last component of the result lists the records
  handed to the sender, in order.
\<close>

fun deliver_items ::
    "'e sender \<Rightarrow> time_ms \<Rightarrow> int \<Rightarrow> (string \<Rightarrow> plan_item option) \<Rightarrow> outbox_record list \<Rightarrow>
     string list \<Rightarrow> db_state \<Rightarrow> 'e \<Rightarrow> string list \<times> db_state \<times> 'e \<times> outbox_record list" where
  "deliver_items send now ackTimeoutMs planned [] inFlight db e = (inFlight, db, e, [])"
| "deliver_items send now ackTimeoutMs planned (r # rs) inFlight db e =
     (if ob_id r \<in> set inFlight \<or> past_expiry r now
      then deliver_items send now ackTimeoutMs planned rs inFlight db e
      else case planned (ob_id r) of
          None \<Rightarrow> deliver_items send now ackTimeoutMs planned rs inFlight db e
        | Some p \<Rightarrow>
            (let inFlight1 = ob_id r # inFlight;
                 db1 = db\<lparr>db_outbox := updateOutbox (ob_id r) (attempt_patch now p) (db_outbox db)\<rparr>;
                 (res, db2, e2) = send (attempt_patch now p r) db1 e;
                 db3 = after_send now ackTimeoutMs (ob_id r) res db2;
                 (fl, db4, e4, sent) = deliver_items send now ackTimeoutMs planned rs
                                          (removeAll (ob_id r) inFlight1) db3 e2
             in (fl, db4, e4, attempt_patch now p r # sent)))"

definition tick ::
    "'e sender \<Rightarrow> 'e planner option \<Rightarrow> scheduler_opts \<Rightarrow> bool \<Rightarrow> time_ms \<Rightarrow>
     scheduler_state \<Rightarrow> db_state \<Rightarrow> 'e \<Rightarrow> scheduler_state \<times> db_state \<times> 'e \<times> outbox_record list" where
  "tick send planDelivery opts isOnline now st db e =
     (if sc_running st \<or> \<not> isOnline then (st, db, e, [])
      else
        let db1 = sweepExpired now db;
            db2 = db1\<lparr>db_outbox := requeue_timed_out now (so_batchSize opts) (db_outbox db1)\<rparr>;
            limit = (if planDelivery = None then so_batchSize opts else so_batchSize opts * 4);
            candidates = listRetryableOutbox now limit (db_outbox db2);
            (nativePlan, db3, e3) = (case planDelivery of
                None \<Rightarrow> (None, db2, e)
              | Some plan \<Rightarrow> plan (map to_plan_item candidates) db2 e);
            selected = nullish nativePlan [];
            (fl, db4, e4, sent) = deliver_items send now (so_ackTimeoutMs opts) (planned_by_id selected)
                (selected_records selected candidates) (sc_inFlight st) db3 e3
        in (st\<lparr>sc_inFlight := fl\<rparr>, db4, e4, sent))"

text \<open>Starting asks for an immediate tick unless the timer already runs; stopping clears it.\<close>

definition start_scheduler :: "scheduler_state \<Rightarrow> scheduler_state \<times> bool" where
  "start_scheduler st = (if sc_timer st then (st, False) else (st\<lparr>sc_timer := True\<rparr>, True))"

definition stop_scheduler :: "scheduler_state \<Rightarrow> scheduler_state" where
  "stop_scheduler st = (if sc_timer st then st\<lparr>sc_timer := False\<rparr> else st)"

subsection \<open>What an acknowledgement leaves behind\<close>

definition acked :: "string \<Rightarrow> outbox_record list \<Rightarrow> bool" where
  "acked i t = (case getOutbox i t of None \<Rightarrow> False | Some r \<Rightarrow> ob_status r = Some Acked)"

lemma db_ok_simps:
  "db_ok db \<Longrightarrow> outbox_ok (db_outbox db)"
  "db_ok db \<Longrightarrow> receipts_ok (db_receipts db)"
  "db_ok db \<Longrightarrow> tbl_ok mp_transferId (db_media db)"
  by (simp_all add: db_ok_def)

lemma markMediaTransferAcked_ok:
  "tbl_ok mp_transferId t \<Longrightarrow> tbl_ok mp_transferId (snd (markMediaTransferAcked v now i c t))"
  by (auto simp: markMediaTransferAcked_def writeUnlocked_def tbl_ok_put split: option.splits)

lemma ack_media_ok: "db_ok db \<Longrightarrow> db_ok (ack_media now r db)"
  by (auto simp: ack_media_def db_ok_def markMediaTransferAcked_ok split: option.splits jsnum.splits)

lemma ack_media_frame [simp]:
  "db_outbox (ack_media now r db) = db_outbox db" "db_receipts (ack_media now r db) = db_receipts db"
  by (auto simp: ack_media_def split: option.splits jsnum.splits)

lemma onAckReceived_ok: "db_ok db \<Longrightarrow> db_ok (onAckReceived now i db)"
  using ack_media_ok [of db]
  by (auto simp: onAckReceived_def Let_def db_ok_def receipts.inv_put outbox.inv_del outbox.inv_upd
      split: option.splits)

text \<open>
  Once an acknowledgement for a stored message is handled, the message is never a
  candidate for sending again at any time: it is deleted (transient) or marked acknowledged,
  its receipt says it is delivered, and every other message is as before.
\<close>

theorem onAckReceived_settles:
  assumes ok: "db_ok db" and stored: "getOutbox i (db_outbox db) = Some r"
  shows "(if ob_retention r = Some Transient
            then getOutbox i (db_outbox (onAckReceived now i db)) = None
            else acked i (db_outbox (onAckReceived now i db))) \<and>
         (\<forall>later n. i \<notin> ob_id ` set (listRetryableOutbox later n (db_outbox (onAckReceived now i db)))) \<and>
         fst (getReceiptState i (db_receipts (onAckReceived now i db))) \<and>
         (\<forall>j. j \<noteq> i \<longrightarrow> getOutbox j (db_outbox (onAckReceived now i db)) = getOutbox j (db_outbox db))"
proof -
  let ?db = "onAckReceived now i db"
  have out: "outbox_ok (db_outbox db)" and rcs: "receipts_ok (db_receipts db)"
    using ok by (simp_all add: db_ok_def)
  have settled: "getOutbox i (db_outbox ?db) =
      (if ob_retention r = Some Transient then None else Some (r\<lparr>ob_status := Some Acked\<rparr>))"
    using stored out by (simp add: onAckReceived_def Let_def store_simps)
  have others: "getOutbox j (db_outbox ?db) = getOutbox j (db_outbox db)" if "j \<noteq> i" for j
    using that stored out by (simp add: onAckReceived_def Let_def store_simps)
  have "getOutbox i (db_outbox ?db) = Some q" if "q \<in> set (db_outbox ?db)" "ob_id q = i" for q
    using that onAckReceived_ok [OF ok, of now i] by (auto simp: db_ok_def getOutbox_def tbl_get_iff)
  then have never: "i \<notin> ob_id ` set (listRetryableOutbox later n (db_outbox ?db))" for later n
    using settled by (fastforce dest: set_listRetryable simp: retryable_at_def split: if_splits)
  have "getReceipt (''delivered:'' @ i) (db_receipts ?db) = Some (delivered_receipt now r i)"
    using stored rcs by (simp add: onAckReceived_def Let_def receipts.get_put delivered_receipt_def)
  then have "delivered_receipt now r i \<in> set (db_receipts ?db)"
    by (auto simp: getReceipt_def dest: tbl_get_Some)
  then have "fst (getReceiptState i (db_receipts ?db))"
    by (auto simp: getReceiptState_def list_ex_iff delivered_receipt_def
        intro!: bexI [of _ "delivered_receipt now r i"])
  with settled others never show ?thesis by (simp add: acked_def)
qed

text \<open>
  A record that is enqueued without times is pending, due at once and expires twelve
  hours after its creation; enqueueing leaves every other message as it was.
\<close>

theorem enqueueOutgoing_schedules:
  assumes "db_ok db" and "ob_createdAtMs r = None" "ob_expiresAtMs r = None"
    and "ob_status r = None" "ob_nextAttemptAtMs r = None" and "0 \<le> now"
  shows "\<exists>q. getOutbox (ob_id r) (db_outbox (enqueueOutgoing now r db)) = Some q \<and>
             ob_expiresAtMs q = Some (now + 43200000) \<and>
             (\<forall>t. retryable_at t q \<longleftrightarrow> now \<le> t \<and> t < now + 43200000) \<and>
             (\<forall>j. j \<noteq> ob_id r \<longrightarrow>
                getOutbox j (db_outbox (enqueueOutgoing now r db)) = getOutbox j (db_outbox db))"
  using assms
  by (auto simp: enqueueOutgoing_def normalize_outgoing_def Let_def db_ok_def outbox.get_put
      retryable_at_def within_def expires_after_def computeExpiresAt_def TTL_MS_def)

subsection \<open>What one tick does\<close>

lemma attempt_patch_id [simp]: "ob_id (attempt_patch now p r) = ob_id r"
  by (simp add: attempt_patch_def)

lemma requeue_patch_id [simp]: "ob_id (requeue_patch now r) = ob_id r"
  by (simp add: requeue_patch_def)

lemma acked_iff: "acked i t \<longleftrightarrow> (\<exists>r. getOutbox i t = Some r \<and> ob_status r = Some Acked)"
  by (auto simp: acked_def split: option.splits)

lemma acked_update:
  assumes "outbox_ok t" "\<And>r. ob_id (f r) = ob_id r" "\<And>r. ob_status (f r) = ob_status r"
  shows "acked i (updateOutbox j f t) = acked i t"
  using assms by (auto simp: acked_def store_simps split: option.splits)

lemma requeue_one_ok: "outbox_ok t \<Longrightarrow> outbox_ok (requeue_one now r t)"
  by (simp add: requeue_one_def outbox.inv_upd)

lemma requeue_fold_ok: "outbox_ok t \<Longrightarrow> outbox_ok (fold (requeue_one now) rs t)"
  by (induction rs arbitrary: t) (simp_all add: requeue_one_ok)

lemma requeue_fold_get:
  "outbox_ok t \<Longrightarrow> getOutbox i (fold (requeue_one now) rs t) =
     (if \<exists>r \<in> set rs. ob_id r = i \<and> \<not> past_expiry r now
      then map_option (requeue_patch now) (getOutbox i t) else getOutbox i t)"
proof (induction rs arbitrary: t)
  case Nil
  then show ?case by simp
next
  case (Cons r rs)
  have twice: "map_option (requeue_patch now) (map_option (requeue_patch now) x)
      = map_option (requeue_patch now) x" for x
    by (cases x) (simp_all add: requeue_patch_def)
  show ?case
    using Cons.IH [OF requeue_one_ok [OF Cons.prems, of now r]] Cons.prems
    by (auto simp: requeue_one_def store_simps twice)
qed

lemma requeue_timed_out_get:
  assumes ok: "outbox_ok t" and r: "getOutbox i t = Some r"
  shows "getOutbox i (requeue_timed_out now n t) = Some r \<or>
         timed_out_at now r \<and> getOutbox i (requeue_timed_out now n t) = Some (requeue_patch now r)"
proof (cases "\<exists>q \<in> set (listInFlightTimedOut now n t). ob_id q = i \<and> \<not> past_expiry q now")
  case True
  then obtain q where q: "q \<in> set t" "timed_out_at now q" "ob_id q = i"
    by (auto dest: set_listInFlightTimedOut)
  with ok r have "q = r" by (auto simp: getOutbox_def tbl_get_iff dest: tbl_get_Some)
      (metis tbl_get_iff option.inject)
  with q True requeue_fold_get [OF ok, of i now "listInFlightTimedOut now n t"] r
  show ?thesis by (simp add: requeue_timed_out_def)
next
  case False
  with requeue_fold_get [OF ok, of i now "listInFlightTimedOut now n t"] r
  show ?thesis by (auto simp: requeue_timed_out_def)
qed

text \<open>
  Requeueing after an acknowledgement timeout changes only in-flight records whose
  deadline has passed, and makes those pending and due now; in particular it keeps every
  acknowledged record, provided no acknowledgement is handled in between.
\<close>

theorem requeue_timed_out_only_timed_out:
  assumes ok: "outbox_ok t" and r: "getOutbox i t = Some r"
  shows "getOutbox i (requeue_timed_out now n t) = Some r \<or>
         timed_out_at now r \<and> getOutbox i (requeue_timed_out now n t) = Some (requeue_patch now r)"
  using assms by (rule requeue_timed_out_get)

lemma requeue_timed_out_ok: "outbox_ok t \<Longrightarrow> outbox_ok (requeue_timed_out now n t)"
  by (simp add: requeue_timed_out_def requeue_fold_ok)

lemma requeue_keeps_acked:
  assumes "outbox_ok t" "acked i t"
  shows "acked i (requeue_timed_out now n t)"
proof -
  obtain r where r: "getOutbox i t = Some r" "ob_status r = Some Acked"
    using assms(2) by (auto simp: acked_iff)
  then have "\<not> timed_out_at now r" by (simp add: timed_out_at_def)
  then have "getOutbox i (requeue_timed_out now n t) = Some r"
    using requeue_timed_out_get [OF assms(1) r(1)] by blast
  with r(2) show ?thesis by (simp add: acked_iff)
qed

lemma sweep_keeps_acked: "outbox_ok t \<Longrightarrow> acked i t \<Longrightarrow> acked i (snd (deleteExpiredOutbox now t))"
proof -
  assume ok: "outbox_ok t" and a: "acked i t"
  let ?e = "filter (expired_at now) t"
  have "getOutbox i (tbl_bulk_delete ob_id (map ob_id ?e) t) = getOutbox i t"
    using map_of_bulk_delete_filter [OF ok, of i "expired_at now"] a
    by (auto simp: acked_iff expired_at_def)
  with a show ?thesis by (auto simp: acked_def deleteExpiredOutbox_def Let_def)
qed

text \<open>A message is finished with when it is acknowledged or no longer stored.\<close>

definition finished :: "string \<Rightarrow> outbox_record list \<Rightarrow> bool" where
  "finished i t \<longleftrightarrow> getOutbox i t = None \<or> acked i t"

lemma finished_update:
  assumes "outbox_ok t" "\<And>r. ob_id (f r) = ob_id r" "\<And>r. ob_status (f r) = ob_status r"
  shows "finished i (updateOutbox j f t) = finished i t"
  using assms by (auto simp: finished_def acked_update store_simps)

lemma requeue_keeps_finished:
  assumes "outbox_ok t" "finished i t"
  shows "finished i (requeue_timed_out now n t)"
proof (cases "getOutbox i t = None")
  case True
  then have "getOutbox i (requeue_timed_out now n t) = None"
    using assms(1) by (simp add: requeue_timed_out_def requeue_fold_get)
  then show ?thesis by (simp add: finished_def)
next
  case False
  then show ?thesis using assms requeue_keeps_acked by (auto simp: finished_def)
qed

lemma sweep_keeps_finished:
  assumes "outbox_ok t" "finished i t"
  shows "finished i (snd (deleteExpiredOutbox now t))"
proof (cases "getOutbox i t = None")
  case True
  then have "getOutbox i (snd (deleteExpiredOutbox now t)) = None"
    by (simp add: deleteExpiredOutbox_def Let_def getOutbox_def tbl_get_bulk_delete)
  then show ?thesis by (simp add: finished_def)
next
  case False
  then show ?thesis using assms sweep_keeps_acked by (auto simp: finished_def)
qed

lemma onAckReceived_finished:
  assumes "db_ok db" "finished i (db_outbox db)"
  shows "finished i (db_outbox (onAckReceived now j db))"
  using assms
  by (auto simp: onAckReceived_def Let_def finished_def acked_def db_ok_def store_simps split: option.splits)

text \<open>One round of the loop, in projections: a record is skipped or handed to the sender.\<close>

lemma deliver_items_skip:
  "ob_id r \<in> set fl \<or> past_expiry r now \<or> planned (ob_id r) = None \<Longrightarrow>
   deliver_items send now a planned (r # rs) fl db e = deliver_items send now a planned rs fl db e"
  by auto

lemma deliver_items_send:
  assumes "ob_id r \<notin> set fl" "\<not> past_expiry r now" "planned (ob_id r) = Some p"
    and "send (attempt_patch now p r)
           (db\<lparr>db_outbox := updateOutbox (ob_id r) (attempt_patch now p) (db_outbox db)\<rparr>) e = (res, db2, e2)"
    and "deliver_items send now a planned rs fl (after_send now a (ob_id r) res db2) e2 = (fl', db', e', sent)"
  shows "deliver_items send now a planned (r # rs) fl db e = (fl', db', e', attempt_patch now p r # sent)"
  using assms by (simp add: Let_def)

lemma deliver_items_cases:
  obtains (skip) "deliver_items send now a planned (r # rs) fl db e = deliver_items send now a planned rs fl db e"
  | (send) p res db2 e2 fl' db' e' sent where
      "ob_id r \<notin> set fl" "\<not> past_expiry r now" "planned (ob_id r) = Some p"
      "send (attempt_patch now p r)
         (db\<lparr>db_outbox := updateOutbox (ob_id r) (attempt_patch now p) (db_outbox db)\<rparr>) e = (res, db2, e2)"
      "deliver_items send now a planned rs fl (after_send now a (ob_id r) res db2) e2 = (fl', db', e', sent)"
      "deliver_items send now a planned (r # rs) fl db e = (fl', db', e', attempt_patch now p r # sent)"
proof (cases "ob_id r \<in> set fl \<or> past_expiry r now \<or> planned (ob_id r) = None")
  case True
  show ?thesis by (rule skip) (rule deliver_items_skip, rule True)
next
  case False
  then obtain p where p: "ob_id r \<notin> set fl" "\<not> past_expiry r now" "planned (ob_id r) = Some p" by auto
  obtain res db2 e2 where s: "send (attempt_patch now p r)
      (db\<lparr>db_outbox := updateOutbox (ob_id r) (attempt_patch now p) (db_outbox db)\<rparr>) e = (res, db2, e2)"
    using prod_cases3 by blast
  obtain fl' db' e' sent where d:
    "deliver_items send now a planned rs fl (after_send now a (ob_id r) res db2) e2 = (fl', db', e', sent)"
    using prod_cases4 by blast
  show ?thesis using send [OF p s d] deliver_items_send [OF p s d] by blast
qed

lemma deliver_items_inFlight:
  "deliver_items send now a planned rs fl db e = (fl', db', e', sent) \<Longrightarrow> fl' = fl"
proof (induction rs arbitrary: db e db' e' sent fl')
  case Nil
  then show ?case by simp
next
  case (Cons r rs)
  show ?case
  proof (cases rule: deliver_items_cases [of send now a planned r rs fl db e])
    case skip
    show ?thesis using Cons.prems unfolding skip by (rule Cons.IH)
  next
    case (send p res db2 e2 fl1 db1 e1 sent1)
    show ?thesis using Cons.prems Cons.IH [OF send(5)] unfolding send(6) by simp
  qed
qed

lemma deliver_items_sent:
  "deliver_items send now a planned rs fl db e = (fl', db', e', sent) \<Longrightarrow> s \<in> set sent \<Longrightarrow>
   \<exists>r \<in> set rs. \<exists>p. planned (ob_id r) = Some p \<and> \<not> past_expiry r now \<and> s = attempt_patch now p r"
proof (induction rs arbitrary: db e fl' db' e' sent)
  case Nil
  then show ?case by simp
next
  case (Cons r rs)
  show ?case
  proof (cases rule: deliver_items_cases [of send now a planned r rs fl db e])
    case skip
    show ?thesis using Cons.IH Cons.prems unfolding skip by fastforce
  next
    case (send p res db2 e2 fl1 db1 e1 sent1)
    then have "s = attempt_patch now p r \<or> s \<in> set sent1"
      using Cons.prems unfolding send(6) by auto
    then show ?thesis using Cons.IH [OF send(5)] send(2,3) by auto
  qed
qed

lemma deliver_items_distinct:
  "deliver_items send now a planned rs fl db e = (fl', db', e', sent) \<Longrightarrow> distinct (map ob_id rs) \<Longrightarrow>
   distinct (map ob_id sent)"
proof (induction rs arbitrary: db e fl' db' e' sent)
  case Nil
  then show ?case by simp
next
  case (Cons r rs)
  show ?case
  proof (cases rule: deliver_items_cases [of send now a planned r rs fl db e])
    case skip
    show ?thesis using Cons.IH Cons.prems unfolding skip by simp
  next
    case (send p res db2 e2 fl1 db1 e1 sent1)
    have sent: "sent = attempt_patch now p r # sent1"
      using Cons.prems(1) unfolding send(6) by simp
    have "ob_id r \<notin> ob_id ` set sent1"
      using deliver_items_sent [OF send(5)] Cons.prems(2) by fastforce
    then show ?thesis using Cons.IH [OF send(5)] Cons.prems(2) unfolding sent by simp
  qed
qed

lemma find_id:
  "List.find (\<lambda>r. ob_id r = i) rs = Some r \<Longrightarrow> r \<in> set rs \<and> ob_id r = i"
  by (auto simp: find_Some_iff)

lemma selected_records_simps [simp]:
  "selected_records [] cands = []"
  "selected_records (p # ps) cands = (case List.find (\<lambda>r. ob_id r = pi_id p) cands of
     None \<Rightarrow> selected_records ps cands | Some r \<Rightarrow> r # selected_records ps cands)"
  by (simp_all add: selected_records_def map_filter_simps split: option.split)

lemma selected_records_from:
  "r \<in> set (selected_records selected cands) \<Longrightarrow>
   r \<in> set cands \<and> ob_id r \<in> pi_id ` set selected"
proof (induction selected)
  case Nil
  then show ?case by simp
next
  case (Cons p ps)
  show ?case
  proof (cases "List.find (\<lambda>r. ob_id r = pi_id p) cands")
    case None
    then show ?thesis using Cons by simp
  next
    case (Some q)
    then have "r = q \<or> r \<in> set (selected_records ps cands)" using Cons.prems by simp
    then show ?thesis using Cons.IH find_id [OF Some] by auto
  qed
qed

lemma selected_records_distinct:
  "distinct (map pi_id selected) \<Longrightarrow> distinct (map ob_id (selected_records selected cands))"
proof (induction selected)
  case Nil
  then show ?case by simp
next
  case (Cons p ps)
  then have IH: "distinct (map ob_id (selected_records ps cands))" by simp
  show ?case
  proof (cases "List.find (\<lambda>r. ob_id r = pi_id p) cands")
    case None
    then show ?thesis using IH by simp
  next
    case (Some r)
    have "pi_id p \<notin> ob_id ` set (selected_records ps cands)"
      using Cons.prems selected_records_from [of _ ps cands] by auto
    then show ?thesis
      using IH Some find_id [OF Some] by simp
  qed
qed

lemma planned_by_id_Some: "planned_by_id selected i = Some p \<Longrightarrow> p \<in> set selected \<and> pi_id p = i"
  unfolding planned_by_id_def by (drule map_of_SomeD) auto

text \<open>The outbox as the worker finds it after the sweep and the requeueing.\<close>

definition settled_outbox :: "scheduler_opts \<Rightarrow> time_ms \<Rightarrow> db_state \<Rightarrow> outbox_record list" where
  "settled_outbox opts now db =
     requeue_timed_out now (so_batchSize opts) (snd (deleteExpiredOutbox now (db_outbox db)))"

lemma tick_cases:
  assumes "tick send (Some plan) opts online now st db e = (st', db', e', sent)"
    and "\<not> sc_running st" "online"
  obtains db2 cands np db3 e3 fl where
    "db2 = db\<lparr>db_outbox := settled_outbox opts now db\<rparr>"
    "cands = listRetryableOutbox now (so_batchSize opts * 4) (db_outbox db2)"
    "plan (map to_plan_item cands) db2 e = (np, db3, e3)"
    "deliver_items send now (so_ackTimeoutMs opts) (planned_by_id (nullish np []))
       (selected_records (nullish np []) cands) (sc_inFlight st) db3 e3 = (fl, db', e', sent)"
    "st' = st\<lparr>sc_inFlight := fl\<rparr>"
  using assms
  by (auto simp: tick_def Let_def settled_outbox_def sweepExpired_def split: prod.splits)

text \<open>
  A tick hands to the sender only records that, after the sweep and the requeueing, are
  stored, pending, due and not expired, and that the planner selected, with the attempt count
  and next time the planner set; no record twice when the planner names each at most once.
  A worker that is offline, already running or without a plan sends nothing.
\<close>

theorem tick_sends_only_due:
  assumes t: "tick send planDelivery opts online now st db e = (st', db', e', sent)"
  shows "(\<forall>s \<in> set sent. \<not> sc_running st \<and> online \<and>
            (\<exists>q p. q \<in> set (settled_outbox opts now db) \<and> retryable_at now q \<and>
                   pi_id p = ob_id q \<and> s = attempt_patch now p q)) \<and>
         (planDelivery = None \<longrightarrow> sent = []) \<and>
         ((\<forall>plan items d f. planDelivery = Some plan \<longrightarrow>
             distinct (map pi_id (nullish (fst (plan items d f)) []))) \<longrightarrow> distinct (map ob_id sent))"
proof (cases "sc_running st \<or> \<not> online")
  case True
  then show ?thesis using t by (auto simp: tick_def)
next
  case False
  show ?thesis
  proof (cases planDelivery)
    case None
    then show ?thesis
      using t False by (auto simp: tick_def Let_def split: prod.splits)
  next
    case (Some plan)
    then obtain db2 cands np db3 e3 fl where c:
      "db2 = db\<lparr>db_outbox := settled_outbox opts now db\<rparr>"
      "cands = listRetryableOutbox now (so_batchSize opts * 4) (db_outbox db2)"
      "plan (map to_plan_item cands) db2 e = (np, db3, e3)"
      "deliver_items send now (so_ackTimeoutMs opts) (planned_by_id (nullish np []))
         (selected_records (nullish np []) cands) (sc_inFlight st) db3 e3 = (fl, db', e', sent)"
      "st' = st\<lparr>sc_inFlight := fl\<rparr>"
    proof -
      have nr: "\<not> sc_running st" "online" using False by simp_all
      show ?thesis by (rule tick_cases [OF t [unfolded Some] nr]) (rule that)
    qed
    have from_store: "\<exists>q p. q \<in> set (settled_outbox opts now db) \<and> retryable_at now q \<and>
        pi_id p = ob_id q \<and> s = attempt_patch now p q" if s: "s \<in> set sent" for s
    proof -
      obtain r p where r: "r \<in> set (selected_records (nullish np []) cands)"
        "planned_by_id (nullish np []) (ob_id r) = Some p" "s = attempt_patch now p r"
        using deliver_items_sent [OF c(4) s] by blast
      have "r \<in> set cands" using selected_records_from [OF r(1)] by simp
      then have "r \<in> set (settled_outbox opts now db) \<and> retryable_at now r"
        using set_listRetryable c(1,2) by fastforce
      then show ?thesis using r(3) planned_by_id_Some [OF r(2)] by blast
    qed
    have "distinct (map ob_id sent)" if "\<forall>items d f. distinct (map pi_id (nullish (fst (plan items d f)) []))"
    proof (rule deliver_items_distinct [OF c(4)], rule selected_records_distinct)
      show "distinct (map pi_id (nullish np []))" using that c(3) by (metis fst_conv)
    qed
    with from_store False Some show ?thesis by blast
  qed
qed

subsection \<open>The contract of the sender and the planner\<close>

text \<open>
  What the worker needs of the handlers that run while it waits: the store stays well
  formed and a message that is finished with is not brought back.
\<close>

locale delivery_env =
  fixes send :: "outbox_record \<Rightarrow> db_state \<Rightarrow> 'e \<Rightarrow> send_result \<times> db_state \<times> 'e"
    and plan :: "plan_request_item list \<Rightarrow> db_state \<Rightarrow> 'e \<Rightarrow> plan_item list option \<times> db_state \<times> 'e"
  assumes send_ok: "db_ok db \<Longrightarrow> send r db e = (res, db', e') \<Longrightarrow> db_ok db'"
    and send_finished: "db_ok db \<Longrightarrow> send r db e = (res, db', e') \<Longrightarrow>
          finished i (db_outbox db) \<Longrightarrow> finished i (db_outbox db')"
    and plan_ok: "db_ok db \<Longrightarrow> plan items db e = (np, db', e') \<Longrightarrow> db_ok db'"
    and plan_finished: "db_ok db \<Longrightarrow> plan items db e = (np, db', e') \<Longrightarrow>
          finished i (db_outbox db) \<Longrightarrow> finished i (db_outbox db')"
begin

lemma after_send_ok: "db_ok db \<Longrightarrow> db_ok (after_send now a i res db)"
  by (auto simp: after_send_def db_ok_def markOutboxInFlight_ok split: send_result.splits)

lemma after_send_finished:
  assumes "db_ok db" "finished j (db_outbox db)"
  shows "finished j (db_outbox (after_send now a i res db))"
proof (cases res)
  case SendOk
  have "getOutbox j (snd (markOutboxInFlightUnlessAcked i now (now + a) (db_outbox db))) =
      getOutbox j (db_outbox db)"
    using assms by (auto simp: markOutboxInFlightUnlessAcked_def db_ok_def finished_def acked_def store_simps
        split: option.splits if_splits)
  with SendOk assms show ?thesis by (simp add: after_send_def finished_def acked_def)
qed (use assms in \<open>simp_all add: after_send_def\<close>)

lemma deliver_items_keeps:
  "deliver_items send now a planned rs fl db e = (fl', db', e', sent) \<Longrightarrow> db_ok db \<Longrightarrow>
   db_ok db' \<and> (finished i (db_outbox db) \<longrightarrow> finished i (db_outbox db'))"
proof (induction rs arbitrary: db e fl' db' e' sent)
  case Nil
  then show ?case by simp
next
  case (Cons r rs)
  show ?case
  proof (cases rule: deliver_items_cases [of send now a planned r rs fl db e])
    case skip
    show ?thesis using Cons.IH Cons.prems unfolding skip by blast
  next
    case (send p res db2 e2 fl1 db1 e1 sent1)
    let ?db0 = "db\<lparr>db_outbox := updateOutbox (ob_id r) (attempt_patch now p) (db_outbox db)\<rparr>"
    have ok0: "db_ok ?db0" using Cons.prems(2) by (simp add: db_ok_def outbox.inv_upd)
    have ok2: "db_ok db2" using send_ok [OF ok0 send(4)] .
    have "finished i (db_outbox ?db0) = finished i (db_outbox db)"
      using Cons.prems(2) by (simp add: db_ok_def finished_update attempt_patch_def)
    then have finished2: "finished i (db_outbox db) \<Longrightarrow> finished i (db_outbox db2)"
      using send_finished [OF ok0 send(4)] by simp
    have "db' = db1" using Cons.prems(1) unfolding send(6) by simp
    then show ?thesis
      using Cons.IH [OF send(5) after_send_ok [OF ok2]] finished2 after_send_finished [OF ok2] by simp
  qed
qed

text \<open>What every send of a record finishes stays finished to the end of the loop.\<close>

lemma deliver_items_settles:
  "deliver_items send now a planned rs fl db e = (fl', db', e', sent) \<Longrightarrow> db_ok db \<Longrightarrow> x \<in> set sent \<Longrightarrow>
   (\<And>db e res db2 e2. db_ok db \<Longrightarrow> send x db e = (res, db2, e2) \<Longrightarrow> finished i (db_outbox db2)) \<Longrightarrow>
   finished i (db_outbox db')"
proof (induction rs arbitrary: db e fl' db' e' sent)
  case Nil
  then show ?case by simp
next
  case (Cons r rs)
  show ?case
  proof (cases rule: deliver_items_cases [of send now a planned r rs fl db e])
    case skip
    show ?thesis using Cons.IH Cons.prems unfolding skip by blast
  next
    case (send p res db2 e2 fl1 db1 e1 sent1)
    let ?db0 = "db\<lparr>db_outbox := updateOutbox (ob_id r) (attempt_patch now p) (db_outbox db)\<rparr>"
    have ok0: "db_ok ?db0" using Cons.prems(2) by (simp add: db_ok_def outbox.inv_upd)
    have ok2: "db_ok db2" using send_ok [OF ok0 send(4)] .
    have eq: "db' = db1" "sent = attempt_patch now p r # sent1"
      using Cons.prems(1) unfolding send(6) by simp_all
    show ?thesis
    proof (cases "x \<in> set sent1")
      case True
      show ?thesis using Cons.IH [OF send(5) after_send_ok [OF ok2] True Cons.prems(4)] eq by simp
    next
      case False
      then have x: "x = attempt_patch now p r" using Cons.prems(3) eq by simp
      then have "finished i (db_outbox db2)" using Cons.prems(4) [OF ok0] send(4) by blast
      then show ?thesis
        using deliver_items_keeps [OF send(5) after_send_ok [OF ok2], of i] after_send_finished [OF ok2] eq
        by simp
    qed
  qed
qed

lemma tick_settles:
  assumes "tick send (Some plan) opts online now st db e = (st', db', e', sent)" and "db_ok db"
    and "x \<in> set sent"
    and "\<And>db e res db2 e2. db_ok db \<Longrightarrow> send x db e = (res, db2, e2) \<Longrightarrow> finished i (db_outbox db2)"
  shows "finished i (db_outbox db')"
proof (cases "sc_running st \<or> \<not> online")
  case True
  then show ?thesis using assms(1,3) by (auto simp: tick_def)
next
  case False
  then have nr: "\<not> sc_running st" "online" by simp_all
  obtain db2 cands np db3 e3 fl where c:
    "db2 = db\<lparr>db_outbox := settled_outbox opts now db\<rparr>"
    "cands = listRetryableOutbox now (so_batchSize opts * 4) (db_outbox db2)"
    "plan (map to_plan_item cands) db2 e = (np, db3, e3)"
    "deliver_items send now (so_ackTimeoutMs opts) (planned_by_id (nullish np []))
       (selected_records (nullish np []) cands) (sc_inFlight st) db3 e3 = (fl, db', e', sent)"
    "st' = st\<lparr>sc_inFlight := fl\<rparr>"
    by (rule tick_cases [OF assms(1) nr])
  have "db_ok db2"
    using assms(2) by (simp add: c(1) db_ok_def settled_outbox_def requeue_timed_out_ok deleteExpiredOutbox_ok)
  then have ok3: "db_ok db3" using plan_ok [OF _ c(3)] by blast
  show ?thesis by (rule deliver_items_settles [OF c(4) ok3 assms(3)]) (rule assms(4))
qed

text \<open>A tick never brings a finished message back and keeps the store well formed.\<close>

lemma tick_keeps:
  assumes "tick send (Some plan) opts online now st db e = (st', db', e', sent)" and "db_ok db"
  shows "db_ok db' \<and> (finished i (db_outbox db) \<longrightarrow> finished i (db_outbox db')) \<and> st' = st"
proof (cases "sc_running st \<or> \<not> online")
  case True
  then show ?thesis using assms by (auto simp: tick_def)
next
  case False
  then have nr: "\<not> sc_running st" "online" by simp_all
  obtain db2 cands np db3 e3 fl where c0:
    "db2 = db\<lparr>db_outbox := settled_outbox opts now db\<rparr>"
    "cands = listRetryableOutbox now (so_batchSize opts * 4) (db_outbox db2)"
    "plan (map to_plan_item cands) db2 e = (np, db3, e3)"
    "deliver_items send now (so_ackTimeoutMs opts) (planned_by_id (nullish np []))
       (selected_records (nullish np []) cands) (sc_inFlight st) db3 e3 = (fl, db', e', sent)"
    "st' = st\<lparr>sc_inFlight := fl\<rparr>"
    by (rule tick_cases [OF assms(1) nr])
  note c = c0(1,3,4,5)
  have ok2: "db_ok db2"
    using assms(2) by (simp add: c(1) db_ok_def settled_outbox_def requeue_timed_out_ok deleteExpiredOutbox_ok)
  have "finished i (db_outbox db) \<Longrightarrow> finished i (db_outbox db2)"
    using assms(2) by (simp add: c(1) db_ok_def settled_outbox_def requeue_keeps_finished
        sweep_keeps_finished deleteExpiredOutbox_ok)
  then have "finished i (db_outbox db) \<Longrightarrow> finished i (db_outbox db3)"
    using plan_finished [OF ok2 c(2)] by blast
  moreover have ok3: "db_ok db3" using plan_ok [OF ok2 c(2)] .
  moreover have "fl = sc_inFlight st" using deliver_items_inFlight [OF c(3)] .
  ultimately show ?thesis
    using deliver_items_keeps [OF c(3) ok3, of i] c(4) by simp
qed

end

text \<open>
  A sender during which acknowledgements arrive: for each record, the messages acknowledged
  after its packet is handed over and before the worker goes on, with the time of each.
\<close>

definition with_acks :: "(outbox_record \<Rightarrow> (time_ms \<times> string) list) \<Rightarrow> 'e sender \<Rightarrow> 'e sender" where
  "with_acks acks send r db e =
     (let (res, db1, e1) = send r db e
      in (res, fold (\<lambda>(t, i). onAckReceived t i) (acks r) db1, e1))"

lemma onAckReceived_finishes: "db_ok db \<Longrightarrow> finished i (db_outbox (onAckReceived t i db))"
  by (auto simp: onAckReceived_def Let_def finished_def acked_def db_ok_def store_simps split: option.splits)

lemma fold_acks:
  "db_ok db \<Longrightarrow> db_ok (fold (\<lambda>(t, i). onAckReceived t i) as db) \<and>
     (finished i (db_outbox db) \<or> i \<in> snd ` set as \<longrightarrow>
      finished i (db_outbox (fold (\<lambda>(t, i). onAckReceived t i) as db)))"
proof (induction as arbitrary: db)
  case (Cons a as)
  obtain t j where "a = (t, j)" by fastforce
  then show ?case
    using Cons.IH [OF onAckReceived_ok [OF Cons.prems, of t j]] Cons.prems
      onAckReceived_finished [of db i t j] onAckReceived_finishes [of db j t] by auto
qed simp

lemma with_acks_finishes:
  assumes "with_acks acks send r db e = (res, db', e')"
    and "\<And>db1 e1. send r db e = (res, db1, e1) \<Longrightarrow> db_ok db1"
  shows "db_ok db' \<and> (i \<in> snd ` set (acks r) \<longrightarrow> finished i (db_outbox db'))"
  using assms fold_acks [of _ "acks r" i] by (auto simp: with_acks_def Let_def split: prod.splits)

lemma with_acks_env:
  assumes "delivery_env send plan"
  shows "delivery_env (with_acks acks send) plan"
proof -
  have keeps: "db_ok db' \<and> (finished i (db_outbox db) \<longrightarrow> finished i (db_outbox db'))"
    if ok: "db_ok db" and w: "with_acks acks send r db e = (res, db', e')" for db r e res db' e' i
  proof -
    obtain db1 where d: "send r db e = (res, db1, e')" "db' = fold (\<lambda>(t, i). onAckReceived t i) (acks r) db1"
      using w by (auto simp: with_acks_def Let_def split: prod.splits)
    show ?thesis
      using fold_acks [OF delivery_env.send_ok [OF assms ok d(1)], of "acks r" i]
        delivery_env.send_finished [OF assms ok d(1), of i] d(2) by blast
  qed
  show ?thesis
    by unfold_locales (use keeps delivery_env.plan_ok [OF assms] delivery_env.plan_finished [OF assms] in \<open>blast\<close>)+
qed

subsection \<open>An acknowledgement between the query and the requeueing\<close>

text \<open>
  The worker reads the timed-out records and then writes them back one by one; an
  acknowledgement may be handled between the two. A state is the outbox and the records the
  worker has read but not yet requeued.
\<close>

record requeue_state =
  rq_outbox :: "outbox_record list"
  rq_todo :: "outbox_record list"

inductive requeue_step :: "time_ms \<Rightarrow> nat \<Rightarrow> requeue_state \<Rightarrow> requeue_state \<Rightarrow> bool" for now n where
  rq_list: "rq_todo s = [] \<Longrightarrow>
     requeue_step now n s (s\<lparr>rq_todo := listInFlightTimedOut now n (rq_outbox s)\<rparr>)"
| rq_write: "rq_todo s = r # rs \<Longrightarrow>
     requeue_step now n s (s\<lparr>rq_outbox := requeue_one now r (rq_outbox s), rq_todo := rs\<rparr>)"
| rq_ack: "requeue_step now n s
     (s\<lparr>rq_outbox := updateOutbox i (\<lambda>q. q\<lparr>ob_status := Some Acked\<rparr>) (rq_outbox s)\<rparr>)"

lemma requeue_step_ok:
  "requeue_step now n s s' \<Longrightarrow> outbox_ok (rq_outbox s) \<Longrightarrow> outbox_ok (rq_outbox s')"
  by (induction rule: requeue_step.induct) (simp_all add: requeue_one_ok outbox.inv_upd)

text \<open>
  An acknowledged record stays acknowledged through any interleaving of the worker and
  further acknowledgements, unless the worker had already read it as timed out.
\<close>

theorem requeue_step_keeps_unlisted_acks:
  assumes "requeue_step now n s s'" and "outbox_ok (rq_outbox s)"
    and "acked i (rq_outbox s)" and "i \<notin> ob_id ` set (rq_todo s)"
  shows "acked i (rq_outbox s') \<and> i \<notin> ob_id ` set (rq_todo s')"
  using assms(1)
proof cases
  case rq_list
  have "\<not> timed_out_at now q" if "q \<in> set (rq_outbox s)" "ob_id q = i" for q
    using that assms(2,3) by (auto simp: acked_iff getOutbox_def tbl_get_iff timed_out_at_def)
      (metis tbl_get_iff option.inject outbox_status.distinct(7))
  then show ?thesis using rq_list assms(3) by (auto dest: set_listInFlightTimedOut)
next
  case (rq_write r rs)
  then have "ob_id r \<noteq> i" using assms(4) by auto
  then show ?thesis
    using rq_write assms by (auto simp: acked_def requeue_one_def store_simps)
next
  case (rq_ack j)
  then show ?thesis using assms by (auto simp: acked_iff store_simps)
qed

text \<open>
  The provision is needed: an acknowledgement handled after the query and before the
  write is overwritten, and the acknowledged message is pending and due again.
\<close>

theorem requeue_overwrites_racing_ack:
  "\<exists>now n s0 s1 s2 s3. requeue_step now n s0 s1 \<and> requeue_step now n s1 s2 \<and> requeue_step now n s2 s3 \<and>
     outbox_ok (rq_outbox s0) \<and> rq_todo s0 = [] \<and>
     acked ''m'' (rq_outbox s2) \<and> \<not> acked ''m'' (rq_outbox s3) \<and>
     ob_id ` set (listRetryableOutbox now n (rq_outbox s3)) = {''m''}"
proof -
  let ?r = "(sample_outbox ''m'' InFlight 100)\<lparr>ob_ackDeadlineMs := Some 5\<rparr>"
  let ?s0 = "\<lparr>rq_outbox = [?r], rq_todo = []\<rparr>"
  let ?s1 = "?s0\<lparr>rq_todo := listInFlightTimedOut 10 1 (rq_outbox ?s0)\<rparr>"
  let ?s2 = "?s1\<lparr>rq_outbox := updateOutbox ''m'' (\<lambda>q. q\<lparr>ob_status := Some Acked\<rparr>) (rq_outbox ?s1)\<rparr>"
  let ?s3 = "?s2\<lparr>rq_outbox := requeue_one 10 ?r (rq_outbox ?s2), rq_todo := []\<rparr>"
  have todo: "rq_todo ?s2 = ?r # []"
    by (simp add: listInFlightTimedOut_def timed_out_at_def within_def expires_after_def sample_outbox_def)
  have "requeue_step 10 1 ?s0 ?s1" by (rule rq_list) simp
  moreover have "requeue_step 10 1 ?s1 ?s2" by (rule rq_ack)
  moreover have "requeue_step 10 1 ?s2 ?s3" using todo by (rule rq_write)
  moreover have "acked ''m'' (rq_outbox ?s2)"
    by (simp add: acked_def outbox_ops tbl_update_def sample_outbox_def)
  moreover have "\<not> acked ''m'' (rq_outbox ?s3)"
    by (simp add: acked_def outbox_ops tbl_update_def requeue_one_def past_expiry_def
        requeue_patch_def sample_outbox_def)
  moreover have "ob_id ` set (listRetryableOutbox 10 1 (rq_outbox ?s3)) = {''m''}"
    by (simp add: listRetryableOutbox_def outbox_ops tbl_update_def requeue_one_def past_expiry_def
        requeue_patch_def sample_outbox_def retryable_at_def within_def expires_after_def)
  moreover have "outbox_ok (rq_outbox ?s0)" by (simp add: tbl_ok_def)
  ultimately show ?thesis by fastforce
qed

subsection \<open>Witnesses\<close>

definition sample_db :: "outbox_record list \<Rightarrow> db_state" where
  "sample_db t = \<lparr>db_outbox = t, db_receipts = [], db_media = [], db_vault = True\<rparr>"

lemma sample_db_ok: "outbox_ok t \<Longrightarrow> db_ok (sample_db t)"
  by (simp add: sample_db_def db_ok_def)

lemma sample_outbox_ok: "outbox_ok [sample_outbox i st e]"
  by (simp add: tbl_ok_def)

theorem onAckReceived_settles_witness:
  "acked ''m'' (db_outbox (onAckReceived 1 ''m'' (sample_db [sample_outbox ''m'' InFlight 100])))"
proof -
  have ok: "db_ok (sample_db [sample_outbox ''m'' InFlight 100])"
    by (rule sample_db_ok) (rule sample_outbox_ok)
  have get: "getOutbox ''m'' (db_outbox (sample_db [sample_outbox ''m'' InFlight 100])) =
      Some (sample_outbox ''m'' InFlight 100)"
    by (simp add: sample_db_def getOutbox_def)
  show ?thesis using onAckReceived_settles [OF ok get, of 1] by (simp add: sample_outbox_def)
qed

theorem enqueueOutgoing_schedules_witness:
  "\<exists>q. getOutbox ''m'' (db_outbox (enqueueOutgoing 7
      ((sample_outbox ''m'' Pending 0)\<lparr>ob_createdAtMs := None, ob_expiresAtMs := None,
         ob_status := None, ob_nextAttemptAtMs := None\<rparr>) (sample_db []))) = Some q \<and>
     retryable_at 8 q"
proof -
  let ?r = "(sample_outbox ''m'' Pending 0)\<lparr>ob_createdAtMs := None, ob_expiresAtMs := None,
         ob_status := None, ob_nextAttemptAtMs := None\<rparr>"
  have ok: "db_ok (sample_db [])" by (rule sample_db_ok) simp
  have r: "ob_createdAtMs ?r = None" "ob_expiresAtMs ?r = None" "ob_status ?r = None"
    "ob_nextAttemptAtMs ?r = None" "(0::int) \<le> 7" by simp_all
  have i: "ob_id ?r = ''m''" by (simp add: sample_outbox_def)
  show ?thesis using enqueueOutgoing_schedules [OF ok r] unfolding i by auto
qed

theorem requeue_timed_out_only_timed_out_witness:
  "getOutbox ''m'' (requeue_timed_out 9 1 [sample_outbox ''m'' Acked 100]) = Some (sample_outbox ''m'' Acked 100)"
proof -
  have get: "getOutbox ''m'' [sample_outbox ''m'' Acked 100] = Some (sample_outbox ''m'' Acked 100)"
    by (simp add: getOutbox_def)
  show ?thesis
    using requeue_timed_out_only_timed_out [OF sample_outbox_ok get, of 9 1] by (simp add: timed_out_at_def)
qed

definition sample_send :: "outbox_record \<Rightarrow> db_state \<Rightarrow> unit \<Rightarrow> send_result \<times> db_state \<times> unit" where
  "sample_send r db e = (SendOk, db, e)"

definition sample_plan ::
    "plan_request_item list \<Rightarrow> db_state \<Rightarrow> unit \<Rightarrow> plan_item list option \<times> db_state \<times> unit" where
  "sample_plan items db e =
     (Some [\<lparr>pi_id = ''m'', pi_attempts = 1, pi_nextAttemptAtMs = 50\<rparr>], db, e)"

theorem tick_sends_only_due_witness:
  "\<exists>s. snd (snd (snd (tick sample_send (Some sample_plan) default_scheduler_opts True 10
      init_scheduler (sample_db [sample_outbox ''m'' Pending 100]) ()))) = [s] \<and> ob_attempts s = Some 1"
proof -
  let ?db = "sample_db [sample_outbox ''m'' Pending 100]"
  obtain st' db' e' sent where t: "tick sample_send (Some sample_plan) default_scheduler_opts True 10
      init_scheduler ?db () = (st', db', e', sent)"
    using prod_cases4 by blast
  have "snd (snd (snd (tick sample_send (Some sample_plan) default_scheduler_opts True 10
      init_scheduler ?db ()))) = [attempt_patch 10 \<lparr>pi_id = ''m'', pi_attempts = 1, pi_nextAttemptAtMs = 50\<rparr>
        (sample_outbox ''m'' Pending 100)]"
    by code_simp
  moreover have "distinct (map ob_id sent)"
    using tick_sends_only_due [OF t] by (simp add: sample_plan_def)
  ultimately show ?thesis by (simp add: attempt_patch_def)
qed

theorem requeue_step_keeps_unlisted_acks_witness:
  "acked ''m'' (rq_outbox \<lparr>rq_outbox = [sample_outbox ''m'' Acked 100],
      rq_todo = listInFlightTimedOut 10 1 [sample_outbox ''m'' Acked 100]\<rparr>)"
proof -
  let ?s = "\<lparr>rq_outbox = [sample_outbox ''m'' Acked 100], rq_todo = []\<rparr>"
  have step: "requeue_step 10 1 ?s (?s\<lparr>rq_todo := listInFlightTimedOut 10 1 (rq_outbox ?s)\<rparr>)"
    by (rule rq_list) simp
  have "outbox_ok (rq_outbox ?s)" using sample_outbox_ok by simp
  moreover have "acked ''m'' (rq_outbox ?s)" by (simp add: acked_def getOutbox_def)
  moreover have "''m'' \<notin> ob_id ` set (rq_todo ?s)" by simp
  ultimately show ?thesis using requeue_step_keeps_unlisted_acks [OF step] by simp
qed

end
