(* ===== verification/Net_Config.thy ===== *)
theory Net_Config
  imports NKC_Prelude
begin

text \<open>
  The network configuration (src/src/net/netConfig.ts, mode.ts) and its store
  (src/src/net/netConfigStore.ts): what is loaded at start, what each setter does, and the
  rules enforced on every configuration, which keep the proxy, the relay-only and the
  no-preview settings on while onion routing is on. The store holds the configuration, what
  local storage holds, and the configurations the internal route runtime was synchronised
  with, oldest first.
\<close>

datatype network_mode = SelfOnion | OnionRouter | DirectP2P
datatype onion_network = TorNet
datatype component_status = CompIdle | Downloading | Installing | CompReady | CompFailed

record component_state =
  cs_installed :: bool
  cs_version :: "string option"
  cs_latest :: "string option"
  cs_status :: component_status
  cs_error :: "string option"
  cs_detail :: "string option"
  cs_progress :: "(int \<times> int) option"

record net_config =
  nc_mode :: network_mode
  nc_onionProxyEnabled :: bool
  nc_onionProxyUrl :: string
  nc_webrtcRelayOnly :: bool
  nc_disableLinkPreview :: bool
  nc_selfOnionEnabled :: bool
  nc_selfOnionMinRelays :: int
  nc_allowRemoteProxy :: bool
  nc_onionEnabled :: bool
  nc_onionSelectedNetwork :: onion_network
  nc_torAutoPrepareOnAppStart :: "bool option"
  nc_tor :: component_state
  nc_lastUpdateCheckAtMs :: "time_ms option"

definition DEFAULT_NET_CONFIG :: net_config where
  "DEFAULT_NET_CONFIG =
     \<lparr>nc_mode = SelfOnion, nc_onionProxyEnabled = False,
      nc_onionProxyUrl = ''http://127.0.0.1:8080'', nc_webrtcRelayOnly = False,
      nc_disableLinkPreview = False, nc_selfOnionEnabled = True, nc_selfOnionMinRelays = 3,
      nc_allowRemoteProxy = False, nc_onionEnabled = False, nc_onionSelectedNetwork = TorNet,
      nc_torAutoPrepareOnAppStart = Some True,
      nc_tor = \<lparr>cs_installed = False, cs_version = None, cs_latest = None, cs_status = CompIdle,
                cs_error = None, cs_detail = None, cs_progress = None\<rparr>,
      nc_lastUpdateCheckAtMs = None\<rparr>"

definition shouldAutoPrepareTor :: "net_config \<Rightarrow> bool" where
  "shouldAutoPrepareTor c \<longleftrightarrow>
     nc_torAutoPrepareOnAppStart c \<noteq> Some False \<and> (nc_mode c = OnionRouter \<or> nc_onionEnabled c)"

subsection \<open>Loading\<close>

text \<open>
  What local storage may hold: a text that is no JSON, or a partial configuration whose mode
  is any string.
\<close>

record partial_config =
  pc_mode :: "string option"
  pc_onionProxyEnabled :: "bool option"
  pc_onionProxyUrl :: "string option"
  pc_webrtcRelayOnly :: "bool option"
  pc_disableLinkPreview :: "bool option"
  pc_selfOnionEnabled :: "bool option"
  pc_selfOnionMinRelays :: "int option"
  pc_allowRemoteProxy :: "bool option"
  pc_onionEnabled :: "bool option"
  pc_onionSelectedNetwork :: "onion_network option"
  pc_torAutoPrepareOnAppStart :: "bool option"
  pc_tor :: "component_state option"
  pc_lastUpdateCheckAtMs :: "time_ms option"

datatype stored_item = Unparsable | Stored partial_config

definition mode_name :: "network_mode \<Rightarrow> string" where
  "mode_name m = (case m of SelfOnion \<Rightarrow> ''selfOnion'' | OnionRouter \<Rightarrow> ''onionRouter''
                   | DirectP2P \<Rightarrow> ''directP2P'')"

definition migrateMode :: "string option \<Rightarrow> network_mode" where
  "migrateMode m =
     (if \<not> truthy_string m then nc_mode DEFAULT_NET_CONFIG
      else if m = Some ''selfOnion'' then SelfOnion
      else if m = Some ''onionRouter'' then OnionRouter
      else if m = Some ''directP2P'' then DirectP2P
      else nc_mode DEFAULT_NET_CONFIG)"

definition clampSelfOnionRelays :: "int \<Rightarrow> int" where
  "clampSelfOnionRelays v = max 3 (min 4 v)"

definition merge_stored :: "partial_config \<Rightarrow> net_config" where
  "merge_stored p =
     (let d = DEFAULT_NET_CONFIG in
      \<lparr>nc_mode = migrateMode (pc_mode p),
       nc_onionProxyEnabled = nullish (pc_onionProxyEnabled p) (nc_onionProxyEnabled d),
       nc_onionProxyUrl = nullish (pc_onionProxyUrl p) (nc_onionProxyUrl d),
       nc_webrtcRelayOnly = nullish (pc_webrtcRelayOnly p) (nc_webrtcRelayOnly d),
       nc_disableLinkPreview = nullish (pc_disableLinkPreview p) (nc_disableLinkPreview d),
       nc_selfOnionEnabled = nullish (pc_selfOnionEnabled p) (nc_selfOnionEnabled d),
       nc_selfOnionMinRelays =
         clampSelfOnionRelays (nullish (pc_selfOnionMinRelays p) (nc_selfOnionMinRelays d)),
       nc_allowRemoteProxy = nullish (pc_allowRemoteProxy p) (nc_allowRemoteProxy d),
       nc_onionEnabled = nullish (pc_onionEnabled p) (nc_onionEnabled d),
       nc_onionSelectedNetwork = nullish (pc_onionSelectedNetwork p) (nc_onionSelectedNetwork d),
       nc_torAutoPrepareOnAppStart = or_else (pc_torAutoPrepareOnAppStart p) (nc_torAutoPrepareOnAppStart d),
       nc_tor = nullish (pc_tor p) (nc_tor d),
       nc_lastUpdateCheckAtMs = or_else (pc_lastUpdateCheckAtMs p) (nc_lastUpdateCheckAtMs d)\<rparr>)"

text \<open>The configuration read, and whether the stored item stays.\<close>

definition loadStoredConfig :: "stored_item option \<Rightarrow> net_config \<times> stored_item option" where
  "loadStoredConfig raw =
     (case raw of
        None \<Rightarrow> (DEFAULT_NET_CONFIG, None)
      | Some Unparsable \<Rightarrow> (DEFAULT_NET_CONFIG, None)
      | Some (Stored p) \<Rightarrow> (merge_stored p, raw))"

definition enforceRules :: "net_config \<Rightarrow> net_config" where
  "enforceRules c =
     (if nc_mode c = OnionRouter \<or> nc_onionEnabled c
      then c\<lparr>nc_mode := OnionRouter, nc_onionProxyEnabled := True, nc_webrtcRelayOnly := True,
             nc_disableLinkPreview := True\<rparr>
      else c)"

subsection \<open>The store\<close>

definition to_partial :: "net_config \<Rightarrow> partial_config" where
  "to_partial c =
     \<lparr>pc_mode = Some (mode_name (nc_mode c)), pc_onionProxyEnabled = Some (nc_onionProxyEnabled c),
      pc_onionProxyUrl = Some (nc_onionProxyUrl c), pc_webrtcRelayOnly = Some (nc_webrtcRelayOnly c),
      pc_disableLinkPreview = Some (nc_disableLinkPreview c),
      pc_selfOnionEnabled = Some (nc_selfOnionEnabled c),
      pc_selfOnionMinRelays = Some (nc_selfOnionMinRelays c),
      pc_allowRemoteProxy = Some (nc_allowRemoteProxy c), pc_onionEnabled = Some (nc_onionEnabled c),
      pc_onionSelectedNetwork = Some (nc_onionSelectedNetwork c),
      pc_torAutoPrepareOnAppStart = nc_torAutoPrepareOnAppStart c, pc_tor = Some (nc_tor c),
      pc_lastUpdateCheckAtMs = nc_lastUpdateCheckAtMs c\<rparr>"

record config_store =
  st_config :: net_config
  st_storage :: "stored_item option"
  st_synced :: "net_config list"

definition persistConfig :: "net_config \<Rightarrow> config_store \<Rightarrow> config_store" where
  "persistConfig c s = s\<lparr>st_storage := Some (Stored (to_partial c))\<rparr>"

definition syncRuntime :: "net_config \<Rightarrow> config_store \<Rightarrow> config_store" where
  "syncRuntime c s = s\<lparr>st_synced := st_synced s @ [c]\<rparr>"

definition init_store :: "stored_item option \<Rightarrow> config_store" where
  "init_store raw =
     (case loadStoredConfig raw of (c, stays) \<Rightarrow>
        \<lparr>st_config = enforceRules c, st_storage = stays, st_synced = []\<rparr>)"

datatype config_op =
    SetMode network_mode
  | SetProxy bool "string option"
  | SetRelayOnly bool
  | SetDisableLinkPreview bool
  | SetSelfOnionEnabled bool
  | SetSelfOnionMinRelays int
  | SetOnionEnabled bool
  | SetOnionNetwork onion_network
  | SetTorAutoPrepareOnAppStart bool
  | SetComponentState onion_network "component_state \<Rightarrow> component_state"
  | SetLastUpdateCheckAt "time_ms option"
  | SetConfig net_config

text \<open>The configuration each setter hands to the rules.\<close>

fun requested_config :: "config_op \<Rightarrow> net_config \<Rightarrow> net_config" where
  "requested_config (SetMode m) c =
     c\<lparr>nc_mode := m, nc_onionEnabled := (if m = OnionRouter then nc_onionEnabled c else False)\<rparr>"
| "requested_config (SetProxy enabled url) c =
     c\<lparr>nc_onionProxyEnabled := enabled, nc_onionProxyUrl := nullish url (nc_onionProxyUrl c)\<rparr>"
| "requested_config (SetRelayOnly v) c = c\<lparr>nc_webrtcRelayOnly := v\<rparr>"
| "requested_config (SetDisableLinkPreview v) c = c\<lparr>nc_disableLinkPreview := v\<rparr>"
| "requested_config (SetSelfOnionEnabled v) c = c\<lparr>nc_selfOnionEnabled := v\<rparr>"
| "requested_config (SetSelfOnionMinRelays v) c = c\<lparr>nc_selfOnionMinRelays := clampSelfOnionRelays v\<rparr>"
| "requested_config (SetOnionEnabled v) c = c\<lparr>nc_onionEnabled := v\<rparr>"
| "requested_config (SetOnionNetwork v) c = c\<lparr>nc_onionSelectedNetwork := v\<rparr>"
| "requested_config (SetTorAutoPrepareOnAppStart v) c = c\<lparr>nc_torAutoPrepareOnAppStart := Some v\<rparr>"
| "requested_config (SetComponentState TorNet patch) c = c\<lparr>nc_tor := patch (nc_tor c)\<rparr>"
| "requested_config (SetLastUpdateCheckAt v) c = c\<lparr>nc_lastUpdateCheckAtMs := v\<rparr>"
| "requested_config (SetConfig next_config) c =
     next_config\<lparr>nc_selfOnionMinRelays := clampSelfOnionRelays (nc_selfOnionMinRelays next_config)\<rparr>"

fun syncs_runtime :: "config_op \<Rightarrow> bool" where
  "syncs_runtime (SetTorAutoPrepareOnAppStart _) = False"
| "syncs_runtime _ = True"

definition apply_config_op :: "config_op \<Rightarrow> config_store \<Rightarrow> config_store" where
  "apply_config_op op s =
     (let next_config = enforceRules (requested_config op (st_config s));
          s1 = persistConfig next_config s;
          s2 = (if syncs_runtime op then syncRuntime next_config s1 else s1)
      in s2\<lparr>st_config := next_config\<rparr>)"

subsection \<open>The rules hold in every reachable configuration\<close>

definition rules_hold :: "net_config \<Rightarrow> bool" where
  "rules_hold c \<longleftrightarrow>
     (nc_onionEnabled c \<longrightarrow> nc_mode c = OnionRouter) \<and>
     (nc_mode c = OnionRouter \<longrightarrow>
        nc_onionProxyEnabled c \<and> nc_webrtcRelayOnly c \<and> nc_disableLinkPreview c)"

definition relays_clamped :: "net_config \<Rightarrow> bool" where
  "relays_clamped c \<longleftrightarrow> 3 \<le> nc_selfOnionMinRelays c \<and> nc_selfOnionMinRelays c \<le> 4"

lemma enforceRules_rules: "rules_hold (enforceRules c)"
  by (simp add: enforceRules_def rules_hold_def)

lemma enforceRules_fixed: "rules_hold c \<Longrightarrow> enforceRules c = c"
  by (auto simp: enforceRules_def rules_hold_def)

lemma enforceRules_relays [simp]: "relays_clamped (enforceRules c) = relays_clamped c"
  by (simp add: enforceRules_def relays_clamped_def)

lemma clampSelfOnionRelays_range: "3 \<le> clampSelfOnionRelays v \<and> clampSelfOnionRelays v \<le> 4"
  by (auto simp: clampSelfOnionRelays_def)

lemma requested_relays: "relays_clamped c \<Longrightarrow> relays_clamped (requested_config op c)"
  using clampSelfOnionRelays_range
  by (cases "(op, c)" rule: requested_config.cases) (auto simp: relays_clamped_def)

definition store_inv :: "config_store \<Rightarrow> bool" where
  "store_inv s \<longleftrightarrow>
     rules_hold (st_config s) \<and> relays_clamped (st_config s) \<and>
     (\<forall>c \<in> set (st_synced s). rules_hold c \<and> relays_clamped c)"

lemma init_store_inv: "store_inv (init_store raw)"
  using clampSelfOnionRelays_range
  by (auto simp: store_inv_def init_store_def loadStoredConfig_def enforceRules_rules
      relays_clamped_def merge_stored_def Let_def DEFAULT_NET_CONFIG_def
      split: option.splits stored_item.splits)
    (auto simp: enforceRules_def merge_stored_def Let_def clampSelfOnionRelays_def)

lemma apply_config_op_inv: "store_inv s \<Longrightarrow> store_inv (apply_config_op op s)"
  by (auto simp: store_inv_def apply_config_op_def Let_def persistConfig_def syncRuntime_def
      enforceRules_rules requested_relays)

text \<open>
  From whatever local storage held, after any sequence of settings, onion routing being
  on means the mode is the onion router with the proxy, relay-only and no-preview settings
  on, the relay count is 3 or 4, and so it was for every configuration the internal route
  runtime was given.
\<close>

theorem config_rules_always_hold:
  "store_inv (fold apply_config_op ops (init_store raw))"
proof -
  have "store_inv s \<Longrightarrow> store_inv (fold apply_config_op ops s)" for s
    by (induction ops arbitrary: s) (simp_all add: apply_config_op_inv)
  then show ?thesis using init_store_inv .
qed

lemma migrateMode_name [simp]: "migrateMode (Some (mode_name m)) = m"
  by (cases m) (simp_all add: migrateMode_def mode_name_def)

text \<open>
  What a setter persists is what the next start loads: the store of a fresh start holds
  the very configuration that was set.
\<close>

theorem persisted_config_reloads:
  assumes "store_inv s"
  shows "(let c = st_config (apply_config_op op s)
          in nc_torAutoPrepareOnAppStart c \<noteq> None \<longrightarrow>
             st_config (init_store (st_storage (apply_config_op op s))) = c)"
proof -
  let ?c = "st_config (apply_config_op op s)"
  have inv: "rules_hold ?c" "relays_clamped ?c"
    using apply_config_op_inv [OF assms, of op] by (simp_all add: store_inv_def)
  have stored: "st_storage (apply_config_op op s) = Some (Stored (to_partial ?c))"
    by (simp add: apply_config_op_def Let_def persistConfig_def syncRuntime_def)
  have clamp: "clampSelfOnionRelays (nc_selfOnionMinRelays ?c) = nc_selfOnionMinRelays ?c"
    using inv(2) by (simp add: relays_clamped_def clampSelfOnionRelays_def)
  have "merge_stored (to_partial ?c) = ?c" if "nc_torAutoPrepareOnAppStart ?c \<noteq> None"
    using that clamp by (auto simp: merge_stored_def to_partial_def Let_def DEFAULT_NET_CONFIG_def)
  then show ?thesis
    using inv(1) by (simp add: Let_def stored init_store_def loadStoredConfig_def enforceRules_fixed)
qed

theorem persisted_config_reloads_witness:
  "st_config (init_store (st_storage (apply_config_op (SetMode OnionRouter) (init_store None)))) =
   st_config (apply_config_op (SetMode OnionRouter) (init_store None))"
proof -
  have "nc_torAutoPrepareOnAppStart (st_config (apply_config_op (SetMode OnionRouter) (init_store None))) \<noteq> None"
    by (simp add: Let_def apply_config_op_def persistConfig_def syncRuntime_def enforceRules_def
      init_store_def loadStoredConfig_def DEFAULT_NET_CONFIG_def)
  then show ?thesis
    using persisted_config_reloads [OF init_store_inv [of None], of "SetMode OnionRouter"]
    unfolding Let_def by blast
qed

end
