(* ===== verification/Route_Controller.thy ===== *)
theory Route_Controller
  imports Net_Config
begin

text \<open>
  Which transport carries a message: the adaptive controller of the self-onion mode
  (src/src/net/routeController.ts), the policy over it (src/src/net/transportPolicy.ts), the
  connection status it is shown with (src/src/net/connectionStatus.ts), and the choice of an
  onion address in the main process (src/src/main/routePolicy.ts). Round-trip times are whole
  milliseconds; the two thresholds the code computes in floating point are written over
  integers, which agrees for histories up to the bounds of 200 and 20 entries.
\<close>

datatype transport_kind = KDirectP2P | KSelfOnion | KOnionRouter

fun kind_of_mode :: "network_mode \<Rightarrow> transport_kind" where
  "kind_of_mode DirectP2P = KDirectP2P"
| "kind_of_mode SelfOnion = KSelfOnion"
| "kind_of_mode OnionRouter = KOnionRouter"

subsection \<open>The controller\<close>

datatype send_event = AckEvent | SendFailEvent

record route_controller =
  rt_ackRtts :: "int list"
  rt_sendHistory :: "send_event list"
  rt_routeBuildFailStreak :: nat
  rt_relayPoolSize :: int
  rt_p95OverSince :: "time_ms option"
  rt_fallbackUntil :: time_ms

definition createRouteController :: route_controller where
  "createRouteController =
     \<lparr>rt_ackRtts = [], rt_sendHistory = [], rt_routeBuildFailStreak = 0, rt_relayPoolSize = 0,
      rt_p95OverSince = None, rt_fallbackUntil = 0\<rparr>"

definition trackRtt :: "int \<Rightarrow> route_controller \<Rightarrow> route_controller" where
  "trackRtt rttMs c = c\<lparr>rt_ackRtts := push_bounded 200 rttMs (rt_ackRtts c)\<rparr>"

definition trackSendEvent :: "send_event \<Rightarrow> route_controller \<Rightarrow> route_controller" where
  "trackSendEvent ev c = c\<lparr>rt_sendHistory := push_bounded 20 ev (rt_sendHistory c)\<rparr>"

definition reportAck :: "int \<Rightarrow> route_controller \<Rightarrow> route_controller" where
  "reportAck rttMs c = trackSendEvent AckEvent (trackRtt rttMs (c\<lparr>rt_routeBuildFailStreak := 0\<rparr>))"

definition reportSendFail :: "transport_kind \<Rightarrow> route_controller \<Rightarrow> route_controller" where
  "reportSendFail kind c = trackSendEvent SendFailEvent c"

definition reportRouteBuildFail :: "route_controller \<Rightarrow> route_controller" where
  "reportRouteBuildFail c = c\<lparr>rt_routeBuildFailStreak := Suc (rt_routeBuildFailStreak c)\<rparr>"

definition reportRelayPoolSize :: "int \<Rightarrow> route_controller \<Rightarrow> route_controller" where
  "reportRelayPoolSize n c = c\<lparr>rt_relayPoolSize := n\<rparr>"

definition getP95 :: "route_controller \<Rightarrow> int option" where
  "getP95 c =
     (if rt_ackRtts c = [] then None
      else let sorted_rtts = sort (rt_ackRtts c);
               idx = length sorted_rtts * 95 div 100 - 1
           in Some (sorted_rtts ! idx))"

definition FALLBACK_MS :: int where
  "FALLBACK_MS = 2 * 60 * 1000"

text \<open>Whether to fall back, and the controller with the start of a slow period noted.\<close>

definition shouldFallback :: "net_config \<Rightarrow> time_ms \<Rightarrow> route_controller \<Rightarrow> bool \<times> route_controller" where
  "shouldFallback config now c =
     (if 3 \<le> rt_routeBuildFailStreak c then (True, c)
      else if 0 < rt_relayPoolSize c \<and> rt_relayPoolSize c < nc_selfOnionMinRelays config then (True, c)
      else if 20 \<le> length (rt_sendHistory c) \<and>
              3 * length (rt_sendHistory c)
                < 10 * length (filter (\<lambda>ev. ev = SendFailEvent) (rt_sendHistory c)) then (True, c)
      else case getP95 c of
          None \<Rightarrow> (False, c\<lparr>rt_p95OverSince := None\<rparr>)
        | Some p95 \<Rightarrow>
            if 10000 < p95
            then (case rt_p95OverSince c of
                    None \<Rightarrow> (False, c\<lparr>rt_p95OverSince := Some now\<rparr>)
                  | Some since \<Rightarrow> (FALLBACK_MS \<le> now - since, c))
            else (False, c\<lparr>rt_p95OverSince := None\<rparr>))"

definition decideTransport ::
    "net_config \<Rightarrow> time_ms \<Rightarrow> route_controller \<Rightarrow> transport_kind \<times> route_controller" where
  "decideTransport config now c =
     (if nc_mode config = DirectP2P then (KDirectP2P, c)
      else if nc_mode config = OnionRouter then (KOnionRouter, c)
      else if \<not> nc_selfOnionEnabled config then (KOnionRouter, c)
      else if now < rt_fallbackUntil c then (KOnionRouter, c)
      else case shouldFallback config now c of
          (True, c') \<Rightarrow> (KOnionRouter, c'\<lparr>rt_fallbackUntil := now + FALLBACK_MS\<rparr>)
        | (False, c') \<Rightarrow> (KSelfOnion, c'))"

subsection \<open>The policies\<close>

datatype conversation_kind = ConvDirect | ConvOnion

definition decideConversationTransport ::
    "bool \<Rightarrow> bool \<Rightarrow> conversation_kind \<times> conversation_kind option" where
  "decideConversationTransport allowDirect directOnly =
     (if directOnly then (ConvDirect, None)
      else if allowDirect then (ConvDirect, Some ConvOnion)
      else (ConvOnion, None))"

definition decideRouterTransport ::
    "net_config \<Rightarrow> time_ms \<Rightarrow> route_controller \<Rightarrow> transport_kind \<times> route_controller" where
  "decideRouterTransport config now c =
     (if nc_onionEnabled config then (KOnionRouter, c)
      else if nc_mode config = OnionRouter then (KOnionRouter, c)
      else if nc_mode config = SelfOnion then (KSelfOnion, c)
      else if nc_mode config = DirectP2P then (KDirectP2P, c)
      else decideTransport config now c)"

subsection \<open>The connection status\<close>

datatype transport_state = TIdle | TConnecting | TConnected | TDegraded | TFailed

record connection_status =
  cn_state :: transport_state
  cn_transport :: "transport_kind option"

record status_hub =
  hub_current :: connection_status
  hub_listeners :: "nat list"
  hub_notified :: "(nat \<times> connection_status) list"

definition init_hub :: status_hub where
  "init_hub = \<lparr>hub_current = \<lparr>cn_state = TIdle, cn_transport = None\<rparr>, hub_listeners = [], hub_notified = []\<rparr>"

definition onConnectionStatus :: "nat \<Rightarrow> status_hub \<Rightarrow> status_hub" where
  "onConnectionStatus l h =
     h\<lparr>hub_listeners := (if l \<in> set (hub_listeners h) then hub_listeners h else hub_listeners h @ [l]),
       hub_notified := hub_notified h @ [(l, hub_current h)]\<rparr>"

definition unsubscribeConnectionStatus :: "nat \<Rightarrow> status_hub \<Rightarrow> status_hub" where
  "unsubscribeConnectionStatus l h = h\<lparr>hub_listeners := removeAll l (hub_listeners h)\<rparr>"

definition updateConnectionStatus ::
    "transport_state \<Rightarrow> transport_kind option \<Rightarrow> status_hub \<Rightarrow> status_hub" where
  "updateConnectionStatus state transport h =
     (if cn_state (hub_current h) = state \<and> cn_transport (hub_current h) = transport then h
      else let next_status = \<lparr>cn_state = state, cn_transport = transport\<rparr>
           in h\<lparr>hub_current := next_status,
                hub_notified := hub_notified h @ map (\<lambda>l. (l, next_status)) (hub_listeners h)\<rparr>)"

subsection \<open>Onion addresses\<close>

definition base32_char :: "char \<Rightarrow> bool" where
  "base32_char c = (let n = (of_char c :: nat) in (97 \<le> n \<and> n \<le> 122) \<or> (50 \<le> n \<and> n \<le> 55))"

definition normalizeRouteTarget :: "string \<Rightarrow> string option" where
  "normalizeRouteTarget v =
     (let trimmed = to_lower (trim v)
      in if length trimmed = 62 \<and> list_all base32_char (take 56 trimmed) \<and> drop 56 trimmed = ''.onion''
         then Some trimmed else None)"

text \<open>The availability of Tor is \<open>Some False\<close> only where it is known to be off.\<close>

definition selectRoute :: "string option \<Rightarrow> bool option \<Rightarrow> string list" where
  "selectRoute torOnion torAvailable =
     (if torAvailable = Some False \<or> \<not> truthy_string torOnion then []
      else case normalizeRouteTarget (the torOnion) of None \<Rightarrow> [] | Some target \<Rightarrow> [target])"

subsection \<open>Properties\<close>

lemma shouldFallback_frame:
  "rt_fallbackUntil (snd (shouldFallback config now c)) = rt_fallbackUntil c"
  "rt_ackRtts (snd (shouldFallback config now c)) = rt_ackRtts c"
  "rt_sendHistory (snd (shouldFallback config now c)) = rt_sendHistory c"
  by (simp_all add: shouldFallback_def split: option.split)

lemma decideTransport_eq:
  "decideTransport config now c =
     (if nc_mode config = DirectP2P then (KDirectP2P, c)
      else if nc_mode config = OnionRouter \<or> \<not> nc_selfOnionEnabled config \<or> now < rt_fallbackUntil c
      then (KOnionRouter, c)
      else let c' = snd (shouldFallback config now c)
           in if fst (shouldFallback config now c)
              then (KOnionRouter, c'\<lparr>rt_fallbackUntil := now + FALLBACK_MS\<rparr>) else (KSelfOnion, c'))"
  by (simp add: decideTransport_def Let_def split: prod.split bool.split)

lemma decideTransport_frame:
  "rt_ackRtts (snd (decideTransport config now c)) = rt_ackRtts c"
  "rt_sendHistory (snd (decideTransport config now c)) = rt_sendHistory c"
  by (simp_all add: decideTransport_eq Let_def shouldFallback_frame)

lemma decideTransport_direct:
  "fst (decideTransport config now c) = KDirectP2P \<longleftrightarrow> nc_mode config = DirectP2P"
  by (simp add: decideTransport_eq Let_def)

lemma decideTransport_onion: "nc_mode config = OnionRouter \<Longrightarrow> fst (decideTransport config now c) = KOnionRouter"
  by (simp add: decideTransport_eq)

lemma decideRouterTransport_fst:
  "fst (decideRouterTransport config now c) =
     (if nc_onionEnabled config then KOnionRouter else kind_of_mode (nc_mode config))"
  by (cases "nc_mode config") (simp_all add: decideRouterTransport_def)

text \<open>
  Direct peer-to-peer is chosen only where the configuration asks for it: with the rules
  of the configuration in force, never while onion routing is on, whatever the controller has
  seen; and deciding changes no history the controller keeps.
\<close>

theorem direct_only_on_request:
  assumes "rules_hold config"
  shows "(fst (decideRouterTransport config now c) = KDirectP2P \<longrightarrow>
            nc_mode config = DirectP2P \<and> \<not> nc_onionEnabled config) \<and>
         (fst (decideTransport config now c) = KDirectP2P \<longleftrightarrow> nc_mode config = DirectP2P) \<and>
         (nc_onionEnabled config \<longrightarrow> fst (decideRouterTransport config now c) = KOnionRouter \<and>
            fst (decideTransport config now c) = KOnionRouter) \<and>
         rt_sendHistory (snd (decideTransport config now c)) = rt_sendHistory c \<and>
         rt_ackRtts (snd (decideTransport config now c)) = rt_ackRtts c"
  using assms
  by (cases "nc_mode config")
    (simp_all add: decideRouterTransport_fst decideTransport_direct decideTransport_frame
      decideTransport_onion rules_hold_def)

datatype controller_event =
    EvAck int | EvSendFail transport_kind | EvBuildFail | EvPool int | EvDecide net_config time_ms

fun controller_step :: "controller_event \<Rightarrow> route_controller \<Rightarrow> route_controller" where
  "controller_step (EvAck rtt) c = reportAck rtt c"
| "controller_step (EvSendFail k) c = reportSendFail k c"
| "controller_step EvBuildFail c = reportRouteBuildFail c"
| "controller_step (EvPool n) c = reportRelayPoolSize n c"
| "controller_step (EvDecide config now) c = snd (decideTransport config now c)"

definition controller_inv :: "route_controller \<Rightarrow> bool" where
  "controller_inv c \<longleftrightarrow> length (rt_ackRtts c) \<le> 200 \<and> length (rt_sendHistory c) \<le> 20"

lemma controller_step_inv: "controller_inv c \<Longrightarrow> controller_inv (controller_step ev c)"
  by (cases ev)
    (auto simp: controller_inv_def reportAck_def trackRtt_def trackSendEvent_def reportSendFail_def
      reportRouteBuildFail_def reportRelayPoolSize_def length_push_bounded decideTransport_frame)

text \<open>
  The controller's memory stays bounded (200 round-trip times, 20 send events) through
  any run, and the 95th percentile it reads is one of the times it holds.
\<close>

theorem controller_bounded:
  "controller_inv (fold controller_step evs createRouteController) \<and>
   (\<forall>p. getP95 (fold controller_step evs createRouteController) = Some p \<longrightarrow>
      p \<in> set (rt_ackRtts (fold controller_step evs createRouteController)))"
proof -
  have "controller_inv c \<Longrightarrow> controller_inv (fold controller_step evs c)" for c
    by (induction evs arbitrary: c) (simp_all add: controller_step_inv)
  moreover have "controller_inv createRouteController"
    by (simp add: controller_inv_def createRouteController_def)
  moreover have "p \<in> set (rt_ackRtts c)" if "getP95 c = Some p" for p c
  proof -
    from that have ne: "rt_ackRtts c \<noteq> []"
      and p: "p = sort (rt_ackRtts c) ! (length (rt_ackRtts c) * 95 div 100 - 1)"
      by (auto simp: getP95_def Let_def split: if_splits)
    have "length (rt_ackRtts c) * 95 div 100 - 1 < length (sort (rt_ackRtts c))"
      using ne by (cases "rt_ackRtts c") auto
    then have "p \<in> set (sort (rt_ackRtts c))" unfolding p by (rule nth_mem)
    then show ?thesis by simp
  qed
  ultimately show ?thesis by blast
qed

definition in_fallback :: "time_ms \<Rightarrow> route_controller \<Rightarrow> bool" where
  "in_fallback t c \<longleftrightarrow> t < rt_fallbackUntil c"

fun event_time_ok :: "time_ms \<Rightarrow> controller_event \<Rightarrow> bool" where
  "event_time_ok t (EvDecide config now) = (now < t)"
| "event_time_ok t _ = True"

lemma decide_keeps_fallback:
  "now < rt_fallbackUntil c \<Longrightarrow> rt_fallbackUntil (snd (decideTransport config now c)) = rt_fallbackUntil c"
  by (simp add: decideTransport_def)

text \<open>
  Once the self-onion mode falls back to the onion router, it stays there for two
  minutes: whatever is acknowledged, fails or is reported meanwhile, every decision up to the
  end of that period is the onion router.
\<close>

theorem fallback_is_sticky:
  assumes fell_back: "decideTransport config now c = (KOnionRouter, c')"
    and self: "nc_mode config = SelfOnion" "nc_selfOnionEnabled config"
    and began: "rt_fallbackUntil c \<le> now"
    and evs: "\<forall>ev \<in> set evs. event_time_ok (now + FALLBACK_MS) ev"
    and later: "t < now + FALLBACK_MS" and mode: "nc_mode config' \<noteq> DirectP2P"
  shows "fst (decideTransport config' t (fold controller_step evs c')) = KOnionRouter"
proof -
  have until: "rt_fallbackUntil c' = now + FALLBACK_MS"
    using fell_back self began by (auto simp: decideTransport_eq Let_def split: if_splits)
  have step: "rt_fallbackUntil (controller_step ev d) = now + FALLBACK_MS"
    if "rt_fallbackUntil d = now + FALLBACK_MS" "event_time_ok (now + FALLBACK_MS) ev" for ev d
    using that by (cases ev) (auto simp: reportAck_def trackRtt_def trackSendEvent_def reportSendFail_def
        reportRouteBuildFail_def reportRelayPoolSize_def decide_keeps_fallback)
  have "rt_fallbackUntil (fold controller_step evs d) = now + FALLBACK_MS"
    if "rt_fallbackUntil d = now + FALLBACK_MS" for d
    using that evs by (induction evs arbitrary: d) (auto simp: step)
  from this [OF until] later mode show ?thesis
    by (simp add: decideTransport_eq)
qed

lemma normalizeRouteTarget_fixed:
  "normalizeRouteTarget v = Some w \<Longrightarrow> length w = 62 \<and> drop 56 w = ''.onion'' \<and> list_all base32_char (take 56 w)"
  by (auto simp: normalizeRouteTarget_def Let_def split: if_splits)

text \<open>
  A listener hears of a status only when it changes, and what it heard last is current.
\<close>

lemma updateConnectionStatus_idem:
  "updateConnectionStatus s k (updateConnectionStatus s k h) = updateConnectionStatus s k h"
  by (simp add: updateConnectionStatus_def Let_def)

subsection \<open>Witnesses\<close>

theorem direct_only_on_request_witness:
  "fst (decideRouterTransport (enforceRules (DEFAULT_NET_CONFIG\<lparr>nc_onionEnabled := True\<rparr>)) 5
      createRouteController) = KOnionRouter"
  using direct_only_on_request [OF enforceRules_rules [of "DEFAULT_NET_CONFIG\<lparr>nc_onionEnabled := True\<rparr>"],
      of 5 createRouteController]
  by (simp add: enforceRules_def)

theorem fallback_is_sticky_witness:
  "fst (decideTransport DEFAULT_NET_CONFIG 119999
     (fold controller_step [EvAck 5, EvAck 7]
       (snd (decideTransport DEFAULT_NET_CONFIG 0 (createRouteController\<lparr>rt_routeBuildFailStreak := 3\<rparr>)))))
   = KOnionRouter"
proof -
  let ?c = "createRouteController\<lparr>rt_routeBuildFailStreak := 3\<rparr>"
  have d: "decideTransport DEFAULT_NET_CONFIG 0 ?c = (KOnionRouter, ?c\<lparr>rt_fallbackUntil := 0 + FALLBACK_MS\<rparr>)"
    by (simp add: decideTransport_def shouldFallback_def DEFAULT_NET_CONFIG_def createRouteController_def)
  have m: "nc_mode DEFAULT_NET_CONFIG = SelfOnion" "nc_selfOnionEnabled DEFAULT_NET_CONFIG"
    "nc_mode DEFAULT_NET_CONFIG \<noteq> DirectP2P"
    by (simp_all add: DEFAULT_NET_CONFIG_def)
  have u: "rt_fallbackUntil ?c \<le> 0" by (simp add: createRouteController_def)
  have e: "\<forall>ev \<in> set [EvAck 5, EvAck 7]. event_time_ok (0 + FALLBACK_MS) ev" by simp
  have t: "119999 < 0 + FALLBACK_MS" by (simp add: FALLBACK_MS_def)
  show ?thesis using fallback_is_sticky [OF d m(1,2) u e t m(3)] unfolding d by simp
qed

theorem controller_bounded_witness:
  "getP95 (fold controller_step [EvAck 7, EvAck 9] createRouteController) \<noteq> None \<and>
   the (getP95 (fold controller_step [EvAck 7, EvAck 9] createRouteController)) \<in> {7, 9}"
proof -
  have p: "getP95 (fold controller_step [EvAck 7, EvAck 9] createRouteController) = Some 7" by code_simp
  have "rt_ackRtts (fold controller_step [EvAck 7, EvAck 9] createRouteController) = [7, 9]" by code_simp
  then show ?thesis using controller_bounded [of "[EvAck 7, EvAck 9]"] p by auto
qed

end
