(* ===== verification/Router_Core.thy ===== *)
theory Router_Core
  imports Delivery Route_Controller "HOL-Library.Multiset"
begin

text \<open>
  The ground of the router (first half of src/src/net/router.ts): transport errors and how the
  router reads them (with src/src/net/transportErrors.ts), where a message goes
  (deriveRoutingMetaFromStores), the transports the router keeps and starts, the handlers it
  attaches to them, the gate in front of a send, the prewarming of transports and the
  inbound listener with its retry timer. A transport is an interface of the code
  (src/src/adapters/transports/types.ts); here it is a pair of functions for start and send
  on a world of its own, which also say which acknowledgements and state changes the
  transports reported while the router waited; those run through the attached handlers.
\<close>

subsection \<open>Errors\<close>

text \<open>A thrown value as the router reads it: the code, if it has one, and the message.\<close>

record transport_error =
  te_code :: "string option"
  te_message :: string

definition createTransportError :: "string \<Rightarrow> string \<Rightarrow> transport_error" where
  "createTransportError code message = \<lparr>te_code = Some code, te_message = message\<rparr>"

definition plain_error :: "string \<Rightarrow> transport_error" where
  "plain_error message = \<lparr>te_code = None, te_message = message\<rparr>"

definition getTransportErrorCode :: "transport_error \<Rightarrow> string" where
  "getTransportErrorCode e = nullish (te_code e) []"

definition toErrorMessage :: "transport_error \<Rightarrow> string" where
  "toErrorMessage e =
     (let code = getTransportErrorCode e; message = te_message e
      in if code = [] then message
         else if str_includes (to_lower message) (to_lower code) then message
         else code @ '':'' @ message)"

definition createMissingDestinationError :: transport_error where
  "createMissingDestinationError =
     createTransportError ''FATAL_MISCONFIG''
       (''FATAL_MISCONFIG: missing destination '' @ [CHR 0x27] @ ''to'' @ [CHR 0x27])"

definition isFatalMisconfigError :: "transport_error \<Rightarrow> bool" where
  "isFatalMisconfigError e \<longleftrightarrow> getTransportErrorCode e = ''FATAL_MISCONFIG''"

definition isOnionFirstPolicy :: "net_config \<Rightarrow> bool" where
  "isOnionFirstPolicy config \<longleftrightarrow>
     nc_mode config = OnionRouter \<or> nc_mode config = SelfOnion \<or> nc_onionEnabled config"

definition isDirectNotOpenError :: "string \<Rightarrow> bool" where
  "isDirectNotOpenError message \<longleftrightarrow> str_includes (to_lower message) ''direct_not_open''"

definition isOnionNotReadyError :: "transport_error \<Rightarrow> string \<Rightarrow> bool" where
  "isOnionNotReadyError e message \<longleftrightarrow>
     (let code = getTransportErrorCode e; text = to_lower message
      in code = ''INTERNAL_ONION_NOT_READY'' \<or> code = ''TOR_NOT_READY'' \<or>
         str_includes text ''internal_onion_not_ready'' \<or>
         str_includes text ''internal onion route is not ready'' \<or>
         str_includes text ''tor_not_ready'')"

definition isRouteTargetMissingError :: "string \<Rightarrow> bool" where
  "isRouteTargetMissingError message \<longleftrightarrow>
     str_includes message ''forward_failed:no_route_target'' \<or>
     str_includes message ''forward_failed:no_route''"

definition isRouteCandidateMissingError :: "string \<Rightarrow> bool" where
  "isRouteCandidateMissingError message \<longleftrightarrow>
     str_includes message ''forward_failed:no_route'' \<and>
     \<not> str_includes message ''forward_failed:no_route_target''"

definition isOnionProxyUnavailableError :: "string \<Rightarrow> bool" where
  "isOnionProxyUnavailableError message \<longleftrightarrow>
     (let normalized = to_lower message
      in str_includes message ''forward_failed:no_proxy'' \<or>
         str_includes message ''forward_failed:proxy_unreachable'' \<or>
         str_includes normalized ''proxy_unreachable'' \<or>
         str_includes normalized ''tor_not_ready'' \<or>
         str_includes normalized ''onion controller unavailable'' \<or>
         str_includes normalized ''operation was aborted'')"

definition isSelfOnionRouteNotReadyError :: "string \<Rightarrow> bool" where
  "isSelfOnionRouteNotReadyError message \<longleftrightarrow>
     (let normalized = to_lower message
      in str_includes normalized ''internal onion route is not ready'' \<or>
         str_includes normalized ''internal_onion_not_ready'' \<or>
         str_includes normalized ''route_not_ready'')"

definition toRouteDecisionReason :: "transport_error \<Rightarrow> string \<Rightarrow> string" where
  "toRouteDecisionReason e text =
     (if isFatalMisconfigError e then ''MISSING_TO_SKIP''
      else if isRouteTargetMissingError text then ''ROUTE_TARGET_MISSING''
      else if isOnionNotReadyError e text then ''ONION_NOT_READY_DEFER''
      else if isDirectNotOpenError text then ''DIRECT_NOT_OPEN_SKIP''
      else if isRouteCandidateMissingError text then ''NO_ROUTE_CANDIDATE''
      else if isOnionProxyUnavailableError text then ''PROXY_UNAVAILABLE''
      else ''ROUTE_ERROR'')"

subsection \<open>Where a message goes\<close>

record routing_hints =
  rh_onionAddr :: "string option"
  rh_deviceId :: "string option"

record friend_profile =
  fp_id :: string
  fp_friendId :: "string option"
  fp_deviceId :: "string option"
  fp_primaryDeviceId :: "string option"
  fp_routingHints :: "routing_hints option"
  fp_friendCode :: "string option"

record conversation =
  cv_id :: string
  cv_group :: bool
  cv_participants :: "string list"

text \<open>
  The stores of the application as the router reads them. A decoded friend code is read for
  its device and its onion address; decoding it is an operation of its own.
\<close>

record app_stores =
  as_convs :: "conversation list"
  as_me :: "string option"
  as_friends :: "friend_profile list"
  as_decodeFriendCode :: "string \<Rightarrow> (string option \<times> string option) option"

record derived_meta =
  dm_toDeviceId :: "string option"
  dm_torOnion :: "string option"
  dm_staleAliases :: "string list"

definition no_meta :: derived_meta where
  "no_meta = \<lparr>dm_toDeviceId = None, dm_torOnion = None, dm_staleAliases = []\<rparr>"

definition partner_meta :: "app_stores \<Rightarrow> friend_profile \<Rightarrow> derived_meta" where
  "partner_meta st partner =
     (let friendCode = map_option trim (fp_friendCode partner);
          recovered = (case friendCode of
              None \<Rightarrow> None
            | Some code \<Rightarrow> if code = [] then None else as_decodeFriendCode st code);
          hints = fp_routingHints partner;
          toDeviceId = or_else (Option.bind hints rh_deviceId)
            (or_else (fp_primaryDeviceId partner)
              (or_else (fp_deviceId partner) (Option.bind recovered fst)));
          torOnion = or_else (Option.bind hints rh_onionAddr) (Option.bind recovered snd)
      in \<lparr>dm_toDeviceId = toDeviceId,
          dm_torOnion = (if truthy_string torOnion then torOnion else None),
          dm_staleAliases = filter (\<lambda>v. v \<noteq> [] \<and> trim v \<noteq> [])
            ((case fp_friendId partner of None \<Rightarrow> [] | Some f \<Rightarrow> [f]) @ [fp_id partner])\<rparr>)"

definition deriveRoutingMetaFromStores :: "app_stores \<Rightarrow> string \<Rightarrow> derived_meta" where
  "deriveRoutingMetaFromStores st convId =
     (case (List.find (\<lambda>c. cv_id c = convId) (as_convs st), as_me st) of
        (Some conv, Some me) \<Rightarrow>
          if \<not> (\<not> (cv_group conv \<or> 2 < length (cv_participants conv)) \<and>
                length (cv_participants conv) = 2) then no_meta
          else (case List.find (\<lambda>i. i \<noteq> [] \<and> i \<noteq> me) (cv_participants conv) of
              None \<Rightarrow> no_meta
            | Some partnerId \<Rightarrow>
                (case List.find (\<lambda>f. fp_id f = partnerId) (as_friends st) of
                   None \<Rightarrow> no_meta
                 | Some partner \<Rightarrow> partner_meta st partner))
      | _ \<Rightarrow> no_meta)"

subsection \<open>The state of the router\<close>

datatype packet_payload = TextPayload string | BinaryPayload bytes

record transport_packet =
  pk_id :: string
  pk_payload :: packet_payload
  pk_toDeviceId :: string
  pk_torOnion :: "string option"

text \<open>
  The interface of the transports, with the clock. The code builds a transport of a kind at
  its first use; the state keeps which kinds are built, which are started, and the last state
  each reported. The log is an observation: every packet handed to a transport, and its error.
\<close>

datatype transport_event = TeAck time_ms string int | TeState transport_kind transport_state

record 'w transports =
  tr_start :: "transport_kind \<Rightarrow> 'w \<Rightarrow> transport_error option \<times> transport_event list \<times> 'w"
  tr_send :: "transport_kind \<Rightarrow> transport_packet \<Rightarrow> 'w \<Rightarrow>
                transport_error option \<times> transport_event list \<times> 'w"
  tr_clock :: "'w \<Rightarrow> time_ms"

record send_log_entry =
  lg_kind :: transport_kind
  lg_packet :: transport_packet
  lg_error :: "transport_error option"

record 'w router_state =
  ro_db :: db_state
  ro_controller :: route_controller
  ro_cache :: "transport_kind list"
  ro_inboundAttached :: "transport_kind list"
  ro_started :: "transport_kind list"
  ro_states :: "transport_kind \<Rightarrow> transport_state option"
  ro_hub :: status_hub
  ro_routeReady :: bool
  ro_log :: "send_log_entry list"
  ro_world :: 'w

definition handle_ack :: "time_ms \<Rightarrow> string \<Rightarrow> int \<Rightarrow> 'w router_state \<Rightarrow> 'w router_state" where
  "handle_ack now messageId rttMs s =
     s\<lparr>ro_controller := reportAck rttMs (ro_controller s),
       ro_db := onAckReceived now messageId (ro_db s)\<rparr>"

definition handle_state :: "transport_kind \<Rightarrow> transport_state \<Rightarrow> 'w router_state \<Rightarrow> 'w router_state" where
  "handle_state kind state s =
     s\<lparr>ro_states := (ro_states s)(kind := Some state),
       ro_hub := updateConnectionStatus state (Some kind) (ro_hub s)\<rparr>"

fun handle_event :: "transport_event \<Rightarrow> 'w router_state \<Rightarrow> 'w router_state" where
  "handle_event (TeAck now messageId rttMs) s = handle_ack now messageId rttMs s"
| "handle_event (TeState kind state) s = handle_state kind state s"

definition getTransport :: "transport_kind \<Rightarrow> 'w router_state \<Rightarrow> 'w router_state" where
  "getTransport kind s =
     (if kind \<in> set (ro_cache s) then s
      else s\<lparr>ro_inboundAttached := (if kind \<in> set (ro_inboundAttached s) then ro_inboundAttached s
                                    else kind # ro_inboundAttached s),
             ro_cache := kind # ro_cache s\<rparr>)"

definition ensureStarted ::
    "'w transports \<Rightarrow> transport_kind \<Rightarrow> 'w router_state \<Rightarrow> transport_error option \<times> 'w router_state" where
  "ensureStarted tr kind s =
     (if kind \<in> set (ro_started s) then (None, s)
      else (case tr_start tr kind (ro_world s) of
          (err, events, w) \<Rightarrow>
            (let s1 = fold handle_event events (s\<lparr>ro_world := w\<rparr>)
             in (err, s1\<lparr>ro_started := (if err = None then kind # ro_started s1 else ro_started s1)\<rparr>))))"

definition resetRouter :: "'w router_state \<Rightarrow> 'w router_state" where
  "resetRouter s = s\<lparr>ro_cache := [], ro_started := [], ro_inboundAttached := [], ro_states := (\<lambda>_. None)\<rparr>"

subsection \<open>The gate\<close>

record gate_snapshot =
  gs_onionReady :: bool
  gs_torBootstrapped :: "bool option"
  gs_directOpen :: bool
  gs_hasRouteTarget :: bool

datatype gate_decision = GateOpen gate_snapshot | GateDefer gate_snapshot | GateMissingTo gate_snapshot

definition link_open :: "transport_kind \<Rightarrow> 'w router_state \<Rightarrow> bool" where
  "link_open kind s \<longleftrightarrow>
     ro_states s kind = Some TConnected \<or> ro_states s kind = Some TDegraded \<or>
     (cn_transport (hub_current (ro_hub s)) = Some kind \<and>
       (cn_state (hub_current (ro_hub s)) = TConnected \<or> cn_state (hub_current (ro_hub s)) = TDegraded))"

definition toRouteGateSnapshot :: "net_config \<Rightarrow> string option \<Rightarrow> 'w router_state \<Rightarrow> gate_snapshot" where
  "toRouteGateSnapshot config torOnion s =
     \<lparr>gs_onionReady = (if nc_mode config = OnionRouter \<or> nc_onionEnabled config
                       then link_open KOnionRouter s else ro_routeReady s),
      gs_torBootstrapped = (case nc_onionSelectedNetwork config of TorNet \<Rightarrow> Some (link_open KOnionRouter s)),
      gs_directOpen = link_open KDirectP2P s,
      gs_hasRouteTarget = truthy_string torOnion\<rparr>"

definition enforceRouteGate ::
    "transport_kind \<Rightarrow> net_config \<Rightarrow> string option \<Rightarrow> string option \<Rightarrow> 'w router_state \<Rightarrow> gate_decision" where
  "enforceRouteGate wanted config toDeviceId torOnion s =
     (let snapshot = toRouteGateSnapshot config torOnion s
      in if \<not> truthy_string toDeviceId \<or> trim (the toDeviceId) = [] then GateMissingTo snapshot
         else if (wanted = KOnionRouter \<or> wanted = KSelfOnion) \<and> nc_mode config = OnionRouter \<and>
                 nc_onionEnabled config \<and> gs_hasRouteTarget snapshot \<and> \<not> gs_onionReady snapshot
         then GateDefer snapshot
         else GateOpen snapshot)"

definition resolveTransportForExplicitRoute ::
    "transport_kind \<Rightarrow> string option \<Rightarrow> 'w router_state \<Rightarrow> transport_kind" where
  "resolveTransportForExplicitRoute chosen torOnion s =
     (if chosen \<noteq> KSelfOnion then chosen
      else if \<not> truthy_string torOnion then chosen
      else if ro_routeReady s then chosen else KOnionRouter)"

definition guarded_mode :: "net_config \<Rightarrow> bool" where
  "guarded_mode config \<longleftrightarrow> nc_mode config = OnionRouter \<or> nc_onionEnabled config"

subsection \<open>Prewarming\<close>

definition getPrewarmKinds :: "transport_kind \<Rightarrow> bool \<Rightarrow> transport_kind list" where
  "getPrewarmKinds chosen includeFallback =
     (if \<not> includeFallback then [chosen]
      else if chosen = KOnionRouter then [KOnionRouter, KDirectP2P, KSelfOnion]
      else if chosen = KDirectP2P then [KDirectP2P, KOnionRouter, KSelfOnion]
      else [KSelfOnion, KOnionRouter, KDirectP2P])"

record prewarm_result =
  pw_chosen :: transport_kind
  pw_requested :: "transport_kind list"
  pw_started :: "transport_kind list"
  pw_failed :: "(transport_kind \<times> string) list"

text \<open>
  The transports are started concurrently; here in the order of the request, each waiting
  for the one before it.
\<close>

fun prewarm_each ::
    "'w transports \<Rightarrow> transport_kind list \<Rightarrow> 'w router_state \<Rightarrow>
     transport_kind list \<times> (transport_kind \<times> string) list \<times> 'w router_state" where
  "prewarm_each tr [] s = ([], [], s)"
| "prewarm_each tr (kind # kinds) s =
     (case ensureStarted tr kind (getTransport kind s) of
        (None, s1) \<Rightarrow>
          (let (ok, bad, s2) = prewarm_each tr kinds s1 in (kind # ok, bad, s2))
      | (Some e, s1) \<Rightarrow>
          (let s1' = s1\<lparr>ro_controller := reportSendFail kind (ro_controller s1)\<rparr>;
               (ok, bad, s2) = prewarm_each tr kinds s1'
           in (ok, (kind, toErrorMessage e) # bad, s2)))"

definition resolve_kind :: "'w transports \<Rightarrow> net_config \<Rightarrow> 'w router_state \<Rightarrow> transport_kind \<times> 'w router_state" where
  "resolve_kind tr config s =
     (let (k, c) = decideRouterTransport config (tr_clock tr (ro_world s)) (ro_controller s)
      in (k, s\<lparr>ro_controller := c\<rparr>))"

definition prewarmRouter ::
    "'w transports \<Rightarrow> net_config \<Rightarrow> bool \<Rightarrow> 'w router_state \<Rightarrow> prewarm_result \<times> 'w router_state" where
  "prewarmRouter tr config includeFallback s =
     (let (chosen, s1) = resolve_kind tr config s;
          requested = remdups (getPrewarmKinds chosen includeFallback);
          (ok, bad, s2) = prewarm_each tr requested s1
      in (\<lparr>pw_chosen = chosen, pw_requested = requested, pw_started = ok, pw_failed = bad\<rparr>, s2))"

subsection \<open>The inbound listener\<close>

text \<open>
  The listener starts the onion transports for the handlers that subscribed, one start at a
  time; when the onion router fails to start it tries again after a growing delay.
\<close>

record inbound_state =
  ib_handlers :: "nat list"
  ib_starting :: bool
  ib_timer :: "int option"
  ib_attempt :: nat

definition init_inbound :: inbound_state where
  "init_inbound = \<lparr>ib_handlers = [], ib_starting = False, ib_timer = None, ib_attempt = 0\<rparr>"

definition INBOUND_RETRY_BASE_MS :: int where "INBOUND_RETRY_BASE_MS = 2000"
definition INBOUND_RETRY_MAX_MS :: int where "INBOUND_RETRY_MAX_MS = 30000"

definition inbound_delay :: "nat \<Rightarrow> int" where
  "inbound_delay attempt = min INBOUND_RETRY_MAX_MS (INBOUND_RETRY_BASE_MS * 2 ^ attempt)"

definition ensureInboundListener :: "inbound_state \<Rightarrow> inbound_state" where
  "ensureInboundListener s =
     (if ib_starting s then s else if ib_handlers s = [] then s else s\<lparr>ib_starting := True\<rparr>)"

definition inbound_started :: "bool \<Rightarrow> inbound_state \<Rightarrow> inbound_state" where
  "inbound_started onionRouterFailed s =
     (let s1 = (if onionRouterFailed \<and> ib_handlers s \<noteq> [] \<and> ib_timer s = None
                then s\<lparr>ib_timer := Some (inbound_delay (ib_attempt s)), ib_attempt := Suc (ib_attempt s)\<rparr>
                else if \<not> onionRouterFailed then s\<lparr>ib_attempt := 0\<rparr> else s)
      in s1\<lparr>ib_starting := False\<rparr>)"

definition onIncomingPacket :: "nat \<Rightarrow> inbound_state \<Rightarrow> inbound_state" where
  "onIncomingPacket h s =
     ensureInboundListener (s\<lparr>ib_handlers := (if h \<in> set (ib_handlers s) then ib_handlers s
                                              else ib_handlers s @ [h])\<rparr>)"

definition offIncomingPacket :: "nat \<Rightarrow> inbound_state \<Rightarrow> inbound_state" where
  "offIncomingPacket h s =
     (let s1 = s\<lparr>ib_handlers := removeAll h (ib_handlers s)\<rparr>
      in if ib_handlers s1 = [] \<and> ib_timer s1 \<noteq> None then s1\<lparr>ib_timer := None, ib_attempt := 0\<rparr> else s1)"

datatype inbound_event = IbSubscribe nat | IbUnsubscribe nat | IbStarted bool | IbTimer

fun inbound_step :: "inbound_event \<Rightarrow> inbound_state \<Rightarrow> inbound_state" where
  "inbound_step (IbSubscribe h) s = onIncomingPacket h s"
| "inbound_step (IbUnsubscribe h) s = offIncomingPacket h s"
| "inbound_step (IbStarted failed) s = (if ib_starting s then inbound_started failed s else s)"
| "inbound_step IbTimer s =
     (if ib_timer s = None then s else ensureInboundListener (s\<lparr>ib_timer := None\<rparr>))"

definition inbound_inv :: "inbound_state \<Rightarrow> bool" where
  "inbound_inv s \<longleftrightarrow>
     (case ib_timer s of None \<Rightarrow> True
      | Some d \<Rightarrow> ib_handlers s \<noteq> [] \<and> INBOUND_RETRY_BASE_MS \<le> d \<and> d \<le> INBOUND_RETRY_MAX_MS)"

subsection \<open>What the listener and the prewarming do\<close>

lemma inbound_delay_bounds:
  "INBOUND_RETRY_BASE_MS \<le> inbound_delay n \<and> inbound_delay n \<le> INBOUND_RETRY_MAX_MS"
proof -
  have "1 \<le> (2::int) ^ n" by simp
  then show ?thesis by (auto simp: inbound_delay_def INBOUND_RETRY_BASE_MS_def INBOUND_RETRY_MAX_MS_def)
qed

lemma ensureInboundListener_frame [simp]:
  "ib_timer (ensureInboundListener s) = ib_timer s"
  "ib_handlers (ensureInboundListener s) = ib_handlers s"
  "ib_attempt (ensureInboundListener s) = ib_attempt s"
  by (simp_all add: ensureInboundListener_def)

lemma inbound_step_inv: "inbound_inv s \<Longrightarrow> inbound_inv (inbound_step ev s)"
  by (cases ev)
    (auto simp: inbound_inv_def onIncomingPacket_def offIncomingPacket_def inbound_started_def Let_def
      inbound_delay_bounds split: option.splits)

lemma inbound_run_inv: "inbound_inv s \<Longrightarrow> inbound_inv (fold inbound_step evs s)"
  by (induction evs arbitrary: s) (simp_all add: inbound_step_inv)

lemma inbound_failures:
  assumes "ib_handlers s \<noteq> []" "ib_starting s" "ib_timer s = None"
  shows "fold inbound_step (concat (replicate n [IbStarted True, IbTimer])) s =
      s\<lparr>ib_attempt := ib_attempt s + n\<rparr>"
  using assms
proof (induction n arbitrary: s)
  case 0
  then show ?case by simp
next
  case (Suc n)
  have "fold inbound_step [IbStarted True, IbTimer] s = s\<lparr>ib_attempt := Suc (ib_attempt s)\<rparr>"
    using Suc.prems by (simp add: inbound_started_def Let_def ensureInboundListener_def)
  then show ?case using Suc.IH [of "s\<lparr>ib_attempt := Suc (ib_attempt s)\<rparr>"] Suc.prems by simp
qed

text \<open>
  A retry of the inbound listener is only ever armed while a handler is subscribed and
  waits between 2 and 30 seconds, through any run; and the delay doubles from 2 seconds with
  every failed start in a row, up to that bound.
\<close>

theorem inbound_retry_backoff:
  "inbound_inv (fold inbound_step evs init_inbound) \<and>
   (ib_handlers s \<noteq> [] \<longrightarrow> ib_starting s \<longrightarrow> ib_timer s = None \<longrightarrow> ib_attempt s = 0 \<longrightarrow>
    ib_timer (fold inbound_step (concat (replicate n [IbStarted True, IbTimer]) @ [IbStarted True]) s) =
      Some (min 30000 (2000 * 2 ^ n)))"
proof -
  have "inbound_inv init_inbound" by (simp add: inbound_inv_def init_inbound_def)
  then have "inbound_inv (fold inbound_step evs init_inbound)" by (rule inbound_run_inv)
  moreover have "ib_timer (fold inbound_step (concat (replicate n [IbStarted True, IbTimer]) @ [IbStarted True]) s)
      = Some (min 30000 (2000 * 2 ^ n))"
    if "ib_handlers s \<noteq> []" "ib_starting s" "ib_timer s = None" "ib_attempt s = 0"
    using that by (simp add: inbound_failures inbound_started_def Let_def inbound_delay_def
        INBOUND_RETRY_BASE_MS_def INBOUND_RETRY_MAX_MS_def)
  ultimately show ?thesis by blast
qed

theorem inbound_retry_backoff_witness:
  "ib_timer (fold inbound_step (concat (replicate 3 [IbStarted True, IbTimer]) @ [IbStarted True])
     (onIncomingPacket 7 init_inbound)) = Some 16000"
  using inbound_retry_backoff [of "[]" "onIncomingPacket 7 init_inbound" 3]
  by (simp add: onIncomingPacket_def ensureInboundListener_def init_inbound_def)

lemma handle_event_frame [simp]:
  "ro_log (handle_event ev s) = ro_log s" "ro_started (handle_event ev s) = ro_started s"
  "ro_cache (handle_event ev s) = ro_cache s" "ro_routeReady (handle_event ev s) = ro_routeReady s"
  "ro_world (handle_event ev s) = ro_world s"
  by (cases ev; simp add: handle_ack_def handle_state_def)+

lemma handle_events_frame [simp]:
  "ro_log (fold handle_event evs s) = ro_log s" "ro_started (fold handle_event evs s) = ro_started s"
  "ro_routeReady (fold handle_event evs s) = ro_routeReady s" "ro_world (fold handle_event evs s) = ro_world s"
  by (induction evs arbitrary: s) simp_all

lemma handle_event_db:
  "db_ok (ro_db s) \<Longrightarrow> db_ok (ro_db (handle_event ev s))"
  "db_ok (ro_db s) \<Longrightarrow> finished i (db_outbox (ro_db s)) \<Longrightarrow> finished i (db_outbox (ro_db (handle_event ev s)))"
  by (cases ev; simp add: handle_ack_def handle_state_def onAckReceived_ok onAckReceived_finished)+

lemma handle_events_db:
  "db_ok (ro_db s) \<Longrightarrow> db_ok (ro_db (fold handle_event evs s)) \<and>
     (finished i (db_outbox (ro_db s)) \<longrightarrow> finished i (db_outbox (ro_db (fold handle_event evs s))))"
  by (induction evs arbitrary: s) (simp_all add: handle_event_db)

lemma ensureStarted_log [simp]: "ro_log (snd (ensureStarted tr kind s)) = ro_log s"
  by (simp add: ensureStarted_def Let_def split: prod.split)

lemma ensureStarted_db:
  "db_ok (ro_db s) \<Longrightarrow> db_ok (ro_db (snd (ensureStarted tr kind s))) \<and>
     (finished i (db_outbox (ro_db s)) \<longrightarrow> finished i (db_outbox (ro_db (snd (ensureStarted tr kind s)))))"
  using handle_events_db [where s = "s\<lparr>ro_world := snd (snd (tr_start tr kind (ro_world s)))\<rparr>" and
      evs = "fst (snd (tr_start tr kind (ro_world s)))" and i = i]
  by (simp add: ensureStarted_def Let_def split: prod.split) auto

lemma getTransport_frame [simp]:
  "ro_db (getTransport kind s) = ro_db s" "ro_controller (getTransport kind s) = ro_controller s"
  "ro_log (getTransport kind s) = ro_log s" "ro_world (getTransport kind s) = ro_world s"
  "ro_started (getTransport kind s) = ro_started s"
  by (simp_all add: getTransport_def)

lemma getTransport_idem [simp]: "getTransport kind (getTransport kind s) = getTransport kind s"
  by (simp add: getTransport_def)

lemma ensureStarted_ok:
  "ensureStarted tr kind s = (None, s') \<Longrightarrow> kind \<in> set (ro_started s') \<and> set (ro_started s) \<subseteq> set (ro_started s')"
  by (auto simp: ensureStarted_def Let_def split: if_splits prod.splits)

lemma ensureStarted_mono: "set (ro_started s) \<subseteq> set (ro_started (snd (ensureStarted tr kind s)))"
  by (auto simp: ensureStarted_def Let_def split: prod.split)

lemma prewarm_each_started:
  "prewarm_each tr kinds s = (ok, bad, s') \<Longrightarrow>
   set ok \<subseteq> set (ro_started s') \<and> set (ro_started s) \<subseteq> set (ro_started s') \<and> ro_log s' = ro_log s \<and>
   mset ok + mset (map fst bad) = mset kinds"
proof (induction kinds arbitrary: s ok bad s')
  case Nil
  then show ?case by simp
next
  case (Cons kind kinds)
  obtain r s1 where e: "ensureStarted tr kind (getTransport kind s) = (r, s1)" by fastforce
  have s1: "ro_log s1 = ro_log s" "set (ro_started s) \<subseteq> set (ro_started s1)"
    using ensureStarted_log [of tr kind "getTransport kind s"]
      ensureStarted_mono [of "getTransport kind s" tr kind] by (simp_all add: e)
  show ?case
  proof (cases r)
    case None
    obtain ok1 bad1 where p: "prewarm_each tr kinds s1 = (ok1, bad1, s')" "ok = kind # ok1" "bad = bad1"
      using Cons.prems by (auto simp: e None split: prod.splits)
    then show ?thesis
      using Cons.IH [OF p(1)] ensureStarted_ok [OF e [unfolded None]] s1 by auto
  next
    case (Some err)
    obtain ok1 bad1 where p: "prewarm_each tr kinds (s1\<lparr>ro_controller := reportSendFail kind (ro_controller s1)\<rparr>)
        = (ok1, bad1, s')" "ok = ok1" "bad = (kind, toErrorMessage err) # bad1"
      using Cons.prems by (auto simp: e Some Let_def split: prod.splits)
    then show ?thesis
      using Cons.IH [OF p(1)] s1
      by auto
  qed
qed

lemma resolve_kind_frame [simp]:
  "ro_db (snd (resolve_kind tr config s)) = ro_db s" "ro_log (snd (resolve_kind tr config s)) = ro_log s"
  "ro_started (snd (resolve_kind tr config s)) = ro_started s"
  "ro_world (snd (resolve_kind tr config s)) = ro_world s"
  "ro_routeReady (snd (resolve_kind tr config s)) = ro_routeReady s"
  by (simp_all add: resolve_kind_def split: prod.split)

lemma resolve_kind_fst:
  "fst (resolve_kind tr config s) =
     (if nc_onionEnabled config then KOnionRouter else kind_of_mode (nc_mode config))"
  by (simp add: resolve_kind_def decideRouterTransport_fst split: prod.split)
    (metis decideRouterTransport_fst fst_conv)

text \<open>
  Prewarming sends nothing; it tries the kind that is in use and, if asked, the two
  others, each once; each is reported exactly once, as started or as failed; and what it
  reports as started is started.
\<close>

theorem prewarmRouter_reports:
  "let (r, s') = prewarmRouter tr config fb s
   in ro_log s' = ro_log s \<and> set (pw_started r) \<subseteq> set (ro_started s') \<and>
      mset (pw_started r) + mset (map fst (pw_failed r)) = mset (pw_requested r) \<and>
      distinct (pw_requested r) \<and> pw_chosen r \<in> set (pw_requested r) \<and>
      set (pw_requested r) = (if fb then {KDirectP2P, KSelfOnion, KOnionRouter} else {pw_chosen r})"
proof -
  obtain chosen s1 where c: "resolve_kind tr config s = (chosen, s1)" by fastforce
  obtain ok bad s2 where p: "prewarm_each tr (remdups (getPrewarmKinds chosen fb)) s1 = (ok, bad, s2)"
    using prod_cases3 by blast
  have "ro_log s1 = ro_log s" using resolve_kind_frame(2) [of tr config s] by (simp add: c)
  moreover have "set (getPrewarmKinds chosen fb) = (if fb then {KDirectP2P, KSelfOnion, KOnionRouter} else {chosen})"
    by (cases chosen) (auto simp: getPrewarmKinds_def)
  moreover have "chosen \<in> set (getPrewarmKinds chosen fb)" by (cases chosen) (auto simp: getPrewarmKinds_def)
  ultimately show ?thesis
    using prewarm_each_started [OF p] unfolding prewarmRouter_def c Let_def prod.case p by simp
qed

end
