(* ===== verification/Router.thy ===== *)
theory Router
  imports Router_Core
begin

text \<open>
  Sending a message (second half of src/src/net/router.ts): sendCiphertext, which stores a new
  message and tries to send it at once, and sendOutboxRecord, which the delivery worker calls
  for a stored one; both try the chosen transport and then the fallbacks the error allows. The
  outbox scheduler (src/src/net/outboxScheduler.ts) ties the second to the worker. Trace logs
  and the diagnostic field of the result, which only repeats what the call knew, are left out.
\<close>

subsection \<open>One attempt\<close>

text \<open>The guards before an attempt; the flags lift the two that keep onion mode strict.\<close>

definition attempt_guard ::
    "net_config \<Rightarrow> string option \<Rightarrow> transport_kind \<Rightarrow> bool \<Rightarrow> bool \<Rightarrow> transport_error option" where
  "attempt_guard config toDeviceId kind allowDirect allowSelfOnion =
     (if \<not> truthy_string toDeviceId then Some createMissingDestinationError
      else if guarded_mode config \<and> kind = KDirectP2P \<and> \<not> allowDirect
      then Some (plain_error ''Direct P2P blocked in onion router mode'')
      else if guarded_mode config \<and> kind = KSelfOnion \<and> \<not> allowSelfOnion
      then Some (plain_error ''Self-onion blocked while onion router is enabled'')
      else None)"

definition make_packet :: "outbox_record \<Rightarrow> string \<Rightarrow> string option \<Rightarrow> transport_packet" where
  "make_packet r toDeviceId torOnion =
     \<lparr>pk_id = ob_id r,
      pk_payload = (if ob_binaryTransport r = Some True then BinaryPayload (encode_utf8 (ob_ciphertext r))
                    else TextPayload (ob_ciphertext r)),
      pk_toDeviceId = toDeviceId, pk_torOnion = torOnion\<rparr>"

definition transport_send ::
    "'w transports \<Rightarrow> transport_kind \<Rightarrow> transport_packet \<Rightarrow> 'w router_state \<Rightarrow>
     transport_error option \<times> 'w router_state" where
  "transport_send tr kind packet s =
     (case tr_send tr kind packet (ro_world s) of
        (err, events, w) \<Rightarrow>
          (let s1 = fold handle_event events (s\<lparr>ro_world := w\<rparr>)
           in (err, s1\<lparr>ro_log := ro_log s1 @ [\<lparr>lg_kind = kind, lg_packet = packet, lg_error = err\<rparr>]\<rparr>)))"

text \<open>
  The loops below are the same in both functions and take the attempt as an argument; its
  state is the record the function holds and the state of the router.
\<close>

type_synonym 'w attempt_state = "outbox_record \<times> 'w router_state"
type_synonym 'w attempt =
  "transport_kind \<Rightarrow> bool \<Rightarrow> bool \<Rightarrow> 'w attempt_state \<Rightarrow> transport_error option \<times> 'w attempt_state"

definition cipher_attempt ::
    "'w transports \<Rightarrow> net_config \<Rightarrow> string option \<Rightarrow> string option \<Rightarrow> 'w attempt" where
  "cipher_attempt tr config toDeviceId torOnion kind allowDirect allowSelfOnion rs =
     (let (r, s) = rs
      in case attempt_guard config toDeviceId kind allowDirect allowSelfOnion of
           Some e \<Rightarrow> (Some e, r, s)
         | None \<Rightarrow>
             (case ensureStarted tr kind (getTransport kind s) of
                (Some e, s1) \<Rightarrow> (Some e, r, s1)
              | (None, s1) \<Rightarrow>
                  (let r1 = r\<lparr>ob_attempts := Some (nullish (ob_attempts r) 0 + 1),
                              ob_lastAttemptAtMs := Some (tr_clock tr (ro_world s1))\<rparr>;
                       s2 = s1\<lparr>ro_db := (ro_db s1)\<lparr>db_outbox := putOutbox r1 (db_outbox (ro_db s1))\<rparr>\<rparr>;
                       (err, s3) = transport_send tr kind (make_packet r1 (the toDeviceId) torOnion) s2
                   in (err, r1, s3))))"

definition outbox_attempt ::
    "'w transports \<Rightarrow> net_config \<Rightarrow> string option \<Rightarrow> string option \<Rightarrow> 'w attempt" where
  "outbox_attempt tr config toDeviceId torOnion kind allowDirect allowSelfOnion rs =
     (let (r, s) = rs
      in case attempt_guard config toDeviceId kind allowDirect allowSelfOnion of
           Some e \<Rightarrow> (Some e, r, s)
         | None \<Rightarrow>
             (case ensureStarted tr kind (getTransport kind s) of
                (Some e, s1) \<Rightarrow> (Some e, r, s1)
              | (None, s1) \<Rightarrow>
                  (let (err, s2) = transport_send tr kind
                         (make_packet r (the toDeviceId)
                           (if truthy_string torOnion then torOnion else None)) s1
                   in (err, r, s2))))"

subsection \<open>The fallbacks\<close>

record fallback_plan =
  fb_direct :: bool
  fb_selfOnion :: bool
  fb_kinds :: "transport_kind list"

definition plan_fallbacks :: "net_config \<Rightarrow> transport_kind \<Rightarrow> string \<Rightarrow> fallback_plan" where
  "plan_fallbacks config chosen message =
     (let allowDirect = (chosen = KOnionRouter \<and>
            (isRouteTargetMissingError message \<or> isOnionProxyUnavailableError message));
          allowSelfOnion = (chosen = KOnionRouter \<and>
            (isOnionProxyUnavailableError message \<or> isRouteCandidateMissingError message))
      in \<lparr>fb_direct = allowDirect, fb_selfOnion = allowSelfOnion,
          fb_kinds = (if allowSelfOnion then [KSelfOnion, KDirectP2P]
                      else if allowDirect then [KDirectP2P]
                      else if chosen = KDirectP2P then [KOnionRouter, KSelfOnion]
                      else if nc_mode config = SelfOnion \<and> chosen = KSelfOnion then [KOnionRouter]
                      else [])\<rparr>)"

record attempt_note =
  an_transport :: transport_kind
  an_fallback :: bool
  an_error :: "string option"

datatype loop_outcome = LoopSent transport_kind | LoopDeferred string | LoopExhausted

record loop_trace =
  lt_notes :: "attempt_note list"
  lt_errors :: "string list"

definition kind_name :: "transport_kind \<Rightarrow> string" where
  "kind_name k = (case k of KDirectP2P \<Rightarrow> ''directP2P'' | KSelfOnion \<Rightarrow> ''selfOnion''
                          | KOnionRouter \<Rightarrow> ''onionRouter'')"

definition note_failure :: "transport_kind \<Rightarrow> bool \<Rightarrow> transport_error \<Rightarrow> loop_trace \<Rightarrow> loop_trace" where
  "note_failure kind fallback e t =
     (if isFatalMisconfigError e then t
      else t\<lparr>lt_notes := lt_notes t @
               [\<lparr>an_transport = kind, an_fallback = fallback, an_error = Some (toErrorMessage e)\<rparr>]\<rparr>)"

definition note_success :: "transport_kind \<Rightarrow> bool \<Rightarrow> loop_trace \<Rightarrow> loop_trace" where
  "note_success kind fallback t =
     t\<lparr>lt_notes := lt_notes t @ [\<lparr>an_transport = kind, an_fallback = fallback, an_error = None\<rparr>]\<rparr>"

definition note_error :: "transport_kind \<Rightarrow> transport_error \<Rightarrow> loop_trace \<Rightarrow> loop_trace" where
  "note_error kind e t = t\<lparr>lt_errors := lt_errors t @ [kind_name kind @ '': '' @ toErrorMessage e]\<rparr>"

definition report_fail :: "transport_kind \<Rightarrow> transport_error \<Rightarrow> 'w router_state \<Rightarrow> 'w router_state" where
  "report_fail kind e s =
     (if isFatalMisconfigError e then s
      else s\<lparr>ro_controller := reportSendFail kind (ro_controller s)\<rparr>)"

definition deferred_reason :: "transport_error \<Rightarrow> string" where
  "deferred_reason e =
     (if getTransportErrorCode e = ''TOR_NOT_READY'' then ''TOR_NOT_READY''
      else ''INTERNAL_ONION_NOT_READY'')"

definition defers :: "net_config \<Rightarrow> transport_kind \<Rightarrow> transport_error \<Rightarrow> bool" where
  "defers config kind e \<longleftrightarrow>
     isOnionFirstPolicy config \<and> (kind = KOnionRouter \<or> kind = KSelfOnion) \<and>
     isOnionNotReadyError e (toErrorMessage e)"

definition retries_self_onion :: "net_config \<Rightarrow> transport_kind \<Rightarrow> nat \<Rightarrow> transport_error \<Rightarrow> bool" where
  "retries_self_onion config kind remaining e \<longleftrightarrow>
     kind = KSelfOnion \<and> 0 < remaining \<and> isSelfOnionRouteNotReadyError (toErrorMessage e) \<and>
     \<not> isOnionFirstPolicy config"

text \<open>The attempts at one kind; the number is how many may still follow this one.\<close>

fun try_kind ::
    "'w attempt \<Rightarrow> net_config \<Rightarrow> fallback_plan \<Rightarrow> transport_kind \<Rightarrow> nat \<Rightarrow> loop_trace \<Rightarrow>
     'w attempt_state \<Rightarrow> loop_outcome \<times> loop_trace \<times> 'w attempt_state" where
  "try_kind attempt config fb kind remaining t rs =
     (case attempt kind (fb_direct fb \<and> kind = KDirectP2P) (fb_selfOnion fb \<and> kind = KSelfOnion) rs of
        (None, rs1) \<Rightarrow> (LoopSent kind, note_success kind True t, rs1)
      | (Some e, r1, s1) \<Rightarrow>
          (let t1 = note_failure kind True e t
           in if defers config kind e then (LoopDeferred (deferred_reason e), t1, r1, s1)
              else (case remaining of
                  0 \<Rightarrow> (LoopExhausted, note_error kind e t1, r1, report_fail kind e s1)
                | Suc n \<Rightarrow>
                    if retries_self_onion config kind remaining e
                    then try_kind attempt config fb kind n t1 (r1, s1)
                    else (LoopExhausted, note_error kind e t1, r1, report_fail kind e s1))))"

definition more_attempts :: "transport_kind \<Rightarrow> nat" where
  "more_attempts kind = (if kind = KSelfOnion then 1 else 0)"

fun try_fallbacks ::
    "'w attempt \<Rightarrow> net_config \<Rightarrow> fallback_plan \<Rightarrow> transport_kind list \<Rightarrow> loop_trace \<Rightarrow>
     'w attempt_state \<Rightarrow> loop_outcome \<times> loop_trace \<times> 'w attempt_state" where
  "try_fallbacks attempt config fb [] t rs = (LoopExhausted, t, rs)"
| "try_fallbacks attempt config fb (kind # kinds) t rs =
     (case try_kind attempt config fb kind (more_attempts kind) t rs of
        (LoopExhausted, t1, rs1) \<Rightarrow> try_fallbacks attempt config fb kinds t1 rs1
      | res \<Rightarrow> res)"

text \<open>The chosen transport and, unless its error settles the matter, the fallbacks.\<close>

datatype send_outcome = OutSent transport_kind | OutFatal string | OutDeferred string | OutExhausted

fun loop_result :: "loop_outcome \<Rightarrow> send_outcome" where
  "loop_result (LoopSent k) = OutSent k"
| "loop_result (LoopDeferred reason) = OutDeferred reason"
| "loop_result LoopExhausted = OutExhausted"

definition send_via ::
    "'w attempt \<Rightarrow> net_config \<Rightarrow> transport_kind \<Rightarrow> 'w attempt_state \<Rightarrow>
     send_outcome \<times> loop_trace \<times> 'w attempt_state" where
  "send_via attempt config chosen rs =
     (let t0 = \<lparr>lt_notes = [], lt_errors = []\<rparr>
      in case attempt chosen False False rs of
           (None, rs1) \<Rightarrow> (OutSent chosen, note_success chosen False t0, rs1)
         | (Some e, r1, s1) \<Rightarrow>
             (let t1 = note_error chosen e (note_failure chosen False e t0);
                  s2 = report_fail chosen e s1
              in if isFatalMisconfigError e then (OutFatal (toErrorMessage e), t1, r1, s2)
                 else if defers config chosen e then (OutDeferred (deferred_reason e), t1, r1, s2)
                 else (let fb = plan_fallbacks config chosen (toErrorMessage e);
                           (res, t2, rs2) = try_fallbacks attempt config fb (fb_kinds fb) t1 (r1, s2)
                       in (loop_result res, t2, rs2))))"

subsection \<open>A new message\<close>

record send_payload =
  sp_convId :: string
  sp_messageId :: string
  sp_ciphertext :: string
  sp_priority :: "priority option"
  sp_outboxRetention :: "retention option"
  sp_transferId :: "string option"
  sp_chunkIndex :: "jsnum option"
  sp_binaryTransport :: "bool option"
  sp_toDeviceId :: "string option"
  sp_route :: "string option option"

record cipher_result =
  cr_ok :: bool
  cr_transport :: transport_kind
  cr_error :: "string option"
  cr_attempts :: "attempt_note list"

definition cipher_record :: "time_ms \<Rightarrow> string option \<Rightarrow> string option \<Rightarrow> send_payload \<Rightarrow> outbox_record" where
  "cipher_record now toDeviceId torOnion p =
     \<lparr>ob_id = sp_messageId p, ob_convId = sp_convId p, ob_createdAt = None, ob_ttlMs = None,
      ob_attempt = None, ob_nextAttemptAt = None, ob_lastError = None,
      ob_ciphertext = sp_ciphertext p, ob_priority = Some (nullish (sp_priority p) Normal),
      ob_toDeviceId = toDeviceId, ob_torOnion = torOnion, ob_createdAtMs = Some now,
      ob_expiresAtMs = Some (computeExpiresAt now), ob_lastAttemptAtMs = Some now,
      ob_nextAttemptAtMs = Some now, ob_attempts = Some 0, ob_status = Some Pending,
      ob_inFlightAtMs = None, ob_ackDeadlineMs = None,
      ob_retention = Some (nullish (sp_outboxRetention p) Standard),
      ob_transferId = sp_transferId p, ob_chunkIndex = sp_chunkIndex p,
      ob_binaryTransport = sp_binaryTransport p\<rparr>"

definition cipher_destination :: "app_stores \<Rightarrow> send_payload \<Rightarrow> string option \<times> string option" where
  "cipher_destination st p =
     (let derived = (if truthy_string (sp_toDeviceId p) then no_meta
                     else deriveRoutingMetaFromStores st (sp_convId p))
      in (map_option trim (or_else (sp_toDeviceId p) (dm_toDeviceId derived)),
          nullish (sp_route p) (dm_torOnion derived)))"

definition store_new :: "time_ms \<Rightarrow> outbox_record \<Rightarrow> 'w router_state \<Rightarrow> 'w router_state" where
  "store_new now r s = s\<lparr>ro_db := enqueueOutgoing now r (ro_db s)\<rparr>"

definition cipher_response :: "transport_kind \<Rightarrow> send_outcome \<Rightarrow> loop_trace \<Rightarrow> cipher_result" where
  "cipher_response chosen out t =
     (case out of
        OutSent used \<Rightarrow> \<lparr>cr_ok = True, cr_transport = used, cr_error = None, cr_attempts = lt_notes t\<rparr>
      | OutFatal msg \<Rightarrow>
          \<lparr>cr_ok = False, cr_transport = chosen, cr_error = Some msg, cr_attempts = lt_notes t\<rparr>
      | OutDeferred reason \<Rightarrow>
          \<lparr>cr_ok = False, cr_transport = chosen, cr_error = Some (''RETRYABLE_SEND_FAILURE:'' @ reason),
           cr_attempts = lt_notes t\<rparr>
      | OutExhausted \<Rightarrow>
          \<lparr>cr_ok = False, cr_transport = chosen,
           cr_error = Some (join_str '' || '' (lt_errors t)), cr_attempts = lt_notes t\<rparr>)"

definition sendCiphertext ::
    "'w transports \<Rightarrow> app_stores \<Rightarrow> net_config \<Rightarrow> send_payload \<Rightarrow> 'w router_state \<Rightarrow>
     cipher_result \<times> 'w router_state" where
  "sendCiphertext tr st config p s =
     (let (toDeviceId, torOnion) = cipher_destination st p;
          now = tr_clock tr (ro_world s);
          r = cipher_record now toDeviceId torOnion p;
          (resolved, s1) = resolve_kind tr config s;
          chosen = resolveTransportForExplicitRoute resolved torOnion s1
      in case enforceRouteGate chosen config toDeviceId torOnion s1 of
           GateDefer _ \<Rightarrow>
             (cipher_response chosen (OutDeferred ''INTERNAL_ONION_NOT_READY'') \<lparr>lt_notes = [], lt_errors = []\<rparr>,
              store_new now r s1)
         | GateMissingTo _ \<Rightarrow>
             (cipher_response chosen (OutFatal (te_message createMissingDestinationError))
                \<lparr>lt_notes = [], lt_errors = []\<rparr>, s1)
         | GateOpen _ \<Rightarrow>
             (let (out, t, r', s2) = send_via (cipher_attempt tr config toDeviceId torOnion) config chosen
                    (r, store_new now r s1)
              in (cipher_response chosen out t, s2)))"

subsection \<open>A stored message\<close>

definition outbox_destination :: "app_stores \<Rightarrow> outbox_record \<Rightarrow> bool \<times> string option \<times> string option" where
  "outbox_destination st r =
     (let derived = deriveRoutingMetaFromStores st (ob_convId r);
          recordTo = map_option trim (ob_toDeviceId r);
          stale = (truthy_string recordTo \<and> the recordTo \<in> set (dm_staleAliases derived))
      in (stale,
          map_option trim (if stale then dm_toDeviceId derived
                           else or_else (ob_toDeviceId r) (dm_toDeviceId derived)),
          or_else (ob_torOnion r) (dm_torOnion derived)))"

definition destination_patch :: "string option \<Rightarrow> string option \<Rightarrow> outbox_record \<Rightarrow> outbox_record" where
  "destination_patch toDeviceId torOnion r =
     r\<lparr>ob_toDeviceId := (if truthy_string toDeviceId then toDeviceId else ob_toDeviceId r),
       ob_torOnion := (if truthy_string torOnion then torOnion else ob_torOnion r)\<rparr>"

definition outbox_response :: "send_outcome \<Rightarrow> send_result" where
  "outbox_response out =
     (case out of OutSent _ \<Rightarrow> SendOk | OutFatal _ \<Rightarrow> SendFailed False | _ \<Rightarrow> SendFailed True)"

definition store_destination ::
    "app_stores \<Rightarrow> outbox_record \<Rightarrow> 'w router_state \<Rightarrow> 'w router_state" where
  "store_destination st r s =
     (let (stale, toDeviceId, torOnion) = outbox_destination st r
      in if (\<not> truthy_string (ob_toDeviceId r) \<or> stale) \<and> (truthy_string toDeviceId \<or> truthy_string torOnion)
         then s\<lparr>ro_db := (ro_db s)\<lparr>db_outbox :=
                 updateOutbox (ob_id r) (destination_patch toDeviceId torOnion) (db_outbox (ro_db s))\<rparr>\<rparr>
         else s)"

definition sendOutboxRecord ::
    "'w transports \<Rightarrow> app_stores \<Rightarrow> net_config \<Rightarrow> outbox_record \<Rightarrow> 'w router_state \<Rightarrow>
     send_result \<times> 'w router_state" where
  "sendOutboxRecord tr st config r s =
     (let (stale, toDeviceId, torOnion) = outbox_destination st r;
          (resolved, s1) = resolve_kind tr config (store_destination st r s);
          chosen = resolveTransportForExplicitRoute resolved torOnion s1
      in case enforceRouteGate chosen config toDeviceId torOnion s1 of
           GateDefer _ \<Rightarrow> (SendFailed True, s1)
         | GateMissingTo _ \<Rightarrow> (SendFailed False, s1)
         | GateOpen _ \<Rightarrow>
             (if nc_onionEnabled config \<and> chosen = KSelfOnion
              then (SendFailed False, s1\<lparr>ro_controller := reportSendFail chosen (ro_controller s1)\<rparr>)
              else (let (out, t, r', s2) =
                          send_via (outbox_attempt tr config toDeviceId torOnion) config chosen (r, s1)
                    in (outbox_response out, s2))))"

subsection \<open>The outbox scheduler\<close>

datatype net_mode = NmDirect | NmOnion | NmTor

definition getNetMode :: "net_config \<Rightarrow> net_mode" where
  "getNetMode config =
     (if nc_mode config = DirectP2P then NmDirect
      else if nc_mode config = SelfOnion then NmOnion
      else if nc_mode config = OnionRouter \<or> nc_onionEnabled config then NmTor
      else NmOnion)"

text \<open>The worker's sender on the router: the store travels inside the state of the router.\<close>

definition router_sender :: "'w transports \<Rightarrow> app_stores \<Rightarrow> net_config \<Rightarrow> 'w router_state sender" where
  "router_sender tr st config r db s =
     (let (res, s') = sendOutboxRecord tr st config r (s\<lparr>ro_db := db\<rparr>) in (res, ro_db s', s'))"

text \<open>
  The native planner answers from the request alone, or not at all (None); it has no access
  to the store.
\<close>

definition native_planner ::
    "(plan_request_item list \<Rightarrow> plan_item list option) \<Rightarrow> 'w router_state planner" where
  "native_planner answer items db s = (answer items, db, s)"

record scheduler_slot =
  sl_scheduler :: "scheduler_state option"
  sl_normalized :: bool

definition startOutboxScheduler ::
    "time_ms \<Rightarrow> scheduler_slot \<Rightarrow> db_state \<Rightarrow> scheduler_slot \<times> db_state \<times> bool" where
  "startOutboxScheduler now slot db =
     (case sl_scheduler slot of
        Some _ \<Rightarrow> (slot, db, False)
      | None \<Rightarrow>
          (let (normalized, t1) = ensureOutboxDefaults now (sl_normalized slot, db_outbox db);
               t2 = snd (deleteFailedOutbox 12 t1);
               (st, tick_now) = start_scheduler init_scheduler
           in (\<lparr>sl_scheduler = Some st, sl_normalized = normalized\<rparr>, db\<lparr>db_outbox := t2\<rparr>, tick_now)))"

definition stopOutboxScheduler :: "scheduler_slot \<Rightarrow> scheduler_slot" where
  "stopOutboxScheduler slot = slot\<lparr>sl_scheduler := None\<rparr>"

subsection \<open>The contract of an attempt\<close>

text \<open>
  Both attempts hand at most one packet to the transport they are asked for, only where
  their guards allow it, report exactly the transport's answer, and keep an invariant of
  their state; the loops over them are studied under this contract.
\<close>

locale attempt_contract =
  fixes attempt :: "transport_kind \<Rightarrow> bool \<Rightarrow> bool \<Rightarrow> outbox_record \<times> 'w router_state \<Rightarrow>
          transport_error option \<times> outbox_record \<times> 'w router_state"
    and packet_ok :: "transport_packet \<Rightarrow> bool"
    and allowed :: "transport_kind \<Rightarrow> bool \<Rightarrow> bool \<Rightarrow> bool"
    and inv :: "outbox_record \<Rightarrow> 'w router_state \<Rightarrow> bool"
  assumes logs: "inv r s \<Longrightarrow> attempt k d o' (r, s) = (err, r', s') \<Longrightarrow>
          (\<exists>new. ro_log s' = ro_log s @ new \<and>
             (new = [] \<and> err \<noteq> None \<or>
              (\<exists>p. new = [\<lparr>lg_kind = k, lg_packet = p, lg_error = err\<rparr>] \<and> packet_ok p \<and> allowed k d o')))"
    and keeps: "inv r s \<Longrightarrow> attempt k d o' (r, s) = (err, r', s') \<Longrightarrow> inv r' s'"
    and inv_report: "inv r s \<Longrightarrow> inv r (s\<lparr>ro_controller := c\<rparr>)"
begin

definition all_failed :: "send_log_entry list \<Rightarrow> bool" where
  "all_failed new \<longleftrightarrow> (\<forall>x \<in> set new. packet_ok (lg_packet x) \<and> lg_error x \<noteq> None)"

definition last_sent :: "transport_kind \<Rightarrow> send_log_entry list \<Rightarrow> bool" where
  "last_sent k new \<longleftrightarrow> (\<exists>old p. new = old @ [\<lparr>lg_kind = k, lg_packet = p, lg_error = None\<rparr>] \<and>
      packet_ok p \<and> all_failed old)"

definition kinds_in :: "fallback_plan \<Rightarrow> transport_kind list \<Rightarrow> send_log_entry list \<Rightarrow> bool" where
  "kinds_in fb ks new \<longleftrightarrow> (\<forall>x \<in> set new. lg_kind x \<in> set ks \<and>
      allowed (lg_kind x) (fb_direct fb \<and> lg_kind x = KDirectP2P) (fb_selfOnion fb \<and> lg_kind x = KSelfOnion))"

fun outcome_log :: "loop_outcome \<Rightarrow> send_log_entry list \<Rightarrow> bool" where
  "outcome_log (LoopSent k) new = last_sent k new"
| "outcome_log (LoopDeferred _) new = all_failed new"
| "outcome_log LoopExhausted new = all_failed new"

lemma all_failed_append: "all_failed (a @ b) \<longleftrightarrow> all_failed a \<and> all_failed b"
  by (auto simp: all_failed_def)

lemma kinds_in_append: "kinds_in fb ks (a @ b) \<longleftrightarrow> kinds_in fb ks a \<and> kinds_in fb ks b"
  by (auto simp: kinds_in_def)

lemma kinds_in_mono: "kinds_in fb ks new \<Longrightarrow> set ks \<subseteq> set ks' \<Longrightarrow> kinds_in fb ks' new"
  by (auto simp: kinds_in_def)

lemma last_sent_prepend: "all_failed a \<Longrightarrow> last_sent k new \<Longrightarrow> last_sent k (a @ new)"
  unfolding last_sent_def by (metis all_failed_append append.assoc)

lemma outcome_log_prepend: "all_failed a \<Longrightarrow> outcome_log res new \<Longrightarrow> outcome_log res (a @ new)"
  by (cases res) (simp_all add: last_sent_prepend all_failed_append)

lemma last_sent_not_failed: "last_sent k new \<Longrightarrow> \<not> all_failed new"
  by (auto simp: last_sent_def all_failed_def)

lemma attempt_log:
  assumes "inv r s" and "attempt k d o' (r, s) = (err, r1, s1)"
  obtains new where "ro_log s1 = ro_log s @ new" "length new \<le> 1" "inv r1 s1"
    "case err of None \<Rightarrow> last_sent k new | Some _ \<Rightarrow> all_failed new"
    "\<And>x. x \<in> set new \<Longrightarrow> lg_kind x = k \<and> allowed k d o'"
proof -
  from logs [OF assms] obtain new where new: "ro_log s1 = ro_log s @ new"
    "new = [] \<and> err \<noteq> None \<or>
     (\<exists>p. new = [\<lparr>lg_kind = k, lg_packet = p, lg_error = err\<rparr>] \<and> packet_ok p \<and> allowed k d o')" by blast
  have "case err of None \<Rightarrow> last_sent k new | Some _ \<Rightarrow> all_failed new"
    using new(2) by (auto simp: last_sent_def all_failed_def split: option.split)
  moreover have "lg_kind x = k \<and> allowed k d o'" if "x \<in> set new" for x using new(2) that by auto
  moreover have "length new \<le> 1" using new(2) by auto
  ultimately show ?thesis using that new(1) keeps [OF assms] by blast
qed

end

declare try_kind.simps [simp del]

text \<open>One round of the attempts at a kind, by what the attempt answers.\<close>

lemma try_kind_unfold:
  "try_kind attempt config fb kind n t rs =
     (case attempt kind (fb_direct fb \<and> kind = KDirectP2P) (fb_selfOnion fb \<and> kind = KSelfOnion) rs of
        (None, rs1) \<Rightarrow> (LoopSent kind, note_success kind True t, rs1)
      | (Some e, r1, s1) \<Rightarrow>
          if defers config kind e then (LoopDeferred (deferred_reason e), note_failure kind True e t, r1, s1)
          else if retries_self_onion config kind n e
          then try_kind attempt config fb kind (n - 1) (note_failure kind True e t) (r1, s1)
          else (LoopExhausted, note_error kind e (note_failure kind True e t), r1, report_fail kind e s1))"
  apply (subst try_kind.simps)
  apply (rule prod.case_cong [OF refl])
  apply (rule option.case_cong [OF refl], rule refl)
  apply (rule prod.case_cong [OF refl])
  apply (cases n)
  apply (simp_all only: Let_def nat.case retries_self_onion_def diff_Suc_1 if_cancel less_irrefl simp_thms if_False)
  done

lemma try_kind_round:
  assumes "attempt kind (fb_direct fb \<and> kind = KDirectP2P) (fb_selfOnion fb \<and> kind = KSelfOnion) rs = (err, r1, s1)"
  shows "err = None \<Longrightarrow> try_kind attempt config fb kind n t rs = (LoopSent kind, note_success kind True t, r1, s1)"
    and "err = Some e \<Longrightarrow> defers config kind e \<Longrightarrow>
      try_kind attempt config fb kind n t rs =
        (LoopDeferred (deferred_reason e), note_failure kind True e t, r1, s1)"
    and "err = Some e \<Longrightarrow> \<not> defers config kind e \<Longrightarrow> retries_self_onion config kind n e \<Longrightarrow>
      try_kind attempt config fb kind n t rs =
        try_kind attempt config fb kind (n - 1) (note_failure kind True e t) (r1, s1)"
    and "err = Some e \<Longrightarrow> \<not> defers config kind e \<Longrightarrow> \<not> retries_self_onion config kind n e \<Longrightarrow>
      try_kind attempt config fb kind n t rs =
        (LoopExhausted, note_error kind e (note_failure kind True e t), r1, report_fail kind e s1)"
  by (subst try_kind_unfold, simp add: assms)+

lemma report_fail_log [simp]: "ro_log (report_fail k e s) = ro_log s"
  by (simp add: report_fail_def)

context attempt_contract
begin

lemma report_inv: "inv r s \<Longrightarrow> inv r (report_fail k e s)"
  by (simp add: report_fail_def inv_report)

lemma try_kind_log:
  assumes "inv r s" and "try_kind attempt config fb k n t (r, s) = (res, t', r', s')"
  shows "\<exists>new. ro_log s' = ro_log s @ new \<and> outcome_log res new \<and> length new \<le> Suc n \<and>
      kinds_in fb [k] new \<and> inv r' s'"
  using assms
proof (induction n arbitrary: r s t rule: less_induct)
  case (less n)
  obtain err r1 s1 where a: "attempt k (fb_direct fb \<and> k = KDirectP2P) (fb_selfOnion fb \<and> k = KSelfOnion) (r, s)
      = (err, r1, s1)" by (rule prod_cases3)
  obtain new where new: "ro_log s1 = ro_log s @ new" "length new \<le> 1" "inv r1 s1"
    "case err of None \<Rightarrow> last_sent k new | Some _ \<Rightarrow> all_failed new"
    "\<And>x. x \<in> set new \<Longrightarrow> lg_kind x = k \<and>
       allowed k (fb_direct fb \<and> k = KDirectP2P) (fb_selfOnion fb \<and> k = KSelfOnion)"
    using attempt_log [OF less(2) a] by blast
  have k: "kinds_in fb [k] new" using new(5) by (auto simp: kinds_in_def)
  note round = try_kind_round [where attempt = attempt and kind = k, OF a]
  show ?case
  proof (cases err)
    case None
    then show ?thesis using less(3) round(1) new k by auto
  next
    case (Some e)
    have f: "all_failed new" using new(4) Some by simp
    consider (again) "\<not> defers config k e" "retries_self_onion config k n e"
      | (deferred) "defers config k e" | (stop) "\<not> defers config k e" "\<not> retries_self_onion config k n e"
      by blast
    then show ?thesis
    proof cases
      case again
      then have n: "n - 1 < n" by (simp add: retries_self_onion_def)
      obtain new' where "ro_log s' = ro_log s1 @ new'" "outcome_log res new'"
        "length new' \<le> Suc (n - 1)" "kinds_in fb [k] new'" "inv r' s'"
        using less(1) [OF n new(3)] less(3) round(3) [OF Some again] by auto
      then show ?thesis using new(1,2) k n outcome_log_prepend [OF f] by (auto simp: kinds_in_append)
    next
      case deferred
      then show ?thesis using less(3) round(2) [OF Some deferred] new(1,2,3) k f by auto
    next
      case stop
      then show ?thesis using less(3) round(4) [OF Some stop] new(1,2) k f report_inv [OF new(3)] by auto
    qed
  qed
qed

fun budget :: "transport_kind list \<Rightarrow> nat" where
  "budget [] = 0"
| "budget (k # ks) = Suc (more_attempts k) + budget ks"

lemma try_fallbacks_log:
  assumes "inv r s" and "try_fallbacks attempt config fb ks t (r, s) = (res, t', r', s')"
  shows "\<exists>new. ro_log s' = ro_log s @ new \<and> outcome_log res new \<and> length new \<le> budget ks \<and>
      kinds_in fb ks new \<and> inv r' s'"
  using assms
proof (induction ks arbitrary: r s t)
  case Nil
  then show ?case by (auto simp: kinds_in_def all_failed_def)
next
  case (Cons k ks)
  obtain res1 t1 r1 s1 where k: "try_kind attempt config fb k (more_attempts k) t (r, s) = (res1, t1, r1, s1)"
    by (rule prod_cases4)
  obtain new where new: "ro_log s1 = ro_log s @ new" "outcome_log res1 new" "length new \<le> Suc (more_attempts k)"
    "kinds_in fb [k] new" "inv r1 s1"
    using try_kind_log [OF Cons.prems(1) k] by blast
  show ?case
  proof (cases "res1 = LoopExhausted")
    case True
    have rest: "try_fallbacks attempt config fb ks t1 (r1, s1) = (res, t', r', s')"
      using Cons.prems(2) by (simp add: k True)
    obtain new' where new': "ro_log s' = ro_log s1 @ new'" "outcome_log res new'" "length new' \<le> budget ks"
      "kinds_in fb ks new'" "inv r' s'"
      using Cons.IH [OF new(5) rest] by blast
    have "kinds_in fb (k # ks) (new @ new')"
      using kinds_in_mono [OF new(4), of "k # ks"] kinds_in_mono [OF new'(4), of "k # ks"]
      by (auto simp: kinds_in_append)
    moreover have "outcome_log res (new @ new')" using new(2) True new'(2) by (auto intro: outcome_log_prepend)
    ultimately show ?thesis using new(1,3) new' by (intro exI [of _ "new @ new'"]) auto
  next
    case False
    have "(res, t', r', s') = (res1, t1, r1, s1)"
      using Cons.prems(2) False by (cases res1) (simp_all add: k)
    then show ?thesis using new kinds_in_mono [OF new(4), of "k # ks"] by auto
  qed
qed

lemma budget_plan: "budget (fb_kinds (plan_fallbacks config chosen m)) \<le> 3"
  by (simp add: plan_fallbacks_def Let_def more_attempts_def)

fun sent_log :: "send_outcome \<Rightarrow> send_log_entry list \<Rightarrow> bool" where
  "sent_log (OutSent k) new = last_sent k new"
| "sent_log _ new = all_failed new"

lemma sent_log_result: "outcome_log res new \<Longrightarrow> sent_log (loop_result res) new"
  by (cases res) simp_all

lemma sent_log_prepend: "all_failed a \<Longrightarrow> sent_log out new \<Longrightarrow> sent_log out (a @ new)"
  by (cases out) (simp_all add: last_sent_prepend all_failed_append)

lemma sent_log_truthful:
  assumes "sent_log out new"
  shows "(\<forall>x \<in> set new. packet_ok (lg_packet x)) \<and>
    ((\<exists>k. out = OutSent k) \<longleftrightarrow> (\<exists>x \<in> set new. lg_error x = None)) \<and>
    (\<forall>k. out = OutSent k \<longrightarrow> new \<noteq> [] \<and> lg_kind (last new) = k \<and> lg_error (last new) = None \<and>
       (\<forall>x \<in> set (butlast new). lg_error x \<noteq> None))"
proof (cases out)
  case (OutSent k)
  then show ?thesis using assms by (auto simp: last_sent_def all_failed_def)
qed (use assms in \<open>auto simp: all_failed_def\<close>)

text \<open>Why a kind was tried: it was chosen, or the error of the chosen one let it follow.\<close>

definition tried_for :: "net_config \<Rightarrow> transport_kind \<Rightarrow> transport_error option \<Rightarrow> transport_kind \<Rightarrow> bool" where
  "tried_for config chosen err k \<longleftrightarrow>
     k = chosen \<and> allowed chosen False False \<or>
     (\<exists>e fb. err = Some e \<and> \<not> isFatalMisconfigError e \<and> \<not> defers config chosen e \<and>
        fb = plan_fallbacks config chosen (toErrorMessage e) \<and> k \<in> set (fb_kinds fb) \<and>
        allowed k (fb_direct fb \<and> k = KDirectP2P) (fb_selfOnion fb \<and> k = KSelfOnion))"

lemma send_via_log:
  assumes i: "inv r s" and v: "send_via attempt config chosen (r, s) = (out, t, r', s')"
  obtains new where "ro_log s' = ro_log s @ new" "sent_log out new" "length new \<le> 4" "inv r' s'"
    "\<And>x. x \<in> set new \<Longrightarrow> tried_for config chosen (fst (attempt chosen False False (r, s))) (lg_kind x)"
proof -
  obtain err r1 s1 where a: "attempt chosen False False (r, s) = (err, r1, s1)" by (rule prod_cases3)
  obtain new where new: "ro_log s1 = ro_log s @ new" "length new \<le> 1" "inv r1 s1"
    "case err of None \<Rightarrow> last_sent chosen new | Some _ \<Rightarrow> all_failed new"
    "\<And>x. x \<in> set new \<Longrightarrow> lg_kind x = chosen \<and> allowed chosen False False"
    using attempt_log [OF i a] by blast
  have first: "tried_for config chosen err (lg_kind x)" if "x \<in> set new" for x
    using new(5) [OF that] by (simp add: tried_for_def)
  show ?thesis
  proof (cases err)
    case None
    have "sent_log out new \<and> s' = s1 \<and> r' = r1"
      using v new(4) by (simp add: send_via_def Let_def a None) (metis sent_log.simps(1))
    with new first show ?thesis by (intro that [of new]) (simp_all add: a)
  next
    case (Some e)
    let ?fb = "plan_fallbacks config chosen (toErrorMessage e)"
    let ?s2 = "report_fail chosen e s1"
    let ?t1 = "note_error chosen e (note_failure chosen False e \<lparr>lt_notes = [], lt_errors = []\<rparr>)"
    have f: "all_failed new" using new(4) Some by simp
    have i2: "inv r1 ?s2" using report_inv [OF new(3)] .
    show ?thesis
    proof (cases "isFatalMisconfigError e \<or> defers config chosen e")
      case True
      then have "sent_log out new \<and> s' = ?s2 \<and> r' = r1"
        using v f by (auto simp: send_via_def Let_def a Some split: if_splits)
      with new(1,2) i2 first show ?thesis by (intro that [of new]) (simp_all add: a)
    next
      case False
      obtain res t2 where l: "try_fallbacks attempt config ?fb (fb_kinds ?fb) ?t1 (r1, ?s2) = (res, t2, r', s')"
        "out = loop_result res"
        using v False by (auto simp: send_via_def Let_def a Some split: prod.splits)
      obtain new' where new': "ro_log s' = ro_log ?s2 @ new'" "outcome_log res new'"
        "length new' \<le> budget (fb_kinds ?fb)" "kinds_in ?fb (fb_kinds ?fb) new'" "inv r' s'"
        using try_fallbacks_log [OF i2 l(1)] by blast
      have "tried_for config chosen err (lg_kind x)" if "x \<in> set new'" for x
        using new'(4) that False by (auto simp: tried_for_def kinds_in_def Some)
      moreover have "sent_log out (new @ new')"
        using sent_log_prepend [OF f sent_log_result [OF new'(2)]] l(2) by simp
      ultimately show ?thesis
        using new(1,2) new'(1,3,5) first budget_plan [of config chosen "toErrorMessage e"]
        by (intro that [of "new @ new'"]) (auto simp: a)
    qed
  qed
qed

end

subsection \<open>The two attempts meet the contract\<close>

definition same_message :: "outbox_record \<Rightarrow> outbox_record \<Rightarrow> bool" where
  "same_message r q \<longleftrightarrow>
     q = r\<lparr>ob_attempts := ob_attempts q, ob_lastAttemptAtMs := ob_lastAttemptAtMs q\<rparr>"

definition attempt_allowed :: "net_config \<Rightarrow> string option \<Rightarrow> transport_kind \<Rightarrow> bool \<Rightarrow> bool \<Rightarrow> bool" where
  "attempt_allowed config toDeviceId k d so \<longleftrightarrow>
     truthy_string toDeviceId \<and> (guarded_mode config \<longrightarrow> (k = KDirectP2P \<longrightarrow> d) \<and> (k = KSelfOnion \<longrightarrow> so))"

lemma attempt_guard_None:
  "attempt_guard config toDeviceId k d so = None \<longleftrightarrow> attempt_allowed config toDeviceId k d so"
  by (cases k) (auto simp: attempt_guard_def attempt_allowed_def)

lemma transport_send_log:
  "transport_send tr k p s = (err, s') \<Longrightarrow>
   ro_log s' = ro_log s @ [\<lparr>lg_kind = k, lg_packet = p, lg_error = err\<rparr>]"
  by (auto simp: transport_send_def Let_def split: prod.splits)

lemma transport_send_db:
  "transport_send tr k p s = (err, s') \<Longrightarrow> db_ok (ro_db s) \<Longrightarrow>
   db_ok (ro_db s') \<and> (finished i (db_outbox (ro_db s)) \<longrightarrow> finished i (db_outbox (ro_db s')))"
  using handle_events_db [where s = "s\<lparr>ro_world := snd (snd (tr_send tr k p (ro_world s)))\<rparr>" and
      evs = "fst (snd (tr_send tr k p (ro_world s)))" and i = i]
  by (auto simp: transport_send_def Let_def split: prod.splits)

lemma make_packet_same: "same_message r q \<Longrightarrow> make_packet q d a = make_packet r d a"
proof -
  assume "same_message r q"
  then have "ob_id q = ob_id r \<and> ob_binaryTransport q = ob_binaryTransport r \<and> ob_ciphertext q = ob_ciphertext r"
    unfolding same_message_def by (metis outbox_record.select_convs(1) outbox_record.select_convs(8)
        outbox_record.select_convs(23) outbox_record.update_convs(14,16) outbox_record.surjective)
  then show ?thesis by (simp add: make_packet_def)
qed

definition counted :: "'w transports \<Rightarrow> outbox_record \<Rightarrow> 'w router_state \<Rightarrow> outbox_record" where
  "counted tr r s =
     r\<lparr>ob_attempts := Some (nullish (ob_attempts r) 0 + 1),
       ob_lastAttemptAtMs := Some (tr_clock tr (ro_world s))\<rparr>"

lemma same_message_counted: "same_message r q \<Longrightarrow> same_message r (counted tr q s)"
  unfolding same_message_def counted_def by (cases r; cases q) simp

lemma same_message_refl [simp]: "same_message r r"
  by (simp add: same_message_def)

text \<open>An attempt is refused, fails to start the transport, or hands it a packet.\<close>

lemma cipher_attempt_cases:
  assumes "cipher_attempt tr config to onion k d so (r, s) = (err, r', s')"
  obtains (refused) "\<not> attempt_allowed config to k d so" "err \<noteq> None" "r' = r" "s' = s"
    | (unstarted) "err \<noteq> None" "r' = r" "s' = snd (ensureStarted tr k (getTransport k s))"
    | (handed) s1 where "attempt_allowed config to k d so" "s1 = snd (ensureStarted tr k (getTransport k s))"
        "r' = counted tr r s1"
        "transport_send tr k (make_packet r' (the to) onion)
           (s1\<lparr>ro_db := (ro_db s1)\<lparr>db_outbox := putOutbox r' (db_outbox (ro_db s1))\<rparr>\<rparr>) = (err, s')"
proof (cases "attempt_guard config to k d so")
  case (Some e)
  then have "err = Some e \<and> r' = r \<and> s' = s" using assms by (simp add: cipher_attempt_def)
  with Some show ?thesis using refused attempt_guard_None by (metis option.distinct(1))
next
  case None
  obtain res s1 where e: "ensureStarted tr k (getTransport k s) = (res, s1)" by fastforce
  then have s1: "s1 = snd (ensureStarted tr k (getTransport k s))" by simp
  show ?thesis
  proof (cases res)
    case (Some x)
    then have "err = Some x \<and> r' = r \<and> s' = s1" using assms None by (simp add: cipher_attempt_def e)
    with s1 show ?thesis using unstarted by blast
  next
    case None': None
    have al: "attempt_allowed config to k d so" using None attempt_guard_None by metis
    have "r' = counted tr r s1 \<and> transport_send tr k (make_packet (counted tr r s1) (the to) onion)
        (s1\<lparr>ro_db := (ro_db s1)\<lparr>db_outbox := putOutbox (counted tr r s1) (db_outbox (ro_db s1))\<rparr>\<rparr>) = (err, s')"
      using assms unfolding cipher_attempt_def Let_def prod.case None option.case e None' counted_def [symmetric]
      by (simp split: prod.splits)
    then show ?thesis using handed [OF al s1] by simp
  qed
qed

lemma outbox_attempt_cases:
  assumes "outbox_attempt tr config to onion k d so (r, s) = (err, r', s')"
  obtains (refused) "\<not> attempt_allowed config to k d so" "err \<noteq> None" "r' = r" "s' = s"
    | (unstarted) "err \<noteq> None" "r' = r" "s' = snd (ensureStarted tr k (getTransport k s))"
    | (handed) s1 where "attempt_allowed config to k d so" "s1 = snd (ensureStarted tr k (getTransport k s))"
        "r' = r"
        "transport_send tr k (make_packet r (the to) (if truthy_string onion then onion else None)) s1 = (err, s')"
proof (cases "attempt_guard config to k d so")
  case (Some e)
  then have "err = Some e \<and> r' = r \<and> s' = s" using assms by (simp add: outbox_attempt_def)
  with Some show ?thesis using refused attempt_guard_None by (metis option.distinct(1))
next
  case None
  obtain res s1 where e: "ensureStarted tr k (getTransport k s) = (res, s1)" by fastforce
  then have s1: "s1 = snd (ensureStarted tr k (getTransport k s))" by simp
  show ?thesis
  proof (cases res)
    case (Some x)
    then have "err = Some x \<and> r' = r \<and> s' = s1" using assms None by (simp add: outbox_attempt_def e)
    with s1 show ?thesis using unstarted by blast
  next
    case None': None
    have al: "attempt_allowed config to k d so" using None attempt_guard_None by metis
    have "r' = r \<and> transport_send tr k (make_packet r (the to) (if truthy_string onion then onion else None)) s1
        = (err, s')"
      using assms unfolding outbox_attempt_def Let_def prod.case None option.case e None'
      by (simp only: split: prod.splits) simp
    then show ?thesis using handed [OF al s1] by simp
  qed
qed

lemma started_frame [simp]:
  "ro_log (snd (ensureStarted tr k (getTransport k s))) = ro_log s"
  by simp

lemma started_db:
  "db_ok (ro_db s) \<Longrightarrow> db_ok (ro_db (snd (ensureStarted tr k (getTransport k s)))) \<and>
   (finished i (db_outbox (ro_db s)) \<longrightarrow>
    finished i (db_outbox (ro_db (snd (ensureStarted tr k (getTransport k s))))))"
  using ensureStarted_db [of "getTransport k s" tr k i] by simp

interpretation cipher: attempt_contract
  "cipher_attempt tr config to onion" "\<lambda>p. p = make_packet r0 (the to) onion"
  "attempt_allowed config to" "\<lambda>r s. same_message r0 r"
  for tr :: "'w transports" and config to onion r0
proof
  fix r r' :: outbox_record and s s' :: "'w router_state" and k d so err
  assume i: "same_message r0 r" and a: "cipher_attempt tr config to onion k d so (r, s) = (err, r', s')"
  show "\<exists>new. ro_log s' = ro_log s @ new \<and>
      (new = [] \<and> err \<noteq> None \<or>
       (\<exists>p. new = [\<lparr>lg_kind = k, lg_packet = p, lg_error = err\<rparr>] \<and> p = make_packet r0 (the to) onion \<and>
          attempt_allowed config to k d so))"
    using a
  proof (cases rule: cipher_attempt_cases)
    case (handed s1)
    have "make_packet r' (the to) onion = make_packet r0 (the to) onion"
      unfolding handed(3) by (rule make_packet_same, rule same_message_counted, rule i)
    then show ?thesis using transport_send_log [OF handed(4)] handed(1,2) by simp
  qed simp_all
  show "same_message r0 r'" using a
    by (cases rule: cipher_attempt_cases) (simp_all add: i same_message_counted)
qed simp

interpretation outbox_send: attempt_contract
  "outbox_attempt tr config to onion"
  "\<lambda>p. p = make_packet r0 (the to) (if truthy_string onion then onion else None)"
  "attempt_allowed config to" "\<lambda>r s. r = r0"
  for tr :: "'w transports" and config to onion r0
proof
  fix r r' :: outbox_record and s s' :: "'w router_state" and k d so err
  assume i: "r = r0" and a: "outbox_attempt tr config to onion k d so (r, s) = (err, r', s')"
  show "\<exists>new. ro_log s' = ro_log s @ new \<and>
      (new = [] \<and> err \<noteq> None \<or>
       (\<exists>p. new = [\<lparr>lg_kind = k, lg_packet = p, lg_error = err\<rparr>] \<and>
          p = make_packet r0 (the to) (if truthy_string onion then onion else None) \<and>
          attempt_allowed config to k d so))"
    using a
  proof (cases rule: outbox_attempt_cases)
    case (handed s1)
    then show ?thesis using transport_send_log [OF handed(4)] i by simp
  qed simp_all
  show "r' = r0" using a by (cases rule: outbox_attempt_cases) (simp_all add: i)
qed simp

subsection \<open>What the notes of a send say\<close>

lemma note_failure_notes: "\<exists>ns. lt_notes (note_failure k b e t) = lt_notes t @ ns"
  by (simp add: note_failure_def)

lemma note_success_notes: "\<exists>ns. lt_notes (note_success k b t) = lt_notes t @ ns"
  by (simp add: note_success_def)

lemma note_error_notes [simp]: "lt_notes (note_error k e t) = lt_notes t"
  by (simp add: note_error_def)

lemma try_kind_notes:
  "try_kind attempt config fb k n t rs = (res, t', rs') \<Longrightarrow> \<exists>ns. lt_notes t' = lt_notes t @ ns"
proof (induction n arbitrary: t rs rule: less_induct)
  case (less n)
  obtain err r1 s1 where a: "attempt k (fb_direct fb \<and> k = KDirectP2P) (fb_selfOnion fb \<and> k = KSelfOnion) rs
      = (err, r1, s1)" by (rule prod_cases3)
  note round = try_kind_round [where attempt = attempt and kind = k, OF a]
  show ?case
  proof (cases err)
    case None
    then show ?thesis using less.prems round(1) note_success_notes by auto
  next
    case (Some e)
    consider (again) "\<not> defers config k e" "retries_self_onion config k n e"
      | (deferred) "defers config k e" | (stop) "\<not> defers config k e" "\<not> retries_self_onion config k n e"
      by blast
    then show ?thesis
    proof cases
      case again
      then have "n - 1 < n" by (simp add: retries_self_onion_def)
      then obtain ns where "lt_notes t' = lt_notes (note_failure k True e t) @ ns"
        using less.IH less.prems round(3) [OF Some again] by metis
      then show ?thesis using note_failure_notes [of k True e t] by auto
    next
      case deferred
      then show ?thesis using less.prems round(2) [OF Some deferred] note_failure_notes by auto
    next
      case stop
      then show ?thesis using less.prems round(4) [OF Some stop] note_failure_notes by auto
    qed
  qed
qed

lemma try_fallbacks_notes:
  "try_fallbacks attempt config fb ks t rs = (res, t', rs') \<Longrightarrow> \<exists>ns. lt_notes t' = lt_notes t @ ns"
proof (induction ks arbitrary: t rs)
  case Nil
  then show ?case by simp
next
  case (Cons k ks)
  obtain res1 t1 rs1 where k: "try_kind attempt config fb k (more_attempts k) t rs = (res1, t1, rs1)"
    by (rule prod_cases3)
  from try_kind_notes [OF k] obtain ns where "lt_notes t1 = lt_notes t @ ns" by blast
  then show ?case using Cons by (cases res1) (fastforce simp: k)+
qed

definition first_note :: "transport_kind \<Rightarrow> transport_error \<Rightarrow> attempt_note" where
  "first_note chosen e = \<lparr>an_transport = chosen, an_fallback = False, an_error = Some (toErrorMessage e)\<rparr>"

lemma send_via_notes:
  assumes "attempt chosen False False rs = (Some e, r1, s1)" and "\<not> isFatalMisconfigError e"
    and "send_via attempt config chosen rs = (out, t, rs')"
  shows "\<exists>ns. lt_notes t = first_note chosen e # ns"
proof -
  let ?t1 = "note_error chosen e (note_failure chosen False e \<lparr>lt_notes = [], lt_errors = []\<rparr>)"
  have first: "lt_notes ?t1 = [first_note chosen e]"
    using assms(2) by (simp add: note_failure_def first_note_def)
  show ?thesis
  proof (cases "defers config chosen e")
    case True
    then show ?thesis using assms first by (auto simp: send_via_def Let_def)
  next
    case False
    let ?fb = "plan_fallbacks config chosen (toErrorMessage e)"
    obtain res where "try_fallbacks attempt config ?fb (fb_kinds ?fb) ?t1 (r1, report_fail chosen e s1) = (res, t, rs')"
      using assms False by (auto simp: send_via_def Let_def split: prod.splits)
    from try_fallbacks_notes [OF this] show ?thesis using first by auto
  qed
qed

subsection \<open>Sending a new message\<close>

lemma cipher_response_ok [simp]:
  "cr_ok (cipher_response chosen out t) \<longleftrightarrow> (\<exists>k. out = OutSent k)"
  "cr_attempts (cipher_response chosen out t) = lt_notes t"
  by (cases out; simp add: cipher_response_def)+

lemma cipher_response_transport: "cr_transport (cipher_response chosen (OutSent k) t) = k"
  by (simp add: cipher_response_def)

text \<open>A send is refused by the gate, put off by it, or runs the attempts.\<close>

lemma sendCiphertext_cases:
  assumes "sendCiphertext tr st config p s = (res, s')"
    and "cipher_destination st p = (to, onion)"
  obtains (no_destination) "\<not> truthy_string to \<or> trim (the to) = []" "\<not> cr_ok res"
        "cr_error res = Some (te_message createMissingDestinationError)" "cr_attempts res = []"
        "s' = snd (resolve_kind tr config s)"
    | (put_off) "truthy_string to" "\<not> cr_ok res" "cr_attempts res = []"
        "s' = store_new (tr_clock tr (ro_world s)) (cipher_record (tr_clock tr (ro_world s)) to onion p)
                (snd (resolve_kind tr config s))"
    | (attempted) chosen out t r' where "truthy_string to"
        "chosen = resolveTransportForExplicitRoute (fst (resolve_kind tr config s)) onion (snd (resolve_kind tr config s))"
        "send_via (cipher_attempt tr config to onion) config chosen
           (cipher_record (tr_clock tr (ro_world s)) to onion p,
            store_new (tr_clock tr (ro_world s)) (cipher_record (tr_clock tr (ro_world s)) to onion p)
              (snd (resolve_kind tr config s))) = (out, t, r', s')"
        "res = cipher_response chosen out t"
proof -
  let ?now = "tr_clock tr (ro_world s)"
  let ?s1 = "snd (resolve_kind tr config s)"
  let ?chosen = "resolveTransportForExplicitRoute (fst (resolve_kind tr config s)) onion ?s1"
  note def = assms(1) [unfolded sendCiphertext_def assms(2) Let_def prod.case split_beta]
  show ?thesis
  proof (cases "enforceRouteGate ?chosen config to onion ?s1")
    case (GateOpen x)
    have "truthy_string to" using GateOpen by (auto simp: enforceRouteGate_def Let_def split: if_splits)
    obtain out t r' s2 where v: "send_via (cipher_attempt tr config to onion) config ?chosen
        (cipher_record ?now to onion p, store_new ?now (cipher_record ?now to onion p) ?s1) = (out, t, r', s2)"
      by (rule prod_cases4)
    have "res = cipher_response ?chosen out t" "s' = s2"
      using def by (simp_all add: GateOpen v)
    then show ?thesis using attempted [OF \<open>truthy_string to\<close> refl] v by blast
  next
    case (GateDefer x)
    have "truthy_string to" using GateDefer by (auto simp: enforceRouteGate_def Let_def split: if_splits)
    with def show ?thesis by (intro put_off) (auto simp: GateDefer)
  next
    case (GateMissingTo x)
    have "\<not> truthy_string to \<or> trim (the to) = []"
      using GateMissingTo by (auto simp: enforceRouteGate_def Let_def split: if_splits)
    with def show ?thesis by (intro no_destination) (auto simp: GateMissingTo cipher_response_def)
  qed
qed

lemma store_new_frame [simp]: "ro_log (store_new now r s) = ro_log s"
  by (simp add: store_new_def)

text \<open>
  The result of sendCiphertext is truthful and its effort bounded: it reports success
  exactly when one of the transports took the packet, that was the last thing it did and that
  transport is the one it names; it hands out at most four packets, all the same message to the
  same destination; without a destination it hands out none and stores nothing.
\<close>

theorem sendCiphertext_truthful:
  assumes "sendCiphertext tr st config p s = (res, s')" and "cipher_destination st p = (to, onion)"
  shows "\<exists>new. ro_log s' = ro_log s @ new \<and> length new \<le> 4 \<and>
    (\<forall>x \<in> set new. lg_packet x =
        make_packet (cipher_record (tr_clock tr (ro_world s)) to onion p) (the to) onion) \<and>
    (cr_ok res \<longleftrightarrow> (\<exists>x \<in> set new. lg_error x = None)) \<and>
    (cr_ok res \<longrightarrow> lg_kind (last new) = cr_transport res \<and> lg_error (last new) = None \<and>
       (\<forall>x \<in> set (butlast new). lg_error x \<noteq> None)) \<and>
    (\<not> truthy_string to \<longrightarrow> new = [] \<and> ro_db s' = ro_db s)"
  using assms
proof (cases rule: sendCiphertext_cases)
  case no_destination
  then show ?thesis by simp
next
  case put_off
  then show ?thesis by simp
next
  case (attempted chosen out t r')
  obtain new where new: "ro_log s' = ro_log s @ new" "length new \<le> 4"
    "attempt_contract.sent_log (\<lambda>q. q = make_packet (cipher_record (tr_clock tr (ro_world s)) to onion p) (the to) onion) out new"
    using cipher.send_via_log [OF same_message_refl attempted(3)] by auto
  have "cr_transport res = k" if "out = OutSent k" for k
    using that attempted(4) by (simp add: cipher_response_transport)
  with new(1,2) attempted(1,4) cipher.sent_log_truthful [OF new(3)] show ?thesis
    by (intro exI [of _ new]) auto
qed

lemma guarded_resolves: "guarded_mode config \<Longrightarrow> fst (resolve_kind tr config s) = KOnionRouter"
  by (auto simp: guarded_mode_def resolve_kind_fst)

lemma guarded_onion_first: "guarded_mode config \<Longrightarrow> isOnionFirstPolicy config"
  by (auto simp: guarded_mode_def isOnionFirstPolicy_def)

lemma toErrorMessage_not_ready:
  "\<not> isOnionNotReadyError e (toErrorMessage e) \<Longrightarrow>
   \<not> str_includes (to_lower (toErrorMessage e)) ''tor_not_ready''"
  by (simp add: isOnionNotReadyError_def Let_def)

lemma plan_fallbacks_kinds:
  "KDirectP2P \<in> set (fb_kinds (plan_fallbacks config KOnionRouter m)) \<Longrightarrow>
     isRouteTargetMissingError m \<or> isOnionProxyUnavailableError m"
  "KSelfOnion \<in> set (fb_kinds (plan_fallbacks config KOnionRouter m)) \<Longrightarrow>
     isRouteCandidateMissingError m \<or> isOnionProxyUnavailableError m"
  "KOnionRouter \<notin> set (fb_kinds (plan_fallbacks config KOnionRouter m))"
  by (auto simp: plan_fallbacks_def Let_def isRouteCandidateMissingError_def isRouteTargetMissingError_def
      split: if_splits)

text \<open>
  A transport other than the onion router may carry a message only for these errors of the
  onion router: the direct way for want of a target or of the proxy, the node's own onion
  service for want of any candidate or of the proxy, none while Tor is merely not ready.
\<close>

definition leaves_onion_for :: "transport_kind \<Rightarrow> string \<Rightarrow> bool" where
  "leaves_onion_for k m \<longleftrightarrow>
     (k = KDirectP2P \<longrightarrow> isRouteTargetMissingError m \<or> isOnionProxyUnavailableError m) \<and>
     (k = KSelfOnion \<longrightarrow> isRouteCandidateMissingError m \<or> isOnionProxyUnavailableError m) \<and>
     \<not> str_includes (to_lower m) ''tor_not_ready''"

lemma leaves_onion_forI:
  assumes "guarded_mode config" and "\<not> defers config KOnionRouter e"
    and "k \<in> set (fb_kinds (plan_fallbacks config KOnionRouter (toErrorMessage e)))"
  shows "leaves_onion_for k (toErrorMessage e)"
  using assms guarded_onion_first [of config] plan_fallbacks_kinds [of config "toErrorMessage e"]
  by (auto simp: leaves_onion_for_def defers_def toErrorMessage_not_ready)

subsection \<open>Sending a stored message\<close>

lemma store_destination_frame [simp]:
  "ro_log (store_destination st r s) = ro_log s" "ro_world (store_destination st r s) = ro_world s"
  by (simp_all add: store_destination_def split: prod.split)

lemma store_destination_db:
  "db_ok (ro_db s) \<Longrightarrow> db_ok (ro_db (store_destination st r s)) \<and>
   finished i (db_outbox (ro_db (store_destination st r s))) = finished i (db_outbox (ro_db s))"
  by (auto simp: store_destination_def db_ok_def outbox.inv_upd finished_update destination_patch_def
      split: prod.split)

text \<open>The state in which the attempts for a stored message begin.\<close>

definition resolved :: "'w transports \<Rightarrow> app_stores \<Rightarrow> net_config \<Rightarrow> outbox_record \<Rightarrow> 'w router_state \<Rightarrow>
    transport_kind \<times> 'w router_state" where
  "resolved tr st config r s = resolve_kind tr config (store_destination st r s)"

lemma sendOutboxRecord_cases:
  assumes "sendOutboxRecord tr st config r s = (res, s')"
    and "outbox_destination st r = (stale, to, onion)"
  obtains (gate) b where "res = SendFailed b" "s' = snd (resolved tr st config r s)"
      "b \<longrightarrow> truthy_string to"
    | (blocked) "truthy_string to" "res = SendFailed False" "nc_onionEnabled config"
        "s' = (snd (resolved tr st config r s))\<lparr>ro_controller :=
                 reportSendFail KSelfOnion (ro_controller (snd (resolved tr st config r s)))\<rparr>"
    | (attempted) chosen out t r' where "truthy_string to"
        "chosen = resolveTransportForExplicitRoute (fst (resolved tr st config r s)) onion (snd (resolved tr st config r s))"
        "send_via (outbox_attempt tr config to onion) config chosen
           (r, snd (resolved tr st config r s)) = (out, t, r', s')"
        "res = outbox_response out"
proof -
  let ?s1 = "snd (resolved tr st config r s)"
  let ?chosen = "resolveTransportForExplicitRoute (fst (resolved tr st config r s)) onion ?s1"
  note def = assms(1) [unfolded sendOutboxRecord_def assms(2) Let_def prod.case split_beta fst_conv snd_conv resolved_def [symmetric]]
  show ?thesis
  proof (cases "enforceRouteGate ?chosen config to onion ?s1")
    case (GateOpen x)
    have t: "truthy_string to" using GateOpen by (auto simp: enforceRouteGate_def Let_def split: if_splits)
    show ?thesis
    proof (cases "nc_onionEnabled config \<and> ?chosen = KSelfOnion")
      case True
      have "res = SendFailed False \<and> s' = ?s1\<lparr>ro_controller := reportSendFail KSelfOnion (ro_controller ?s1)\<rparr>"
        using def [unfolded GateOpen gate_decision.case] True by simp
      then show ?thesis using blocked [OF t] True by blast
    next
      case False
      obtain out t r' s2 where v: "send_via (outbox_attempt tr config to onion) config ?chosen (r, ?s1) = (out, t, r', s2)"
        by (rule prod_cases4)
      have "res = outbox_response out" "s' = s2" using def False by (simp_all add: GateOpen v)
      then show ?thesis using attempted [OF t refl] v by blast
    qed
  next
    case (GateDefer x)
    have "truthy_string to" using GateDefer by (auto simp: enforceRouteGate_def Let_def split: if_splits)
    with def show ?thesis by (intro gate [of True]) (auto simp: GateDefer)
  next
    case (GateMissingTo x)
    then show ?thesis using def by (intro gate [of False]) (auto simp: GateMissingTo)
  qed
qed

lemma outbox_response_ok: "outbox_response out = SendOk \<longleftrightarrow> (\<exists>k. out = OutSent k)"
  by (cases out) (simp_all add: outbox_response_def)

lemma outbox_response_throws [simp]: "outbox_response out \<noteq> SendThrew"
  by (cases out) (simp_all add: outbox_response_def)

lemma resolved_frame [simp]: "ro_log (snd (resolved tr st config r s)) = ro_log s"
  by (simp add: resolved_def)

text \<open>
  sendOutboxRecord never throws, tells the worker success exactly when a transport took
  the packet, as its last act, hands out at most four packets, all of the stored message, and
  asks for no retry of a message without a destination.
\<close>

theorem sendOutboxRecord_truthful:
  assumes "sendOutboxRecord tr st config r s = (res, s')"
    and "outbox_destination st r = (stale, to, onion)"
  shows "res \<noteq> SendThrew \<and> (\<exists>new. ro_log s' = ro_log s @ new \<and> length new \<le> 4 \<and>
    (\<forall>x \<in> set new. lg_packet x = make_packet r (the to) (if truthy_string onion then onion else None)) \<and>
    (res = SendOk \<longleftrightarrow> (\<exists>x \<in> set new. lg_error x = None)) \<and>
    (res = SendOk \<longrightarrow> lg_error (last new) = None \<and> (\<forall>x \<in> set (butlast new). lg_error x \<noteq> None)) \<and>
    (\<not> truthy_string to \<longrightarrow> new = [] \<and> res = SendFailed False))"
  using assms
proof (cases rule: sendOutboxRecord_cases)
  case (gate b)
  then show ?thesis by auto
next
  case blocked
  then show ?thesis by simp
next
  case (attempted chosen out t r')
  obtain new where new: "ro_log s' = ro_log (snd (resolved tr st config r s)) @ new" "length new \<le> 4"
    "attempt_contract.sent_log (\<lambda>q. q = make_packet r (the to) (if truthy_string onion then onion else None)) out new"
    by (rule outbox_send.send_via_log [OF refl attempted(3)]) (rule that)
  have "ro_log s' = ro_log s @ new" using new(1) by simp
  with new(2) attempted(1,4) outbox_send.sent_log_truthful [OF new(3)] show ?thesis
    by (intro conjI exI [of _ new]) (auto simp: outbox_response_ok)
qed

lemma sendCiphertext_leaves_onion:
  assumes on: "guarded_mode config" and r: "sendCiphertext tr st config p s = (res, s')"
    and x: "x \<in> set (drop (length (ro_log s)) (ro_log s'))" and other: "lg_kind x \<noteq> KOnionRouter"
  shows "\<exists>m ns. cr_attempts res =
        \<lparr>an_transport = KOnionRouter, an_fallback = False, an_error = Some m\<rparr> # ns \<and>
      leaves_onion_for (lg_kind x) m"
proof -
  obtain to onion where d: "cipher_destination st p = (to, onion)" by fastforce
  show ?thesis using r d
  proof (cases rule: sendCiphertext_cases)
    case no_destination
    then show ?thesis using x by simp
  next
    case put_off
    then show ?thesis using x by simp
  next
    case (attempted chosen out t r')
    have ch: "chosen = KOnionRouter"
      using attempted(2) guarded_resolves [OF on, of tr s] by (simp add: resolveTransportForExplicitRoute_def)
    let ?att = "cipher_attempt tr config to onion"
    let ?rs = "(cipher_record (tr_clock tr (ro_world s)) to onion p,
      store_new (tr_clock tr (ro_world s)) (cipher_record (tr_clock tr (ro_world s)) to onion p)
        (snd (resolve_kind tr config s)))"
    obtain new where new0: "ro_log s' = ro_log (snd ?rs) @ new"
      and tried: "\<And>y. y \<in> set new \<Longrightarrow> attempt_contract.tried_for (attempt_allowed config to) config chosen
         (fst (?att chosen False False ?rs)) (lg_kind y)"
      by (rule cipher.send_via_log [OF same_message_refl attempted(3)]) (rule that, simp_all)
    have new: "ro_log s' = ro_log s @ new" using new0 by simp
    obtain e where e: "fst (?att chosen False False ?rs) = Some e" "\<not> isFatalMisconfigError e"
      "\<not> defers config chosen e" "lg_kind x \<in> set (fb_kinds (plan_fallbacks config chosen (toErrorMessage e)))"
      using tried [of x] x other new ch by (auto simp: cipher.tried_for_def)
    obtain r1 s1 where a: "?att chosen False False ?rs = (Some e, r1, s1)"
      using e(1) by (metis prod.collapse)
    obtain ns where ns: "lt_notes t = first_note chosen e # ns"
      using send_via_notes [OF a e(2) attempted(3)] by blast
    show ?thesis
      using ns ch attempted(4) leaves_onion_forI [OF on e(3,4) [unfolded ch]]
      by (auto simp: first_note_def)
  qed
qed

lemma sendOutboxRecord_leaves_onion:
  assumes on: "guarded_mode config" and r: "sendOutboxRecord tr st config q s = (res, s')"
    and d: "outbox_destination st q = (stale, to, onion)"
    and x: "x \<in> set (drop (length (ro_log s)) (ro_log s'))" and other: "lg_kind x \<noteq> KOnionRouter"
  shows "\<exists>e. fst (outbox_attempt tr config to onion KOnionRouter False False
        (q, snd (resolved tr st config q s))) = Some e \<and>
      leaves_onion_for (lg_kind x) (toErrorMessage e)"
  using r d
proof (cases rule: sendOutboxRecord_cases)
  case (gate b)
  then show ?thesis using x by simp
next
  case blocked
  then show ?thesis using x by simp
next
  case (attempted chosen out t r')
  have ch: "chosen = KOnionRouter"
    using attempted(2) guarded_resolves [OF on, of tr "store_destination st q s"]
    by (simp add: resolveTransportForExplicitRoute_def resolved_def)
  let ?att = "outbox_attempt tr config to onion"
  let ?rs = "(q, snd (resolved tr st config q s))"
  obtain new where new0: "ro_log s' = ro_log (snd (resolved tr st config q s)) @ new"
    and tried: "\<And>y. y \<in> set new \<Longrightarrow> attempt_contract.tried_for (attempt_allowed config to) config chosen
       (fst (?att chosen False False ?rs)) (lg_kind y)"
    by (rule outbox_send.send_via_log [OF refl attempted(3)]) (rule that, simp_all)
  have new: "ro_log s' = ro_log s @ new" using new0 by simp
  obtain e where e: "fst (?att KOnionRouter False False ?rs) = Some e"
    "\<not> defers config KOnionRouter e"
    "lg_kind x \<in> set (fb_kinds (plan_fallbacks config KOnionRouter (toErrorMessage e)))"
    using tried [of x] x other new ch by (auto simp: outbox_send.tried_for_def)
  show ?thesis using e(1) leaves_onion_forI [OF on e(2,3)] by blast
qed

text \<open>
  C1. While onion routing is on, a message leaves by another way than the onion router only
  after the onion router itself failed for this message in the same send: by the direct way
  only when the error says that the target or the proxy is missing, by the node's own onion
  service only when it says that there is no route or no proxy, and never while Tor is merely
  not ready. This holds for a first send (sendCiphertext, whose list of attempts begins with
  that failure) and for every later one (sendOutboxRecord, through which the outbox worker
  sends what was deferred or failed, where the first attempt is the failing one), whatever
  the stored record says of its route.
\<close>

theorem onion_mode_leaves_only_on_route_failure:
  assumes "guarded_mode config"
  shows "(sendCiphertext tr st config p s = (res, s') \<and>
      x \<in> set (drop (length (ro_log s)) (ro_log s')) \<and> lg_kind x \<noteq> KOnionRouter \<longrightarrow>
        (\<exists>m ns. cr_attempts res =
            \<lparr>an_transport = KOnionRouter, an_fallback = False, an_error = Some m\<rparr> # ns \<and>
          leaves_onion_for (lg_kind x) m)) \<and>
    (sendOutboxRecord tr st config q s = (out, s2) \<and> outbox_destination st q = (stale, to, onion) \<and>
      y \<in> set (drop (length (ro_log s)) (ro_log s2)) \<and> lg_kind y \<noteq> KOnionRouter \<longrightarrow>
        (\<exists>e. fst (outbox_attempt tr config to onion KOnionRouter False False
              (q, snd (resolved tr st config q s))) = Some e \<and>
          leaves_onion_for (lg_kind y) (toErrorMessage e)))"
  using sendCiphertext_leaves_onion [OF assms, of tr st p s res s' x]
    sendOutboxRecord_leaves_onion [OF assms, of tr st q s out s2 stale to onion y] by blast

subsection \<open>What sending does to the store\<close>

lemma attempt_contract_trivial_logs:
  "transport_send tr k p s = (err, s') \<Longrightarrow>
   \<exists>new. ro_log s' = ro_log s @ new \<and>
     (new = [] \<and> err \<noteq> None \<or> (\<exists>p. new = [\<lparr>lg_kind = k, lg_packet = p, lg_error = err\<rparr>] \<and> True \<and> True))"
  using transport_send_log by fastforce

text \<open>An attempt of the worker's keeps the store well formed and finished messages finished.\<close>

interpretation outbox_keep: attempt_contract
  "outbox_attempt tr config to onion" "\<lambda>_. True" "\<lambda>_ _ _. True"
  "\<lambda>_ s. db_ok (ro_db s) \<and> (Q \<longrightarrow> finished i (db_outbox (ro_db s)))"
  for tr :: "'w transports" and config to onion i Q
proof
  fix r r' :: outbox_record and s s' :: "'w router_state" and k d so err
  assume i: "db_ok (ro_db s) \<and> (Q \<longrightarrow> finished i (db_outbox (ro_db s)))"
    and a: "outbox_attempt tr config to onion k d so (r, s) = (err, r', s')"
  show "\<exists>new. ro_log s' = ro_log s @ new \<and>
      (new = [] \<and> err \<noteq> None \<or>
       (\<exists>p. new = [\<lparr>lg_kind = k, lg_packet = p, lg_error = err\<rparr>] \<and> True \<and> True))"
    using a
  proof (cases rule: outbox_attempt_cases)
    case (handed s1)
    then show ?thesis using attempt_contract_trivial_logs [OF handed(4)] by simp
  qed simp_all
  have st: "db_ok (ro_db (snd (ensureStarted tr k (getTransport k s))))"
    "finished i (db_outbox (ro_db s)) \<Longrightarrow> finished i (db_outbox (ro_db (snd (ensureStarted tr k (getTransport k s)))))"
    using started_db i by blast+
  show "db_ok (ro_db s') \<and> (Q \<longrightarrow> finished i (db_outbox (ro_db s')))" using a
  proof (cases rule: outbox_attempt_cases)
    case (handed s1)
    then show ?thesis using transport_send_db [OF handed(4)] st i by blast
  qed (use i st in simp_all)
qed simp

lemma sendOutboxRecord_db:
  assumes "sendOutboxRecord tr st config r s = (res, s')" and ok: "db_ok (ro_db s)"
  shows "db_ok (ro_db s') \<and> (finished i (db_outbox (ro_db s)) \<longrightarrow> finished i (db_outbox (ro_db s')))"
proof -
  obtain stale to onion where d: "outbox_destination st r = (stale, to, onion)" by (rule prod_cases3)
  have i: "db_ok (ro_db (snd (resolved tr st config r s))) \<and>
      (finished i (db_outbox (ro_db s)) \<longrightarrow> finished i (db_outbox (ro_db (snd (resolved tr st config r s)))))"
    using store_destination_db [OF ok, of st r i] by (simp add: resolved_def)
  show ?thesis using assms(1) d
  proof (cases rule: sendOutboxRecord_cases)
    case (gate b)
    then show ?thesis using i by simp
  next
    case blocked
    then show ?thesis using i by simp
  next
    case (attempted chosen out t r')
    show ?thesis
      by (rule outbox_keep.send_via_log [where Q = "finished i (db_outbox (ro_db s))", OF i attempted(3)])
  qed
qed

lemma router_sender_db:
  assumes "router_sender tr st config r db s = (res, db', s')" and "db_ok db"
  shows "db_ok db' \<and> (finished i (db_outbox db) \<longrightarrow> finished i (db_outbox db'))"
proof -
  obtain res1 s1 where "sendOutboxRecord tr st config r (s\<lparr>ro_db := db\<rparr>) = (res1, s1)" by fastforce
  from sendOutboxRecord_db [OF this, of i] this assms show ?thesis by (auto simp: router_sender_def)
qed

text \<open>The router and the native planner keep the worker's contract.\<close>

interpretation router_delivery: delivery_env "router_sender tr st config" "native_planner answer"
  for tr :: "'w transports" and st config answer
  by unfold_locales (use router_sender_db in \<open>blast | simp add: native_planner_def\<close>)+

text \<open>
  C21. An acknowledgement that arrives while the worker is sending is final. Whatever messages
  are acknowledged while the worker waits for a transport with any of its records - the very
  record being sent, one still to come in this tick, one sent before -, at the end of the tick
  each of them is acknowledged or gone: neither the worker's own mark that the packet is under
  way nor its later attempts bring one back. The same holds for messages that were finished
  before the tick. (The one gap, between the worker's query for timed-out records and its
  writes, is requeue_overwrites_racing_ack.)
\<close>

theorem ack_while_sending_is_final:
  assumes "tick (with_acks acks (router_sender tr st config)) (Some (native_planner answer)) opts online now
      sc db s = (sc', db', s', sent)" and "db_ok db"
  shows "db_ok db' \<and> sc' = sc \<and> (finished i (db_outbox db) \<longrightarrow> finished i (db_outbox db')) \<and>
    (\<forall>r \<in> set sent. i \<in> snd ` set (acks r) \<longrightarrow> finished i (db_outbox db'))"
proof -
  note env = with_acks_env [OF router_delivery.delivery_env_axioms, of acks tr st config answer]
  have "finished i (db_outbox db')" if r: "r \<in> set sent" and a: "i \<in> snd ` set (acks r)" for r
  proof (rule delivery_env.tick_settles [OF env assms r])
    fix db :: db_state and s :: "'a router_state" and res db2 e2
    assume ok: "db_ok db" and w: "with_acks acks (router_sender tr st config) r db s = (res, db2, e2)"
    have "db_ok db1" if "router_sender tr st config r db s = (res, db1, e1)" for db1 e1
      using router_sender_db [OF that ok] by blast
    with with_acks_finishes [OF w, of i] a show "finished i (db_outbox db2)" by blast
  qed
  then show ?thesis using delivery_env.tick_keeps [OF env assms] by blast
qed

subsection \<open>A new message is never lost\<close>

definition delivered :: "string \<Rightarrow> db_state \<Rightarrow> bool" where
  "delivered i db \<longleftrightarrow> (\<exists>rc. getReceipt (''delivered:'' @ i) (db_receipts db) = Some rc \<and>
      rc_msgId rc = i \<and> rc_kind rc = Delivered)"

definition kept :: "outbox_record \<Rightarrow> db_state \<Rightarrow> bool" where
  "kept r db \<longleftrightarrow> db_ok db \<and>
     ((\<exists>q. getOutbox (ob_id r) (db_outbox db) = Some q \<and> same_message r q) \<or> delivered (ob_id r) db)"

lemma onAckReceived_get:
  "db_ok db \<Longrightarrow> j \<noteq> i \<Longrightarrow> getOutbox j (db_outbox (onAckReceived now i db)) = getOutbox j (db_outbox db)"
  by (auto simp: onAckReceived_def Let_def db_ok_def store_simps split: option.splits)

lemma onAckReceived_receipt:
  "db_ok db \<Longrightarrow> getReceipt (''delivered:'' @ j) (db_receipts (onAckReceived now i db)) =
     (if j = i \<and> getOutbox i (db_outbox db) \<noteq> None
      then Some (delivered_receipt now (the (getOutbox i (db_outbox db))) i)
      else getReceipt (''delivered:'' @ j) (db_receipts db))"
  by (auto simp: onAckReceived_def Let_def db_ok_def receipts.get_put delivered_receipt_def split: option.splits)

lemma onAckReceived_kept:
  assumes k: "kept r db"
  shows "kept r (onAckReceived now i db)"
proof -
  have ok: "db_ok db" "db_ok (onAckReceived now i db)" using k by (simp_all add: kept_def onAckReceived_ok)
  show ?thesis
  proof (cases "i = ob_id r \<and> getOutbox i (db_outbox db) \<noteq> None")
    case True
    then have "delivered (ob_id r) (onAckReceived now i db)"
      unfolding delivered_def onAckReceived_receipt [OF ok(1)] using True by (auto simp: delivered_receipt_def)
    then show ?thesis using ok(2) by (simp add: kept_def)
  next
    case False
    then have "delivered (ob_id r) db \<Longrightarrow> delivered (ob_id r) (onAckReceived now i db)"
      unfolding delivered_def onAckReceived_receipt [OF ok(1)] by auto
    moreover have "getOutbox (ob_id r) (db_outbox (onAckReceived now i db)) = getOutbox (ob_id r) (db_outbox db)"
    proof (cases "i = ob_id r")
      case True
      then show ?thesis using False by (simp add: onAckReceived_def)
    next
      case False
      then show ?thesis using onAckReceived_get [OF ok(1)] by simp
    qed
    ultimately show ?thesis using k ok(2) by (auto simp: kept_def)
  qed
qed

lemma handle_events_kept: "kept r (ro_db s) \<Longrightarrow> kept r (ro_db (fold handle_event evs s))"
proof (induction evs arbitrary: s)
  case (Cons ev evs)
  have "kept r (ro_db (handle_event ev s))"
    using Cons.prems by (cases ev) (simp_all add: handle_ack_def handle_state_def onAckReceived_kept)
  then show ?case using Cons.IH by simp
qed simp

lemma transport_send_kept: "transport_send tr k p s = (err, s') \<Longrightarrow> kept r (ro_db s) \<Longrightarrow> kept r (ro_db s')"
  using handle_events_kept [where s = "s\<lparr>ro_world := snd (snd (tr_send tr k p (ro_world s)))\<rparr>" and
      evs = "fst (snd (tr_send tr k p (ro_world s)))" and r = r]
  by (auto simp: transport_send_def Let_def split: prod.splits)

lemma ensureStarted_kept: "kept r (ro_db s) \<Longrightarrow> kept r (ro_db (snd (ensureStarted tr k s)))"
  using handle_events_kept [where s = "s\<lparr>ro_world := snd (snd (tr_start tr k (ro_world s)))\<rparr>" and
      evs = "fst (snd (tr_start tr k (ro_world s)))" and r = r]
  by (simp add: ensureStarted_def Let_def split: prod.split) auto

lemma same_message_id: "same_message r q \<Longrightarrow> ob_id q = ob_id r"
  using make_packet_same [of r q "[]" None] by (simp add: make_packet_def)

lemma kept_put:
  assumes "db_ok db" "same_message r q"
  shows "kept r (db\<lparr>db_outbox := putOutbox q (db_outbox db)\<rparr>)"
  using assms same_message_id [OF assms(2)]
  by (auto simp: kept_def db_ok_def outbox.inv_put outbox.get_put)

interpretation cipher_keep: attempt_contract
  "cipher_attempt tr config to onion" "\<lambda>_. True" "\<lambda>_ _ _. True"
  "\<lambda>r s. same_message r0 r \<and> kept r0 (ro_db s)"
  for tr :: "'w transports" and config to onion r0
proof
  fix r r' :: outbox_record and s s' :: "'w router_state" and k d so err
  assume i: "same_message r0 r \<and> kept r0 (ro_db s)"
    and a: "cipher_attempt tr config to onion k d so (r, s) = (err, r', s')"
  show "\<exists>new. ro_log s' = ro_log s @ new \<and>
      (new = [] \<and> err \<noteq> None \<or>
       (\<exists>p. new = [\<lparr>lg_kind = k, lg_packet = p, lg_error = err\<rparr>] \<and> True \<and> True))"
    using a
  proof (cases rule: cipher_attempt_cases)
    case (handed s1)
    then show ?thesis using attempt_contract_trivial_logs [OF handed(4)] by simp
  qed simp_all
  have st: "kept r0 (ro_db (snd (ensureStarted tr k (getTransport k s))))"
    using ensureStarted_kept [of r0 "getTransport k s"] i by simp
  show "same_message r0 r' \<and> kept r0 (ro_db s')" using a
  proof (cases rule: cipher_attempt_cases)
    case (handed s1)
    have m: "same_message r0 r'" unfolding handed(3) using i by (simp add: same_message_counted)
    have "kept r0 ((ro_db s1)\<lparr>db_outbox := putOutbox r' (db_outbox (ro_db s1))\<rparr>)"
      using st m handed(2) by (intro kept_put) (simp_all add: kept_def)
    then show ?thesis using transport_send_kept [OF handed(4)] m by simp
  qed (use i st in simp_all)
qed simp

lemma normalize_cipher_record: "normalize_outgoing now (cipher_record now to onion p) = cipher_record now to onion p"
  by (simp add: normalize_outgoing_def cipher_record_def Let_def)

text \<open>
  C8. A new message with a destination is never lost: whatever the transports do, once
  sendCiphertext returns, the message is in the outbox, pending, to be tried again, or an
  acknowledgement for it arrived and its delivery receipt is stored.
\<close>

theorem sendCiphertext_never_loses:
  assumes r: "sendCiphertext tr st config p s = (res, s')" and d: "cipher_destination st p = (to, onion)"
    and ok: "db_ok (ro_db s)" and dest: "truthy_string to" "trim (the to) \<noteq> []"
  shows "db_ok (ro_db s') \<and>
    ((\<exists>q. getOutbox (sp_messageId p) (db_outbox (ro_db s')) = Some q \<and>
          same_message (cipher_record (tr_clock tr (ro_world s)) to onion p) q \<and>
          ob_status q = Some Pending) \<or>
     delivered (sp_messageId p) (ro_db s'))"
proof -
  let ?r = "cipher_record (tr_clock tr (ro_world s)) to onion p"
  let ?s1 = "store_new (tr_clock tr (ro_world s)) ?r (snd (resolve_kind tr config s))"
  have stored: "kept ?r (ro_db ?s1)"
    using ok by (simp add: store_new_def enqueueOutgoing_def normalize_cipher_record kept_put)
  have "kept ?r (ro_db s')" using r d
  proof (cases rule: sendCiphertext_cases)
    case no_destination
    then show ?thesis using dest by simp
  next
    case put_off
    then show ?thesis using stored by simp
  next
    case (attempted chosen out t r')
    have "same_message ?r ?r \<and> kept ?r (ro_db ?s1)" using stored by simp
    from cipher_keep.send_via_log [OF this attempted(3)] show ?thesis by blast
  qed
  moreover have "ob_status q = Some Pending" if "same_message ?r q" for q
    using that unfolding same_message_def cipher_record_def
    by (metis outbox_record.select_convs(17) outbox_record.update_convs(14,16))
  ultimately show ?thesis by (auto simp: kept_def cipher_record_def)
qed

subsection \<open>Witnesses\<close>

text \<open>Transports of which the onion router has no proxy, on an application with no friends.\<close>

definition proxyless :: "unit transports" where
  "proxyless =
     \<lparr>tr_start = (\<lambda>k w. (None, [], w)),
      tr_send = (\<lambda>k p w. (if k = KOnionRouter then Some (plain_error ''forward_failed:no_proxy'') else None,
                          [], w)),
      tr_clock = (\<lambda>w. 5)\<rparr>"

definition empty_stores :: app_stores where
  "empty_stores = \<lparr>as_convs = [], as_me = None, as_friends = [], as_decodeFriendCode = (\<lambda>_. None)\<rparr>"

definition fresh_router :: "unit router_state" where
  "fresh_router =
     \<lparr>ro_db = \<lparr>db_outbox = [], db_receipts = [], db_media = [], db_vault = True\<rparr>,
      ro_controller = createRouteController, ro_cache = [], ro_inboundAttached = [], ro_started = [],
      ro_states = (\<lambda>_. None), ro_hub = init_hub, ro_routeReady = False, ro_log = [], ro_world = ()\<rparr>"

definition sample_payload :: send_payload where
  "sample_payload =
     \<lparr>sp_convId = ''c'', sp_messageId = ''m'', sp_ciphertext = ''x'', sp_priority = None,
      sp_outboxRetention = None, sp_transferId = None, sp_chunkIndex = None,
      sp_binaryTransport = None, sp_toDeviceId = Some ''d'', sp_route = None\<rparr>"

definition onion_config :: net_config where
  "onion_config = enforceRules (DEFAULT_NET_CONFIG\<lparr>nc_onionEnabled := True\<rparr>)"

lemma sample_destination: "cipher_destination empty_stores sample_payload = (Some ''d'', None)"
  by code_simp

lemma sample_db_empty_ok: "db_ok (ro_db fresh_router)"
  by (simp add: fresh_router_def db_ok_def)

lemma sample_send:
  "map lg_kind (ro_log (snd (sendCiphertext proxyless empty_stores onion_config sample_payload fresh_router)))
     = [KOnionRouter, KSelfOnion]"
  "cr_ok (fst (sendCiphertext proxyless empty_stores onion_config sample_payload fresh_router))"
  by code_simp+

theorem sendCiphertext_truthful_witness:
  "\<exists>x \<in> set (ro_log (snd (sendCiphertext proxyless empty_stores onion_config sample_payload fresh_router))).
     lg_error x = None"
proof -
  have r: "sendCiphertext proxyless empty_stores onion_config sample_payload fresh_router =
      (fst (sendCiphertext proxyless empty_stores onion_config sample_payload fresh_router),
       snd (sendCiphertext proxyless empty_stores onion_config sample_payload fresh_router))" by simp
  show ?thesis
    using sendCiphertext_truthful [OF r sample_destination] sample_send(2) by (auto simp: fresh_router_def)
qed

lemma sample_resend:
  "map lg_kind (ro_log (snd (sendOutboxRecord proxyless empty_stores onion_config
      (cipher_record 5 (Some ''d'') None sample_payload) fresh_router))) = [KOnionRouter, KSelfOnion]"
  by code_simp

lemma second_of_two:
  "map f xs = [a, b] \<Longrightarrow> xs ! 1 \<in> set xs \<and> f (xs ! 1) = b"
  by (auto simp: map_eq_Cons_conv)

theorem onion_mode_leaves_only_on_route_failure_witness:
  "(\<exists>m ns. cr_attempts (fst (sendCiphertext proxyless empty_stores onion_config sample_payload fresh_router)) =
     \<lparr>an_transport = KOnionRouter, an_fallback = False, an_error = Some m\<rparr> # ns) \<and>
   (\<exists>e. leaves_onion_for KSelfOnion (toErrorMessage e))"
proof -
  let ?r = "sendCiphertext proxyless empty_stores onion_config sample_payload fresh_router"
  let ?q = "cipher_record 5 (Some ''d'') None sample_payload"
  let ?o = "sendOutboxRecord proxyless empty_stores onion_config ?q fresh_router"
  have on: "guarded_mode onion_config" by code_simp
  have none: "ro_log fresh_router = []" by (simp add: fresh_router_def)
  have d: "outbox_destination empty_stores ?q = (False, Some ''d'', None)" by code_simp
  have x: "sendCiphertext proxyless empty_stores onion_config sample_payload fresh_router = (fst ?r, snd ?r) \<and>
      ro_log (snd ?r) ! 1 \<in> set (drop (length (ro_log fresh_router)) (ro_log (snd ?r))) \<and>
      lg_kind (ro_log (snd ?r) ! 1) \<noteq> KOnionRouter"
    using second_of_two [OF sample_send(1)] none by simp
  have y: "sendOutboxRecord proxyless empty_stores onion_config ?q fresh_router = (fst ?o, snd ?o) \<and>
      outbox_destination empty_stores ?q = (False, Some ''d'', None) \<and>
      ro_log (snd ?o) ! 1 \<in> set (drop (length (ro_log fresh_router)) (ro_log (snd ?o))) \<and>
      lg_kind (ro_log (snd ?o) ! 1) \<noteq> KOnionRouter"
    using second_of_two [OF sample_resend] none d by simp
  have k: "lg_kind (ro_log (snd ?o) ! 1) = KSelfOnion" using second_of_two [OF sample_resend] by blast
  note both = onion_mode_leaves_only_on_route_failure [OF on]
  show ?thesis
    using both [THEN conjunct1, rule_format, OF x] both [THEN conjunct2, rule_format, OF y, unfolded k]
    by blast
qed

theorem sendCiphertext_never_loses_witness:
  "\<exists>q. getOutbox ''m'' (db_outbox (ro_db (snd (sendCiphertext proxyless empty_stores onion_config
     sample_payload fresh_router)))) = Some q \<and> ob_status q = Some Pending"
proof -
  let ?r = "sendCiphertext proxyless empty_stores onion_config sample_payload fresh_router"
  have r: "?r = (fst ?r, snd ?r)" by simp
  have t: "truthy_string (Some ''d'')" "trim (the (Some ''d'')) \<noteq> []" by code_simp+
  have "getReceipt (''delivered:'' @ ''m'') (db_receipts (ro_db (snd ?r))) = None" by code_simp
  then have "\<not> delivered ''m'' (ro_db (snd ?r))" unfolding delivered_def by auto
  moreover have "sp_messageId sample_payload = ''m''" by (simp add: sample_payload_def)
  ultimately show ?thesis
    using sendCiphertext_never_loses [OF r sample_destination sample_db_empty_ok t] by auto
qed

definition stored_sample :: outbox_record where
  "stored_sample = cipher_record 5 (Some ''d'') None sample_payload"

theorem sendOutboxRecord_truthful_witness:
  "fst (sendOutboxRecord proxyless empty_stores onion_config stored_sample fresh_router) \<noteq> SendThrew \<and>
   (\<exists>x \<in> set (ro_log (snd (sendOutboxRecord proxyless empty_stores onion_config stored_sample fresh_router))).
     lg_error x = None)"
proof -
  let ?r = "sendOutboxRecord proxyless empty_stores onion_config stored_sample fresh_router"
  have r: "?r = (fst ?r, snd ?r)" by simp
  have d: "outbox_destination empty_stores stored_sample = (False, Some ''d'', None)" by code_simp
  have "fst ?r = SendOk" by code_simp
  then show ?thesis using sendOutboxRecord_truthful [OF r d] by (auto simp: fresh_router_def)
qed

text \<open>The message is acknowledged while it is being sent: it stays acknowledged.\<close>

definition ack_own :: "outbox_record \<Rightarrow> (time_ms \<times> string) list" where
  "ack_own r = [(9, ob_id r)]"

definition pick_first :: "plan_request_item list \<Rightarrow> plan_item list option" where
  "pick_first items = Some (map (\<lambda>p. \<lparr>pi_id = pr_id p, pi_attempts = 1, pi_nextAttemptAtMs = 50\<rparr>) (take 1 items))"

definition acked_sample_tick :: "scheduler_state \<times> db_state \<times> unit router_state \<times> outbox_record list" where
  "acked_sample_tick = tick (with_acks ack_own (router_sender proxyless empty_stores onion_config))
      (Some (native_planner pick_first)) default_scheduler_opts True 9 init_scheduler
      (sample_db [stored_sample]) fresh_router"

lemma acked_sample_sent: "map ob_id (snd (snd (snd acked_sample_tick))) = [''m'']"
  by code_simp

theorem ack_while_sending_is_final_witness:
  "finished ''m'' (db_outbox (fst (snd acked_sample_tick)))"
proof -
  obtain sc' db' s' sent where t: "acked_sample_tick = (sc', db', s', sent)" by (rule prod_cases4)
  have "db_ok (sample_db [stored_sample])" by (rule sample_db_ok) (simp add: tbl_ok_def)
  note final = ack_while_sending_is_final [OF t [unfolded acked_sample_tick_def] this, of "''m''"]
  obtain r where "sent = [r]" "ob_id r = ''m''"
    using acked_sample_sent unfolding t by (auto simp: map_eq_Cons_conv)
  then show ?thesis using final unfolding t by (simp add: ack_own_def)
qed

end
