(* ===== verification/Onion_Route.thy ===== *)
theory Onion_Route
  imports NKC_Prelude
begin

text \<open>
  The internal onion route: the manager that builds a circuit of relays hop by hop, keeps it
  alive and rebuilds it (src/src/net/internalOnion/routeManager.ts, types.ts) and the runtime
  that starts and stops it with the configuration (runtime.ts). The manager is a state with one
  operation per call or timer. A build waits for an acknowledgement after each greeting; a
  waiting build is a value in the state, and an acknowledgement, a rejection or a timeout puts
  it on the queue of builds to resume, which is run to its end before the next event, as the
  engine runs its microtasks. The control messages it emits are listed; a control plane is
  always registered, as the runtime does.
\<close>

datatype route_status = RsBuilding | RsReady | RsDegraded | RsRebuilding | RsExpired | RsIdle
datatype hop_status = HopPending | HopOk | HopDead

record hop_state =
  hp_index :: nat
  hp_peer :: "string option"
  hp_status :: hop_status
  hp_lastSeen :: "time_ms option"
  hp_rtt :: "int option"

record route_state =
  rs_desired :: nat
  rs_established :: nat
  rs_status :: route_status
  rs_circuit :: "string option"
  rs_hops :: "hop_state list"
  rs_lastError :: "string option"
  rs_updatedAt :: time_ms

record hop_ack =
  ak_circuit :: string
  ak_hop :: nat
  ak_ts :: time_ms
  ak_relay :: string
  ak_ok :: bool

record hop_pong =
  pg_circuit :: string
  pg_hop :: nat
  pg_ts :: time_ms

datatype control_out = OutHello string nat time_ms string | OutPing string nat time_ms

subsection \<open>Hops and backoff\<close>

definition DEFAULT_REBUILD_BACKOFF_MS :: "int list" where
  "DEFAULT_REBUILD_BACKOFF_MS = [60000, 5 * 60000, 30 * 60000, 6 * 60 * 60000]"

definition DEFAULT_KEEPALIVE_MISS_LIMIT :: nat where
  "DEFAULT_KEEPALIVE_MISS_LIMIT = 2"

definition clampDesiredHops :: "int \<Rightarrow> nat" where
  "clampDesiredHops value = nat (max 1 (min 6 value))"

fun dedupe_from :: "string set \<Rightarrow> string list \<Rightarrow> string list" where
  "dedupe_from seen [] = []"
| "dedupe_from seen (raw # rest) =
     (let peerId = trim raw
      in if peerId = [] \<or> peerId \<in> seen then dedupe_from seen rest
         else peerId # dedupe_from (insert peerId seen) rest)"

definition dedupePeerIds :: "string list \<Rightarrow> string list" where
  "dedupePeerIds peerIds = dedupe_from {} peerIds"

definition hex_digit :: "nat \<Rightarrow> char" where
  "hex_digit n = (if n < 10 then char_of (48 + n) else char_of (87 + n))"

definition toHex :: "bytes \<Rightarrow> string" where
  "toHex bs = concat (map (\<lambda>b. [hex_digit (unat b div 16), hex_digit (unat b mod 16)]) bs)"

definition createHops :: "nat \<Rightarrow> string list \<Rightarrow> hop_state list" where
  "createHops desired peers =
     map (\<lambda>i. \<lparr>hp_index = Suc i, hp_peer = (if i < length peers then Some (peers ! i) else None),
               hp_status = HopPending, hp_lastSeen = None, hp_rtt = None\<rparr>) [0..<desired]"

definition computeEstablishedHops :: "hop_state list \<Rightarrow> nat" where
  "computeEstablishedHops hops = length (filter (\<lambda>h. hp_status h = HopOk) hops)"

definition map_hop :: "nat \<Rightarrow> (hop_state \<Rightarrow> hop_state) \<Rightarrow> hop_state list \<Rightarrow> hop_state list" where
  "map_hop i f hops = map (\<lambda>h. if hp_index h = i then f h else h) hops"

subsection \<open>The state of the manager\<close>

text \<open>A build that waits for the acknowledgement of its current hop.\<close>

record build =
  bl_desired :: nat
  bl_circuit :: string
  bl_peers :: "string list"
  bl_hop :: nat
  bl_reason :: string

datatype resume = ResumeOk build hop_ack | ResumeFail build

record pending_ping =
  pp_sentTs :: time_ms
  pp_misses :: nat

record route_manager =
  rm_running :: bool
  rm_desired :: nat
  rm_route :: route_state
  rm_circuit :: "string option"
  rm_keepalive :: bool
  rm_rebuild :: "(int \<times> string) option"
  rm_backoff :: nat
  rm_hello :: "(nat \<times> build) list"
  rm_pings :: "(nat \<times> pending_ping) list"
  rm_resumes :: "resume list"
  rm_sent :: "control_out list"

text \<open>What the manager reads while it handles an event.\<close>

record rm_env =
  re_peers :: "string list"
  re_local :: string
  re_now :: time_ms
  re_random :: bytes

definition setRouteState :: "route_state \<Rightarrow> route_manager \<Rightarrow> route_manager" where
  "setRouteState r m = m\<lparr>rm_route := r\<rparr>"

definition init_manager :: "time_ms \<Rightarrow> route_manager" where
  "init_manager now =
     \<lparr>rm_running = False, rm_desired = 3,
      rm_route = \<lparr>rs_desired = 3, rs_established = 0, rs_status = RsIdle, rs_circuit = None,
                  rs_hops = createHops 3 [], rs_lastError = None, rs_updatedAt = now\<rparr>,
      rm_circuit = None, rm_keepalive = False, rm_rebuild = None, rm_backoff = 0, rm_hello = [],
      rm_pings = [], rm_resumes = [], rm_sent = []\<rparr>"

definition startKeepaliveLoop :: "route_manager \<Rightarrow> route_manager" where
  "startKeepaliveLoop m = m\<lparr>rm_keepalive := True\<rparr>"

definition clearKeepaliveLoop :: "route_manager \<Rightarrow> route_manager" where
  "clearKeepaliveLoop m = m\<lparr>rm_keepalive := False\<rparr>"

definition clearRebuildTimer :: "route_manager \<Rightarrow> route_manager" where
  "clearRebuildTimer m = m\<lparr>rm_rebuild := None\<rparr>"

definition clearPendingHelloAcks :: "route_manager \<Rightarrow> route_manager" where
  "clearPendingHelloAcks m =
     m\<lparr>rm_resumes := rm_resumes m @ map (\<lambda>(h, b). ResumeFail b) (rm_hello m), rm_hello := []\<rparr>"

definition scheduleRebuild :: "string \<Rightarrow> route_manager \<Rightarrow> route_manager" where
  "scheduleRebuild reason m =
     (if \<not> rm_running m then m
      else let delay = DEFAULT_REBUILD_BACKOFF_MS !
                         min (rm_backoff m) (length DEFAULT_REBUILD_BACKOFF_MS - 1)
           in m\<lparr>rm_backoff := min (rm_backoff m + 1) (length DEFAULT_REBUILD_BACKOFF_MS - 1),
                rm_rebuild := Some (delay, reason)\<rparr>)"

subsection \<open>Building\<close>

definition sendHello :: "rm_env \<Rightarrow> build \<Rightarrow> route_manager \<Rightarrow> route_manager" where
  "sendHello env b m =
     m\<lparr>rm_hello := (bl_hop b, b) # filter (\<lambda>(h, _). h \<noteq> bl_hop b) (rm_hello m),
       rm_sent := rm_sent m @ [OutHello (bl_circuit b) (bl_hop b) (re_now env)
         (if trim (re_local env) = [] then ''local'' else trim (re_local env))]\<rparr>"

definition finish_build :: "rm_env \<Rightarrow> build \<Rightarrow> route_manager \<Rightarrow> route_manager" where
  "finish_build env b m =
     (let hops = map (\<lambda>h. h\<lparr>hp_status := (if hp_status h = HopDead then HopPending else hp_status h)\<rparr>)
                   (rs_hops (rm_route m))
      in startKeepaliveLoop (setRouteState
           \<lparr>rs_desired = bl_desired b, rs_established = computeEstablishedHops hops, rs_status = RsReady,
            rs_circuit = Some (bl_circuit b), rs_hops = hops, rs_lastError = None,
            rs_updatedAt = re_now env\<rparr> (m\<lparr>rm_backoff := 0\<rparr>)))"

definition buildRouteInternal ::
    "rm_env \<Rightarrow> nat \<Rightarrow> bool \<Rightarrow> string \<Rightarrow> route_manager \<Rightarrow> route_manager" where
  "buildRouteInternal env desired rebuilding reason m =
     (let m1 = (clearPendingHelloAcks (clearKeepaliveLoop (m\<lparr>rm_desired := desired\<rparr>)))\<lparr>rm_pings := []\<rparr>;
          selected = take desired
            (filter (\<lambda>p. p \<noteq> trim (re_local env)) (dedupePeerIds (re_peers env)))
      in if selected = []
         then scheduleRebuild ''NO_RELAY_PEERS'' (setRouteState
                \<lparr>rs_desired = desired, rs_established = 0, rs_status = RsIdle, rs_circuit = None,
                 rs_hops = createHops desired [], rs_lastError = Some ''NO_RELAY_PEERS'',
                 rs_updatedAt = re_now env\<rparr> (m1\<lparr>rm_circuit := None\<rparr>))
         else (let circuit = toHex (re_random env);
                   b = \<lparr>bl_desired = desired, bl_circuit = circuit, bl_peers = selected,
                        bl_hop = 1, bl_reason = reason\<rparr>
               in sendHello env b (setRouteState
                    \<lparr>rs_desired = desired, rs_established = 0,
                     rs_status = (if rebuilding then RsRebuilding else RsBuilding),
                     rs_circuit = Some circuit, rs_hops = createHops desired selected,
                     rs_lastError = None, rs_updatedAt = re_now env\<rparr>
                    (m1\<lparr>rm_circuit := Some circuit\<rparr>))))"

text \<open>What a build does when its wait ends.\<close>

definition resume_ok :: "rm_env \<Rightarrow> build \<Rightarrow> hop_ack \<Rightarrow> route_manager \<Rightarrow> route_manager" where
  "resume_ok env b ack m =
     (let r = rm_route m;
          hops = map_hop (bl_hop b)
            (\<lambda>h. h\<lparr>hp_peer := Some (ak_relay ack), hp_status := HopOk, hp_lastSeen := Some (ak_ts ack)\<rparr>)
            (rs_hops r);
          m1 = setRouteState (r\<lparr>rs_established := computeEstablishedHops hops, rs_hops := hops,
                  rs_updatedAt := re_now env, rs_lastError := None\<rparr>) m
      in if bl_hop b < length (bl_peers b) then sendHello env (b\<lparr>bl_hop := bl_hop b + 1\<rparr>) m1
         else finish_build env b m1)"

definition resume_fail :: "rm_env \<Rightarrow> build \<Rightarrow> route_manager \<Rightarrow> route_manager" where
  "resume_fail env b m =
     (let r = rm_route m;
          hops = map_hop (bl_hop b) (\<lambda>h. h\<lparr>hp_status := HopDead\<rparr>) (rs_hops r)
      in scheduleRebuild (bl_reason b) (setRouteState
           (r\<lparr>rs_status := RsDegraded, rs_established := computeEstablishedHops hops, rs_hops := hops,
              rs_lastError := Some (bl_reason b), rs_updatedAt := re_now env\<rparr>) m))"

fun run_resume :: "rm_env \<Rightarrow> resume \<Rightarrow> route_manager \<Rightarrow> route_manager" where
  "run_resume env (ResumeOk b ack) m = resume_ok env b ack m"
| "run_resume env (ResumeFail b) m = resume_fail env b m"

definition drain :: "rm_env \<Rightarrow> route_manager \<Rightarrow> route_manager" where
  "drain env m = fold (run_resume env) (rm_resumes m) (m\<lparr>rm_resumes := []\<rparr>)"

subsection \<open>The calls and the timers\<close>

definition buildRoute :: "rm_env \<Rightarrow> int \<Rightarrow> route_manager \<Rightarrow> route_manager" where
  "buildRoute env desiredHops m = buildRouteInternal env (clampDesiredHops desiredHops) False ''BUILD_FAILED'' m"

definition rm_start :: "rm_env \<Rightarrow> int \<Rightarrow> route_manager \<Rightarrow> route_manager" where
  "rm_start env desiredHops m =
     (let desired = clampDesiredHops desiredHops;
          m1 = m\<lparr>rm_desired := desired, rm_running := True\<rparr>
      in if desired = rm_desired m \<and> rs_status (rm_route m) = RsReady then startKeepaliveLoop m1
         else buildRoute env (int desired) m1)"

definition rm_stop :: "rm_env \<Rightarrow> route_status \<Rightarrow> route_manager \<Rightarrow> route_manager" where
  "rm_stop env status m =
     (let m1 = (clearPendingHelloAcks (clearRebuildTimer (clearKeepaliveLoop
                 (m\<lparr>rm_running := False, rm_circuit := None, rm_backoff := 0\<rparr>))))\<lparr>rm_pings := []\<rparr>
      in setRouteState
           \<lparr>rs_desired = rm_desired m, rs_established = 0, rs_status = status, rs_circuit = None,
            rs_hops = createHops (rm_desired m) [], rs_lastError = None, rs_updatedAt = re_now env\<rparr> m1)"

definition rebuildRoute :: "rm_env \<Rightarrow> string \<Rightarrow> route_manager \<Rightarrow> route_manager" where
  "rebuildRoute env reason m =
     (if \<not> rm_running m then m
      else let m1 = clearRebuildTimer m;
               m2 = setRouteState ((rm_route m1)\<lparr>rs_status := RsRebuilding, rs_updatedAt := re_now env,
                       rs_lastError := Some reason\<rparr>) m1
           in buildRouteInternal env (rm_desired m) True reason m2)"

definition handleHelloAck :: "hop_ack \<Rightarrow> route_manager \<Rightarrow> route_manager" where
  "handleHelloAck ack m =
     (if rm_circuit m \<noteq> Some (ak_circuit ack) then m
      else case map_of (rm_hello m) (ak_hop ack) of
          None \<Rightarrow> m
        | Some b \<Rightarrow>
            (let m1 = m\<lparr>rm_hello := filter (\<lambda>(h, _). h \<noteq> ak_hop ack) (rm_hello m)\<rparr>;
                 peer = bl_peers b ! (bl_hop b - 1)
             in m1\<lparr>rm_resumes := rm_resumes m1 @
                    [if \<not> ak_ok ack then ResumeFail b
                     else if ak_relay ack \<noteq> peer then ResumeFail b
                     else ResumeOk b ack]\<rparr>))"

definition hello_timeout :: "nat \<Rightarrow> route_manager \<Rightarrow> route_manager" where
  "hello_timeout hop m =
     (case map_of (rm_hello m) hop of
        None \<Rightarrow> m
      | Some b \<Rightarrow> m\<lparr>rm_hello := filter (\<lambda>(h, _). h \<noteq> hop) (rm_hello m),
                   rm_resumes := rm_resumes m @ [ResumeFail b]\<rparr>)"

definition handlePingPong :: "rm_env \<Rightarrow> hop_pong \<Rightarrow> route_manager \<Rightarrow> route_manager" where
  "handlePingPong env pong m =
     (if rm_circuit m \<noteq> Some (pg_circuit pong) then m
      else case map_of (rm_pings m) (pg_hop pong) of
          None \<Rightarrow> m
        | Some p \<Rightarrow>
            (let r = rm_route m;
                 hops = map_hop (pg_hop pong)
                   (\<lambda>h. h\<lparr>hp_status := HopOk, hp_lastSeen := Some (pg_ts pong),
                          hp_rtt := Some (max 0 (re_now env - pp_sentTs p))\<rparr>) (rs_hops r)
             in setRouteState (r\<lparr>rs_established := computeEstablishedHops hops, rs_hops := hops,
                    rs_updatedAt := re_now env\<rparr>)
                  (m\<lparr>rm_pings := filter (\<lambda>(h, _). h \<noteq> pg_hop pong) (rm_pings m)\<rparr>)))"

fun ping_hops :: "rm_env \<Rightarrow> string \<Rightarrow> hop_state list \<Rightarrow> route_manager \<Rightarrow> route_manager" where
  "ping_hops env circuit [] m = m"
| "ping_hops env circuit (hop # hops) m =
     (if hp_status hop \<noteq> HopOk \<or> \<not> truthy_string (hp_peer hop) then ping_hops env circuit hops m
      else let misses = (case map_of (rm_pings m) (hp_index hop) of
                           None \<Rightarrow> 0 | Some p \<Rightarrow> pp_misses p + 1);
               rest = filter (\<lambda>(h, _). h \<noteq> hp_index hop) (rm_pings m)
           in if DEFAULT_KEEPALIVE_MISS_LIMIT < misses
              then (let r = rm_route m;
                        dead = map_hop (hp_index hop) (\<lambda>h. h\<lparr>hp_status := HopDead\<rparr>) (rs_hops r)
                    in scheduleRebuild ''KEEPALIVE_MISSED'' (setRouteState
                         (r\<lparr>rs_status := RsDegraded, rs_established := computeEstablishedHops dead,
                            rs_hops := dead, rs_lastError := Some ''KEEPALIVE_MISSED'',
                            rs_updatedAt := re_now env\<rparr>)
                         (clearKeepaliveLoop (m\<lparr>rm_pings := rest\<rparr>))))
              else ping_hops env circuit hops
                     (m\<lparr>rm_pings := (hp_index hop, \<lparr>pp_sentTs = re_now env, pp_misses = misses\<rparr>) # rest,
                        rm_sent := rm_sent m @ [OutPing circuit (hp_index hop) (re_now env)]\<rparr>))"

definition keepaliveTick :: "rm_env \<Rightarrow> route_manager \<Rightarrow> route_manager" where
  "keepaliveTick env m =
     (if \<not> rm_running m \<or> rs_status (rm_route m) \<noteq> RsReady then m
      else case rm_circuit m of
          None \<Rightarrow> m
        | Some circuit \<Rightarrow> ping_hops env circuit (rs_hops (rm_route m)) m)"

definition rebuild_timer :: "rm_env \<Rightarrow> route_manager \<Rightarrow> route_manager" where
  "rebuild_timer env m =
     (case rm_rebuild m of
        None \<Rightarrow> m
      | Some (delay, reason) \<Rightarrow>
          (let m1 = m\<lparr>rm_rebuild := None\<rparr>
           in if \<not> rm_running m1 then m1
              else buildRouteInternal env (rm_desired m1) True reason
                     (setRouteState ((rm_route m1)\<lparr>rs_status := RsRebuilding, rs_updatedAt := re_now env,
                        rs_lastError := Some reason\<rparr>) m1)))"

text \<open>
  A build is asked for by the start, and, as an event of its own, only of a manager that runs: on one that is
  stopped it would greet a relay all the same.
\<close>

datatype rm_event =
    RmStart int | RmBuild int | RmStop bool | RmRebuild string | RmAck hop_ack | RmPong hop_pong
  | RmHelloTimeout nat | RmKeepalive | RmRebuildTimer

fun rm_handle :: "rm_env \<Rightarrow> rm_event \<Rightarrow> route_manager \<Rightarrow> route_manager" where
  "rm_handle env (RmStart desired) m = rm_start env desired m"
| "rm_handle env (RmBuild desired) m = (if rm_running m then buildRoute env desired m else m)"
| "rm_handle env (RmStop expired) m = rm_stop env (if expired then RsExpired else RsIdle) m"
| "rm_handle env (RmRebuild reason) m = rebuildRoute env reason m"
| "rm_handle env (RmAck ack) m = handleHelloAck ack m"
| "rm_handle env (RmPong pong) m = handlePingPong env pong m"
| "rm_handle env (RmHelloTimeout hop) m = hello_timeout hop m"
| "rm_handle env RmKeepalive m = (if rm_keepalive m then keepaliveTick env m else m)"
| "rm_handle env RmRebuildTimer m = rebuild_timer env m"

definition rm_step :: "rm_env \<times> rm_event \<Rightarrow> route_manager \<Rightarrow> route_manager" where
  "rm_step e m = drain (fst e) (rm_handle (fst e) (snd e) m)"

subsection \<open>The invariant\<close>

definition route_ok :: "route_state \<Rightarrow> bool" where
  "route_ok r \<longleftrightarrow> 1 \<le> rs_desired r \<and> rs_desired r \<le> 6 \<and>
     map hp_index (rs_hops r) = [1..<Suc (rs_desired r)] \<and>
     rs_established r = computeEstablishedHops (rs_hops r)"

definition build_ok :: "build \<Rightarrow> route_manager \<Rightarrow> bool" where
  "build_ok b m \<longleftrightarrow> rm_circuit m = Some (bl_circuit b) \<and> rs_circuit (rm_route m) = Some (bl_circuit b) \<and>
     1 \<le> bl_hop b \<and> bl_hop b \<le> length (bl_peers b) \<and> length (bl_peers b) \<le> rs_desired (rm_route m) \<and>
     bl_desired b = rs_desired (rm_route m)"

definition stopped_ok :: "route_manager \<Rightarrow> bool" where
  "stopped_ok m \<longleftrightarrow> (\<not> rm_running m \<longrightarrow> rm_rebuild m = None \<and> \<not> rm_keepalive m \<and> rm_hello m = [])"

definition ready_ok :: "route_manager \<Rightarrow> bool" where
  "ready_ok m \<longleftrightarrow> (rs_status (rm_route m) = RsReady \<longrightarrow>
     rm_running m \<and> rm_hello m = [] \<and> rm_keepalive m \<and> rm_circuit m \<noteq> None \<and>
     rs_circuit (rm_route m) = rm_circuit m \<and> 1 \<le> rs_established (rm_route m))"

definition backoff_ok :: "route_manager \<Rightarrow> bool" where
  "backoff_ok m \<longleftrightarrow> rm_backoff m \<le> 3 \<and>
     (case rm_rebuild m of None \<Rightarrow> True | Some (d, _) \<Rightarrow> d \<in> set DEFAULT_REBUILD_BACKOFF_MS)"

definition waiting_ok :: "route_manager \<Rightarrow> bool" where
  "waiting_ok m \<longleftrightarrow> (rm_hello m = [] \<or> (\<exists>b. rm_hello m = [(bl_hop b, b)] \<and> build_ok b m))"

definition mgr_core :: "route_manager \<Rightarrow> bool" where
  "mgr_core m \<longleftrightarrow> route_ok (rm_route m) \<and> 1 \<le> rm_desired m \<and> rm_desired m \<le> 6 \<and>
     stopped_ok m \<and> ready_ok m \<and> backoff_ok m \<and> waiting_ok m"

definition resume_pre :: "route_manager \<Rightarrow> resume list \<Rightarrow> bool" where
  "resume_pre m rs \<longleftrightarrow> rs = [] \<or> (\<exists>b. rs = [ResumeFail b]) \<or>
     (\<exists>b ack. rs = [ResumeOk b ack] \<and> rm_hello m = [] \<and> rm_running m \<and> build_ok b m \<and>
        rs_status (rm_route m) \<noteq> RsReady)"

definition mgr_inv :: "route_manager \<Rightarrow> bool" where
  "mgr_inv m \<longleftrightarrow> mgr_core m \<and> rm_resumes m = []"

lemmas mgr_defs = mgr_core_def stopped_ok_def ready_ok_def backoff_ok_def waiting_ok_def build_ok_def

lemma computeEstablishedHops_create [simp]: "computeEstablishedHops (createHops d ps) = 0"
  by (simp add: computeEstablishedHops_def createHops_def)

lemma createHops_index [simp]: "map hp_index (createHops d ps) = [1..<Suc d]"
  by (simp add: createHops_def comp_def map_Suc_upt)

lemma map_hop_index [simp]:
  "(\<And>h. hp_index (f h) = hp_index h) \<Longrightarrow> map hp_index (map_hop i f hops) = map hp_index hops"
  by (simp add: map_hop_def comp_def)

lemma map_status_index: "map hp_index (map (\<lambda>h. h\<lparr>hp_status := f h\<rparr>) hops) = map hp_index hops"
  by simp

lemma established_pos: "h \<in> set hops \<Longrightarrow> hp_status h = HopOk \<Longrightarrow> 1 \<le> computeEstablishedHops hops"
  by (induction hops) (auto simp: computeEstablishedHops_def)

lemma index_in_hops:
  assumes "map hp_index hops = [1..<Suc d]" "1 \<le> i" "i \<le> d"
  shows "\<exists>h \<in> set hops. hp_index h = i"
proof -
  have "i \<in> set (map hp_index hops)" unfolding assms(1) set_upt using assms(2,3) by auto
  then show ?thesis by auto
qed

lemma length_backoff: "length DEFAULT_REBUILD_BACKOFF_MS = 4"
  by (simp add: DEFAULT_REBUILD_BACKOFF_MS_def)

lemma resume_pre_fail: "rs = [] \<or> (\<exists>b. rs = [ResumeFail b]) \<Longrightarrow> resume_pre m rs"
  by (auto simp: resume_pre_def)

lemma scheduleRebuild_frame [simp]:
  "rm_running (scheduleRebuild x m) = rm_running m" "rm_desired (scheduleRebuild x m) = rm_desired m"
  "rm_route (scheduleRebuild x m) = rm_route m" "rm_circuit (scheduleRebuild x m) = rm_circuit m"
  "rm_keepalive (scheduleRebuild x m) = rm_keepalive m" "rm_hello (scheduleRebuild x m) = rm_hello m"
  "rm_pings (scheduleRebuild x m) = rm_pings m" "rm_resumes (scheduleRebuild x m) = rm_resumes m"
  "rm_sent (scheduleRebuild x m) = rm_sent m"
  by (simp_all add: scheduleRebuild_def Let_def)

lemma scheduleRebuild_stopped: "\<not> rm_running m \<Longrightarrow> scheduleRebuild x m = m"
  by (simp add: scheduleRebuild_def)

lemma scheduleRebuild_armed: "rm_running m \<Longrightarrow> rm_rebuild (scheduleRebuild x m) \<noteq> None"
  by (simp add: scheduleRebuild_def Let_def)

lemma scheduleRebuild_backoff: "backoff_ok m \<Longrightarrow> backoff_ok (scheduleRebuild x m)"
  by (simp add: backoff_ok_def scheduleRebuild_def Let_def length_backoff)

lemma scheduleRebuild_core: "mgr_core m \<Longrightarrow> mgr_core (scheduleRebuild x m)"
proof -
  assume m: "mgr_core m"
  then have "backoff_ok (scheduleRebuild x m)" by (simp add: mgr_core_def scheduleRebuild_backoff)
  with m show ?thesis
    by (cases "rm_running m") (simp_all add: mgr_core_def stopped_ok_def ready_ok_def waiting_ok_def
        build_ok_def scheduleRebuild_stopped)
qed

lemma init_manager_inv: "mgr_inv (init_manager now)"
  by (simp add: mgr_inv_def mgr_defs init_manager_def route_ok_def)

lemma clampDesiredHops_range: "1 \<le> clampDesiredHops v \<and> clampDesiredHops v \<le> 6"
  by (auto simp: clampDesiredHops_def)

subsection \<open>Every event keeps it\<close>

lemma waiting_short: "waiting_ok m \<Longrightarrow> rm_hello m = [] \<or> (\<exists>b. rm_hello m = [(bl_hop b, b)])"
  by (auto simp: waiting_ok_def)

lemma cleared_resumes:
  "waiting_ok m \<Longrightarrow> rm_resumes m = [] \<Longrightarrow>
   rm_resumes (clearPendingHelloAcks m) = [] \<or> (\<exists>b. rm_resumes (clearPendingHelloAcks m) = [ResumeFail b])"
  by (auto simp: clearPendingHelloAcks_def waiting_ok_def)

lemma buildRouteInternal_pre:
  assumes w: "waiting_ok m" "rm_resumes m = []" and run: "rm_running m" and b: "backoff_ok m"
    and d: "1 \<le> d" "d \<le> 6"
  shows "mgr_core (buildRouteInternal env d rb reason m) \<and>
    resume_pre (buildRouteInternal env d rb reason m) (rm_resumes (buildRouteInternal env d rb reason m))"
proof -
  let ?m0 = "clearKeepaliveLoop (m\<lparr>rm_desired := d\<rparr>)"
  let ?m1 = "(clearPendingHelloAcks ?m0)\<lparr>rm_pings := []\<rparr>"
  let ?sel = "take d (filter (\<lambda>p. p \<noteq> trim (re_local env)) (dedupePeerIds (re_peers env)))"
  have res: "rm_resumes ?m1 = [] \<or> (\<exists>b. rm_resumes ?m1 = [ResumeFail b])"
    using cleared_resumes [of ?m0] w by (simp add: clearKeepaliveLoop_def waiting_ok_def build_ok_def)
  have m1: "rm_hello ?m1 = []" "rm_running ?m1" "backoff_ok ?m1" "rm_desired ?m1 = d"
    using run b by (simp_all add: clearPendingHelloAcks_def clearKeepaliveLoop_def backoff_ok_def)
  show ?thesis
  proof (cases "?sel = []")
    case True
    let ?m2 = "setRouteState \<lparr>rs_desired = d, rs_established = 0, rs_status = RsIdle, rs_circuit = None,
        rs_hops = createHops d [], rs_lastError = Some ''NO_RELAY_PEERS'', rs_updatedAt = re_now env\<rparr>
        (?m1\<lparr>rm_circuit := None\<rparr>)"
    have eq: "buildRouteInternal env d rb reason m = scheduleRebuild ''NO_RELAY_PEERS'' ?m2"
      using True by (simp add: buildRouteInternal_def Let_def)
    have "mgr_core ?m2" using m1 d
      by (simp add: mgr_core_def stopped_ok_def ready_ok_def waiting_ok_def backoff_ok_def setRouteState_def route_ok_def)
    moreover have "rm_resumes (scheduleRebuild ''NO_RELAY_PEERS'' ?m2) = rm_resumes ?m1"
      by (simp add: setRouteState_def)
    ultimately show ?thesis unfolding eq using resume_pre_fail [OF res] scheduleRebuild_core
      by (metis resume_pre_fail res)
  next
    case False
    then have "1 \<le> length ?sel" by (simp add: Suc_le_eq)
    moreover have "length ?sel \<le> d" by simp
    ultimately have "mgr_core (buildRouteInternal env d rb reason m)" using False m1 d
      by (simp add: buildRouteInternal_def Let_def mgr_core_def stopped_ok_def ready_ok_def waiting_ok_def
          backoff_ok_def build_ok_def setRouteState_def route_ok_def sendHello_def)
    moreover have "rm_resumes (buildRouteInternal env d rb reason m) = rm_resumes ?m1"
      using False by (simp add: buildRouteInternal_def Let_def setRouteState_def sendHello_def)
    ultimately show ?thesis using resume_pre_fail res by metis
  qed
qed

lemma clamp_clamped [simp]: "clampDesiredHops (int (clampDesiredHops d)) = clampDesiredHops d"
  by (simp add: clampDesiredHops_def)

lemma buildRoute_pre:
  assumes "mgr_inv m" "rm_running m"
  shows "mgr_core (buildRoute env d m) \<and> resume_pre (buildRoute env d m) (rm_resumes (buildRoute env d m))"
  unfolding buildRoute_def
  by (rule buildRouteInternal_pre) (use assms clampDesiredHops_range in \<open>simp_all add: mgr_inv_def mgr_core_def\<close>)

lemma rm_start_pre:
  assumes "mgr_inv m"
  shows "mgr_core (rm_start env d m) \<and> resume_pre (rm_start env d m) (rm_resumes (rm_start env d m))"
proof (cases "clampDesiredHops d = rm_desired m \<and> rs_status (rm_route m) = RsReady")
  case True
  then show ?thesis using assms
    by (simp add: rm_start_def Let_def mgr_inv_def mgr_defs startKeepaliveLoop_def resume_pre_def)
next
  case False
  let ?m = "m\<lparr>rm_desired := clampDesiredHops d, rm_running := True\<rparr>"
  have "waiting_ok ?m" "rm_resumes ?m = []" "rm_running ?m" "backoff_ok ?m"
    using assms by (simp_all add: mgr_inv_def mgr_defs)
  note pre = buildRouteInternal_pre [OF this clampDesiredHops_range [THEN conjunct1]
      clampDesiredHops_range [THEN conjunct2]]
  have "rm_start env d m = buildRouteInternal env (clampDesiredHops d) False ''BUILD_FAILED'' ?m"
    using False by (auto simp: rm_start_def Let_def buildRoute_def)
  then show ?thesis using pre by simp
qed

lemma rebuild_pre:
  assumes "mgr_inv m" "rm_running m"
  shows "mgr_core (buildRouteInternal env (rm_desired m) True reason
      (setRouteState ((rm_route m)\<lparr>rs_status := RsRebuilding, rs_updatedAt := t, rs_lastError := e\<rparr>)
        (m\<lparr>rm_rebuild := None\<rparr>))) \<and>
    resume_pre (buildRouteInternal env (rm_desired m) True reason
      (setRouteState ((rm_route m)\<lparr>rs_status := RsRebuilding, rs_updatedAt := t, rs_lastError := e\<rparr>)
        (m\<lparr>rm_rebuild := None\<rparr>)))
      (rm_resumes (buildRouteInternal env (rm_desired m) True reason
      (setRouteState ((rm_route m)\<lparr>rs_status := RsRebuilding, rs_updatedAt := t, rs_lastError := e\<rparr>)
        (m\<lparr>rm_rebuild := None\<rparr>))))"
  by (rule buildRouteInternal_pre)
    (use assms in \<open>simp_all add: mgr_inv_def mgr_defs setRouteState_def\<close>)

lemma rebuildRoute_pre:
  assumes "mgr_inv m"
  shows "mgr_core (rebuildRoute env reason m) \<and>
    resume_pre (rebuildRoute env reason m) (rm_resumes (rebuildRoute env reason m))"
  using assms rebuild_pre [OF assms, of env reason]
  by (simp add: rebuildRoute_def Let_def clearRebuildTimer_def mgr_inv_def resume_pre_def)

lemma rebuild_timer_pre:
  assumes "mgr_inv m"
  shows "mgr_core (rebuild_timer env m) \<and> resume_pre (rebuild_timer env m) (rm_resumes (rebuild_timer env m))"
proof (cases "rm_rebuild m")
  case None
  then show ?thesis using assms by (simp add: rebuild_timer_def mgr_inv_def resume_pre_def)
next
  case (Some dr)
  then have "rm_running m" using assms by (auto simp: mgr_inv_def mgr_defs)
  with Some rebuild_pre [OF assms this, of env "snd dr"] show ?thesis
    by (cases dr) (simp add: rebuild_timer_def Let_def)
qed

lemma rm_stop_pre:
  assumes "mgr_inv m" and "status \<noteq> RsReady"
  shows "mgr_core (rm_stop env status m) \<and> resume_pre (rm_stop env status m) (rm_resumes (rm_stop env status m))"
proof -
  let ?m0 = "clearRebuildTimer (clearKeepaliveLoop (m\<lparr>rm_running := False, rm_circuit := None, rm_backoff := 0\<rparr>))"
  have "rm_hello ?m0 = rm_hello m" "rm_resumes ?m0 = []"
    using assms by (simp_all add: clearRebuildTimer_def clearKeepaliveLoop_def mgr_inv_def)
  then have res: "rm_resumes (clearPendingHelloAcks ?m0) = [] \<or> (\<exists>b. rm_resumes (clearPendingHelloAcks ?m0) = [ResumeFail b])"
    using assms(1) by (auto simp: clearPendingHelloAcks_def mgr_inv_def mgr_core_def waiting_ok_def)
  have "mgr_core (rm_stop env status m)" using assms
    by (simp add: rm_stop_def Let_def mgr_inv_def mgr_core_def stopped_ok_def ready_ok_def waiting_ok_def
        backoff_ok_def route_ok_def setRouteState_def clearRebuildTimer_def clearKeepaliveLoop_def clearPendingHelloAcks_def)
  moreover have "rm_resumes (rm_stop env status m) = rm_resumes (clearPendingHelloAcks ?m0)"
    by (simp add: rm_stop_def Let_def setRouteState_def)
  ultimately show ?thesis using resume_pre_fail res by metis
qed

text \<open>What an acknowledgement or a timeout finds: the one build that waits, or nothing.\<close>

lemma waiting_lookup:
  assumes "waiting_ok m" and "map_of (rm_hello m) h = Some b"
  shows "bl_hop b = h" "rm_hello m = [(h, b)]" "build_ok b m"
  using assms by (auto simp: waiting_ok_def split: if_splits)

lemma taken_pre:
  assumes i: "mgr_inv m" and l: "map_of (rm_hello m) h = Some b"
    and r: "r = ResumeFail b \<or> r = ResumeOk b ack"
  shows "mgr_core (m\<lparr>rm_hello := [], rm_resumes := [r]\<rparr>) \<and>
    resume_pre (m\<lparr>rm_hello := [], rm_resumes := [r]\<rparr>) [r]"
proof -
  have w: "waiting_ok m" using i by (simp add: mgr_inv_def mgr_core_def)
  note b = waiting_lookup [OF w l]
  have "rm_running m" "rs_status (rm_route m) \<noteq> RsReady"
    using i b(2) by (auto simp: mgr_inv_def mgr_core_def stopped_ok_def ready_ok_def)
  moreover have "mgr_core (m\<lparr>rm_hello := [], rm_resumes := [r]\<rparr>)"
    using i by (simp add: mgr_inv_def mgr_core_def stopped_ok_def ready_ok_def waiting_ok_def backoff_ok_def)
  moreover have "build_ok b (m\<lparr>rm_hello := [], rm_resumes := [r]\<rparr>)" using b(3) by (simp add: build_ok_def)
  ultimately show ?thesis using r by (auto simp: resume_pre_def)
qed

lemma handleHelloAck_found:
  assumes "rm_circuit m = Some (ak_circuit ack)" and "rm_hello m = [(ak_hop ack, b)]" and "rm_resumes m = []"
  shows "handleHelloAck ack m = m\<lparr>rm_hello := [], rm_resumes :=
      [if ak_ok ack \<and> ak_relay ack = bl_peers b ! (bl_hop b - 1) then ResumeOk b ack else ResumeFail b]\<rparr>"
  using assms by (simp add: handleHelloAck_def Let_def)

lemma handleHelloAck_pre:
  assumes i: "mgr_inv m"
  shows "mgr_core (handleHelloAck ack m) \<and> resume_pre (handleHelloAck ack m) (rm_resumes (handleHelloAck ack m))"
proof (cases "rm_circuit m = Some (ak_circuit ack) \<and> map_of (rm_hello m) (ak_hop ack) \<noteq> None")
  case False
  then have "handleHelloAck ack m = m" by (auto simp: handleHelloAck_def)
  then show ?thesis using i by (simp add: mgr_inv_def resume_pre_def)
next
  case True
  then obtain b where c: "rm_circuit m = Some (ak_circuit ack)" and l: "map_of (rm_hello m) (ak_hop ack) = Some b" by auto
  have w: "waiting_ok m" "rm_resumes m = []" using i by (simp_all add: mgr_inv_def mgr_core_def)
  show ?thesis
    unfolding handleHelloAck_found [OF c waiting_lookup(2) [OF w(1) l] w(2)]
    using taken_pre [OF i l, of "if ak_ok ack \<and> ak_relay ack = bl_peers b ! (bl_hop b - 1)
      then ResumeOk b ack else ResumeFail b" ack] by simp
qed

lemma hello_timeout_pre:
  assumes i: "mgr_inv m"
  shows "mgr_core (hello_timeout h m) \<and> resume_pre (hello_timeout h m) (rm_resumes (hello_timeout h m))"
proof (cases "map_of (rm_hello m) h")
  case None
  then show ?thesis using i by (simp add: hello_timeout_def mgr_inv_def resume_pre_def)
next
  case (Some b)
  have w: "waiting_ok m" "rm_resumes m = []" using i by (simp_all add: mgr_inv_def mgr_core_def)
  have "hello_timeout h m = m\<lparr>rm_hello := [], rm_resumes := [ResumeFail b]\<rparr>"
    using Some waiting_lookup(2) [OF w(1) Some] w(2) by (simp add: hello_timeout_def)
  then show ?thesis using taken_pre [OF i Some, of "ResumeFail b"] by simp
qed

lemma marked_route:
  "route_ok r \<Longrightarrow> (\<And>h. hp_index (f h) = hp_index h) \<Longrightarrow>
   route_ok (r\<lparr>rs_established := computeEstablishedHops (map_hop i f (rs_hops r)),
               rs_hops := map_hop i f (rs_hops r), rs_updatedAt := t\<rparr>)"
  by (simp add: route_ok_def)

lemma established_marked:
  assumes "\<And>h. hp_index (f h) = hp_index h" "\<And>h. hp_status (f h) = HopOk"
  shows "computeEstablishedHops hops \<le> computeEstablishedHops (map_hop i f hops)"
  using assms by (induction hops) (auto simp: computeEstablishedHops_def map_hop_def)

lemma handlePingPong_pre:
  assumes i: "mgr_inv m"
  shows "mgr_inv (handlePingPong env pong m)"
proof (cases "rm_circuit m = Some (pg_circuit pong)")
  case False
  then show ?thesis using i by (simp add: handlePingPong_def)
next
  case True
  show ?thesis
  proof (cases "map_of (rm_pings m) (pg_hop pong)")
    case None
    then show ?thesis using i by (simp add: handlePingPong_def)
  next
    case (Some p)
    let ?f = "\<lambda>h. h\<lparr>hp_status := HopOk, hp_lastSeen := Some (pg_ts pong),
                          hp_rtt := Some (max 0 (re_now env - pp_sentTs p))\<rparr>"
    have "computeEstablishedHops (rs_hops (rm_route m)) \<le> computeEstablishedHops (map_hop (pg_hop pong) ?f (rs_hops (rm_route m)))"
      by (rule established_marked) simp_all
    moreover have "rs_established (rm_route m) = computeEstablishedHops (rs_hops (rm_route m))"
      using i by (simp add: mgr_inv_def mgr_core_def route_ok_def)
    moreover have "route_ok ((rm_route m)\<lparr>rs_established := computeEstablishedHops (map_hop (pg_hop pong) ?f (rs_hops (rm_route m))),
        rs_hops := map_hop (pg_hop pong) ?f (rs_hops (rm_route m)), rs_updatedAt := re_now env\<rparr>)"
      by (rule marked_route) (use i in \<open>simp_all add: mgr_inv_def mgr_core_def\<close>)
    ultimately show ?thesis using i True Some
      by (auto simp: handlePingPong_def Let_def mgr_inv_def mgr_core_def stopped_ok_def ready_ok_def
          waiting_ok_def backoff_ok_def build_ok_def setRouteState_def)
  qed
qed

lemma ping_pings_core:
  "mgr_core m \<Longrightarrow> mgr_core (m\<lparr>rm_pings := ps, rm_sent := out\<rparr>)"
  by (simp add: mgr_defs)

lemma degraded_core:
  assumes "route_ok (rm_route m)" "1 \<le> rm_desired m" "rm_desired m \<le> 6" "stopped_ok m" "backoff_ok m" "waiting_ok m"
  shows "mgr_core (scheduleRebuild reason (setRouteState
      ((rm_route m)\<lparr>rs_status := RsDegraded, rs_established := computeEstablishedHops (map_hop i (hp_status_update (\<lambda>_. HopDead)) (rs_hops (rm_route m))),
          rs_hops := map_hop i (hp_status_update (\<lambda>_. HopDead)) (rs_hops (rm_route m)),
          rs_lastError := e, rs_updatedAt := t\<rparr>) m))"
  by (rule scheduleRebuild_core)
    (use assms in \<open>simp add: mgr_core_def stopped_ok_def ready_ok_def waiting_ok_def backoff_ok_def
      build_ok_def setRouteState_def route_ok_def\<close>)

lemma ping_hops_core:
  "mgr_core m \<Longrightarrow> mgr_core (ping_hops env c hops m) \<and> rm_resumes (ping_hops env c hops m) = rm_resumes m"
proof (induction hops arbitrary: m)
  case Nil
  then show ?case by simp
next
  case (Cons hop hops)
  show ?case
  proof (cases "hp_status hop \<noteq> HopOk \<or> \<not> truthy_string (hp_peer hop)")
    case True
    then show ?thesis using Cons by simp
  next
    case False
    let ?misses = "case map_of (rm_pings m) (hp_index hop) of None \<Rightarrow> 0 | Some p \<Rightarrow> pp_misses p + 1"
    let ?rest = "filter (\<lambda>(h, _). h \<noteq> hp_index hop) (rm_pings m)"
    show ?thesis
    proof (cases "DEFAULT_KEEPALIVE_MISS_LIMIT < ?misses")
      case True
      have "route_ok (rm_route (clearKeepaliveLoop (m\<lparr>rm_pings := ?rest\<rparr>)))"
        "1 \<le> rm_desired (clearKeepaliveLoop (m\<lparr>rm_pings := ?rest\<rparr>))"
        "rm_desired (clearKeepaliveLoop (m\<lparr>rm_pings := ?rest\<rparr>)) \<le> 6"
        "stopped_ok (clearKeepaliveLoop (m\<lparr>rm_pings := ?rest\<rparr>))"
        "backoff_ok (clearKeepaliveLoop (m\<lparr>rm_pings := ?rest\<rparr>))"
        "waiting_ok (clearKeepaliveLoop (m\<lparr>rm_pings := ?rest\<rparr>))"
        using Cons.prems by (simp_all add: mgr_defs clearKeepaliveLoop_def)
      from degraded_core [OF this, where reason = "''KEEPALIVE_MISSED''" and i = "hp_index hop" and
          e = "Some ''KEEPALIVE_MISSED''" and t = "re_now env"]
      show ?thesis using False True by (simp add: Let_def clearKeepaliveLoop_def setRouteState_def)
    next
      case limit: False
      show ?thesis
        using Cons.IH [OF ping_pings_core [OF Cons.prems]] False limit by (simp add: Let_def)
    qed
  qed
qed

lemma resume_fail_core:
  assumes "mgr_core m"
  shows "mgr_core (resume_fail env b m) \<and> rm_resumes (resume_fail env b m) = rm_resumes m"
  using degraded_core [where m = m and reason = "bl_reason b" and i = "bl_hop b" and
      e = "Some (bl_reason b)" and t = "re_now env"] assms
  by (simp add: resume_fail_def Let_def setRouteState_def mgr_core_def)

lemma resume_ok_core:
  assumes m: "mgr_core m" and b: "build_ok b m" and r: "rm_running m" and h: "rm_hello m = []"
    and st: "rs_status (rm_route m) \<noteq> RsReady"
  shows "mgr_core (resume_ok env b ack m) \<and> rm_resumes (resume_ok env b ack m) = rm_resumes m"
proof -
  let ?f = "\<lambda>h. h\<lparr>hp_peer := Some (ak_relay ack), hp_status := HopOk, hp_lastSeen := Some (ak_ts ack)\<rparr>"
  let ?hops = "map_hop (bl_hop b) ?f (rs_hops (rm_route m))"
  let ?m1 = "setRouteState ((rm_route m)\<lparr>rs_established := computeEstablishedHops ?hops, rs_hops := ?hops,
      rs_updatedAt := re_now env, rs_lastError := None\<rparr>) m"
  have idx: "map hp_index ?hops = [1..<Suc (rs_desired (rm_route m))]"
    using m by (simp add: mgr_core_def route_ok_def)
  have m1: "mgr_core ?m1" using m idx
    by (simp add: mgr_core_def stopped_ok_def ready_ok_def waiting_ok_def backoff_ok_def build_ok_def
        setRouteState_def route_ok_def st)
  show ?thesis
  proof (cases "bl_hop b < length (bl_peers b)")
    case True
    then have eq: "resume_ok env b ack m = sendHello env (b\<lparr>bl_hop := bl_hop b + 1\<rparr>) ?m1"
      by (simp add: resume_ok_def Let_def)
    show ?thesis unfolding eq using m1 b True h r st
      by (simp add: sendHello_def mgr_core_def stopped_ok_def ready_ok_def waiting_ok_def backoff_ok_def
          build_ok_def setRouteState_def)
  next
    case False
    then have eq: "resume_ok env b ack m = finish_build env b ?m1" by (simp add: resume_ok_def Let_def)
    let ?done = "map (\<lambda>h. h\<lparr>hp_status := (if hp_status h = HopDead then HopPending else hp_status h)\<rparr>) ?hops"
    have "1 \<le> bl_hop b" "bl_hop b \<le> rs_desired (rm_route m)" using b by (auto simp: build_ok_def)
    then obtain x where x: "x \<in> set (rs_hops (rm_route m))" "hp_index x = bl_hop b"
      using index_in_hops [of "rs_hops (rm_route m)"] m by (auto simp: mgr_core_def route_ok_def)
    then have "?f x \<in> set ?hops" by (auto simp: map_hop_def image_iff)
    then have "?f x \<in> set ?done" by (force simp: image_iff)
    then have "1 \<le> computeEstablishedHops ?done" by (rule established_pos) simp
    moreover have "map hp_index ?done = [1..<Suc (rs_desired (rm_route m))]"
      by (rule trans [OF map_status_index idx])
    ultimately show ?thesis unfolding eq using m1 b h r
      by (simp add: finish_build_def Let_def startKeepaliveLoop_def mgr_core_def stopped_ok_def ready_ok_def
          waiting_ok_def backoff_ok_def build_ok_def setRouteState_def route_ok_def)
  qed
qed

lemma drain_inv:
  assumes c: "mgr_core m" and p: "resume_pre m (rm_resumes m)"
  shows "mgr_inv (drain env m)"
proof -
  have c0: "mgr_core (m\<lparr>rm_resumes := []\<rparr>)" using c by (simp add: mgr_defs)
  from p consider "rm_resumes m = []" | b where "rm_resumes m = [ResumeFail b]"
    | b ack where "rm_resumes m = [ResumeOk b ack]" "rm_hello m = []" "rm_running m" "build_ok b m"
        "rs_status (rm_route m) \<noteq> RsReady"
    unfolding resume_pre_def by blast
  then show ?thesis
  proof cases
    case 1
    then show ?thesis using c0 by (simp add: drain_def mgr_inv_def)
  next
    case (2 b)
    then show ?thesis using resume_fail_core [OF c0] by (simp add: drain_def mgr_inv_def)
  next
    case (3 b ack)
    then show ?thesis using resume_ok_core [OF c0, of b env ack] by (simp add: drain_def mgr_inv_def build_ok_def)
  qed
qed

lemma rm_handle_pre:
  assumes i: "mgr_inv m"
  shows "mgr_core (rm_handle env ev m) \<and> resume_pre (rm_handle env ev m) (rm_resumes (rm_handle env ev m))"
proof -
  have self: "mgr_core x \<and> resume_pre x (rm_resumes x)" if "mgr_inv x" for x
    using that by (simp add: mgr_inv_def resume_pre_def)
  show ?thesis
  proof (cases ev)
    case (RmStart d)
    then show ?thesis using rm_start_pre [OF i] by simp
  next
    case (RmBuild d)
    then show ?thesis using self [OF i] buildRoute_pre [OF i] by simp
  next
    case (RmStop e)
    then show ?thesis using rm_stop_pre [OF i, of "if e then RsExpired else RsIdle"] by simp
  next
    case (RmRebuild r)
    then show ?thesis using rebuildRoute_pre [OF i] by simp
  next
    case (RmAck a)
    then show ?thesis using handleHelloAck_pre [OF i] by simp
  next
    case (RmPong p)
    then show ?thesis using self [OF handlePingPong_pre [OF i]] by simp
  next
    case (RmHelloTimeout h)
    then show ?thesis using hello_timeout_pre [OF i] by simp
  next
    case RmKeepalive
    have "mgr_inv (keepaliveTick env m)"
      using i ping_hops_core [of m env] by (auto simp: keepaliveTick_def mgr_inv_def split: option.split)
    then show ?thesis using RmKeepalive self i by simp
  next
    case RmRebuildTimer
    then show ?thesis using rebuild_timer_pre [OF i] by simp
  qed
qed

lemma rm_step_inv: "mgr_inv m \<Longrightarrow> mgr_inv (rm_step e m)"
  unfolding rm_step_def by (rule drain_inv) (use rm_handle_pre in blast)+

lemma rm_run_inv: "mgr_inv m \<Longrightarrow> mgr_inv (fold rm_step es m)"
  by (induction es arbitrary: m) (simp_all add: rm_step_inv)

subsection \<open>What the route manager does\<close>


fun fails :: "resume \<Rightarrow> bool" where
  "fails (ResumeFail _) = True"
| "fails (ResumeOk _ _) = False"

lemma resume_fail_status: "rs_status (rm_route (resume_fail env b m)) = RsDegraded"
  by (simp add: resume_fail_def Let_def setRouteState_def)

lemma run_fails_status:
  "list_all fails rs \<Longrightarrow> rs_status (rm_route (fold (run_resume env) rs m)) =
     (if rs = [] then rs_status (rm_route m) else RsDegraded)"
proof (induction rs arbitrary: m)
  case (Cons r rs)
  then show ?case by (cases r) (auto simp: resume_fail_status)
qed simp

lemma drain_fails:
  "list_all fails (rm_resumes m) \<Longrightarrow> rs_status (rm_route (drain env m)) =
     (if rm_resumes m = [] then rs_status (rm_route m) else RsDegraded)"
  by (simp add: drain_def run_fails_status)

lemma buildRouteInternal_not_ready:
  assumes "rm_resumes m = []"
  shows "rs_status (rm_route (buildRouteInternal env d rb reason m)) \<noteq> RsReady"
    "rm_resumes (buildRouteInternal env d rb reason m) = map (\<lambda>(h, b). ResumeFail b) (rm_hello m)"
  using assms by (simp_all add: buildRouteInternal_def Let_def setRouteState_def sendHello_def
      clearPendingHelloAcks_def clearKeepaliveLoop_def)

lemma map_fails: "list_all fails (map (\<lambda>(h, b). ResumeFail b) xs)"
  by (induction xs) auto

lemma not_ready_step:
  assumes i: "mgr_inv m" and st: "rs_status (rm_route m) \<noteq> RsReady" and na: "\<And>a. ev \<noteq> RmAck a"
  shows "rs_status (rm_route (rm_handle env ev m)) \<noteq> RsReady \<and> list_all fails (rm_resumes (rm_handle env ev m))"
proof -
  have r: "rm_resumes m = []" using i by (simp add: mgr_inv_def)
  show ?thesis
  proof (cases ev)
    case (RmStart d)
    then show ?thesis using st r
      by (simp add: rm_start_def Let_def buildRoute_def buildRouteInternal_not_ready map_fails)
  next
    case (RmBuild d)
    then show ?thesis using st r by (simp add: buildRoute_def buildRouteInternal_not_ready map_fails)
  next
    case (RmStop e)
    then show ?thesis using r
      by (simp add: rm_stop_def Let_def setRouteState_def clearPendingHelloAcks_def clearRebuildTimer_def
          clearKeepaliveLoop_def map_fails)
  next
    case (RmRebuild x)
    then show ?thesis using st r
      by (simp add: rebuildRoute_def Let_def clearRebuildTimer_def setRouteState_def
          buildRouteInternal_not_ready map_fails)
  next
    case (RmAck a)
    then show ?thesis using na by blast
  next
    case (RmPong p)
    then show ?thesis using st r
      by (simp add: handlePingPong_def Let_def setRouteState_def split: option.split)
  next
    case (RmHelloTimeout h)
    then show ?thesis using st r by (simp add: hello_timeout_def split: option.split)
  next
    case RmKeepalive
    then show ?thesis using st r by (simp add: keepaliveTick_def)
  next
    case RmRebuildTimer
    then show ?thesis using st r
      by (simp add: rebuild_timer_def Let_def setRouteState_def buildRouteInternal_not_ready map_fails
          split: option.split)
  qed
qed

text \<open>
  A route becomes ready only by an acknowledgement: of the current circuit, of the hop
  that was greeted, positive, from the very relay chosen for that hop, and for the last hop.
\<close>

theorem ready_only_by_last_ack:
  assumes i: "mgr_inv m" and before: "rs_status (rm_route m) \<noteq> RsReady"
    and after: "rs_status (rm_route (rm_step (env, ev) m)) = RsReady"
  shows "\<exists>ack b. ev = RmAck ack \<and> rm_circuit m = Some (ak_circuit ack) \<and> rm_hello m = [(ak_hop ack, b)] \<and>
    ak_ok ack \<and> ak_relay ack = bl_peers b ! (bl_hop b - 1) \<and> bl_hop b = length (bl_peers b)"
proof (cases "\<exists>ack. ev = RmAck ack")
  case False
  then have "rs_status (rm_route (rm_step (env, ev) m)) \<noteq> RsReady"
    using not_ready_step [OF i before, of ev env] drain_fails [of "rm_handle env ev m" env]
    by (auto simp: rm_step_def split: if_splits)
  then show ?thesis using after by simp
next
  case True
  then obtain ack where ev: "ev = RmAck ack" by blast
  have w: "waiting_ok m" "rm_resumes m = []" using i by (simp_all add: mgr_inv_def mgr_core_def)
  have step: "rm_step (env, ev) m = drain env (handleHelloAck ack m)" by (simp add: rm_step_def ev)
  have found: "rm_circuit m = Some (ak_circuit ack) \<and> map_of (rm_hello m) (ak_hop ack) \<noteq> None"
  proof (rule ccontr)
    assume "\<not> ?thesis"
    then have "handleHelloAck ack m = m" by (auto simp: handleHelloAck_def)
    then have "rm_step (env, ev) m = m" using w(2) by (simp add: step drain_def)
    then show False using before after by simp
  qed
  then obtain b where c: "rm_circuit m = Some (ak_circuit ack)" and l: "map_of (rm_hello m) (ak_hop ack) = Some b" by auto
  note b = waiting_lookup [OF w(1) l]
  let ?good = "ak_ok ack \<and> ak_relay ack = bl_peers b ! (bl_hop b - 1)"
  have good: ?good
  proof (rule ccontr)
    assume ng: "\<not> ?good"
    then have "rs_status (rm_route (rm_step (env, ev) m)) = RsDegraded"
      unfolding step handleHelloAck_found [OF c b(2) w(2)] if_not_P [OF ng]
      by (simp add: drain_def resume_fail_status)
    then show False using after by simp
  qed
  have "bl_hop b = length (bl_peers b)"
  proof (rule ccontr)
    assume "bl_hop b \<noteq> length (bl_peers b)"
    then have "bl_hop b < length (bl_peers b)" using b(3) by (simp add: build_ok_def)
    then have "rs_status (rm_route (rm_step (env, ev) m)) = rs_status (rm_route m)"
      unfolding step handleHelloAck_found [OF c b(2) w(2)] using good
      by (simp add: drain_def resume_ok_def Let_def sendHello_def setRouteState_def)
    then show False using before after by simp
  qed
  then show ?thesis using ev c b(2) good by blast
qed

text \<open>
  Stopping while a greeting is outstanding does not leave the route idle: the waiting
  build is rejected, resumes after the stop, and reports the stopped route as degraded.
\<close>

theorem stop_while_waiting_reports_degraded:
  assumes i: "mgr_inv m" and w: "rm_hello m \<noteq> []"
  shows "rs_status (rm_route (rm_step (env, RmStop e) m)) = RsDegraded \<and>
    \<not> rm_running (rm_step (env, RmStop e) m) \<and> rm_rebuild (rm_step (env, RmStop e) m) = None"
proof -
  let ?s = "rm_stop env (if e then RsExpired else RsIdle) m"
  have res: "rm_resumes ?s = map (\<lambda>(h, b). ResumeFail b) (rm_hello m)"
    using i by (simp add: rm_stop_def Let_def setRouteState_def clearPendingHelloAcks_def
        clearRebuildTimer_def clearKeepaliveLoop_def mgr_inv_def)
  have d: "rs_status (rm_route (rm_step (env, RmStop e) m)) = RsDegraded"
    using drain_fails [of ?s env] w by (simp add: rm_step_def res map_fails)
  obtain b where "rm_resumes ?s = [ResumeFail b]"
    using res w i by (auto simp: mgr_inv_def mgr_core_def waiting_ok_def)
  moreover have "\<not> rm_running ?s" "rm_rebuild ?s = None"
    by (simp_all add: rm_stop_def Let_def setRouteState_def clearPendingHelloAcks_def
        clearRebuildTimer_def clearKeepaliveLoop_def)
  ultimately show ?thesis using d
    by (simp add: rm_step_def drain_def resume_fail_def Let_def setRouteState_def scheduleRebuild_stopped)
qed

text \<open>The environment of a small run: one relay besides the local peer.\<close>

definition small_env :: "byte \<Rightarrow> rm_env" where
  "small_env b = \<lparr>re_peers = [''r''], re_local = ''me'', re_now = 0, re_random = [b]\<rparr>"

definition small_ack :: "byte \<Rightarrow> rm_env \<times> rm_event" where
  "small_ack b = (small_env b, RmAck \<lparr>ak_circuit = toHex [b], ak_hop = 1, ak_ts = 0, ak_relay = ''r'', ak_ok = True\<rparr>)"

text \<open>
  A build that replaces a waiting one leaves the rebuild timer of the one it replaced
  armed: two starts in a row, as the transport makes them, and the acknowledgement of the
  second give a ready route with a rebuild pending, and when that timer fires the ready route is
  given up and built anew.
\<close>

theorem replaced_build_tears_down_ready_route:
  "\<exists>es now. let m = fold rm_step es (init_manager now); m' = rm_step (small_env 3, RmRebuildTimer) m
     in rs_status (rm_route m) = RsReady \<and> rm_rebuild m = Some (60000, ''BUILD_FAILED'') \<and>
        rs_status (rm_route m') = RsRebuilding \<and> rm_circuit m' \<noteq> rm_circuit m"
proof -
  let ?m = "fold rm_step [(small_env 1, RmStart 1), (small_env 2, RmStart 1), small_ack 2] (init_manager 0)"
  have "rs_status (rm_route ?m) = RsReady" "rm_rebuild ?m = Some (60000, ''BUILD_FAILED'')"
    "rs_status (rm_route (rm_step (small_env 3, RmRebuildTimer) ?m)) = RsRebuilding"
    "rm_circuit (rm_step (small_env 3, RmRebuildTimer) ?m) = Some ''03''" "rm_circuit ?m = Some ''02''"
    by code_simp+
  then show ?thesis unfolding Let_def by (intro exI conjI) (assumption | simp)+
qed

subsection \<open>The keepalive finds a dead hop\<close>

definition pingable :: "hop_state \<Rightarrow> bool" where
  "pingable h \<longleftrightarrow> hp_status h = HopOk \<and> truthy_string (hp_peer h)"

definition next_misses :: "nat \<Rightarrow> route_manager \<Rightarrow> nat" where
  "next_misses i m = (case map_of (rm_pings m) i of None \<Rightarrow> 0 | Some p \<Rightarrow> pp_misses p + 1)"

lemma map_of_other: "map_of ((i, x) # filter (\<lambda>(h, _). h \<noteq> i) ps) j = (if j = i then Some x else map_of ps j)"
  by (induction ps) auto

lemma next_misses_ping:
  "next_misses j (m\<lparr>rm_pings := (i, \<lparr>pp_sentTs = t, pp_misses = k\<rparr>) # filter (\<lambda>(h, _). h \<noteq> i) (rm_pings m),
      rm_sent := out\<rparr>) = (if j = i then Suc k else next_misses j m)"
  using map_of_other [of i "\<lparr>pp_sentTs = t, pp_misses = k\<rparr>" "rm_pings m" j]
  by (simp add: next_misses_def del: map_of.simps)

lemma ping_hops_cases:
  "\<not> pingable hop \<Longrightarrow> ping_hops env c (hop # hops) m = ping_hops env c hops m"
  "pingable hop \<Longrightarrow> next_misses (hp_index hop) m \<le> 2 \<Longrightarrow> ping_hops env c (hop # hops) m =
     ping_hops env c hops (m\<lparr>rm_pings := (hp_index hop, \<lparr>pp_sentTs = re_now env, pp_misses = next_misses (hp_index hop) m\<rparr>) #
         filter (\<lambda>(h, _). h \<noteq> hp_index hop) (rm_pings m),
       rm_sent := rm_sent m @ [OutPing c (hp_index hop) (re_now env)]\<rparr>)"
  "pingable hop \<Longrightarrow> 2 < next_misses (hp_index hop) m \<Longrightarrow> rm_running m \<Longrightarrow>
     rs_status (rm_route (ping_hops env c (hop # hops) m)) = RsDegraded \<and>
     rm_rebuild (ping_hops env c (hop # hops) m) \<noteq> None \<and> \<not> rm_keepalive (ping_hops env c (hop # hops) m)"
  by (simp_all add: pingable_def next_misses_def DEFAULT_KEEPALIVE_MISS_LIMIT_def Let_def setRouteState_def
      clearKeepaliveLoop_def scheduleRebuild_armed split: option.splits)

declare ping_hops.simps(2) [simp del]

lemma ping_hops_alive:
  assumes "distinct (map hp_index hops)"
    and "\<And>h. h \<in> set hops \<Longrightarrow> pingable h \<Longrightarrow> next_misses (hp_index h) m = k" and "k \<le> 2"
  shows "\<exists>ps out. ping_hops env c hops m = m\<lparr>rm_pings := ps, rm_sent := out\<rparr> \<and>
    (\<forall>h \<in> set hops. pingable h \<longrightarrow> next_misses (hp_index h) (m\<lparr>rm_pings := ps, rm_sent := out\<rparr>) = Suc k) \<and>
    (\<forall>j. j \<notin> hp_index ` set hops \<longrightarrow> next_misses j (m\<lparr>rm_pings := ps, rm_sent := out\<rparr>) = next_misses j m)"
  using assms(1,2)
proof (induction hops arbitrary: m)
  case Nil
  have "ping_hops env c [] m = m\<lparr>rm_pings := rm_pings m, rm_sent := rm_sent m\<rparr>" by simp
  then show ?case by (metis empty_iff list.set(1) ping_hops.simps(1))
next
  case (Cons hop hops)
  show ?case
  proof (cases "pingable hop")
    case False
    obtain ps out where r: "ping_hops env c hops m = m\<lparr>rm_pings := ps, rm_sent := out\<rparr>"
      "\<forall>h \<in> set hops. pingable h \<longrightarrow> next_misses (hp_index h) (m\<lparr>rm_pings := ps, rm_sent := out\<rparr>) = Suc k"
      "\<forall>j. j \<notin> hp_index ` set hops \<longrightarrow> next_misses j (m\<lparr>rm_pings := ps, rm_sent := out\<rparr>) = next_misses j m"
      using Cons.IH [of m] Cons.prems by (metis distinct.simps(2) list.simps(9) list.set_intros(2))
    show ?thesis unfolding ping_hops_cases(1) [OF False] using r False
      by (intro exI [of _ ps] exI [of _ out]) simp
  next
    case True
    let ?m = "m\<lparr>rm_pings := (hp_index hop, \<lparr>pp_sentTs = re_now env, pp_misses = next_misses (hp_index hop) m\<rparr>) #
         filter (\<lambda>(h, _). h \<noteq> hp_index hop) (rm_pings m),
       rm_sent := rm_sent m @ [OutPing c (hp_index hop) (re_now env)]\<rparr>"
    have k: "next_misses (hp_index hop) m = k" using Cons.prems(2) True by simp
    have nm: "next_misses j ?m = (if j = hp_index hop then Suc k else next_misses j m)" for j
      unfolding next_misses_ping k by simp
    have nm': "next_misses (hp_index h) ?m = k" if "h \<in> set hops" "pingable h" for h
    proof -
      have "hp_index h \<in> hp_index ` set hops" using that(1) by blast
      then have "hp_index h \<noteq> hp_index hop" using Cons.prems(1) by auto
      then show ?thesis using nm Cons.prems(2) that by simp
    qed
    have "distinct (map hp_index hops)" using Cons.prems(1) by simp
    from Cons.IH [OF this nm'] obtain ps out where r: "ping_hops env c hops ?m = ?m\<lparr>rm_pings := ps, rm_sent := out\<rparr>"
      "\<forall>h \<in> set hops. pingable h \<longrightarrow> next_misses (hp_index h) (?m\<lparr>rm_pings := ps, rm_sent := out\<rparr>) = Suc k"
      "\<forall>j. j \<notin> hp_index ` set hops \<longrightarrow> next_misses j (?m\<lparr>rm_pings := ps, rm_sent := out\<rparr>) = next_misses j ?m"
      by blast
    have hop: "hp_index hop \<notin> hp_index ` set hops" using Cons.prems(1) by simp
    have "next_misses (hp_index hop) m \<le> 2" using k assms(3) by simp
    then have "ping_hops env c (hop # hops) m = m\<lparr>rm_pings := ps, rm_sent := out\<rparr>"
      using ping_hops_cases(2) [OF True] r(1) by simp
    then show ?thesis using r(2,3) hop nm by (intro exI [of _ ps] exI [of _ out]) auto
  qed
qed

lemma ping_hops_dead:
  assumes "distinct (map hp_index hops)"
    and "\<exists>h \<in> set hops. pingable h \<and> 2 < next_misses (hp_index h) m" and "rm_running m"
  shows "rs_status (rm_route (ping_hops env c hops m)) = RsDegraded \<and>
     rm_rebuild (ping_hops env c hops m) \<noteq> None \<and> \<not> rm_keepalive (ping_hops env c hops m)"
  using assms
proof (induction hops arbitrary: m)
  case Nil
  then show ?case by simp
next
  case (Cons hop hops)
  consider (no) "\<not> pingable hop" | (dead) "pingable hop" "2 < next_misses (hp_index hop) m"
    | (alive) "pingable hop" "next_misses (hp_index hop) m \<le> 2" by fastforce
  then show ?case
  proof cases
    case no
    then have "\<exists>h \<in> set hops. pingable h \<and> 2 < next_misses (hp_index h) m" using Cons.prems(2) by auto
    then show ?thesis unfolding ping_hops_cases(1) [OF no] using Cons.IH [of m] Cons.prems(1,3) by simp
  next
    case dead
    then show ?thesis using ping_hops_cases(3) Cons.prems(3) by blast
  next
    case alive
    let ?m = "m\<lparr>rm_pings := (hp_index hop, \<lparr>pp_sentTs = re_now env, pp_misses = next_misses (hp_index hop) m\<rparr>) #
         filter (\<lambda>(h, _). h \<noteq> hp_index hop) (rm_pings m),
       rm_sent := rm_sent m @ [OutPing c (hp_index hop) (re_now env)]\<rparr>"
    obtain h where h: "h \<in> set hops" "pingable h" "2 < next_misses (hp_index h) m"
      using Cons.prems(2) alive(2) by auto
    have "hp_index h \<in> hp_index ` set hops" using h(1) by blast
    then have "hp_index h \<noteq> hp_index hop" using Cons.prems(1) by auto
    then have "2 < next_misses (hp_index h) ?m" using h(3) unfolding next_misses_ping by simp
    then have "\<exists>h \<in> set hops. pingable h \<and> 2 < next_misses (hp_index h) ?m" using h by blast
    moreover have "distinct (map hp_index hops)" "rm_running ?m" using Cons.prems(1,3) by simp_all
    ultimately show ?thesis using Cons.IH [of ?m] ping_hops_cases(2) [OF alive] by metis
  qed
qed

definition unanswered :: "nat \<Rightarrow> route_manager \<Rightarrow> bool" where
  "unanswered k m \<longleftrightarrow> mgr_inv m \<and> rs_status (rm_route m) = RsReady \<and>
     (\<forall>h \<in> set (rs_hops (rm_route m)). pingable h \<longrightarrow> next_misses (hp_index h) m = k)"

lemma hops_distinct: "mgr_inv m \<Longrightarrow> distinct (map hp_index (rs_hops (rm_route m)))"
  by (simp add: mgr_inv_def mgr_core_def route_ok_def del: upt_Suc)

lemma keepalive_step:
  assumes i: "mgr_inv m" and r: "rs_status (rm_route m) = RsReady"
  obtains c where "rm_step (env, RmKeepalive) m = drain env (ping_hops env c (rs_hops (rm_route m)) m)"
    "rm_running m" "rm_keepalive m"
proof -
  obtain c where "rm_circuit m = Some c" "rm_running m" "rm_keepalive m"
    using i r by (auto simp: mgr_inv_def mgr_core_def ready_ok_def)
  then show ?thesis using r by (intro that [of c]) (simp_all add: rm_step_def keepaliveTick_def)
qed

lemma drain_nothing: "rm_resumes m = [] \<Longrightarrow> drain env m = m"
  by (simp add: drain_def)

lemma unanswered_step:
  assumes u: "unanswered k m" and k: "k \<le> 2"
  shows "unanswered (Suc k) (rm_step (env, RmKeepalive) m) \<and>
    rs_hops (rm_route (rm_step (env, RmKeepalive) m)) = rs_hops (rm_route m)"
proof -
  have i: "mgr_inv m" and r: "rs_status (rm_route m) = RsReady" using u by (simp_all add: unanswered_def)
  obtain c where c: "rm_step (env, RmKeepalive) m = drain env (ping_hops env c (rs_hops (rm_route m)) m)"
    using keepalive_step [OF i r] by metis
  have nm: "next_misses (hp_index h) m = k" if "h \<in> set (rs_hops (rm_route m))" "pingable h" for h
    using that u by (simp add: unanswered_def)
  from ping_hops_alive [OF hops_distinct [OF i] nm k, of env c] obtain ps out where
    p: "ping_hops env c (rs_hops (rm_route m)) m = m\<lparr>rm_pings := ps, rm_sent := out\<rparr>"
    "\<forall>h \<in> set (rs_hops (rm_route m)). pingable h \<longrightarrow>
       next_misses (hp_index h) (m\<lparr>rm_pings := ps, rm_sent := out\<rparr>) = Suc k" by blast
  have "rm_resumes m = []" using i by (simp add: mgr_inv_def)
  then have s: "rm_step (env, RmKeepalive) m = m\<lparr>rm_pings := ps, rm_sent := out\<rparr>"
    by (simp add: c p(1) drain_nothing)
  have "mgr_inv (m\<lparr>rm_pings := ps, rm_sent := out\<rparr>)" using rm_step_inv [OF i, of "(env, RmKeepalive)"] s by simp
  then show ?thesis unfolding s using p(2) r by (simp add: unanswered_def)
qed

text \<open>
  A relay that stops answering is found: from a ready route with no ping outstanding and at
  least one established hop, four keepalive rounds without an answer leave the route degraded,
  the keepalive off and a rebuild armed, and the first three change nothing but the pings.
\<close>

theorem keepalive_detects_silence:
  assumes i: "mgr_inv m" and r: "rs_status (rm_route m) = RsReady" and p: "rm_pings m = []"
    and h: "\<exists>h \<in> set (rs_hops (rm_route m)). pingable h"
  shows "let m3 = fold rm_step (map (\<lambda>e. (e, RmKeepalive)) [e1, e2, e3]) m;
             m4 = rm_step (e4, RmKeepalive) m3
         in rs_status (rm_route m3) = RsReady \<and> rs_hops (rm_route m3) = rs_hops (rm_route m) \<and>
            rs_status (rm_route m4) = RsDegraded \<and> rm_rebuild m4 \<noteq> None \<and> \<not> rm_keepalive m4"
proof -
  have u0: "unanswered 0 m" using i r p by (simp add: unanswered_def next_misses_def)
  let ?m1 = "rm_step (e1, RmKeepalive) m" and ?m2 = "rm_step (e2, RmKeepalive) (rm_step (e1, RmKeepalive) m)"
  let ?m3 = "rm_step (e3, RmKeepalive) ?m2"
  have u1: "unanswered 1 ?m1 \<and> rs_hops (rm_route ?m1) = rs_hops (rm_route m)"
    using unanswered_step [OF u0] by simp
  then have u2: "unanswered 2 ?m2 \<and> rs_hops (rm_route ?m2) = rs_hops (rm_route m)"
    using unanswered_step [of 1 ?m1 e2] by (simp add: numeral_2_eq_2)
  then have u3: "unanswered 3 ?m3 \<and> rs_hops (rm_route ?m3) = rs_hops (rm_route m)"
    using unanswered_step [of 2 ?m2 e3] by (simp add: eval_nat_numeral)
  have i3: "mgr_inv ?m3" "rs_status (rm_route ?m3) = RsReady" using u3 by (simp_all add: unanswered_def)
  have "\<exists>h \<in> set (rs_hops (rm_route ?m3)). pingable h \<and> 2 < next_misses (hp_index h) ?m3"
    using h u3 by (auto simp: unanswered_def)
  then have d: "rs_status (rm_route (rm_step (e4, RmKeepalive) ?m3)) = RsDegraded \<and>
      rm_rebuild (rm_step (e4, RmKeepalive) ?m3) \<noteq> None \<and> \<not> rm_keepalive (rm_step (e4, RmKeepalive) ?m3)"
    using keepalive_step [OF i3, of e4] ping_hops_dead [OF hops_distinct [OF i3(1)]]
      ping_hops_core [of ?m3 e4] i3(1) by (metis drain_nothing mgr_inv_def)
  show ?thesis using d u3 i3(2) by (simp add: Let_def)
qed

subsection \<open>Witnesses\<close>

definition waiting_sample :: route_manager where
  "waiting_sample = fold rm_step [(small_env 1, RmStart 1)] (init_manager 0)"

definition ready_sample :: route_manager where
  "ready_sample = fold rm_step [(small_env 1, RmStart 1), small_ack 1] (init_manager 0)"

lemma samples_inv: "mgr_inv waiting_sample" "mgr_inv ready_sample"
  unfolding waiting_sample_def ready_sample_def by (rule rm_run_inv, rule init_manager_inv)+

theorem ready_only_by_last_ack_witness:
  "\<exists>b. rm_hello waiting_sample = [(1, b)] \<and> bl_hop b = length (bl_peers b)"
proof -
  have "rs_status (rm_route waiting_sample) \<noteq> RsReady" by code_simp
  moreover have "rs_status (rm_route (rm_step (fst (small_ack 1), snd (small_ack 1)) waiting_sample)) = RsReady"
    by code_simp
  ultimately obtain ack b where "snd (small_ack 1) = RmAck ack" "rm_hello waiting_sample = [(ak_hop ack, b)]"
    "bl_hop b = length (bl_peers b)"
    using ready_only_by_last_ack [OF samples_inv(1)] by blast
  then show ?thesis by (auto simp: small_ack_def)
qed

theorem stop_while_waiting_reports_degraded_witness:
  "rs_status (rm_route (rm_step (small_env 1, RmStop False) waiting_sample)) = RsDegraded"
proof -
  have "rm_hello waiting_sample \<noteq> []" by code_simp
  then show ?thesis using stop_while_waiting_reports_degraded [OF samples_inv(1)] by blast
qed

theorem keepalive_detects_silence_witness:
  "rs_status (rm_route (fold rm_step (replicate 4 (small_env 1, RmKeepalive)) ready_sample)) = RsDegraded"
proof -
  have r: "rs_status (rm_route ready_sample) = RsReady" by code_simp
  have p: "rm_pings ready_sample = []" by code_simp
  have "list_ex pingable (rs_hops (rm_route ready_sample))" by code_simp
  then have h: "\<exists>h \<in> set (rs_hops (rm_route ready_sample)). pingable h" by (simp add: list_ex_iff)
  show ?thesis
    using keepalive_detects_silence [OF samples_inv(2) r p h, of "small_env 1" "small_env 1" "small_env 1" "small_env 1"]
    by (simp add: Let_def numeral_eq_Suc)
qed

end
