(* ===== verification/Base64url.thy ===== *)
theory Base64url
  imports NKC_Prelude
begin

text \<open>
  The base64url codec (src/src/security/base64url.ts) over the two functions of the platform,
  \<open>btoa\<close> and the forgiving decoder \<open>atob\<close>, which is None where the platform throws.
\<close>

subsection \<open>The platform's codec\<close>

definition b64_char :: "nat \<Rightarrow> char" where
  "b64_char n = (if n < 26 then char_of (65 + n) else if n < 52 then char_of (71 + n)
     else if n < 62 then char_of (n - 4) else if n = 62 then CHR ''+'' else CHR ''/'')"

definition b64_val :: "char \<Rightarrow> nat option" where
  "b64_val c = (let n = (of_char c :: nat) in
     if 65 \<le> n \<and> n \<le> 90 then Some (n - 65) else if 97 \<le> n \<and> n \<le> 122 then Some (n - 71)
     else if 48 \<le> n \<and> n \<le> 57 then Some (n + 4)
     else if c = CHR ''+'' then Some 62 else if c = CHR ''/'' then Some 63 else None)"

fun sextets :: "bytes \<Rightarrow> nat list" where
  "sextets [] = []"
| "sextets [a] = [unat a div 4, (unat a mod 4) * 16]"
| "sextets [a, b] = [unat a div 4, (unat a mod 4) * 16 + unat b div 16, (unat b mod 16) * 4]"
| "sextets (a # b # c # rest) =
     [unat a div 4, (unat a mod 4) * 16 + unat b div 16, (unat b mod 16) * 4 + unat c div 64,
      unat c mod 64] @ sextets rest"

fun unsextets :: "nat list \<Rightarrow> bytes" where
  "unsextets (p # q # r # s # rest) =
     of_nat (p * 4 + q div 16) # of_nat ((q mod 16) * 16 + r div 4) # of_nat ((r mod 4) * 64 + s) #
     unsextets rest"
| "unsextets [p, q, r] = [of_nat (p * 4 + q div 16), of_nat ((q mod 16) * 16 + r div 4)]"
| "unsextets [p, q] = [of_nat (p * 4 + q div 16)]"
| "unsextets _ = []"

definition btoa :: "bytes \<Rightarrow> string" where
  "btoa bs = map b64_char (sextets bs) @
     (if length bs mod 3 = 1 then ''=='' else if length bs mod 3 = 2 then ''='' else [])"

definition ascii_space :: "char \<Rightarrow> bool" where
  "ascii_space c \<longleftrightarrow> (let n = (of_char c :: nat) in n = 9 \<or> n = 10 \<or> n = 12 \<or> n = 13 \<or> n = 32)"

definition strip_pad :: "string \<Rightarrow> string" where
  "strip_pad s =
     (if length s mod 4 \<noteq> 0 then s
      else if length s \<ge> 2 \<and> drop (length s - 2) s = ''=='' then take (length s - 2) s
      else if length s \<ge> 1 \<and> last s = CHR ''='' then butlast s else s)"

definition atob :: "string \<Rightarrow> bytes option" where
  "atob s =
     (let t = strip_pad (filter (\<lambda>c. \<not> ascii_space c) s)
      in if length t mod 4 = 1 then None
         else if list_ex (\<lambda>c. b64_val c = None) t then None
         else Some (unsextets (map (\<lambda>c. the (b64_val c)) t)))"

subsection \<open>The codec of the program\<close>

text \<open>A binary string holds one byte per code unit, so it is written as the list of these
  bytes; it is built in chunks of 0x8000.\<close>

definition BINARY_STRING_CHUNK_SIZE :: nat where
  "BINARY_STRING_CHUNK_SIZE = 32768"

function binary_chunks :: "nat \<Rightarrow> bytes \<Rightarrow> bytes list" where
  "binary_chunks offset bs =
     (if offset < length bs
      then take BINARY_STRING_CHUNK_SIZE (drop offset bs) #
           binary_chunks (offset + BINARY_STRING_CHUNK_SIZE) bs
      else [])"
  by pat_completeness auto
termination
  by (relation "measure (\<lambda>(offset, bs). length bs - offset)") (auto simp: BINARY_STRING_CHUNK_SIZE_def)

declare binary_chunks.simps [simp del]

definition toBinaryString :: "bytes \<Rightarrow> bytes" where
  "toBinaryString bs = concat (binary_chunks 0 bs)"

definition encodeBase64 :: "bytes \<Rightarrow> string" where
  "encodeBase64 bs = btoa (toBinaryString bs)"

definition decodeBase64 :: "string \<Rightarrow> bytes option" where
  "decodeBase64 value = atob value"

definition to_url_char :: "char \<Rightarrow> char" where
  "to_url_char c = (if c = CHR ''+'' then CHR ''-'' else if c = CHR ''/'' then CHR ''_'' else c)"

definition of_url_char :: "char \<Rightarrow> char" where
  "of_url_char c = (if c = CHR ''-'' then CHR ''+'' else if c = CHR ''_'' then CHR ''/'' else c)"

definition encodeBase64Url :: "bytes \<Rightarrow> string" where
  "encodeBase64Url bs = rev (dropWhile (\<lambda>c. c = CHR ''='') (rev (map to_url_char (encodeBase64 bs))))"

definition decodeBase64Url :: "string \<Rightarrow> bytes option" where
  "decodeBase64Url value =
     (let normalized = map of_url_char value
      in decodeBase64 (normalized @ replicate ((4 - length normalized mod 4) mod 4) (CHR ''='')))"

subsection \<open>Round trip\<close>

text \<open>The alphabet, by the five ranges the encoder distinguishes.\<close>

lemma b64_ranges:
  fixes n :: nat
  assumes "n < 64"
  obtains "n < 26" | "26 \<le> n" "n < 52" | "52 \<le> n" "n < 62" | "n = 62" | "n = 63"
  using assms by linarith

lemma char_ne_by_code: "(of_char c :: nat) \<noteq> of_char d \<Longrightarrow> c \<noteq> d"
  by auto

lemma b64_val_code:
  "b64_val c = (let n = (of_char c :: nat) in
     if 65 \<le> n \<and> n \<le> 90 then Some (n - 65) else if 97 \<le> n \<and> n \<le> 122 then Some (n - 71)
     else if 48 \<le> n \<and> n \<le> 57 then Some (n + 4)
     else if n = 43 then Some 62 else if n = 47 then Some 63 else None)"
proof -
  have code: "(43::nat) = of_char (CHR ''+'')" "(47::nat) = of_char (CHR ''/'')" by simp_all
  have "(of_char c :: nat) = 43 \<longleftrightarrow> c = CHR ''+''" "(of_char c :: nat) = 47 \<longleftrightarrow> c = CHR ''/''"
    by (simp_all only: code of_char_eq_iff)
  then show ?thesis by (simp only: b64_val_def Let_def)
qed

lemma b64_facts:
  assumes "n < 64"
  shows "b64_val (b64_char n) = Some n" "\<not> ascii_space (b64_char n)" "b64_char n \<noteq> CHR ''=''"
    "of_url_char (to_url_char (b64_char n)) = b64_char n" "to_url_char (b64_char n) \<noteq> CHR ''=''"
proof -
  have code: "(of_char (b64_char n) :: nat) = (if n < 26 then 65 + n else if n < 52 then 71 + n
     else if n < 62 then n - 4 else if n = 62 then 43 else 47)"
    using assms by (simp add: b64_char_def)
  show "b64_val (b64_char n) = Some n" unfolding b64_val_code Let_def code
    using assms by (cases rule: b64_ranges; simp; presburger)
  show "\<not> ascii_space (b64_char n)" unfolding ascii_space_def Let_def code
    using assms by (cases rule: b64_ranges; simp; presburger)
  have eqs: "(of_char (CHR ''='') :: nat) = 61" "(of_char (CHR ''-'') :: nat) = 45"
    "(of_char (CHR ''_'') :: nat) = 95" "(of_char (CHR ''+'') :: nat) = 43" "(of_char (CHR ''/'') :: nat) = 47"
    by simp_all
  show ne: "b64_char n \<noteq> CHR ''=''"
    by (rule char_ne_by_code, unfold code eqs) (use assms in \<open>cases rule: b64_ranges; simp\<close>)
  have minus: "b64_char n \<noteq> CHR ''-''"
    by (rule char_ne_by_code, unfold code eqs) (use assms in \<open>cases rule: b64_ranges; simp\<close>)
  have under: "b64_char n \<noteq> CHR ''_''"
    by (rule char_ne_by_code, unfold code eqs) (use assms in \<open>cases rule: b64_ranges; simp\<close>)
  show "of_url_char (to_url_char (b64_char n)) = b64_char n" "to_url_char (b64_char n) \<noteq> CHR ''=''"
    using ne minus under by (simp_all add: to_url_char_def of_url_char_def)
qed

lemma byte_lt [simp]: "unat (b::byte) < 256"
  using unsigned_less [of b] by simp

lemma sextets_lt: "n \<in> set (sextets bs) \<Longrightarrow> n < 64"
proof (induction bs rule: sextets.induct)
  case (4 a b c rest)
  have "unat a div 4 < 64" "unat b div 16 < 16" "unat c div 64 < 4" by (simp_all add: less_mult_imp_div_less)
  then show ?case using 4 by auto
next
  case (3 a b)
  have "unat a div 4 < 64" "unat b div 16 < 16" by (simp_all add: less_mult_imp_div_less)
  then show ?case using 3 by auto
next
  case (2 a)
  have "unat a div 4 < 64" by (simp add: less_mult_imp_div_less)
  then show ?case using 2 by auto
qed simp

lemma byte_parts:
  "of_nat (unat (a::byte) div 4 * 4 + unat a mod 4) = a"
  "of_nat (unat (a::byte) div 16 * 16 + unat a mod 16) = a"
  "of_nat (unat (a::byte) div 64 * 64 + unat a mod 64) = a"
  "of_nat (unat (a::byte) mod 4 + unat a div 4 * 4) = a"
  by (simp_all only: div_mult_mod_eq mod_div_mult_eq of_nat_unat ucast_id id_apply)

lemma unsextets_sextets: "unsextets (sextets bs) = bs"
proof (induction bs rule: sextets.induct)
  case (4 a b c rest)
  have "unat b div 16 < 16" "unat c div 64 < 4" by (simp_all add: less_mult_imp_div_less)
  moreover have "(unat b mod 16) * 4 + unat c div 64 < 64" using \<open>unat c div 64 < 4\<close> by auto
  ultimately show ?case using 4 byte_parts [of a] byte_parts [of b] byte_parts [of c]
    by (simp add: mult.commute)
next
  case (3 a b)
  have "unat b div 16 < 16" by (simp add: less_mult_imp_div_less)
  then show ?case using byte_parts [of a] byte_parts [of b] by (simp add: mult.commute)
next
  case (2 a)
  then show ?case using byte_parts [of a] by (simp add: mult.commute)
qed simp

lemma length_sextets: "length (sextets bs) = (4 * length bs + 2) div 3"
  by (induction bs rule: sextets.induct) auto

lemma dropWhile_none: "(\<And>x. x \<in> set xs \<Longrightarrow> \<not> P x) \<Longrightarrow> dropWhile P xs = xs"
  by (cases xs) auto

lemma concat_binary_chunks: "concat (binary_chunks offset bs) = drop offset bs"
proof (induction offset bs rule: binary_chunks.induct)
  case (1 offset bs)
  show ?case
  proof (cases "offset < length bs")
    case True
    then show ?thesis using 1
      by (subst binary_chunks.simps)
        (simp add: add.commute [of offset] drop_drop [symmetric] del: drop_drop)
  qed (simp add: binary_chunks.simps [of offset])
qed

lemma toBinaryString_id [simp, code]: "toBinaryString bs = bs"
  by (simp add: toBinaryString_def concat_binary_chunks)

lemma encodeBase64Url_eq: "encodeBase64Url bs = map (\<lambda>n. to_url_char (b64_char n)) (sextets bs)"
proof -
  let ?m = "map (\<lambda>n. to_url_char (b64_char n)) (sextets bs)"
  have n: "dropWhile (\<lambda>c. c = CHR ''='') (rev ?m) = rev ?m"
    by (rule dropWhile_none) (auto simp: b64_facts sextets_lt)
  have "\<exists>k. map to_url_char (encodeBase64 bs) = ?m @ replicate k (CHR ''='')"
    by (auto simp: encodeBase64_def btoa_def to_url_char_def numeral_2_eq_2
        intro: exI [of _ 0] exI [of _ 1] exI [of _ 2])
  then obtain k where k: "map to_url_char (encodeBase64 bs) = ?m @ replicate k (CHR ''='')" by blast
  have "dropWhile (\<lambda>c. c = CHR ''='') (replicate k (CHR ''='') @ rev ?m) = rev ?m"
    using n by (induction k) auto
  then show ?thesis by (simp add: encodeBase64Url_def k)
qed

lemma drop_eq_single_last: "xs \<noteq> [] \<Longrightarrow> drop (length xs - Suc 0) xs = [last xs]"
  by (induction xs rule: rev_induct) auto

lemma strip_pad_pads:
  assumes "\<And>c. c \<in> set t \<Longrightarrow> c \<noteq> CHR ''=''" and "length t mod 4 \<noteq> 1"
  shows "strip_pad (t @ replicate ((4 - length t mod 4) mod 4) (CHR ''='')) = t"
proof -
  have "length t mod 4 < 4" by simp
  with assms(2) consider (a) "length t mod 4 = 0" | (b) "length t mod 4 = 2" | (c) "length t mod 4 = 3" by linarith
  then show ?thesis
  proof cases
    case a
    have "t \<noteq> [] \<Longrightarrow> last t \<noteq> CHR ''=''" using assms(1) by simp
    moreover have "drop (length t - 2) t \<noteq> ''==''"
      using assms(1) by (metis in_set_dropD list.set_intros(1))
    ultimately show ?thesis using a by (auto simp: strip_pad_def Suc_le_eq)
  next
    case b
    then have "(length t + 2) mod 4 = 0" by presburger
    then show ?thesis using b by (simp add: strip_pad_def numeral_2_eq_2)
  next
    case c
    then have "(length t + 1) mod 4 = 0" "t \<noteq> []" by (presburger, auto)
    moreover have "drop (length t - 1) (t @ ''='') \<noteq> ''==''"
    proof -
      have "drop (length t - 1) (t @ ''='') = [last t] @ ''=''"
        using \<open>t \<noteq> []\<close> by (simp add: drop_eq_single_last)
      then show ?thesis using assms(1) [of "last t"] \<open>t \<noteq> []\<close> by simp
    qed
    ultimately show ?thesis using c by (simp add: strip_pad_def numeral_2_eq_2)
  qed
qed

lemma pad_not_space: "\<not> ascii_space (CHR ''='')"
  by (simp add: ascii_space_def)

lemma decode_padded:
  "decodeBase64 (map b64_char (sextets bs) @ replicate ((4 - length (map b64_char (sextets bs)) mod 4) mod 4) (CHR ''='')) = Some bs"
proof -
  let ?t = "map b64_char (sextets bs)"
  have len: "length ?t mod 4 \<noteq> 1" unfolding length_map length_sextets by presburger
  have ws: "filter (\<lambda>c. \<not> ascii_space c) (?t @ replicate k (CHR ''='')) = ?t @ replicate k (CHR ''='')" for k
    by (auto simp: filter_id_conv b64_facts sextets_lt pad_not_space)
  have noeq: "c \<noteq> CHR ''=''" if "c \<in> set ?t" for c using that by (auto simp: b64_facts sextets_lt)
  have "strip_pad (?t @ replicate ((4 - length ?t mod 4) mod 4) (CHR ''='')) = ?t"
    by (rule strip_pad_pads) (use noeq len in simp_all)
  moreover have "\<not> list_ex (\<lambda>c. b64_val c = None) ?t"
    by (auto simp: list_ex_iff b64_facts sextets_lt)
  moreover have "map (\<lambda>c. the (b64_val c)) ?t = sextets bs"
    by (rule nth_equalityI) (simp_all add: b64_facts sextets_lt [OF nth_mem])
  ultimately show ?thesis
    unfolding Let_def decodeBase64_def atob_def ws
    using len unsextets_sextets [of bs] by simp
qed

lemma decode_encode: "decodeBase64Url (encodeBase64Url bs) = Some bs"
proof -
  have url: "map of_url_char (encodeBase64Url bs) = map b64_char (sextets bs)"
    by (simp add: encodeBase64Url_eq b64_facts sextets_lt)
  show ?thesis unfolding decodeBase64Url_def url Let_def by (rule decode_padded)
qed

lemma decode_encode_padded: "decodeBase64 (encodeBase64 bs) = Some bs"
proof -
  have "(if length bs mod 3 = 1 then ''=='' else if length bs mod 3 = 2 then ''='' else []) =
      replicate ((4 - length (map b64_char (sextets bs)) mod 4) mod 4) (CHR ''='')"
  proof -
    consider "length bs mod 3 = 0" | "length bs mod 3 = 1" | "length bs mod 3 = 2" by linarith
    then show ?thesis
    proof cases
      case 1
      then have "length (sextets bs) mod 4 = 0" unfolding length_sextets by presburger
      then show ?thesis using 1 by simp
    next
      case 2
      then have "length (sextets bs) mod 4 = 2" unfolding length_sextets by presburger
      then show ?thesis using 2 by (simp add: numeral_2_eq_2)
    next
      case 3
      then have "length (sextets bs) mod 4 = 3" unfolding length_sextets by presburger
      then show ?thesis using 3 by simp
    qed
  qed
  then show ?thesis unfolding encodeBase64_def btoa_def toBinaryString_id using decode_padded [of bs] by simp
qed

definition url_safe :: "char \<Rightarrow> bool" where
  "url_safe c \<longleftrightarrow> (let n = (of_char c :: nat) in 65 \<le> n \<and> n \<le> 90 \<or> 97 \<le> n \<and> n \<le> 122 \<or>
     48 \<le> n \<and> n \<le> 57 \<or> n = 45 \<or> n = 95)"

lemma url_char_code:
  assumes "n < 64"
  shows "(of_char (to_url_char (b64_char n)) :: nat) = (if n < 26 then 65 + n else if n < 52 then 71 + n
     else if n < 62 then n - 4 else if n = 62 then 45 else 95)"
proof (cases "n < 62")
  case True
  have code: "(of_char (b64_char n) :: nat) = (if n < 26 then 65 + n else if n < 52 then 71 + n else n - 4)"
    using True by (simp add: b64_char_def)
  have eqs: "(of_char (CHR ''+'') :: nat) = 43" "(of_char (CHR ''/'') :: nat) = 47" by simp_all
  have "b64_char n \<noteq> CHR ''+''" "b64_char n \<noteq> CHR ''/''"
    by (rule char_ne_by_code, unfold code eqs, use True in \<open>simp; presburger\<close>)+
  then show ?thesis using True code by (simp add: to_url_char_def)
next
  case False
  then have "n = 62 \<or> n = 63" using assms by linarith
  then show ?thesis by (auto simp: b64_char_def to_url_char_def)
qed

lemma url_char_safe:
  assumes "n < 64"
  shows "url_safe (to_url_char (b64_char n))"
  unfolding url_safe_def Let_def url_char_code [OF assms]
  using assms by (cases rule: b64_ranges; simp; presburger)

text \<open>
  Encoding bytes for a URL and decoding them gives the bytes back, whatever they are; the
  encoded text uses only letters, digits, - and _, carries no padding, and has the length
  that the number of bytes determines.
\<close>

theorem base64url_roundtrip:
  "decodeBase64Url (encodeBase64Url bs) = Some bs \<and> list_all url_safe (encodeBase64Url bs) \<and>
   length (encodeBase64Url bs) = (4 * length bs + 2) div 3"
proof (intro conjI)
  show "decodeBase64Url (encodeBase64Url bs) = Some bs" by (rule decode_encode)
qed (simp_all add: encodeBase64Url_eq length_sextets list_all_iff sextets_lt url_char_safe)

subsection \<open>Texts of the alphabet\<close>

lemma dropWhile_all_kept: "list_all (\<lambda>c. \<not> P c) s \<Longrightarrow> dropWhile P s = s"
  by (cases s) simp_all

lemma rev_dropWhile_none: "list_all (\<lambda>c. \<not> P c) s \<Longrightarrow> rev (dropWhile P (rev s)) = s"
  by (simp add: dropWhile_all_kept list_all_iff)

lemma url_safe_no_space: "url_safe c \<Longrightarrow> \<not> js_space c"
  by (auto simp: url_safe_def js_space_def Let_def)

lemma trim_url_safe: "list_all url_safe s \<Longrightarrow> trim s = s"
  unfolding trim_def using url_safe_no_space by (simp add: dropWhile_all_kept rev_dropWhile_none list_all_iff)

lemma encode_safe: "list_all url_safe (encodeBase64Url bs)"
  by (simp add: encodeBase64Url_eq list_all_iff sextets_lt url_char_safe)

lemma encode_nonempty: "bs \<noteq> [] \<Longrightarrow> encodeBase64Url bs \<noteq> []"
  using decode_encode [of bs] decode_encode [of "[]"] by (auto simp: encodeBase64Url_eq)

end
