(* ===== verification/Onion_Relay.thy ===== *)
theory Onion_Relay
  imports Onion_Route Net_Config Base64url
begin

text \<open>
  The relays of the internal onion route: what a peer does with a relay envelope, and how a
  control message or a packet is sent along the chain of relays
  (src/src/net/internalOnion/relayNetwork.ts); who may sign a control message
  (controlPlaneAuth.ts); the runtime that discovers relays and starts and stops the manager
  (runtime.ts). Signatures are a primitive of a library and the bytes they cover are a function
  of the message; both are arguments. An incoming frame is what decoding and JSON parsing gave:
  nothing, or an envelope whose chain and cursor may still be of any kind.
\<close>

subsection \<open>Messages\<close>

datatype control_message =
    CmHello string nat time_ms string "string option"
  | CmAck string nat time_ms string bool "string option"
  | CmPing string nat time_ms "string option"
  | CmPong string nat time_ms "string option"

datatype 'p relay_payload = RpControl control_message | RpData 'p

record 'p relay_envelope =
  ev_ts :: time_ms
  ev_circuit :: string
  ev_sender :: string
  ev_chain :: "string list option"
  ev_cursor :: jsnum
  ev_payload :: "'p relay_payload"

definition MAX_CHAIN_LENGTH :: nat where
  "MAX_CHAIN_LENGTH = 8"

text \<open>What a peer relies on: its clock, its id, and signing and verifying control messages.\<close>

record relay_deps =
  rd_now :: time_ms
  rd_local :: string
  rd_sign :: "control_message \<Rightarrow> control_message"
  rd_verify :: "control_message \<Rightarrow> string \<Rightarrow> bool"

datatype 'p relay_action =
    RaSend string "'p relay_envelope" | RaAck hop_ack | RaPong hop_pong | RaDeliver 'p

subsection \<open>Who may sign\<close>

record peer_keys =
  pk_hintDevice :: "string option"
  pk_primaryDevice :: "string option"
  pk_device :: "string option"
  pk_identityPub :: "string option"

definition unsign :: "control_message \<Rightarrow> control_message" where
  "unsign m = (case m of
      CmHello c h t s _ \<Rightarrow> CmHello c h t s None
    | CmAck c h t r k _ \<Rightarrow> CmAck c h t r k None
    | CmPing c h t _ \<Rightarrow> CmPing c h t None
    | CmPong c h t _ \<Rightarrow> CmPong c h t None)"

fun message_sig :: "control_message \<Rightarrow> string option" where
  "message_sig (CmHello _ _ _ _ s) = s"
| "message_sig (CmAck _ _ _ _ _ s) = s"
| "message_sig (CmPing _ _ _ s) = s"
| "message_sig (CmPong _ _ _ s) = s"

fun with_sig :: "string \<Rightarrow> control_message \<Rightarrow> control_message" where
  "with_sig s (CmHello c h t p _) = CmHello c h t p (Some s)"
| "with_sig s (CmAck c h t r k _) = CmAck c h t r k (Some s)"
| "with_sig s (CmPing c h t _) = CmPing c h t (Some s)"
| "with_sig s (CmPong c h t _) = CmPong c h t (Some s)"

text \<open>The primitives: the bytes to sign and detached signatures.\<close>

record sign_lib =
  sl_bytes :: "control_message \<Rightarrow> bytes"
  sl_sign :: "bytes \<Rightarrow> bytes \<Rightarrow> bytes"
  sl_verify :: "bytes \<Rightarrow> bytes \<Rightarrow> bytes \<Rightarrow> bool"

definition getControlPlaneSigningBytes :: "sign_lib \<Rightarrow> control_message \<Rightarrow> bytes" where
  "getControlPlaneSigningBytes lib m = sl_bytes lib (unsign m)"

definition signControlPlaneMessageWithKey :: "sign_lib \<Rightarrow> bytes \<Rightarrow> control_message \<Rightarrow> control_message" where
  "signControlPlaneMessageWithKey lib privateKey m =
     with_sig (encodeBase64Url (sl_sign lib (getControlPlaneSigningBytes lib m) privateKey)) m"

definition verifyControlPlaneMessageWithKey :: "sign_lib \<Rightarrow> control_message \<Rightarrow> bytes \<Rightarrow> bool" where
  "verifyControlPlaneMessageWithKey lib m publicKey =
     (if \<not> truthy_string (message_sig m) then False
      else case decodeBase64Url (the (message_sig m)) of
          None \<Rightarrow> False
        | Some sig \<Rightarrow> sl_verify lib sig (getControlPlaneSigningBytes lib m) publicKey)"

definition resolvePeerIdentityPublicKey :: "sign_lib \<Rightarrow> peer_keys list \<Rightarrow> string \<Rightarrow> bytes option" where
  "resolvePeerIdentityPublicKey lib friends peerId =
     (let normalized = trim peerId
      in if normalized = [] then None
         else case List.find (\<lambda>f. list_ex (\<lambda>c. map_option trim c = Some normalized)
                 [pk_hintDevice f, pk_primaryDevice f, pk_device f]) friends of
             None \<Rightarrow> None
           | Some f \<Rightarrow>
               if \<not> truthy_string (pk_identityPub f) then None
               else (case decodeBase64Url (the (pk_identityPub f)) of
                   None \<Rightarrow> None
                 | Some key \<Rightarrow> if length key = 32 then Some key else None))"

definition verifyPeerControlPlaneMessage ::
    "sign_lib \<Rightarrow> peer_keys list \<Rightarrow> control_message \<Rightarrow> string \<Rightarrow> bool" where
  "verifyPeerControlPlaneMessage lib friends m peerId =
     (case resolvePeerIdentityPublicKey lib friends peerId of
        None \<Rightarrow> False
      | Some key \<Rightarrow> verifyControlPlaneMessageWithKey lib m key)"

subsection \<open>Chains\<close>

definition buildChainForHop :: "route_state \<Rightarrow> nat \<Rightarrow> string list" where
  "buildChainForHop route hopIndex =
     uniq (map (\<lambda>h. trim (the (hp_peer h)))
       (filter (\<lambda>h. hp_index h \<le> hopIndex \<and> (case hp_peer h of None \<Rightarrow> False | Some p \<Rightarrow> trim p \<noteq> []))
          (rs_hops route)))"

definition buildRelayChainForData :: "route_state \<Rightarrow> string \<Rightarrow> string list" where
  "buildRelayChainForData route targetPeerId =
     (let relays = filter (\<lambda>p. p \<noteq> [])
            (List.map_filter (\<lambda>h. map_option trim (hp_peer h)) (rs_hops route));
          deduped = uniq (filter (\<lambda>p. p \<noteq> targetPeerId) relays)
      in take MAX_CHAIN_LENGTH (deduped @ [targetPeerId]))"

definition buildRelayEnvelope ::
    "relay_deps \<Rightarrow> string \<Rightarrow> string list \<Rightarrow> 'p relay_payload \<Rightarrow> 'p relay_envelope" where
  "buildRelayEnvelope d circuitId chain payload =
     \<lparr>ev_ts = rd_now d, ev_circuit = circuitId, ev_sender = rd_local d, ev_chain = Some chain,
      ev_cursor = IntN 0, ev_payload = payload\<rparr>"

definition sendEnvelope :: "'p relay_envelope \<Rightarrow> string + 'p relay_action" where
  "sendEnvelope env =
     (let chain = nullish (ev_chain env) []
      in if chain = [] then Inl ''relay chain empty''
         else if MAX_CHAIN_LENGTH < length chain then Inl ''relay chain too long''
         else Inr (RaSend (hd chain) env))"

definition sendControlToPeer ::
    "relay_deps \<Rightarrow> string \<Rightarrow> string \<Rightarrow> control_message \<Rightarrow> string + 'p relay_action" where
  "sendControlToPeer d toPeerId circuitId m =
     sendEnvelope (buildRelayEnvelope d circuitId [toPeerId] (RpControl (rd_sign d m)))"

definition sendControlPlaneMessage ::
    "relay_deps \<Rightarrow> route_state \<Rightarrow> control_message \<Rightarrow> string + 'p relay_action list" where
  "sendControlPlaneMessage d route m =
     (let send = (\<lambda>circuitId hopIndex.
            let chain = buildChainForHop route hopIndex
            in if chain = [] then Inl ''relay chain unavailable''
               else (case sendEnvelope (buildRelayEnvelope d circuitId chain (RpControl (rd_sign d m))) of
                   Inl e \<Rightarrow> Inl e | Inr a \<Rightarrow> Inr [a]))
      in case m of
           CmHello c h _ _ _ \<Rightarrow> send c h
         | CmPing c h _ _ \<Rightarrow> send c h
         | _ \<Rightarrow> Inr [])"

definition sendDataViaCurrentRoute ::
    "relay_deps \<Rightarrow> string \<Rightarrow> route_state \<Rightarrow> string option \<Rightarrow> 'p \<Rightarrow> string + 'p relay_action" where
  "sendDataViaCurrentRoute d freshId route toDeviceId packet =
     (if rs_status route \<noteq> RsReady then Inl ''internal onion route not ready''
      else let target = map_option trim toDeviceId
           in if \<not> truthy_string target then Inl ''internal onion target peer missing''
              else let chain = buildRelayChainForData route (the target)
                   in if chain = [] then Inl ''internal onion relay chain is empty''
                      else sendEnvelope (buildRelayEnvelope d (nullish (rs_circuit route) freshId) chain
                             (RpData packet)))"

subsection \<open>What a peer does with a frame\<close>

text \<open>Answering a control message whose signer was checked.\<close>

definition answer_control :: "relay_deps \<Rightarrow> string \<Rightarrow> control_message \<Rightarrow> 'p relay_action list" where
  "answer_control d sender m =
     (let reply = (\<lambda>circuitId r. case sendControlToPeer d sender circuitId r of Inl _ \<Rightarrow> [] | Inr a \<Rightarrow> [a])
      in case m of
           CmHello c h _ _ _ \<Rightarrow> reply c (CmAck c h (rd_now d) (rd_local d) True None)
         | CmPing c h _ _ \<Rightarrow> reply c (CmPong c h (rd_now d) None)
         | CmAck c h t r k _ \<Rightarrow>
             [RaAck \<lparr>ak_circuit = c, ak_hop = h, ak_ts = t, ak_relay = r, ak_ok = k\<rparr>]
         | CmPong c h t _ \<Rightarrow> [RaPong \<lparr>pg_circuit = c, pg_hop = h, pg_ts = t\<rparr>])"

definition claimed_signer :: "string \<Rightarrow> control_message \<Rightarrow> string" where
  "claimed_signer sender m = (case m of
      CmHello _ _ _ s _ \<Rightarrow> s | CmAck _ _ _ r _ _ \<Rightarrow> r | _ \<Rightarrow> sender)"

definition handle_final :: "relay_deps \<Rightarrow> 'p relay_envelope \<Rightarrow> 'p relay_action list" where
  "handle_final d env =
     (case ev_payload env of
        RpData packet \<Rightarrow> [RaDeliver packet]
      | RpControl m \<Rightarrow>
          if claimed_signer (ev_sender env) m \<noteq> ev_sender env then []
          else if \<not> rd_verify d m (claimed_signer (ev_sender env) m) then []
          else answer_control d (ev_sender env) m)"

definition handleIncomingRelayPacket ::
    "relay_deps \<Rightarrow> 'p relay_envelope option \<Rightarrow> bool \<times> 'p relay_action list" where
  "handleIncomingRelayPacket d frame =
     (case frame of
        None \<Rightarrow> (False, [])
      | Some env \<Rightarrow>
          (case ev_chain env of
             None \<Rightarrow> (True, [])
           | Some chain \<Rightarrow>
               if chain = [] \<or> MAX_CHAIN_LENGTH < length chain then (True, [])
               else (case ev_cursor env of
                   IntN i \<Rightarrow>
                     if i < 0 then (True, [])
                     else if int (length chain) \<le> i then (True, [])
                     else if chain ! nat i \<noteq> rd_local d then (True, [])
                     else if i \<noteq> int (length chain) - 1
                     then (True, [RaSend (chain ! nat (i + 1))
                                   (env\<lparr>ev_ts := rd_now d, ev_cursor := IntN (i + 1)\<rparr>)])
                     else (True, handle_final d env)
                 | _ \<Rightarrow> (True, []))))"

subsection \<open>The runtime\<close>

record onion_runtime =
  or_manager :: route_manager
  or_desiredCache :: nat
  or_active :: bool
  or_discovery :: bool

definition getDiscoveredRelayPeerIds :: "string \<Rightarrow> peer_keys list \<Rightarrow> string list" where
  "getDiscoveredRelayPeerIds localPeerId friends =
     uniq (filter (\<lambda>p. p \<noteq> [] \<and> p \<noteq> localPeerId)
       (map (\<lambda>f. let primary = trim (nullish (pk_primaryDevice f) [])
                 in if primary \<noteq> [] then primary else trim (nullish (pk_device f) [])) friends))"

definition runtime_env :: "string \<Rightarrow> peer_keys list \<Rightarrow> time_ms \<Rightarrow> bytes \<Rightarrow> rm_env" where
  "runtime_env localPeerId friends now random =
     \<lparr>re_peers = getDiscoveredRelayPeerIds localPeerId friends, re_local = localPeerId, re_now = now,
      re_random = random\<rparr>"

definition manager_step :: "rm_env \<Rightarrow> rm_event \<Rightarrow> onion_runtime \<Rightarrow> onion_runtime" where
  "manager_step env ev r = r\<lparr>or_manager := rm_step (env, ev) (or_manager r)\<rparr>"

definition discovery_tick :: "rm_env \<Rightarrow> onion_runtime \<Rightarrow> onion_runtime" where
  "discovery_tick env r =
     (let route = rm_route (or_manager r); found = length (re_peers env)
      in if \<not> or_active r \<or> \<not> rm_running (or_manager r) then r
         else if found = 0 then r
         else if rs_status route = RsBuilding \<or> rs_status route = RsRebuilding then r
         else if rs_status route = RsReady \<and>
                 (rs_desired route \<le> rs_established route \<or> found \<le> rs_established route) then r
         else manager_step env (RmRebuild ''RELAY_DISCOVERY_REFRESH'') r)"

definition stopInternalOnionRouteRuntime :: "rm_env \<Rightarrow> bool \<Rightarrow> onion_runtime \<Rightarrow> onion_runtime" where
  "stopInternalOnionRouteRuntime env expired r =
     manager_step env (RmStop expired) (r\<lparr>or_active := False, or_discovery := False\<rparr>)"

definition syncInternalOnionRouteRuntimeWithConfig ::
    "rm_env \<Rightarrow> net_config \<Rightarrow> onion_runtime \<Rightarrow> onion_runtime" where
  "syncInternalOnionRouteRuntimeWithConfig env config r =
     (let desired = nat (max 1 (nc_selfOnionMinRelays config));
          shouldRun = (nc_mode config = SelfOnion \<and> nc_selfOnionEnabled config);
          r1 = r\<lparr>or_desiredCache := desired, or_active := shouldRun\<rparr>
      in if \<not> shouldRun then stopInternalOnionRouteRuntime env False r1
         else manager_step env (RmStart (int desired)) (r1\<lparr>or_discovery := True\<rparr>))"

subsection \<open>What a peer sends on\<close>

lemma sendControlToPeer_eq:
  "sendControlToPeer d to c m =
     Inr (RaSend to (buildRelayEnvelope d c [to] (RpControl (rd_sign d m))))"
  by (simp add: sendControlToPeer_def sendEnvelope_def buildRelayEnvelope_def MAX_CHAIN_LENGTH_def Let_def)

lemma handle_shape:
  assumes "snd (handleIncomingRelayPacket d (Some env)) \<noteq> []"
  obtains chain i where "ev_chain env = Some chain" "ev_cursor env = IntN i" "0 \<le> i" "i < int (length chain)"
    "length chain \<le> MAX_CHAIN_LENGTH" "chain ! nat i = rd_local d"
    "snd (handleIncomingRelayPacket d (Some env)) =
       (if i + 1 < int (length chain)
        then [RaSend (chain ! nat (i + 1)) (env\<lparr>ev_ts := rd_now d, ev_cursor := IntN (i + 1)\<rparr>)]
        else handle_final d env)"
proof (cases "ev_chain env")
  case None
  then show ?thesis using assms by (simp add: handleIncomingRelayPacket_def)
next
  case (Some chain)
  show ?thesis
  proof (cases "ev_cursor env")
    case (IntN i)
    then show ?thesis using assms Some
      by (intro that [of chain i]) (auto simp: handleIncomingRelayPacket_def split: if_splits)
  qed (use assms Some in \<open>auto simp: handleIncomingRelayPacket_def split: if_splits\<close>)
qed

lemma answer_control_sends:
  "RaSend nxt e \<in> set (answer_control d sender m) \<Longrightarrow>
   nxt = sender \<and> ev_chain e = Some [sender] \<and> ev_sender e = rd_local d \<and> (\<exists>q. ev_payload e = RpControl q)"
  by (cases m) (auto simp: answer_control_def sendControlToPeer_eq buildRelayEnvelope_def Let_def)

text \<open>
  Whatever envelope a peer receives, it passes on at most one, either the same payload and
  chain to the very next peer of the chain, one position further and only if it is itself the
  peer at the cursor of a chain of at most eight, or, as the last of the chain, a control reply
  to the sender whose signature it verified. So no envelope circulates.
\<close>

theorem relay_sends_only_onward:
  assumes s: "RaSend nxt e \<in> set (snd (handleIncomingRelayPacket d (Some env)))"
  shows "\<exists>chain i. ev_chain env = Some chain \<and> ev_cursor env = IntN i \<and> 0 \<le> i \<and>
      i < int (length chain) \<and> length chain \<le> 8 \<and> chain ! nat i = rd_local d \<and>
      length (snd (handleIncomingRelayPacket d (Some env))) = 1 \<and>
      (if i + 1 < int (length chain)
       then nxt = chain ! nat (i + 1) \<and> e = env\<lparr>ev_ts := rd_now d, ev_cursor := IntN (i + 1)\<rparr>
       else \<exists>m. ev_payload env = RpControl m \<and> rd_verify d m (ev_sender env) \<and>
            nxt = ev_sender env \<and> ev_chain e = Some [ev_sender env])"
proof -
  have "snd (handleIncomingRelayPacket d (Some env)) \<noteq> []" using s by auto
  then show ?thesis
  proof (cases rule: handle_shape)
    case (1 chain i)
    show ?thesis
    proof (cases "i + 1 < int (length chain)")
      case True
      then show ?thesis using 1 s by (auto simp: MAX_CHAIN_LENGTH_def)
    next
      case False
      then have f: "snd (handleIncomingRelayPacket d (Some env)) = handle_final d env" using 1(7) by simp
      obtain m where m: "ev_payload env = RpControl m" "rd_verify d m (ev_sender env)"
        "handle_final d env = answer_control d (ev_sender env) m"
        using s unfolding f by (auto simp: handle_final_def split: relay_payload.splits if_splits)
      moreover have "length (answer_control d (ev_sender env) m) = 1"
        by (cases m) (simp_all add: answer_control_def sendControlToPeer_eq Let_def)
      ultimately show ?thesis
        using 1 False answer_control_sends [of nxt e d "ev_sender env" m] s f
        by (intro exI [of _ chain] exI [of _ i]) (auto simp: MAX_CHAIN_LENGTH_def)
    qed
  qed
qed

subsection \<open>A packet travels the chain\<close>

text \<open>A network of peers: where the envelope goes and what the last peer does with it.\<close>

fun travel :: "(string \<Rightarrow> relay_deps) \<Rightarrow> nat \<Rightarrow> string \<Rightarrow> 'p relay_envelope \<Rightarrow> string list \<times> 'p relay_action list" where
  "travel deps 0 at env = ([], [])"
| "travel deps (Suc n) at env =
     (case snd (handleIncomingRelayPacket (deps at) (Some env)) of
        [RaSend nxt env'] \<Rightarrow> (let (visited, acts) = travel deps n nxt env' in (at # visited, acts))
      | acts \<Rightarrow> ([at], acts))"

lemma travel_data:
  assumes honest: "\<And>p. rd_local (deps p) = p"
  shows "ev_chain env = Some chain \<Longrightarrow> length chain \<le> MAX_CHAIN_LENGTH \<Longrightarrow> ev_payload env = RpData packet \<Longrightarrow>
    ev_cursor env = IntN (int i) \<Longrightarrow> i < length chain \<Longrightarrow> n = length chain - i \<Longrightarrow>
    travel deps n (chain ! i) env = (drop i chain, [RaDeliver packet])"
proof (induction n arbitrary: env i)
  case 0
  then show ?case by simp
next
  case (Suc n)
  have handle: "snd (handleIncomingRelayPacket (deps (chain ! i)) (Some env)) =
      (if i + 1 < length chain
       then [RaSend (chain ! (i + 1)) (env\<lparr>ev_ts := rd_now (deps (chain ! i)), ev_cursor := IntN (int i + 1)\<rparr>)]
       else [RaDeliver packet])"
    using Suc.prems honest by (auto simp: handleIncomingRelayPacket_def handle_final_def nat_add_distrib)
  show ?case
  proof (cases "i + 1 < length chain")
    case True
    let ?e = "env\<lparr>ev_ts := rd_now (deps (chain ! i)), ev_cursor := IntN (int i + 1)\<rparr>"
    have "travel deps n (chain ! (i + 1)) ?e = (drop (i + 1) chain, [RaDeliver packet])"
      by (rule Suc.IH) (use Suc.prems True in simp_all)
    then show ?thesis using handle True Suc.prems(5) by (simp add: Cons_nth_drop_Suc)
  next
    case False
    have "drop i chain = [chain ! i]"
      using False Suc.prems(5) Cons_nth_drop_Suc [of i chain] by simp
    then show ?thesis using handle False by simp
  qed
qed

text \<open>
  The relays of a route in the order of its hops, as far as they are named, and the order in which
  a list of peers is first met, leaving out those of another list.
\<close>

definition route_relays :: "route_state \<Rightarrow> string list" where
  "route_relays route = concat (map (\<lambda>h. case hp_peer h of
       None \<Rightarrow> [] | Some p \<Rightarrow> if trim p = [] then [] else [trim p]) (rs_hops route))"

fun first_visits :: "string list \<Rightarrow> string list \<Rightarrow> string list" where
  "first_visits seen [] = []"
| "first_visits seen (x # xs) = (if x \<in> set seen then first_visits seen xs else x # first_visits (x # seen) xs)"

lemma remdups_snoc: "remdups (xs @ [x]) = filter (\<lambda>y. y \<noteq> x) (remdups xs) @ [x]"
  by (induction xs) auto

lemma uniq_Cons: "uniq (x # xs) = x # uniq (filter (\<lambda>y. y \<noteq> x) xs)"
  by (simp add: uniq_def remdups_snoc rev_filter [symmetric] remdups_filter [symmetric])

lemma uniq_first_visits: "uniq (filter (\<lambda>p. p \<notin> set seen) xs) = first_visits seen xs"
proof (induction xs arbitrary: seen)
  case (Cons x xs)
  show ?case
  proof (cases "x \<in> set seen")
    case False
    have "uniq (filter (\<lambda>y. y \<noteq> x) (filter (\<lambda>p. p \<notin> set seen) xs)) = first_visits (x # seen) xs"
      using Cons.IH [of "x # seen"] by (simp add: conj_commute)
    then show ?thesis using False by (simp add: uniq_Cons)
  qed (simp add: Cons.IH)
qed (simp add: uniq_def)

lemma first_visits_distinct:
  "distinct xs \<Longrightarrow> set seen \<inter> set xs = {} \<Longrightarrow> first_visits seen xs = xs"
  by (induction xs arbitrary: seen) auto

lemma route_relays_eq:
  "filter (\<lambda>p. p \<noteq> []) (List.map_filter (\<lambda>h. map_option trim (hp_peer h)) (rs_hops route)) = route_relays route"
proof -
  have "filter (\<lambda>p. p \<noteq> []) (List.map_filter (\<lambda>h. map_option trim (hp_peer h)) hs) =
      concat (map (\<lambda>h. case hp_peer h of None \<Rightarrow> [] | Some p \<Rightarrow> if trim p = [] then [] else [trim p]) hs)" for hs
    by (induction hs) (auto simp: map_filter_simps split: option.split)
  then show ?thesis by (simp add: route_relays_def)
qed

lemma buildRelayChainForData_shape:
  assumes "route_ok route"
  shows "buildRelayChainForData route t = first_visits [t] (route_relays route) @ [t] \<and>
    distinct (buildRelayChainForData route t) \<and> buildRelayChainForData route t \<noteq> [] \<and>
    length (buildRelayChainForData route t) \<le> 7"
proof -
  let ?relays = "filter (\<lambda>p. p \<noteq> []) (List.map_filter (\<lambda>h. map_option trim (hp_peer h)) (rs_hops route))"
  let ?d = "uniq (filter (\<lambda>p. p \<noteq> t) ?relays)"
  have "length (rs_hops route) = rs_desired route"
    using assms unfolding route_ok_def by (metis length_map length_upt diff_Suc_1)
  then have "length (rs_hops route) \<le> 6" using assms by (simp add: route_ok_def)
  moreover have "length ?d \<le> length (rs_hops route)"
    by (rule order_trans [OF length_uniq_le]) (auto simp: List.map_filter_def intro: order_trans [OF length_filter_le])
  ultimately have len: "length ?d \<le> 6" by simp
  then have eq: "buildRelayChainForData route t = ?d @ [t]"
    by (simp add: buildRelayChainForData_def MAX_CHAIN_LENGTH_def Let_def)
  have d: "?d = first_visits [t] (route_relays route)"
    using uniq_first_visits [of "[t]" "route_relays route"] by (simp add: route_relays_eq)
  show ?thesis unfolding eq using len by (simp add: d [symmetric])
qed

text \<open>
  C11. A packet sent over a ready route of the manager takes exactly the way the route names. The
  peers that handle it are, one after the other, the relays of the hops in the order of the hops
  (each once, where it is first named, at most six, the target left out) and then the target, which
  delivers the packet unchanged; for a route of different relays, none of them the target, these are
  the relays of all hops and then the target. Every peer of the chain is taken to behave as the code does.
\<close>

theorem data_reaches_target_through_relays:
  assumes honest: "\<forall>p. rd_local (deps p) = p" and route: "route_ok route"
    and sent: "sendDataViaCurrentRoute (deps me) fresh route to packet = Inr a"
  shows "\<exists>target chain env. map_option trim to = Some target \<and> target \<noteq> [] \<and> rs_status route = RsReady \<and>
    a = RaSend (hd chain) env \<and> chain = first_visits [target] (route_relays route) @ [target] \<and>
    distinct chain \<and> length chain \<le> 7 \<and>
    (distinct (route_relays route) \<and> target \<notin> set (route_relays route) \<longrightarrow> chain = route_relays route @ [target]) \<and>
    travel deps (length chain) (hd chain) env = (chain, [RaDeliver packet])"
proof -
  obtain target where t: "map_option trim to = Some target" "target \<noteq> []" and r: "rs_status route = RsReady"
    using sent by (cases to) (auto simp: sendDataViaCurrentRoute_def Let_def split: if_splits)
  let ?chain = "buildRelayChainForData route target"
  let ?env = "buildRelayEnvelope (deps me) (nullish (rs_circuit route) fresh) ?chain (RpData packet)"
  note shape = buildRelayChainForData_shape [OF route, of target]
  have a: "a = RaSend (hd ?chain) ?env"
    using sent t r conjunct2 [OF shape]
    by (simp add: sendDataViaCurrentRoute_def Let_def sendEnvelope_def buildRelayEnvelope_def MAX_CHAIN_LENGTH_def)
  have "travel deps (length ?chain) (?chain ! 0) ?env = (drop 0 ?chain, [RaDeliver packet])"
    by (rule travel_data) (use honest conjunct2 [OF shape] in \<open>simp_all add: buildRelayEnvelope_def MAX_CHAIN_LENGTH_def\<close>)
  then have "travel deps (length ?chain) (hd ?chain) ?env = (?chain, [RaDeliver packet])"
    using conjunct2 [OF shape] by (simp add: hd_conv_nth)
  moreover have "distinct (route_relays route) \<and> target \<notin> set (route_relays route) \<longrightarrow>
      ?chain = route_relays route @ [target]"
    using shape first_visits_distinct [of "route_relays route" "[target]"] by simp
  ultimately show ?thesis
    using t r a shape by (intro exI [of _ target] exI [of _ ?chain] exI [of _ ?env]) blast
qed

subsection \<open>Control messages are signed by friends\<close>

lemma resolve_key_Some:
  assumes "resolvePeerIdentityPublicKey lib friends peerId = Some key"
  shows "\<exists>f \<in> set friends. trim peerId \<noteq> [] \<and> length key = 32 \<and>
    (\<exists>c \<in> {pk_hintDevice f, pk_primaryDevice f, pk_device f}. map_option trim c = Some (trim peerId)) \<and>
    (\<exists>p. pk_identityPub f = Some p \<and> decodeBase64Url p = Some key)"
proof -
  obtain f where f: "List.find (\<lambda>f. list_ex (\<lambda>c. map_option trim c = Some (trim peerId))
      [pk_hintDevice f, pk_primaryDevice f, pk_device f]) friends = Some f"
    "trim peerId \<noteq> []" "truthy_string (pk_identityPub f)" "decodeBase64Url (the (pk_identityPub f)) = Some key"
    "length key = 32"
    using assms by (auto simp: resolvePeerIdentityPublicKey_def Let_def split: if_splits option.splits)
  then have "f \<in> set friends" "list_ex (\<lambda>c. map_option trim c = Some (trim peerId))
      [pk_hintDevice f, pk_primaryDevice f, pk_device f]"
    by (auto simp: find_Some_iff)
  with f(2-5) show ?thesis by (cases "pk_identityPub f") (auto intro!: bexI [of _ f])
qed

text \<open>
  An acknowledgement reaches the route manager only when the envelope came from the relay
  the acknowledgement names, that relay is a device of a friend, and the message, without its
  signature field, verifies under that friend's 32-byte identity key.
\<close>

theorem ack_needs_friend_signature:
  fixes env :: "'p relay_envelope"
  assumes v: "rd_verify d = verifyPeerControlPlaneMessage lib friends"
    and a: "RaAck ack \<in> set (snd (handleIncomingRelayPacket d (Some env)))"
  shows "ak_relay ack = ev_sender env \<and>
    (\<exists>f \<in> set friends. \<exists>key sig p s.
       (\<exists>c \<in> {pk_hintDevice f, pk_primaryDevice f, pk_device f}. map_option trim c = Some (trim (ev_sender env))) \<and>
       pk_identityPub f = Some p \<and> decodeBase64Url p = Some key \<and> length key = 32 \<and>
       decodeBase64Url s = Some sig \<and>
       ev_payload env = RpControl (CmAck (ak_circuit ack) (ak_hop ack) (ak_ts ack) (ak_relay ack) (ak_ok ack) (Some s)) \<and>
       sl_verify lib sig
         (sl_bytes lib (CmAck (ak_circuit ack) (ak_hop ack) (ak_ts ack) (ak_relay ack) (ak_ok ack) None)) key)"
proof -
  have "snd (handleIncomingRelayPacket d (Some env)) \<noteq> []" using a by auto
  then show ?thesis
  proof (cases rule: handle_shape)
    case (1 chain i)
    have fin: "RaAck ack \<in> set (handle_final d env)" using a 1(7) by (auto split: if_splits)
    obtain m where m: "ev_payload env = RpControl m" "claimed_signer (ev_sender env) m = ev_sender env"
      "rd_verify d m (ev_sender env)"
      "(RaAck ack :: 'p relay_action) \<in> set (answer_control d (ev_sender env) m)"
      using fin by (auto simp: handle_final_def split: relay_payload.splits if_splits)
    obtain c h t r k sg where cm: "m = CmAck c h t r k sg"
      using m(4) by (cases m) (auto simp: answer_control_def sendControlToPeer_eq Let_def)
    have ack: "ack = \<lparr>ak_circuit = c, ak_hop = h, ak_ts = t, ak_relay = r, ak_ok = k\<rparr>"
      using m(4) by (simp add: cm answer_control_def)
    have r: "r = ev_sender env" using m(2) by (simp add: cm claimed_signer_def)
    obtain key where key: "resolvePeerIdentityPublicKey lib friends (ev_sender env) = Some key"
      "verifyControlPlaneMessageWithKey lib m key"
      using m(3) by (auto simp: v verifyPeerControlPlaneMessage_def split: option.splits)
    obtain s sig where s: "sg = Some s" "decodeBase64Url s = Some sig"
      "sl_verify lib sig (sl_bytes lib (unsign m)) key"
      using key(2) by (cases sg) (auto simp: verifyControlPlaneMessageWithKey_def cm
          getControlPlaneSigningBytes_def split: if_splits option.splits)
    then show ?thesis using resolve_key_Some [OF key(1)] m(1) ack r
      by (fastforce simp: cm unsign_def)
  qed
qed

subsection \<open>Witnesses\<close>

definition plain_lib :: sign_lib where
  "plain_lib = \<lparr>sl_bytes = (\<lambda>m. [1]), sl_sign = (\<lambda>b k. [2]), sl_verify = (\<lambda>s b k. s = [2] \<and> k = replicate 32 0)\<rparr>"

definition one_friend :: "peer_keys list" where
  "one_friend = [\<lparr>pk_hintDevice = None, pk_primaryDevice = Some ''r'', pk_device = None, pk_identityPub = Some (encodeBase64Url (replicate 32 0))\<rparr>]"

definition plain_deps :: "string \<Rightarrow> relay_deps" where
  "plain_deps p = \<lparr>rd_now = 0, rd_local = p, rd_sign = signControlPlaneMessageWithKey plain_lib [],
     rd_verify = verifyPeerControlPlaneMessage plain_lib one_friend\<rparr>"

definition sample_envelope :: "string list \<Rightarrow> string relay_payload \<Rightarrow> string relay_envelope" where
  "sample_envelope chain p =
     \<lparr>ev_ts = 0, ev_circuit = ''c'', ev_sender = ''r'', ev_chain = Some chain, ev_cursor = IntN 0, ev_payload = p\<rparr>"

theorem relay_sends_only_onward_witness:
  "length (snd (handleIncomingRelayPacket (plain_deps ''a'') (Some (sample_envelope [''a'', ''b''] (RpData ''x''))))) = 1"
proof -
  let ?e = "sample_envelope [''a'', ''b''] (RpData ''x'')"
  have "RaSend ''b'' (?e\<lparr>ev_ts := 0, ev_cursor := IntN 1\<rparr>) \<in>
      set (snd (handleIncomingRelayPacket (plain_deps ''a'') (Some ?e)))"
    by (simp add: handleIncomingRelayPacket_def sample_envelope_def plain_deps_def MAX_CHAIN_LENGTH_def)
  then show ?thesis using relay_sends_only_onward by blast
qed

definition ready_route :: route_state where
  "ready_route = \<lparr>rs_desired = 1, rs_established = 1, rs_status = RsReady, rs_circuit = Some ''c'',
     rs_hops = [\<lparr>hp_index = 1, hp_peer = Some ''r'', hp_status = HopOk, hp_lastSeen = None, hp_rtt = None\<rparr>],
     rs_lastError = None, rs_updatedAt = 0\<rparr>"

lemma sample_data_sent:
  "sendDataViaCurrentRoute (plain_deps ''me'') ''f'' ready_route (Some ''t'') ''x'' =
     Inr (RaSend ''r'' (buildRelayEnvelope (plain_deps ''me'') ''c'' [''r'', ''t''] (RpData ''x'')))"
  by code_simp

theorem data_reaches_target_through_relays_witness:
  "\<exists>env. travel plain_deps 2 ''r'' env = ([''r'', ''t''], [RaDeliver ''x''])"
proof -
  have h: "\<forall>p. rd_local (plain_deps p) = p" by (simp add: plain_deps_def)
  have r: "route_ok ready_route" by (simp add: route_ok_def ready_route_def computeEstablishedHops_def)
  have t: "map_option trim (Some ''t'') = Some ''t''" by code_simp
  have relays: "route_relays ready_route = [''r'']" by code_simp
  obtain target chain and env :: "string relay_envelope" where c: "Some ''t'' = Some target"
    "distinct (route_relays ready_route) \<and> target \<notin> set (route_relays ready_route) \<longrightarrow>
      chain = route_relays ready_route @ [target]"
    "travel plain_deps (length chain) (hd chain) env = (chain, [RaDeliver ''x''])"
    using data_reaches_target_through_relays [OF h r sample_data_sent] unfolding t by blast
  then have "chain = [''r'', ''t'']" by (auto simp: relays)
  with c(3) show ?thesis by (auto simp: numeral_2_eq_2)
qed

theorem ack_needs_friend_signature_witness:
  "\<exists>f \<in> set one_friend. pk_identityPub f \<noteq> None"
proof -
  let ?m = "CmAck ''c'' 1 0 ''r'' True (Some (encodeBase64Url [2]))"
  let ?env = "sample_envelope [''me''] (RpControl ?m)"
  have v: "rd_verify (plain_deps ''me'') = verifyPeerControlPlaneMessage plain_lib one_friend"
    by (simp add: plain_deps_def)
  have "snd (handleIncomingRelayPacket (plain_deps ''me'') (Some ?env)) =
      [RaAck \<lparr>ak_circuit = ''c'', ak_hop = 1, ak_ts = 0, ak_relay = ''r'', ak_ok = True\<rparr>]"
    by code_simp
  then have "RaAck \<lparr>ak_circuit = ''c'', ak_hop = 1, ak_ts = 0, ak_relay = ''r'', ak_ok = True\<rparr> \<in>
      set (snd (handleIncomingRelayPacket (plain_deps ''me'') (Some ?env)))" by simp
  from ack_needs_friend_signature [OF v this] show ?thesis by auto
qed

end
