(* ===== verification/Ratchet.thy ===== *)
theory Ratchet
  imports Base64url
begin

text \<open>
  The message ratchets (src/src/crypto/ratchet.ts) and the store that keeps their states
  (src/src/security/ratchetStore.ts). Version 1 is one symmetric chain; version 2 adds a
  Diffie-Hellman step. The hash and the scalar multiplication of libsodium are parameters; key
  pairs drawn at random are arguments of the operations that draw them. A stored state is the
  object that was serialised, its byte arrays as base64url text; its counters are the integers
  the program wrote, so that its check that they are finite always passes. The secret store and
  its fallback in memory are one map from conversations to stored objects per version.
\<close>

subsection \<open>Data\<close>

record crypto_lib =
  cl_hash :: "bytes \<Rightarrow> bytes"
  cl_mult :: "bytes \<Rightarrow> bytes \<Rightarrow> bytes option"

record keypair =
  kp_pub :: bytes
  kp_priv :: bytes

record ratchet_v1 =
  r1_ck :: bytes
  r1_sendI :: nat
  r1_recvI :: nat

datatype ratchet_mode = ModeSym | ModeDh

record ratchet_v2 =
  r2_rk :: bytes
  r2_selfPriv :: bytes
  r2_selfPub :: bytes
  r2_remotePub :: "bytes option"
  r2_sendCk :: bytes
  r2_sendI :: nat
  r2_recvCk :: bytes
  r2_recvI :: nat
  r2_pn :: "nat option"
  r2_mode :: ratchet_mode

record header_rk =
  hr_i :: jsnum
  hr_dh :: string
  hr_pn :: "nat option"

subsection \<open>The store\<close>

record stored_v1 =
  s1_ck :: string
  s1_sendI :: nat
  s1_recvI :: nat

record stored_v2 =
  s2_rk :: string
  s2_selfPriv :: string
  s2_selfPub :: string
  s2_remotePub :: "string option"
  s2_sendCk :: string
  s2_sendI :: nat
  s2_recvCk :: string
  s2_recvI :: nat
  s2_pn :: "nat option"
  s2_mode :: "ratchet_mode option"

record ratchet_store =
  rt_v1 :: "string \<Rightarrow> stored_v1 option"
  rt_v2 :: "string \<Rightarrow> stored_v2 option"

definition getRatchetState :: "ratchet_store \<Rightarrow> string \<Rightarrow> ratchet_v1 option" where
  "getRatchetState st convId = (case rt_v1 st convId of
      None \<Rightarrow> None
    | Some p \<Rightarrow>
        if s1_ck p = [] then None
        else (case decodeBase64Url (s1_ck p) of
            None \<Rightarrow> None
          | Some ck \<Rightarrow> Some \<lparr>r1_ck = ck, r1_sendI = s1_sendI p, r1_recvI = s1_recvI p\<rparr>))"

definition setRatchetState :: "ratchet_store \<Rightarrow> string \<Rightarrow> ratchet_v1 \<Rightarrow> ratchet_store" where
  "setRatchetState st convId s = st\<lparr>rt_v1 := (rt_v1 st)(convId \<mapsto>
     \<lparr>s1_ck = encodeBase64Url (r1_ck s), s1_sendI = r1_sendI s, s1_recvI = r1_recvI s\<rparr>)\<rparr>"

definition clearRatchetState :: "ratchet_store \<Rightarrow> string \<Rightarrow> ratchet_store" where
  "clearRatchetState st convId = st\<lparr>rt_v1 := (rt_v1 st)(convId := None)\<rparr>"

text \<open>The remote key is read only when its text is not empty; a failing decode anywhere makes
  the whole state unreadable.\<close>

definition decode_remote :: "string option \<Rightarrow> bytes option option" where
  "decode_remote r = (if \<not> truthy_string r then Some None
     else map_option Some (decodeBase64Url (the r)))"

definition getDhRatchetState :: "ratchet_store \<Rightarrow> string \<Rightarrow> ratchet_v2 option" where
  "getDhRatchetState st convId = (case rt_v2 st convId of
      None \<Rightarrow> None
    | Some p \<Rightarrow>
        if s2_rk p = [] \<or> s2_selfPriv p = [] \<or> s2_selfPub p = [] \<or> s2_sendCk p = [] \<or> s2_recvCk p = []
        then None
        else (case (decodeBase64Url (s2_rk p), decodeBase64Url (s2_selfPriv p),
                    decodeBase64Url (s2_selfPub p), decode_remote (s2_remotePub p),
                    decodeBase64Url (s2_sendCk p), decodeBase64Url (s2_recvCk p)) of
            (Some rk, Some priv, Some pub, Some remote, Some sck, Some rck) \<Rightarrow>
              Some \<lparr>r2_rk = rk, r2_selfPriv = priv, r2_selfPub = pub, r2_remotePub = remote,
                r2_sendCk = sck, r2_sendI = s2_sendI p, r2_recvCk = rck, r2_recvI = s2_recvI p,
                r2_pn = s2_pn p, r2_mode = nullish (s2_mode p) ModeSym\<rparr>
          | _ \<Rightarrow> None))"

definition setDhRatchetState :: "ratchet_store \<Rightarrow> string \<Rightarrow> ratchet_v2 \<Rightarrow> ratchet_store" where
  "setDhRatchetState st convId s = st\<lparr>rt_v2 := (rt_v2 st)(convId \<mapsto>
     \<lparr>s2_rk = encodeBase64Url (r2_rk s), s2_selfPriv = encodeBase64Url (r2_selfPriv s),
      s2_selfPub = encodeBase64Url (r2_selfPub s),
      s2_remotePub = map_option encodeBase64Url (r2_remotePub s),
      s2_sendCk = encodeBase64Url (r2_sendCk s), s2_sendI = r2_sendI s,
      s2_recvCk = encodeBase64Url (r2_recvCk s), s2_recvI = r2_recvI s,
      s2_pn = r2_pn s, s2_mode = Some (r2_mode s)\<rparr>)\<rparr>"

definition clearDhRatchetState :: "ratchet_store \<Rightarrow> string \<Rightarrow> ratchet_store" where
  "clearDhRatchetState st convId = st\<lparr>rt_v2 := (rt_v2 st)(convId := None)\<rparr>"

subsection \<open>Hashing\<close>

definition ROTATE_EVERY :: nat where
  "ROTATE_EVERY = 50"

definition MAX_SKIP :: nat where
  "MAX_SKIP = 50"

text \<open>\<open>result.set(bytes, offset)\<close> on a buffer.\<close>

definition buffer_set :: "bytes \<Rightarrow> nat \<Rightarrow> bytes \<Rightarrow> bytes" where
  "buffer_set buf offset chunk = take offset buf @ chunk @ drop (offset + length chunk) buf"

definition concatBytes :: "bytes list \<Rightarrow> bytes" where
  "concatBytes chunks =
     fst (fold (\<lambda>chunk (buf, offset). (buffer_set buf offset chunk, offset + length chunk)) chunks
       (replicate (sum_list (map length chunks)) 0, 0))"

definition hashParts :: "crypto_lib \<Rightarrow> string \<Rightarrow> bytes list \<Rightarrow> bytes" where
  "hashParts lib label parts =
     cl_hash lib (concatBytes ([encode_utf8 ''nkc:ratchet:v1'', encode_utf8 label] @ parts))"

definition hash :: "crypto_lib \<Rightarrow> string \<Rightarrow> bytes \<Rightarrow> bytes" where
  "hash lib label bs = hashParts lib label [bs]"

definition deriveMsgKey :: "crypto_lib \<Rightarrow> bytes \<Rightarrow> bytes \<times> bytes" where
  "deriveMsgKey lib ck = (hash lib ''nkc:ratchet:msg'' ck, hash lib ''nkc:ratchet:ck'' ck)"

fun bytesEqual :: "bytes option \<Rightarrow> bytes option \<Rightarrow> bool" where
  "bytesEqual (Some a) (Some b) = (a = b)"
| "bytesEqual _ _ = False"

text \<open>The loop that skips message keys: while the cursor is below the target and steps are left.\<close>

fun skip_chain :: "crypto_lib \<Rightarrow> jsnum \<Rightarrow> nat \<Rightarrow> bytes \<Rightarrow> nat \<Rightarrow> bytes \<times> nat" where
  "skip_chain lib targetI 0 ck i = (ck, i)"
| "skip_chain lib targetI (Suc left) ck i =
     (if num_le targetI (int i) then (ck, i)
      else skip_chain lib targetI left (snd (deriveMsgKey lib ck)) (Suc i))"

definition deriveRecvKeyAtIndex ::
    "crypto_lib \<Rightarrow> bytes \<Rightarrow> nat \<Rightarrow> jsnum \<Rightarrow> nat \<Rightarrow> (bytes \<times> bytes \<times> nat) option" where
  "deriveRecvKeyAtIndex lib ck recvI targetI maxSkip =
     (if \<not> is_finite_num targetI \<or> \<not> num_ge targetI (int recvI) then None
      else let (ck1, i) = skip_chain lib targetI maxSkip ck recvI
           in if \<not> num_le targetI (int i) then None
              else let (msgKey, nextCk) = deriveMsgKey lib ck1 in Some (msgKey, nextCk, i + 1))"

definition kdfRk :: "crypto_lib \<Rightarrow> bytes \<Rightarrow> bytes \<Rightarrow> bytes \<times> bytes \<times> bytes" where
  "kdfRk lib rk dhShared =
     (let tmp = hashParts lib ''nkc:dr:rk'' [rk, dhShared]
      in (hashParts lib ''nkc:dr:rk2'' [tmp], hashParts lib ''nkc:dr:send'' [tmp],
          hashParts lib ''nkc:dr:recv'' [tmp]))"

subsection \<open>Version 1\<close>

definition getOrInitRatchetState ::
    "crypto_lib \<Rightarrow> ratchet_store \<Rightarrow> string \<Rightarrow> bytes \<Rightarrow> ratchet_v1 \<times> ratchet_store" where
  "getOrInitRatchetState lib st convId baseKey =
     (case getRatchetState st convId of
        Some s \<Rightarrow> (s, st)
      | None \<Rightarrow>
          let s = \<lparr>r1_ck = hash lib ''nkc:ratchet:init'' baseKey, r1_sendI = 0, r1_recvI = 0\<rparr>
          in (s, setRatchetState st convId s))"

definition nextSendKey ::
    "crypto_lib \<Rightarrow> ratchet_store \<Rightarrow> string \<Rightarrow> bytes \<Rightarrow> (bytes \<times> nat) \<times> ratchet_store" where
  "nextSendKey lib st convId baseKey =
     (let (s, st1) = getOrInitRatchetState lib st convId baseKey;
          (msgKey, nextCk) = deriveMsgKey lib (r1_ck s)
      in ((msgKey, r1_sendI s),
          setRatchetState st1 convId \<lparr>r1_ck = nextCk, r1_sendI = r1_sendI s + 1, r1_recvI = r1_recvI s\<rparr>))"

definition tryRecvKey ::
    "crypto_lib \<Rightarrow> ratchet_store \<Rightarrow> string \<Rightarrow> bytes \<Rightarrow> jsnum \<Rightarrow> nat \<Rightarrow> bytes option \<times> ratchet_store" where
  "tryRecvKey lib st convId baseKey targetI maxSkip =
     (let (s, st1) = getOrInitRatchetState lib st convId baseKey
      in if \<not> is_finite_num targetI \<or> \<not> num_ge targetI (int (r1_recvI s)) then (None, st1)
         else let (ck, recvI) = skip_chain lib targetI maxSkip (r1_ck s) (r1_recvI s)
              in if \<not> num_le targetI (int recvI) then (None, st1)
                 else let (msgKey, nextCk) = deriveMsgKey lib ck
                      in (Some msgKey, setRatchetState st1 convId
                            \<lparr>r1_ck = nextCk, r1_sendI = r1_sendI s, r1_recvI = recvI + 1\<rparr>))"

subsection \<open>Version 2\<close>

definition getOrInitDhRatchetState ::
    "crypto_lib \<Rightarrow> keypair \<Rightarrow> ratchet_store \<Rightarrow> string \<Rightarrow> bytes \<Rightarrow> ratchet_v2 \<times> ratchet_store" where
  "getOrInitDhRatchetState lib kp st convId baseKey =
     (case getDhRatchetState st convId of
        Some s \<Rightarrow> (s, st)
      | None \<Rightarrow>
          let rk = hashParts lib ''nkc:dr:init'' [baseKey];
              initCk = hash lib ''nkc:ratchet:init'' baseKey;
              s = \<lparr>r2_rk = rk, r2_selfPriv = kp_priv kp, r2_selfPub = kp_pub kp, r2_remotePub = None,
                   r2_sendCk = initCk, r2_sendI = 0, r2_recvCk = initCk, r2_recvI = 0,
                   r2_pn = None, r2_mode = ModeSym\<rparr>
          in (s, setDhRatchetState st convId s))"

text \<open>A step of the Diffie-Hellman ratchet: new root key, sending chain and receiving chain.
  None is the exception of the scalar multiplication.\<close>

definition dhStep ::
    "crypto_lib \<Rightarrow> ratchet_v2 \<Rightarrow> bytes \<Rightarrow> bool \<Rightarrow> (bytes \<times> bytes \<times> bytes) option" where
  "dhStep lib s remotePub swap =
     (case cl_mult lib (r2_selfPriv s) remotePub of
        None \<Rightarrow> None
      | Some dhShared \<Rightarrow>
          let (rk2, sendCk, recvCk) = kdfRk lib (r2_rk s) dhShared
          in Some (rk2, if swap then recvCk else sendCk, if swap then sendCk else recvCk))"

text \<open>The two stages of a send: the first reply to a peer steps the ratchet, and a chain that
  reached its length rotates the own key.\<close>

definition first_send_step :: "crypto_lib \<Rightarrow> ratchet_v2 \<Rightarrow> ratchet_v2 option" where
  "first_send_step lib s =
     (case r2_remotePub s of
        Some remote \<Rightarrow>
          if r2_mode s = ModeSym
          then (case dhStep lib s remote False of
              None \<Rightarrow> None
            | Some (rk, sck, rck) \<Rightarrow>
                Some (s\<lparr>r2_rk := rk, r2_sendCk := sck, r2_sendI := 0, r2_pn := Some (r2_sendI s),
                        r2_mode := ModeDh\<rparr>))
          else Some s
      | None \<Rightarrow> Some s)"

definition rotate_step :: "crypto_lib \<Rightarrow> keypair \<Rightarrow> ratchet_v2 \<Rightarrow> ratchet_v2 option" where
  "rotate_step lib kp s =
     (if ROTATE_EVERY \<le> r2_sendI s
      then let s1 = s\<lparr>r2_selfPriv := kp_priv kp, r2_selfPub := kp_pub kp, r2_pn := Some (r2_sendI s),
                      r2_sendI := 0\<rparr>
           in (case r2_remotePub s1 of
              None \<Rightarrow> Some s1
            | Some remote \<Rightarrow>
                (case dhStep lib s1 remote False of
                   None \<Rightarrow> None
                 | Some (rk, sck, rck) \<Rightarrow> Some (s1\<lparr>r2_rk := rk, r2_sendCk := sck, r2_mode := ModeDh\<rparr>)))
      else Some s)"

definition nextSendDhKey ::
    "crypto_lib \<Rightarrow> keypair \<Rightarrow> keypair \<Rightarrow> ratchet_store \<Rightarrow> string \<Rightarrow> bytes \<Rightarrow>
     (bytes \<times> header_rk) option \<times> ratchet_store" where
  "nextSendDhKey lib kp kp2 st convId baseKey =
     (let (s0, st1) = getOrInitDhRatchetState lib kp st convId baseKey
      in case Option.bind (first_send_step lib s0) (rotate_step lib kp2) of
           None \<Rightarrow> (None, st1)
         | Some s \<Rightarrow>
             let (msgKey, nextCk) = deriveMsgKey lib (r2_sendCk s)
             in (Some (msgKey, \<lparr>hr_i = IntN (int (r2_sendI s)), hr_dh = encodeBase64Url (r2_selfPub s),
                   hr_pn = r2_pn s\<rparr>),
                 setDhRatchetState st1 convId
                   (s\<lparr>r2_sendCk := nextCk, r2_sendI := r2_sendI s + 1, r2_pn := None\<rparr>)))"

text \<open>A receive throws, defers, or gives the key and the state that its commit will store.\<close>

datatype recv_result = RecvThrows | RecvDeferred | RecvKey bytes ratchet_v2

definition dh_candidate :: "ratchet_v2 \<Rightarrow> bytes \<Rightarrow> bytes \<times> bytes \<times> bytes \<Rightarrow> ratchet_v2" where
  "dh_candidate s remotePub stepped =
     (let (rk, sck, rck) = stepped
      in s\<lparr>r2_rk := rk, r2_sendCk := sck, r2_recvCk := rck, r2_sendI := 0, r2_recvI := 0,
           r2_pn := Some (r2_sendI s), r2_remotePub := Some remotePub, r2_mode := ModeDh\<rparr>)"

fun try_candidates ::
    "crypto_lib \<Rightarrow> bytes \<Rightarrow> bool \<Rightarrow> jsnum \<Rightarrow> nat \<Rightarrow> (ratchet_v2 \<times> ratchet_mode) list \<Rightarrow> recv_result" where
  "try_candidates lib remotePub remoteChanged i maxSkip [] = RecvDeferred"
| "try_candidates lib remotePub remoteChanged i maxSkip ((c, prefer) # rest) =
     (case deriveRecvKeyAtIndex lib (r2_recvCk c) (r2_recvI c) i maxSkip of
        None \<Rightarrow> try_candidates lib remotePub remoteChanged i maxSkip rest
      | Some (msgKey, nextCk, nextRecvI) \<Rightarrow>
          RecvKey msgKey
            (c\<lparr>r2_recvCk := nextCk, r2_recvI := nextRecvI,
               r2_remotePub := if remoteChanged then Some remotePub else r2_remotePub c,
               r2_mode := if prefer = ModeDh then ModeDh else r2_mode c\<rparr>))"

text \<open>What a receive gives from the state it read; it writes nothing itself.\<close>

definition recv_from :: "crypto_lib \<Rightarrow> ratchet_v2 \<Rightarrow> header_rk \<Rightarrow> nat \<Rightarrow> recv_result" where
  "recv_from lib s rk maxSkip =
     (if hr_dh rk = [] then RecvDeferred
      else (case decodeBase64Url (hr_dh rk) of
          None \<Rightarrow> RecvDeferred
        | Some remotePub \<Rightarrow>
            let remoteChanged = (\<not> bytesEqual (r2_remotePub s) (Some remotePub));
                first = (s, if r2_mode s = ModeDh then ModeDh else ModeSym)
            in if remoteChanged \<or> (r2_mode s = ModeSym \<and> r2_remotePub s \<noteq> None)
               then (case dhStep lib s remotePub True of
                   None \<Rightarrow> RecvThrows
                 | Some stepped \<Rightarrow>
                     try_candidates lib remotePub remoteChanged (hr_i rk) maxSkip
                       [first, (dh_candidate s remotePub stepped, ModeDh)])
               else try_candidates lib remotePub remoteChanged (hr_i rk) maxSkip [first]))"

definition tryRecvDhKey ::
    "crypto_lib \<Rightarrow> keypair \<Rightarrow> ratchet_store \<Rightarrow> string \<Rightarrow> bytes \<Rightarrow> header_rk \<Rightarrow> nat \<Rightarrow>
     recv_result \<times> ratchet_store" where
  "tryRecvDhKey lib kp st convId baseKey rk maxSkip =
     (let (s, st1) = getOrInitDhRatchetState lib kp st convId baseKey
      in (recv_from lib s rk maxSkip, st1))"

definition commit_recv :: "ratchet_store \<Rightarrow> string \<Rightarrow> ratchet_v2 \<Rightarrow> ratchet_store" where
  "commit_recv st convId commitState = setDhRatchetState st convId commitState"

subsection \<open>The buffer\<close>

lemma concat_into_buffer:
  "length buf = length done + sum_list (map length chunks) \<Longrightarrow> take (length done) buf = done \<Longrightarrow>
   fst (fold (\<lambda>chunk (buf, offset). (buffer_set buf offset chunk, offset + length chunk)) chunks
     (buf, length done)) = done @ concat chunks"
proof (induction chunks arbitrary: buf "done")
  case (Cons c cs)
  have "take (length (done @ c)) (buffer_set buf (length done) c) = done @ c"
    "length (buffer_set buf (length done) c) = length (done @ c) + sum_list (map length cs)"
    using Cons.prems by (simp_all add: buffer_set_def)
  from Cons.IH [OF this(2,1)] show ?case by simp
qed simp

lemma concatBytes_concat [simp]: "concatBytes chunks = concat chunks"
  using concat_into_buffer [of _ "[]" chunks] by (simp add: concatBytes_def)

subsection \<open>What the ratchets need of the store\<close>

text \<open>A table of states by conversation: a state that is fit to be stored is read back as it
  was, and storing it leaves the other conversations alone.\<close>

locale conv_store =
  fixes rd :: "'st \<Rightarrow> string \<Rightarrow> 's option" and wr :: "'st \<Rightarrow> string \<Rightarrow> 's \<Rightarrow> 'st" and fit :: "'s \<Rightarrow> bool"
  assumes rd_wr: "fit s \<Longrightarrow> rd (wr st c s) c = Some s"
    and rd_wr_other: "d \<noteq> c \<Longrightarrow> rd (wr st c s) d = rd st d"
begin

definition get_or_init :: "'st \<Rightarrow> string \<Rightarrow> 's \<Rightarrow> 's \<times> 'st" where
  "get_or_init st c init = (case rd st c of Some s \<Rightarrow> (s, st) | None \<Rightarrow> (init, wr st c init))"

lemma get_or_init_reads: "fit init \<Longrightarrow> rd (snd (get_or_init st c init)) c = Some (fst (get_or_init st c init))"
  by (auto simp: get_or_init_def rd_wr split: option.splits)

lemma get_or_init_again:
  assumes "fit init" shows "get_or_init (snd (get_or_init st c init)) c init' =
    (fst (get_or_init st c init), snd (get_or_init st c init))"
  using get_or_init_reads [OF assms, of st c]
  by (simp add: get_or_init_def split: option.splits)

lemma get_or_init_other: "d \<noteq> c \<Longrightarrow> rd (snd (get_or_init st c init)) d = rd st d"
  by (auto simp: get_or_init_def rd_wr_other split: option.splits)

end

definition fit_v1 :: "ratchet_v1 \<Rightarrow> bool" where
  "fit_v1 s \<longleftrightarrow> r1_ck s \<noteq> []"

definition fit_v2 :: "ratchet_v2 \<Rightarrow> bool" where
  "fit_v2 s \<longleftrightarrow> r2_rk s \<noteq> [] \<and> r2_selfPriv s \<noteq> [] \<and> r2_selfPub s \<noteq> [] \<and> r2_sendCk s \<noteq> [] \<and>
     r2_recvCk s \<noteq> [] \<and> r2_remotePub s \<noteq> Some []"

lemma encode_empty [simp]: "encodeBase64Url bs = [] \<longleftrightarrow> bs = []"
proof -
  have "length (encodeBase64Url bs) = (4 * length bs + 2) div 3"
    by (simp add: encodeBase64Url_eq length_sextets)
  then have "length (encodeBase64Url bs) = 0 \<longleftrightarrow> length bs = 0" by presburger
  then show ?thesis by simp
qed

lemma decode_remote_encode: "r \<noteq> Some [] \<Longrightarrow> decode_remote (map_option encodeBase64Url r) = Some r"
  by (cases r) (auto simp: decode_remote_def decode_encode)

interpretation v1: conv_store getRatchetState setRatchetState fit_v1
  by unfold_locales
    (auto simp: getRatchetState_def setRatchetState_def fit_v1_def decode_encode)

interpretation v2: conv_store getDhRatchetState setDhRatchetState fit_v2
  by unfold_locales
    (auto simp: getDhRatchetState_def setDhRatchetState_def fit_v2_def decode_encode decode_remote_encode)

lemma getOrInitRatchetState_v1:
  "getOrInitRatchetState lib st c base =
     v1.get_or_init st c \<lparr>r1_ck = hash lib ''nkc:ratchet:init'' base, r1_sendI = 0, r1_recvI = 0\<rparr>"
  by (simp add: getOrInitRatchetState_def v1.get_or_init_def Let_def split: option.split)

definition init_v2 :: "crypto_lib \<Rightarrow> keypair \<Rightarrow> bytes \<Rightarrow> ratchet_v2" where
  "init_v2 lib kp base =
     \<lparr>r2_rk = hashParts lib ''nkc:dr:init'' [base], r2_selfPriv = kp_priv kp, r2_selfPub = kp_pub kp,
      r2_remotePub = None, r2_sendCk = hash lib ''nkc:ratchet:init'' base, r2_sendI = 0,
      r2_recvCk = hash lib ''nkc:ratchet:init'' base, r2_recvI = 0, r2_pn = None, r2_mode = ModeSym\<rparr>"

lemma getOrInitDhRatchetState_v2:
  "getOrInitDhRatchetState lib kp st c base = v2.get_or_init st c (init_v2 lib kp base)"
  by (simp add: getOrInitDhRatchetState_def v2.get_or_init_def init_v2_def Let_def split: option.split)

subsection \<open>The chain\<close>

definition next_ck :: "crypto_lib \<Rightarrow> bytes \<Rightarrow> bytes" where
  "next_ck lib ck = hash lib ''nkc:ratchet:ck'' ck"

definition chain_ck :: "crypto_lib \<Rightarrow> bytes \<Rightarrow> nat \<Rightarrow> bytes" where
  "chain_ck lib ck n = (next_ck lib ^^ n) ck"

definition chain_key :: "crypto_lib \<Rightarrow> bytes \<Rightarrow> nat \<Rightarrow> bytes" where
  "chain_key lib ck n = hash lib ''nkc:ratchet:msg'' (chain_ck lib ck n)"

lemma chain_ck_0 [simp]: "chain_ck lib ck 0 = ck"
  by (simp add: chain_ck_def)

lemma chain_ck_step: "chain_ck lib (next_ck lib ck) n = chain_ck lib ck (Suc n)"
  by (simp add: chain_ck_def funpow_swap1)

lemma chain_ck_add: "chain_ck lib (chain_ck lib ck m) n = chain_ck lib ck (m + n)"
  by (simp add: chain_ck_def funpow_add add.commute [of m])

lemma deriveMsgKey_chain:
  "deriveMsgKey lib (chain_ck lib ck n) = (chain_key lib ck n, chain_ck lib ck (Suc n))"
  by (simp add: deriveMsgKey_def chain_key_def chain_ck_def next_ck_def)

lemma deriveMsgKey_0: "deriveMsgKey lib ck = (chain_key lib ck 0, chain_ck lib ck 1)"
  using deriveMsgKey_chain [of lib ck 0] by simp

lemma skip_chain_eq:
  "skip_chain lib (IntN t) left ck i =
     (let n = min left (nat (t - int i)) in (chain_ck lib ck n, i + n))"
proof (induction left arbitrary: ck i)
  case (Suc left)
  show ?case
  proof (cases "t \<le> int i")
    case False
    then obtain k where k: "nat (t - int i) = Suc k" by (cases "nat (t - int i)") auto
    then have "nat (t - int (Suc i)) = k" by linarith
    with k show ?thesis using False Suc [of "snd (deriveMsgKey lib ck)" "Suc i"]
      by (simp add: deriveMsgKey_0 Let_def chain_ck_add)
  qed simp
qed simp

lemma deriveRecvKeyAtIndex_eq:
  "deriveRecvKeyAtIndex lib ck recvI (IntN t) maxSkip =
     (if int recvI \<le> t \<and> t \<le> int (recvI + maxSkip)
      then let n = nat t - recvI in Some (chain_key lib ck n, chain_ck lib ck (Suc n), nat t + 1)
      else None)"
proof (cases "int recvI \<le> t \<and> t \<le> int (recvI + maxSkip)")
  case True
  then have "min maxSkip (nat (t - int recvI)) = nat t - recvI" "recvI + (nat t - recvI) = nat t" by auto
  then show ?thesis using True
    by (simp add: deriveRecvKeyAtIndex_def skip_chain_eq Let_def deriveMsgKey_chain)
qed (auto simp: deriveRecvKeyAtIndex_def skip_chain_eq Let_def split: if_splits)

subsection \<open>Version 1, one way\<close>

text \<open>What the code relies on of the hash: 32 bytes.\<close>

definition hash_ok :: "crypto_lib \<Rightarrow> bool" where
  "hash_ok lib \<longleftrightarrow> (\<forall>m. length (cl_hash lib m) = 32)"

lemma hash_nonempty [simp]: "hash_ok lib \<Longrightarrow> hashParts lib l ps \<noteq> []" "hash_ok lib \<Longrightarrow> hash lib l b \<noteq> []"
  by (auto simp: hash_ok_def hashParts_def hash_def) (metis length_0_conv zero_neq_numeral)+

lemma chain_ck_nonempty [simp]: "hash_ok lib \<Longrightarrow> ck \<noteq> [] \<Longrightarrow> chain_ck lib ck n \<noteq> []"
  by (cases n) (auto simp: chain_ck_def next_ck_def)

fun send_v1 :: "crypto_lib \<Rightarrow> string \<Rightarrow> bytes \<Rightarrow> nat \<Rightarrow> ratchet_store \<Rightarrow> (bytes \<times> nat) list" where
  "send_v1 lib c base 0 st = []"
| "send_v1 lib c base (Suc n) st =
     (let (r, st1) = nextSendKey lib st c base in r # send_v1 lib c base n st1)"

fun recv_v1 :: "crypto_lib \<Rightarrow> string \<Rightarrow> bytes \<Rightarrow> int list \<Rightarrow> ratchet_store \<Rightarrow> bytes option list" where
  "recv_v1 lib c base [] st = []"
| "recv_v1 lib c base (i # is) st =
     (let (r, st1) = tryRecvKey lib st c base (IntN i) MAX_SKIP in r # recv_v1 lib c base is st1)"

text \<open>The specification of receiving: a window of indices that starts at the next expected one.\<close>

fun window :: "nat \<Rightarrow> int list \<Rightarrow> nat option list" where
  "window n [] = []"
| "window n (i # is) =
     (if int n \<le> i \<and> i \<le> int (n + MAX_SKIP) then Some (nat i) # window (nat i + 1) is
      else None # window n is)"

definition v1_at :: "crypto_lib \<Rightarrow> bytes \<Rightarrow> nat \<Rightarrow> nat \<Rightarrow> nat \<Rightarrow> ratchet_v1" where
  "v1_at lib ck0 n s r = \<lparr>r1_ck = chain_ck lib ck0 n, r1_sendI = s, r1_recvI = r\<rparr>"

lemma fit_v1_at [simp]: "hash_ok lib \<Longrightarrow> ck0 \<noteq> [] \<Longrightarrow> fit_v1 (v1_at lib ck0 n s r)"
  by (simp add: fit_v1_def v1_at_def)

lemma init_fresh_v1:
  "getRatchetState st c = None \<Longrightarrow>
   fst (getOrInitRatchetState lib st c base) = v1_at lib (hash lib ''nkc:ratchet:init'' base) 0 0 0"
  by (simp add: getOrInitRatchetState_def v1_at_def Let_def)

lemma init_after_set_v1:
  "fit_v1 s \<Longrightarrow> getOrInitRatchetState lib (setRatchetState st c s) c base = (s, setRatchetState st c s)"
  by (simp add: getOrInitRatchetState_def v1.rd_wr)

lemma nextSendKey_at:
  assumes "fst (getOrInitRatchetState lib st c base) = v1_at lib ck0 n s r"
  shows "nextSendKey lib st c base =
    ((chain_key lib ck0 n, s),
     setRatchetState (snd (getOrInitRatchetState lib st c base)) c (v1_at lib ck0 (Suc n) (Suc s) r))"
  using assms
  by (simp add: nextSendKey_def case_prod_beta Let_def v1_at_def deriveMsgKey_chain)

lemma tryRecvKey_at:
  assumes "fst (getOrInitRatchetState lib st c base) = v1_at lib ck0 n s r"
  shows "tryRecvKey lib st c base (IntN i) m =
    (if int r \<le> i \<and> i \<le> int (r + m)
     then (Some (chain_key lib ck0 (n + (nat i - r))),
           setRatchetState (snd (getOrInitRatchetState lib st c base)) c
             (v1_at lib ck0 (n + (nat i - r) + 1) s (nat i + 1)))
     else (None, snd (getOrInitRatchetState lib st c base)))"
proof (cases "int r \<le> i \<and> i \<le> int (r + m)")
  case True
  then have "min m (nat (i - int r)) = nat i - r" "r + (nat i - r) = nat i" by auto
  then show ?thesis using True assms
    by (simp add: tryRecvKey_def case_prod_beta Let_def v1_at_def skip_chain_eq chain_ck_add deriveMsgKey_chain)
qed (use assms in \<open>auto simp: tryRecvKey_def case_prod_beta Let_def v1_at_def skip_chain_eq\<close>)

lemma send_v1_keys:
  assumes "hash_ok lib" "ck0 \<noteq> []" "fst (getOrInitRatchetState lib st c base) = v1_at lib ck0 k k r"
  shows "send_v1 lib c base n st = map (\<lambda>j. (chain_key lib ck0 j, j)) [k..<k + n]"
  using assms(3)
proof (induction n arbitrary: k st)
  case (Suc n)
  show ?case
    using Suc.IH [of _ "Suc k"] assms(1,2)
    by (simp add: nextSendKey_at [OF Suc.prems] init_after_set_v1 upt_conv_Cons del: upt_Suc)
qed simp

lemma recv_v1_window:
  assumes "hash_ok lib" "ck0 \<noteq> []"
  shows "fst (getOrInitRatchetState lib st c base) = v1_at lib ck0 r s r \<Longrightarrow>
    recv_v1 lib c base is st = map (map_option (chain_key lib ck0)) (window r is)"
proof (induction "is" arbitrary: r st)
  case (Cons i "is")
  let ?st = "snd (getOrInitRatchetState lib st c base)"
  note step = tryRecvKey_at [OF Cons.prems, of i MAX_SKIP]
  show ?case
  proof (cases "int r \<le> i \<and> i \<le> int (r + MAX_SKIP)")
    case True
    then have "r + (nat i - r) = nat i" by auto
    then show ?thesis using True step Cons.IH [of _ "nat i + 1"] assms
      by (simp add: init_after_set_v1)
  next
    case False
    have "fit_v1 \<lparr>r1_ck = hash lib ''nkc:ratchet:init'' base, r1_sendI = 0, r1_recvI = 0\<rparr>"
      using assms by (simp add: fit_v1_def)
    then have "fst (getOrInitRatchetState lib ?st c base) = v1_at lib ck0 r s r"
      using Cons.prems by (simp add: getOrInitRatchetState_v1 v1.get_or_init_again)
    then show ?thesis using False step Cons.IH [of ?st r] by auto
  qed
qed simp

lemma window_in: "Some j \<in> set (window r is) \<Longrightarrow> int j \<in> set is"
  by (induction "is" arbitrary: r) (auto split: if_splits)

text \<open>
  C3. Version 1, one way: two peers with the same base key and no state agree on the keys. The
  sender's n-th key carries index n; the receiver gives, for whatever order the messages
  arrive in, exactly the sender's key for an index in the window of 51 that starts at the next
  expected one, moves the window behind it, and defers every other index.
\<close>

theorem v1_receiver_matches_sender:
  assumes h: "hash_ok lib" and a: "getRatchetState sa c = None" and b: "getRatchetState sb c = None"
    and sent: "\<forall>i \<in> set is. i < int n"
  shows "map snd (send_v1 lib c base n sa) = [0..<n] \<and>
    recv_v1 lib c base is sb =
      map (map_option (\<lambda>i. map fst (send_v1 lib c base n sa) ! i)) (window 0 is)"
proof -
  let ?ck = "hash lib ''nkc:ratchet:init'' base"
  have keys: "send_v1 lib c base n sa = map (\<lambda>j. (chain_key lib ?ck j, j)) [0..<n]"
    using send_v1_keys [OF h _ init_fresh_v1 [OF a]] h by simp
  have "recv_v1 lib c base is sb = map (map_option (chain_key lib ?ck)) (window 0 is)"
    using recv_v1_window [OF h _ init_fresh_v1 [OF b]] h by simp
  also have "\<dots> = map (map_option (\<lambda>i. map fst (send_v1 lib c base n sa) ! i)) (window 0 is)"
    unfolding keys
  proof (rule map_cong [OF refl], rule option.map_cong0)
    fix x j assume "x \<in> set (window 0 is)" "j \<in> set_option x"
    then have "Some j \<in> set (window 0 is)" by (cases x) auto
    then have "int j \<in> set is" by (rule window_in)
    then have "j < n" using sent by auto
    then show "chain_key lib ?ck j = map fst (map (\<lambda>j. (chain_key lib ?ck j, j)) [0..<n]) ! j" by simp
  qed
  finally show ?thesis by (simp add: keys comp_def)
qed

text \<open>
  Version 1 keeps one chain for both directions, so messages that cross on the wire
  desynchronise the peers: when both have sent before either has received, each derives for
  the other's first message the second key of the chain, while that message was sealed with
  the first.
\<close>

theorem v1_crossing_messages_mismatch:
  assumes h: "hash_ok lib" and a: "getRatchetState sa c = None" and b: "getRatchetState sb c = None"
  shows "fst (nextSendKey lib sb c base) = (chain_key lib (hash lib ''nkc:ratchet:init'' base) 0, 0) \<and>
    fst (tryRecvKey lib (snd (nextSendKey lib sa c base)) c base (IntN 0) MAX_SKIP) =
      Some (chain_key lib (hash lib ''nkc:ratchet:init'' base) 1)"
proof (intro conjI)
  let ?ck = "hash lib ''nkc:ratchet:init'' base"
  show "fst (nextSendKey lib sb c base) = (chain_key lib ?ck 0, 0)"
    using nextSendKey_at [OF init_fresh_v1 [OF b]] by simp
  show "fst (tryRecvKey lib (snd (nextSendKey lib sa c base)) c base (IntN 0) MAX_SKIP) =
      Some (chain_key lib ?ck 1)"
    using nextSendKey_at [OF init_fresh_v1 [OF a], of lib base] h
      tryRecvKey_at [of lib "snd (nextSendKey lib sa c base)" c base ?ck 1 1 0 0 MAX_SKIP]
    by (simp add: init_after_set_v1)
qed

subsection \<open>Version 2\<close>

definition kp_ok :: "keypair \<Rightarrow> bool" where
  "kp_ok kp \<longleftrightarrow> kp_pub kp \<noteq> [] \<and> kp_priv kp \<noteq> []"

lemma fit_init_v2 [simp]: "hash_ok lib \<Longrightarrow> kp_ok kp \<Longrightarrow> fit_v2 (init_v2 lib kp base)"
  by (simp add: fit_v2_def init_v2_def kp_ok_def)

lemma init_fresh_v2:
  "getDhRatchetState st c = None \<Longrightarrow> fst (getOrInitDhRatchetState lib kp st c base) = init_v2 lib kp base"
  by (simp add: getOrInitDhRatchetState_v2 v2.get_or_init_def)

lemma init_after_set_v2:
  "fit_v2 s \<Longrightarrow>
   getOrInitDhRatchetState lib kp (setDhRatchetState st c s) c base = (s, setDhRatchetState st c s)"
  by (simp add: getOrInitDhRatchetState_v2 v2.get_or_init_def v2.rd_wr)

lemma tryRecvDhKey_eq:
  "tryRecvDhKey lib kp st c base rk m =
     (recv_from lib (fst (getOrInitDhRatchetState lib kp st c base)) rk m,
      snd (getOrInitDhRatchetState lib kp st c base))"
  by (simp add: tryRecvDhKey_def case_prod_beta Let_def)

text \<open>
  Looking for a version 2 receive key changes nothing until the commit: whatever the
  header, trying again, even with another key pair at hand, gives the same key or the same
  refusal and the same store, so a message that fails to decrypt costs the receiver nothing.
\<close>

theorem recv_dh_repeatable:
  assumes "hash_ok lib" and "kp_ok kp"
  shows "tryRecvDhKey lib kp' (snd (tryRecvDhKey lib kp st c base rk m)) c base rk m =
    tryRecvDhKey lib kp st c base rk m"
proof -
  have again: "getOrInitDhRatchetState lib kp' (snd (getOrInitDhRatchetState lib kp st c base)) c base =
      getOrInitDhRatchetState lib kp st c base"
    using assms by (simp add: getOrInitDhRatchetState_v2 v2.get_or_init_again)
  then show ?thesis by (simp add: tryRecvDhKey_eq)
qed

text \<open>
  A step of the ratchet agrees on both sides: from the same root key, when the two
  scalar multiplications give the same point, the peer that answers (no swap) gets as sending
  chain what the peer that reads the answer (swap) gets as receiving chain, the other chains
  agree as well, and so do the new root keys.
\<close>

theorem dh_step_agrees:
  assumes "r2_rk a = r2_rk b"
    and "cl_mult lib (r2_selfPriv a) (r2_selfPub b) = Some x"
    and "cl_mult lib (r2_selfPriv b) (r2_selfPub a) = Some x"
  shows "\<exists>rk ck1 ck2. dhStep lib b (r2_selfPub a) False = Some (rk, ck1, ck2) \<and>
    dhStep lib a (r2_selfPub b) True = Some (rk, ck2, ck1)"
  using assms by (auto simp: dhStep_def Let_def case_prod_beta)

definition sym_at :: "crypto_lib \<Rightarrow> ratchet_v2 \<Rightarrow> bytes option \<Rightarrow> nat \<Rightarrow> nat \<Rightarrow> ratchet_v2" where
  "sym_at lib s0 remote sn rn =
     \<lparr>r2_rk = r2_rk s0, r2_selfPriv = r2_selfPriv s0, r2_selfPub = r2_selfPub s0, r2_remotePub = remote,
      r2_sendCk = chain_ck lib (r2_sendCk s0) sn, r2_sendI = sn,
      r2_recvCk = chain_ck lib (r2_recvCk s0) rn, r2_recvI = rn, r2_pn = None, r2_mode = ModeSym\<rparr>"

lemma init_v2_sym_at: "init_v2 lib kp base = sym_at lib (init_v2 lib kp base) None 0 0"
  by (simp add: init_v2_def sym_at_def)

lemma sym_at_simps [simp]:
  "r2_rk (sym_at lib s0 remote sn r) = r2_rk s0"
  "r2_selfPriv (sym_at lib s0 remote sn r) = r2_selfPriv s0"
  "r2_selfPub (sym_at lib s0 remote sn r) = r2_selfPub s0"
  "r2_remotePub (sym_at lib s0 remote sn r) = remote"
  "r2_sendCk (sym_at lib s0 remote sn r) = chain_ck lib (r2_sendCk s0) sn"
  "r2_sendI (sym_at lib s0 remote sn r) = sn"
  "r2_recvCk (sym_at lib s0 remote sn r) = chain_ck lib (r2_recvCk s0) r"
  "r2_recvI (sym_at lib s0 remote sn r) = r" "r2_mode (sym_at lib s0 remote sn r) = ModeSym"
  by (simp_all add: sym_at_def)

lemma fit_sym_at: "hash_ok lib \<Longrightarrow> fit_v2 s0 \<Longrightarrow> remote \<noteq> Some [] \<Longrightarrow> fit_v2 (sym_at lib s0 remote sn rn)"
  by (simp add: fit_v2_def sym_at_def)

lemma nextSendDhKey_sym:
  assumes "fst (getOrInitDhRatchetState lib kp st c base) = sym_at lib s0 None n r" "n < ROTATE_EVERY"
  shows "nextSendDhKey lib kp kp2 st c base =
    (Some (chain_key lib (r2_sendCk s0) n,
       \<lparr>hr_i = IntN (int n), hr_dh = encodeBase64Url (r2_selfPub s0), hr_pn = None\<rparr>),
     setDhRatchetState (snd (getOrInitDhRatchetState lib kp st c base)) c (sym_at lib s0 None (Suc n) r))"
  using assms
  by (simp add: nextSendDhKey_def case_prod_beta Let_def first_send_step_def rotate_step_def sym_at_def
      deriveMsgKey_chain)

lemma recv_from_sym:
  assumes i: "int r \<le> i" "i \<le> int (r + m)" and pub: "pub \<noteq> []"
    and rm: "remote = None \<or> remote = Some pub" and mult: "cl_mult lib (r2_selfPriv s0) pub \<noteq> None"
  shows "recv_from lib (sym_at lib s0 remote sn r) \<lparr>hr_i = IntN i, hr_dh = encodeBase64Url pub, hr_pn = p\<rparr> m =
    RecvKey (chain_key lib (r2_recvCk s0) (nat i)) (sym_at lib s0 (Some pub) sn (nat i + 1))"
proof -
  have n: "r + (nat i - r) = nat i" using i by auto
  obtain stepped where st: "dhStep lib (sym_at lib s0 remote sn r) pub True = Some stepped"
    using mult by (auto simp: dhStep_def sym_at_def Let_def case_prod_beta)
  have eq: "chain_key lib (chain_ck lib (r2_recvCk s0) r) (nat i - r) = chain_key lib (r2_recvCk s0) (nat i)"
    "chain_ck lib (chain_ck lib (r2_recvCk s0) r) (Suc (nat i - r)) = chain_ck lib (r2_recvCk s0) (Suc (nat i))"
    using n by (simp_all add: chain_key_def chain_ck_add)
  have d: "deriveRecvKeyAtIndex lib (chain_ck lib (r2_recvCk s0) r) r (IntN i) m =
      Some (chain_key lib (r2_recvCk s0) (nat i), chain_ck lib (r2_recvCk s0) (Suc (nat i)), nat i + 1)"
    using i by (simp add: deriveRecvKeyAtIndex_eq Let_def eq)
  have u: "sym_at lib s0 remote sn r \<lparr>r2_recvCk := ck, r2_recvI := k, r2_remotePub := q, r2_mode := ModeSym\<rparr> =
      \<lparr>r2_rk = r2_rk s0, r2_selfPriv = r2_selfPriv s0, r2_selfPub = r2_selfPub s0, r2_remotePub = q,
       r2_sendCk = chain_ck lib (r2_sendCk s0) sn, r2_sendI = sn, r2_recvCk = ck, r2_recvI = k,
       r2_pn = None, r2_mode = ModeSym\<rparr>" for ck k q
    by (simp add: sym_at_def)
  have "recv_from lib (sym_at lib s0 remote sn r) \<lparr>hr_i = IntN i, hr_dh = encodeBase64Url pub, hr_pn = p\<rparr> m =
      try_candidates lib pub (remote = None) (IntN i) m
        [(sym_at lib s0 remote sn r, ModeSym), (dh_candidate (sym_at lib s0 remote sn r) pub stepped, ModeDh)]"
    using rm pub st by (elim disjE) (simp_all add: recv_from_def decode_encode)
  also have "\<dots> = RecvKey (chain_key lib (r2_recvCk s0) (nat i)) (sym_at lib s0 (Some pub) sn (nat i + 1))"
    using rm by (simp add: d u sym_at_def [of lib s0 "Some pub"]) auto
  finally show ?thesis .
qed

fun send_v2 :: "crypto_lib \<Rightarrow> keypair \<Rightarrow> string \<Rightarrow> bytes \<Rightarrow> nat \<Rightarrow> ratchet_store \<Rightarrow> (bytes \<times> header_rk) option list" where
  "send_v2 lib kp c base 0 st = []"
| "send_v2 lib kp c base (Suc n) st =
     (let (r, st1) = nextSendDhKey lib kp kp st c base in r # send_v2 lib kp c base n st1)"

text \<open>A receiver that commits each key it gets, as it does once the message decrypted.\<close>

fun recv_v2 :: "crypto_lib \<Rightarrow> keypair \<Rightarrow> string \<Rightarrow> bytes \<Rightarrow> header_rk list \<Rightarrow> ratchet_store \<Rightarrow> bytes option list" where
  "recv_v2 lib kp c base [] st = []"
| "recv_v2 lib kp c base (h # hs) st =
     (let (r, st1) = tryRecvDhKey lib kp st c base h MAX_SKIP
      in case r of
           RecvKey key s \<Rightarrow> Some key # recv_v2 lib kp c base hs (commit_recv st1 c s)
         | _ \<Rightarrow> None # recv_v2 lib kp c base hs st1)"

text \<open>Indices in order with gaps the receiver can skip.\<close>

fun in_order :: "nat \<Rightarrow> nat list \<Rightarrow> bool" where
  "in_order n [] = True"
| "in_order n (i # is) = (n \<le> i \<and> i \<le> n + MAX_SKIP \<and> in_order (i + 1) is)"

lemma send_v2_keys:
  assumes "hash_ok lib" "fit_v2 s0"
    "fst (getOrInitDhRatchetState lib kp st c base) = sym_at lib s0 None k r" "k + n \<le> ROTATE_EVERY"
  shows "send_v2 lib kp c base n st = map (\<lambda>j. Some (chain_key lib (r2_sendCk s0) j,
    \<lparr>hr_i = IntN (int j), hr_dh = encodeBase64Url (r2_selfPub s0), hr_pn = None\<rparr>)) [k..<k + n]"
  using assms(3,4)
proof (induction n arbitrary: k st)
  case (Suc n)
  have "fit_v2 (sym_at lib s0 None (Suc k) r)" using assms by (simp add: fit_sym_at)
  then show ?case
    using Suc.IH [of _ "Suc k"] Suc.prems(2)
    by (simp add: nextSendDhKey_sym [OF Suc.prems(1)] init_after_set_v2 upt_conv_Cons del: upt_Suc)
qed simp

lemma recv_v2_keys:
  assumes "hash_ok lib" "fit_v2 s0" "pub \<noteq> []" "cl_mult lib (r2_selfPriv s0) pub \<noteq> None"
  shows "fst (getOrInitDhRatchetState lib kp st c base) = sym_at lib s0 remote sn r \<Longrightarrow>
    remote = None \<or> remote = Some pub \<Longrightarrow> in_order r is \<Longrightarrow>
    recv_v2 lib kp c base (map (\<lambda>j. \<lparr>hr_i = IntN (int j), hr_dh = encodeBase64Url pub, hr_pn = p\<rparr>) is) st =
      map (\<lambda>j. Some (chain_key lib (r2_recvCk s0) j)) is"
proof (induction "is" arbitrary: r st remote)
  case (Cons i "is")
  have i: "int r \<le> int i" "int i \<le> int (r + MAX_SKIP)" using Cons.prems(3) by auto
  have "fit_v2 (sym_at lib s0 (Some pub) sn (i + 1))" using assms by (simp add: fit_sym_at)
  then show ?case
    using recv_from_sym [OF i assms(3) Cons.prems(2) assms(4), of sn p] Cons.prems
      Cons.IH [of _ "Some pub" "i + 1"]
    by (simp add: tryRecvDhKey_eq commit_recv_def init_after_set_v2)
qed simp

text \<open>
  C26. Version 2, one way: until its key rotates, a peer that has heard nothing sends the keys
  of the initial chain, with its public key and indices 0, 1, 2 and so on; a peer with the same
  base key that receives any of these messages in order, skipping up to 50 at a time, and
  commits each, derives the sender's key for every one of them.
\<close>

theorem v2_receiver_matches_sender:
  assumes h: "hash_ok lib" and k: "kp_ok ka" "kp_ok kb" and n: "n \<le> 50"
    and fresh: "getDhRatchetState sa c = None" "getDhRatchetState sb c = None"
    and mult: "cl_mult lib (kp_priv kb) (kp_pub ka) \<noteq> None"
    and i: "in_order 0 js" "\<forall>i \<in> set js. i < n"
  shows "\<exists>keys. length keys = n \<and>
    send_v2 lib ka c base n sa = map (\<lambda>j. Some (keys ! j,
      \<lparr>hr_i = IntN (int j), hr_dh = encodeBase64Url (kp_pub ka), hr_pn = None\<rparr>)) [0..<n] \<and>
    recv_v2 lib kb c base
      (map (\<lambda>i. \<lparr>hr_i = IntN (int i), hr_dh = encodeBase64Url (kp_pub ka), hr_pn = None\<rparr>) js) sb =
      map (\<lambda>i. Some (keys ! i)) js"
proof (intro exI conjI)
  let ?keys = "map (chain_key lib (hash lib ''nkc:ratchet:init'' base)) [0..<n]"
  let ?a = "init_v2 lib ka base" and ?b = "init_v2 lib kb base"
  have sa: "fst (getOrInitDhRatchetState lib ka sa c base) = sym_at lib ?a None 0 0"
    using init_fresh_v2 [OF fresh(1)] init_v2_sym_at by metis
  have sb: "fst (getOrInitDhRatchetState lib kb sb c base) = sym_at lib ?b None 0 0"
    using init_fresh_v2 [OF fresh(2)] init_v2_sym_at by metis
  have f: "r2_sendCk ?a = hash lib ''nkc:ratchet:init'' base" "r2_recvCk ?b = hash lib ''nkc:ratchet:init'' base"
    "r2_selfPub ?a = kp_pub ka" "r2_selfPriv ?b = kp_priv kb" by (simp_all add: init_v2_def)
  show "length ?keys = n" by simp
  show "send_v2 lib ka c base n sa = map (\<lambda>j. Some (?keys ! j,
      \<lparr>hr_i = IntN (int j), hr_dh = encodeBase64Url (kp_pub ka), hr_pn = None\<rparr>)) [0..<n]"
    using send_v2_keys [OF h _ sa, of n] h k n by (simp add: f ROTATE_EVERY_def)
  show "recv_v2 lib kb c base
      (map (\<lambda>i. \<lparr>hr_i = IntN (int i), hr_dh = encodeBase64Url (kp_pub ka), hr_pn = None\<rparr>) js) sb =
      map (\<lambda>i. Some (?keys ! i)) js"
    using recv_v2_keys [OF h _ _ _ sb, of "kp_pub ka" js None] h k mult i by (simp add: f kp_ok_def)
qed

text \<open>
  The first reply is read with the wrong key. After one message from a to b, b steps its
  ratchet and seals the reply with a key of the chain the Diffie-Hellman step gives; a, which
  looks at its initial chain before the stepped one, derives for the reply the key of its own
  first message instead, because the initial chain also has a key with index 0, and it never
  looks at the stepped chain.
\<close>

theorem first_reply_read_with_wrong_key:
  assumes h: "hash_ok lib" and k: "kp_ok ka" "kp_ok kb"
    and fresh: "getDhRatchetState sa c = None" "getDhRatchetState sb c = None"
    and mb: "cl_mult lib (kp_priv kb) (kp_pub ka) = Some x"
    and ma: "cl_mult lib (kp_priv ka) (kp_pub kb) \<noteq> None"
  shows "\<exists>key1 hdr1 s1 key2 hdr2 s2.
    fst (nextSendDhKey lib ka ka sa c base) = Some (key1, hdr1) \<and>
    fst (tryRecvDhKey lib kb sb c base hdr1 MAX_SKIP) = RecvKey key1 s1 \<and>
    fst (nextSendDhKey lib kb kb
      (commit_recv (snd (tryRecvDhKey lib kb sb c base hdr1 MAX_SKIP)) c s1) c base) = Some (key2, hdr2) \<and>
    key2 = hash lib ''nkc:ratchet:msg'' (hashParts lib ''nkc:dr:send''
      [hashParts lib ''nkc:dr:rk'' [hashParts lib ''nkc:dr:init'' [base], x]]) \<and>
    fst (tryRecvDhKey lib ka (snd (nextSendDhKey lib ka ka sa c base)) c base hdr2 MAX_SKIP) = RecvKey key1 s2"
proof -
  let ?a = "init_v2 lib ka base" and ?b = "init_v2 lib kb base"
  let ?key1 = "chain_key lib (hash lib ''nkc:ratchet:init'' base) 0"
  let ?hdr1 = "\<lparr>hr_i = IntN 0, hr_dh = encodeBase64Url (kp_pub ka), hr_pn = None\<rparr>"
  let ?s1 = "sym_at lib ?b (Some (kp_pub ka)) 0 (Suc 0)"
  let ?key2 = "hash lib ''nkc:ratchet:msg'' (hashParts lib ''nkc:dr:send''
      [hashParts lib ''nkc:dr:rk'' [hashParts lib ''nkc:dr:init'' [base], x]])"
  let ?hdr2 = "\<lparr>hr_i = IntN 0, hr_dh = encodeBase64Url (kp_pub kb), hr_pn = Some 0\<rparr>"
  have sa: "fst (getOrInitDhRatchetState lib ka sa c base) = sym_at lib ?a None 0 0"
    and sb: "fst (getOrInitDhRatchetState lib kb sb c base) = sym_at lib ?b None 0 0"
    using init_fresh_v2 fresh init_v2_sym_at by metis+
  have f: "r2_sendCk (init_v2 lib kp base) = hash lib ''nkc:ratchet:init'' base"
    "r2_recvCk (init_v2 lib kp base) = hash lib ''nkc:ratchet:init'' base"
    "r2_selfPub (init_v2 lib kp base) = kp_pub kp" "r2_selfPriv (init_v2 lib kp base) = kp_priv kp"
    "r2_rk (init_v2 lib kp base) = hashParts lib ''nkc:dr:init'' [base]" for kp
    by (simp_all add: init_v2_def)
  have pubs: "kp_pub ka \<noteq> []" "kp_pub kb \<noteq> []" using k by (simp_all add: kp_ok_def)
  have send1: "nextSendDhKey lib ka ka sa c base = (Some (?key1, ?hdr1),
      setDhRatchetState (snd (getOrInitDhRatchetState lib ka sa c base)) c (sym_at lib ?a None 1 0))"
    using nextSendDhKey_sym [OF sa] by (simp add: f ROTATE_EVERY_def)
  have recv1: "fst (tryRecvDhKey lib kb sb c base ?hdr1 MAX_SKIP) = RecvKey ?key1 ?s1"
    using recv_from_sym [of 0 0 MAX_SKIP "kp_pub ka" None lib ?b 0 None] pubs mb
    by (simp add: tryRecvDhKey_eq sb f)
  have at_b: "getOrInitDhRatchetState lib kb (commit_recv st c ?s1) c base = (?s1, commit_recv st c ?s1)" for st
    using h k pubs by (simp add: commit_recv_def init_after_set_v2 fit_sym_at)
  have send2: "fst (nextSendDhKey lib kb kb (commit_recv st c ?s1) c base) = Some (?key2, ?hdr2)" for st
    by (simp add: nextSendDhKey_def at_b Let_def case_prod_beta first_send_step_def rotate_step_def dhStep_def
        f mb kdfRk_def deriveMsgKey_def ROTATE_EVERY_def)
  have at_a: "fst (getOrInitDhRatchetState lib ka (snd (nextSendDhKey lib ka ka sa c base)) c base) =
      sym_at lib ?a None 1 0"
    using h k by (simp add: send1 init_after_set_v2 fit_sym_at)
  have "fst (tryRecvDhKey lib ka (snd (nextSendDhKey lib ka ka sa c base)) c base ?hdr2 MAX_SKIP) =
      RecvKey ?key1 (sym_at lib ?a (Some (kp_pub kb)) 1 1)"
    using recv_from_sym [of 0 0 MAX_SKIP "kp_pub kb" None lib ?a 1 "Some 0"] pubs ma
    by (simp add: tryRecvDhKey_eq at_a f)
  then show ?thesis using send1 recv1 send2 by auto
qed

subsection \<open>Witnesses\<close>

text \<open>A hash that reverses the end of its input, and a multiplication that adds up its operands.\<close>

definition toy_lib :: crypto_lib where
  "toy_lib = \<lparr>cl_hash = (\<lambda>m. take 32 (rev m @ replicate 32 0)), cl_mult = (\<lambda>a b. Some [hd a + hd b])\<rparr>"

definition toy_kp :: "byte \<Rightarrow> keypair" where
  "toy_kp n = \<lparr>kp_pub = [n], kp_priv = [n]\<rparr>"

definition empty_ratchets :: ratchet_store where
  "empty_ratchets = \<lparr>rt_v1 = (\<lambda>_. None), rt_v2 = (\<lambda>_. None)\<rparr>"

lemma toy_ok: "hash_ok toy_lib" "kp_ok (toy_kp n)" "getRatchetState empty_ratchets c = None"
  "getDhRatchetState empty_ratchets c = None" "cl_mult toy_lib a b = Some [hd a + hd b]"
proof -
  have "min n 32 + (32 - n) = 32" for n :: nat by simp
  then show "hash_ok toy_lib" unfolding hash_ok_def toy_lib_def by simp
qed (simp_all add: toy_lib_def kp_ok_def toy_kp_def empty_ratchets_def getRatchetState_def getDhRatchetState_def)

theorem v1_receiver_matches_sender_witness:
  "map snd (send_v1 toy_lib ''c'' [9] 3 empty_ratchets) = [0, 1, 2] \<and>
   recv_v1 toy_lib ''c'' [9] [2, 0] empty_ratchets =
     [Some (map fst (send_v1 toy_lib ''c'' [9] 3 empty_ratchets) ! 2), None]"
proof -
  have "\<forall>i \<in> set [2, 0]. i < int 3" by simp
  moreover have "window 0 [2, 0] = [Some 2, None]" by (simp add: MAX_SKIP_def)
  ultimately show ?thesis
    using v1_receiver_matches_sender [OF toy_ok(1) toy_ok(3) toy_ok(3), of "[2, 0]" 3 "''c''" "[9]"]
    by (simp add: upt_rec numeral_eq_Suc)
qed

theorem v1_crossing_messages_mismatch_witness:
  "fst (fst (nextSendKey toy_lib empty_ratchets ''c'' [9])) \<noteq>
     the (fst (tryRecvKey toy_lib (snd (nextSendKey toy_lib empty_ratchets ''c'' [9])) ''c'' [9] (IntN 0) MAX_SKIP))"
proof -
  have "chain_key toy_lib (hash toy_lib ''nkc:ratchet:init'' [9]) 0 \<noteq>
      chain_key toy_lib (hash toy_lib ''nkc:ratchet:init'' [9]) 1" by code_simp
  then show ?thesis
    using v1_crossing_messages_mismatch [OF toy_ok(1) toy_ok(3) toy_ok(3), of "''c''" "[9]"] by simp
qed

theorem recv_dh_repeatable_witness:
  "tryRecvDhKey toy_lib (toy_kp 2) (snd (tryRecvDhKey toy_lib (toy_kp 1) empty_ratchets ''c'' [9]
     \<lparr>hr_i = IntN 0, hr_dh = ''AA'', hr_pn = None\<rparr> MAX_SKIP)) ''c'' [9]
     \<lparr>hr_i = IntN 0, hr_dh = ''AA'', hr_pn = None\<rparr> MAX_SKIP =
   tryRecvDhKey toy_lib (toy_kp 1) empty_ratchets ''c'' [9] \<lparr>hr_i = IntN 0, hr_dh = ''AA'', hr_pn = None\<rparr> MAX_SKIP"
  by (rule recv_dh_repeatable [OF toy_ok(1,2)])

theorem dh_step_agrees_witness:
  "\<exists>rk ck1 ck2. dhStep toy_lib (init_v2 toy_lib (toy_kp 2) [9]) [1] False = Some (rk, ck1, ck2) \<and>
     dhStep toy_lib (init_v2 toy_lib (toy_kp 1) [9]) [2] True = Some (rk, ck2, ck1)"
  using dh_step_agrees [of "init_v2 toy_lib (toy_kp 1) [9]" "init_v2 toy_lib (toy_kp 2) [9]" toy_lib "[3]"]
  by (simp add: init_v2_def toy_kp_def toy_ok)

theorem v2_receiver_matches_sender_witness:
  "\<exists>keys. length keys = 3 \<and> recv_v2 toy_lib (toy_kp 2) ''c'' [9]
     (map (\<lambda>i. \<lparr>hr_i = IntN (int i), hr_dh = encodeBase64Url (kp_pub (toy_kp 1)), hr_pn = None\<rparr>) [0, 2]) empty_ratchets =
       [Some (keys ! 0), Some (keys ! 2)]"
proof -
  have "in_order 0 [0, 2]" "\<forall>i \<in> set [0, 2]. i < (3::nat)" "(3::nat) \<le> 50" by (simp_all add: MAX_SKIP_def)
  moreover have "cl_mult toy_lib (kp_priv (toy_kp 2)) (kp_pub (toy_kp 1)) \<noteq> None" by (simp add: toy_ok)
  ultimately obtain keys where "length keys = 3" "recv_v2 toy_lib (toy_kp 2) ''c'' [9]
     (map (\<lambda>i. \<lparr>hr_i = IntN (int i), hr_dh = encodeBase64Url (kp_pub (toy_kp 1)), hr_pn = None\<rparr>) [0, 2])
     empty_ratchets = map (\<lambda>i. Some (keys ! i)) [0, 2]"
    using v2_receiver_matches_sender [OF toy_ok(1) toy_ok(2) toy_ok(2) _ toy_ok(4) toy_ok(4), where n = 3 and js = "[0, 2]"]
    by blast
  then show ?thesis by (intro exI [of _ keys]) (simp del: recv_v2.simps)
qed

theorem first_reply_read_with_wrong_key_witness:
  "\<exists>key1 key2 hdr2 s1 s2. key1 \<noteq> key2 \<and>
     fst (nextSendDhKey toy_lib (toy_kp 2) (toy_kp 2) (commit_recv (snd (tryRecvDhKey toy_lib (toy_kp 2)
       empty_ratchets ''c'' [9] \<lparr>hr_i = IntN 0, hr_dh = encodeBase64Url [1], hr_pn = None\<rparr> MAX_SKIP)) ''c'' s1)
       ''c'' [9]) = Some (key2, hdr2) \<and>
     fst (tryRecvDhKey toy_lib (toy_kp 1) (snd (nextSendDhKey toy_lib (toy_kp 1) (toy_kp 1) empty_ratchets ''c'' [9]))
       ''c'' [9] hdr2 MAX_SKIP) = RecvKey key1 s2"
proof -
  have m: "cl_mult toy_lib (kp_priv (toy_kp 2)) (kp_pub (toy_kp 1)) = Some [3]"
    "cl_mult toy_lib (kp_priv (toy_kp 1)) (kp_pub (toy_kp 2)) \<noteq> None"
    by (simp_all add: toy_ok toy_kp_def)
  have send: "fst (nextSendDhKey toy_lib (toy_kp 1) (toy_kp 1) empty_ratchets ''c'' [9]) =
      Some (hash toy_lib ''nkc:ratchet:msg'' (hash toy_lib ''nkc:ratchet:init'' [9]),
        \<lparr>hr_i = IntN 0, hr_dh = encodeBase64Url [1], hr_pn = None\<rparr>)"
    by code_simp
  have ne: "hash toy_lib ''nkc:ratchet:msg'' (hash toy_lib ''nkc:ratchet:init'' [9]) \<noteq>
      hash toy_lib ''nkc:ratchet:msg'' (hashParts toy_lib ''nkc:dr:send''
        [hashParts toy_lib ''nkc:dr:rk'' [hashParts toy_lib ''nkc:dr:init'' [[9]], [3]]])"
    by code_simp
  show ?thesis
    using first_reply_read_with_wrong_key [OF toy_ok(1) toy_ok(2) toy_ok(2) toy_ok(4) toy_ok(4) m, of "''c''" "[9]"]
      send ne by auto
qed

end
