(* ===== verification/Canonical_Json.thy ===== *)
theory Canonical_Json
  imports NKC_Prelude "HOL-Library.Multiset"
begin

text \<open>
  Canonical JSON (src/src/crypto/canonicalJson.ts): the bytes the program signs and
  authenticates. A JSON value is a tree; a number is represented by the text
  \<open>JSON.stringify\<close> writes for it, and an object by its properties in the order of their
  creation. The order in which the engine lists them (array indices first, in numeric order),
  the escapes and the treatment of undefined are those of the language.
\<close>

datatype json = JNull | JUndef | JBool bool | JNum string | JStr string | JArr "json list"
  | JObj "(string \<times> json) list"

subsection \<open>The order of properties\<close>

definition is_digit :: "char \<Rightarrow> bool" where
  "is_digit c \<longleftrightarrow> (let n = (of_char c :: nat) in 48 \<le> n \<and> n \<le> 57)"

definition index_value :: "string \<Rightarrow> nat" where
  "index_value s = foldl (\<lambda>n c. n * 10 + (of_char c - 48)) 0 s"

definition is_index_key :: "string \<Rightarrow> bool" where
  "is_index_key s \<longleftrightarrow> s \<noteq> [] \<and> list_all is_digit s \<and> (s = ''0'' \<or> hd s \<noteq> CHR ''0'') \<and>
     length s \<le> 10 \<and> int (index_value s) < 4294967295"

definition own_order :: "(string \<times> 'v) list \<Rightarrow> (string \<times> 'v) list" where
  "own_order kvs = sort_key (index_value \<circ> fst) (filter (is_index_key \<circ> fst) kvs) @
     filter (Not \<circ> is_index_key \<circ> fst) kvs"

text \<open>An assignment to the key \<open>__proto__\<close> of an object sets its prototype and creates no property.\<close>

definition settable :: "string \<times> 'v \<Rightarrow> bool" where
  "settable p \<longleftrightarrow> fst p \<noteq> ''__proto__''"

fun canonicalize :: "json \<Rightarrow> json" where
  "canonicalize (JArr xs) = JArr (map canonicalize xs)"
| "canonicalize (JObj kvs) =
     JObj (sort_key fst (filter settable (map (\<lambda>(k, v). (k, canonicalize v)) kvs)))"
| "canonicalize v = v"

subsection \<open>Text\<close>

definition hex_low :: "nat \<Rightarrow> char" where
  "hex_low n = (if n < 10 then char_of (48 + n) else char_of (87 + n))"

definition escape_char :: "char \<Rightarrow> string" where
  "escape_char c = (let n = (of_char c :: nat) in
     if c = CHR 0x22 then [CHR 0x5C, CHR 0x22]
     else if c = CHR 0x5C then [CHR 0x5C, CHR 0x5C]
     else if n = 8 then [CHR 0x5C, CHR ''b''] else if n = 9 then [CHR 0x5C, CHR ''t'']
     else if n = 10 then [CHR 0x5C, CHR ''n''] else if n = 12 then [CHR 0x5C, CHR ''f'']
     else if n = 13 then [CHR 0x5C, CHR ''r'']
     else if n < 32 then [CHR 0x5C, CHR ''u'', CHR ''0'', CHR ''0'', hex_low (n div 16), hex_low (n mod 16)]
     else [c])"

definition quote :: "string \<Rightarrow> string" where
  "quote s = CHR 0x22 # concat (map escape_char s) @ [CHR 0x22]"

text \<open>A property whose value is undefined is left out; in an array undefined prints as null.\<close>

definition present :: "string \<times> json \<Rightarrow> bool" where
  "present p \<longleftrightarrow> snd p \<noteq> JUndef"

lemma present_size [termination_simp]:
  "(k, v) \<in> set kvs \<Longrightarrow> size v < Suc (size_list (\<lambda>p. Suc (size_prod (\<lambda>_. 0) size p)) kvs)"
  by (induction kvs) auto

fun stringify :: "json \<Rightarrow> string" where
  "stringify JNull = ''null''"
| "stringify JUndef = ''null''"
| "stringify (JBool b) = (if b then ''true'' else ''false'')"
| "stringify (JNum t) = t"
| "stringify (JStr s) = quote s"
| "stringify (JArr xs) = CHR ''['' # join_str '','' (map stringify xs) @ '']''"
| "stringify (JObj kvs) = CHR ''{'' # join_str '','' (map (\<lambda>(k, t). quote k @ '':'' @ t)
     (own_order (map (\<lambda>(k, v). (k, stringify v)) (filter present kvs)))) @ ''}''"

text \<open>\<open>JSON.stringify\<close> of undefined is undefined, which the encoder encodes as no bytes.\<close>

definition canonicalBytes :: "json \<Rightarrow> bytes" where
  "canonicalBytes v = (if v = JUndef then [] else encode_utf8 (stringify (canonicalize v)))"

subsection \<open>Printed trees\<close>

text \<open>The tree that is really printed: properties in printed order, undefined left out.\<close>

fun print :: "json \<Rightarrow> string" where
  "print JNull = ''null''"
| "print JUndef = ''null''"
| "print (JBool b) = (if b then ''true'' else ''false'')"
| "print (JNum t) = t"
| "print (JStr s) = quote s"
| "print (JArr xs) = CHR ''['' # join_str '','' (map print xs) @ '']''"
| "print (JObj kvs) = CHR ''{'' # join_str '','' (map (\<lambda>(k, v). quote k @ '':'' @ print v) kvs) @ ''}''"

fun norm :: "json \<Rightarrow> json" where
  "norm JUndef = JNull"
| "norm (JArr xs) = JArr (map norm xs)"
| "norm (JObj kvs) = JObj (own_order (map (\<lambda>(k, v). (k, norm v)) (filter present kvs)))"
| "norm v = v"

lemma sort_key_map: "sort_key f (map g xs) = map g (sort_key (f \<circ> g) xs)"
proof -
  have "insort_key f (g x) (map g xs) = map g (insort_key (f \<circ> g) x xs)" for x xs
    by (induction xs) auto
  then show ?thesis by (induction xs) simp_all
qed

lemma own_order_map: "own_order (map (\<lambda>(k, v). (k, g v)) kvs) = map (\<lambda>(k, v). (k, g v)) (own_order kvs)"
proof -
  have "(index_value \<circ> fst) \<circ> (\<lambda>(k, v). (k, g v)) = index_value \<circ> fst"
    "is_index_key \<circ> fst \<circ> (\<lambda>(k, v). (k, g v)) = is_index_key \<circ> fst"
    "Not \<circ> is_index_key \<circ> fst \<circ> (\<lambda>(k, v). (k, g v)) = Not \<circ> is_index_key \<circ> fst"
    by (auto simp: fun_eq_iff)
  then show ?thesis by (simp add: own_order_def filter_map sort_key_map comp_assoc)
qed

lemma own_order_mset [simp]: "mset (own_order kvs) = mset kvs"
  by (simp add: own_order_def comp_def)

lemma own_order_set [simp]: "set (own_order kvs) = set kvs"
  by (metis own_order_mset set_mset_mset)

lemma own_order_distinct: "distinct (map fst (own_order kvs)) \<longleftrightarrow> distinct (map fst kvs)"
  by (rule mset_eq_imp_distinct_iff) (simp only: mset_map own_order_mset)

lemma stringify_print: "stringify v = print (norm v)"
proof (induction v)
  case (JArr xs)
  then have "map stringify xs = map (\<lambda>v. print (norm v)) xs" by simp
  then show ?case by (simp add: comp_def del: map_eq_conv)
next
  case (JObj kvs)
  have "stringify v = print (norm v)" if "(k, v) \<in> set kvs" for k v
    using JObj that by (cases "(k, v)") force
  then have "map (\<lambda>(k, v). (k, stringify v)) (filter present kvs) =
      map (\<lambda>(k, v). (k, print v)) (map (\<lambda>(k, v). (k, norm v)) (filter present kvs))"
    by (auto intro!: map_cong)
  then have ord: "own_order (map (\<lambda>(k, v). (k, stringify v)) (filter present kvs)) =
      map (\<lambda>(k, v). (k, print v)) (own_order (map (\<lambda>(k, v). (k, norm v)) (filter present kvs)))"
    by (simp only: own_order_map [of print])
  show ?case unfolding stringify.simps norm.simps print.simps ord by (simp add: comp_def split_def)
qed auto

subsection \<open>What the text says\<close>

text \<open>The value of a tree: an object is a finite map, an undefined property is absent.\<close>

datatype jval = VNull | VBool bool | VNum string | VStr string | VArr "jval list"
  | VObj "string \<Rightarrow> jval option"

fun meaning :: "json \<Rightarrow> jval" where
  "meaning JNull = VNull"
| "meaning JUndef = VNull"
| "meaning (JBool b) = VBool b"
| "meaning (JNum t) = VNum t"
| "meaning (JStr s) = VStr s"
| "meaning (JArr xs) = VArr (map meaning xs)"
| "meaning (JObj kvs) = VObj (map_of (map (\<lambda>(k, v). (k, meaning v)) (filter present kvs)))"

definition is_num_char :: "char \<Rightarrow> bool" where
  "is_num_char c \<longleftrightarrow> is_digit c \<or> c = CHR ''-'' \<or> c = CHR ''+'' \<or> c = CHR ''.'' \<or> c = CHR ''e''"

text \<open>Trees that stand for values of the language: number texts are made of digits, signs, points
  and exponents, the keys of an object are distinct and none of them is \<open>__proto__\<close>.\<close>

fun wf_json :: "json \<Rightarrow> bool" where
  "wf_json (JNum t) = (t \<noteq> [] \<and> list_all is_num_char t)"
| "wf_json (JArr xs) = list_all wf_json xs"
| "wf_json (JObj kvs) = (distinct (map fst kvs) \<and> list_all settable kvs \<and> list_all (\<lambda>(k, v). wf_json v) kvs)"
| "wf_json _ = True"

text \<open>The properties of an object that are there, with a function on their values.\<close>

abbreviation present_fields :: "(json \<Rightarrow> 'v) \<Rightarrow> (string \<times> json) list \<Rightarrow> (string \<times> 'v) list" where
  "present_fields f kvs \<equiv> map (\<lambda>(k, v). (k, f v)) (filter present kvs)"

lemma map_fst_fields: "map fst (present_fields f kvs) = map fst (filter present kvs)"
  by (simp add: comp_def split_def)

lemma distinct_of_keys: "distinct (map fst xs) \<Longrightarrow> distinct xs"
  by (simp add: distinct_map)

lemma inj_on_keys: "distinct (map fst xs) \<Longrightarrow> inj_on fst (set xs)"
  by (simp add: distinct_map)

lemma fields_distinct: "distinct (map fst kvs) \<Longrightarrow> distinct (map fst (present_fields f kvs))"
  unfolding map_fst_fields by (rule distinct_map_filter)

lemma mem_fields: "(k, t) \<in> set (present_fields f kvs) \<longleftrightarrow> (\<exists>v. (k, v) \<in> set kvs \<and> v \<noteq> JUndef \<and> t = f v)"
  by (auto simp: present_def)

lemma set_fields_image:
  assumes "set xs = (\<lambda>(k, v). (k, g v)) ` set ys" "\<And>k v. (k, v) \<in> set ys \<Longrightarrow> g v = JUndef \<longleftrightarrow> v = JUndef"
  shows "set (present_fields f xs) = set (present_fields (f \<circ> g) ys)"
proof (intro set_eqI)
  fix p :: "string \<times> 'a"
  obtain k t where p: "p = (k, t)" by (cases p)
  have "(\<exists>v. (k, v) \<in> set xs \<and> v \<noteq> JUndef \<and> t = f v) \<longleftrightarrow> (\<exists>v. (k, v) \<in> set ys \<and> v \<noteq> JUndef \<and> t = f (g v))"
  proof
    assume "\<exists>v. (k, v) \<in> set xs \<and> v \<noteq> JUndef \<and> t = f v"
    then show "\<exists>v. (k, v) \<in> set ys \<and> v \<noteq> JUndef \<and> t = f (g v)" unfolding assms(1) using assms(2) by auto
  next
    assume "\<exists>v. (k, v) \<in> set ys \<and> v \<noteq> JUndef \<and> t = f (g v)"
    then obtain v where v: "(k, v) \<in> set ys" "v \<noteq> JUndef" "t = f (g v)" by blast
    then have "(k, g v) \<in> set xs" unfolding assms(1) by force
    then show "\<exists>v. (k, v) \<in> set xs \<and> v \<noteq> JUndef \<and> t = f v" using v assms(2) by blast
  qed
  then show "p \<in> set (present_fields f xs) \<longleftrightarrow> p \<in> set (present_fields (f \<circ> g) ys)" unfolding p mem_fields comp_def .
qed

lemma fields_cong: "(\<And>k v. (k, v) \<in> set kvs \<Longrightarrow> f v = g v) \<Longrightarrow> present_fields f kvs = present_fields g kvs"
  by (auto intro!: map_cong)

lemma canonicalize_undef [simp]: "canonicalize v = JUndef \<longleftrightarrow> v = JUndef"
  by (cases v) auto

lemma wf_json_pair: "wf_json (JObj kvs) \<Longrightarrow> (k, v) \<in> set kvs \<Longrightarrow> wf_json v"
  by (auto simp: list_all_iff)

lemma canonicalize_obj:
  "wf_json (JObj kvs) \<Longrightarrow> canonicalize (JObj kvs) = JObj (sort_key fst (map (\<lambda>(k, v). (k, canonicalize v)) kvs))"
  by (auto simp: list_all_iff settable_def split_def intro!: arg_cong [where f = "sort_key fst"] filter_True)

lemma map_fst_canonical:
  "map fst (sort_key fst (map (\<lambda>(k, v). (k, canonicalize v)) kvs)) = sort_key id (map fst kvs)"
  using sort_key_map [of id fst "map (\<lambda>(k, v). (k, canonicalize v)) kvs"] by (simp add: comp_def split_def)

lemma meaning_canonicalize: "wf_json v \<Longrightarrow> meaning (canonicalize v) = meaning v"
proof (induction v)
  case (JObj kvs)
  let ?c = "sort_key fst (map (\<lambda>(k, v). (k, canonicalize v)) kvs)"
  have ih: "meaning (canonicalize v) = meaning v" if "(k, v) \<in> set kvs" for k v
    using JObj.IH [of "(k, v)" v] JObj.prems wf_json_pair that by auto
  have d: "distinct (map fst ?c)" using JObj.prems by (simp add: map_fst_canonical)
  have "set (present_fields meaning ?c) = set (present_fields (meaning \<circ> canonicalize) kvs)"
    by (rule set_fields_image) simp_all
  also have "present_fields (meaning \<circ> canonicalize) kvs = present_fields meaning kvs"
    by (rule fields_cong) (simp add: ih)
  finally have "set (present_fields meaning ?c) = set (present_fields meaning kvs)" .
  then show ?case using fields_distinct [OF d, of meaning] fields_distinct [of kvs meaning] JObj.prems
    unfolding canonicalize_obj [OF JObj.prems] by (simp add: map_of_inject_set)
qed (auto simp: list_all_iff)

lemma wf_canonicalize: "wf_json v \<Longrightarrow> wf_json (canonicalize v)"
proof (induction v)
  case (JObj kvs)
  have "wf_json (canonicalize v)" if "(k, v) \<in> set kvs" for k v
    using JObj.IH [of "(k, v)" v] JObj.prems wf_json_pair that by auto
  moreover have "distinct (map fst (sort_key fst (map (\<lambda>(k, v). (k, canonicalize v)) kvs)))"
    using JObj.prems by (simp add: map_fst_canonical)
  ultimately show ?case using JObj.prems unfolding canonicalize_obj [OF JObj.prems]
    by (auto simp: list_all_iff settable_def)
qed (auto simp: list_all_iff)

lemma norm_not_undef [simp]: "norm v \<noteq> JUndef"
  by (cases v) auto

lemma meaning_norm: "wf_json v \<Longrightarrow> meaning (norm v) = meaning v"
proof (induction v)
  case (JObj kvs)
  let ?n = "own_order (present_fields norm kvs)"
  have ih: "meaning (norm v) = meaning v" if "(k, v) \<in> set kvs" for k v
    using JObj.IH [of "(k, v)" v] JObj.prems wf_json_pair that by auto
  have "distinct (map fst kvs)" using JObj.prems by simp
  then have "distinct (map fst ?n)"
    using fields_distinct [of kvs norm] by (simp only: own_order_distinct)
  moreover have "set (present_fields meaning ?n) = set (present_fields meaning kvs)"
  proof -
    have "set (present_fields meaning ?n) = set (present_fields (meaning \<circ> norm) (filter present kvs))"
      by (rule set_fields_image) (auto simp: present_def)
    also have "present_fields (meaning \<circ> norm) (filter present kvs) = present_fields meaning kvs"
    proof -
      have "present_fields (meaning \<circ> norm) kvs = present_fields meaning kvs" by (rule fields_cong) (simp add: ih)
      then show ?thesis by (simp only: filter_filter conj_absorb)
    qed
    finally show ?thesis .
  qed
  ultimately show ?case using fields_distinct [of ?n meaning] fields_distinct [of kvs meaning] JObj.prems
    by (simp add: map_of_inject_set)
qed (auto simp: list_all_iff)

text \<open>Trees with the same value have the same canonical form.\<close>

lemma norm_canonicalize_obj:
  assumes "wf_json (JObj kvs)"
  shows "norm (canonicalize (JObj kvs)) = JObj (own_order (sort_key fst (present_fields (norm \<circ> canonicalize) kvs)))"
proof -
  have p: "present \<circ> (\<lambda>(k, v). (k, canonicalize v)) = present" by (auto simp: present_def fun_eq_iff)
  have f: "fst \<circ> (\<lambda>(k, v). (k, norm v)) = fst" by auto
  have "map (\<lambda>(k, v). (k, norm v)) (filter present (sort_key fst (map (\<lambda>(k, v). (k, canonicalize v)) kvs))) =
      map (\<lambda>(k, v). (k, norm v)) (sort_key fst (map (\<lambda>(k, v). (k, canonicalize v)) (filter present kvs)))"
    by (simp add: filter_sort filter_map p)
  also have "\<dots> = sort_key fst (map (\<lambda>(k, v). (k, norm v)) (map (\<lambda>(k, v). (k, canonicalize v)) (filter present kvs)))"
    by (simp only: sort_key_map f)
  finally show ?thesis unfolding canonicalize_obj [OF assms] by (simp add: comp_def split_def)
qed

lemma same_meaning_same_form:
  "wf_json a \<Longrightarrow> wf_json b \<Longrightarrow> meaning a = meaning b \<Longrightarrow> norm (canonicalize a) = norm (canonicalize b)"
proof (induction a arbitrary: b)
  case (JArr xs)
  from JArr.prems(3) obtain ys where b: "b = JArr ys" and m: "map meaning xs = map meaning ys"
    by (cases b) auto
  have "map (norm \<circ> canonicalize) xs = map (norm \<circ> canonicalize) ys"
  proof (rule nth_equalityI)
    show len: "length (map (norm \<circ> canonicalize) xs) = length (map (norm \<circ> canonicalize) ys)"
      using map_eq_imp_length_eq [OF m] by simp
    fix i assume i: "i < length (map (norm \<circ> canonicalize) xs)"
    then have "meaning (xs ! i) = meaning (ys ! i)" using m len by (metis length_map nth_map)
    then show "map (norm \<circ> canonicalize) xs ! i = map (norm \<circ> canonicalize) ys ! i"
      using JArr.IH [of "xs ! i" "ys ! i"] JArr.prems b i len by (simp add: list_all_length)
  qed
  then show ?case using b by simp
next
  case (JObj kvs)
  from JObj.prems(3) obtain ls where b: "b = JObj ls" by (cases b) auto
  have d: "distinct (map fst kvs)" "distinct (map fst ls)" using JObj.prems b by simp_all
  have m: "set (present_fields meaning kvs) = set (present_fields meaning ls)"
    using JObj.prems(3) b fields_distinct [OF d(1), of meaning] fields_distinct [OF d(2), of meaning]
    by (simp add: map_of_inject_set)
  let ?c = "norm \<circ> canonicalize"
  have ih: "?c v = ?c w" if "(k, v) \<in> set kvs" "(k', w) \<in> set ls" "meaning v = meaning w" for k v k' w
    using JObj.IH [of "(k, v)" v w] JObj.prems b that wf_json_pair by auto
  have half: "set (present_fields ?c us) \<subseteq> set (present_fields ?c vs)"
    if "set (present_fields meaning us) \<subseteq> set (present_fields meaning vs)"
      and "\<And>k v k' w. (k, v) \<in> set us \<Longrightarrow> (k', w) \<in> set vs \<Longrightarrow> meaning v = meaning w \<Longrightarrow> ?c v = ?c w" for us vs
  proof
    fix p assume "p \<in> set (present_fields ?c us)"
    moreover obtain k t where p: "p = (k, t)" by (cases p)
    ultimately obtain v where v: "(k, v) \<in> set us" "v \<noteq> JUndef" "t = ?c v" using mem_fields [of k t ?c us] by blast
    then have "(k, meaning v) \<in> set (present_fields meaning us)" unfolding mem_fields by blast
    then have "(k, meaning v) \<in> set (present_fields meaning vs)" using that(1) by blast
    then obtain w where w: "(k, w) \<in> set vs" "w \<noteq> JUndef" "meaning v = meaning w" unfolding mem_fields by blast
    then have "?c v = ?c w" using that(2) v(1) by blast
    then show "p \<in> set (present_fields ?c vs)" unfolding p mem_fields using v(3) w by blast
  qed
  have "set (present_fields ?c kvs) = set (present_fields ?c ls)"
  proof
    show "set (present_fields ?c kvs) \<subseteq> set (present_fields ?c ls)" by (rule half) (use m ih in auto)
    show "set (present_fields ?c ls) \<subseteq> set (present_fields ?c kvs)"
    proof (rule half)
      show "set (present_fields meaning ls) \<subseteq> set (present_fields meaning kvs)" using m by simp
      show "?c v = ?c w" if "(k, v) \<in> set ls" "(k', w) \<in> set kvs" "meaning v = meaning w" for k v k' w
        using ih [OF that(2,1)] that(3) by simp
    qed
  qed
  moreover have dc: "distinct (present_fields ?c kvs)" "distinct (present_fields ?c ls)"
    by (rule distinct_of_keys, rule fields_distinct, rule d)+
  ultimately have "mset (present_fields ?c kvs) = mset (sort_key fst (present_fields ?c ls))"
    by (simp only: mset_sort set_eq_iff_mset_eq_distinct)
  moreover have "inj_on fst (set (present_fields ?c kvs))"
    by (rule inj_on_keys, rule fields_distinct, rule d)
  ultimately have "sort_key fst (present_fields ?c kvs) = sort_key fst (present_fields ?c ls)"
    by (rule sort_key_inj_key_eq) (rule sorted_sort_key)
  then show ?case unfolding b using JObj.prems b by (simp only: norm_canonicalize_obj)
qed (simp_all, (case_tac b; simp)+)

subsection \<open>The text determines the tree\<close>

text \<open>Strings: an escape ends where it should, so the closing quote is found.\<close>

definition unhex :: "char \<Rightarrow> nat" where
  "unhex c = (if (of_char c :: nat) < 58 then of_char c - 48 else of_char c - 87)"

lemma unhex_hex_low: "n < 16 \<Longrightarrow> unhex (hex_low n) = n"
  by (simp add: unhex_def hex_low_def)

definition unescape :: "string \<Rightarrow> char \<times> string" where
  "unescape s = (if hd s \<noteq> CHR 0x5C then (hd s, tl s)
     else if s ! 1 = CHR ''u'' then (char_of (16 * unhex (s ! 4) + unhex (s ! 5)), drop 6 s)
     else (if s ! 1 = CHR ''b'' then char_of (8::nat) else if s ! 1 = CHR ''t'' then char_of (9::nat)
           else if s ! 1 = CHR ''n'' then char_of (10::nat) else if s ! 1 = CHR ''f'' then char_of (12::nat)
           else if s ! 1 = CHR ''r'' then char_of (13::nat) else s ! 1, drop 2 s))"

lemma char_by_code: "(of_char c :: nat) = n \<Longrightarrow> c = char_of n"
  by (metis char_of_char)

lemma unescape_escape: "unescape (escape_char c @ w) = (c, w)"
proof -
  let ?n = "of_char c :: nat"
  have short_escape: "unescape (escape_char c @ w) = (c, w)" if "?n = k" "k \<in> {8, 9, 10, 12, 13}" for k
  proof -
    have "c \<noteq> CHR 0x22" "c \<noteq> CHR 0x5C" using that by auto
    moreover have "char_of k = c" by (rule char_by_code [OF that(1), symmetric])
    ultimately show ?thesis using that by (auto simp: unescape_def escape_char_def Let_def)
  qed
  consider "c = CHR 0x22" | "c = CHR 0x5C" | (short) "?n \<in> {8, 9, 10, 12, 13}"
    | (u) "?n < 32" "?n \<notin> {8, 9, 10, 12, 13}" "c \<noteq> CHR 0x22" "c \<noteq> CHR 0x5C"
    | (plain) "32 \<le> ?n" "c \<noteq> CHR 0x22" "c \<noteq> CHR 0x5C" by fastforce
  then show ?thesis
  proof cases
    case short
    then show ?thesis using short_escape [of ?n] by blast
  next
    case u
    have "unhex (hex_low (?n div 16)) = ?n div 16" "unhex (hex_low (?n mod 16)) = ?n mod 16"
      using u(1) by (simp_all add: unhex_hex_low)
    then have "char_of (16 * unhex (hex_low (?n div 16)) + unhex (hex_low (?n mod 16))) = c"
      by (simp only: mult_div_mod_eq char_of_char)
    then show ?thesis using u by (simp add: unescape_def escape_char_def Let_def)
  next
    case plain
    then show ?thesis by (simp add: unescape_def escape_char_def Let_def)
  qed (simp_all add: unescape_def escape_char_def Let_def)
qed

lemma escape_not_quote: "hd (escape_char c @ w) \<noteq> CHR 0x22" "escape_char c \<noteq> []"
  by (auto simp: escape_char_def Let_def)

lemma quote_body_prefix:
  "concat (map escape_char s) @ CHR 0x22 # u = concat (map escape_char t) @ CHR 0x22 # v \<Longrightarrow> s = t \<and> u = v"
proof (induction s arbitrary: t)
  case Nil
  show ?case
  proof (cases t)
    case (Cons d t')
    then have "CHR 0x22 # u = escape_char d @ (concat (map escape_char t') @ CHR 0x22 # v)" using Nil by simp
    then show ?thesis using escape_not_quote(1) [of d "concat (map escape_char t') @ CHR 0x22 # v"] by (metis list.sel(1))
  qed (use Nil in simp)
next
  case (Cons c s)
  have c: "escape_char c @ (concat (map escape_char s) @ CHR 0x22 # u) = concat (map escape_char t) @ CHR 0x22 # v"
    using Cons.prems by simp
  show ?case
  proof (cases t)
    case Nil
    then show ?thesis using c escape_not_quote(1) [of c "concat (map escape_char s) @ CHR 0x22 # u"] by simp
  next
    case (Cons d t')
    then have "escape_char c @ (concat (map escape_char s) @ CHR 0x22 # u) =
        escape_char d @ (concat (map escape_char t') @ CHR 0x22 # v)" using c by simp
    then have "(c, concat (map escape_char s) @ CHR 0x22 # u) = (d, concat (map escape_char t') @ CHR 0x22 # v)"
      by (metis unescape_escape)
    then show ?thesis using Cons Cons.IH [of t'] by simp
  qed
qed

lemma quote_prefix: "quote s @ u = quote t @ v \<Longrightarrow> s = t \<and> u = v"
  using quote_body_prefix [of s u t v] by (simp add: quote_def)

text \<open>Lists: after an item comes a comma or the closing bracket.\<close>

definition stops :: "string \<Rightarrow> bool" where
  "stops u \<longleftrightarrow> u = [] \<or> hd u \<in> {CHR '','', CHR '']'', CHR ''}''}"

lemma join_str_Cons: "join_str '','' (x # xs) = x @ (if xs = [] then [] else CHR '','' # join_str '','' xs)"
  by (cases xs) simp_all

lemma join_prefix:
  assumes c: "c \<in> {CHR '']'', CHR ''}''}"
  shows "(\<And>x y u v. x \<in> set xs \<Longrightarrow> y \<in> set ys \<Longrightarrow> p x @ u = p y @ v \<Longrightarrow> stops u \<Longrightarrow> stops v \<Longrightarrow>
      x = y \<and> u = v) \<Longrightarrow>
    (\<And>x. x \<in> set xs \<union> set ys \<Longrightarrow> p x \<noteq> [] \<and> hd (p x) \<noteq> c) \<Longrightarrow>
    join_str '','' (map p xs) @ c # u = join_str '','' (map p ys) @ c # v \<Longrightarrow> xs = ys \<and> u = v"
proof (induction xs arbitrary: ys)
  case Nil
  show ?case
  proof (cases ys)
    case (Cons y ys')
    then have "c # u = p y @ ((if ys' = [] then [] else CHR '','' # join_str '','' (map p ys')) @ c # v)"
      using Nil(3) by (simp add: join_str_Cons)
    moreover have "p y \<noteq> []" "hd (p y) \<noteq> c" using Nil(2) Cons by auto
    ultimately show ?thesis by (metis hd_append list.sel(1))
  qed (use Nil in simp)
next
  case (Cons x xs)
  let ?r = "(if xs = [] then [] else CHR '','' # join_str '','' (map p xs)) @ c # u"
  have eq: "p x @ ?r = join_str '','' (map p ys) @ c # v" using Cons.prems(3) by (simp add: join_str_Cons)
  show ?case
  proof (cases ys)
    case Nil
    moreover have "p x \<noteq> []" "hd (p x) \<noteq> c" using Cons.prems(2) by auto
    ultimately show ?thesis using eq by (metis append_Nil hd_append join_str.simps(1) list.sel(1) list.simps(8))
  next
    case (Cons y ys')
    let ?s = "(if ys' = [] then [] else CHR '','' # join_str '','' (map p ys')) @ c # v"
    have "p x @ ?r = p y @ ?s" using eq Cons by (simp add: join_str_Cons)
    moreover have "stops ?r" "stops ?s" using c by (auto simp: stops_def)
    ultimately have xy: "x = y" "?r = ?s" using Cons.prems(1) [of x y ?r ?s] Cons by auto
    have "c \<noteq> CHR '',''" using c by auto
    then have "(xs = [] \<longleftrightarrow> ys' = []) \<and>
        join_str '','' (map p xs) @ c # u = join_str '','' (map p ys') @ c # v"
      using xy(2) by (auto split: if_splits)
    moreover have "xs = ys' \<and> u = v" if "join_str '','' (map p xs) @ c # u = join_str '','' (map p ys') @ c # v"
      by (rule Cons.IH [OF _ _ that]) (use Cons.prems Cons in auto)
    ultimately show ?thesis using xy Cons by auto
  qed
qed

fun no_undef :: "json \<Rightarrow> bool" where
  "no_undef JUndef = False"
| "no_undef (JArr xs) = list_all no_undef xs"
| "no_undef (JObj kvs) = list_all (\<lambda>(k, v). no_undef v) kvs"
| "no_undef _ = True"

lemma print_first:
  assumes "wf_json v" shows "print v \<noteq> []" "hd (print v) \<notin> {CHR '','', CHR '']'', CHR ''}''}"
proof -
  have "print v \<noteq> [] \<and> hd (print v) \<notin> {CHR '','', CHR '']'', CHR ''}''}"
  proof (cases v)
    case (JNum t)
    then obtain c t' where "t = c # t'" "is_num_char c" using assms by (cases t) auto
    then show ?thesis using JNum by (auto simp: is_num_char_def is_digit_def Let_def)
  qed (auto simp: quote_def)
  then show "print v \<noteq> []" "hd (print v) \<notin> {CHR '','', CHR '']'', CHR ''}''}" by auto
qed

lemma num_prefix:
  assumes "list_all is_num_char s" "list_all is_num_char t" "s @ u = t @ v" "stops u" "stops v"
  shows "s = t \<and> u = v"
proof -
  have st: "takeWhile is_num_char (r @ w) = r" if "list_all is_num_char r" "stops w" for r w
  proof -
    have "takeWhile is_num_char w = []"
      using that(2) by (cases w) (auto simp: stops_def is_num_char_def is_digit_def Let_def)
    then show ?thesis using that(1) by (simp add: takeWhile_append2 list_all_iff)
  qed
  have "s = t" using st assms by metis
  then show ?thesis using assms(3) by simp
qed

text \<open>The first character tells the kind of a tree; a number text starts with none of the others.\<close>

lemma num_first:
  assumes "t \<noteq> []" "list_all is_num_char t"
  shows "t @ u = c # w \<Longrightarrow> is_num_char c" "c # w = t @ u \<Longrightarrow> is_num_char c"
  using assms by (cases t; auto)+

lemma not_num_chars [simp]: "\<not> is_num_char (CHR ''n'')" "\<not> is_num_char (CHR ''t'')" "\<not> is_num_char (CHR ''f'')"
  "\<not> is_num_char (CHR 0x22)" "\<not> is_num_char (CHR ''['')" "\<not> is_num_char (CHR ''{'')"
  by (simp_all add: is_num_char_def is_digit_def Let_def)

definition text_kind :: "json \<Rightarrow> char" where
  "text_kind v = (case v of JNum _ \<Rightarrow> CHR ''0'' | _ \<Rightarrow> hd (print v))"

lemma kind_of_text:
  assumes "wf_json a" "wf_json b" "print a @ u = print b @ v"
  shows "text_kind a = text_kind b"
proof -
  obtain c w where c: "print a @ u = c # w" "c = hd (print a)"
    using print_first(1) [OF assms(1)] by (cases "print a") auto
  obtain d w' where d: "print b @ v = d # w'" "d = hd (print b)"
    using print_first(1) [OF assms(2)] by (cases "print b") auto
  have cd: "c = d" using c d assms(3) by simp
  have nonnum: "\<not> is_num_char (hd (print x))" if "\<forall>t. x \<noteq> JNum t" for x
    using that by (cases x) (auto simp: quote_def)
  have num: "is_num_char (hd (print x))" if "x = JNum t" "wf_json x" for x t
    using that by (cases t) auto
  have "(\<exists>t. a = JNum t) \<longleftrightarrow> (\<exists>t. b = JNum t)"
    using nonnum num assms(1,2) c(2) d(2) cd by metis
  then show ?thesis using c(2) d(2) cd by (auto simp: text_kind_def split: json.splits)
qed

lemma object_join:
  assumes fields: "\<And>k w k' w' u' v'. (k, w) \<in> set kvs \<Longrightarrow> (k', w') \<in> set ls \<Longrightarrow> stops u' \<Longrightarrow> stops v' \<Longrightarrow>
      print w @ u' = print w' @ v' \<Longrightarrow> w = w' \<and> u' = v'"
    and eq: "print (JObj kvs) @ u = print (JObj ls) @ v"
  shows "kvs = ls \<and> u = v"
proof (rule join_prefix [of "CHR ''}''" kvs ls "\<lambda>(k, v). quote k @ '':'' @ print v"])
  let ?p = "\<lambda>(k, v). quote k @ '':'' @ print v"
  fix x y u' v'
  assume x: "x \<in> set kvs" "y \<in> set ls" "?p x @ u' = ?p y @ v'" "stops u'" "stops v'"
  obtain k w k' w' where p: "x = (k, w)" "y = (k', w')" by (cases x, cases y)
  have "k = k' \<and> CHR '':'' # print w @ u' = CHR '':'' # print w' @ v'"
    using quote_prefix [of k "CHR '':'' # print w @ u'" k' "CHR '':'' # print w' @ v'"] x(3) p by simp
  then show "x = y \<and> u' = v'" using fields [of k w k' w' u' v'] x p by simp
qed (use eq in \<open>auto simp: quote_def\<close>)

lemma print_prefix:
  "print a @ u = print b @ v \<Longrightarrow> stops u \<Longrightarrow> stops v \<Longrightarrow> wf_json a \<Longrightarrow> wf_json b \<Longrightarrow>
   no_undef a \<Longrightarrow> no_undef b \<Longrightarrow> a = b \<and> u = v"
proof (induction a arbitrary: b u v)
  case (JNum t)
  have "text_kind (JNum t) = text_kind b" by (rule kind_of_text [OF JNum.prems(4,5,1)])
  then obtain t' where "b = JNum t'" by (cases b) (auto simp: text_kind_def quote_def split: if_splits)
  then show ?case using JNum.prems num_prefix [of t t' u v] by simp
next
  case (JStr s)
  have "text_kind (JStr s) = text_kind b" by (rule kind_of_text [OF JStr.prems(4,5,1)])
  then obtain s' where "b = JStr s'" by (cases b) (auto simp: text_kind_def quote_def split: if_splits)
  then show ?case using JStr.prems quote_prefix [of s u s' v] by simp
next
  case (JArr xs)
  have "text_kind (JArr xs) = text_kind b" by (rule kind_of_text [OF JArr.prems(4,5,1)])
  then obtain ys where b: "b = JArr ys" by (cases b) (auto simp: text_kind_def quote_def split: if_splits)
  have "xs = ys \<and> u = v"
  proof (rule join_prefix [of "CHR '']''" xs ys print])
    show "x = y \<and> u' = v'" if "x \<in> set xs" "y \<in> set ys" "print x @ u' = print y @ v'" "stops u'" "stops v'"
      for x y u' v'
      using JArr.IH [OF that(1) that(3-5)] JArr.prems b that(1,2) by (auto simp: list_all_iff)
    show "print x \<noteq> [] \<and> hd (print x) \<noteq> CHR '']''" if "x \<in> set xs \<union> set ys" for x
      using print_first [of x] JArr.prems b that by (auto simp: list_all_iff)
  qed (use JArr.prems b in simp_all)
  then show ?case using b by simp
next
  case (JObj kvs)
  have "text_kind (JObj kvs) = text_kind b" by (rule kind_of_text [OF JObj.prems(4,5,1)])
  then obtain ls where b: "b = JObj ls" by (cases b) (auto simp: text_kind_def quote_def split: if_splits)
  have "kvs = ls \<and> u = v"
  proof (rule object_join)
    fix k w k' w' u' v'
    assume x: "(k, w) \<in> set kvs" "(k', w') \<in> set ls" "stops u'" "stops v'" "print w @ u' = print w' @ v'"
    have "wf_json w" "no_undef w" "wf_json w'" "no_undef w'"
      using JObj.prems b x(1,2) by (auto simp: list_all_iff)
    then show "w = w' \<and> u' = v'" using JObj.IH [OF x(1), of w u' w' v'] x by simp
  qed (use JObj.prems(1) b in simp)
  then show ?case using b by simp
next
  case JNull
  have "text_kind JNull = text_kind b" by (rule kind_of_text [OF JNull.prems(4,5,1)])
  then have "b = JNull" using JNull.prems(7) by (cases b) (auto simp: text_kind_def quote_def split: if_splits)
  then show ?case using JNull.prems by simp
next
  case (JBool x)
  have "text_kind (JBool x) = text_kind b" by (rule kind_of_text [OF JBool.prems(4,5,1)])
  then have "b = JBool x" by (cases b) (auto simp: text_kind_def quote_def split: if_splits)
  then show ?case using JBool.prems by (auto split: if_splits)
qed simp

text \<open>Printed trees have no undefined and are well formed.\<close>

lemma norm_no_undef: "no_undef (norm v)"
  by (induction v) (auto simp: list_all_iff)

lemma wf_norm: "wf_json v \<Longrightarrow> wf_json (norm v)"
proof (induction v)
  case (JObj kvs)
  have "distinct (map fst (own_order (present_fields norm kvs)))"
    using fields_distinct [of kvs norm] JObj.prems by (simp only: own_order_distinct wf_json.simps)
  moreover have "wf_json (norm v)" if "(k, v) \<in> set kvs" for k v
    using JObj.IH [of "(k, v)" v] JObj.prems wf_json_pair that by auto
  ultimately show ?case using JObj.prems by (auto simp: list_all_iff settable_def)
qed (auto simp: list_all_iff)

definition utf8_first :: "bytes \<Rightarrow> char \<times> bytes" where
  "utf8_first s = (if unat (hd s) < 128 then (char_of (unat (hd s)), tl s)
     else (char_of ((unat (hd s) - 192) * 64 + (unat (s ! 1) - 128)), drop 2 s))"

lemma utf8_first_char: "utf8_first (utf8_char c @ w) = (c, w)"
proof (cases "(of_char c :: nat) < 128")
  case True
  then have "unat (of_nat (of_char c) :: byte) = of_char c" by (simp add: unat_of_nat)
  then show ?thesis using True by (simp add: utf8_first_def utf8_char_def Let_def)
next
  case False
  let ?n = "of_char c :: nat"
  have "?n < 256" using nat_of_char_less_256 by simp
  then have "192 + ?n div 64 < 256" "128 + ?n mod 64 < 256" by linarith+
  then have "unat (of_nat (192 + ?n div 64) :: byte) = 192 + ?n div 64"
    "unat (of_nat (128 + ?n mod 64) :: byte) = 128 + ?n mod 64" by (simp_all only: unat_of_nat len_num1 len_num0 len_bit0 len_bit1 mod_less, simp_all)
  then show ?thesis using False by (simp add: utf8_first_def utf8_char_def Let_def del: of_nat_add)
qed

lemma encode_utf8_inj: "encode_utf8 s = encode_utf8 t \<Longrightarrow> s = t"
proof (induction s arbitrary: t)
  case Nil
  then show ?case by (cases t) (auto simp: encode_utf8_def utf8_char_def Let_def split: if_splits)
next
  case (Cons c s)
  show ?case
  proof (cases t)
    case Nil
    then show ?thesis using Cons.prems by (auto simp: encode_utf8_def utf8_char_def Let_def split: if_splits)
  next
    case (Cons d t')
    then have "utf8_char c @ encode_utf8 s = utf8_char d @ encode_utf8 t'"
      using Cons.prems by (simp add: encode_utf8_def)
    then have "(c, encode_utf8 s) = (d, encode_utf8 t')" by (metis utf8_first_char)
    then show ?thesis using Cons Cons.IH by simp
  qed
qed

lemma encode_utf8_eq_iff: "encode_utf8 s = encode_utf8 t \<longleftrightarrow> s = t"
  using encode_utf8_inj by blast

lemma print_injective:
  assumes "wf_json a" "wf_json b" "no_undef a" "no_undef b" "print a = print b"
  shows "a = b"
  using print_prefix [of a "[]" b "[]"] assms by (simp add: stops_def)

text \<open>The text of an object ends where it ends, whatever follows; so do its bytes.\<close>

lemma object_prefix:
  assumes "wf_json (JObj kvs)" "wf_json (JObj ls)" "no_undef (JObj kvs)" "no_undef (JObj ls)"
    and "print (JObj kvs) @ u = print (JObj ls) @ v"
  shows "kvs = ls \<and> u = v"
proof (rule object_join [OF _ assms(5)])
  fix k w k' w' u' v'
  assume x: "(k, w) \<in> set kvs" "(k', w') \<in> set ls" "stops u'" "stops v'" "print w @ u' = print w' @ v'"
  have "wf_json w" "no_undef w" "wf_json w'" "no_undef w'"
    using assms(1-4) x(1,2) by (auto simp: list_all_iff)
  then show "w = w' \<and> u' = v'" using print_prefix x by blast
qed

lemma encode_utf8_prefix:
  "encode_utf8 s @ u = encode_utf8 t @ v \<Longrightarrow> \<exists>w. (s = t @ w \<and> v = encode_utf8 w @ u) \<or> (t = s @ w \<and> u = encode_utf8 w @ v)"
proof (induction s arbitrary: t)
  case Nil
  then have "t = [] @ t \<and> u = encode_utf8 t @ v" by (simp add: encode_utf8_def)
  then show ?case by blast
next
  case (Cons c s)
  show ?case
  proof (cases t)
    case Nil
    then show ?thesis using Cons.prems by (simp add: encode_utf8_def)
  next
    case (Cons d t')
    then have "utf8_char c @ (encode_utf8 s @ u) = utf8_char d @ (encode_utf8 t' @ v)"
      using Cons.prems by (simp add: encode_utf8_def)
    then have "(c, encode_utf8 s @ u) = (d, encode_utf8 t' @ v)" by (metis utf8_first_char)
    then show ?thesis using Cons Cons.IH [of t'] by simp
  qed
qed

lemma object_text_prefix:
  assumes wf: "wf_json (JObj ks)" "wf_json (JObj ls)" "no_undef (JObj ks)" "no_undef (JObj ls)"
    and eq: "encode_utf8 (print (JObj ks)) @ u = encode_utf8 (print (JObj ls)) @ v"
  shows "ks = ls \<and> u = v"
proof -
  obtain w where "(print (JObj ks) = print (JObj ls) @ w \<and> v = encode_utf8 w @ u) \<or>
      (print (JObj ls) = print (JObj ks) @ w \<and> u = encode_utf8 w @ v)"
    using encode_utf8_prefix [OF eq] by blast
  then show ?thesis
  proof
    assume "print (JObj ks) = print (JObj ls) @ w \<and> v = encode_utf8 w @ u"
    then show ?thesis using object_prefix [OF wf, of "[]" w] by (simp add: encode_utf8_def del: print.simps)
  next
    assume "print (JObj ls) = print (JObj ks) @ w \<and> u = encode_utf8 w @ v"
    then show ?thesis using object_prefix [OF wf, of w "[]"] by (simp add: encode_utf8_def del: print.simps)
  qed
qed

lemma canonicalBytes_prefix:
  assumes wf: "wf_json (JObj kvs)" "wf_json (JObj ls)"
    and eq: "canonicalBytes (JObj kvs) @ u = canonicalBytes (JObj ls) @ v"
  shows "meaning (JObj kvs) = meaning (JObj ls) \<and> u = v"
proof -
  let ?n = "\<lambda>v. norm (canonicalize v)"
  obtain ks' ls' where obj: "?n (JObj kvs) = JObj ks'" "?n (JObj ls) = JObj ls'" by simp
  have wf': "wf_json (JObj ks')" "wf_json (JObj ls')" "no_undef (JObj ks')" "no_undef (JObj ls')"
    unfolding obj [symmetric] by (intro wf_norm wf_canonicalize wf norm_no_undef)+
  have "encode_utf8 (print (JObj ks')) @ u = encode_utf8 (print (JObj ls')) @ v"
    using eq unfolding obj [symmetric] by (simp only: canonicalBytes_def stringify_print json.distinct if_False)
  from object_text_prefix [OF wf' this] have same: "ks' = ls' \<and> u = v" .
  have "meaning (?n (JObj kvs)) = meaning (JObj kvs)" "meaning (?n (JObj ls)) = meaning (JObj ls)"
    by (simp_all only: meaning_norm meaning_canonicalize wf_canonicalize wf)
  then show ?thesis using obj same by simp
qed

text \<open>The same for the JSON text of an object as it is written, in no particular order.\<close>

lemma canonicalBytes_text_prefix:
  assumes wf: "wf_json (JObj kvs)" "wf_json (JObj ls)"
    and eq: "canonicalBytes (JObj kvs) @ u = encode_utf8 (stringify (JObj ls)) @ v"
  shows "meaning (JObj kvs) = meaning (JObj ls) \<and> u = v"
proof -
  obtain ks' ls' where obj: "norm (canonicalize (JObj kvs)) = JObj ks'" "norm (JObj ls) = JObj ls'" by simp
  have wf': "wf_json (JObj ks')" "wf_json (JObj ls')" "no_undef (JObj ks')" "no_undef (JObj ls')"
    unfolding obj [symmetric] by (intro wf_norm wf_canonicalize wf norm_no_undef)+
  have "encode_utf8 (print (JObj ks')) @ u = encode_utf8 (print (JObj ls')) @ v"
    using eq unfolding obj [symmetric] by (simp only: canonicalBytes_def stringify_print json.distinct if_False)
  from object_text_prefix [OF wf' this] have same: "ks' = ls' \<and> u = v" .
  have "meaning (norm (canonicalize (JObj kvs))) = meaning (JObj kvs)" "meaning (norm (JObj ls)) = meaning (JObj ls)"
    by (simp_all only: meaning_norm meaning_canonicalize wf_canonicalize wf)
  then show ?thesis using obj same by simp
qed

lemma canonicalBytes_eq_iff:
  assumes "wf_json a" "wf_json b" "a \<noteq> JUndef" "b \<noteq> JUndef"
  shows "canonicalBytes a = canonicalBytes b \<longleftrightarrow> meaning a = meaning b"
proof
  assume "canonicalBytes a = canonicalBytes b"
  then have "print (norm (canonicalize a)) = print (norm (canonicalize b))"
    using assms(3,4) by (simp add: canonicalBytes_def encode_utf8_eq_iff stringify_print)
  then have "norm (canonicalize a) = norm (canonicalize b)"
    using assms by (intro print_injective wf_norm wf_canonicalize norm_no_undef)
  then show "meaning a = meaning b"
    using assms by (metis meaning_norm meaning_canonicalize wf_canonicalize)
next
  assume "meaning a = meaning b"
  then show "canonicalBytes a = canonicalBytes b"
    using same_meaning_same_form [OF assms(1,2)] assms(3,4) by (simp add: canonicalBytes_def stringify_print)
qed

text \<open>
  C36. The bytes that are signed determine the value that is signed, and nothing but the value
  determines them: two well-formed trees have the same canonical bytes exactly when they mean
  the same value (undefined itself aside), whatever the order in which the properties of their objects were created,
  and with undefined properties read as absent ones.
\<close>

theorem canonicalBytes_identify_value:
  assumes "wf_json a" "wf_json b" "a \<noteq> JUndef" "b \<noteq> JUndef"
  shows "canonicalBytes a = canonicalBytes b \<longleftrightarrow> meaning a = meaning b"
  using canonicalBytes_eq_iff [OF assms] .

definition signed_fields :: "(string \<times> json) list" where
  "signed_fields = [(''ts'', JNum ''12''), (''to'', JStr ''b''), (''from'', JUndef), (''10'', JArr [JUndef, JBool True])]"

theorem canonicalBytes_identify_value_witness:
  "canonicalBytes (JObj signed_fields) = canonicalBytes (JObj (rev signed_fields))
   \<and> meaning (JObj signed_fields) = meaning (JObj (rev signed_fields))"
proof -
  have wf: "wf_json (JObj signed_fields)" "wf_json (JObj (rev signed_fields))"
    by (simp_all add: signed_fields_def settable_def is_num_char_def is_digit_def)
  have "meaning (JObj signed_fields) = meaning (JObj (rev signed_fields))"
    by (simp add: signed_fields_def present_def fun_upd_twist)
  then show ?thesis using canonicalBytes_identify_value [OF wf] by simp
qed

text \<open>
  A property named \<open>__proto__\<close> leaves no trace in the canonical bytes: an object with
  such a property, as the parser of the language makes it, has the bytes of the object without it,
  so a signature over the one is a signature over the other.
\<close>

theorem proto_property_not_signed:
  "canonicalBytes (JObj (us @ (''__proto__'', v) # ws)) = canonicalBytes (JObj (us @ ws))"
  by (simp add: canonicalBytes_def settable_def)

end
