(* ===== verification/Json_Value.thy ===== *)
theory Json_Value
  imports Canonical_Json Complex_Main
begin

text \<open>
  How the program reads the JSON values it receives: properties, truthiness, the nullish
  operator, numbers and object spreads, as the language defines them. A finite number is the
  rational its text denotes.
\<close>

definition field :: "json \<Rightarrow> string \<Rightarrow> json" where
  "field v k = (case v of JObj kvs \<Rightarrow> (case map_of kvs k of Some w \<Rightarrow> w | None \<Rightarrow> JUndef) | _ \<Rightarrow> JUndef)"

fun truthy :: "json \<Rightarrow> bool" where
  "truthy JNull = False"
| "truthy JUndef = False"
| "truthy (JBool b) = b"
| "truthy (JNum t) = (t \<noteq> ''0'')"
| "truthy (JStr s) = (s \<noteq> [])"
| "truthy (JArr _) = True"
| "truthy (JObj _) = True"

fun is_object :: "json \<Rightarrow> bool" where
  "is_object (JArr _) = True"
| "is_object (JObj _) = True"
| "is_object _ = False"

fun str_of :: "json \<Rightarrow> string option" where
  "str_of (JStr s) = Some s"
| "str_of _ = None"

text \<open>The operator \<open>??\<close>.\<close>

definition nn :: "json \<Rightarrow> json \<Rightarrow> json" where
  "nn v w = (if v = JUndef \<or> v = JNull then w else v)"

text \<open>The fields of an object written over the fields it spreads.\<close>

fun with_field :: "(string \<times> json) list \<Rightarrow> string \<Rightarrow> json \<Rightarrow> (string \<times> json) list" where
  "with_field [] k v = [(k, v)]"
| "with_field ((l, w) # kvs) k v = (if l = k then (k, v) # kvs else (l, w) # with_field kvs k v)"

definition spread :: "json \<Rightarrow> (string \<times> json) list \<Rightarrow> json" where
  "spread v upd = JObj (foldl (\<lambda>kvs (k, w). with_field kvs k w) (case v of JObj kvs \<Rightarrow> kvs | _ \<Rightarrow> []) upd)"

subsection \<open>Numbers\<close>

definition exponent_value :: "string \<Rightarrow> rat" where
  "exponent_value e = (if e = [] then 1
     else if hd e = CHR ''-'' then 1 / 10 ^ index_value (tl e)
     else if hd e = CHR ''+'' then 10 ^ index_value (tl e) else 10 ^ index_value e)"

definition num_value :: "string \<Rightarrow> rat" where
  "num_value t = (let
       neg = (t \<noteq> [] \<and> hd t = CHR ''-'');
       r = (if neg then tl t else t);
       mant = takeWhile (\<lambda>c. c \<noteq> CHR ''e'') r;
       whole = takeWhile (\<lambda>c. c \<noteq> CHR ''.'') mant;
       frac = drop (Suc (length whole)) mant;
       m = of_nat (index_value (whole @ frac)) / 10 ^ length frac * exponent_value (drop (Suc (length mant)) r)
     in if neg then - m else m)"

text \<open>\<open>Number.isFinite\<close>, with the number.\<close>

fun finite_num :: "json \<Rightarrow> rat option" where
  "finite_num (JNum t) = Some (num_value t)"
| "finite_num _ = None"

definition to_jsnum :: "rat \<Rightarrow> jsnum" where
  "to_jsnum q = (if of_int \<lfloor>q\<rfloor> = q then IntN \<lfloor>q\<rfloor> else FracN \<lfloor>q\<rfloor>)"

definition is_int_num :: "json \<Rightarrow> bool" where
  "is_int_num v = (case finite_num v of Some q \<Rightarrow> of_int \<lfloor>q\<rfloor> = q | None \<Rightarrow> False)"

text \<open>The integer part; 0 where there is no number.\<close>

definition num_floor :: "json \<Rightarrow> int" where
  "num_floor v = (case finite_num v of Some q \<Rightarrow> \<lfloor>q\<rfloor> | None \<Rightarrow> 0)"

text \<open>The text of an integer.\<close>

fun nat_text :: "nat \<Rightarrow> string" where
  "nat_text n = (if n < 10 then [char_of (48 + n)] else nat_text (n div 10) @ [char_of (48 + n mod 10)])"

declare nat_text.simps [simp del]

definition int_num :: "int \<Rightarrow> json" where
  "int_num i = JNum (if i < 0 then CHR ''-'' # nat_text (nat (- i)) else nat_text (nat i))"

subsection \<open>Reading what was written\<close>

named_theorems json_simps \<open>reading properties of objects\<close>

lemma field_obj [json_simps]: "field (JObj kvs) k = (case map_of kvs k of Some w \<Rightarrow> w | None \<Rightarrow> JUndef)"
  by (simp add: field_def)

lemma field_Nil [simp]: "field (JObj []) k = JUndef"
  by (simp add: field_def)

lemma field_Cons [simp]: "field (JObj ((l, w) # kvs)) k = (if k = l then w else field (JObj kvs) k)"
  by (simp add: field_def)

lemma field_no_object [simp]:
  "field JUndef k = JUndef" "field JNull k = JUndef" "field (JBool b) k = JUndef" "field (JNum t) k = JUndef"
  "field (JStr s) k = JUndef" "field (JArr xs) k = JUndef"
  by (simp_all add: field_def)

lemma map_of_with_field: "map_of (with_field kvs k v) l = (if l = k then Some v else map_of kvs l)"
  by (induction kvs k v rule: with_field.induct) auto

lemma field_with_field [simp]: "field (JObj (with_field kvs k v)) l = (if l = k then v else field (JObj kvs) l)"
  by (simp add: field_def map_of_with_field)

lemma spread_Nil [simp]: "spread (JObj kvs) [] = JObj kvs"
  by (simp add: spread_def)

lemma spread_Cons [simp]: "spread (JObj kvs) ((k, w) # upd) = spread (JObj (with_field kvs k w)) upd"
  by (simp add: spread_def)

text \<open>What a spread says of a property: the last field written under its name, else the old one.\<close>

lemma field_spread:
  "field (spread v upd) l = (case map_of (rev upd) l of Some w \<Rightarrow> w | None \<Rightarrow> field v l)"
proof -
  have "field (JObj (foldl (\<lambda>kvs (k, w). with_field kvs k w) kvs upd)) l =
      (case map_of (rev upd) l of Some w \<Rightarrow> w | None \<Rightarrow> field (JObj kvs) l)" for kvs
  proof (induction upd arbitrary: kvs)
    case (Cons p upd)
    obtain k w where p: "p = (k, w)" by (cases p)
    have "map_of (rev upd @ [(k, w)]) l = (case map_of (rev upd) l of Some x \<Rightarrow> Some x | None \<Rightarrow> map_of [(k, w)] l)"
      by (simp add: map_add_def split: option.splits)
    then show ?case using Cons.IH [of "with_field kvs k w"] p by (simp split: option.splits)
  qed simp
  then show ?thesis unfolding spread_def by (cases v) (simp_all split: option.splits)
qed

lemma nn_simps [simp]: "nn JUndef w = w" "nn JNull w = w" "nn (JStr s) w = JStr s" "nn (JNum t) w = JNum t"
  "nn (JBool b) w = JBool b" "nn (JArr xs) w = JArr xs" "nn (JObj kvs) w = JObj kvs"
  by (simp_all add: nn_def)

subsection \<open>Values that mean the same\<close>

lemma map_of_fields:
  "distinct (map fst kvs) \<Longrightarrow> map_of (present_fields meaning kvs) k =
     (if field (JObj kvs) k = JUndef then None else Some (meaning (field (JObj kvs) k)))"
proof (induction kvs)
  case (Cons p kvs)
  obtain l w where p: "p = (l, w)" by (cases p)
  have "field (JObj kvs) l = JUndef" if "l \<notin> fst ` set kvs"
  proof -
    have "map_of kvs l = None" using that by (simp add: map_of_eq_None_iff)
    then show ?thesis by (simp add: field_def)
  qed
  then show ?case using Cons p by (auto simp: present_def)
qed simp

lemma wf_field: "wf_json v \<Longrightarrow> wf_json (field v k)"
  by (cases v) (auto simp: field_def split: option.split dest!: map_of_SomeD simp: list_all_iff)

lemma field_meaning:
  assumes "wf_json a" "wf_json b" "meaning a = meaning b"
  shows "meaning (field a k) = meaning (field b k)"
proof (cases a)
  case (JObj kvs)
  with assms(3) obtain ls where b: "b = JObj ls" by (cases b) auto
  have "distinct (map fst kvs)" "distinct (map fst ls)" using assms(1,2) JObj b by simp_all
  moreover have "map_of (present_fields meaning kvs) k = map_of (present_fields meaning ls) k"
    using assms(3) JObj b by simp
  ultimately show ?thesis using JObj b by (auto simp: map_of_fields split: if_splits)
next
  case JNull then show ?thesis using assms(3) by (cases b) auto
next
  case JUndef then show ?thesis using assms(3) by (cases b) auto
next
  case JBool then show ?thesis using assms(3) by (cases b) auto
next
  case JNum then show ?thesis using assms(3) by (cases b) auto
next
  case JStr then show ?thesis using assms(3) by (cases b) auto
next
  case JArr then show ?thesis using assms(3) by (cases b) auto
qed

lemma meaning_truthy: "meaning a = meaning b \<Longrightarrow> truthy a = truthy b"
  by (cases a; cases b) auto

lemma meaning_finite: "meaning a = meaning b \<Longrightarrow> finite_num a = finite_num b"
  by (cases a; cases b) auto

lemma meaning_string: "meaning (JStr s) = meaning v \<Longrightarrow> v = JStr s"
  by (cases v) auto

subsection \<open>Objects with a field set are well formed\<close>

lemma with_field_keys: "l \<in> fst ` set (with_field kvs k v) \<Longrightarrow> l = k \<or> l \<in> fst ` set kvs"
  by (induction kvs k v rule: with_field.induct) (auto split: if_splits)

lemma wf_with_field:
  "wf_json (JObj kvs) \<Longrightarrow> k \<noteq> ''__proto__'' \<Longrightarrow> wf_json v \<Longrightarrow> wf_json (JObj (with_field kvs k v))"
proof -
  assume a: "wf_json (JObj kvs)" "k \<noteq> ''__proto__''" "wf_json v"
  show ?thesis using a
  proof (induction kvs k v rule: with_field.induct)
    case (2 l w kvs k v)
    have new: "(l, b) \<notin> set (with_field kvs k v)" if "l \<noteq> k" for b
    proof
      assume "(l, b) \<in> set (with_field kvs k v)"
      from with_field_keys [OF imageI [OF this, of fst, simplified fst_conv]] show False using 2(2) that by auto
    qed
    show ?case using 2 new by (auto simp: settable_def)
  qed (simp add: settable_def)
qed

lemma wf_spread:
  "wf_json v \<Longrightarrow> is_object v \<Longrightarrow> list_all (\<lambda>(k, w). k \<noteq> ''__proto__'' \<and> wf_json w) upd \<Longrightarrow> wf_json (spread v upd)"
proof -
  have "wf_json (JObj kvs) \<Longrightarrow> list_all (\<lambda>(k, w). k \<noteq> ''__proto__'' \<and> wf_json w) upd \<Longrightarrow>
      wf_json (JObj (foldl (\<lambda>kvs (k, w). with_field kvs k w) kvs upd))" for kvs
  proof (induction upd arbitrary: kvs)
    case (Cons p upd)
    obtain k w where p: "p = (k, w)" by (cases p)
    have "wf_json (JObj (with_field kvs k w))" using Cons.prems p by (intro wf_with_field) auto
    then show ?case using Cons p by simp
  qed simp
  then show "wf_json v \<Longrightarrow> is_object v \<Longrightarrow> list_all (\<lambda>(k, w). k \<noteq> ''__proto__'' \<and> wf_json w) upd \<Longrightarrow> wf_json (spread v upd)"
    by (cases v) (auto simp: spread_def)
qed

end
