(* ===== verification/Envelope_Box.thy ===== *)
theory Envelope_Box
  imports Ratchet Json_Value
begin

text \<open>
  Signed and encrypted envelopes (src/src/crypto/box.ts). The functions of libsodium, and the
  language's JSON parser and text decoder, are the fields of a record; an operation of theirs that
  throws returns no value. The random nonce is an argument of the operation that draws it. An
  envelope, and its header, are the JSON values that were parsed or built.
\<close>

record platform =
  pf_scalarmult :: "bytes \<Rightarrow> bytes \<Rightarrow> bytes option"
  pf_generichash :: "nat \<Rightarrow> bytes \<Rightarrow> bytes"
  pf_aead_encrypt :: "bytes \<Rightarrow> bytes \<Rightarrow> bytes \<Rightarrow> bytes \<Rightarrow> bytes"
  pf_aead_decrypt :: "bytes \<Rightarrow> bytes \<Rightarrow> bytes \<Rightarrow> bytes \<Rightarrow> bytes option"
  pf_sign :: "bytes \<Rightarrow> bytes \<Rightarrow> bytes"
  pf_verify :: "bytes \<Rightarrow> bytes \<Rightarrow> bytes \<Rightarrow> bool option"
  pf_to_base64 :: "bytes \<Rightarrow> string"
  pf_from_base64 :: "string \<Rightarrow> bytes option"
  pf_json_parse :: "string \<Rightarrow> json option"
  pf_text_decode :: "bytes \<Rightarrow> string"

datatype box_error = SignatureFailed | LibraryThrew

subsection \<open>Conversation keys\<close>

definition conversationKeyDomain :: bytes where
  "conversationKeyDomain = encode_utf8 ''nkc-conv-v1''"

definition psk_chunk :: "bytes option \<Rightarrow> bytes" where
  "psk_chunk psk = (case psk of Some bs \<Rightarrow> if bs \<noteq> [] then bs else [] | None \<Rightarrow> [])"

definition deriveConversationKey ::
    "platform \<Rightarrow> bytes \<Rightarrow> bytes \<Rightarrow> bytes option \<Rightarrow> bytes option \<Rightarrow> bytes option" where
  "deriveConversationKey pf myDhPriv theirDhPub pskBytes contextBytes =
     (case pf_scalarmult pf myDhPriv theirDhPub of
        None \<Rightarrow> None
      | Some shared \<Rightarrow> Some (pf_generichash pf 32 (concatBytes
          [conversationKeyDomain, shared, psk_chunk pskBytes, nullish contextBytes []])))"

definition deriveConversationKeyPair ::
    "platform \<Rightarrow> bytes \<Rightarrow> bytes \<Rightarrow> bytes option \<Rightarrow> bytes \<Rightarrow> bytes \<Rightarrow> (bytes \<times> bytes) option" where
  "deriveConversationKeyPair pf myDhPriv theirDhPub pskBytes legacyContextBytes ratchetContextBytes =
     (case pf_scalarmult pf myDhPriv theirDhPub of
        None \<Rightarrow> None
      | Some shared \<Rightarrow>
          let derive = (\<lambda>contextBytes. pf_generichash pf 32 (concatBytes
            [conversationKeyDomain, shared, psk_chunk pskBytes, contextBytes]))
          in Some (derive legacyContextBytes, derive ratchetContextBytes))"

subsection \<open>Envelopes\<close>

definition encryptEnvelope :: "platform \<Rightarrow> bytes \<Rightarrow> json \<Rightarrow> json \<Rightarrow> bytes \<Rightarrow> bytes \<Rightarrow> json" where
  "encryptEnvelope pf key headerObj plaintextObj myIdentityPriv nonce =
     (let headerBytes = canonicalBytes headerObj;
          plainBytes = canonicalBytes plaintextObj;
          ciphertext = pf_aead_encrypt pf plainBytes headerBytes nonce key;
          sig = pf_sign pf (concatBytes [headerBytes, nonce, ciphertext]) myIdentityPriv
      in JObj [(''header'', headerObj), (''ciphertext'', JStr (pf_to_base64 pf ciphertext)),
               (''nonce'', JStr (pf_to_base64 pf nonce)), (''sig'', JStr (pf_to_base64 pf sig))])"

text \<open>The base64 reader of the library throws on what is no string.\<close>

definition fromB64 :: "platform \<Rightarrow> json \<Rightarrow> bytes option" where
  "fromB64 pf v = (case str_of v of Some s \<Rightarrow> pf_from_base64 pf s | None \<Rightarrow> None)"

definition verifyEnvelopeSignature :: "platform \<Rightarrow> json \<Rightarrow> bytes \<Rightarrow> bool option" where
  "verifyEnvelopeSignature pf envelope theirIdentityPub =
     (let headerBytes = canonicalBytes (field envelope ''header'') in
      case fromB64 pf (field envelope ''nonce'') of None \<Rightarrow> None | Some nonce \<Rightarrow>
      (case fromB64 pf (field envelope ''ciphertext'') of None \<Rightarrow> None | Some ciphertext \<Rightarrow>
      (case fromB64 pf (field envelope ''sig'') of None \<Rightarrow> None | Some sig \<Rightarrow>
       pf_verify pf sig (concatBytes [headerBytes, nonce, ciphertext]) theirIdentityPub)))"

definition decryptEnvelope :: "platform \<Rightarrow> bytes \<Rightarrow> json \<Rightarrow> bytes \<Rightarrow> box_error + json" where
  "decryptEnvelope pf key envelope theirIdentityPub =
     (let headerBytes = canonicalBytes (field envelope ''header'') in
      case fromB64 pf (field envelope ''nonce'') of None \<Rightarrow> Inl LibraryThrew | Some nonce \<Rightarrow>
      (case fromB64 pf (field envelope ''ciphertext'') of None \<Rightarrow> Inl LibraryThrew | Some ciphertext \<Rightarrow>
      (case fromB64 pf (field envelope ''sig'') of None \<Rightarrow> Inl LibraryThrew | Some sig \<Rightarrow>
      (case pf_verify pf sig (concatBytes [headerBytes, nonce, ciphertext]) theirIdentityPub of
         None \<Rightarrow> Inl LibraryThrew
       | Some ok \<Rightarrow>
         if \<not> ok then Inl SignatureFailed
         else (case pf_aead_decrypt pf ciphertext headerBytes nonce key of
             None \<Rightarrow> Inl LibraryThrew
           | Some plain \<Rightarrow>
             (case pf_json_parse pf (pf_text_decode pf plain) of
                None \<Rightarrow> Inl LibraryThrew
              | Some body \<Rightarrow> Inr body))))))"

definition computeEnvelopeHash :: "platform \<Rightarrow> json \<Rightarrow> string option" where
  "computeEnvelopeHash pf envelope =
     (let headerBytes = canonicalBytes (field envelope ''header'') in
      case fromB64 pf (field envelope ''nonce'') of None \<Rightarrow> None | Some nonce \<Rightarrow>
      (case fromB64 pf (field envelope ''ciphertext'') of None \<Rightarrow> None | Some ciphertext \<Rightarrow>
       Some (encodeBase64Url (pf_generichash pf 32 (concatBytes [headerBytes, nonce, ciphertext])))))"

subsection \<open>What the operations promise\<close>

lemma keyPair_derives:
  "deriveConversationKeyPair pf priv pub psk lc rc =
   (case (deriveConversationKey pf priv pub psk (Some lc), deriveConversationKey pf priv pub psk (Some rc)) of
      (Some a, Some b) \<Rightarrow> Some (a, b) | _ \<Rightarrow> None)"
  by (simp add: deriveConversationKeyPair_def deriveConversationKey_def split: option.splits)

lemma fromB64_written:
  "pf_from_base64 pf (pf_to_base64 pf bs) = Some bs \<Longrightarrow> fromB64 pf (JStr (pf_to_base64 pf bs)) = Some bs"
  by (simp add: fromB64_def)

lemma signed_bytes: "concatBytes [h, n, c] = h @ n @ c"
  by simp


lemma sealed_opens:
  assumes "\<forall>bs. pf_from_base64 pf (pf_to_base64 pf bs) = Some bs"
    and "\<forall>p a n k. pf_aead_decrypt pf (pf_aead_encrypt pf p a n k) a n k = Some p"
    and "\<forall>m. pf_verify pf (pf_sign pf m priv) m pub = Some True"
    and "\<forall>s. pf_text_decode pf (encode_utf8 s) = s"
    and "pf_json_parse pf (stringify (canonicalize body)) = Some w" "body \<noteq> JUndef"
  shows "decryptEnvelope pf key (encryptEnvelope pf key header body priv nonce) pub = Inr w"
    "verifyEnvelopeSignature pf (encryptEnvelope pf key header body priv nonce) pub = Some True"
  using assms
  by (simp_all add: decryptEnvelope_def verifyEnvelopeSignature_def encryptEnvelope_def Let_def fromB64_written
      canonicalBytes_def [of body])

text \<open>
  C37. An envelope that was sealed opens: with the key it was sealed with and the identity key that
  belongs to the signing key, \<open>decryptEnvelope\<close> verifies it and returns what the parser makes
  of the canonical text of the body, and \<open>verifyEnvelopeSignature\<close> accepts it.
\<close>

theorem sealed_envelope_opens:
  assumes b64: "\<forall>bs. pf_from_base64 pf (pf_to_base64 pf bs) = Some bs"
    and aead: "\<forall>p a n k. pf_aead_decrypt pf (pf_aead_encrypt pf p a n k) a n k = Some p"
    and sign: "\<forall>m. pf_verify pf (pf_sign pf m priv) m pub = Some True"
    and decode: "\<forall>s. pf_text_decode pf (encode_utf8 s) = s"
    and parse: "pf_json_parse pf (stringify (canonicalize body)) = Some w" and body: "body \<noteq> JUndef"
  shows "decryptEnvelope pf key (encryptEnvelope pf key header body priv nonce) pub = Inr w \<and>
    verifyEnvelopeSignature pf (encryptEnvelope pf key header body priv nonce) pub = Some True"
  using sealed_opens [OF assms] by blast


subsection \<open>Concrete inputs\<close>

text \<open>A platform that hides nothing: the signature is the message with the key before it, the
  ciphertext the plaintext, and base64 one character for a byte.\<close>

definition open_platform :: platform where
  "open_platform = \<lparr>pf_scalarmult = (\<lambda>a b. Some (map2 (*) a b)), pf_generichash = (\<lambda>n m. take n m),
     pf_aead_encrypt = (\<lambda>p a n k. p), pf_aead_decrypt = (\<lambda>c a n k. Some c),
     pf_sign = (\<lambda>m k. k @ m), pf_verify = (\<lambda>s m k. Some (s = k @ m)),
     pf_to_base64 = map (\<lambda>b. char_of (unat b)), pf_from_base64 = (\<lambda>s. Some (map (\<lambda>c. of_nat (of_char c)) s)),
     pf_json_parse = (\<lambda>s. if s = ''null'' then Some JNull else if s = ''true'' then Some (JBool True) else None),
     pf_text_decode = map (\<lambda>b. char_of (unat b))\<rparr>"

fun utf8_text :: "bytes \<Rightarrow> string" where
  "utf8_text [] = []"
| "utf8_text [a] = [char_of (unat a)]"
| "utf8_text (a # b # bs) = (if unat a < 128 then char_of (unat a) # utf8_text (b # bs)
     else char_of ((unat a - 192) * 64 + (unat b - 128)) # utf8_text bs)"

lemma utf8_text_char: "utf8_text (utf8_char c @ w) = c # utf8_text w"
proof (cases "(of_char c :: nat) < 128")
  case True
  then have "unat (of_nat (of_char c) :: byte) = of_char c" by (simp add: unat_of_nat)
  then show ?thesis using True by (cases w) (simp_all add: utf8_char_def Let_def)
next
  case False
  then obtain a b where ab: "utf8_char c = [a, b]" by (simp add: utf8_char_def Let_def)
  then have "utf8_first ([a, b] @ w) = (c, w)" using utf8_first_char [of c w] by simp
  then show ?thesis using ab by (auto simp: utf8_first_def split: if_splits)
qed

lemma utf8_text_encode: "utf8_text (encode_utf8 s) = s"
  by (induction s) (simp_all add: encode_utf8_def utf8_text_char)

theorem sealed_envelope_opens_witness:
  "decryptEnvelope (open_platform\<lparr>pf_text_decode := utf8_text\<rparr>) [1]
     (encryptEnvelope (open_platform\<lparr>pf_text_decode := utf8_text\<rparr>) [1]
        (JObj [(''v'', JNum ''1'')]) (JBool True) [7] [9]) [7] = Inr (JBool True)"
proof -
  let ?pf = "open_platform\<lparr>pf_text_decode := utf8_text\<rparr>"
  have "\<forall>bs. pf_from_base64 ?pf (pf_to_base64 ?pf bs) = Some bs"
    by (simp add: open_platform_def comp_def)
  moreover have "\<forall>p a n k. pf_aead_decrypt ?pf (pf_aead_encrypt ?pf p a n k) a n k = Some p"
    "\<forall>m. pf_verify ?pf (pf_sign ?pf m [7]) m [7] = Some True"
    by (simp_all add: open_platform_def)
  moreover have "\<forall>s. pf_text_decode ?pf (encode_utf8 s) = s" by (simp add: utf8_text_encode)
  moreover have "pf_json_parse ?pf (stringify (canonicalize (JBool True))) = Some (JBool True)"
    by (simp add: open_platform_def)
  ultimately show ?thesis
    using sealed_envelope_opens [of ?pf "[7]" "[7]" "JBool True" "JBool True" "[1]" "JObj [(''v'', JNum ''1'')]" "[9]"]
    by blast
qed










end
