(* ===== verification/Sha256.thy ===== *)
theory Sha256
  imports NKC_Prelude
begin

unbundle bit_operations_syntax

text \<open>
  SHA-256 as the program computes it (src/src/security/sha256.ts): on a padded byte buffer, with the
  schedule and the eight working variables of each block. The bitwise operations of the language
  give 32 bits, signed or not, and the additions are reduced to 32 bits, so all of them are
  operations on 32-bit words. A message has fewer than $2^{31}$ bytes, as a typed array does.
\<close>

type_synonym word32 = "32 word"

subsection \<open>The code\<close>

definition sha_K :: "word32 list" where
  "sha_K =
    [0x428a2f98, 0x71374491, 0xb5c0fbcf, 0xe9b5dba5, 0x3956c25b, 0x59f111f1, 0x923f82a4,
     0xab1c5ed5, 0xd807aa98, 0x12835b01, 0x243185be, 0x550c7dc3, 0x72be5d74, 0x80deb1fe,
     0x9bdc06a7, 0xc19bf174, 0xe49b69c1, 0xefbe4786, 0x0fc19dc6, 0x240ca1cc, 0x2de92c6f,
     0x4a7484aa, 0x5cb0a9dc, 0x76f988da, 0x983e5152, 0xa831c66d, 0xb00327c8, 0xbf597fc7,
     0xc6e00bf3, 0xd5a79147, 0x06ca6351, 0x14292967, 0x27b70a85, 0x2e1b2138, 0x4d2c6dfc,
     0x53380d13, 0x650a7354, 0x766a0abb, 0x81c2c92e, 0x92722c85, 0xa2bfe8a1, 0xa81a664b,
     0xc24b8b70, 0xc76c51a3, 0xd192e819, 0xd6990624, 0xf40e3585, 0x106aa070, 0x19a4c116,
     0x1e376c08, 0x2748774c, 0x34b0bcb5, 0x391c0cb3, 0x4ed8aa4a, 0x5b9cca4f, 0x682e6ff3,
     0x748f82ee, 0x78a5636f, 0x84c87814, 0x8cc70208, 0x90befffa, 0xa4506ceb, 0xbef9a3f7,
     0xc67178f2]"

definition rotr :: "word32 \<Rightarrow> nat \<Rightarrow> word32" where
  "rotr v n = drop_bit n v OR push_bit (32 - n) v"

text \<open>Four bytes, most significant first.\<close>

definition uint32_be :: "word32 \<Rightarrow> bytes" where
  "uint32_be v = [ucast (drop_bit 24 v AND 0xff), ucast (drop_bit 16 v AND 0xff),
     ucast (drop_bit 8 v AND 0xff), ucast (v AND 0xff)]"

text \<open>Bytes written into a buffer at an offset.\<close>

definition put_bytes :: "nat \<Rightarrow> bytes \<Rightarrow> bytes \<Rightarrow> bytes" where
  "put_bytes offset bs target = take offset target @ bs @ drop (offset + length bs) target"

definition writeUint32Be :: "bytes \<Rightarrow> nat \<Rightarrow> word32 \<Rightarrow> bytes" where
  "writeUint32Be target offset v = put_bytes offset (uint32_be v) target"

definition getUint32 :: "bytes \<Rightarrow> nat \<Rightarrow> word32" where
  "getUint32 bs i = push_bit 24 (ucast (bs ! i)) OR push_bit 16 (ucast (bs ! (i + 1))) OR
     push_bit 8 (ucast (bs ! (i + 2))) OR ucast (bs ! (i + 3))"

definition sha_padded :: "bytes \<Rightarrow> bytes" where
  "sha_padded message = (let
       bitLengthHi = (of_nat (length message * 8 div 2 ^ 32) :: word32);
       bitLengthLo = (of_nat (length message * 8) :: word32);
       totalLength = (length message + 9 + 63) div 64 * 64;
       padded = put_bytes 0 message (replicate totalLength 0);
       padded1 = padded[length message := 0x80];
       padded2 = writeUint32Be padded1 (totalLength - 8) bitLengthHi
     in writeUint32Be padded2 (totalLength - 4) bitLengthLo)"

definition extend_schedule :: "nat \<Rightarrow> word32 list \<Rightarrow> word32 list" where
  "extend_schedule i w = (let
       s0 = rotr (w ! (i - 15)) 7 XOR rotr (w ! (i - 15)) 18 XOR drop_bit 3 (w ! (i - 15));
       s1 = rotr (w ! (i - 2)) 17 XOR rotr (w ! (i - 2)) 19 XOR drop_bit 10 (w ! (i - 2))
     in w @ [w ! (i - 16) + s0 + w ! (i - 7) + s1])"

definition sha_schedule :: "bytes \<Rightarrow> nat \<Rightarrow> word32 list" where
  "sha_schedule padded chunkOffset =
     fold extend_schedule [16..<64] (map (\<lambda>i. getUint32 padded (chunkOffset + i * 4)) [0..<16])"

record sha_vars =
  sv_a :: word32
  sv_b :: word32
  sv_c :: word32
  sv_d :: word32
  sv_e :: word32
  sv_f :: word32
  sv_g :: word32
  sv_h :: word32

definition sha_init :: sha_vars where
  "sha_init = \<lparr>sv_a = 0x6a09e667, sv_b = 0xbb67ae85, sv_c = 0x3c6ef372, sv_d = 0xa54ff53a,
     sv_e = 0x510e527f, sv_f = 0x9b05688c, sv_g = 0x1f83d9ab, sv_h = 0x5be0cd19\<rparr>"

definition sha_round :: "word32 list \<Rightarrow> nat \<Rightarrow> sha_vars \<Rightarrow> sha_vars" where
  "sha_round w i v = (let
       s1 = rotr (sv_e v) 6 XOR rotr (sv_e v) 11 XOR rotr (sv_e v) 25;
       ch = (sv_e v AND sv_f v) XOR (NOT (sv_e v) AND sv_g v);
       temp1 = sv_h v + s1 + ch + sha_K ! i + w ! i;
       s0 = rotr (sv_a v) 2 XOR rotr (sv_a v) 13 XOR rotr (sv_a v) 22;
       maj = (sv_a v AND sv_b v) XOR (sv_a v AND sv_c v) XOR (sv_b v AND sv_c v);
       temp2 = s0 + maj
     in \<lparr>sv_a = temp1 + temp2, sv_b = sv_a v, sv_c = sv_b v, sv_d = sv_c v, sv_e = sv_d v + temp1,
         sv_f = sv_e v, sv_g = sv_f v, sv_h = sv_g v\<rparr>)"

definition sha_block :: "bytes \<Rightarrow> nat \<Rightarrow> sha_vars \<Rightarrow> sha_vars" where
  "sha_block padded chunkOffset h =
     (let v = fold (sha_round (sha_schedule padded chunkOffset)) [0..<64] h
      in \<lparr>sv_a = sv_a h + sv_a v, sv_b = sv_b h + sv_b v, sv_c = sv_c h + sv_c v, sv_d = sv_d h + sv_d v,
          sv_e = sv_e h + sv_e v, sv_f = sv_f h + sv_f v, sv_g = sv_g h + sv_g v, sv_h = sv_h h + sv_h v\<rparr>)"

definition sha_output :: "sha_vars \<Rightarrow> bytes" where
  "sha_output h = fold (\<lambda>(i, v) out. writeUint32Be out (i * 4) v)
     (enumerate 0 [sv_a h, sv_b h, sv_c h, sv_d h, sv_e h, sv_f h, sv_g h, sv_h h]) (replicate 32 0)"

definition sha256 :: "bytes \<Rightarrow> bytes" where
  "sha256 message = (let padded = sha_padded message
     in sha_output (fold (sha_block padded) (map (\<lambda>i. i * 64) [0..<length padded div 64]) sha_init))"

subsection \<open>The standard\<close>

text \<open>
  The hash as FIPS 180-4 states it: rotations of words, the message followed by a one bit, zeros up
  to 56 modulo 64 bytes and its length in bits as eight bytes, the schedule by its recursion, and
  one block of 64 bytes after the other.
\<close>

definition pad_zeros :: "nat \<Rightarrow> nat" where
  "pad_zeros len = (119 - len mod 64) mod 64"

definition fips_pad :: "bytes \<Rightarrow> bytes" where
  "fips_pad m = m @ 0x80 # replicate (pad_zeros (length m)) 0 @
     map (\<lambda>j. of_nat (8 * length m div 256 ^ (7 - j))) [0..<8]"

fun fips_W :: "word32 list \<Rightarrow> nat \<Rightarrow> word32" where
  "fips_W M t =
     (if t < 16 then M ! t
      else (word_rotr 17 (fips_W M (t - 2)) XOR word_rotr 19 (fips_W M (t - 2)) XOR drop_bit 10 (fips_W M (t - 2))) +
           fips_W M (t - 7) +
           (word_rotr 7 (fips_W M (t - 15)) XOR word_rotr 18 (fips_W M (t - 15)) XOR drop_bit 3 (fips_W M (t - 15))) +
           fips_W M (t - 16))"

declare fips_W.simps [simp del]

definition fips_round :: "word32 list \<Rightarrow> nat \<Rightarrow> sha_vars \<Rightarrow> sha_vars" where
  "fips_round M t v = (let
       T1 = sv_h v + (word_rotr 6 (sv_e v) XOR word_rotr 11 (sv_e v) XOR word_rotr 25 (sv_e v)) +
            ((sv_e v AND sv_f v) XOR (NOT (sv_e v) AND sv_g v)) + sha_K ! t + fips_W M t;
       T2 = (word_rotr 2 (sv_a v) XOR word_rotr 13 (sv_a v) XOR word_rotr 22 (sv_a v)) +
            ((sv_a v AND sv_b v) XOR (sv_a v AND sv_c v) XOR (sv_b v AND sv_c v))
     in \<lparr>sv_a = T1 + T2, sv_b = sv_a v, sv_c = sv_b v, sv_d = sv_c v, sv_e = sv_d v + T1,
         sv_f = sv_e v, sv_g = sv_f v, sv_h = sv_g v\<rparr>)"

definition fips_block :: "bytes \<Rightarrow> sha_vars \<Rightarrow> sha_vars" where
  "fips_block block H =
     (let v = fold (fips_round (map (\<lambda>i. getUint32 block (4 * i)) [0..<16])) [0..<64] H
      in \<lparr>sv_a = sv_a v + sv_a H, sv_b = sv_b v + sv_b H, sv_c = sv_c v + sv_c H, sv_d = sv_d v + sv_d H,
          sv_e = sv_e v + sv_e H, sv_f = sv_f v + sv_f H, sv_g = sv_g v + sv_g H, sv_h = sv_h v + sv_h H\<rparr>)"

function fips_blocks :: "bytes \<Rightarrow> bytes list" where
  "fips_blocks bs = (if length bs < 64 then [] else take 64 bs # fips_blocks (drop 64 bs))"
  by pat_completeness auto
termination by (relation "measure length") auto

declare fips_blocks.simps [simp del]

definition fips_sha256 :: "bytes \<Rightarrow> bytes" where
  "fips_sha256 m = (let H = fold fips_block (fips_blocks (fips_pad m)) sha_init
     in concat (map uint32_be [sv_a H, sv_b H, sv_c H, sv_d H, sv_e H, sv_f H, sv_g H, sv_h H]))"

subsection \<open>The code meets the standard\<close>

lemma rotr_word_rotr: "n < 32 \<Longrightarrow> 0 < n \<Longrightarrow> rotr v n = word_rotr n v"
proof (rule bit_word_eqI)
  fix k assume n: "n < 32" "0 < n" and k: "k < LENGTH(32)"
  show "bit (rotr v n) k = bit (word_rotr n v) k"
  proof (cases "k + n < 32")
    case True
    then show ?thesis using n k by (auto simp: rotr_def bit_simps ac_simps)
  next
    case False
    then have "(k + n) mod 32 = k + n - 32" using n k by (simp add: mod_if)
    then show ?thesis using False n k by (auto simp: rotr_def bit_simps ac_simps dest: bit_imp_le_length)
  qed
qed

lemma schedule_is_W:
  assumes "length M = 16" "16 \<le> n"
  shows "fold extend_schedule [16..<n] M = map (fips_W M) [0..<n]"
  using assms(2)
proof (induction n rule: nat_induct_at_least)
  case base
  have "M = map (fips_W M) [0..<16]"
    by (rule nth_equalityI) (simp_all add: assms(1) fips_W.simps)
  then show ?case by simp
next
  case (Suc n)
  then have "extend_schedule n (map (fips_W M) [0..<n]) = map (fips_W M) [0..<Suc n]"
    by (simp add: extend_schedule_def Let_def rotr_word_rotr fips_W.simps [of M n] ac_simps)
  then show ?case using Suc by simp
qed

lemma round_is_round: "t < 64 \<Longrightarrow> sha_round (map (fips_W M) [0..<64]) t v = fips_round M t v"
  by (simp add: sha_round_def fips_round_def Let_def rotr_word_rotr)

lemma fold_cong_list: "(\<And>x v. x \<in> set xs \<Longrightarrow> f x v = g x v) \<Longrightarrow> fold f xs v = fold g xs v"
  by (induction xs arbitrary: v) simp_all

lemma block_is_block:
  assumes "off + 64 \<le> length padded"
  shows "sha_block padded off h = fips_block (take 64 (drop off padded)) h"
proof -
  let ?M = "map (\<lambda>i. getUint32 (take 64 (drop off padded)) (4 * i)) [0..<16]"
  have "getUint32 padded (off + i * 4) = getUint32 (take 64 (drop off padded)) (4 * i)" if "i < 16" for i
    using assms that by (simp add: getUint32_def ac_simps)
  then have "map (\<lambda>i. getUint32 padded (off + i * 4)) [0..<16] = ?M" by simp
  then have "sha_schedule padded off = map (fips_W ?M) [0..<64]"
    unfolding sha_schedule_def by (simp only: schedule_is_W length_map length_upt)
  then have "fold (sha_round (sha_schedule padded off)) [0..<64] h = fold (fips_round ?M) [0..<64] h"
    by (intro fold_cong_list) (simp add: round_is_round)
  then show ?thesis by (simp add: sha_block_def fips_block_def Let_def add.commute)
qed

lemma put_bytes_0: "length m \<le> n \<Longrightarrow> put_bytes 0 m (replicate n 0) = m @ replicate (n - length m) 0"
  by (simp add: put_bytes_def)

lemma put_bytes_at: "off = length u \<Longrightarrow> put_bytes off bs (u @ v) = u @ bs @ drop (length bs) v"
  by (simp add: put_bytes_def)

lemma length_uint32_be [simp]: "length (uint32_be v) = 4"
  by (simp add: uint32_be_def)

lemma byte_of_word32: "ucast (drop_bit k (of_nat n :: word32) AND 0xff) = (of_nat (n div 2 ^ k) :: byte)" if "k \<le> 24"
proof (rule bit_word_eqI)
  fix j assume j: "j < LENGTH(8)"
  have "bit (0xff :: word32) j" 
  proof -
    have "(0xff :: word32) = mask 8" by (simp add: mask_eq_exp_minus_1)
    then show ?thesis unfolding bit_mask_iff using j by (simp only: bit_mask_iff) simp
  qed
  moreover have "n div 2 ^ k = drop_bit k n" by (simp add: drop_bit_eq_div)
  ultimately show "bit (ucast (drop_bit k (of_nat n :: word32) AND 0xff) :: byte) j = bit (of_nat (n div 2 ^ k) :: byte) j"
    using j that by (simp add: bit_simps add.commute)
qed

lemma uint32_be_of_nat:
  "uint32_be (of_nat n) = [of_nat (n div 2 ^ 24), of_nat (n div 2 ^ 16), of_nat (n div 2 ^ 8), of_nat n]"
  using byte_of_word32 [of 24 n] byte_of_word32 [of 16 n] byte_of_word32 [of 8 n] byte_of_word32 [of 0 n]
  by (simp add: uint32_be_def)

lemma total_length: "(n + 9 + 63) div 64 * 64 = n + 9 + pad_zeros n"
proof -
  obtain q r where n: "n = 64 * q + r" and r: "r < 64"
    by (metis mod_less_divisor mult_div_mod_eq zero_less_numeral)
  then have m: "n mod 64 = r" by simp
  show ?thesis
  proof (cases "r < 56")
    case True
    then have "(119 - r) mod 64 = 55 - r" by (simp add: mod_if)
    moreover have "(n + 9 + 63) div 64 = q + 1" unfolding n using True by (intro div_nat_eqI) simp_all
    ultimately show ?thesis using True n m by (simp add: pad_zeros_def)
  next
    case False
    then have "(119 - r) mod 64 = 119 - r" by simp
    moreover have "(n + 9 + 63) div 64 = q + 2" unfolding n using False r by (intro div_nat_eqI) simp_all
    ultimately show ?thesis using r n m by (simp add: pad_zeros_def)
  qed
qed

lemma padded_is_padded: "sha_padded m = fips_pad m"
proof -
  let ?n = "length m" and ?k = "pad_zeros (length m)"
  let ?hi = "of_nat (?n * 8 div 2 ^ 32) :: word32" and ?lo = "of_nat (?n * 8) :: word32"
  let ?front = "m @ 0x80 # replicate ?k 0"
  have total: "(?n + 9 + 63) div 64 * 64 = ?n + 9 + ?k" by (rule total_length)
  have 1: "(put_bytes 0 m (replicate (?n + 9 + ?k) 0))[?n := 0x80] = ?front @ replicate 8 0"
  proof -
    have "replicate (9 + ?k) (0::byte) = replicate (Suc (?k + 8)) 0" by (simp add: add.commute)
    then have "replicate (9 + ?k) (0::byte) = 0 # replicate ?k 0 @ replicate 8 0"
      by (simp only: replicate_Suc replicate_add)
    then show ?thesis by (simp add: put_bytes_0 list_update_append)
  qed
  have 2: "writeUint32Be (?front @ replicate 8 0) (?n + 9 + ?k - 8) ?hi = ?front @ uint32_be ?hi @ replicate 4 0"
    unfolding writeUint32Be_def by (subst put_bytes_at) (simp_all)
  have 3: "writeUint32Be (?front @ uint32_be ?hi @ replicate 4 0) (?n + 9 + ?k - 4) ?lo = ?front @ uint32_be ?hi @ uint32_be ?lo"
    unfolding writeUint32Be_def append_assoc [symmetric] by (subst put_bytes_at) simp_all
  have "uint32_be ?hi @ uint32_be ?lo = map (\<lambda>j. of_nat (8 * ?n div 256 ^ (7 - j))) [0..<8]"
    unfolding uint32_be_of_nat by (simp add: upt_rec mult.commute div_mult2_eq [symmetric])
  then show ?thesis
    unfolding sha_padded_def fips_pad_def Let_def total 1 2 3 by simp
qed

lemma fips_blocks_map:
  "length bs = n * 64 \<Longrightarrow> fips_blocks bs = map (\<lambda>i. take 64 (drop (i * 64) bs)) [0..<n]"
proof (induction n arbitrary: bs)
  case 0
  then show ?case by (simp add: fips_blocks.simps)
next
  case (Suc n)
  then have "fips_blocks (drop 64 bs) = map (\<lambda>i. take 64 (drop (i * 64) (drop 64 bs))) [0..<n]"
    by (intro Suc.IH) simp
  then have "fips_blocks bs = take 64 bs # map (\<lambda>i. take 64 (drop (Suc i * 64) bs)) [0..<n]"
    using Suc.prems by (simp add: fips_blocks.simps [of bs] add.commute)
  also have "\<dots> = map (\<lambda>i. take 64 (drop (i * 64) bs)) [0..<Suc n]"
    by (simp add: upt_conv_Cons map_Suc_upt [symmetric] del: upt_Suc)
  finally show ?case .
qed

lemma length_fips_pad: "length (fips_pad m) = (length m + 72) div 64 * 64"
  using total_length [of "length m"] by (simp add: fips_pad_def add.commute)

lemma output_is_output:
  "sha_output h = concat (map uint32_be [sv_a h, sv_b h, sv_c h, sv_d h, sv_e h, sv_f h, sv_g h, sv_h h])"
  by (simp add: sha_output_def writeUint32Be_def uint32_be_def put_bytes_def numeral_eq_Suc)

text \<open>
  C25. The hash the program computes is SHA-256: on every message the code, with its padded buffer,
  its schedule array and its shifts, gives the digest of FIPS 180-4, with the rotations, the padding
  rule and the schedule recursion of the standard.
\<close>

theorem sha256_meets_standard: "sha256 m = fips_sha256 m"
proof -
  let ?n = "(length m + 72) div 64" and ?p = "fips_pad m"
  have len: "length ?p = ?n * 64" by (rule length_fips_pad)
  have blk: "sha_block ?p (i * 64) h = fips_block (take 64 (drop (i * 64) ?p)) h" if "i < ?n" for i h
    by (rule block_is_block) (use that len in simp)
  have "fold (sha_block ?p) (map (\<lambda>i. i * 64) [0..<?n]) h =
      fold fips_block (map (\<lambda>i. take 64 (drop (i * 64) ?p)) [0..<?n]) h" for h
    unfolding fold_map by (rule fold_cong_list) (use blk in simp)
  then have "fold (sha_block ?p) (map (\<lambda>i. i * 64) [0..<?n]) sha_init = fold fips_block (fips_blocks ?p) sha_init"
    by (simp only: fips_blocks_map [OF len])
  moreover have "length ?p div 64 = ?n" by (simp add: len)
  ultimately show ?thesis
    by (simp only: sha256_def fips_sha256_def Let_def padded_is_padded output_is_output)
qed

end
