(* ===== verification/Friend_Code.thy ===== *)
theory Friend_Code
  imports Sha256 Base64url Json_Value
begin

text \<open>
  The codes by which users exchange keys: friend codes (src/src/security/friendCode.ts) and invite
  codes with a shared secret (src/src/security/inviteCode.ts), the tolerant reading of a scanned
  code, the checksums and the friend id. Parsing the decoded bytes of a payload as JSON is a
  function of the environment. The two files repeat each other's helpers; they stand here once.
\<close>

datatype code_error = BadPrefix | BadEncoding | TooShort | BadChecksum | BadPayloadEncoding | BadPayload
  | BadKeyLengths | BadKeys | BadExpiry | Expired | BadFriendPayload | BadPskLength | BadPsk

record friend_code =
  fc_identityPub :: string
  fc_dhPub :: string
  fc_deviceId :: "string option"
  fc_onionAddr :: "string option"

record invite_code =
  ic_friend :: friend_code
  ic_psk :: string
  ic_exp :: json
  ic_oneTime :: bool

subsection \<open>Reading a scanned code\<close>

text \<open>The zero-width characters that are removed first are above the range of the model.\<close>

definition opens_scan :: "char \<Rightarrow> bool" where
  "opens_scan c \<longleftrightarrow> js_space c \<or> c = CHR 0x22 \<or> c = CHR 0x27 \<or> c = CHR 0x60 \<or> c \<in> set ''([{<''"

definition closes_scan :: "char \<Rightarrow> bool" where
  "closes_scan c \<longleftrightarrow> js_space c \<or> c = CHR 0x22 \<or> c = CHR 0x27 \<or> c = CHR 0x60 \<or> c \<in> set '')]}>:;,.!?''"

definition sanitizeScannedCode :: "string \<Rightarrow> string" where
  "sanitizeScannedCode v = rev (dropWhile closes_scan (rev (dropWhile opens_scan (trim v))))"

definition upper_char :: "char \<Rightarrow> char" where
  "upper_char c = (let n = (of_char c :: nat) in if 97 \<le> n \<and> n \<le> 122 then char_of (n - 32) else c)"

definition base64_allowed :: "char \<Rightarrow> bool" where
  "base64_allowed c \<longleftrightarrow> (let n = (of_char c :: nat) in
     65 \<le> n \<and> n \<le> 90 \<or> 97 \<le> n \<and> n \<le> 122 \<or> 48 \<le> n \<and> n \<le> 57) \<or> c \<in> set ''_+-/=''"

definition extractCodeBody :: "string \<Rightarrow> string \<Rightarrow> string option" where
  "extractCodeBody v prefix = (let
       compact = filter (Not \<circ> js_space) (sanitizeScannedCode v);
       prefixCompact = remove1 (CHR ''-'') prefix
     in if \<not> starts_with (map upper_char compact) prefixCompact then None
        else
          let raw = drop (length prefixCompact) compact;
              raw1 = (case raw of c # cs \<Rightarrow> if c = CHR ''-'' \<or> c = CHR '':'' then cs else raw | [] \<Rightarrow> [])
          in Some (filter base64_allowed raw1))"

subsection \<open>Checksums and the friend id\<close>

definition hash_seeds :: "word32 list" where
  "hash_seeds = [0x811c9dc5, 0x01000193, 0x1234567, 0x9e3779b9, 0x85ebca6b, 0xc2b2ae35, 0x27d4eb2f, 0x165667b1]"

definition hash_lane :: "bytes \<Rightarrow> word32 \<Rightarrow> word32" where
  "hash_lane bs seed = foldl (\<lambda>h b. (h XOR ucast b) * 0x01000193) seed bs"

definition hash32Bytes :: "bytes \<Rightarrow> bytes" where
  "hash32Bytes bs = concat (map (uint32_be \<circ> hash_lane bs) hash_seeds)"

definition checksum4Bytes :: "bytes \<Rightarrow> bytes" where
  "checksum4Bytes payload = take 4 (sha256 payload)"

definition legacyChecksum4Bytes :: "bytes \<Rightarrow> bytes" where
  "legacyChecksum4Bytes payload = take 4 (hash32Bytes payload)"

definition computeFriendId :: "bytes \<Rightarrow> string" where
  "computeFriendId identityPub = take 16 (encodeBase64Url (hash32Bytes identityPub))"

definition sealed_code :: "string \<Rightarrow> bytes \<Rightarrow> string" where
  "sealed_code prefix payload = prefix @ encodeBase64Url (payload @ checksum4Bytes payload)"

text \<open>The payload of a code whose checksum is right.\<close>

definition checked_payload :: "string \<Rightarrow> string \<Rightarrow> code_error + bytes" where
  "checked_payload prefix code = (case extractCodeBody code prefix of
       None \<Rightarrow> Inl BadPrefix
     | Some raw \<Rightarrow>
         if raw = [] then Inl BadPrefix
         else (case decodeBase64Url raw of
             None \<Rightarrow> Inl BadEncoding
           | Some decoded \<Rightarrow>
               if length decoded \<le> 4 then Inl TooShort
               else
                 let payload = take (length decoded - 4) decoded;
                     checksum = drop (length decoded - 4) decoded
                 in if checksum = checksum4Bytes payload \<or> checksum = legacyChecksum4Bytes payload
                    then Inr payload else Inl BadChecksum))"

subsection \<open>Friend codes\<close>

definition opt_str :: "string option \<Rightarrow> json" where
  "opt_str s = (case s of Some t \<Rightarrow> JStr t | None \<Rightarrow> JUndef)"

definition friend_payload :: "friend_code \<Rightarrow> json" where
  "friend_payload d = JObj [(''v'', JNum ''1''), (''identityPub'', JStr (fc_identityPub d)), (''dhPub'', JStr (fc_dhPub d)),
     (''deviceId'', opt_str (fc_deviceId d)), (''onionAddr'', opt_str (fc_onionAddr d))]"

definition encodeFriendCodeV1 :: "friend_code \<Rightarrow> string" where
  "encodeFriendCodeV1 d = sealed_code ''NKC1-'' (canonicalBytes (friend_payload d))"

definition is_hex :: "char \<Rightarrow> bool" where
  "is_hex c \<longleftrightarrow> is_digit c \<or> lower_char c \<in> set ''abcdef''"

definition uuidPattern :: "string \<Rightarrow> bool" where
  "uuidPattern s \<longleftrightarrow> length s = 36 \<and>
     list_all (\<lambda>i. if i \<in> {8, 13, 18, 23} then s ! i = CHR ''-''
       else if i = 14 then s ! i \<in> set ''12345''
       else if i = 19 then lower_char (s ! i) \<in> set ''89ab''
       else is_hex (s ! i)) [0..<36]"

definition has_friend_shape :: "json \<Rightarrow> bool" where
  "has_friend_shape p \<longleftrightarrow> field p ''v'' = JNum ''1'' \<and> str_of (field p ''identityPub'') \<noteq> None \<and>
     str_of (field p ''dhPub'') \<noteq> None"

definition check_keys :: "json \<Rightarrow> code_error option" where
  "check_keys p = (case (decodeBase64Url (the (str_of (field p ''identityPub''))), decodeBase64Url (the (str_of (field p ''dhPub'')))) of
       (Some identityBytes, Some dhBytes) \<Rightarrow>
         if length identityBytes \<noteq> 32 \<or> length dhBytes \<noteq> 32 then Some BadKeyLengths else None
     | _ \<Rightarrow> Some BadKeys)"

definition read_friend :: "json \<Rightarrow> friend_code" where
  "read_friend p = (let candidate = (case str_of (field p ''deviceId'') of Some d \<Rightarrow> trim d | None \<Rightarrow> []) in
     \<lparr>fc_identityPub = the (str_of (field p ''identityPub'')), fc_dhPub = the (str_of (field p ''dhPub'')),
      fc_deviceId = (if candidate \<noteq> [] \<and> uuidPattern candidate then Some candidate else None),
      fc_onionAddr = str_of (field p ''onionAddr'')\<rparr>)"

definition decodeFriendCodeV1 :: "(bytes \<Rightarrow> json option) \<Rightarrow> string \<Rightarrow> code_error + friend_code" where
  "decodeFriendCodeV1 parse code = (case checked_payload ''NKC1-'' code of
       Inl e \<Rightarrow> Inl e
     | Inr payload \<Rightarrow>
         (case parse payload of
            None \<Rightarrow> Inl BadPayloadEncoding
          | Some p \<Rightarrow>
              if \<not> has_friend_shape p then Inl BadPayload
              else (case check_keys p of Some e \<Rightarrow> Inl e | None \<Rightarrow> Inr (read_friend p))))"

subsection \<open>Invite codes\<close>

definition invite_payload :: "invite_code \<Rightarrow> json" where
  "invite_payload d = JObj [(''v'', JNum ''1''), (''friend'', friend_payload (ic_friend d)), (''psk'', JStr (ic_psk d)),
     (''exp'', if finite_num (ic_exp d) \<noteq> None then ic_exp d else JUndef),
     (''oneTime'', if ic_oneTime d then JBool True else JUndef)]"

definition encodeInviteCodeV1 :: "invite_code \<Rightarrow> string" where
  "encodeInviteCodeV1 d = sealed_code ''NKI1-'' (canonicalBytes (invite_payload d))"

definition check_expiry :: "int \<Rightarrow> json \<Rightarrow> code_error option" where
  "check_expiry now p = (if field p ''exp'' = JUndef then None
     else (case finite_num (field p ''exp'') of
         None \<Rightarrow> Some BadExpiry
       | Some e \<Rightarrow> if e < of_int now then Some Expired else None))"

definition check_psk :: "json \<Rightarrow> code_error option" where
  "check_psk p = (case decodeBase64Url (the (str_of (field p ''psk''))) of
       None \<Rightarrow> Some BadPsk
     | Some psk \<Rightarrow> if length psk \<noteq> 32 then Some BadPskLength else None)"

definition decodeInviteCodeV1 :: "(bytes \<Rightarrow> json option) \<Rightarrow> int \<Rightarrow> string \<Rightarrow> code_error + invite_code" where
  "decodeInviteCodeV1 parse now code = (case checked_payload ''NKI1-'' code of
       Inl e \<Rightarrow> Inl e
     | Inr payload \<Rightarrow>
         (case parse payload of
            None \<Rightarrow> Inl BadPayloadEncoding
          | Some p \<Rightarrow>
              if field p ''v'' \<noteq> JNum ''1'' \<or> \<not> truthy (field p ''friend'') \<or> str_of (field p ''psk'') = None
              then Inl BadPayload
              else (case check_expiry now p of
                  Some e \<Rightarrow> Inl e
                | None \<Rightarrow>
                    let friend = field p ''friend'' in
                    if field p ''oneTime'' \<noteq> JUndef \<and> field p ''oneTime'' \<noteq> JBool True then Inl BadPayload
                    else if \<not> has_friend_shape friend then Inl BadFriendPayload
                    else (case check_psk p of
                        Some e \<Rightarrow> Inl e
                      | None \<Rightarrow>
                          (case check_keys friend of
                             Some e \<Rightarrow> Inl e
                           | None \<Rightarrow> Inr \<lparr>ic_friend = read_friend friend, ic_psk = the (str_of (field p ''psk'')),
                               ic_exp = field p ''exp'', ic_oneTime = truthy (field p ''oneTime'')\<rparr>)))))"

subsection \<open>A code that was written is read\<close>

lemma url_safe_plain:
  assumes "url_safe c"
  shows "\<not> js_space c" "\<not> opens_scan c" "\<not> closes_scan c" "base64_allowed c"
proof -
  have "\<not> url_safe (CHR 0x22)" "\<not> url_safe (CHR 0x27)" "\<not> url_safe (CHR 0x60)"
    "list_all (Not \<circ> url_safe) ''([{<''" "list_all (Not \<circ> url_safe) '')]}>:;,.!?''"
    by (simp_all add: url_safe_def)
  moreover show sp: "\<not> js_space c" using assms by (auto simp: url_safe_def js_space_def Let_def)
  ultimately show "\<not> opens_scan c" "\<not> closes_scan c"
    using assms unfolding opens_scan_def closes_scan_def list_all_iff by auto
  have code: "of_char c = (45 :: nat) \<longleftrightarrow> c = CHR ''-''" "of_char c = (95 :: nat) \<longleftrightarrow> c = CHR ''_''"
  proof -
    have "(of_char (CHR ''-'') :: nat) = 45" "(of_char (CHR ''_'') :: nat) = 95" by simp_all
    then show "of_char c = (45 :: nat) \<longleftrightarrow> c = CHR ''-''" "of_char c = (95 :: nat) \<longleftrightarrow> c = CHR ''_''"
      by (metis of_char_eq_iff)+
  qed
  then show "base64_allowed c" using assms code by (auto simp: url_safe_def base64_allowed_def Let_def)
qed

lemma sanitize_plain: "list_all url_safe s \<Longrightarrow> sanitizeScannedCode s = s"
proof -
  assume "list_all url_safe s"
  then have "list_all (\<lambda>c. \<not> js_space c) s" "list_all (\<lambda>c. \<not> opens_scan c) s" "list_all (\<lambda>c. \<not> closes_scan c) s"
    using url_safe_plain by (auto simp: list_all_iff)
  then show ?thesis unfolding sanitizeScannedCode_def trim_def
    by (simp add: dropWhile_all_kept rev_dropWhile_none)
qed

lemma extract_written:
  assumes "list_all url_safe body" "prefix = pc @ ''-''" "list_all url_safe pc" "CHR ''-'' \<notin> set pc" "map upper_char pc = pc"
  shows "extractCodeBody (prefix @ body) prefix = Some body"
proof -
  have "url_safe (CHR ''-'')" by (simp add: url_safe_def)
  then have all: "list_all url_safe (prefix @ body)" using assms by simp
  then have keep: "filter (Not \<circ> js_space) (prefix @ body) = prefix @ body" "filter base64_allowed body = body"
    using url_safe_plain assms(1) by (auto simp: list_all_iff filter_id_conv)
  have pc: "remove1 (CHR ''-'') prefix = pc" using assms(2,4) by (simp add: remove1_append)
  have "starts_with (map upper_char (prefix @ body)) pc" using assms(2,5) by (simp add: starts_with_def)
  moreover have "drop (length pc) (prefix @ body) = CHR ''-'' # body" using assms(2) by simp
  ultimately show ?thesis
    unfolding extractCodeBody_def sanitize_plain [OF all] Let_def keep pc using keep(2) by simp
qed

lemma length_sha256: "length (sha256 m) = 32"
  by (simp add: sha256_def Let_def output_is_output)

lemma checked_written:
  assumes "prefix = ''NKC1-'' \<or> prefix = ''NKI1-''" "payload \<noteq> []"
  shows "checked_payload prefix (sealed_code prefix payload) = Inr payload"
proof -
  let ?all = "payload @ checksum4Bytes payload"
  have safe: "list_all url_safe (encodeBase64Url ?all)"
    by (simp add: encodeBase64Url_eq list_all_iff sextets_lt url_char_safe)
  obtain pc where pc: "prefix = pc @ ''-''" "list_all url_safe pc" "CHR ''-'' \<notin> set pc" "map upper_char pc = pc"
  proof (cases "prefix = ''NKC1-''")
    case True
    show ?thesis by (rule that [of "''NKC1''"]) (simp_all add: True url_safe_def upper_char_def)
  next
    case False
    show ?thesis by (rule that [of "''NKI1''"]) (use False assms(1) in \<open>simp_all add: url_safe_def upper_char_def\<close>)
  qed
  have ext: "extractCodeBody (sealed_code prefix payload) prefix = Some (encodeBase64Url ?all)"
    unfolding sealed_code_def by (rule extract_written [OF safe pc])
  have four: "length (checksum4Bytes payload) = 4" by (simp add: checksum4Bytes_def length_sha256)
  have "decodeBase64Url [] = Some []" using decode_encode [of "[]"] by (simp add: encodeBase64Url_eq)
  then have "encodeBase64Url ?all \<noteq> []" using decode_encode [of ?all] assms(2) by auto
  then show ?thesis
    using assms(2) four by (simp add: checked_payload_def ext decode_encode Let_def)
qed

text \<open>What a parsed payload says of the payload that was written.\<close>

lemma meaning_field:
  assumes "meaning w = meaning (JObj kvs)" "wf_json w" "distinct (map fst kvs)"
  shows "(field w k = JUndef) = (field (JObj kvs) k = JUndef)"
    "field (JObj kvs) k \<noteq> JUndef \<Longrightarrow> meaning (field w k) = meaning (field (JObj kvs) k)"
proof -
  obtain ls where w: "w = JObj ls" using assms(1) by (cases w) auto
  have "distinct (map fst ls)" using assms(2) w by simp
  moreover have "map_of (present_fields meaning ls) k = map_of (present_fields meaning kvs) k" using assms(1) w by simp
  ultimately have eq: "(if field w k = JUndef then None else Some (meaning (field w k))) =
      (if field (JObj kvs) k = JUndef then None else Some (meaning (field (JObj kvs) k)))"
    unfolding w map_of_fields [OF assms(3)] by (simp only: map_of_fields)
  show "(field w k = JUndef) = (field (JObj kvs) k = JUndef)"
    "field (JObj kvs) k \<noteq> JUndef \<Longrightarrow> meaning (field w k) = meaning (field (JObj kvs) k)"
    using eq by (auto split: if_splits)
qed

lemma meaning_leaf: "meaning v = VStr s \<longleftrightarrow> v = JStr s" "meaning v = VNum t \<longleftrightarrow> v = JNum t"
  "meaning v = VBool b \<longleftrightarrow> v = JBool b"
  by (cases v; auto)+

lemma parsed_leaf:
  assumes "meaning w = meaning (JObj kvs)" "wf_json w" "distinct (map fst kvs)"
  shows "field (JObj kvs) k = JStr s \<Longrightarrow> field w k = JStr s" "field (JObj kvs) k = JNum t \<Longrightarrow> field w k = JNum t"
    "field (JObj kvs) k = JUndef \<Longrightarrow> field w k = JUndef" "field (JObj kvs) k = JBool b \<Longrightarrow> field w k = JBool b"
  using meaning_field [OF assms, of k] meaning_leaf by auto

definition key_ok :: "string \<Rightarrow> bool" where
  "key_ok k \<longleftrightarrow> (\<exists>bs. decodeBase64Url k = Some bs \<and> length bs = 32)"

definition friend_ok :: "friend_code \<Rightarrow> bool" where
  "friend_ok d \<longleftrightarrow> key_ok (fc_identityPub d) \<and> key_ok (fc_dhPub d) \<and>
     (case fc_deviceId d of Some i \<Rightarrow> uuidPattern i \<and> trim i = i | None \<Rightarrow> True)"

lemma friend_payload_parsed:
  assumes "meaning w = meaning (friend_payload d)" "wf_json w" "friend_ok d"
  shows "has_friend_shape w" "check_keys w = None" "read_friend w = d"
proof -
  note leaf = parsed_leaf [OF assms(1) [unfolded friend_payload_def] assms(2)]
  have v: "field w ''v'' = JNum ''1''" "field w ''identityPub'' = JStr (fc_identityPub d)"
    "field w ''dhPub'' = JStr (fc_dhPub d)"
    by (rule leaf; simp)+
  have dev: "field w ''deviceId'' = opt_str (fc_deviceId d)"
    by (cases "fc_deviceId d") (simp_all add: leaf opt_str_def)
  have onion: "field w ''onionAddr'' = opt_str (fc_onionAddr d)"
    by (cases "fc_onionAddr d") (simp_all add: leaf opt_str_def)
  show "has_friend_shape w" by (simp add: has_friend_shape_def v)
  show "check_keys w = None" using assms(3) by (auto simp: check_keys_def v friend_ok_def key_ok_def)
  have "i \<noteq> []" if "uuidPattern i" for i using that by (auto simp: uuidPattern_def)
  then show "read_friend w = d"
    using assms(3) by (cases d) (auto simp: read_friend_def v dev onion opt_str_def friend_ok_def Let_def split: option.splits)
qed

lemma canonical_obj_nonempty: "canonicalBytes (JObj kvs) \<noteq> []"
  by (simp add: canonicalBytes_def encode_utf8_def utf8_char_def Let_def)

text \<open>
  C35. A friend code that was shown is read back as it was: for keys of 32 bytes and a device id that
  is a UUID, decoding the code of a user gives that user's keys, device and address, whatever the
  parser, as long as it reads the payload as the value that was written.
\<close>

theorem friend_code_roundtrip:
  assumes "friend_ok d"
    and "parse (canonicalBytes (friend_payload d)) = Some w" "wf_json w" "meaning w = meaning (friend_payload d)"
  shows "decodeFriendCodeV1 parse (encodeFriendCodeV1 d) = Inr d"
proof -
  have "checked_payload ''NKC1-'' (encodeFriendCodeV1 d) = Inr (canonicalBytes (friend_payload d))"
    unfolding encodeFriendCodeV1_def by (rule checked_written) (simp_all add: friend_payload_def canonical_obj_nonempty)
  then show ?thesis
    using assms friend_payload_parsed [OF assms(4,3,1)] by (simp add: decodeFriendCodeV1_def)
qed

text \<open>
  An invite code is read back as it was until it expires, and not after: with a shared secret of
  32 bytes, decoding the code gives the friend, the secret, the expiry and whether it is for
  one use while the time is not past the expiry, and the error that it expired from then on.
\<close>

theorem invite_code_roundtrip:
  assumes "friend_ok (ic_friend d)" "key_ok (ic_psk d)" "ic_exp d = JNum t" "wf_json (invite_payload d)"
    and "parse (canonicalBytes (invite_payload d)) = Some w" "wf_json w" "meaning w = meaning (invite_payload d)"
  shows "decodeInviteCodeV1 parse now (encodeInviteCodeV1 d) =
    (if of_int now \<le> num_value t then Inr d else Inl Expired)"
proof -
  have chk: "checked_payload ''NKI1-'' (encodeInviteCodeV1 d) = Inr (canonicalBytes (invite_payload d))"
    unfolding encodeInviteCodeV1_def by (rule checked_written) (simp_all add: invite_payload_def canonical_obj_nonempty)
  note sem = assms(7) [unfolded invite_payload_def] assms(6)
  note leaf = parsed_leaf [OF sem]
  have v: "field w ''v'' = JNum ''1''" "field w ''psk'' = JStr (ic_psk d)" "field w ''exp'' = JNum t"
    by (rule leaf; simp add: assms(3))+
  have one: "field w ''oneTime'' = (if ic_oneTime d then JBool True else JUndef)"
    by (cases "ic_oneTime d") (simp_all add: leaf)
  have "meaning (field w ''friend'') = meaning (friend_payload (ic_friend d))"
    using meaning_field(2) [OF sem, of "''friend''"] by (simp add: friend_payload_def)
  moreover have "wf_json (field w ''friend'')"
  proof -
    obtain ls where w: "w = JObj ls" using sem(1) by (cases w) auto
    have "field w ''friend'' = JUndef \<or> (''friend'', field w ''friend'') \<in> set ls"
      using w by (auto simp: field_def split: option.split dest: map_of_SomeD)
    then show ?thesis using assms(6) w by (auto simp: list_all_iff)
  qed
  ultimately have fr: "has_friend_shape (field w ''friend'')" "check_keys (field w ''friend'') = None"
    "read_friend (field w ''friend'') = ic_friend d"
    using friend_payload_parsed assms(1) by blast+
  then have "truthy (field w ''friend'')"
    by (cases "field w ''friend''") (auto simp: has_friend_shape_def)
  moreover have "check_psk w = None" using assms(2) by (auto simp: check_psk_def v key_ok_def)
  moreover have "check_expiry now w = (if of_int now \<le> num_value t then None else Some Expired)"
    by (simp add: check_expiry_def v not_le)
  ultimately show ?thesis
    using fr by (simp add: decodeInviteCodeV1_def chk assms(5) v one Let_def) (simp add: assms(3) [symmetric])
qed

subsection \<open>Invites for one use\<close>

text \<open>
  The guard of src/src/security/inviteUseStore.ts: the invites that were used are a set of
  fingerprints, kept in the secret store or, when that throws, in memory. The lock runs the works on
  one fingerprint one after the other, in the order of the calls; a work is what it returns when it
  runs, or nothing when it throws.
\<close>

record use_store =
  us_secret :: "string list"
  us_memory :: "string list"

definition isInviteUsed :: "bool \<Rightarrow> string \<Rightarrow> use_store \<Rightarrow> bool" where
  "isInviteUsed store_ok fingerprint u = (fingerprint \<in> set (if store_ok then us_secret u else us_memory u))"

definition markInviteUsed :: "bool \<Rightarrow> string \<Rightarrow> use_store \<Rightarrow> use_store" where
  "markInviteUsed store_ok fingerprint u =
     (if store_ok then u\<lparr>us_secret := List.insert fingerprint (us_secret u)\<rparr>
      else u\<lparr>us_memory := List.insert fingerprint (us_memory u)\<rparr>)"

datatype 'a guard_result = GuardRefused | GuardThrew | GuardRan 'a

definition runOneTimeInviteGuard ::
    "bool \<Rightarrow> string \<Rightarrow> 'a option \<Rightarrow> ('a \<Rightarrow> bool) \<Rightarrow> use_store \<Rightarrow> 'a guard_result \<times> use_store" where
  "runOneTimeInviteGuard store_ok fingerprint work shouldConsume u =
     (if isInviteUsed store_ok fingerprint u then (GuardRefused, u)
      else (case work of
          None \<Rightarrow> (GuardThrew, u)
        | Some v \<Rightarrow> (GuardRan v, if shouldConsume v then markInviteUsed store_ok fingerprint u else u)))"

text \<open>The works that the lock lets through one after the other, with the state of the store at each.\<close>

fun run_guards :: "string \<Rightarrow> ('a \<Rightarrow> bool) \<Rightarrow> (bool \<times> 'a option) list \<Rightarrow> use_store \<Rightarrow> 'a guard_result list" where
  "run_guards f shouldConsume [] u = []"
| "run_guards f shouldConsume ((ok, work) # calls) u =
     (let (r, u') = runOneTimeInviteGuard ok f work shouldConsume u in r # run_guards f shouldConsume calls u')"

definition consumed :: "('a \<Rightarrow> bool) \<Rightarrow> 'a guard_result \<Rightarrow> bool" where
  "consumed shouldConsume r = (case r of GuardRan v \<Rightarrow> shouldConsume v | _ \<Rightarrow> False)"

lemma used_refused: "isInviteUsed ok f u \<Longrightarrow> filter (consumed sc) (run_guards f sc (map (Pair ok) ws) u) = []"
  by (induction ws arbitrary: u) (simp_all add: runOneTimeInviteGuard_def consumed_def)

text \<open>
  An invite for one use is consumed at most once, however many attempts on it are queued, as long
  as the secret store answers all of them or none: of the works that run, one at most is one that
  consumes the invite.
\<close>

theorem invite_consumed_at_most_once:
  "length (filter (consumed sc) (run_guards f sc (map (Pair ok) works) u)) \<le> 1"
proof (induction works arbitrary: u)
  case (Cons w ws)
  show ?case
  proof (cases "isInviteUsed ok f u \<or> w = None \<or> \<not> sc (the w)")
    case True
    then have "filter (consumed sc) (run_guards f sc (map (Pair ok) (w # ws)) u) =
        filter (consumed sc) (run_guards f sc (map (Pair ok) ws) u)"
      by (auto simp: runOneTimeInviteGuard_def consumed_def Let_def split: option.split prod.split)
    then show ?thesis using Cons.IH by simp
  next
    case False
    then obtain v where v: "w = Some v" "sc v" "\<not> isInviteUsed ok f u" by auto
    have "isInviteUsed ok f (markInviteUsed ok f u)" by (simp add: isInviteUsed_def markInviteUsed_def)
    then have rest: "filter (consumed sc) (run_guards f sc (map (Pair ok) ws) (markInviteUsed ok f u)) = []"
      by (rule used_refused)
    have "run_guards f sc (map (Pair ok) (w # ws)) u =
        GuardRan v # run_guards f sc (map (Pair ok) ws) (markInviteUsed ok f u)"
      using v by (simp add: runOneTimeInviteGuard_def)
    then show ?thesis by (simp add: rest)
  qed
qed simp

text \<open>
  An invite for one use is consumed twice when the secret store fails in between: the mark goes
  to the store that answers, and the check looks in the one that answers.
\<close>

theorem store_failure_consumes_twice:
  assumes "f \<notin> set (us_secret u)" "f \<notin> set (us_memory u)" "sc v"
  shows "run_guards f sc [(True, Some v), (False, Some v)] u = [GuardRan v, GuardRan v]"
  using assms by (simp add: runOneTimeInviteGuard_def isInviteUsed_def markInviteUsed_def)

theorem store_failure_consumes_twice_witness:
  "run_guards ''f'' (\<lambda>_. True) [(True, Some (0::nat)), (False, Some 0)] \<lparr>us_secret = [], us_memory = []\<rparr> = [GuardRan 0, GuardRan 0]"
  by (rule store_failure_consumes_twice) simp_all

subsection \<open>Concrete inputs\<close>

definition demo_friend :: friend_code where
  "demo_friend = \<lparr>fc_identityPub = encodeBase64Url (replicate 32 7), fc_dhPub = encodeBase64Url (replicate 32 9),
     fc_deviceId = None, fc_onionAddr = Some ''addr''\<rparr>"

definition demo_invite :: invite_code where
  "demo_invite = \<lparr>ic_friend = demo_friend, ic_psk = encodeBase64Url (replicate 32 1), ic_exp = JNum ''9'', ic_oneTime = True\<rparr>"

lemma demo_friend_ok: "friend_ok demo_friend" "key_ok (ic_psk demo_invite)"
  by (simp_all add: friend_ok_def key_ok_def demo_friend_def demo_invite_def decode_encode)

lemma demo_wf: "wf_json (friend_payload demo_friend)" "wf_json (invite_payload demo_invite)"
  by (simp_all add: friend_payload_def invite_payload_def opt_str_def settable_def is_num_char_def is_digit_def
      demo_friend_def demo_invite_def)

theorem friend_code_roundtrip_witness:
  "decodeFriendCodeV1 (\<lambda>bs. if bs = canonicalBytes (friend_payload demo_friend) then Some (friend_payload demo_friend) else None)
     (encodeFriendCodeV1 demo_friend) = Inr demo_friend"
  by (rule friend_code_roundtrip [OF demo_friend_ok(1) _ demo_wf(1) refl]) simp

theorem invite_code_roundtrip_witness:
  "decodeInviteCodeV1 (\<lambda>bs. if bs = canonicalBytes (invite_payload demo_invite) then Some (invite_payload demo_invite) else None)
     5 (encodeInviteCodeV1 demo_invite) = Inr demo_invite"
proof -
  let ?parse = "\<lambda>bs. if bs = canonicalBytes (invite_payload demo_invite) then Some (invite_payload demo_invite) else None"
  have f: "friend_ok (ic_friend demo_invite)" "ic_exp demo_invite = JNum ''9''"
    using demo_friend_ok(1) by (simp_all add: demo_invite_def)
  have p: "?parse (canonicalBytes (invite_payload demo_invite)) = Some (invite_payload demo_invite)" by simp
  have "num_value ''9'' = 9" by (simp add: num_value_def exponent_value_def index_value_def)
  then show ?thesis
    using invite_code_roundtrip [of demo_invite "''9''" ?parse "invite_payload demo_invite" 5]
      f demo_friend_ok(2) demo_wf(2) p by simp
qed

end
