(* ===== verification/Media_Policy.thy ===== *)
theory Media_Policy
  imports Json_Value
begin

text \<open>
  What the program accepts of the media references it is sent
  (src/src/security/mediaPolicy.ts and the limits of src/src/net/mediaTransferLimits.ts):
  the MIME types it previews, the signatures of their contents, the file names it shows and
  the sizes it admits. Values that arrive are JSON values; on strings whose code units are below
  256 the normalisation of a file name to NFC changes nothing.
\<close>

subsection \<open>Limits\<close>

definition INLINE_MEDIA_MAX_BYTES :: int where
  "INLINE_MEDIA_MAX_BYTES = 500 * 1024 * 1024"

definition INLINE_MEDIA_CHUNK_SIZE :: int where
  "INLINE_MEDIA_CHUNK_SIZE = 1024 * 1024"

definition MEDIA_FILENAME_MAX_LENGTH :: nat where
  "MEDIA_FILENAME_MAX_LENGTH = 180"

definition MEDIA_MIME_MAX_LENGTH :: nat where
  "MEDIA_MIME_MAX_LENGTH = 127"

definition MEDIA_OWNER_ID_MAX_LENGTH :: nat where
  "MEDIA_OWNER_ID_MAX_LENGTH = 128"

definition MEDIA_MAX_CHUNKS :: int where
  "MEDIA_MAX_CHUNKS = \<lceil>(of_int INLINE_MEDIA_MAX_BYTES :: rat) / of_int (192 * 1024)\<rceil>"

subsection \<open>MIME types\<close>

definition PREVIEW_EXTENSIONS :: "(string \<times> string) list" where
  "PREVIEW_EXTENSIONS =
     [(''image/png'', ''.png''), (''image/jpeg'', ''.jpg''), (''image/gif'', ''.gif''),
      (''image/webp'', ''.webp''), (''video/mp4'', ''.mp4''), (''video/webm'', ''.webm''),
      (''video/ogg'', ''.ogv'')]"

definition SAFE_PREVIEW_MIMES :: "string list" where
  "SAFE_PREVIEW_MIMES =
     [''image/png'', ''image/jpeg'', ''image/gif'', ''image/webp'', ''video/mp4'', ''video/webm'',
      ''video/ogg'']"

definition octet_stream :: string where
  "octet_stream = ''application/octet-stream''"

definition is_lower_alnum :: "char \<Rightarrow> bool" where
  "is_lower_alnum c \<longleftrightarrow> (let n = (of_char c :: nat) in 97 \<le> n \<and> n \<le> 122) \<or> is_digit c"

definition is_alnum :: "char \<Rightarrow> bool" where
  "is_alnum c \<longleftrightarrow> is_lower_alnum c \<or> (let n = (of_char c :: nat) in 65 \<le> n \<and> n \<le> 90)"

definition mime_token :: "string \<Rightarrow> bool" where
  "mime_token s \<longleftrightarrow> s \<noteq> [] \<and> is_lower_alnum (hd s) \<and>
     list_all (\<lambda>c. is_lower_alnum c \<or> c \<in> set ''!#$&^_.+-'') (tl s)"

definition mime_pattern :: "string \<Rightarrow> bool" where
  "mime_pattern s \<longleftrightarrow> (let t = takeWhile (\<lambda>c. c \<noteq> CHR ''/'') s in
     length t < length s \<and> mime_token t \<and> mime_token (drop (Suc (length t)) s))"

definition normalizeMediaMime :: "json \<Rightarrow> string" where
  "normalizeMediaMime value = (case str_of value of
       None \<Rightarrow> octet_stream
     | Some s \<Rightarrow>
         let normalized = takeWhile (\<lambda>c. c \<noteq> CHR '';'') (to_lower (trim s))
         in if normalized = ''image/jpg'' then ''image/jpeg''
            else if normalized = [] \<or> MEDIA_MIME_MAX_LENGTH < length normalized \<or> \<not> mime_pattern normalized
            then octet_stream else normalized)"

definition isPreviewMediaClaim :: "json \<Rightarrow> bool" where
  "isPreviewMediaClaim value = (case str_of value of
       None \<Rightarrow> False
     | Some s \<Rightarrow> starts_with (to_lower (trim s)) ''image/'' \<or> starts_with (to_lower (trim s)) ''video/'')"

definition isSafePreviewMime :: "string \<Rightarrow> bool" where
  "isSafePreviewMime value \<longleftrightarrow> normalizeMediaMime (JStr value) \<in> set SAFE_PREVIEW_MIMES"

definition startsWithBytes :: "bytes \<Rightarrow> bytes \<Rightarrow> bool" where
  "startsWithBytes bs signature \<longleftrightarrow>
     length signature \<le> length bs \<and> list_all (\<lambda>i. bs ! i = signature ! i) [0..<length signature]"

definition detectSafePreviewMime :: "bytes \<Rightarrow> string option" where
  "detectSafePreviewMime bs =
     (if startsWithBytes bs [0x89, 0x50, 0x4e, 0x47, 0x0d, 0x0a, 0x1a, 0x0a] then Some ''image/png''
      else if startsWithBytes bs [0xff, 0xd8, 0xff] then Some ''image/jpeg''
      else if startsWithBytes bs [0x47, 0x49, 0x46, 0x38, 0x37, 0x61] \<or>
              startsWithBytes bs [0x47, 0x49, 0x46, 0x38, 0x39, 0x61] then Some ''image/gif''
      else if startsWithBytes bs [0x52, 0x49, 0x46, 0x46] \<and> 12 \<le> length bs \<and>
              startsWithBytes (drop 8 bs) [0x57, 0x45, 0x42, 0x50] then Some ''image/webp''
      else if 12 \<le> length bs \<and> startsWithBytes (drop 4 bs) [0x66, 0x74, 0x79, 0x70] then Some ''video/mp4''
      else if startsWithBytes bs [0x1a, 0x45, 0xdf, 0xa3] then Some ''video/webm''
      else if startsWithBytes bs [0x4f, 0x67, 0x67, 0x53] then Some ''video/ogg''
      else None)"

definition hasValidPreviewSignature :: "json \<Rightarrow> bytes \<Rightarrow> bool" where
  "hasValidPreviewSignature mime bs =
     (let normalized = normalizeMediaMime mime
      in isSafePreviewMime normalized \<and> detectSafePreviewMime bs = Some normalized)"

subsection \<open>File names\<close>

text \<open>The code units of the bidirectional overrides are above the range of the model.\<close>

definition unsafe_char :: "char \<Rightarrow> bool" where
  "unsafe_char c \<longleftrightarrow> (let n = (of_char c :: nat) in n \<le> 31 \<or> (127 \<le> n \<and> n \<le> 159)) \<or>
     c = CHR 0x5C \<or> c \<in> set ''/:*?'' \<or> c = CHR 0x22 \<or> c \<in> set ''<>|''"

definition strip_ends :: "(char \<Rightarrow> bool) \<Rightarrow> (char \<Rightarrow> bool) \<Rightarrow> string \<Rightarrow> string" where
  "strip_ends front back s = rev (dropWhile back (rev (dropWhile front s)))"

definition is_edge :: "char \<Rightarrow> bool" where
  "is_edge c \<longleftrightarrow> c = CHR ''.'' \<or> c = CHR '' ''"

definition sanitizeMediaFilename :: "json \<Rightarrow> string" where
  "sanitizeMediaFilename value =
     (let candidate = (case str_of value of Some s \<Rightarrow> s | None \<Rightarrow> []);
          sanitized = take MEDIA_FILENAME_MAX_LENGTH
            (strip_ends is_edge is_edge (map (\<lambda>c. if unsafe_char c then CHR ''_'' else c) candidate))
      in if sanitized = [] then ''attachment'' else sanitized)"

text \<open>Each run of dots becomes one underscore.\<close>

lemma dropWhile_shorter [termination_simp]: "length (dropWhile P s) < Suc (length s)"
  by (simp add: le_imp_less_Suc length_dropWhile_le)

fun squeeze_dots :: "string \<Rightarrow> string" where
  "squeeze_dots [] = []"
| "squeeze_dots (c # s) =
     (if c = CHR ''.'' then CHR ''_'' # squeeze_dots (dropWhile (\<lambda>d. d = CHR ''.'') s) else c # squeeze_dots s)"

definition last_index :: "char \<Rightarrow> string \<Rightarrow> nat option" where
  "last_index c s = (case filter (\<lambda>i. s ! i = c) [0..<length s] of [] \<Rightarrow> None | is \<Rightarrow> Some (last is))"

definition canonicalizePreviewFilename :: "json \<Rightarrow> string \<Rightarrow> string" where
  "canonicalizePreviewFilename value mime =
     (let normalizedMime = normalizeMediaMime (JStr mime);
          sanitized = sanitizeMediaFilename value
      in case map_of PREVIEW_EXTENSIONS normalizedMime of
           None \<Rightarrow> sanitized
         | Some extension \<Rightarrow>
             let rawStem = (case last_index (CHR ''.'') sanitized of
                   Some lastDot \<Rightarrow> if 0 < lastDot then take lastDot sanitized else sanitized
                 | None \<Rightarrow> sanitized);
                 stem = take (MEDIA_FILENAME_MAX_LENGTH - length extension)
                   (strip_ends (\<lambda>c. c = CHR ''-'' \<or> is_edge c) is_edge (squeeze_dots rawStem))
             in (if stem = [] then ''media'' else stem) @ extension)"

definition isValidMediaOwnerId :: "json \<Rightarrow> bool" where
  "isValidMediaOwnerId value = (case str_of value of
       None \<Rightarrow> False
     | Some s \<Rightarrow> s \<noteq> [] \<and> length s \<le> MEDIA_OWNER_ID_MAX_LENGTH \<and> is_alnum (hd s) \<and>
         list_all (\<lambda>c. is_alnum c \<or> c \<in> set ''._-'') (tl s))"

subsection \<open>References\<close>

definition int_within :: "json \<Rightarrow> int \<Rightarrow> bool" where
  "int_within v m = (is_int_num v \<and> (case finite_num v of Some q \<Rightarrow> 0 < q \<and> q \<le> of_int m | None \<Rightarrow> False))"

definition number_of :: "json \<Rightarrow> rat" where
  "number_of v = (case finite_num v of Some q \<Rightarrow> q | None \<Rightarrow> 0)"

definition parseIncomingMediaRef :: "json \<Rightarrow> string option \<Rightarrow> json option" where
  "parseIncomingMediaRef value expectedOwnerId =
     (let input = value;
          mime = normalizeMediaMime (field input ''mime'')
      in if \<not> is_object value then None
         else if field input ''ownerType'' \<noteq> JStr ''message'' \<or> \<not> isValidMediaOwnerId (field input ''ownerId'') then None
         else if truthy_string expectedOwnerId \<and> field input ''ownerId'' \<noteq> JStr (the expectedOwnerId) then None
         else if \<not> int_within (field input ''chunkSize'') INLINE_MEDIA_CHUNK_SIZE \<or>
                 \<not> int_within (field input ''size'') INLINE_MEDIA_MAX_BYTES \<or>
                 \<not> int_within (field input ''total'') MEDIA_MAX_CHUNKS then None
         else if number_of (field input ''total'') \<noteq>
                 of_int \<lceil>number_of (field input ''size'') / number_of (field input ''chunkSize'')\<rceil> then None
         else if isPreviewMediaClaim (field input ''mime'') \<and> \<not> isSafePreviewMime mime then None
         else Some (JObj
           [(''ownerType'', JStr ''message''), (''ownerId'', field input ''ownerId''), (''mime'', JStr mime),
            (''total'', field input ''total''), (''chunkSize'', field input ''chunkSize''),
            (''name'', JStr (if isSafePreviewMime mime
               then canonicalizePreviewFilename (field input ''name'') mime
               else sanitizeMediaFilename (field input ''name''))),
            (''size'', field input ''size'')]))"

subsection \<open>What is accepted\<close>

definition name_ok :: "string \<Rightarrow> bool" where
  "name_ok s \<longleftrightarrow> s \<noteq> [] \<and> length s \<le> MEDIA_FILENAME_MAX_LENGTH \<and> list_all (\<lambda>c. \<not> unsafe_char c) s"

lemma unsafe_underscore [simp]: "\<not> unsafe_char (CHR ''_'')" "\<not> unsafe_char (CHR ''.'')"
  by (simp_all add: unsafe_char_def)

lemma set_strip_ends: "set (strip_ends f b s) \<subseteq> set s"
  unfolding strip_ends_def by (metis set_dropWhileD set_rev subsetI)

lemma length_strip_ends: "length (strip_ends f b s) \<le> length s"
  unfolding strip_ends_def by (metis length_dropWhile_le length_rev order_trans)

lemma set_squeeze_dots: "set (squeeze_dots s) \<subseteq> insert (CHR ''_'') (set s)"
  by (induction s rule: squeeze_dots.induct) (auto dest: set_dropWhileD)

lemma attachment_ok: "name_ok ''attachment''"
  by (simp add: name_ok_def unsafe_char_def MEDIA_FILENAME_MAX_LENGTH_def)

lemma sanitize_ok: "name_ok (sanitizeMediaFilename v)"
proof -
  define cand where "cand = map (\<lambda>c. if unsafe_char c then CHR ''_'' else c) (case str_of v of Some s \<Rightarrow> s | None \<Rightarrow> [])"
  have "list_all (\<lambda>c. \<not> unsafe_char c) cand" by (auto simp: cand_def list_all_iff)
  then have "list_all (\<lambda>c. \<not> unsafe_char c) (take n (strip_ends is_edge is_edge cand))" for n
    using set_strip_ends [of is_edge is_edge cand] by (auto simp: list_all_iff dest!: in_set_takeD)
  then show ?thesis
    using attachment_ok unfolding sanitizeMediaFilename_def Let_def cand_def [symmetric]
    by (auto simp: name_ok_def)
qed

lemma extension_ok:
  "map_of PREVIEW_EXTENSIONS m = Some e \<Longrightarrow> e \<noteq> [] \<and> length e \<le> 5 \<and> list_all (\<lambda>c. \<not> unsafe_char c) e"
  by (auto simp: PREVIEW_EXTENSIONS_def unsafe_char_def split: if_splits)

lemma preview_stem_ok:
  fixes f b
  assumes "list_all (\<lambda>c. \<not> unsafe_char c) s" "length e \<le> 5" "list_all (\<lambda>c. \<not> unsafe_char c) e"
  defines "stem \<equiv> take (MEDIA_FILENAME_MAX_LENGTH - length e) (strip_ends f b (squeeze_dots s))"
  shows "name_ok ((if stem = [] then ''media'' else stem) @ e)"
proof -
  have "list_all (\<lambda>c. \<not> unsafe_char c) stem"
    using assms(1) set_strip_ends [of f b "squeeze_dots s"] set_squeeze_dots [of s]
    unfolding stem_def list_all_iff by (auto dest!: in_set_takeD)
  moreover have "list_all (\<lambda>c. \<not> unsafe_char c) ''media''" by (simp add: unsafe_char_def)
  moreover have "length stem + length e \<le> MEDIA_FILENAME_MAX_LENGTH"
    using assms(2) by (simp add: stem_def MEDIA_FILENAME_MAX_LENGTH_def)
  ultimately show ?thesis using assms(2,3) by (auto simp: name_ok_def MEDIA_FILENAME_MAX_LENGTH_def)
qed

lemma canonicalize_ok: "name_ok (canonicalizePreviewFilename v m)"
proof (cases "map_of PREVIEW_EXTENSIONS (normalizeMediaMime (JStr m))")
  case None
  then show ?thesis by (simp add: canonicalizePreviewFilename_def Let_def sanitize_ok)
next
  case (Some e)
  let ?s = "sanitizeMediaFilename v"
  define raw where "raw = (case last_index (CHR ''.'') ?s of
      Some d \<Rightarrow> if 0 < d then take d ?s else ?s | None \<Rightarrow> ?s)"
  have "list_all (\<lambda>c. \<not> unsafe_char c) ?s" using sanitize_ok by (simp add: name_ok_def)
  then have "list_all (\<lambda>c. \<not> unsafe_char c) raw"
    unfolding raw_def by (auto simp: list_all_iff dest!: in_set_takeD split: option.splits)
  then show ?thesis
    using preview_stem_ok extension_ok [OF Some]
    by (simp add: canonicalizePreviewFilename_def Let_def Some raw_def)
qed

text \<open>
  C39. A media reference that is accepted is within the limits and shown under a harmless name:
  it belongs to the message it came with, its chunk size, size and number of chunks are positive
  integers within their limits and the number of chunks is the size over the chunk size, rounded
  up; its file name is not empty, at most 180 characters long and free of path separators, control
  characters and the characters reserved by file systems; and a type claimed to be an image or
  a video is one of those the program previews.
\<close>

theorem accepted_media_ref_within_limits:
  assumes "parseIncomingMediaRef v (Some owner) = Some r" and "owner \<noteq> []"
  shows "field r ''ownerId'' = JStr owner \<and>
    (\<exists>chunk size total. finite_num (field r ''chunkSize'') = Some (of_int chunk) \<and>
       finite_num (field r ''size'') = Some (of_int size) \<and> finite_num (field r ''total'') = Some (of_int total) \<and>
       0 < chunk \<and> chunk \<le> INLINE_MEDIA_CHUNK_SIZE \<and> 0 < size \<and> size \<le> INLINE_MEDIA_MAX_BYTES \<and>
       total \<le> MEDIA_MAX_CHUNKS \<and> (total - 1) * chunk < size \<and> size \<le> total * chunk) \<and>
    (\<exists>name. field r ''name'' = JStr name \<and> name_ok name) \<and>
    (isPreviewMediaClaim (field v ''mime'') \<longrightarrow>
       (\<exists>m. field r ''mime'' = JStr m \<and> isSafePreviewMime m))"
proof -
  have int: "\<exists>i. finite_num w = Some (of_int i) \<and> number_of w = of_int i \<and> 0 < i \<and> i \<le> m" if "int_within w m" for w m
  proof -
    from that obtain q where q: "finite_num w = Some q" "of_int \<lfloor>q\<rfloor> = q" "0 < q" "q \<le> of_int m"
      by (auto simp: int_within_def is_int_num_def split: option.splits)
    from q(2) [symmetric] obtain i where "q = of_int i" by blast
    then show ?thesis using q by (simp add: number_of_def)
  qed
  let ?c = "field v ''chunkSize''" and ?s = "field v ''size''" and ?t = "field v ''total''"
  have ok: "int_within ?c INLINE_MEDIA_CHUNK_SIZE" "int_within ?s INLINE_MEDIA_MAX_BYTES"
    "int_within ?t MEDIA_MAX_CHUNKS" "number_of ?t = of_int \<lceil>number_of ?s / number_of ?c\<rceil>"
    and owner: "field v ''ownerId'' = JStr owner"
    and claim: "isPreviewMediaClaim (field v ''mime'') \<Longrightarrow> isSafePreviewMime (normalizeMediaMime (field v ''mime''))"
    using assms by (auto simp: parseIncomingMediaRef_def Let_def split: if_splits)
  from int [OF ok(1)] int [OF ok(2)] int [OF ok(3)] obtain c s t where
    c: "finite_num ?c = Some (of_int c)" "number_of ?c = of_int c" "0 < c" "c \<le> INLINE_MEDIA_CHUNK_SIZE" and
    s: "finite_num ?s = Some (of_int s)" "number_of ?s = of_int s" "0 < s" "s \<le> INLINE_MEDIA_MAX_BYTES" and
    t: "finite_num ?t = Some (of_int t)" "number_of ?t = of_int t" "0 < t" "t \<le> MEDIA_MAX_CHUNKS" by blast
  have "t = \<lceil>(of_int s :: rat) / of_int c\<rceil>" using ok(4) c(2) s(2) t(2) by simp
  then have "of_int (t - 1) < (of_int s :: rat) / of_int c" "(of_int s :: rat) / of_int c \<le> of_int t"
    by linarith+
  then have "(of_int (t - 1) :: rat) * of_int c < of_int s" "(of_int s :: rat) \<le> of_int t * of_int c"
    using c(3) by (simp_all add: field_simps)
  then have bounds: "(t - 1) * c < s" "s \<le> t * c" by (metis of_int_less_iff of_int_mult, metis of_int_le_iff of_int_mult)
  have r: "field r ''ownerId'' = field v ''ownerId''" "field r ''chunkSize'' = ?c" "field r ''size'' = ?s"
    "field r ''total'' = ?t" "field r ''mime'' = JStr (normalizeMediaMime (field v ''mime''))"
    "\<exists>n. field r ''name'' = JStr n \<and> name_ok n"
    using assms(1) sanitize_ok canonicalize_ok by (auto simp: parseIncomingMediaRef_def Let_def split: if_splits)
  show ?thesis using r owner c s t bounds claim by auto
qed

text \<open>
  The trimming of a file name is undone by the cut: a name of 179 harmless characters that
  starts with no dot or space, followed by a dot and further harmless text, is cut to 180
  characters after its ends were trimmed, and what is shown ends in the dot that the trimming is
  there to remove.
\<close>

theorem cut_name_ends_in_dot:
  assumes "length s = 179" "list_all (\<lambda>c. \<not> unsafe_char c) s" "\<not> is_edge (hd s)"
    and "t \<noteq> []" "list_all (\<lambda>c. \<not> unsafe_char c \<and> \<not> is_edge c) t"
  shows "sanitizeMediaFilename (JStr (s @ ''.'' @ t)) = s @ ''.''"
proof -
  let ?f = "\<lambda>c. if unsafe_char c then CHR ''_'' else c"
  have "map ?f s = s" by (rule map_idI) (use assms(2) in \<open>auto simp: list_all_iff\<close>)
  moreover have "map ?f t = t" by (rule map_idI) (use assms(5) in \<open>auto simp: list_all_iff\<close>)
  ultimately have m: "map ?f (s @ ''.'' @ t) = s @ ''.'' @ t" by simp
  have "dropWhile is_edge (s @ ''.'' @ t) = s @ ''.'' @ t"
    using assms(1,3) by (cases s) simp_all
  moreover have "dropWhile is_edge (rev t @ w) = rev t @ w" for w
    using assms(4,5) by (cases t rule: rev_cases) simp_all
  then have "dropWhile is_edge (rev (s @ ''.'' @ t)) = rev (s @ ''.'' @ t)"
    by (simp only: rev_append append_assoc)
  ultimately have "strip_ends is_edge is_edge (s @ ''.'' @ t) = s @ ''.'' @ t"
    by (simp only: strip_ends_def rev_rev_ident)
  then have "take 180 (strip_ends is_edge is_edge (map ?f (s @ ''.'' @ t))) = s @ ''.''"
    using assms(1) by (simp only: m) simp
  then show ?thesis
    unfolding sanitizeMediaFilename_def Let_def str_of.simps option.case MEDIA_FILENAME_MAX_LENGTH_def
    by simp
qed

theorem cut_name_ends_in_dot_witness:
  "sanitizeMediaFilename (JStr (replicate 179 (CHR ''a'') @ ''.'' @ ''png'')) = replicate 179 (CHR ''a'') @ ''.''"
proof (rule cut_name_ends_in_dot)
  show "list_all (\<lambda>c. \<not> unsafe_char c) (replicate 179 (CHR ''a''))"
    by (simp add: list_all_iff unsafe_char_def)
qed (simp_all add: unsafe_char_def is_edge_def)

definition sample_ref :: json where
  "sample_ref = JObj [(''ownerType'', JStr ''message''), (''ownerId'', JStr ''e1''), (''mime'', JStr ''image/png''),
     (''total'', JNum ''3''), (''chunkSize'', JNum ''10''), (''name'', JStr ''a.png''), (''size'', JNum ''25'')]"

lemma sample_ref_accepted: "parseIncomingMediaRef sample_ref (Some ''e1'') = Some sample_ref"
proof -
  have n: "num_value ''3'' = 3" "num_value ''10'' = 10" "num_value ''25'' = 25"
    by (simp_all add: num_value_def exponent_value_def index_value_def)
  have mime: "normalizeMediaMime (JStr ''image/png'') = ''image/png''"
    "isPreviewMediaClaim (JStr ''image/png'')" by code_simp+
  have name: "canonicalizePreviewFilename (JStr ''a.png'') ''image/png'' = ''a.png''" by code_simp
  have owner: "isValidMediaOwnerId (JStr ''e1'')" by code_simp
  have ceil: "\<lceil>(25::rat) / 10\<rceil> = 3" by (rule ceiling_unique) simp_all
  have within: "int_within (JNum ''10'') INLINE_MEDIA_CHUNK_SIZE" "int_within (JNum ''25'') INLINE_MEDIA_MAX_BYTES"
    by (simp_all add: int_within_def is_int_num_def n INLINE_MEDIA_CHUNK_SIZE_def INLINE_MEDIA_MAX_BYTES_def)
  have "3 \<le> MEDIA_MAX_CHUNKS" unfolding MEDIA_MAX_CHUNKS_def INLINE_MEDIA_MAX_BYTES_def by simp
  then have "int_within (JNum ''3'') MEDIA_MAX_CHUNKS" by (simp add: int_within_def is_int_num_def n)
  then show ?thesis
    using mime name owner ceil within
    by (simp add: parseIncomingMediaRef_def sample_ref_def Let_def number_of_def n isSafePreviewMime_def
        SAFE_PREVIEW_MIMES_def)
qed

theorem accepted_media_ref_within_limits_witness:
  "(\<exists>name. field sample_ref ''name'' = JStr name \<and> name_ok name) \<and> field sample_ref ''ownerId'' = JStr ''e1''"
  using accepted_media_ref_within_limits [OF sample_ref_accepted] by simp

end
