(* ===== verification/Sync_State.thy ===== *)
theory Sync_State
  imports Envelope_Box Friend_Code Receipt_Store Media_Policy "HOL-Library.AList"
begin

text \<open>
  What the synchronisation engine (src/src/sync/syncEngine.ts) shares between its parts: the
  capabilities of peers, what it knows of the peer of a conversation, and the tables of the
  database it reads and writes (src/src/db/repo.ts). A row is the JSON value that is stored; the
  encryption of the rows is left out. A JavaScript Map is an association list in the order
  of insertion, which an update of a present key keeps.
\<close>

subsection \<open>Capabilities\<close>

record peer_caps =
  caps_proto :: int
  caps_sync :: int
  caps_ratchet :: int
  caps_mediaChunks :: bool
  caps_mediaV :: int
  caps_roles :: bool
  caps_devicesV :: int

definition LEGACY_PEER_CAPS :: peer_caps where
  "LEGACY_PEER_CAPS = \<lparr>caps_proto = 1, caps_sync = 1, caps_ratchet = 0, caps_mediaChunks = False,
     caps_mediaV = 0, caps_roles = False, caps_devicesV = 0\<rparr>"

definition LOCAL_CAPS :: json where
  "LOCAL_CAPS = JObj [(''proto'', JNum ''1''), (''sync'', JObj [(''v'', JNum ''2'')]),
     (''ratchet'', JObj [(''v'', JNum ''2'')]),
     (''media'', JObj [(''chunks'', JBool True), (''v'', JNum ''2'')]),
     (''devices'', JObj [(''roles'', JBool True), (''v'', JNum ''1'')])]"

definition normalizeCapVersion :: "json \<Rightarrow> int \<Rightarrow> int" where
  "normalizeCapVersion value fallback = (case finite_num value of
       Some q \<Rightarrow> if 0 \<le> q then \<lfloor>q\<rfloor> else fallback
     | None \<Rightarrow> fallback)"

definition normalizePeerCaps :: "json \<Rightarrow> peer_caps" where
  "normalizePeerCaps caps =
     \<lparr>caps_proto = normalizeCapVersion (field caps ''proto'') (caps_proto LEGACY_PEER_CAPS),
      caps_sync = normalizeCapVersion (field (field caps ''sync'') ''v'') (caps_sync LEGACY_PEER_CAPS),
      caps_ratchet = normalizeCapVersion (field (field caps ''ratchet'') ''v'') (caps_ratchet LEGACY_PEER_CAPS),
      caps_mediaChunks = truthy (field (field caps ''media'') ''chunks''),
      caps_mediaV = normalizeCapVersion (field (field caps ''media'') ''v'') (caps_mediaV LEGACY_PEER_CAPS),
      caps_roles = truthy (field (field caps ''devices'') ''roles''),
      caps_devicesV = normalizeCapVersion (field (field caps ''devices'') ''v'') (caps_devicesV LEGACY_PEER_CAPS)\<rparr>"

subsection \<open>Peers\<close>

datatype peer_kind = PeerFriend | PeerDevice

record peer_context =
  pc_kind :: "peer_kind option"
  pc_onionAddr :: "string option"
  pc_directAddr :: "string option"
  pc_friendKeyId :: "string option"
  pc_identityPub :: "string option"
  pc_dhPub :: "string option"
  pc_peerDeviceId :: "string option"
  pc_peerCaps :: "peer_caps option"

definition empty_peer :: peer_context where
  "empty_peer = \<lparr>pc_kind = None, pc_onionAddr = None, pc_directAddr = None, pc_friendKeyId = None,
     pc_identityPub = None, pc_dhPub = None, pc_peerDeviceId = None, pc_peerCaps = None\<rparr>"

type_synonym peers = "(string \<times> peer_context) list"

definition peer_caps_of :: "peers \<Rightarrow> string \<Rightarrow> peer_caps option" where
  "peer_caps_of ps convId = Option.bind (map_of ps convId) pc_peerCaps"

definition getPeerCaps :: "peers \<Rightarrow> string \<Rightarrow> peer_caps" where
  "getPeerCaps ps convId = nullish (peer_caps_of ps convId) LEGACY_PEER_CAPS"

definition canUseBinaryMediaTransport :: "peers \<Rightarrow> string \<Rightarrow> bool" where
  "canUseBinaryMediaTransport ps convId \<longleftrightarrow>
     caps_mediaChunks (getPeerCaps ps convId) \<and> 2 \<le> caps_mediaV (getPeerCaps ps convId)"

definition hasKnownPeerCaps :: "peers \<Rightarrow> string \<Rightarrow> bool" where
  "hasKnownPeerCaps ps convId \<longleftrightarrow> peer_caps_of ps convId \<noteq> None"

definition getPeerCapsForEvent :: "peers \<Rightarrow> string \<Rightarrow> string \<Rightarrow> peer_caps" where
  "getPeerCapsForEvent ps convKeyId eventConvId = (case peer_caps_of ps eventConvId of
       Some c \<Rightarrow> c
     | None \<Rightarrow> (case peer_caps_of ps convKeyId of Some c \<Rightarrow> c | None \<Rightarrow> LEGACY_PEER_CAPS))"

definition getPeerRatchetVersion :: "peer_caps \<Rightarrow> nat" where
  "getPeerRatchetVersion caps = (if 2 \<le> caps_ratchet caps then 2 else if 1 \<le> caps_ratchet caps then 1 else 0)"

definition canUseRoleEvents :: "peer_caps \<Rightarrow> bool" where
  "canUseRoleEvents caps \<longleftrightarrow> caps_roles caps \<and> 1 \<le> caps_devicesV caps"

definition canUseFlowControl :: "peers \<Rightarrow> string \<Rightarrow> bool" where
  "canUseFlowControl ps convId \<longleftrightarrow> 2 \<le> caps_sync (getPeerCaps ps convId)"

lemma caps_versions_nonneg:
  "0 \<le> caps_sync (normalizePeerCaps v)" "0 \<le> caps_ratchet (normalizePeerCaps v)"
  "0 \<le> caps_mediaV (normalizePeerCaps v)" "0 \<le> caps_devicesV (normalizePeerCaps v)" "0 \<le> caps_proto (normalizePeerCaps v)"
  by (auto simp: normalizePeerCaps_def normalizeCapVersion_def LEGACY_PEER_CAPS_def split: option.splits)

subsection \<open>Tables\<close>

text \<open>
  The key of a row is its property id. The database takes no row without a key; an id that is a
  number, which it would take too, is outside the model.
\<close>

definition row_key :: "json \<Rightarrow> string" where
  "row_key row = (case str_of (field row ''id'') of Some s \<Rightarrow> s | None \<Rightarrow> [])"

definition saveRow :: "json \<Rightarrow> json list \<Rightarrow> json list option" where
  "saveRow row t = (if str_of (field row ''id'') = None then None else Some (tbl_put row_key row t))"

abbreviation rows_ok :: "json list \<Rightarrow> bool" where
  "rows_ok \<equiv> tbl_ok row_key"

interpretation rows: keyed_table row_key "tbl_get row_key" "tbl_put row_key" "tbl_delete row_key"
    "tbl_update row_key" rows_ok
  by (rule list_table_keyed)

text \<open>What other components are asked to do.\<close>

datatype sync_call =
    CallSaveChunk json bytes
  | CallFriendFrame json
  | CallRoleEvent json

record app_state =
  ap_conversations :: "json list"
  ap_messages :: "json list"
  ap_profiles :: "json list"
  ap_receipts :: "receipt_record list"
  ap_deferredRoles :: "(string \<times> (string \<times> json) list) list"
  ap_userIdCache :: "json option"
  ap_calls :: "sync_call list"

definition saveConversation :: "json \<Rightarrow> app_state \<Rightarrow> app_state option" where
  "saveConversation conv a = map_option (\<lambda>t. a\<lparr>ap_conversations := t\<rparr>) (saveRow conv (ap_conversations a))"

definition saveMessage :: "json \<Rightarrow> app_state \<Rightarrow> app_state option" where
  "saveMessage m a = map_option (\<lambda>t. a\<lparr>ap_messages := t\<rparr>) (saveRow m (ap_messages a))"

definition saveProfile :: "json \<Rightarrow> app_state \<Rightarrow> app_state option" where
  "saveProfile p a = map_option (\<lambda>t. a\<lparr>ap_profiles := t\<rparr>) (saveRow p (ap_profiles a))"

definition find_row :: "(json \<Rightarrow> bool) \<Rightarrow> json list \<Rightarrow> json" where
  "find_row P t = (case List.find P t of Some row \<Rightarrow> row | None \<Rightarrow> JNull)"

text \<open>The local user is looked up once and kept, also when there is none.\<close>

definition resolveLocalUserId :: "app_state \<Rightarrow> json \<times> app_state" where
  "resolveLocalUserId a = (case ap_userIdCache a of
       Some u \<Rightarrow> (u, a)
     | None \<Rightarrow>
         let user = find_row (\<lambda>p. field p ''kind'' = JStr ''user'') (ap_profiles a);
             u = nn (field user ''id'') JNull
         in (u, a\<lparr>ap_userIdCache := Some u\<rparr>))"

definition resolveSenderProfileId :: "peers \<Rightarrow> app_state \<Rightarrow> string \<Rightarrow> json" where
  "resolveSenderProfileId ps a peerConvId = (case map_of ps peerConvId of
       None \<Rightarrow> JNull
     | Some peer \<Rightarrow>
         let friends = filter (\<lambda>p. field p ''kind'' = JStr ''friend'') (ap_profiles a);
             by_key = (\<lambda>prop. find_row (\<lambda>f. truthy_string (pc_friendKeyId peer) \<and>
               field f prop = JStr (the (pc_friendKeyId peer))) friends);
             by_identity = find_row (\<lambda>f. truthy_string (pc_identityPub peer) \<and>
               field f ''identityPub'' = JStr (the (pc_identityPub peer))) friends;
             m = (if by_key ''id'' \<noteq> JNull then by_key ''id''
                  else if by_key ''friendId'' \<noteq> JNull then by_key ''friendId''
                  else by_identity)
         in nn (field m ''id'') JNull)"

end
