(* ===== verification/Group_Sync.thy ===== *)
theory Group_Sync
  imports Sync_State
begin

text \<open>
  Group membership by events (src/src/sync/groupSync.ts): who may create a group, invite into it
  and leave it. The Korean texts of the user interface are written as their UTF-8 octets. An array
  of members holds strings; a member that is no string makes no difference to the model.
\<close>

subsection \<open>Texts\<close>

definition octets :: "nat list \<Rightarrow> string" where
  "octets ns = map char_of ns"

definition text_me :: string where
  "text_me = octets [235, 130, 152]"

definition text_unknown :: string where
  "text_unknown = octets [236, 149, 140, 32, 236, 136, 152, 32, 236, 151, 134, 236, 157, 140]"

definition text_has_left :: string where
  "text_has_left = octets [235, 139, 152, 236, 157, 180, 32, 235, 130, 152, 234, 176, 148, 236, 138, 181,
     235, 139, 136, 235, 139, 164, 46]"

definition text_member_left :: string where
  "text_member_left = octets [235, 169, 164, 235, 178, 132, 234, 176, 128, 32, 235, 130, 152, 234, 176, 148,
     236, 138, 181, 235, 139, 136, 235, 139, 164, 46]"

definition text_i_left :: string where
  "text_i_left = octets [235, 130, 180, 234, 176, 128, 32, 235, 130, 152, 234, 176, 148, 236, 138, 181,
     235, 139, 136, 235, 139, 164, 46]"

subsection \<open>Events\<close>

definition isGroupEventPayload :: "json \<Rightarrow> bool" where
  "isGroupEventPayload value \<longleftrightarrow> is_object value \<and> field value ''type'' = JStr ''group'' \<and>
     (field value ''kind'' = JStr ''group.create'' \<or> field value ''kind'' = JStr ''group.invite'' \<or>
      field value ''kind'' = JStr ''group.leave'')"

text \<open>The elements a spread yields; on what cannot be iterated it throws.\<close>

fun iterate :: "json \<Rightarrow> json list option" where
  "iterate (JArr xs) = Some xs"
| "iterate (JStr s) = Some (map (\<lambda>c. JStr [c]) s)"
| "iterate _ = None"

fun elements :: "json \<Rightarrow> json list" where
  "elements (JArr xs) = xs"
| "elements _ = []"

definition uniq_ids :: "json list \<Rightarrow> json list" where
  "uniq_ids values = rev (remdups (rev (filter truthy values)))"

definition canApplyForUser :: "json list \<Rightarrow> json \<Rightarrow> bool" where
  "canApplyForUser memberIds currentUserId \<longleftrightarrow> truthy currentUserId \<and> currentUserId \<in> set memberIds"

text \<open>The operator \<open>||\<close>, and \<open>Math.max\<close> of two numbers; NaN is stored as null.\<close>

definition or_value :: "json \<Rightarrow> json \<Rightarrow> json" where
  "or_value v w = (if truthy v then v else w)"

definition max_num :: "json \<Rightarrow> json \<Rightarrow> json" where
  "max_num v w = (case (finite_num v, finite_num w) of
       (Some a, Some b) \<Rightarrow> if a \<le> b then w else v
     | _ \<Rightarrow> JNull)"

record group_next =
  gn_id :: json
  gn_name :: json
  gn_participants :: "json list"
  gn_ts :: json
  gn_lastMessage :: string
  gn_hidden :: json
  gn_sharedAvatarRef :: json

definition buildBaseConversation :: "json \<Rightarrow> group_next \<Rightarrow> json" where
  "buildBaseConversation existing n = JObj
     [(''id'', gn_id n),
      (''type'', JStr ''group''),
      (''name'', or_value (or_value (gn_name n) (field existing ''name'')) (JStr ''Group'')),
      (''pinned'', nn (field existing ''pinned'') (JBool False)),
      (''unread'', nn (field existing ''unread'') (JNum ''0'')),
      (''hidden'', gn_hidden n),
      (''muted'', nn (field existing ''muted'') (JBool False)),
      (''blocked'', nn (field existing ''blocked'') (JBool False)),
      (''pendingAcceptance'', field existing ''pendingAcceptance''),
      (''lastTs'', max_num (nn (field existing ''lastTs'') (JNum ''0'')) (gn_ts n)),
      (''lastMessage'', or_value (or_value (JStr (gn_lastMessage n)) (field existing ''lastMessage'')) (JStr [])),
      (''participants'', JArr (gn_participants n)),
      (''sharedAvatarRef'', nn (gn_sharedAvatarRef n) (field existing ''sharedAvatarRef''))]"

text \<open>What a template literal makes of an id, a name or a time.\<close>

fun text_of :: "json \<Rightarrow> string" where
  "text_of (JStr s) = s"
| "text_of (JNum t) = t"
| "text_of JUndef = ''undefined''"
| "text_of _ = ''null''"

definition resolveName :: "app_state \<Rightarrow> json \<Rightarrow> json \<Rightarrow> string" where
  "resolveName a currentUserId i =
     (if i = currentUserId then text_me
      else let profile = find_row (\<lambda>p. field p ''id'' = i \<or> field p ''friendId'' = i) (ap_profiles a)
           in (if truthy (field profile ''displayName'') then text_of (field profile ''displayName'')
               else text_unknown))"

definition leave_message :: "app_state \<Rightarrow> json \<Rightarrow> json \<Rightarrow> json \<Rightarrow> json \<Rightarrow> json" where
  "leave_message a currentUserId groupId ts targetId = JObj
     [(''id'', JStr (''system:group.leave:'' @ text_of groupId @ '':'' @ text_of ts @ '':'' @ text_of targetId)),
      (''convId'', groupId), (''senderId'', JStr ''system''),
      (''text'', JStr (if targetId = currentUserId then text_i_left
         else resolveName a currentUserId targetId @ text_has_left)),
      (''ts'', ts)]"

fun save_all :: "json list \<Rightarrow> app_state \<Rightarrow> app_state option" where
  "save_all [] a = Some a"
| "save_all (m # ms) a = Option.bind (saveMessage m a) (save_all ms)"

text \<open>What an event writes: nothing, or a conversation and then messages. Where a spread throws, there is no result.\<close>

type_synonym group_writes = "(json \<times> json list) option"

definition apply_create :: "json \<Rightarrow> json \<Rightarrow> json \<Rightarrow> group_writes option" where
  "apply_create payload existing currentUserId = (case iterate (field payload ''memberIds'') of
       None \<Rightarrow> None
     | Some ms \<Rightarrow>
         let memberIds = uniq_ids (field payload ''actorId'' # ms)
         in if \<not> canApplyForUser memberIds currentUserId then Some None
            else Some (Some (buildBaseConversation existing
              \<lparr>gn_id = field payload ''id'', gn_name = field payload ''name'', gn_participants = memberIds,
               gn_ts = field payload ''ts'', gn_lastMessage = ''Group created'', gn_hidden = JBool False,
               gn_sharedAvatarRef = field payload ''sharedAvatarRef''\<rparr>, [])))"

definition apply_invite :: "json \<Rightarrow> json \<Rightarrow> json \<Rightarrow> group_writes option" where
  "apply_invite payload existing currentUserId =
     (case (iterate (field existing ''participants''), iterate (field payload ''memberIds'')) of
       (Some ps, Some ms) \<Rightarrow>
         let memberIds = uniq_ids (ps @ ms)
         in if \<not> canApplyForUser memberIds currentUserId then Some None
            else Some (Some (buildBaseConversation existing
              \<lparr>gn_id = field existing ''id'', gn_name = field existing ''name'', gn_participants = memberIds,
               gn_ts = field payload ''ts'', gn_lastMessage = ''Members invited'', gn_hidden = JBool False,
               gn_sharedAvatarRef = JUndef\<rparr>, []))
     | _ \<Rightarrow> None)"

definition leave_targets :: "json \<Rightarrow> json list" where
  "leave_targets payload =
     (let requestedTargets = (if elements (field payload ''memberIds'') \<noteq> []
          then elements (field payload ''memberIds'') else [field payload ''actorId''])
      in if field payload ''actorId'' \<in> set requestedTargets then requestedTargets
         else [field payload ''actorId''])"

definition apply_leave :: "json \<Rightarrow> json \<Rightarrow> json \<Rightarrow> app_state \<Rightarrow> group_writes" where
  "apply_leave payload existing currentUserId a =
     (let targets = leave_targets payload;
          participants = elements (field existing ''participants'');
          remaining = filter (\<lambda>i. i \<notin> set targets) participants;
          currentUserKey = nn currentUserId (JStr []);
          currentUserWasMember = (currentUserKey \<in> set participants);
          currentUserRemoved = (currentUserKey \<in> set targets);
          hidden = (if currentUserRemoved then JBool True else field existing ''hidden'');
          leaveLabel = (if targets \<noteq> [] \<and> truthy (hd targets)
            then resolveName a currentUserId (hd targets) @ text_has_left else text_member_left)
      in if \<not> currentUserWasMember \<and> \<not> currentUserRemoved then None
         else Some (buildBaseConversation existing
              \<lparr>gn_id = field existing ''id'', gn_name = field existing ''name'', gn_participants = remaining,
               gn_ts = field payload ''ts'', gn_lastMessage = leaveLabel, gn_hidden = hidden,
               gn_sharedAvatarRef = JUndef\<rparr>,
            map (leave_message a currentUserId (field existing ''id'') (field payload ''ts'')) targets))"

definition group_event_writes :: "json \<Rightarrow> json \<Rightarrow> json \<Rightarrow> app_state \<Rightarrow> group_writes option" where
  "group_event_writes payload senderId currentUserId a =
     (if \<not> truthy senderId \<or> senderId \<noteq> field payload ''actorId'' then Some None
      else
        let create = (field payload ''kind'' = JStr ''group.create'');
            groupId = (if create then field payload ''id'' else field payload ''groupId'');
            existing = find_row (\<lambda>c. field c ''id'' = groupId) (ap_conversations a)
        in if create then apply_create payload existing currentUserId
           else if existing = JNull then Some None
           else if senderId \<notin> set (elements (field existing ''participants'')) then Some None
           else if field payload ''kind'' = JStr ''group.invite'' then apply_invite payload existing currentUserId
           else Some (apply_leave payload existing currentUserId a))"

definition save_writes :: "group_writes \<Rightarrow> app_state \<Rightarrow> app_state option" where
  "save_writes w a = (case w of None \<Rightarrow> Some a | Some (c, ms) \<Rightarrow> Option.bind (saveConversation c a) (save_all ms))"

definition applyGroupEvent :: "json \<Rightarrow> json \<Rightarrow> json \<Rightarrow> app_state \<Rightarrow> app_state option" where
  "applyGroupEvent payload senderId currentUserId a =
     Option.bind (group_event_writes payload senderId currentUserId a) (\<lambda>w. save_writes w a)"

subsection \<open>Who changes what\<close>

lemma find_row_Some: "find_row P t = row \<Longrightarrow> row \<noteq> JNull \<Longrightarrow> row \<in> set t \<and> P row"
  by (auto simp: find_row_def find_Some_iff in_set_conv_nth split: option.splits)

lemma find_row_get:
  assumes "rows_ok t" "tbl_get row_key i t = Some row" "field row ''id'' = JStr i"
    and "\<forall>r \<in> set t. str_of (field r ''id'') \<noteq> None"
  shows "find_row (\<lambda>c. field c ''id'' = JStr i) t = row"
proof -
  have key: "field r ''id'' = JStr i \<longleftrightarrow> row_key r = i" if "r \<in> set t" for r
    using assms(4) that by (cases "field r ''id''") (auto simp: row_key_def)
  have "List.find (\<lambda>c. field c ''id'' = JStr i) u = tbl_get row_key i u" if "set u \<subseteq> set t" for u
    using that key by (induction u) auto
  then show ?thesis using assms(2) by (simp add: find_row_def)
qed

lemma uniq_ids_set [simp]: "set (uniq_ids xs) = {x \<in> set xs. truthy x}"
  by (auto simp: uniq_ids_def)

lemma uniq_ids_distinct: "distinct (uniq_ids xs)"
  by (simp add: uniq_ids_def)

text \<open>The row a conversation has after it is saved.\<close>

definition conversation :: "string \<Rightarrow> app_state \<Rightarrow> json option" where
  "conversation i a = tbl_get row_key i (ap_conversations a)"

lemma saveConversation_row:
  assumes "field c ''id'' = JStr i" "rows_ok (ap_conversations a)"
  obtains a' where "saveConversation c a = Some a'" "conversation i a' = Some c"
    "\<And>j. j \<noteq> i \<Longrightarrow> conversation j a' = conversation j a" "rows_ok (ap_conversations a')"
    "ap_messages a' = ap_messages a"
proof -
  have k: "row_key c = i" using assms(1) by (simp add: row_key_def)
  let ?a = "a\<lparr>ap_conversations := tbl_put row_key c (ap_conversations a)\<rparr>"
  have "saveConversation c a = Some ?a" using assms(1) by (simp add: saveConversation_def saveRow_def)
  moreover have "conversation j ?a = (if j = i then Some c else conversation j a)" for j
    using assms(2) k by (simp add: conversation_def tbl_get_put)
  moreover have "rows_ok (ap_conversations ?a)" using assms(2) by (simp add: tbl_ok_put)
  ultimately show thesis by (intro that [of ?a]) auto
qed

lemma save_all_conversations: "save_all ms a = Some a' \<Longrightarrow> ap_conversations a' = ap_conversations a"
proof (induction ms arbitrary: a)
  case (Cons m ms)
  then obtain b where b: "saveMessage m a = Some b" "save_all ms b = Some a'"
    by (auto simp: bind_eq_Some_conv)
  then show ?case using Cons.IH by (auto simp: saveMessage_def)
qed simp

lemma save_all_leave: "\<exists>a'. save_all (map (leave_message a0 u g ts) targets) a = Some a'"
  by (induction targets arbitrary: a)
    (simp_all add: saveMessage_def saveRow_def leave_message_def)

lemma base_fields [simp]:
  "field (buildBaseConversation e n) ''id'' = gn_id n"
  "field (buildBaseConversation e n) ''type'' = JStr ''group''"
  "field (buildBaseConversation e n) ''participants'' = JArr (gn_participants n)"
  "field (buildBaseConversation e n) ''hidden'' = gn_hidden n"
  by (simp_all add: buildBaseConversation_def)

lemma apply_leave_row:
  assumes "rows_ok (ap_conversations a)" "field row ''id'' = JStr i"
    and "nn u (JStr []) \<in> set (elements (field row ''participants'')) \<union> set (leave_targets payload)"
  obtains a' row' where "save_writes (apply_leave payload row u a) a = Some a'" "conversation i a' = Some row'"
    "elements (field row' ''participants'') =
       filter (\<lambda>m. m \<notin> set (leave_targets payload)) (elements (field row ''participants''))"
    "nn u (JStr []) \<in> set (leave_targets payload) \<longrightarrow> field row' ''hidden'' = JBool True"
proof -
  define c where "c = buildBaseConversation row
    \<lparr>gn_id = field row ''id'', gn_name = field row ''name'',
     gn_participants = filter (\<lambda>m. m \<notin> set (leave_targets payload)) (elements (field row ''participants'')),
     gn_ts = field payload ''ts'',
     gn_lastMessage = (if leave_targets payload \<noteq> [] \<and> truthy (hd (leave_targets payload))
        then resolveName a u (hd (leave_targets payload)) @ text_has_left else text_member_left),
     gn_hidden = (if nn u (JStr []) \<in> set (leave_targets payload) then JBool True else field row ''hidden''),
     gn_sharedAvatarRef = JUndef\<rparr>"
  have "field c ''id'' = JStr i" using assms(2) by (simp add: c_def)
  then obtain b where b: "saveConversation c a = Some b" "conversation i b = Some c"
    using saveConversation_row assms(1) by blast
  obtain a' where a': "save_all (map (leave_message a u (field row ''id'') (field payload ''ts''))
      (leave_targets payload)) b = Some a'"
    using save_all_leave by blast
  have "apply_leave payload row u a =
      Some (c, map (leave_message a u (field row ''id'') (field payload ''ts'')) (leave_targets payload))"
    using assms(3) unfolding apply_leave_def Let_def c_def by auto
  then have "save_writes (apply_leave payload row u a) a = Some a'" using b(1) a' by (simp add: save_writes_def)
  moreover have "conversation i a' = Some c"
    using save_all_conversations [OF a'] b(2) by (simp add: conversation_def)
  ultimately show thesis by (rule that) (simp_all add: c_def)
qed

lemmas group_event_simps = applyGroupEvent_def group_event_writes_def save_writes_def

text \<open>
  C24. A group event changes something only if the authenticated sender is the actor it names,
  and an invitation or a leave only if that sender is a participant of the conversation it is about.
\<close>

theorem group_change_is_authorized:
  assumes "applyGroupEvent payload senderId currentUserId a = Some a'" and "a' \<noteq> a"
  shows "truthy senderId \<and> field payload ''actorId'' = senderId \<and>
    (field payload ''kind'' = JStr ''group.create'' \<or>
     (\<exists>row \<in> set (ap_conversations a). field row ''id'' = field payload ''groupId'' \<and>
        senderId \<in> set (elements (field row ''participants''))))"
proof -
  let ?row = "find_row (\<lambda>c. field c ''id'' = field payload ''groupId'') (ap_conversations a)"
  have "truthy senderId" "senderId = field payload ''actorId''"
    using assms by (auto simp: group_event_simps split: if_splits)
  moreover have "?row \<noteq> JNull \<and> senderId \<in> set (elements (field ?row ''participants''))"
    if "field payload ''kind'' \<noteq> JStr ''group.create''"
    using assms that by (auto simp: group_event_simps Let_def split: if_splits)
  ultimately show ?thesis using find_row_Some [OF refl] by blast
qed

text \<open>
  A sender takes over any conversation whose id it knows, without being a participant: a create
  event with the id of an existing conversation, a direct one included, replaces its participants
  by those the event lists and makes it a group.
\<close>

theorem create_event_takes_over_conversation:
  assumes "conversation i a = Some row" and "rows_ok (ap_conversations a)"
    and "senderId \<notin> set (elements (field row ''participants''))"
    and "truthy senderId" "field payload ''actorId'' = senderId" "field payload ''kind'' = JStr ''group.create''"
    and "field payload ''id'' = JStr i" "field payload ''memberIds'' = JArr ms"
    and "truthy currentUserId" "currentUserId \<in> set ms"
  shows "\<exists>a' row'. applyGroupEvent payload senderId currentUserId a = Some a' \<and>
    conversation i a' = Some row' \<and> field row' ''type'' = JStr ''group'' \<and>
    field row' ''participants'' = JArr (uniq_ids (senderId # ms))"
proof -
  let ?e = "find_row (\<lambda>c. field c ''id'' = JStr i) (ap_conversations a)"
  define c where "c = buildBaseConversation ?e
      \<lparr>gn_id = JStr i, gn_name = field payload ''name'', gn_participants = uniq_ids (senderId # ms),
       gn_ts = field payload ''ts'', gn_lastMessage = ''Group created'', gn_hidden = JBool False,
       gn_sharedAvatarRef = field payload ''sharedAvatarRef''\<rparr>"
  have "applyGroupEvent payload senderId currentUserId a = saveConversation c a"
    using assms by (cases "saveConversation c a") (simp_all add: group_event_simps apply_create_def canApplyForUser_def c_def)
  moreover obtain a' where "saveConversation c a = Some a'" "conversation i a' = Some c"
    using saveConversation_row [of c i a] assms(2) by (auto simp: c_def)
  ultimately show ?thesis by (auto simp: c_def)
qed

text \<open>
  A member leaves and takes others along: a leave event of a participant that lists further
  members removes exactly the listed ones, none of whom has to agree; if the local user is listed,
  the conversation is hidden.
\<close>

theorem leave_event_removes_listed:
  assumes "conversation i a = Some row" "field row ''id'' = JStr i" "rows_ok (ap_conversations a)"
    and "\<forall>r \<in> set (ap_conversations a). str_of (field r ''id'') \<noteq> None"
    and "truthy senderId" "senderId \<in> set (elements (field row ''participants''))"
    and "field payload ''actorId'' = senderId" "field payload ''kind'' = JStr ''group.leave''"
    and "field payload ''groupId'' = JStr i" "field payload ''memberIds'' = JArr ms" "senderId \<in> set ms"
    and "truthy u" "u \<in> set (elements (field row ''participants''))"
  shows "\<exists>a' row'. applyGroupEvent payload senderId u a = Some a' \<and> conversation i a' = Some row' \<and>
    elements (field row' ''participants'') = filter (\<lambda>m. m \<notin> set ms) (elements (field row ''participants'')) \<and>
    (u \<in> set ms \<longrightarrow> field row' ''hidden'' = JBool True)"
proof -
  have e: "find_row (\<lambda>c. field c ''id'' = JStr i) (ap_conversations a) = row"
    using find_row_get assms(1-4) by (simp add: conversation_def)
  have t: "leave_targets payload = ms" using assms(7,10,11) by (auto simp: leave_targets_def)
  have u: "nn u (JStr []) = u" using assms(12) by (cases u) simp_all
  have "row \<noteq> JNull" using assms(2) by auto
  then have "applyGroupEvent payload senderId u a = save_writes (apply_leave payload row u a) a"
    using assms e by (simp add: applyGroupEvent_def group_event_writes_def)
  moreover obtain a' row' where "save_writes (apply_leave payload row u a) a = Some a'" "conversation i a' = Some row'"
    "elements (field row' ''participants'') = filter (\<lambda>m. m \<notin> set ms) (elements (field row ''participants''))"
    "u \<in> set ms \<longrightarrow> field row' ''hidden'' = JBool True"
    using apply_leave_row [OF assms(3,2), of u payload] assms(13) unfolding t u by blast
  ultimately show ?thesis by (intro exI conjI) simp_all
qed

subsection \<open>Concrete inputs\<close>

definition sample_row :: json where
  "sample_row = JObj [(''id'', JStr ''g''), (''type'', JStr ''direct''),
     (''participants'', JArr [JStr ''me'', JStr ''bob'', JStr ''carol''])]"

definition sample_app :: app_state where
  "sample_app = \<lparr>ap_conversations = [sample_row], ap_messages = [], ap_profiles = [], ap_receipts = [],
     ap_deferredRoles = [], ap_userIdCache = Some (JStr ''me''), ap_calls = []\<rparr>"

definition sample_event :: "string \<Rightarrow> string \<Rightarrow> json" where
  "sample_event kind actor = JObj [(''type'', JStr ''group''), (''kind'', JStr kind), (''id'', JStr ''g''),
     (''groupId'', JStr ''g''), (''actorId'', JStr actor), (''name'', JStr ''n''), (''ts'', JNum ''1''),
     (''memberIds'', JArr [JStr actor, JStr ''me''])]"

lemma sample_app_row: "conversation ''g'' sample_app = Some sample_row" "rows_ok (ap_conversations sample_app)"
  by (simp_all add: conversation_def sample_app_def sample_row_def row_key_def tbl_ok_def)

lemmas sample_simps = sample_event_def sample_row_def

theorem create_event_takes_over_conversation_witness:
  "\<exists>a' row'. applyGroupEvent (sample_event ''group.create'' ''eve'') (JStr ''eve'') (JStr ''me'') sample_app = Some a' \<and>
    conversation ''g'' a' = Some row' \<and> field row' ''type'' = JStr ''group'' \<and>
    field row' ''participants'' = JArr (uniq_ids (JStr ''eve'' # [JStr ''eve'', JStr ''me'']))"
  by (rule create_event_takes_over_conversation [OF sample_app_row]) (simp_all add: sample_simps)

theorem leave_event_removes_listed_witness:
  "\<exists>a' row'. applyGroupEvent (sample_event ''group.leave'' ''bob'') (JStr ''bob'') (JStr ''me'') sample_app = Some a' \<and>
    conversation ''g'' a' = Some row' \<and>
    elements (field row' ''participants'') =
      filter (\<lambda>m. m \<notin> set [JStr ''bob'', JStr ''me'']) (elements (field sample_row ''participants'')) \<and>
    (JStr ''me'' \<in> set [JStr ''bob'', JStr ''me''] \<longrightarrow> field row' ''hidden'' = JBool True)"
  by (rule leave_event_removes_listed [OF sample_app_row(1) _ sample_app_row(2)])
    (simp_all add: sample_simps sample_app_def)

theorem group_change_is_authorized_witness:
  "\<exists>a'. applyGroupEvent (sample_event ''group.invite'' ''bob'') (JStr ''bob'') (JStr ''me'') sample_app = Some a' \<and>
    a' \<noteq> sample_app \<and> field (sample_event ''group.invite'' ''bob'') ''actorId'' = JStr ''bob''"
proof -
  obtain a' where a': "applyGroupEvent (sample_event ''group.invite'' ''bob'') (JStr ''bob'') (JStr ''me'') sample_app = Some a'"
    and "field (hd (ap_conversations a')) ''type'' = JStr ''group''"
    by (simp add: group_event_simps apply_invite_def sample_simps sample_app_def find_row_def canApplyForUser_def
        saveConversation_def saveRow_def row_key_def Let_def)
  then have "a' \<noteq> sample_app" by (auto simp: sample_app_def sample_row_def)
  then show ?thesis using a' group_change_is_authorized [OF a'] by blast
qed

end
