(* ===== verification/Sync_Apply.thy ===== *)
theory Sync_Apply
  imports Group_Sync
begin

text \<open>
  What the body of a decrypted event does (src/src/sync/syncEngine.ts, with applyTOFU of
  src/src/security/trust.ts and sanitizeRoutingHints of src/src/net/privacy.ts): messages, contacts,
  conversations, group events, read cursors, and the changes of device roles that wait for the
  capabilities of the peer. Frames of the friend protocol, media chunks and role changes are
  handed to their components and recorded as calls. An operation that throws returns no value.
\<close>

subsection \<open>Routing hints and pins\<close>

definition onionV3Pattern :: "string \<Rightarrow> bool" where
  "onionV3Pattern s \<longleftrightarrow> length s = 62 \<and> drop 56 s = ''.onion'' \<and>
     list_all (\<lambda>c. let n = (of_char c :: nat) in (97 \<le> n \<and> n \<le> 122) \<or> (50 \<le> n \<and> n \<le> 55)) (take 56 s)"

text \<open>
  The address that fits the pattern has one dot and no colon, so the test for IP addresses and
  candidate lines that follows cannot match it and is left out. A trim of what is no string throws.
\<close>

definition sanitizeRoutingHints :: "json \<Rightarrow> json option" where
  "sanitizeRoutingHints hints =
     (if \<not> truthy hints then Some JUndef
      else (case (case field hints ''onionAddr'' of
                JUndef \<Rightarrow> Some None | JNull \<Rightarrow> Some None
              | JStr s \<Rightarrow> Some (Some (to_lower (trim s)))
              | _ \<Rightarrow> None) of
          None \<Rightarrow> None
        | Some addr \<Rightarrow>
            let onion = (case addr of Some s \<Rightarrow> if s \<noteq> [] \<and> onionV3Pattern s then [(''onionAddr'', JStr s)] else []
                  | None \<Rightarrow> []);
                device = (case field hints ''deviceId'' of
                    JStr d \<Rightarrow> if uuidPattern d then [(''deviceId'', JStr d)] else []
                  | _ \<Rightarrow> [])
            in Some (if onion @ device = [] then JUndef else JObj (onion @ device))))"

datatype tofu_result = TofuTrusted | TofuKeyChanged

definition applyTOFU :: "(json \<times> json) option \<Rightarrow> json \<times> json \<Rightarrow> tofu_result" where
  "applyTOFU existing incoming = (case existing of
       None \<Rightarrow> TofuTrusted
     | Some e \<Rightarrow> if fst e = fst incoming \<and> snd e = snd incoming then TofuTrusted else TofuKeyChanged)"

subsection \<open>Role changes that wait\<close>

definition add_call :: "sync_call \<Rightarrow> app_state \<Rightarrow> app_state" where
  "add_call c a = a\<lparr>ap_calls := ap_calls a @ [c]\<rparr>"

definition deferRoleChangeEvent :: "string \<Rightarrow> string \<Rightarrow> json \<Rightarrow> app_state \<Rightarrow> app_state" where
  "deferRoleChangeEvent convId eventId event a =
     (let pending = (case map_of (ap_deferredRoles a) convId of Some p \<Rightarrow> p | None \<Rightarrow> [])
      in a\<lparr>ap_deferredRoles := AList.update convId (AList.update eventId event pending) (ap_deferredRoles a)\<rparr>)"

definition flushDeferredRoleEvents :: "peers \<Rightarrow> string \<Rightarrow> app_state \<Rightarrow> app_state" where
  "flushDeferredRoleEvents ps convId a =
     (let pending = (case map_of (ap_deferredRoles a) convId of Some p \<Rightarrow> p | None \<Rightarrow> []);
          cleared = a\<lparr>ap_deferredRoles := AList.delete convId (ap_deferredRoles a)\<rparr>
      in if pending = [] then a
         else if \<not> hasKnownPeerCaps ps convId then a
         else if \<not> canUseRoleEvents (getPeerCaps ps convId) then cleared
         else fold (\<lambda>(i, e). add_call (CallRoleEvent e))
                (sort_key (\<lambda>(i, e). number_of (field e ''ts'')) pending) cleared)"

subsection \<open>Bodies\<close>

definition body_text :: "json \<Rightarrow> string" where
  "body_text body = (case str_of (field body ''text'') of Some s \<Rightarrow> s | None \<Rightarrow> [])"

definition updated_conversation :: "json \<Rightarrow> json \<Rightarrow> json \<Rightarrow> json" where
  "updated_conversation conv envelope body = spread conv
     [(''lastMessage'', JStr (body_text body)), (''lastTs'', field (field envelope ''header'') ''ts'')]"

definition incoming_message :: "json \<Rightarrow> json \<Rightarrow> json \<Rightarrow> json \<Rightarrow> json" where
  "incoming_message conv envelope body senderId =
     (let header = field envelope ''header'';
          media = (if field body ''media'' = JUndef then JUndef
            else (case parseIncomingMediaRef (field body ''media'') (str_of (field header ''eventId'')) of
                Some r \<Rightarrow> r | None \<Rightarrow> JUndef))
      in JObj [(''id'', field header ''eventId''), (''convId'', field conv ''id''),
           (''senderId'', senderId), (''text'', JStr (body_text body)), (''ts'', field header ''ts''),
           (''media'', media), (''clientBatchId'', field body ''clientBatchId'')])"

definition applyMessageEvent :: "json \<Rightarrow> json \<Rightarrow> json \<Rightarrow> json \<Rightarrow> app_state \<Rightarrow> app_state option" where
  "applyMessageEvent conv envelope body senderId a =
     (if \<not> truthy conv then Some a
      else Option.bind (saveMessage (incoming_message conv envelope body senderId) a)
        (saveConversation (updated_conversation conv envelope body)))"

definition blocked_profile :: "time_ms \<Rightarrow> json \<Rightarrow> json" where
  "blocked_profile now existing = spread existing
     [(''trust'', JObj [(''pinnedAt'', nn (field (field existing ''trust'') ''pinnedAt'') (int_num now)),
         (''status'', JStr ''blocked''), (''reason'', JStr ''key_changed'')]),
      (''friendStatus'', JStr ''blocked''), (''updatedAt'', int_num now)]"

definition merged_profile :: "time_ms \<Rightarrow> string \<Rightarrow> json \<Rightarrow> json \<Rightarrow> json \<Rightarrow> json" where
  "merged_profile now newId existing profile hints = JObj
     [(''id'', nn (field existing ''id'') (JStr newId)),
      (''friendId'', field profile ''friendId''),
      (''displayName'', nn (field profile ''displayName'') (nn (field existing ''displayName'') (JStr ''Friend''))),
      (''status'', nn (field profile ''status'') (nn (field existing ''status'') (JStr []))),
      (''theme'', nn (field profile ''theme'') (nn (field existing ''theme'') (JStr ''dark''))),
      (''kind'', JStr ''friend''),
      (''friendStatus'', nn (field profile ''friendStatus'') (nn (field existing ''friendStatus'') (JStr ''normal''))),
      (''isFavorite'', nn (field profile ''isFavorite'') (nn (field existing ''isFavorite'') (JBool False))),
      (''identityPub'', nn (field profile ''identityPub'') (field existing ''identityPub'')),
      (''dhPub'', nn (field profile ''dhPub'') (field existing ''dhPub'')),
      (''routingHints'', hints),
      (''primaryDeviceId'', nn (field profile ''primaryDeviceId'')
         (nn (field (field profile ''routingHints'') ''deviceId'') (field existing ''primaryDeviceId''))),
      (''trust'', nn (field existing ''trust'')
         (JObj [(''pinnedAt'', int_num now), (''status'', JStr ''trusted'')])),
      (''verification'', field existing ''verification''),
      (''reachability'', field existing ''reachability''),
      (''profileVcard'', nn (field profile ''profileVcard'') (field existing ''profileVcard'')),
      (''createdAt'', nn (field existing ''createdAt'') (int_num now)),
      (''updatedAt'', int_num now)]"

definition applyContactEvent :: "time_ms \<Rightarrow> string \<Rightarrow> json \<Rightarrow> app_state \<Rightarrow> app_state option" where
  "applyContactEvent now newId body a =
     (let profile = field body ''profile'' in
      if \<not> truthy profile \<or> \<not> truthy (field profile ''friendId'') then Some a
      else
        let existing = find_row (\<lambda>p. field p ''friendId'' = field profile ''friendId'') (ap_profiles a)
        in if truthy (field existing ''identityPub'') \<and> truthy (field existing ''dhPub'') \<and>
              truthy (field profile ''identityPub'') \<and> truthy (field profile ''dhPub'') \<and>
              applyTOFU (Some (field existing ''identityPub'', field existing ''dhPub''))
                (field profile ''identityPub'', field profile ''dhPub'') \<noteq> TofuTrusted
           then saveProfile (blocked_profile now existing) a
           else (case sanitizeRoutingHints (nn (field profile ''routingHints'') (field existing ''routingHints'')) of
                None \<Rightarrow> None
              | Some hints \<Rightarrow> saveProfile (merged_profile now newId existing profile hints) a))"

definition merged_conversation :: "time_ms \<Rightarrow> json \<Rightarrow> json \<Rightarrow> json" where
  "merged_conversation now incoming existing =
     (let keep = (\<lambda>k d. nn (field incoming k) (nn (field existing k) d)) in JObj
     [(''id'', field incoming ''id''),
      (''type'', keep ''type'' (JStr ''direct'')),
      (''name'', keep ''name'' (JStr ''Chat'')),
      (''pinned'', keep ''pinned'' (JBool False)),
      (''unread'', keep ''unread'' (JNum ''0'')),
      (''hidden'', keep ''hidden'' (JBool False)),
      (''muted'', keep ''muted'' (JBool False)),
      (''blocked'', keep ''blocked'' (JBool False)),
      (''pendingAcceptance'', nn (field incoming ''pendingAcceptance'') (field existing ''pendingAcceptance'')),
      (''pendingOutgoing'', nn (field incoming ''pendingOutgoing'') (field existing ''pendingOutgoing'')),
      (''pendingFriendResponse'', nn (field incoming ''pendingFriendResponse'') (field existing ''pendingFriendResponse'')),
      (''lastTs'', keep ''lastTs'' (int_num now)),
      (''lastMessage'', keep ''lastMessage'' (JStr [])),
      (''participants'', keep ''participants'' (JArr [])),
      (''sharedAvatarRef'', nn (field incoming ''sharedAvatarRef'') (field existing ''sharedAvatarRef''))])"

definition applyConversationEvent :: "time_ms \<Rightarrow> json \<Rightarrow> app_state \<Rightarrow> app_state option" where
  "applyConversationEvent now body a =
     (let incoming = field body ''conv'' in
      if \<not> truthy (field incoming ''id'') then Some a
      else saveConversation (merged_conversation now incoming
        (find_row (\<lambda>c. field c ''id'' = field incoming ''id'') (ap_conversations a))) a)"

definition valid_chunk :: "json \<Rightarrow> bool" where
  "valid_chunk body \<longleftrightarrow> str_of (field body ''ownerId'') \<noteq> None \<and> str_of (field body ''b64'') \<noteq> None \<and>
     str_of (field body ''mime'') \<noteq> None \<and> is_int_num (field body ''idx'') \<and> is_int_num (field body ''total'') \<and>
     is_int_num (field body ''chunkSize'') \<and> finite_num (field body ''size'') \<noteq> None"

definition apply_chunk :: "json \<Rightarrow> app_state \<Rightarrow> app_state" where
  "apply_chunk body a =
     (if \<not> valid_chunk body then a
      else (case Option.bind (str_of (field body ''b64'')) decodeBase64Url of
          None \<Rightarrow> a
        | Some bs \<Rightarrow> add_call (CallSaveChunk body bs) a))"

definition apply_read_cursor :: "time_ms \<Rightarrow> json \<Rightarrow> json \<Rightarrow> json \<Rightarrow> app_state \<Rightarrow> app_state" where
  "apply_read_cursor now envelope body senderId a =
     (case (str_of senderId, str_of (field body ''convId'')) of
       (Some sender, Some convId) \<Rightarrow>
         if sender = [] then a
         else
           let candidate = (if finite_num (field body ''cursorTs'') \<noteq> None then field body ''cursorTs''
                 else nn (field body ''ts'') (field (field envelope ''header'') ''ts''))
           in (case finite_num candidate of
                 None \<Rightarrow> a
               | Some q \<Rightarrow> a\<lparr>ap_receipts := putReadCursor now convId sender (Some \<lfloor>q\<rfloor>)
                   (str_of (nn (field body ''anchorMsgId'') (field body ''msgId''))) (ap_receipts a)\<rparr>)
     | _ \<Rightarrow> a)"

definition apply_friend_frame :: "peers \<Rightarrow> string \<Rightarrow> json \<Rightarrow> json \<Rightarrow> app_state \<Rightarrow> app_state" where
  "apply_friend_frame ps peerConvId envelope body a =
     (let authenticated = Option.bind (map_of ps peerConvId) pc_identityPub;
          claimed = field (field body ''from'') ''identityPub''
      in if \<not> truthy_string authenticated \<or> claimed \<noteq> JStr (the authenticated) then a
         else add_call (CallFriendFrame (spread body
           [(''ts'', nn (field body ''ts'') (field (field envelope ''header'') ''ts''))])) a)"

definition apply_role_change :: "peers \<Rightarrow> string \<Rightarrow> json \<Rightarrow> json \<Rightarrow> app_state \<Rightarrow> app_state" where
  "apply_role_change ps peerConvId envelope body a =
     (if canUseRoleEvents (getPeerCaps ps peerConvId) then add_call (CallRoleEvent body) a
      else if \<not> hasKnownPeerCaps ps peerConvId
      then deferRoleChangeEvent peerConvId (text_of (field (field envelope ''header'') ''eventId'')) body a
      else a)"

text \<open>
  The dispatch on the body. What throws inside leaves the state as it is, apart from the local
  user's id, which was looked up before; the caller catches the error and goes on.
\<close>

definition applyDecryptedBody ::
    "peers \<Rightarrow> time_ms \<Rightarrow> string \<Rightarrow> string \<Rightarrow> json \<Rightarrow> json \<Rightarrow> json \<Rightarrow> app_state \<Rightarrow> app_state" where
  "applyDecryptedBody ps now newId peerConvId conv envelope body a0 =
     (if \<not> is_object body then a0
      else
        let senderId = resolveSenderProfileId ps a0 peerConvId;
            (currentUserId, a) = resolveLocalUserId a0;
            or_same = (\<lambda>r. case r of Some a' \<Rightarrow> a' | None \<Rightarrow> a);
            type = field body ''type''
        in if isGroupEventPayload body then or_same (applyGroupEvent body senderId currentUserId a)
           else if type = JStr ''media'' \<and> field body ''phase'' = JStr ''chunk'' then apply_chunk body a
           else if type = JStr ''rcpt'' \<and> field body ''kind'' = JStr ''read_cursor''
           then apply_read_cursor now envelope body senderId a
           else if type = JStr ''msg'' then or_same (applyMessageEvent conv envelope body
             (nn senderId (nn currentUserId (field (field envelope ''header'') ''authorDeviceId''))) a)
           else if type = JStr ''friend_req'' \<or> type = JStr ''friend_accept'' \<or> type = JStr ''friend_decline''
           then apply_friend_frame ps peerConvId envelope body a
           else if type = JStr ''contact'' then or_same (applyContactEvent now newId body a)
           else if type = JStr ''conv'' then or_same (applyConversationEvent now body a)
           else if field body ''kind'' = JStr ''ROLE_CHANGE'' then apply_role_change ps peerConvId envelope body a
           else a)"

subsection \<open>Contacts and their pins\<close>

definition contact :: "string \<Rightarrow> app_state \<Rightarrow> json" where
  "contact f a = find_row (\<lambda>p. field p ''friendId'' = JStr f) (ap_profiles a)"

lemma saveProfile_row:
  assumes "field p ''id'' = JStr i" "rows_ok (ap_profiles a)"
  obtains a' where "saveProfile p a = Some a'" "tbl_get row_key i (ap_profiles a') = Some p"
    "ap_conversations a' = ap_conversations a"
proof -
  have k: "row_key p = i" using assms(1) by (simp add: row_key_def)
  let ?a = "a\<lparr>ap_profiles := tbl_put row_key p (ap_profiles a)\<rparr>"
  have "saveProfile p a = Some ?a" using assms(1) by (simp add: saveProfile_def saveRow_def)
  moreover have "tbl_get row_key i (ap_profiles ?a) = Some p" using assms(2) k by (simp add: tbl_get_put)
  ultimately show thesis by (intro that [of ?a]) auto
qed

lemma truthy_str [simp]: "truthy v \<Longrightarrow> v \<noteq> JUndef \<and> v \<noteq> JNull"
  by (cases v) auto

lemma nn_truthy [simp]: "truthy v \<Longrightarrow> nn v w = v"
  by (simp add: nn_def)

lemma blocked_fields [simp]:
  "field (blocked_profile now e) ''id'' = field e ''id''"
  "field (blocked_profile now e) ''identityPub'' = field e ''identityPub''"
  "field (blocked_profile now e) ''dhPub'' = field e ''dhPub''"
  "field (blocked_profile now e) ''friendStatus'' = JStr ''blocked''"
  "field (field (blocked_profile now e) ''trust'') ''status'' = JStr ''blocked''"
  by (simp_all add: blocked_profile_def field_spread)

lemma merged_fields [simp]:
  "field (merged_profile now i e p h) ''id'' = nn (field e ''id'') (JStr i)"
  "field (merged_profile now i e p h) ''identityPub'' = nn (field p ''identityPub'') (field e ''identityPub'')"
  "field (merged_profile now i e p h) ''dhPub'' = nn (field p ''dhPub'') (field e ''dhPub'')"
  "field (merged_profile now i e p h) ''friendStatus'' =
     nn (field p ''friendStatus'') (nn (field e ''friendStatus'') (JStr ''normal''))"
  "field (merged_profile now i e p h) ''trust'' =
     nn (field e ''trust'') (JObj [(''pinnedAt'', int_num now), (''status'', JStr ''trusted'')])"
  by (simp_all add: merged_profile_def)

text \<open>
  Keys that were pinned do not change by a contact event that brings both keys: where the
  keys differ, the contact is blocked and keeps its own keys, and where they agree nothing about
  them changes.
\<close>

theorem full_contact_event_keeps_pins:
  assumes "rows_ok (ap_profiles a)" and "field (contact f a) ''id'' = JStr i"
    and "truthy (field (contact f a) ''identityPub'')" "truthy (field (contact f a) ''dhPub'')"
    and "field body ''profile'' = profile" "field profile ''friendId'' = JStr f" "f \<noteq> []"
    and "truthy (field profile ''identityPub'')" "truthy (field profile ''dhPub'')"
    and "applyContactEvent now newId body a = Some a'"
  shows "\<exists>row. tbl_get row_key i (ap_profiles a') = Some row \<and>
    field row ''identityPub'' = field (contact f a) ''identityPub'' \<and>
    field row ''dhPub'' = field (contact f a) ''dhPub'' \<and>
    ((field profile ''identityPub'' \<noteq> field (contact f a) ''identityPub'' \<or>
      field profile ''dhPub'' \<noteq> field (contact f a) ''dhPub'') \<longrightarrow> field row ''friendStatus'' = JStr ''blocked'')"
proof -
  let ?e = "contact f a"
  have p: "truthy profile" using assms(6) by (cases profile) auto
  show ?thesis
  proof (cases "field profile ''identityPub'' = field ?e ''identityPub'' \<and> field profile ''dhPub'' = field ?e ''dhPub''")
    case True
    then obtain hints where "saveProfile (merged_profile now newId ?e profile hints) a = Some a'"
      using assms p by (auto simp: applyContactEvent_def applyTOFU_def contact_def Let_def split: option.splits)
    moreover have "field (merged_profile now newId ?e profile hints) ''id'' = JStr i" using assms(2) by simp
    ultimately have "tbl_get row_key i (ap_profiles a') = Some (merged_profile now newId ?e profile hints)"
      using saveProfile_row [OF _ assms(1)] by (metis option.inject)
    then show ?thesis using True assms(8,9) by simp
  next
    case False
    then have "saveProfile (blocked_profile now ?e) a = Some a'"
      using assms p by (auto simp: applyContactEvent_def applyTOFU_def contact_def Let_def split: if_splits)
    moreover have "field (blocked_profile now ?e) ''id'' = JStr i" using assms(2) by simp
    ultimately have "tbl_get row_key i (ap_profiles a') = Some (blocked_profile now ?e)"
      using saveProfile_row [OF _ assms(1)] by (metis option.inject)
    then show ?thesis by simp
  qed
qed

text \<open>
  A contact event that brings one key alone is not checked against the pins: whoever the peer
  that sent it, the identity key of the contact becomes the one in the event, and the contact stays
  as trusted as it was.
\<close>

theorem partial_contact_event_replaces_pin:
  assumes "rows_ok (ap_profiles a)" and "field (contact f a) ''id'' = JStr i"
    and "truthy (field (contact f a) ''trust'')" "truthy (field (contact f a) ''friendStatus'')"
    and "field body ''profile'' = profile" "field profile ''friendId'' = JStr f" "f \<noteq> []"
    and "field profile ''identityPub'' = JStr other" "other \<noteq> []"
    and "field profile ''dhPub'' = JUndef" "field profile ''friendStatus'' = JUndef"
    and "sanitizeRoutingHints (nn (field profile ''routingHints'') (field (contact f a) ''routingHints'')) \<noteq> None"
  shows "\<exists>a' row. applyContactEvent now newId body a = Some a' \<and>
    tbl_get row_key i (ap_profiles a') = Some row \<and> field row ''identityPub'' = JStr other \<and>
    field row ''dhPub'' = field (contact f a) ''dhPub'' \<and>
    field row ''trust'' = field (contact f a) ''trust'' \<and>
    field row ''friendStatus'' = field (contact f a) ''friendStatus''"
proof -
  let ?e = "contact f a"
  have p: "truthy profile" using assms(6) by (cases profile) auto
  obtain hints where h: "sanitizeRoutingHints (nn (field profile ''routingHints'') (field ?e ''routingHints'')) = Some hints"
    using assms(12) by blast
  let ?row = "merged_profile now newId ?e profile hints"
  have "applyContactEvent now newId body a = saveProfile ?row a"
    using assms p h by (simp add: applyContactEvent_def contact_def Let_def)
  moreover have "field ?row ''id'' = JStr i" using assms(2) by simp
  then obtain a' where "saveProfile ?row a = Some a'" "tbl_get row_key i (ap_profiles a') = Some ?row"
    using saveProfile_row [OF _ assms(1)] by blast
  ultimately show ?thesis using assms by (intro exI [of _ a'] exI [of _ ?row]) simp
qed

subsection \<open>Messages, friend frames and role changes\<close>

text \<open>
  A message writes back the conversation as it was read before the batch: when the row has
  changed in the meantime, by a group event of the same batch for one, its participants, type and
  visibility return to what they were, so that a member that left is a participant again.
\<close>

theorem message_event_restores_conversation:
  assumes "rows_ok (ap_conversations a)" and "field conv ''id'' = JStr i"
    and "field (field envelope ''header'') ''eventId'' = JStr e"
  shows "\<exists>a' row. applyMessageEvent conv envelope body senderId a = Some a' \<and> conversation i a' = Some row \<and>
    field row ''participants'' = field conv ''participants'' \<and> field row ''hidden'' = field conv ''hidden'' \<and>
    field row ''type'' = field conv ''type''"
proof -
  have c: "truthy conv" using assms(2) by (cases conv) auto
  let ?row = "updated_conversation conv envelope body"
  have f: "field ?row ''id'' = JStr i" "field ?row ''participants'' = field conv ''participants''"
    "field ?row ''hidden'' = field conv ''hidden''" "field ?row ''type'' = field conv ''type''"
    using assms(2) by (simp_all add: updated_conversation_def field_spread)
  have "str_of (field (incoming_message conv envelope body senderId) ''id'') = Some e"
    using assms(3) by (simp add: incoming_message_def Let_def)
  then obtain b where b: "saveMessage (incoming_message conv envelope body senderId) a = Some b"
    by (simp add: saveMessage_def saveRow_def)
  have "rows_ok (ap_conversations b)" using b(1) assms(1) by (auto simp: saveMessage_def)
  then obtain a' where "saveConversation ?row b = Some a'" "conversation i a' = Some ?row"
    using saveConversation_row [OF f(1)] by blast
  then have "applyMessageEvent conv envelope body senderId a = Some a'" "conversation i a' = Some ?row"
    using b c by (simp_all add: applyMessageEvent_def)
  then show ?thesis using f by blast
qed

lemma saves_keep_calls:
  "saveConversation c a = Some a' \<Longrightarrow> ap_calls a' = ap_calls a"
  "saveMessage c a = Some a' \<Longrightarrow> ap_calls a' = ap_calls a"
  "saveProfile c a = Some a' \<Longrightarrow> ap_calls a' = ap_calls a"
  by (auto simp: saveConversation_def saveMessage_def saveProfile_def)

lemma save_all_calls: "save_all ms a = Some a' \<Longrightarrow> ap_calls a' = ap_calls a"
proof (induction ms arbitrary: a)
  case (Cons m ms)
  then show ?case by (auto simp: bind_eq_Some_conv saves_keep_calls)
qed simp

lemma group_event_calls: "applyGroupEvent p s u a = Some a' \<Longrightarrow> ap_calls a' = ap_calls a"
  by (auto simp: group_event_simps apply_create_def apply_invite_def apply_leave_def Let_def
      bind_eq_Some_conv saves_keep_calls save_all_calls split: if_splits option.splits)

lemma message_event_calls: "applyMessageEvent c e b s a = Some a' \<Longrightarrow> ap_calls a' = ap_calls a"
  by (auto simp: applyMessageEvent_def Let_def bind_eq_Some_conv saves_keep_calls split: if_splits)

lemma contact_event_calls: "applyContactEvent n i b a = Some a' \<Longrightarrow> ap_calls a' = ap_calls a"
  by (auto simp: applyContactEvent_def Let_def saves_keep_calls split: if_splits option.splits)

lemma conversation_event_calls: "applyConversationEvent n b a = Some a' \<Longrightarrow> ap_calls a' = ap_calls a"
  by (auto simp: applyConversationEvent_def Let_def saves_keep_calls split: if_splits)

lemmas body_calls = group_event_calls message_event_calls contact_event_calls conversation_event_calls

lemma resolveLocalUserId_calls: "ap_calls (snd (resolveLocalUserId a)) = ap_calls a"
  by (simp add: resolveLocalUserId_def Let_def split: option.splits)

text \<open>
  The friend protocol sees a frame that came in an envelope only under the identity the peer of
  the conversation is pinned to: whatever the body, a frame that reaches it names the pinned identity
  key as its sender.
\<close>

theorem friend_frame_names_pinned_identity:
  assumes "applyDecryptedBody ps now newId peerConvId conv envelope body a = a'"
    and "CallFriendFrame frame \<in> set (ap_calls a')" "CallFriendFrame frame \<notin> set (ap_calls a)"
  shows "\<exists>peer key. map_of ps peerConvId = Some peer \<and> pc_identityPub peer = Some key \<and>
    field (field frame ''from'') ''identityPub'' = JStr key"
proof -
  obtain u b where u: "resolveLocalUserId a = (u, b)" by (cases "resolveLocalUserId a")
  then have b: "ap_calls b = ap_calls a" using resolveLocalUserId_calls [of a] by simp
  have same: "ap_calls (case r of Some c \<Rightarrow> c | None \<Rightarrow> b) = ap_calls a"
    if "\<And>c. r = Some c \<Longrightarrow> ap_calls c = ap_calls b" for r
    using that b by (cases r) simp_all
  have chunk: "CallFriendFrame frame \<notin> set (ap_calls (apply_chunk body b))"
    using assms(3) b by (auto simp: apply_chunk_def add_call_def split: option.splits)
  have cursor: "ap_calls (apply_read_cursor now envelope body s b) = ap_calls a" for s
    using b by (auto simp: apply_read_cursor_def Let_def split: option.splits)
  have role: "CallFriendFrame frame \<notin> set (ap_calls (apply_role_change ps peerConvId envelope body b))"
    using assms(3) b by (auto simp: apply_role_change_def add_call_def deferRoleChangeEvent_def Let_def)
  have "a' = apply_friend_frame ps peerConvId envelope body b"
    using assms same chunk cursor role u b
    by (auto simp: applyDecryptedBody_def Let_def body_calls split: if_splits)
  then show ?thesis
    using assms(2,3) b
    by (auto simp: apply_friend_frame_def Let_def add_call_def field_spread truthy_string_def
        split: if_splits option.splits bind_splits)
qed

lemma fold_add_call:
  "fold (\<lambda>(i, e). add_call (CallRoleEvent e)) ps a = a\<lparr>ap_calls := ap_calls a @ map (CallRoleEvent \<circ> snd) ps\<rparr>"
  by (induction ps arbitrary: a) (auto simp: add_call_def)

text \<open>
  A role change that arrives before the capabilities of the peer are known is applied once they
  are, exactly once and after the earlier ones: the flush hands all that wait to the device registry
  in the order of their times and forgets them, so that a second flush does nothing; a peer that
  turns out not to support role changes has them dropped.
\<close>

theorem deferred_role_changes_flushed_once:
  assumes "hasKnownPeerCaps ps convId"
    and "map_of (ap_deferredRoles a) convId = Some pending" and "pending \<noteq> []"
  shows "ap_calls (flushDeferredRoleEvents ps convId a) = ap_calls a @
      (if canUseRoleEvents (getPeerCaps ps convId)
       then map (CallRoleEvent \<circ> snd) (sort_key (\<lambda>(i, e). number_of (field e ''ts'')) pending) else []) \<and>
    flushDeferredRoleEvents ps convId (flushDeferredRoleEvents ps convId a) = flushDeferredRoleEvents ps convId a"
proof -
  let ?a = "flushDeferredRoleEvents ps convId a"
  have "map_of (ap_deferredRoles ?a) convId = None"
    using assms by (simp add: flushDeferredRoleEvents_def Let_def fold_add_call delete_conv)
  then have "flushDeferredRoleEvents ps convId ?a = ?a"
    unfolding flushDeferredRoleEvents_def [of ps convId ?a] by simp
  then show ?thesis
    using assms by (simp add: flushDeferredRoleEvents_def [of ps convId a] Let_def fold_add_call)
qed

subsection \<open>Concrete inputs\<close>

definition pinned_contact :: json where
  "pinned_contact = JObj [(''id'', JStr ''p1''), (''friendId'', JStr ''f1''), (''kind'', JStr ''friend''),
     (''identityPub'', JStr ''AAAA''), (''dhPub'', JStr ''BBBB''), (''friendStatus'', JStr ''normal''),
     (''trust'', JObj [(''status'', JStr ''trusted'')])]"

definition contact_app :: app_state where
  "contact_app = sample_app\<lparr>ap_profiles := [pinned_contact]\<rparr>"

definition contact_body :: "(string \<times> json) list \<Rightarrow> json" where
  "contact_body keys = JObj [(''type'', JStr ''contact''), (''profile'', JObj ((''friendId'', JStr ''f1'') # keys))]"

lemma contact_app_simps: "rows_ok (ap_profiles contact_app)" "contact ''f1'' contact_app = pinned_contact"
  by (simp_all add: contact_app_def contact_def find_row_def pinned_contact_def row_key_def tbl_ok_def)

theorem full_contact_event_keeps_pins_witness:
  "\<exists>a' row. applyContactEvent 7 ''n'' (contact_body [(''identityPub'', JStr ''CCCC''), (''dhPub'', JStr ''BBBB'')]) contact_app = Some a' \<and>
    tbl_get row_key ''p1'' (ap_profiles a') = Some row \<and> field row ''identityPub'' = JStr ''AAAA'' \<and>
    field row ''friendStatus'' = JStr ''blocked''"
proof -
  let ?body = "contact_body [(''identityPub'', JStr ''CCCC''), (''dhPub'', JStr ''BBBB'')]"
  have "applyContactEvent 7 ''n'' ?body contact_app = saveProfile (blocked_profile 7 pinned_contact) contact_app"
    by (simp add: applyContactEvent_def contact_body_def contact_app_def find_row_def pinned_contact_def applyTOFU_def Let_def)
  then obtain a' where a': "applyContactEvent 7 ''n'' ?body contact_app = Some a'"
    by (simp add: saveProfile_def saveRow_def pinned_contact_def)
  let ?profile = "JObj [(''friendId'', JStr ''f1''), (''identityPub'', JStr ''CCCC''), (''dhPub'', JStr ''BBBB'')]"
  have old: "field (contact ''f1'' contact_app) ''id'' = JStr ''p1''"
    "truthy (field (contact ''f1'' contact_app) ''identityPub'')" "truthy (field (contact ''f1'' contact_app) ''dhPub'')"
    by (simp_all add: contact_app_simps) (simp_all add: pinned_contact_def)
  have new: "field ?body ''profile'' = ?profile" "field ?profile ''friendId'' = JStr ''f1''" "''f1'' \<noteq> []"
    "truthy (field ?profile ''identityPub'')" "truthy (field ?profile ''dhPub'')"
    by (simp_all add: contact_body_def)
  from full_contact_event_keeps_pins [OF contact_app_simps(1) old new a'] obtain row where
    "tbl_get row_key ''p1'' (ap_profiles a') = Some row"
    "field row ''identityPub'' = field pinned_contact ''identityPub''"
    "field ?profile ''identityPub'' \<noteq> field pinned_contact ''identityPub'' \<longrightarrow> field row ''friendStatus'' = JStr ''blocked''"
    unfolding contact_app_simps by blast
  then show ?thesis using a' by (simp add: pinned_contact_def)
qed

theorem partial_contact_event_replaces_pin_witness:
  "\<exists>a' row. applyContactEvent 7 ''n'' (contact_body [(''identityPub'', JStr ''CCCC'')]) contact_app = Some a' \<and>
    tbl_get row_key ''p1'' (ap_profiles a') = Some row \<and> field row ''identityPub'' = JStr ''CCCC'' \<and>
    field row ''dhPub'' = field (contact ''f1'' contact_app) ''dhPub'' \<and>
    field row ''trust'' = field (contact ''f1'' contact_app) ''trust'' \<and>
    field row ''friendStatus'' = field (contact ''f1'' contact_app) ''friendStatus''"
proof (rule partial_contact_event_replaces_pin [OF contact_app_simps(1)])
  show "field (contact_body [(''identityPub'', JStr ''CCCC'')]) ''profile'' =
      JObj [(''friendId'', JStr ''f1''), (''identityPub'', JStr ''CCCC'')]"
    by (simp add: contact_body_def)
qed (simp_all add: contact_app_simps, simp_all add: pinned_contact_def sanitizeRoutingHints_def)

definition sample_envelope :: json where
  "sample_envelope = JObj [(''header'', JObj [(''eventId'', JStr ''e1''), (''ts'', JNum ''5'')])]"

theorem message_event_restores_conversation_witness:
  "\<exists>a' row. applyMessageEvent sample_row sample_envelope (JObj [(''text'', JStr ''hi'')]) (JStr ''bob'')
      (sample_app\<lparr>ap_conversations := [spread sample_row [(''participants'', JArr [JStr ''me''])]]\<rparr>) = Some a' \<and>
    conversation ''g'' a' = Some row \<and> field row ''participants'' = field sample_row ''participants'' \<and>
    field row ''hidden'' = field sample_row ''hidden'' \<and> field row ''type'' = field sample_row ''type''"
  by (rule message_event_restores_conversation [of _ _ "''g''" _ "''e1''"])
    (simp_all add: sample_row_def sample_envelope_def tbl_ok_def)

definition friend_peer :: peers where
  "friend_peer = [(''c'', empty_peer\<lparr>pc_identityPub := Some ''AAAA''\<rparr>)]"

definition friend_body :: json where
  "friend_body = JObj [(''type'', JStr ''friend_req''), (''from'', JObj [(''identityPub'', JStr ''AAAA'')])]"

theorem friend_frame_names_pinned_identity_witness:
  "\<exists>frame. CallFriendFrame frame \<in> set (ap_calls (applyDecryptedBody friend_peer 7 ''n'' ''c'' JNull sample_envelope friend_body sample_app)) \<and>
    field (field frame ''from'') ''identityPub'' = JStr ''AAAA''"
proof -
  let ?a = "applyDecryptedBody friend_peer 7 ''n'' ''c'' JNull sample_envelope friend_body sample_app"
  let ?f = "spread friend_body [(''ts'', JNum ''5'')]"
  have c: "CallFriendFrame ?f \<in> set (ap_calls ?a)"
    by (simp add: applyDecryptedBody_def friend_body_def isGroupEventPayload_def apply_friend_frame_def
        friend_peer_def sample_envelope_def add_call_def Let_def split: prod.split)
  have "CallFriendFrame ?f \<notin> set (ap_calls sample_app)" by (simp add: sample_app_def)
  then show ?thesis
    using friend_frame_names_pinned_identity [OF refl c] c by (auto simp: friend_peer_def)
qed

theorem deferred_role_changes_flushed_once_witness:
  "ap_calls (flushDeferredRoleEvents [(''c'', empty_peer\<lparr>pc_peerCaps := Some (normalizePeerCaps LOCAL_CAPS)\<rparr>)] ''c''
      (sample_app\<lparr>ap_deferredRoles := [(''c'', [(''e1'', JObj [(''ts'', JNum ''5'')])])]\<rparr>)) =
    [CallRoleEvent (JObj [(''ts'', JNum ''5'')])]"
proof -
  let ?ps = "[(''c'', empty_peer\<lparr>pc_peerCaps := Some (normalizePeerCaps LOCAL_CAPS)\<rparr>)]"
  let ?a = "sample_app\<lparr>ap_deferredRoles := [(''c'', [(''e1'', JObj [(''ts'', JNum ''5'')])])]\<rparr>"
  have k: "hasKnownPeerCaps ?ps ''c''" by (simp add: hasKnownPeerCaps_def peer_caps_of_def)
  have "num_value ''1'' = 1" by (simp add: num_value_def exponent_value_def index_value_def)
  then have "canUseRoleEvents (getPeerCaps ?ps ''c'')"
    by (simp add: canUseRoleEvents_def getPeerCaps_def peer_caps_of_def normalizePeerCaps_def LOCAL_CAPS_def
        normalizeCapVersion_def)
  then show ?thesis
    using deferred_role_changes_flushed_once [OF k, of ?a "[(''e1'', JObj [(''ts'', JNum ''5'')])]"]
    by (simp add: sample_app_def)
qed

end
