(* ===== verification/Sync_Flow.thy ===== *)
theory Sync_Flow
  imports NKC_Prelude "HOL-Library.AList"
begin

text \<open>
  How a sync response is sent (the flow control of src/src/sync/syncEngine.ts): a long response
  is cut into frames of at most 16 events and, where the events allow it, 96 KiB; the frames
  of a session are sent with at most two unacknowledged at a time and each is repeated until it
  is acknowledged, three times at most. The events and the size in bytes of a frame, which is
  that of its JSON text, are parameters. A session is a state with one operation per cause: an
  acknowledgement, the end of a send (which arms the timer) and a timer that fires.
\<close>

subsection \<open>Frames\<close>

definition MAX_SYNC_CHUNK_EVENTS :: nat where
  "MAX_SYNC_CHUNK_EVENTS = 16"

definition MAX_SYNC_CHUNK_BYTES :: nat where
  "MAX_SYNC_CHUNK_BYTES = 96 * 1024"

definition SYNC_FLOW_WINDOW :: nat where
  "SYNC_FLOW_WINDOW = 2"

definition SYNC_FLOW_MAX_RETRIES :: nat where
  "SYNC_FLOW_MAX_RETRIES = 3"

record flow_tag =
  fg_session :: string
  fg_index :: nat
  fg_total :: nat
  fg_final :: bool

text \<open>The \<open>next\<close> map of a frame, empty as \<open>None\<close>.\<close>

record ('e, 'n) res_frame =
  rf_events :: "'e list"
  rf_next :: "'n option"
  rf_flow :: "flow_tag option"

text \<open>The loop that fills the chunks: the chunks closed so far and the one being filled.\<close>

definition chunk_too_large :: "(nat \<Rightarrow> 'e list \<Rightarrow> nat) \<Rightarrow> nat \<Rightarrow> 'e list \<Rightarrow> 'e list \<Rightarrow> bool" where
  "chunk_too_large bytes_of closed current candidate \<longleftrightarrow> current \<noteq> [] \<and>
     (MAX_SYNC_CHUNK_EVENTS < length candidate \<or> MAX_SYNC_CHUNK_BYTES < bytes_of closed candidate)"

fun fill_chunks :: "(nat \<Rightarrow> 'e list \<Rightarrow> nat) \<Rightarrow> 'e list list \<Rightarrow> 'e list \<Rightarrow> 'e list \<Rightarrow> 'e list list" where
  "fill_chunks bytes_of chunks current [] = (if current \<noteq> [] then chunks @ [current] else chunks)"
| "fill_chunks bytes_of chunks current (e # es) =
     (if chunk_too_large bytes_of (length chunks) current (current @ [e])
      then fill_chunks bytes_of (chunks @ [current]) [e] es
      else fill_chunks bytes_of chunks (current @ [e]) es)"

definition flow_frame :: "string \<Rightarrow> 'n \<Rightarrow> nat \<Rightarrow> nat \<Rightarrow> 'e list \<Rightarrow> ('e, 'n) res_frame" where
  "flow_frame sessionId nxt totalChunks chunkIndex chunk =
     (let final = (chunkIndex = totalChunks - 1)
      in \<lparr>rf_events = chunk, rf_next = (if final then Some nxt else None),
          rf_flow = Some \<lparr>fg_session = sessionId, fg_index = chunkIndex, fg_total = totalChunks,
                          fg_final = final\<rparr>\<rparr>)"

definition createSyncResponseFrames ::
    "(nat \<Rightarrow> 'e list \<Rightarrow> nat) \<Rightarrow> string \<Rightarrow> 'e list \<Rightarrow> 'n \<Rightarrow> bool \<Rightarrow> ('e, 'n) res_frame list" where
  "createSyncResponseFrames bytes_of sessionId events nxt flowControl =
     (if \<not> flowControl \<or> length events \<le> MAX_SYNC_CHUNK_EVENTS
      then [\<lparr>rf_events = events, rf_next = Some nxt, rf_flow = None\<rparr>]
      else let chunks = fill_chunks bytes_of [] [] events
           in map (\<lambda>(i, chunk). flow_frame sessionId nxt (length chunks) i chunk) (enumerate 0 chunks))"

subsection \<open>Sessions\<close>

text \<open>An entry in flight: how often its frame was sent, and whether its timer is running.\<close>

record flight =
  fl_attempts :: nat
  fl_armed :: bool

record 'f flow_session =
  fs_conv :: string
  fs_frames :: "'f list"
  fs_nextToSend :: nat
  fs_inFlight :: "(nat \<times> flight) list"

record 'f flow_state =
  fw_sessions :: "(string \<times> 'f flow_session) list"
  fw_sent :: "(string \<times> 'f) list"

definition sendFrame :: "string \<Rightarrow> 'f \<Rightarrow> 'f flow_state \<Rightarrow> 'f flow_state" where
  "sendFrame convId frame w = w\<lparr>fw_sent := fw_sent w @ [(convId, frame)]\<rparr>"

definition put_session :: "string \<Rightarrow> 'f flow_session \<Rightarrow> 'f flow_state \<Rightarrow> 'f flow_state" where
  "put_session sid s w = w\<lparr>fw_sessions := AList.update sid s (fw_sessions w)\<rparr>"

definition clearFlowSession :: "string \<Rightarrow> 'f flow_state \<Rightarrow> 'f flow_state" where
  "clearFlowSession sid w = w\<lparr>fw_sessions := AList.delete sid (fw_sessions w)\<rparr>"

text \<open>The loop that fills the window: the session and the frames it sends, in order.\<close>

function pump_loop :: "'f flow_session \<Rightarrow> 'f list \<Rightarrow> 'f flow_session \<times> 'f list" where
  "pump_loop s sent =
     (if fs_nextToSend s < length (fs_frames s) \<and> length (fs_inFlight s) < SYNC_FLOW_WINDOW
      then let i = fs_nextToSend s
           in pump_loop (s\<lparr>fs_nextToSend := i + 1,
                fs_inFlight := AList.update i \<lparr>fl_attempts = 1, fl_armed = False\<rparr> (fs_inFlight s)\<rparr>)
                (sent @ [fs_frames s ! i])
      else (s, sent))"
  by pat_completeness auto
termination
  by (relation "measure (\<lambda>(s, sent). length (fs_frames s) - fs_nextToSend s)") auto

declare pump_loop.simps [simp del]

definition pumpFlowSession :: "string \<Rightarrow> 'f flow_state \<Rightarrow> 'f flow_state" where
  "pumpFlowSession sid w =
     (case map_of (fw_sessions w) sid of
        None \<Rightarrow> w
      | Some s0 \<Rightarrow>
          let (s, sent) = pump_loop s0 [];
              w1 = fold (\<lambda>f. sendFrame (fs_conv s0) f) sent (put_session sid s w)
          in if length (fs_frames s) \<le> fs_nextToSend s \<and> fs_inFlight s = []
             then w1\<lparr>fw_sessions := AList.delete sid (fw_sessions w1)\<rparr> else w1)"

definition sendSyncResponseFrames ::
    "string \<Rightarrow> ('e, 'n) res_frame list \<Rightarrow> ('e, 'n) res_frame flow_state \<Rightarrow> ('e, 'n) res_frame flow_state" where
  "sendSyncResponseFrames convId frames w =
     (case frames of
        [] \<Rightarrow> w
      | f # rest \<Rightarrow>
          (case rf_flow f of
             None \<Rightarrow> sendFrame convId f w
           | Some tag \<Rightarrow>
               if rest = [] then sendFrame convId f w
               else pumpFlowSession (fg_session tag)
                      (put_session (fg_session tag)
                        \<lparr>fs_conv = convId, fs_frames = frames, fs_nextToSend = 0, fs_inFlight = []\<rparr>
                        (clearFlowSession (fg_session tag) w))))"

text \<open>A send has ended: the timer of its entry, if that is still there, is armed.\<close>

definition scheduleFlowRetry :: "string \<Rightarrow> nat \<Rightarrow> 'f flow_state \<Rightarrow> 'f flow_state" where
  "scheduleFlowRetry sid i w =
     (case map_of (fw_sessions w) sid of
        None \<Rightarrow> w
      | Some s \<Rightarrow>
          (case map_of (fs_inFlight s) i of
             None \<Rightarrow> w
           | Some e \<Rightarrow>
               put_session sid (s\<lparr>fs_inFlight := AList.update i (e\<lparr>fl_armed := True\<rparr>) (fs_inFlight s)\<rparr>) w))"

text \<open>The timer of an entry fires.\<close>

definition flow_timer :: "string \<Rightarrow> nat \<Rightarrow> 'f flow_state \<Rightarrow> 'f flow_state" where
  "flow_timer sid i w =
     (case map_of (fw_sessions w) sid of
        None \<Rightarrow> w
      | Some s \<Rightarrow>
          (case map_of (fs_inFlight s) i of
             None \<Rightarrow> w
           | Some e \<Rightarrow>
               if \<not> fl_armed e then w
               else if SYNC_FLOW_MAX_RETRIES \<le> fl_attempts e then clearFlowSession sid w
               else if length (fs_frames s) \<le> i
               then pumpFlowSession sid (put_session sid (s\<lparr>fs_inFlight := AList.delete i (fs_inFlight s)\<rparr>) w)
               else sendFrame (fs_conv s) (fs_frames s ! i)
                      (put_session sid (s\<lparr>fs_inFlight := AList.update i
                          \<lparr>fl_attempts = fl_attempts e + 1, fl_armed = False\<rparr> (fs_inFlight s)\<rparr>) w)))"

definition handleSyncFlowAck :: "string \<Rightarrow> nat \<Rightarrow> 'f flow_state \<Rightarrow> 'f flow_state" where
  "handleSyncFlowAck sid i w =
     (case map_of (fw_sessions w) sid of
        None \<Rightarrow> w
      | Some s \<Rightarrow>
          pumpFlowSession sid (put_session sid (s\<lparr>fs_inFlight := AList.delete i (fs_inFlight s)\<rparr>) w))"

text \<open>What can happen to a session once it is open.\<close>

datatype flow_event = FeSent string nat | FeTimer string nat | FeAck string nat

fun flow_step :: "flow_event \<Rightarrow> 'f flow_state \<Rightarrow> 'f flow_state" where
  "flow_step (FeSent sid i) w = scheduleFlowRetry sid i w"
| "flow_step (FeTimer sid i) w = flow_timer sid i w"
| "flow_step (FeAck sid i) w = handleSyncFlowAck sid i w"

subsection \<open>Cutting a response\<close>

lemma fill_chunks_concat: "concat (fill_chunks bytes_of chunks current es) = concat chunks @ current @ es"
  by (induction bytes_of chunks current es rule: fill_chunks.induct) auto

definition chunk_ok :: "(nat \<Rightarrow> 'e list \<Rightarrow> nat) \<Rightarrow> nat \<Rightarrow> 'e list \<Rightarrow> bool" where
  "chunk_ok bytes_of k c \<longleftrightarrow> c \<noteq> [] \<and> length c \<le> MAX_SYNC_CHUNK_EVENTS \<and>
     (1 < length c \<longrightarrow> bytes_of k c \<le> MAX_SYNC_CHUNK_BYTES)"

lemma chunk_ok_one: "chunk_ok bytes_of k [e]"
  by (simp add: chunk_ok_def MAX_SYNC_CHUNK_EVENTS_def)

lemma fill_chunks_ok:
  "(\<And>k. k < length chunks \<Longrightarrow> chunk_ok bytes_of k (chunks ! k)) \<Longrightarrow>
   current = [] \<or> chunk_ok bytes_of (length chunks) current \<Longrightarrow>
   k < length (fill_chunks bytes_of chunks current es) \<Longrightarrow>
   chunk_ok bytes_of k (fill_chunks bytes_of chunks current es ! k)"
proof (induction bytes_of chunks current es rule: fill_chunks.induct)
  case (1 bytes_of chunks current)
  then show ?case by (cases "k < length chunks") (auto simp: nth_append less_Suc_eq split: if_splits)
next
  case (2 bytes_of chunks current e es)
  show ?case
  proof (cases "chunk_too_large bytes_of (length chunks) current (current @ [e])")
    case True
    then have "current \<noteq> []" by (simp add: chunk_too_large_def)
    then have "chunk_ok bytes_of k ((chunks @ [current]) ! k)" if "k < length (chunks @ [current])" for k
      using 2(3,4) that by (auto simp: nth_append less_Suc_eq)
    then show ?thesis using 2(1) [OF True] 2(5) True chunk_ok_one [of bytes_of "Suc (length chunks)" e] by simp
  next
    case False
    have "chunk_ok bytes_of (length chunks) (current @ [e])"
      using False 2(4) chunk_ok_one [of bytes_of "length chunks" e]
      by (auto simp: chunk_too_large_def chunk_ok_def)
    then show ?thesis using 2(2) [OF False] 2(3,5) False by auto
  qed
qed

lemma fill_chunks_nonempty: "es \<noteq> [] \<Longrightarrow> fill_chunks bytes_of [] [] es \<noteq> []"
  using fill_chunks_concat [of bytes_of "[]" "[]" es] by auto

text \<open>
  A response is cut without loss: its frames carry the events in order, each exactly once;
  a frame of a session holds at most 16 events and, unless it holds a single one, at most 96
  KiB; the frames are numbered from 0, all know their number, and the last one alone is final
  and carries the watermarks.
\<close>

theorem response_cut_without_loss:
  assumes c: "createSyncResponseFrames bytes_of sid events nxt flow = frames"
  shows "concat (map rf_events frames) = events \<and> frames \<noteq> [] \<and>
    (\<forall>i < length frames. rf_next (frames ! i) = (if i = length frames - 1 then Some nxt else None)) \<and>
    (\<forall>i < length frames. case rf_flow (frames ! i) of
        None \<Rightarrow> length frames = 1
      | Some tag \<Rightarrow> tag = \<lparr>fg_session = sid, fg_index = i, fg_total = length frames,
            fg_final = (i = length frames - 1)\<rparr> \<and> chunk_ok bytes_of i (rf_events (frames ! i)))"
proof (cases "\<not> flow \<or> length events \<le> MAX_SYNC_CHUNK_EVENTS")
  case True
  then show ?thesis using c by (auto simp: createSyncResponseFrames_def)
next
  case False
  let ?ch = "fill_chunks bytes_of [] [] events"
  have f: "frames = map (\<lambda>(i, chunk). flow_frame sid nxt (length ?ch) i chunk) (enumerate 0 ?ch)"
    using c False by (simp add: createSyncResponseFrames_def Let_def)
  have len: "length frames = length ?ch" by (simp add: f)
  have at: "frames ! i = flow_frame sid nxt (length ?ch) i (?ch ! i)" if "i < length ?ch" for i
    using that by (simp add: f nth_enumerate_eq)
  have "map rf_events frames = ?ch"
    by (rule nth_equalityI) (simp_all add: len at flow_frame_def Let_def)
  then have conc: "concat (map rf_events frames) = events" by (simp add: fill_chunks_concat)
  have "events \<noteq> []" using False by auto
  then have ne: "0 < length ?ch" using fill_chunks_nonempty by blast
  have "rf_next (frames ! i) = (if i = length frames - 1 then Some nxt else None)"
    if "i < length frames" for i
    using that by (simp add: len at flow_frame_def Let_def)
  moreover have "rf_flow (frames ! i) = Some \<lparr>fg_session = sid, fg_index = i, fg_total = length frames,
      fg_final = (i = length frames - 1)\<rparr> \<and> chunk_ok bytes_of i (rf_events (frames ! i))"
    if "i < length frames" for i
    using that fill_chunks_ok [of "[]" bytes_of "[]" i events] by (simp add: len at flow_frame_def Let_def)
  ultimately show ?thesis using conc ne len by auto
qed

subsection \<open>Sums over association lists\<close>

definition alist_sum :: "('v \<Rightarrow> nat) \<Rightarrow> ('k \<times> 'v) list \<Rightarrow> nat" where
  "alist_sum f xs = sum_list (map (f \<circ> snd) xs)"

lemma alist_sum_simps [simp]: "alist_sum f [] = 0" "alist_sum f (x # xs) = f (snd x) + alist_sum f xs"
  "alist_sum f (xs @ ys) = alist_sum f xs + alist_sum f ys"
  by (simp_all add: alist_sum_def)

lemma update_new: "k \<notin> fst ` set xs \<Longrightarrow> AList.update k v xs = xs @ [(k, v)]"
  by (induction xs) auto

lemma alist_sum_update:
  "map_of xs k = Some v \<Longrightarrow> alist_sum f (AList.update k v' xs) + f v = alist_sum f xs + f v'"
  by (induction xs) auto

lemma length_update_old: "map_of xs k = Some v \<Longrightarrow> length (AList.update k v' xs) = length xs"
  by (induction xs) auto

lemma delete_absent: "k \<notin> fst ` set xs \<Longrightarrow> AList.delete k xs = xs"
  by (force simp: AList.delete_eq filter_id_conv)

lemma alist_sum_delete:
  "distinct (map fst xs) \<Longrightarrow> map_of xs k = Some v \<Longrightarrow> alist_sum f (AList.delete k xs) + f v = alist_sum f xs"
proof (induction xs)
  case (Cons x xs)
  show ?case
  proof (cases "fst x = k")
    case True
    then have "AList.delete k xs = xs" using Cons.prems(1) by (intro delete_absent) auto
    then show ?thesis using True Cons.prems by (simp add: AList.delete_eq case_prod_beta)
  qed (use Cons in \<open>auto simp: AList.delete_eq case_prod_beta\<close>)
qed simp

lemma length_delete_old:
  "distinct (map fst xs) \<Longrightarrow> map_of xs k = Some v \<Longrightarrow> Suc (length (AList.delete k xs)) = length xs"
  using alist_sum_delete [of xs k v "\<lambda>_. 1"] by (simp add: alist_sum_def sum_list_triv comp_def)

lemma set_update_alist: "(j, u) \<in> set (AList.update k v xs) \<Longrightarrow> j = k \<and> u = v \<or> (j, u) \<in> set xs"
  by (induction xs) (auto split: if_splits)

lemma set_update_alist_ne:
  "distinct (map fst xs) \<Longrightarrow> (j, u) \<in> set (AList.update k v xs) \<Longrightarrow> j = k \<and> u = v \<or> j \<noteq> k \<and> (j, u) \<in> set xs"
  by (induction xs) (auto split: if_splits simp: rev_image_eqI)

lemma set_delete_alist: "(j, u) \<in> set (AList.delete k xs) \<longleftrightarrow> j \<noteq> k \<and> (j, u) \<in> set xs"
  by (auto simp: AList.delete_eq)

subsection \<open>The window\<close>

definition sess_ok :: "'f flow_session \<Rightarrow> bool" where
  "sess_ok s \<longleftrightarrow> distinct (map fst (fs_inFlight s)) \<and> length (fs_inFlight s) \<le> SYNC_FLOW_WINDOW \<and>
     fs_nextToSend s \<le> length (fs_frames s) \<and>
     (\<forall>(i, e) \<in> set (fs_inFlight s). i < fs_nextToSend s \<and> 1 \<le> fl_attempts e \<and>
        fl_attempts e \<le> SYNC_FLOW_MAX_RETRIES)"

text \<open>A session that is open has something to wait for, and its window is full unless everything
  was sent.\<close>

definition open_ok :: "'f flow_session \<Rightarrow> bool" where
  "open_ok s \<longleftrightarrow> sess_ok s \<and> fs_inFlight s \<noteq> [] \<and>
     (fs_nextToSend s = length (fs_frames s) \<or> length (fs_inFlight s) = SYNC_FLOW_WINDOW)"

definition flow_ok :: "'f flow_state \<Rightarrow> bool" where
  "flow_ok w \<longleftrightarrow> distinct (map fst (fw_sessions w)) \<and> (\<forall>(sid, s) \<in> set (fw_sessions w). open_ok s)"

text \<open>What is left of a session when each frame is worth \<open>k\<close>: with 3, how many sends it can
  still make; with 4, how many acknowledgements and timers it can still see.\<close>

definition left_of :: "nat \<Rightarrow> 'f flow_session \<Rightarrow> nat" where
  "left_of k s = k * (length (fs_frames s) - fs_nextToSend s) +
     alist_sum (\<lambda>e. k - fl_attempts e) (fs_inFlight s)"

abbreviation left_all :: "nat \<Rightarrow> 'f flow_state \<Rightarrow> nat" where
  "left_all k w \<equiv> alist_sum (left_of k) (fw_sessions w)"

lemma pump_loop_stop:
  "\<not> (fs_nextToSend s < length (fs_frames s) \<and> length (fs_inFlight s) < SYNC_FLOW_WINDOW) \<Longrightarrow>
   pump_loop s sent = (s, sent)"
  by (subst pump_loop.simps) (rule if_not_P)

lemma pump_loop_fills:
  "1 \<le> k \<Longrightarrow> sess_ok s \<Longrightarrow> pump_loop s sent = (s', sent') \<Longrightarrow>
   sess_ok s' \<and> fs_frames s' = fs_frames s \<and> fs_conv s' = fs_conv s \<and>
   fs_nextToSend s \<le> fs_nextToSend s' \<and> sent' = sent @ map ((!) (fs_frames s)) [fs_nextToSend s..<fs_nextToSend s'] \<and>
   length sent' + left_of k s' = length sent + left_of k s \<and>
   length (fs_inFlight s') + fs_nextToSend s = length (fs_inFlight s) + fs_nextToSend s' \<and>
   (fs_nextToSend s' = length (fs_frames s) \<or> length (fs_inFlight s') = SYNC_FLOW_WINDOW)"
proof (induction s sent rule: pump_loop.induct)
  case (1 s sent)
  show ?case
  proof (cases "fs_nextToSend s < length (fs_frames s) \<and> length (fs_inFlight s) < SYNC_FLOW_WINDOW")
    case True
    let ?i = "fs_nextToSend s"
    let ?t = "s\<lparr>fs_nextToSend := ?i + 1,
      fs_inFlight := AList.update ?i \<lparr>fl_attempts = 1, fl_armed = False\<rparr> (fs_inFlight s)\<rparr>"
    have new: "?i \<notin> fst ` set (fs_inFlight s)" using 1(3) by (auto simp: sess_ok_def)
    have ok: "sess_ok ?t" using 1(3) True new
      by (auto simp: sess_ok_def update_new SYNC_FLOW_MAX_RETRIES_def)
    have "length (fs_frames s) - ?i = Suc (length (fs_frames s) - Suc ?i)" using True by linarith
    then have left: "left_of k ?t + 1 = left_of k s"
      using True 1(2) by (simp add: left_of_def update_new [OF new])
    have "pump_loop ?t (sent @ [fs_frames s ! ?i]) = (s', sent')"
      using 1(4) True by (subst (asm) pump_loop.simps) (simp add: Let_def)
    from 1(1) [OF True refl 1(2) ok this] left show ?thesis
      by (auto simp: upt_conv_Cons update_new [OF new])
  next
    case False
    then have "s' = s" "sent' = sent" using 1(4) by (simp_all add: pump_loop_stop)
    then show ?thesis using False 1(3) by (auto simp: sess_ok_def)
  qed
qed

lemma sendFrames_simps [simp]:
  "fw_sessions (fold (\<lambda>f. sendFrame c f) fs w) = fw_sessions w"
  "fw_sent (fold (\<lambda>f. sendFrame c f) fs w) = fw_sent w @ map (Pair c) fs"
  by (induction fs arbitrary: w) (simp_all add: sendFrame_def)

text \<open>Everything in order but for one session, which may have been left with room in its window.\<close>

definition pump_ready :: "string \<Rightarrow> 'f flow_session \<Rightarrow> 'f flow_state \<Rightarrow> bool" where
  "pump_ready sid s w \<longleftrightarrow> distinct (map fst (fw_sessions w)) \<and> map_of (fw_sessions w) sid = Some s \<and>
     sess_ok s \<and> (\<forall>(i, t) \<in> set (fw_sessions w). i \<noteq> sid \<longrightarrow> open_ok t)"

lemma pumpFlowSession_ok:
  assumes p: "pump_ready sid s w" and k: "1 \<le> k"
  shows "flow_ok (pumpFlowSession sid w) \<and> length (fw_sent w) \<le> length (fw_sent (pumpFlowSession sid w)) \<and>
    length (fw_sent (pumpFlowSession sid w)) + left_all k (pumpFlowSession sid w) \<le> length (fw_sent w) + left_all k w"
proof -
  obtain s' sent where l: "pump_loop s [] = (s', sent)" by force
  note fills = pump_loop_fills [OF k _ l]
  have ok: "sess_ok s" and m: "map_of (fw_sessions w) sid = Some s" and d: "distinct (map fst (fw_sessions w))"
    using p by (simp_all add: pump_ready_def)
  let ?u = "AList.update sid s' (fw_sessions w)"
  have du: "distinct (map fst ?u)" using d by (rule distinct_update)
  have mu: "map_of ?u sid = Some s'" by (simp add: update_conv')
  have left: "alist_sum (left_of k) ?u + left_of k s = alist_sum (left_of k) (fw_sessions w) + left_of k s'"
    by (rule alist_sum_update [OF m])
  have others: "open_ok t" if "(i, t) \<in> set ?u" "i \<noteq> sid" for i t
    using that set_update_alist_ne [OF d that(1)] p by (auto simp: pump_ready_def)
  show ?thesis
  proof (cases "length (fs_frames s') \<le> fs_nextToSend s' \<and> fs_inFlight s' = []")
    case True
    have "flow_ok (pumpFlowSession sid w)"
      using True others du m l
      by (auto simp: pumpFlowSession_def flow_ok_def put_session_def set_delete_alist distinct_delete)
    moreover have "alist_sum (left_of k) (AList.delete sid ?u) + left_of k s' = alist_sum (left_of k) ?u"
      by (rule alist_sum_delete [OF du mu])
    moreover have "length sent + left_of k s' = left_of k s" using fills [OF ok] by (metis add_0 list.size(3))
    moreover have "length (fw_sent (pumpFlowSession sid w)) = length (fw_sent w) + length sent"
      "left_all k (pumpFlowSession sid w) = alist_sum (left_of k) (AList.delete sid ?u)"
      using True m l by (simp_all add: pumpFlowSession_def put_session_def)
    ultimately show ?thesis using left by linarith
  next
    case False
    have "sess_ok s'" "fs_nextToSend s' = length (fs_frames s') \<or> length (fs_inFlight s') = SYNC_FLOW_WINDOW"
      using fills [OF ok] by auto
    then have "open_ok s'" using False by (auto simp: open_ok_def SYNC_FLOW_WINDOW_def)
    then have "open_ok t" if "(i, t) \<in> set ?u" for i t
      using that others set_update_alist_ne [OF d that] by (cases "i = sid") auto
    then have "flow_ok (pumpFlowSession sid w)"
      using False du m l by (auto simp: pumpFlowSession_def flow_ok_def put_session_def)
    moreover have "length sent + left_of k s' = left_of k s" using fills [OF ok] by (metis add_0 list.size(3))
    moreover have "length (fw_sent (pumpFlowSession sid w)) = length (fw_sent w) + length sent"
      "left_all k (pumpFlowSession sid w) = alist_sum (left_of k) ?u"
      using False m l by (auto simp: pumpFlowSession_def put_session_def)
    ultimately show ?thesis using left by linarith
  qed
qed

lemma open_at: "flow_ok w \<Longrightarrow> map_of (fw_sessions w) sid = Some s \<Longrightarrow> open_ok s"
  by (auto simp: flow_ok_def dest: map_of_SomeD)

lemma put_ready:
  assumes "flow_ok w" "sess_ok s'"
  shows "pump_ready sid s' (put_session sid s' w)"
  using assms set_update_alist_ne [of "fw_sessions w" _ _ sid s']
  by (fastforce simp: pump_ready_def flow_ok_def put_session_def distinct_update update_conv')

lemma put_open:
  assumes "flow_ok w" "open_ok s'"
  shows "flow_ok (put_session sid s' w)"
  using assms set_update_alist_ne [of "fw_sessions w" _ _ sid s']
  by (fastforce simp: flow_ok_def put_session_def distinct_update)

lemma left_put:
  "map_of (fw_sessions w) sid = Some s \<Longrightarrow>
   left_all k (put_session sid s' w) + left_of k s = left_all k w + left_of k s'"
  by (simp add: put_session_def alist_sum_update)

text \<open>Taking an entry out of flight, and changing one.\<close>

lemma without_entry:
  assumes "open_ok s"
  shows "sess_ok (s\<lparr>fs_inFlight := AList.delete i (fs_inFlight s)\<rparr>)"
  using assms length_delete_le [of i "fs_inFlight s"]
  by (auto simp: open_ok_def sess_ok_def distinct_delete set_delete_alist)

lemma left_without_entry:
  assumes "open_ok s" and "map_of (fs_inFlight s) i = Some e"
  shows "left_of k (s\<lparr>fs_inFlight := AList.delete i (fs_inFlight s)\<rparr>) + (k - fl_attempts e) = left_of k s"
  using alist_sum_delete [of "fs_inFlight s" i e "\<lambda>e. k - fl_attempts e"] assms
  by (simp add: left_of_def open_ok_def sess_ok_def)

lemma with_entry:
  assumes "open_ok s" and "map_of (fs_inFlight s) i = Some e"
    and "1 \<le> fl_attempts e'" "fl_attempts e' \<le> SYNC_FLOW_MAX_RETRIES"
  shows "open_ok (s\<lparr>fs_inFlight := AList.update i e' (fs_inFlight s)\<rparr>)"
proof -
  have "i < fs_nextToSend s" using assms by (auto simp: open_ok_def sess_ok_def dest: map_of_SomeD)
  then show ?thesis using assms length_update_old [OF assms(2), of e']
    by (auto simp: open_ok_def sess_ok_def distinct_update dest: set_update_alist)
qed

lemma left_with_entry:
  "map_of (fs_inFlight s) i = Some e \<Longrightarrow>
   left_of k (s\<lparr>fs_inFlight := AList.update i e' (fs_inFlight s)\<rparr>) + (k - fl_attempts e) =
     left_of k s + (k - fl_attempts e')"
  using alist_sum_update [of "fs_inFlight s" i e "\<lambda>e. k - fl_attempts e" e'] by (simp add: left_of_def)

lemma clear_ok:
  assumes "flow_ok w"
  shows "flow_ok (clearFlowSession sid w) \<and> left_all k (clearFlowSession sid w) \<le> left_all k w \<and>
    fw_sent (clearFlowSession sid w) = fw_sent w"
proof (cases "map_of (fw_sessions w) sid")
  case None
  then have "AList.delete sid (fw_sessions w) = fw_sessions w"
    by (intro delete_absent) (simp add: map_of_eq_None_iff)
  then show ?thesis using assms by (simp add: clearFlowSession_def)
next
  case (Some s)
  then show ?thesis using assms alist_sum_delete [of "fw_sessions w" sid s "left_of k"]
    by (auto simp: flow_ok_def clearFlowSession_def distinct_delete set_delete_alist)
qed

subsection \<open>One step\<close>

text \<open>The outcome of a step: order is kept, nothing is unsent, and the account of sends holds.\<close>

definition step_fine :: "nat \<Rightarrow> 'f flow_state \<Rightarrow> 'f flow_state \<Rightarrow> bool" where
  "step_fine k w w' \<longleftrightarrow> flow_ok w' \<and> length (fw_sent w) \<le> length (fw_sent w') \<and>
     length (fw_sent w') + left_all k w' \<le> length (fw_sent w) + left_all k w"

lemma schedule_fine:
  assumes "flow_ok w"
  shows "step_fine k w (scheduleFlowRetry sid i w)"
proof (cases "\<exists>s e. map_of (fw_sessions w) sid = Some s \<and> map_of (fs_inFlight s) i = Some e")
  case True
  then obtain s e where m: "map_of (fw_sessions w) sid = Some s" "map_of (fs_inFlight s) i = Some e" by blast
  let ?s = "s\<lparr>fs_inFlight := AList.update i (e\<lparr>fl_armed := True\<rparr>) (fs_inFlight s)\<rparr>"
  have o: "open_ok s" using assms m by (auto intro: open_at)
  then have "1 \<le> fl_attempts e" "fl_attempts e \<le> SYNC_FLOW_MAX_RETRIES"
    using m(2) by (auto simp: open_ok_def sess_ok_def dest: map_of_SomeD)
  then have "flow_ok (put_session sid ?s w)"
    using put_open [OF assms with_entry [OF o m(2)]] by simp
  moreover have "left_of k ?s = left_of k s"
    using left_with_entry [OF m(2), of k "e\<lparr>fl_armed := True\<rparr>"] by simp
  ultimately show ?thesis using m left_put [OF m(1), of k ?s]
    by (simp add: step_fine_def scheduleFlowRetry_def put_session_def)
next
  case False
  then have "scheduleFlowRetry sid i w = w"
    by (auto simp: scheduleFlowRetry_def split: option.split)
  then show ?thesis using assms by (simp add: step_fine_def)
qed

lemma ack_fine:
  assumes w: "flow_ok w" and k: "SYNC_FLOW_MAX_RETRIES \<le> k"
  shows "step_fine k w (handleSyncFlowAck sid i w) \<and>
    (SYNC_FLOW_MAX_RETRIES < k \<and> (\<exists>s. map_of (fw_sessions w) sid = Some s \<and> i \<in> fst ` set (fs_inFlight s)) \<longrightarrow>
      left_all k (handleSyncFlowAck sid i w) < left_all k w)"
proof (cases "map_of (fw_sessions w) sid")
  case None
  then show ?thesis using w by (simp add: handleSyncFlowAck_def step_fine_def)
next
  case (Some s)
  let ?s = "s\<lparr>fs_inFlight := AList.delete i (fs_inFlight s)\<rparr>"
  let ?w = "put_session sid ?s w"
  have o: "open_ok s" using w Some by (rule open_at)
  have k1: "1 \<le> k" using k by (simp add: SYNC_FLOW_MAX_RETRIES_def)
  note pumped = pumpFlowSession_ok [OF put_ready [OF w without_entry [OF o, of i], of sid] k1]
  have step: "handleSyncFlowAck sid i w = pumpFlowSession sid ?w" using Some by (simp add: handleSyncFlowAck_def)
  have less: "left_of k ?s \<le> left_of k s"
    "i \<in> fst ` set (fs_inFlight s) \<Longrightarrow> SYNC_FLOW_MAX_RETRIES < k \<Longrightarrow> left_of k ?s < left_of k s"
  proof -
    have "left_of k ?s \<le> left_of k s \<and> (i \<in> fst ` set (fs_inFlight s) \<and> SYNC_FLOW_MAX_RETRIES < k \<longrightarrow>
        left_of k ?s < left_of k s)"
    proof (cases "map_of (fs_inFlight s) i")
      case None
      then have "i \<notin> fst ` set (fs_inFlight s)" by (simp add: map_of_eq_None_iff)
      then show ?thesis by (simp add: delete_absent)
    next
      case (Some e)
      then have "fl_attempts e \<le> SYNC_FLOW_MAX_RETRIES"
        using o by (auto simp: open_ok_def sess_ok_def dest: map_of_SomeD)
      then show ?thesis using left_without_entry [OF o Some, of k] by auto
    qed
    then show "left_of k ?s \<le> left_of k s"
      "i \<in> fst ` set (fs_inFlight s) \<Longrightarrow> SYNC_FLOW_MAX_RETRIES < k \<Longrightarrow> left_of k ?s < left_of k s" by auto
  qed
  have sent: "fw_sent ?w = fw_sent w" by (simp add: put_session_def)
  note put = left_put [OF Some, of k ?s]
  have "left_all k (handleSyncFlowAck sid i w) < left_all k w"
    if "SYNC_FLOW_MAX_RETRIES < k" "i \<in> fst ` set (fs_inFlight s)"
    using that less(2) [OF that(2,1)] conjunct1 [OF conjunct2 [OF pumped]] conjunct2 [OF conjunct2 [OF pumped]] put
    unfolding step sent by linarith
  moreover have "step_fine k w (handleSyncFlowAck sid i w)"
    using pumped less(1) put sent unfolding step step_fine_def by auto
  ultimately show ?thesis using Some by auto
qed

lemma timer_fine:
  assumes w: "flow_ok w" and k: "SYNC_FLOW_MAX_RETRIES \<le> k"
  shows "step_fine k w (flow_timer sid i w) \<and>
    (SYNC_FLOW_MAX_RETRIES < k \<and> (\<exists>s e. map_of (fw_sessions w) sid = Some s \<and> map_of (fs_inFlight s) i = Some e \<and>
        fl_armed e) \<longrightarrow> left_all k (flow_timer sid i w) < left_all k w)"
proof (cases "\<exists>s e. map_of (fw_sessions w) sid = Some s \<and> map_of (fs_inFlight s) i = Some e \<and> fl_armed e")
  case False
  then have "flow_timer sid i w = w" by (auto simp: flow_timer_def split: option.split)
  then show ?thesis using False w by (simp add: step_fine_def)
next
  case True
  then obtain s e where m: "map_of (fw_sessions w) sid = Some s" "map_of (fs_inFlight s) i = Some e" "fl_armed e"
    by blast
  have o: "open_ok s" using w m by (auto intro: open_at)
  have e: "1 \<le> fl_attempts e" "fl_attempts e \<le> SYNC_FLOW_MAX_RETRIES" "i < length (fs_frames s)"
    using o m(2) by (auto simp: open_ok_def sess_ok_def dest: map_of_SomeD)
  show ?thesis
  proof (cases "SYNC_FLOW_MAX_RETRIES \<le> fl_attempts e")
    case True
    have step: "flow_timer sid i w = clearFlowSession sid w" using m True by (simp add: flow_timer_def)
    have "left_all k (clearFlowSession sid w) + left_of k s = left_all k w"
      using alist_sum_delete [of "fw_sessions w" sid s "left_of k"] w m
      by (simp add: flow_ok_def clearFlowSession_def)
    moreover have "SYNC_FLOW_MAX_RETRIES < k \<Longrightarrow> 0 < left_of k s"
      using left_without_entry [OF o m(2), of k] e by linarith
    ultimately show ?thesis using clear_ok [OF w, of sid] unfolding step step_fine_def by auto
  next
    case False
    let ?e = "\<lparr>fl_attempts = fl_attempts e + 1, fl_armed = False\<rparr>"
    let ?s = "s\<lparr>fs_inFlight := AList.update i ?e (fs_inFlight s)\<rparr>"
    have step: "flow_timer sid i w = sendFrame (fs_conv s) (fs_frames s ! i) (put_session sid ?s w)"
      using m e False by (simp add: flow_timer_def)
    have "flow_ok (put_session sid ?s w)" using False put_open [OF w with_entry [OF o m(2), of ?e]] by simp
    moreover have "left_of k ?s + 1 = left_of k s"
      using left_with_entry [OF m(2), of k ?e] False k by simp
    ultimately show ?thesis using left_put [OF m(1), of k ?s] unfolding step step_fine_def
      by (simp add: sendFrame_def flow_ok_def put_session_def)
  qed
qed

lemma flow_step_fine:
  assumes "flow_ok w" "SYNC_FLOW_MAX_RETRIES \<le> k"
  shows "step_fine k w (flow_step ev w)"
  using assms by (cases ev) (auto simp: schedule_fine ack_fine timer_fine)

lemma step_fine_trans: "step_fine k u v \<Longrightarrow> step_fine k v w \<Longrightarrow> step_fine k u w"
  by (simp add: step_fine_def)

lemma flow_run_fine:
  assumes k: "SYNC_FLOW_MAX_RETRIES \<le> k"
  shows "flow_ok w \<Longrightarrow> step_fine k w (fold flow_step es w)"
proof (induction es arbitrary: w)
  case (Cons ev es)
  have "step_fine k w (flow_step ev w)" using flow_step_fine [OF Cons.prems k] .
  then show ?case using Cons.IH [of "flow_step ev w"] step_fine_trans by (auto simp: step_fine_def)
qed (simp add: step_fine_def)

lemma start_fine:
  assumes "SYNC_FLOW_MAX_RETRIES \<le> k"
  shows "flow_ok (sendSyncResponseFrames c frames \<lparr>fw_sessions = [], fw_sent = []\<rparr>) \<and>
    length (fw_sent (sendSyncResponseFrames c frames \<lparr>fw_sessions = [], fw_sent = []\<rparr>)) +
      left_all k (sendSyncResponseFrames c frames \<lparr>fw_sessions = [], fw_sent = []\<rparr>) \<le> k * length frames"
proof -
  have k1: "1 \<le> k" using assms by (simp add: SYNC_FLOW_MAX_RETRIES_def)
  let ?s = "\<lparr>fs_conv = c, fs_frames = frames, fs_nextToSend = 0, fs_inFlight = []\<rparr>"
  have "pump_ready sid ?s (put_session sid ?s \<lparr>fw_sessions = [], fw_sent = []\<rparr>)" for sid
    by (simp add: pump_ready_def put_session_def sess_ok_def)
  from pumpFlowSession_ok [OF this k1] show ?thesis using k1
    by (cases frames) (auto simp: sendSyncResponseFrames_def sendFrame_def flow_ok_def clearFlowSession_def
        put_session_def left_of_def split: option.split)
qed

text \<open>
  The flow control is bounded: whatever acknowledgements and timers follow the start of a
  response, in whatever order, no session ever has more than two frames unacknowledged, the
  frames in flight are frames it has sent, a session that is open waits for at least one
  acknowledgement, and in all at most three sends are made per frame.
\<close>

theorem flow_window_bounded:
  assumes "w = fold flow_step es (sendSyncResponseFrames c frames \<lparr>fw_sessions = [], fw_sent = []\<rparr>)"
  shows "length (fw_sent w) \<le> 3 * length frames \<and>
    (\<forall>(sid, s) \<in> set (fw_sessions w). length (fs_inFlight s) \<in> {1, 2} \<and> distinct (map fst (fs_inFlight s)) \<and>
       (\<forall>(i, e) \<in> set (fs_inFlight s). i < fs_nextToSend s \<and> fs_nextToSend s \<le> length (fs_frames s) \<and>
          fl_attempts e \<le> 3))"
proof -
  note start = start_fine [of 3 c frames]
  have run: "step_fine 3 (sendSyncResponseFrames c frames \<lparr>fw_sessions = [], fw_sent = []\<rparr>) w"
    unfolding assms by (rule flow_run_fine) (use start in \<open>simp_all add: SYNC_FLOW_MAX_RETRIES_def\<close>)
  have "length (fw_sent w) \<le> 3 * length frames"
    using run start by (simp add: step_fine_def SYNC_FLOW_MAX_RETRIES_def)
  moreover have "flow_ok w" using run by (simp add: step_fine_def)
  then have opened: "open_ok s" if "(sid, s) \<in> set (fw_sessions w)" for sid s
    using that by (auto simp: flow_ok_def)
  have "length (fs_inFlight s) \<in> {1, 2} \<and> distinct (map fst (fs_inFlight s)) \<and>
       (\<forall>(i, e) \<in> set (fs_inFlight s). i < fs_nextToSend s \<and> fs_nextToSend s \<le> length (fs_frames s) \<and>
          fl_attempts e \<le> 3)" if "(sid, s) \<in> set (fw_sessions w)" for sid s
  proof -
    have s: "sess_ok s" "fs_inFlight s \<noteq> []" using opened [OF that] by (simp_all add: open_ok_def)
    then have "length (fs_inFlight s) \<noteq> 0" "length (fs_inFlight s) \<le> 2"
      by (auto simp: sess_ok_def SYNC_FLOW_WINDOW_def)
    then have "length (fs_inFlight s) = 1 \<or> length (fs_inFlight s) = 2" by linarith
    then have "length (fs_inFlight s) \<in> {1, 2}" by blast
    then show ?thesis using s by (auto simp: sess_ok_def SYNC_FLOW_MAX_RETRIES_def)
  qed
  ultimately show ?thesis by blast
qed

subsection \<open>The session ends\<close>

text \<open>An acknowledgement of a frame in flight, or the timer of such a frame.\<close>

fun effective :: "flow_event \<Rightarrow> 'f flow_state \<Rightarrow> bool" where
  "effective (FeSent sid i) w = False"
| "effective (FeTimer sid i) w = (case map_of (fw_sessions w) sid of None \<Rightarrow> False
     | Some s \<Rightarrow> (case map_of (fs_inFlight s) i of None \<Rightarrow> False | Some e \<Rightarrow> fl_armed e))"
| "effective (FeAck sid i) w = (case map_of (fw_sessions w) sid of None \<Rightarrow> False
     | Some s \<Rightarrow> i \<in> fst ` set (fs_inFlight s))"

fun effective_count :: "flow_event list \<Rightarrow> 'f flow_state \<Rightarrow> nat" where
  "effective_count [] w = 0"
| "effective_count (ev # es) w = (if effective ev w then 1 else 0) + effective_count es (flow_step ev w)"

lemma effective_decreases: "flow_ok w \<Longrightarrow> effective ev w \<Longrightarrow> left_all 4 (flow_step ev w) < left_all 4 w"
  using ack_fine [of w 4] timer_fine [of w 4]
  by (cases ev) (auto simp: SYNC_FLOW_MAX_RETRIES_def split: option.splits)

lemma effective_count_bounded: "flow_ok w \<Longrightarrow> effective_count es w \<le> left_all 4 w"
proof (induction es arbitrary: w)
  case (Cons ev es)
  have f: "step_fine 4 w (flow_step ev w)"
    using flow_step_fine [OF Cons.prems, of 4] by (simp add: SYNC_FLOW_MAX_RETRIES_def)
  then have "effective_count es (flow_step ev w) \<le> left_all 4 (flow_step ev w)"
    by (intro Cons.IH) (simp add: step_fine_def)
  moreover have "left_all 4 (flow_step ev w) \<le> left_all 4 w" using f by (simp add: step_fine_def)
  ultimately show ?case using effective_decreases [OF Cons.prems, of ev] by auto
qed simp

text \<open>
  C31. A session ends: from the start of a response of n frames there are at most 4 n
  acknowledgements of frames in flight and timers of such frames, however they come; since an
  open session always waits for one of them, it is closed after that many at the latest.
\<close>

theorem flow_session_ends:
  fixes c and frames :: "('e, 'n) res_frame list"
  defines "w0 \<equiv> sendSyncResponseFrames c frames \<lparr>fw_sessions = [], fw_sent = []\<rparr>"
  shows "effective_count es w0 \<le> 4 * length frames \<and>
    (fw_sessions (fold flow_step es w0) \<noteq> [] \<longrightarrow>
      (\<exists>sid i. effective (FeAck sid i) (fold flow_step es w0)))"
proof (intro conjI impI)
  note start = start_fine [of 4 c frames, unfolded SYNC_FLOW_MAX_RETRIES_def]
  have ok: "flow_ok w0" using start unfolding w0_def by simp
  show "effective_count es w0 \<le> 4 * length frames"
    using effective_count_bounded [OF ok, of es] start unfolding w0_def by simp
  assume ne: "fw_sessions (fold flow_step es w0) \<noteq> []"
  then obtain sid s rest where s: "fw_sessions (fold flow_step es w0) = (sid, s) # rest"
    by (cases "fw_sessions (fold flow_step es w0)") auto
  have "flow_ok (fold flow_step es w0)"
    using flow_run_fine [of 3 w0 es] ok by (simp add: step_fine_def SYNC_FLOW_MAX_RETRIES_def)
  then have "fs_inFlight s \<noteq> []" using s by (auto simp: flow_ok_def open_ok_def)
  then obtain i e rest' where "fs_inFlight s = (i, e) # rest'" by (cases "fs_inFlight s") auto
  then have "effective (FeAck sid i) (fold flow_step es w0)" using s by simp
  then show "\<exists>sid i. effective (FeAck sid i) (fold flow_step es w0)" by blast
qed

subsection \<open>Every frame is delivered in order\<close>

text \<open>After \<open>m\<close> acknowledgements and no timer.\<close>

definition after_acks :: "string \<Rightarrow> string \<Rightarrow> 'f list \<Rightarrow> nat \<Rightarrow> 'f flow_state \<Rightarrow> bool" where
  "after_acks sid c frames m w \<longleftrightarrow>
     fw_sent w = map (Pair c) (take (m + 2) frames) \<and>
     (if m < length frames
      then \<exists>s. fw_sessions w = [(sid, s)] \<and> sess_ok s \<and> fs_conv s = c \<and> fs_frames s = frames \<and>
             fs_nextToSend s = min (length frames) (m + 2) \<and>
             length (fs_inFlight s) + m = fs_nextToSend s
      else fw_sessions w = [])"

lemma pump_after_acks:
  assumes w: "fw_sessions w = [(sid, s)]" and s: "sess_ok s" "fs_conv s = c" "fs_frames s = frames"
    and n: "length (fs_inFlight s) + m = fs_nextToSend s" "m \<le> length frames"
    and sent: "fw_sent w = map (Pair c) (take (fs_nextToSend s) frames)"
  shows "after_acks sid c frames m (pumpFlowSession sid w)"
proof -
  obtain s' more where l: "pump_loop s [] = (s', more)" by force
  note fills = pump_loop_fills [OF _ s(1) l, of 1, simplified]
  have nx: "fs_nextToSend s \<le> fs_nextToSend s'" "fs_nextToSend s' \<le> length frames"
    using fills s(3) by (auto simp: sess_ok_def)
  have cnt: "length (fs_inFlight s') + m = fs_nextToSend s'" using fills n(1) by linarith
  have two: "length (fs_inFlight s') \<le> 2" using fills by (simp add: sess_ok_def SYNC_FLOW_WINDOW_def)
  have full: "fs_nextToSend s' = length frames \<or> length (fs_inFlight s') = 2"
    using fills s(3) by (simp add: SYNC_FLOW_WINDOW_def)
  have next': "fs_nextToSend s' = min (length frames) (m + 2)" using full two cnt nx by linarith
  have "take (fs_nextToSend s) frames @ map ((!) frames) [fs_nextToSend s..<fs_nextToSend s'] =
      take (fs_nextToSend s') frames"
    using nx by (intro nth_equalityI) (auto simp: nth_append)
  then have sent': "fw_sent w @ map (Pair c) more = map (Pair c) (take (m + 2) frames)"
    using fills s(3) sent next' by (metis map_append min.commute take_all_iff take_take nle_le min_def)
  show ?thesis
  proof (cases "m < length frames")
    case True
    then have "fs_inFlight s' \<noteq> []" using cnt next' by (cases "fs_inFlight s'") auto
    then show ?thesis using True w s l sent' fills next' cnt
      by (simp add: pumpFlowSession_def after_acks_def put_session_def)
  next
    case False
    then have "fs_inFlight s' = []" "fs_nextToSend s' = length (fs_frames s')"
      using cnt next' n(2) fills s(3) by auto
    then show ?thesis using False w s l sent'
      by (simp add: pumpFlowSession_def after_acks_def put_session_def AList.delete_eq)
  qed
qed

lemma ack_after_acks:
  assumes a: "after_acks sid c frames m w" and e: "effective (FeAck sid i) w"
  shows "after_acks sid c frames (Suc m) (handleSyncFlowAck sid i w)"
proof -
  have "m < length frames" using a e by (auto simp: after_acks_def split: if_splits)
  then obtain s where s: "fw_sessions w = [(sid, s)]" "sess_ok s" "fs_conv s = c" "fs_frames s = frames"
    "fs_nextToSend s = min (length frames) (m + 2)" "length (fs_inFlight s) + m = fs_nextToSend s"
    and sent: "fw_sent w = map (Pair c) (take (m + 2) frames)"
    using a by (auto simp: after_acks_def)
  obtain en where en: "map_of (fs_inFlight s) i = Some en"
    using e s(1) by (cases "map_of (fs_inFlight s) i") (auto simp: map_of_eq_None_iff)
  let ?s = "s\<lparr>fs_inFlight := AList.delete i (fs_inFlight s)\<rparr>"
  have ok: "sess_ok ?s" using s(2) length_delete_le [of i "fs_inFlight s"]
    by (auto simp: sess_ok_def distinct_delete set_delete_alist)
  have len: "length (fs_inFlight ?s) + Suc m = fs_nextToSend ?s"
    using length_delete_old [OF _ en] s(2,6) by (simp add: sess_ok_def)
  have sent': "fw_sent (put_session sid ?s w) = map (Pair c) (take (fs_nextToSend ?s) frames)"
    using sent s(5) by (simp add: put_session_def min_def)
  show ?thesis
    using pump_after_acks [OF _ ok _ _ len _ sent'] s \<open>m < length frames\<close>
    by (simp add: handleSyncFlowAck_def put_session_def)
qed

text \<open>Each acknowledgement is of a frame in flight when it comes.\<close>

fun acks_in_flight :: "string \<Rightarrow> nat list \<Rightarrow> 'f flow_state \<Rightarrow> bool" where
  "acks_in_flight sid [] w = True"
| "acks_in_flight sid (i # js) w = (effective (FeAck sid i) w \<and> acks_in_flight sid js (handleSyncFlowAck sid i w))"

lemma acks_after_acks:
  "after_acks sid c frames m w \<Longrightarrow> acks_in_flight sid js w \<Longrightarrow>
   after_acks sid c frames (m + length js) (fold (handleSyncFlowAck sid) js w)"
proof (induction js arbitrary: m w)
  case (Cons i js)
  then show ?case using ack_after_acks Cons.IH [of "Suc m"] by fastforce
qed simp

text \<open>
  Every frame of a session goes out in order: as long as the frames in flight are
  acknowledged, in whatever order, before a timer fires, the frames are sent in order, each
  exactly once and never more than two ahead of the acknowledgements, and with the last
  acknowledgement everything was sent and the session is closed.
\<close>

theorem frames_sent_in_order:
  fixes c and frames :: "('e, 'n) res_frame list"
  defines "w0 \<equiv> sendSyncResponseFrames c frames \<lparr>fw_sessions = [], fw_sent = []\<rparr>"
  assumes f: "1 < length frames" "rf_flow (hd frames) = Some tag" "fg_session tag = sid"
    and a: "acks_in_flight sid js w0"
  shows "fw_sent (fold (handleSyncFlowAck sid) js w0) = map (Pair c) (take (length js + 2) frames) \<and>
    (fw_sessions (fold (handleSyncFlowAck sid) js w0) = [] \<longleftrightarrow> length frames \<le> length js)"
proof -
  let ?s = "\<lparr>fs_conv = c, fs_frames = frames, fs_nextToSend = 0, fs_inFlight = []\<rparr>"
  have "after_acks sid c frames 0 (pumpFlowSession sid \<lparr>fw_sessions = [(sid, ?s)], fw_sent = []\<rparr>)"
    by (rule pump_after_acks [of _ _ ?s]) (simp_all add: sess_ok_def)
  moreover have "w0 = pumpFlowSession sid \<lparr>fw_sessions = [(sid, ?s)], fw_sent = []\<rparr>"
    using f by (cases frames) (auto simp: w0_def sendSyncResponseFrames_def put_session_def clearFlowSession_def)
  ultimately have "after_acks sid c frames (length js) (fold (handleSyncFlowAck sid) js w0)"
    using acks_after_acks [of sid c frames 0 w0 js] a by simp
  then show ?thesis by (cases "length js < length frames") (auto simp: after_acks_def)
qed

subsection \<open>Witnesses\<close>

lemma sample_cut:
  "createSyncResponseFrames (\<lambda>_ _. 0) ''s'' (replicate 17 e) (7::nat) True =
     [flow_frame ''s'' 7 2 0 (replicate 16 e), flow_frame ''s'' 7 2 1 [e]]"
  by (simp add: createSyncResponseFrames_def Let_def chunk_too_large_def MAX_SYNC_CHUNK_EVENTS_def
      numeral_eq_Suc enumerate_eq_zip)

theorem response_cut_without_loss_witness:
  "concat (map rf_events (createSyncResponseFrames (\<lambda>_ _. 0) ''s'' (replicate 17 True) (7::nat) True)) =
     replicate 17 True \<and>
   length (createSyncResponseFrames (\<lambda>_ _. 0) ''s'' (replicate 17 True) (7::nat) True) = 2"
proof
  show "concat (map rf_events (createSyncResponseFrames (\<lambda>_ _. 0) ''s'' (replicate 17 True) (7::nat) True)) =
      replicate 17 True"
    by (rule conjunct1 [OF response_cut_without_loss [OF refl]])
qed (simp add: sample_cut)

definition sample_frames :: "(nat, nat) res_frame list" where
  "sample_frames = [flow_frame ''s'' 7 2 0 [5], flow_frame ''s'' 7 2 1 [6]]"

definition sample_start :: "(nat, nat) res_frame flow_state" where
  "sample_start = sendSyncResponseFrames ''c'' sample_frames \<lparr>fw_sessions = [], fw_sent = []\<rparr>"

definition lossy_run :: "flow_event list" where
  "lossy_run = [FeSent ''s'' 0, FeTimer ''s'' 0, FeSent ''s'' 0, FeAck ''s'' 1]"

theorem flow_window_bounded_witness:
  "length (fw_sent (fold flow_step lossy_run sample_start)) \<le> 6 \<and>
   map (length \<circ> fs_inFlight \<circ> snd) (fw_sessions (fold flow_step lossy_run sample_start)) = [1]"
proof -
  have two: "length sample_frames = 2" by code_simp
  have "map (length \<circ> fs_inFlight \<circ> snd) (fw_sessions (fold flow_step lossy_run sample_start)) = [1]"
    by code_simp
  then show ?thesis
    using flow_window_bounded [of "fold flow_step lossy_run sample_start" lossy_run "''c''" sample_frames]
    by (simp add: two sample_start_def)
qed

theorem flow_session_ends_witness:
  "effective_count lossy_run sample_start \<le> 8 \<and> effective_count lossy_run sample_start = 2 \<and>
   (\<exists>sid i. effective (FeAck sid i) (fold flow_step lossy_run sample_start))"
proof -
  have two: "length sample_frames = 2" by code_simp
  have "effective_count lossy_run sample_start = 2" "length (fw_sessions (fold flow_step lossy_run sample_start)) = 1"
    by code_simp+
  then show ?thesis
    using flow_session_ends [of lossy_run "''c''" sample_frames] by (auto simp: two sample_start_def)
qed

theorem frames_sent_in_order_witness:
  "fw_sent (fold (handleSyncFlowAck ''s'') [1, 0] sample_start) = map (Pair ''c'') sample_frames \<and>
   fw_sessions (fold (handleSyncFlowAck ''s'') [1, 0] sample_start) = []"
proof -
  have two: "length sample_frames = 2" by code_simp
  have tag: "rf_flow (hd sample_frames) = Some \<lparr>fg_session = ''s'', fg_index = 0, fg_total = 2, fg_final = False\<rparr>"
    by code_simp
  have acks: "acks_in_flight ''s'' [1, 0] sample_start" by code_simp
  show ?thesis
    using frames_sent_in_order [of sample_frames _ "''s''" "[1, 0]" "''c''", OF _ tag]
      acks two by (simp add: sample_start_def)
qed

end
