(* ===== verification/Sync_Engine.thy ===== *)
theory Sync_Engine
  imports Sync_Apply Sync_Flow
begin

text \<open>
  The event log and its synchronisation (src/src/sync/syncEngine.ts, with the events table of
  src/src/db/repo.ts): the watermarks per author and conversation, how received events are verified,
  decrypted, stored and applied, and how a peer's request is answered and its response taken in.
  The keys of the device, the device registry's approvals, the clock, fresh key pairs and ids, and
  the collation of the language's string comparison (by a sort key) are fields of a record. An
  event that arrives has the fields the program declares for it; its number \<open>lamport\<close> is
  absent where it is not finite. Every operation that throws is caught by the loop over the events.
\<close>

subsection \<open>State\<close>

record sync_event =
  ev_eventId :: string
  ev_convId :: string
  ev_authorDeviceId :: string
  ev_lamport :: "rat option"
  ev_ts :: rat
  ev_envelopeJson :: string

record stored_event =
  se_eventId :: string
  se_convId :: json
  se_authorDeviceId :: json
  se_lamport :: json
  se_ts :: json
  se_envelopeJson :: string
  se_prevHash :: json
  se_eventHash :: string
  se_conflict :: bool

type_synonym lamports = "(string \<times> rat) list"

record sync_state =
  sy_authorSeen :: lamports
  sy_convSeen :: "(string \<times> lamports) list"
  sy_peers :: peers
  sy_events :: "stored_event list"
  sy_ratchets :: ratchet_store
  sy_app :: app_state
  sy_flow :: "(sync_event, lamports) res_frame flow_state"
  sy_acks :: "(string \<times> string \<times> nat \<times> nat) list"

record local_env =
  le_platform :: platform
  le_crypto :: crypto_lib
  le_fresh :: "string \<Rightarrow> keypair"
  le_deviceId :: string
  le_identityPub :: bytes
  le_identityPriv :: bytes
  le_dhPriv :: bytes
  le_psk :: "string \<Rightarrow> bytes option"
  le_approval :: "string \<Rightarrow> string option option"
  le_collation :: "string \<Rightarrow> string"
  le_now :: time_ms
  le_newId :: "string \<Rightarrow> string"

subsection \<open>The events table\<close>

definition saveEvent :: "stored_event \<Rightarrow> stored_event list \<Rightarrow> stored_event list" where
  "saveEvent = tbl_put se_eventId"

definition getEvent :: "string \<Rightarrow> stored_event list \<Rightarrow> stored_event option" where
  "getEvent = tbl_get se_eventId"

abbreviation events_ok :: "stored_event list \<Rightarrow> bool" where
  "events_ok \<equiv> tbl_ok se_eventId"

interpretation events: keyed_table se_eventId getEvent saveEvent "tbl_delete se_eventId"
    "tbl_update se_eventId" events_ok
  unfolding getEvent_def saveEvent_def by (rule list_table_keyed)

definition listEventsByConv :: "string \<Rightarrow> stored_event list \<Rightarrow> stored_event list" where
  "listEventsByConv convId t =
     sort_key (\<lambda>r. number_of (se_lamport r)) (filter (\<lambda>r. se_convId r = JStr convId) t)"

text \<open>The last row in the order of the index over conversation and lamport, which holds the rows
  whose lamport is a number.\<close>

definition getLastEventHash :: "string \<Rightarrow> stored_event list \<Rightarrow> string option" where
  "getLastEventHash convId t =
     (let rows = sort_key (\<lambda>r. number_of (se_lamport r))
        (filter (\<lambda>r. se_convId r = JStr convId \<and> finite_num (se_lamport r) \<noteq> None) t)
      in if rows = [] then None else Some (se_eventHash (last rows)))"

subsection \<open>Watermarks\<close>

definition seen_in :: "lamports \<Rightarrow> string \<Rightarrow> rat" where
  "seen_in m d = nullish (map_of m d) 0"

definition conv_lamports :: "sync_state \<Rightarrow> string \<Rightarrow> lamports" where
  "conv_lamports st convId = nullish (map_of (sy_convSeen st) convId) []"

definition getSinceMap :: "sync_state \<Rightarrow> string option \<Rightarrow> lamports" where
  "getSinceMap st convId = (if \<not> truthy_string convId then sy_authorSeen st
     else conv_lamports st (the convId))"

definition raise_to :: "rat \<Rightarrow> string \<Rightarrow> lamports \<Rightarrow> lamports" where
  "raise_to lamport d m = (if seen_in m d < lamport then AList.update d lamport m else m)"

definition updateLamportSeen :: "string \<Rightarrow> string \<Rightarrow> rat \<Rightarrow> sync_state \<Rightarrow> sync_state" where
  "updateLamportSeen convId authorDeviceId lamport st =
     st\<lparr>sy_authorSeen := raise_to lamport authorDeviceId (sy_authorSeen st),
        sy_convSeen := AList.update convId (raise_to lamport authorDeviceId (conv_lamports st convId))
          (sy_convSeen st)\<rparr>"

definition getLamportSeen :: "sync_state \<Rightarrow> string \<Rightarrow> string \<Rightarrow> rat" where
  "getLamportSeen st convId authorDeviceId = seen_in (conv_lamports st convId) authorDeviceId"

definition note_lamport :: "sync_event \<Rightarrow> lamports \<Rightarrow> lamports" where
  "note_lamport e m = (case ev_lamport e of None \<Rightarrow> m | Some l \<Rightarrow> raise_to l (ev_authorDeviceId e) m)"

definition buildNextMap :: "sync_event list \<Rightarrow> lamports" where
  "buildNextMap es = fold note_lamport es []"

definition sortEventsDeterministic :: "local_env \<Rightarrow> sync_event list \<Rightarrow> sync_event list" where
  "sortEventsDeterministic env es =
     sort_key (\<lambda>e. (ev_ts e, le_collation env (ev_authorDeviceId e), nullish (ev_lamport e) 0)) es"

subsection \<open>Keys\<close>

definition friend_key_id :: "peer_context \<Rightarrow> string \<Rightarrow> string" where
  "friend_key_id peer convId = nullish (or_else (pc_friendKeyId peer) (pc_directAddr peer)) convId"

text \<open>A missing key and a key whose derivation throws have the same effect on the caller.\<close>

definition derive_for :: "local_env \<Rightarrow> sync_state \<Rightarrow> string \<Rightarrow> (string \<Rightarrow> string) \<Rightarrow> bytes option" where
  "derive_for env st peerConvId context = (case map_of (sy_peers st) peerConvId of
       None \<Rightarrow> None
     | Some peer \<Rightarrow>
         if \<not> truthy_string (pc_dhPub peer) then None
         else (case decodeBase64Url (the (pc_dhPub peer)) of
             None \<Rightarrow> None
           | Some theirDhPub \<Rightarrow>
               let friendKeyId = friend_key_id peer peerConvId
               in deriveConversationKey (le_platform env) (le_dhPriv env) theirDhPub (le_psk env friendKeyId)
                    (Some (encode_utf8 (context friendKeyId)))))"

definition resolveLegacyKey :: "local_env \<Rightarrow> sync_state \<Rightarrow> string \<Rightarrow> bytes option" where
  "resolveLegacyKey env st convId = derive_for env st convId (\<lambda>friendKeyId. ''direct:'' @ friendKeyId)"

definition resolveRatchetBaseKey :: "local_env \<Rightarrow> sync_state \<Rightarrow> string \<Rightarrow> string \<Rightarrow> bytes option" where
  "resolveRatchetBaseKey env st peerConvId contextConvId =
     derive_for env st peerConvId (\<lambda>_. ''conv:'' @ contextConvId)"

definition getPeerVerifyKey :: "local_env \<Rightarrow> sync_state \<Rightarrow> string \<Rightarrow> json \<Rightarrow> bytes option" where
  "getPeerVerifyKey env st convId authorDeviceId =
     (if authorDeviceId = JStr (le_deviceId env) then Some (le_identityPub env)
      else (case Option.bind (map_of (sy_peers st) convId) pc_identityPub of
          None \<Rightarrow> None
        | Some key \<Rightarrow> if key = [] then None else decodeBase64Url key))"

definition isDeviceSyncAllowed :: "local_env \<Rightarrow> sync_state \<Rightarrow> string \<Rightarrow> bool" where
  "isDeviceSyncAllowed env st convId = (case map_of (sy_peers st) convId of
       None \<Rightarrow> True
     | Some peer \<Rightarrow>
         if pc_kind peer \<noteq> Some PeerDevice then True
         else
           let peerDeviceId = or_else (pc_peerDeviceId peer) (pc_friendKeyId peer)
           in truthy_string peerDeviceId \<and>
              (le_approval env (the peerDeviceId) \<noteq> None \<or>
               Option.bind (le_approval env (le_deviceId env)) id = peerDeviceId))"

subsection \<open>Applying events\<close>

definition isEphemeralMediaChunk :: "json \<Rightarrow> bool" where
  "isEphemeralMediaChunk body \<longleftrightarrow>
     is_object body \<and> field body ''type'' = JStr ''media'' \<and> field body ''phase'' = JStr ''chunk''"

definition hash_json :: "string option \<Rightarrow> json" where
  "hash_json h = (case h of None \<Rightarrow> JUndef | Some s \<Rightarrow> JStr s)"

definition persistAppliedEnvelope :: "local_env \<Rightarrow> json \<Rightarrow> json \<Rightarrow> string \<Rightarrow> sync_state \<Rightarrow> sync_state option" where
  "persistAppliedEnvelope env envelope body eventId st =
     (if isEphemeralMediaChunk body then Some st
      else (case (computeEnvelopeHash (le_platform env) envelope, str_of (field (field envelope ''header'') ''convId'')) of
          (Some eventHash, Some convId) \<Rightarrow>
            let header = field envelope ''header'';
                mismatch = (field header ''prev'' \<noteq> hash_json (getLastEventHash convId (sy_events st)))
            in Some (st\<lparr>sy_events := saveEvent
                 \<lparr>se_eventId = eventId, se_convId = JStr convId, se_authorDeviceId = field header ''authorDeviceId'',
                  se_lamport = field header ''lamport'', se_ts = field header ''ts'',
                  se_envelopeJson = stringify envelope, se_prevHash = field header ''prev'',
                  se_eventHash = eventHash, se_conflict = mismatch\<rparr> (sy_events st)\<rparr>)
        | _ \<Rightarrow> None))"

text \<open>The key a received envelope is opened with, by the ratchet its header names.\<close>

datatype opened = Deferred | MsgKey bytes

definition rk_is :: "string \<Rightarrow> json \<Rightarrow> bool" where
  "rk_is v rk \<longleftrightarrow> truthy rk \<and> field rk ''v'' = JNum v \<and> finite_num (field rk ''i'') \<noteq> None"

definition rk_index :: "json \<Rightarrow> jsnum" where
  "rk_index rk = to_jsnum (number_of (field rk ''i''))"

definition open_v2 ::
    "local_env \<Rightarrow> string \<Rightarrow> json \<Rightarrow> bytes \<Rightarrow> sync_state \<Rightarrow> json option \<times> sync_state" where
  "open_v2 env convKeyId envelope verifyKey st =
     (let header = field envelope ''header''; rk = field header ''rk''; convId = text_of (field header ''convId'') in
      case resolveRatchetBaseKey env st convKeyId convId of
        None \<Rightarrow> (None, st)
      | Some base \<Rightarrow>
          let (recv, rs) = tryRecvDhKey (le_crypto env) (le_fresh env convId) (sy_ratchets st) convId base
                \<lparr>hr_i = rk_index rk, hr_dh = the (str_of (field rk ''dh'')), hr_pn = None\<rparr> MAX_SKIP;
              st1 = st\<lparr>sy_ratchets := rs\<rparr>
          in (case recv of
                RecvThrows \<Rightarrow> (None, st1)
              | RecvDeferred \<Rightarrow> (None, st1)
              | RecvKey key s \<Rightarrow>
                  (case decryptEnvelope (le_platform env) key envelope verifyKey of
                     Inl _ \<Rightarrow> (None, st1)
                   | Inr body \<Rightarrow> (Some body, st1\<lparr>sy_ratchets := commit_recv rs convId s\<rparr>))))"

definition open_v1 ::
    "local_env \<Rightarrow> string \<Rightarrow> json \<Rightarrow> bytes \<Rightarrow> sync_state \<Rightarrow> json option \<times> sync_state" where
  "open_v1 env convKeyId envelope verifyKey st =
     (let header = field envelope ''header''; rk = field header ''rk''; convId = text_of (field header ''convId'') in
      case resolveRatchetBaseKey env st convKeyId convId of
        None \<Rightarrow> (None, st)
      | Some base \<Rightarrow>
          let (recv, rs) = tryRecvKey (le_crypto env) (sy_ratchets st) convId base (rk_index rk) MAX_SKIP;
              st1 = st\<lparr>sy_ratchets := rs\<rparr>
          in (case recv of
                None \<Rightarrow> (None, st1)
              | Some key \<Rightarrow>
                  (case decryptEnvelope (le_platform env) key envelope verifyKey of
                     Inl _ \<Rightarrow> (None, st1)
                   | Inr body \<Rightarrow> (Some body, st1))))"

definition open_legacy ::
    "local_env \<Rightarrow> string \<Rightarrow> json \<Rightarrow> bytes \<Rightarrow> sync_state \<Rightarrow> json option \<times> sync_state" where
  "open_legacy env convKeyId envelope verifyKey st =
     (case resolveLegacyKey env st convKeyId of
        None \<Rightarrow> (None, st)
      | Some key \<Rightarrow>
          (case decryptEnvelope (le_platform env) key envelope verifyKey of
             Inl _ \<Rightarrow> (None, st)
           | Inr body \<Rightarrow> (Some body, st)))"

definition open_envelope ::
    "local_env \<Rightarrow> string \<Rightarrow> json \<Rightarrow> bytes \<Rightarrow> sync_state \<Rightarrow> json option \<times> sync_state" where
  "open_envelope env convKeyId envelope verifyKey st =
     (let rk = field (field envelope ''header'') ''rk'' in
      if rk_is ''2'' rk \<and> str_of (field rk ''dh'') \<noteq> None then open_v2 env convKeyId envelope verifyKey st
      else if rk_is ''1'' rk then open_v1 env convKeyId envelope verifyKey st
      else open_legacy env convKeyId envelope verifyKey st)"

text \<open>What happens to an event whose envelope was opened.\<close>

definition commit_event ::
    "local_env \<Rightarrow> string \<Rightarrow> json \<Rightarrow> sync_event \<Rightarrow> rat \<Rightarrow> json \<Rightarrow> json \<Rightarrow> sync_state \<Rightarrow> sync_state" where
  "commit_event env convKeyId conv event lamport envelope body st =
     (case persistAppliedEnvelope env envelope body (ev_eventId event) st of
        None \<Rightarrow> st
      | Some st1 \<Rightarrow>
          let st2 = updateLamportSeen (ev_convId event) (ev_authorDeviceId event) lamport st1
          in st2\<lparr>sy_app := applyDecryptedBody (sy_peers st2) (le_now env) (le_newId env (ev_eventId event))
               convKeyId conv envelope body (sy_app st2)\<rparr>)"

definition apply_verified ::
    "local_env \<Rightarrow> string \<Rightarrow> json \<Rightarrow> sync_event \<Rightarrow> rat \<Rightarrow> json \<Rightarrow> sync_state \<Rightarrow> sync_state" where
  "apply_verified env convKeyId conv event lamport envelope st =
     (case getPeerVerifyKey env st convKeyId (field (field envelope ''header'') ''authorDeviceId'') of
        None \<Rightarrow> st
      | Some verifyKey \<Rightarrow>
          if verifyEnvelopeSignature (le_platform env) envelope verifyKey \<noteq> Some True then st
          else (case open_envelope env convKeyId envelope verifyKey st of
              (None, st1) \<Rightarrow> st1
            | (Some body, st1) \<Rightarrow> commit_event env convKeyId conv event lamport envelope body st1))"

definition apply_event :: "local_env \<Rightarrow> string \<Rightarrow> json \<Rightarrow> sync_event \<Rightarrow> sync_state \<Rightarrow> sync_state" where
  "apply_event env convKeyId conv event st =
     (case ev_lamport event of
        None \<Rightarrow> st
      | Some lamport \<Rightarrow>
          if lamport \<le> getLamportSeen st (ev_convId event) (ev_authorDeviceId event) then st
          else if getEvent (ev_eventId event) (sy_events st) \<noteq> None
          then updateLamportSeen (ev_convId event) (ev_authorDeviceId event) lamport st
          else (case pf_json_parse (le_platform env) (ev_envelopeJson event) of
              None \<Rightarrow> st
            | Some envelope \<Rightarrow>
                if \<not> truthy (field envelope ''header'') \<or>
                   field (field envelope ''header'') ''eventId'' \<noteq> JStr (ev_eventId event) then st
                else apply_verified env convKeyId conv event lamport envelope st))"

definition unique_events :: "sync_event list \<Rightarrow> sync_event list" where
  "unique_events es =
     map snd (fold (\<lambda>e m. if ev_eventId e = [] then m else AList.update (ev_eventId e) e m) es [])"

definition applyEnvelopeEvents :: "local_env \<Rightarrow> string \<Rightarrow> sync_event list \<Rightarrow> sync_state \<Rightarrow> sync_state" where
  "applyEnvelopeEvents env convKeyId es st =
     (let sorted = sortEventsDeterministic env (unique_events es);
          conv = find_row (\<lambda>c. field c ''id'' = JStr convKeyId) (ap_conversations (sy_app st))
      in fold (apply_event env convKeyId conv) sorted st)"

subsection \<open>Requests and responses\<close>

datatype sync_scope = ScopeConv | ScopeContacts | ScopeConversations | ScopeGlobal

definition scope_log :: "sync_scope \<Rightarrow> string \<Rightarrow> string" where
  "scope_log scope convId = (case scope of
       ScopeContacts \<Rightarrow> ''contacts:'' @ convId
     | ScopeConversations \<Rightarrow> ''convs:'' @ convId
     | ScopeGlobal \<Rightarrow> ''global:'' @ convId
     | ScopeConv \<Rightarrow> convId)"

definition to_event :: "stored_event \<Rightarrow> sync_event" where
  "to_event r = \<lparr>ev_eventId = se_eventId r, ev_convId = text_of (se_convId r),
     ev_authorDeviceId = text_of (se_authorDeviceId r), ev_lamport = finite_num (se_lamport r),
     ev_ts = number_of (se_ts r), ev_envelopeJson = se_envelopeJson r\<rparr>"

definition newer_than :: "lamports \<Rightarrow> sync_event \<Rightarrow> bool" where
  "newer_than since e = (case ev_lamport e of None \<Rightarrow> False | Some l \<Rightarrow> seen_in since (ev_authorDeviceId e) < l)"

definition response_frames ::
    "local_env \<Rightarrow> (nat \<Rightarrow> sync_event list \<Rightarrow> nat) \<Rightarrow> string \<Rightarrow> bool \<Rightarrow> string \<Rightarrow> lamports \<Rightarrow>
     stored_event list \<Rightarrow> (sync_event, lamports) res_frame list" where
  "response_frames env bytes_of sessionId flowControl logId since t =
     (let rows = map to_event (listEventsByConv logId t);
          es = filter (newer_than since) rows;
          nxt = buildNextMap rows
      in createSyncResponseFrames bytes_of sessionId (sortEventsDeterministic env es) nxt flowControl)"

definition handleSyncReq ::
    "local_env \<Rightarrow> (nat \<Rightarrow> sync_event list \<Rightarrow> nat) \<Rightarrow> string \<Rightarrow> string \<Rightarrow> sync_scope \<Rightarrow> string option \<Rightarrow>
     lamports \<Rightarrow> sync_state \<Rightarrow> sync_state" where
  "handleSyncReq env bytes_of sessionId convId scope frameConv since st =
     (if \<not> isDeviceSyncAllowed env st convId then st
      else st\<lparr>sy_flow := sendSyncResponseFrames convId
        (response_frames env bytes_of sessionId (canUseFlowControl (sy_peers st) convId)
           (scope_log scope (nullish frameConv convId)) since (sy_events st)) (sy_flow st)\<rparr>)"

definition advance_all :: "string \<Rightarrow> lamports \<Rightarrow> sync_state \<Rightarrow> sync_state" where
  "advance_all convId nxt st = fold (\<lambda>(d, l). updateLamportSeen convId d l) nxt st"

definition handleSyncRes ::
    "local_env \<Rightarrow> string \<Rightarrow> sync_scope \<Rightarrow> string option \<Rightarrow> (sync_event, lamports) res_frame \<Rightarrow>
     sync_state \<Rightarrow> sync_state" where
  "handleSyncRes env convId scope frameConv frame st =
     (if \<not> isDeviceSyncAllowed env st convId then st
      else
        let st1 = applyEnvelopeEvents env convId (rf_events frame) st;
            st2 = (case rf_flow frame of
                None \<Rightarrow> st1
              | Some tag \<Rightarrow> st1\<lparr>sy_acks := sy_acks st1 @
                  [(convId, fg_session tag, fg_index tag, length (rf_events frame))]\<rparr>)
        in if (case rf_flow frame of Some tag \<Rightarrow> \<not> fg_final tag | None \<Rightarrow> False) then st2
           else advance_all (scope_log scope (nullish frameConv convId)) (nullish (rf_next frame) []) st2)"

subsection \<open>Watermarks rise\<close>

lemma seen_update: "seen_in (AList.update d l m) e = (if e = d then l else seen_in m e)"
  by (simp add: seen_in_def update_conv')

lemma seen_raise [simp]: "seen_in (raise_to l d m) e = (if e = d then max (seen_in m d) l else seen_in m e)"
  by (simp add: raise_to_def seen_update)

lemma conv_lamports_update [simp]:
  "conv_lamports (updateLamportSeen c d l st) c' = (if c' = c then raise_to l d (conv_lamports st c) else conv_lamports st c')"
  by (simp add: conv_lamports_def updateLamportSeen_def update_conv')

lemma getLamportSeen_update [simp]:
  "getLamportSeen (updateLamportSeen c d l st) c' d' =
   (if c' = c \<and> d' = d then max (getLamportSeen st c d) l else getLamportSeen st c' d')"
  by (simp add: getLamportSeen_def)

lemma updateLamportSeen_frame [simp]:
  "sy_events (updateLamportSeen c d l st) = sy_events st" "sy_app (updateLamportSeen c d l st) = sy_app st"
  "sy_ratchets (updateLamportSeen c d l st) = sy_ratchets st" "sy_peers (updateLamportSeen c d l st) = sy_peers st"
  "sy_flow (updateLamportSeen c d l st) = sy_flow st" "sy_acks (updateLamportSeen c d l st) = sy_acks st"
  by (simp_all add: updateLamportSeen_def)

lemma getLamportSeen_frame [simp]:
  "getLamportSeen (st\<lparr>sy_ratchets := r\<rparr>) c d = getLamportSeen st c d"
  "getLamportSeen (st\<lparr>sy_events := t\<rparr>) c d = getLamportSeen st c d"
  "getLamportSeen (st\<lparr>sy_app := a\<rparr>) c d = getLamportSeen st c d"
  "getLamportSeen (st\<lparr>sy_acks := k\<rparr>) c d = getLamportSeen st c d"
  "getLamportSeen (st\<lparr>sy_flow := f\<rparr>) c d = getLamportSeen st c d"
  by (simp_all add: getLamportSeen_def conv_lamports_def)

lemma getPeerVerifyKey_frame [simp]:
  "getPeerVerifyKey env (st\<lparr>sy_ratchets := r\<rparr>) k a = getPeerVerifyKey env st k a"
  by (simp add: getPeerVerifyKey_def)

lemma getPeerVerifyKey_peers: "sy_peers s = sy_peers st \<Longrightarrow> getPeerVerifyKey env s k a = getPeerVerifyKey env st k a"
  by (simp add: getPeerVerifyKey_def)

subsection \<open>What an event can do\<close>

text \<open>Opening an envelope touches the ratchets alone, and yields what the box opened under some key.\<close>

lemma with_ratchets_self: "\<exists>r. st = st\<lparr>sy_ratchets := r\<rparr>"
  by (rule exI [of _ "sy_ratchets st"]) simp

lemma open_v2_state: "\<exists>r. snd (open_v2 env k envelope vk st) = st\<lparr>sy_ratchets := r\<rparr>"
  using with_ratchets_self [of st]
  by (simp add: open_v2_def Let_def split: option.split prod.split recv_result.split sum.split) blast

lemma open_v1_state: "\<exists>r. snd (open_v1 env k envelope vk st) = st\<lparr>sy_ratchets := r\<rparr>"
  using with_ratchets_self [of st]
  by (simp add: open_v1_def Let_def split: option.split prod.split sum.split) blast

lemma open_legacy_state: "snd (open_legacy env k envelope vk st) = st"
  by (simp add: open_legacy_def split: option.split sum.split)

lemma open_envelope_state: "\<exists>r. snd (open_envelope env k envelope vk st) = st\<lparr>sy_ratchets := r\<rparr>"
  using open_v2_state open_v1_state open_legacy_state with_ratchets_self [of st]
  by (simp add: open_envelope_def Let_def)

lemma open_envelope_body:
  assumes "fst (open_envelope env k envelope vk st) = Some body"
  shows "\<exists>key. decryptEnvelope (le_platform env) key envelope vk = Inr body"
  using assms
  by (auto simp: open_envelope_def open_v2_def open_v1_def open_legacy_def Let_def
      split: option.splits prod.splits recv_result.splits sum.splits if_splits)

text \<open>The guards an event passes before its signature is looked at.\<close>

definition ready :: "local_env \<Rightarrow> sync_event \<Rightarrow> sync_state \<Rightarrow> rat \<Rightarrow> json \<Rightarrow> bool" where
  "ready env e st l envelope \<longleftrightarrow>
     ev_lamport e = Some l \<and> getLamportSeen st (ev_convId e) (ev_authorDeviceId e) < l \<and>
     getEvent (ev_eventId e) (sy_events st) = None \<and>
     pf_json_parse (le_platform env) (ev_envelopeJson e) = Some envelope \<and>
     truthy (field envelope ''header'') \<and>
     field (field envelope ''header'') ''eventId'' = JStr (ev_eventId e)"

definition accepted ::
    "local_env \<Rightarrow> string \<Rightarrow> sync_event \<Rightarrow> sync_state \<Rightarrow> rat \<Rightarrow> json \<Rightarrow> json \<Rightarrow> bool" where
  "accepted env k e st l envelope body \<longleftrightarrow> ready env e st l envelope \<and>
     (\<exists>vk key. getPeerVerifyKey env st k (field (field envelope ''header'') ''authorDeviceId'') = Some vk \<and>
        verifyEnvelopeSignature (le_platform env) envelope vk = Some True \<and>
        fst (open_envelope env k envelope vk st) = Some body \<and>
        decryptEnvelope (le_platform env) key envelope vk = Inr body)"

lemma apply_event_ready: "ready env e st l envelope \<Longrightarrow> apply_event env k conv e st = apply_verified env k conv e l envelope st"
  by (simp add: apply_event_def ready_def)

lemma apply_event_replay:
  "ev_lamport e = Some l \<Longrightarrow> l \<le> getLamportSeen st (ev_convId e) (ev_authorDeviceId e) \<Longrightarrow> apply_event env k conv e st = st"
  by (simp add: apply_event_def)

lemma apply_event_known:
  "ev_lamport e = Some l \<Longrightarrow> getLamportSeen st (ev_convId e) (ev_authorDeviceId e) < l \<Longrightarrow>
   getEvent (ev_eventId e) (sy_events st) \<noteq> None \<Longrightarrow>
   apply_event env k conv e st = updateLamportSeen (ev_convId e) (ev_authorDeviceId e) l st"
  by (simp add: apply_event_def)

lemma apply_event_unready:
  assumes "\<nexists>l envelope. ready env e st l envelope"
    and "\<nexists>l. ev_lamport e = Some l \<and> getLamportSeen st (ev_convId e) (ev_authorDeviceId e) < l \<and>
      getEvent (ev_eventId e) (sy_events st) \<noteq> None"
  shows "apply_event env k conv e st = st"
proof (cases "ev_lamport e")
  case (Some l)
  then show ?thesis using assms by (auto simp: apply_event_def ready_def split: option.split)
qed (simp add: apply_event_def)

lemma apply_verified_result:
  "(\<exists>r. apply_verified env k conv e l envelope st = st\<lparr>sy_ratchets := r\<rparr>) \<or>
   (\<exists>vk body r. getPeerVerifyKey env st k (field (field envelope ''header'') ''authorDeviceId'') = Some vk \<and>
      verifyEnvelopeSignature (le_platform env) envelope vk = Some True \<and>
      fst (open_envelope env k envelope vk st) = Some body \<and>
      snd (open_envelope env k envelope vk st) = st\<lparr>sy_ratchets := r\<rparr> \<and>
      apply_verified env k conv e l envelope st =
        commit_event env k conv e l envelope body (st\<lparr>sy_ratchets := r\<rparr>))"
proof (cases "getPeerVerifyKey env st k (field (field envelope ''header'') ''authorDeviceId'')")
  case None
  then show ?thesis using with_ratchets_self [of st] by (simp add: apply_verified_def)
next
  case (Some vk)
  obtain r where r: "snd (open_envelope env k envelope vk st) = st\<lparr>sy_ratchets := r\<rparr>"
    using open_envelope_state by blast
  then obtain b where b: "open_envelope env k envelope vk st = (b, st\<lparr>sy_ratchets := r\<rparr>)"
    by (cases "open_envelope env k envelope vk st") simp
  show ?thesis
  proof (cases "verifyEnvelopeSignature (le_platform env) envelope vk = Some True \<and> b \<noteq> None")
    case True
    then show ?thesis using Some b by (auto simp: apply_verified_def)
  next
    case False
    then show ?thesis using Some b with_ratchets_self [of st] by (auto simp: apply_verified_def)
  qed
qed

lemma apply_event_cases:
  obtains (ratchets) r where "apply_event env k conv e st = st\<lparr>sy_ratchets := r\<rparr>"
  | (known) l where "ev_lamport e = Some l" "getLamportSeen st (ev_convId e) (ev_authorDeviceId e) < l"
      "getEvent (ev_eventId e) (sy_events st) \<noteq> None"
      "apply_event env k conv e st = updateLamportSeen (ev_convId e) (ev_authorDeviceId e) l st"
  | (new) l envelope body r where "accepted env k e st l envelope body"
      "apply_event env k conv e st = commit_event env k conv e l envelope body (st\<lparr>sy_ratchets := r\<rparr>)"
proof (cases "\<exists>l envelope. ready env e st l envelope")
  case True
  then obtain l envelope where rd: "ready env e st l envelope" by blast
  from apply_verified_result [of env k conv e l envelope st] show thesis
  proof
    assume "\<exists>r. apply_verified env k conv e l envelope st = st\<lparr>sy_ratchets := r\<rparr>"
    then show thesis using ratchets unfolding apply_event_ready [OF rd] by blast
  next
    assume "\<exists>vk body r. getPeerVerifyKey env st k (field (field envelope ''header'') ''authorDeviceId'') = Some vk \<and>
      verifyEnvelopeSignature (le_platform env) envelope vk = Some True \<and>
      fst (open_envelope env k envelope vk st) = Some body \<and>
      snd (open_envelope env k envelope vk st) = st\<lparr>sy_ratchets := r\<rparr> \<and>
      apply_verified env k conv e l envelope st =
        commit_event env k conv e l envelope body (st\<lparr>sy_ratchets := r\<rparr>)"
    then obtain vk body r where v: "getPeerVerifyKey env st k (field (field envelope ''header'') ''authorDeviceId'') = Some vk"
      "verifyEnvelopeSignature (le_platform env) envelope vk = Some True"
      "fst (open_envelope env k envelope vk st) = Some body"
      "apply_verified env k conv e l envelope st =
        commit_event env k conv e l envelope body (st\<lparr>sy_ratchets := r\<rparr>)" by blast
    then have "accepted env k e st l envelope body"
      using rd open_envelope_body [OF v(3)] unfolding accepted_def by blast
    then show thesis using new v(4) unfolding apply_event_ready [OF rd, symmetric] by blast
  qed
next
  case False
  show thesis
  proof (cases "\<exists>l. ev_lamport e = Some l \<and> getLamportSeen st (ev_convId e) (ev_authorDeviceId e) < l \<and>
      getEvent (ev_eventId e) (sy_events st) \<noteq> None")
    case True
    then show thesis using known apply_event_known by metis
  next
    case False': False
    have "apply_event env k conv e st = st" by (rule apply_event_unready [OF False False'])
    then show thesis using ratchets with_ratchets_self [of st] by metis
  qed
qed

subsection \<open>What a batch can do\<close>

lemma persist_result:
  "persistAppliedEnvelope env envelope body i st = Some st1 \<Longrightarrow> \<exists>t. st1 = st\<lparr>sy_events := t\<rparr>"
proof -
  assume p: "persistAppliedEnvelope env envelope body i st = Some st1"
  have "\<exists>t. s = s\<lparr>sy_events := t\<rparr>" for s by (rule exI [of _ "sy_events s"]) simp
  then show ?thesis
    using p by (auto simp: persistAppliedEnvelope_def Let_def split: if_splits option.splits)
qed

lemma commit_seen:
  "getLamportSeen (commit_event env k conv e l envelope body st) c d =
   (if c = ev_convId e \<and> d = ev_authorDeviceId e \<and> persistAppliedEnvelope env envelope body (ev_eventId e) st \<noteq> None
    then max (getLamportSeen st c d) l else getLamportSeen st c d)"
proof (cases "persistAppliedEnvelope env envelope body (ev_eventId e) st")
  case (Some st1)
  then obtain t where "st1 = st\<lparr>sy_events := t\<rparr>" using persist_result by blast
  then show ?thesis using Some by (simp add: commit_event_def Let_def)
qed (simp add: commit_event_def)

lemma commit_peers [simp]: "sy_peers (commit_event env k conv e l envelope body st) = sy_peers st"
  by (auto simp: commit_event_def Let_def dest!: persist_result split: option.split)

lemma apply_event_seen:
  "getLamportSeen (apply_event env k conv e st) c d =
     (if c = ev_convId e \<and> d = ev_authorDeviceId e
      then getLamportSeen (apply_event env k conv e st) c d else getLamportSeen st c d)"
  "getLamportSeen st c d \<le> getLamportSeen (apply_event env k conv e st) c d"
  by (cases rule: apply_event_cases [of env k conv e st]; simp add: commit_seen)+

lemma apply_event_peers [simp]: "sy_peers (apply_event env k conv e st) = sy_peers st"
  by (cases rule: apply_event_cases [of env k conv e st]) simp_all

lemma fold_apply_peers [simp]: "sy_peers (fold (apply_event env k conv) es st) = sy_peers st"
  by (induction es arbitrary: st) simp_all

lemma fold_apply_seen: "getLamportSeen st c d \<le> getLamportSeen (fold (apply_event env k conv) es st) c d"
proof (induction es arbitrary: st)
  case (Cons e es)
  then show ?case using apply_event_seen(2) [of st c d env k conv e] by (auto intro: order_trans)
qed simp

lemma set_update_snd: "snd ` set (AList.update k v m) \<subseteq> insert v (snd ` set m)"
  by (induction m) auto

lemma set_unique_events: "set (unique_events es) \<subseteq> set es"
proof -
  let ?f = "\<lambda>e m. if ev_eventId e = [] then m else AList.update (ev_eventId e) e m"
  have "snd ` set (fold ?f es m) \<subseteq> set es \<union> snd ` set m" for m
  proof (induction es arbitrary: m)
    case (Cons e es)
    have "snd ` set (?f e m) \<subseteq> insert e (snd ` set m)" using set_update_snd [of "ev_eventId e" e m] by auto
    moreover have "snd ` set (fold ?f es (?f e m)) \<subseteq> set es \<union> snd ` set (?f e m)" by (rule Cons.IH)
    ultimately have "snd ` set (fold ?f es (?f e m)) \<subseteq> insert e (set es \<union> snd ` set m)" by blast
    then show ?case by simp
  qed simp
  from this [of "[]"] show ?thesis by (simp add: unique_events_def)
qed

lemma set_sorted_events: "set (sortEventsDeterministic env es) = set es"
  by (simp add: sortEventsDeterministic_def)

lemma advance_all_mono: "getLamportSeen st c d \<le> getLamportSeen (advance_all c0 nxt st) c d"
  unfolding advance_all_def
proof (induction nxt arbitrary: st)
  case (Cons p nxt)
  obtain e m where "p = (e, m)" by (cases p)
  then show ?case using Cons.IH [of "updateLamportSeen c0 e m st"] by (auto intro: order_trans split: if_splits)
qed simp

lemma advance_all_reaches: "(d, l) \<in> set nxt \<Longrightarrow> l \<le> getLamportSeen (advance_all c nxt st) c d"
proof (induction nxt arbitrary: st)
  case (Cons p nxt)
  show ?case
  proof (cases "p = (d, l)")
    case True
    have "l \<le> getLamportSeen (updateLamportSeen c d l st) c d" by simp
    also have "\<dots> \<le> getLamportSeen (advance_all c nxt (updateLamportSeen c d l st)) c d" by (rule advance_all_mono)
    finally show ?thesis using True by (simp add: advance_all_def)
  next
    case False
    obtain e m where "p = (e, m)" by (cases p)
    then show ?thesis using False Cons by (auto simp: advance_all_def)
  qed
qed simp

text \<open>
  Watermarks never fall: whatever a peer sends, taking in its response leaves the lamport number
  seen of every author in every conversation where it was or raises it.
\<close>

theorem watermarks_never_fall:
  "getLamportSeen st c d \<le> getLamportSeen (handleSyncRes env convId scope frameConv frame st) c d"
proof -
  let ?st1 = "applyEnvelopeEvents env convId (rf_events frame) st"
  have 1: "getLamportSeen st c d \<le> getLamportSeen ?st1 c d"
    by (simp add: applyEnvelopeEvents_def Let_def fold_apply_seen)
  have "getLamportSeen s c d \<le> getLamportSeen (advance_all c0 nxt s) c d" for c0 nxt s
    by (rule advance_all_mono)
  from order_trans [OF _ this, of "getLamportSeen st c d"] 1 show ?thesis
    by (simp add: handleSyncRes_def Let_def split: option.split)
qed

subsection \<open>Only verified events take effect\<close>

lemma unique_distinct: "distinct (map ev_eventId (unique_events es))"
proof -
  let ?f = "\<lambda>e m. if ev_eventId e = [] then m else AList.update (ev_eventId e) e m"
  let ?keyed = "\<lambda>m. (\<forall>p \<in> set m. ev_eventId (snd p) = fst p) \<and> distinct (map fst m)"
  have step: "?keyed (?f e m)" if "?keyed m" for e m
  proof -
    have "ev_eventId (snd p) = fst p" if "p \<in> set (AList.update (ev_eventId e) e m)" for p
      using \<open>?keyed m\<close> that set_update_alist [of "fst p" "snd p" "ev_eventId e" e m] by auto
    then show ?thesis using that distinct_update [of m "ev_eventId e" e] by simp
  qed
  have "?keyed (fold ?f es m)" if "?keyed m" for m
    using that
  proof (induction es arbitrary: m)
    case (Cons e es)
    have "?keyed (fold ?f es (?f e m))" by (rule Cons.IH [OF step [OF Cons.prems]])
    then show ?case by simp
  qed simp
  from this [of "[]"] have k: "?keyed (fold ?f es [])" by simp
  then have "map ev_eventId (unique_events es) = map fst (fold ?f es [])" by (simp add: unique_events_def)
  then show ?thesis using k by simp
qed

text \<open>
  A verified event: its text is an envelope whose signed header names the event, and whose
  signature is valid under the key of its author, the local identity for the local device and the
  pinned identity of the conversation's peer for any other.
\<close>

definition verified :: "local_env \<Rightarrow> sync_state \<Rightarrow> string \<Rightarrow> sync_event \<Rightarrow> bool" where
  "verified env st k e \<longleftrightarrow> (\<exists>envelope vk.
     pf_json_parse (le_platform env) (ev_envelopeJson e) = Some envelope \<and>
     field (field envelope ''header'') ''eventId'' = JStr (ev_eventId e) \<and>
     getPeerVerifyKey env st k (field (field envelope ''header'') ''authorDeviceId'') = Some vk \<and>
     verifyEnvelopeSignature (le_platform env) envelope vk = Some True)"

text \<open>
  What a step from \<open>s\<close> to \<open>s'\<close> with a verified event may do: the envelope it carries decrypts, the
  data becomes what the body in it says, and the log gets at most the row of this event.
\<close>

definition applied_as_signed ::
    "local_env \<Rightarrow> sync_state \<Rightarrow> string \<Rightarrow> json \<Rightarrow> sync_event \<Rightarrow> sync_state \<Rightarrow> sync_state \<Rightarrow> bool" where
  "applied_as_signed env st k conv e s s' \<longleftrightarrow> (\<exists>envelope vk key body.
     pf_json_parse (le_platform env) (ev_envelopeJson e) = Some envelope \<and>
     field (field envelope ''header'') ''eventId'' = JStr (ev_eventId e) \<and>
     getPeerVerifyKey env st k (field (field envelope ''header'') ''authorDeviceId'') = Some vk \<and>
     verifyEnvelopeSignature (le_platform env) envelope vk = Some True \<and>
     decryptEnvelope (le_platform env) key envelope vk = Inr body \<and>
     sy_app s' = applyDecryptedBody (sy_peers st) (le_now env) (le_newId env (ev_eventId e)) k conv envelope body
       (sy_app s) \<and>
     (sy_events s' = sy_events s \<or>
      (\<exists>row. se_eventId row = ev_eventId e \<and> se_envelopeJson row = stringify envelope \<and>
         sy_events s' = saveEvent row (sy_events s))))"

lemma verified_peers: "sy_peers s = sy_peers st \<Longrightarrow> verified env s k e = verified env st k e"
  by (simp add: verified_def getPeerVerifyKey_def)

lemma persist_effect:
  assumes "persistAppliedEnvelope env envelope body i st = Some st1"
  shows "sy_app st1 = sy_app st \<and> sy_peers st1 = sy_peers st \<and> (sy_events st1 = sy_events st \<or>
      (\<exists>row. se_eventId row = i \<and> se_envelopeJson row = stringify envelope \<and> sy_events st1 = saveEvent row (sy_events st)))"
proof (cases "isEphemeralMediaChunk body")
  case False
  define row where "row eventHash convId =
      \<lparr>se_eventId = i, se_convId = JStr convId, se_authorDeviceId = field (field envelope ''header'') ''authorDeviceId'',
       se_lamport = field (field envelope ''header'') ''lamport'', se_ts = field (field envelope ''header'') ''ts'',
       se_envelopeJson = stringify envelope, se_prevHash = field (field envelope ''header'') ''prev'',
       se_eventHash = eventHash,
       se_conflict = (field (field envelope ''header'') ''prev'' \<noteq> hash_json (getLastEventHash convId (sy_events st)))\<rparr>"
    for eventHash convId
  have "\<exists>eventHash convId. st1 = st\<lparr>sy_events := saveEvent (row eventHash convId) (sy_events st)\<rparr>"
    using assms False unfolding row_def by (auto simp: persistAppliedEnvelope_def Let_def split: option.splits)
  moreover have "se_eventId (row a b) = i \<and> se_envelopeJson (row a b) = stringify envelope" for a b by (simp add: row_def)
  ultimately have "\<exists>row. se_eventId row = i \<and> se_envelopeJson row = stringify envelope \<and>
      st1 = st\<lparr>sy_events := saveEvent row (sy_events st)\<rparr>" by metis
  then show ?thesis by auto
qed (use assms in \<open>simp add: persistAppliedEnvelope_def\<close>)

lemma commit_effect:
  assumes s': "s' = commit_event env k conv e l envelope body (st\<lparr>sy_ratchets := r\<rparr>)"
    and d: "sy_events s' \<noteq> sy_events st \<or> sy_app s' \<noteq> sy_app st"
  shows "sy_app s' = applyDecryptedBody (sy_peers st) (le_now env) (le_newId env (ev_eventId e)) k conv envelope body
       (sy_app st) \<and>
     (sy_events s' = sy_events st \<or>
      (\<exists>row. se_eventId row = ev_eventId e \<and> se_envelopeJson row = stringify envelope \<and>
         sy_events s' = saveEvent row (sy_events st)))"
proof (cases "persistAppliedEnvelope env envelope body (ev_eventId e) (st\<lparr>sy_ratchets := r\<rparr>)")
  case None
  then show ?thesis using d by (simp add: s' commit_event_def)
next
  case (Some st1)
  then show ?thesis using persist_effect [OF Some] by (simp add: s' commit_event_def Let_def)
qed

lemma apply_event_effect:
  assumes p: "sy_peers s = sy_peers st"
    and d: "sy_events (apply_event env k conv e s) \<noteq> sy_events s \<or> sy_app (apply_event env k conv e s) \<noteq> sy_app s"
  shows "applied_as_signed env st k conv e s (apply_event env k conv e s)"
proof (cases rule: apply_event_cases [of env k conv e s])
  case (ratchets r)
  then show ?thesis using d by simp
next
  case (known l)
  then show ?thesis using d by simp
next
  case (new l envelope body r)
  have keys: "getPeerVerifyKey env s k a = getPeerVerifyKey env st k a" for a
    by (rule getPeerVerifyKey_peers [OF p])
  show ?thesis
    using new(1) commit_effect [OF new(2) d]
    unfolding new(2) applied_as_signed_def accepted_def ready_def p keys by blast
qed

lemma apply_event_ratchets:
  assumes p: "sy_peers s = sy_peers st"
    and d: "sy_ratchets (apply_event env k conv e s) \<noteq> sy_ratchets s"
  shows "verified env st k e"
proof (cases "\<exists>l envelope. ready env e s l envelope")
  case True
  then obtain l envelope where rd: "ready env e s l envelope" by blast
  have "apply_verified env k conv e l envelope s \<noteq> s"
    using d by (auto simp: apply_event_ready [OF rd])
  then obtain vk where "getPeerVerifyKey env s k (field (field envelope ''header'') ''authorDeviceId'') = Some vk"
    "verifyEnvelopeSignature (le_platform env) envelope vk = Some True"
    by (auto simp: apply_verified_def split: option.splits if_splits)
  then have "verified env s k e" using rd by (auto simp: verified_def ready_def)
  then show ?thesis by (simp add: verified_peers [OF p])
next
  case False
  show ?thesis
  proof (cases "\<exists>l. ev_lamport e = Some l \<and> getLamportSeen s (ev_convId e) (ev_authorDeviceId e) < l \<and>
      getEvent (ev_eventId e) (sy_events s) \<noteq> None")
    case True
    then obtain l where "ev_lamport e = Some l" "getLamportSeen s (ev_convId e) (ev_authorDeviceId e) < l"
      "getEvent (ev_eventId e) (sy_events s) \<noteq> None" by blast
    from apply_event_known [OF this] d show ?thesis by simp
  next
    case False': False
    from apply_event_unready [OF False False'] d show ?thesis by simp
  qed
qed

text \<open>An event that is neither verified nor in the log changes nothing at all.\<close>

lemma apply_event_unverified:
  assumes p: "sy_peers s = sy_peers st" and v: "\<not> verified env st k e"
    and n: "getEvent (ev_eventId e) (sy_events s) = None"
  shows "apply_event env k conv e s = s"
proof (cases "\<exists>l envelope. ready env e s l envelope")
  case True
  then obtain l envelope where rd: "ready env e s l envelope" by blast
  have "\<not> verified env s k e" using v by (simp add: verified_peers [OF p])
  then have "apply_verified env k conv e l envelope s = s"
    using rd by (auto simp: apply_verified_def verified_def ready_def split: option.split)
  then show ?thesis by (simp add: apply_event_ready [OF rd])
next
  case False
  show ?thesis by (rule apply_event_unready [OF False]) (simp add: n)
qed

lemma get_save_other: "i \<noteq> se_eventId r \<Longrightarrow> getEvent i (saveEvent r t) = getEvent i t"
  by (induction t) (auto simp: getEvent_def saveEvent_def)

lemma apply_event_other_id:
  assumes "i \<noteq> ev_eventId e"
  shows "getEvent i (sy_events (apply_event env k conv e s)) = getEvent i (sy_events s)"
proof (cases "sy_events (apply_event env k conv e s) = sy_events s")
  case False
  then have "applied_as_signed env s k conv e s (apply_event env k conv e s)"
    by (intro apply_event_effect) simp_all
  then show ?thesis using assms by (auto simp: applied_as_signed_def get_save_other)
qed simp

lemma fold_only_verified:
  assumes "distinct (map ev_eventId es)" and "sy_peers s = sy_peers st"
    and "\<forall>e \<in> set es. getEvent (ev_eventId e) (sy_events s) = getEvent (ev_eventId e) (sy_events st)"
  shows "fold (apply_event env k conv) es s =
    fold (apply_event env k conv)
      (filter (\<lambda>e. verified env st k e \<or> getEvent (ev_eventId e) (sy_events st) \<noteq> None) es) s"
  using assms
proof (induction es arbitrary: s)
  case (Cons e es)
  let ?s = "apply_event env k conv e s"
  have later: "\<forall>e' \<in> set es. getEvent (ev_eventId e') (sy_events ?s) = getEvent (ev_eventId e') (sy_events st)"
  proof
    fix e' assume e': "e' \<in> set es"
    then have "ev_eventId e' \<noteq> ev_eventId e" using Cons.prems(1) by (metis distinct.simps(2) list.simps(9) image_eqI list.set_map)
    then show "getEvent (ev_eventId e') (sy_events ?s) = getEvent (ev_eventId e') (sy_events st)"
      using Cons.prems(3) e' by (simp add: apply_event_other_id)
  qed
  have IH: "fold (apply_event env k conv) es ?s =
      fold (apply_event env k conv)
        (filter (\<lambda>e. verified env st k e \<or> getEvent (ev_eventId e) (sy_events st) \<noteq> None) es) ?s"
    by (rule Cons.IH) (use Cons.prems later in simp_all)
  show ?case
  proof (cases "verified env st k e \<or> getEvent (ev_eventId e) (sy_events st) \<noteq> None")
    case True
    then show ?thesis using IH by simp
  next
    case False
    then have "?s = s" using Cons.prems(2,3) by (intro apply_event_unverified [of s st]) simp_all
    then show ?thesis using False IH by simp
  qed
qed simp

lemma distinct_sorted: "distinct (map ev_eventId (sortEventsDeterministic env (unique_events es)))"
proof -
  have "mset (map ev_eventId (sortEventsDeterministic env (unique_events es))) = mset (map ev_eventId (unique_events es))"
    by (simp only: mset_map sortEventsDeterministic_def mset_sort)
  then show ?thesis using unique_distinct by (metis mset_eq_imp_distinct_iff)
qed

text \<open>
  C2. Nothing is stored or applied unverified, event by event. A batch has the effect of only its
  verified events and those already in the log, of which the latter change no more than the
  watermarks: leaving out all others gives the same state. And at the turn of each event: if
  the log or anything of the application's data changes, then this very event is
  verified and its envelope decrypts, the data is changed as the decrypted body says, and the log by no
  more than the row of this event, with the verified envelope; if a ratchet moves, this event is verified.
\<close>

theorem only_verified_events_take_effect:
  assumes "batch = sortEventsDeterministic env (unique_events es)"
    and "conv = find_row (\<lambda>c. field c ''id'' = JStr k) (ap_conversations (sy_app st))"
  shows "applyEnvelopeEvents env k es st = fold (apply_event env k conv)
      (filter (\<lambda>e. verified env st k e \<or> getEvent (ev_eventId e) (sy_events st) \<noteq> None) batch) st \<and>
    (\<forall>before e after s s'. batch = before @ e # after \<and> s = fold (apply_event env k conv) before st \<and>
        s' = apply_event env k conv e s \<longrightarrow>
      (sy_events s' \<noteq> sy_events s \<or> sy_app s' \<noteq> sy_app s \<longrightarrow> applied_as_signed env st k conv e s s') \<and>
      (sy_ratchets s' \<noteq> sy_ratchets s \<longrightarrow> verified env st k e))"
proof (intro conjI allI impI)
  show "applyEnvelopeEvents env k es st = fold (apply_event env k conv)
      (filter (\<lambda>e. verified env st k e \<or> getEvent (ev_eventId e) (sy_events st) \<noteq> None) batch) st"
    using fold_only_verified [OF distinct_sorted [of env es], of st st env k conv] assms
    by (simp add: applyEnvelopeEvents_def Let_def)
next
  fix before e after s s'
  assume step: "batch = before @ e # after \<and> s = fold (apply_event env k conv) before st \<and> s' = apply_event env k conv e s"
    and "sy_events s' \<noteq> sy_events s \<or> sy_app s' \<noteq> sy_app s"
  then show "applied_as_signed env st k conv e s s'" using apply_event_effect [of s st env k conv e] by simp
next
  fix before e after s s'
  assume step: "batch = before @ e # after \<and> s = fold (apply_event env k conv) before st \<and> s' = apply_event env k conv e s"
    and "sy_ratchets s' \<noteq> sy_ratchets s"
  then show "verified env st k e" using apply_event_ratchets [of s st env k conv e] by simp
qed

text \<open>
  C20. Redelivery changes nothing but watermarks: a batch of events that are all in the log already
  leaves the log, the data and the ratchets as they are, however often it arrives.
\<close>

theorem redelivery_changes_nothing:
  assumes "\<forall>e \<in> set es. getEvent (ev_eventId e) (sy_events st) \<noteq> None"
    and "applyEnvelopeEvents env k es st = st'"
  shows "sy_events st' = sy_events st \<and> sy_app st' = sy_app st \<and> sy_ratchets st' = sy_ratchets st"
proof -
  have one: "sy_events (apply_event env k conv e s) = sy_events s \<and> sy_app (apply_event env k conv e s) = sy_app s \<and>
      sy_ratchets (apply_event env k conv e s) = sy_ratchets s"
    if "getEvent (ev_eventId e) (sy_events s) \<noteq> None" for e s conv
    using that by (auto simp: apply_event_def split: option.split)
  have "sy_events (fold (apply_event env k conv) xs s) = sy_events s \<and> sy_app (fold (apply_event env k conv) xs s) = sy_app s \<and>
      sy_ratchets (fold (apply_event env k conv) xs s) = sy_ratchets s"
    if "\<forall>e \<in> set xs. getEvent (ev_eventId e) (sy_events s) \<noteq> None" for xs s conv
    using that by (induction xs arbitrary: s) (simp_all add: one)
  moreover have "\<forall>e \<in> set (sortEventsDeterministic env (unique_events es)). getEvent (ev_eventId e) (sy_events st) \<noteq> None"
    using assms(1) set_unique_events [of es] by (auto simp: set_sorted_events)
  ultimately show ?thesis using assms(2) unfolding applyEnvelopeEvents_def Let_def by blast
qed

subsection \<open>Requests are answered in full\<close>

lemma frames_events:
  fixes es :: "'e list"
  shows "concat (map rf_events (createSyncResponseFrames bytes_of sid es nxt flow)) = es"
proof -
  let ?ch = "fill_chunks bytes_of [] [] es"
  have "map rf_events (map (\<lambda>(i, chunk). flow_frame sid nxt n i chunk) (enumerate m ch)) = ch"
    for n m and ch :: "'e list list"
    by (induction ch arbitrary: m) (simp_all add: flow_frame_def Let_def)
  then show ?thesis using fill_chunks_concat [of bytes_of "[]" "[]" es]
    by (simp add: createSyncResponseFrames_def Let_def del: map_map)
qed

lemma seen_note: "seen_in (note_lamport e m) d =
    (case ev_lamport e of None \<Rightarrow> seen_in m d | Some l \<Rightarrow> if d = ev_authorDeviceId e then max (seen_in m d) l else seen_in m d)"
  by (simp add: note_lamport_def split: option.split)

lemma fold_note_mono: "seen_in m d \<le> seen_in (fold note_lamport es m) d"
proof (induction es arbitrary: m)
  case (Cons e es)
  have "seen_in m d \<le> seen_in (note_lamport e m) d" by (simp add: seen_note split: option.split)
  then show ?case using Cons.IH [of "note_lamport e m"] by simp
qed simp

lemma next_covers:
  "e \<in> set es \<Longrightarrow> ev_lamport e = Some l \<Longrightarrow> l \<le> seen_in (buildNextMap es) (ev_authorDeviceId e)"
proof -
  have "e \<in> set es \<Longrightarrow> ev_lamport e = Some l \<Longrightarrow> l \<le> seen_in (fold note_lamport es m) (ev_authorDeviceId e)" for m
  proof (induction es arbitrary: m)
    case (Cons e' es)
    show ?case
    proof (cases "e' = e")
      case True
      have "l \<le> seen_in (note_lamport e m) (ev_authorDeviceId e)" using Cons.prems by (simp add: seen_note)
      also have "\<dots> \<le> seen_in (fold note_lamport es (note_lamport e m)) (ev_authorDeviceId e)" by (rule fold_note_mono)
      finally show ?thesis using True by simp
    next
      case False
      then show ?thesis using Cons by simp
    qed
  qed simp
  then show "e \<in> set es \<Longrightarrow> ev_lamport e = Some l \<Longrightarrow> l \<le> seen_in (buildNextMap es) (ev_authorDeviceId e)"
    by (simp add: buildNextMap_def)
qed

text \<open>
  C32. A request is answered in full: the frames of the response carry, each once and in the
  order in which events are applied, exactly the events of the log whose lamport number is above
  what the requester has seen of their author.
\<close>

theorem sync_request_answered_in_full:
  "concat (map rf_events (response_frames env bytes_of sid flow logId since t)) =
     sortEventsDeterministic env (filter (newer_than since) (map to_event (listEventsByConv logId t))) \<and>
   set (concat (map rf_events (response_frames env bytes_of sid flow logId since t))) =
     to_event ` {r \<in> set t. se_convId r = JStr logId \<and> newer_than since (to_event r)}"
  unfolding response_frames_def Let_def frames_events
  by (auto simp: set_sorted_events listEventsByConv_def)

text \<open>
  Taking in a response hides what it did not bring: once the last frame of a response was
  taken in, an event of the requested log that is not newer than the frame's number for its author is
  neither applied when it arrives later nor asked for again, also if it never was in the log, because
  it could not be verified, could not be decrypted yet or was not sent.
\<close>

theorem response_hides_missing_event:
  assumes "isDeviceSyncAllowed env st convId" and "rf_flow frame = None" and "rf_next frame = Some nxt"
    and "(ev_authorDeviceId e, m) \<in> set nxt" and "ev_lamport e = Some l" "l \<le> m"
    and "ev_convId e = scope_log scope (nullish frameConv convId)" "ev_convId e \<noteq> []"
    and "handleSyncRes env convId scope frameConv frame st = st'"
  shows "apply_event env k conv e st' = st' \<and> \<not> newer_than (getSinceMap st' (Some (ev_convId e))) e"
proof -
  have st': "st' = advance_all (ev_convId e) nxt (applyEnvelopeEvents env convId (rf_events frame) st)"
    using assms by (simp add: handleSyncRes_def Let_def)
  have "m \<le> getLamportSeen st' (ev_convId e) (ev_authorDeviceId e)"
    unfolding st' by (rule advance_all_reaches [OF assms(4)])
  then have seen: "l \<le> getLamportSeen st' (ev_convId e) (ev_authorDeviceId e)" using assms(6) by simp
  then have "\<not> newer_than (getSinceMap st' (Some (ev_convId e))) e"
    using assms(5,8) by (simp add: newer_than_def getSinceMap_def getLamportSeen_def)
  then show ?thesis using apply_event_replay [OF assms(5) seen] by blast
qed

subsection \<open>The lamport number of the transport\<close>

lemma accepted_hash:
  assumes "accepted env k e st l envelope body"
  shows "computeEnvelopeHash (le_platform env) envelope \<noteq> None"
proof -
  obtain vk key where "decryptEnvelope (le_platform env) key envelope vk = Inr body"
    using assms by (auto simp: accepted_def)
  then show ?thesis
    by (auto simp: decryptEnvelope_def computeEnvelopeHash_def Let_def split: option.splits if_splits)
qed

lemma persist_total:
  "computeEnvelopeHash (le_platform env) envelope \<noteq> None \<Longrightarrow>
   str_of (field (field envelope ''header'') ''convId'') = Some convId \<Longrightarrow>
   \<exists>st1. persistAppliedEnvelope env envelope body i st = Some st1"
  by (auto simp: persistAppliedEnvelope_def Let_def)

lemma apply_event_accepted:
  assumes a: "accepted env k e st l envelope body"
    and c: "str_of (field (field envelope ''header'') ''convId'') = Some convId"
  obtains r st1 where
    "persistAppliedEnvelope env envelope body (ev_eventId e) (st\<lparr>sy_ratchets := r\<rparr>) = Some st1"
    "apply_event env k conv e st = commit_event env k conv e l envelope body (st\<lparr>sy_ratchets := r\<rparr>)"
    "snd (open_envelope env k envelope (the (getPeerVerifyKey env st k (field (field envelope ''header'') ''authorDeviceId''))) st)
      = st\<lparr>sy_ratchets := r\<rparr>"
proof -
  from a obtain vk where rd: "ready env e st l envelope"
    and vk: "getPeerVerifyKey env st k (field (field envelope ''header'') ''authorDeviceId'') = Some vk"
    "verifyEnvelopeSignature (le_platform env) envelope vk = Some True"
    "fst (open_envelope env k envelope vk st) = Some body" by (auto simp: accepted_def)
  obtain r where r: "snd (open_envelope env k envelope vk st) = st\<lparr>sy_ratchets := r\<rparr>"
    using open_envelope_state by blast
  then have "open_envelope env k envelope vk st = (Some body, st\<lparr>sy_ratchets := r\<rparr>)"
    using vk(3) by (cases "open_envelope env k envelope vk st") simp
  then have ap: "apply_event env k conv e st = commit_event env k conv e l envelope body (st\<lparr>sy_ratchets := r\<rparr>)"
    using vk by (simp add: apply_event_ready [OF rd] apply_verified_def)
  obtain st1 where "persistAppliedEnvelope env envelope body (ev_eventId e) (st\<lparr>sy_ratchets := r\<rparr>) = Some st1"
    using persist_total [OF accepted_hash [OF a] c] by blast
  then show thesis using ap r vk(1) that by simp
qed

lemma accepted_relabel:
  assumes "accepted env k e st l envelope body" "getLamportSeen st (ev_convId e) (ev_authorDeviceId e) < m"
  shows "accepted env k (e\<lparr>ev_lamport := Some m\<rparr>) st m envelope body"
  using assms by (simp add: accepted_def ready_def)

text \<open>
  The lamport number that guards the log is not the signed one: an event that is accepted is
  accepted with the same effect on log, data and ratchets when the number beside its envelope is any
  other number above the watermark, and the watermark becomes that number; so whoever forwards
  the event can make every later event of its author in the conversation up to that number a replay.
\<close>

theorem outer_lamport_is_not_signed:
  assumes "accepted env k e st l envelope body"
    and "str_of (field (field envelope ''header'') ''convId'') = Some convId"
    and "getLamportSeen st (ev_convId e) (ev_authorDeviceId e) < m"
    and "apply_event env k conv (e\<lparr>ev_lamport := Some m\<rparr>) st = st'"
  shows "sy_events st' = sy_events (apply_event env k conv e st) \<and> sy_app st' = sy_app (apply_event env k conv e st) \<and>
    sy_ratchets st' = sy_ratchets (apply_event env k conv e st) \<and>
    getLamportSeen st' (ev_convId e) (ev_authorDeviceId e) = m \<and>
    (\<forall>e' n. ev_convId e' = ev_convId e \<and> ev_authorDeviceId e' = ev_authorDeviceId e \<and>
       ev_lamport e' = Some n \<and> n \<le> m \<longrightarrow> apply_event env k conv e' st' = st')"
proof -
  let ?e = "e\<lparr>ev_lamport := Some m\<rparr>"
  note acc = accepted_relabel [OF assms(1,3)]
  obtain r st1 where e: "persistAppliedEnvelope env envelope body (ev_eventId e) (st\<lparr>sy_ratchets := r\<rparr>) = Some st1"
    "apply_event env k conv e st = commit_event env k conv e l envelope body (st\<lparr>sy_ratchets := r\<rparr>)"
    and r: "snd (open_envelope env k envelope (the (getPeerVerifyKey env st k (field (field envelope ''header'') ''authorDeviceId''))) st)
      = st\<lparr>sy_ratchets := r\<rparr>"
    by (rule apply_event_accepted [OF assms(1,2)])
  obtain r' where e': "apply_event env k conv ?e st = commit_event env k conv ?e m envelope body (st\<lparr>sy_ratchets := r'\<rparr>)"
    and r': "snd (open_envelope env k envelope (the (getPeerVerifyKey env st k (field (field envelope ''header'') ''authorDeviceId''))) st)
      = st\<lparr>sy_ratchets := r'\<rparr>"
    by (rule apply_event_accepted [OF acc assms(2)])
  have rr: "st\<lparr>sy_ratchets := r'\<rparr> = st\<lparr>sy_ratchets := r\<rparr>" using r r' by simp
  have st': "st' = commit_event env k conv ?e m envelope body (st\<lparr>sy_ratchets := r\<rparr>)"
    using assms(4) e' unfolding rr by simp
  have same: "sy_events st' = sy_events (apply_event env k conv e st)" "sy_app st' = sy_app (apply_event env k conv e st)"
    "sy_ratchets st' = sy_ratchets (apply_event env k conv e st)"
    using e by (simp_all add: st' commit_event_def Let_def)
  have seen: "getLamportSeen st' (ev_convId e) (ev_authorDeviceId e) = m"
    using assms(3) e(1) by (simp add: st' commit_seen)
  then have "apply_event env k conv e' st' = st'"
    if "ev_convId e' = ev_convId e" "ev_authorDeviceId e' = ev_authorDeviceId e" "ev_lamport e' = Some n" "n \<le> m" for e' n
    using apply_event_replay [OF that(3)] that by simp
  then show ?thesis using same seen by blast
qed

text \<open>
  A clock that was set back loses an event: of two events of an author that arrive in one
  batch, the one written later but dated earlier is applied first, and the other, whose lamport number
  is smaller, is then dropped as a replay, for the batch does exactly what the later event alone does.
\<close>

theorem clock_set_back_loses_event:
  assumes "ev_ts later < ev_ts earlier" and "ev_eventId earlier \<noteq> ev_eventId later"
    and "ev_eventId earlier \<noteq> []" "ev_eventId later \<noteq> []"
    and "ev_convId earlier = ev_convId later" "ev_authorDeviceId earlier = ev_authorDeviceId later"
    and "ev_lamport earlier = Some l" "l < m"
    and "accepted env k later st m envelope body"
    and "str_of (field (field envelope ''header'') ''convId'') = Some convId"
  shows "applyEnvelopeEvents env k [earlier, later] st = applyEnvelopeEvents env k [later] st"
proof -
  have u: "unique_events [earlier, later] = [earlier, later]" "unique_events [later] = [later]"
    using assms(2-4) by (auto simp: unique_events_def)
  have s: "sortEventsDeterministic env [earlier, later] = [later, earlier]"
    "sortEventsDeterministic env [later] = [later]"
    using assms(1) by (auto simp: sortEventsDeterministic_def less_eq_prod_def)
  define conv where "conv = find_row (\<lambda>c. field c ''id'' = JStr k) (ap_conversations (sy_app st))"
  obtain r st1 where
    p: "persistAppliedEnvelope env envelope body (ev_eventId later) (st\<lparr>sy_ratchets := r\<rparr>) = Some st1"
    "apply_event env k conv later st = commit_event env k conv later m envelope body (st\<lparr>sy_ratchets := r\<rparr>)"
    by (rule apply_event_accepted [OF assms(9,10)])
  have "m \<le> getLamportSeen (apply_event env k conv later st) (ev_convId later) (ev_authorDeviceId later)"
    using p by (simp add: commit_seen)
  then have "apply_event env k conv earlier (apply_event env k conv later st) = apply_event env k conv later st"
    using assms(5-8) by (intro apply_event_replay [OF assms(7)]) simp
  then show ?thesis by (simp add: applyEnvelopeEvents_def Let_def u s conv_def)
qed

subsection \<open>A batch in order arrives whole\<close>

text \<open>An event under the conversation's static key that a peer of the right identity wrote.\<close>

definition legacy_ok :: "local_env \<Rightarrow> sync_state \<Rightarrow> string \<Rightarrow> sync_event \<Rightarrow> bool" where
  "legacy_ok env st k e \<longleftrightarrow> (\<exists>envelope vk key body.
     pf_json_parse (le_platform env) (ev_envelopeJson e) = Some envelope \<and>
     field (field envelope ''header'') ''eventId'' = JStr (ev_eventId e) \<and>
     str_of (field (field envelope ''header'') ''convId'') \<noteq> None \<and>
     field (field envelope ''header'') ''rk'' = JUndef \<and>
     getPeerVerifyKey env st k (field (field envelope ''header'') ''authorDeviceId'') = Some vk \<and>
     verifyEnvelopeSignature (le_platform env) envelope vk = Some True \<and>
     resolveLegacyKey env st k = Some key \<and>
     decryptEnvelope (le_platform env) key envelope vk = Inr body \<and> \<not> isEphemeralMediaChunk body)"

definition fresh_event :: "sync_state \<Rightarrow> sync_event \<Rightarrow> bool" where
  "fresh_event st e \<longleftrightarrow> getEvent (ev_eventId e) (sy_events st) = None \<and>
     (\<exists>l. ev_lamport e = Some l \<and> getLamportSeen st (ev_convId e) (ev_authorDeviceId e) < l)"

text \<open>No event of an author comes after a later one of the same author.\<close>

definition author_order :: "sync_event \<Rightarrow> sync_event \<Rightarrow> bool" where
  "author_order a b \<longleftrightarrow> (ev_convId a = ev_convId b \<and> ev_authorDeviceId a = ev_authorDeviceId b \<longrightarrow>
     nullish (ev_lamport a) 0 < nullish (ev_lamport b) 0)"

lemma legacy_ok_peers: "sy_peers s = sy_peers st \<Longrightarrow> legacy_ok env s k e = legacy_ok env st k e"
  by (simp add: legacy_ok_def getPeerVerifyKey_def resolveLegacyKey_def derive_for_def)

lemma field_header_truthy: "field h k = JStr s \<Longrightarrow> truthy h"
  by (cases h) auto

lemma legacy_accepted:
  assumes "legacy_ok env st k e" "fresh_event st e"
  obtains l envelope body convId where "accepted env k e st l envelope body"
    "str_of (field (field envelope ''header'') ''convId'') = Some convId" "\<not> isEphemeralMediaChunk body"
proof -
  from assms(1) obtain envelope vk key body where e:
    "pf_json_parse (le_platform env) (ev_envelopeJson e) = Some envelope"
    "field (field envelope ''header'') ''eventId'' = JStr (ev_eventId e)"
    "str_of (field (field envelope ''header'') ''convId'') \<noteq> None"
    "field (field envelope ''header'') ''rk'' = JUndef"
    "getPeerVerifyKey env st k (field (field envelope ''header'') ''authorDeviceId'') = Some vk"
    "verifyEnvelopeSignature (le_platform env) envelope vk = Some True"
    "resolveLegacyKey env st k = Some key"
    "decryptEnvelope (le_platform env) key envelope vk = Inr body" "\<not> isEphemeralMediaChunk body"
    unfolding legacy_ok_def by blast
  obtain l where l: "ev_lamport e = Some l" "getLamportSeen st (ev_convId e) (ev_authorDeviceId e) < l"
    using assms(2) by (auto simp: fresh_event_def)
  have "ready env e st l envelope"
    using e l assms(2) field_header_truthy [OF e(2)] by (simp add: ready_def fresh_event_def)
  moreover have "fst (open_envelope env k envelope vk st) = Some body"
    using e by (simp add: open_envelope_def open_legacy_def rk_is_def Let_def)
  ultimately have "accepted env k e st l envelope body" using e unfolding accepted_def by blast
  then show thesis using e(3,9) that by blast
qed

lemma get_save_event:
  "events_ok t \<Longrightarrow> getEvent i (saveEvent r t) = (if i = se_eventId r then Some r else getEvent i t)"
  using events.get_put [of t i r] by auto

lemma legacy_step:
  assumes "legacy_ok env st k e" "fresh_event st e" "events_ok (sy_events st)"
  shows "getEvent (ev_eventId e) (sy_events (apply_event env k conv e st)) \<noteq> None \<and>
    (\<forall>i. i \<noteq> ev_eventId e \<longrightarrow> getEvent i (sy_events (apply_event env k conv e st)) = getEvent i (sy_events st)) \<and>
    getLamportSeen (apply_event env k conv e st) (ev_convId e) (ev_authorDeviceId e) = nullish (ev_lamport e) 0 \<and>
    events_ok (sy_events (apply_event env k conv e st))"
proof -
  obtain l envelope body convId where acc: "accepted env k e st l envelope body"
    "str_of (field (field envelope ''header'') ''convId'') = Some convId" and ne: "\<not> isEphemeralMediaChunk body"
    by (rule legacy_accepted [OF assms(1,2)])
  obtain r st1 where
    p: "persistAppliedEnvelope env envelope body (ev_eventId e) (st\<lparr>sy_ratchets := r\<rparr>) = Some st1"
    and ap: "apply_event env k conv e st = commit_event env k conv e l envelope body (st\<lparr>sy_ratchets := r\<rparr>)"
    by (rule apply_event_accepted [OF acc])
  from p ne obtain row where "sy_events st1 = saveEvent row (sy_events st)" "se_eventId row = ev_eventId e"
    by (auto simp: persistAppliedEnvelope_def Let_def split: option.splits)
  then have ev: "sy_events (apply_event env k conv e st) = saveEvent row (sy_events st)" "se_eventId row = ev_eventId e"
    using p by (simp_all add: ap commit_event_def Let_def)
  have l: "ev_lamport e = Some l" "getLamportSeen st (ev_convId e) (ev_authorDeviceId e) < l"
    using acc(1) by (auto simp: accepted_def ready_def)
  then have "getLamportSeen (apply_event env k conv e st) (ev_convId e) (ev_authorDeviceId e) = l"
    using p by (simp add: ap commit_seen)
  then show ?thesis using ev l assms(3) by (simp add: get_save_event events.inv_put)
qed

lemma legacy_fold:
  assumes "\<forall>e \<in> set es. legacy_ok env st k e \<and> fresh_event st e" "distinct (map ev_eventId es)"
    and "sorted_wrt author_order es" "events_ok (sy_events st)"
  shows "(\<forall>e \<in> set es. getEvent (ev_eventId e) (sy_events (fold (apply_event env k conv) es st)) \<noteq> None) \<and>
    (\<forall>i. i \<notin> ev_eventId ` set es \<longrightarrow>
       getEvent i (sy_events (fold (apply_event env k conv) es st)) = getEvent i (sy_events st))"
  using assms
proof (induction es arbitrary: st)
  case (Cons e es)
  let ?s = "apply_event env k conv e st"
  have e: "legacy_ok env st k e" "fresh_event st e" using Cons.prems(1) by auto
  note step = legacy_step [OF e Cons.prems(4), of conv]
  have rest: "legacy_ok env ?s k e' \<and> fresh_event ?s e'" if "e' \<in> set es" for e'
  proof -
    have old: "legacy_ok env st k e'" "fresh_event st e'" and ord1: "author_order e e'"
      using that Cons.prems(1,3) by auto
    have "ev_eventId e \<notin> ev_eventId ` set es" using Cons.prems(2) by simp
    then have "ev_eventId e' \<noteq> ev_eventId e" using that by (metis imageI)
    note ord = ord1 this
    have "getEvent (ev_eventId e') (sy_events ?s) = None"
      using step ord(2) old(2) by (simp add: fresh_event_def)
    moreover have "\<exists>l. ev_lamport e' = Some l \<and> getLamportSeen ?s (ev_convId e') (ev_authorDeviceId e') < l"
    proof (cases "ev_convId e = ev_convId e' \<and> ev_authorDeviceId e = ev_authorDeviceId e'")
      case True
      then show ?thesis using ord(1) step old(2) by (auto simp: author_order_def fresh_event_def)
    next
      case False
      then have "getLamportSeen ?s (ev_convId e') (ev_authorDeviceId e') = getLamportSeen st (ev_convId e') (ev_authorDeviceId e')"
        by (subst apply_event_seen(1)) auto
      then show ?thesis using old(2) by (simp add: fresh_event_def)
    qed
    ultimately show ?thesis using old(1) legacy_ok_peers [of ?s st] by (simp add: fresh_event_def)
  qed
  have "(\<forall>e \<in> set es. getEvent (ev_eventId e) (sy_events (fold (apply_event env k conv) es ?s)) \<noteq> None) \<and>
      (\<forall>i. i \<notin> ev_eventId ` set es \<longrightarrow>
         getEvent i (sy_events (fold (apply_event env k conv) es ?s)) = getEvent i (sy_events ?s))"
    by (rule Cons.IH) (use rest step Cons.prems(2,3) in auto)
  moreover have "ev_eventId e \<notin> ev_eventId ` set es" using Cons.prems(2) by simp
  ultimately show ?case using step by simp
qed simp

text \<open>
  C30. A batch in order arrives whole: if every event of a batch is new, is signed by the author's
  key and decrypts under the conversation's key, and the order of application, by time first, respects
  the lamport order of each author, then after the batch every event of it is in the log.
\<close>

theorem ordered_batch_is_stored:
  assumes "\<forall>e \<in> set (unique_events es). legacy_ok env st k e \<and> fresh_event st e"
    and "sorted_wrt author_order (sortEventsDeterministic env (unique_events es))"
    and "events_ok (sy_events st)" and "e \<in> set (unique_events es)"
  shows "getEvent (ev_eventId e) (sy_events (applyEnvelopeEvents env k es st)) \<noteq> None"
proof -
  show ?thesis
    using distinct_sorted [of env es] legacy_fold [of "sortEventsDeterministic env (unique_events es)"] assms
    by (simp add: applyEnvelopeEvents_def Let_def set_sorted_events)
qed

subsection \<open>Concrete inputs\<close>

text \<open>A device \<open>me\<close> whose peer signs with the key 7 and seals under a platform that hides nothing;
  the texts of the envelopes are given by a table.\<close>

definition text_platform :: "(string \<times> json) list \<Rightarrow> platform" where
  "text_platform tab = open_platform\<lparr>pf_text_decode := utf8_text,
     pf_json_parse := (\<lambda>s. if s = ''true'' then Some (JBool True) else map_of tab s)\<rparr>"

definition demo_env :: "(string \<times> json) list \<Rightarrow> local_env" where
  "demo_env tab = \<lparr>le_platform = text_platform tab, le_crypto = toy_lib, le_fresh = (\<lambda>_. toy_kp 1),
     le_deviceId = ''me'', le_identityPub = [5], le_identityPriv = [5], le_dhPriv = [4],
     le_psk = (\<lambda>_. None), le_approval = (\<lambda>_. None), le_collation = (\<lambda>s. s), le_now = 7, le_newId = (\<lambda>s. s)\<rparr>"

definition demo_state :: sync_state where
  "demo_state = \<lparr>sy_authorSeen = [], sy_convSeen = [],
     sy_peers = [(''c'', empty_peer\<lparr>pc_identityPub := Some (encodeBase64Url [7]), pc_dhPub := Some (encodeBase64Url [3])\<rparr>)],
     sy_events = [], sy_ratchets = empty_ratchets, sy_app = sample_app,
     sy_flow = \<lparr>fw_sessions = [], fw_sent = []\<rparr>, sy_acks = []\<rparr>"

definition demo_sealed :: "string \<Rightarrow> json" where
  "demo_sealed i = encryptEnvelope open_platform [1]
     (JObj [(''eventId'', JStr i), (''convId'', JStr ''c''), (''authorDeviceId'', JStr ''d'')]) (JBool True) [7] [9]"

definition demo_event :: "string \<Rightarrow> rat \<Rightarrow> rat \<Rightarrow> sync_event" where
  "demo_event i lamport ts = \<lparr>ev_eventId = i, ev_convId = ''c'', ev_authorDeviceId = ''d'', ev_lamport = Some lamport,
     ev_ts = ts, ev_envelopeJson = i\<rparr>"

definition demo_texts :: "(string \<times> json) list" where
  "demo_texts = [(''a'', demo_sealed ''a''), (''b'', demo_sealed ''b'')]"

lemma demo_event_simps [simp]:
  "ev_eventId (demo_event i l t) = i" "ev_convId (demo_event i l t) = ''c''" "ev_authorDeviceId (demo_event i l t) = ''d''"
  "ev_lamport (demo_event i l t) = Some l" "ev_ts (demo_event i l t) = t" "ev_envelopeJson (demo_event i l t) = i"
  by (simp_all add: demo_event_def)

lemma demo_sealed_opens:
  "decryptEnvelope (text_platform tab) key (demo_sealed i) [7] = Inr (JBool True)"
  "verifyEnvelopeSignature (text_platform tab) (demo_sealed i) [7] = Some True"
proof -
  let ?pf = "text_platform tab" and ?h = "JObj [(''eventId'', JStr i), (''convId'', JStr ''c''), (''authorDeviceId'', JStr ''d'')]"
  have "demo_sealed i = encryptEnvelope ?pf key ?h (JBool True) [7] [9]"
    by (simp add: demo_sealed_def encryptEnvelope_def text_platform_def open_platform_def Let_def)
  moreover have "\<forall>bs. pf_from_base64 ?pf (pf_to_base64 ?pf bs) = Some bs"
    "\<forall>p a n k. pf_aead_decrypt ?pf (pf_aead_encrypt ?pf p a n k) a n k = Some p"
    "\<forall>m. pf_verify ?pf (pf_sign ?pf m [7]) m [7] = Some True"
    "\<forall>s. pf_text_decode ?pf (encode_utf8 s) = s"
    "pf_json_parse ?pf (stringify (canonicalize (JBool True))) = Some (JBool True)"
    by (simp_all add: text_platform_def open_platform_def comp_def utf8_text_encode)
  ultimately show "decryptEnvelope ?pf key (demo_sealed i) [7] = Inr (JBool True)"
    "verifyEnvelopeSignature ?pf (demo_sealed i) [7] = Some True"
    using sealed_opens [of ?pf "[7]" "[7]" "JBool True" "JBool True" key ?h "[9]"] by simp_all
qed

lemma demo_header [simp]:
  "field (demo_sealed i) ''header'' = JObj [(''eventId'', JStr i), (''convId'', JStr ''c''), (''authorDeviceId'', JStr ''d'')]"
  by (simp add: demo_sealed_def encryptEnvelope_def Let_def)

lemma demo_keys:
  "getPeerVerifyKey (demo_env tab) demo_state ''c'' (JStr ''d'') = Some [7]"
  "\<exists>key. resolveLegacyKey (demo_env tab) demo_state ''c'' = Some key"
proof -
  have "encodeBase64Url [7] \<noteq> []" "encodeBase64Url [3] \<noteq> []" by code_simp+
  then show "getPeerVerifyKey (demo_env tab) demo_state ''c'' (JStr ''d'') = Some [7]"
    "\<exists>key. resolveLegacyKey (demo_env tab) demo_state ''c'' = Some key"
    by (simp_all add: getPeerVerifyKey_def demo_env_def demo_state_def decode_encode resolveLegacyKey_def derive_for_def
        deriveConversationKey_def text_platform_def open_platform_def Let_def)
qed

lemma demo_legacy_ok:
  assumes "map_of tab i = Some (demo_sealed i)" "i \<noteq> ''true''"
  shows "legacy_ok (demo_env tab) demo_state ''c'' (demo_event i l t)"
proof -
  have "pf_json_parse (le_platform (demo_env tab)) i = Some (demo_sealed i)"
    using assms by (simp add: demo_env_def text_platform_def)
  moreover have "le_platform (demo_env tab) = text_platform tab" by (simp add: demo_env_def)
  ultimately show ?thesis
    using demo_sealed_opens(1) [of tab _ i] demo_sealed_opens(2) [of tab i] demo_keys [of tab]
    by (simp add: legacy_ok_def isEphemeralMediaChunk_def)
qed

lemma demo_fresh: "0 < l \<Longrightarrow> fresh_event demo_state (demo_event i l t)"
  by (simp add: fresh_event_def demo_state_def getLamportSeen_def conv_lamports_def seen_in_def getEvent_def)

lemma demo_texts_simps: "map_of demo_texts ''a'' = Some (demo_sealed ''a'')" "map_of demo_texts ''b'' = Some (demo_sealed ''b'')"
  by (simp_all add: demo_texts_def)

theorem ordered_batch_is_stored_witness:
  "getEvent ''b'' (sy_events (applyEnvelopeEvents (demo_env demo_texts) ''c'' [demo_event ''b'' 2 20, demo_event ''a'' 1 10] demo_state)) \<noteq> None"
proof -
  let ?es = "[demo_event ''b'' 2 20, demo_event ''a'' 1 10]"
  have u: "unique_events ?es = ?es" by (simp add: unique_events_def)
  have s: "sortEventsDeterministic (demo_env demo_texts) ?es = [demo_event ''a'' 1 10, demo_event ''b'' 2 20]"
    by (simp add: sortEventsDeterministic_def less_eq_prod_def)
  have "\<forall>e \<in> set (unique_events ?es). legacy_ok (demo_env demo_texts) demo_state ''c'' e \<and> fresh_event demo_state e"
    unfolding u using demo_legacy_ok [OF demo_texts_simps(1)] demo_legacy_ok [OF demo_texts_simps(2)] demo_fresh by simp
  moreover have "sorted_wrt author_order (sortEventsDeterministic (demo_env demo_texts) (unique_events ?es))"
    unfolding u s by (simp add: author_order_def)
  moreover have "events_ok (sy_events demo_state)" by (simp add: demo_state_def)
  moreover have "demo_event ''b'' 2 20 \<in> set (unique_events ?es)" unfolding u by simp
  ultimately show ?thesis using ordered_batch_is_stored by fastforce
qed

lemma demo_accepted:
  assumes "map_of tab i = Some (demo_sealed i)" "i \<noteq> ''true''" "0 < l"
  obtains body where "accepted (demo_env tab) ''c'' (demo_event i l t) demo_state l (demo_sealed i) body"
proof -
  obtain m envelope body where a: "accepted (demo_env tab) ''c'' (demo_event i l t) demo_state m envelope body"
    using legacy_accepted [OF demo_legacy_ok [OF assms(1,2)] demo_fresh [OF assms(3)]] by blast
  then have "m = l" "pf_json_parse (le_platform (demo_env tab)) i = Some envelope"
    by (auto simp: accepted_def ready_def)
  then have "m = l" "envelope = demo_sealed i" using assms(1,2) by (simp_all add: demo_env_def text_platform_def)
  then show thesis using a that by blast
qed

theorem clock_set_back_loses_event_witness:
  "applyEnvelopeEvents (demo_env demo_texts) ''c'' [demo_event ''a'' 1 20, demo_event ''b'' 2 10] demo_state =
   applyEnvelopeEvents (demo_env demo_texts) ''c'' [demo_event ''b'' 2 10] demo_state"
proof -
  obtain body where "accepted (demo_env demo_texts) ''c'' (demo_event ''b'' 2 10) demo_state 2 (demo_sealed ''b'') body"
    using demo_accepted [OF demo_texts_simps(2), of 2 10] by auto
  from clock_set_back_loses_event [OF _ _ _ _ _ _ _ _ this, of "demo_event ''a'' 1 20" 1 "''c''"]
  show ?thesis by simp
qed

theorem outer_lamport_is_not_signed_witness:
  "getLamportSeen (apply_event (demo_env demo_texts) ''c'' JNull (demo_event ''a'' 1 10\<lparr>ev_lamport := Some 1000000\<rparr>) demo_state) ''c'' ''d'' = 1000000"
proof -
  obtain body where a: "accepted (demo_env demo_texts) ''c'' (demo_event ''a'' 1 10) demo_state 1 (demo_sealed ''a'') body"
    using demo_accepted [OF demo_texts_simps(1), of 1 10] by auto
  have "getLamportSeen demo_state ''c'' ''d'' < 1000000"
    by (simp add: demo_state_def getLamportSeen_def conv_lamports_def seen_in_def)
  then show ?thesis using outer_lamport_is_not_signed [OF a, of "''c''" 1000000 JNull] by simp
qed

theorem only_verified_events_take_effect_witness:
  "applied_as_signed (demo_env demo_texts) demo_state ''c''
     (find_row (\<lambda>c. field c ''id'' = JStr ''c'') (ap_conversations (sy_app demo_state)))
     (demo_event ''a'' 1 10) demo_state
     (applyEnvelopeEvents (demo_env demo_texts) ''c'' [demo_event ''a'' 1 10] demo_state)"
proof -
  let ?es = "[demo_event ''a'' 1 10]"
  let ?conv = "find_row (\<lambda>c. field c ''id'' = JStr ''c'') (ap_conversations (sy_app demo_state))"
  let ?st = "applyEnvelopeEvents (demo_env demo_texts) ''c'' ?es demo_state"
  have u: "unique_events ?es = ?es" by (simp add: unique_events_def)
  have b: "?es = sortEventsDeterministic (demo_env demo_texts) (unique_events ?es)"
    by (simp add: u sortEventsDeterministic_def)
  have st: "?st = apply_event (demo_env demo_texts) ''c'' ?conv (demo_event ''a'' 1 10) demo_state"
    by (simp add: applyEnvelopeEvents_def u sortEventsDeterministic_def)
  have "getEvent ''a'' (sy_events ?st) \<noteq> None"
    using legacy_fold [of ?es "demo_env demo_texts" demo_state "''c''"] demo_legacy_ok [OF demo_texts_simps(1)] demo_fresh [of 1 "''a''" 10]
    by (simp add: applyEnvelopeEvents_def u sortEventsDeterministic_def) (simp add: demo_state_def)
  then have changed: "sy_events ?st \<noteq> sy_events demo_state" by (auto simp: demo_state_def getEvent_def)
  have turn: "?es = [] @ demo_event ''a'' 1 10 # [] \<and>
      demo_state = fold (apply_event (demo_env demo_texts) ''c'' ?conv) [] demo_state \<and>
      ?st = apply_event (demo_env demo_texts) ''c'' ?conv (demo_event ''a'' 1 10) demo_state"
    by (simp add: st)
  from only_verified_events_take_effect [OF b refl, of "''c''" demo_state, THEN conjunct2, rule_format, OF turn]
  show ?thesis using changed by blast
qed

theorem redelivery_changes_nothing_witness:
  "sy_app (applyEnvelopeEvents (demo_env demo_texts) ''c'' [demo_event ''a'' 3 10]
     (demo_state\<lparr>sy_events := [\<lparr>se_eventId = ''a'', se_convId = JStr ''c'', se_authorDeviceId = JStr ''d'',
        se_lamport = JNum ''1'', se_ts = JNum ''1'', se_envelopeJson = ''a'', se_prevHash = JUndef, se_eventHash = ''h'',
        se_conflict = False\<rparr>]\<rparr>)) = sample_app"
  using redelivery_changes_nothing [OF _ refl, of "[demo_event ''a'' 3 10]"
      "demo_state\<lparr>sy_events := [\<lparr>se_eventId = ''a'', se_convId = JStr ''c'', se_authorDeviceId = JStr ''d'',
        se_lamport = JNum ''1'', se_ts = JNum ''1'', se_envelopeJson = ''a'', se_prevHash = JUndef, se_eventHash = ''h'',
        se_conflict = False\<rparr>]\<rparr>" "demo_env demo_texts" "''c''"]
  by (simp add: getEvent_def) (simp add: demo_state_def)

text \<open>A response that brings an event nobody can read and the number of that event.\<close>

definition demo_response :: "(sync_event, lamports) res_frame" where
  "demo_response = \<lparr>rf_events = [demo_event ''unreadable'' 1 10], rf_next = Some [(''d'', 1)], rf_flow = None\<rparr>"

theorem response_hides_missing_event_witness:
  "let st' = handleSyncRes (demo_env demo_texts) ''c'' ScopeConv None demo_response demo_state
   in apply_event (demo_env demo_texts) ''c'' JNull (demo_event ''a'' 1 10) st' = st' \<and>
      \<not> newer_than (getSinceMap st' (Some ''c'')) (demo_event ''a'' 1 10)"
proof -
  have "isDeviceSyncAllowed (demo_env demo_texts) demo_state ''c''"
    by (simp add: isDeviceSyncAllowed_def demo_state_def empty_peer_def)
  from response_hides_missing_event [OF this, of demo_response "[(''d'', 1)]" "demo_event ''a'' 1 10" 1 1 ScopeConv None, OF _ _ _ _ _ _ _ refl]
  show ?thesis by (simp add: demo_response_def scope_log_def)
qed

end
