(* ===== verification/Sync_Handshake.thy ===== *)
theory Sync_Handshake
  imports Sync_Engine
begin

text \<open>
  The handshake of two peers, the dispatch of their frames and the way an envelope comes in by itself
  (src/src/sync/syncEngine.ts): HELLO and ACK frames with signed nonces, the pin of the peer's
  identity, the verification of a friend and its safety number, and the choice of the
  conversation an envelope belongs to. The frames are those the parser of frames returned.
\<close>

subsection \<open>State\<close>

record hello_frame =
  hf_deviceId :: string
  hf_identityPub :: string
  hf_nonce :: string
  hf_sig :: string
  hf_caps :: json
  hf_profile :: json

text \<open>What is sent over the transport of a conversation: the frames HELLO and ACK as the object the code
  builds, a request with its scope and the watermarks.\<close>

datatype out_frame =
    OutObject json
  | OutSyncReq sync_scope string lamports

record handshake_state =
  hs_sync :: sync_state
  hs_pendingHello :: "(string \<times> (string \<times> time_ms)) list"
  hs_seenHello :: "(string \<times> time_ms) list"
  hs_sent :: "(string \<times> out_frame) list"

definition HANDSHAKE_NONCE_TTL_MS :: int where
  "HANDSHAKE_NONCE_TTL_MS = 5 * 60 * 1000"

definition MAX_SEEN_HELLO_NONCES :: nat where
  "MAX_SEEN_HELLO_NONCES = 2048"

subsection \<open>Signatures\<close>

definition signHandshake :: "local_env \<Rightarrow> json \<Rightarrow> string" where
  "signHandshake env payload =
     encodeBase64Url (pf_sign (le_platform env) (canonicalBytes payload) (le_identityPriv env))"

definition verifyHandshake :: "local_env \<Rightarrow> json \<Rightarrow> string \<Rightarrow> string \<Rightarrow> bool" where
  "verifyHandshake env payload sigB64 identityPubB64 =
     (case (decodeBase64Url sigB64, decodeBase64Url identityPubB64) of
       (Some sig, Some verifyKey) \<Rightarrow> pf_verify (le_platform env) sig (canonicalBytes payload) verifyKey = Some True
     | _ \<Rightarrow> False)"

definition verifyHandshakeCompat :: "local_env \<Rightarrow> json \<Rightarrow> json \<Rightarrow> string \<Rightarrow> string \<Rightarrow> bool \<Rightarrow> bool" where
  "verifyHandshakeCompat env payloadWithCaps legacyPayload sigB64 identityPubB64 hasCaps =
     (if verifyHandshake env payloadWithCaps sigB64 identityPubB64 then True
      else if hasCaps then False
      else verifyHandshake env legacyPayload sigB64 identityPubB64)"

definition legacy_fields :: "string \<Rightarrow> hello_frame \<Rightarrow> (string \<times> json) list" where
  "legacy_fields type frame = [(''type'', JStr type), (''identityPub'', JStr (hf_identityPub frame)),
     (''deviceId'', JStr (hf_deviceId frame)), (''nonce'', JStr (hf_nonce frame))]"

definition frame_verified :: "local_env \<Rightarrow> string \<Rightarrow> hello_frame \<Rightarrow> bool" where
  "frame_verified env type frame = verifyHandshakeCompat env
     (JObj (legacy_fields type frame @ [(''caps'', nn (hf_caps frame) JNull)])) (JObj (legacy_fields type frame))
     (hf_sig frame) (hf_identityPub frame) (truthy (hf_caps frame))"

definition nonce_ok :: "string \<Rightarrow> bool" where
  "nonce_ok s \<longleftrightarrow> 16 \<le> length s \<and> length s \<le> 256 \<and> list_all (\<lambda>c. is_alnum c \<or> c = CHR ''_'' \<or> c = CHR ''-'') s"

subsection \<open>Friends and safety numbers\<close>

text \<open>Byte strings in the order the comparison of the code gives them: the first difference, else the length.\<close>

fun bytes_before :: "bytes \<Rightarrow> bytes \<Rightarrow> bool" where
  "bytes_before [] _ = True"
| "bytes_before (_ # _) [] = False"
| "bytes_before (a # as) (b # bs) = (if a = b then bytes_before as bs else a < b)"

definition formatSafetyNumber :: "string \<Rightarrow> string" where
  "formatSafetyNumber encoded = (let
       compact = filter is_alnum encoded;
       a = take 6 compact; b = take 5 (drop 6 compact); c = take 6 (drop 11 compact)
     in join_str ''-'' (filter (\<lambda>s. s \<noteq> []) [a, b, c]))"

definition computeSafetyNumber :: "local_env \<Rightarrow> string \<Rightarrow> string \<Rightarrow> string option" where
  "computeSafetyNumber env identityA identityB =
     (case (decodeBase64Url identityA, decodeBase64Url identityB) of
       (Some a, Some b) \<Rightarrow>
         let (x, y) = (if bytes_before a b then (a, b) else (b, a))
         in Some (formatSafetyNumber (encodeBase64Url (pf_generichash (le_platform env) 16 (x @ y))))
     | _ \<Rightarrow> None)"

definition resolveFriendByIdentity :: "app_state \<Rightarrow> string \<Rightarrow> json" where
  "resolveFriendByIdentity a identityPub =
     (if identityPub = [] then JNull
      else
        let exact = find_row (\<lambda>p. field p ''identityPub'' = JStr identityPub) (ap_profiles a)
        in if exact \<noteq> JNull then exact
           else (case decodeBase64Url identityPub of
               None \<Rightarrow> JNull
             | Some bs \<Rightarrow> find_row (\<lambda>p. field p ''friendId'' = JStr (computeFriendId bs)) (ap_profiles a)))"

definition key_changed_profile :: "time_ms \<Rightarrow> json \<Rightarrow> json" where
  "key_changed_profile now friend = spread friend
     [(''verification'', JObj [(''status'', JStr ''key_changed''),
        (''safetyNumber'', field (field friend ''verification'') ''safetyNumber''),
        (''verifiedAt'', field (field friend ''verification'') ''verifiedAt'')]),
      (''friendStatus'', JStr ''blocked''), (''updatedAt'', int_num now)]"

definition verified_profile :: "time_ms \<Rightarrow> string \<Rightarrow> string \<Rightarrow> json \<Rightarrow> string \<Rightarrow> json \<Rightarrow> json \<Rightarrow> json" where
  "verified_profile now identityPub deviceId profile safetyNumber hints friend = spread friend
     [(''identityPub'', JStr identityPub), (''primaryDeviceId'', JStr deviceId), (''routingHints'', hints),
      (''verification'', JObj [(''status'', JStr ''verified''), (''safetyNumber'', JStr safetyNumber),
         (''verifiedAt'', int_num now)]),
      (''reachability'', if deviceId \<noteq> [] then JObj [(''status'', JStr ''ok''), (''lastAttemptAt'', int_num now)]
         else nn (field friend ''reachability'')
           (JObj [(''status'', JStr ''unreachable''), (''lastError'', JStr ''Missing deviceId'')])),
      (''profileVcard'', if truthy profile
         then JObj [(''displayName'', field profile ''displayName''), (''status'', field profile ''status''),
           (''avatarRef'', field profile ''avatarRef''), (''updatedAt'', int_num now)]
         else field friend ''profileVcard''),
      (''updatedAt'', int_num now)]"

definition applyVerification :: "local_env \<Rightarrow> string \<Rightarrow> string \<Rightarrow> json \<Rightarrow> app_state \<Rightarrow> app_state option" where
  "applyVerification env identityPub deviceId profile a =
     (let friend = resolveFriendByIdentity a identityPub; now = le_now env in
      if friend = JNull then Some a
      else if truthy (field friend ''identityPub'') \<and> field friend ''identityPub'' \<noteq> JStr identityPub
      then saveProfile (key_changed_profile now friend) a
      else (case computeSafetyNumber env (encodeBase64Url (le_identityPub env)) identityPub of
          None \<Rightarrow> None
        | Some safetyNumber \<Rightarrow>
            (case sanitizeRoutingHints (JObj [(''onionAddr'', field (field friend ''routingHints'') ''onionAddr''),
                (''deviceId'', JStr deviceId)]) of
               None \<Rightarrow> None
             | Some hints \<Rightarrow> saveProfile (verified_profile now identityPub deviceId profile safetyNumber hints friend) a)))"

subsection \<open>HELLO and ACK\<close>

definition pinned_identity :: "sync_state \<Rightarrow> string \<Rightarrow> string option" where
  "pinned_identity st convId = Option.bind (map_of (sy_peers st) convId) pc_identityPub"

definition pin_conflict :: "sync_state \<Rightarrow> string \<Rightarrow> string \<Rightarrow> bool" where
  "pin_conflict st convId identityPub \<longleftrightarrow>
     truthy_string (pinned_identity st convId) \<and> pinned_identity st convId \<noteq> Some identityPub"

definition set_peer :: "string \<Rightarrow> hello_frame \<Rightarrow> sync_state \<Rightarrow> sync_state" where
  "set_peer convId frame st =
     (let existing = nullish (map_of (sy_peers st) convId) empty_peer
      in st\<lparr>sy_peers := AList.update convId (existing\<lparr>pc_identityPub := Some (hf_identityPub frame),
           pc_peerDeviceId := Some (hf_deviceId frame), pc_peerCaps := Some (normalizePeerCaps (hf_caps frame))\<rparr>)
         (sy_peers st)\<rparr>)"

definition live_nonces :: "time_ms \<Rightarrow> (string \<times> time_ms) list \<Rightarrow> (string \<times> time_ms) list" where
  "live_nonces now = filter (\<lambda>(k, seenAt). now - seenAt \<le> HANDSHAKE_NONCE_TTL_MS)"

definition replay_key :: "hello_frame \<Rightarrow> string" where
  "replay_key frame = hf_identityPub frame @ '':'' @ hf_nonce frame"

definition remember_nonce :: "string \<Rightarrow> time_ms \<Rightarrow> (string \<times> time_ms) list \<Rightarrow> (string \<times> time_ms) list" where
  "remember_nonce key now seen =
     (let seen1 = AList.update key now seen
      in if MAX_SEEN_HELLO_NONCES < length seen1 then tl seen1 else seen1)"

definition ack_frame :: "local_env \<Rightarrow> string \<Rightarrow> json" where
  "ack_frame env nonce =
     (let payload = [(''type'', JStr ''ACK''), (''identityPub'', JStr (encodeBase64Url (le_identityPub env))),
        (''deviceId'', JStr (le_deviceId env)), (''nonce'', JStr nonce), (''caps'', LOCAL_CAPS)]
      in JObj (payload @ [(''sig'', JStr (signHandshake env (JObj payload)))]))"

text \<open>What follows an accepted frame: the role changes that waited, then the friend is verified. Where
  that throws, the handler ends there.\<close>

definition accept_peer :: "local_env \<Rightarrow> string \<Rightarrow> hello_frame \<Rightarrow> json \<Rightarrow> sync_state \<Rightarrow> sync_state \<times> bool" where
  "accept_peer env convId frame profile st =
     (let st1 = set_peer convId frame st;
          a1 = flushDeferredRoleEvents (sy_peers st1) convId (sy_app st1)
      in case applyVerification env (hf_identityPub frame) (hf_deviceId frame) profile a1 of
           None \<Rightarrow> (st1\<lparr>sy_app := a1\<rparr>, False)
         | Some a2 \<Rightarrow> (st1\<lparr>sy_app := a2\<rparr>, True))"

text \<open>
  The handler of a HELLO waits for the verification of the signature: what it checks before
  (\<open>hello_gate\<close>) it checks on the state it starts in, and what it does after
  (\<open>hello_rest\<close>) it does on the state it resumes in. Where frames are handled one after another
  these are the same state.
\<close>

definition hello_gate :: "string \<Rightarrow> hello_frame \<Rightarrow> handshake_state \<Rightarrow> bool" where
  "hello_gate convId frame hs \<longleftrightarrow>
     nonce_ok (hf_nonce frame) \<and> \<not> pin_conflict (hs_sync hs) convId (hf_identityPub frame)"

definition hello_rest :: "local_env \<Rightarrow> string \<Rightarrow> hello_frame \<Rightarrow> handshake_state \<Rightarrow> handshake_state" where
  "hello_rest env convId frame hs =
     (if \<not> frame_verified env ''HELLO'' frame then hs
      else
        let now = le_now env; seen = live_nonces now (hs_seenHello hs); hs1 = hs\<lparr>hs_seenHello := seen\<rparr>
        in if map_of seen (replay_key frame) \<noteq> None then hs1
           else
             let (st, ok) = accept_peer env convId frame (hf_profile frame) (hs_sync hs);
                 hs2 = hs1\<lparr>hs_seenHello := remember_nonce (replay_key frame) now seen, hs_sync := st\<rparr>
             in if ok then hs2\<lparr>hs_sent := hs_sent hs2 @ [(convId, OutObject (ack_frame env (hf_nonce frame)))]\<rparr> else hs2)"

definition handleHello :: "local_env \<Rightarrow> string \<Rightarrow> hello_frame \<Rightarrow> handshake_state \<Rightarrow> handshake_state" where
  "handleHello env convId frame hs = (if hello_gate convId frame hs then hello_rest env convId frame hs else hs)"

definition ack_expected :: "time_ms \<Rightarrow> string \<Rightarrow> hello_frame \<Rightarrow> handshake_state \<Rightarrow> bool" where
  "ack_expected now convId frame hs = (case map_of (hs_pendingHello hs) convId of
       None \<Rightarrow> False
     | Some (nonce, createdAt) \<Rightarrow> nonce = hf_nonce frame \<and> now - createdAt \<le> HANDSHAKE_NONCE_TTL_MS)"

definition handleAck :: "local_env \<Rightarrow> string \<Rightarrow> hello_frame \<Rightarrow> handshake_state \<Rightarrow> handshake_state" where
  "handleAck env convId frame hs =
     (if \<not> ack_expected (le_now env) convId frame hs then hs
      else if pin_conflict (hs_sync hs) convId (hf_identityPub frame) then hs
      else if \<not> frame_verified env ''ACK'' frame then hs
      else hs\<lparr>hs_pendingHello := AList.delete convId (hs_pendingHello hs),
              hs_sync := fst (accept_peer env convId frame JUndef (hs_sync hs))\<rparr>)"

subsection \<open>Opening and closing a conversation\<close>

definition hello_of :: "local_env \<Rightarrow> string \<Rightarrow> app_state \<Rightarrow> json \<times> app_state" where
  "hello_of env nonce a =
     (let payload = [(''type'', JStr ''HELLO''), (''deviceId'', JStr (le_deviceId env)),
            (''identityPub'', JStr (encodeBase64Url (le_identityPub env))), (''nonce'', JStr nonce), (''caps'', LOCAL_CAPS)];
          (localUserId, a1) = resolveLocalUserId a;
          me = (if truthy localUserId then find_row (\<lambda>p. field p ''id'' = localUserId) (ap_profiles a1) else JNull);
          profile = (if me = JNull then JUndef
            else JObj [(''displayName'', field me ''displayName''), (''status'', field me ''status''),
              (''avatarRef'', field me ''avatarRef'')])
      in (JObj (payload @ [(''sig'', JStr (signHandshake env (JObj payload))), (''profile'', profile)]), a1))"

definition syncConversation :: "local_env \<Rightarrow> string \<Rightarrow> handshake_state \<Rightarrow> handshake_state" where
  "syncConversation env convId hs =
     (if \<not> isDeviceSyncAllowed env (hs_sync hs) convId then hs
      else hs\<lparr>hs_sent := hs_sent hs @ [(convId, OutSyncReq ScopeConv convId (getSinceMap (hs_sync hs) (Some convId)))]\<rparr>)"

definition syncGlobal :: "local_env \<Rightarrow> string \<Rightarrow> handshake_state \<Rightarrow> handshake_state" where
  "syncGlobal env convId hs =
     (if \<not> isDeviceSyncAllowed env (hs_sync hs) convId then hs
      else hs\<lparr>hs_sent := hs_sent hs @ [(convId, OutSyncReq ScopeGlobal convId
        (getSinceMap (hs_sync hs) (Some (''global:'' @ convId))))]\<rparr>)"

text \<open>The transport is connected in between; the hint replaces what was known of the peer.\<close>

definition connectConversation :: "local_env \<Rightarrow> string \<Rightarrow> peer_context \<Rightarrow> string \<Rightarrow> handshake_state \<Rightarrow> handshake_state" where
  "connectConversation env convId peerHint nonce hs =
     (let st1 = (hs_sync hs)\<lparr>sy_peers := AList.update convId peerHint (sy_peers (hs_sync hs))\<rparr>;
          hs1 = hs\<lparr>hs_sync := st1\<rparr>
      in if \<not> isDeviceSyncAllowed env st1 convId then hs1
         else
           let (hello, a1) = hello_of env nonce (sy_app st1);
               hs2 = hs1\<lparr>hs_pendingHello := AList.update convId (nonce, le_now env) (hs_pendingHello hs1),
                 hs_sync := st1\<lparr>sy_app := a1\<rparr>, hs_sent := hs_sent hs1 @ [(convId, OutObject hello)]\<rparr>
           in syncGlobal env convId (syncConversation env convId hs2))"

definition disconnectConversation :: "string \<Rightarrow> handshake_state \<Rightarrow> handshake_state" where
  "disconnectConversation convId hs = hs\<lparr>hs_pendingHello := AList.delete convId (hs_pendingHello hs)\<rparr>"

subsection \<open>Dispatch\<close>

datatype sync_frame =
    FrameHello hello_frame
  | FrameAck hello_frame
  | FrameReq sync_scope "string option" lamports
  | FrameRes sync_scope "string option" "(sync_event, lamports) res_frame"
  | FrameFlowAck string nat
  | FrameOther

definition on_sync :: "(sync_state \<Rightarrow> sync_state) \<Rightarrow> handshake_state \<Rightarrow> handshake_state" where
  "on_sync f hs = hs\<lparr>hs_sync := f (hs_sync hs)\<rparr>"

definition handleIncoming ::
    "local_env \<Rightarrow> (nat \<Rightarrow> sync_event list \<Rightarrow> nat) \<Rightarrow> string \<Rightarrow> string \<Rightarrow> sync_frame \<Rightarrow> handshake_state \<Rightarrow> handshake_state" where
  "handleIncoming env bytes_of sessionId convId frame hs = (case frame of
       FrameHello f \<Rightarrow> handleHello env convId f hs
     | FrameAck f \<Rightarrow> handleAck env convId f hs
     | FrameReq scope c since \<Rightarrow> on_sync (handleSyncReq env bytes_of sessionId convId scope c since) hs
     | FrameRes scope c r \<Rightarrow> on_sync (handleSyncRes env convId scope c r) hs
     | FrameFlowAck sid i \<Rightarrow> on_sync (\<lambda>st. st\<lparr>sy_flow := handleSyncFlowAck sid i (sy_flow st)\<rparr>) hs
     | FrameOther \<Rightarrow> hs)"

subsection \<open>Envelopes that come in by themselves\<close>

definition isEnvelopeLike :: "json \<Rightarrow> bool" where
  "isEnvelopeLike v \<longleftrightarrow> is_object v \<and> is_object (field v ''header'') \<and>
     (let h = field v ''header'' in
      str_of (field h ''convId'') \<noteq> None \<and> str_of (field h ''eventId'') \<noteq> None \<and>
      str_of (field h ''authorDeviceId'') \<noteq> None \<and> finite_num (field h ''ts'') \<noteq> None \<and>
      finite_num (field h ''lamport'') \<noteq> None) \<and>
     str_of (field v ''ciphertext'') \<noteq> None \<and> str_of (field v ''nonce'') \<noteq> None \<and> str_of (field v ''sig'') \<noteq> None"

definition direct_partner :: "json \<Rightarrow> json \<Rightarrow> json option" where
  "direct_partner conv localUserId =
     (let ps = elements (field conv ''participants'')
      in if field conv ''type'' = JStr ''group'' \<or> length ps \<noteq> 2 then None
         else List.find (\<lambda>i. truthy i \<and> i \<noteq> localUserId) ps)"

definition partner_profile :: "json \<Rightarrow> app_state \<Rightarrow> json" where
  "partner_profile partnerId a =
     find_row (\<lambda>p. field p ''id'' = partnerId \<and> field p ''kind'' = JStr ''friend'') (ap_profiles a)"

definition has_keys :: "peer_context option \<Rightarrow> bool" where
  "has_keys p = (case p of None \<Rightarrow> False | Some c \<Rightarrow> truthy_string (pc_identityPub c) \<and> truthy_string (pc_dhPub c))"

definition peer_from_profile :: "peer_context \<Rightarrow> json \<Rightarrow> peer_context" where
  "peer_from_profile existing partner = existing\<lparr>pc_kind := Some PeerFriend,
     pc_friendKeyId := or_else (pc_friendKeyId existing) (or_else (str_of (field partner ''friendId'')) (str_of (field partner ''id''))),
     pc_identityPub := or_else (pc_identityPub existing) (str_of (field partner ''identityPub'')),
     pc_dhPub := or_else (pc_dhPub existing) (str_of (field partner ''dhPub'')),
     pc_onionAddr := or_else (pc_onionAddr existing) (str_of (field (field partner ''routingHints'') ''onionAddr'')),
     pc_peerDeviceId := or_else (pc_peerDeviceId existing) (or_else (str_of (field (field partner ''routingHints'') ''deviceId''))
       (or_else (str_of (field partner ''primaryDeviceId'')) (str_of (field partner ''deviceId''))))\<rparr>"

definition ensurePeerContextFromConversation :: "string \<Rightarrow> sync_state \<Rightarrow> bool \<times> sync_state" where
  "ensurePeerContextFromConversation convId st =
     (let existing = map_of (sy_peers st) convId in
      if has_keys existing then (True, st)
      else
        let (localUserId, a) = resolveLocalUserId (sy_app st);
            st1 = st\<lparr>sy_app := a\<rparr>;
            conv = find_row (\<lambda>c. field c ''id'' = JStr convId) (ap_conversations a)
        in if \<not> truthy localUserId \<or> conv = JNull then (False, st1)
           else (case direct_partner conv localUserId of
               None \<Rightarrow> (False, st1)
             | Some partnerId \<Rightarrow>
                 let partner = partner_profile partnerId a
                 in if \<not> truthy (field partner ''identityPub'') \<or> \<not> truthy (field partner ''dhPub'') then (False, st1)
                    else (True, st1\<lparr>sy_peers := AList.update convId
                      (peer_from_profile (nullish existing empty_peer) partner) (sy_peers st1)\<rparr>)))"

definition resolveFallbackConversationId :: "local_env \<Rightarrow> json \<Rightarrow> sync_state \<Rightarrow> json \<times> sync_state" where
  "resolveFallbackConversationId env envelope st =
     (let (localUserId, a) = resolveLocalUserId (sy_app st);
          st1 = st\<lparr>sy_app := a\<rparr>;
          candidate = (\<lambda>conv. localUserId \<in> set (elements (field conv ''participants'')) \<and>
            (case direct_partner conv localUserId of
               None \<Rightarrow> False
             | Some partnerId \<Rightarrow>
                 (case Option.bind (str_of (field (partner_profile partnerId a) ''identityPub'')) decodeBase64Url of
                    None \<Rightarrow> False
                  | Some verifyKey \<Rightarrow>
                      truthy (field (partner_profile partnerId a) ''identityPub'') \<and>
                      verifyEnvelopeSignature (le_platform env) envelope verifyKey = Some True)))
      in if \<not> truthy localUserId then (JNull, st1)
         else (field (find_row candidate (ap_conversations a)) ''id'', st1))"

definition ingest_event :: "json \<Rightarrow> string \<Rightarrow> sync_event" where
  "ingest_event envelope payloadText =
     (let h = field envelope ''header'' in
      \<lparr>ev_eventId = text_of (field h ''eventId''), ev_convId = text_of (field h ''convId''),
       ev_authorDeviceId = text_of (field h ''authorDeviceId''), ev_lamport = finite_num (field h ''lamport''),
       ev_ts = number_of (field h ''ts''), ev_envelopeJson = payloadText\<rparr>)"

definition ingestIncomingEnvelopeText :: "local_env \<Rightarrow> string \<Rightarrow> sync_state \<Rightarrow> bool \<times> sync_state" where
  "ingestIncomingEnvelopeText env payloadText st = (case pf_json_parse (le_platform env) payloadText of
       None \<Rightarrow> (False, st)
     | Some envelope \<Rightarrow>
         if \<not> isEnvelopeLike envelope then (False, st)
         else
           let convId = text_of (field (field envelope ''header'') ''convId'') in
           if convId = [] then (False, st)
           else
             let (hasPeer, st1) = ensurePeerContextFromConversation convId st;
                 ev = ingest_event envelope payloadText
             in if hasPeer then (True, applyEnvelopeEvents env convId [ev] st1)
                else
                  let (fallback, st2) = resolveFallbackConversationId env envelope st1
                  in if \<not> truthy fallback then (False, st2)
                     else
                       let (hasPeer2, st3) = ensurePeerContextFromConversation (text_of fallback) st2
                       in if hasPeer2 then (True, applyEnvelopeEvents env (text_of fallback) [ev] st3) else (False, st3))"

subsection \<open>The identity of a peer stays pinned\<close>

type_synonym incoming = "local_env \<times> (nat \<Rightarrow> sync_event list \<Rightarrow> nat) \<times> string \<times> string \<times> sync_frame"

definition receive :: "incoming \<Rightarrow> handshake_state \<Rightarrow> handshake_state" where
  "receive = (\<lambda>(env, bytes_of, sessionId, convId, frame). handleIncoming env bytes_of sessionId convId frame)"

lemma advance_all_peers [simp]: "sy_peers (advance_all c nxt st) = sy_peers st"
  unfolding advance_all_def by (induction nxt arbitrary: st) (auto simp: updateLamportSeen_def)

lemma handleSyncReq_peers [simp]: "sy_peers (handleSyncReq env b sid c sc fc since st) = sy_peers st"
  by (simp add: handleSyncReq_def)

lemma handleSyncRes_peers [simp]: "sy_peers (handleSyncRes env c sc fc r st) = sy_peers st"
  by (simp add: handleSyncRes_def applyEnvelopeEvents_def Let_def split: option.split)

lemma accept_peer_peers [simp]: "sy_peers (fst (accept_peer env c f p st)) = sy_peers (set_peer c f st)"
  by (simp add: accept_peer_def Let_def split: option.split)

lemma pinned_peers: "sy_peers s = sy_peers st \<Longrightarrow> pinned_identity s c = pinned_identity st c"
  by (simp add: pinned_identity_def)

lemma pinned_set_peer:
  "pinned_identity (set_peer c f st) d = (if d = c then Some (hf_identityPub f) else pinned_identity st d)"
  by (simp add: pinned_identity_def set_peer_def Let_def update_conv')

lemma hello_fields:
  "hs_sync (handleHello env c f hs) = hs_sync hs \<or>
   (\<not> pin_conflict (hs_sync hs) c (hf_identityPub f) \<and> frame_verified env ''HELLO'' f \<and>
    hs_sync (handleHello env c f hs) = fst (accept_peer env c f (hf_profile f) (hs_sync hs)))"
  by (simp add: handleHello_def hello_gate_def hello_rest_def Let_def split: prod.split)

lemma ack_fields:
  "handleAck env c f hs = hs \<or>
   (ack_expected (le_now env) c f hs \<and> \<not> pin_conflict (hs_sync hs) c (hf_identityPub f) \<and>
    frame_verified env ''ACK'' f \<and>
    handleAck env c f hs = hs\<lparr>hs_pendingHello := AList.delete c (hs_pendingHello hs),
      hs_sync := fst (accept_peer env c f JUndef (hs_sync hs))\<rparr>)"
  by (simp add: handleAck_def)

lemma pin_after_accept:
  assumes "pinned_identity st c = Some p" "p \<noteq> []" "\<not> pin_conflict st d (hf_identityPub f)"
    "sy_peers s = sy_peers (set_peer d f st)"
  shows "pinned_identity s c = Some p"
  using assms by (auto simp: pinned_peers [OF assms(4)] pinned_set_peer pin_conflict_def truthy_string_def)

lemma receive_pin:
  assumes "pinned_identity (hs_sync hs) c = Some p" "p \<noteq> []"
  shows "pinned_identity (hs_sync (receive i hs)) c = Some p"
proof -
  obtain env b sid d f where i: "i = (env, b, sid, d, f)" by (cases i)
  show ?thesis
  proof (cases f)
    case (FrameHello h)
    then show ?thesis using hello_fields [of env d h hs] pin_after_accept [OF assms]
      by (auto simp: i receive_def handleIncoming_def assms)
  next
    case (FrameAck h)
    then show ?thesis using ack_fields [of env d h hs] pin_after_accept [OF assms]
      by (auto simp: i receive_def handleIncoming_def assms)
  qed (simp_all add: i receive_def handleIncoming_def on_sync_def assms pinned_identity_def [symmetric]
      pinned_peers [OF handleSyncReq_peers] pinned_peers [OF handleSyncRes_peers],
      use assms in \<open>simp_all add: pinned_identity_def\<close>)
qed

text \<open>
  C4. The identity pinned for a conversation stays: whatever frames arrive and are handled one after another, on
  whatever conversations and at whatever times, the identity key a conversation's peer has been pinned to is
  the same afterwards, so events of the conversation go on being verified with that key.
\<close>

theorem pinned_identity_survives_frames:
  assumes "pinned_identity (hs_sync hs) c = Some p" "p \<noteq> []"
  shows "pinned_identity (hs_sync (fold receive is hs)) c = Some p"
  using assms by (induction "is" arbitrary: hs) (simp_all add: receive_pin)

subsection \<open>What a signature of the handshake covers\<close>

lemma caps_meaning:
  assumes "wf_json a" "wf_json b" "meaning a = meaning b"
  shows "normalizePeerCaps a = normalizePeerCaps b"
proof -
  have f: "meaning (field a k) = meaning (field b k)" for k by (rule field_meaning [OF assms])
  have g: "meaning (field (field a k) l) = meaning (field (field b k) l)" for k l
    by (rule field_meaning [OF wf_field wf_field f]) (rule assms)+
  show ?thesis
    by (simp add: normalizePeerCaps_def normalizeCapVersion_def meaning_finite [OF f] meaning_finite [OF g]
        meaning_truthy [OF g])
qed

lemma legacy_field_simps [simp]:
  "field (JObj (legacy_fields t f @ r)) ''type'' = JStr t"
  "field (JObj (legacy_fields t f @ r)) ''identityPub'' = JStr (hf_identityPub f)"
  "field (JObj (legacy_fields t f @ r)) ''deviceId'' = JStr (hf_deviceId f)"
  "field (JObj (legacy_fields t f @ r)) ''nonce'' = JStr (hf_nonce f)"
  "field (JObj (legacy_fields t f @ r)) ''caps'' = field (JObj r) ''caps''"
  by (simp_all add: legacy_fields_def)

lemma legacy_fields_wf:
  "wf_json (JObj (legacy_fields t f))" "wf_json c \<Longrightarrow> wf_json (JObj (legacy_fields t f @ [(''caps'', c)]))"
  by (simp_all add: legacy_fields_def settable_def)

lemma wf_nn: "wf_json a \<Longrightarrow> wf_json b \<Longrightarrow> wf_json (nn a b)"
  by (simp add: nn_def)

lemma LOCAL_CAPS_wf: "wf_json LOCAL_CAPS" "truthy LOCAL_CAPS"
  by (simp_all add: LOCAL_CAPS_def settable_def is_num_char_def is_digit_def)

lemma frame_verified_message:
  assumes "frame_verified env t f" "decodeBase64Url (hf_identityPub f) = Some key"
  obtains sig v where "pf_verify (le_platform env) sig (canonicalBytes v) key = Some True"
    "v = JObj (legacy_fields t f @ [(''caps'', nn (hf_caps f) JNull)]) \<or>
     (\<not> truthy (hf_caps f) \<and> v = JObj (legacy_fields t f))"
  using assms by (auto simp: frame_verified_def verifyHandshakeCompat_def verifyHandshake_def
      split: if_splits option.splits)

text \<open>
  C17. An accepted HELLO or ACK is the one its sender signed: suppose a signature is valid under the
  sender's identity key only for the handshake payloads the sender issued, each with the
  capabilities of this program. Then a frame whose signature is accepted has the type, the identity,
  the device and the nonce of an issued payload, and its capabilities are those that were signed:
  they can neither be taken away on the way (the fallback to the payload without capabilities does
  not help) nor be lowered.
\<close>

theorem handshake_frame_is_as_signed:
  assumes unforgeable: "\<forall>s m. pf_verify (le_platform env) s m key = Some True \<longrightarrow>
      (\<exists>(t, g) \<in> set issued. m = canonicalBytes (JObj (legacy_fields t g @ [(''caps'', LOCAL_CAPS)])))"
    and key: "decodeBase64Url (hf_identityPub f) = Some key"
    and wf: "wf_json (hf_caps f)"
    and verified: "frame_verified env t f"
  shows "(\<exists>g. (t, g) \<in> set issued \<and> hf_identityPub g = hf_identityPub f \<and> hf_deviceId g = hf_deviceId f \<and>
      hf_nonce g = hf_nonce f) \<and> normalizePeerCaps (hf_caps f) = normalizePeerCaps LOCAL_CAPS"
proof -
  obtain sig v where ok: "pf_verify (le_platform env) sig (canonicalBytes v) key = Some True"
    and v: "v = JObj (legacy_fields t f @ [(''caps'', nn (hf_caps f) JNull)]) \<or>
      (\<not> truthy (hf_caps f) \<and> v = JObj (legacy_fields t f))"
    using frame_verified_message [OF verified key] by blast
  from unforgeable ok obtain t' g where g: "(t', g) \<in> set issued"
    "canonicalBytes v = canonicalBytes (JObj (legacy_fields t' g @ [(''caps'', LOCAL_CAPS)]))" by blast
  let ?w = "JObj (legacy_fields t' g @ [(''caps'', LOCAL_CAPS)])"
  have "wf_json (nn (hf_caps f) JNull)" by (intro wf_nn wf) simp
  then have wv: "wf_json v" using v legacy_fields_wf by auto
  have ww: "wf_json ?w" by (intro legacy_fields_wf LOCAL_CAPS_wf)
  have vu: "v \<noteq> JUndef" "?w \<noteq> JUndef" using v by auto
  have m: "meaning v = meaning ?w" using g(2) canonicalBytes_eq_iff [OF wv ww vu] by blast
  have fm: "meaning (field v k) = meaning (field ?w k)" for k by (rule field_meaning [OF wv ww m])
  have caps: "field v ''caps'' = nn (hf_caps f) JNull \<or> (\<not> truthy (hf_caps f) \<and> field v ''caps'' = JUndef)"
    using v legacy_field_simps(5) [of t f "[]"] by auto
  have "truthy (field v ''caps'')" using meaning_truthy [OF fm [of "''caps''"]] LOCAL_CAPS_wf(2) by simp
  then have c: "field v ''caps'' = hf_caps f" using caps by (auto simp: nn_def split: if_splits)
  have "normalizePeerCaps (hf_caps f) = normalizePeerCaps LOCAL_CAPS"
    using caps_meaning [OF wf LOCAL_CAPS_wf(1)] fm [of "''caps''"] c by simp
  moreover have vf: "field v ''type'' = JStr t" "field v ''identityPub'' = JStr (hf_identityPub f)"
    "field v ''deviceId'' = JStr (hf_deviceId f)" "field v ''nonce'' = JStr (hf_nonce f)"
    using v legacy_field_simps [of t f "[]"] by auto
  ultimately show ?thesis
    using g(1) fm [of "''type''"] fm [of "''identityPub''"] fm [of "''deviceId''"] fm [of "''nonce''"] by auto
qed

subsection \<open>Safety numbers\<close>

lemma bytes_before_total: "bytes_before a b \<or> bytes_before b a"
  by (induction a b rule: bytes_before.induct) auto

lemma bytes_before_antisym: "bytes_before a b \<Longrightarrow> bytes_before b a \<Longrightarrow> a = b"
proof (induction a b rule: bytes_before.induct)
  case (1 b) then show ?case by (cases b) auto
qed (auto split: if_splits)

text \<open>
  Both ends compute the same safety number: it does not depend on whose identity key comes
  first, so two users of whom each holds the other's identity key see the same text when they compare.
\<close>

theorem safety_number_same_on_both_sides:
  "computeSafetyNumber env mine theirs = computeSafetyNumber env theirs mine"
  using bytes_before_total bytes_before_antisym
  by (auto simp: computeSafetyNumber_def Let_def split: option.splits)

subsection \<open>Replayed frames\<close>

definition seen_ok :: "(string \<times> time_ms) list \<Rightarrow> bool" where
  "seen_ok xs \<longleftrightarrow> distinct (map fst xs) \<and> length xs \<le> MAX_SEEN_HELLO_NONCES"

text \<open>The entries from a key on: those in front of them are the ones evicted before it.\<close>

definition from_key :: "string \<Rightarrow> (string \<times> time_ms) list \<Rightarrow> (string \<times> time_ms) list" where
  "from_key k = dropWhile (\<lambda>e. fst e \<noteq> k)"

definition remembered :: "string \<Rightarrow> time_ms \<Rightarrow> nat \<Rightarrow> (string \<times> time_ms) list \<Rightarrow> bool" where
  "remembered k t n xs \<longleftrightarrow> seen_ok xs \<and> map_of xs k = Some t \<and> length (from_key k xs) \<le> n"

lemma live_distinct: "distinct (map fst xs) \<Longrightarrow> distinct (map fst (live_nonces now xs))"
  unfolding live_nonces_def by (rule distinct_map_filter)

lemma live_ok: "seen_ok xs \<Longrightarrow> seen_ok (live_nonces now xs)"
  using live_distinct [of xs now] by (auto simp: seen_ok_def live_nonces_def intro: order_trans [OF length_filter_le])

lemma from_key_filter:
  "distinct (map fst xs) \<Longrightarrow> map_of xs k = Some t \<Longrightarrow> P (k, t) \<Longrightarrow>
   map_of (filter P xs) k = Some t \<and> length (from_key k (filter P xs)) \<le> length (from_key k xs)"
  by (induction xs) (auto simp: from_key_def split: if_splits intro: le_trans [OF length_filter_le])

lemma update_fresh: "map_of xs k = None \<Longrightarrow> AList.update k v xs = xs @ [(k, v)]"
  by (induction xs) (auto split: if_splits)

lemma remember_ok: "seen_ok xs \<Longrightarrow> map_of xs k = None \<Longrightarrow> seen_ok (remember_nonce k t xs)"
  by (cases xs) (auto simp: remember_nonce_def seen_ok_def update_fresh Let_def map_of_eq_None_iff)

lemma remembered_live:
  assumes "remembered k t n xs" "now - t \<le> HANDSHAKE_NONCE_TTL_MS"
  shows "remembered k t n (live_nonces now xs)"
proof -
  have "distinct (map fst xs)" "map_of xs k = Some t" using assms(1) by (simp_all add: remembered_def seen_ok_def)
  from from_key_filter [of xs k t "\<lambda>(k, seenAt). now - seenAt \<le> HANDSHAKE_NONCE_TTL_MS", OF this]
  show ?thesis using assms live_ok by (auto simp: remembered_def live_nonces_def)
qed

lemma remembered_append:
  assumes "remembered k t n xs"
  shows "length (from_key k (xs @ ys)) \<le> n + length ys"
proof -
  have "\<exists>e \<in> set xs. fst e = k" using assms by (force simp: remembered_def dest!: map_of_SomeD)
  then obtain e where "e \<in> set xs" "fst e = k" by blast
  then have "from_key k (xs @ ys) = from_key k xs @ ys"
    unfolding from_key_def by (intro dropWhile_append1 [of e]) simp_all
  then show ?thesis using assms by (simp add: remembered_def)
qed

lemma remembered_other:
  assumes r: "remembered k t n xs" and fresh: "map_of xs k' = None" and n: "n < MAX_SEEN_HELLO_NONCES"
  shows "remembered k t (Suc n) (remember_nonce k' t' xs)"
proof -
  let ?ys = "xs @ [(k', t')]"
  have ok: "seen_ok (remember_nonce k' t' xs)" using r fresh by (intro remember_ok) (simp_all add: remembered_def)
  have len: "length (from_key k ?ys) \<le> Suc n" using remembered_append [OF r, of "[(k', t')]"] by simp
  have m: "map_of ?ys k = Some t" using r by (simp add: remembered_def map_add_def fresh)
  show ?thesis
  proof (cases "MAX_SEEN_HELLO_NONCES < length ?ys")
    case False
    then show ?thesis using ok len m by (simp add: remembered_def remember_nonce_def update_fresh [OF fresh] Let_def)
  next
    case True
    then obtain e es where ys: "?ys = e # es" by (cases xs) auto
    have "fst e \<noteq> k" using True len n ys by (auto simp: from_key_def)
    then have "map_of es k = Some t" "from_key k es = from_key k ?ys" using m ys by (auto simp: from_key_def prod_eq_iff)
    then show ?thesis using ok len True ys
      by (simp add: remembered_def remember_nonce_def update_fresh [OF fresh] Let_def)
  qed
qed

text \<open>How one frame changes the list of the nonces seen.\<close>

lemma hello_seen:
  "hs_seenHello (handleHello env c f hs) =
     (let live = live_nonces (le_now env) (hs_seenHello hs) in
      if \<not> nonce_ok (hf_nonce f) \<or> pin_conflict (hs_sync hs) c (hf_identityPub f) \<or> \<not> frame_verified env ''HELLO'' f
      then hs_seenHello hs
      else if map_of live (replay_key f) \<noteq> None then live
      else remember_nonce (replay_key f) (le_now env) live)"
  by (simp add: handleHello_def hello_gate_def hello_rest_def Let_def split: prod.split)

lemma receive_seen:
  assumes i: "i = (env, b, sid, c, f)"
  obtains "hs_seenHello (receive i hs) = hs_seenHello hs"
  | "hs_seenHello (receive i hs) = live_nonces (le_now env) (hs_seenHello hs)"
  | k where "map_of (live_nonces (le_now env) (hs_seenHello hs)) k = None"
    "hs_seenHello (receive i hs) = remember_nonce k (le_now env) (live_nonces (le_now env) (hs_seenHello hs))"
proof (cases f)
  case (FrameHello h)
  then have "hs_seenHello (receive i hs) = hs_seenHello (handleHello env c h hs)"
    by (simp add: i receive_def handleIncoming_def)
  then show ?thesis using that unfolding hello_seen Let_def by (simp split: if_splits)
next
  case (FrameAck h)
  then show ?thesis using that(1) ack_fields [of env c h hs] by (auto simp: i receive_def handleIncoming_def)
qed (use that(1) in \<open>simp_all add: i receive_def handleIncoming_def on_sync_def\<close>)

lemma receive_ok: "seen_ok (hs_seenHello hs) \<Longrightarrow> seen_ok (hs_seenHello (receive i hs))"
proof -
  assume ok: "seen_ok (hs_seenHello hs)"
  obtain env b sid c f where i: "i = (env, b, sid, c, f)" by (cases i)
  show ?thesis by (rule receive_seen [OF i, of hs]) (simp_all add: ok live_ok remember_ok)
qed

text \<open>
  The list of the HELLO nonces seen has one entry for a nonce and never more than 2048, whatever
  frames arrive: a peer that floods the device with greetings does not make it grow.
\<close>

theorem seen_nonces_bounded:
  assumes "seen_ok (hs_seenHello hs)"
  shows "seen_ok (hs_seenHello (fold receive is hs))"
  using assms by (induction "is" arbitrary: hs) (simp_all add: receive_ok)

lemma receive_remembered:
  assumes r: "remembered k t n (hs_seenHello hs)" and n: "n < MAX_SEEN_HELLO_NONCES"
    and now: "le_now (fst i) - t \<le> HANDSHAKE_NONCE_TTL_MS"
  shows "remembered k t (Suc n) (hs_seenHello (receive i hs))"
proof -
  obtain env b sid c f where i: "i = (env, b, sid, c, f)" by (cases i)
  have live: "remembered k t n (live_nonces (le_now env) (hs_seenHello hs))"
    using remembered_live [OF r] now i by simp
  have weak: "remembered k t n xs \<Longrightarrow> remembered k t (Suc n) xs" for xs by (simp add: remembered_def)
  show ?thesis
    by (rule receive_seen [OF i, of hs]) (simp_all add: weak r live remembered_other [OF live _ n])
qed

lemma fold_remembered:
  assumes "remembered k t n (hs_seenHello hs)" "n + length is \<le> MAX_SEEN_HELLO_NONCES"
    "\<forall>i \<in> set is. le_now (fst i) - t \<le> HANDSHAKE_NONCE_TTL_MS"
  shows "remembered k t (n + length is) (hs_seenHello (fold receive is hs))"
  using assms
proof (induction "is" arbitrary: hs n)
  case (Cons i "is")
  have "remembered k t (Suc n) (hs_seenHello (receive i hs))"
    using Cons.prems by (intro receive_remembered) simp_all
  from Cons.IH [OF this] show ?case using Cons.prems by simp
qed simp

definition hello_accepted :: "local_env \<Rightarrow> string \<Rightarrow> hello_frame \<Rightarrow> handshake_state \<Rightarrow> bool" where
  "hello_accepted env c f hs \<longleftrightarrow> nonce_ok (hf_nonce f) \<and> \<not> pin_conflict (hs_sync hs) c (hf_identityPub f) \<and>
     frame_verified env ''HELLO'' f \<and> map_of (live_nonces (le_now env) (hs_seenHello hs)) (replay_key f) = None"

lemma accepted_remembered:
  assumes ok: "seen_ok (hs_seenHello hs)" and acc: "hello_accepted env c f hs"
  shows "remembered (replay_key f) (le_now env) 1 (hs_seenHello (handleHello env c f hs))"
proof -
  let ?xs = "live_nonces (le_now env) (hs_seenHello hs)" and ?k = "replay_key f"
  have fresh: "map_of ?xs ?k = None" using acc by (simp add: hello_accepted_def)
  have s: "hs_seenHello (handleHello env c f hs) = remember_nonce ?k (le_now env) ?xs"
    using acc by (simp add: hello_seen hello_accepted_def Let_def)
  have nk: "?k \<notin> fst ` set ys" if "set ys \<subseteq> set ?xs" for ys
    using fresh that by (auto simp: map_of_eq_None_iff)
  have one: "remembered ?k (le_now env) 1 (ys @ [(?k, le_now env)])"
    if "seen_ok (ys @ [(?k, le_now env)])" "set ys \<subseteq> set ?xs" for ys
  proof -
    have "dropWhile (\<lambda>e. fst e \<noteq> ?k) (ys @ [(?k, le_now env)]) = dropWhile (\<lambda>e. fst e \<noteq> ?k) [(?k, le_now env)]"
      using nk [OF that(2)] by (intro dropWhile_append2) force
    then show ?thesis using that nk [OF that(2)]
      by (simp add: remembered_def from_key_def map_add_def map_of_eq_None_iff [THEN iffD2])
  qed
  have "seen_ok (remember_nonce ?k (le_now env) ?xs)" by (intro remember_ok live_ok ok fresh)
  moreover have "remember_nonce ?k (le_now env) ?xs = ?xs @ [(?k, le_now env)] \<or>
      (\<exists>x ys. ?xs = x # ys \<and> remember_nonce ?k (le_now env) ?xs = ys @ [(?k, le_now env)])"
  proof (cases ?xs)
    case Nil
    then show ?thesis by (simp add: remember_nonce_def Let_def MAX_SEEN_HELLO_NONCES_def)
  next
    case (Cons x ys)
    then show ?thesis using update_fresh [OF fresh] by (simp add: remember_nonce_def Let_def)
  qed
  ultimately show ?thesis unfolding s using one by (auto simp: subset_iff)
qed

text \<open>
  C16. A replayed greeting does nothing: once a HELLO was accepted, the same frame, on whatever
  conversation, neither changes what is known of a peer or stored of a friend nor is answered, as
  long as the nonce's five minutes have not passed and fewer than 2048 frames came in between; at most the
  list of seen nonces loses entries that have expired.
\<close>

theorem replayed_hello_does_nothing:
  assumes ok: "seen_ok (hs_seenHello hs)" and acc: "hello_accepted env c f hs"
    and few: "length is < MAX_SEEN_HELLO_NONCES"
    and times: "\<forall>i \<in> set is. le_now (fst i) - le_now env \<le> HANDSHAKE_NONCE_TTL_MS"
      "le_now env' - le_now env \<le> HANDSHAKE_NONCE_TTL_MS"
    and later: "hs' = fold receive is (handleHello env c f hs)"
  shows "handleHello env' d f hs' = hs' \<or>
    handleHello env' d f hs' = hs'\<lparr>hs_seenHello := live_nonces (le_now env') (hs_seenHello hs')\<rparr>"
proof -
  have "remembered (replay_key f) (le_now env) (1 + length is) (hs_seenHello hs')"
    unfolding later using few times(1) by (intro fold_remembered accepted_remembered ok acc) simp_all
  then have "map_of (live_nonces (le_now env') (hs_seenHello hs')) (replay_key f) \<noteq> None"
    using remembered_live [OF _ times(2)] by (auto simp: remembered_def)
  then show ?thesis by (simp add: handleHello_def hello_rest_def Let_def)
qed

text \<open>
  Two greetings handled at the same time move the pin: where two HELLO frames of different
  identities arrive before the conversation has a pinned identity, both pass the check of the pin, and the one
  whose signature check ends last replaces the identity that the other has pinned; handled one
  after the other, the second would be dropped.
\<close>

theorem concurrent_greetings_move_pin:
  assumes gates: "hello_gate c f hs" "hello_gate c g hs"
    and verified: "frame_verified env ''HELLO'' f" "frame_verified env' ''HELLO'' g"
    and other: "hf_identityPub f \<noteq> hf_identityPub g" "hf_identityPub g \<noteq> []"
    and fresh: "map_of (live_nonces (le_now env') (hs_seenHello hs)) (replay_key g) = None"
      "map_of (live_nonces (le_now env) (hs_seenHello (hello_rest env' c g hs))) (replay_key f) = None"
  shows "pinned_identity (hs_sync (hello_rest env' c g hs)) c = Some (hf_identityPub g) \<and>
    pinned_identity (hs_sync (hello_rest env c f (hello_rest env' c g hs))) c = Some (hf_identityPub f) \<and>
    handleHello env c f (hello_rest env' c g hs) = hello_rest env' c g hs"
proof -
  have rest: "pinned_identity (hs_sync (hello_rest e c h s)) c = Some (hf_identityPub h)"
    if "frame_verified e ''HELLO'' h" "map_of (live_nonces (le_now e) (hs_seenHello s)) (replay_key h) = None" for e h s
  proof -
    have "hs_sync (hello_rest e c h s) = fst (accept_peer e c h (hf_profile h) (hs_sync s))"
      using that by (simp add: hello_rest_def Let_def split: prod.split)
    then show ?thesis using pinned_peers [OF accept_peer_peers] by (simp add: pinned_set_peer)
  qed
  have "\<not> hello_gate c f (hello_rest env' c g hs)"
    using rest [OF verified(2) fresh(1)] other by (simp add: hello_gate_def pin_conflict_def truthy_string_def)
  then show ?thesis using rest [OF verified(1) fresh(2)] rest [OF verified(2) fresh(1)] by (simp add: handleHello_def)
qed

text \<open>
  An ACK counts once, and only as the answer to a greeting: where an ACK changes anything, the
  device has sent a HELLO with that nonce on this conversation within the last five minutes, the
  signature is valid and the identity is the pinned one, if there is one. Afterwards that identity is pinned, and no
  further ACK on the conversation changes anything.
\<close>

theorem ack_answers_one_greeting:
  assumes "handleAck env c f hs \<noteq> hs"
  shows "ack_expected (le_now env) c f hs \<and> frame_verified env ''ACK'' f \<and>
    \<not> pin_conflict (hs_sync hs) c (hf_identityPub f) \<and>
    pinned_identity (hs_sync (handleAck env c f hs)) c = Some (hf_identityPub f) \<and>
    handleAck env' c g (handleAck env c f hs) = handleAck env c f hs"
proof -
  have h: "ack_expected (le_now env) c f hs" "frame_verified env ''ACK'' f"
      "\<not> pin_conflict (hs_sync hs) c (hf_identityPub f)"
    and new: "handleAck env c f hs = hs\<lparr>hs_pendingHello := AList.delete c (hs_pendingHello hs),
      hs_sync := fst (accept_peer env c f JUndef (hs_sync hs))\<rparr>"
    using ack_fields [of env c f hs] assms by auto
  have "pinned_identity (fst (accept_peer env c f JUndef (hs_sync hs))) c = Some (hf_identityPub f)"
    using pinned_peers [OF accept_peer_peers] by (simp add: pinned_set_peer)
  moreover have "\<not> ack_expected (le_now env') c g (handleAck env c f hs)"
    by (simp add: new ack_expected_def delete_conv')
  then have "handleAck env' c g (handleAck env c f hs) = handleAck env c f hs" by (simp add: handleAck_def)
  ultimately show ?thesis using h new by simp
qed

subsection \<open>Concrete inputs\<close>

text \<open>A peer with signing key k greets and answers; the peer of the demonstration state has the key 7.\<close>

definition demo_unsigned :: "bytes \<Rightarrow> hello_frame" where
  "demo_unsigned k = \<lparr>hf_deviceId = ''d'', hf_identityPub = encodeBase64Url k, hf_nonce = ''nonce-0123456789'',
     hf_sig = [], hf_caps = LOCAL_CAPS, hf_profile = JUndef\<rparr>"

definition demo_payload :: "bytes \<Rightarrow> string \<Rightarrow> json" where
  "demo_payload k t = JObj (legacy_fields t (demo_unsigned k) @ [(''caps'', LOCAL_CAPS)])"

definition demo_frame :: "bytes \<Rightarrow> string \<Rightarrow> hello_frame" where
  "demo_frame k t = (demo_unsigned k)\<lparr>hf_sig := encodeBase64Url (k @ canonicalBytes (demo_payload k t))\<rparr>"

definition demo_handshake :: handshake_state where
  "demo_handshake = \<lparr>hs_sync = demo_state, hs_pendingHello = [(''c'', (''nonce-0123456789'', 5))],
     hs_seenHello = [], hs_sent = []\<rparr>"

lemma demo_frame_simps [simp]:
  "hf_identityPub (demo_frame k t) = encodeBase64Url k" "hf_nonce (demo_frame k t) = ''nonce-0123456789''"
  "hf_deviceId (demo_frame k t) = ''d''" "hf_caps (demo_frame k t) = LOCAL_CAPS" "hf_profile (demo_frame k t) = JUndef"
  "legacy_fields t (demo_frame k t) = legacy_fields t (demo_unsigned k)"
  by (simp_all add: demo_frame_def demo_unsigned_def legacy_fields_def)

lemma demo_frame_verified:
  assumes "pf_verify (le_platform env) (k @ canonicalBytes (demo_payload k t)) (canonicalBytes (demo_payload k t)) k = Some True"
  shows "frame_verified env t (demo_frame k t)"
proof -
  have "nn LOCAL_CAPS JNull = LOCAL_CAPS" by (simp add: LOCAL_CAPS_def)
  moreover have "hf_sig (demo_frame k t) = encodeBase64Url (k @ canonicalBytes (demo_payload k t))" by (simp add: demo_frame_def)
  ultimately show ?thesis using assms
    by (simp add: frame_verified_def verifyHandshakeCompat_def verifyHandshake_def decode_encode demo_payload_def)
qed

lemma demo_env_verified: "frame_verified (demo_env tab) t (demo_frame k t)"
  by (rule demo_frame_verified) (simp add: demo_env_def text_platform_def open_platform_def)

lemma demo_pin: "pinned_identity demo_state ''c'' = Some (encodeBase64Url [7])" "encodeBase64Url [7] \<noteq> []"
proof -
  show "encodeBase64Url [7] \<noteq> []" by code_simp
qed (simp add: pinned_identity_def demo_state_def)

lemma demo_no_conflict: "\<not> pin_conflict demo_state ''c'' (encodeBase64Url [7])"
  by (simp add: pin_conflict_def demo_pin(1))

lemma demo_accepts: "hello_accepted (demo_env []) ''c'' (demo_frame [7] ''HELLO'') demo_handshake"
  by (simp add: hello_accepted_def demo_env_verified demo_no_conflict demo_handshake_def nonce_ok_def is_alnum_def
      is_lower_alnum_def is_digit_def live_nonces_def)

lemma demo_seen_ok: "seen_ok (hs_seenHello demo_handshake)"
  by (simp add: seen_ok_def demo_handshake_def)

theorem pinned_identity_survives_frames_witness:
  "pinned_identity (hs_sync (fold receive
     [(demo_env [], (\<lambda>_ _. 0), ''s'', ''c'', FrameHello (demo_frame [7] ''HELLO''\<lparr>hf_identityPub := ''other''\<rparr>))]
     demo_handshake)) ''c'' = Some (encodeBase64Url [7])"
  by (rule pinned_identity_survives_frames) (simp_all add: demo_handshake_def demo_pin)

theorem seen_nonces_bounded_witness:
  "seen_ok (hs_seenHello (fold receive
     [(demo_env [], (\<lambda>_ _. 0), ''s'', ''c'', FrameHello (demo_frame [7] ''HELLO''))] demo_handshake))"
  by (rule seen_nonces_bounded [OF demo_seen_ok])

theorem replayed_hello_does_nothing_witness:
  "let hs = handleHello (demo_env []) ''c'' (demo_frame [7] ''HELLO'') demo_handshake;
       again = handleHello (demo_env []) ''e'' (demo_frame [7] ''HELLO'') hs
   in again = hs \<or> again = hs\<lparr>hs_seenHello := live_nonces 7 (hs_seenHello hs)\<rparr>"
proof -
  let ?env = "demo_env []" and ?f = "demo_frame [7] ''HELLO''"
  have now: "le_now ?env = 7" by (simp add: demo_env_def)
  have "length ([] :: incoming list) < MAX_SEEN_HELLO_NONCES" "le_now ?env - le_now ?env \<le> HANDSHAKE_NONCE_TTL_MS"
    by (simp_all add: MAX_SEEN_HELLO_NONCES_def HANDSHAKE_NONCE_TTL_MS_def)
  from replayed_hello_does_nothing [OF demo_seen_ok demo_accepts this(1) _ this(2) refl, of "''e''"] now show ?thesis
    by (simp add: Let_def)
qed

theorem ack_answers_one_greeting_witness:
  "let hs = handleAck (demo_env []) ''c'' (demo_frame [7] ''ACK'') demo_handshake
   in hs \<noteq> demo_handshake \<and> handleAck (demo_env []) ''c'' (demo_frame [7] ''ACK'') hs = hs"
proof -
  let ?env = "demo_env []" and ?f = "demo_frame [7] ''ACK''"
  have "ack_expected (le_now ?env) ''c'' ?f demo_handshake"
    by (simp add: ack_expected_def demo_handshake_def demo_env_def HANDSHAKE_NONCE_TTL_MS_def)
  then have "hs_pendingHello (handleAck ?env ''c'' ?f demo_handshake) = []"
    using demo_no_conflict demo_env_verified [of "[]" "''ACK''" "[7]"] by (simp add: handleAck_def demo_handshake_def)
  then have changed: "handleAck ?env ''c'' ?f demo_handshake \<noteq> demo_handshake" by (auto simp: demo_handshake_def)
  from ack_answers_one_greeting [OF changed, of ?env ?f] changed show ?thesis by (simp add: Let_def)
qed

lemma demo_greetings:
  "hello_gate ''u'' (demo_frame k ''HELLO'') demo_handshake"
  by (simp add: hello_gate_def nonce_ok_def is_alnum_def is_lower_alnum_def is_digit_def pin_conflict_def
      pinned_identity_def demo_handshake_def demo_state_def truthy_string_def)

theorem concurrent_greetings_move_pin_witness:
  "let f = demo_frame [8] ''HELLO''; g = demo_frame [7] ''HELLO''; env = demo_env [];
       hs = hello_rest env ''u'' g demo_handshake
   in pinned_identity (hs_sync hs) ''u'' = Some (encodeBase64Url [7]) \<and>
     pinned_identity (hs_sync (hello_rest env ''u'' f hs)) ''u'' = Some (encodeBase64Url [8])"
proof -
  let ?f = "demo_frame [8] ''HELLO''" and ?g = "demo_frame [7] ''HELLO''" and ?env = "demo_env []"
  have keys: "encodeBase64Url [8] \<noteq> encodeBase64Url [7]" "encodeBase64Url [7] \<noteq> []" by code_simp+
  have rk: "replay_key ?f \<noteq> replay_key ?g"
    using keys(1) by (simp add: replay_key_def)
  have seen: "hs_seenHello (hello_rest ?env ''u'' ?g demo_handshake) = [(replay_key ?g, 7)]"
    using demo_env_verified [of "[]" "''HELLO''" "[7]"]
    by (simp add: hello_rest_def demo_handshake_def live_nonces_def remember_nonce_def MAX_SEEN_HELLO_NONCES_def
        demo_env_def Let_def split: prod.split)
  show ?thesis
    using concurrent_greetings_move_pin [of "''u''" ?f demo_handshake ?g ?env ?env]
      demo_env_verified [of "[]" "''HELLO''"] demo_greetings keys rk seen
    by (simp add: Let_def live_nonces_def demo_handshake_def)
qed

text \<open>A device whose peer signed one greeting.\<close>

definition strict_env :: local_env where
  "strict_env = demo_env []\<lparr>le_platform := open_platform\<lparr>pf_verify := (\<lambda>s m k.
     Some (s = k @ m \<and> m = canonicalBytes (demo_payload [7] ''HELLO'')))\<rparr>\<rparr>"

theorem handshake_frame_is_as_signed_witness:
  "frame_verified strict_env ''HELLO'' (demo_frame [7] ''HELLO'') \<and>
   (\<exists>g. (''HELLO'', g) \<in> set [(''HELLO'', demo_unsigned [7])] \<and> hf_identityPub g = encodeBase64Url [7] \<and>
     hf_deviceId g = ''d'' \<and> hf_nonce g = ''nonce-0123456789'') \<and>
   normalizePeerCaps (hf_caps (demo_frame [7] ''HELLO'')) = normalizePeerCaps LOCAL_CAPS"
proof -
  have v: "frame_verified strict_env ''HELLO'' (demo_frame [7] ''HELLO'')"
    by (rule demo_frame_verified) (simp add: strict_env_def)
  have "\<forall>s m. pf_verify (le_platform strict_env) s m [7] = Some True \<longrightarrow>
      (\<exists>(t, g) \<in> set [(''HELLO'', demo_unsigned [7])]. m = canonicalBytes (JObj (legacy_fields t g @ [(''caps'', LOCAL_CAPS)])))"
    by (simp add: strict_env_def demo_payload_def)
  from handshake_frame_is_as_signed [OF this _ _ v] v show ?thesis
    by (simp add: decode_encode LOCAL_CAPS_wf)
qed

end
