(* ===== verification/Friend_Protocol.thy ===== *)
theory Friend_Protocol
  imports Envelope_Box Friend_Code
begin

text \<open>
  The frames by which users ask for and answer friendship (src/src/friends/friendControlFrame.ts) and
  the protocol records they carry (src/src/net/friendProtocol): the handshake with the transcript of the
  frame, the contact exchange with the profile, and the key agreement, which binds the sender's
  friend code to the receiver's. A frame and its records are the JSON values that were built or
  parsed; reading a property of a missing record throws, which is a result of its own.
\<close>

subsection \<open>Frames\<close>

definition FRIEND_CONTROL_MAX_AGE_MS :: int where
  "FRIEND_CONTROL_MAX_AGE_MS = 7 * 24 * 60 * 60 * 1000"

definition FRIEND_CONTROL_MAX_FUTURE_SKEW_MS :: int where
  "FRIEND_CONTROL_MAX_FUTURE_SKEW_MS = 5 * 60 * 1000"

definition isFriendControlFrameFresh :: "json \<Rightarrow> int \<Rightarrow> bool" where
  "isFriendControlFrameFresh frame now = (case finite_num (field frame ''ts'') of
       None \<Rightarrow> False
     | Some ts \<Rightarrow> of_int (now - FRIEND_CONTROL_MAX_AGE_MS) \<le> ts \<and> ts \<le> of_int (now + FRIEND_CONTROL_MAX_FUTURE_SKEW_MS))"

definition nonblank :: "json \<Rightarrow> bool" where
  "nonblank v = (case str_of v of None \<Rightarrow> False | Some s \<Rightarrow> trim s \<noteq> [])"

definition isFriendControlFrame :: "json \<Rightarrow> bool" where
  "isFriendControlFrame v \<longleftrightarrow> is_object v \<and>
     field v ''type'' \<in> {JStr ''friend_req'', JStr ''friend_accept'', JStr ''friend_decline''} \<and>
     is_object (field v ''from'') \<and> nonblank (field (field v ''from'') ''identityPub'') \<and>
     nonblank (field (field v ''from'') ''dhPub'')"

definition stripFriendControlFrameSignature :: "json \<Rightarrow> json" where
  "stripFriendControlFrameSignature frame = (case frame of
       JObj kvs \<Rightarrow> JObj (filter (\<lambda>(k, v). k \<noteq> ''sig'') kvs)
     | _ \<Rightarrow> JObj [])"

definition signFriendControlFrame :: "platform \<Rightarrow> json \<Rightarrow> bytes \<Rightarrow> string" where
  "signFriendControlFrame pf frame identityPriv =
     encodeBase64Url (pf_sign pf (canonicalBytes (stripFriendControlFrameSignature frame)) identityPriv)"

definition str_bytes :: "json \<Rightarrow> bytes option" where
  "str_bytes v = Option.bind (str_of v) decodeBase64Url"

definition verifyFriendControlFrameSignature :: "platform \<Rightarrow> json \<Rightarrow> bool" where
  "verifyFriendControlFrameSignature pf frame \<longleftrightarrow>
     nonblank (field frame ''sig'') \<and> nonblank (field (field frame ''from'') ''identityPub'') \<and>
     (case (str_bytes (field frame ''sig''), str_bytes (field (field frame ''from'') ''identityPub'')) of
       (Some sig, Some verifyKey) \<Rightarrow>
         pf_verify pf sig (canonicalBytes (stripFriendControlFrameSignature frame)) verifyKey = Some True
     | _ \<Rightarrow> False)"

subsection \<open>Handshake record\<close>

datatype verify_result = Verified | Rejected string | VerifyThrows

text \<open>What a property access outside of a \<open>try\<close> does on a missing record.\<close>

definition missing :: "json \<Rightarrow> bool" where
  "missing v \<longleftrightarrow> v = JUndef \<or> v = JNull"

definition or_throw :: "'a option \<Rightarrow> ('a \<Rightarrow> verify_result) \<Rightarrow> verify_result" where
  "or_throw x f = (case x of None \<Rightarrow> VerifyThrows | Some a \<Rightarrow> f a)"

definition toTranscript :: "json \<Rightarrow> json" where
  "toTranscript frame = JObj [(''type'', field frame ''type''), (''convId'', nn (field frame ''convId'') (JStr [])),
     (''ts'', if finite_num (field frame ''ts'') \<noteq> None then field frame ''ts'' else JNum ''0''),
     (''from'', JObj [(''identityPub'', field (field frame ''from'') ''identityPub''),
        (''dhPub'', field (field frame ''from'') ''dhPub''),
        (''deviceId'', nn (field (field frame ''from'') ''deviceId'') (JStr []))])]"

definition hash_text :: "platform \<Rightarrow> json \<Rightarrow> string" where
  "hash_text pf v = encodeBase64Url (pf_generichash pf 32 (canonicalBytes v))"

definition buildHandshakeRecord :: "platform \<Rightarrow> json \<Rightarrow> bytes \<Rightarrow> json" where
  "buildHandshakeRecord pf frame identityPriv = JObj [(''v'', JNum ''1''),
     (''transcriptHash'', JStr (hash_text pf (toTranscript frame))),
     (''proofSig'', JStr (encodeBase64Url (pf_sign pf (canonicalBytes (toTranscript frame)) identityPriv)))]"

text \<open>The check of a signature inside a \<open>try\<close>.\<close>

definition check_sig :: "platform \<Rightarrow> json \<Rightarrow> json \<Rightarrow> bytes \<Rightarrow> string \<Rightarrow> string \<Rightarrow> verify_result" where
  "check_sig pf identityPub sig bs bad threw = (case (str_bytes identityPub, str_bytes sig) of
       (Some verifyKey, Some s) \<Rightarrow> (case pf_verify pf s bs verifyKey of
           None \<Rightarrow> Rejected threw
         | Some ok \<Rightarrow> if ok then Verified else Rejected bad)
     | _ \<Rightarrow> Rejected threw)"

definition verifyHandshakeRecord :: "platform \<Rightarrow> json \<Rightarrow> json \<Rightarrow> verify_result" where
  "verifyHandshakeRecord pf frame record =
     (if missing record then VerifyThrows
      else if field record ''v'' \<noteq> JNum ''1'' then Rejected ''handshake-version''
      else if field record ''transcriptHash'' \<noteq> JStr (hash_text pf (toTranscript frame))
      then Rejected ''handshake-transcript-hash''
      else check_sig pf (field (field frame ''from'') ''identityPub'') (field record ''proofSig'')
        (canonicalBytes (toTranscript frame)) ''handshake-proof-sig'' ''handshake-verify-error'')"

subsection \<open>Contact exchange record\<close>

definition toProfileRecord :: "json \<Rightarrow> json" where
  "toProfileRecord frame = (let p = field frame ''profile'' in
     JObj [(''displayName'', nn (field p ''displayName'') (JStr [])), (''status'', nn (field p ''status'') (JStr [])),
       (''avatarRef'', nn (field p ''avatarRef'') JNull),
       (''friendCode'', nn (field (field frame ''from'') ''friendCode'') (JStr []))])"

definition toKeyCommitmentRecord :: "json \<Rightarrow> json \<Rightarrow> json" where
  "toKeyCommitmentRecord frame transcriptHash =
     JObj [(''identityPub'', field (field frame ''from'') ''identityPub''), (''dhPub'', field (field frame ''from'') ''dhPub''),
       (''deviceId'', nn (field (field frame ''from'') ''deviceId'') (JStr [])), (''transcriptHash'', transcriptHash)]"

definition buildProfileHash :: "platform \<Rightarrow> json \<Rightarrow> json" where
  "buildProfileHash pf frame = JStr (hash_text pf (toProfileRecord frame))"

definition buildKeyCommitment :: "platform \<Rightarrow> json \<Rightarrow> json \<Rightarrow> json" where
  "buildKeyCommitment pf frame transcriptHash = JStr (hash_text pf (toKeyCommitmentRecord frame transcriptHash))"

definition contact_payload :: "json \<Rightarrow> json \<Rightarrow> json \<Rightarrow> json" where
  "contact_payload profileHash keyCommitment transcriptHash = JObj [(''profileHash'', profileHash),
     (''keyCommitment'', keyCommitment), (''transcriptHash'', transcriptHash)]"

definition buildContactExchangeRecord :: "platform \<Rightarrow> json \<Rightarrow> json \<Rightarrow> bytes \<Rightarrow> json" where
  "buildContactExchangeRecord pf frame handshake identityPriv =
     (let transcriptHash = field handshake ''transcriptHash'';
          profileHash = buildProfileHash pf frame;
          keyCommitment = buildKeyCommitment pf frame transcriptHash;
          signedPayload = canonicalBytes (contact_payload profileHash keyCommitment transcriptHash)
      in JObj [(''v'', JNum ''1''), (''profileHash'', profileHash), (''keyCommitment'', keyCommitment),
           (''profileSig'', JStr (encodeBase64Url (pf_sign pf signedPayload identityPriv)))])"

definition verifyContactExchangeRecord :: "platform \<Rightarrow> json \<Rightarrow> json \<Rightarrow> json \<Rightarrow> verify_result" where
  "verifyContactExchangeRecord pf frame handshake record =
     (let transcriptHash = field handshake ''transcriptHash'' in
      if missing record then VerifyThrows
      else if field record ''v'' \<noteq> JNum ''1'' then Rejected ''contact-version''
      else if field record ''profileHash'' \<noteq> buildProfileHash pf frame then Rejected ''contact-profile-hash''
      else if field record ''keyCommitment'' \<noteq> buildKeyCommitment pf frame transcriptHash
      then Rejected ''contact-key-commitment''
      else check_sig pf (field (field frame ''from'') ''identityPub'') (field record ''profileSig'')
        (canonicalBytes (contact_payload (field record ''profileHash'') (field record ''keyCommitment'') transcriptHash))
        ''contact-profile-sig'' ''contact-verify-error'')"

subsection \<open>Key agreement record\<close>

fun hex_digit :: "char \<Rightarrow> nat" where
  "hex_digit c = (let n = (of_char c :: nat) in if n < 58 then n - 48 else n - 87)"

fun bytesFromHex :: "string \<Rightarrow> bytes" where
  "bytesFromHex (a # b # s) = of_nat (16 * hex_digit a + hex_digit b) # bytesFromHex s"
| "bytesFromHex _ = []"

definition KEY_AGREEMENT_PROTOCOL_VERSION :: byte where
  "KEY_AGREEMENT_PROTOCOL_VERSION = 1"

definition COMMIT_LABEL :: bytes where
  "COMMIT_LABEL = bytesFromHex
     ''6f72672e627269617270726f6a6563742e6272616d626c652e6b657961677265656d656e742f434f4d4d4954''"

definition SHARED_SECRET_LABEL :: bytes where
  "SHARED_SECRET_LABEL = bytesFromHex
     ''6f72672e627269617270726f6a6563742e6272616d626c652e6b657961677265656d656e742f5348415245445f534543524554''"

definition MASTER_KEY_LABEL :: bytes where
  "MASTER_KEY_LABEL = bytesFromHex
     ''6f72672e627269617270726f6a6563742e6272616d626c652e6b657961677265656d656e742f4d41535445525f534543524554''"

definition CONFIRMATION_KEY_LABEL :: bytes where
  "CONFIRMATION_KEY_LABEL = bytesFromHex
     ''6f72672e627269617270726f6a6563742e6272616d626c652e6b657961677265656d656e742f434f4e4649524d4154494f4e5f4b4559''"

definition CONFIRMATION_MAC_LABEL :: bytes where
  "CONFIRMATION_MAC_LABEL = bytesFromHex
     ''6f72672e627269617270726f6a6563742e6272616d626c652e6b657961677265656d656e742f434f4e4649524d4154494f4e5f4d4143''"

text \<open>The keys and the id of the device that builds or verifies.\<close>

record friend_device =
  fd_platform :: platform
  fd_identityPub :: bytes
  fd_dhPub :: bytes
  fd_dhPriv :: bytes
  fd_deviceId :: string

record agreement_options =
  ao_pskHint :: "string option"
  ao_localDhPriv :: "bytes option"
  ao_localFriendCode :: "string option"
  ao_remoteFriendCode :: "string option"
  ao_remoteIdentityPub :: "string option"
  ao_remoteDhPub :: "string option"
  ao_remoteDeviceId :: "string option"
  ao_remoteOnionAddr :: "string option"

record resolved_peer =
  rp_identityPub :: string
  rp_dhPub :: string
  rp_deviceId :: "string option"
  rp_onionAddr :: "string option"

record code_payload =
  cp_commitment :: string
  cp_identityPub :: string
  cp_dhPub :: string
  cp_deviceId :: "string option"
  cp_onionAddr :: "string option"

definition parse_bytes :: "platform \<Rightarrow> bytes \<Rightarrow> json option" where
  "parse_bytes pf bs = pf_json_parse pf (pf_text_decode pf bs)"

definition toConfirmationPayload :: "json \<Rightarrow> json \<Rightarrow> string \<Rightarrow> json \<Rightarrow> json" where
  "toConfirmationPayload handshake contact nonce pskHint = JObj [(''transcriptHash'', field handshake ''transcriptHash''),
     (''profileHash'', field contact ''profileHash''), (''keyCommitment'', field contact ''keyCommitment''),
     (''nonce'', JStr nonce), (''pskHint'', nn pskHint (JStr []))]"

definition computeConfirmation :: "platform \<Rightarrow> json \<Rightarrow> json \<Rightarrow> string \<Rightarrow> json \<Rightarrow> string" where
  "computeConfirmation pf handshake contact nonce pskHint =
     hash_text pf (toConfirmationPayload handshake contact nonce pskHint)"

definition decodeFriendCode :: "platform \<Rightarrow> string option \<Rightarrow> friend_code option" where
  "decodeFriendCode pf code = (let s = trim (nullish code []) in
     if s = [] then None
     else (case decodeFriendCodeV1 (parse_bytes pf) s of Inl _ \<Rightarrow> None | Inr decoded \<Rightarrow> Some decoded))"

definition resolveLocalPeer :: "friend_device \<Rightarrow> string option \<Rightarrow> resolved_peer" where
  "resolveLocalPeer d localFriendCode = (case decodeFriendCode (fd_platform d) localFriendCode of
       None \<Rightarrow> \<lparr>rp_identityPub = encodeBase64Url (fd_identityPub d), rp_dhPub = encodeBase64Url (fd_dhPub d),
         rp_deviceId = Some (fd_deviceId d), rp_onionAddr = None\<rparr>
     | Some c \<Rightarrow> \<lparr>rp_identityPub = fc_identityPub c, rp_dhPub = fc_dhPub c,
         rp_deviceId = or_else (fc_deviceId c) (Some (fd_deviceId d)), rp_onionAddr = fc_onionAddr c\<rparr>)"

definition resolveRemotePeer :: "platform \<Rightarrow> agreement_options \<Rightarrow> resolved_peer option" where
  "resolveRemotePeer pf opts =
     (let fromCode = decodeFriendCode pf (ao_remoteFriendCode opts);
          identityPub = or_else (ao_remoteIdentityPub opts) (map_option fc_identityPub fromCode);
          dhPub = or_else (ao_remoteDhPub opts) (map_option fc_dhPub fromCode)
      in if \<not> truthy_string identityPub \<or> \<not> truthy_string dhPub then None
         else Some \<lparr>rp_identityPub = the identityPub, rp_dhPub = the dhPub,
           rp_deviceId = or_else (ao_remoteDeviceId opts) (Option.bind fromCode fc_deviceId),
           rp_onionAddr = or_else (ao_remoteOnionAddr opts) (Option.bind fromCode fc_onionAddr)\<rparr>)"

definition deriveCommitmentBytes :: "platform \<Rightarrow> string \<Rightarrow> bytes option" where
  "deriveCommitmentBytes pf dhPub =
     map_option (\<lambda>bs. take 16 (pf_generichash pf 32 (concatBytes [COMMIT_LABEL, bs]))) (decodeBase64Url dhPub)"

fun compareBytes :: "bytes \<Rightarrow> bytes \<Rightarrow> int" where
  "compareBytes [] [] = 0"
| "compareBytes [] (_ # _) = -1"
| "compareBytes (_ # _) [] = 1"
| "compareBytes (a # as) (b # bs) = (if a = b then compareBytes as bs else if a < b then -1 else 1)"

definition createPayload :: "platform \<Rightarrow> resolved_peer \<Rightarrow> code_payload option" where
  "createPayload pf peer = map_option (\<lambda>c. \<lparr>cp_commitment = encodeBase64Url c, cp_identityPub = rp_identityPub peer,
     cp_dhPub = rp_dhPub peer, cp_deviceId = rp_deviceId peer, cp_onionAddr = rp_onionAddr peer\<rparr>)
     (deriveCommitmentBytes pf (rp_dhPub peer))"

definition payload_json :: "code_payload \<Rightarrow> json" where
  "payload_json p = JObj [(''v'', JNum ''1''), (''commitment'', JStr (cp_commitment p)),
     (''identityPub'', JStr (cp_identityPub p)), (''dhPub'', JStr (cp_dhPub p)),
     (''deviceId'', opt_str (cp_deviceId p)), (''onionAddr'', opt_str (cp_onionAddr p))]"

definition encodeFriendCodePayload :: "code_payload \<Rightarrow> string" where
  "encodeFriendCodePayload p = encodeBase64Url (canonicalBytes (payload_json p))"

definition parseFriendCodePayload :: "platform \<Rightarrow> json \<Rightarrow> code_payload option" where
  "parseFriendCodePayload pf encoded = (case Option.bind (str_bytes encoded) (parse_bytes pf) of
       None \<Rightarrow> None
     | Some parsed \<Rightarrow>
         if field parsed ''v'' \<noteq> JNum ''1'' \<or> \<not> nonblank (field parsed ''commitment'') \<or>
            \<not> nonblank (field parsed ''identityPub'') \<or> \<not> nonblank (field parsed ''dhPub'') then None
         else Some \<lparr>cp_commitment = the (str_of (field parsed ''commitment'')),
           cp_identityPub = the (str_of (field parsed ''identityPub'')), cp_dhPub = the (str_of (field parsed ''dhPub'')),
           cp_deviceId = str_of (field parsed ''deviceId''), cp_onionAddr = str_of (field parsed ''onionAddr'')\<rparr>)"

datatype agreement_role = Alice | Bob

definition role_text :: "agreement_role \<Rightarrow> string" where
  "role_text r = (case r of Alice \<Rightarrow> ''alice'' | Bob \<Rightarrow> ''bob'')"

definition other_role :: "agreement_role \<Rightarrow> agreement_role" where
  "other_role r = (if r = Alice then Bob else Alice)"

definition resolveRole :: "code_payload \<Rightarrow> code_payload \<Rightarrow> agreement_role option" where
  "resolveRole localPayload remotePayload =
     (case (decodeBase64Url (cp_commitment localPayload), decodeBase64Url (cp_commitment remotePayload)) of
       (Some localCommit, Some remoteCommit) \<Rightarrow>
         let cmp = compareBytes localCommit remoteCommit
         in Some (if cmp < 0 then Alice else if 0 < cmp then Bob
            else if cp_identityPub localPayload < cp_identityPub remotePayload then Alice else Bob)
     | _ \<Rightarrow> None)"

definition deriveSharedSecret :: "platform \<Rightarrow> bytes \<Rightarrow> bytes \<Rightarrow> bytes \<Rightarrow> agreement_role \<Rightarrow> bytes option" where
  "deriveSharedSecret pf localDhPriv localDhPub remoteDhPub senderRole =
     map_option (\<lambda>shared. pf_generichash pf 32 (concatBytes [SHARED_SECRET_LABEL, shared,
       [KEY_AGREEMENT_PROTOCOL_VERSION],
       if senderRole = Alice then localDhPub else remoteDhPub,
       if senderRole = Alice then remoteDhPub else localDhPub]))
     (pf_scalarmult pf localDhPriv remoteDhPub)"

definition deriveConfirmationV1 ::
    "platform \<Rightarrow> bytes \<Rightarrow> code_payload \<Rightarrow> code_payload \<Rightarrow> bytes \<Rightarrow> bytes \<Rightarrow> agreement_role \<Rightarrow> agreement_role \<Rightarrow>
     bytes \<Rightarrow> string" where
  "deriveConfirmationV1 pf sharedSecret localPayload remotePayload localDhPub remoteDhPub localRole senderRole context =
     (let ck = pf_generichash pf 32 (concatBytes [CONFIRMATION_KEY_LABEL, sharedSecret]);
          localPayloadBytes = canonicalBytes (payload_json localPayload);
          remotePayloadBytes = canonicalBytes (payload_json remotePayload);
          alicePayload = (if localRole = Alice then localPayloadBytes else remotePayloadBytes);
          alicePub = (if localRole = Alice then localDhPub else remoteDhPub);
          bobPayload = (if localRole = Alice then remotePayloadBytes else localPayloadBytes);
          bobPub = (if localRole = Alice then remoteDhPub else localDhPub);
          ordered = (if senderRole = Alice then [alicePayload, alicePub, bobPayload, bobPub]
            else [bobPayload, bobPub, alicePayload, alicePub])
      in encodeBase64Url (pf_generichash pf 32 (concatBytes ([CONFIRMATION_MAC_LABEL, ck] @ ordered @ [context]))))"

definition deriveMasterKeyHint :: "platform \<Rightarrow> bytes \<Rightarrow> string" where
  "deriveMasterKeyHint pf sharedSecret =
     encodeBase64Url (take 12 (pf_generichash pf 32 (concatBytes [MASTER_KEY_LABEL, sharedSecret])))"

text \<open>Without the keys of the remote peer the record only repeats the hashes; with them it binds both friend codes. The
  operation throws, without a value, where a key cannot be decoded or multiplied.\<close>

definition buildKeyAgreementRecord ::
    "friend_device \<Rightarrow> json \<Rightarrow> json \<Rightarrow> agreement_options \<Rightarrow> string \<Rightarrow> json option" where
  "buildKeyAgreementRecord d handshake contact opts nonce =
     (let pf = fd_platform d;
          hint = trim (nullish (ao_pskHint opts) []);
          pskHint = opt_str (if hint = [] then None else Some hint)
      in case resolveRemotePeer pf opts of
           None \<Rightarrow> Some (JObj [(''v'', JNum ''1''), (''method'', JStr ''identity_dh''), (''nonce'', JStr nonce),
             (''confirmation'', JStr (computeConfirmation pf handshake contact nonce pskHint)), (''pskHint'', pskHint)])
         | Some remotePeer \<Rightarrow>
             let localPeer = resolveLocalPeer d (ao_localFriendCode opts) in
             Option.bind (createPayload pf localPeer) (\<lambda>localPayload.
             Option.bind (createPayload pf remotePeer) (\<lambda>remotePayload.
             Option.bind (resolveRole localPayload remotePayload) (\<lambda>localRole.
             Option.bind (decodeBase64Url (rp_dhPub localPeer)) (\<lambda>localDhPub.
             Option.bind (decodeBase64Url (rp_dhPub remotePeer)) (\<lambda>remoteDhPub.
             Option.bind (deriveSharedSecret pf (nullish (ao_localDhPriv opts) (fd_dhPriv d)) localDhPub remoteDhPub localRole)
               (\<lambda>sharedSecret. Some (JObj [(''v'', JNum ''1''), (''method'', JStr ''friend_code_oob_v1''), (''nonce'', JStr nonce),
                 (''confirmation'', JStr (deriveConfirmationV1 pf sharedSecret localPayload remotePayload localDhPub
                    remoteDhPub localRole localRole (canonicalBytes (toConfirmationPayload handshake contact nonce pskHint)))),
                 (''commitment'', JStr (cp_commitment localPayload)), (''payload'', JStr (encodeFriendCodePayload localPayload)),
                 (''role'', JStr (role_text localRole)), (''masterKeyHint'', JStr (deriveMasterKeyHint pf sharedSecret)),
                 (''pskHint'', pskHint)]))))))))"

definition verify_oob ::
    "friend_device \<Rightarrow> json \<Rightarrow> json \<Rightarrow> json \<Rightarrow> json \<Rightarrow> string option \<Rightarrow> bytes option \<Rightarrow> string \<Rightarrow> verify_result" where
  "verify_oob d frame handshake contact record localFriendCode localDhPriv nonce =
     (let pf = fd_platform d; from = field frame ''from'' in
      case parseFriendCodePayload pf (field record ''payload'') of
        None \<Rightarrow> Rejected ''key-agreement-payload-parse''
      | Some remotePayload \<Rightarrow>
          if JStr (cp_identityPub remotePayload) \<noteq> field from ''identityPub'' then Rejected ''key-agreement-identity-mismatch''
          else if JStr (cp_dhPub remotePayload) \<noteq> field from ''dhPub'' then Rejected ''key-agreement-dh-mismatch''
          else or_throw (deriveCommitmentBytes pf (cp_dhPub remotePayload)) (\<lambda>c.
            if field record ''commitment'' \<noteq> JStr (encodeBase64Url c) \<or> cp_commitment remotePayload \<noteq> encodeBase64Url c
            then Rejected ''key-agreement-commitment''
            else
              let localPeer = resolveLocalPeer d localFriendCode in
              or_throw (createPayload pf localPeer) (\<lambda>localPayload.
              or_throw (resolveRole localPayload remotePayload) (\<lambda>localRole.
                if field record ''role'' \<noteq> JStr (role_text (other_role localRole)) then Rejected ''key-agreement-role''
                else or_throw (decodeBase64Url (rp_dhPub localPeer)) (\<lambda>localDhPub.
                or_throw (decodeBase64Url (cp_dhPub remotePayload)) (\<lambda>remoteDhPub.
                or_throw (deriveSharedSecret pf (nullish localDhPriv (fd_dhPriv d)) localDhPub remoteDhPub localRole)
                (\<lambda>sharedSecret.
                  if field record ''confirmation'' \<noteq> JStr (deriveConfirmationV1 pf sharedSecret localPayload remotePayload
                       localDhPub remoteDhPub localRole (other_role localRole)
                       (canonicalBytes (toConfirmationPayload handshake contact nonce (field record ''pskHint''))))
                  then Rejected ''key-agreement-confirmation''
                  else if truthy (field record ''masterKeyHint'') \<and>
                     field record ''masterKeyHint'' \<noteq> JStr (deriveMasterKeyHint pf sharedSecret)
                  then Rejected ''key-agreement-master-key-hint'' else Verified)))))))"

definition verifyKeyAgreementRecord ::
    "friend_device \<Rightarrow> json \<Rightarrow> json \<Rightarrow> json \<Rightarrow> json \<Rightarrow> string option \<Rightarrow> bytes option \<Rightarrow> verify_result" where
  "verifyKeyAgreementRecord d frame handshake contact record localFriendCode localDhPriv =
     (if missing record then VerifyThrows
      else if field record ''v'' \<noteq> JNum ''1'' then Rejected ''key-agreement-version''
      else if missing (field record ''nonce'') then Rejected ''key-agreement-nonce''
      else or_throw (str_of (field record ''nonce'')) (\<lambda>s.
        let nonce = trim s in
        if nonce = [] then Rejected ''key-agreement-nonce''
        else if field record ''method'' = JStr ''identity_dh'' then
          (if field record ''confirmation'' \<noteq>
              JStr (computeConfirmation (fd_platform d) handshake contact nonce (field record ''pskHint''))
           then Rejected ''key-agreement-confirmation'' else Verified)
        else if field record ''method'' \<noteq> JStr ''friend_code_oob_v1'' then Rejected ''key-agreement-method''
        else if \<not> truthy (field record ''payload'') \<or> \<not> truthy (field record ''commitment'') \<or>
           \<not> truthy (field record ''role'') then Rejected ''key-agreement-payload-missing''
        else verify_oob d frame handshake contact record localFriendCode localDhPriv nonce))"

subsection \<open>The protocol of a frame\<close>

definition enrichFriendControlFrameWithProtocol ::
    "friend_device \<Rightarrow> json \<Rightarrow> bytes \<Rightarrow> agreement_options \<Rightarrow> string \<Rightarrow> json option" where
  "enrichFriendControlFrameWithProtocol d frame identityPriv opts nonce =
     (if truthy (field frame ''protocol'') then Some frame
      else
        let pf = fd_platform d;
            handshake = buildHandshakeRecord pf frame identityPriv;
            contactExchange = buildContactExchangeRecord pf frame handshake identityPriv
        in map_option (\<lambda>keyAgreement. spread frame [(''protocol'', JObj [(''v'', JNum ''1''),
             (''handshake'', handshake), (''contactExchange'', contactExchange), (''keyAgreement'', keyAgreement)])])
           (buildKeyAgreementRecord d handshake contactExchange opts nonce))"

definition check_friend_code :: "platform \<Rightarrow> json \<Rightarrow> verify_result" where
  "check_friend_code pf from =
     (if \<not> truthy (field from ''friendCode'') then Verified
      else or_throw (str_of (field from ''friendCode'')) (\<lambda>code.
        case decodeFriendCodeV1 (parse_bytes pf) code of
          Inl _ \<Rightarrow> Rejected ''friend-code-invalid''
        | Inr decoded \<Rightarrow>
            if JStr (fc_identityPub decoded) \<noteq> field from ''identityPub'' then Rejected ''friend-code-identity-mismatch''
            else if JStr (fc_dhPub decoded) \<noteq> field from ''dhPub'' then Rejected ''friend-code-dh-mismatch''
            else if truthy_string (fc_deviceId decoded) \<and> truthy (field from ''deviceId'') \<and>
               JStr (the (fc_deviceId decoded)) \<noteq> field from ''deviceId'' then Rejected ''friend-code-device-mismatch''
            else Verified))"

definition and_then :: "verify_result \<Rightarrow> verify_result \<Rightarrow> verify_result" where
  "and_then r s = (if r = Verified then s else r)"

text \<open>The result tells whether the frame passes; a frame without protocol passes when its code does.\<close>

definition verifyFriendControlFrameProtocol ::
    "friend_device \<Rightarrow> json \<Rightarrow> string option \<Rightarrow> bytes option \<Rightarrow> verify_result" where
  "verifyFriendControlFrameProtocol d frame localFriendCode localDhPriv =
     (let pf = fd_platform d; protocol = field frame ''protocol''; handshake = field protocol ''handshake'';
          contact = field protocol ''contactExchange''
      in and_then (check_friend_code pf (field frame ''from''))
           (if \<not> truthy protocol then Verified
            else if field protocol ''v'' \<noteq> JNum ''1'' then Rejected ''protocol-version''
            else and_then (verifyHandshakeRecord pf frame handshake)
              (and_then (verifyContactExchangeRecord pf frame handshake contact)
                (verifyKeyAgreementRecord d frame handshake contact (field protocol ''keyAgreement'') localFriendCode localDhPriv))))"

subsection \<open>The two sides of a key agreement\<close>

lemma compareBytes_swap: "compareBytes b a = - compareBytes a b"
  by (induction a b rule: compareBytes.induct) auto

lemma other_role_simps [simp]: "other_role Alice = Bob" "other_role Bob = Alice" "other_role (other_role r) = r"
  by (cases r; simp add: other_role_def)+

lemma resolveRole_other:
  assumes "resolveRole p q = Some r" "cp_identityPub p \<noteq> cp_identityPub q"
  shows "resolveRole q p = Some (other_role r)"
proof -
  obtain a b where ab: "decodeBase64Url (cp_commitment p) = Some a" "decodeBase64Url (cp_commitment q) = Some b"
    using assms(1) by (auto simp: resolveRole_def split: option.splits)
  show ?thesis
  proof (cases "compareBytes a b = 0")
    case True
    then show ?thesis using assms ab compareBytes_swap [of a b]
      by (auto simp: resolveRole_def Let_def split: if_splits)
  next
    case False
    then show ?thesis using assms(1) ab compareBytes_swap [of a b]
      by (auto simp: resolveRole_def Let_def split: if_splits)
  qed
qed

lemma deriveSharedSecret_both:
  assumes "pf_scalarmult pf privA pubB = Some s" "pf_scalarmult pf privB pubA = Some s"
  shows "deriveSharedSecret pf privB pubB pubA (other_role r) = deriveSharedSecret pf privA pubA pubB r"
  using assms by (cases r) (simp_all add: deriveSharedSecret_def)

lemma deriveConfirmationV1_both:
  "deriveConfirmationV1 pf s q p pubB pubA (other_role r) r ctx = deriveConfirmationV1 pf s p q pubA pubB r r ctx"
  by (cases r) (simp_all add: deriveConfirmationV1_def Let_def)

lemma nonblank_encoded: "bs \<noteq> [] \<Longrightarrow> nonblank (JStr (encodeBase64Url bs))"
  using encode_nonempty trim_url_safe [OF encode_safe] by (simp add: nonblank_def)

lemma str_bytes_encoded [simp]: "str_bytes (JStr (encodeBase64Url bs)) = Some bs"
  by (simp add: str_bytes_def decode_encode)

lemma payload_parsed:
  assumes parse: "parse_bytes pf (canonicalBytes (payload_json p)) = Some w"
    and sem: "meaning w = meaning (payload_json p)" "wf_json w"
    and ok: "nonblank (JStr (cp_commitment p))" "nonblank (JStr (cp_identityPub p))" "nonblank (JStr (cp_dhPub p))"
  shows "parseFriendCodePayload pf (JStr (encodeFriendCodePayload p)) = Some p"
proof -
  note leaf = parsed_leaf [OF sem(1) [unfolded payload_json_def] sem(2)]
  have v: "field w ''v'' = JNum ''1''" "field w ''commitment'' = JStr (cp_commitment p)"
    "field w ''identityPub'' = JStr (cp_identityPub p)" "field w ''dhPub'' = JStr (cp_dhPub p)"
    by (rule leaf; simp)+
  have dev: "field w ''deviceId'' = opt_str (cp_deviceId p)"
    by (cases "cp_deviceId p") (simp_all add: leaf opt_str_def)
  have onion: "field w ''onionAddr'' = opt_str (cp_onionAddr p)"
    by (cases "cp_onionAddr p") (simp_all add: leaf opt_str_def)
  have o: "str_of (opt_str x) = x" for x by (cases x) (simp_all add: opt_str_def)
  show ?thesis
    using parse ok by (cases p) (simp add: parseFriendCodePayload_def encodeFriendCodePayload_def v dev onion o)
qed

text \<open>What the two devices have to know of one another.\<close>

definition linked ::
    "platform \<Rightarrow> friend_device \<Rightarrow> friend_device \<Rightarrow> agreement_options \<Rightarrow> string option \<Rightarrow> bool" where
  "linked pf A B opts code \<longleftrightarrow>
     (let la = resolveLocalPeer A (ao_localFriendCode opts); lb = resolveLocalPeer B code in
      fd_platform A = pf \<and> fd_platform B = pf \<and>
      resolveRemotePeer pf opts = Some lb \<and> rp_identityPub la \<noteq> rp_identityPub lb \<and>
      nonblank (JStr (rp_identityPub la)) \<and> nonblank (JStr (rp_dhPub la)) \<and>
      (\<exists>ga gb s. decodeBase64Url (rp_dhPub la) = Some ga \<and> decodeBase64Url (rp_dhPub lb) = Some gb \<and>
         pf_scalarmult pf (nullish (ao_localDhPriv opts) (fd_dhPriv A)) gb = Some s \<and>
         pf_scalarmult pf (fd_dhPriv B) ga = Some s) \<and>
      (\<forall>m. length (pf_generichash pf 32 m) = 32) \<and>
      (\<forall>p. createPayload pf la = Some p \<longrightarrow>
         (\<exists>w. parse_bytes pf (canonicalBytes (payload_json p)) = Some w \<and> wf_json w \<and> meaning w = meaning (payload_json p))))"

lemma key_agreement_verifies:
  assumes link: "linked pf A B opts code"
    and keys: "field (field frame ''from'') ''identityPub'' = JStr (rp_identityPub (resolveLocalPeer A (ao_localFriendCode opts)))"
      "field (field frame ''from'') ''dhPub'' = JStr (rp_dhPub (resolveLocalPeer A (ao_localFriendCode opts)))"
    and nonce: "trim nonce = nonce" "nonce \<noteq> []"
  shows "\<exists>ag. buildKeyAgreementRecord A handshake contact opts nonce = Some ag \<and>
    verifyKeyAgreementRecord B frame handshake contact ag code None = Verified"
proof -
  define la where "la = resolveLocalPeer A (ao_localFriendCode opts)"
  define lb where "lb = resolveLocalPeer B code"
  note link' = link [unfolded linked_def Let_def, folded la_def lb_def]
  obtain ga gb s where dh: "decodeBase64Url (rp_dhPub la) = Some ga" "decodeBase64Url (rp_dhPub lb) = Some gb"
      "pf_scalarmult pf (nullish (ao_localDhPriv opts) (fd_dhPriv A)) gb = Some s"
      "pf_scalarmult pf (fd_dhPriv B) ga = Some s"
    using link' by blast
  define commit where "commit g = take 16 (pf_generichash pf 32 (concatBytes [COMMIT_LABEL, g]))" for g
  define pay where "pay peer g = \<lparr>cp_commitment = encodeBase64Url (commit g), cp_identityPub = rp_identityPub peer,
      cp_dhPub = rp_dhPub peer, cp_deviceId = rp_deviceId peer, cp_onionAddr = rp_onionAddr peer\<rparr>" for peer :: resolved_peer and g
  have p: "createPayload pf la = Some (pay la ga)" "createPayload pf lb = Some (pay lb gb)"
    by (simp_all add: createPayload_def deriveCommitmentBytes_def dh pay_def commit_def)
  obtain r where r: "resolveRole (pay la ga) (pay lb gb) = Some r"
    by (simp add: resolveRole_def pay_def decode_encode Let_def)
  have r': "resolveRole (pay lb gb) (pay la ga) = Some (other_role r)"
    by (rule resolveRole_other [OF r]) (use link' in \<open>simp add: pay_def\<close>)
  obtain secret where sec: "deriveSharedSecret pf (nullish (ao_localDhPriv opts) (fd_dhPriv A)) ga gb r = Some secret"
    by (simp add: deriveSharedSecret_def dh)
  have sec': "deriveSharedSecret pf (fd_dhPriv B) gb ga (other_role r) = Some secret"
    using deriveSharedSecret_both [OF dh(3,4)] sec by simp
  have "commit ga \<noteq> []" using link' by (simp add: commit_def) (metis list.size(3) zero_neq_numeral)
  then have parsed: "parseFriendCodePayload pf (JStr (encodeFriendCodePayload (pay la ga))) = Some (pay la ga)"
    using link' p(1) by (auto intro!: payload_parsed simp: pay_def nonblank_encoded)
  have ne: "encodeFriendCodePayload (pay la ga) \<noteq> []" "encodeBase64Url (commit ga) \<noteq> []"
    using \<open>commit ga \<noteq> []\<close> encode_nonempty canonical_obj_nonempty
    by (simp_all add: encodeFriendCodePayload_def payload_json_def)
  define hint where "hint = opt_str (if trim (nullish (ao_pskHint opts) []) = [] then None
      else Some (trim (nullish (ao_pskHint opts) [])))"
  define ag where "ag = JObj [(''v'', JNum ''1''), (''method'', JStr ''friend_code_oob_v1''), (''nonce'', JStr nonce),
      (''confirmation'', JStr (deriveConfirmationV1 pf secret (pay la ga) (pay lb gb) ga gb r r
         (canonicalBytes (toConfirmationPayload handshake contact nonce hint)))),
      (''commitment'', JStr (encodeBase64Url (commit ga))), (''payload'', JStr (encodeFriendCodePayload (pay la ga))),
      (''role'', JStr (role_text r)), (''masterKeyHint'', JStr (deriveMasterKeyHint pf secret)), (''pskHint'', hint)]"
  have "buildKeyAgreementRecord A handshake contact opts nonce = Some ag"
    using link' p r sec dh by (simp add: buildKeyAgreementRecord_def Let_def la_def [symmetric] hint_def ag_def) (simp add: pay_def)
  moreover have "verifyKeyAgreementRecord B frame handshake contact ag code None = Verified"
  proof -
    have commit: "deriveCommitmentBytes pf (rp_dhPub la) = Some (commit ga)"
      by (simp add: deriveCommitmentBytes_def dh commit_def)
    have "role_text r \<noteq> []" by (cases r) (simp_all add: role_text_def)
    then show ?thesis
      using link' p r' sec' dh parsed ne nonce keys
      by (simp add: verifyKeyAgreementRecord_def verify_oob_def ag_def missing_def or_throw_def lb_def [symmetric]
          la_def [symmetric] commit Let_def deriveConfirmationV1_both) (simp add: pay_def or_throw_def commit deriveConfirmationV1_both)
  qed
  ultimately show ?thesis by blast
qed

subsection \<open>Frames of an honest sender, and what an accepted frame proves\<close>

lemma same_records:
  assumes "\<forall>k \<in> {''type'', ''convId'', ''ts'', ''from'', ''profile''}. field g k = field f k"
  shows "toTranscript g = toTranscript f" "toProfileRecord g = toProfileRecord f"
    "toKeyCommitmentRecord g h = toKeyCommitmentRecord f h"
  using assms by (simp_all add: toTranscript_def toProfileRecord_def toKeyCommitmentRecord_def)

lemma check_sig_honest:
  assumes "pf_verify pf (pf_sign pf bs priv) bs pub = Some True"
  shows "check_sig pf (JStr (encodeBase64Url pub)) (JStr (encodeBase64Url (pf_sign pf bs priv))) bs bad threw = Verified"
  using assms by (simp add: check_sig_def)

lemma records_verify:
  assumes sign: "\<forall>m. pf_verify pf (pf_sign pf m priv) m pub = Some True"
    and same: "\<forall>k \<in> {''type'', ''convId'', ''ts'', ''from'', ''profile''}. field g k = field f k"
    and key: "field (field f ''from'') ''identityPub'' = JStr (encodeBase64Url pub)"
  defines "h \<equiv> buildHandshakeRecord pf f priv"
  shows "verifyHandshakeRecord pf g h = Verified"
    "verifyContactExchangeRecord pf g h (buildContactExchangeRecord pf f h priv) = Verified"
proof -
  have key': "field (field g ''from'') ''identityPub'' = JStr (encodeBase64Url pub)" using same key by simp
  have honest: "check_sig pf (JStr (encodeBase64Url pub)) (JStr (encodeBase64Url (pf_sign pf bs priv))) bs bad threw = Verified"
    for bs bad threw using check_sig_honest sign by blast
  note eqs = same_records [OF same]
  show "verifyHandshakeRecord pf g h = Verified"
    by (simp add: verifyHandshakeRecord_def h_def buildHandshakeRecord_def missing_def eqs key' honest)
  show "verifyContactExchangeRecord pf g h (buildContactExchangeRecord pf f h priv) = Verified"
    by (simp add: verifyContactExchangeRecord_def h_def buildHandshakeRecord_def buildContactExchangeRecord_def missing_def
        Let_def buildProfileHash_def buildKeyCommitment_def eqs key' honest)
qed

lemma filter_with_field: "filter (\<lambda>(l, v). l \<noteq> k) (with_field kvs k x) = filter (\<lambda>(l, v). l \<noteq> k) kvs"
  by (induction kvs k x rule: with_field.induct) auto

lemma strip_signed: "stripFriendControlFrameSignature (spread (JObj kvs) [(''sig'', x)]) = stripFriendControlFrameSignature (JObj kvs)"
  by (simp add: stripFriendControlFrameSignature_def filter_with_field)

text \<open>
  A friend request or answer of an honest sender is accepted: where sender and receiver know of
  one another what their codes say, have different identities, and agree on the shared secret, the
  frame the sender enriches with the protocol records and signs passes the receiver's check of the
  signature and of all records, the key agreement over both friend codes included.
\<close>

theorem honest_friend_frame_accepted:
  assumes link: "linked pf A B opts code"
    and frame: "frame = JObj kvs" "\<not> truthy (field frame ''protocol'')"
    and own_code: "rp_identityPub (resolveLocalPeer A (ao_localFriendCode opts)) = encodeBase64Url pub" "pub \<noteq> []"
      "check_friend_code pf (field frame ''from'') = Verified"
    and keys: "field (field frame ''from'') ''identityPub'' = JStr (encodeBase64Url pub)"
      "field (field frame ''from'') ''dhPub'' = JStr (rp_dhPub (resolveLocalPeer A (ao_localFriendCode opts)))"
    and sign: "\<forall>m. pf_sign pf m priv \<noteq> [] \<and> pf_verify pf (pf_sign pf m priv) m pub = Some True"
    and nonce: "trim nonce = nonce" "nonce \<noteq> []"
  shows "\<exists>e. enrichFriendControlFrameWithProtocol A frame priv opts nonce = Some e \<and>
    (let signed = spread e [(''sig'', JStr (signFriendControlFrame pf e priv))]
     in verifyFriendControlFrameSignature pf signed \<and> verifyFriendControlFrameProtocol B signed code None = Verified)"
proof -
  let ?h = "buildHandshakeRecord pf frame priv"
  let ?c = "buildContactExchangeRecord pf frame ?h priv"
  have pf: "fd_platform A = pf" "fd_platform B = pf" using link by (simp_all add: linked_def Let_def)
  define from' where "from' = field frame ''from''"
  obtain ag where ag: "buildKeyAgreementRecord A ?h ?c opts nonce = Some ag"
    using key_agreement_verifies [OF link _ keys(2) nonce] keys(1) own_code(1) by (metis (no_types, lifting))
  define e where "e = spread frame [(''protocol'', JObj [(''v'', JNum ''1''), (''handshake'', ?h), (''contactExchange'', ?c),
      (''keyAgreement'', ag)])]"
  define signed where "signed = spread e [(''sig'', JStr (signFriendControlFrame pf e priv))]"
  have enriched: "enrichFriendControlFrameWithProtocol A frame priv opts nonce = Some e"
    using frame(2) ag by (simp add: enrichFriendControlFrameWithProtocol_def pf Let_def e_def)
  have same: "\<forall>k \<in> {''type'', ''convId'', ''ts'', ''from'', ''profile''}. field signed k = field frame k"
    by (simp add: signed_def e_def field_spread)
  have from_signed: "field signed ''from'' = field frame ''from''" using same by simp
  have e_obj: "\<exists>ls. e = JObj ls" unfolding e_def frame(1) by simp
  have sig: "field signed ''sig'' = JStr (signFriendControlFrame pf e priv)"
    by (simp add: signed_def field_spread)
  have prot: "field signed ''protocol'' = JObj [(''v'', JNum ''1''), (''handshake'', ?h), (''contactExchange'', ?c),
      (''keyAgreement'', ag)]"
    by (simp add: signed_def e_def field_spread)
  have strip: "stripFriendControlFrameSignature signed = stripFriendControlFrameSignature e"
    using e_obj strip_signed by (auto simp: signed_def)
  have "verifyFriendControlFrameSignature pf signed"
    using sign own_code(2) keys(1)
    by (simp add: verifyFriendControlFrameSignature_def sig strip signFriendControlFrame_def nonblank_encoded from_signed)
  moreover have "verifyKeyAgreementRecord B signed ?h ?c ag code None = Verified"
    using key_agreement_verifies [OF link _ _ nonce, of signed ?h ?c] keys own_code(1) ag from_signed by simp
  then have "verifyFriendControlFrameProtocol B signed code None = Verified"
    using records_verify [OF _ same keys(1), where priv = priv] sign own_code(3)
    by (simp add: verifyFriendControlFrameProtocol_def Let_def pf prot from_signed and_then_def)
  ultimately show ?thesis using enriched unfolding signed_def Let_def by blast
qed

text \<open>The types of friend frames.\<close>

definition friend_types :: "json set" where
  "friend_types = {JStr ''friend_req'', JStr ''friend_accept'', JStr ''friend_decline''}"

text \<open>
  A friend frame that passes the signature check is one of two things its sender signed.
  Suppose a signature is valid under the sender's identity key only for what the program signs with
  that key: the payloads of friend frames, the transcripts in their handshake records, other objects (the
  records of the contact exchange, handshake frames, control messages, approvals, trust payloads), none of
  which has the type of a friend frame, and envelopes, header, nonce and ciphertext. Then the frame is, but for
  its signature field, a frame payload the sender signed or the bare transcript of one.
\<close>

theorem signed_friend_frame_is_genuine:
  assumes unforgeable: "\<forall>s m. pf_verify pf s m key = Some True \<longrightarrow>
      (\<exists>v \<in> set frames. m = canonicalBytes v) \<or> (\<exists>f \<in> set shaken. m = canonicalBytes (toTranscript f)) \<or>
      (\<exists>obj \<in> set others. m = canonicalBytes (JObj obj) \<or> m = encode_utf8 (stringify (JObj obj))) \<or>
      (\<exists>(obj, nonce, ciphertext) \<in> set sealed. m = canonicalBytes (JObj obj) @ nonce @ ciphertext)"
    and frames: "\<forall>v \<in> set frames. wf_json v \<and> v \<noteq> JUndef" and shaken: "\<forall>f \<in> set shaken. wf_json (toTranscript f)"
    and others: "\<forall>obj \<in> set others. wf_json (JObj obj) \<and> field (JObj obj) ''type'' \<notin> friend_types"
    and sealed: "\<forall>(obj, nonce, ciphertext) \<in> set sealed. wf_json (JObj obj) \<and> length nonce = 24"
    and key: "str_bytes (field (field frame ''from'') ''identityPub'') = Some key"
    and frame: "frame = JObj kvs" "wf_json frame" "field frame ''type'' \<in> friend_types"
    and verified: "verifyFriendControlFrameSignature pf frame"
  shows "(\<exists>v \<in> set frames. \<forall>k. k \<noteq> ''sig'' \<longrightarrow> meaning (field frame k) = meaning (field v k)) \<or>
    (\<exists>f \<in> set shaken. \<forall>k. k \<noteq> ''sig'' \<longrightarrow> meaning (field frame k) = meaning (field (toTranscript f) k))"
proof -
  let ?s = "stripFriendControlFrameSignature frame"
  define ss where "ss = filter (\<lambda>(k, v). k \<noteq> ''sig'') kvs"
  have s: "?s = JObj ss" by (simp add: frame(1) stripFriendControlFrameSignature_def ss_def)
  have wf: "wf_json (JObj ss)" using frame unfolding ss_def by (simp add: distinct_map_filter list_all_iff)
  have "map_of ss k = map_of kvs k" if "k \<noteq> ''sig''" for k
    using that unfolding ss_def by (induction kvs) auto
  then have rest: "field (JObj ss) k = field frame k" if "k \<noteq> ''sig''" for k
    using that unfolding frame(1) by (simp add: field_def)
  have fields: "\<forall>k. k \<noteq> ''sig'' \<longrightarrow> meaning (field frame k) = meaning (field v k)"
    if "meaning (JObj ss) = meaning v" "wf_json v" for v
    using field_meaning [OF wf that(2,1)] rest by metis
  obtain sig where "pf_verify pf sig (canonicalBytes (JObj ss)) key = Some True"
    using verified key unfolding s [symmetric] by (auto simp: verifyFriendControlFrameSignature_def split: option.splits)
  from unforgeable [rule_format, OF this] show ?thesis
  proof (elim disjE)
    assume "\<exists>v \<in> set frames. canonicalBytes (JObj ss) = canonicalBytes v"
    then obtain v where v: "v \<in> set frames" "canonicalBytes (JObj ss) = canonicalBytes v" by blast
    then have "meaning (JObj ss) = meaning v" using canonicalBytes_eq_iff [OF wf] frames by auto
    then show ?thesis using fields frames v(1) by blast
  next
    assume "\<exists>f \<in> set shaken. canonicalBytes (JObj ss) = canonicalBytes (toTranscript f)"
    then obtain f where f: "f \<in> set shaken" "canonicalBytes (JObj ss) = canonicalBytes (toTranscript f)" by blast
    have "wf_json (toTranscript f)" using shaken f(1) by blast
    moreover have "toTranscript f \<noteq> JUndef" by (simp add: toTranscript_def)
    ultimately have "meaning (JObj ss) = meaning (toTranscript f)" using canonicalBytes_eq_iff [OF wf] f(2) by auto
    then show ?thesis using fields shaken f(1) by blast
  next
    assume "\<exists>obj \<in> set others. canonicalBytes (JObj ss) = canonicalBytes (JObj obj) \<or>
        canonicalBytes (JObj ss) = encode_utf8 (stringify (JObj obj))"
    then obtain obj where obj: "obj \<in> set others" "canonicalBytes (JObj ss) = canonicalBytes (JObj obj) \<or>
        canonicalBytes (JObj ss) = encode_utf8 (stringify (JObj obj))" by blast
    have o: "wf_json (JObj obj)" "field (JObj obj) ''type'' \<notin> friend_types" using others obj(1) by blast+
    have "meaning (JObj ss) = meaning (JObj obj)"
      using canonicalBytes_prefix [OF wf o(1), of "[]" "[]"] canonicalBytes_text_prefix [OF wf o(1), of "[]" "[]"] obj(2)
      unfolding append_Nil2 by blast
    then have "meaning (field frame ''type'') = meaning (field (JObj obj) ''type'')"
      by (rule fields [OF _ o(1), rule_format]) simp
    moreover obtain t where "field frame ''type'' = JStr t" using frame(3) by (auto simp: friend_types_def)
    ultimately have "field (JObj obj) ''type'' = field frame ''type''" using meaning_string by metis
    then show ?thesis using o(2) frame(3) by simp
  next
    assume "\<exists>(obj, nonce, ciphertext) \<in> set sealed. canonicalBytes (JObj ss) = canonicalBytes (JObj obj) @ nonce @ ciphertext"
    then obtain obj nonce ciphertext where e: "(obj, nonce, ciphertext) \<in> set sealed"
      "canonicalBytes (JObj ss) @ [] = canonicalBytes (JObj obj) @ nonce @ ciphertext" by auto
    have "wf_json (JObj obj)" "length nonce = 24" using sealed e(1) by blast+
    then show ?thesis using canonicalBytes_prefix [OF wf _ e(2)] by auto
  qed
qed

text \<open>
  The other of the two happens: whoever has seen a friend frame with its records can cut it down
  to its transcript and sign it with the proof of the handshake record. The result has no profile, no
  friend code and no records, and it passes the checks.
\<close>

definition bare_frame :: "json \<Rightarrow> json \<Rightarrow> json" where
  "bare_frame f record = (case toTranscript f of
       JObj kvs \<Rightarrow> JObj (kvs @ [(''sig'', field record ''proofSig'')]) | v \<Rightarrow> v)"

lemma strip_bare_frame: "stripFriendControlFrameSignature (bare_frame f record) = toTranscript f"
  by (simp add: bare_frame_def toTranscript_def stripFriendControlFrameSignature_def)

lemma bare_frame_fields:
  "field (bare_frame f record) ''type'' = field f ''type''"
  "field (bare_frame f record) ''sig'' = field record ''proofSig''"
  "field (bare_frame f record) ''profile'' = JUndef" "field (bare_frame f record) ''protocol'' = JUndef"
  "field (field (bare_frame f record) ''from'') ''identityPub'' = field (field f ''from'') ''identityPub''"
  "field (field (bare_frame f record) ''from'') ''dhPub'' = field (field f ''from'') ''dhPub''"
  "field (field (bare_frame f record) ''from'') ''friendCode'' = JUndef"
  "is_object (bare_frame f record)" "is_object (field (bare_frame f record) ''from'')"
  by (simp_all add: bare_frame_def toTranscript_def)

theorem stripped_frame_is_accepted:
  assumes f: "isFriendControlFrame f" "str_bytes (field (field f ''from'') ''identityPub'') = Some key"
    and sign: "\<forall>m. pf_sign pf m priv \<noteq> [] \<and> pf_verify pf (pf_sign pf m priv) m key = Some True"
    and stripped: "stripped = bare_frame f (buildHandshakeRecord pf f priv)"
  shows "isFriendControlFrame stripped \<and> verifyFriendControlFrameSignature pf stripped \<and>
    field stripped ''profile'' = JUndef \<and> field stripped ''protocol'' = JUndef \<and>
    field (field stripped ''from'') ''friendCode'' = JUndef"
proof -
  have "field stripped ''sig'' = JStr (encodeBase64Url (pf_sign pf (canonicalBytes (toTranscript f)) priv))"
    by (simp add: stripped bare_frame_fields buildHandshakeRecord_def)
  then have "verifyFriendControlFrameSignature pf stripped"
    using f sign by (simp add: verifyFriendControlFrameSignature_def nonblank_encoded isFriendControlFrame_def)
      (simp add: stripped strip_bare_frame bare_frame_fields)
  then show ?thesis using f(1) by (simp add: isFriendControlFrame_def stripped bare_frame_fields)
qed

subsection \<open>Concrete inputs\<close>

text \<open>Two devices on a platform that hides nothing and whose hash fills up to the length asked for.\<close>

definition pad_hash :: "nat \<Rightarrow> bytes \<Rightarrow> bytes" where
  "pad_hash n m = take n (m @ replicate n 0)"

definition demo_code_payload :: code_payload where
  "demo_code_payload = \<lparr>cp_commitment = encodeBase64Url (take 16 (pad_hash 32 (concatBytes [COMMIT_LABEL, [2]]))),
     cp_identityPub = encodeBase64Url [1], cp_dhPub = encodeBase64Url [2], cp_deviceId = Some ''a'', cp_onionAddr = None\<rparr>"

definition demo_link_platform :: platform where
  "demo_link_platform = open_platform\<lparr>pf_generichash := pad_hash, pf_json_parse := (\<lambda>_. Some (payload_json demo_code_payload))\<rparr>"

definition demo_device :: "bytes \<Rightarrow> bytes \<Rightarrow> string \<Rightarrow> friend_device" where
  "demo_device identity dh i = \<lparr>fd_platform = demo_link_platform, fd_identityPub = identity, fd_dhPub = dh, fd_dhPriv = dh,
     fd_deviceId = i\<rparr>"

definition demo_options :: agreement_options where
  "demo_options = \<lparr>ao_pskHint = None, ao_localDhPriv = None, ao_localFriendCode = None, ao_remoteFriendCode = None,
     ao_remoteIdentityPub = Some (encodeBase64Url [3]), ao_remoteDhPub = Some (encodeBase64Url [4]),
     ao_remoteDeviceId = Some ''b'', ao_remoteOnionAddr = None\<rparr>"

definition demo_request_fields :: "(string \<times> json) list" where
  "demo_request_fields = [(''type'', JStr ''friend_req''), (''from'', JObj [(''identityPub'', JStr (encodeBase64Url [1])),
     (''dhPub'', JStr (encodeBase64Url [2])), (''deviceId'', JStr ''a'')]), (''ts'', JNum ''5'')]"

lemma demo_keys_nonempty: "encodeBase64Url [k] \<noteq> []"
  by (rule encode_nonempty) simp

lemma demo_linked: "linked demo_link_platform (demo_device [1] [2] ''a'') (demo_device [3] [4] ''b'') demo_options None"
proof -
  have dec: "decodeFriendCode pf None = None" for pf by (simp add: decodeFriendCode_def trim_def)
  have la: "resolveLocalPeer (demo_device i dh n) None = \<lparr>rp_identityPub = encodeBase64Url i, rp_dhPub = encodeBase64Url dh,
      rp_deviceId = Some n, rp_onionAddr = None\<rparr>" for i dh n
    by (simp add: resolveLocalPeer_def dec demo_device_def)
  have ids: "encodeBase64Url [1] \<noteq> encodeBase64Url [3]" by code_simp
  have remote: "resolveRemotePeer demo_link_platform demo_options = Some (resolveLocalPeer (demo_device [3] [4] ''b'') None)"
    by (simp add: resolveRemotePeer_def demo_options_def dec la demo_keys_nonempty Let_def)
  have pay: "createPayload demo_link_platform (resolveLocalPeer (demo_device [1] [2] ''a'') None) = Some demo_code_payload"
    by (simp add: createPayload_def la deriveCommitmentBytes_def decode_encode demo_code_payload_def demo_link_platform_def)
  have wf: "wf_json (payload_json demo_code_payload)"
    by (simp add: payload_json_def demo_code_payload_def opt_str_def settable_def is_num_char_def is_digit_def)
  have "\<exists>s. pf_scalarmult demo_link_platform [2] [4] = Some s \<and> pf_scalarmult demo_link_platform [4] [2] = Some s"
    by (simp add: demo_link_platform_def open_platform_def)
  moreover have "length (pf_generichash demo_link_platform 32 m) = 32" for m
    by (simp add: demo_link_platform_def pad_hash_def)
  moreover have "ao_localFriendCode demo_options = None" "ao_localDhPriv demo_options = None" by (simp_all add: demo_options_def)
  moreover have "fd_platform (demo_device i dh n) = demo_link_platform" "fd_dhPriv (demo_device i dh n) = dh" for i dh n
    by (simp_all add: demo_device_def)
  moreover have "parse_bytes demo_link_platform bs = Some (payload_json demo_code_payload)" for bs
    by (simp add: parse_bytes_def demo_link_platform_def)
  ultimately show ?thesis
    unfolding linked_def Let_def using remote pay wf ids by (simp add: la decode_encode nonblank_encoded)
qed

theorem honest_friend_frame_accepted_witness:
  "\<exists>e. enrichFriendControlFrameWithProtocol (demo_device [1] [2] ''a'') (JObj demo_request_fields) [1] demo_options ''n'' = Some e \<and>
    (let signed = spread e [(''sig'', JStr (signFriendControlFrame demo_link_platform e [1]))]
     in verifyFriendControlFrameSignature demo_link_platform signed \<and>
        verifyFriendControlFrameProtocol (demo_device [3] [4] ''b'') signed None None = Verified)"
proof (rule honest_friend_frame_accepted [OF demo_linked refl])
  have la: "resolveLocalPeer (demo_device [1] [2] ''a'') (ao_localFriendCode demo_options) =
      \<lparr>rp_identityPub = encodeBase64Url [1], rp_dhPub = encodeBase64Url [2], rp_deviceId = Some ''a'', rp_onionAddr = None\<rparr>"
    by (simp add: resolveLocalPeer_def decodeFriendCode_def trim_def demo_device_def demo_options_def)
  show "rp_identityPub (resolveLocalPeer (demo_device [1] [2] ''a'') (ao_localFriendCode demo_options)) = encodeBase64Url [1]"
    "field (field (JObj demo_request_fields) ''from'') ''dhPub'' =
       JStr (rp_dhPub (resolveLocalPeer (demo_device [1] [2] ''a'') (ao_localFriendCode demo_options)))"
    by (simp_all add: la demo_request_fields_def)
  show "\<not> truthy (field (JObj demo_request_fields) ''protocol'')"
    "check_friend_code demo_link_platform (field (JObj demo_request_fields) ''from'') = Verified"
    "field (field (JObj demo_request_fields) ''from'') ''identityPub'' = JStr (encodeBase64Url [1])"
    by (simp_all add: demo_request_fields_def check_friend_code_def)
  show "\<forall>m. pf_sign demo_link_platform m [1] \<noteq> [] \<and>
      pf_verify demo_link_platform (pf_sign demo_link_platform m [1]) m [1] = Some True"
    by (simp add: demo_link_platform_def open_platform_def)
qed (simp_all add: trim_def js_space_def)

text \<open>A platform on which a sender signed one frame and the transcript of another.\<close>

definition one_signer :: platform where
  "one_signer = open_platform\<lparr>pf_verify := (\<lambda>s m k. Some (s = k @ m \<and>
     (m = canonicalBytes (JObj demo_request_fields) \<or> m = canonicalBytes (toTranscript (JObj demo_request_fields)))))\<rparr>"

lemma demo_request_wf:
  "wf_json (JObj demo_request_fields)" "wf_json (toTranscript (JObj demo_request_fields))"
  by (simp_all add: demo_request_fields_def toTranscript_def nn_def settable_def is_num_char_def is_digit_def)

theorem signed_friend_frame_is_genuine_witness:
  "let frame = JObj (demo_request_fields @ [(''sig'', JStr (encodeBase64Url ([1] @ canonicalBytes (JObj demo_request_fields))))])
   in verifyFriendControlFrameSignature one_signer frame \<and>
     (\<exists>v \<in> {JObj demo_request_fields, toTranscript (JObj demo_request_fields)}.
        \<forall>k. k \<noteq> ''sig'' \<longrightarrow> meaning (field frame k) = meaning (field v k))"
proof -
  let ?f = "JObj (demo_request_fields @ [(''sig'', JStr (encodeBase64Url ([1] @ canonicalBytes (JObj demo_request_fields))))])"
  have sig: "field ?f ''sig'' = JStr (encodeBase64Url ([1] @ canonicalBytes (JObj demo_request_fields)))"
    and key: "field (field ?f ''from'') ''identityPub'' = JStr (encodeBase64Url [1])"
    and type: "field ?f ''type'' \<in> friend_types"
    by (simp_all add: demo_request_fields_def friend_types_def)
  have strip: "stripFriendControlFrameSignature ?f = JObj demo_request_fields"
    by (simp add: stripFriendControlFrameSignature_def demo_request_fields_def)
  have ok: "verifyFriendControlFrameSignature one_signer ?f"
    unfolding verifyFriendControlFrameSignature_def sig key strip by (simp add: nonblank_encoded) (simp add: one_signer_def)
  have wf: "wf_json ?f"
    by (simp add: demo_request_fields_def settable_def is_num_char_def is_digit_def)
  have "(\<exists>v \<in> set [JObj demo_request_fields]. \<forall>k. k \<noteq> ''sig'' \<longrightarrow> meaning (field ?f k) = meaning (field v k)) \<or>
      (\<exists>f \<in> set [JObj demo_request_fields]. \<forall>k. k \<noteq> ''sig'' \<longrightarrow> meaning (field ?f k) = meaning (field (toTranscript f) k))"
  proof (rule signed_friend_frame_is_genuine [where others = "[]" and sealed = "[]", OF _ _ _ _ _ _ refl wf type ok])
    show "str_bytes (field (field ?f ''from'') ''identityPub'') = Some [1]" unfolding key by (rule str_bytes_encoded)
    show "\<forall>v \<in> set [JObj demo_request_fields]. wf_json v \<and> v \<noteq> JUndef"
      "\<forall>f \<in> set [JObj demo_request_fields]. wf_json (toTranscript f)"
      using demo_request_wf by (simp_all del: wf_json.simps)
  qed (simp_all add: one_signer_def)
  then show ?thesis using ok by (simp add: Let_def)
qed

theorem stripped_frame_is_accepted_witness:
  "verifyFriendControlFrameSignature one_signer
     (bare_frame (JObj demo_request_fields) (buildHandshakeRecord (one_signer\<lparr>pf_verify := (\<lambda>s m k. Some (s = k @ m))\<rparr>)
        (JObj demo_request_fields) [1]))"
proof -
  let ?pf = "one_signer\<lparr>pf_verify := (\<lambda>s m k. Some (s = k @ m))\<rparr>"
  let ?b = "bare_frame (JObj demo_request_fields) (buildHandshakeRecord ?pf (JObj demo_request_fields) [1])"
  have f: "isFriendControlFrame (JObj demo_request_fields)"
    "str_bytes (field (field (JObj demo_request_fields) ''from'') ''identityPub'') = Some [1]"
    by (simp_all add: isFriendControlFrame_def demo_request_fields_def nonblank_encoded)
  have "verifyFriendControlFrameSignature ?pf ?b"
    using stripped_frame_is_accepted [OF f, of ?pf "[1]" ?b] by (simp add: one_signer_def open_platform_def)
  moreover have "field ?b ''sig'' = JStr (encodeBase64Url ([1] @ canonicalBytes (toTranscript (JObj demo_request_fields))))"
    by (simp add: bare_frame_fields buildHandshakeRecord_def one_signer_def open_platform_def)
  ultimately show ?thesis
    by (simp add: verifyFriendControlFrameSignature_def strip_bare_frame bare_frame_fields f split: option.splits)
      (simp add: one_signer_def)
qed

end
