(* ===== verification/Json_Parser.thy ===== *)
theory Json_Parser
  imports Envelope_Box
begin

text \<open>
  \<open>JSON.parse\<close> on the texts \<open>JSON.stringify\<close> writes, which have no white space. The parser of the
  language is an argument of every operation that parses (pf_json_parse of the platform); this one shows
  that what is assumed of it there can be had, and gives the platform the witnesses run on.
\<close>

type_synonym 'a parser = "string \<Rightarrow> ('a \<times> string) option"

text \<open>The rest of a string after its opening quote.\<close>

fun p_string :: "nat \<Rightarrow> string parser" where
  "p_string 0 s = None"
| "p_string (Suc n) s = (if s = [] then None else if hd s = CHR 0x22 then Some ([], tl s)
     else (case unescape s of (c, r) \<Rightarrow> map_option (\<lambda>(cs, u). (c # cs, u)) (p_string n r)))"

definition p_number :: "json parser" where
  "p_number s = (let t = takeWhile is_num_char s in if t = [] then None else Some (JNum t, drop (length t) s))"

definition p_word :: "string \<Rightarrow> json \<Rightarrow> json parser" where
  "p_word w v s = (if starts_with s w then Some (v, drop (length w) s) else None)"

text \<open>The fuel is used up by nesting and by the items of a list, so the length of the text is enough.\<close>

fun p_value :: "nat \<Rightarrow> json parser"
  and p_items :: "nat \<Rightarrow> json list parser"
  and p_members :: "nat \<Rightarrow> (string \<times> json) list parser"
where
  "p_value 0 s = None"
| "p_value (Suc n) s =
     (case s of
        [] \<Rightarrow> None
      | c # r \<Rightarrow>
          if c = CHR ''n'' then p_word ''null'' JNull s
          else if c = CHR ''t'' then p_word ''true'' (JBool True) s
          else if c = CHR ''f'' then p_word ''false'' (JBool False) s
          else if c = CHR 0x22 then map_option (\<lambda>(t, u). (JStr t, u)) (p_string n r)
          else if c = CHR ''['' then
            (if r \<noteq> [] \<and> hd r = CHR '']'' then Some (JArr [], tl r) else map_option (\<lambda>(xs, u). (JArr xs, u)) (p_items n r))
          else if c = CHR ''{'' then
            (if r \<noteq> [] \<and> hd r = CHR ''}'' then Some (JObj [], tl r) else map_option (\<lambda>(kvs, u). (JObj kvs, u)) (p_members n r))
          else p_number s)"
| "p_items 0 s = None"
| "p_items (Suc n) s =
     (case p_value n s of
        Some (v, CHR '','' # r) \<Rightarrow> map_option (\<lambda>(vs, u). (v # vs, u)) (p_items n r)
      | Some (v, CHR '']'' # r) \<Rightarrow> Some ([v], r)
      | _ \<Rightarrow> None)"
| "p_members 0 s = None"
| "p_members (Suc n) s =
     (if s = [] \<or> hd s \<noteq> CHR 0x22 then None
      else case p_string n (tl s) of
        Some (k, CHR '':'' # w) \<Rightarrow>
          (case p_value n w of
             Some (v, CHR '','' # r) \<Rightarrow> map_option (\<lambda>(kvs, u). ((k, v) # kvs, u)) (p_members n r)
           | Some (v, CHR ''}'' # r) \<Rightarrow> Some ([(k, v)], r)
           | _ \<Rightarrow> None)
      | _ \<Rightarrow> None)"

definition parse_text :: "string \<Rightarrow> json option" where
  "parse_text s = (case p_value (length s) s of Some (v, []) \<Rightarrow> Some v | _ \<Rightarrow> None)"

subsection \<open>What is printed is read back\<close>

lemma p_string_quote: "length (concat (map escape_char s)) < n \<Longrightarrow>
    p_string n (concat (map escape_char s) @ CHR 0x22 # u) = Some (s, u)"
proof (induction s arbitrary: n)
  case Nil
  then obtain m where "n = Suc m" by (cases n) auto
  then show ?case by simp
next
  case (Cons c s)
  then obtain m where n: "n = Suc m" by (cases n) auto
  let ?r = "concat (map escape_char s) @ CHR 0x22 # u"
  have "escape_char c @ ?r \<noteq> []" "hd (escape_char c @ ?r) \<noteq> CHR 0x22" using escape_not_quote by auto
  moreover have "unescape (escape_char c @ ?r) = (c, ?r)" by (rule unescape_escape)
  moreover have "p_string m ?r = Some (s, u)"
  proof (rule Cons.IH)
    have "0 < length (escape_char c)" using escape_not_quote(2) by simp
    then show "length (concat (map escape_char s)) < m" using Cons.prems n by (simp del: length_greater_0_conv)
  qed
  ultimately show ?case using n by simp
qed

lemma p_number_print:
  assumes "t \<noteq> []" "list_all is_num_char t" "stops u"
  shows "p_number (t @ u) = Some (JNum t, u)"
proof -
  have "takeWhile is_num_char u = []"
    using assms(3) by (cases u) (auto simp: stops_def is_num_char_def is_digit_def Let_def)
  then have "takeWhile is_num_char (t @ u) = t" using assms(2) by (simp add: takeWhile_append2 list_all_iff)
  then show ?thesis using assms(1) by (simp add: p_number_def)
qed

lemma p_items_print:
  assumes "\<And>x n u. x \<in> set xs \<Longrightarrow> length (print x) \<le> n \<Longrightarrow> stops u \<Longrightarrow> p_value n (print x @ u) = Some (x, u)"
    and "xs \<noteq> []" "length (join_str '','' (map print xs)) < n"
  shows "p_items n (join_str '','' (map print xs) @ CHR '']'' # u) = Some (xs, u)"
  using assms
proof (induction xs arbitrary: n)
  case (Cons x xs)
  then obtain m where n: "n = Suc m" by (cases n) auto
  show ?case
  proof (cases "xs = []")
    case True
    have "p_value m (print x @ CHR '']'' # u) = Some (x, CHR '']'' # u)"
      using Cons.prems(1) [of x m "CHR '']'' # u"] Cons.prems(3) n True by (simp add: stops_def)
    then show ?thesis using n True by simp
  next
    case False
    let ?r = "join_str '','' (map print xs) @ CHR '']'' # u"
    have len: "length (print x) + Suc (length (join_str '','' (map print xs))) < n"
      using Cons.prems(3) False by (simp add: join_str_Cons)
    have "p_value m (print x @ CHR '','' # ?r) = Some (x, CHR '','' # ?r)"
      using Cons.prems(1) [of x m "CHR '','' # ?r"] len n by (simp add: stops_def)
    moreover have "p_items m ?r = Some (xs, u)"
      by (rule Cons.IH) (use Cons.prems(1) len n False in auto)
    ultimately show ?thesis using n False by (simp add: join_str_Cons)
  qed
qed simp

abbreviation member_text :: "string \<times> json \<Rightarrow> string" where
  "member_text \<equiv> \<lambda>(k, v). quote k @ '':'' @ print v"

lemma p_members_print:
  assumes "\<And>k x n u. (k, x) \<in> set kvs \<Longrightarrow> length (print x) \<le> n \<Longrightarrow> stops u \<Longrightarrow> p_value n (print x @ u) = Some (x, u)"
    and "kvs \<noteq> []" "length (join_str '','' (map member_text kvs)) < n"
  shows "p_members n (join_str '','' (map member_text kvs) @ CHR ''}'' # u) = Some (kvs, u)"
  using assms
proof (induction kvs arbitrary: n)
  case (Cons kv kvs)
  obtain k x where kv: "kv = (k, x)" by (cases kv)
  obtain m where n: "n = Suc m" using Cons.prems(3) by (cases n) auto
  let ?rest = "if kvs = [] then [] else CHR '','' # join_str '','' (map member_text kvs)"
  have text': "join_str '','' (map member_text (kv # kvs)) @ CHR ''}'' # u =
      CHR 0x22 # concat (map escape_char k) @ CHR 0x22 # CHR '':'' # print x @ ?rest @ CHR ''}'' # u"
    by (simp add: kv join_str_Cons quote_def)
  have len: "length (concat (map escape_char k)) + length (print x) + length ?rest + 3 \<le> m"
    using Cons.prems(3) n by (cases "kvs = []") (simp_all add: kv join_str_Cons quote_def)
  have key: "p_string m (concat (map escape_char k) @ CHR 0x22 # CHR '':'' # print x @ ?rest @ CHR ''}'' # u) =
      Some (k, CHR '':'' # print x @ ?rest @ CHR ''}'' # u)"
    by (rule p_string_quote) (use len in linarith)
  have val: "p_value m (print x @ ?rest @ CHR ''}'' # u) = Some (x, ?rest @ CHR ''}'' # u)"
    by (rule Cons.prems(1) [of k x]) (use len kv in \<open>simp_all add: stops_def\<close>)
  show ?case
  proof (cases "kvs = []")
    case True
    then show ?thesis unfolding text' n using key val by (simp add: kv)
  next
    case False
    have "p_members m (join_str '','' (map member_text kvs) @ CHR ''}'' # u) = Some (kvs, u)"
      by (rule Cons.IH) (use Cons.prems(1) len False in \<open>auto simp: kv\<close>)
    then show ?thesis unfolding text' n using key val False by (simp add: kv)
  qed
qed simp

lemma p_value_print:
  "wf_json v \<Longrightarrow> no_undef v \<Longrightarrow> length (print v) \<le> n \<Longrightarrow> stops u \<Longrightarrow> p_value n (print v @ u) = Some (v, u)"
proof (induction v arbitrary: n u)
  case JNull
  then obtain m where "n = Suc m" by (cases n) auto
  then show ?case by (simp add: p_word_def starts_with_def)
next
  case (JBool b)
  then obtain m where "n = Suc m" by (cases n) (auto split: if_splits)
  then show ?case by (simp add: p_word_def starts_with_def)
next
  case (JNum t)
  then obtain c t' where t: "t = c # t'" "is_num_char c" by (cases t) auto
  then obtain m where n: "n = Suc m" using JNum.prems by (cases n) auto
  have "c \<noteq> CHR ''n'' \<and> c \<noteq> CHR ''t'' \<and> c \<noteq> CHR ''f'' \<and> c \<noteq> CHR 0x22 \<and> c \<noteq> CHR ''['' \<and> c \<noteq> CHR ''{''"
    using t(2) by auto
  then show ?case using p_number_print [of t u] JNum.prems n t(1) by simp
next
  case (JStr s)
  then obtain m where n: "n = Suc m" by (cases n) (auto simp: quote_def)
  then show ?case using p_string_quote [of s m u] JStr.prems(3) by (simp add: quote_def)
next
  case (JArr xs)
  then obtain m where n: "n = Suc m" by (cases n) auto
  show ?case
  proof (cases xs)
    case Nil
    then show ?thesis using n by simp
  next
    case (Cons y ys)
    have "p_items m (join_str '','' (map print xs) @ CHR '']'' # u) = Some (xs, u)"
      by (rule p_items_print) (use JArr Cons n in \<open>auto simp: list_all_iff\<close>)
    moreover have "hd (join_str '','' (map print xs) @ CHR '']'' # u) \<noteq> CHR '']''"
      using print_first [of y] JArr.prems(1) Cons by (auto simp: join_str_Cons)
    ultimately show ?thesis using n by simp
  qed
next
  case (JObj kvs)
  then obtain m where n: "n = Suc m" by (cases n) auto
  show ?case
  proof (cases kvs)
    case Nil
    then show ?thesis using n by simp
  next
    case (Cons kv rest)
    have "p_members m (join_str '','' (map member_text kvs) @ CHR ''}'' # u) = Some (kvs, u)"
    proof (rule p_members_print)
      show "p_value n' (print x @ u') = Some (x, u')" if "(k, x) \<in> set kvs" "length (print x) \<le> n'" "stops u'" for k x n' u'
      proof -
        have "wf_json x" "no_undef x" using JObj.prems(1,2) that(1) by (auto simp: list_all_iff)
        then show ?thesis using JObj.IH [OF that(1), of x n' u'] that(2,3) by simp
      qed
    qed (use JObj.prems(3) Cons n in auto)
    moreover have "hd (join_str '','' (map member_text kvs) @ CHR ''}'' # u) \<noteq> CHR ''}''"
      using Cons by (cases kv) (simp add: join_str_Cons quote_def)
    ultimately show ?thesis using n by simp
  qed
qed simp

lemma parse_stringify: "wf_json v \<Longrightarrow> parse_text (stringify v) = Some (Canonical_Json.norm v)"
  using p_value_print [of "Canonical_Json.norm v" "length (print (Canonical_Json.norm v))" "[]"]
  by (simp add: parse_text_def stringify_print wf_norm norm_no_undef stops_def)

text \<open>
  What \<open>JSON.stringify\<close> writes of a well formed value is read back as a value of the same meaning:
  properties that are undefined are gone, the others are the same in the printed order.
\<close>

theorem written_text_is_read:
  assumes "wf_json v"
  shows "\<exists>w. parse_text (stringify v) = Some w \<and> wf_json w \<and> meaning w = meaning v"
  using parse_stringify [OF assms] wf_norm [OF assms] meaning_norm [OF assms] by blast

declare utf8_text_encode [simp]

subsection \<open>Integers as text\<close>

lemma index_value_snoc: "index_value (s @ [c]) = index_value s * 10 + (of_char c - 48)"
  by (simp add: index_value_def)

lemma nat_text_value [simp]: "index_value (nat_text n) = n"
proof (induction n rule: nat_text.induct)
  case (1 n)
  show ?case
  proof (cases "n < 10")
    case True
    then show ?thesis by (simp add: nat_text.simps [of n] index_value_def)
  next
    case False
    then have "index_value (nat_text n) = (n div 10) * 10 + n mod 10"
      using 1 by (subst nat_text.simps) (simp add: index_value_snoc)
    then show ?thesis by simp
  qed
qed

lemma nat_text_digits: "nat_text n \<noteq> [] \<and> list_all is_digit (nat_text n)"
proof (induction n rule: nat_text.induct)
  case (1 n)
  have d: "is_digit (char_of (48 + m mod 10 :: nat))" for m by (simp add: is_digit_def Let_def)
  show ?case
  proof (cases "n < 10")
    case True
    then show ?thesis using d [of n] by (simp add: nat_text.simps [of n])
  next
    case False
    then show ?thesis using 1 d [of n] by (subst (1 2) nat_text.simps) simp
  qed
qed

lemma digits_not: "list_all is_digit s \<Longrightarrow> \<not> is_digit c \<Longrightarrow> takeWhile (\<lambda>d. d \<noteq> c) s = s"
  by (rule takeWhile_eq_all_conv [THEN iffD2]) (auto simp: list_all_iff)

lemma num_value_nat: "num_value (nat_text n) = of_nat n"
proof -
  have nd: "\<not> is_digit (CHR ''e'')" "\<not> is_digit (CHR ''.'')" "\<not> is_digit (CHR ''-'')" by (simp_all add: is_digit_def)
  have "hd (nat_text n) \<noteq> CHR ''-''" using nat_text_digits [of n] nd(3) by (cases "nat_text n") auto
  then show ?thesis
    by (simp add: num_value_def exponent_value_def Let_def digits_not [OF conjunct2 [OF nat_text_digits [of n]] nd(1)]
      digits_not [OF conjunct2 [OF nat_text_digits [of n]] nd(2)])
qed

lemma num_value_neg: "num_value (CHR ''-'' # nat_text n) = - of_nat n"
proof -
  have nd: "\<not> is_digit (CHR ''e'')" "\<not> is_digit (CHR ''.'')" by (simp_all add: is_digit_def)
  show ?thesis
    by (simp add: num_value_def exponent_value_def Let_def digits_not [OF conjunct2 [OF nat_text_digits [of n]] nd(1)]
      digits_not [OF conjunct2 [OF nat_text_digits [of n]] nd(2)])
qed

lemma finite_int_num [simp]: "finite_num (int_num i) = Some (of_int i)"
  by (simp add: int_num_def num_value_nat num_value_neg)

lemma wf_int_num [simp]: "wf_json (int_num i)"
  using nat_text_digits [of "nat i"] nat_text_digits [of "nat (- i)"]
  by (auto simp: int_num_def is_num_char_def list_all_iff)

subsection \<open>The codecs of a platform\<close>

text \<open>
  What is assumed of the codecs the records of the vault pass through: base64 and UTF-8 are
  read back, and so is every well formed value that is written as text.
\<close>

locale text_codec =
  fixes to_b64 :: "bytes \<Rightarrow> string" and from_b64 :: "string \<Rightarrow> bytes option"
    and decode :: "bytes \<Rightarrow> string" and parse :: "string \<Rightarrow> json option"
  assumes b64: "from_b64 (to_b64 bs) = Some bs"
    and utf8: "decode (encode_utf8 s) = s"
    and json: "wf_json v \<Longrightarrow> \<exists>w. parse (stringify v) = Some w \<and> wf_json w \<and> meaning w = meaning v"
begin

definition seal :: "json \<Rightarrow> string" where
  "seal v = to_b64 (encode_utf8 (stringify v))"

definition unseal :: "string \<Rightarrow> json option" where
  "unseal s = Option.bind (from_b64 s) (\<lambda>bs. parse (decode bs))"

lemma unseal_seal: "wf_json v \<Longrightarrow> \<exists>w. unseal (seal v) = Some w \<and> wf_json w \<and> meaning w = meaning v"
  using json [of v] by (simp add: unseal_def seal_def b64 utf8)

lemma seal_inj: "wf_json v \<Longrightarrow> wf_json w \<Longrightarrow> seal v = seal w \<Longrightarrow> meaning v = meaning w"
  using unseal_seal [of v] unseal_seal [of w] by auto

end

interpretation plain: text_codec encodeBase64 decodeBase64 utf8_text parse_text
  by unfold_locales (simp_all add: decode_encode_padded written_text_is_read)

end
