(* ===== verification/Friend_Frames.thy ===== *)
theory Friend_Frames
  imports Sync_Handshake Friend_Protocol Json_Parser
begin

text \<open>
  What a friend request or its answer does to the contacts and the conversations
  (src/src/sync/syncEngine.ts: upsertFriendFromRequest, applyFriendResponse and
  handleIncomingFriendFrame), the listener that takes such frames from packets
  (src/src/friends/friendInbox.ts), and the two workers that send requests and answers again
  (friendRequestScheduler.ts, friendResponseScheduler.ts). Reports and traces are left out.
\<close>

subsection \<open>Environment and results\<close>

text \<open>
  The device with its keys and libraries, the clock, the ids made for a new conversation and a new
  contact, and the preference on unknown senders.
\<close>

record friend_env =
  fe_device :: friend_device
  fe_now :: time_ms
  fe_newConvId :: string
  fe_newProfileId :: string
  fe_autoReject :: bool

datatype frame_result = FrameHandled | FrameDropped | FrameThrew

definition text_friend_request :: string where
  "text_friend_request = octets [236, 185, 156, 234, 181, 172, 32, 236, 154, 148, 236, 178, 173]"

definition fe_platform :: "friend_env \<Rightarrow> platform" where
  "fe_platform env = fd_platform (fe_device env)"

subsection \<open>What both kinds of frames read\<close>

text \<open>The friend code of the sender, when it has one that can be read.\<close>

definition decoded_code :: "platform \<Rightarrow> json \<Rightarrow> friend_code option" where
  "decoded_code pf from = (case str_of (field from ''friendCode'') of
       None \<Rightarrow> None
     | Some code \<Rightarrow>
         if trim code = [] then None
         else (case decodeFriendCodeV1 (parse_bytes pf) code of Inl _ \<Rightarrow> None | Inr decoded \<Rightarrow> Some decoded))"

definition code_onion :: "friend_code option \<Rightarrow> json" where
  "code_onion decoded = (case decoded of
       None \<Rightarrow> JUndef
     | Some d \<Rightarrow> field (nullish (sanitizeRoutingHints
         (JObj [(''deviceId'', opt_str (fc_deviceId d)), (''onionAddr'', opt_str (fc_onionAddr d))])) JUndef) ''onionAddr'')"

definition resolved_device :: "friend_code option \<Rightarrow> json \<Rightarrow> json \<Rightarrow> json" where
  "resolved_device decoded from existing =
     nn (field from ''deviceId'') (nn (opt_str (Option.bind decoded fc_deviceId)) (field existing ''primaryDeviceId''))"

definition frame_hints :: "friend_code option \<Rightarrow> json \<Rightarrow> json \<Rightarrow> json option" where
  "frame_hints decoded deviceId existing = sanitizeRoutingHints
     (JObj [(''deviceId'', deviceId),
       (''onionAddr'', nn (code_onion decoded) (field (field existing ''routingHints'') ''onionAddr''))])"

definition frame_ts :: "time_ms \<Rightarrow> json \<Rightarrow> json" where
  "frame_ts now payload = nn (field payload ''ts'') (int_num now)"

text \<open>
  The later of two times; a value that is no number gives NaN, which is stored as null. Texts, truth values and lists that
  JavaScript would read as numbers are outside the model.
\<close>

definition next_control_ts :: "json \<Rightarrow> json \<Rightarrow> json" where
  "next_control_ts existing incomingTs = max_num (nn (field existing ''friendControlTs'') (JNum ''0'')) incomingTs"

subsection \<open>Requests\<close>

definition not_later :: "json \<Rightarrow> json \<Rightarrow> bool" where
  "not_later v w \<longleftrightarrow> (case (finite_num v, finite_num w) of (Some x, Some y) \<Rightarrow> x \<le> y | _ \<Rightarrow> False)"

definition given :: "string \<Rightarrow> json \<Rightarrow> (string \<times> json) list" where
  "given k v = (if v = JUndef then [] else [(k, v)])"

definition next_vcard :: "json \<Rightarrow> json \<Rightarrow> json \<Rightarrow> json" where
  "next_vcard existingVcard payload incomingTs =
     (let should_update = (\<not> truthy (field existingVcard ''updatedAt'') \<or> not_later (field existingVcard ''updatedAt'') incomingTs);
          profile = field payload ''profile''
      in if \<not> should_update \<and> truthy existingVcard then existingVcard
         else spread (spread existingVcard [(''updatedAt'', incomingTs)])
           (given ''displayName'' (field profile ''displayName'') @ given ''status'' (field profile ''status'') @
            given ''avatarRef'' (field profile ''avatarRef'') @
            given ''friendCode'' (field (field payload ''from'') ''friendCode'')))"

definition next_friend_status :: "json \<Rightarrow> json" where
  "next_friend_status existingStatus =
     (if existingStatus = JStr ''request_out'' then JStr ''normal''
      else if existingStatus \<in> {JStr ''normal'', JStr ''hidden'', JStr ''blocked''} then existingStatus
      else JStr ''request_in'')"

definition requested_profile :: "friend_env \<Rightarrow> json \<Rightarrow> json \<Rightarrow> string \<Rightarrow> json \<Rightarrow> json \<Rightarrow> json" where
  "requested_profile env payload existing friendId deviceId hints =
     (let now = fe_now env; profile = field payload ''profile''; from' = field payload ''from'';
          incomingTs = frame_ts now payload
      in JObj
     [(''id'', nn (field existing ''id'') (JStr (fe_newProfileId env))),
      (''friendId'', JStr friendId),
      (''displayName'', nn (field profile ''displayName'') (nn (field existing ''displayName'') (JStr ''Friend''))),
      (''status'', nn (field profile ''status'') (nn (field existing ''status'') (JStr []))),
      (''theme'', nn (field existing ''theme'') (JStr ''dark'')),
      (''kind'', JStr ''friend''),
      (''friendStatus'', next_friend_status (field existing ''friendStatus'')),
      (''friendControlTs'', next_control_ts existing incomingTs),
      (''isFavorite'', nn (field existing ''isFavorite'') (JBool False)),
      (''identityPub'', field from' ''identityPub''),
      (''dhPub'', field from' ''dhPub''),
      (''routingHints'', nn hints (field existing ''routingHints'')),
      (''primaryDeviceId'', deviceId),
      (''trust'', nn (field existing ''trust'') (JObj [(''pinnedAt'', int_num now), (''status'', JStr ''trusted'')])),
      (''verification'', nn (field existing ''verification'') (JObj [(''status'', JStr ''unverified'')])),
      (''reachability'', if truthy deviceId then JObj [(''status'', JStr ''ok'')]
         else JObj [(''status'', JStr ''unreachable''), (''lastError'', JStr ''Missing deviceId in friend request'')]),
      (''profileVcard'', next_vcard (field existing ''profileVcard'') payload incomingTs),
      (''createdAt'', nn (field existing ''createdAt'') (int_num now)),
      (''updatedAt'', int_num now)])"

definition friend_conversation :: "json \<Rightarrow> json \<Rightarrow> app_state \<Rightarrow> json" where
  "friend_conversation convId profileId a =
     (let byId = find_row (\<lambda>c. field c ''id'' = convId) (ap_conversations a)
      in if byId \<noteq> JNull then byId
         else find_row (\<lambda>c. \<not> (field c ''type'' = JStr ''group'' \<or> 2 < length (elements (field c ''participants''))) \<and>
           profileId \<in> set (elements (field c ''participants''))) (ap_conversations a))"

definition requested_conversation :: "json \<Rightarrow> json \<Rightarrow> json" where
  "requested_conversation status conv =
     (let pending = (status = JStr ''request_in''); forceHidden = (status \<in> {JStr ''blocked'', JStr ''hidden''})
      in spread conv [(''pendingAcceptance'', JBool pending), (''pendingOutgoing'', JBool False),
           (''pendingFriendResponse'', JUndef),
           (''hidden'', if forceHidden then JBool True else if pending then JBool False else field conv ''hidden'')])"

definition new_request_conversation :: "time_ms \<Rightarrow> json \<Rightarrow> json \<Rightarrow> json \<Rightarrow> json \<Rightarrow> json" where
  "new_request_conversation now convId payload profile currentUserId = JObj
     [(''id'', convId), (''type'', JStr ''direct''), (''name'', nn (field profile ''displayName'') (JStr ''Friend'')),
      (''pinned'', JBool False), (''unread'', JNum ''0''), (''hidden'', JBool False), (''muted'', JBool False),
      (''blocked'', JBool False), (''pendingAcceptance'', JBool True), (''pendingOutgoing'', JBool False),
      (''pendingFriendResponse'', JUndef), (''lastTs'', frame_ts now payload),
      (''lastMessage'', JStr text_friend_request), (''participants'', JArr [currentUserId, field profile ''id''])]"

definition save_request_conversation :: "friend_env \<Rightarrow> json \<Rightarrow> json \<Rightarrow> json \<Rightarrow> app_state \<Rightarrow> frame_result \<times> app_state" where
  "save_request_conversation env convId payload profile a1 =
     (let (currentUserId, a) = resolveLocalUserId a1;
          status = field profile ''friendStatus'';
          existingConv = friend_conversation convId (field profile ''id'') a;
          save = (\<lambda>row. case saveConversation row a of None \<Rightarrow> (FrameThrew, a) | Some a' \<Rightarrow> (FrameHandled, a'))
      in if \<not> truthy currentUserId then (FrameHandled, a)
         else if existingConv \<noteq> JNull then save (requested_conversation status existingConv)
         else if status \<noteq> JStr ''request_in'' then (FrameHandled, a)
         else save (new_request_conversation (fe_now env) convId payload profile currentUserId))"

text \<open>
  A request. The part of the test for the known sender that compares friend ids repeats the
  comparison of the keys and is left out.
\<close>

definition upsertFriendFromRequest :: "friend_env \<Rightarrow> json \<Rightarrow> json \<Rightarrow> app_state \<Rightarrow> frame_result \<times> app_state" where
  "upsertFriendFromRequest env convId payload a =
     (let from' = field payload ''from'';
          existing = find_row (\<lambda>p. field p ''identityPub'' = field from' ''identityPub'') (ap_profiles a);
          decoded = decoded_code (fe_platform env) from';
          deviceId = resolved_device decoded from' existing
      in if \<not> truthy (field from' ''identityPub'') \<or> \<not> truthy (field from' ''dhPub'') then (FrameHandled, a)
         else if existing = JNull \<and> fe_autoReject env then (FrameHandled, a)
         else (case (str_bytes (field from' ''identityPub''), frame_hints decoded deviceId existing) of
             (Some identityBytes, Some hints) \<Rightarrow>
               let profile = requested_profile env payload existing (computeFriendId identityBytes) deviceId hints
               in (case saveProfile profile a of
                    None \<Rightarrow> (FrameThrew, a)
                  | Some a1 \<Rightarrow> save_request_conversation env (nn (field payload ''convId'') convId) payload profile a1)
           | _ \<Rightarrow> (FrameThrew, a)))"

subsection \<open>Answers\<close>

definition response_status :: "json \<Rightarrow> json" where
  "response_status payload = (if field payload ''type'' = JStr ''friend_accept'' then JStr ''normal'' else JStr ''blocked'')"

definition answered_profile :: "friend_env \<Rightarrow> json \<Rightarrow> json \<Rightarrow> json \<Rightarrow> json \<Rightarrow> json" where
  "answered_profile env payload existing deviceId hints =
     (let profile = field payload ''profile''; ts = frame_ts (fe_now env) payload in spread existing
       [(''displayName'', nn (field profile ''displayName'') (field existing ''displayName'')),
        (''status'', nn (field profile ''status'') (field existing ''status'')),
        (''avatarRef'', nn (field profile ''avatarRef'') (field existing ''avatarRef'')),
        (''friendStatus'', response_status payload),
        (''friendControlTs'', next_control_ts existing ts),
        (''primaryDeviceId'', deviceId), (''routingHints'', hints),
        (''profileVcard'', if truthy profile
           then JObj [(''displayName'', field profile ''displayName''), (''status'', field profile ''status''),
             (''avatarRef'', field profile ''avatarRef''),
             (''friendCode'', nn (field (field payload ''from'') ''friendCode'') (field (field existing ''profileVcard'') ''friendCode'')),
             (''updatedAt'', ts)]
           else field existing ''profileVcard''),
        (''updatedAt'', int_num (fe_now env))])"

definition answered_conversation :: "json \<Rightarrow> json \<Rightarrow> json" where
  "answered_conversation status conv = spread conv
     [(''pendingAcceptance'', JBool False), (''pendingOutgoing'', JBool False), (''pendingFriendResponse'', JUndef),
      (''hidden'', if status = JStr ''blocked'' then JBool True else field conv ''hidden'')]"

definition applyFriendResponse :: "friend_env \<Rightarrow> json \<Rightarrow> json \<Rightarrow> app_state \<Rightarrow> frame_result \<times> app_state" where
  "applyFriendResponse env convId payload a =
     (let from' = field payload ''from'';
          existing = resolveFriendByIdentity a (text_of (field from' ''identityPub''));
          decoded = decoded_code (fe_platform env) from';
          deviceId = resolved_device decoded from' existing
      in if \<not> truthy (field from' ''identityPub'') \<or> \<not> truthy (field from' ''dhPub'') then (FrameDropped, a)
         else if existing = JNull then (FrameDropped, a)
         else (case frame_hints decoded deviceId existing of
             None \<Rightarrow> (FrameThrew, a)
           | Some hints \<Rightarrow>
               (case saveProfile (answered_profile env payload existing deviceId hints) a of
                  None \<Rightarrow> (FrameThrew, a)
                | Some a1 \<Rightarrow>
                    let conv = friend_conversation convId (field existing ''id'') a1
                    in if conv = JNull then (FrameHandled, a1)
                       else (case saveConversation (answered_conversation (response_status payload) conv) a1 of
                           None \<Rightarrow> (FrameThrew, a1)
                         | Some a2 \<Rightarrow> (FrameHandled, a2)))))"

subsection \<open>Frames that come in\<close>

text \<open>A frame of an envelope is trusted: its sender is the peer the envelope came from.\<close>

definition frame_checked :: "friend_env \<Rightarrow> bool \<Rightarrow> string option \<Rightarrow> json \<Rightarrow> verify_result" where
  "frame_checked env trusted localFriendCode payload =
     (if \<not> isFriendControlFrame payload then Rejected ''no frame''
      else if \<not> trusted \<and> \<not> isFriendControlFrameFresh payload (fe_now env) then Rejected ''stale timestamp''
      else if \<not> trusted \<and> \<not> verifyFriendControlFrameSignature (fe_platform env) payload then Rejected ''invalid signature''
      else verifyFriendControlFrameProtocol (fe_device env) payload localFriendCode None)"

definition replayed_ts :: "json \<Rightarrow> json \<Rightarrow> bool" where
  "replayed_ts existing payload \<longleftrightarrow> (case (finite_num (field payload ''ts''), finite_num (field existing ''friendControlTs'')) of
       (Some ts, Some seen) \<Rightarrow> ts \<le> seen
     | _ \<Rightarrow> False)"

definition handleIncomingFriendFrame ::
    "friend_env \<Rightarrow> bool \<Rightarrow> string option \<Rightarrow> json \<Rightarrow> app_state \<Rightarrow> frame_result \<times> app_state" where
  "handleIncomingFriendFrame env trusted localFriendCode payload a =
     (case frame_checked env trusted localFriendCode payload of
        Rejected _ \<Rightarrow> (FrameDropped, a)
      | VerifyThrows \<Rightarrow> (FrameThrew, a)
      | Verified \<Rightarrow>
          let existing = resolveFriendByIdentity a (text_of (field (field payload ''from'') ''identityPub''))
          in if replayed_ts existing payload then (FrameDropped, a)
             else if field payload ''type'' = JStr ''friend_req''
             then upsertFriendFromRequest env (nn (field payload ''convId'') (JStr (fe_newConvId env))) payload a
             else applyFriendResponse env (nn (field payload ''convId'') (JStr [])) payload a)"

subsection \<open>The row of a contact\<close>

lemma find_put_other:
  assumes "tbl_ok key t" "List.find P t = Some p" "key row \<noteq> key p"
    and "P row \<Longrightarrow> \<exists>e \<in> set t. key e = key row \<and> P e"
  shows "List.find P (tbl_put key row t) = Some p"
  using assms
proof (induction t)
  case (Cons w t)
  show ?case
  proof (cases "key row = key w")
    case True
    have w: "\<not> P w" using Cons.prems True by auto
    have "\<not> P row"
    proof
      assume "P row"
      then obtain e where "e \<in> set (w # t)" "key e = key row" "P e" using Cons.prems(4) by blast
      then show False using True Cons.prems(1) w by (auto simp: tbl_ok_Cons)
    qed
    then show ?thesis using Cons.prems(2) True w by simp
  next
    case False
    show ?thesis
    proof (cases "key row < key w")
      case True
      have "\<not> P row"
      proof
        assume "P row"
        then obtain e where "e \<in> set (w # t)" "key e = key row" using Cons.prems(4) by blast
        then show False using True Cons.prems(1) by (auto simp: tbl_ok_Cons)
      qed
      then show ?thesis using True Cons.prems(2) by simp
    next
      case not_before: False
      show ?thesis
      proof (cases "P w")
        case True
        then show ?thesis using Cons.prems(2) False not_before by simp
      next
        case no: False
        have "List.find P (tbl_put key row t) = Some p"
        proof (rule Cons.IH)
          show "\<exists>e\<in>set t. key e = key row \<and> P e" if "P row" using Cons.prems(4) [OF that] False no by auto
        qed (use Cons.prems no in \<open>auto simp: tbl_ok_Cons\<close>)
        then show ?thesis using False not_before no by simp
      qed
    qed
  qed
qed simp

lemma find_put_same:
  assumes "tbl_ok key t" "List.find P t = Some p" "key row = key p" "P row"
  shows "List.find P (tbl_put key row t) = Some row"
  using assms
proof (induction t)
  case (Cons w t)
  show ?case
  proof (cases "P w")
    case True
    then show ?thesis using Cons.prems by simp
  next
    case False
    then have p: "List.find P t = Some p" using Cons.prems(2) by simp
    then have "p \<in> set t" by (auto simp: find_Some_iff)
    then have "key w < key row" using Cons.prems(1,3) by (auto simp: tbl_ok_Cons)
    then show ?thesis using False Cons.IH [OF _ p Cons.prems(3,4)] Cons.prems(1) by (auto simp: tbl_ok_Cons)
  qed
qed simp

lemma find_put_new:
  assumes "List.find P t = None" "P row"
  shows "List.find P (tbl_put key row t) = Some row"
  using assms by (induction t) (auto split: if_splits)

lemma find_put_none:
  assumes "List.find P t = None" "\<not> P row"
  shows "List.find P (tbl_put key row t) = None"
  using assms by (induction t) (auto split: if_splits)

definition contact_row :: "string \<Rightarrow> app_state \<Rightarrow> json option" where
  "contact_row K a = List.find (\<lambda>p. field p ''identityPub'' = JStr K) (ap_profiles a)"

text \<open>Rows have an id, and a control time that is missing or a number.\<close>

definition contact_ok :: "json \<Rightarrow> bool" where
  "contact_ok p \<longleftrightarrow> str_of (field p ''id'') \<noteq> None \<and>
     (missing (field p ''friendControlTs'') \<or> finite_num (field p ''friendControlTs'') \<noteq> None)"

definition contacts_ok :: "app_state \<Rightarrow> bool" where
  "contacts_ok a \<longleftrightarrow> rows_ok (ap_profiles a) \<and> (\<forall>p \<in> set (ap_profiles a). contact_ok p)"

lemma contact_not_null: "contacts_ok a \<Longrightarrow> JNull \<notin> set (ap_profiles a)"
  by (auto simp: contacts_ok_def contact_ok_def)

lemma find_mem: "List.find P t = Some r \<Longrightarrow> r \<in> set t"
  by (auto simp: find_Some_iff)

lemma find_row_eq:
  assumes "contacts_ok a"
  shows "find_row P (ap_profiles a) = row \<and> row \<noteq> JNull \<longleftrightarrow> List.find P (ap_profiles a) = Some row"
    "find_row P (ap_profiles a) = JNull \<longleftrightarrow> List.find P (ap_profiles a) = None"
proof -
  have "r \<noteq> JNull" if "List.find P (ap_profiles a) = Some r" for r
    using contact_not_null [OF assms] find_mem [OF that] by auto
  then show "find_row P (ap_profiles a) = row \<and> row \<noteq> JNull \<longleftrightarrow> List.find P (ap_profiles a) = Some row"
    "find_row P (ap_profiles a) = JNull \<longleftrightarrow> List.find P (ap_profiles a) = None"
    by (cases "List.find P (ap_profiles a)"; auto simp: find_row_def)+
qed

lemma str_of_Some: "str_of v = Some s \<longleftrightarrow> v = JStr s"
  by (cases v) auto

lemma user_id_profiles [simp]: "ap_profiles (snd (resolveLocalUserId a)) = ap_profiles a"
  by (simp add: resolveLocalUserId_def Let_def split: option.splits)

lemma saveConversation_profiles: "saveConversation row a = Some a' \<Longrightarrow> ap_profiles a' = ap_profiles a"
  by (auto simp: saveConversation_def)

lemma saveProfile_profiles:
  "saveProfile row a = Some a' \<longleftrightarrow> str_of (field row ''id'') \<noteq> None \<and> a' = a\<lparr>ap_profiles := tbl_put row_key row (ap_profiles a)\<rparr>"
  by (auto simp: saveProfile_def saveRow_def)

lemma request_conversation_profiles:
  assumes "save_request_conversation env c payload p a = (r, a')"
  shows "ap_profiles a' = ap_profiles a"
proof -
  obtain u b where u: "resolveLocalUserId a = (u, b)" by (cases "resolveLocalUserId a")
  then have "ap_profiles b = ap_profiles a" using user_id_profiles [of a] by simp
  moreover have "ap_profiles (snd (case saveConversation row b of None \<Rightarrow> (FrameThrew, b) | Some a' \<Rightarrow> (FrameHandled, a'))) = ap_profiles b"
    for row by (auto simp: saveConversation_profiles split: option.split)
  ultimately have "ap_profiles (snd (save_request_conversation env c payload p a)) = ap_profiles a"
    by (simp add: save_request_conversation_def u Let_def)
  then show ?thesis using assms by simp
qed

text \<open>Every frame saves at most one contact.\<close>

lemma request_saves:
  assumes "contacts_ok a" "upsertFriendFromRequest env c payload a = (r, a')" "field (field payload ''from'') ''identityPub'' = JStr K"
    and "K \<noteq> []" "truthy (field (field payload ''from'') ''dhPub'')"
  shows "a' = a \<and> (r = FrameHandled \<longrightarrow> contact_row K a = None) \<or> (\<exists>row e. ap_profiles a' = tbl_put row_key row (ap_profiles a) \<and> str_of (field row ''id'') \<noteq> None \<and>
    field row ''identityPub'' = JStr K \<and>
    field row ''friendStatus'' = next_friend_status (field e ''friendStatus'') \<and>
    field row ''friendControlTs'' = next_control_ts e (frame_ts (fe_now env) payload) \<and>
    (contact_row K a = Some e \<and> field row ''id'' = field e ''id'' \<or>
     contact_row K a = None \<and> e = JNull \<and> field row ''id'' = JStr (fe_newProfileId env)))"
proof -
  let ?from = "field payload ''from''"
  define e where "e = find_row (\<lambda>p. field p ''identityPub'' = JStr K) (ap_profiles a)"
  define device where "device = resolved_device (decoded_code (fe_platform env) ?from) ?from e"
  have "contact_row K a = None" if "e = JNull"
    using that find_row_eq(2) [OF assms(1)] by (simp add: e_def contact_row_def)
  moreover have "a' = a \<and> (r = FrameHandled \<longrightarrow> e = JNull) \<or>
      (\<exists>identity hints a1. saveProfile (requested_profile env payload e (computeFriendId identity) device hints) a = Some a1 \<and>
      save_request_conversation env (nn (field payload ''convId'') c) payload
        (requested_profile env payload e (computeFriendId identity) device hints) a1 = (r, a'))"
    using assms(2,4,5) unfolding upsertFriendFromRequest_def Let_def assms(3) e_def [symmetric] device_def [symmetric]
    by (auto split: if_splits option.splits)
  ultimately consider "a' = a \<and> (r = FrameHandled \<longrightarrow> contact_row K a = None)" | (saved) identity hints a1 where
      "saveProfile (requested_profile env payload e (computeFriendId identity) device hints) a = Some a1"
      "save_request_conversation env (nn (field payload ''convId'') c) payload
        (requested_profile env payload e (computeFriendId identity) device hints) a1 = (r, a')" by blast
  then show ?thesis
  proof cases
    case saved
  let ?row = "requested_profile env payload e (computeFriendId identity) device hints"
  have "ap_profiles a' = tbl_put row_key ?row (ap_profiles a)" "str_of (field ?row ''id'') \<noteq> None"
    using saved(1) request_conversation_profiles [OF saved(2)] by (auto simp: saveProfile_profiles)
  moreover have "field ?row ''identityPub'' = JStr K" using assms(3) by (simp add: requested_profile_def Let_def)
  moreover have "field ?row ''friendStatus'' = next_friend_status (field e ''friendStatus'')"
    "field ?row ''friendControlTs'' = next_control_ts e (frame_ts (fe_now env) payload)"
    by (simp_all add: requested_profile_def Let_def)
  moreover have "contact_row K a = Some e \<and> field ?row ''id'' = field e ''id'' \<or>
     contact_row K a = None \<and> e = JNull \<and> field ?row ''id'' = JStr (fe_newProfileId env)"
  proof (cases "e = JNull")
    case True
    then have "contact_row K a = None" using find_row_eq(2) [OF assms(1)] by (simp add: e_def contact_row_def)
    then show ?thesis using True by (simp add: requested_profile_def Let_def)
  next
    case no: False
    then have row: "contact_row K a = Some e" by (simp add: contact_row_def find_row_eq(1) [OF assms(1), symmetric] e_def)
    then have "e \<in> set (ap_profiles a)" by (auto simp: contact_row_def find_Some_iff)
    then obtain i where "field e ''id'' = JStr i" using assms(1) by (auto simp: contacts_ok_def contact_ok_def str_of_Some)
    then show ?thesis using row by (simp add: requested_profile_def Let_def)
  qed
  ultimately show ?thesis by blast
  qed simp
qed

lemma resolved_friend:
  assumes "contacts_ok a" "resolveFriendByIdentity a K = e" "e \<noteq> JNull"
  shows "e \<in> set (ap_profiles a)" "contact_row K a = Some p \<Longrightarrow> e = p"
proof -
  have mem: "find_row P (ap_profiles a) = e \<Longrightarrow> e \<in> set (ap_profiles a)" for P
    using assms(3) by (auto simp: find_row_def find_Some_iff split: option.splits)
  show "e \<in> set (ap_profiles a)"
    using assms(2,3) mem by (auto simp: resolveFriendByIdentity_def Let_def split: if_splits option.splits)
  show "e = p" if "contact_row K a = Some p"
    using that assms find_row_eq(1) [OF assms(1), of "\<lambda>p. field p ''identityPub'' = JStr K" p]
    by (auto simp: resolveFriendByIdentity_def contact_row_def split: if_splits)
qed

lemma answer_saves:
  assumes "contacts_ok a" "applyFriendResponse env c payload a = (r, a')"
    and "field (field payload ''from'') ''identityPub'' = JStr K"
  shows "a' = a \<and> r \<noteq> FrameHandled \<or> (\<exists>row e. ap_profiles a' = tbl_put row_key row (ap_profiles a) \<and> resolveFriendByIdentity a K = e \<and>
    e \<in> set (ap_profiles a) \<and> field row ''id'' = field e ''id'' \<and> field row ''identityPub'' = field e ''identityPub'' \<and>
    field row ''friendStatus'' = response_status payload \<and>
    field row ''friendControlTs'' = next_control_ts e (frame_ts (fe_now env) payload))"
proof -
  let ?from = "field payload ''from''"
  define e where "e = resolveFriendByIdentity a K"
  define device where "device = resolved_device (decoded_code (fe_platform env) ?from) ?from e"
  have "a' = a \<and> r \<noteq> FrameHandled \<or> e \<noteq> JNull \<and> (\<exists>hints a1. saveProfile (answered_profile env payload e device hints) a = Some a1 \<and>
      (a' = a1 \<or> (\<exists>row. saveConversation row a1 = Some a')))"
    using assms(2) unfolding applyFriendResponse_def Let_def assms(3) text_of.simps e_def [symmetric] device_def [symmetric]
    by (auto split: if_splits option.splits)
  then consider "a' = a \<and> r \<noteq> FrameHandled" | (saved) hints a1 where "e \<noteq> JNull"
      "saveProfile (answered_profile env payload e device hints) a = Some a1"
      "a' = a1 \<or> (\<exists>row. saveConversation row a1 = Some a')" by blast
  then show ?thesis
  proof cases
    case saved
  let ?row = "answered_profile env payload e device hints"
  have "ap_profiles a' = tbl_put row_key ?row (ap_profiles a)"
    using saved(2,3) by (auto simp: saveProfile_profiles saveConversation_profiles)
  moreover have "field ?row ''id'' = field e ''id''" "field ?row ''identityPub'' = field e ''identityPub''"
    "field ?row ''friendStatus'' = response_status payload"
    "field ?row ''friendControlTs'' = next_control_ts e (frame_ts (fe_now env) payload)"
    by (simp_all add: answered_profile_def Let_def field_spread)
  ultimately show ?thesis using resolved_friend(1) [OF assms(1) e_def [symmetric] saved(1)] e_def by blast
  qed simp
qed

text \<open>A frame that got past the checks, and was not a replay.\<close>

definition passes :: "friend_env \<Rightarrow> bool \<Rightarrow> string option \<Rightarrow> json \<Rightarrow> app_state \<Rightarrow> bool" where
  "passes env trusted code payload a \<longleftrightarrow> frame_checked env trusted code payload = Verified \<and>
     \<not> replayed_ts (resolveFriendByIdentity a (text_of (field (field payload ''from'') ''identityPub''))) payload"

lemma checked_shape:
  assumes "frame_checked env trusted code payload = Verified"
  obtains K where "field (field payload ''from'') ''identityPub'' = JStr K" "K \<noteq> []"
    "field payload ''type'' \<in> {JStr ''friend_req'', JStr ''friend_accept'', JStr ''friend_decline''}"
    "truthy (field (field payload ''from'') ''dhPub'')"
proof -
  have f: "isFriendControlFrame payload" using assms by (auto simp: frame_checked_def split: if_splits)
  have str: "\<exists>s. v = JStr s \<and> s \<noteq> []" if "nonblank v" for v
    using that by (cases v) (auto simp: nonblank_def trim_def)
  obtain K D where "field (field payload ''from'') ''identityPub'' = JStr K" "K \<noteq> []"
    "field (field payload ''from'') ''dhPub'' = JStr D" "D \<noteq> []"
    using str f unfolding isFriendControlFrame_def by metis
  then show ?thesis using that f by (simp add: isFriendControlFrame_def)
qed

lemma handle_cases:
  "handleIncomingFriendFrame env trusted code payload a =
     (if passes env trusted code payload a
      then (if field payload ''type'' = JStr ''friend_req''
        then upsertFriendFromRequest env (nn (field payload ''convId'') (JStr (fe_newConvId env))) payload a
        else applyFriendResponse env (nn (field payload ''convId'') (JStr [])) payload a)
      else (if frame_checked env trusted code payload = VerifyThrows then FrameThrew else FrameDropped, a))"
  by (simp add: handleIncomingFriendFrame_def passes_def Let_def split: verify_result.split)

lemma frame_saves:
  assumes "contacts_ok a" "handleIncomingFriendFrame env trusted code payload a = (r, a')"
  shows "a' = a \<and> (r = FrameHandled \<longrightarrow> (\<exists>K. field (field payload ''from'') ''identityPub'' = JStr K \<and> contact_row K a = None)) \<or>
    (\<exists>K row e. passes env trusted code payload a \<and> field (field payload ''from'') ''identityPub'' = JStr K \<and>
    ap_profiles a' = tbl_put row_key row (ap_profiles a) \<and> str_of (field row ''id'') \<noteq> None \<and>
    field row ''friendControlTs'' = next_control_ts e (frame_ts (fe_now env) payload) \<and>
    field row ''friendStatus'' = (if field payload ''type'' = JStr ''friend_req''
      then next_friend_status (field e ''friendStatus'') else response_status payload) \<and>
    (contact_row K a = None \<and> field payload ''type'' = JStr ''friend_req'' \<and> e = JNull \<and>
       field row ''identityPub'' = JStr K \<and> field row ''id'' = JStr (fe_newProfileId env) \<or>
     e \<in> set (ap_profiles a) \<and> field row ''id'' = field e ''id'' \<and> field row ''identityPub'' = field e ''identityPub'' \<and>
       (if field payload ''type'' = JStr ''friend_req'' then contact_row K a = Some e else e = resolveFriendByIdentity a K)))"
proof (cases "passes env trusted code payload a")
  case True
  then have "frame_checked env trusted code payload = Verified" by (simp add: passes_def)
  then obtain K where K: "field (field payload ''from'') ''identityPub'' = JStr K" "K \<noteq> []"
    and dh: "truthy (field (field payload ''from'') ''dhPub'')" by (rule checked_shape)
  show ?thesis
  proof (cases "field payload ''type'' = JStr ''friend_req''")
    case req: True
    then have "upsertFriendFromRequest env (nn (field payload ''convId'') (JStr (fe_newConvId env))) payload a = (r, a')"
      using assms(2) True by (simp add: handle_cases)
    from request_saves [OF assms(1) this K dh] consider "a' = a \<and> (r = FrameHandled \<longrightarrow> contact_row K a = None)" |
      row e where "ap_profiles a' = tbl_put row_key row (ap_profiles a)" "str_of (field row ''id'') \<noteq> None"
        "field row ''identityPub'' = JStr K" "field row ''friendStatus'' = next_friend_status (field e ''friendStatus'')"
        "field row ''friendControlTs'' = next_control_ts e (frame_ts (fe_now env) payload)"
        "contact_row K a = Some e \<and> field row ''id'' = field e ''id'' \<or>
         contact_row K a = None \<and> e = JNull \<and> field row ''id'' = JStr (fe_newProfileId env)" by blast
    then show ?thesis
    proof cases
      case 2
      have "e \<in> set (ap_profiles a) \<and> field e ''identityPub'' = JStr K" if "contact_row K a = Some e"
        using that find_mem unfolding contact_row_def by (fastforce simp: find_Some_iff)
      then show ?thesis using 2 True K req by (intro disjI2 exI [of _ K] exI [of _ row] exI [of _ e]) auto
    qed (use K in simp)
  next
    case no: False
    then have "applyFriendResponse env (nn (field payload ''convId'') (JStr [])) payload a = (r, a')"
      using assms(2) True by (simp add: handle_cases)
    from answer_saves [OF assms(1) this K(1)] consider "a' = a \<and> r \<noteq> FrameHandled" |
      row e where "ap_profiles a' = tbl_put row_key row (ap_profiles a)" "resolveFriendByIdentity a K = e"
        "e \<in> set (ap_profiles a)" "field row ''id'' = field e ''id''" "field row ''identityPub'' = field e ''identityPub''"
        "field row ''friendStatus'' = response_status payload"
        "field row ''friendControlTs'' = next_control_ts e (frame_ts (fe_now env) payload)" by blast
    then show ?thesis
    proof cases
      case 2
      have "str_of (field e ''id'') \<noteq> None" using 2(3) assms(1) by (auto simp: contacts_ok_def contact_ok_def)
      then show ?thesis using 2 True K no by (intro disjI2 exI [of _ K] exI [of _ row] exI [of _ e]) auto
    qed simp
  qed
qed (use assms(2) in \<open>auto simp: handle_cases split: if_splits\<close>)

lemma contacts_ok_put:
  assumes "contacts_ok a" "ap_profiles a' = tbl_put row_key row (ap_profiles a)" "contact_ok row"
  shows "contacts_ok a'"
  using assms set_tbl_put [of row_key row "ap_profiles a"] by (auto simp: contacts_ok_def tbl_ok_put)

lemma contacts_ok_step:
  assumes "contacts_ok a" "handleIncomingFriendFrame env trusted code payload a = (r, a')"
  shows "contacts_ok a'"
proof -
  from frame_saves [OF assms] consider "a' = a" |
    row e where "ap_profiles a' = tbl_put row_key row (ap_profiles a)" "str_of (field row ''id'') \<noteq> None"
      "field row ''friendControlTs'' = next_control_ts e (frame_ts (fe_now env) payload)" by blast
  then show ?thesis
  proof cases
    case 2
    then have "contact_ok row" by (auto simp: contact_ok_def next_control_ts_def max_num_def missing_def split: option.splits)
    then show ?thesis by (rule contacts_ok_put [OF assms(1) 2(1)])
  qed (use assms(1) in simp)
qed

lemma same_key_same_row:
  assumes "rows_ok t" "e \<in> set t" "p \<in> set t" "field e ''id'' = field p ''id''"
  shows "e = p"
proof -
  have "row_key e = row_key p" using assms(4) by (simp add: row_key_def)
  then show ?thesis using assms(1,2,3) tbl_get_iff [OF assms(1)] by (metis option.inject)
qed

lemma contact_id: "contacts_ok a \<Longrightarrow> e \<in> set (ap_profiles a) \<Longrightarrow> \<exists>m. field e ''id'' = JStr m"
  by (auto simp: contacts_ok_def contact_ok_def str_of_Some)

lemma max_num_finite:
  assumes "finite_num v = Some x" "finite_num w = Some y"
  shows "finite_num (max_num v w) = Some (max x y)"
  using assms by (auto simp: max_num_def max_def)

lemma control_ts_max:
  assumes "contact_ok e \<or> e = JNull" "finite_num ts = Some t"
  shows "\<exists>x. finite_num (nn (field e ''friendControlTs'') (JNum ''0'')) = Some x \<and> finite_num (next_control_ts e ts) = Some (max x t)"
proof -
  have "finite_num (nn (field e ''friendControlTs'') (JNum ''0'')) \<noteq> None"
    using assms(1) by (auto simp: contact_ok_def missing_def nn_def)
  then obtain x where "finite_num (nn (field e ''friendControlTs'') (JNum ''0'')) = Some x" by blast
  then show ?thesis using max_num_finite [OF _ assms(2)] by (simp add: next_control_ts_def)
qed

text \<open>What a frame does to a contact that is there: nothing, or a step of its status and its time.\<close>

lemma contact_step:
  assumes ok: "contacts_ok a" and p: "contact_row K a = Some p" "field p ''id'' = JStr i" and new: "fe_newProfileId env \<noteq> i"
    and step: "handleIncomingFriendFrame env trusted code payload a = (r, a')"
  shows "\<exists>p'. contact_row K a' = Some p' \<and> field p' ''id'' = JStr i \<and>
    (p' = p \<or> passes env trusted code payload a \<and>
      field p' ''friendControlTs'' = next_control_ts p (frame_ts (fe_now env) payload) \<and>
      field p' ''friendStatus'' = (if field payload ''type'' = JStr ''friend_req''
        then next_friend_status (field p ''friendStatus'') else response_status payload))"
proof -
  let ?P = "\<lambda>q. field q ''identityPub'' = JStr K"
  have mem: "p \<in> set (ap_profiles a)" "?P p" using p(1) by (auto simp: contact_row_def find_Some_iff)
  have rows: "rows_ok (ap_profiles a)" using ok by (simp add: contacts_ok_def)
  from frame_saves [OF ok step] consider "a' = a" |
    (created) L row where "ap_profiles a' = tbl_put row_key row (ap_profiles a)" "contact_row L a = None"
      "field row ''identityPub'' = JStr L" "field row ''id'' = JStr (fe_newProfileId env)" |
    (kept) row e where "ap_profiles a' = tbl_put row_key row (ap_profiles a)" "e \<in> set (ap_profiles a)"
      "field row ''id'' = field e ''id''" "field row ''identityPub'' = field e ''identityPub''"
      "passes env trusted code payload a" "field row ''friendControlTs'' = next_control_ts e (frame_ts (fe_now env) payload)"
      "field row ''friendStatus'' = (if field payload ''type'' = JStr ''friend_req''
        then next_friend_status (field e ''friendStatus'') else response_status payload)" by blast
  then show ?thesis
  proof cases
    case 1
    then show ?thesis using p by blast
  next
    case created
    have "L \<noteq> K" using created(2) p(1) by auto
    moreover have "row_key row \<noteq> row_key p" using created(4) p(2) new by (simp add: row_key_def)
    ultimately have "contact_row K a' = Some p"
      using find_put_other [OF rows, of ?P p row] p(1) created(1,3) by (simp add: contact_row_def)
    then show ?thesis using p(2) by blast
  next
    case kept
    have keys: "row_key row = row_key e" using kept(3) by (simp add: row_key_def)
    show ?thesis
    proof (cases "e = p")
      case True
      then have "contact_row K a' = Some row"
        using find_put_same [OF rows, of ?P p row] p(1) keys kept(1,4) mem(2) by (simp add: contact_row_def)
      then show ?thesis using True kept p(2) by auto
    next
      case False
      have "field e ''id'' \<noteq> field p ''id''" using same_key_same_row [OF rows kept(2) mem(1)] False by blast
      moreover obtain m n where "field e ''id'' = JStr m" "field p ''id'' = JStr n"
        using contact_id [OF ok kept(2)] contact_id [OF ok mem(1)] by blast
      ultimately have "row_key row \<noteq> row_key p" using keys by (auto simp: row_key_def)
      then have "contact_row K a' = Some p"
        using find_put_other [OF rows, of ?P p row] p(1) kept(1,2,4) keys by (auto simp: contact_row_def)
      then show ?thesis using p(2) by blast
    qed
  qed
qed

subsection \<open>Replays\<close>

text \<open>Frames as they come, each with what it meets: the environment, whether it is trusted, the local friend code.\<close>

type_synonym delivery = "friend_env \<times> bool \<times> string option \<times> json"

definition deliver :: "delivery \<Rightarrow> app_state \<Rightarrow> app_state" where
  "deliver = (\<lambda>(env, trusted, code, payload) a. snd (handleIncomingFriendFrame env trusted code payload a))"

text \<open>
  The id of a new contact is not one in use, and a frame from an envelope has a number for its time or
  no time at all (in which case it takes the time of the envelope, or that of its arrival). Of
  frames from outside an envelope nothing is asked: the check of their age wants a number.
\<close>

definition timed_delivery :: "string \<Rightarrow> delivery \<Rightarrow> bool" where
  "timed_delivery i = (\<lambda>(env, trusted, code, payload). fe_newProfileId env \<noteq> i \<and>
     (trusted \<longrightarrow> finite_num (field payload ''ts'') \<noteq> None \<or> missing (field payload ''ts'')))"

definition seen_upto :: "string \<Rightarrow> string \<Rightarrow> rat \<Rightarrow> app_state \<Rightarrow> bool" where
  "seen_upto i K t a \<longleftrightarrow> contacts_ok a \<and> (\<exists>p s. contact_row K a = Some p \<and> field p ''id'' = JStr i \<and>
     finite_num (field p ''friendControlTs'') = Some s \<and> t \<le> s)"

lemma contact_row_ok: "contacts_ok a \<Longrightarrow> contact_row K a = Some p \<Longrightarrow> contact_ok p"
  by (auto simp: contact_row_def contacts_ok_def dest: find_mem)

lemma frame_ts_given: "finite_num (field payload ''ts'') = Some t \<Longrightarrow> frame_ts now payload = field payload ''ts''"
  by (cases "field payload ''ts''") (auto simp: frame_ts_def nn_def)

lemma frame_ts_finite:
  assumes "finite_num (field payload ''ts'') \<noteq> None \<or> missing (field payload ''ts'')"
  obtains u where "finite_num (frame_ts now payload) = Some u"
proof (cases "missing (field payload ''ts'')")
  case True
  then show ?thesis using that by (auto simp: frame_ts_def nn_def missing_def)
next
  case False
  then show ?thesis using assms that frame_ts_given by fastforce
qed

lemma untrusted_timed:
  "passes env False code payload a \<Longrightarrow> finite_num (field payload ''ts'') \<noteq> None"
  by (auto simp: passes_def frame_checked_def isFriendControlFrameFresh_def split: if_splits option.splits)

lemma seen_upto_deliver:
  assumes "seen_upto i K t a" "timed_delivery i d"
  shows "seen_upto i K t (deliver d a)"
proof -
  obtain env trusted code payload where d: "d = (env, trusted, code, payload)" by (cases d)
  have new: "fe_newProfileId env \<noteq> i" using assms(2) d by (simp add: timed_delivery_def)
  obtain p s where a: "contacts_ok a" and p: "contact_row K a = Some p" "field p ''id'' = JStr i"
    "finite_num (field p ''friendControlTs'') = Some s" "t \<le> s" using assms(1) by (auto simp: seen_upto_def)
  obtain p' where p': "contact_row K (deliver d a) = Some p'" "field p' ''id'' = JStr i"
    "p' = p \<or> passes env trusted code payload a \<and>
       field p' ''friendControlTs'' = next_control_ts p (frame_ts (fe_now env) payload)"
    using contact_step [OF a p(1,2) new prod.collapse [symmetric], of trusted code payload]
    unfolding deliver_def d prod.case by blast
  have "\<exists>s'. finite_num (field p' ''friendControlTs'') = Some s' \<and> t \<le> s'"
  proof (cases "p' = p")
    case False
    then have "finite_num (field payload ''ts'') \<noteq> None \<or> missing (field payload ''ts'')"
      using p'(3) assms(2) untrusted_timed d by (cases trusted) (auto simp: timed_delivery_def)
    then obtain u where u: "finite_num (frame_ts (fe_now env) payload) = Some u" by (rule frame_ts_finite)
    have same: "nn (field p ''friendControlTs'') (JNum ''0'') = field p ''friendControlTs''"
      using p(3) by (cases "field p ''friendControlTs''") auto
    have "contact_ok p \<or> p = JNull" using contact_row_ok [OF a p(1)] by blast
    from control_ts_max [OF this u] have "finite_num (next_control_ts p (frame_ts (fe_now env) payload)) = Some (max s u)"
      using p(3) unfolding same by auto
    then show ?thesis using p'(3) False p(4) by (auto intro: max.coboundedI1)
  qed (use p in blast)
  then show ?thesis
    using p' contacts_ok_step [OF a prod.collapse [symmetric]] unfolding d seen_upto_def deliver_def prod.case by blast
qed

lemma seen_upto_fold:
  "seen_upto i K t a \<Longrightarrow> list_all (timed_delivery i) ds \<Longrightarrow> seen_upto i K t (fold deliver ds a)"
  by (induction ds arbitrary: a) (simp_all add: seen_upto_deliver)

lemma handled_row:
  assumes ok: "contacts_ok a" and h: "handleIncomingFriendFrame env trusted code payload a = (FrameHandled, a1)"
    and K: "field (field payload ''from'') ''identityPub'' = JStr K" and p1: "contact_row K a1 = Some p1"
  shows "\<exists>e. (contact_ok e \<or> e = JNull) \<and> field p1 ''friendControlTs'' = next_control_ts e (frame_ts (fe_now env) payload)"
proof -
  let ?P = "\<lambda>q. field q ''identityPub'' = JStr K"
  have rows: "rows_ok (ap_profiles a)" using ok by (simp add: contacts_ok_def)
  from frame_saves [OF ok h] consider "a1 = a" "contact_row K a = None" |
    row e where "ap_profiles a1 = tbl_put row_key row (ap_profiles a)"
      "field row ''friendControlTs'' = next_control_ts e (frame_ts (fe_now env) payload)"
      "contact_row K a = None \<and> e = JNull \<and> field row ''identityPub'' = JStr K \<or>
       e \<in> set (ap_profiles a) \<and> field row ''id'' = field e ''id'' \<and> field row ''identityPub'' = field e ''identityPub'' \<and>
         (if field payload ''type'' = JStr ''friend_req'' then contact_row K a = Some e else e = resolveFriendByIdentity a K)"
    using K by auto
  then show ?thesis
  proof cases
    case 2
    have "contact_row K a1 = Some row \<and> (contact_ok e \<or> e = JNull)"
    proof (cases "contact_row K a")
      case None
      then have "\<not> ?P q" if "q \<in> set (ap_profiles a)" for q using that by (auto simp: contact_row_def find_None_iff)
      moreover have "?P row"
        using None p1 2(1) find_put_none [of ?P "ap_profiles a" row row_key] by (auto simp: contact_row_def)
      ultimately have e: "e = JNull" using 2(3) by metis
      then show ?thesis using find_put_new [of ?P "ap_profiles a" row row_key] None 2(1) \<open>?P row\<close> by (simp add: contact_row_def)
    next
      case (Some p)
      then have kept: "e \<in> set (ap_profiles a)" "field row ''id'' = field e ''id''" "field row ''identityPub'' = field e ''identityPub''"
        using 2(3) by auto
      then have "e \<noteq> JNull" using contact_not_null [OF ok] by auto
      then have "e = p" using 2(3) Some resolved_friend(2) [OF ok refl _ Some] by (auto split: if_splits)
      then show ?thesis
        using find_put_same [OF rows, of ?P p row] Some 2(1) kept ok
        by (auto simp: contact_row_def row_key_def find_Some_iff contacts_ok_def)
    qed
    then have "row = p1" "contact_ok e \<or> e = JNull" using p1 by auto
    then show ?thesis using 2(2) by blast
  qed (use p1 in simp)
qed

lemma handled_seen:
  assumes ok: "contacts_ok a" and h: "handleIncomingFriendFrame env trusted code payload a = (FrameHandled, a1)"
    and K: "field (field payload ''from'') ''identityPub'' = JStr K" and t: "finite_num (field payload ''ts'') = Some t"
    and p1: "contact_row K a1 = Some p1" "field p1 ''id'' = JStr i"
  shows "seen_upto i K t a1"
proof -
  obtain e where e: "contact_ok e \<or> e = JNull" "field p1 ''friendControlTs'' = next_control_ts e (field payload ''ts'')"
    using handled_row [OF ok h K p1(1)] unfolding frame_ts_given [OF t] by blast
  then obtain s where "finite_num (field p1 ''friendControlTs'') = Some s" "t \<le> s"
    using control_ts_max [OF e(1) t] by fastforce
  then show ?thesis using p1 contacts_ok_step [OF ok h] unfolding seen_upto_def by blast
qed

lemma contact_resolved:
  assumes "contacts_ok a" "contact_row K a = Some p" "K \<noteq> []"
  shows "resolveFriendByIdentity a K = p"
proof -
  have "find_row (\<lambda>q. field q ''identityPub'' = JStr K) (ap_profiles a) = p \<and> p \<noteq> JNull"
    unfolding find_row_eq(1) [OF assms(1)] contact_row_def using assms by (metis find_row_eq(1) contact_row_def)
  then show ?thesis using assms(3) by (simp add: resolveFriendByIdentity_def Let_def)
qed

text \<open>
  C33. A friend frame counts once: when a request or an answer has been handled and its sender is a
  contact, then after any further frames, from whomever, a frame of the same sender that is not newer is dropped
  and changes nothing, be it the same frame again, an older one, or one that arrives inside an
  envelope. The one provision is on the frames between that came inside an envelope, sealed by a
  contact: none may have a time that is neither a number nor missing. Such a frame erases the mark and
  old frames count again (sealed_frame_without_time_forgets).
\<close>

theorem friend_frame_counts_once:
  assumes "contacts_ok a" and "handleIncomingFriendFrame env trusted code payload a = (FrameHandled, a1)"
    and "field (field payload ''from'') ''identityPub'' = JStr K" "finite_num (field payload ''ts'') = Some t"
    and "contact_row K a1 = Some p1" "field p1 ''id'' = JStr i"
    and "list_all (timed_delivery i) ds"
    and "field (field old ''from'') ''identityPub'' = JStr K" "finite_num (field old ''ts'') = Some u" "u \<le> t" "K \<noteq> []"
  shows "\<exists>r. handleIncomingFriendFrame env' trusted' code' old (fold deliver ds a1) = (r, fold deliver ds a1) \<and> r \<noteq> FrameHandled"
proof -
  let ?a = "fold deliver ds a1"
  have "seen_upto i K t ?a" by (rule seen_upto_fold [OF handled_seen [OF assms(1-6)] assms(7)])
  then obtain p s where p: "contacts_ok ?a" "contact_row K ?a = Some p" "finite_num (field p ''friendControlTs'') = Some s" "t \<le> s"
    by (auto simp: seen_upto_def)
  then have "resolveFriendByIdentity ?a K = p" using contact_resolved assms(11) by blast
  then have "\<not> passes env' trusted' code' old ?a"
    using p(3,4) assms(8-10) by (simp add: passes_def replayed_ts_def)
  then show ?thesis by (simp add: handle_cases)
qed

text \<open>
  A frame from an envelope needs no time that is a number, and one with another value, a text for
  one, makes the time on record NaN, which is stored as null: every frame of this contact that passes the
  other checks counts again after it, however old, as long as its own age is accepted or it comes
  inside an envelope.
\<close>

theorem sealed_frame_without_time_forgets:
  assumes "contacts_ok a" and "handleIncomingFriendFrame env True code payload a = (FrameHandled, a1)"
    and "field (field payload ''from'') ''identityPub'' = JStr K" "field payload ''ts'' = JStr ''x''"
    and "contact_row K a1 = Some p1" "K \<noteq> []"
    and "field (field old ''from'') ''identityPub'' = JStr K" "frame_checked env' trusted' code' old = Verified"
  shows "field p1 ''friendControlTs'' = JNull \<and> passes env' trusted' code' old a1"
proof -
  have ts: "field p1 ''friendControlTs'' = JNull"
    using handled_row [OF assms(1-3,5)] assms(4) by (auto simp: frame_ts_def nn_def next_control_ts_def max_num_def split: option.split)
  have "resolveFriendByIdentity a1 K = p1"
    by (rule contact_resolved [OF contacts_ok_step [OF assms(1,2)] assms(5,6)])
  then show ?thesis using ts assms(7,8) by (simp add: passes_def replayed_ts_def split: option.split)
qed

subsection \<open>Who changes a contact\<close>


lemma accept_status: "field payload ''type'' \<noteq> JStr ''friend_accept'' \<Longrightarrow> response_status payload = JStr ''blocked''"
  by (simp add: response_status_def)

text \<open>
  A contact that is blocked stays blocked under every sequence of requests and
  declines, from the contact itself and from others; it takes a frame of type friend_accept to undo it.
\<close>

theorem blocked_contact_stays_blocked:
  assumes "contacts_ok a" "contact_row K a = Some p" "field p ''id'' = JStr i" "field p ''friendStatus'' = JStr ''blocked''"
    and "list_all (\<lambda>(env, trusted, code, payload). fe_newProfileId env \<noteq> i \<and> field payload ''type'' \<noteq> JStr ''friend_accept'') ds"
  shows "\<exists>p'. contact_row K (fold deliver ds a) = Some p' \<and> field p' ''id'' = JStr i \<and> field p' ''friendStatus'' = JStr ''blocked''"
  using assms
proof (induction ds arbitrary: a p)
  case (Cons d ds)
  obtain env trusted code payload where d: "d = (env, trusted, code, payload)" by (cases d)
  have this_one: "fe_newProfileId env \<noteq> i" "field payload ''type'' \<noteq> JStr ''friend_accept''" using Cons.prems(5) d by auto
  obtain r where step: "handleIncomingFriendFrame env trusted code payload a = (r, deliver d a)"
    by (simp add: deliver_def d prod_eq_iff)
  obtain p' where p': "contact_row K (deliver d a) = Some p'" "field p' ''id'' = JStr i"
    "p' = p \<or> field p' ''friendStatus'' \<in> {next_friend_status (field p ''friendStatus''), response_status payload}"
    using contact_step [OF Cons.prems(1-3) this_one(1) step] by (auto split: if_splits)
  have "field p' ''friendStatus'' = JStr ''blocked''"
    using p'(3) Cons.prems(4) accept_status [OF this_one(2)] by (auto simp: next_friend_status_def)
  then show ?case
    using Cons.IH [OF contacts_ok_step [OF Cons.prems(1) step] p'(1,2)] Cons.prems(5) by simp
qed auto

subsection \<open>Requests of strangers\<close>

lemma code_onion_text: "code_onion d = JUndef \<or> (\<exists>s. code_onion d = JStr s)"
proof (cases d)
  case (Some c)
  have "\<exists>v. sanitizeRoutingHints (JObj [(''deviceId'', opt_str x), (''onionAddr'', opt_str y)]) = Some v \<and>
      (field v ''onionAddr'' = JUndef \<or> (\<exists>s. field v ''onionAddr'' = JStr s))" for x y
    by (cases x; cases y) (auto simp: sanitizeRoutingHints_def opt_str_def Let_def)
  from this [of "fc_deviceId c" "fc_onionAddr c"] show ?thesis using Some by (auto simp: code_onion_def)
qed (simp add: code_onion_def)

lemma stranger_hints: "\<exists>v. frame_hints c device JNull = Some v"
proof -
  have "sanitizeRoutingHints (JObj [(''deviceId'', device), (''onionAddr'', o')]) \<noteq> None" if "o' = JUndef \<or> (\<exists>s. o' = JStr s)" for o'
    using that by (auto simp: sanitizeRoutingHints_def Let_def)
  moreover have "nn (code_onion c) JUndef = JUndef \<or> (\<exists>s. nn (code_onion c) JUndef = JStr s)"
    using code_onion_text [of c] by (auto simp: nn_def)
  ultimately show ?thesis unfolding frame_hints_def by (simp add: field_simps)
qed

lemma stranger_request_result:
  assumes ok: "contacts_ok a" "rows_ok (ap_conversations a)"
    and frame: "passes env trusted code payload a" "field payload ''type'' = JStr ''friend_req''" "\<not> fe_autoReject env"
    and stranger: "field (field payload ''from'') ''identityPub'' = JStr K" "decodeBase64Url K = Some bs" "contact_row K a = None"
    and user: "ap_userIdCache a = Some (JStr u)" "u \<noteq> []"
    and conv: "nn (field payload ''convId'') (JStr (fe_newConvId env)) = JStr cv"
      "friend_conversation (JStr cv) (JStr (fe_newProfileId env)) a = JNull"
  shows "\<exists>a' p c. handleIncomingFriendFrame env trusted code payload a = (FrameHandled, a') \<and>
    contact_row K a' = Some p \<and> field p ''friendStatus'' = JStr ''request_in'' \<and> field p ''kind'' = JStr ''friend'' \<and>
    conversation cv a' = Some c \<and> field c ''pendingAcceptance'' = JBool True \<and> field c ''type'' = JStr ''direct'' \<and>
    field c ''participants'' = JArr [JStr u, field p ''id'']"
proof -
  let ?from = "field payload ''from''"
  let ?P = "\<lambda>q. field q ''identityPub'' = JStr K"
  define dec where "dec = decoded_code (fe_platform env) ?from"
  define device where "device = resolved_device dec ?from JNull"
  have none: "find_row ?P (ap_profiles a) = JNull" using find_row_eq(2) [OF ok(1)] stranger(3) by (simp add: contact_row_def)
  obtain K' where K': "field ?from ''identityPub'' = JStr K'" "K' \<noteq> []" and dh: "truthy (field ?from ''dhPub'')"
    by (rule checked_shape [of env trusted code payload]) (use frame(1) in \<open>simp add: passes_def\<close>)
  obtain hints where hints: "frame_hints dec device JNull = Some hints" using stranger_hints by blast
  define row where "row = requested_profile env payload JNull (computeFriendId bs) device hints"
  have row: "field row ''id'' = JStr (fe_newProfileId env)" "?P row" "field row ''friendStatus'' = JStr ''request_in''"
    "field row ''kind'' = JStr ''friend''"
    using stranger(1) by (simp_all add: row_def requested_profile_def Let_def next_friend_status_def)
  define a1 where "a1 = a\<lparr>ap_profiles := tbl_put row_key row (ap_profiles a)\<rparr>"
  have saved: "saveProfile row a = Some a1" using row(1) by (simp add: saveProfile_profiles a1_def)
  have convs: "ap_conversations a1 = ap_conversations a" by (simp add: a1_def)
  have cid: "nn (field payload ''convId'') (nn (field payload ''convId'') (JStr (fe_newConvId env))) = JStr cv"
    using conv(1) by (auto simp: nn_def split: if_splits)
  define c where "c = new_request_conversation (fe_now env) (JStr cv) payload row (JStr u)"
  have "field c ''id'' = JStr cv" "rows_ok (ap_conversations a1)"
    using ok(2) by (simp_all add: c_def new_request_conversation_def a1_def)
  then obtain a' where a': "saveConversation c a1 = Some a'" "conversation cv a' = Some c" using saveConversation_row by blast
  have "resolveLocalUserId a1 = (JStr u, a1)" using user(1) by (simp add: resolveLocalUserId_def a1_def)
  moreover have "friend_conversation (JStr cv) (field row ''id'') a1 = JNull"
    using conv(2) unfolding friend_conversation_def row(1) convs .
  ultimately have "save_request_conversation env (JStr cv) payload row a1 = (FrameHandled, a')"
    using user(2) row(3) a'(1) by (simp add: save_request_conversation_def c_def)
  moreover have "upsertFriendFromRequest env (nn (field payload ''convId'') (JStr (fe_newConvId env))) payload a =
      save_request_conversation env (JStr cv) payload row a1"
    using K' dh frame(3) stranger(1,2) hints saved
    unfolding upsertFriendFromRequest_def Let_def stranger(1) none dec_def [symmetric] device_def [symmetric] cid
    by (simp add: str_bytes_def row_def [symmetric])
  ultimately have "handleIncomingFriendFrame env trusted code payload a = (FrameHandled, a')"
    using frame(1,2) by (simp add: handle_cases)
  moreover have "contact_row K a' = Some row"
    using find_put_new [of ?P "ap_profiles a" row row_key] stranger(3) row(2) saveConversation_profiles [OF a'(1)]
    by (simp add: contact_row_def a1_def)
  moreover have "field c ''pendingAcceptance'' = JBool True" "field c ''type'' = JStr ''direct''"
    "field c ''participants'' = JArr [JStr u, field row ''id'']"
    by (simp_all add: c_def new_request_conversation_def)
  ultimately show ?thesis using row(3,4) a'(2) by blast
qed

text \<open>
  A stranger's request waits for the user: when a request that passes the checks comes from a
  key no contact has, and no conversation of its id is there, a contact of that key is stored with the
  status request_in, and the conversation that is created is direct, between the user and that contact,
  and marked as waiting for acceptance; no message of it is shown as a friend's.
\<close>

theorem request_of_stranger_waits:
  assumes ok: "contacts_ok a" "rows_ok (ap_conversations a)"
    and frame: "passes env trusted code payload a" "field payload ''type'' = JStr ''friend_req''" "\<not> fe_autoReject env"
    and stranger: "field (field payload ''from'') ''identityPub'' = JStr K" "decodeBase64Url K = Some bs" "contact_row K a = None"
    and user: "ap_userIdCache a = Some (JStr u)" "u \<noteq> []"
    and conv: "nn (field payload ''convId'') (JStr (fe_newConvId env)) = JStr cv"
      "friend_conversation (JStr cv) (JStr (fe_newProfileId env)) a = JNull"
  shows "\<exists>a' p c. handleIncomingFriendFrame env trusted code payload a = (FrameHandled, a') \<and>
    contact_row K a' = Some p \<and> field p ''friendStatus'' = JStr ''request_in'' \<and> field p ''kind'' = JStr ''friend'' \<and>
    conversation cv a' = Some c \<and> field c ''pendingAcceptance'' = JBool True \<and> field c ''type'' = JStr ''direct'' \<and>
    field c ''participants'' = JArr [JStr u, field p ''id'']"
  by (rule stranger_request_result [OF assms])

subsection \<open>Answers nobody asked for\<close>

lemma answer_result:
  assumes ok: "contacts_ok a" and frame: "passes env trusted code payload a" "field payload ''type'' \<noteq> JStr ''friend_req''"
    and K: "field (field payload ''from'') ''identityPub'' = JStr K" "contact_row K a = Some p"
    and hints: "frame_hints (decoded_code (fe_platform env) (field payload ''from''))
      (resolved_device (decoded_code (fe_platform env) (field payload ''from'')) (field payload ''from'') p) p = Some h"
    and conv: "rows_ok (ap_conversations a)" "nn (field payload ''convId'') (JStr []) = JStr cv"
      "find_row (\<lambda>c. field c ''id'' = JStr cv) (ap_conversations a) = c" "c \<noteq> JNull"
  shows "\<exists>a' p'. handleIncomingFriendFrame env trusted code payload a = (FrameHandled, a') \<and>
    contact_row K a' = Some p' \<and> field p' ''friendStatus'' = response_status payload \<and>
    conversation cv a' = Some (answered_conversation (response_status payload) c)"
proof -
  let ?from = "field payload ''from''"
  let ?P = "\<lambda>q. field q ''identityPub'' = JStr K"
  have checked: "frame_checked env trusted code payload = Verified" using frame(1) by (simp add: passes_def)
  obtain K' where K': "field ?from ''identityPub'' = JStr K'" "K' \<noteq> []" and dh: "truthy (field ?from ''dhPub'')"
    by (rule checked_shape [OF checked])
  have "find_row ?P (ap_profiles a) = p \<and> p \<noteq> JNull"
    using K(2) unfolding find_row_eq(1) [OF ok] contact_row_def by simp
  then have res: "resolveFriendByIdentity a K = p" "p \<noteq> JNull" using K K' by (simp_all add: resolveFriendByIdentity_def)
  define row where "row = answered_profile env payload p
      (resolved_device (decoded_code (fe_platform env) ?from) ?from p) h"
  have p: "p \<in> set (ap_profiles a)" "?P p" using K(2) by (auto simp: contact_row_def find_Some_iff)
  obtain i where i: "field p ''id'' = JStr i" using contact_id [OF ok p(1)] by blast
  have row: "field row ''id'' = JStr i" "?P row" "field row ''friendStatus'' = response_status payload"
    using i p(2) by (simp_all add: row_def answered_profile_def Let_def field_spread)
  define a1 where "a1 = a\<lparr>ap_profiles := tbl_put row_key row (ap_profiles a)\<rparr>"
  have saved: "saveProfile row a = Some a1" using row(1) by (simp add: saveProfile_profiles a1_def)
  have found: "friend_conversation (JStr cv) (field p ''id'') a1 = c"
    using conv(3,4) by (simp add: friend_conversation_def a1_def Let_def)
  have "field c ''id'' = JStr cv" using conv(3,4) find_row_Some by blast
  then have "field (answered_conversation (response_status payload) c) ''id'' = JStr cv"
    by (simp add: answered_conversation_def field_spread)
  moreover have "rows_ok (ap_conversations a1)" using conv(1) by (simp add: a1_def)
  ultimately obtain a' where a': "saveConversation (answered_conversation (response_status payload) c) a1 = Some a'"
    "conversation cv a' = Some (answered_conversation (response_status payload) c)"
    using saveConversation_row by blast
  have "handleIncomingFriendFrame env trusted code payload a = (FrameHandled, a')"
    using frame dh K' K(1) res hints saved found a'(1) conv(2,4)
    by (simp add: handle_cases applyFriendResponse_def Let_def row_def)
  moreover have "contact_row K a' = Some row"
    using find_put_same [of row_key "ap_profiles a" ?P p row] ok K(2) row i saveConversation_profiles [OF a'(1)]
    by (simp add: contact_row_def a1_def contacts_ok_def row_key_def)
  ultimately show ?thesis using row(3) a'(2) by blast
qed

text \<open>
  A frame of type friend_accept makes its sender a friend whatever the contact's status is: whoever
  sent a request that the user has not answered, or was blocked, accepts it in the user's place with
  a frame of its own, and the conversation stops waiting for the user's acceptance.
\<close>

theorem accept_frame_befriends_unasked:
  assumes "contacts_ok a" "passes env trusted code payload a" "field payload ''type'' = JStr ''friend_accept''"
    and "field (field payload ''from'') ''identityPub'' = JStr K" "contact_row K a = Some p"
    and "field p ''friendStatus'' \<in> {JStr ''request_in'', JStr ''blocked''}"
    and "frame_hints (decoded_code (fe_platform env) (field payload ''from''))
      (resolved_device (decoded_code (fe_platform env) (field payload ''from'')) (field payload ''from'') p) p = Some h"
    and "rows_ok (ap_conversations a)" "nn (field payload ''convId'') (JStr []) = JStr cv"
      "find_row (\<lambda>c. field c ''id'' = JStr cv) (ap_conversations a) = c" "c \<noteq> JNull"
  shows "\<exists>a' p' c'. handleIncomingFriendFrame env trusted code payload a = (FrameHandled, a') \<and>
    contact_row K a' = Some p' \<and> field p' ''friendStatus'' = JStr ''normal'' \<and>
    conversation cv a' = Some c' \<and> field c' ''pendingAcceptance'' = JBool False"
proof -
  have type: "field payload ''type'' \<noteq> JStr ''friend_req''" using assms(3) by simp
  obtain a' p' where "handleIncomingFriendFrame env trusted code payload a = (FrameHandled, a')"
    "contact_row K a' = Some p'" "field p' ''friendStatus'' = response_status payload"
    "conversation cv a' = Some (answered_conversation (response_status payload) c)"
    using answer_result [OF assms(1,2) type assms(4,5,7-11)] by blast
  then show ?thesis using assms(3) by (simp add: response_status_def answered_conversation_def field_spread)
qed

text \<open>
  The conversation a declining frame names need not be one with its sender: any contact hides any
  conversation of the user whose id it knows, a group of others for one.
\<close>

theorem decline_hides_any_conversation:
  assumes "contacts_ok a" "passes env trusted code payload a" "field payload ''type'' = JStr ''friend_decline''"
    and "field (field payload ''from'') ''identityPub'' = JStr K" "contact_row K a = Some p"
    and "frame_hints (decoded_code (fe_platform env) (field payload ''from''))
      (resolved_device (decoded_code (fe_platform env) (field payload ''from'')) (field payload ''from'') p) p = Some h"
    and "rows_ok (ap_conversations a)" "nn (field payload ''convId'') (JStr []) = JStr cv"
      "find_row (\<lambda>c. field c ''id'' = JStr cv) (ap_conversations a) = c" "c \<noteq> JNull"
    and "field c ''type'' = JStr ''group''" "field p ''id'' \<notin> set (elements (field c ''participants''))"
  shows "\<exists>a' c'. handleIncomingFriendFrame env trusted code payload a = (FrameHandled, a') \<and>
    conversation cv a' = Some c' \<and> field c' ''type'' = JStr ''group'' \<and> field c' ''hidden'' = JBool True"
proof -
  have type: "field payload ''type'' \<noteq> JStr ''friend_req''" using assms(3) by simp
  obtain a' p' where "handleIncomingFriendFrame env trusted code payload a = (FrameHandled, a')"
    "conversation cv a' = Some (answered_conversation (response_status payload) c)"
    using answer_result [OF assms(1,2) type assms(4,5,6-10)] by blast
  then show ?thesis using assms(3,11) by (simp add: response_status_def answered_conversation_def field_spread)
qed

subsection \<open>Concrete inputs\<close>

definition demo_friend_env :: friend_env where
  "demo_friend_env = \<lparr>fe_device = demo_device [3] [4] ''b'', fe_now = 10, fe_newConvId = ''nc'', fe_newProfileId = ''np'',
     fe_autoReject = False\<rparr>"

text \<open>A frame of the key 1 with a time stamp, about a conversation.\<close>

definition demo_friend_frame :: "string \<Rightarrow> string \<Rightarrow> json" where
  "demo_friend_frame type ts = JObj [(''type'', JStr type), (''convId'', JStr ''g''), (''from'', JObj
     [(''identityPub'', JStr (encodeBase64Url [1])), (''dhPub'', JStr (encodeBase64Url [2]))]), (''ts'', JNum ts)]"

definition demo_contact :: "string \<Rightarrow> json" where
  "demo_contact status = JObj [(''id'', JStr ''p''), (''kind'', JStr ''friend''), (''identityPub'', JStr (encodeBase64Url [1])),
     (''friendStatus'', JStr status)]"

definition demo_contacts :: "string \<Rightarrow> app_state" where
  "demo_contacts status = sample_app\<lparr>ap_profiles := [demo_contact status]\<rparr>"

lemma demo_contacts_ok:
  "contacts_ok (demo_contacts status)" "contact_row (encodeBase64Url [1]) (demo_contacts status) = Some (demo_contact status)"
  "rows_ok (ap_conversations (demo_contacts status))" "ap_conversations (demo_contacts status) = [sample_row]"
  by (simp_all add: contacts_ok_def contact_ok_def demo_contacts_def demo_contact_def missing_def tbl_ok_def
      contact_row_def sample_app_def)

lemma demo_frame_fields:
  "field (demo_friend_frame type ts) ''type'' = JStr type" "field (demo_friend_frame type ts) ''convId'' = JStr ''g''"
  "field (demo_friend_frame type ts) ''ts'' = JNum ts" "field (demo_friend_frame type ts) ''protocol'' = JUndef"
  "field (demo_friend_frame type ts) ''profile'' = JUndef"
  "field (field (demo_friend_frame type ts) ''from'') ''identityPub'' = JStr (encodeBase64Url [1])"
  "field (field (demo_friend_frame type ts) ''from'') ''dhPub'' = JStr (encodeBase64Url [2])"
  "field (field (demo_friend_frame type ts) ''from'') ''friendCode'' = JUndef"
  "field (field (demo_friend_frame type ts) ''from'') ''deviceId'' = JUndef"
  "is_object (demo_friend_frame type ts)" "is_object (field (demo_friend_frame type ts) ''from'')"
  by (simp_all add: demo_friend_frame_def)

lemma demo_checked:
  assumes "type \<in> {''friend_req'', ''friend_accept'', ''friend_decline''}"
  shows "frame_checked demo_friend_env True code (demo_friend_frame type ts) = Verified"
proof -
  have "isFriendControlFrame (demo_friend_frame type ts)"
    using assms by (auto simp: isFriendControlFrame_def demo_frame_fields nonblank_encoded)
  moreover have "check_friend_code pf (field (demo_friend_frame type ts) ''from'') = Verified" for pf
    by (simp add: check_friend_code_def demo_frame_fields)
  ultimately show ?thesis
    by (simp add: frame_checked_def verifyFriendControlFrameProtocol_def Let_def and_then_def demo_frame_fields)
qed

lemma demo_resolve: "resolveFriendByIdentity (demo_contacts status) (encodeBase64Url [1]) = demo_contact status"
  by (simp add: resolveFriendByIdentity_def find_row_def demo_contacts_def demo_contact_def demo_keys_nonempty)

lemma demo_passes:
  assumes "type \<in> {''friend_req'', ''friend_accept'', ''friend_decline''}"
  shows "passes demo_friend_env True code (demo_friend_frame type ts) (demo_contacts status)"
  using demo_checked [OF assms] by (simp add: passes_def demo_frame_fields demo_resolve replayed_ts_def demo_contact_def split: option.split)

lemma demo_hints:
  "frame_hints (decoded_code (fe_platform demo_friend_env) (field (demo_friend_frame type ts) ''from''))
    (resolved_device (decoded_code (fe_platform demo_friend_env) (field (demo_friend_frame type ts) ''from''))
      (field (demo_friend_frame type ts) ''from'') (demo_contact status)) (demo_contact status) = Some JUndef"
  by (simp add: decoded_code_def resolved_device_def demo_frame_fields frame_hints_def code_onion_def demo_contact_def
      opt_str_def sanitizeRoutingHints_def nn_def)

definition demo_group :: json where
  "demo_group = JObj [(''id'', JStr ''g''), (''type'', JStr ''group''), (''participants'', JArr [JStr ''me'', JStr ''q'', JStr ''r''])]"

lemma demo_conversation:
  "find_row (\<lambda>c. field c ''id'' = JStr ''g'') [sample_row] = sample_row" "sample_row \<noteq> JNull"
  "find_row (\<lambda>c. field c ''id'' = JStr ''g'') [demo_group] = demo_group" "demo_group \<noteq> JNull"
  by (simp_all add: find_row_def sample_row_def demo_group_def)

theorem accept_frame_befriends_unasked_witness:
  "\<exists>a' p' c'. handleIncomingFriendFrame demo_friend_env True None (demo_friend_frame ''friend_accept'' ''5'')
      (demo_contacts ''request_in'') = (FrameHandled, a') \<and>
    contact_row (encodeBase64Url [1]) a' = Some p' \<and> field p' ''friendStatus'' = JStr ''normal'' \<and>
    conversation ''g'' a' = Some c' \<and> field c' ''pendingAcceptance'' = JBool False"
  by (rule accept_frame_befriends_unasked [OF demo_contacts_ok(1) demo_passes _ demo_frame_fields(6) demo_contacts_ok(2) _ demo_hints
        demo_contacts_ok(3), where c = sample_row])
    (simp_all add: demo_frame_fields demo_contact_def demo_contacts_ok(4) demo_conversation)

definition demo_group_app :: app_state where
  "demo_group_app = (demo_contacts ''normal'')\<lparr>ap_conversations := [demo_group]\<rparr>"

theorem decline_hides_any_conversation_witness:
  "\<exists>a' c'. handleIncomingFriendFrame demo_friend_env True None (demo_friend_frame ''friend_decline'' ''5'') demo_group_app =
      (FrameHandled, a') \<and>
    conversation ''g'' a' = Some c' \<and> field c' ''type'' = JStr ''group'' \<and> field c' ''hidden'' = JBool True"
proof -
  have ok: "contacts_ok demo_group_app" "contact_row (encodeBase64Url [1]) demo_group_app = Some (demo_contact ''normal'')"
    using demo_contacts_ok(1,2) [of "''normal''"] by (simp_all add: demo_group_app_def contacts_ok_def contact_row_def)
  have "resolveFriendByIdentity demo_group_app K = resolveFriendByIdentity (demo_contacts ''normal'') K" for K
    by (simp add: resolveFriendByIdentity_def demo_group_app_def Let_def split: option.split)
  then have pass: "passes demo_friend_env True None (demo_friend_frame ''friend_decline'' ''5'') demo_group_app"
    using demo_passes [of "''friend_decline''" None "''5''" "''normal''"] by (simp add: passes_def)
  show ?thesis
    by (rule decline_hides_any_conversation [OF ok(1) pass _ demo_frame_fields(6) ok(2) demo_hints, where c = demo_group])
      (simp_all add: demo_frame_fields demo_contact_def demo_conversation demo_group_app_def,
       simp_all add: demo_group_def tbl_ok_def)
qed

lemma demo_request_handled:
  obtains a1 p1 where "handleIncomingFriendFrame demo_friend_env True None (demo_friend_frame ''friend_accept'' ''5'')
      (demo_contacts ''request_out'') = (FrameHandled, a1)" "contact_row (encodeBase64Url [1]) a1 = Some p1" "field p1 ''id'' = JStr ''p''"
proof -
  have "\<exists>a' p'. handleIncomingFriendFrame demo_friend_env True None (demo_friend_frame ''friend_accept'' ''5'')
      (demo_contacts ''request_out'') = (FrameHandled, a') \<and> contact_row (encodeBase64Url [1]) a' = Some p' \<and>
    field p' ''friendStatus'' = response_status (demo_friend_frame ''friend_accept'' ''5'') \<and>
    conversation ''g'' a' = Some (answered_conversation (response_status (demo_friend_frame ''friend_accept'' ''5'')) sample_row)"
    by (rule answer_result [OF demo_contacts_ok(1) demo_passes _ demo_frame_fields(6) demo_contacts_ok(2) demo_hints
          demo_contacts_ok(3), where c = sample_row])
      (simp_all add: demo_frame_fields demo_contacts_ok(4) demo_conversation)
  then obtain a1 p1 where h: "handleIncomingFriendFrame demo_friend_env True None (demo_friend_frame ''friend_accept'' ''5'')
      (demo_contacts ''request_out'') = (FrameHandled, a1)" "contact_row (encodeBase64Url [1]) a1 = Some p1" by blast
  have "\<exists>p'. contact_row (encodeBase64Url [1]) a1 = Some p' \<and> field p' ''id'' = JStr ''p''"
    using contact_step [OF demo_contacts_ok(1,2) _ _ h(1), of "''p''"] by (auto simp: demo_contact_def demo_friend_env_def)
  then show ?thesis using that h by auto
qed

theorem friend_frame_counts_once_witness:
  "\<exists>a1 r. handleIncomingFriendFrame demo_friend_env True None (demo_friend_frame ''friend_accept'' ''5'')
      (demo_contacts ''request_out'') = (FrameHandled, a1) \<and>
    handleIncomingFriendFrame demo_friend_env True None (demo_friend_frame ''friend_decline'' ''4'')
      (fold deliver [(demo_friend_env, True, None, demo_friend_frame ''friend_req'' ''7'')] a1) =
      (r, fold deliver [(demo_friend_env, True, None, demo_friend_frame ''friend_req'' ''7'')] a1) \<and> r \<noteq> FrameHandled"
proof -
  obtain a1 p1 where h: "handleIncomingFriendFrame demo_friend_env True None (demo_friend_frame ''friend_accept'' ''5'')
      (demo_contacts ''request_out'') = (FrameHandled, a1)" "contact_row (encodeBase64Url [1]) a1 = Some p1" "field p1 ''id'' = JStr ''p''"
    by (rule demo_request_handled)
  have "num_value ''4'' \<le> num_value ''5''" by code_simp
  then have "\<exists>r. handleIncomingFriendFrame demo_friend_env True None (demo_friend_frame ''friend_decline'' ''4'')
      (fold deliver [(demo_friend_env, True, None, demo_friend_frame ''friend_req'' ''7'')] a1) =
      (r, fold deliver [(demo_friend_env, True, None, demo_friend_frame ''friend_req'' ''7'')] a1) \<and> r \<noteq> FrameHandled"
    by (intro friend_frame_counts_once [OF demo_contacts_ok(1) h(1) demo_frame_fields(6) _ h(2,3) _ demo_frame_fields(6)])
      (simp_all add: demo_frame_fields timed_delivery_def demo_friend_env_def demo_keys_nonempty)
  then show ?thesis using h(1) by blast
qed

theorem blocked_contact_stays_blocked_witness:
  "\<exists>p'. contact_row (encodeBase64Url [1]) (fold deliver
      [(demo_friend_env, True, None, demo_friend_frame ''friend_req'' ''5'')] (demo_contacts ''blocked'')) = Some p' \<and>
    field p' ''id'' = JStr ''p'' \<and> field p' ''friendStatus'' = JStr ''blocked''"
  by (rule blocked_contact_stays_blocked [OF demo_contacts_ok(1,2)])
    (simp_all add: demo_contact_def demo_friend_env_def demo_frame_fields)

theorem request_of_stranger_waits_witness:
  "\<exists>a' p c. handleIncomingFriendFrame demo_friend_env True None (demo_friend_frame ''friend_req'' ''5'')
      (sample_app\<lparr>ap_conversations := []\<rparr>) = (FrameHandled, a') \<and>
    contact_row (encodeBase64Url [1]) a' = Some p \<and> field p ''friendStatus'' = JStr ''request_in'' \<and>
    field p ''kind'' = JStr ''friend'' \<and>
    conversation ''g'' a' = Some c \<and> field c ''pendingAcceptance'' = JBool True \<and> field c ''type'' = JStr ''direct'' \<and>
    field c ''participants'' = JArr [JStr ''me'', field p ''id'']"
proof (rule request_of_stranger_waits [where bs = "[1]", OF _ _ _ _ _ demo_frame_fields(6)])
  let ?a = "sample_app\<lparr>ap_conversations := []\<rparr>"
  have "resolveFriendByIdentity ?a (encodeBase64Url [1]) = JNull"
    by (simp add: resolveFriendByIdentity_def find_row_def sample_app_def split: option.split)
  then show "passes demo_friend_env True None (demo_friend_frame ''friend_req'' ''5'') ?a"
    using demo_checked [of "''friend_req''"] by (simp add: passes_def demo_frame_fields replayed_ts_def)
  show "friend_conversation (JStr ''g'') (JStr (fe_newProfileId demo_friend_env)) ?a = JNull"
    by (simp add: friend_conversation_def find_row_def)
qed (simp_all add: contacts_ok_def sample_app_def demo_frame_fields demo_friend_env_def contact_row_def decode_encode)





text \<open>A sealed answer whose time is a text, and then a sealed answer with a time long past.\<close>

definition demo_text_frame :: json where
  "demo_text_frame = JObj [(''type'', JStr ''friend_accept''), (''convId'', JStr ''g''), (''from'', JObj
     [(''identityPub'', JStr (encodeBase64Url [1])), (''dhPub'', JStr (encodeBase64Url [2]))]), (''ts'', JStr ''x'')]"

lemma demo_text_fields:
  "field demo_text_frame k = (if k = ''ts'' then JStr ''x'' else field (demo_friend_frame ''friend_accept'' ''5'') k)"
  "is_object demo_text_frame"
  by (simp_all add: demo_text_frame_def demo_friend_frame_def)

lemma demo_text_checked: "frame_checked demo_friend_env True code demo_text_frame = Verified"
  using demo_checked [of "''friend_accept''" code "''5''"]
  by (simp add: frame_checked_def isFriendControlFrame_def demo_text_fields demo_frame_fields
      verifyFriendControlFrameProtocol_def Let_def and_then_def split: if_splits)

lemma demo_text_handled:
  "\<exists>a1 p1. handleIncomingFriendFrame demo_friend_env True None demo_text_frame (demo_contacts ''request_out'') = (FrameHandled, a1) \<and>
     contact_row (encodeBase64Url [1]) a1 = Some p1"
proof -
  have from': "field demo_text_frame ''from'' = field (demo_friend_frame ''friend_accept'' ''5'') ''from''"
    by (simp add: demo_text_fields)
  have pass: "passes demo_friend_env True None demo_text_frame (demo_contacts ''request_out'')"
    using demo_text_checked by (simp add: passes_def replayed_ts_def demo_text_fields)
  have "\<exists>a' p'. handleIncomingFriendFrame demo_friend_env True None demo_text_frame (demo_contacts ''request_out'') = (FrameHandled, a') \<and>
      contact_row (encodeBase64Url [1]) a' = Some p' \<and> field p' ''friendStatus'' = response_status demo_text_frame \<and>
      conversation ''g'' a' = Some (answered_conversation (response_status demo_text_frame) sample_row)"
    by (rule answer_result [OF demo_contacts_ok(1) pass _ _ demo_contacts_ok(2) _ demo_contacts_ok(3)])
      (simp_all add: from' demo_frame_fields demo_hints, simp_all add: demo_text_fields demo_frame_fields demo_contacts_ok(4)
        demo_conversation)
  then show ?thesis by blast
qed

theorem sealed_frame_without_time_forgets_witness:
  "\<exists>a1. handleIncomingFriendFrame demo_friend_env True None demo_text_frame (demo_contacts ''request_out'') = (FrameHandled, a1) \<and>
     passes demo_friend_env True None (demo_friend_frame ''friend_decline'' ''1'') a1"
proof -
  obtain a1 p1 where h: "handleIncomingFriendFrame demo_friend_env True None demo_text_frame (demo_contacts ''request_out'') = (FrameHandled, a1)"
    and p1: "contact_row (encodeBase64Url [1]) a1 = Some p1"
    using demo_text_handled by blast
  have k: "field (field demo_text_frame ''from'') ''identityPub'' = JStr (encodeBase64Url [1])" "field demo_text_frame ''ts'' = JStr ''x''"
    by (simp_all add: demo_text_frame_def)
  have "frame_checked demo_friend_env True None (demo_friend_frame ''friend_decline'' ''1'') = Verified"
    by (rule demo_checked) simp
  from sealed_frame_without_time_forgets [OF demo_contacts_ok(1) h k p1 _ demo_frame_fields(6) this]
  show ?thesis using h by (simp add: demo_keys_nonempty)
qed

end
