(* ===== verification/Friend_Workers.thy ===== *)
theory Friend_Workers
  imports Friend_Frames
begin

text \<open>
  What runs around the friend frames: the listener that takes them, and sealed envelopes, from
  the packets of the router (src/src/friends/friendInbox.ts), the two workers that send requests and
  answers again until they arrive (friendRequestScheduler.ts, friendResponseScheduler.ts), and the test
  whether a friend code with an onion address can be given out (friendCodeReadiness.ts). Reports
  are left out. What an attempt to send gives is an argument.
\<close>

subsection \<open>The listener\<close>

text \<open>The payload of a packet: a text, bytes, an object with a base64 text, or nothing that can be read.\<close>

datatype inbox_payload = InText string | InBytes bytes | InB64 json | InOther

definition decodePayload :: "platform \<Rightarrow> inbox_payload \<Rightarrow> string option" where
  "decodePayload pf payload = (case payload of
       InText s \<Rightarrow> Some s
     | InBytes bs \<Rightarrow> Some (pf_text_decode pf bs)
     | InB64 b64 \<Rightarrow> map_option (pf_text_decode pf) (str_bytes b64)
     | InOther \<Rightarrow> None)"

text \<open>
  One packet. The relay has said whether the packet is one of its own, and what it delivers here;
  the events are the calls of the callback for changes: without a type, or with the type of a friend frame.
\<close>

definition onFriendPacket ::
    "local_env \<Rightarrow> friend_env \<Rightarrow> string option \<Rightarrow> bool \<times> inbox_payload option \<Rightarrow> inbox_payload \<Rightarrow> sync_state \<Rightarrow>
     json list \<times> sync_state" where
  "onFriendPacket env fenv localFriendCode relay packet st =
     (if fst relay \<and> snd relay = None then ([], st)
      else (case decodePayload (le_platform env) (nullish (snd relay) packet) of
          None \<Rightarrow> ([], st)
        | Some text' \<Rightarrow>
            if text' = [] then ([], st)
            else (case pf_json_parse (le_platform env) text' of
                None \<Rightarrow> ([], st)
              | Some parsed \<Rightarrow>
                  if \<not> is_object parsed then ([], st)
                  else if field parsed ''type'' \<notin> {JStr ''friend_req'', JStr ''friend_accept'', JStr ''friend_decline''}
                  then (case ingestIncomingEnvelopeText env text' st of
                      (handled, st') \<Rightarrow> (if handled then [JUndef] else [], st'))
                  else (case handleIncomingFriendFrame fenv False localFriendCode parsed (sy_app st) of
                      (r, a) \<Rightarrow> (if r = FrameHandled then [field parsed ''type''] else [], st\<lparr>sy_app := a\<rparr>)))))"

text \<open>The listener is registered once; a later start replaces the callbacks it is given.\<close>

record inbox_listener =
  il_started :: bool
  il_onChange :: "nat option"
  il_getLocalFriendCode :: "nat option"
  il_registered :: nat

definition startFriendInboxListener :: "nat option \<Rightarrow> nat option \<Rightarrow> inbox_listener \<Rightarrow> inbox_listener" where
  "startFriendInboxListener onChange getLocalFriendCode l =
     (let l1 = l\<lparr>il_onChange := or_else onChange (il_onChange l),
            il_getLocalFriendCode := or_else getLocalFriendCode (il_getLocalFriendCode l)\<rparr>
      in if il_started l1 then l1 else l1\<lparr>il_started := True, il_registered := Suc (il_registered l1)\<rparr>)"

definition init_listener :: inbox_listener where
  "init_listener = \<lparr>il_started = False, il_onChange = None, il_getLocalFriendCode = None, il_registered = 0\<rparr>"

subsection \<open>Waiting between attempts\<close>

definition BACKOFF_STEPS_MS :: "int list" where
  "BACKOFF_STEPS_MS = [5000, 15000, 60000, 300000]"

text \<open>An index below the list reads nothing and gives NaN in the source; the callers do not go there.\<close>

definition nextBackoffMs :: "nat \<Rightarrow> int" where
  "nextBackoffMs attempts = BACKOFF_STEPS_MS ! min attempts (length BACKOFF_STEPS_MS - 1)"

subsection \<open>Requests that are sent again\<close>

record reachability =
  re_status :: "string option"
  re_attempts :: "nat option"
  re_lastAttemptAt :: "time_ms option"
  re_nextAttemptAt :: "time_ms option"

record friend_target =
  ft_id :: string
  ft_friendStatus :: "string option"
  ft_reachability :: "reachability option"

definition reach :: "(reachability \<Rightarrow> 'a option) \<Rightarrow> friend_target \<Rightarrow> 'a option" where
  "reach sel f = Option.bind (ft_reachability f) sel"

definition request_target :: "friend_target \<Rightarrow> bool" where
  "request_target f \<longleftrightarrow> ft_friendStatus f = Some ''request_out'' \<and> reach re_status f \<noteq> Some ''expired''"

definition request_due :: "time_ms \<Rightarrow> friend_target \<Rightarrow> bool" where
  "request_due now f \<longleftrightarrow>
     (let nextAttemptAt = nullish (reach re_nextAttemptAt f) 0; lastAttemptAt = nullish (reach re_lastAttemptAt f) 0
      in \<not> (nextAttemptAt \<noteq> 0 \<and> now < nextAttemptAt) \<and> \<not> now - lastAttemptAt < 5000)"

definition request_patch :: "time_ms \<Rightarrow> bool \<Rightarrow> friend_target \<Rightarrow> reachability" where
  "request_patch now ok f =
     (let nextAttempts = nullish (reach re_attempts f) 0 + 1
      in \<lparr>re_status = Some (if ok then ''ok'' else nullish (reach re_status f) ''unreachable''),
          re_attempts = Some (if ok then 0 else nextAttempts), re_lastAttemptAt = Some now,
          re_nextAttemptAt = (if ok then None else Some (now + nextBackoffMs (nextAttempts - 1)))\<rparr>)"

text \<open>
  A tick: the friends to whom an attempt is made, in order, each with what the worker asks the
  application to store for it. A tick that finds the worker stopped or a tick running does nothing.
\<close>

definition request_tick :: "bool \<times> bool \<Rightarrow> time_ms \<Rightarrow> (friend_target \<Rightarrow> bool) \<Rightarrow> friend_target list \<Rightarrow>
    (string \<times> reachability) list" where
  "request_tick = (\<lambda>(stopped, inFlight) now onAttempt targets.
     if stopped \<or> inFlight then []
     else map (\<lambda>f. (ft_id f, request_patch now (onAttempt f) f)) (filter (request_due now) (filter request_target targets)))"

text \<open>What the application does with an update: the friend of that id gets the new reachability.\<close>

definition apply_update :: "string \<times> reachability \<Rightarrow> friend_target list \<Rightarrow> friend_target list" where
  "apply_update = (\<lambda>(i, r). map (\<lambda>f. if ft_id f = i then f\<lparr>ft_reachability := Some r\<rparr> else f))"

subsection \<open>Answers that are sent again\<close>

record answer_attempt =
  as_attempts :: nat
  as_nextAttemptAt :: time_ms
  as_lastAttemptAt :: time_ms

type_synonym attempts = "(string \<times> answer_attempt) list"

definition no_attempt :: answer_attempt where
  "no_attempt = \<lparr>as_attempts = 0, as_nextAttemptAt = 0, as_lastAttemptAt = 0\<rparr>"

definition response_due :: "time_ms \<Rightarrow> answer_attempt \<Rightarrow> bool" where
  "response_due now c \<longleftrightarrow> \<not> (as_nextAttemptAt c \<noteq> 0 \<and> now < as_nextAttemptAt c) \<and> \<not> now - as_lastAttemptAt c < 5000"

definition response_step :: "time_ms \<Rightarrow> (string \<Rightarrow> bool) \<Rightarrow> string \<Rightarrow> attempts \<times> string list \<Rightarrow> attempts \<times> string list" where
  "response_step now onAttempt convId = (\<lambda>(states, sent).
     let current = nullish (map_of states convId) no_attempt
     in if \<not> response_due now current then (states, sent)
        else if onAttempt convId then (AList.delete convId states, sent @ [convId])
        else (AList.update convId \<lparr>as_attempts = as_attempts current + 1,
            as_nextAttemptAt = now + nextBackoffMs (as_attempts current), as_lastAttemptAt = now\<rparr> states, sent @ [convId]))"

text \<open>The targets are the conversations whose answer is pending; what no longer is one is forgotten.\<close>

definition response_tick :: "bool \<Rightarrow> time_ms \<Rightarrow> (string \<Rightarrow> bool) \<Rightarrow> string list \<Rightarrow> attempts \<Rightarrow> attempts \<times> string list" where
  "response_tick stopped now onAttempt targets states =
     (if stopped then (states, [])
      else fold (response_step now onAttempt) targets (filter (\<lambda>(c, s). c \<in> set targets) states, []))"

subsection \<open>Readiness\<close>

definition isTorFriendCodeReady :: "string option \<Rightarrow> string option \<Rightarrow> bool" where
  "isTorFriendCodeReady torState onionAddr \<longleftrightarrow> torState = Some ''running'' \<and> trim (nullish onionAddr []) \<noteq> []"

subsection \<open>Packets\<close>

lemma listener_registered_once:
  "starts \<noteq> [] \<Longrightarrow> il_registered (fold (\<lambda>(c, g). startFriendInboxListener c g) starts init_listener) = 1"
proof -
  have once: "il_started (fold (\<lambda>(c, g). startFriendInboxListener c g) starts l) \<and>
      il_registered (fold (\<lambda>(c, g). startFriendInboxListener c g) starts l) = il_registered l" if "il_started l" for l starts
    using that by (induction starts arbitrary: l) (auto simp: startFriendInboxListener_def Let_def)
  assume "starts \<noteq> []"
  then obtain c g rest where "starts = (c, g) # rest" by (metis list.exhaust prod.exhaust)
  then show ?thesis
    using once [of "startFriendInboxListener c g init_listener" rest]
    by (simp add: startFriendInboxListener_def Let_def init_listener_def)
qed

text \<open>
  A packet that carries a friend frame changes nothing but contacts and conversations, and them only
  when the frame passed all checks of an untrusted frame; the callback gets its type only when it was
  handled.
\<close>

theorem packet_frame_is_checked:
  assumes "decodePayload (le_platform env) (nullish (snd relay) packet) = Some text'"
    and "pf_json_parse (le_platform env) text' = Some parsed"
    and "field parsed ''type'' \<in> {JStr ''friend_req'', JStr ''friend_accept'', JStr ''friend_decline''}"
    and "onFriendPacket env fenv code relay packet st = (events, st')"
  shows "st' = st\<lparr>sy_app := sy_app st'\<rparr> \<and>
    (sy_app st' = sy_app st \<and> events = [] \<or> passes fenv False code parsed (sy_app st) \<and> set events \<subseteq> {field parsed ''type''})"
proof (cases "st' = st \<and> events = []")
  case False
  then have "(case handleIncomingFriendFrame fenv False code parsed (sy_app st) of
      (r, a) \<Rightarrow> (if r = FrameHandled then [field parsed ''type''] else [], st\<lparr>sy_app := a\<rparr>)) = (events, st')"
    using assms by (auto simp: onFriendPacket_def split: if_splits)
  then show ?thesis by (auto simp: handle_cases split: if_splits prod.splits)
qed simp

subsection \<open>How often attempts are made\<close>

lemma nextBackoffMs_cases: "nextBackoffMs n = (if n = 0 then 5000 else if n = 1 then 15000 else if n = 2 then 60000 else 300000)"
  by (auto simp: nextBackoffMs_def BACKOFF_STEPS_MS_def min_def numeral_2_eq_2 numeral_3_eq_3 nth_Cons split: nat.split)

lemma nextBackoffMs_bounds: "5000 \<le> nextBackoffMs n" "nextBackoffMs n \<le> 300000" "m \<le> n \<Longrightarrow> nextBackoffMs m \<le> nextBackoffMs n"
  by (auto simp: nextBackoffMs_cases)

lemma ids_apply_update [simp]: "map ft_id (apply_update u fs) = map ft_id fs"
  by (cases u) (simp add: apply_update_def)

lemma apply_update_other: "f \<in> set fs \<Longrightarrow> ft_id f \<noteq> i \<Longrightarrow> f \<in> set (apply_update (i, r) fs)"
  by (force simp: apply_update_def)

lemma apply_updates_other: "f \<in> set fs \<Longrightarrow> ft_id f \<notin> fst ` set us \<Longrightarrow> f \<in> set (fold apply_update us fs)"
proof (induction us arbitrary: fs)
  case (Cons u us)
  then have "f \<in> set (apply_update u fs)" by (cases u) (auto intro: apply_update_other)
  then show ?case using Cons by simp
qed simp

lemma apply_updates_one:
  assumes "distinct (map fst us)" "(ft_id f, r) \<in> set us" "f \<in> set fs"
  shows "f\<lparr>ft_reachability := Some r\<rparr> \<in> set (fold apply_update us fs)"
  using assms
proof (induction us arbitrary: fs)
  case (Cons u us)
  obtain i q where u: "u = (i, q)" by (cases u)
  show ?case
  proof (cases "u = (ft_id f, r)")
    case True
    then have "f\<lparr>ft_reachability := Some r\<rparr> \<in> set (apply_update u fs)" using Cons.prems(3) by (force simp: apply_update_def)
    moreover have "ft_id (f\<lparr>ft_reachability := Some r\<rparr>) \<notin> fst ` set us" using True Cons.prems(1) by simp
    ultimately show ?thesis using apply_updates_other by simp
  next
    case False
    then have "(ft_id f, r) \<in> set us" using Cons.prems(2) by auto
    then have "ft_id f \<noteq> i" using Cons.prems(1) u by force
    then have "f \<in> set (apply_update u fs)" using apply_update_other [OF Cons.prems(3)] u by simp
    then show ?thesis using Cons.IH Cons.prems(1) \<open>(ft_id f, r) \<in> set us\<close> by simp
  qed
qed simp

text \<open>
  A friend request is sent again with growing patience: when an attempt is made to a friend
  at some time, the next attempt to it falls due exactly after the wait of the next step, 5 seconds up to 5 minutes,
  when the attempt failed, and after 5 seconds when it succeeded; as long as the friend has not
  answered, a request that arrived is sent again too.
\<close>

theorem request_attempts_spaced:
  assumes "distinct (map ft_id fs)" "f \<in> set fs" "request_target f" "request_due now f" "0 < now"
  shows "\<exists>f'. f' \<in> set (fold apply_update (request_tick (False, False) now onAttempt fs) fs) \<and> ft_id f' = ft_id f \<and>
    ft_friendStatus f' = ft_friendStatus f \<and>
    (\<forall>later. request_due later f' \<longleftrightarrow>
      now + (if onAttempt f then 5000 else nextBackoffMs (nullish (reach re_attempts f) 0)) \<le> later)"
proof -
  let ?us = "request_tick (False, False) now onAttempt fs"
  let ?r = "request_patch now (onAttempt f) f"
  let ?f = "f\<lparr>ft_reachability := Some ?r\<rparr>"
  have "map fst ?us = map ft_id (filter (request_due now) (filter request_target fs))" by (simp add: request_tick_def comp_def)
  then have "distinct (map fst ?us)" using assms(1) by (simp add: distinct_map_filter)
  moreover have "(ft_id f, ?r) \<in> set ?us" using assms(2-4) by (auto simp: request_tick_def)
  ultimately have "?f \<in> set (fold apply_update ?us fs)" using assms(2) by (rule apply_updates_one)
  moreover have "request_due later ?f \<longleftrightarrow>
      now + (if onAttempt f then 5000 else nextBackoffMs (nullish (reach re_attempts f) 0)) \<le> later" for later
    using nextBackoffMs_bounds(1) [of "nullish (reach re_attempts f) 0"] assms(5)
    by (auto simp: request_due_def reach_def request_patch_def Let_def)
  ultimately show ?thesis by force
qed

lemma response_fold_keys:
  "fst ` set states \<subseteq> T \<Longrightarrow> set cs \<subseteq> T \<Longrightarrow> fst ` set (fst (fold (response_step now att) cs (states, sent))) \<subseteq> T"
proof (induction cs arbitrary: states sent)
  case (Cons c cs)
  obtain s1 n1 where step: "response_step now att c (states, sent) = (s1, n1)" by (cases "response_step now att c (states, sent)")
  have "fst ` set (AList.delete c states) \<subseteq> fst ` set states" by (force simp: AList.delete_eq)
  moreover have "fst ` set (AList.update c v states) \<subseteq> T" for v using Cons.prems by (simp add: dom_update)
  moreover have "s1 = states \<or> s1 = AList.delete c states \<or> (\<exists>v. s1 = AList.update c v states)"
    using step by (auto simp: response_step_def Let_def split: if_splits)
  ultimately have "fst ` set s1 \<subseteq> T" using Cons.prems(1) by blast
  then show ?case using Cons step by simp
qed simp

lemma response_fold_other:
  "c \<notin> set cs \<Longrightarrow> map_of (fst (fold (response_step now att) cs (states, sent))) c = map_of states c"
proof (induction cs arbitrary: states sent)
  case (Cons d cs)
  obtain s1 n1 where step: "response_step now att d (states, sent) = (s1, n1)" by (cases "response_step now att d (states, sent)")
  then have "map_of s1 c = map_of states c"
    using Cons.prems by (auto simp: response_step_def Let_def update_conv' delete_conv' split: if_splits)
  then show ?case using Cons step by simp
qed simp

text \<open>
  An answer is sent again with growing patience, and nothing is kept of answers that are done: after a
  tick, states are kept of pending conversations only; a conversation whose attempt failed falls
  due exactly after the wait of its next step, and one whose attempt succeeded has no state.
\<close>

theorem response_attempts_spaced:
  assumes "distinct targets" "c \<in> set targets" "response_due now (nullish (map_of states c) no_attempt)" "0 < now"
    and "response_tick False now onAttempt targets states = (states', sent)"
  shows "fst ` set states' \<subseteq> set targets \<and>
    (if onAttempt c then map_of states' c = None
     else \<exists>s. map_of states' c = Some s \<and> (\<forall>later. response_due later s \<longleftrightarrow>
       now + nextBackoffMs (as_attempts (nullish (map_of states c) no_attempt)) \<le> later))"
proof -
  define start where "start = filter (\<lambda>(c, s). c \<in> set targets) states"
  let ?current = "nullish (map_of states c) no_attempt"
  have run: "states' = fst (fold (response_step now onAttempt) targets (start, []))"
    using assms(5) by (simp add: response_tick_def start_def)
  have "fst ` set start \<subseteq> set targets" by (auto simp: start_def)
  then have keys: "fst ` set states' \<subseteq> set targets" unfolding run by (rule response_fold_keys) simp
  have same: "map_of start c = map_of states c" using assms(2) unfolding start_def by (induction states) auto
  obtain xs ys where split: "targets = xs @ c # ys" "c \<notin> set xs" "c \<notin> set ys" using assms(1,2) by (metis split_list not_distinct_conv_prefix distinct_append distinct.simps(2) split_list_first)
  obtain s1 n1 where first: "fold (response_step now onAttempt) xs (start, []) = (s1, n1)" by fastforce
  then have cur: "map_of s1 c = map_of states c" using response_fold_other [OF split(2), of now onAttempt start "[]"] same by simp
  obtain s2 n2 where second: "response_step now onAttempt c (s1, n1) = (s2, n2)" by fastforce
  have final: "map_of states' c = map_of s2 c"
    using response_fold_other [OF split(3), of now onAttempt s2 n2] by (simp add: run split(1) first second)
  show ?thesis
  proof (cases "onAttempt c")
    case True
    then have "map_of s2 c = None" using second assms(3) cur by (auto simp: response_step_def Let_def delete_conv' split: if_splits)
    then show ?thesis using True keys final by simp
  next
    case False
    then have "map_of s2 c = Some \<lparr>as_attempts = as_attempts ?current + 1,
        as_nextAttemptAt = now + nextBackoffMs (as_attempts ?current), as_lastAttemptAt = now\<rparr>"
      using second assms(3) cur by (auto simp: response_step_def Let_def update_conv' split: if_splits)
    then show ?thesis
      using False keys final assms(4) nextBackoffMs_bounds(1) [of "as_attempts ?current"]
      by (auto simp: response_due_def)
  qed
qed

subsection \<open>Concrete inputs\<close>

definition demo_target :: friend_target where
  "demo_target = \<lparr>ft_id = ''p'', ft_friendStatus = Some ''request_out'', ft_reachability = Some
     \<lparr>re_status = Some ''unreachable'', re_attempts = Some 1, re_lastAttemptAt = Some 20000, re_nextAttemptAt = Some 25000\<rparr>\<rparr>"

theorem request_attempts_spaced_witness:
  "\<exists>f'. f' \<in> set (fold apply_update (request_tick (False, False) 30000 (\<lambda>f. False) [demo_target]) [demo_target]) \<and>
    ft_id f' = ''p'' \<and> ft_friendStatus f' = Some ''request_out'' \<and> (\<forall>later. request_due later f' \<longleftrightarrow> 45000 \<le> later)"
  using request_attempts_spaced [of "[demo_target]" demo_target 30000 "\<lambda>f. False"]
  by (simp add: demo_target_def request_target_def request_due_def reach_def nextBackoffMs_cases)

theorem response_attempts_spaced_witness:
  "\<exists>states' sent. response_tick False 30000 (\<lambda>c. False) [''c''] [(''gone'', no_attempt)] = (states', sent) \<and>
    fst ` set states' \<subseteq> {''c''} \<and> (\<exists>s. map_of states' ''c'' = Some s \<and> (\<forall>later. response_due later s \<longleftrightarrow> 35000 \<le> later))"
proof -
  obtain states' sent where r: "response_tick False 30000 (\<lambda>c. False) [''c''] [(''gone'', no_attempt)] = (states', sent)" by fastforce
  have "response_due 30000 no_attempt" by (simp add: response_due_def no_attempt_def)
  then show ?thesis
    using response_attempts_spaced [OF _ _ _ _ r, of "''c''"] r by (auto simp: no_attempt_def nextBackoffMs_cases)
qed

theorem packet_frame_is_checked_witness:
  "\<exists>events st'. onFriendPacket (demo_env [(''{}'', demo_friend_frame ''friend_req'' ''5'')]) demo_friend_env None (False, None)
      (InText ''{}'') demo_state = (events, st') \<and> st' = demo_state\<lparr>sy_app := sy_app st'\<rparr> \<and>
    (sy_app st' = sy_app demo_state \<and> events = [] \<or>
     passes demo_friend_env False None (demo_friend_frame ''friend_req'' ''5'') (sy_app demo_state) \<and>
     set events \<subseteq> {JStr ''friend_req''})"
proof -
  let ?env = "demo_env [(''{}'', demo_friend_frame ''friend_req'' ''5'')]"
  obtain events st' where r: "onFriendPacket ?env demo_friend_env None (False, None) (InText ''{}'') demo_state = (events, st')" by fastforce
  have "decodePayload (le_platform ?env) (nullish (snd (False, None)) (InText ''{}'')) = Some ''{}''" by (simp add: decodePayload_def)
  moreover have "pf_json_parse (le_platform ?env) ''{}'' = Some (demo_friend_frame ''friend_req'' ''5'')"
    by (simp add: demo_env_def text_platform_def)
  ultimately show ?thesis
    using packet_frame_is_checked [OF _ _ _ r, of "''{}''" "demo_friend_frame ''friend_req'' ''5''"] r
    by (auto simp: demo_frame_fields)
qed

end
