(* ===== verification/Vault.thy ===== *)
theory Vault
  imports Json_Parser
begin

text \<open>
  The vault (src/src/crypto/vault.ts): the start key and the keys derived from it, and the
  encrypted records, one for a JSON value and one for bytes, each bound to its id and its type. The library
  for the primitives is the platform of Envelope_Box; password hashing is an argument. What throws is an
  error value.
\<close>

datatype vault_error =
    InvalidStartKey | BadEnvelopeEncoding | BadEnvelope | UnsupportedVersion | UnsupportedAlgorithm
  | BadNonceLength | BadCiphertextLength | AadMismatch | OpenThrew | BadPlaintext | VaultLibraryThrew

definition DOMAIN_VRK :: string where
  "DOMAIN_VRK = ''NKC|VAULTv2|VRK''"

definition DOMAIN_VK :: string where
  "DOMAIN_VK = ''NKC|VAULTv2|VK''"

definition DOMAIN_REC :: string where
  "DOMAIN_REC = ''NKC|REC''"

text \<open>The constants of the library for the nonce and the tag of the cipher.\<close>

definition AEAD_NPUBBYTES :: nat where
  "AEAD_NPUBBYTES = 24"

definition AEAD_ABYTES :: nat where
  "AEAD_ABYTES = 16"

subsection \<open>Start keys\<close>

definition key_char :: "char \<Rightarrow> bool" where
  "key_char c \<longleftrightarrow> url_safe c"

definition NKC_REGEX :: "string \<Rightarrow> bool" where
  "NKC_REGEX s \<longleftrightarrow> starts_with s ''NKC-'' \<and> drop 4 s \<noteq> [] \<and> list_all key_char (drop 4 s)"

definition decodeKeyText :: "string \<Rightarrow> bytes option" where
  "decodeKeyText value = (let b64 = map of_url_char value
     in atob (b64 @ replicate ((length b64 + 3) div 4 * 4 - length b64) (CHR ''='')))"

definition normalizeStartKey :: "string \<Rightarrow> vault_error + string" where
  "normalizeStartKey value = (let trimmed = trim value in
     if \<not> NKC_REGEX trimmed then Inl InvalidStartKey
     else (case decodeKeyText (drop 4 trimmed) of
         None \<Rightarrow> Inl InvalidStartKey
       | Some bs \<Rightarrow> if length bs \<noteq> 32 then Inl InvalidStartKey else Inr trimmed))"

definition validateStartKey :: "string \<Rightarrow> bool" where
  "validateStartKey value = (let trimmed = trim value in
     NKC_REGEX trimmed \<and> (case decodeKeyText (drop 4 trimmed) of None \<Rightarrow> False | Some bs \<Rightarrow> length bs = 32))"

text \<open>The salt and the costs; the costs are constants of the library, the salt 16 random bytes.\<close>

record vault_header =
  vh_createdAt :: time_ms
  vh_salt_b64 :: string
  vh_opslimit :: int
  vh_memlimit :: int

definition createVaultHeader :: "platform \<Rightarrow> int \<times> int \<Rightarrow> bytes \<Rightarrow> time_ms \<Rightarrow> vault_header" where
  "createVaultHeader pf costs salt now = \<lparr>vh_createdAt = now, vh_salt_b64 = pf_to_base64 pf salt,
     vh_opslimit = fst costs, vh_memlimit = snd costs\<rparr>"

type_synonym pwhash = "nat \<Rightarrow> string \<Rightarrow> bytes \<Rightarrow> int \<Rightarrow> int \<Rightarrow> bytes option"

definition deriveMkm :: "platform \<Rightarrow> pwhash \<Rightarrow> string \<Rightarrow> vault_header \<Rightarrow> vault_error + bytes" where
  "deriveMkm pf kdf startKey header = (case pf_from_base64 pf (vh_salt_b64 header) of
       None \<Rightarrow> Inl VaultLibraryThrew
     | Some salt \<Rightarrow> (case normalizeStartKey startKey of
         Inl e \<Rightarrow> Inl e
       | Inr key \<Rightarrow> (case kdf 32 key salt (vh_opslimit header) (vh_memlimit header) of
           None \<Rightarrow> Inl VaultLibraryThrew
         | Some mkm \<Rightarrow> Inr mkm)))"

definition deriveVrk :: "platform \<Rightarrow> bytes \<Rightarrow> bytes" where
  "deriveVrk pf mkm = pf_generichash pf 32 (concatBytes [encode_utf8 DOMAIN_VRK, mkm])"

definition deriveVk :: "platform \<Rightarrow> bytes \<Rightarrow> bytes" where
  "deriveVk pf mkm = pf_generichash pf 32 (concatBytes [encode_utf8 DOMAIN_VK, mkm])"

subsection \<open>Envelopes of records\<close>

definition buildAad :: "string \<Rightarrow> string \<Rightarrow> json" where
  "buildAad recordType recordId =
     JObj [(''schema'', JStr ''NKC''), (''type'', JStr recordType), (''id'', JStr recordId)]"

definition buildAadBytes :: "string \<Rightarrow> string \<Rightarrow> bytes" where
  "buildAadBytes recordType recordId = encode_utf8 (stringify (buildAad recordType recordId))"

definition vault_envelope :: "platform \<Rightarrow> bytes \<Rightarrow> bytes \<Rightarrow> json \<Rightarrow> json" where
  "vault_envelope pf nonce ct aad = JObj [(''v'', JNum ''2''), (''alg'', JStr ''XCHACHA20POLY1305''),
     (''nonce_b64'', JStr (pf_to_base64 pf nonce)), (''ct_b64'', JStr (pf_to_base64 pf ct)), (''aad'', aad)]"

definition encodeEnvelope :: "platform \<Rightarrow> json \<Rightarrow> string" where
  "encodeEnvelope pf envelope = pf_to_base64 pf (encode_utf8 (stringify envelope))"

definition aad_shape :: "json \<Rightarrow> bool" where
  "aad_shape aad \<longleftrightarrow> is_object aad \<and> field aad ''schema'' = JStr ''NKC'' \<and> str_of (field aad ''type'') \<noteq> None \<and>
     str_of (field aad ''id'') \<noteq> None"

definition text_of_str :: "json \<Rightarrow> string" where
  "text_of_str v = nullish (str_of v) []"

text \<open>The result: type and id the envelope claims, nonce, and ciphertext.\<close>

definition decodeEnvelopeStrict :: "platform \<Rightarrow> string \<Rightarrow> vault_error + (string \<times> string \<times> bytes \<times> bytes)" where
  "decodeEnvelopeStrict pf enc_b64 =
     (case Option.bind (pf_from_base64 pf enc_b64) (\<lambda>bs. pf_json_parse pf (pf_text_decode pf bs)) of
        None \<Rightarrow> Inl BadEnvelopeEncoding
      | Some data \<Rightarrow>
          if \<not> is_object data then Inl BadEnvelope
          else if field data ''v'' \<noteq> JNum ''2'' then Inl UnsupportedVersion
          else if field data ''alg'' \<noteq> JStr ''XCHACHA20POLY1305'' then Inl UnsupportedAlgorithm
          else if str_of (field data ''nonce_b64'') = None \<or> str_of (field data ''ct_b64'') = None then Inl BadEnvelope
          else if \<not> aad_shape (field data ''aad'') then Inl BadEnvelope
          else (case (pf_from_base64 pf (text_of_str (field data ''nonce_b64'')),
                      pf_from_base64 pf (text_of_str (field data ''ct_b64''))) of
              (Some nonce, Some ct) \<Rightarrow>
                if length nonce \<noteq> AEAD_NPUBBYTES then Inl BadNonceLength
                else if length ct < AEAD_ABYTES then Inl BadCiphertextLength
                else Inr (text_of_str (field (field data ''aad'') ''type''), text_of_str (field (field data ''aad'') ''id''), nonce, ct)
            | _ \<Rightarrow> Inl BadEnvelopeEncoding))"

definition deriveRecordKey :: "platform \<Rightarrow> bytes \<Rightarrow> string \<Rightarrow> string \<Rightarrow> bytes" where
  "deriveRecordKey pf vk recordId recordType = pf_generichash pf 32
     (concatBytes [encode_utf8 DOMAIN_REC, vk, encode_utf8 recordId, encode_utf8 recordType])"

text \<open>What the two kinds of records share; the nonce is fresh random bytes.\<close>

definition seal_record :: "platform \<Rightarrow> bytes \<Rightarrow> string \<Rightarrow> string \<Rightarrow> bytes \<Rightarrow> bytes \<Rightarrow> string" where
  "seal_record pf vk recordId recordType nonce plain = encodeEnvelope pf (vault_envelope pf nonce
     (pf_aead_encrypt pf plain (buildAadBytes recordType recordId) nonce (deriveRecordKey pf vk recordId recordType))
     (buildAad recordType recordId))"

definition open_record :: "platform \<Rightarrow> bytes \<Rightarrow> string \<Rightarrow> string \<Rightarrow> string \<Rightarrow> vault_error + bytes" where
  "open_record pf vk recordId recordType enc_b64 = (case decodeEnvelopeStrict pf enc_b64 of
       Inl e \<Rightarrow> Inl e
     | Inr (t, i, nonce, ct) \<Rightarrow>
         if t \<noteq> recordType \<or> i \<noteq> recordId then Inl AadMismatch
         else (case pf_aead_decrypt pf ct (buildAadBytes recordType recordId) nonce (deriveRecordKey pf vk recordId recordType) of
             None \<Rightarrow> Inl OpenThrew
           | Some plain \<Rightarrow> Inr plain))"

definition encryptJsonRecord :: "platform \<Rightarrow> bytes \<Rightarrow> string \<Rightarrow> string \<Rightarrow> bytes \<Rightarrow> json \<Rightarrow> string" where
  "encryptJsonRecord pf vk recordId recordType nonce data =
     seal_record pf vk recordId recordType nonce (encode_utf8 (stringify data))"

definition decryptJsonRecord :: "platform \<Rightarrow> bytes \<Rightarrow> string \<Rightarrow> string \<Rightarrow> string \<Rightarrow> vault_error + json" where
  "decryptJsonRecord pf vk recordId recordType enc_b64 = (case open_record pf vk recordId recordType enc_b64 of
       Inl e \<Rightarrow> Inl e
     | Inr plain \<Rightarrow> (case pf_json_parse pf (pf_text_decode pf plain) of None \<Rightarrow> Inl BadPlaintext | Some v \<Rightarrow> Inr v))"

definition encodeBinaryEnvelope :: "platform \<Rightarrow> bytes \<Rightarrow> string \<Rightarrow> string \<Rightarrow> bytes \<Rightarrow> bytes \<Rightarrow> string" where
  "encodeBinaryEnvelope pf vk recordId recordType nonce bs = seal_record pf vk recordId recordType nonce bs"

definition decodeBinaryEnvelope :: "platform \<Rightarrow> bytes \<Rightarrow> string \<Rightarrow> string \<Rightarrow> string \<Rightarrow> vault_error + bytes" where
  "decodeBinaryEnvelope pf vk recordId recordType enc_b64 = open_record pf vk recordId recordType enc_b64"

subsection \<open>Chunks\<close>

function chunks_of :: "nat \<Rightarrow> 'a list \<Rightarrow> 'a list list" where
  "chunks_of n bs = (if bs = [] then [] else take (Suc n) bs # chunks_of n (drop (Suc n) bs))"
  by pat_completeness auto
termination
  by (relation "measure (\<lambda>(n, bs). length bs)") auto

declare chunks_of.simps [simp del]

text \<open>A loop that adds nothing to its offset does not end.\<close>

definition chunkBuffer :: "bytes \<Rightarrow> nat \<Rightarrow> bytes list option" where
  "chunkBuffer bs chunkSize = (if bs = [] then Some [] else if chunkSize = 0 then None else Some (chunks_of (chunkSize - 1) bs))"

lemma concat_chunks [simp]: "concat (chunks_of n bs) = bs"
  by (induction n bs rule: chunks_of.induct) (simp add: chunks_of.simps)

lemma chunks_of_count: "length (chunks_of n bs) = (length bs + n) div Suc n"
proof (induction n bs rule: chunks_of.induct)
  case (1 n bs)
  show ?case
  proof (cases "length bs \<le> Suc n \<or> bs = []")
    case True
    show ?thesis
    proof (cases "bs = []")
      case no: False
      then have "(length bs + n) div Suc n = 1" using True by (intro div_nat_eqI) (auto simp: Suc_le_eq)
      moreover have "chunks_of n bs = [bs]" using True no by (simp add: chunks_of.simps [of n bs] chunks_of.simps [of n "[]"])
      ultimately show ?thesis by simp
    qed (simp add: chunks_of.simps)
  next
    case False
    then have "length (chunks_of n bs) = Suc ((length bs - Suc n + n) div Suc n)"
      using 1 by (subst chunks_of.simps) auto
    also have "\<dots> = (length bs + n) div Suc n"
    proof -
      have "length bs + n = (length bs - Suc n + n) + Suc n" using False by simp
      then show ?thesis by (simp only: div_add_self2)
    qed
    finally show ?thesis .
  qed
qed

lemma chunk_length: "c \<in> set (chunks_of n bs) \<Longrightarrow> 0 < length c \<and> length c \<le> Suc n"
  by (induction n bs rule: chunks_of.induct) (subst (asm) chunks_of.simps, auto split: if_splits)

text \<open>
  A buffer is cut into as many chunks as its length needs, none empty or too long, and they are the
  buffer again.
\<close>

theorem chunkBuffer_cuts:
  assumes "0 < chunkSize"
  shows "\<exists>cs. chunkBuffer bs chunkSize = Some cs \<and> concat cs = bs \<and> length cs = (length bs + chunkSize - 1) div chunkSize \<and>
    (\<forall>c \<in> set cs. c \<noteq> [] \<and> length c \<le> chunkSize)"
proof (cases "bs = []")
  case True
  then show ?thesis using assms by (simp add: chunkBuffer_def)
next
  case False
  obtain n where n: "chunkSize = Suc n" using assms by (cases chunkSize) auto
  then show ?thesis using False chunk_length [of _ n bs] by (auto simp: chunkBuffer_def chunks_of_count)
qed

subsection \<open>Records open in their place\<close>

definition vault_codec :: "platform \<Rightarrow> bool" where
  "vault_codec pf \<longleftrightarrow> text_codec (pf_to_base64 pf) (pf_from_base64 pf) (pf_text_decode pf) (pf_json_parse pf)"

definition vault_cipher :: "platform \<Rightarrow> bool" where
  "vault_cipher pf \<longleftrightarrow> (\<forall>p a n k. pf_aead_decrypt pf (pf_aead_encrypt pf p a n k) a n k = Some p \<and>
     AEAD_ABYTES \<le> length (pf_aead_encrypt pf p a n k))"

lemma meaning_number: "meaning (JNum t) = meaning v \<Longrightarrow> v = JNum t"
  by (cases v) auto

lemma meaning_object: "meaning (JObj kvs) = meaning v \<Longrightarrow> is_object v"
  by (cases v) auto

lemma wf_envelope: "wf_json (vault_envelope pf nonce ct (buildAad ty i))"
  by (simp add: vault_envelope_def buildAad_def settable_def is_num_char_def is_digit_def)

lemma decode_encoded:
  assumes "vault_codec pf" "length nonce = AEAD_NPUBBYTES" "AEAD_ABYTES \<le> length ct"
  shows "decodeEnvelopeStrict pf (encodeEnvelope pf (vault_envelope pf nonce ct (buildAad ty i))) = Inr (ty, i, nonce, ct)"
proof -
  note codec = text_codec.b64 [OF assms(1) [unfolded vault_codec_def]] text_codec.utf8 [OF assms(1) [unfolded vault_codec_def]]
  let ?e = "vault_envelope pf nonce ct (buildAad ty i)"
  obtain w where w: "pf_json_parse pf (stringify ?e) = Some w" "wf_json w" "meaning w = meaning ?e"
    using text_codec.json [OF assms(1) [unfolded vault_codec_def] wf_envelope] by blast
  have f: "meaning (field ?e k) = meaning (field w k)" for k by (rule field_meaning [OF wf_envelope w(2) w(3) [symmetric]])
  have top: "field w ''v'' = JNum ''2''" "field w ''alg'' = JStr ''XCHACHA20POLY1305''"
    "field w ''nonce_b64'' = JStr (pf_to_base64 pf nonce)" "field w ''ct_b64'' = JStr (pf_to_base64 pf ct)"
    using f [of "''v''"] f [of "''alg''"] f [of "''nonce_b64''"] f [of "''ct_b64''"]
    by (simp_all add: vault_envelope_def meaning_string meaning_number)
  have aad: "meaning (buildAad ty i) = meaning (field w ''aad'')" using f [of "''aad''"] by (simp add: vault_envelope_def)
  have wf: "wf_json (buildAad ty i)" "wf_json (field w ''aad'')"
    by (simp add: buildAad_def settable_def) (rule wf_field [OF w(2)])
  have g: "meaning (field (buildAad ty i) k) = meaning (field (field w ''aad'') k)" for k by (rule field_meaning [OF wf aad])
  have parts: "field (field w ''aad'') ''schema'' = JStr ''NKC''" "field (field w ''aad'') ''type'' = JStr ty"
    "field (field w ''aad'') ''id'' = JStr i"
    using g [of "''schema''"] g [of "''type''"] g [of "''id''"] by (simp_all add: buildAad_def meaning_string)
  have "is_object w" by (rule meaning_object [OF w(3) [symmetric, unfolded vault_envelope_def]])
  moreover have "is_object (field w ''aad'')" by (rule meaning_object [OF aad [unfolded buildAad_def]])
  ultimately show ?thesis
    using assms(2,3) by (simp add: decodeEnvelopeStrict_def encodeEnvelope_def codec w(1) top aad_shape_def parts text_of_str_def)
qed

lemma open_seal:
  assumes "vault_codec pf" "vault_cipher pf" "length nonce = AEAD_NPUBBYTES"
  shows "open_record pf vk i ty (seal_record pf vk i ty nonce plain) = Inr plain"
  using assms by (simp add: open_record_def seal_record_def decode_encoded vault_cipher_def)

text \<open>
  What the vault seals it opens again: a record that is sealed under a key opens under it, as the
  bytes it was made of; a JSON record opens as a value of the same meaning, where the libraries for base64, text
  and JSON read what they wrote and the cipher opens what it sealed.
\<close>

theorem sealed_record_opens:
  assumes "vault_codec pf" "vault_cipher pf" "length nonce = AEAD_NPUBBYTES" "wf_json data"
  shows "decodeBinaryEnvelope pf vk i ty (encodeBinaryEnvelope pf vk i ty nonce bs) = Inr bs \<and>
    (\<exists>w. decryptJsonRecord pf vk i ty (encryptJsonRecord pf vk i ty nonce data) = Inr w \<and> wf_json w \<and> meaning w = meaning data)"
proof -
  have "\<exists>w. pf_json_parse pf (stringify data) = Some w \<and> wf_json w \<and> meaning w = meaning data"
    by (rule text_codec.json [OF assms(1) [unfolded vault_codec_def] assms(4)])
  then show ?thesis
    using open_seal [OF assms(1-3)] text_codec.utf8 [OF assms(1) [unfolded vault_codec_def]]
    by (auto simp: decodeBinaryEnvelope_def encodeBinaryEnvelope_def decryptJsonRecord_def encryptJsonRecord_def)
qed

lemma aad_bytes_inj: "buildAadBytes t i = buildAadBytes u j \<Longrightarrow> t = u \<and> i = j"
proof -
  assume "buildAadBytes t i = buildAadBytes u j"
  then have text': "stringify (buildAad t i) = stringify (buildAad u j)" by (auto simp: buildAadBytes_def dest: encode_utf8_inj)
  have wf: "wf_json (buildAad t i)" for t i by (simp add: buildAad_def settable_def)
  have "meaning (buildAad t i) = meaning (buildAad u j)"
    using written_text_is_read [OF wf, of t i] written_text_is_read [OF wf, of u j] text' by auto
  then have "meaning (field (buildAad t i) k) = meaning (field (buildAad u j) k)" for k by (rule field_meaning [OF wf wf])
  from this [of "''type''"] this [of "''id''"] show ?thesis by (simp add: buildAad_def)
qed

text \<open>A record as it was sealed: the key, its id, its type, the nonce and the content.\<close>

type_synonym sealing = "bytes \<times> string \<times> string \<times> bytes \<times> bytes"

text \<open>
  C13. A record opens in its place only: suppose the cipher opens nothing but what was sealed, under
  the key, the nonce and the data it was sealed with. Then whatever text is stored for an id and a type, when it opens,
  its content is one that was sealed for this id and this type; a record that was copied to
  another row or another table does not open.
\<close>

theorem record_opens_in_its_place:
  assumes unforgeable: "\<forall>ct a n k p. pf_aead_decrypt pf ct a n k = Some p \<longrightarrow>
      (\<exists>(vk, i, t, m, q) \<in> set sealed. k = deriveRecordKey pf vk i t \<and> a = buildAadBytes t i \<and> n = m \<and> p = q)"
    and opens: "open_record pf vk i t enc = Inr plain"
  shows "\<exists>vk' m. (vk', i, t, m, plain) \<in> set sealed \<and> deriveRecordKey pf vk i t = deriveRecordKey pf vk' i t"
proof -
  obtain nonce ct where "pf_aead_decrypt pf ct (buildAadBytes t i) nonce (deriveRecordKey pf vk i t) = Some plain"
    using opens by (auto simp: open_record_def split: sum.splits if_splits option.splits)
  with unforgeable obtain vk' i' t' m where "(vk', i', t', m, plain) \<in> set sealed"
    "deriveRecordKey pf vk i t = deriveRecordKey pf vk' i' t'" "buildAadBytes t i = buildAadBytes t' i'" by blast
  moreover from this(3) have "t = t' \<and> i = i'" by (rule aad_bytes_inj)
  ultimately show ?thesis by auto
qed

subsection \<open>Start keys and their validation\<close>

theorem valid_start_key_is_normalized: "validateStartKey value \<longleftrightarrow> normalizeStartKey value = Inr (trim value)"
  by (auto simp: validateStartKey_def normalizeStartKey_def Let_def split: option.split)

lemma decodeKeyText_eq: "decodeKeyText = decodeBase64Url"
proof
  fix s :: string
  have "(length s + 3) div 4 * 4 - length s = (4 - length s mod 4) mod 4"
  proof -
    obtain q r where "length s = 4 * q + r" "r < 4" by (metis mod_less_divisor mult_div_mod_eq zero_less_numeral)
    then have "r = 0 \<or> r = 1 \<or> r = 2 \<or> r = 3" "length s = 4 * q + r" by auto
    then show ?thesis by auto
  qed
  then show "decodeKeyText s = decodeBase64Url s"
    by (simp add: decodeKeyText_def decodeBase64Url_def decodeBase64_def Let_def)
qed

lemma made_start_key_is_valid:
  assumes "length bs = 32"
  shows "validateStartKey (''NKC-'' @ encodeBase64Url bs)"
proof -
  have "url_safe c" if "c \<in> set ''NKC-''" for c using that by (auto simp: url_safe_def)
  then have "list_all url_safe (''NKC-'' @ encodeBase64Url bs)" using encode_safe [of bs] by (auto simp: list_all_iff)
  then have "trim (''NKC-'' @ encodeBase64Url bs) = ''NKC-'' @ encodeBase64Url bs" by (rule trim_url_safe)
  moreover have "encodeBase64Url bs \<noteq> []" using encode_nonempty assms by auto
  ultimately show ?thesis
    using encode_safe [of bs] assms
    by (simp add: validateStartKey_def NKC_REGEX_def starts_with_def key_char_def [abs_def] decodeKeyText_eq decode_encode)
qed

text \<open>A start key made of 32 bytes is accepted.\<close>

theorem written_start_key_is_valid:
  assumes "length bs = 32"
  shows "validateStartKey (''NKC-'' @ encodeBase64Url bs)"
  by (rule made_start_key_is_valid [OF assms])

subsection \<open>Concrete inputs\<close>

text \<open>A platform with the real codecs and a cipher that adds a tag of zeros.\<close>

definition vault_platform :: platform where
  "vault_platform = open_platform\<lparr>pf_to_base64 := encodeBase64, pf_from_base64 := decodeBase64,
     pf_text_decode := utf8_text, pf_json_parse := parse_text, pf_aead_encrypt := (\<lambda>p a n k. p @ replicate 16 0),
     pf_aead_decrypt := (\<lambda>c a n k. Some (take (length c - 16) c))\<rparr>"

lemma vault_platform_ok: "vault_codec vault_platform" "vault_cipher vault_platform"
  using plain.text_codec_axioms by (simp_all add: vault_codec_def vault_cipher_def vault_platform_def AEAD_ABYTES_def)

definition demo_nonce :: bytes where
  "demo_nonce = replicate 24 0"

lemma demo_nonce_length: "length demo_nonce = AEAD_NPUBBYTES"
  by (simp add: demo_nonce_def AEAD_NPUBBYTES_def)

theorem sealed_record_opens_witness:
  "decodeBinaryEnvelope vault_platform [1] ''p'' ''profile'' (encodeBinaryEnvelope vault_platform [1] ''p'' ''profile'' demo_nonce [7]) = Inr [7] \<and>
   (\<exists>w. decryptJsonRecord vault_platform [1] ''p'' ''profile''
       (encryptJsonRecord vault_platform [1] ''p'' ''profile'' demo_nonce (JObj [(''id'', JStr ''p'')])) = Inr w \<and>
     wf_json w \<and> meaning w = meaning (JObj [(''id'', JStr ''p'')]))"
  by (rule sealed_record_opens [OF vault_platform_ok demo_nonce_length]) (simp add: settable_def)

text \<open>A cipher under which one record was sealed.\<close>

definition one_record_platform :: platform where
  "one_record_platform = vault_platform\<lparr>pf_aead_decrypt := (\<lambda>c a n k. if k = deriveRecordKey vault_platform [1] ''p'' ''profile'' \<and>
     a = buildAadBytes ''profile'' ''p'' \<and> n = demo_nonce \<and> c = [7] @ replicate 16 0 then Some [7] else None)\<rparr>"

theorem record_opens_in_its_place_witness:
  "open_record one_record_platform [1] ''p'' ''profile'' (seal_record one_record_platform [1] ''p'' ''profile'' demo_nonce [7]) = Inr [7] \<and>
   (\<exists>vk' m. (vk', ''p'', ''profile'', m, [7 :: byte]) \<in> set [([1], ''p'', ''profile'', demo_nonce, [7])] \<and>
     deriveRecordKey one_record_platform [1] ''p'' ''profile'' = deriveRecordKey one_record_platform vk' ''p'' ''profile'')"
proof -
  have codec: "vault_codec one_record_platform" using vault_platform_ok(1) by (simp add: vault_codec_def one_record_platform_def)
  have key: "deriveRecordKey one_record_platform = deriveRecordKey vault_platform"
    by (simp add: fun_eq_iff deriveRecordKey_def one_record_platform_def)
  have opens: "open_record one_record_platform [1] ''p'' ''profile'' (seal_record one_record_platform [1] ''p'' ''profile'' demo_nonce [7]) = Inr [7]"
  proof -
    have enc: "pf_aead_encrypt one_record_platform p a n k = p @ replicate 16 0" for p a n k
      by (simp add: one_record_platform_def vault_platform_def)
    have dec: "pf_aead_decrypt one_record_platform c a n k = (if k = deriveRecordKey vault_platform [1] ''p'' ''profile'' \<and>
        a = buildAadBytes ''profile'' ''p'' \<and> n = demo_nonce \<and> c = [7] @ replicate 16 0 then Some [7] else None)" for c a n k
      by (simp add: one_record_platform_def)
    have "decodeEnvelopeStrict one_record_platform (encodeEnvelope one_record_platform (vault_envelope one_record_platform demo_nonce
        ([7] @ replicate 16 0) (buildAad ''profile'' ''p''))) = Inr (''profile'', ''p'', demo_nonce, [7] @ replicate 16 0)"
      by (rule decode_encoded [OF codec demo_nonce_length]) (simp add: AEAD_ABYTES_def)
    then show ?thesis by (simp add: open_record_def seal_record_def enc dec key)
  qed
  have "\<forall>ct a n k p. pf_aead_decrypt one_record_platform ct a n k = Some p \<longrightarrow>
      (\<exists>(vk, i, t, m, q) \<in> set [([1], ''p'', ''profile'', demo_nonce, [7])].
        k = deriveRecordKey one_record_platform vk i t \<and> a = buildAadBytes t i \<and> n = m \<and> p = q)"
    unfolding key by (auto simp: one_record_platform_def split: if_splits)
  from record_opens_in_its_place [OF this opens] show ?thesis using opens by blast
qed

theorem written_start_key_is_valid_witness: "validateStartKey (''NKC-'' @ encodeBase64Url (replicate 32 7))"
  by (rule written_start_key_is_valid) simp

theorem chunkBuffer_cuts_witness:
  "\<exists>cs. chunkBuffer [1, 2, 3] 2 = Some cs \<and> concat cs = [1, 2, 3] \<and> length cs = (length [1, 2, 3 :: byte] + 2 - 1) div 2 \<and>
    (\<forall>c \<in> set cs. c \<noteq> [] \<and> length c \<le> 2)"
  by (rule chunkBuffer_cuts) simp

end
