(* ===== verification/Vault_Db.thy ===== *)
theory Vault_Db
  imports Vault Keyed_Table Sha256 "HOL-Library.AList"
begin

text \<open>
  The encrypted tables of the database (src/src/db/repo.ts) with the key of the session
  (src/src/crypto/sessionKeyring.ts): the header and the key id in the table of settings, unlocking, the tables of
  profiles, conversations and messages, and the change of the start key, which seals every row anew; and
  the start of the application as far as it checks the key (src/src/app/App.tsx). Records of the vault are
  those of Vault. Reports of progress are left out.
\<close>

subsection \<open>State\<close>

record enc_row =
  er_id :: string
  er_enc :: string
  er_updatedAt :: time_ms

record message_row =
  mr_id :: string
  mr_convId :: string
  mr_ts :: rat
  mr_enc :: string

record media_row =
  md_id :: string
  md_ownerType :: string
  md_ownerId :: string
  md_idx :: nat
  md_enc :: string
  md_mime :: string
  md_total :: int
  md_updatedAt :: time_ms

record tombstone_row =
  ts_id :: string
  ts_type :: string
  ts_deletedAt :: time_ms

record vault_db =
  vd_key :: "bytes option"
  vd_meta :: "(string \<times> string) list"
  vd_profiles :: "enc_row list"
  vd_conversations :: "enc_row list"
  vd_messages :: "message_row list"
  vd_media :: "media_row list"
  vd_transfers :: "enc_row list"
  vd_tombstones :: "tombstone_row list"

definition fresh_db :: vault_db where
  "fresh_db = \<lparr>vd_key = None, vd_meta = [], vd_profiles = [], vd_conversations = [], vd_messages = [],
     vd_media = [], vd_transfers = [], vd_tombstones = []\<rparr>"

interpretation enc_rows: keyed_table er_id "tbl_get er_id" "tbl_put er_id" "tbl_delete er_id" "tbl_update er_id" "tbl_ok er_id"
  by (rule list_table_keyed)

text \<open>What an operation meets: libraries, clock, the costs of the password hash, and fresh random bytes, by record.\<close>

record vault_env =
  ve_pf :: platform
  ve_kdf :: pwhash
  ve_costs :: "int \<times> int"
  ve_salt :: bytes
  ve_now :: time_ms
  ve_nonce :: "string \<Rightarrow> bytes"
  ve_subtle :: bool

datatype db_error = VaultLocked | VaultFailed vault_error | MediaFailed string

definition in_vault :: "vault_error + 'a \<Rightarrow> db_error + 'a" where
  "in_vault r = (case r of Inl e \<Rightarrow> Inl (VaultFailed e) | Inr x \<Rightarrow> Inr x)"

fun collect :: "('e + 'a) list \<Rightarrow> 'e + 'a list" where
  "collect [] = Inr []"
| "collect (r # rs) = (case r of Inl e \<Rightarrow> Inl e | Inr x \<Rightarrow> (case collect rs of Inl e \<Rightarrow> Inl e | Inr xs \<Rightarrow> Inr (x # xs)))"

subsection \<open>The key of the session\<close>

definition setVaultKey :: "bytes \<Rightarrow> vault_db \<Rightarrow> vault_db" where
  "setVaultKey key db = db\<lparr>vd_key := Some key\<rparr>"

definition clearVaultKey :: "vault_db \<Rightarrow> vault_db" where
  "clearVaultKey db = db\<lparr>vd_key := None\<rparr>"

definition requireVaultKey :: "vault_db \<Rightarrow> db_error + bytes" where
  "requireVaultKey db = (case vd_key db of None \<Rightarrow> Inl VaultLocked | Some vk \<Rightarrow> Inr vk)"

subsection \<open>Header and key id\<close>

definition VAULT_META_KEY :: string where
  "VAULT_META_KEY = ''vault_header_v2''"

definition VAULT_KEY_ID_KEY :: string where
  "VAULT_KEY_ID_KEY = ''vault_key_id_v1''"

definition put_meta :: "string \<Rightarrow> string \<Rightarrow> vault_db \<Rightarrow> vault_db" where
  "put_meta k v db = db\<lparr>vd_meta := AList.update k v (vd_meta db)\<rparr>"

definition computeVaultKeyId :: "vault_env \<Rightarrow> bytes \<Rightarrow> string option" where
  "computeVaultKeyId env vk = (if \<not> ve_subtle env then None else Some (encodeBase64 (take 16 (sha256 vk))))"

definition getVaultKeyId :: "vault_db \<Rightarrow> string option" where
  "getVaultKeyId db = (case map_of (vd_meta db) VAULT_KEY_ID_KEY of None \<Rightarrow> None | Some v \<Rightarrow> if v = [] then None else Some v)"

definition setVaultKeyId :: "vault_env \<Rightarrow> bytes \<Rightarrow> vault_db \<Rightarrow> vault_db" where
  "setVaultKeyId env vk db = (case computeVaultKeyId env vk of None \<Rightarrow> db | Some i \<Rightarrow> put_meta VAULT_KEY_ID_KEY i db)"

definition verifyVaultKeyId :: "vault_env \<Rightarrow> bytes \<Rightarrow> vault_db \<Rightarrow> bool" where
  "verifyVaultKeyId env vk db = (case getVaultKeyId db of None \<Rightarrow> True
     | Some stored \<Rightarrow> (case computeVaultKeyId env vk of None \<Rightarrow> True | Some current \<Rightarrow> stored = current))"

definition header_json :: "vault_header \<Rightarrow> json" where
  "header_json h = JObj [(''v'', JNum ''2''), (''createdAt'', int_num (vh_createdAt h)),
     (''salt_b64'', JStr (vh_salt_b64 h)), (''opslimit'', int_num (vh_opslimit h)), (''memlimit'', int_num (vh_memlimit h))]"

text \<open>A header of another shape is read with what it has; numbers that are none count as 0.\<close>

definition header_of :: "json \<Rightarrow> vault_header" where
  "header_of v = \<lparr>vh_createdAt = num_floor (field v ''createdAt''), vh_salt_b64 = text_of_str (field v ''salt_b64''),
     vh_opslimit = num_floor (field v ''opslimit''), vh_memlimit = num_floor (field v ''memlimit'')\<rparr>"

definition getVaultHeader :: "vault_env \<Rightarrow> vault_db \<Rightarrow> vault_header option \<times> vault_db" where
  "getVaultHeader env db = (case map_of (vd_meta db) VAULT_META_KEY of
       None \<Rightarrow> (None, db)
     | Some t \<Rightarrow> (case pf_json_parse (ve_pf env) t of
         Some v \<Rightarrow> (if v = JNull then None else Some (header_of v), db)
       | None \<Rightarrow> (None, db\<lparr>vd_meta := AList.delete VAULT_META_KEY (vd_meta db)\<rparr>)))"

definition new_header :: "vault_env \<Rightarrow> vault_header" where
  "new_header env = createVaultHeader (ve_pf env) (ve_costs env) (ve_salt env) (ve_now env)"

definition ensureVaultHeader :: "vault_env \<Rightarrow> vault_db \<Rightarrow> vault_header \<times> vault_db" where
  "ensureVaultHeader env db0 = (case getVaultHeader env db0 of
       (Some h, db) \<Rightarrow> (h, db)
     | (None, db) \<Rightarrow> (new_header env, put_meta VAULT_META_KEY (stringify (header_json (new_header env))) db))"

subsection \<open>Unlocking\<close>

definition unlockVault :: "vault_env \<Rightarrow> string \<Rightarrow> vault_db \<Rightarrow> vault_error option \<times> vault_db" where
  "unlockVault env startKey db0 =
     (let (header, db) = ensureVaultHeader env db0
      in case deriveMkm (ve_pf env) (ve_kdf env) startKey header of
           Inl e \<Rightarrow> (Some e, db)
         | Inr mkm \<Rightarrow> let vk = deriveVk (ve_pf env) mkm in (None, setVaultKeyId env vk (setVaultKey vk db)))"

text \<open>The key of a new vault is random and has no start key.\<close>

definition bootstrapVault :: "vault_env \<Rightarrow> bytes \<Rightarrow> vault_db \<Rightarrow> vault_db" where
  "bootstrapVault env vk db0 = setVaultKeyId env vk (setVaultKey vk (snd (ensureVaultHeader env db0)))"

definition lockVault :: "vault_db \<Rightarrow> vault_db" where
  "lockVault db = clearVaultKey db"

definition resetVaultStorage :: "vault_db \<Rightarrow> vault_db" where
  "resetVaultStorage db = fresh_db"

text \<open>What the start of the application does with the key it has: when the stored key id is another's, all data is deleted.\<close>

definition hydrate_key_check :: "vault_env \<Rightarrow> vault_db \<Rightarrow> vault_db" where
  "hydrate_key_check env db = (case vd_key db of
       None \<Rightarrow> db
     | Some vk \<Rightarrow> if verifyVaultKeyId env vk db then db else lockVault (resetVaultStorage db))"

subsection \<open>Profiles, conversations, messages\<close>

definition sealed_row :: "vault_env \<Rightarrow> bytes \<Rightarrow> string \<Rightarrow> json \<Rightarrow> string \<Rightarrow> enc_row" where
  "sealed_row env vk type v i = \<lparr>er_id = i,
     er_enc = encryptJsonRecord (ve_pf env) vk i type (ve_nonce env i) v, er_updatedAt = ve_now env\<rparr>"

definition open_row :: "platform \<Rightarrow> bytes \<Rightarrow> string \<Rightarrow> enc_row \<Rightarrow> db_error + json" where
  "open_row pf vk type r = in_vault (decryptJsonRecord pf vk (er_id r) type (er_enc r))"

definition with_key :: "vault_db \<Rightarrow> (bytes \<Rightarrow> db_error + 'a) \<Rightarrow> db_error + 'a" where
  "with_key db f = (case requireVaultKey db of Inl e \<Rightarrow> Inl e | Inr vk \<Rightarrow> f vk)"

definition vault_saveProfile :: "vault_env \<Rightarrow> string \<Rightarrow> json \<Rightarrow> vault_db \<Rightarrow> db_error + vault_db" where
  "vault_saveProfile env i profile db = with_key db (\<lambda>vk.
     Inr (db\<lparr>vd_profiles := tbl_put er_id (sealed_row env vk ''profile'' profile i) (vd_profiles db)\<rparr>))"

definition deleteProfile :: "string \<Rightarrow> vault_db \<Rightarrow> db_error + vault_db" where
  "deleteProfile i db = with_key db (\<lambda>vk. Inr (db\<lparr>vd_profiles := tbl_delete er_id i (vd_profiles db)\<rparr>))"

definition listProfiles :: "vault_env \<Rightarrow> vault_db \<Rightarrow> db_error + json list" where
  "listProfiles env db = with_key db (\<lambda>vk. collect (map (open_row (ve_pf env) vk ''profile'') (vd_profiles db)))"

definition vault_saveConversation :: "vault_env \<Rightarrow> string \<Rightarrow> json \<Rightarrow> vault_db \<Rightarrow> db_error + vault_db" where
  "vault_saveConversation env i conv db = with_key db (\<lambda>vk.
     Inr (db\<lparr>vd_conversations := tbl_put er_id (sealed_row env vk ''conv'' conv i) (vd_conversations db)\<rparr>))"

definition listConversations :: "vault_env \<Rightarrow> vault_db \<Rightarrow> db_error + json list" where
  "listConversations env db = with_key db (\<lambda>vk. collect (map (open_row (ve_pf env) vk ''conv'') (vd_conversations db)))"

definition sealed_message :: "vault_env \<Rightarrow> bytes \<Rightarrow> string \<Rightarrow> string \<Rightarrow> rat \<Rightarrow> json \<Rightarrow> message_row" where
  "sealed_message env vk i convId ts v = \<lparr>mr_id = i, mr_convId = convId, mr_ts = ts,
     mr_enc = encryptJsonRecord (ve_pf env) vk i ''message'' (ve_nonce env i) v\<rparr>"

definition vault_saveMessage :: "vault_env \<Rightarrow> string \<Rightarrow> string \<Rightarrow> rat \<Rightarrow> json \<Rightarrow> vault_db \<Rightarrow> db_error + vault_db" where
  "vault_saveMessage env i convId ts v db = with_key db (\<lambda>vk.
     Inr (db\<lparr>vd_messages := tbl_put mr_id (sealed_message env vk i convId ts v) (vd_messages db)\<rparr>))"

definition saveMessageEnvelope :: "vault_env \<Rightarrow> string \<Rightarrow> string \<Rightarrow> rat \<Rightarrow> json \<Rightarrow> vault_db \<Rightarrow> db_error + vault_db" where
  "saveMessageEnvelope env i convId ts record' db = vault_saveMessage env i convId ts record' db"

text \<open>The messages of a conversation in the order of their time, equal ones by id.\<close>

definition open_message :: "platform \<Rightarrow> bytes \<Rightarrow> message_row \<Rightarrow> db_error + json" where
  "open_message pf vk r = in_vault (decryptJsonRecord pf vk (mr_id r) ''message'' (mr_enc r))"

definition rows_of_conv :: "string \<Rightarrow> vault_db \<Rightarrow> message_row list" where
  "rows_of_conv convId db = sort_key mr_ts (filter (\<lambda>r. mr_convId r = convId) (vd_messages db))"

definition listMessagesByConv :: "vault_env \<Rightarrow> string \<Rightarrow> vault_db \<Rightarrow> db_error + json list" where
  "listMessagesByConv env convId db = with_key db (\<lambda>vk. collect (map (open_message (ve_pf env) vk) (rows_of_conv convId db)))"

datatype stored_message = StoredEnvelope json | StoredLegacy json

definition has_field :: "json \<Rightarrow> string \<Rightarrow> bool" where
  "has_field v k = (case v of JObj kvs \<Rightarrow> k \<in> fst ` set kvs | _ \<Rightarrow> False)"

definition classify_message :: "json \<Rightarrow> stored_message" where
  "classify_message v = (if is_object v \<and> has_field v ''envelope'' \<and> has_field v ''convId'' \<and> has_field v ''ts''
     then StoredEnvelope v else StoredLegacy v)"

definition listMessageRecordsByConv :: "vault_env \<Rightarrow> string \<Rightarrow> vault_db \<Rightarrow> db_error + stored_message list" where
  "listMessageRecordsByConv env convId db = (case listMessagesByConv env convId db of
       Inl e \<Rightarrow> Inl e | Inr vs \<Rightarrow> Inr (map classify_message vs))"

subsection \<open>An encrypted table is a table of values\<close>

text \<open>What a row holds under a key, up to the order of properties.\<close>

definition json_content :: "platform \<Rightarrow> bytes \<Rightarrow> string \<Rightarrow> string \<Rightarrow> string \<Rightarrow> jval option" where
  "json_content pf vk type i enc = (case decryptJsonRecord pf vk i type enc of
     Inr w \<Rightarrow> if wf_json w then Some (meaning w) else None | Inl _ \<Rightarrow> None)"

definition row_content :: "platform \<Rightarrow> bytes \<Rightarrow> string \<Rightarrow> enc_row \<Rightarrow> string \<times> jval option" where
  "row_content pf vk type r = (er_id r, json_content pf vk type (er_id r) (er_enc r))"

definition nonces_ok :: "vault_env \<Rightarrow> bool" where
  "nonces_ok env \<longleftrightarrow> (\<forall>i. length (ve_nonce env i) = AEAD_NPUBBYTES)"

lemma json_content_sealed:
  assumes "vault_codec pf" "vault_cipher pf" "length nonce = AEAD_NPUBBYTES" "wf_json data"
  shows "json_content pf vk type i (encryptJsonRecord pf vk i type nonce data) = Some (meaning data)"
proof -
  obtain w where "pf_json_parse pf (stringify data) = Some w" "wf_json w" "meaning w = meaning data"
    using text_codec.json [OF assms(1) [unfolded vault_codec_def] assms(4)] by blast
  then show ?thesis
    using open_seal [OF assms(1-3)] text_codec.utf8 [OF assms(1) [unfolded vault_codec_def]]
    by (simp add: json_content_def decryptJsonRecord_def encryptJsonRecord_def)
qed

lemma map_tbl_put: "(\<And>x. key' (g x) = key x) \<Longrightarrow> map g (tbl_put key v t) = tbl_put key' (g v) (map g t)"
  by (induction t) auto

lemma map_tbl_delete: "(\<And>x. key' (g x) = key x) \<Longrightarrow> map g (tbl_delete key k t) = tbl_delete key' k (map g t)"
  by (induction t) (auto simp: tbl_delete_def)

text \<open>The operations of the profiles, on the encrypted table and on a table of the values themselves.\<close>

datatype profile_op = PutProfile string json | DelProfile string

fun profile_step :: "vault_env \<Rightarrow> profile_op \<Rightarrow> vault_db \<Rightarrow> db_error + vault_db" where
  "profile_step env (PutProfile i v) db = vault_saveProfile env i v db"
| "profile_step env (DelProfile i) db = deleteProfile i db"

fun profile_steps :: "(vault_env \<times> profile_op) list \<Rightarrow> vault_db \<Rightarrow> db_error + vault_db" where
  "profile_steps [] db = Inr db"
| "profile_steps ((env, x) # xs) db = (case profile_step env x db of Inl e \<Rightarrow> Inl e | Inr db' \<Rightarrow> profile_steps xs db')"

fun plain_step :: "profile_op \<Rightarrow> (string \<times> jval option) list \<Rightarrow> (string \<times> jval option) list" where
  "plain_step (PutProfile i v) t = tbl_put fst (i, Some (meaning v)) t"
| "plain_step (DelProfile i) t = tbl_delete fst i t"

fun op_wf :: "profile_op \<Rightarrow> bool" where
  "op_wf (PutProfile i v) = wf_json v"
| "op_wf (DelProfile i) = True"

lemma row_content_key [simp]: "fst (row_content pf vk type r) = er_id r"
  by (simp add: row_content_def)

lemma profile_step_refines:
  assumes "vault_codec (ve_pf env)" "vault_cipher (ve_pf env)" "nonces_ok env" "op_wf x" "vd_key db = Some vk"
  shows "\<exists>db'. profile_step env x db = Inr db' \<and> vd_key db' = Some vk \<and>
    map (row_content (ve_pf env) vk ''profile'') (vd_profiles db') = plain_step x (map (row_content (ve_pf env) vk ''profile'') (vd_profiles db))"
proof (cases x)
  case (PutProfile i v)
  have "length (ve_nonce env i) = AEAD_NPUBBYTES" using assms(3) by (simp add: nonces_ok_def)
  then have "row_content (ve_pf env) vk ''profile'' (sealed_row env vk ''profile'' v i) = (i, Some (meaning v))"
    using json_content_sealed [OF assms(1,2), of "ve_nonce env i" v vk "''profile''" i] assms(4) PutProfile
    by (simp add: row_content_def sealed_row_def)
  then show ?thesis using assms(5) PutProfile
    by (simp add: vault_saveProfile_def with_key_def requireVaultKey_def map_tbl_put [where key' = fst])
next
  case (DelProfile i)
  then show ?thesis using assms(5)
    by (simp add: deleteProfile_def with_key_def requireVaultKey_def map_tbl_delete [where key' = fst])
qed

lemma profile_steps_refine:
  assumes "vault_codec pf" "vault_cipher pf" "\<forall>(env, x) \<in> set xs. ve_pf env = pf \<and> nonces_ok env \<and> op_wf x" "vd_key db = Some vk"
  shows "\<exists>db'. profile_steps xs db = Inr db' \<and> vd_key db' = Some vk \<and>
    map (row_content pf vk ''profile'') (vd_profiles db') = fold (\<lambda>p. plain_step (snd p)) xs (map (row_content pf vk ''profile'') (vd_profiles db))"
  using assms(3,4)
proof (induction xs arbitrary: db)
  case (Cons p xs)
  obtain env x where p: "p = (env, x)" by (cases p)
  then obtain d where d: "profile_step env x db = Inr d" "vd_key d = Some vk"
    "map (row_content pf vk ''profile'') (vd_profiles d) = plain_step x (map (row_content pf vk ''profile'') (vd_profiles db))"
    using profile_step_refines [of env x db vk] Cons.prems assms(1,2) by auto
  have "\<exists>db'. profile_steps xs d = Inr db' \<and> vd_key db' = Some vk \<and>
    map (row_content pf vk ''profile'') (vd_profiles db') = fold (\<lambda>p. plain_step (snd p)) xs (map (row_content pf vk ''profile'') (vd_profiles d))"
    by (rule Cons.IH) (use Cons.prems d(2) in auto)
  then show ?case using d p by simp
qed simp

lemma collect_rows:
  "list_all (\<lambda>r. snd (row_content pf vk type r) \<noteq> None) rs \<Longrightarrow>
   \<exists>ws. collect (map (open_row pf vk type) rs) = Inr ws \<and> map (\<lambda>w. Some (meaning w)) ws = map (\<lambda>r. snd (row_content pf vk type r)) rs"
proof (induction rs)
  case (Cons r rs)
  then obtain ws where "collect (map (open_row pf vk type) rs) = Inr ws" "map (\<lambda>w. Some (meaning w)) ws = map (\<lambda>r. snd (row_content pf vk type r)) rs" by auto
  moreover obtain w where "open_row pf vk type r = Inr w" "snd (row_content pf vk type r) = Some (meaning w)"
    using Cons.prems by (auto simp: row_content_def json_content_def open_row_def in_vault_def split: sum.splits if_splits)
  ultimately show ?case by simp
qed simp

text \<open>
  C14. The encrypted table of profiles implements a table of the profiles themselves: after any
  sequence of writes and deletions, from any vault that could be read, the list of profiles is the one the plain
  table has, in its order, each profile with the meaning it was saved with.
\<close>

theorem profiles_implement_plain_table:
  assumes "vault_codec pf" "vault_cipher pf" "\<forall>(env, x) \<in> set xs. ve_pf env = pf \<and> nonces_ok env \<and> op_wf x" "ve_pf env = pf"
    and "vd_key db = Some vk" "list_all (\<lambda>r. snd (row_content pf vk ''profile'' r) \<noteq> None) (vd_profiles db)"
  shows "\<exists>db' ws. profile_steps xs db = Inr db' \<and> listProfiles env db' = Inr ws \<and>
    map (\<lambda>w. Some (meaning w)) ws = map snd (fold (\<lambda>p. plain_step (snd p)) xs (map (row_content pf vk ''profile'') (vd_profiles db)))"
proof -
  obtain db' where d: "profile_steps xs db = Inr db'" "vd_key db' = Some vk"
    "map (row_content pf vk ''profile'') (vd_profiles db') = fold (\<lambda>p. plain_step (snd p)) xs (map (row_content pf vk ''profile'') (vd_profiles db))"
    using profile_steps_refine [OF assms(1-3,5)] by blast
  have put: "set (plain_step x t) \<subseteq> set t \<union> (case x of PutProfile i v \<Rightarrow> {(i, Some (meaning v))} | DelProfile i \<Rightarrow> {})" for x t
    by (cases x) (auto simp: tbl_delete_def dest: subsetD [OF set_tbl_put])
  have "list_all (\<lambda>p. snd p \<noteq> None) (fold (\<lambda>p. plain_step (snd p)) ys t)" if "list_all (\<lambda>p. snd p \<noteq> None) t"
    for ys :: "(vault_env \<times> profile_op) list" and t
    using that
  proof (induction ys arbitrary: t)
    case (Cons y ys)
    have "list_all (\<lambda>p. snd p \<noteq> None) (plain_step (snd y) t)"
      using Cons.prems put [of "snd y" t] by (fastforce simp: list_all_iff split: profile_op.splits)
    then show ?case using Cons.IH by simp
  qed simp
  from this [of "map (row_content pf vk ''profile'') (vd_profiles db)" xs]
  have "list_all (\<lambda>r. snd (row_content pf vk ''profile'' r) \<noteq> None) (vd_profiles db')"
    using assms(6) unfolding d(3) [symmetric] by (simp add: list_all_iff)
  from collect_rows [OF this] obtain ws where ws: "collect (map (open_row pf vk ''profile'') (vd_profiles db')) = Inr ws"
    "map (\<lambda>w. Some (meaning w)) ws = map (\<lambda>r. snd (row_content pf vk ''profile'' r)) (vd_profiles db')" by blast
  moreover have "map (\<lambda>r. snd (row_content pf vk ''profile'' r)) (vd_profiles db') = map snd (map (row_content pf vk ''profile'') (vd_profiles db'))"
    by simp
  ultimately show ?thesis using d assms(4) by (simp add: listProfiles_def with_key_def requireVaultKey_def)
qed

definition plain_env :: vault_env where
  "plain_env = \<lparr>ve_pf = vault_platform, ve_kdf = (\<lambda>n key salt ops mem. Some [9]), ve_costs = (2, 1000), ve_salt = [5],
     ve_now = 7, ve_nonce = (\<lambda>i. demo_nonce), ve_subtle = True\<rparr>"

theorem profiles_implement_plain_table_witness:
  "\<exists>db' ws. profile_steps [(plain_env, PutProfile ''b'' JNull), (plain_env, PutProfile ''a'' (JBool True)), (plain_env, DelProfile ''b'')]
      (fresh_db\<lparr>vd_key := Some [1]\<rparr>) = Inr db' \<and> listProfiles plain_env db' = Inr ws \<and> map (\<lambda>w. Some (meaning w)) ws = [Some (VBool True)]"
proof -
  have "nonces_ok plain_env" by (simp add: nonces_ok_def plain_env_def demo_nonce_length)
  then show ?thesis
    using profiles_implement_plain_table [OF vault_platform_ok, of "[(plain_env, PutProfile ''b'' JNull),
        (plain_env, PutProfile ''a'' (JBool True)), (plain_env, DelProfile ''b'')]" plain_env "fresh_db\<lparr>vd_key := Some [1]\<rparr>" "[1]"]
    by (auto simp: plain_env_def fresh_db_def tbl_delete_def)
qed

end
