(* ===== verification/Vault_Rotation.thy ===== *)
theory Vault_Rotation
  imports Vault_Db
begin

text \<open>
  The change of the start key (rotateVaultKeys in src/src/db/repo.ts): every row of the four tables is
  opened under the old key and sealed under the new one, row by row, and only then the header and the
  key id are written. The operation is a list of steps here, so that it can be cut short.
\<close>

datatype rotation_item = RotProfile enc_row | RotConv enc_row | RotMsg message_row | RotMedia media_row

definition resealed :: "vault_env \<Rightarrow> bytes \<Rightarrow> bytes \<Rightarrow> string \<Rightarrow> string \<Rightarrow> string \<Rightarrow> db_error + string" where
  "resealed env old new type i enc = (case decryptJsonRecord (ve_pf env) old i type enc of
       Inl e \<Rightarrow> Inl (VaultFailed e)
     | Inr data \<Rightarrow> Inr (encryptJsonRecord (ve_pf env) new i type (ve_nonce env i) data))"

definition resealed_media :: "vault_env \<Rightarrow> bytes \<Rightarrow> bytes \<Rightarrow> media_row \<Rightarrow> db_error + string" where
  "resealed_media env old new r = (case decodeBinaryEnvelope (ve_pf env) old (md_id r) ''mediaChunk'' (md_enc r) of
       Inl e \<Rightarrow> Inl (VaultFailed e)
     | Inr data \<Rightarrow> Inr (encodeBinaryEnvelope (ve_pf env) new (md_id r) ''mediaChunk'' (ve_nonce env (md_id r)) data))"

fun rotate_item :: "vault_env \<Rightarrow> bytes \<Rightarrow> bytes \<Rightarrow> rotation_item \<Rightarrow> vault_db \<Rightarrow> db_error + vault_db" where
  "rotate_item env old new (RotProfile r) db = (case resealed env old new ''profile'' (er_id r) (er_enc r) of
       Inl e \<Rightarrow> Inl e
     | Inr enc \<Rightarrow> Inr (db\<lparr>vd_profiles := tbl_put er_id (r\<lparr>er_enc := enc, er_updatedAt := ve_now env\<rparr>) (vd_profiles db)\<rparr>))"
| "rotate_item env old new (RotConv r) db = (case resealed env old new ''conv'' (er_id r) (er_enc r) of
       Inl e \<Rightarrow> Inl e
     | Inr enc \<Rightarrow> Inr (db\<lparr>vd_conversations := tbl_put er_id (r\<lparr>er_enc := enc, er_updatedAt := ve_now env\<rparr>) (vd_conversations db)\<rparr>))"
| "rotate_item env old new (RotMsg r) db = (case resealed env old new ''message'' (mr_id r) (mr_enc r) of
       Inl e \<Rightarrow> Inl e
     | Inr enc \<Rightarrow> Inr (db\<lparr>vd_messages := tbl_put mr_id (r\<lparr>mr_enc := enc\<rparr>) (vd_messages db)\<rparr>))"
| "rotate_item env old new (RotMedia r) db = (case resealed_media env old new r of
       Inl e \<Rightarrow> Inl e
     | Inr enc \<Rightarrow> Inr (db\<lparr>vd_media := tbl_put md_id (r\<lparr>md_enc := enc, md_updatedAt := ve_now env\<rparr>) (vd_media db)\<rparr>))"

definition rotation_items :: "vault_db \<Rightarrow> rotation_item list" where
  "rotation_items db = map RotProfile (vd_profiles db) @ map RotConv (vd_conversations db) @
     map RotMsg (vd_messages db) @ map RotMedia (vd_media db)"

text \<open>What a step has written stays when a later one throws.\<close>

fun rotate_all :: "vault_env \<Rightarrow> bytes \<Rightarrow> bytes \<Rightarrow> rotation_item list \<Rightarrow> vault_db \<Rightarrow> db_error option \<times> vault_db" where
  "rotate_all env old new [] db = (None, db)"
| "rotate_all env old new (x # xs) db = (case rotate_item env old new x db of
       Inl e \<Rightarrow> (Some e, db) | Inr db' \<Rightarrow> rotate_all env old new xs db')"

definition finish_rotation :: "vault_env \<Rightarrow> bytes \<Rightarrow> vault_db \<Rightarrow> vault_db" where
  "finish_rotation env new db =
     setVaultKeyId env new (setVaultKey new (put_meta VAULT_META_KEY (stringify (header_json (new_header env))) db))"

definition rotateVaultKeys :: "vault_env \<Rightarrow> string \<Rightarrow> vault_db \<Rightarrow> db_error option \<times> vault_db" where
  "rotateVaultKeys env newStartKey db =
     (case requireVaultKey db of
        Inl e \<Rightarrow> (Some e, db)
      | Inr old \<Rightarrow> (case deriveMkm (ve_pf env) (ve_kdf env) newStartKey (new_header env) of
          Inl e \<Rightarrow> (Some (VaultFailed e), db)
        | Inr mkm \<Rightarrow> let new = deriveVk (ve_pf env) mkm in
            (case rotate_all env old new (rotation_items db) db of
               (Some e, db') \<Rightarrow> (Some e, db')
             | (None, db') \<Rightarrow> (None, finish_rotation env new db'))))"

subsection \<open>What the tables hold\<close>

definition media_content :: "platform \<Rightarrow> bytes \<Rightarrow> media_row \<Rightarrow> bytes option" where
  "media_content pf vk r = (case decodeBinaryEnvelope pf vk (md_id r) ''mediaChunk'' (md_enc r) of Inr bs \<Rightarrow> Some bs | Inl _ \<Rightarrow> None)"

definition message_content :: "platform \<Rightarrow> bytes \<Rightarrow> message_row \<Rightarrow> (string \<times> string \<times> rat) \<times> jval option" where
  "message_content pf vk r = ((mr_id r, mr_convId r, mr_ts r), json_content pf vk ''message'' (mr_id r) (mr_enc r))"

definition chunk_content ::
    "platform \<Rightarrow> bytes \<Rightarrow> media_row \<Rightarrow> (string \<times> string \<times> string \<times> nat \<times> string \<times> int) \<times> bytes option" where
  "chunk_content pf vk r = ((md_id r, md_ownerType r, md_ownerId r, md_idx r, md_mime r, md_total r), media_content pf vk r)"

record vault_content =
  vc_profiles :: "(string \<times> jval option) list"
  vc_conversations :: "(string \<times> jval option) list"
  vc_messages :: "((string \<times> string \<times> rat) \<times> jval option) list"
  vc_media :: "((string \<times> string \<times> string \<times> nat \<times> string \<times> int) \<times> bytes option) list"

definition content_of :: "platform \<Rightarrow> bytes \<Rightarrow> vault_db \<Rightarrow> vault_content" where
  "content_of pf vk db = \<lparr>vc_profiles = map (row_content pf vk ''profile'') (vd_profiles db),
     vc_conversations = map (row_content pf vk ''conv'') (vd_conversations db),
     vc_messages = map (message_content pf vk) (vd_messages db), vc_media = map (chunk_content pf vk) (vd_media db)\<rparr>"

text \<open>Every row opens under the key, and the tables are in the order of their keys.\<close>

definition rows_open :: "('k \<times> 'v option) list \<Rightarrow> bool" where
  "rows_open xs \<longleftrightarrow> list_all (\<lambda>x. snd x \<noteq> None) xs"

definition vault_readable :: "platform \<Rightarrow> bytes \<Rightarrow> vault_db \<Rightarrow> bool" where
  "vault_readable pf vk db \<longleftrightarrow> (let c = content_of pf vk db in
     rows_open (vc_profiles c) \<and> rows_open (vc_conversations c) \<and> rows_open (vc_messages c) \<and> rows_open (vc_media c)) \<and>
     tbl_ok er_id (vd_profiles db) \<and> tbl_ok er_id (vd_conversations db) \<and> tbl_ok mr_id (vd_messages db) \<and> tbl_ok md_id (vd_media db)"

subsection \<open>Writing rows in place\<close>

lemma tbl_put_in_place: "tbl_ok key (xs @ v # ys) \<Longrightarrow> key w = key v \<Longrightarrow> tbl_put key w (xs @ v # ys) = xs @ w # ys"
proof (induction xs)
  case (Cons x xs)
  then have "key x < key v" "tbl_ok key (xs @ v # ys)" by (simp_all add: tbl_ok_Cons)
  then show ?case using Cons by auto
qed simp

lemma tbl_ok_map: "(\<And>v. key (f v) = key v) \<Longrightarrow> tbl_ok key (map f xs) = tbl_ok key xs"
  by (simp add: tbl_ok_def comp_def)

lemma rotate_all_append:
  "rotate_all env old new (xs @ ys) db = (case rotate_all env old new xs db of
     (Some e, db') \<Rightarrow> (Some e, db') | (None, db') \<Rightarrow> rotate_all env old new ys db')"
  by (induction xs arbitrary: db) (auto split: sum.split)

text \<open>
  A table whose rows are written one by one: the steps take the rows not yet written to their
  image, one after another.
\<close>

lemma rotate_table:
  assumes put: "\<And>r db. r \<in> set t \<Longrightarrow> rotate_item env old new (item r) db = Inr (set_t (tbl_put key (f r) (get_t db)) db)"
    and key: "\<And>r. key (f r) = key r"
    and lens: "\<And>v db. get_t (set_t v db) = v" "\<And>v w db. set_t v (set_t w db) = set_t v db" "\<And>db. set_t (get_t db) db = db"
    and ok: "tbl_ok key (t @ rest)" "get_t db = t @ rest"
  shows "rotate_all env old new (map item t) db = (None, set_t (map f t @ rest) db)"
proof -
  have "t = xs @ ys \<Longrightarrow> get_t db = map f xs @ ys @ rest \<Longrightarrow>
      rotate_all env old new (map item ys) db = (None, set_t (map f (xs @ ys) @ rest) db)" for xs ys db
  proof (induction ys arbitrary: xs db)
    case Nil
    then show ?case using lens(3) [of db] by simp
  next
    case (Cons y ys)
    have same: "map key (map f xs @ y # ys @ rest) = map key (t @ rest)" using Cons.prems(1) key by (simp add: comp_def)
    have "tbl_ok key (map f xs @ y # ys @ rest)" using ok(1) by (simp only: tbl_ok_def same)
    then have in_place: "tbl_put key (f y) (get_t db) = map f xs @ f y # ys @ rest"
      using Cons.prems(2) key by (simp add: tbl_put_in_place)
    have "rotate_all env old new (map item ys) (set_t (map f xs @ f y # ys @ rest) db)
        = (None, set_t (map f ((xs @ [y]) @ ys) @ rest) (set_t (map f xs @ f y # ys @ rest) db))"
      by (rule Cons.IH) (use Cons.prems lens in simp_all)
    then show ?case using put [of y db] Cons.prems(1) in_place lens by simp
  qed
  from this [of "[]" t db] ok show ?thesis by simp
qed

lemmas rotate_whole_table = rotate_table [where rest = "[]", unfolded append_Nil2]

subsection \<open>A row sealed anew\<close>

lemma resealed_content:
  assumes "vault_codec (ve_pf env)" "vault_cipher (ve_pf env)" "nonces_ok env"
    and "json_content (ve_pf env) old type i enc = Some v"
  shows "\<exists>enc'. resealed env old new type i enc = Inr enc' \<and> json_content (ve_pf env) new type i enc' = Some v"
proof -
  obtain w where w: "decryptJsonRecord (ve_pf env) old i type enc = Inr w" "wf_json w" "meaning w = v"
    using assms(4) by (auto simp: json_content_def split: sum.splits if_splits)
  have "length (ve_nonce env i) = AEAD_NPUBBYTES" using assms(3) by (simp add: nonces_ok_def)
  from json_content_sealed [OF assms(1,2) this w(2)] w show ?thesis by (simp add: resealed_def)
qed

lemma resealed_media_content:
  assumes "vault_codec (ve_pf env)" "vault_cipher (ve_pf env)" "nonces_ok env"
    and "media_content (ve_pf env) old r = Some bs"
  shows "\<exists>enc'. resealed_media env old new r = Inr enc' \<and> media_content (ve_pf env) new (r\<lparr>md_enc := enc', md_updatedAt := t\<rparr>) = Some bs"
proof -
  have "decodeBinaryEnvelope (ve_pf env) old (md_id r) ''mediaChunk'' (md_enc r) = Inr bs"
    using assms(4) by (auto simp: media_content_def split: sum.splits)
  moreover have "length (ve_nonce env (md_id r)) = AEAD_NPUBBYTES" using assms(3) by (simp add: nonces_ok_def)
  ultimately show ?thesis using open_seal [OF assms(1,2)]
    by (simp add: resealed_media_def media_content_def decodeBinaryEnvelope_def encodeBinaryEnvelope_def)
qed

text \<open>The rows after a change: what the step computes for each.\<close>

definition right_or :: "'a \<Rightarrow> 'e + 'a \<Rightarrow> 'a" where
  "right_or d r = (case r of Inl _ \<Rightarrow> d | Inr x \<Rightarrow> x)"

definition new_row :: "vault_env \<Rightarrow> bytes \<Rightarrow> bytes \<Rightarrow> string \<Rightarrow> enc_row \<Rightarrow> enc_row" where
  "new_row env old new type r = r\<lparr>er_enc := right_or [] (resealed env old new type (er_id r) (er_enc r)), er_updatedAt := ve_now env\<rparr>"

definition new_message :: "vault_env \<Rightarrow> bytes \<Rightarrow> bytes \<Rightarrow> message_row \<Rightarrow> message_row" where
  "new_message env old new r = r\<lparr>mr_enc := right_or [] (resealed env old new ''message'' (mr_id r) (mr_enc r))\<rparr>"

definition new_chunk :: "vault_env \<Rightarrow> bytes \<Rightarrow> bytes \<Rightarrow> media_row \<Rightarrow> media_row" where
  "new_chunk env old new r = r\<lparr>md_enc := right_or [] (resealed_media env old new r), md_updatedAt := ve_now env\<rparr>"

definition rotated :: "vault_env \<Rightarrow> bytes \<Rightarrow> bytes \<Rightarrow> vault_db \<Rightarrow> vault_db" where
  "rotated env old new db = db\<lparr>vd_profiles := map (new_row env old new ''profile'') (vd_profiles db),
     vd_conversations := map (new_row env old new ''conv'') (vd_conversations db),
     vd_messages := map (new_message env old new) (vd_messages db), vd_media := map (new_chunk env old new) (vd_media db)\<rparr>"

lemma rows_open_iff: "rows_open (map (\<lambda>r. (g r, h r)) xs) \<longleftrightarrow> (\<forall>r \<in> set xs. h r \<noteq> None)"
  by (simp add: rows_open_def list_all_iff)

lemma readable_rows:
  assumes "vault_readable pf vk db"
  shows "\<forall>r \<in> set (vd_profiles db). json_content pf vk ''profile'' (er_id r) (er_enc r) \<noteq> None"
    and "\<forall>r \<in> set (vd_conversations db). json_content pf vk ''conv'' (er_id r) (er_enc r) \<noteq> None"
    and "\<forall>r \<in> set (vd_messages db). json_content pf vk ''message'' (mr_id r) (mr_enc r) \<noteq> None"
    and "\<forall>r \<in> set (vd_media db). media_content pf vk r \<noteq> None"
  using assms by (simp_all add: vault_readable_def Let_def content_of_def row_content_def [abs_def] message_content_def [abs_def]
    chunk_content_def [abs_def] rows_open_iff)

text \<open>All steps together, from a vault that can be read.\<close>

lemma rotate_all_readable:
  assumes "vault_codec (ve_pf env)" "vault_cipher (ve_pf env)" "nonces_ok env" "vault_readable (ve_pf env) old db"
  shows "rotate_all env old new (rotation_items db) db = (None, rotated env old new db)"
proof -
  note rows = readable_rows [OF assms(4)]
  note anew = resealed_content [OF assms(1-3)] resealed_media_content [OF assms(1-3)]
  have ok: "tbl_ok er_id (vd_profiles db)" "tbl_ok er_id (vd_conversations db)" "tbl_ok mr_id (vd_messages db)" "tbl_ok md_id (vd_media db)"
    using assms(4) by (simp_all add: vault_readable_def)
  have step: "json_content (ve_pf env) old type i enc = Some v \<Longrightarrow> \<exists>e. resealed env old new type i enc = Inr e"
    "media_content (ve_pf env) old r = Some bs \<Longrightarrow> \<exists>e. resealed_media env old new r = Inr e" for type i enc v r bs
    using anew(1) [of old type i enc v new] anew(2) [of old r bs new] by auto
  have p: "rotate_all env old new (map RotProfile (vd_profiles db)) d = (None, d\<lparr>vd_profiles := map (new_row env old new ''profile'') (vd_profiles db)\<rparr>)"
    if "vd_profiles d = vd_profiles db" for d
  proof (rule rotate_whole_table [where get_t = vd_profiles and key = er_id])
    show "rotate_item env old new (RotProfile r) e = Inr (e\<lparr>vd_profiles := tbl_put er_id (new_row env old new ''profile'' r) (vd_profiles e)\<rparr>)"
      if "r \<in> set (vd_profiles db)" for r e
      using rows(1) that by (auto simp: new_row_def right_or_def dest!: step)
  qed (simp_all add: ok that new_row_def)
  have c: "rotate_all env old new (map RotConv (vd_conversations db)) d = (None, d\<lparr>vd_conversations := map (new_row env old new ''conv'') (vd_conversations db)\<rparr>)"
    if "vd_conversations d = vd_conversations db" for d
  proof (rule rotate_whole_table [where get_t = vd_conversations and key = er_id])
    show "rotate_item env old new (RotConv r) e = Inr (e\<lparr>vd_conversations := tbl_put er_id (new_row env old new ''conv'' r) (vd_conversations e)\<rparr>)"
      if "r \<in> set (vd_conversations db)" for r e
      using rows(2) that by (auto simp: new_row_def right_or_def dest!: step)
  qed (simp_all add: ok that new_row_def)
  have m: "rotate_all env old new (map RotMsg (vd_messages db)) d = (None, d\<lparr>vd_messages := map (new_message env old new) (vd_messages db)\<rparr>)"
    if "vd_messages d = vd_messages db" for d
  proof (rule rotate_whole_table [where get_t = vd_messages and key = mr_id])
    show "rotate_item env old new (RotMsg r) e = Inr (e\<lparr>vd_messages := tbl_put mr_id (new_message env old new r) (vd_messages e)\<rparr>)"
      if "r \<in> set (vd_messages db)" for r e
      using rows(3) that by (auto simp: new_message_def right_or_def dest!: step)
  qed (simp_all add: ok that new_message_def)
  have x: "rotate_all env old new (map RotMedia (vd_media db)) d = (None, d\<lparr>vd_media := map (new_chunk env old new) (vd_media db)\<rparr>)"
    if "vd_media d = vd_media db" for d
  proof (rule rotate_whole_table [where get_t = vd_media and key = md_id])
    show "rotate_item env old new (RotMedia r) e = Inr (e\<lparr>vd_media := tbl_put md_id (new_chunk env old new r) (vd_media e)\<rparr>)"
      if "r \<in> set (vd_media db)" for r e
      using rows(4) that by (auto simp: new_chunk_def right_or_def dest!: step)
  qed (simp_all add: ok that new_chunk_def)
  show ?thesis by (simp add: rotation_items_def rotate_all_append p c m x rotated_def)
qed

lemma rotated_content:
  assumes "vault_codec (ve_pf env)" "vault_cipher (ve_pf env)" "nonces_ok env" "vault_readable (ve_pf env) old db"
  shows "content_of (ve_pf env) new (rotated env old new db) = content_of (ve_pf env) old db"
proof -
  note rows = readable_rows [OF assms(4)]
  note anew = resealed_content [OF assms(1-3)] resealed_media_content [OF assms(1-3)]
  have j: "json_content (ve_pf env) new type i (right_or [] (resealed env old new type i enc)) = json_content (ve_pf env) old type i enc"
    if "json_content (ve_pf env) old type i enc \<noteq> None" for type i enc
    using that anew(1) [of old type i enc _ new] by (force simp: right_or_def)
  have b: "media_content (ve_pf env) new (new_chunk env old new r) = media_content (ve_pf env) old r"
    if "media_content (ve_pf env) old r \<noteq> None" for r
    using that anew(2) [of old r _ new "ve_now env"] by (force simp: right_or_def new_chunk_def)
  have k: "md_id (new_chunk env old new r) = md_id r" "md_ownerType (new_chunk env old new r) = md_ownerType r"
    "md_ownerId (new_chunk env old new r) = md_ownerId r" "md_idx (new_chunk env old new r) = md_idx r"
    "md_mime (new_chunk env old new r) = md_mime r" "md_total (new_chunk env old new r) = md_total r" for r
    by (simp_all add: new_chunk_def)
  show ?thesis
    using rows j b by (simp add: content_of_def rotated_def row_content_def message_content_def chunk_content_def new_row_def new_message_def k)
qed

subsection \<open>Unlocking after a change\<close>

lemma header_round:
  assumes "vault_codec pf"
  shows "\<exists>w. pf_json_parse pf (stringify (header_json h)) = Some w \<and> w \<noteq> JNull \<and> header_of w = h"
proof -
  have wf: "wf_json (header_json h)" by (simp add: header_json_def settable_def is_num_char_def is_digit_def)
  obtain w where w: "pf_json_parse pf (stringify (header_json h)) = Some w" "wf_json w" "meaning w = meaning (header_json h)"
    using text_codec.json [OF assms [unfolded vault_codec_def] wf] by blast
  have f: "meaning (field w k) = meaning (field (header_json h) k)" for k by (rule field_meaning [OF w(2) wf w(3)])
  have n: "num_floor (field w k) = i" if "field (header_json h) k = int_num i" for k i
    using meaning_finite [OF f [of k]] that by (simp add: num_floor_def)
  have "field w ''salt_b64'' = JStr (vh_salt_b64 h)" using f [of "''salt_b64''"] by (simp add: header_json_def meaning_string)
  then have "header_of w = h" using n [of "''createdAt''"] n [of "''opslimit''"] n [of "''memlimit''"]
    by (simp add: header_of_def header_json_def text_of_str_def)
  moreover have "w \<noteq> JNull" using w(3) by (auto simp: header_json_def)
  ultimately show ?thesis using w(1) by blast
qed

lemma meta_of_header [simp]: "VAULT_META_KEY \<noteq> VAULT_KEY_ID_KEY"
  by (simp add: VAULT_META_KEY_def VAULT_KEY_ID_KEY_def)

lemma setVaultKeyId_frame [simp]:
  "vd_key (setVaultKeyId env vk db) = vd_key db" "vd_profiles (setVaultKeyId env vk db) = vd_profiles db"
  "vd_conversations (setVaultKeyId env vk db) = vd_conversations db" "vd_messages (setVaultKeyId env vk db) = vd_messages db"
  "vd_media (setVaultKeyId env vk db) = vd_media db" "vd_transfers (setVaultKeyId env vk db) = vd_transfers db"
  "map_of (vd_meta (setVaultKeyId env vk db)) VAULT_META_KEY = map_of (vd_meta db) VAULT_META_KEY"
  by (auto simp: setVaultKeyId_def put_meta_def update_conv' VAULT_META_KEY_def VAULT_KEY_ID_KEY_def split: option.split)

lemma content_cong:
  "vd_profiles d = vd_profiles e \<Longrightarrow> vd_conversations d = vd_conversations e \<Longrightarrow> vd_messages d = vd_messages e \<Longrightarrow>
   vd_media d = vd_media e \<Longrightarrow> content_of pf vk d = content_of pf vk e"
  by (simp add: content_of_def)

text \<open>Unlocking with the start key a header was written for gives the key derived with it.\<close>

lemma unlock_with_header:
  assumes "vault_codec (ve_pf env)" "map_of (vd_meta db) VAULT_META_KEY = Some (stringify (header_json h))"
    and "deriveMkm (ve_pf env) (ve_kdf env) key h = Inr mkm"
  shows "unlockVault env key db = (None, setVaultKeyId env (deriveVk (ve_pf env) mkm) (setVaultKey (deriveVk (ve_pf env) mkm) db))"
proof -
  obtain w where w: "pf_json_parse (ve_pf env) (stringify (header_json h)) = Some w" "w \<noteq> JNull" "header_of w = h"
    using header_round [OF assms(1)] by blast
  have "ensureVaultHeader env db = (h, db)" using assms(2) w by (simp add: ensureVaultHeader_def getVaultHeader_def)
  then show ?thesis using assms(3) by (simp add: unlockVault_def Let_def)
qed

lemma mkm_of_new_header:
  assumes "vault_codec (ve_pf env)" "validateStartKey key"
    and "ve_kdf env 32 (trim key) (ve_salt env) (fst (ve_costs env)) (snd (ve_costs env)) = Some mkm"
  shows "deriveMkm (ve_pf env) (ve_kdf env) key (new_header env) = Inr mkm"
  using assms text_codec.b64 [OF assms(1) [unfolded vault_codec_def]]
  by (simp add: deriveMkm_def new_header_def createVaultHeader_def valid_start_key_is_normalized)

text \<open>
  C12. A change of the start key that runs to its end loses nothing: every profile, conversation,
  message and media chunk of a vault that could be read is there under the new key, in its row, with its
  content; and after the vault was locked, the new start key, at any later time, unlocks it to the same
  content.
\<close>

theorem rotation_keeps_content:
  assumes pf: "vault_codec (ve_pf env)" "vault_cipher (ve_pf env)" "nonces_ok env"
    and db: "vd_key db = Some old" "vault_readable (ve_pf env) old db"
    and key: "validateStartKey startKey"
      "ve_kdf env 32 (trim startKey) (ve_salt env) (fst (ve_costs env)) (snd (ve_costs env)) = Some mkm"
    and later: "ve_pf env' = ve_pf env" "ve_kdf env' = ve_kdf env"
  shows "\<exists>db' db''. rotateVaultKeys env startKey db = (None, db') \<and> vd_key db' = Some (deriveVk (ve_pf env) mkm) \<and>
    content_of (ve_pf env) (deriveVk (ve_pf env) mkm) db' = content_of (ve_pf env) old db \<and>
    unlockVault env' startKey (lockVault db') = (None, db'') \<and> vd_key db'' = Some (deriveVk (ve_pf env) mkm) \<and>
    content_of (ve_pf env) (deriveVk (ve_pf env) mkm) db'' = content_of (ve_pf env) old db"
proof -
  let ?new = "deriveVk (ve_pf env) mkm"
  let ?db = "finish_rotation env ?new (rotated env old ?new db)"
  have mkm: "deriveMkm (ve_pf env) (ve_kdf env) startKey (new_header env) = Inr mkm" by (rule mkm_of_new_header [OF pf(1) key])
  have run: "rotateVaultKeys env startKey db = (None, ?db)"
    using mkm db(1) rotate_all_readable [OF pf db(2)] by (simp add: rotateVaultKeys_def requireVaultKey_def Let_def)
  have same: "content_of (ve_pf env) ?new ?db = content_of (ve_pf env) old db"
    unfolding rotated_content [OF pf db(2), of ?new, symmetric]
    by (rule content_cong) (simp_all add: finish_rotation_def put_meta_def setVaultKey_def)
  have k: "vd_key ?db = Some ?new" by (simp add: finish_rotation_def setVaultKey_def)
  have "map_of (vd_meta (lockVault ?db)) VAULT_META_KEY = Some (stringify (header_json (new_header env)))"
    by (simp add: lockVault_def clearVaultKey_def finish_rotation_def setVaultKey_def put_meta_def update_conv')
  from unlock_with_header [of env' "lockVault ?db", OF _ this] mkm pf(1)
  have unlock: "unlockVault env' startKey (lockVault ?db) = (None, setVaultKeyId env' ?new (setVaultKey ?new (lockVault ?db)))"
    by (simp add: later)
  have "content_of (ve_pf env) ?new (setVaultKeyId env' ?new (setVaultKey ?new (lockVault ?db))) = content_of (ve_pf env) ?new ?db"
    by (rule content_cong) (simp_all add: setVaultKey_def lockVault_def clearVaultKey_def)
  then show ?thesis using run same unlock k by (simp add: setVaultKey_def)
qed

subsection \<open>A change that is cut short\<close>

lemma collect_first_error:
  assumes "\<And>x. x \<in> set xs \<Longrightarrow> \<exists>v. f x = Inr v" and "f y = Inl e"
  shows "collect (map f (xs @ y # ys)) = Inl e"
  using assms(1)
proof (induction xs)
  case (Cons x xs)
  then obtain v where "f x = Inr v" by (meson list.set_intros(1))
  moreover have "collect (map f (xs @ y # ys)) = Inl e" by (rule Cons.IH) (simp add: Cons.prems)
  ultimately show ?case by simp
qed (simp add: assms(2))

lemma list_profiles_at:
  "listProfiles env (db\<lparr>vd_key := Some vk\<rparr>) = collect (map (open_row (ve_pf env) vk ''profile'') (vd_profiles db))"
  by (simp add: listProfiles_def with_key_def requireVaultKey_def)

text \<open>
  C38. The start key is changed in place and the header comes last. When the change stops after
  some of the profiles, the application closed or a row that does not open, the key in use is still the old
  one and the list of profiles does not open with it any more; with the new key, which is
  stored nowhere yet, it does not open either as long as one profile is not rewritten, and from then on it
  is what it was. That a record sealed under one of the two keys does not open under the other is the
  hypothesis on the cipher.
\<close>

theorem interrupted_rotation_is_unreadable:
  assumes pf: "vault_codec (ve_pf env)" "vault_cipher (ve_pf env)" "nonces_ok env"
    and db: "vd_key db = Some old" "vault_readable (ve_pf env) old db"
    and other: "\<forall>i t m p. length m = AEAD_NPUBBYTES \<longrightarrow> open_record (ve_pf env) old i t (seal_record (ve_pf env) new i t m p) = Inl OpenThrew"
    and stored: "\<forall>r \<in> set (vd_profiles db). open_row (ve_pf env) new ''profile'' r = Inl (VaultFailed OpenThrew)"
    and n: "0 < n" "n \<le> length (vd_profiles db)"
  shows "\<exists>db'. rotate_all env old new (take n (rotation_items db)) db = (None, db') \<and> vd_key db' = Some old \<and>
    listProfiles env db' = Inl (VaultFailed OpenThrew) \<and>
    (if n < length (vd_profiles db) then listProfiles env (db'\<lparr>vd_key := Some new\<rparr>) = Inl (VaultFailed OpenThrew)
     else map (row_content (ve_pf env) new ''profile'') (vd_profiles db') =
       map (row_content (ve_pf env) old ''profile'') (vd_profiles db))"
proof -
  note rows = readable_rows(1) [OF db(2)]
  let ?row = "new_row env old new ''profile''"
  let ?ps = "take n (vd_profiles db)"
  let ?db = "db\<lparr>vd_profiles := map ?row ?ps @ drop n (vd_profiles db)\<rparr>"
  have items: "take n (rotation_items db) = map RotProfile ?ps" using n(2) by (simp add: rotation_items_def take_map)
  have ok: "tbl_ok er_id (vd_profiles db)" using db(2) by (simp add: vault_readable_def)
  have anew: "row_content (ve_pf env) new ''profile'' (?row r) = row_content (ve_pf env) old ''profile'' r \<and>
      (\<exists>enc. resealed env old new ''profile'' (er_id r) (er_enc r) = Inr enc)" if r: "r \<in> set (vd_profiles db)" for r
  proof -
    obtain v where v: "json_content (ve_pf env) old ''profile'' (er_id r) (er_enc r) = Some v" using rows r by auto
    from resealed_content [OF pf this, of new] show ?thesis by (auto simp: new_row_def right_or_def row_content_def v)
  qed
  have run: "rotate_all env old new (map RotProfile ?ps) db = (None, ?db)"
  proof (rule rotate_table [where get_t = vd_profiles and key = er_id])
    show "rotate_item env old new (RotProfile r) e = Inr (e\<lparr>vd_profiles := tbl_put er_id (?row r) (vd_profiles e)\<rparr>)"
      if r: "r \<in> set ?ps" for r e
      using anew [OF in_set_takeD [OF r]] by (auto simp: new_row_def right_or_def)
  qed (simp_all add: ok new_row_def)
  have old_fails: "open_row (ve_pf env) old ''profile'' (?row r) = Inl (VaultFailed OpenThrew)" if r: "r \<in> set (vd_profiles db)" for r
  proof -
    obtain w where w: "decryptJsonRecord (ve_pf env) old (er_id r) ''profile'' (er_enc r) = Inr w"
      using rows r by (fastforce simp: json_content_def split: sum.splits)
    then have "er_enc (?row r) = encryptJsonRecord (ve_pf env) new (er_id r) ''profile'' (ve_nonce env (er_id r)) w"
      "er_id (?row r) = er_id r" by (simp_all add: new_row_def resealed_def right_or_def)
    moreover have "length (ve_nonce env (er_id r)) = AEAD_NPUBBYTES" using pf(3) by (simp add: nonces_ok_def)
    ultimately show ?thesis using other by (simp add: open_row_def in_vault_def decryptJsonRecord_def encryptJsonRecord_def)
  qed
  have new_opens: "\<exists>w. open_row (ve_pf env) new ''profile'' (?row r) = Inr w" if r: "r \<in> set (vd_profiles db)" for r
    using anew [OF r] rows r
    by (auto simp: row_content_def json_content_def open_row_def in_vault_def split: sum.splits if_splits)
  obtain r rs where rs: "vd_profiles db = r # rs" using n by (cases "vd_profiles db") auto
  obtain m where m: "n = Suc m" using n(1) by (cases n) auto
  have "listProfiles env ?db = Inl (VaultFailed OpenThrew)"
    using old_fails [of r] db(1) by (simp add: listProfiles_def with_key_def requireVaultKey_def rs m)
  moreover have "listProfiles env (?db\<lparr>vd_key := Some new\<rparr>) = Inl (VaultFailed OpenThrew)" if less: "n < length (vd_profiles db)"
  proof -
    obtain y ys where y: "drop n (vd_profiles db) = y # ys" using less by (metis Cons_nth_drop_Suc)
    then have "y \<in> set (vd_profiles db)" using in_set_dropD by (metis list.set_intros(1))
    then have "open_row (ve_pf env) new ''profile'' y = Inl (VaultFailed OpenThrew)" using stored by blast
    moreover have "\<exists>v. open_row (ve_pf env) new ''profile'' x = Inr v" if "x \<in> set (map ?row ?ps)" for x
      using that new_opens in_set_takeD [of _ n "vd_profiles db"] by (auto simp del: map_append)
    ultimately have "collect (map (open_row (ve_pf env) new ''profile'') (map ?row ?ps @ y # ys)) = Inl (VaultFailed OpenThrew)"
      by (rule collect_first_error [rotated])
    then show ?thesis unfolding list_profiles_at by (simp add: y)
  qed
  moreover have "map (row_content (ve_pf env) new ''profile'') (vd_profiles ?db) = map (row_content (ve_pf env) old ''profile'') (vd_profiles db)"
    if "\<not> n < length (vd_profiles db)" using that anew by simp
  ultimately show ?thesis unfolding items using run db(1)
    by (intro exI [of _ ?db]) (simp del: vault_db.update_convs vault_db.simps map_append add: if_bool_eq_conj)
qed

text \<open>
  A change that runs to its end leaves the progress of media transfers, which is sealed under the
  key of the vault too, as it was, so that it does not open any more.
\<close>

theorem rotation_forgets_transfers:
  assumes "rotateVaultKeys env startKey db = (None, db')"
  shows "vd_transfers db' = vd_transfers db \<and> (\<exists>new. vd_key db' = Some new)"
proof -
  have item: "rotate_item env old new x d = Inr e \<Longrightarrow> vd_transfers e = vd_transfers d" for old new x d e
    by (cases x) (auto split: sum.splits)
  have all: "rotate_all env old new xs d = (None, e) \<Longrightarrow> vd_transfers e = vd_transfers d" for old new xs d e
    by (induction xs arbitrary: d) (auto split: sum.splits dest!: item)
  show ?thesis using assms all
    by (fastforce simp: rotateVaultKeys_def finish_rotation_def setVaultKey_def put_meta_def Let_def split: sum.splits prod.splits option.splits)
qed

subsection \<open>Concrete inputs\<close>

text \<open>A cipher whose tag is the beginning of the vault's key, and a vault with a row in each table.\<close>

definition key_tag :: "bytes \<Rightarrow> bytes" where
  "key_tag k = take 16 (drop 7 k @ replicate 16 0)"

definition keyed_platform :: platform where
  "keyed_platform = vault_platform\<lparr>pf_aead_encrypt := (\<lambda>p a n k. p @ key_tag k),
     pf_aead_decrypt := (\<lambda>c a n k. if drop (length c - 16) c = key_tag k then Some (take (length c - 16) c) else None)\<rparr>"

lemma key_tag_length [simp]: "length (key_tag k) = 16"
  by (simp add: key_tag_def)

lemma keyed_platform_ok: "vault_codec keyed_platform" "vault_cipher keyed_platform"
  using vault_platform_ok(1) by (simp_all add: vault_codec_def vault_cipher_def keyed_platform_def AEAD_ABYTES_def)

definition demo_env :: vault_env where
  "demo_env = \<lparr>ve_pf = keyed_platform, ve_kdf = (\<lambda>n key salt ops mem. Some [9]), ve_costs = (2, 1000), ve_salt = [5],
     ve_now = 7, ve_nonce = (\<lambda>i. demo_nonce), ve_subtle = True\<rparr>"

lemma demo_env_simps [simp]: "ve_pf demo_env = keyed_platform" "ve_kdf demo_env n key salt ops mem = Some [9]"
  "ve_nonce demo_env i = demo_nonce" "nonces_ok demo_env"
  by (simp_all add: demo_env_def nonces_ok_def demo_nonce_length)

definition demo_value :: json where
  "demo_value = JObj [(''id'', JStr ''p'')]"

lemma wf_demo_value: "wf_json demo_value"
  by (simp add: demo_value_def settable_def)

definition demo_vault :: "bytes \<Rightarrow> vault_db" where
  "demo_vault vk = fresh_db\<lparr>vd_key := Some vk, vd_profiles := [sealed_row demo_env vk ''profile'' demo_value ''p''],
     vd_messages := [sealed_message demo_env vk ''m'' ''c'' 3 demo_value],
     vd_media := [\<lparr>md_id = ''m:0'', md_ownerType = ''message'', md_ownerId = ''m'', md_idx = 0,
       md_enc = encodeBinaryEnvelope keyed_platform vk ''m:0'' ''mediaChunk'' demo_nonce [7], md_mime = ''text/plain'',
       md_total = 1, md_updatedAt = 0\<rparr>]\<rparr>"

lemma demo_vault_readable: "vault_readable keyed_platform vk (demo_vault vk)"
  using json_content_sealed [OF keyed_platform_ok demo_nonce_length wf_demo_value, of vk] open_seal [OF keyed_platform_ok demo_nonce_length, of vk]
  by (simp add: vault_readable_def Let_def content_of_def demo_vault_def fresh_db_def row_content_def message_content_def chunk_content_def
    sealed_row_def sealed_message_def media_content_def decodeBinaryEnvelope_def encodeBinaryEnvelope_def rows_open_def tbl_ok_def)

definition demo_key :: string where
  "demo_key = ''NKC-'' @ encodeBase64Url (replicate 32 7)"

lemma demo_start_key: "validateStartKey demo_key"
  unfolding demo_key_def by (rule made_start_key_is_valid) simp

theorem rotation_keeps_content_witness:
  "\<exists>db' db''. rotateVaultKeys demo_env demo_key (demo_vault [1]) = (None, db') \<and>
    vd_key db' = Some (deriveVk (ve_pf demo_env) [9]) \<and>
    content_of (ve_pf demo_env) (deriveVk (ve_pf demo_env) [9]) db' = content_of (ve_pf demo_env) [1] (demo_vault [1]) \<and>
    unlockVault demo_env demo_key (lockVault db') = (None, db'') \<and>
    vd_key db'' = Some (deriveVk (ve_pf demo_env) [9]) \<and>
    content_of (ve_pf demo_env) (deriveVk (ve_pf demo_env) [9]) db'' = content_of (ve_pf demo_env) [1] (demo_vault [1])"
  by (rule rotation_keeps_content)
    (simp_all add: keyed_platform_ok demo_vault_readable demo_start_key, simp add: demo_vault_def)

lemma keyed_platform_separates:
  assumes "hd (drop 7 (deriveRecordKey keyed_platform vk i t)) \<noteq> hd (drop 7 (deriveRecordKey keyed_platform vk' i t))"
    and "drop 7 (deriveRecordKey keyed_platform vk i t) \<noteq> []" "drop 7 (deriveRecordKey keyed_platform vk' i t) \<noteq> []"
  shows "pf_aead_decrypt keyed_platform (pf_aead_encrypt keyed_platform p a n (deriveRecordKey keyed_platform vk' i t)) a n
    (deriveRecordKey keyed_platform vk i t) = None"
proof -
  have "hd (key_tag k) = hd (drop 7 k)" if "drop 7 k \<noteq> []" for k using that by (cases "drop 7 k") (simp_all add: key_tag_def)
  then have "key_tag (deriveRecordKey keyed_platform vk' i t) \<noteq> key_tag (deriveRecordKey keyed_platform vk i t)" using assms by metis
  then show ?thesis by (simp add: keyed_platform_def)
qed

lemma drop_record_key: "vk \<noteq> [] \<Longrightarrow> drop 7 (deriveRecordKey keyed_platform vk i t) \<noteq> [] \<and> hd (drop 7 (deriveRecordKey keyed_platform vk i t)) = hd vk"
proof -
  assume "vk \<noteq> []"
  then obtain b bs where vk: "vk = b # bs" by (cases vk) auto
  have "length (encode_utf8 DOMAIN_REC) = 7" by (simp add: encode_utf8_def utf8_char_def DOMAIN_REC_def)
  moreover have "deriveRecordKey keyed_platform vk i t = take 32 (encode_utf8 DOMAIN_REC @ vk @ encode_utf8 i @ encode_utf8 t)"
    by (simp add: deriveRecordKey_def keyed_platform_def vault_platform_def open_platform_def concatBytes_def)
  ultimately show ?thesis by (simp add: vk take_Cons')
qed

lemma other_key_fails:
  assumes "old \<noteq> []" "new \<noteq> []" "hd old \<noteq> hd new" "length m = AEAD_NPUBBYTES"
  shows "open_record keyed_platform old i t (seal_record keyed_platform new i t m p) = Inl OpenThrew"
proof -
  have "AEAD_ABYTES \<le> length (pf_aead_encrypt keyed_platform p (buildAadBytes t i) m (deriveRecordKey keyed_platform new i t))"
    using keyed_platform_ok(2) by (simp add: vault_cipher_def)
  from decode_encoded [OF keyed_platform_ok(1) assms(4) this] show ?thesis
    using keyed_platform_separates drop_record_key [OF assms(1)] drop_record_key [OF assms(2)] assms(3)
    by (simp add: open_record_def seal_record_def)
qed

text \<open>Two profiles, of which the first is rewritten.\<close>

definition two_profiles :: vault_db where
  "two_profiles = fresh_db\<lparr>vd_key := Some [1],
     vd_profiles := map (sealed_row demo_env [1] ''profile'' demo_value) [''p'', ''q'']\<rparr>"

lemma two_profiles_readable: "vault_readable keyed_platform [1] two_profiles"
  using json_content_sealed [OF keyed_platform_ok demo_nonce_length wf_demo_value, of "[1]"]
  by (simp add: vault_readable_def Let_def content_of_def two_profiles_def fresh_db_def row_content_def
    sealed_row_def rows_open_def tbl_ok_def)

lemma sealed_row_other_key: "open_row keyed_platform [2] ''profile'' (sealed_row demo_env [1] ''profile'' demo_value i) = Inl (VaultFailed OpenThrew)"
  using other_key_fails [of "[2]" "[1]" demo_nonce i "''profile''"] demo_nonce_length
  by (simp add: open_row_def in_vault_def decryptJsonRecord_def sealed_row_def encryptJsonRecord_def)

theorem interrupted_rotation_is_unreadable_witness:
  "\<exists>db'. rotate_all demo_env [1] [2] (take 1 (rotation_items two_profiles)) two_profiles = (None, db') \<and>
    listProfiles demo_env db' = Inl (VaultFailed OpenThrew) \<and>
    listProfiles demo_env (db'\<lparr>vd_key := Some [2]\<rparr>) = Inl (VaultFailed OpenThrew)"
proof -
  have len: "length (vd_profiles two_profiles) = 2" and key: "vd_key two_profiles = Some [1]"
    by (simp_all add: two_profiles_def)
  have "\<forall>r \<in> set (vd_profiles two_profiles). open_row (ve_pf demo_env) [2] ''profile'' r = Inl (VaultFailed OpenThrew)"
    using sealed_row_other_key by (simp add: two_profiles_def)
  then have "\<exists>db'. rotate_all demo_env [1] [2] (take 1 (rotation_items two_profiles)) two_profiles = (None, db') \<and>
      vd_key db' = Some [1] \<and> listProfiles demo_env db' = Inl (VaultFailed OpenThrew) \<and>
      listProfiles demo_env (db'\<lparr>vd_key := Some [2]\<rparr>) = Inl (VaultFailed OpenThrew)"
    using interrupted_rotation_is_unreadable [of demo_env two_profiles "[1]" "[2]" 1] len key
    by (simp add: keyed_platform_ok two_profiles_readable other_key_fails)
  then show ?thesis by blast
qed

theorem rotation_forgets_transfers_witness:
  "\<exists>db'. rotateVaultKeys demo_env demo_key (fresh_db\<lparr>vd_key := Some [1],
       vd_transfers := [\<lparr>er_id = ''t'', er_enc = ''x'', er_updatedAt = 0\<rparr>]\<rparr>) = (None, db') \<and>
     vd_transfers db' = [\<lparr>er_id = ''t'', er_enc = ''x'', er_updatedAt = 0\<rparr>]"
proof -
  let ?db = "fresh_db\<lparr>vd_key := Some [1], vd_transfers := [\<lparr>er_id = ''t'', er_enc = ''x'', er_updatedAt = 0\<rparr>]\<rparr>"
  have mkm: "deriveMkm (ve_pf demo_env) (ve_kdf demo_env) demo_key (new_header demo_env) = Inr [9]"
    by (rule mkm_of_new_header) (simp_all add: keyed_platform_ok demo_start_key)
  obtain db' where run: "rotateVaultKeys demo_env demo_key ?db = (None, db')"
    using mkm by (simp add: rotateVaultKeys_def requireVaultKey_def Let_def rotation_items_def fresh_db_def)
  from rotation_forgets_transfers [OF run] run show ?thesis by (simp add: fresh_db_def)
qed

end
