(* ===== verification/Media_Store.thy ===== *)
theory Media_Store
  imports Vault_Rotation Media_Policy
begin

text \<open>
  Media in the encrypted database (src/src/db/repo.ts): files the user picks are inspected
  (src/src/security/mediaPolicy.ts), cut into chunks and stored; chunks that arrive are checked against the
  message they belong to; and what is stored is put together again. A file is its name, its declared
  type and its bytes. Pauses for the event loop are left out, and so is the limit on how many
  chunks are decrypted at a time, which does not change the result.
\<close>

subsection \<open>Files the user picks\<close>

record media_file =
  fl_name :: string
  fl_type :: string
  fl_bytes :: bytes

definition fl_size :: "media_file \<Rightarrow> nat" where
  "fl_size f = length (fl_bytes f)"

record prepared_metadata =
  pm_mime :: string
  pm_name :: string

definition AVATAR_MAX_BYTES :: nat where
  "AVATAR_MAX_BYTES = 10 * 1024 * 1024"

definition inspectOutgoingMediaFile :: "media_file \<Rightarrow> db_error + prepared_metadata" where
  "inspectOutgoingMediaFile file =
     (if fl_size file = 0 \<or> INLINE_MEDIA_MAX_BYTES < int (fl_size file) then Inl (MediaFailed ''Invalid media size'')
      else let claimedMime = normalizeMediaMime (JStr (fl_type file));
               detectedMime = detectSafePreviewMime (take 64 (fl_bytes file))
           in if isPreviewMediaClaim (JStr (fl_type file)) \<and> detectedMime \<noteq> Some claimedMime
              then Inl (MediaFailed ''Image or video content does not match its declared type'')
              else Inr (case detectedMime of
                  Some m \<Rightarrow> \<lparr>pm_mime = m, pm_name = canonicalizePreviewFilename (JStr (fl_name file)) m\<rparr>
                | None \<Rightarrow> \<lparr>pm_mime = claimedMime, pm_name = sanitizeMediaFilename (JStr (fl_name file))\<rparr>))"

definition inspectAvatarImageFile :: "media_file \<Rightarrow> db_error + prepared_metadata" where
  "inspectAvatarImageFile file =
     (if fl_size file = 0 \<or> AVATAR_MAX_BYTES < fl_size file then Inl (MediaFailed ''Invalid avatar image size'')
      else (case detectSafePreviewMime (take 64 (fl_bytes file)) of
          None \<Rightarrow> Inl (MediaFailed ''Unsupported avatar image content'')
        | Some m \<Rightarrow>
            if \<not> starts_with m ''image/'' then Inl (MediaFailed ''Unsupported avatar image content'')
            else if isPreviewMediaClaim (JStr (fl_type file)) \<and> normalizeMediaMime (JStr (fl_type file)) \<noteq> m
            then Inl (MediaFailed ''Avatar image content does not match its declared type'')
            else Inr \<lparr>pm_mime = m, pm_name = canonicalizePreviewFilename (JStr (fl_name file)) m\<rparr>))"

subsection \<open>References and chunks\<close>

definition MEDIA_CHUNK_SIZE :: nat where "MEDIA_CHUNK_SIZE = 192 * 1024"
definition MAX_MEDIA_CHUNK_SIZE :: nat where "MAX_MEDIA_CHUNK_SIZE = 1024 * 1024"
definition MAX_MEDIA_BYTES :: nat where "MAX_MEDIA_BYTES = 500 * 1024 * 1024"
definition MEDIA_WRITE_BATCH_SIZE :: nat where "MEDIA_WRITE_BATCH_SIZE = 8"
definition MEDIA_DECRYPT_CONCURRENCY :: nat where "MEDIA_DECRYPT_CONCURRENCY = 6"
definition MEDIA_DECRYPT_LARGE_CHUNKS :: nat where "MEDIA_DECRYPT_LARGE_CHUNKS = 32"
definition MEDIA_DECRYPT_LARGE_CONCURRENCY :: nat where "MEDIA_DECRYPT_LARGE_CONCURRENCY = 3"
definition MEDIA_DECRYPT_BATCH_MULTIPLIER :: nat where "MEDIA_DECRYPT_BATCH_MULTIPLIER = 4"

record media_ref =
  mf_ownerId :: string
  mf_mime :: string
  mf_total :: nat
  mf_chunkSize :: nat
  mf_name :: string
  mf_size :: nat

definition media_ref_json :: "media_ref \<Rightarrow> json" where
  "media_ref_json r = JObj [(''ownerType'', JStr ''message''), (''ownerId'', JStr (mf_ownerId r)), (''mime'', JStr (mf_mime r)),
     (''total'', int_num (int (mf_total r))), (''chunkSize'', int_num (int (mf_chunkSize r))), (''name'', JStr (mf_name r)),
     (''size'', int_num (int (mf_size r)))]"

definition createMessageMediaRef :: "string \<Rightarrow> media_file \<Rightarrow> nat \<Rightarrow> prepared_metadata option \<Rightarrow> db_error + media_ref" where
  "createMessageMediaRef messageId file chunkSize metadata =
     (if chunkSize = 0 \<or> MAX_MEDIA_CHUNK_SIZE < chunkSize then Inl (MediaFailed ''Invalid media chunk size'')
      else if fl_size file = 0 \<or> MAX_MEDIA_BYTES < fl_size file then Inl (MediaFailed ''Invalid media size'')
      else Inr \<lparr>mf_ownerId = messageId,
        mf_mime = (case metadata of Some m \<Rightarrow> pm_mime m | None \<Rightarrow> normalizeMediaMime (JStr (fl_type file))),
        mf_total = (fl_size file + chunkSize - 1) div chunkSize, mf_chunkSize = chunkSize,
        mf_name = (case metadata of Some m \<Rightarrow> pm_name m | None \<Rightarrow> sanitizeMediaFilename (JStr (fl_name file))),
        mf_size = fl_size file\<rparr>)"

definition chunk_id :: "string \<Rightarrow> nat \<Rightarrow> string" where
  "chunk_id ownerId idx = ownerId @ '':'' @ nat_text idx"

definition owned_by :: "string \<Rightarrow> string \<Rightarrow> media_row \<Rightarrow> bool" where
  "owned_by ownerType ownerId r \<longleftrightarrow> md_ownerId r = ownerId \<and> md_ownerType r = ownerType"

definition owner_rows :: "string \<Rightarrow> string \<Rightarrow> vault_db \<Rightarrow> media_row list" where
  "owner_rows ownerType ownerId db = filter (owned_by ownerType ownerId) (vd_media db)"

definition drop_owner :: "string \<Rightarrow> string \<Rightarrow> vault_db \<Rightarrow> vault_db" where
  "drop_owner ownerType ownerId db = db\<lparr>vd_media := filter (\<lambda>r. \<not> owned_by ownerType ownerId r) (vd_media db)\<rparr>"

definition put_media :: "media_row list \<Rightarrow> vault_db \<Rightarrow> vault_db" where
  "put_media rows db = db\<lparr>vd_media := fold (tbl_put md_id) rows (vd_media db)\<rparr>"

definition chunk_row :: "vault_env \<Rightarrow> bytes \<Rightarrow> string \<Rightarrow> string \<Rightarrow> string \<Rightarrow> nat \<Rightarrow> nat \<Rightarrow> bytes \<Rightarrow> media_row" where
  "chunk_row env vk ownerType ownerId mime tot idx bs = \<lparr>md_id = chunk_id ownerId idx, md_ownerType = ownerType,
     md_ownerId = ownerId, md_idx = idx,
     md_enc = encodeBinaryEnvelope (ve_pf env) vk (chunk_id ownerId idx) ''mediaChunk'' (ve_nonce env (chunk_id ownerId idx)) bs,
     md_mime = mime, md_total = int tot, md_updatedAt = ve_now env\<rparr>"

definition slice_chunk :: "bytes \<Rightarrow> nat \<Rightarrow> nat \<Rightarrow> bytes" where
  "slice_chunk bs chunkSize idx = take (min (length bs) (idx * chunkSize + chunkSize) - idx * chunkSize) (drop (idx * chunkSize) bs)"

subsection \<open>Photos\<close>

record avatar_ref =
  ar_ownerType :: string
  ar_ownerId :: string
  ar_mime :: string
  ar_total :: rat
  ar_chunkSize :: rat

text \<open>saveProfilePhoto is the same with the type of a profile.\<close>

definition saveAvatarPhoto :: "vault_env \<Rightarrow> string \<Rightarrow> string \<Rightarrow> media_file \<Rightarrow> vault_db \<Rightarrow> db_error + avatar_ref \<times> vault_db" where
  "saveAvatarPhoto env ownerType ownerId file db = with_key db (\<lambda>vk. case inspectAvatarImageFile file of
       Inl e \<Rightarrow> Inl e
     | Inr metadata \<Rightarrow>
         let chunks = chunks_of (MEDIA_CHUNK_SIZE - 1) (fl_bytes file);
             tot = length chunks;
             rows = map (\<lambda>(idx, bs). chunk_row env vk ownerType ownerId (pm_mime metadata) tot idx bs) (enumerate 0 chunks)
         in Inr (\<lparr>ar_ownerType = ownerType, ar_ownerId = ownerId, ar_mime = pm_mime metadata, ar_total = of_nat tot,
                  ar_chunkSize = of_nat MEDIA_CHUNK_SIZE\<rparr>, put_media rows (drop_owner ownerType ownerId db)))"

definition saveProfilePhoto :: "vault_env \<Rightarrow> string \<Rightarrow> media_file \<Rightarrow> vault_db \<Rightarrow> db_error + avatar_ref \<times> vault_db" where
  "saveProfilePhoto env ownerId file db = saveAvatarPhoto env ''profile'' ownerId file db"

definition avatar_ref_json :: "avatar_ref \<Rightarrow> json" where
  "avatar_ref_json r = JObj [(''ownerType'', JStr (ar_ownerType r)), (''ownerId'', JStr (ar_ownerId r)), (''mime'', JStr (ar_mime r)),
     (''total'', int_num \<lfloor>ar_total r\<rfloor>), (''chunkSize'', int_num \<lfloor>ar_chunkSize r\<rfloor>)]"

definition saveGroupPhotoRef :: "vault_env \<Rightarrow> string \<Rightarrow> media_file \<Rightarrow> vault_db \<Rightarrow> db_error + string \<times> vault_db" where
  "saveGroupPhotoRef env ownerId file db = (case saveAvatarPhoto env ''group'' ownerId file db of
     Inl e \<Rightarrow> Inl e | Inr (r, db') \<Rightarrow> Inr (stringify (avatar_ref_json r), db'))"

text \<open>The ids of owners that are no strings make the query of the table throw, which loads nothing either.\<close>

definition parseAvatarRef :: "platform \<Rightarrow> string \<Rightarrow> avatar_ref option" where
  "parseAvatarRef pf ref = (if ref = [] then None else case pf_json_parse pf ref of
       None \<Rightarrow> None
     | Some parsed \<Rightarrow>
         if \<not> is_object parsed \<or> \<not> truthy (field parsed ''ownerId'') \<or> \<not> truthy (field parsed ''mime'') then None
         else (case (finite_num (field parsed ''total''), finite_num (field parsed ''chunkSize''), str_of (field parsed ''ownerId'')) of
             (Some t, Some c, Some i) \<Rightarrow> Some \<lparr>ar_ownerType = (if field parsed ''ownerType'' = JStr ''group'' then ''group'' else ''profile''),
               ar_ownerId = i, ar_mime = text_of_str (field parsed ''mime''), ar_total = t, ar_chunkSize = c\<rparr>
           | _ \<Rightarrow> None))"

definition open_chunk :: "platform \<Rightarrow> bytes \<Rightarrow> media_row \<Rightarrow> db_error + bytes" where
  "open_chunk pf vk r = in_vault (decodeBinaryEnvelope pf vk (md_id r) ''mediaChunk'' (md_enc r))"

definition resolveMediaDecryptConcurrency :: "nat \<Rightarrow> nat" where
  "resolveMediaDecryptConcurrency totalChunks = (if MEDIA_DECRYPT_LARGE_CHUNKS \<le> totalChunks
     then min MEDIA_DECRYPT_LARGE_CONCURRENCY MEDIA_DECRYPT_CONCURRENCY else MEDIA_DECRYPT_CONCURRENCY)"

definition decrypt_batch_size :: "nat \<Rightarrow> nat" where
  "decrypt_batch_size tot = (let concurrency = resolveMediaDecryptConcurrency tot
     in max (concurrency * MEDIA_DECRYPT_BATCH_MULTIPLIER) concurrency)"

definition decryptMediaChunks :: "platform \<Rightarrow> bytes \<Rightarrow> media_row list \<Rightarrow> db_error + bytes list" where
  "decryptMediaChunks pf vk chunks = (case collect (map (\<lambda>batch. collect (map (open_chunk pf vk) batch))
       (chunks_of (decrypt_batch_size (length chunks) - 1) chunks)) of
     Inl e \<Rightarrow> Inl e | Inr parts \<Rightarrow> Inr (concat parts))"

definition loadProfilePhoto :: "vault_env \<Rightarrow> avatar_ref option \<Rightarrow> vault_db \<Rightarrow> (bytes \<times> string) option" where
  "loadProfilePhoto env avatarRef db = (case (avatarRef, vd_key db) of
       (Some r, Some vk) \<Rightarrow>
         let ownerType = (if ar_ownerType r = ''group'' then ''group'' else ''profile'');
             chunks = sort_key md_idx (owner_rows ownerType (ar_ownerId r) db)
         in if chunks = [] \<or> ar_total r \<le> 0 \<or> ar_chunkSize r \<le> 0 \<or> of_nat (length chunks) \<noteq> ar_total r \<or>
               of_nat MAX_MEDIA_BYTES < ar_total r * ar_chunkSize r then None
            else (case decryptMediaChunks (ve_pf env) vk chunks of
                Inl _ \<Rightarrow> None
              | Inr decrypted \<Rightarrow>
                  if length decrypted \<noteq> length chunks \<or> MAX_MEDIA_BYTES < length (concat decrypted) then None
                  else Some (concat decrypted, ar_mime r))
     | _ \<Rightarrow> None)"

definition loadAvatarFromRef :: "vault_env \<Rightarrow> string \<Rightarrow> vault_db \<Rightarrow> (bytes \<times> string) option" where
  "loadAvatarFromRef env ref db = (case parseAvatarRef (ve_pf env) ref of None \<Rightarrow> None | Some r \<Rightarrow> loadProfilePhoto env (Some r) db)"

subsection \<open>Media of a message that is sent\<close>

record media_chunk =
  mc_idx :: nat
  mc_total :: nat
  mc_bytes :: bytes

definition media_chunks_of :: "media_file \<Rightarrow> media_ref \<Rightarrow> media_chunk list" where
  "media_chunks_of file r = map (\<lambda>idx. \<lparr>mc_idx = idx, mc_total = mf_total r,
     mc_bytes = slice_chunk (fl_bytes file) (mf_chunkSize r) idx\<rparr>) [0..<mf_total r]"

definition message_chunk_row :: "vault_env \<Rightarrow> bytes \<Rightarrow> media_ref \<Rightarrow> media_chunk \<Rightarrow> media_row" where
  "message_chunk_row env vk r c = chunk_row env vk ''message'' (mf_ownerId r) (mf_mime r) (mf_total r) (mc_idx c) (mc_bytes c)"

text \<open>
  The callback for stored chunks, which sends them; it throws where it is False. The result: whether
  none threw, and what was handed to it.
\<close>

fun hand_over :: "(media_chunk \<Rightarrow> bool) \<Rightarrow> media_chunk list \<Rightarrow> bool \<times> media_chunk list" where
  "hand_over onStored [] = (True, [])"
| "hand_over onStored (c # cs) = (if onStored c then (case hand_over onStored cs of (ok, done') \<Rightarrow> (ok, c # done')) else (False, [c]))"

definition call_back :: "(media_chunk \<Rightarrow> bool) option \<Rightarrow> media_chunk list \<Rightarrow> bool \<times> media_chunk list" where
  "call_back onStored cs = (case onStored of None \<Rightarrow> (True, []) | Some f \<Rightarrow> hand_over f cs)"

fun store_batches ::
    "vault_env \<Rightarrow> bytes \<Rightarrow> media_ref \<Rightarrow> (media_chunk \<Rightarrow> bool) option \<Rightarrow> media_chunk list list \<Rightarrow> vault_db \<Rightarrow>
      bool \<times> media_chunk list \<times> vault_db" where
  "store_batches env vk r onStored [] db = (True, [], db)"
| "store_batches env vk r onStored (b # bs) db =
     (let db1 = put_media (map (message_chunk_row env vk r) b) db
      in case call_back onStored b of
           (False, sent) \<Rightarrow> (False, sent, db1)
         | (True, sent) \<Rightarrow> (case store_batches env vk r onStored bs db1 of (ok, sent', db2) \<Rightarrow> (ok, sent @ sent', db2)))"

definition saveMessageMedia ::
    "vault_env \<Rightarrow> string \<Rightarrow> media_file \<Rightarrow> nat \<Rightarrow> (media_chunk \<Rightarrow> bool) option \<Rightarrow> prepared_metadata option \<Rightarrow> vault_db \<Rightarrow>
      (db_error + media_ref) \<times> media_chunk list \<times> vault_db" where
  "saveMessageMedia env messageId file chunkSize onStored prepared db =
     (case requireVaultKey db of
        Inl e \<Rightarrow> (Inl e, [], db)
      | Inr vk \<Rightarrow>
          if chunkSize = 0 \<or> MAX_MEDIA_CHUNK_SIZE < chunkSize then (Inl (MediaFailed ''Invalid media chunk size''), [], db)
          else if fl_size file = 0 \<or> MAX_MEDIA_BYTES < fl_size file then (Inl (MediaFailed ''Invalid media size''), [], db)
          else (case (case prepared of Some m \<Rightarrow> Inr m | None \<Rightarrow> inspectOutgoingMediaFile file) of
              Inl e \<Rightarrow> (Inl e, [], db)
            | Inr metadata \<Rightarrow> (case createMessageMediaRef messageId file chunkSize (Some metadata) of
                Inl e \<Rightarrow> (Inl e, [], db)
              | Inr r \<Rightarrow>
                  (case store_batches env vk r onStored (chunks_of (MEDIA_WRITE_BATCH_SIZE - 1) (media_chunks_of file r))
                      (drop_owner ''message'' messageId db) of
                     (ok, sent, db') \<Rightarrow> (if ok then Inr r else Inl (MediaFailed ''callback threw''), sent, db')))))"

subsection \<open>Reading it back\<close>

text \<open>The parts of the blob, batch by batch; none where the content does not suit its type or is too long.\<close>

fun blob_parts ::
    "platform \<Rightarrow> bytes \<Rightarrow> string \<Rightarrow> nat \<Rightarrow> bool \<Rightarrow> media_row list list \<Rightarrow> bytes \<Rightarrow> db_error + bytes option" where
  "blob_parts pf vk mime maxBytes start [] acc = Inr (Some acc)"
| "blob_parts pf vk mime maxBytes start (b # bs) acc =
     (case collect (map (open_chunk pf vk) b) of
        Inl e \<Rightarrow> Inl e
      | Inr parts \<Rightarrow>
          if start \<and> (parts = [] \<or> (isPreviewMediaClaim (JStr mime) \<and> \<not> hasValidPreviewSignature (JStr mime) (hd parts))) then Inr None
          else if maxBytes < length (acc @ concat parts) then Inr None
          else blob_parts pf vk mime maxBytes False bs (acc @ concat parts))"

definition decryptMediaToBlob :: "platform \<Rightarrow> bytes \<Rightarrow> media_row list \<Rightarrow> string \<Rightarrow> nat \<Rightarrow> db_error + bytes option" where
  "decryptMediaToBlob pf vk chunks mime maxBytes =
     blob_parts pf vk mime maxBytes True (chunks_of (decrypt_batch_size (length chunks) - 1) chunks) []"

definition json_num_is :: "json \<Rightarrow> int \<Rightarrow> bool" where
  "json_num_is v n \<longleftrightarrow> finite_num v = Some (of_int n)"

definition rows_fit :: "json \<Rightarrow> media_row list \<Rightarrow> bool" where
  "rows_fit ref chunks \<longleftrightarrow> list_all (\<lambda>(index, r). md_idx r = index \<and> json_num_is (field ref ''total'') (md_total r) \<and>
     JStr (normalizeMediaMime (JStr (md_mime r))) = field ref ''mime'') (enumerate 0 chunks)"

definition loadMessageMedia :: "vault_env \<Rightarrow> json \<Rightarrow> vault_db \<Rightarrow> (bytes \<times> string) option" where
  "loadMessageMedia env mediaRef db = (if \<not> truthy mediaRef then None else
     (case parseIncomingMediaRef mediaRef (str_of (field mediaRef ''ownerId'')) of
        None \<Rightarrow> None
      | Some ref \<Rightarrow> (case vd_key db of
          None \<Rightarrow> None
        | Some vk \<Rightarrow>
            let chunks = sort_key md_idx (owner_rows ''message'' (text_of_str (field mediaRef ''ownerId'')) db);
                mime = text_of_str (field ref ''mime'')
            in if chunks = [] \<or> \<not> json_num_is (field ref ''total'') (int (length chunks)) \<or> \<not> rows_fit ref chunks then None
               else (case decryptMediaToBlob (ve_pf env) vk chunks mime MAX_MEDIA_BYTES of
                   Inr (Some bs) \<Rightarrow> if json_num_is (field ref ''size'') (int (length bs)) then Some (bs, mime) else None
                 | _ \<Rightarrow> None))))"

subsection \<open>Media that arrives\<close>

text \<open>Numbers that are not finite are refused by the first check that reads them; the others are rationals.\<close>

record received_chunk =
  rx_ownerId :: string
  rx_idx :: rat
  rx_total :: rat
  rx_chunkSize :: rat
  rx_size :: rat
  rx_mime :: string
  rx_bytes :: bytes

record received_state =
  rs_received :: nat
  rs_total :: nat
  rs_complete :: bool

definition whole :: "rat \<Rightarrow> bool" where
  "whole q \<longleftrightarrow> of_int \<lfloor>q\<rfloor> = q"

definition check_received :: "received_chunk \<Rightarrow> string option" where
  "check_received c =
     (let mime = normalizeMediaMime (JStr (rx_mime c)); len = of_nat (length (rx_bytes c));
          expected = (if rx_idx c = rx_total c - 1 then rx_size c - rx_chunkSize c * (rx_total c - 1) else rx_chunkSize c)
      in if \<not> isValidMediaOwnerId (JStr (trim (rx_ownerId c))) then Some ''Invalid media owner''
         else if \<not> whole (rx_idx c) \<or> rx_idx c < 0 then Some ''Invalid media chunk index''
         else if \<not> whole (rx_total c) \<or> rx_total c \<le> 0 then Some ''Invalid media chunk total''
         else if rx_total c \<le> rx_idx c then Some ''Invalid media chunk index''
         else if \<not> whole (rx_chunkSize c) \<or> rx_chunkSize c \<le> 0 \<or> of_nat MAX_MEDIA_CHUNK_SIZE < rx_chunkSize c
         then Some ''Invalid media chunk size''
         else if rx_size c \<le> 0 \<or> of_nat MAX_MEDIA_BYTES < rx_size c then Some ''Invalid media size''
         else if of_nat MAX_MEDIA_BYTES + rx_chunkSize c < rx_total c * rx_chunkSize c then Some ''Media exceeds size limit''
         else if len \<le> 0 \<or> rx_chunkSize c < len then Some ''Invalid media chunk payload''
         else if rx_total c \<noteq> of_int \<lceil>rx_size c / rx_chunkSize c\<rceil> then Some ''Invalid media chunk total''
         else if len \<noteq> expected then Some ''Invalid media chunk payload length''
         else if isPreviewMediaClaim (JStr (rx_mime c)) \<and> \<not> isSafePreviewMime mime then Some ''Unsupported media preview type''
         else if rx_idx c = 0 \<and> isSafePreviewMime mime \<and> \<not> hasValidPreviewSignature (JStr mime) (rx_bytes c)
         then Some ''Media content does not match its declared type''
         else None)"

definition manifest_fits :: "json \<Rightarrow> received_chunk \<Rightarrow> bool" where
  "manifest_fits manifest c \<longleftrightarrow> finite_num (field manifest ''total'') = Some (rx_total c) \<and>
     finite_num (field manifest ''chunkSize'') = Some (rx_chunkSize c) \<and> finite_num (field manifest ''size'') = Some (rx_size c) \<and>
     field manifest ''mime'' = JStr (normalizeMediaMime (JStr (rx_mime c)))"

definition media_fits :: "received_chunk \<Rightarrow> media_row list \<Rightarrow> bool" where
  "media_fits c existing \<longleftrightarrow> (case existing of [] \<Rightarrow> True | r # _ \<Rightarrow>
     of_int (md_total r) = rx_total c \<and> normalizeMediaMime (JStr (md_mime r)) = normalizeMediaMime (JStr (rx_mime c)))"

definition saveReceivedMessageMediaChunk :: "vault_env \<Rightarrow> received_chunk \<Rightarrow> vault_db \<Rightarrow> db_error + received_state \<times> vault_db" where
  "saveReceivedMessageMediaChunk env c db = with_key db (\<lambda>vk.
     let ownerId = trim (rx_ownerId c); mime = normalizeMediaMime (JStr (rx_mime c))
     in case check_received c of
          Some e \<Rightarrow> Inl (MediaFailed e)
        | None \<Rightarrow> (case tbl_get mr_id ownerId (vd_messages db) of
            None \<Rightarrow> Inl (MediaFailed ''Media manifest is missing'')
          | Some m \<Rightarrow> (case open_message (ve_pf env) vk m of
              Inl e \<Rightarrow> Inl e
            | Inr message \<Rightarrow> (case parseIncomingMediaRef (field message ''media'') (Some ownerId) of
                None \<Rightarrow> Inl (MediaFailed ''Media chunk does not match its authenticated manifest'')
              | Some manifest \<Rightarrow>
                  if \<not> manifest_fits manifest c then Inl (MediaFailed ''Media chunk does not match its authenticated manifest'')
                  else if \<not> media_fits c (owner_rows ''message'' ownerId db) then Inl (MediaFailed ''Inconsistent media metadata'')
                  else let db' = put_media [chunk_row env vk ''message'' ownerId mime (nat \<lfloor>rx_total c\<rfloor>) (nat \<lfloor>rx_idx c\<rfloor>) (rx_bytes c)] db;
                           received = length (owner_rows ''message'' ownerId db')
                       in Inr (\<lparr>rs_received = received, rs_total = nat \<lfloor>rx_total c\<rfloor>,
                            rs_complete = (of_nat received = rx_total c)\<rparr>, db')))))"

subsection \<open>Deleting\<close>

definition wiped_message :: "vault_env \<Rightarrow> bytes \<Rightarrow> message_row \<Rightarrow> message_row" where
  "wiped_message env vk r = (sealed_message env vk (mr_id r) (mr_convId r) 0 (JObj [(''id'', JStr (mr_id r)), (''convId'', JStr (mr_convId r)),
     (''senderId'', JStr ''wiped''), (''text'', JStr []), (''ts'', JNum ''0'')]))"

text \<open>Rows are written over before they are deleted.\<close>

definition secureEraseMessages :: "vault_env \<Rightarrow> message_row list \<Rightarrow> vault_db \<Rightarrow> db_error + vault_db" where
  "secureEraseMessages env records db = (if records = [] then Inr db else with_key db (\<lambda>vk.
     Inr (db\<lparr>vd_messages := tbl_bulk_delete mr_id (map mr_id records)
       (fold (tbl_put mr_id) (map (wiped_message env vk) records) (vd_messages db))\<rparr>)))"

definition wiped_chunk :: "vault_env \<Rightarrow> bytes \<Rightarrow> bytes \<Rightarrow> media_row \<Rightarrow> media_row" where
  "wiped_chunk env vk noise r = r\<lparr>md_enc := encodeBinaryEnvelope (ve_pf env) vk (md_id r) ''mediaChunk'' (ve_nonce env (md_id r)) noise,
     md_updatedAt := ve_now env\<rparr>"

definition secureEraseMediaChunks :: "vault_env \<Rightarrow> bytes \<Rightarrow> media_row list \<Rightarrow> vault_db \<Rightarrow> db_error + vault_db" where
  "secureEraseMediaChunks env noise records db = (if records = [] then Inr db else with_key db (\<lambda>vk.
     Inr (db\<lparr>vd_media := tbl_bulk_delete md_id (map md_id records)
       (fold (tbl_put md_id) (map (wiped_chunk env vk noise) records) (vd_media db))\<rparr>)))"

definition deleteMessagesById :: "vault_env \<Rightarrow> bytes \<Rightarrow> string list \<Rightarrow> vault_db \<Rightarrow> db_error + vault_db" where
  "deleteMessagesById env noise messageIds db = (if messageIds = [] then Inr db else with_key db (\<lambda>vk.
     let uniqueIds = rev (remdups (rev messageIds)) in
     case secureEraseMessages env (List.map_filter (\<lambda>i. tbl_get mr_id i (vd_messages db)) uniqueIds) db of
       Inl e \<Rightarrow> Inl e
     | Inr db1 \<Rightarrow> (case secureEraseMediaChunks env noise
           (filter (\<lambda>r. md_ownerType r = ''message'' \<and> md_ownerId r \<in> set uniqueIds) (vd_media db1)) db1 of
         Inl e \<Rightarrow> Inl e
       | Inr db2 \<Rightarrow> Inr (db2\<lparr>vd_tombstones := fold (tbl_put ts_id)
           (map (\<lambda>i. \<lparr>ts_id = i, ts_type = ''message'', ts_deletedAt = ve_now env\<rparr>) uniqueIds) (vd_tombstones db2)\<rparr>))))"

fun clear_rows :: "vault_env \<Rightarrow> bytes \<Rightarrow> json list \<Rightarrow> vault_db \<Rightarrow> vault_db" where
  "clear_rows env vk [] db = db"
| "clear_rows env vk (conv # cs) db = clear_rows env vk cs (db\<lparr>vd_conversations := tbl_put er_id
     (sealed_row env vk ''conv'' (spread conv [(''lastMessage'', JStr []), (''unread'', JNum ''0''), (''lastTs'', JNum ''0'')])
       (text_of_str (field conv ''id''))) (vd_conversations db)\<rparr>)"

definition clearChatHistory :: "vault_env \<Rightarrow> bytes \<Rightarrow> vault_db \<Rightarrow> db_error + vault_db" where
  "clearChatHistory env noise db = with_key db (\<lambda>vk.
     case listConversations env db of
       Inl e \<Rightarrow> Inl e
     | Inr convs \<Rightarrow>
         let db1 = clear_rows env vk convs db in
         (case secureEraseMessages env (vd_messages db1) db1 of
            Inl e \<Rightarrow> Inl e
          | Inr db2 \<Rightarrow> secureEraseMediaChunks env noise (filter (\<lambda>r. md_ownerType r = ''message'') (vd_media db2)) db2))"

subsection \<open>Chunk ids\<close>

lemma nat_text_inj: "nat_text i = nat_text j \<Longrightarrow> i = j"
  by (metis nat_text_value)

lemma colon_no_digit: "\<not> is_digit (CHR '':'')"
  by (simp add: is_digit_def)

lemma chunk_id_inj: "chunk_id a i = chunk_id b j \<longleftrightarrow> a = b \<and> i = j"
proof
  assume eq: "chunk_id a i = chunk_id b j"
  have tw: "takeWhile (\<lambda>c. c \<noteq> CHR '':'') (rev (chunk_id a i)) = rev (nat_text i)" for a i
  proof -
    have "\<forall>c \<in> set (rev (nat_text i)). c \<noteq> CHR '':''" using nat_text_digits [of i] colon_no_digit by (auto simp: list_all_iff)
    then show ?thesis unfolding chunk_id_def rev_append append_assoc by (subst takeWhile_append2) auto
  qed
  have "nat_text i = nat_text j" using tw [of a i] tw [of b j] eq by simp
  then show "a = b \<and> i = j" using eq nat_text_inj by (auto simp: chunk_id_def)
qed simp

definition media_ok :: "vault_db \<Rightarrow> bool" where
  "media_ok db \<longleftrightarrow> tbl_ok md_id (vd_media db) \<and> (\<forall>r \<in> set (vd_media db). md_id r = chunk_id (md_ownerId r) (md_idx r))"

lemma set_tbl_put_exact: "tbl_ok key t \<Longrightarrow> set (tbl_put key v t) = insert v {w \<in> set t. key w \<noteq> key v}"
proof (induction t)
  case (Cons w t)
  then have "tbl_ok key t" "\<forall>u \<in> set t. key w < key u" by (simp_all add: tbl_ok_Cons)
  then show ?case using Cons.IH by (auto dest: less_trans)
qed simp

lemma tbl_ok_distinct: "tbl_ok key t \<Longrightarrow> distinct (map key t)"
  unfolding tbl_ok_def using strict_sorted_iff by blast

subsection \<open>Chunks that are stored\<close>

text \<open>
  The rows of an owner are those of the indices in \<open>S\<close>, each with the type and the count, and
  each opens as the chunk of its index.
\<close>

definition chunk_good :: "platform \<Rightarrow> bytes \<Rightarrow> string \<Rightarrow> nat \<Rightarrow> (nat \<Rightarrow> bytes) \<Rightarrow> media_row \<Rightarrow> bool" where
  "chunk_good pf vk mime tot content r \<longleftrightarrow> md_mime r = mime \<and> md_total r = int tot \<and> open_chunk pf vk r = Inr (content (md_idx r))"

definition holds_chunks :: "platform \<Rightarrow> bytes \<Rightarrow> string \<Rightarrow> string \<Rightarrow> string \<Rightarrow> nat \<Rightarrow> (nat \<Rightarrow> bytes) \<Rightarrow> nat set \<Rightarrow> vault_db \<Rightarrow> bool" where
  "holds_chunks pf vk ty owner mime tot content S db \<longleftrightarrow> media_ok db \<and> md_idx ` set (owner_rows ty owner db) = S \<and>
     (\<forall>r \<in> set (owner_rows ty owner db). chunk_good pf vk mime tot content r)"

lemma put_one [simp]: "put_media [r] db = db\<lparr>vd_media := tbl_put md_id r (vd_media db)\<rparr>"
  by (simp add: put_media_def)

lemma holds_put:
  assumes h: "holds_chunks pf vk ty owner mime tot content S db"
    and r: "md_id r = chunk_id owner (md_idx r)" "owned_by ty owner r" "chunk_good pf vk mime tot content r"
  shows "holds_chunks pf vk ty owner mime tot content (insert (md_idx r) S) (put_media [r] db)"
proof -
  have ok: "tbl_ok md_id (vd_media db)" "\<forall>w \<in> set (vd_media db). md_id w = chunk_id (md_ownerId w) (md_idx w)"
    using h by (simp_all add: holds_chunks_def media_ok_def)
  have rows: "set (owner_rows ty owner (put_media [r] db)) = insert r {w \<in> set (owner_rows ty owner db). md_idx w \<noteq> md_idx r}"
    using r(1,2) ok(2) by (auto simp: owner_rows_def set_tbl_put_exact [OF ok(1)] owned_by_def chunk_id_inj)
  have "md_idx ` set (owner_rows ty owner (put_media [r] db)) = insert (md_idx r) S"
    using h unfolding rows by (auto simp: holds_chunks_def)
  moreover have "media_ok (put_media [r] db)"
    using ok r by (auto simp: media_ok_def tbl_ok_put set_tbl_put_exact owned_by_def)
  ultimately show ?thesis using h r(3) rows by (auto simp: holds_chunks_def)
qed

lemma put_media_Cons: "put_media (r # rs) db = put_media rs (put_media [r] db)"
  by (simp add: put_media_def)

lemma holds_put_all:
  assumes "holds_chunks pf vk ty owner mime tot content S db"
    and "\<forall>r \<in> set rs. md_id r = chunk_id owner (md_idx r) \<and> owned_by ty owner r \<and> chunk_good pf vk mime tot content r"
  shows "holds_chunks pf vk ty owner mime tot content (md_idx ` set rs \<union> S) (put_media rs db)"
  using assms
proof (induction rs arbitrary: S db)
  case Nil
  then show ?case by (simp add: put_media_def)
next
  case (Cons r rs)
  have "holds_chunks pf vk ty owner mime tot content (insert (md_idx r) S) (put_media [r] db)"
    by (rule holds_put [OF Cons.prems(1)]) (use Cons.prems(2) in simp_all)
  from Cons.IH [OF this] Cons.prems(2) show ?case
    unfolding put_media_Cons [of r rs] by (simp add: insert_commute Un_insert_left Un_insert_right del: put_one)
qed

lemma owner_rows_distinct:
  assumes "media_ok db"
  shows "distinct (map md_idx (owner_rows ty owner db))"
proof -
  have d: "distinct (map md_id (owner_rows ty owner db))"
    using assms tbl_ok_distinct [OF tbl_ok_filter] by (auto simp: media_ok_def owner_rows_def)
  have "inj_on md_idx (set (owner_rows ty owner db))"
  proof (rule inj_onI)
    fix x y assume xy: "x \<in> set (owner_rows ty owner db)" "y \<in> set (owner_rows ty owner db)" "md_idx x = md_idx y"
    then have "md_id x = md_id y" using assms by (auto simp: media_ok_def owner_rows_def owned_by_def)
    then show "x = y" using d xy by (auto simp: distinct_map inj_on_def)
  qed
  then show ?thesis using d by (simp add: distinct_map)
qed

lemma holds_count:
  assumes "holds_chunks pf vk ty owner mime tot content S db"
  shows "length (owner_rows ty owner db) = card S"
proof -
  have ok: "media_ok db" "md_idx ` set (owner_rows ty owner db) = S" using assms by (simp_all add: holds_chunks_def)
  have "length (owner_rows ty owner db) = card (set (map md_idx (owner_rows ty owner db)))"
    using distinct_card [OF owner_rows_distinct [OF ok(1)]] by simp
  then show ?thesis using ok(2) by simp
qed

lemma holds_all_in_order:
  assumes "holds_chunks pf vk ty owner mime tot content {..<tot} db"
  shows "map md_idx (sort_key md_idx (owner_rows ty owner db)) = [0..<tot]"
    and "\<forall>r \<in> set (sort_key md_idx (owner_rows ty owner db)). chunk_good pf vk mime tot content r"
proof -
  let ?L = "sort_key md_idx (owner_rows ty owner db)"
  have ok: "media_ok db" "md_idx ` set (owner_rows ty owner db) = {..<tot}" using assms by (simp_all add: holds_chunks_def)
  have perm: "mset (map md_idx ?L) = mset (map md_idx (owner_rows ty owner db))" by simp
  have "distinct (map md_idx ?L)" using owner_rows_distinct [OF ok(1), of ty owner] perm by (metis mset_eq_imp_distinct_iff)
  moreover have "sorted (map md_idx ?L)" by simp
  moreover have "set (map md_idx ?L) = set [0..<tot]" using ok(2) by auto
  ultimately show "map md_idx ?L = [0..<tot]" by (intro sorted_distinct_set_unique) auto
  show "\<forall>r \<in> set ?L. chunk_good pf vk mime tot content r" using assms by (simp add: holds_chunks_def)
qed

subsection \<open>Chunks of a file\<close>

lemma concat_slices: "concat (map (slice_chunk bs cs) [0..<n]) = take (n * cs) bs"
proof (induction n)
  case (Suc n)
  have "take (n * cs) bs @ slice_chunk bs cs n = take (Suc n * cs) bs"
  proof (cases "n * cs \<le> length bs")
    case True
    have "min (length bs) (n * cs + cs) - n * cs = min (length bs - n * cs) cs" by linarith
    moreover have "take (min (length bs - n * cs) cs) (drop (n * cs) bs) = take cs (drop (n * cs) bs)" by (simp add: min_def)
    ultimately show ?thesis by (simp add: slice_chunk_def take_add add.commute [of cs])
  next
    case False
    then show ?thesis by (simp add: slice_chunk_def)
  qed
  then show ?case using Suc by simp
qed simp

lemma count_covers: "0 < cs \<Longrightarrow> len \<le> (len + cs - 1) div cs * (cs :: nat)"
proof -
  assume cs: "0 < cs"
  have "(len + cs - 1) mod cs < cs" using cs by simp
  moreover have "(len + cs - 1) div cs * cs + (len + cs - 1) mod cs = len + cs - 1" by simp
  ultimately show ?thesis using cs by linarith
qed

lemma count_below: "0 < cs \<Longrightarrow> i < (len + cs - 1) div cs \<Longrightarrow> i * cs < (len :: nat)"
proof -
  assume cs: "0 < cs" and i: "i < (len + cs - 1) div cs"
  have "Suc i * cs \<le> (len + cs - 1) div cs * cs" using i by (intro mult_le_mono1) simp
  also have "\<dots> \<le> len + cs - 1" by (rule div_times_less_eq_dividend)
  finally have "i * cs + cs \<le> len + cs - 1" by simp
  then show ?thesis using cs by linarith
qed

lemma concat_file_slices:
  "0 < cs \<Longrightarrow> concat (map (slice_chunk bs cs) [0..<(length bs + cs - 1) div cs]) = bs"
  using count_covers [of cs "length bs"] by (simp add: concat_slices)

lemma slice_length:
  "0 < cs \<Longrightarrow> i < (length bs + cs - 1) div cs \<Longrightarrow>
   length (slice_chunk bs cs i) = (if Suc i = (length bs + cs - 1) div cs then length bs - cs * i else cs)"
proof -
  assume cs: "0 < cs" and i: "i < (length bs + cs - 1) div cs"
  let ?n = "(length bs + cs - 1) div cs"
  have b: "i * cs < length bs" by (rule count_below [OF cs i])
  have len: "length (slice_chunk bs cs i) = min (length bs) (i * cs + cs) - i * cs" using b by (simp add: slice_chunk_def)
  show ?thesis
  proof (cases "Suc i = ?n")
    case True
    have "length bs \<le> Suc i * cs" using count_covers [OF cs, of "length bs"] unfolding True [symmetric] .
    then have "min (length bs) (i * cs + cs) = length bs" by simp
    then show ?thesis using len True by (simp add: mult.commute)
  next
    case False
    then have "Suc i < ?n" using i by simp
    from count_below [OF cs this] have "i * cs + cs < length bs" by simp
    then show ?thesis using len False by simp
  qed
qed

subsection \<open>Putting chunks together\<close>

lemma collect_map: "(\<And>x. x \<in> set xs \<Longrightarrow> f x = Inr (g x)) \<Longrightarrow> collect (map f xs) = Inr (map g xs)"
  by (induction xs) auto

lemma chunks_of_nonempty: "[] \<notin> set (chunks_of n xs)"
  by (induction n xs rule: chunks_of.induct) (subst chunks_of.simps, auto)

lemma blob_parts_whole:
  assumes "\<And>r. r \<in> set (concat bs) \<Longrightarrow> open_chunk pf vk r = Inr (g r)" "[] \<notin> set bs"
    and "start \<Longrightarrow> bs \<noteq> [] \<Longrightarrow> isPreviewMediaClaim (JStr mime) \<Longrightarrow> hasValidPreviewSignature (JStr mime) (g (hd (concat bs)))"
    and "length (acc @ concat (map g (concat bs))) \<le> mx"
  shows "blob_parts pf vk mime mx start bs acc = Inr (Some (acc @ concat (map g (concat bs))))"
  using assms
proof (induction bs arbitrary: start acc)
  case (Cons b bs)
  have b: "collect (map (open_chunk pf vk) b) = Inr (map g b)" by (rule collect_map) (use Cons.prems(1) in auto)
  have ne: "b \<noteq> []" using Cons.prems(2) by auto
  have "blob_parts pf vk mime mx False bs (acc @ concat (map g b)) = Inr (Some ((acc @ concat (map g b)) @ concat (map g (concat bs))))"
    by (rule Cons.IH) (use Cons.prems in auto)
  moreover have "hd (map g b) = g (hd (concat (b # bs)))" using ne by (cases b) auto
  ultimately show ?case using b ne Cons.prems(3,4) by auto
qed simp

end
