(* ===== verification/Media_Flow.thy ===== *)
theory Media_Flow
  imports Media_Store
begin

text \<open>
  What becomes of a file that is sent: it is stored and handed over chunk by chunk, its chunks
  arrive in any order, and both sides read the file back. Then what a chunk can do to the media of others,
  and what is gone after a deletion. All of it is about the operations of Media_Store.
\<close>

subsection \<open>Types of media\<close>

definition mime_char :: "char \<Rightarrow> bool" where
  "mime_char c \<longleftrightarrow> is_lower_alnum c \<or> c \<in> set ''!#$&^_.+-'' \<or> c = CHR ''/''"

lemma mime_char_plain: "mime_char c \<Longrightarrow> \<not> js_space c \<and> lower_char c = c \<and> c \<noteq> CHR '';''"
  by (auto simp: mime_char_def is_lower_alnum_def is_digit_def js_space_def lower_char_def Let_def)

lemma mime_pattern_chars: "mime_pattern s \<Longrightarrow> list_all mime_char s"
proof -
  assume p: "mime_pattern s"
  let ?t = "takeWhile (\<lambda>c. c \<noteq> CHR ''/'') s"
  have len: "length ?t < length s" and tok: "mime_token ?t" "mime_token (drop (Suc (length ?t)) s)"
    using p by (simp_all add: mime_pattern_def Let_def)
  have weaker: "is_lower_alnum c \<or> c \<in> set ''!#$&^_.+-'' \<Longrightarrow> mime_char c" for c unfolding mime_char_def by blast
  have chars: "list_all mime_char u" if "mime_token u" for u
  proof (cases u)
    case (Cons c cs)
    have "is_lower_alnum c" "list_all (\<lambda>c. is_lower_alnum c \<or> c \<in> set ''!#$&^_.+-'') cs"
      using that Cons unfolding mime_token_def by simp_all
    then show ?thesis using Cons weaker list.pred_mono_strong [of _ cs mime_char] by auto
  qed simp
  have "s ! length ?t = CHR ''/''" using nth_length_takeWhile [OF len] by simp
  then have "s = ?t @ CHR ''/'' # drop (Suc (length ?t)) s"
    using id_take_nth_drop [OF len] by (simp add: takeWhile_eq_take [symmetric])
  then obtain t u where "s = t @ CHR ''/'' # u" "mime_token t" "mime_token u" using tok by blast
  then show ?thesis using chars by (simp add: mime_char_def [of "CHR ''/''"])
qed

lemma plain_mime:
  assumes "list_all mime_char s"
  shows "trim s = s" "to_lower s = s" "takeWhile (\<lambda>c. c \<noteq> CHR '';'') s = s"
proof -
  have p: "\<forall>c \<in> set s. \<not> js_space c \<and> lower_char c = c \<and> c \<noteq> CHR '';''" using assms mime_char_plain by (auto simp: list_all_iff)
  then show "trim s = s" by (simp add: trim_def dropWhile_all_kept rev_dropWhile_none list_all_iff)
  show "to_lower s = s" using p by (simp add: to_lower_def map_idI)
  show "takeWhile (\<lambda>c. c \<noteq> CHR '';'') s = s" using p by (simp add: takeWhile_eq_all_conv)
qed

lemma normalize_constants: "normalizeMediaMime (JStr octet_stream) = octet_stream" "normalizeMediaMime (JStr ''image/jpeg'') = ''image/jpeg''"
  by code_simp+

lemma normalize_shape:
  "normalizeMediaMime v = octet_stream \<or> normalizeMediaMime v = ''image/jpeg'' \<or>
   (normalizeMediaMime v \<noteq> ''image/jpg'' \<and> normalizeMediaMime v \<noteq> [] \<and> length (normalizeMediaMime v) \<le> MEDIA_MIME_MAX_LENGTH \<and>
    mime_pattern (normalizeMediaMime v))"
  by (auto simp: normalizeMediaMime_def Let_def split: option.split)

lemma normalize_idem [simp]: "normalizeMediaMime (JStr (normalizeMediaMime v)) = normalizeMediaMime v"
proof -
  let ?m = "normalizeMediaMime v"
  consider "?m = octet_stream" | "?m = ''image/jpeg''" | "?m \<noteq> ''image/jpg''" "?m \<noteq> []" "length ?m \<le> MEDIA_MIME_MAX_LENGTH" "mime_pattern ?m"
    using normalize_shape [of v] by blast
  then show ?thesis
  proof cases
    case 3
    note plain = plain_mime [OF mime_pattern_chars [OF 3(4)]]
    have "normalizeMediaMime (JStr w) = w" if "w = ?m" for w
      unfolding normalizeMediaMime_def [of "JStr w"] str_of.simps option.case Let_def
      using plain [folded that] 3 [folded that] by (simp only: plain [folded that] if_False not_less simp_thms) simp
    then show ?thesis by simp
  qed (simp_all add: normalize_constants)
qed

lemma starts_with_extend: "starts_with a p \<Longrightarrow> starts_with (a @ b) p"
proof -
  assume a: "starts_with a p"
  then have "length (take (length p) a) = length p" by (simp add: starts_with_def)
  then have "length p \<le> length a" by (simp add: min_def split: if_splits)
  then show ?thesis using a by (simp add: starts_with_def)
qed

lemma claim_of_normalized:
  assumes "isPreviewMediaClaim (JStr (normalizeMediaMime (JStr t)))"
  shows "isPreviewMediaClaim (JStr t)"
proof -
  let ?l = "to_lower (trim t)" and ?n = "takeWhile (\<lambda>c. c \<noteq> CHR '';'') (to_lower (trim t))"
  have split: "?l = ?n @ dropWhile (\<lambda>c. c \<noteq> CHR '';'') ?l" by simp
  have up: "starts_with ?n p \<Longrightarrow> starts_with ?l p" for p by (subst split) (rule starts_with_extend)
  show ?thesis
  proof (cases "?n = ''image/jpg''")
    case True
    then have "starts_with ?n ''image/''" by (simp add: starts_with_def)
    then show ?thesis using up by (simp add: isPreviewMediaClaim_def)
  next
    case no: False
    have "\<not> isPreviewMediaClaim (JStr octet_stream)" by code_simp
    then have m: "normalizeMediaMime (JStr t) = ?n" "mime_pattern ?n" using assms no by (auto simp: normalizeMediaMime_def Let_def split: if_splits)
    then have "starts_with ?n ''image/'' \<or> starts_with ?n ''video/''"
      using assms plain_mime [OF mime_pattern_chars [OF m(2)]] by (simp add: isPreviewMediaClaim_def)
    then show ?thesis using up by (auto simp: isPreviewMediaClaim_def)
  qed
qed

lemma safe_mimes: "m \<in> set SAFE_PREVIEW_MIMES \<Longrightarrow> normalizeMediaMime (JStr m) = m \<and> isPreviewMediaClaim (JStr m) \<and> isSafePreviewMime m"
proof -
  have "list_all (\<lambda>m. normalizeMediaMime (JStr m) = m \<and> isPreviewMediaClaim (JStr m) \<and> isSafePreviewMime m) SAFE_PREVIEW_MIMES" by code_simp
  then show "m \<in> set SAFE_PREVIEW_MIMES \<Longrightarrow> ?thesis" by (simp add: list_all_iff)
qed

lemma detected_safe: "detectSafePreviewMime bs = Some m \<Longrightarrow> m \<in> set SAFE_PREVIEW_MIMES"
  by (auto simp: detectSafePreviewMime_def SAFE_PREVIEW_MIMES_def split: if_splits)

lemma startsWith_take: "length sig \<le> n \<Longrightarrow> startsWithBytes (take n bs) sig = startsWithBytes bs sig"
  by (auto simp: startsWithBytes_def list_all_iff)

lemma detect_prefix: "12 \<le> n \<Longrightarrow> detectSafePreviewMime (take n bs) = detectSafePreviewMime bs"
  by (simp add: detectSafePreviewMime_def startsWith_take drop_take min_def)

text \<open>What an inspection says of the type it gives.\<close>

definition type_suits :: "string \<Rightarrow> bytes \<Rightarrow> bool" where
  "type_suits mime bs \<longleftrightarrow> normalizeMediaMime (JStr mime) = mime \<and>
     (isPreviewMediaClaim (JStr mime) \<or> isSafePreviewMime mime \<longrightarrow> isSafePreviewMime mime \<and> detectSafePreviewMime bs = Some mime)"

lemma inspected_type_suits:
  assumes "inspectOutgoingMediaFile file = Inr m"
  shows "type_suits (pm_mime m) (fl_bytes file)"
proof (cases "detectSafePreviewMime (take 64 (fl_bytes file))")
  case (Some d)
  then have "pm_mime m = d" using assms by (auto simp: inspectOutgoingMediaFile_def Let_def split: if_splits)
  then show ?thesis using Some safe_mimes [OF detected_safe [OF Some]] by (simp add: type_suits_def detect_prefix)
next
  case None
  then have m: "pm_mime m = normalizeMediaMime (JStr (fl_type file))" "\<not> isPreviewMediaClaim (JStr (fl_type file))"
    using assms by (auto simp: inspectOutgoingMediaFile_def Let_def split: if_splits)
  have "\<not> isPreviewMediaClaim (JStr (pm_mime m))" using m claim_of_normalized by auto
  moreover have "\<not> isSafePreviewMime (pm_mime m)"
    using calculation safe_mimes [of "pm_mime m"] m(1) by (auto simp: isSafePreviewMime_def)
  ultimately show ?thesis using m(1) by (simp add: type_suits_def)
qed

lemma signature_of_first:
  assumes "type_suits mime bs" "isPreviewMediaClaim (JStr mime) \<or> isSafePreviewMime mime" "12 \<le> cs \<or> length bs \<le> cs"
  shows "hasValidPreviewSignature (JStr mime) (take cs bs)"
proof -
  have "detectSafePreviewMime (take cs bs) = detectSafePreviewMime bs" using assms(3) detect_prefix by auto
  then show ?thesis using assms(1,2) by (simp add: hasValidPreviewSignature_def type_suits_def)
qed

subsection \<open>Rows that hold the chunks of a file\<close>

text \<open>What a reference promises of a file.\<close>

definition ref_of_file :: "media_ref \<Rightarrow> media_file \<Rightarrow> bool" where
  "ref_of_file r file \<longleftrightarrow> 0 < mf_chunkSize r \<and> mf_chunkSize r \<le> MAX_MEDIA_CHUNK_SIZE \<and> mf_size r = fl_size file \<and>
     0 < fl_size file \<and> fl_size file \<le> MAX_MEDIA_BYTES \<and> mf_total r = (fl_size file + mf_chunkSize r - 1) div mf_chunkSize r \<and>
     type_suits (mf_mime r) (fl_bytes file)"

abbreviation file_slice :: "media_file \<Rightarrow> media_ref \<Rightarrow> nat \<Rightarrow> bytes" where
  "file_slice file r \<equiv> slice_chunk (fl_bytes file) (mf_chunkSize r)"

lemma chunk_row_simps [simp]:
  "md_id (chunk_row env vk ty owner mime tot i bs) = chunk_id owner i" "md_idx (chunk_row env vk ty owner mime tot i bs) = i"
  "owned_by ty owner (chunk_row env vk ty owner mime tot i bs)" "md_mime (chunk_row env vk ty owner mime tot i bs) = mime"
  "md_total (chunk_row env vk ty owner mime tot i bs) = int tot"
  by (simp_all add: chunk_row_def owned_by_def)

lemma chunk_row_opens:
  assumes "vault_codec (ve_pf env)" "vault_cipher (ve_pf env)" "nonces_ok env"
  shows "open_chunk (ve_pf env) vk (chunk_row env vk ty owner mime tot i bs) = Inr bs"
  using open_seal [OF assms(1,2)] assms(3)
  by (simp add: open_chunk_def chunk_row_def in_vault_def decodeBinaryEnvelope_def encodeBinaryEnvelope_def nonces_ok_def)

lemma chunk_row_good:
  assumes "vault_codec (ve_pf env)" "vault_cipher (ve_pf env)" "nonces_ok env" "bs = content i"
  shows "chunk_good (ve_pf env) vk mime tot content (chunk_row env vk ty owner mime tot i bs)"
  using chunk_row_opens [OF assms(1-3)] assms(4) by (simp add: chunk_good_def)

lemma drop_owner_holds: "media_ok db \<Longrightarrow> holds_chunks pf vk ty owner mime tot content {} (drop_owner ty owner db)"
  by (simp add: holds_chunks_def media_ok_def drop_owner_def owner_rows_def tbl_ok_filter)

lemma created_ref:
  assumes "createMessageMediaRef messageId file cs (Some m) = Inr r" "type_suits (pm_mime m) (fl_bytes file)"
  shows "ref_of_file r file" "mf_ownerId r = messageId" "mf_chunkSize r = cs" "mf_mime r = pm_mime m"
  using assms by (auto simp: createMessageMediaRef_def ref_of_file_def split: if_splits)

subsection \<open>Storing\<close>

lemma put_media_append: "put_media (xs @ ys) db = put_media ys (put_media xs db)"
  by (simp add: put_media_def)

lemma hand_over_done: "hand_over f cs = (True, sent) \<Longrightarrow> sent = cs"
  by (induction cs arbitrary: sent) (auto split: if_splits prod.splits)

lemma store_batches_done:
  "store_batches env vk r cb bs db = (True, sent, db') \<Longrightarrow>
   db' = put_media (map (message_chunk_row env vk r) (concat bs)) db \<and> (cb \<noteq> None \<longrightarrow> sent = concat bs)"
proof (induction bs arbitrary: db sent db')
  case Nil
  then show ?case by (simp add: put_media_def)
next
  case (Cons b bs)
  then obtain s1 s2 where "call_back cb b = (True, s1)"
    "store_batches env vk r cb bs (put_media (map (message_chunk_row env vk r) b) db) = (True, s2, db')" "sent = s1 @ s2"
    by (auto simp: Let_def split: prod.splits bool.splits)
  then show ?case using Cons.IH hand_over_done by (auto simp: call_back_def put_media_append split: option.splits)
qed

lemma put_media_key [simp]: "vd_key (put_media rs db) = vd_key db" "vd_messages (put_media rs db) = vd_messages db"
  by (simp_all add: put_media_def)

lemma saved_media_held:
  assumes pf: "vault_codec (ve_pf env)" "vault_cipher (ve_pf env)" "nonces_ok env" "media_ok db"
    and run: "saveMessageMedia env messageId file cs cb None db = (Inr r, sent, db')"
  shows "\<exists>vk. vd_key db = Some vk \<and> vd_key db' = Some vk \<and>
      holds_chunks (ve_pf env) vk ''message'' messageId (mf_mime r) (mf_total r) (file_slice file r) {..<mf_total r} db'"
    and "ref_of_file r file" "mf_ownerId r = messageId" "mf_chunkSize r = cs" "cb \<noteq> None \<Longrightarrow> sent = media_chunks_of file r"
proof -
  obtain vk m where vk: "vd_key db = Some vk" and m: "inspectOutgoingMediaFile file = Inr m"
    "createMessageMediaRef messageId file cs (Some m) = Inr r"
    "store_batches env vk r cb (chunks_of (MEDIA_WRITE_BATCH_SIZE - 1) (media_chunks_of file r)) (drop_owner ''message'' messageId db) = (True, sent, db')"
    using run by (auto simp: saveMessageMedia_def requireVaultKey_def split: option.splits if_splits sum.splits prod.splits)
  note ref = created_ref [OF m(2) inspected_type_suits [OF m(1)]]
  then show "ref_of_file r file" "mf_ownerId r = messageId" "mf_chunkSize r = cs" by simp_all
  note stored = store_batches_done [OF m(3)]
  show "cb \<noteq> None \<Longrightarrow> sent = media_chunks_of file r" using stored by simp
  let ?rows = "map (message_chunk_row env vk r) (media_chunks_of file r)"
  have good: "\<forall>x \<in> set ?rows. md_id x = chunk_id messageId (md_idx x) \<and> owned_by ''message'' messageId x \<and>
      chunk_good (ve_pf env) vk (mf_mime r) (mf_total r) (file_slice file r) x"
    using ref(2) chunk_row_good [OF pf(1-3)] by (auto simp: message_chunk_row_def media_chunks_of_def)
  have idx: "md_idx ` set ?rows = {..<mf_total r}"
    by (auto simp: message_chunk_row_def media_chunks_of_def image_image atLeast0LessThan)
  have "holds_chunks (ve_pf env) vk ''message'' messageId (mf_mime r) (mf_total r) (file_slice file r) {..<mf_total r} (put_media ?rows (drop_owner ''message'' messageId db))"
    using holds_put_all [OF drop_owner_holds [OF pf(4)] good] unfolding idx by simp
  then show "\<exists>vk. vd_key db = Some vk \<and> vd_key db' = Some vk \<and>
      holds_chunks (ve_pf env) vk ''message'' messageId (mf_mime r) (mf_total r) (file_slice file r) {..<mf_total r} db'"
    using stored vk by (simp add: drop_owner_def)
qed

subsection \<open>Loading\<close>

text \<open>A reference as it is read from a message that was stored or sent.\<close>

definition reads_as :: "json \<Rightarrow> media_ref \<Rightarrow> bool" where
  "reads_as w r \<longleftrightarrow> wf_json w \<and> meaning w = meaning (media_ref_json r)"

lemma wf_media_ref: "wf_json (media_ref_json r)"
  by (simp add: media_ref_json_def settable_def)

lemma read_ref_fields:
  assumes "reads_as w r"
  shows "is_object w" "field w ''ownerType'' = JStr ''message''" "field w ''ownerId'' = JStr (mf_ownerId r)"
    "field w ''mime'' = JStr (mf_mime r)" "finite_num (field w ''total'') = Some (of_nat (mf_total r))"
    "finite_num (field w ''chunkSize'') = Some (of_nat (mf_chunkSize r))" "finite_num (field w ''size'') = Some (of_nat (mf_size r))"
proof -
  have w: "wf_json w" "meaning w = meaning (media_ref_json r)" using assms by (simp_all add: reads_as_def)
  have f: "meaning (field (media_ref_json r) k) = meaning (field w k)" for k
    by (rule field_meaning [OF wf_media_ref w(1) w(2) [symmetric]])
  show "is_object w" using w(2) meaning_object by (metis media_ref_json_def)
  show "field w ''ownerType'' = JStr ''message''" "field w ''ownerId'' = JStr (mf_ownerId r)" "field w ''mime'' = JStr (mf_mime r)"
    using f [of "''ownerType''"] f [of "''ownerId''"] f [of "''mime''"] by (simp_all add: media_ref_json_def meaning_string)
  show "finite_num (field w ''total'') = Some (of_nat (mf_total r))" "finite_num (field w ''chunkSize'') = Some (of_nat (mf_chunkSize r))"
    "finite_num (field w ''size'') = Some (of_nat (mf_size r))"
    using meaning_finite [OF f [of "''total''"]] meaning_finite [OF f [of "''chunkSize''"]] meaning_finite [OF f [of "''size''"]]
    by (simp_all add: media_ref_json_def)
qed

lemma ceil_of_div: "0 < cs \<Longrightarrow> \<lceil>(of_nat len :: rat) / of_nat cs\<rceil> = int ((len + cs - 1) div cs)"
proof -
  assume cs: "0 < cs"
  let ?n = "(len + cs - 1) div cs"
  have "len \<le> ?n * cs" by (rule count_covers [OF cs])
  then have "(of_nat len :: rat) \<le> of_nat ?n * of_nat cs" by (metis of_nat_le_iff of_nat_mult)
  then have up: "(of_nat len :: rat) / of_nat cs \<le> of_int (int ?n)" using cs by (simp add: divide_le_eq)
  have low: "of_int (int ?n) - 1 < (of_nat len :: rat) / of_nat cs"
  proof (cases ?n)
    case (Suc i)
    have "i * cs < len" using Suc by (intro count_below [OF cs]) simp
    then have "(of_nat i * of_nat cs :: rat) < of_nat len" by (metis of_nat_less_iff of_nat_mult)
    then show ?thesis using cs Suc by (simp add: less_divide_eq)
  next
    case 0
    have "(0 :: rat) \<le> of_nat len / of_nat cs" by simp
    then show ?thesis using 0 by linarith
  qed
  show ?thesis by (rule ceiling_unique) (use up low in simp_all)
qed

definition ref_within :: "media_ref \<Rightarrow> bool" where
  "ref_within r \<longleftrightarrow> isValidMediaOwnerId (JStr (mf_ownerId r)) \<and> int (mf_total r) \<le> MEDIA_MAX_CHUNKS"

lemma read_ref_parses:
  assumes "reads_as w r" "ref_of_file r file" "ref_within r"
  shows "\<exists>ref. parseIncomingMediaRef w (Some (mf_ownerId r)) = Some ref \<and> field ref ''mime'' = JStr (mf_mime r) \<and>
    finite_num (field ref ''total'') = Some (of_nat (mf_total r)) \<and> finite_num (field ref ''chunkSize'') = Some (of_nat (mf_chunkSize r)) \<and>
    finite_num (field ref ''size'') = Some (of_nat (mf_size r))"
proof -
  note f = read_ref_fields [OF assms(1)]
  have pos: "0 < mf_total r" using assms(2) by (auto simp: ref_of_file_def div_greater_zero_iff)
  have lim: "int (mf_chunkSize r) \<le> INLINE_MEDIA_CHUNK_SIZE" "int (mf_size r) \<le> INLINE_MEDIA_MAX_BYTES"
    using assms(2) by (simp_all add: ref_of_file_def MAX_MEDIA_CHUNK_SIZE_def INLINE_MEDIA_CHUNK_SIZE_def MAX_MEDIA_BYTES_def INLINE_MEDIA_MAX_BYTES_def)
  have within: "int_within v m" if "finite_num v = Some (of_nat n)" "0 < n" "int n \<le> m" for v n m
  proof -
    have "(of_nat n :: rat) = of_int (int n)" by simp
    then show ?thesis using that by (simp only: int_within_def is_int_num_def option.case floor_of_int of_int_le_iff of_int_0_less_iff) simp
  qed
  have "int_within (field w ''chunkSize'') INLINE_MEDIA_CHUNK_SIZE" "int_within (field w ''size'') INLINE_MEDIA_MAX_BYTES"
    "int_within (field w ''total'') MEDIA_MAX_CHUNKS"
    using within [OF f(6)] within [OF f(7)] within [OF f(5)] lim pos assms(2,3) by (simp_all add: ref_of_file_def ref_within_def)
  moreover have "number_of (field w ''total'') = of_int \<lceil>number_of (field w ''size'') / number_of (field w ''chunkSize'')\<rceil>"
    using f assms(2) ceil_of_div [of "mf_chunkSize r" "mf_size r"] by (simp add: number_of_def ref_of_file_def)
  moreover have "isPreviewMediaClaim (JStr (mf_mime r)) \<Longrightarrow> isSafePreviewMime (mf_mime r)" "normalizeMediaMime (JStr (mf_mime r)) = mf_mime r"
    using assms(2) by (simp_all add: ref_of_file_def type_suits_def)
  ultimately show ?thesis
    using f assms(3) by (simp add: parseIncomingMediaRef_def Let_def ref_within_def)
qed

lemma held_media_loads:
  assumes held: "holds_chunks (ve_pf env) vk ''message'' (mf_ownerId r) (mf_mime r) (mf_total r) (file_slice file r) {..<mf_total r} db"
    and key: "vd_key db = Some vk"
    and ref: "reads_as w r" "ref_of_file r file" "ref_within r" "12 \<le> mf_chunkSize r \<or> fl_size file \<le> mf_chunkSize r"
  shows "loadMessageMedia env w db = Some (fl_bytes file, mf_mime r)"
proof -
  note f = read_ref_fields [OF ref(1)]
  obtain p where p: "parseIncomingMediaRef w (Some (mf_ownerId r)) = Some p" "field p ''mime'' = JStr (mf_mime r)"
    "finite_num (field p ''total'') = Some (of_nat (mf_total r))" "finite_num (field p ''size'') = Some (of_nat (mf_size r))"
    using read_ref_parses [OF ref(1-3)] by blast
  define L where "L = sort_key md_idx (owner_rows ''message'' (mf_ownerId r) db)"
  have idx: "map md_idx L = [0..<mf_total r]" and good: "\<forall>x \<in> set L. chunk_good (ve_pf env) vk (mf_mime r) (mf_total r) (file_slice file r) x"
    using holds_all_in_order [OF held] unfolding L_def by blast+
  have pos: "0 < mf_total r" using ref(2) by (auto simp: ref_of_file_def div_greater_zero_iff)
  have len: "length L = mf_total r" using arg_cong [OF idx, of length] by simp
  have ne: "L \<noteq> []" using len pos by auto
  have at: "md_idx (L ! i) = i" if "i < mf_total r" for i using nth_map [of i L md_idx] that len unfolding idx by simp
  have suits: "type_suits (mf_mime r) (fl_bytes file)" using ref(2) by (simp add: ref_of_file_def)
  have fit: "rows_fit p L"
    using good at len p(2,3) suits
    by (auto simp: rows_fit_def list_all_iff in_set_enumerate_eq chunk_good_def json_num_is_def type_suits_def nth_mem)
  let ?g = "\<lambda>x. file_slice file r (md_idx x)"
  have opens: "open_chunk (ve_pf env) vk x = Inr (?g x)" if "x \<in> set L" for x using good that by (simp add: chunk_good_def)
  have whole: "concat (map ?g L) = fl_bytes file"
  proof -
    have "map ?g L = map (file_slice file r) (map md_idx L)" by simp
    then show ?thesis using concat_file_slices [of "mf_chunkSize r" "fl_bytes file"] ref(2)
      unfolding idx by (simp add: ref_of_file_def fl_size_def)
  qed
  have "blob_parts (ve_pf env) vk (mf_mime r) MAX_MEDIA_BYTES True (chunks_of (decrypt_batch_size (length L) - 1) L) []
      = Inr (Some ([] @ concat (map ?g (concat (chunks_of (decrypt_batch_size (length L) - 1) L)))))"
  proof (rule blob_parts_whole)
    show "[] \<notin> set (chunks_of (decrypt_batch_size (length L) - 1) L)" by (rule chunks_of_nonempty)
    show "hasValidPreviewSignature (JStr (mf_mime r)) (?g (hd (concat (chunks_of (decrypt_batch_size (length L) - 1) L))))"
      if "isPreviewMediaClaim (JStr (mf_mime r))"
    proof -
      have "md_idx (hd L) = 0" using at [OF pos] ne by (simp add: hd_conv_nth)
      moreover have "file_slice file r 0 = take (mf_chunkSize r) (fl_bytes file)" by (simp add: slice_chunk_def min_def)
      ultimately show ?thesis using signature_of_first [OF suits] that ref(4) by (simp add: fl_size_def)
    qed
    show "length ([] @ concat (map ?g (concat (chunks_of (decrypt_batch_size (length L) - 1) L)))) \<le> MAX_MEDIA_BYTES"
      using whole ref(2) by (simp add: ref_of_file_def fl_size_def)
  qed (use opens in simp)
  then have "decryptMediaToBlob (ve_pf env) vk L (mf_mime r) MAX_MEDIA_BYTES = Inr (Some (fl_bytes file))"
    using whole by (simp add: decryptMediaToBlob_def)
  moreover have "truthy w" using f(1) by (cases w) simp_all
  moreover have "mf_size r = length (fl_bytes file)" using ref(2) by (simp add: ref_of_file_def fl_size_def)
  ultimately show ?thesis
    using p f(3) key ne len fit by (simp add: loadMessageMedia_def text_of_str_def json_num_is_def L_def [symmetric])
qed

text \<open>
  Media that a message was sent with is read back as the file: when the file was stored, with the
  type its content has, every reference that reads as the one it got, at any later time, loads its bytes; and
  what was handed over for sending are its chunks, in order, which are the file again.
\<close>

theorem stored_media_is_the_file:
  assumes pf: "vault_codec (ve_pf env)" "vault_cipher (ve_pf env)" "nonces_ok env" "media_ok db"
    and run: "saveMessageMedia env messageId file cs cb None db = (Inr r, sent, db')"
    and ref: "reads_as w r" "ref_within r" "12 \<le> cs \<or> fl_size file \<le> cs" "ve_pf env' = ve_pf env"
  shows "loadMessageMedia env' w db' = Some (fl_bytes file, mf_mime r) \<and> (cb \<noteq> None \<longrightarrow> concat (map mc_bytes sent) = fl_bytes file)"
proof -
  note saved = saved_media_held [OF pf run]
  obtain vk where vk: "vd_key db' = Some vk"
    "holds_chunks (ve_pf env') vk ''message'' (mf_ownerId r) (mf_mime r) (mf_total r) (file_slice file r) {..<mf_total r} db'"
    using saved(1,3) ref(4) by auto
  have "loadMessageMedia env' w db' = Some (fl_bytes file, mf_mime r)"
    by (rule held_media_loads [OF vk(2,1) ref(1) saved(2) ref(2)]) (use saved(4) ref(3) in simp)
  moreover have "concat (map mc_bytes (media_chunks_of file r)) = fl_bytes file"
    using saved(2) concat_file_slices [of "mf_chunkSize r" "fl_bytes file"]
    by (simp add: media_chunks_of_def comp_def ref_of_file_def fl_size_def)
  ultimately show ?thesis using saved(5) by auto
qed

subsection \<open>Arriving\<close>

text \<open>A chunk as it arrives when nobody changes it.\<close>

definition received_of :: "media_ref \<Rightarrow> media_chunk \<Rightarrow> received_chunk" where
  "received_of r c = \<lparr>rx_ownerId = mf_ownerId r, rx_idx = of_nat (mc_idx c), rx_total = of_nat (mc_total c),
     rx_chunkSize = of_nat (mf_chunkSize r), rx_size = of_nat (mf_size r), rx_mime = mf_mime r, rx_bytes = mc_bytes c\<rparr>"

lemma valid_id_trim: "isValidMediaOwnerId (JStr s) \<Longrightarrow> trim s = s"
proof -
  assume v: "isValidMediaOwnerId (JStr s)"
  have plain: "\<not> js_space c" if "is_alnum c \<or> c \<in> set ''._-''" for c
    using that by (auto simp: is_alnum_def is_lower_alnum_def is_digit_def js_space_def Let_def)
  have "list_all (\<lambda>c. \<not> js_space c) s"
    using v plain by (cases s) (auto simp: isValidMediaOwnerId_def list_all_iff)
  then show ?thesis by (simp add: trim_def dropWhile_all_kept rev_dropWhile_none)
qed

lemma whole_nat [simp]: "whole (of_nat n)"
  by (simp add: whole_def)

lemma honest_chunk_checked:
  assumes ref: "ref_of_file r file" "ref_within r" "12 \<le> mf_chunkSize r \<or> fl_size file \<le> mf_chunkSize r" and i: "i < mf_total r"
  shows "check_received (received_of r \<lparr>mc_idx = i, mc_total = mf_total r, mc_bytes = file_slice file r i\<rparr>) = None"
proof -
  let ?cs = "mf_chunkSize r" and ?len = "length (file_slice file r i)"
  have r: "0 < ?cs" "?cs \<le> MAX_MEDIA_CHUNK_SIZE" "mf_size r = length (fl_bytes file)" "0 < mf_size r" "mf_size r \<le> MAX_MEDIA_BYTES"
    "mf_total r = (length (fl_bytes file) + ?cs - 1) div ?cs" and suits: "type_suits (mf_mime r) (fl_bytes file)"
    using ref(1) by (simp_all add: ref_of_file_def fl_size_def)
  have below: "i * ?cs < length (fl_bytes file)" using count_below [OF r(1)] i r(6) by simp
  have len: "?len = (if Suc i = mf_total r then length (fl_bytes file) - ?cs * i else ?cs)" using slice_length [OF r(1)] i r(6) by simp
  have pos: "0 < ?len" using below r(1) len by (simp add: mult.commute)
  have le: "?len \<le> ?cs" by (simp add: slice_chunk_def)
  have valid: "isValidMediaOwnerId (JStr (trim (mf_ownerId r)))" using ref(2) valid_id_trim by (simp add: ref_within_def)
  have "mf_total r * ?cs \<le> mf_size r + ?cs - 1" unfolding r(3,6) by (rule div_times_less_eq_dividend)
  then have "mf_total r * ?cs \<le> MAX_MEDIA_BYTES + ?cs" using r(5) by linarith
  then have size: "of_nat (mf_total r) * of_nat ?cs \<le> (of_nat MAX_MEDIA_BYTES + of_nat ?cs :: rat)"
    by (metis of_nat_add of_nat_le_iff of_nat_mult)
  have total: "(of_nat (mf_total r) :: rat) = of_int \<lceil>(of_nat (mf_size r) :: rat) / of_nat ?cs\<rceil>"
    using ceil_of_div [OF r(1), of "mf_size r"] r(3,6) by simp
  have expected: "(of_nat ?len :: rat) = (if (of_nat i :: rat) = of_nat (mf_total r) - 1
      then of_nat (mf_size r) - of_nat ?cs * (of_nat (mf_total r) - 1) else of_nat ?cs)"
  proof (cases "Suc i = mf_total r")
    case True
    then have "(of_nat (mf_total r) :: rat) - 1 = of_nat i" by (metis of_nat_Suc add_diff_cancel_left')
    moreover have "?cs * i \<le> mf_size r" using below r(3) by (simp add: mult.commute)
    ultimately show ?thesis using True len r(3) by (simp add: of_nat_diff)
  next
    case False
    then have "(of_nat i :: rat) \<noteq> of_nat (mf_total r) - 1" using i by (metis diff_add_cancel of_nat_1 of_nat_add of_nat_eq_iff add.commute plus_1_eq_Suc)
    then show ?thesis using False len by simp
  qed
  have prev: "isPreviewMediaClaim (JStr (mf_mime r)) \<Longrightarrow> isSafePreviewMime (mf_mime r)" "normalizeMediaMime (JStr (mf_mime r)) = mf_mime r"
    using suits by (simp_all add: type_suits_def)
  have sign: "hasValidPreviewSignature (JStr (mf_mime r)) (file_slice file r i)" if "i = 0" "isSafePreviewMime (mf_mime r)"
  proof -
    have "file_slice file r 0 = take ?cs (fl_bytes file)" by (simp add: slice_chunk_def min_def)
    then show ?thesis using signature_of_first [OF suits] that ref(3) by (simp add: fl_size_def)
  qed
  define c where "c = received_of r \<lparr>mc_idx = i, mc_total = mf_total r, mc_bytes = file_slice file r i\<rparr>"
  have f: "rx_ownerId c = mf_ownerId r" "rx_idx c = of_nat i" "rx_total c = of_nat (mf_total r)" "rx_chunkSize c = of_nat ?cs"
    "rx_size c = of_nat (mf_size r)" "rx_mime c = mf_mime r" "rx_bytes c = file_slice file r i" by (simp_all add: c_def received_of_def)
  have ok: "(\<not> isValidMediaOwnerId (JStr (trim (rx_ownerId c)))) = False" "(\<not> whole (rx_idx c) \<or> rx_idx c < 0) = False"
    "(\<not> whole (rx_total c) \<or> rx_total c \<le> 0) = False" "(rx_total c \<le> rx_idx c) = False"
    "(\<not> whole (rx_chunkSize c) \<or> rx_chunkSize c \<le> 0 \<or> of_nat MAX_MEDIA_CHUNK_SIZE < rx_chunkSize c) = False"
    "(rx_size c \<le> 0 \<or> of_nat MAX_MEDIA_BYTES < rx_size c) = False"
    using valid i r(1,2,4,5) by (simp_all add: f not_less not_le)
  have ok': "(of_nat MAX_MEDIA_BYTES + rx_chunkSize c < rx_total c * rx_chunkSize c) = False"
    "((of_nat (length (rx_bytes c)) :: rat) \<le> 0 \<or> rx_chunkSize c < of_nat (length (rx_bytes c))) = False"
    "(rx_total c \<noteq> of_int \<lceil>rx_size c / rx_chunkSize c\<rceil>) = False"
    using size pos le total by (simp_all only: f) (simp_all add: not_less)
  have ok'': "(of_nat (length (rx_bytes c)) \<noteq> (if rx_idx c = rx_total c - 1 then rx_size c - rx_chunkSize c * (rx_total c - 1) else rx_chunkSize c)) = False"
    using expected by (simp only: f) simp
  have ok3: "(isPreviewMediaClaim (JStr (rx_mime c)) \<and> \<not> isSafePreviewMime (normalizeMediaMime (JStr (rx_mime c)))) = False"
    "(rx_idx c = 0 \<and> isSafePreviewMime (normalizeMediaMime (JStr (rx_mime c))) \<and>
      \<not> hasValidPreviewSignature (JStr (normalizeMediaMime (JStr (rx_mime c)))) (rx_bytes c)) = False"
    using prev sign by (cases "i = 0"; auto simp: f)+
  show ?thesis unfolding c_def [symmetric] check_received_def Let_def by (simp only: ok ok' ok'' ok3 if_False)
qed

fun receive_all :: "(vault_env \<times> received_chunk) list \<Rightarrow> vault_db \<Rightarrow> db_error + received_state list \<times> vault_db" where
  "receive_all [] db = Inr ([], db)"
| "receive_all ((env, c) # xs) db = (case saveReceivedMessageMediaChunk env c db of
     Inl e \<Rightarrow> Inl e
   | Inr (st, db') \<Rightarrow> (case receive_all xs db' of Inl e \<Rightarrow> Inl e | Inr (sts, db'') \<Rightarrow> Inr (st # sts, db'')))"

text \<open>The indices that have come.\<close>

definition arrived :: "(vault_env \<times> received_chunk) list \<Rightarrow> nat set" where
  "arrived xs = (\<lambda>x. nat \<lfloor>rx_idx (snd x)\<rfloor>) ` set xs"

text \<open>The message that announces the media is in the table.\<close>

definition announced :: "platform \<Rightarrow> bytes \<Rightarrow> media_ref \<Rightarrow> vault_db \<Rightarrow> bool" where
  "announced pf vk r db \<longleftrightarrow> (\<exists>row message. tbl_get mr_id (mf_ownerId r) (vd_messages db) = Some row \<and>
     open_message pf vk row = Inr message \<and> reads_as (field message ''media'') r)"

lemma honest_chunk_saved:
  assumes pf: "vault_codec (ve_pf env)" "vault_cipher (ve_pf env)" "nonces_ok env"
    and ref: "ref_of_file r file" "ref_within r" "12 \<le> mf_chunkSize r \<or> fl_size file \<le> mf_chunkSize r"
    and db: "vd_key db = Some vk" "announced (ve_pf env) vk r db"
    and held: "holds_chunks (ve_pf env) vk ''message'' (mf_ownerId r) (mf_mime r) (mf_total r) (file_slice file r) S db" "S \<subseteq> {..<mf_total r}"
    and c: "c \<in> set (media_chunks_of file r)"
  shows "\<exists>st db'. saveReceivedMessageMediaChunk env (received_of r c) db = Inr (st, db') \<and> vd_key db' = Some vk \<and>
    vd_messages db' = vd_messages db \<and>
    holds_chunks (ve_pf env) vk ''message'' (mf_ownerId r) (mf_mime r) (mf_total r) (file_slice file r) (insert (mc_idx c) S) db' \<and>
    (rs_complete st \<longleftrightarrow> insert (mc_idx c) S = {..<mf_total r}) \<and> rs_received st = card (insert (mc_idx c) S)"
proof -
  obtain i where i: "i < mf_total r" "c = \<lparr>mc_idx = i, mc_total = mf_total r, mc_bytes = file_slice file r i\<rparr>"
    using c by (auto simp: media_chunks_of_def)
  let ?c = "received_of r c" and ?o = "mf_ownerId r"
  have check: "check_received ?c = None" unfolding i(2) by (rule honest_chunk_checked [OF ref i(1)])
  have trim': "trim (rx_ownerId ?c) = ?o" using ref(2) valid_id_trim by (simp add: received_of_def ref_within_def)
  obtain row message where m: "tbl_get mr_id ?o (vd_messages db) = Some row" "open_message (ve_pf env) vk row = Inr message"
    "reads_as (field message ''media'') r" using db(2) by (auto simp: announced_def)
  obtain p where p: "parseIncomingMediaRef (field message ''media'') (Some ?o) = Some p" "field p ''mime'' = JStr (mf_mime r)"
    "finite_num (field p ''total'') = Some (of_nat (mf_total r))" "finite_num (field p ''chunkSize'') = Some (of_nat (mf_chunkSize r))"
    "finite_num (field p ''size'') = Some (of_nat (mf_size r))"
    using read_ref_parses [OF m(3) ref(1,2)] by blast
  have mime: "normalizeMediaMime (JStr (mf_mime r)) = mf_mime r" using ref(1) by (simp add: ref_of_file_def type_suits_def)
  have fits: "manifest_fits p ?c" using p mime i(2) by (simp add: manifest_fits_def received_of_def)
  have existing: "media_fits ?c (owner_rows ''message'' ?o db)"
  proof (cases "owner_rows ''message'' ?o db")
    case (Cons x xs)
    then have "chunk_good (ve_pf env) vk (mf_mime r) (mf_total r) (file_slice file r) x" using held(1) by (simp add: holds_chunks_def)
    then show ?thesis using Cons mime i(2) by (simp add: media_fits_def chunk_good_def received_of_def)
  qed (simp add: media_fits_def)
  let ?row = "chunk_row env vk ''message'' ?o (mf_mime r) (mf_total r) i (file_slice file r i)"
  let ?db = "put_media [?row] db"
  have held': "holds_chunks (ve_pf env) vk ''message'' ?o (mf_mime r) (mf_total r) (file_slice file r) (insert i S) ?db"
    using holds_put [OF held(1), of ?row] chunk_row_good [OF pf] by (simp del: put_one)
  have count: "length (owner_rows ''message'' ?o ?db) = card (insert i S)" by (rule holds_count [OF held'])
  have sub: "insert i S \<subseteq> {..<mf_total r}" using held(2) i(1) by auto
  have done': "card (insert i S) = mf_total r \<longleftrightarrow> insert i S = {..<mf_total r}"
    by (metis card_lessThan card_subset_eq finite_lessThan sub)
  have run: "saveReceivedMessageMediaChunk env ?c db = Inr (\<lparr>rs_received = card (insert i S), rs_total = mf_total r,
      rs_complete = (of_nat (card (insert i S)) = (of_nat (mf_total r) :: rat))\<rparr>, ?db)"
    using check trim' m(1,2) p(1) fits existing mime db(1) count i(2)
    by (simp add: saveReceivedMessageMediaChunk_def with_key_def requireVaultKey_def Let_def received_of_def del: put_one)
  show ?thesis using run held' done' db(1) i(2) by (simp del: put_one)
qed

lemma honest_chunks_saved:
  assumes pf: "vault_codec pf" "vault_cipher pf" "\<forall>(env, c) \<in> set xs. ve_pf env = pf \<and> nonces_ok env \<and> c \<in> received_of r ` set (media_chunks_of file r)"
    and ref: "ref_of_file r file" "ref_within r" "12 \<le> mf_chunkSize r \<or> fl_size file \<le> mf_chunkSize r"
    and db: "vd_key db = Some vk" "announced pf vk r db"
    and held: "holds_chunks pf vk ''message'' (mf_ownerId r) (mf_mime r) (mf_total r) (file_slice file r) S db" "S \<subseteq> {..<mf_total r}"
  shows "\<exists>sts db'. receive_all xs db = Inr (sts, db') \<and> length sts = length xs \<and> vd_key db' = Some vk \<and>
    holds_chunks pf vk ''message'' (mf_ownerId r) (mf_mime r) (mf_total r) (file_slice file r) (arrived xs \<union> S) db' \<and>
    arrived xs \<union> S \<subseteq> {..<mf_total r} \<and> (xs \<noteq> [] \<longrightarrow> (rs_complete (last sts) \<longleftrightarrow> arrived xs \<union> S = {..<mf_total r}))"
  using pf(3) db held
proof (induction xs arbitrary: S db)
  case Nil
  then show ?case by (simp add: arrived_def)
next
  case (Cons x xs)
  obtain env rc where x: "x = (env, rc)" by (cases x)
  obtain c where e: "ve_pf env = pf" "nonces_ok env" and c: "c \<in> set (media_chunks_of file r)" "rc = received_of r c"
    using Cons.prems(1) x by auto
  have env: "vault_codec (ve_pf env)" "vault_cipher (ve_pf env)" "announced (ve_pf env) vk r db"
    "holds_chunks (ve_pf env) vk ''message'' (mf_ownerId r) (mf_mime r) (mf_total r) (file_slice file r) S db"
    using pf(1,2) e Cons.prems by simp_all
  obtain st d where d: "saveReceivedMessageMediaChunk env rc db = Inr (st, d)" "vd_key d = Some vk" "vd_messages d = vd_messages db"
    "holds_chunks pf vk ''message'' (mf_ownerId r) (mf_mime r) (mf_total r) (file_slice file r) (insert (mc_idx c) S) d"
    "rs_complete st \<longleftrightarrow> insert (mc_idx c) S = {..<mf_total r}"
    using honest_chunk_saved [OF env(1,2) e(2) ref Cons.prems(2) env(3,4) Cons.prems(5) c(1)] c(2) e(1) by auto
  have idx: "nat \<lfloor>rx_idx (snd x)\<rfloor> = mc_idx c" using x c(2) by (simp add: received_of_def)
  have sub: "insert (mc_idx c) S \<subseteq> {..<mf_total r}" using Cons.prems(5) c(1) by (auto simp: media_chunks_of_def)
  have ann: "announced pf vk r d" using Cons.prems(3) d(3) by (simp add: announced_def)
  have "\<exists>sts db'. receive_all xs d = Inr (sts, db') \<and> length sts = length xs \<and> vd_key db' = Some vk \<and>
    holds_chunks pf vk ''message'' (mf_ownerId r) (mf_mime r) (mf_total r) (file_slice file r) (arrived xs \<union> insert (mc_idx c) S) db' \<and>
    arrived xs \<union> insert (mc_idx c) S \<subseteq> {..<mf_total r} \<and>
    (xs \<noteq> [] \<longrightarrow> (rs_complete (last sts) \<longleftrightarrow> arrived xs \<union> insert (mc_idx c) S = {..<mf_total r}))"
    by (rule Cons.IH [OF _ d(2) ann d(4) sub]) (use Cons.prems(1) in auto)
  then obtain sts db' where ih: "receive_all xs d = Inr (sts, db')" "length sts = length xs" "vd_key db' = Some vk"
    "holds_chunks pf vk ''message'' (mf_ownerId r) (mf_mime r) (mf_total r) (file_slice file r)
      (arrived xs \<union> insert (mc_idx c) S) db'"
    "arrived xs \<union> insert (mc_idx c) S \<subseteq> {..<mf_total r}"
    "xs \<noteq> [] \<longrightarrow> (rs_complete (last sts) \<longleftrightarrow> arrived xs \<union> insert (mc_idx c) S = {..<mf_total r})"
    by blast
  have T: "arrived (x # xs) \<union> S = arrived xs \<union> insert (mc_idx c) S"
    using idx by (simp add: arrived_def)
  have last': "rs_complete (last (st # sts)) \<longleftrightarrow> arrived xs \<union> insert (mc_idx c) S = {..<mf_total r}"
  proof (cases "xs = []")
    case True
    then show ?thesis using ih(2) d(5) by (simp add: arrived_def)
  next
    case False
    then have "last (st # sts) = last sts" using ih(2) by (cases sts) simp_all
    then show ?thesis using False ih(6) by simp
  qed
  show ?case unfolding T using d(1) ih(1-5) last' x by simp
qed

text \<open>
  C10. Media arrives whole: of a file that one device stored and sent, the other, which has the
  message that announces it, accepts every chunk, in any order and however often each comes; it
  reports completion exactly when all have come, and then reads the same file back.
\<close>

theorem media_arrives_whole:
  assumes sender: "vault_codec (ve_pf env)" "vault_cipher (ve_pf env)" "nonces_ok env" "media_ok db"
      "saveMessageMedia env messageId file cs cb None db = (Inr r, sent, db')" "cb \<noteq> None"
    and ref: "ref_within r" "12 \<le> cs \<or> fl_size file \<le> cs" "reads_as w r"
    and receiver: "vault_codec pf" "vault_cipher pf" "vd_key rdb = Some vk" "media_ok rdb" "owner_rows ''message'' messageId rdb = []"
      "announced pf vk r rdb"
    and chunks: "\<forall>(env', c) \<in> set xs. ve_pf env' = pf \<and> nonces_ok env' \<and> c \<in> received_of r ` set sent" "ve_pf env'' = pf"
  shows "\<exists>sts rdb'. receive_all xs rdb = Inr (sts, rdb') \<and> length sts = length xs \<and>
    (xs \<noteq> [] \<longrightarrow> (rs_complete (last sts) \<longleftrightarrow> received_of r ` set sent \<subseteq> snd ` set xs)) \<and>
    (received_of r ` set sent \<subseteq> snd ` set xs \<longrightarrow> loadMessageMedia env'' w rdb' = Some (fl_bytes file, mf_mime r))"
proof -
  note saved = saved_media_held [OF sender(1-5)]
  have sent: "sent = media_chunks_of file r" using saved(5) sender(6) by simp
  have lim: "12 \<le> mf_chunkSize r \<or> fl_size file \<le> mf_chunkSize r" using ref(2) saved(4) by simp
  have none: "holds_chunks pf vk ''message'' (mf_ownerId r) (mf_mime r) (mf_total r) (file_slice file r) {} rdb"
    using receiver(4,5) saved(3) by (simp add: holds_chunks_def)
  let ?idx = "\<lambda>x. nat \<lfloor>rx_idx (snd x)\<rfloor>"
  obtain sts rdb' where run: "receive_all xs rdb = Inr (sts, rdb')" "length sts = length xs" "vd_key rdb' = Some vk"
    "holds_chunks pf vk ''message'' (mf_ownerId r) (mf_mime r) (mf_total r) (file_slice file r) (arrived xs) rdb'"
    "arrived xs \<subseteq> {..<mf_total r}" "xs \<noteq> [] \<longrightarrow> (rs_complete (last sts) \<longleftrightarrow> arrived xs = {..<mf_total r})"
    using honest_chunks_saved [OF receiver(1,2) chunks(1) [unfolded sent] saved(2) ref(1) lim receiver(3,6) none] by auto
  have all: "arrived xs = {..<mf_total r} \<longleftrightarrow> received_of r ` set sent \<subseteq> snd ` set xs"
  proof
    assume cover: "arrived xs = {..<mf_total r}"
    show "received_of r ` set sent \<subseteq> snd ` set xs"
    proof
      fix y assume "y \<in> received_of r ` set sent"
      then obtain i where i: "i < mf_total r" "y = received_of r \<lparr>mc_idx = i, mc_total = mf_total r, mc_bytes = file_slice file r i\<rparr>"
        unfolding sent by (auto simp: media_chunks_of_def)
      then have "i \<in> ?idx ` set xs" using cover by (simp add: arrived_def)
      then obtain x where x: "x \<in> set xs" "nat \<lfloor>rx_idx (snd x)\<rfloor> = i" by blast
      have "snd x \<in> received_of r ` set (media_chunks_of file r)" using bspec [OF chunks(1) x(1)] sent by (simp add: split_beta)
      then obtain k where "snd x = received_of r \<lparr>mc_idx = k, mc_total = mf_total r, mc_bytes = file_slice file r k\<rparr>"
        by (auto simp: media_chunks_of_def)
      then have "snd x = y" using x(2) i(2) by (simp add: received_of_def)
      then show "y \<in> snd ` set xs" using x(1) by blast
    qed
  next
    assume sub: "received_of r ` set sent \<subseteq> snd ` set xs"
    have "i \<in> arrived xs" if "i < mf_total r" for i
    proof -
      let ?y = "received_of r \<lparr>mc_idx = i, mc_total = mf_total r, mc_bytes = file_slice file r i\<rparr>"
      have "?y \<in> snd ` set xs" using sub that unfolding sent by (force simp: media_chunks_of_def)
      then obtain x where "x \<in> set xs" "snd x = ?y" by auto
      moreover from this have "?idx x = i" by (simp add: received_of_def)
      ultimately show ?thesis unfolding arrived_def by (intro image_eqI [of _ _ x]) simp_all
    qed
    then show "arrived xs = {..<mf_total r}" using run(5) by auto
  qed
  have "loadMessageMedia env'' w rdb' = Some (fl_bytes file, mf_mime r)" if "received_of r ` set sent \<subseteq> snd ` set xs"
  proof (rule held_media_loads)
    show "holds_chunks (ve_pf env'') vk ''message'' (mf_ownerId r) (mf_mime r) (mf_total r) (file_slice file r) {..<mf_total r} rdb'"
      using run(4) all that chunks(2) by simp
  qed (use run(3) ref(1,3) saved(2) lim in simp_all)
  then show ?thesis using run(1,2,6) all by auto
qed

subsection \<open>What a chunk can do to others' media\<close>

text \<open>
  The id of a chunk is its owner's id and its index, whatever the type of the owner, and the owner
  of a chunk that arrives is the id of a message, which its sender chose. Who sends a message with the
  id of a profile or a group, and then its first chunk, replaces the first chunk of the photo, which is
  not shown any more.
\<close>

theorem received_chunk_destroys_photo:
  assumes ok: "media_ok db" and shown: "loadProfilePhoto env (Some r) db = Some blob"
    and first: "\<exists>x \<in> set (owner_rows (if ar_ownerType r = ''group'' then ''group'' else ''profile'') (ar_ownerId r) db). md_idx x = 0"
    and run: "saveReceivedMessageMediaChunk env' c db = Inr (st, db')" "trim (rx_ownerId c) = ar_ownerId r" "rx_idx c = 0"
  shows "loadProfilePhoto env (Some r) db' = None"
proof -
  define ty where "ty = (if ar_ownerType r = ''group'' then ''group'' else ''profile'')"
  note first = first [folded ty_def]
  obtain vk where vk: "vd_key db = Some vk" using shown by (auto simp: loadProfilePhoto_def split: option.splits)
  have count: "of_nat (length (owner_rows ty (ar_ownerId r) db)) = ar_total r"
    using shown vk by (auto simp: loadProfilePhoto_def Let_def ty_def split: if_splits)
  obtain row where row: "md_id row = chunk_id (ar_ownerId r) 0" "\<not> owned_by ty (ar_ownerId r) row" "db' = put_media [row] db"
  proof -
    obtain mime n where "db' = put_media [chunk_row env' vk ''message'' (ar_ownerId r) mime n 0 (rx_bytes c)] db"
      using run vk by (auto simp: saveReceivedMessageMediaChunk_def with_key_def requireVaultKey_def Let_def
        simp del: put_one split: option.splits sum.splits if_splits)
    moreover have "\<not> owned_by ty (ar_ownerId r) (chunk_row env' vk ''message'' (ar_ownerId r) mime n 0 (rx_bytes c))"
      for mime n by (simp add: owned_by_def chunk_row_def ty_def)
    ultimately show thesis using that chunk_row_simps(1) by blast
  qed
  have t: "tbl_ok md_id (vd_media db)" "\<forall>w \<in> set (vd_media db). md_id w = chunk_id (md_ownerId w) (md_idx w)"
    using ok by (simp_all add: media_ok_def)
  have d: "distinct (owner_rows ty (ar_ownerId r) e)" if "tbl_ok md_id (vd_media e)" for e
    using tbl_ok_distinct [OF tbl_ok_filter [OF that]] by (simp add: owner_rows_def distinct_map)
  have t': "tbl_ok md_id (vd_media db')" using t(1) row(3) by (simp add: tbl_ok_put)
  have "set (owner_rows ty (ar_ownerId r) db') \<subset> set (owner_rows ty (ar_ownerId r) db)"
  proof -
    have sub: "set (owner_rows ty (ar_ownerId r) db') = {w \<in> set (owner_rows ty (ar_ownerId r) db). md_id w \<noteq> chunk_id (ar_ownerId r) 0}"
      using row by (auto simp: owner_rows_def set_tbl_put_exact [OF t(1)])
    obtain x where "x \<in> set (owner_rows ty (ar_ownerId r) db)" "md_idx x = 0" using first by blast
    moreover from this have "md_id x = chunk_id (ar_ownerId r) 0" using t(2) by (auto simp: owner_rows_def owned_by_def)
    ultimately show ?thesis unfolding sub by blast
  qed
  then have "length (owner_rows ty (ar_ownerId r) db') < length (owner_rows ty (ar_ownerId r) db)"
    using psubset_card_mono [OF finite_set] distinct_card [OF d [OF t(1)]] distinct_card [OF d [OF t']] by metis
  then have ne: "of_nat (length (owner_rows ty (ar_ownerId r) db')) \<noteq> ar_total r" using count by (metis less_irrefl of_nat_eq_iff)
  show ?thesis by (cases "vd_key db'") (simp_all add: loadProfilePhoto_def Let_def ty_def [symmetric] ne)
qed

subsection \<open>Deletion\<close>

lemma get_put_many:
  "tbl_ok key t \<Longrightarrow> k \<notin> key ` set vs \<Longrightarrow> tbl_get key k (fold (tbl_put key) vs t) = tbl_get key k t"
proof (induction vs arbitrary: t)
  case (Cons v vs)
  then show ?case using tbl_ok_put [of key t v] tbl_get_put [of key t k v] by simp
qed simp

lemma mem_put_many: "x \<in> set (fold (tbl_put key) vs t) \<Longrightarrow> x \<in> set vs \<or> x \<in> set t"
proof (induction vs arbitrary: t)
  case (Cons v vs)
  then show ?case using set_tbl_put [of key v t] by fastforce
qed simp

lemma mem_put_one: "tbl_ok key t \<Longrightarrow> key v \<in> key ` set (tbl_put key v t)"
  by (simp add: set_tbl_put_exact)

lemma put_many_has: "tbl_ok key t \<Longrightarrow> key ` set vs \<union> key ` set t \<subseteq> key ` set (fold (tbl_put key) vs t)"
proof (induction vs arbitrary: t)
  case (Cons v vs)
  have "key ` set (tbl_put key v t) = insert (key v) (key ` set t)" using Cons.prems by (auto simp: set_tbl_put_exact)
  then show ?case using Cons.IH [OF tbl_ok_put [OF Cons.prems, of v]] by simp
qed simp

lemma wiped_ids [simp]: "map mr_id (map (wiped_message env vk) rs) = map mr_id rs" "map md_id (map (wiped_chunk env vk noise) ms) = map md_id ms"
  by (simp_all add: comp_def wiped_message_def wiped_chunk_def sealed_message_def)

lemma erase_messages:
  assumes "secureEraseMessages env records db = Inr db'" "tbl_ok mr_id (vd_messages db)"
  shows "tbl_get mr_id k (vd_messages db') = (if k \<in> mr_id ` set records then None else tbl_get mr_id k (vd_messages db))"
    "vd_media db' = vd_media db" "vd_tombstones db' = vd_tombstones db" "vd_key db' = vd_key db"
proof -
  have ids: "mr_id ` set (map (wiped_message env vk) records) = mr_id ` set records" for vk
    by (simp only: set_map [symmetric] wiped_ids)
  show "tbl_get mr_id k (vd_messages db') = (if k \<in> mr_id ` set records then None else tbl_get mr_id k (vd_messages db))"
  proof (cases "records = []")
    case True
    then show ?thesis using assms(1) by (simp add: secureEraseMessages_def)
  next
    case False
    then obtain vk where e: "vd_messages db' = tbl_bulk_delete mr_id (map mr_id records)
        (fold (tbl_put mr_id) (map (wiped_message env vk) records) (vd_messages db))"
      using assms(1) by (auto simp: secureEraseMessages_def with_key_def requireVaultKey_def split: option.splits)
    have "tbl_get mr_id k (fold (tbl_put mr_id) (map (wiped_message env vk) records) (vd_messages db)) = tbl_get mr_id k (vd_messages db)"
      if "k \<notin> mr_id ` set records" by (rule get_put_many [OF assms(2)]) (subst ids, rule that)
    then show ?thesis by (simp add: e tbl_get_bulk_delete)
  qed
  show "vd_media db' = vd_media db" "vd_tombstones db' = vd_tombstones db" "vd_key db' = vd_key db"
    using assms(1) by (auto simp: secureEraseMessages_def with_key_def requireVaultKey_def split: if_splits option.splits)
qed

lemma erase_chunks:
  assumes "secureEraseMediaChunks env noise records db = Inr db'" "set records \<subseteq> set (vd_media db)" "tbl_ok md_id (vd_media db)"
  shows "set (vd_media db') = set (vd_media db) - set records" "vd_messages db' = vd_messages db" "vd_tombstones db' = vd_tombstones db"
proof -
  have same: "x = y" if "x \<in> set (vd_media db)" "y \<in> set (vd_media db)" "md_id x = md_id y" for x y
    using tbl_ok_distinct [OF assms(3)] that by (auto simp: distinct_map inj_on_def)
  have ids: "md_id ` set (map (wiped_chunk env vk noise) records) = md_id ` set records" for vk
    by (simp only: set_map [symmetric] wiped_ids)
  show "vd_messages db' = vd_messages db" "vd_tombstones db' = vd_tombstones db"
    using assms(1) by (auto simp: secureEraseMediaChunks_def with_key_def requireVaultKey_def split: if_splits option.splits)
  show "set (vd_media db') = set (vd_media db) - set records"
  proof (cases "records = []")
    case True
    then show ?thesis using assms(1) by (simp add: secureEraseMediaChunks_def)
  next
    case False
    then obtain vk where e: "vd_media db' = tbl_bulk_delete md_id (map md_id records)
        (fold (tbl_put md_id) (map (wiped_chunk env vk noise) records) (vd_media db))"
      using assms(1) by (auto simp: secureEraseMediaChunks_def with_key_def requireVaultKey_def split: option.splits)
    let ?f = "fold (tbl_put md_id) (map (wiped_chunk env vk noise) records) (vd_media db)"
    have ok: "tbl_ok md_id ?f" using assms(3) by (induction records arbitrary: db) (simp_all add: tbl_ok_put fold_invariant)
    have get: "tbl_get md_id k ?f = tbl_get md_id k (vd_media db)" if "k \<notin> md_id ` set records" for k
      by (rule get_put_many [OF assms(3)]) (use ids that in simp)
    have "x \<in> set (vd_media db') \<longleftrightarrow> x \<in> set (vd_media db) - set records" for x
    proof -
      have "x \<in> set (vd_media db') \<longleftrightarrow> x \<in> set ?f \<and> md_id x \<notin> md_id ` set records" by (auto simp: e tbl_bulk_delete_def)
      also have "\<dots> \<longleftrightarrow> x \<in> set (vd_media db) \<and> md_id x \<notin> md_id ` set records"
        using get tbl_get_iff [OF ok, of "md_id x" x] tbl_get_iff [OF assms(3), of "md_id x" x] by auto
      also have "\<dots> \<longleftrightarrow> x \<in> set (vd_media db) - set records" using same assms(2) by auto
      finally show ?thesis .
    qed
    then show ?thesis by blast
  qed
qed

lemma bulk_got: "key ` set (List.map_filter (\<lambda>i. tbl_get key i t) ids) = {k \<in> set ids. tbl_get key k t \<noteq> None}"
proof (induction ids)
  case (Cons i ids)
  then show ?case by (cases "tbl_get key i t") (auto simp: List.map_filter_simps dest: tbl_get_Some)
qed (simp add: List.map_filter_simps)

lemma unlocked_erase:
  assumes "vd_key db = Some vk"
  shows "\<exists>db'. secureEraseMessages env rs db = Inr db' \<and> vd_key db' = Some vk"
    and "\<exists>db'. secureEraseMediaChunks env noise cs db = Inr db' \<and> vd_key db' = Some vk"
  using assms by (simp_all add: secureEraseMessages_def secureEraseMediaChunks_def with_key_def requireVaultKey_def)

lemma unlocked_delete:
  assumes "vd_key db = Some vk"
  shows "\<exists>db'. deleteMessagesById env noise ids db = Inr db'"
proof -
  let ?ids = "rev (remdups (rev ids))"
  obtain db1 where one: "secureEraseMessages env (List.map_filter (\<lambda>i. tbl_get mr_id i (vd_messages db)) ?ids) db = Inr db1" "vd_key db1 = Some vk"
    using unlocked_erase(1) [OF assms] by blast
  obtain db2 where "secureEraseMediaChunks env noise (filter (\<lambda>r. md_ownerType r = ''message'' \<and> md_ownerId r \<in> set ?ids) (vd_media db1)) db1 = Inr db2"
    using unlocked_erase(2) [OF one(2)] by blast
  then show ?thesis using one(1) assms by (simp add: deleteMessagesById_def with_key_def requireVaultKey_def Let_def)
qed

text \<open>
  C23. What the user deletes is gone, and nothing else: afterwards no message of the ids is in the
  table and no chunk of their media, each id has its tombstone, and every other message and every other
  chunk, photos too, is there as before.
\<close>

theorem deleted_messages_are_gone:
  assumes "deleteMessagesById env noise messageIds db = Inr db'" "messageIds \<noteq> []"
    and "tbl_ok mr_id (vd_messages db)" "tbl_ok md_id (vd_media db)" "tbl_ok ts_id (vd_tombstones db)"
  shows "(\<forall>k. tbl_get mr_id k (vd_messages db') = (if k \<in> set messageIds then None else tbl_get mr_id k (vd_messages db))) \<and>
    set (vd_media db') = {r \<in> set (vd_media db). \<not> (md_ownerType r = ''message'' \<and> md_ownerId r \<in> set messageIds)} \<and>
    set messageIds \<subseteq> ts_id ` set (vd_tombstones db')"
proof -
  let ?ids = "rev (remdups (rev messageIds))"
  obtain db1 db2 where one: "secureEraseMessages env (List.map_filter (\<lambda>i. tbl_get mr_id i (vd_messages db)) ?ids) db = Inr db1"
    and two: "secureEraseMediaChunks env noise (filter (\<lambda>r. md_ownerType r = ''message'' \<and> md_ownerId r \<in> set ?ids) (vd_media db1)) db1 = Inr db2"
    and done': "db' = db2\<lparr>vd_tombstones := fold (tbl_put ts_id) (map (\<lambda>i. \<lparr>ts_id = i, ts_type = ''message'', ts_deletedAt = ve_now env\<rparr>) ?ids) (vd_tombstones db2)\<rparr>"
    using assms(1,2) by (auto simp: deleteMessagesById_def with_key_def Let_def split: sum.splits)
  let ?rs = "List.map_filter (\<lambda>i. tbl_get mr_id i (vd_messages db)) ?ids"
  note e1 = erase_messages [OF one assms(3)]
  have ids: "mr_id ` set ?rs = {k \<in> set messageIds. tbl_get mr_id k (vd_messages db) \<noteq> None}"
    by (simp only: bulk_got set_rev set_remdups)
  have "tbl_get mr_id k (vd_messages db') = (if k \<in> set messageIds then None else tbl_get mr_id k (vd_messages db))" for k
  proof -
    have "tbl_ok md_id (vd_media db1)" using e1(2) assms(4) by simp
    from erase_chunks(2) [OF two _ this] have "vd_messages db' = vd_messages db1" using done' by auto
    then show ?thesis using e1(1) [of k] ids by auto
  qed
  moreover have "set (vd_media db') = {r \<in> set (vd_media db). \<not> (md_ownerType r = ''message'' \<and> md_ownerId r \<in> set messageIds)}"
  proof -
    have sub: "set (filter (\<lambda>r. md_ownerType r = ''message'' \<and> md_ownerId r \<in> set ?ids) (vd_media db1)) \<subseteq> set (vd_media db1)" by auto
    have ok: "tbl_ok md_id (vd_media db1)" using e1(2) assms(4) by simp
    have "set (vd_media db') = set (vd_media db2)" using done' by simp
    then show ?thesis unfolding erase_chunks(1) [OF two sub ok] e1(2) by auto
  qed
  moreover have "set messageIds \<subseteq> ts_id ` set (vd_tombstones db')"
  proof -
    have "tbl_ok md_id (vd_media db1)" using e1(2) assms(4) by simp
    from erase_chunks(3) [OF two _ this] have "vd_tombstones db2 = vd_tombstones db" using e1(3) by auto
    then show ?thesis
      using put_many_has [OF assms(5), of "map (\<lambda>i. \<lparr>ts_id = i, ts_type = ''message'', ts_deletedAt = ve_now env\<rparr>) ?ids"] done'
      by (simp add: image_image)
  qed
  ultimately show ?thesis by blast
qed

subsection \<open>Concrete inputs\<close>

text \<open>A note of twenty bytes in chunks of sixteen.\<close>

definition note_file :: media_file where
  "note_file = \<lparr>fl_name = ''note.txt'', fl_type = ''text/plain'', fl_bytes = replicate 20 65\<rparr>"

definition note_ref :: media_ref where
  "note_ref = \<lparr>mf_ownerId = ''m1'', mf_mime = ''text/plain'', mf_total = 2, mf_chunkSize = 16, mf_name = ''note.txt'', mf_size = 20\<rparr>"

lemma note_inspected: "inspectOutgoingMediaFile note_file = Inr \<lparr>pm_mime = ''text/plain'', pm_name = ''note.txt''\<rparr>"
  by code_simp

lemma note_created: "createMessageMediaRef ''m1'' note_file 16 (Some \<lparr>pm_mime = ''text/plain'', pm_name = ''note.txt''\<rparr>) = Inr note_ref"
  by (simp add: createMessageMediaRef_def fl_size_def note_file_def note_ref_def MAX_MEDIA_CHUNK_SIZE_def MAX_MEDIA_BYTES_def)

lemma note_within: "ref_within note_ref"
  by code_simp

definition empty_vault :: "bytes \<Rightarrow> vault_db" where
  "empty_vault vk = fresh_db\<lparr>vd_key := Some vk\<rparr>"

lemma hand_over_all [simp]: "hand_over (\<lambda>_. True) cs = (True, cs)"
  by (induction cs) simp_all

lemma store_batches_all: "\<exists>sent db'. store_batches env vk r (Some (\<lambda>_. True)) bs db = (True, sent, db')"
proof (induction bs arbitrary: db)
  case (Cons b bs)
  obtain sent db' where "store_batches env vk r (Some (\<lambda>_. True)) bs (put_media (map (message_chunk_row env vk r) b) db) = (True, sent, db')"
    using Cons.IH by blast
  then show ?case by (simp add: Let_def call_back_def)
qed simp

lemma note_saved: "\<exists>sent db'. saveMessageMedia demo_env ''m1'' note_file 16 (Some (\<lambda>_. True)) None (empty_vault [1]) = (Inr note_ref, sent, db')"
proof -
  obtain sent db' where "store_batches demo_env [1] note_ref (Some (\<lambda>_. True))
      (chunks_of (MEDIA_WRITE_BATCH_SIZE - 1) (media_chunks_of note_file note_ref)) (drop_owner ''message'' ''m1'' (empty_vault [1])) = (True, sent, db')"
    using store_batches_all by blast
  then show ?thesis using note_inspected note_created
    by (simp add: saveMessageMedia_def requireVaultKey_def empty_vault_def fl_size_def note_file_def MAX_MEDIA_CHUNK_SIZE_def MAX_MEDIA_BYTES_def)
qed

lemma note_ref_reads: "reads_as (media_ref_json note_ref) note_ref"
  by (simp add: reads_as_def wf_media_ref)

text \<open>The receiver has the message that announces the note.\<close>

definition note_message :: json where
  "note_message = JObj [(''id'', JStr ''m1''), (''media'', media_ref_json note_ref)]"

definition note_receiver :: vault_db where
  "note_receiver = (empty_vault [2])\<lparr>vd_messages := [sealed_message demo_env [2] ''m1'' ''c'' 3 note_message]\<rparr>"

lemma note_announced: "announced keyed_platform [2] note_ref note_receiver"
proof -
  have wf: "wf_json note_message" using wf_media_ref [of note_ref] by (simp add: note_message_def settable_def)
  obtain w where w: "decryptJsonRecord keyed_platform [2] ''m1'' ''message'' (encryptJsonRecord keyed_platform [2] ''m1'' ''message'' demo_nonce note_message) = Inr w"
    "wf_json w" "meaning w = meaning note_message"
    using json_content_sealed [OF keyed_platform_ok demo_nonce_length wf, of "[2]" "''message''" "''m1''"]
    by (auto simp: json_content_def split: sum.splits if_splits)
  have "meaning (field w ''media'') = meaning (media_ref_json note_ref)"
    using field_meaning [OF w(2) wf w(3), of "''media''"] by (simp add: note_message_def)
  then have "reads_as (field w ''media'') note_ref" using wf_field [OF w(2)] by (simp add: reads_as_def)
  then show ?thesis using w(1)
    by (simp add: announced_def note_receiver_def note_ref_def sealed_message_def open_message_def in_vault_def)
qed

lemma media_ok_empty [simp]: "media_ok (empty_vault vk)" "media_ok note_receiver" "owner_rows ty i note_receiver = []"
  by (simp_all add: media_ok_def empty_vault_def note_receiver_def fresh_db_def owner_rows_def)

theorem media_arrives_whole_witness:
  "\<exists>sent db' sts rdb'. saveMessageMedia demo_env ''m1'' note_file 16 (Some (\<lambda>_. True)) None (empty_vault [1]) = (Inr note_ref, sent, db') \<and>
    receive_all (map (\<lambda>c. (demo_env, received_of note_ref c)) (rev sent)) note_receiver = Inr (sts, rdb') \<and> rs_complete (last sts) \<and>
    loadMessageMedia demo_env (media_ref_json note_ref) rdb' = Some (replicate 20 65, ''text/plain'')"
proof -
  obtain sent db' where s: "saveMessageMedia demo_env ''m1'' note_file 16 (Some (\<lambda>_. True)) None (empty_vault [1]) = (Inr note_ref, sent, db')"
    using note_saved by blast
  let ?xs = "map (\<lambda>c. (demo_env, received_of note_ref c)) (rev sent)"
  have codec: "vault_codec (ve_pf demo_env)" "vault_cipher (ve_pf demo_env)" "nonces_ok demo_env" by (simp_all add: keyed_platform_ok)
  have key: "vd_key note_receiver = Some [2]" by (simp add: note_receiver_def empty_vault_def)
  have "\<exists>sts rdb'. receive_all ?xs note_receiver = Inr (sts, rdb') \<and> length sts = length ?xs \<and>
    (?xs \<noteq> [] \<longrightarrow> (rs_complete (last sts) \<longleftrightarrow> received_of note_ref ` set sent \<subseteq> snd ` set ?xs)) \<and>
    (received_of note_ref ` set sent \<subseteq> snd ` set ?xs \<longrightarrow>
      loadMessageMedia demo_env (media_ref_json note_ref) rdb' = Some (fl_bytes note_file, mf_mime note_ref))"
    by (rule media_arrives_whole [OF codec media_ok_empty(1) s _ note_within _ note_ref_reads keyed_platform_ok key media_ok_empty(2,3) note_announced])
      auto
  moreover have "?xs \<noteq> []"
  proof -
    have "length sent = 2"
      using saved_media_held(5) [OF codec media_ok_empty(1) s] by (simp add: media_chunks_of_def note_ref_def)
    then show ?thesis by auto
  qed
  moreover have "received_of note_ref ` set sent \<subseteq> snd ` set ?xs" by force
  ultimately show ?thesis using s by (auto simp: note_file_def note_ref_def)
qed

theorem stored_media_is_the_file_witness:
  "\<exists>sent db'. saveMessageMedia demo_env ''m1'' note_file 16 (Some (\<lambda>_. True)) None (empty_vault [1]) = (Inr note_ref, sent, db') \<and>
    loadMessageMedia demo_env (media_ref_json note_ref) db' = Some (fl_bytes note_file, ''text/plain'') \<and> concat (map mc_bytes sent) = fl_bytes note_file"
proof -
  obtain sent db' where s: "saveMessageMedia demo_env ''m1'' note_file 16 (Some (\<lambda>_. True)) None (empty_vault [1]) = (Inr note_ref, sent, db')"
    using note_saved by blast
  have codec: "vault_codec (ve_pf demo_env)" "vault_cipher (ve_pf demo_env)" "nonces_ok demo_env" by (simp_all add: keyed_platform_ok)
  have "loadMessageMedia demo_env (media_ref_json note_ref) db' = Some (fl_bytes note_file, mf_mime note_ref) \<and>
      (Some (\<lambda>_ :: media_chunk. True) \<noteq> None \<longrightarrow> concat (map mc_bytes sent) = fl_bytes note_file)"
    by (rule stored_media_is_the_file [OF codec media_ok_empty(1) s note_ref_reads note_within]) simp_all
  then show ?thesis using s by (simp add: note_ref_def)
qed

text \<open>A profile with a photo of one chunk, and a message that has its id.\<close>

definition photo_row :: media_row where
  "photo_row = chunk_row demo_env [2] ''profile'' ''m1'' ''image/png'' 1 0 [7]"

definition photo_vault :: vault_db where
  "photo_vault = note_receiver\<lparr>vd_media := [photo_row]\<rparr>"

definition photo_ref :: avatar_ref where
  "photo_ref = \<lparr>ar_ownerType = ''profile'', ar_ownerId = ''m1'', ar_mime = ''image/png'', ar_total = 1, ar_chunkSize = 196608\<rparr>"

lemma photo_shown: "loadProfilePhoto demo_env (Some photo_ref) photo_vault = Some ([7], ''image/png'')"
proof -
  have o: "open_chunk keyed_platform [2] photo_row = Inr [7]"
    using chunk_row_opens [of demo_env "[2]"] by (simp add: photo_row_def keyed_platform_ok)
  have rows: "owner_rows ''profile'' ''m1'' photo_vault = [photo_row]"
    by (simp add: owner_rows_def photo_vault_def photo_row_def owned_by_def chunk_row_def)
  have "chunks_of (decrypt_batch_size (Suc 0) - 1) [photo_row] = [[photo_row]]"
    by (simp add: chunks_of.simps [of _ "[photo_row]"] chunks_of.simps [of _ "[]"])
  then show ?thesis using o rows
    by (simp add: loadProfilePhoto_def photo_ref_def Let_def photo_vault_def note_receiver_def empty_vault_def MAX_MEDIA_BYTES_def
      decryptMediaChunks_def)
qed

theorem received_chunk_destroys_photo_witness:
  "\<exists>st db'. saveReceivedMessageMediaChunk demo_env (received_of note_ref \<lparr>mc_idx = 0, mc_total = 2, mc_bytes = file_slice note_file note_ref 0\<rparr>)
      photo_vault = Inr (st, db') \<and> loadProfilePhoto demo_env (Some photo_ref) db' = None"
proof -
  let ?c = "\<lparr>mc_idx = 0, mc_total = 2, mc_bytes = file_slice note_file note_ref 0\<rparr>"
  obtain sent db' where s: "saveMessageMedia demo_env ''m1'' note_file 16 (Some (\<lambda>_. True)) None (empty_vault [1]) = (Inr note_ref, sent, db')"
    using note_saved by blast
  have codec: "vault_codec (ve_pf demo_env)" "vault_cipher (ve_pf demo_env)" "nonces_ok demo_env" by (simp_all add: keyed_platform_ok)
  have ref: "ref_of_file note_ref note_file" by (rule saved_media_held(2) [OF codec media_ok_empty(1) s])
  have ok: "media_ok photo_vault" by (simp add: media_ok_def photo_vault_def photo_row_def chunk_row_def tbl_ok_def)
  have ann: "announced (ve_pf demo_env) [2] note_ref photo_vault" "vd_key photo_vault = Some [2]"
    using note_announced by (simp_all add: announced_def photo_vault_def note_receiver_def empty_vault_def)
  have none: "owner_rows ''message'' ''m1'' photo_vault = []" by (simp add: owner_rows_def photo_vault_def photo_row_def owned_by_def chunk_row_def)
  have "holds_chunks (ve_pf demo_env) [2] ''message'' (mf_ownerId note_ref) (mf_mime note_ref) (mf_total note_ref) (file_slice note_file note_ref) {} photo_vault"
    using ok none by (simp add: holds_chunks_def note_ref_def)
  moreover have "?c \<in> set (media_chunks_of note_file note_ref)" by (simp add: media_chunks_of_def note_ref_def)
  ultimately obtain st db'' where run: "saveReceivedMessageMediaChunk demo_env (received_of note_ref ?c) photo_vault = Inr (st, db'')"
    using honest_chunk_saved [OF codec ref note_within _ ann(2,1), of "{}" ?c] by (auto simp: note_ref_def)
  have "loadProfilePhoto demo_env (Some photo_ref) db'' = None"
  proof (rule received_chunk_destroys_photo [OF ok photo_shown _ run])
    show "\<exists>x \<in> set (owner_rows (if ar_ownerType photo_ref = ''group'' then ''group'' else ''profile'') (ar_ownerId photo_ref) photo_vault). md_idx x = 0"
      by (simp add: owner_rows_def photo_vault_def photo_row_def owned_by_def chunk_row_def photo_ref_def)
  qed (simp_all add: received_of_def note_ref_def photo_ref_def trim_def js_space_def Let_def)
  then show ?thesis using run by blast
qed

theorem deleted_messages_are_gone_witness:
  "\<exists>db'. deleteMessagesById demo_env [0] [''m1''] note_receiver = Inr db' \<and> tbl_get mr_id ''m1'' (vd_messages db') = None \<and>
    ''m1'' \<in> ts_id ` set (vd_tombstones db')"
proof -
  have key: "vd_key note_receiver = Some [2]" by (simp add: note_receiver_def empty_vault_def)
  obtain db' where run: "deleteMessagesById demo_env [0] [''m1''] note_receiver = Inr db'"
    using unlocked_delete [OF key] by blast
  have "(\<forall>k. tbl_get mr_id k (vd_messages db') = (if k \<in> set [''m1''] then None else tbl_get mr_id k (vd_messages note_receiver))) \<and>
    set (vd_media db') = {r \<in> set (vd_media note_receiver). \<not> (md_ownerType r = ''message'' \<and> md_ownerId r \<in> set [''m1''])} \<and>
    set [''m1''] \<subseteq> ts_id ` set (vd_tombstones db')"
    by (rule deleted_messages_are_gone [OF run]) (simp_all add: note_receiver_def empty_vault_def fresh_db_def tbl_ok_Cons)
  then show ?thesis using run by simp
qed

end
