(* ===== verification/Identity_Keys.thy ===== *)
theory Identity_Keys
  imports Json_Parser "HOL-Library.AList"
begin

text \<open>
  The keys and the role of this device: the identity and the Diffie-Hellman pair
  (src/src/security/identityKeys.ts), the keys shared with a friend in advance (src/src/security/pskStore.ts), the
  device id, role and role epoch (src/src/security/deviceRole.ts), over the store of secrets and the local storage
  (src/src/security/publicStore.ts). The window is there, as in the application; a store that cannot be
  asked throws, and the local storage that throws is read as empty and keeps what it has. Creating a pair is the
  library's; the pair is an argument. Numbers of the role epoch are integers.
\<close>

subsection \<open>The stores\<close>

text \<open>Which of the stores answer, for reading and for writing.\<close>

record store_env =
  sv_secret_get :: bool
  sv_secret_set :: bool
  sv_local_get :: bool
  sv_local_set :: bool

record key_store =
  ks_secret :: "(string \<times> string) list"
  ks_memory :: "(string \<times> string) list"
  ks_psk_memory :: "(string \<times> string) list"
  ks_local :: "(string \<times> string) list"

definition public_get :: "store_env \<Rightarrow> string \<Rightarrow> key_store \<Rightarrow> string option" where
  "public_get env k s = (if sv_local_get env then map_of (ks_local s) k else None)"

definition public_set :: "store_env \<Rightarrow> string \<Rightarrow> string \<Rightarrow> key_store \<Rightarrow> key_store" where
  "public_set env k v s = (if sv_local_set env then s\<lparr>ks_local := AList.update k v (ks_local s)\<rparr> else s)"

definition public_remove :: "store_env \<Rightarrow> string \<Rightarrow> key_store \<Rightarrow> key_store" where
  "public_remove env k s = (if sv_local_set env then s\<lparr>ks_local := AList.delete k (ks_local s)\<rparr> else s)"

definition getSecret :: "store_env \<Rightarrow> string \<Rightarrow> key_store \<Rightarrow> string option" where
  "getSecret env k s = (if sv_secret_get env then map_of (ks_secret s) k else map_of (ks_memory s) k)"

definition setSecret :: "store_env \<Rightarrow> string \<Rightarrow> string \<Rightarrow> key_store \<Rightarrow> key_store" where
  "setSecret env k v s = (if sv_secret_set env then s\<lparr>ks_secret := AList.update k v (ks_secret s)\<rparr>
     else s\<lparr>ks_memory := AList.update k v (ks_memory s)\<rparr>)"

subsection \<open>Key pairs\<close>

record key_pair =
  kp_public :: bytes
  kp_private :: bytes

datatype key_name = IdentityKey | DhKey

definition IDENTITY_PRIV_KEY :: string where "IDENTITY_PRIV_KEY = ''nkc_identity_priv_v1''"
definition IDENTITY_PUB_KEY :: string where "IDENTITY_PUB_KEY = ''nkc_identity_pub_v1''"
definition DH_PRIV_KEY :: string where "DH_PRIV_KEY = ''nkc_dh_priv_v1''"
definition DH_PUB_KEY :: string where "DH_PUB_KEY = ''nkc_dh_pub_v1''"

text \<open>A stored text that is not base64url throws, which is None.\<close>

definition stored_pair :: "string \<Rightarrow> string \<Rightarrow> key_pair option" where
  "stored_pair privRaw pubRaw = (case (decodeBase64Url privRaw, decodeBase64Url pubRaw) of
     (Some privateKey, Some publicKey) \<Rightarrow> Some \<lparr>kp_public = publicKey, kp_private = privateKey\<rparr> | _ \<Rightarrow> None)"

definition ensureKeypair :: "store_env \<Rightarrow> string \<Rightarrow> string \<Rightarrow> key_pair \<Rightarrow> key_store \<Rightarrow> key_pair option \<times> key_store" where
  "ensureKeypair env privKeyName pubKeyName fresh s =
     (let privRaw = getSecret env privKeyName s; pubRaw = public_get env pubKeyName s in
      if truthy_string privRaw \<and> truthy_string pubRaw then (stored_pair (the privRaw) (the pubRaw), s)
      else (Some fresh, public_set env pubKeyName (encodeBase64Url (kp_public fresh))
              (setSecret env privKeyName (encodeBase64Url (kp_private fresh)) s)))"

definition getOrCreateIdentityKeypair :: "store_env \<Rightarrow> key_pair \<Rightarrow> key_store \<Rightarrow> key_pair option \<times> key_store" where
  "getOrCreateIdentityKeypair env fresh s = ensureKeypair env IDENTITY_PRIV_KEY IDENTITY_PUB_KEY fresh s"

definition getOrCreateDhKeypair :: "store_env \<Rightarrow> key_pair \<Rightarrow> key_store \<Rightarrow> key_pair option \<times> key_store" where
  "getOrCreateDhKeypair env fresh s = ensureKeypair env DH_PRIV_KEY DH_PUB_KEY fresh s"

definition getIdentityPublicKey :: "store_env \<Rightarrow> key_pair \<Rightarrow> key_store \<Rightarrow> bytes option \<times> key_store" where
  "getIdentityPublicKey env fresh s = (let raw = public_get env IDENTITY_PUB_KEY s in
     if truthy_string raw then (decodeBase64Url (the raw), s)
     else map_prod (map_option kp_public) id (getOrCreateIdentityKeypair env fresh s))"

definition getDhPublicKey :: "store_env \<Rightarrow> key_pair \<Rightarrow> key_store \<Rightarrow> bytes option \<times> key_store" where
  "getDhPublicKey env fresh s = (let raw = public_get env DH_PUB_KEY s in
     if truthy_string raw then (decodeBase64Url (the raw), s)
     else map_prod (map_option kp_public) id (getOrCreateDhKeypair env fresh s))"

definition getIdentityPrivateKey :: "store_env \<Rightarrow> key_pair \<Rightarrow> key_store \<Rightarrow> bytes option \<times> key_store" where
  "getIdentityPrivateKey env fresh s = map_prod (map_option kp_private) id (getOrCreateIdentityKeypair env fresh s)"

definition getDhPrivateKey :: "store_env \<Rightarrow> key_pair \<Rightarrow> key_store \<Rightarrow> bytes option \<times> key_store" where
  "getDhPrivateKey env fresh s = map_prod (map_option kp_private) id (getOrCreateDhKeypair env fresh s)"

subsection \<open>Keys shared in advance\<close>

definition PSK_PREFIX :: string where "PSK_PREFIX = ''nkc_friend_psk_v1:''"

definition psk_getSecret :: "store_env \<Rightarrow> string \<Rightarrow> key_store \<Rightarrow> string option" where
  "psk_getSecret env k s = (if sv_secret_get env then map_of (ks_secret s) k else map_of (ks_psk_memory s) k)"

definition psk_setSecret :: "store_env \<Rightarrow> string \<Rightarrow> string \<Rightarrow> key_store \<Rightarrow> key_store" where
  "psk_setSecret env k v s = (if sv_secret_set env then s\<lparr>ks_secret := AList.update k v (ks_secret s)\<rparr>
     else s\<lparr>ks_psk_memory := AList.update k v (ks_psk_memory s)\<rparr>)"

definition psk_removeSecret :: "store_env \<Rightarrow> string \<Rightarrow> key_store \<Rightarrow> key_store" where
  "psk_removeSecret env k s = (if sv_secret_set env then s\<lparr>ks_secret := AList.delete k (ks_secret s)\<rparr>
     else s\<lparr>ks_psk_memory := AList.delete k (ks_psk_memory s)\<rparr>)"

definition setFriendPsk :: "store_env \<Rightarrow> string \<Rightarrow> bytes \<Rightarrow> key_store \<Rightarrow> key_store" where
  "setFriendPsk env friendId psk s = psk_setSecret env (PSK_PREFIX @ friendId) (encodeBase64Url psk) s"

definition getFriendPsk :: "store_env \<Rightarrow> string \<Rightarrow> key_store \<Rightarrow> bytes option" where
  "getFriendPsk env friendId s = (let raw = psk_getSecret env (PSK_PREFIX @ friendId) s in
     if truthy_string raw then decodeBase64Url (the raw) else None)"

definition clearFriendPsk :: "store_env \<Rightarrow> string \<Rightarrow> key_store \<Rightarrow> key_store" where
  "clearFriendPsk env friendId s = psk_removeSecret env (PSK_PREFIX @ friendId) s"

subsection \<open>Device id and role\<close>

datatype device_role = Primary | Secondary

definition DEVICE_ID_KEY :: string where "DEVICE_ID_KEY = ''nkc_device_id_v1''"
definition DEVICE_ROLE_KEY :: string where "DEVICE_ROLE_KEY = ''nkc_device_role_v1''"
definition ROLE_EPOCH_KEY :: string where "ROLE_EPOCH_KEY = ''nkc_role_epoch_v1''"
definition PRIMARY_DEVICE_ID_KEY :: string where "PRIMARY_DEVICE_ID_KEY = ''nkc_primary_device_id_v1''"

text \<open>Number.parseInt with radix 10: spaces, a sign, and the digits as far as they go.\<close>

definition parse_int :: "string \<Rightarrow> int option" where
  "parse_int s = (let t = dropWhile js_space s;
      neg = (t \<noteq> [] \<and> hd t = CHR ''-''); u = (if t \<noteq> [] \<and> (hd t = CHR ''-'' \<or> hd t = CHR ''+'') then tl t else t);
      ds = takeWhile is_digit u
    in if ds = [] then None else Some (if neg then - int (index_value ds) else int (index_value ds)))"

definition int_text :: "int \<Rightarrow> string" where
  "int_text i = (if i < 0 then CHR ''-'' # nat_text (nat (- i)) else nat_text (nat i))"

definition getOrCreateDeviceId :: "store_env \<Rightarrow> string \<Rightarrow> key_store \<Rightarrow> string \<times> key_store" where
  "getOrCreateDeviceId env uuid s = (let existing = public_get env DEVICE_ID_KEY s in
     if truthy_string existing then (the existing, s) else (uuid, public_set env DEVICE_ID_KEY uuid s))"

definition role_text :: "device_role \<Rightarrow> string" where
  "role_text r = (case r of Primary \<Rightarrow> ''primary'' | Secondary \<Rightarrow> ''secondary'')"

definition setDeviceRole :: "store_env \<Rightarrow> device_role \<Rightarrow> key_store \<Rightarrow> key_store" where
  "setDeviceRole env r s = public_set env DEVICE_ROLE_KEY (role_text r) s"

definition getDeviceRole :: "store_env \<Rightarrow> key_store \<Rightarrow> device_role \<times> key_store" where
  "getDeviceRole env s = (let existing = public_get env DEVICE_ROLE_KEY s in
     if existing = Some ''primary'' then (Primary, s) else if existing = Some ''secondary'' then (Secondary, s)
     else (Primary, setDeviceRole env Primary s))"

definition isPrimary :: "store_env \<Rightarrow> key_store \<Rightarrow> bool \<times> key_store" where
  "isPrimary env s = (let (r, s') = getDeviceRole env s in (r = Primary, s'))"

definition assertPrimaryOrThrow :: "store_env \<Rightarrow> string \<Rightarrow> key_store \<Rightarrow> string option \<times> key_store" where
  "assertPrimaryOrThrow env actionName s = (let (ok, s') = isPrimary env s in
     (if ok then None else Some (''Primary device required for '' @ actionName), s'))"

definition getRoleEpoch :: "store_env \<Rightarrow> key_store \<Rightarrow> int" where
  "getRoleEpoch env s = (let raw = public_get env ROLE_EPOCH_KEY s in
     if \<not> truthy_string raw then 0 else nullish (parse_int (the raw)) 0)"

definition bumpRoleEpoch :: "store_env \<Rightarrow> key_store \<Rightarrow> int \<times> key_store" where
  "bumpRoleEpoch env s = (let n = getRoleEpoch env s + 1 in (n, public_set env ROLE_EPOCH_KEY (int_text n) s))"

record role_change =
  rc_deviceId :: string
  rc_role :: device_role
  rc_epoch :: int

definition promoteToPrimary :: "store_env \<Rightarrow> string \<Rightarrow> key_store \<Rightarrow> role_change \<times> key_store" where
  "promoteToPrimary env uuid s = (let (deviceId, s1) = getOrCreateDeviceId env uuid s;
      s2 = setDeviceRole env Primary s1; (epoch, s3) = bumpRoleEpoch env s2
    in (\<lparr>rc_deviceId = deviceId, rc_role = Primary, rc_epoch = epoch\<rparr>, public_set env PRIMARY_DEVICE_ID_KEY deviceId s3))"

definition demoteToSecondary :: "store_env \<Rightarrow> string \<Rightarrow> key_store \<Rightarrow> role_change \<times> key_store" where
  "demoteToSecondary env uuid s = (let (deviceId, s1) = getOrCreateDeviceId env uuid s; s2 = setDeviceRole env Secondary s1
    in (\<lparr>rc_deviceId = deviceId, rc_role = Secondary, rc_epoch = getRoleEpoch env s2\<rparr>, s2))"

subsection \<open>What is stored stays\<close>

lemmas key_names = IDENTITY_PRIV_KEY_def IDENTITY_PUB_KEY_def DH_PRIV_KEY_def DH_PUB_KEY_def PSK_PREFIX_def
  DEVICE_ID_KEY_def DEVICE_ROLE_KEY_def ROLE_EPOCH_KEY_def PRIMARY_DEVICE_ID_KEY_def

lemma names_distinct [simp]:
  "DEVICE_ID_KEY \<noteq> ROLE_EPOCH_KEY" "DEVICE_ROLE_KEY \<noteq> ROLE_EPOCH_KEY" "PRIMARY_DEVICE_ID_KEY \<noteq> ROLE_EPOCH_KEY"
  "IDENTITY_PUB_KEY \<noteq> ROLE_EPOCH_KEY" "DH_PUB_KEY \<noteq> ROLE_EPOCH_KEY" "ROLE_EPOCH_KEY \<noteq> DEVICE_ID_KEY"
  "ROLE_EPOCH_KEY \<noteq> DEVICE_ROLE_KEY" "PRIMARY_DEVICE_ID_KEY \<noteq> DEVICE_ROLE_KEY" "PRIMARY_DEVICE_ID_KEY \<noteq> DEVICE_ID_KEY"
  "DEVICE_ROLE_KEY \<noteq> DEVICE_ID_KEY" "DEVICE_ID_KEY \<noteq> DEVICE_ROLE_KEY" "DEVICE_ID_KEY \<noteq> PRIMARY_DEVICE_ID_KEY"
  "DEVICE_ROLE_KEY \<noteq> PRIMARY_DEVICE_ID_KEY" "ROLE_EPOCH_KEY \<noteq> PRIMARY_DEVICE_ID_KEY"
  by (simp_all add: key_names)

text \<open>The operations of the modules, each with the stores as it finds them and what it would create.\<close>

datatype key_op =
    EnsureIdentity key_pair | EnsureDh key_pair | IdentityPublic key_pair | DhPublic key_pair
  | SetPsk string bytes | ClearPsk string | DeviceId string | Role | Promote string | Demote string

fun run_key_op :: "store_env \<Rightarrow> key_op \<Rightarrow> key_store \<Rightarrow> key_store" where
  "run_key_op env (EnsureIdentity p) s = snd (getOrCreateIdentityKeypair env p s)"
| "run_key_op env (EnsureDh p) s = snd (getOrCreateDhKeypair env p s)"
| "run_key_op env (IdentityPublic p) s = snd (getIdentityPublicKey env p s)"
| "run_key_op env (DhPublic p) s = snd (getDhPublicKey env p s)"
| "run_key_op env (SetPsk i k) s = setFriendPsk env i k s"
| "run_key_op env (ClearPsk i) s = clearFriendPsk env i s"
| "run_key_op env (DeviceId u) s = snd (getOrCreateDeviceId env u s)"
| "run_key_op env Role s = snd (getDeviceRole env s)"
| "run_key_op env (Promote u) s = snd (promoteToPrimary env u s)"
| "run_key_op env (Demote u) s = snd (demoteToSecondary env u s)"

definition run_key_ops :: "store_env \<Rightarrow> key_op list \<Rightarrow> key_store \<Rightarrow> key_store" where
  "run_key_ops env ops s = fold (run_key_op env) ops s"

text \<open>A pair is there, as two texts that are read as it.\<close>

definition holds_pair :: "string \<Rightarrow> string \<Rightarrow> key_pair \<Rightarrow> key_store \<Rightarrow> bool" where
  "holds_pair privName pubName p s \<longleftrightarrow> (\<exists>a b. a \<noteq> [] \<and> b \<noteq> [] \<and> map_of (ks_secret s) privName = Some a \<and>
     map_of (ks_local s) pubName = Some b \<and> stored_pair a b = Some p)"

definition stores_answer :: "store_env \<Rightarrow> bool" where
  "stores_answer env \<longleftrightarrow> sv_secret_get env \<and> sv_secret_set env \<and> sv_local_get env \<and> sv_local_set env"

definition real_pair :: "key_pair \<Rightarrow> bool" where
  "real_pair p \<longleftrightarrow> kp_public p \<noteq> [] \<and> kp_private p \<noteq> []"

lemma stored_pair_encoded: "stored_pair (encodeBase64Url (kp_private p)) (encodeBase64Url (kp_public p)) = Some p"
  by (simp add: stored_pair_def decode_encode)

lemma stored_pair_Some:
  "stored_pair a b = Some p \<longleftrightarrow> decodeBase64Url a = Some (kp_private p) \<and> decodeBase64Url b = Some (kp_public p)"
  by (cases p) (auto simp: stored_pair_def split: option.splits)

lemma truthy_string_iff: "truthy_string x \<longleftrightarrow> (\<exists>t. x = Some t \<and> t \<noteq> [])"
  by (cases x) (auto simp: truthy_string_def)

lemma ensure_holds:
  assumes "stores_answer env" "ensureKeypair env a b q s = (Some p, s')" "real_pair q"
  shows "holds_pair a b p s'"
proof (cases "truthy_string (getSecret env a s) \<and> truthy_string (public_get env b s)")
  case True
  then show ?thesis using assms by (auto simp: ensureKeypair_def holds_pair_def truthy_string_iff stores_answer_def getSecret_def public_get_def)
next
  case False
  then have "p = q" "s' = public_set env b (encodeBase64Url (kp_public q)) (setSecret env a (encodeBase64Url (kp_private q)) s)"
    using assms(2) by (auto simp: ensureKeypair_def Let_def)
  then show ?thesis using assms(1,3) encode_nonempty
    by (auto simp: holds_pair_def stores_answer_def public_set_def setSecret_def update_conv' stored_pair_encoded real_pair_def)
qed

lemma ensure_kept: "stores_answer env \<Longrightarrow> holds_pair a b p s \<Longrightarrow> ensureKeypair env a b q s = (Some p, s)"
  by (auto simp: ensureKeypair_def holds_pair_def stores_answer_def public_get_def getSecret_def truthy_string_iff)

lemma ensure_same:
  "stores_answer env \<Longrightarrow> holds_pair a b p s \<Longrightarrow> (a = a' \<longleftrightarrow> b = b') \<Longrightarrow> holds_pair a b p (snd (ensureKeypair env a' b' q s))"
proof (cases "a = a'")
  case True
  assume "stores_answer env" "holds_pair a b p s" "a = a' \<longleftrightarrow> b = b'"
  then show ?thesis using True by (simp add: ensure_kept)
next
  case False
  assume "stores_answer env" "holds_pair a b p s" "a = a' \<longleftrightarrow> b = b'"
  then show ?thesis using False by (auto simp: ensureKeypair_def holds_pair_def public_set_def setSecret_def update_conv' Let_def)
qed

lemma holds_other:
  assumes "holds_pair a b p s"
  shows "k \<noteq> b \<Longrightarrow> holds_pair a b p (public_set env k v s)"
    and "k \<noteq> a \<Longrightarrow> holds_pair a b p (psk_setSecret env k v s)"
    and "k \<noteq> a \<Longrightarrow> holds_pair a b p (psk_removeSecret env k s)"
  using assms by (auto simp: holds_pair_def public_set_def psk_setSecret_def psk_removeSecret_def update_conv' delete_conv')

definition pair_names :: "string \<Rightarrow> string \<Rightarrow> bool" where
  "pair_names a b \<longleftrightarrow> (a, b) = (IDENTITY_PRIV_KEY, IDENTITY_PUB_KEY) \<or> (a, b) = (DH_PRIV_KEY, DH_PUB_KEY)"

lemma pair_names_apart:
  assumes "pair_names a b"
  shows "a \<noteq> PSK_PREFIX @ i" "PSK_PREFIX @ i \<noteq> a" "DEVICE_ID_KEY \<noteq> b" "DEVICE_ROLE_KEY \<noteq> b" "ROLE_EPOCH_KEY \<noteq> b" "PRIMARY_DEVICE_ID_KEY \<noteq> b"
    "a = IDENTITY_PRIV_KEY \<longleftrightarrow> b = IDENTITY_PUB_KEY" "a = DH_PRIV_KEY \<longleftrightarrow> b = DH_PUB_KEY"
  using assms by (auto simp: key_names pair_names_def)

lemma holds_device:
  assumes "pair_names a b" "holds_pair a b p s"
  shows "holds_pair a b p (snd (getOrCreateDeviceId env u s))" "holds_pair a b p (setDeviceRole env r s)"
    "holds_pair a b p (snd (bumpRoleEpoch env s))"
  using holds_other(1) [OF assms(2)] pair_names_apart [OF assms(1)] assms(2)
  by (simp_all add: getOrCreateDeviceId_def setDeviceRole_def bumpRoleEpoch_def Let_def)

lemma holds_step:
  assumes env: "stores_answer env" and name: "pair_names a b" and held: "holds_pair a b p s"
  shows "holds_pair a b p (run_key_op env op s)"
proof -
  note apart = pair_names_apart [OF name]
  have same: "holds_pair a b p (snd (getOrCreateIdentityKeypair env q s))" "holds_pair a b p (snd (getOrCreateDhKeypair env q s))" for q
    using ensure_same [OF env held apart(7)] ensure_same [OF env held apart(8)]
    by (simp_all add: getOrCreateIdentityKeypair_def getOrCreateDhKeypair_def)
  show ?thesis
  proof (cases op)
    case (Promote u)
    have "holds_pair a b p (snd (bumpRoleEpoch env (setDeviceRole env Primary (snd (getOrCreateDeviceId env u s)))))"
      by (intro holds_device [OF name] held)
    from holds_other(1) [OF this apart(6)] show ?thesis using Promote by (simp add: promoteToPrimary_def split_beta Let_def)
  next
    case (Demote u)
    then show ?thesis using holds_device [OF name] held by (simp add: demoteToSecondary_def split_beta Let_def)
  next
    case Role
    then show ?thesis using holds_device(2) [OF name held] held by (simp add: getDeviceRole_def Let_def)
  qed (simp_all add: same held holds_device [OF name held] getIdentityPublicKey_def getDhPublicKey_def setFriendPsk_def clearFriendPsk_def
      holds_other [OF held] apart Let_def)
qed

lemma holds_steps:
  assumes "stores_answer env" "pair_names a b"
  shows "holds_pair a b p s \<Longrightarrow> holds_pair a b p (run_key_ops env ops s)"
  unfolding run_key_ops_def by (induction ops arbitrary: s) (simp_all add: holds_step [OF assms])

text \<open>
  A device keeps its identity: the identity pair and the Diffie-Hellman pair that the first call
  returned are returned by every later one, whatever is done with the stores in between, as
  long as they answer.
\<close>

theorem device_keeps_its_keys:
  assumes "stores_answer env" "real_pair fresh"
  shows "(getOrCreateIdentityKeypair env fresh s = (Some p, s') \<longrightarrow>
      getOrCreateIdentityKeypair env q (run_key_ops env ops s') = (Some p, run_key_ops env ops s')) \<and>
    (getOrCreateDhKeypair env fresh s = (Some p, s') \<longrightarrow>
      getOrCreateDhKeypair env q (run_key_ops env ops s') = (Some p, run_key_ops env ops s'))"
proof -
  have "ensureKeypair env a b fresh s = (Some p, s') \<Longrightarrow>
      pair_names a b \<Longrightarrow> ensureKeypair env a b q (run_key_ops env ops s') = (Some p, run_key_ops env ops s')" for a b
    by (rule ensure_kept [OF assms(1) holds_steps [OF assms(1) _ ensure_holds [OF assms(1) _ assms(2)]]])
  then show ?thesis unfolding getOrCreateIdentityKeypair_def getOrCreateDhKeypair_def by (simp add: pair_names_def)
qed

text \<open>
  A store that does not answer once replaces the identity: a new pair is made, its public key takes
  the place of the old one in the local storage, and its private key is kept in memory only. When the
  store answers again, the old private key is returned with the new public key, which does not belong to it.
\<close>

theorem unanswered_store_replaces_identity:
  assumes "holds_pair IDENTITY_PRIV_KEY IDENTITY_PUB_KEY p s" "ks_memory s = []" "real_pair fresh"
    and "\<not> sv_secret_get env" "\<not> sv_secret_set env" "sv_local_get env" "sv_local_set env" "stores_answer env'"
  shows "\<exists>s'. getOrCreateIdentityKeypair env fresh s = (Some fresh, s') \<and>
    getOrCreateIdentityKeypair env' q s' = (Some \<lparr>kp_public = kp_public fresh, kp_private = kp_private p\<rparr>, s')"
proof -
  obtain a b where t: "a \<noteq> []" "map_of (ks_secret s) IDENTITY_PRIV_KEY = Some a" "decodeBase64Url a = Some (kp_private p)"
    using assms(1) by (auto simp: holds_pair_def stored_pair_Some)
  let ?s = "public_set env IDENTITY_PUB_KEY (encodeBase64Url (kp_public fresh)) (setSecret env IDENTITY_PRIV_KEY (encodeBase64Url (kp_private fresh)) s)"
  have "getOrCreateIdentityKeypair env fresh s = (Some fresh, ?s)"
    using assms by (simp add: getOrCreateIdentityKeypair_def ensureKeypair_def getSecret_def)
  moreover have "holds_pair IDENTITY_PRIV_KEY IDENTITY_PUB_KEY \<lparr>kp_public = kp_public fresh, kp_private = kp_private p\<rparr> ?s"
    using t assms encode_nonempty
    by (auto simp: holds_pair_def public_set_def setSecret_def update_conv' stored_pair_Some decode_encode real_pair_def)
  ultimately show ?thesis using ensure_kept [OF assms(8)] by (auto simp: getOrCreateIdentityKeypair_def)
qed

subsection \<open>The epoch of the role\<close>

lemma takeWhile_all: "list_all P s \<Longrightarrow> takeWhile P s = s"
  by (induction s) auto

lemma digit_not_space: "is_digit c \<Longrightarrow> \<not> js_space c \<and> c \<noteq> CHR ''-'' \<and> c \<noteq> CHR ''+''"
  by (auto simp: is_digit_def js_space_def Let_def)

lemma parse_int_text [simp]: "parse_int (int_text i) = Some i"
proof -
  have n: "nat_text n \<noteq> [] \<and> list_all is_digit (nat_text n)" for n by (rule nat_text_digits)
  have drop: "dropWhile js_space (nat_text n) = nat_text n" for n
    using n [of n] digit_not_space by (cases "nat_text n") auto
  have first: "hd (nat_text n) \<noteq> CHR ''-''" "hd (nat_text n) \<noteq> CHR ''+''" for n
    using n [of n] digit_not_space by (cases "nat_text n", auto)+
  have all: "takeWhile is_digit (nat_text n) = nat_text n" for n using n [of n] by (simp add: takeWhile_all)
  have minus: "\<not> js_space (CHR ''-'')" by (simp add: js_space_def)
  show ?thesis
  proof (cases "i < 0")
    case True
    then show ?thesis using n [of "nat (- i)"] by (simp add: parse_int_def int_text_def minus all)
  next
    case False
    then show ?thesis using n [of "nat i"] by (simp add: parse_int_def int_text_def drop first all)
  qed
qed

lemma int_text_nonempty: "int_text i \<noteq> []"
  using nat_text_digits by (simp add: int_text_def)

definition promotions :: "key_op list \<Rightarrow> int" where
  "promotions ops = int (length (filter (\<lambda>x. \<exists>u. x = Promote u) ops))"

lemma epoch_other:
  assumes "k \<noteq> ROLE_EPOCH_KEY"
  shows "getRoleEpoch env (public_set env' k v s) = getRoleEpoch env s"
  using assms by (simp add: getRoleEpoch_def public_get_def public_set_def update_conv')

lemma epoch_local: "ks_local s' = ks_local s \<Longrightarrow> getRoleEpoch env s' = getRoleEpoch env s"
  by (simp add: getRoleEpoch_def public_get_def)

lemma epoch_secret [simp]:
  "getRoleEpoch env (setSecret env' k v s) = getRoleEpoch env s"
  "getRoleEpoch env (psk_setSecret env' k v s) = getRoleEpoch env s"
  "getRoleEpoch env (psk_removeSecret env' k s) = getRoleEpoch env s"
  by (rule epoch_local, simp add: setSecret_def psk_setSecret_def psk_removeSecret_def)+

lemma epoch_set: "stores_answer env \<Longrightarrow> getRoleEpoch env (public_set env ROLE_EPOCH_KEY (int_text n) s) = n"
  by (simp add: getRoleEpoch_def public_get_def public_set_def update_conv' stores_answer_def int_text_nonempty truthy_string_iff)

lemma epoch_device: "getRoleEpoch env (snd (getOrCreateDeviceId env' u s)) = getRoleEpoch env s"
  by (simp add: getOrCreateDeviceId_def Let_def epoch_other)

lemma epoch_step:
  assumes "stores_answer env"
  shows "getRoleEpoch env (run_key_op env op s) = getRoleEpoch env s + promotions [op]"
  by (cases op) (simp_all add: promotions_def getOrCreateIdentityKeypair_def getOrCreateDhKeypair_def getIdentityPublicKey_def
      getDhPublicKey_def ensureKeypair_def setFriendPsk_def clearFriendPsk_def getDeviceRole_def setDeviceRole_def promoteToPrimary_def
      demoteToSecondary_def bumpRoleEpoch_def Let_def epoch_other epoch_set [OF assms] epoch_device split_beta)

text \<open>
  The role epoch counts the promotions: from any state of the stores, each promotion
  to the primary device raises it by one and nothing else changes it, and after a promotion the device is the
  primary one under its own id, until it is demoted.
\<close>

theorem role_epoch_counts_promotions:
  assumes "stores_answer env"
  shows "getRoleEpoch env (run_key_ops env ops s) = getRoleEpoch env s + promotions ops \<and>
    (case promoteToPrimary env u s of (change, s') \<Rightarrow>
      rc_epoch change = getRoleEpoch env s + 1 \<and> fst (getDeviceRole env s') = Primary \<and>
      (u \<noteq> [] \<longrightarrow> fst (getOrCreateDeviceId env u' s') = rc_deviceId change))"
proof -
  have "getRoleEpoch env (run_key_ops env ops s) = getRoleEpoch env s + promotions ops"
    unfolding run_key_ops_def
  proof (induction ops arbitrary: s)
    case (Cons op ops)
    show ?case using Cons.IH epoch_step [OF assms, of op s] by (simp add: promotions_def)
  qed (simp add: promotions_def)
  moreover have "case promoteToPrimary env u s of (change, s') \<Rightarrow>
      rc_epoch change = getRoleEpoch env s + 1 \<and> fst (getDeviceRole env s') = Primary \<and>
      (u \<noteq> [] \<longrightarrow> fst (getOrCreateDeviceId env u' s') = rc_deviceId change)"
  proof -
    let ?s1 = "snd (getOrCreateDeviceId env u s)" and ?d = "fst (getOrCreateDeviceId env u s)"
    have epoch: "getRoleEpoch env (setDeviceRole env Primary ?s1) = getRoleEpoch env s"
      by (simp add: setDeviceRole_def epoch_other epoch_device)
    have id': "map_of (ks_local ?s1) DEVICE_ID_KEY = Some ?d \<and> (u \<noteq> [] \<longrightarrow> ?d \<noteq> [])"
      using assms by (auto simp: getOrCreateDeviceId_def Let_def stores_answer_def public_get_def public_set_def update_conv' truthy_string_iff)
    show ?thesis using epoch id' assms
      by (simp add: promoteToPrimary_def bumpRoleEpoch_def getDeviceRole_def setDeviceRole_def getOrCreateDeviceId_def [of env u'] Let_def
        split_beta stores_answer_def public_get_def public_set_def update_conv' role_text_def truthy_string_iff)
  qed
  ultimately show ?thesis by blast
qed

text \<open>A friend's key that was stored is read back, and a key of another friend is not touched.\<close>

theorem psk_is_read_back:
  assumes "sv_secret_get env = sv_secret_set env" "psk \<noteq> []"
  shows "getFriendPsk env i (setFriendPsk env i psk s) = Some psk \<and>
    (j \<noteq> i \<longrightarrow> getFriendPsk env j (setFriendPsk env i psk s) = getFriendPsk env j s \<and>
      getFriendPsk env j (clearFriendPsk env i s) = getFriendPsk env j s) \<and> getFriendPsk env i (clearFriendPsk env i s) = None"
  using assms encode_nonempty [OF assms(2)]
  by (auto simp: getFriendPsk_def setFriendPsk_def clearFriendPsk_def psk_getSecret_def psk_setSecret_def psk_removeSecret_def
    update_conv' delete_conv' truthy_string_iff decode_encode Let_def)

subsection \<open>Concrete inputs\<close>

definition sample_pair :: key_pair where
  "sample_pair = \<lparr>kp_public = [1, 2], kp_private = [3, 4]\<rparr>"

definition empty_stores :: key_store where
  "empty_stores = \<lparr>ks_secret = [], ks_memory = [], ks_psk_memory = [], ks_local = []\<rparr>"

definition all_answer :: store_env where
  "all_answer = \<lparr>sv_secret_get = True, sv_secret_set = True, sv_local_get = True, sv_local_set = True\<rparr>"

lemma sample_stores: "stores_answer all_answer" "real_pair sample_pair" "ks_memory (snd (getOrCreateIdentityKeypair all_answer sample_pair empty_stores)) = []"
  by (simp_all add: stores_answer_def all_answer_def real_pair_def sample_pair_def getOrCreateIdentityKeypair_def ensureKeypair_def
    getSecret_def empty_stores_def public_set_def setSecret_def truthy_string_def)

lemma sample_made: "getOrCreateIdentityKeypair all_answer sample_pair empty_stores =
    (Some sample_pair, snd (getOrCreateIdentityKeypair all_answer sample_pair empty_stores))"
  "getOrCreateDhKeypair all_answer sample_pair empty_stores = (Some sample_pair, snd (getOrCreateDhKeypair all_answer sample_pair empty_stores))"
  by (simp_all add: all_answer_def getOrCreateIdentityKeypair_def getOrCreateDhKeypair_def ensureKeypair_def getSecret_def empty_stores_def
    truthy_string_def Let_def)

theorem device_keeps_its_keys_witness:
  "fst (getOrCreateIdentityKeypair all_answer \<lparr>kp_public = [9], kp_private = [9]\<rparr> (run_key_ops all_answer [ClearPsk ''f'', Promote ''d'']
    (snd (getOrCreateIdentityKeypair all_answer sample_pair empty_stores)))) = Some sample_pair"
  using device_keeps_its_keys [OF sample_stores(1,2), of empty_stores sample_pair] sample_made(1) by simp

theorem unanswered_store_replaces_identity_witness:
  "\<exists>s'. getOrCreateIdentityKeypair (all_answer\<lparr>sv_secret_get := False, sv_secret_set := False\<rparr>) \<lparr>kp_public = [9], kp_private = [8]\<rparr>
      (snd (getOrCreateIdentityKeypair all_answer sample_pair empty_stores)) = (Some \<lparr>kp_public = [9], kp_private = [8]\<rparr>, s') \<and>
    getOrCreateIdentityKeypair all_answer sample_pair s' = (Some \<lparr>kp_public = [9], kp_private = [3, 4]\<rparr>, s')"
proof -
  have "holds_pair IDENTITY_PRIV_KEY IDENTITY_PUB_KEY sample_pair (snd (getOrCreateIdentityKeypair all_answer sample_pair empty_stores))"
    by (rule ensure_holds [OF sample_stores(1) sample_made(1) [unfolded getOrCreateIdentityKeypair_def] sample_stores(2),
      folded getOrCreateIdentityKeypair_def])
  from unanswered_store_replaces_identity [OF this sample_stores(3), of "\<lparr>kp_public = [9], kp_private = [8]\<rparr>"
      "all_answer\<lparr>sv_secret_get := False, sv_secret_set := False\<rparr>" all_answer sample_pair]
  show ?thesis using sample_stores(1) by (simp add: real_pair_def all_answer_def sample_pair_def)
qed

theorem role_epoch_counts_promotions_witness:
  "getRoleEpoch all_answer (run_key_ops all_answer [Promote ''d'', Demote ''d'', Promote ''d''] empty_stores) = 2"
proof -
  have "getRoleEpoch all_answer empty_stores = 0" by (simp add: getRoleEpoch_def public_get_def empty_stores_def)
  then show ?thesis using role_epoch_counts_promotions [OF sample_stores(1), of "[Promote ''d'', Demote ''d'', Promote ''d'']" empty_stores "''d''" "''d''"]
    by (simp add: promotions_def)
qed

theorem psk_is_read_back_witness: "getFriendPsk all_answer ''f'' (setFriendPsk all_answer ''f'' [5] empty_stores) = Some [5]"
  using psk_is_read_back [of all_answer "[5]" "''f''" empty_stores "''g''"] by (simp add: all_answer_def)

end
