(* ===== verification/Devices.thy ===== *)
theory Devices
  imports Sync_Engine Identity_Keys Json_Parser
begin

text \<open>
  The devices of a user: the registry of roles (src/src/devices/deviceRegistry.ts) and the signed
  approvals that let a device take part in the synchronisation (src/src/devices/deviceApprovals.ts). Approvals are
  kept as a text in the local storage (Identity_Keys) and logged in the table of events
  (Sync_Engine). The registry is kept as a list of entries in the order of insertion; its text in the local storage
  is read as it was written. Listeners of the registry are left out.
\<close>

subsection \<open>The registry of roles\<close>

record role_event =
  re_deviceId :: string
  re_role :: device_role
  re_epoch :: rat
  re_ts :: rat

record registry_entry =
  rg_deviceId :: string
  rg_role :: device_role
  rg_epoch :: rat
  rg_lastSeenAt :: time_ms
  rg_lastEventTs :: rat

type_synonym registry = "(string \<times> registry_entry) list"

record conflict_snapshot =
  cf_hasConflict :: bool
  cf_primaries :: "registry_entry list"

definition SEVEN_DAYS_MS :: int where
  "SEVEN_DAYS_MS = 7 * 24 * 60 * 60 * 1000"

definition computeConflict :: "time_ms \<Rightarrow> int \<Rightarrow> registry \<Rightarrow> conflict_snapshot" where
  "computeConflict now currentEpoch r =
     (let primaries = sort_key (\<lambda>e. - rg_lastSeenAt e) (filter (\<lambda>e. rg_role e = Primary \<and>
            \<not> now - rg_lastSeenAt e > SEVEN_DAYS_MS \<and> of_int (currentEpoch - 1) \<le> rg_epoch e) (map snd r))
      in \<lparr>cf_hasConflict = 2 \<le> length primaries, cf_primaries = primaries\<rparr>)"

definition role_is_newer :: "role_event \<Rightarrow> registry_entry option \<Rightarrow> bool" where
  "role_is_newer event existing = (case existing of
       None \<Rightarrow> True
     | Some e \<Rightarrow> rg_epoch e < re_epoch event \<or> re_epoch event = rg_epoch e \<and> rg_lastEventTs e \<le> re_ts event)"

definition entry_of :: "time_ms \<Rightarrow> role_event \<Rightarrow> registry_entry" where
  "entry_of now event = \<lparr>rg_deviceId = re_deviceId event, rg_role = re_role event, rg_epoch = re_epoch event,
     rg_lastSeenAt = now, rg_lastEventTs = re_ts event\<rparr>"

text \<open>
  The registry is an ordinary object: under one of these names it finds the property every
  object inherits, which has no epoch, so that no event counts as newer than it.
\<close>

definition inherited_name :: "string \<Rightarrow> bool" where
  "inherited_name k \<longleftrightarrow> k \<in> set [''constructor'', ''__defineGetter__'', ''__defineSetter__'', ''hasOwnProperty'',
     ''__lookupGetter__'', ''__lookupSetter__'', ''isPrototypeOf'', ''propertyIsEnumerable'', ''toString'',
     ''valueOf'', ''__proto__'', ''toLocaleString'']"

definition updateFromRoleEvent :: "time_ms \<Rightarrow> role_event \<Rightarrow> registry \<Rightarrow> registry" where
  "updateFromRoleEvent now event r = (if \<not> inherited_name (re_deviceId event) \<and>
       role_is_newer event (map_of r (re_deviceId event))
     then AList.update (re_deviceId event) (entry_of now event) r else r)"

definition run_role_events :: "(time_ms \<times> role_event) list \<Rightarrow> registry \<Rightarrow> registry" where
  "run_role_events es r = fold (\<lambda>(now, e). updateFromRoleEvent now e) es r"

text \<open>What the registry says of a device, without the time it was heard of.\<close>

definition registry_view :: "registry \<Rightarrow> string \<Rightarrow> (device_role \<times> rat \<times> rat) option" where
  "registry_view r d = map_option (\<lambda>e. (rg_role e, rg_epoch e, rg_lastEventTs e)) (map_of r d)"

definition event_view :: "role_event \<Rightarrow> device_role \<times> rat \<times> rat" where
  "event_view e = (re_role e, re_epoch e, re_ts e)"

definition stamp :: "device_role \<times> rat \<times> rat \<Rightarrow> rat \<times> rat" where
  "stamp v = snd v"

definition stamp_le :: "rat \<times> rat \<Rightarrow> rat \<times> rat \<Rightarrow> bool" where
  "stamp_le a b \<longleftrightarrow> fst a < fst b \<or> fst a = fst b \<and> snd a \<le> snd b"

lemma stamp_le_total: "stamp_le a b \<or> stamp_le b a"
  by (auto simp: stamp_le_def)

lemma stamp_le_trans: "stamp_le a b \<Longrightarrow> stamp_le b c \<Longrightarrow> stamp_le a c"
  by (auto simp: stamp_le_def)

lemma stamp_le_antisym: "stamp_le a b \<Longrightarrow> stamp_le b a \<Longrightarrow> a = b"
  by (cases a, cases b) (auto simp: stamp_le_def)

lemma role_is_newer_iff:
  "role_is_newer e (map_of r (re_deviceId e)) \<longleftrightarrow>
     (\<forall>v. registry_view r (re_deviceId e) = Some v \<longrightarrow> stamp_le (stamp v) (stamp (event_view e)))"
  by (auto simp: role_is_newer_def registry_view_def stamp_le_def stamp_def event_view_def split: option.splits)

lemma view_update:
  "registry_view (updateFromRoleEvent now e r) d = (if d = re_deviceId e \<and> \<not> inherited_name d \<and> role_is_newer e (map_of r d)
     then Some (event_view e) else registry_view r d)"
  by (auto simp: updateFromRoleEvent_def registry_view_def update_conv' entry_of_def event_view_def)

text \<open>After any events, what the registry says of a device is the latest of them, or what it said before.\<close>

definition latest_in :: "(device_role \<times> rat \<times> rat) set \<Rightarrow> (device_role \<times> rat \<times> rat) option \<Rightarrow> bool" where
  "latest_in vs v \<longleftrightarrow> (case v of None \<Rightarrow> vs = {} | Some w \<Rightarrow> w \<in> vs \<and> (\<forall>u \<in> vs. stamp_le (stamp u) (stamp w)))"

definition views_of :: "(time_ms \<times> role_event) list \<Rightarrow> string \<Rightarrow> (device_role \<times> rat \<times> rat) set" where
  "views_of es d = event_view ` {e \<in> snd ` set es. re_deviceId e = d \<and> \<not> inherited_name d}"

lemma latest_insert:
  assumes "latest_in vs (registry_view r d)" "re_deviceId e = d" and own: "\<not> inherited_name d"
  shows "latest_in (insert (event_view e) vs) (registry_view (updateFromRoleEvent now e r) d)"
proof (cases "registry_view r d")
  case None
  then have "role_is_newer e (map_of r d)" using role_is_newer_iff [of e r] assms(2) by simp
  then show ?thesis using assms(1,2) own None by (simp add: view_update latest_in_def stamp_le_def)
next
  case (Some w)
  note w = assms(1) [unfolded latest_in_def Some option.case]
  show ?thesis
  proof (cases "stamp_le (stamp w) (stamp (event_view e))")
    case True
    then have "role_is_newer e (map_of r d)" using role_is_newer_iff [of e r] assms(2) Some by simp
    moreover have "\<forall>u \<in> vs. stamp_le (stamp u) (stamp (event_view e))" using w True stamp_le_trans by blast
    ultimately show ?thesis using assms(2) own by (simp add: view_update latest_in_def stamp_le_def)
  next
    case False
    then have "\<not> role_is_newer e (map_of r d)" using role_is_newer_iff [of e r] assms(2) Some by simp
    moreover have "stamp_le (stamp (event_view e)) (stamp w)" using False stamp_le_total by blast
    ultimately show ?thesis using w Some by (simp add: view_update latest_in_def)
  qed
qed

lemma latest_run:
  "latest_in vs (registry_view r d) \<Longrightarrow> latest_in (vs \<union> views_of es d) (registry_view (run_role_events es r) d)"
proof (induction es arbitrary: r vs)
  case Nil
  then show ?case by (simp add: run_role_events_def views_of_def)
next
  case (Cons x es)
  obtain now e where x: "x = (now, e)" by (cases x)
  show ?case
  proof (cases "re_deviceId e = d \<and> \<not> inherited_name d")
    case True
    have "latest_in (insert (event_view e) vs \<union> views_of es d) (registry_view (run_role_events es (updateFromRoleEvent now e r)) d)"
      using True by (intro Cons.IH latest_insert Cons.prems) simp_all
    moreover have "insert (event_view e) vs \<union> views_of es d = vs \<union> views_of (x # es) d" using x True by (auto simp: views_of_def)
    ultimately show ?thesis using x by (simp add: run_role_events_def)
  next
    case False
    have "latest_in (vs \<union> views_of es d) (registry_view (run_role_events es (updateFromRoleEvent now e r)) d)"
      by (rule Cons.IH) (use Cons.prems False in \<open>auto simp: view_update\<close>)
    moreover have "views_of (x # es) d = views_of es d" using x False by (auto simp: views_of_def)
    ultimately show ?thesis using x by (simp add: run_role_events_def)
  qed
qed

text \<open>
  C28. The registry of roles settles on the latest event of each device, whatever the order. Two
  devices that have taken in the same role events, in any order, at any times, and any of them more than
  once, have the same epoch and time on record for every device, the highest of that device's events by
  epoch and then time; and they say the same of its role wherever the events with that highest
  epoch and time agree on the role. (Where they disagree, the last to arrive decides: tie_decided_by_arrival.
  A device id that names a property every object inherits is never recorded.)
\<close>

theorem registry_is_order_independent:
  assumes "snd ` set es = snd ` set fs"
  shows "map_option snd (registry_view (run_role_events es []) d) =
      map_option snd (registry_view (run_role_events fs []) d) \<and>
    (\<forall>e \<in> snd ` set es. re_deviceId e = d \<and> \<not> inherited_name d \<longrightarrow>
      (\<exists>role epoch ts. registry_view (run_role_events es []) d = Some (role, epoch, ts) \<and>
         (re_epoch e < epoch \<or> re_epoch e = epoch \<and> re_ts e \<le> ts))) \<and>
    ((\<forall>e \<in> snd ` set es. \<forall>f \<in> snd ` set es. re_deviceId e = d \<and> re_deviceId f = d \<and>
        map_option snd (registry_view (run_role_events es []) d) = Some (re_epoch e, re_ts e) \<and>
        re_epoch f = re_epoch e \<and> re_ts f = re_ts e \<longrightarrow> re_role e = re_role f) \<longrightarrow>
      registry_view (run_role_events es []) d = registry_view (run_role_events fs []) d)"
proof -
  have views: "views_of es d = views_of fs d" using assms by (simp add: views_of_def)
  have start: "latest_in {} (registry_view [] d)" by (simp add: latest_in_def registry_view_def)
  let ?a = "registry_view (run_role_events es []) d" and ?b = "registry_view (run_role_events fs []) d"
  have a: "latest_in (views_of es d) ?a" "latest_in (views_of es d) ?b"
    using latest_run [OF start, of es] latest_run [OF start, of fs] views by simp_all
  show ?thesis
  proof (cases "views_of es d = {}")
    case True
    then have "?a = None" "?b = None" using a by (auto simp: latest_in_def split: option.splits)
    then show ?thesis using True by (auto simp: views_of_def)
  next
    case False
    then obtain v w where vw: "?a = Some v" "?b = Some w" using a by (auto simp: latest_in_def split: option.splits)
    have mem: "v \<in> views_of es d" "w \<in> views_of es d" "stamp_le (stamp v) (stamp w)" "stamp_le (stamp w) (stamp v)"
      using a vw by (auto simp: latest_in_def)
    then have same: "snd v = snd w" using stamp_le_antisym by (simp add: stamp_def)
    obtain e f where ef: "e \<in> snd ` set es" "f \<in> snd ` set es" "re_deviceId e = d" "re_deviceId f = d"
      "v = event_view e" "w = event_view f" using mem(1,2) unfolding views_of_def by blast
    have highest: "\<exists>role epoch ts. ?a = Some (role, epoch, ts) \<and>
         (re_epoch g < epoch \<or> re_epoch g = epoch \<and> re_ts g \<le> ts)"
      if "g \<in> snd ` set es" "re_deviceId g = d" "\<not> inherited_name d" for g
    proof -
      have "event_view g \<in> views_of es d" using that by (simp add: views_of_def)
      then have "stamp_le (stamp (event_view g)) (stamp v)" using a(1) vw(1) by (simp add: latest_in_def)
      then show ?thesis using vw(1) by (cases v) (simp add: stamp_le_def stamp_def event_view_def)
    qed
    have top: "map_option snd ?a = Some (re_epoch e, re_ts e)" "re_epoch f = re_epoch e" "re_ts f = re_ts e"
      using vw(1) same ef(5,6) by (simp_all add: event_view_def)
    have agree: "(\<forall>e \<in> snd ` set es. \<forall>f \<in> snd ` set es. re_deviceId e = d \<and> re_deviceId f = d \<and>
        map_option snd ?a = Some (re_epoch e, re_ts e) \<and>
        re_epoch f = re_epoch e \<and> re_ts f = re_ts e \<longrightarrow> re_role e = re_role f) \<longrightarrow> ?a = ?b" (is "?roles \<longrightarrow> _")
    proof
      assume roles: ?roles
      have "re_role e = re_role f"
        by (rule bspec [OF bspec [OF roles ef(1)] ef(2), THEN mp]) (use ef(3,4) top in simp)
      then show "?a = ?b" using same ef(5,6) vw by (simp add: event_view_def)
    qed
    show ?thesis
    proof (intro conjI)
      show "map_option snd ?a = map_option snd ?b" using vw same by simp
      show "\<forall>e \<in> snd ` set es. re_deviceId e = d \<and> \<not> inherited_name d \<longrightarrow>
          (\<exists>role epoch ts. ?a = Some (role, epoch, ts) \<and> (re_epoch e < epoch \<or> re_epoch e = epoch \<and> re_ts e \<le> ts))"
        using highest by simp
    qed (rule agree)
  qed
qed

text \<open>
  Of two events of one device with the same epoch and time that give it different roles, each
  device keeps the one that reached it last, so that two devices that know the same events disagree.
\<close>

theorem tie_decided_by_arrival:
  assumes "re_deviceId e = d" "re_deviceId f = d" "\<not> inherited_name d"
    and "re_epoch f = re_epoch e" "re_ts f = re_ts e" "re_role f \<noteq> re_role e"
  shows "registry_view (run_role_events [(t, e), (u, f)] []) d = Some (event_view f) \<and>
    registry_view (run_role_events [(t, f), (u, e)] []) d = Some (event_view e) \<and> event_view e \<noteq> event_view f"
  using assms by (simp add: run_role_events_def view_update role_is_newer_def updateFromRoleEvent_def entry_of_def
      registry_view_def event_view_def)

subsection \<open>Approvals\<close>

definition APPROVAL_STORE_KEY :: string where "APPROVAL_STORE_KEY = ''nkc_device_approvals_v1''"
definition DEFAULT_APPROVAL_TTL_MS :: int where "DEFAULT_APPROVAL_TTL_MS = 30 * 24 * 60 * 60 * 1000"
definition DEVICE_APPROVAL_LOG_ID :: string where "DEVICE_APPROVAL_LOG_ID = ''device-approvals''"

record approval_env =
  ae_pf :: platform
  ae_stores :: store_env
  ae_now :: time_ms
  ae_newId :: string

record approval_state =
  as_keys :: key_store
  as_events :: "stored_event list"

definition readApprovals :: "approval_env \<Rightarrow> approval_state \<Rightarrow> json" where
  "readApprovals env st = (let raw = public_get (ae_stores env) APPROVAL_STORE_KEY (as_keys st) in
     if \<not> truthy_string raw then JObj []
     else (case pf_json_parse (ae_pf env) (the raw) of None \<Rightarrow> JObj [] | Some v \<Rightarrow> if is_object v then v else JObj []))"

definition writeApprovals :: "approval_env \<Rightarrow> json \<Rightarrow> approval_state \<Rightarrow> approval_state" where
  "writeApprovals env v st = st\<lparr>as_keys := public_set (ae_stores env) APPROVAL_STORE_KEY (stringify v) (as_keys st)\<rparr>"

text \<open>
  Setting and deleting a property. The prototype's own name sets no property, and an array
  loses a named property when it is printed. A name that is no string is the text of the value; the texts of
  objects and arrays, which can only be named by mistake, are all the one of an object.
\<close>

definition prop_name :: "json \<Rightarrow> string" where
  "prop_name v = (case v of JStr s \<Rightarrow> s | JNum t \<Rightarrow> t | JBool b \<Rightarrow> (if b then ''true'' else ''false'')
     | JNull \<Rightarrow> ''null'' | JUndef \<Rightarrow> ''undefined'' | _ \<Rightarrow> ''[object Object]'')"

definition set_property :: "json \<Rightarrow> string \<Rightarrow> json \<Rightarrow> json" where
  "set_property v k w = (case v of JObj kvs \<Rightarrow> if k = ''__proto__'' then v else JObj (with_field kvs k w) | _ \<Rightarrow> v)"

definition delete_property :: "json \<Rightarrow> string \<Rightarrow> json" where
  "delete_property v k = (case v of JObj kvs \<Rightarrow> JObj (filter (\<lambda>(l, w). l \<noteq> k) kvs) | _ \<Rightarrow> v)"

definition stripSig :: "json \<Rightarrow> json" where
  "stripSig event = (case event of JObj kvs \<Rightarrow> JObj (filter (\<lambda>(k, v). k \<noteq> ''sig'') kvs) | _ \<Rightarrow> JObj [])"

definition computeApprovalEventHash :: "platform \<Rightarrow> json \<Rightarrow> string" where
  "computeApprovalEventHash pf event = encodeBase64Url (pf_generichash pf 32 (canonicalBytes event))"

text \<open>The device that approves, with its keys.\<close>

record approver =
  av_deviceId :: string
  av_identityPriv :: bytes
  av_identityPub :: bytes
  av_dhPub :: bytes

definition approval_payload :: "approver \<Rightarrow> string \<Rightarrow> string \<Rightarrow> string \<Rightarrow> int option \<Rightarrow> time_ms \<Rightarrow> (string \<times> json) list" where
  "approval_payload a deviceId identityPub dhPub expiresAt now =
     [(''kind'', JStr ''DEVICE_ADDED''), (''deviceId'', JStr deviceId), (''identityPub'', JStr identityPub),
      (''dhPub'', JStr dhPub), (''ts'', int_num now), (''expiresAt'', int_num (nullish expiresAt (now + DEFAULT_APPROVAL_TTL_MS))),
      (''approvedBy'', JStr (av_deviceId a)), (''approverIdentityPub'', JStr (encodeBase64Url (av_identityPub a))),
      (''approverDhPub'', JStr (encodeBase64Url (av_dhPub a)))]"

definition createDeviceAddedEvent :: "platform \<Rightarrow> approver \<Rightarrow> string \<Rightarrow> string \<Rightarrow> string \<Rightarrow> int option \<Rightarrow> time_ms \<Rightarrow> json" where
  "createDeviceAddedEvent pf a deviceId identityPub dhPub expiresAt now =
     (let payload = approval_payload a deviceId identityPub dhPub expiresAt now in
      JObj (payload @ [(''sig'', JStr (encodeBase64Url (pf_sign pf (canonicalBytes (JObj payload)) (av_identityPriv a))))]))"

definition verifyDeviceAddedEvent :: "platform \<Rightarrow> time_ms \<Rightarrow> json \<Rightarrow> bool" where
  "verifyDeviceAddedEvent pf now event \<longleftrightarrow>
     field event ''kind'' = JStr ''DEVICE_ADDED'' \<and>
     list_all (\<lambda>k. truthy (field event k)) [''sig'', ''approverIdentityPub'', ''approverDhPub'', ''deviceId'', ''identityPub'', ''dhPub'', ''approvedBy''] \<and>
     finite_num (field event ''ts'') \<noteq> None \<and> (case finite_num (field event ''expiresAt'') of None \<Rightarrow> False | Some x \<Rightarrow> of_int now < x) \<and>
     (case (Option.bind (str_of (field event ''sig'')) decodeBase64Url,
            Option.bind (str_of (field event ''approverIdentityPub'')) decodeBase64Url) of
        (Some sig, Some verifyKey) \<Rightarrow> pf_verify pf sig (canonicalBytes (stripSig event)) verifyKey = Some True
      | _ \<Rightarrow> False)"

definition storeDeviceApproval :: "approval_env \<Rightarrow> json \<Rightarrow> approval_state \<Rightarrow> bool \<times> approval_state" where
  "storeDeviceApproval env event st =
     (if \<not> verifyDeviceAddedEvent (ae_pf env) (ae_now env) event then (False, st)
      else let st1 = writeApprovals env (set_property (readApprovals env st) (prop_name (field event ''deviceId'')) event) st;
               row = \<lparr>se_eventId = ae_newId env, se_convId = JStr DEVICE_APPROVAL_LOG_ID, se_authorDeviceId = field event ''approvedBy'',
                 se_lamport = field event ''ts'', se_ts = field event ''ts'', se_envelopeJson = stringify event,
                 se_prevHash = hash_json (getLastEventHash DEVICE_APPROVAL_LOG_ID (as_events st1)),
                 se_eventHash = computeApprovalEventHash (ae_pf env) event, se_conflict = False\<rparr>
           in (True, st1\<lparr>as_events := saveEvent row (as_events st1)\<rparr>))"

definition getApprovedDevice :: "approval_env \<Rightarrow> string \<Rightarrow> approval_state \<Rightarrow> json option \<times> approval_state" where
  "getApprovedDevice env deviceId st =
     (let approvals = readApprovals env st; event = field approvals deviceId in
      if \<not> truthy event then (None, st)
      else if \<not> verifyDeviceAddedEvent (ae_pf env) (ae_now env) event
      then (None, writeApprovals env (delete_property approvals deviceId) st)
      else (Some event, st))"

definition getDeviceApproval :: "approval_env \<Rightarrow> string \<Rightarrow> approval_state \<Rightarrow> json option \<times> approval_state" where
  "getDeviceApproval env deviceId st = getApprovedDevice env deviceId st"

definition isDeviceApproved :: "approval_env \<Rightarrow> string \<Rightarrow> approval_state \<Rightarrow> bool \<times> approval_state" where
  "isDeviceApproved env deviceId st = (let (event, st') = getApprovedDevice env deviceId st in (event \<noteq> None, st'))"

subsection \<open>An approval admits its device until it expires\<close>

text \<open>Verification depends on what an event means only.\<close>

lemma wf_filter: "wf_json (JObj kvs) \<Longrightarrow> wf_json (JObj (filter P kvs))"
  by (auto simp: distinct_map_filter list_all_iff)

lemma fields_without:
  "map_of (present_fields f (filter (\<lambda>(l, w). l \<noteq> k) kvs)) = (map_of (present_fields f kvs))(k := None)"
proof (induction kvs)
  case (Cons x kvs)
  then show ?case by (cases x) (auto simp: fun_eq_iff)
qed simp

lemma stripSig_signed:
  assumes "wf_json a" "wf_json b" "meaning a = meaning b"
  shows "canonicalBytes (stripSig a) = canonicalBytes (stripSig b)"
proof -
  have "wf_json (stripSig a)" "wf_json (stripSig b)"
    using assms(1,2) wf_filter by (auto simp: stripSig_def split: json.splits)
  moreover have "meaning (stripSig a) = meaning (stripSig b)"
  proof (cases a)
    case (JObj kvs)
    moreover from this obtain ls where "b = JObj ls" using assms(3) by (cases b) auto
    ultimately show ?thesis using assms(3) by (simp add: stripSig_def fields_without [where f = meaning] del: filter_filter)
  qed (use assms(3) in \<open>cases b; simp add: stripSig_def\<close>)+
  moreover have "stripSig v \<noteq> JUndef" for v by (simp add: stripSig_def split: json.split)
  ultimately show ?thesis using canonicalBytes_eq_iff by blast
qed

lemma meaning_str_of: "meaning a = meaning b \<Longrightarrow> str_of a = str_of b"
  by (cases a; cases b) auto

lemma verify_meaning:
  assumes "wf_json a" "wf_json b" "meaning a = meaning b"
  shows "verifyDeviceAddedEvent pf now a \<longleftrightarrow> verifyDeviceAddedEvent pf now b"
proof -
  have f: "meaning (field a k) = meaning (field b k)" for k by (rule field_meaning [OF assms])
  have kind: "field a k = JStr t \<longleftrightarrow> field b k = JStr t" for k t
    using f [of k] meaning_string [of t "field b k"] meaning_string [of t "field a k"] by metis
  show ?thesis
    by (simp only: verifyDeviceAddedEvent_def list.pred_inject kind meaning_truthy [OF f] meaning_finite [OF f] meaning_str_of [OF f]
      stripSig_signed [OF assms])
qed

definition json_codec :: "platform \<Rightarrow> bool" where
  "json_codec pf \<longleftrightarrow> (\<forall>v. wf_json v \<longrightarrow> (\<exists>w. pf_json_parse pf (stringify v) = Some w \<and> wf_json w \<and> meaning w = meaning v))"

text \<open>The approver's keys and what it says of the other device are there, and its signatures verify.\<close>

definition approver_ok :: "platform \<Rightarrow> approver \<Rightarrow> bool" where
  "approver_ok pf a \<longleftrightarrow> av_deviceId a \<noteq> [] \<and> av_identityPub a \<noteq> [] \<and> av_dhPub a \<noteq> [] \<and>
     (\<forall>m. pf_sign pf m (av_identityPriv a) \<noteq> [] \<and> pf_verify pf (pf_sign pf m (av_identityPriv a)) m (av_identityPub a) = Some True)"

lemma created_wf: "wf_json (createDeviceAddedEvent pf a d ip dp lasts now)"
  by (simp add: createDeviceAddedEvent_def approval_payload_def settable_def Let_def)

lemma created_verifies:
  assumes "approver_ok pf a" "d \<noteq> []" "ip \<noteq> []" "dp \<noteq> []"
  shows "verifyDeviceAddedEvent pf now' (createDeviceAddedEvent pf a d ip dp lasts now) \<longleftrightarrow>
    now' < nullish lasts (now + DEFAULT_APPROVAL_TTL_MS)"
proof -
  let ?e = "createDeviceAddedEvent pf a d ip dp lasts now"
  have "stripSig ?e = JObj (approval_payload a d ip dp lasts now)"
    by (simp add: createDeviceAddedEvent_def approval_payload_def stripSig_def Let_def)
  then show ?thesis using assms encode_nonempty
    by (simp add: verifyDeviceAddedEvent_def createDeviceAddedEvent_def Let_def approval_payload_def approver_ok_def decode_encode)
qed

text \<open>The storage holds an object of approvals.\<close>

definition holds_approvals :: "approval_env \<Rightarrow> approval_state \<Rightarrow> bool" where
  "holds_approvals env st \<longleftrightarrow> (\<exists>kvs. readApprovals env st = JObj kvs) \<and> wf_json (readApprovals env st)"

definition local_answers :: "approval_env \<Rightarrow> bool" where
  "local_answers env \<longleftrightarrow> sv_local_get (ae_stores env) \<and> sv_local_set (ae_stores env)"

lemma read_written:
  assumes "json_codec (ae_pf env)" "local_answers env" "local_answers env'" "ae_pf env' = ae_pf env" "wf_json v" "is_object v"
  shows "\<exists>w. readApprovals env' (writeApprovals env v st) = w \<and> wf_json w \<and> meaning w = meaning v \<and> is_object w"
proof -
  obtain w where w: "pf_json_parse (ae_pf env) (stringify v) = Some w" "wf_json w" "meaning w = meaning v"
    using assms(1,5) by (auto simp: json_codec_def)
  have "is_object w" using w(3) assms(6) by (cases v; cases w) auto
  moreover have "stringify v \<noteq> []" using assms(6) by (cases v) auto
  ultimately show ?thesis using w assms(2-4)
    by (simp add: readApprovals_def writeApprovals_def public_get_def public_set_def local_answers_def update_conv' truthy_string_iff)
qed

lemma store_verified:
  assumes "verifyDeviceAddedEvent (ae_pf env) (ae_now env) e"
  shows "fst (storeDeviceApproval env e st)"
    and "as_keys (snd (storeDeviceApproval env e st)) =
      as_keys (writeApprovals env (set_property (readApprovals env st) (prop_name (field e ''deviceId'')) e) st)"
  using assms by (simp_all add: storeDeviceApproval_def Let_def)

text \<open>
  C27. An approval admits its device until it expires: an event that a device created and signed is
  stored by every device that receives it in time; from then on the device it names is
  approved, with what the event says, until the time it expires, and no longer; and the
  approvals of the other devices are what they were.
\<close>

theorem approval_admits_until_expiry:
  assumes pf: "json_codec (ae_pf env)" "approver_ok (ae_pf env) a" "ae_pf env' = ae_pf env"
    and stores: "local_answers env" "local_answers env'" "holds_approvals env st"
    and device: "d \<noteq> []" "d \<noteq> ''__proto__''" "ip \<noteq> []" "dp \<noteq> []"
    and x: "x = nullish lasts (now + DEFAULT_APPROVAL_TTL_MS)" "ae_now env < x"
    and stored: "storeDeviceApproval env (createDeviceAddedEvent (ae_pf env) a d ip dp lasts now) st = (ok, st')"
  shows "ok \<and>
    (if ae_now env' < x then \<exists>w. getApprovedDevice env' d st' = (Some w, st') \<and>
        meaning w = meaning (createDeviceAddedEvent (ae_pf env) a d ip dp lasts now)
     else \<not> fst (isDeviceApproved env' d st')) \<and>
    (d' \<noteq> d \<longrightarrow> meaning (field (readApprovals env' st') d') = meaning (field (readApprovals env st) d'))"
proof -
  define e where "e = createDeviceAddedEvent (ae_pf env) a d ip dp lasts now"
  obtain kvs where kvs: "readApprovals env st = JObj kvs" "wf_json (JObj kvs)" using stores(3) by (auto simp: holds_approvals_def)
  let ?v = "JObj (with_field kvs d e)"
  have e: "wf_json e" "verifyDeviceAddedEvent (ae_pf env) now' e \<longleftrightarrow> now' < x" "prop_name (field e ''deviceId'') = d" "truthy e" for now'
    using created_wf created_verifies [OF pf(2) device(1,3,4)] x(1)
    by (simp_all add: e_def) (simp_all add: createDeviceAddedEvent_def approval_payload_def prop_name_def Let_def)
  have v: "wf_json ?v" by (rule wf_with_field [OF kvs(2) device(2) e(1)])
  have "set_property (readApprovals env st) d e = ?v" using kvs(1) device(2) by (simp add: set_property_def)
  then have st': "ok" "as_keys st' = as_keys (writeApprovals env ?v st)"
    using store_verified [of env e st] stored [folded e_def] e(2,3) x(2) by simp_all
  obtain w where w: "readApprovals env' (writeApprovals env ?v st) = w" "wf_json w" "meaning w = meaning ?v" "is_object w"
    using read_written [OF pf(1) stores(1,2) pf(3) v] by auto
  have read: "readApprovals env' st' = w" using w(1) st'(2) by (simp add: readApprovals_def)
  have f: "meaning (field w k) = meaning (field ?v k)" for k by (rule field_meaning [OF w(2) v w(3)])
  have own: "meaning (field w d) = meaning e" using f [of d] by simp
  have wfd: "wf_json (field w d)" by (rule wf_field [OF w(2)])
  have get: "getApprovedDevice env' d st' = (if ae_now env' < x then (Some (field w d), st')
      else (None, writeApprovals env' (delete_property w d) st'))"
    using verify_meaning [OF wfd e(1) own] meaning_truthy [OF own] e(2,4) pf(3) by (simp add: getApprovedDevice_def read)
  have "d' \<noteq> d \<Longrightarrow> meaning (field (readApprovals env' st') d') = meaning (field (readApprovals env st) d')"
    using f [of d'] read kvs(1) by simp
  then show ?thesis using st'(1) get own by (simp add: isDeviceApproved_def e_def)
qed

text \<open>
  Nothing asks who approves: with any key pair whose signatures verify, of a stranger too, an
  approval can be made that is stored and counts.
\<close>

theorem stranger_approves_itself:
  assumes "json_codec (ae_pf env)" "local_answers env" "holds_approvals env st" "d \<noteq> []" "d \<noteq> ''__proto__''"
    and stranger: "approver_ok (ae_pf env) a" "av_deviceId a = d"
  shows "\<exists>event st'. storeDeviceApproval env event st = (True, st') \<and> fst (isDeviceApproved env d st') \<and>
    field event ''approvedBy'' = JStr d"
proof -
  let ?e = "createDeviceAddedEvent (ae_pf env) a d (encodeBase64Url (av_identityPub a)) (encodeBase64Url (av_dhPub a)) None (ae_now env)"
  obtain ok st' where run: "storeDeviceApproval env ?e st = (ok, st')" by fastforce
  have ne: "encodeBase64Url (av_identityPub a) \<noteq> []" "encodeBase64Url (av_dhPub a) \<noteq> []"
    using stranger(1) encode_nonempty by (simp_all add: approver_ok_def)
  have now: "ae_now env < nullish None (ae_now env + DEFAULT_APPROVAL_TTL_MS)" by (simp add: DEFAULT_APPROVAL_TTL_MS_def)
  have verifies: "verifyDeviceAddedEvent (ae_pf env) (ae_now env) ?e" using created_verifies [OF stranger(1) assms(4) ne] now by blast
  have wf: "wf_json ?e" by (rule created_wf)
  obtain kvs where kvs: "readApprovals env st = JObj kvs" "wf_json (JObj kvs)" using assms(3) by (auto simp: holds_approvals_def)
  have name: "prop_name (field ?e ''deviceId'') = d" "field ?e ''approvedBy'' = JStr d" "truthy ?e"
    using stranger(2) by (simp_all add: createDeviceAddedEvent_def approval_payload_def prop_name_def Let_def)
  let ?v = "JObj (with_field kvs d ?e)"
  have v: "wf_json ?v" by (rule wf_with_field [OF kvs(2) assms(5) wf])
  have "set_property (readApprovals env st) d ?e = ?v" using kvs(1) assms(5) by (simp add: set_property_def)
  then have st': "ok" "as_keys st' = as_keys (writeApprovals env ?v st)"
    using store_verified [OF verifies, of st] run name(1) by simp_all
  obtain w where w: "readApprovals env (writeApprovals env ?v st) = w" "wf_json w" "meaning w = meaning ?v" "is_object w"
    using read_written [OF assms(1,2,2) refl v] by auto
  have read: "readApprovals env st' = w" using w(1) st'(2) by (simp add: readApprovals_def)
  have own: "meaning (field w d) = meaning ?e" using field_meaning [OF w(2) v w(3), of d] by simp
  have "fst (isDeviceApproved env d st')"
    using verify_meaning [OF wf_field [OF w(2)] wf own] meaning_truthy [OF own] verifies name(3)
    by (simp add: isDeviceApproved_def getApprovedDevice_def read)
  then show ?thesis using run st'(1) name(2) by auto
qed

subsection \<open>Concrete inputs\<close>

definition plain_signatures :: platform where
  "plain_signatures = open_platform\<lparr>pf_json_parse := parse_text\<rparr>"

definition sample_approver :: approver where
  "sample_approver = \<lparr>av_deviceId = ''a'', av_identityPriv = [1], av_identityPub = [1], av_dhPub = [2]\<rparr>"

definition sample_env :: "time_ms \<Rightarrow> approval_env" where
  "sample_env now = \<lparr>ae_pf = plain_signatures, ae_stores = all_answer, ae_now = now, ae_newId = ''e''\<rparr>"

definition no_approvals :: approval_state where
  "no_approvals = \<lparr>as_keys = empty_stores, as_events = []\<rparr>"

lemma sample_approvals: "json_codec plain_signatures" "approver_ok plain_signatures sample_approver" "local_answers (sample_env n)"
  "holds_approvals (sample_env n) no_approvals" "ae_pf (sample_env n) = plain_signatures" "ae_now (sample_env n) = n"
  using written_text_is_read
  by (simp_all add: json_codec_def plain_signatures_def approver_ok_def sample_approver_def open_platform_def local_answers_def
    sample_env_def all_answer_def holds_approvals_def no_approvals_def readApprovals_def public_get_def empty_stores_def truthy_string_def)

theorem approval_admits_until_expiry_witness:
  "\<exists>st'. storeDeviceApproval (sample_env 5) (createDeviceAddedEvent plain_signatures sample_approver ''d'' ''i'' ''k'' (Some 9) 4) no_approvals = (True, st') \<and>
    (\<exists>w. getApprovedDevice (sample_env 8) ''d'' st' = (Some w, st')) \<and> \<not> fst (isDeviceApproved (sample_env 9) ''d'' st')"
proof -
  let ?e = "createDeviceAddedEvent plain_signatures sample_approver ''d'' ''i'' ''k'' (Some 9) 4"
  obtain ok st' where run: "storeDeviceApproval (sample_env 5) ?e no_approvals = (ok, st')" by fastforce
  have "ok \<and> (if ae_now (sample_env n) < 9 then \<exists>w. getApprovedDevice (sample_env n) ''d'' st' = (Some w, st') \<and> meaning w = meaning ?e
      else \<not> fst (isDeviceApproved (sample_env n) ''d'' st'))" for n
    using approval_admits_until_expiry [where env = "sample_env 5" and env' = "sample_env n" and lasts = "Some 9" and x = 9 and now = 4
        and a = sample_approver and st = no_approvals and d = "''d''" and ip = "''i''" and dp = "''k''" and ok = ok and st' = st' and d' = "''d''"]
      run by (simp add: sample_approvals split: if_splits)
  from this [of 8] this [of 9] run show ?thesis by (auto simp: sample_approvals)
qed

theorem stranger_approves_itself_witness:
  "\<exists>event st'. storeDeviceApproval (sample_env 5) event no_approvals = (True, st') \<and> fst (isDeviceApproved (sample_env 5) ''a'' st') \<and>
    field event ''approvedBy'' = JStr ''a''"
  by (rule stranger_approves_itself [where a = sample_approver]) (simp_all add: sample_approvals, simp add: sample_approver_def)

definition sample_roles :: "role_event list" where
  "sample_roles = [\<lparr>re_deviceId = ''a'', re_role = Primary, re_epoch = 1, re_ts = 3\<rparr>,
     \<lparr>re_deviceId = ''b'', re_role = Primary, re_epoch = 2, re_ts = 5\<rparr>, \<lparr>re_deviceId = ''a'', re_role = Secondary, re_epoch = 1, re_ts = 6\<rparr>]"

theorem registry_is_order_independent_witness:
  "registry_view (run_role_events (map (Pair 1) sample_roles) []) ''a'' =
     registry_view (run_role_events (map (Pair 7) (rev sample_roles @ sample_roles)) []) ''a'' \<and>
   registry_view (run_role_events (map (Pair 1) sample_roles) []) ''a'' = Some (Secondary, 1, 6)"
proof -
  have v: "registry_view (run_role_events (map (Pair 1) sample_roles) []) ''a'' = Some (Secondary, 1, 6)"
    by (simp add: run_role_events_def sample_roles_def updateFromRoleEvent_def inherited_name_def role_is_newer_def
        entry_of_def registry_view_def)
  have same: "snd ` set (map (Pair (1::int)) sample_roles) = snd ` set (map (Pair 7) (rev sample_roles @ sample_roles))"
    by (simp add: image_image image_Un)
  have "\<forall>e \<in> snd ` set (map (Pair (1::int)) sample_roles). \<forall>f \<in> snd ` set (map (Pair (1::int)) sample_roles).
      re_deviceId e = ''a'' \<and> re_deviceId f = ''a'' \<and>
      map_option snd (registry_view (run_role_events (map (Pair 1) sample_roles) []) ''a'') = Some (re_epoch e, re_ts e) \<and>
      re_epoch f = re_epoch e \<and> re_ts f = re_ts e \<longrightarrow> re_role e = re_role f"
    unfolding v by (simp add: sample_roles_def)
  then show ?thesis using registry_is_order_independent [OF same, of "''a''"] v by blast
qed

theorem tie_decided_by_arrival_witness:
  "registry_view (run_role_events [(1, \<lparr>re_deviceId = ''a'', re_role = Primary, re_epoch = 1, re_ts = 3\<rparr>),
     (2, \<lparr>re_deviceId = ''a'', re_role = Secondary, re_epoch = 1, re_ts = 3\<rparr>)] []) ''a'' = Some (Secondary, 1, 3)"
  using tie_decided_by_arrival [of "\<lparr>re_deviceId = ''a'', re_role = Primary, re_epoch = 1, re_ts = 3\<rparr>" "''a''"
      "\<lparr>re_deviceId = ''a'', re_role = Secondary, re_epoch = 1, re_ts = 3\<rparr>" 1 2]
  by (simp add: inherited_name_def event_view_def)

end
