(* ===== verification/Device_Pairing.thy ===== *)
theory Device_Pairing
  imports Devices
begin

unbundle bit_operations_syntax

text \<open>
  Pairing a device by a code (src/src/devices/devicePairing.ts): the codes that were issued, the requests
  that name one, and the answers, over the channel between windows and the rendezvous service. A message is the
  JSON value that arrives. What is sent, what the listeners are told and what is published is
  a list in the state. The sessions that exchange connection offers (startRendezvousPairingAsHost and
  AsGuest) are left out; a Map by request ids compares ids that are texts or numbers.
\<close>

subsection \<open>The text of a code\<close>

definition CODE_ALPHABET :: string where
  "CODE_ALPHABET = ''ABCDEFGHJKLMNPQRSTUVWXYZ23456789''"

text \<open>The number is one of 32 bits, and the shift to the right keeps its sign.\<close>

function base32_emit :: "nat \<Rightarrow> 32 word \<Rightarrow> string \<times> nat" where
  "base32_emit bits value = (if bits < 5 then ([], bits)
     else let (out, rest) = base32_emit (bits - 5) value
       in (CODE_ALPHABET ! unat (signed_drop_bit (bits - 5) value AND 31) # out, rest))"
  by pat_completeness auto
termination by (relation "measure fst") auto

declare base32_emit.simps [simp del]

fun base32_loop :: "bytes \<Rightarrow> nat \<Rightarrow> 32 word \<Rightarrow> string" where
  "base32_loop [] bits value = (if 0 < bits then [CODE_ALPHABET ! unat (push_bit (5 - bits) value AND 31)] else [])"
| "base32_loop (b # bs) bits value =
     (let value = push_bit 8 value OR ucast b; (out, rest) = base32_emit (bits + 8) value
      in out @ base32_loop bs rest value)"

definition toBase32 :: "bytes \<Rightarrow> string" where
  "toBase32 bs = base32_loop bs 0 0"

definition generateCode :: "bytes \<Rightarrow> string" where
  "generateCode bs = (let raw = take 8 (toBase32 bs) in ''NKC-SYNC-'' @ take 4 raw @ ''-'' @ take 4 (drop 4 raw))"

definition generateShortSyncCode :: "bytes \<Rightarrow> string" where
  "generateShortSyncCode bs = ''NKC-SYNC1-'' @ take 6 (toBase32 bs)"

text \<open>Upper case where it is one letter again; the three letters of the set where it is not stay.\<close>

definition upper_char :: "char \<Rightarrow> char" where
  "upper_char c = (let n = (of_char c :: nat) in
     if (97 \<le> n \<and> n \<le> 122) \<or> (224 \<le> n \<and> n \<le> 254 \<and> n \<noteq> 247) then char_of (n - 32) else c)"

definition normalizeCode :: "string \<Rightarrow> string" where
  "normalizeCode value = map upper_char (filter (\<lambda>c. \<not> js_space c \<and> c \<noteq> CHR ''-'') value)"

subsection \<open>State\<close>

record sync_code =
  sc_code :: string
  sc_issuedAt :: time_ms
  sc_expiresAt :: time_ms
  sc_used :: bool

record pairing_request =
  pq_requestId :: json
  pq_code :: string
  pq_deviceId :: json
  pq_identityPub :: json
  pq_dhPub :: json
  pq_ts :: json

record pairing_result =
  pp_requestId :: json
  pp_status :: json
  pp_message :: json
  pp_event :: json

datatype pairing_effect =
    EmitRequest pairing_request | EmitResult pairing_result | PostLocal json | Publish string json

record pairing_state =
  pg_codes :: "(string \<times> sync_code) list"
  pg_pending :: "(json \<times> pairing_request) list"
  pg_handled :: "string list"
  pg_pollers :: "string list"
  pg_out :: "pairing_effect list"

definition no_pairing :: pairing_state where
  "no_pairing = \<lparr>pg_codes = [], pg_pending = [], pg_handled = [], pg_pollers = [], pg_out = []\<rparr>"

definition out :: "pairing_effect \<Rightarrow> pairing_state \<Rightarrow> pairing_state" where
  "out e st = st\<lparr>pg_out := pg_out st @ [e]\<rparr>"

subsection \<open>The rendezvous service\<close>

definition REMOTE_PAIRING_CHANNEL :: string where "REMOTE_PAIRING_CHANNEL = ''nkc-pairing-v1''"
definition REMOTE_POLL_INTERVAL_MS :: int where "REMOTE_POLL_INTERVAL_MS = 1200"
definition REMOTE_POLL_ERROR_INTERVAL_MS :: int where "REMOTE_POLL_ERROR_INTERVAL_MS = 2500"

definition getMessageCode :: "json \<Rightarrow> string option" where
  "getMessageCode m = (if field m ''type'' \<noteq> JStr ''PAIR_REQ'' \<and> \<not> truthy (field m ''code'') then None
     else map_option normalizeCode (str_of (field m ''code'')))"

definition toRemotePayload :: "json \<Rightarrow> string" where
  "toRemotePayload m = stringify (JObj [(''channel'', JStr REMOTE_PAIRING_CHANNEL), (''version'', JNum ''1''), (''message'', m)])"

definition fromRemotePayload :: "platform \<Rightarrow> string \<Rightarrow> json option" where
  "fromRemotePayload pf payload = (case pf_json_parse pf payload of
       None \<Rightarrow> None
     | Some parsed \<Rightarrow>
         if field parsed ''channel'' \<noteq> JStr REMOTE_PAIRING_CHANNEL \<or> field parsed ''version'' \<noteq> JNum ''1'' then None
         else if field (field parsed ''message'') ''type'' \<in> {JStr ''PAIR_REQ'', JStr ''PAIR_RES''}
         then Some (field parsed ''message'') else None)"

definition stopRemotePoller :: "string \<Rightarrow> pairing_state \<Rightarrow> pairing_state" where
  "stopRemotePoller code st = st\<lparr>pg_pollers := removeAll (normalizeCode code) (pg_pollers st)\<rparr>"

definition ensureRemotePoller :: "string \<Rightarrow> pairing_state \<Rightarrow> pairing_state" where
  "ensureRemotePoller code st = (let normalized = normalizeCode code in
     if normalized = [] \<or> normalized \<in> set (pg_pollers st) then st
     else st\<lparr>pg_pollers := pg_pollers st @ [normalized]\<rparr>)"

definition publishRemoteMessage :: "json \<Rightarrow> pairing_state \<Rightarrow> pairing_state" where
  "publishRemoteMessage m st = (case getMessageCode m of
       None \<Rightarrow> st
     | Some code \<Rightarrow> if code = [] then st else out (Publish code m) (ensureRemotePoller code st))"

subsection \<open>Messages\<close>

definition cleanupExpiredCodes :: "time_ms \<Rightarrow> pairing_state \<Rightarrow> pairing_state" where
  "cleanupExpiredCodes now st =
     (let expired = filter (\<lambda>(code, e). sc_expiresAt e \<le> now) (pg_codes st)
      in fold (\<lambda>(code, e). stopRemotePoller code) expired
           (st\<lparr>pg_codes := filter (\<lambda>(code, e). \<not> sc_expiresAt e \<le> now) (pg_codes st)\<rparr>))"

text \<open>An answer is told once by its request and status; False where the code is no text, which throws.\<close>

definition handlePairRes :: "json \<Rightarrow> pairing_state \<Rightarrow> bool \<times> pairing_state" where
  "handlePairRes m st =
     (let resultKey = prop_name (field m ''requestId'') @ '':'' @ prop_name (field m ''status'') in
      if resultKey \<in> set (pg_handled st) then (True, st)
      else let handled = pg_handled st @ [resultKey];
               st1 = st\<lparr>pg_handled := (if 1000 < length handled then [] else handled)\<rparr>;
               res = EmitResult \<lparr>pp_requestId = field m ''requestId'', pp_status = field m ''status'',
                 pp_message = field m ''message'', pp_event = field m ''event''\<rparr>
           in if \<not> truthy (field m ''code'') then (True, out res st1)
              else (case str_of (field m ''code'') of
                  None \<Rightarrow> (False, st1)
                | Some code \<Rightarrow> (True, out res (stopRemotePoller code st1))))"

text \<open>Without the channel between windows an answer is handled here at once.\<close>

definition post_answer :: "bool \<Rightarrow> json \<Rightarrow> pairing_state \<Rightarrow> pairing_state" where
  "post_answer channel m st = publishRemoteMessage m (if channel then out (PostLocal m) st else snd (handlePairRes m st))"

definition opt_json :: "string option \<Rightarrow> json" where
  "opt_json x = (case x of None \<Rightarrow> JUndef | Some s \<Rightarrow> JStr s)"

definition respondWithError :: "bool \<Rightarrow> json \<Rightarrow> string \<Rightarrow> string option \<Rightarrow> pairing_state \<Rightarrow> pairing_state" where
  "respondWithError channel requestId message code st = post_answer channel
     (JObj [(''type'', JStr ''PAIR_RES''), (''requestId'', requestId), (''status'', JStr ''error''), (''message'', JStr message),
        (''code'', opt_json code)]) st"

text \<open>The texts of the errors are Korean in the program; here they name the branch.\<close>

definition handlePairReq :: "bool \<Rightarrow> time_ms \<Rightarrow> json \<Rightarrow> pairing_state \<Rightarrow> bool \<times> pairing_state" where
  "handlePairReq channel now m st0 =
     (let st = cleanupExpiredCodes now st0; requestId = field m ''requestId'' in
      case str_of (field m ''code'') of
        None \<Rightarrow> (False, st)
      | Some text \<Rightarrow>
          let code = normalizeCode text in
          if map_of (pg_pending st) requestId \<noteq> None then (True, st)
          else (case map_of (pg_codes st) code of
              None \<Rightarrow> (True, respondWithError channel requestId ''invalid code'' (Some code) st)
            | Some entry \<Rightarrow>
                if sc_expiresAt entry \<le> now
                then (True, respondWithError channel requestId ''expired code'' (Some code)
                       (stopRemotePoller code (st\<lparr>pg_codes := AList.delete code (pg_codes st)\<rparr>)))
                else if sc_used entry then (True, respondWithError channel requestId ''used code'' (Some code) st)
                else let req = \<lparr>pq_requestId = requestId, pq_code = sc_code entry, pq_deviceId = field m ''deviceId'',
                           pq_identityPub = field m ''identityPub'', pq_dhPub = field m ''dhPub'', pq_ts = nn (field m ''ts'') (int_num now)\<rparr>
                     in (True, out (EmitRequest req) (st\<lparr>pg_codes := AList.update code (entry\<lparr>sc_used := True\<rparr>) (pg_codes st),
                          pg_pending := AList.update requestId req (pg_pending st)\<rparr>))))"

definition handleMessage :: "bool \<Rightarrow> time_ms \<Rightarrow> json \<Rightarrow> pairing_state \<Rightarrow> bool \<times> pairing_state" where
  "handleMessage channel now m st =
     (if field m ''type'' = JStr ''PAIR_REQ'' then handlePairReq channel now m st
      else if field m ''type'' = JStr ''PAIR_RES'' then handlePairRes m st else (True, st))"

text \<open>A round of polling takes the messages until one throws; the next round is after the delay.\<close>

fun poll_items :: "platform \<Rightarrow> bool \<Rightarrow> time_ms \<Rightarrow> string list \<Rightarrow> pairing_state \<Rightarrow> int \<times> pairing_state" where
  "poll_items pf channel now [] st = (REMOTE_POLL_INTERVAL_MS, st)"
| "poll_items pf channel now (p # ps) st = (case fromRemotePayload pf p of
       None \<Rightarrow> poll_items pf channel now ps st
     | Some m \<Rightarrow> (case handleMessage channel now m st of
         (True, st') \<Rightarrow> poll_items pf channel now ps st' | (False, st') \<Rightarrow> (REMOTE_POLL_ERROR_INTERVAL_MS, st')))"

subsection \<open>What the user does\<close>

definition DEFAULT_TTL_MS :: int where "DEFAULT_TTL_MS = 10 * 60 * 1000"

definition createSyncCode :: "bytes \<Rightarrow> int option \<Rightarrow> time_ms \<Rightarrow> pairing_state \<Rightarrow> sync_code \<times> pairing_state" where
  "createSyncCode random ttlMs now st =
     (let formatted = generateCode random; normalized = normalizeCode formatted;
          entry = \<lparr>sc_code = formatted, sc_issuedAt = now, sc_expiresAt = now + nullish ttlMs DEFAULT_TTL_MS, sc_used = False\<rparr>;
          st1 = cleanupExpiredCodes now st
      in (entry, ensureRemotePoller normalized (st1\<lparr>pg_codes := AList.update normalized entry (pg_codes st1)\<rparr>)))"

definition getSyncCodeState :: "string \<Rightarrow> pairing_state \<Rightarrow> sync_code option" where
  "getSyncCodeState code st = map_of (pg_codes st) (normalizeCode code)"

definition submitSyncCode :: "bool \<Rightarrow> string \<Rightarrow> json \<Rightarrow> json \<Rightarrow> json \<Rightarrow> string \<Rightarrow> time_ms \<Rightarrow> pairing_state \<Rightarrow> pairing_state" where
  "submitSyncCode channel code deviceId identityPub dhPub newId now st =
     (let normalizedCode = normalizeCode code;
          m = JObj [(''type'', JStr ''PAIR_REQ''), (''code'', JStr normalizedCode), (''requestId'', JStr newId),
            (''deviceId'', deviceId), (''identityPub'', identityPub), (''dhPub'', dhPub), (''ts'', int_num now)];
          st1 = ensureRemotePoller normalizedCode st
      in publishRemoteMessage m (if channel then out (PostLocal m) st1 else snd (handlePairReq channel now m st1)))"

definition answered_code :: "json \<Rightarrow> pairing_state \<Rightarrow> string option" where
  "answered_code requestId st = (case map_of (pg_pending st) requestId of
     None \<Rightarrow> None | Some r \<Rightarrow> if pq_code r = [] then None else Some (normalizeCode (pq_code r)))"

definition approvePairingRequest :: "bool \<Rightarrow> json \<Rightarrow> json \<Rightarrow> pairing_state \<Rightarrow> pairing_state" where
  "approvePairingRequest channel requestId event st = post_answer channel
     (JObj [(''type'', JStr ''PAIR_RES''), (''requestId'', requestId), (''code'', opt_json (answered_code requestId st)),
        (''status'', JStr ''approved''), (''event'', event)]) (st\<lparr>pg_pending := AList.delete requestId (pg_pending st)\<rparr>)"

definition rejectPairingRequest :: "bool \<Rightarrow> json \<Rightarrow> string \<Rightarrow> pairing_state \<Rightarrow> pairing_state" where
  "rejectPairingRequest channel requestId message st = post_answer channel
     (JObj [(''type'', JStr ''PAIR_RES''), (''requestId'', requestId), (''code'', opt_json (answered_code requestId st)),
        (''status'', JStr ''rejected''), (''message'', JStr message)]) (st\<lparr>pg_pending := AList.delete requestId (pg_pending st)\<rparr>)"

subsection \<open>A code asks once, in time\<close>

datatype pairing_op =
    OpMessage json | OpPoll "string list" | OpCreate bytes "int option" | OpSubmit string json json json string
  | OpApprove json json | OpReject json string

fun run_pairing_op :: "platform \<Rightarrow> bool \<Rightarrow> time_ms \<times> pairing_op \<Rightarrow> pairing_state \<Rightarrow> pairing_state" where
  "run_pairing_op pf channel (now, OpMessage m) st = snd (handleMessage channel now m st)"
| "run_pairing_op pf channel (now, OpPoll ps) st = snd (poll_items pf channel now ps st)"
| "run_pairing_op pf channel (now, OpCreate random ttlMs) st = snd (createSyncCode random ttlMs now st)"
| "run_pairing_op pf channel (now, OpSubmit code d i k newId) st = submitSyncCode channel code d i k newId now st"
| "run_pairing_op pf channel (now, OpApprove r e) st = approvePairingRequest channel r e st"
| "run_pairing_op pf channel (now, OpReject r t) st = rejectPairingRequest channel r t st"

definition run_pairing :: "platform \<Rightarrow> bool \<Rightarrow> (time_ms \<times> pairing_op) list \<Rightarrow> pairing_state \<Rightarrow> pairing_state" where
  "run_pairing pf channel ops st = fold (run_pairing_op pf channel) ops st"

definition asks_for :: "string \<Rightarrow> pairing_effect \<Rightarrow> bool" where
  "asks_for c e \<longleftrightarrow> (case e of EmitRequest r \<Rightarrow> normalizeCode (pq_code r) = c | _ \<Rightarrow> False)"

definition requests_for :: "string \<Rightarrow> pairing_state \<Rightarrow> nat" where
  "requests_for c st = length (filter (asks_for c) (pg_out st))"

definition open_code :: "string \<Rightarrow> pairing_state \<Rightarrow> nat" where
  "open_code c st = (case map_of (pg_codes st) c of None \<Rightarrow> 0 | Some e \<Rightarrow> if sc_used e then 0 else 1)"

text \<open>Codes are listed once, under their normal form.\<close>

definition codes_ok :: "pairing_state \<Rightarrow> bool" where
  "codes_ok st \<longleftrightarrow> distinct (map fst (pg_codes st)) \<and> (\<forall>(k, e) \<in> set (pg_codes st). normalizeCode (sc_code e) = k)"

lemma quiet_simps [simp]:
  "pg_codes (stopRemotePoller c st) = pg_codes st" "pg_out (stopRemotePoller c st) = pg_out st"
  "pg_codes (ensureRemotePoller c st) = pg_codes st" "pg_out (ensureRemotePoller c st) = pg_out st"
  "pg_codes (out e st) = pg_codes st" "pg_out (out e st) = pg_out st @ [e]"
  by (simp_all add: stopRemotePoller_def ensureRemotePoller_def out_def Let_def)

text \<open>What neither changes the codes nor asks the user.\<close>

definition quiet :: "pairing_state \<Rightarrow> pairing_state \<Rightarrow> bool" where
  "quiet st st' \<longleftrightarrow> pg_codes st' = pg_codes st \<and> (\<forall>c. requests_for c st' = requests_for c st)"

lemma quiet_refl: "quiet st st"
  by (simp add: quiet_def)

lemma quiet_trans: "quiet a b \<Longrightarrow> quiet b c \<Longrightarrow> quiet a c"
  by (simp add: quiet_def)

lemma quiet_same: "pg_codes st' = pg_codes st \<Longrightarrow> pg_out st' = pg_out st \<Longrightarrow> quiet st st'"
  by (simp add: quiet_def requests_for_def)

lemma quiet_out: "(\<And>c. \<not> asks_for c e) \<Longrightarrow> quiet st (out e st)"
  by (simp add: quiet_def requests_for_def)

lemma quiet_publish: "quiet st (publishRemoteMessage m st)"
proof (cases "getMessageCode m")
  case (Some code)
  have "quiet st (out (Publish code m) (ensureRemotePoller code st))"
    by (rule quiet_trans [OF quiet_same quiet_out]) (simp_all add: asks_for_def)
  then show ?thesis using Some quiet_refl by (simp add: publishRemoteMessage_def)
qed (simp add: publishRemoteMessage_def quiet_refl)

lemma quiet_result: "quiet st (snd (handlePairRes m st))"
  by (auto simp: handlePairRes_def Let_def quiet_def requests_for_def asks_for_def split: option.splits)

lemma quiet_answer: "quiet st (post_answer channel m st)"
proof -
  have "quiet st (if channel then out (PostLocal m) st else snd (handlePairRes m st))"
    using quiet_out [of "PostLocal m" st] quiet_result by (simp add: asks_for_def)
  then show ?thesis unfolding post_answer_def by (rule quiet_trans [OF _ quiet_publish])
qed

lemma quiet_error: "quiet st (respondWithError channel r t c st)"
  unfolding respondWithError_def by (rule quiet_answer)

lemma map_of_filter_distinct:
  "distinct (map fst xs) \<Longrightarrow> map_of (filter (\<lambda>(k, v). P v) xs) k = (case map_of xs k of None \<Rightarrow> None | Some v \<Rightarrow> if P v then Some v else None)"
proof (induction xs)
  case (Cons x xs)
  obtain l v where x: "x = (l, v)" by (cases x)
  have "map_of xs l = None" using Cons.prems x by (simp add: map_of_eq_None_iff)
  then show ?case using Cons x by (auto split: option.splits)
qed simp

lemma fold_pollers [simp]:
  "pg_codes (fold (\<lambda>(code, e). stopRemotePoller code) xs st) = pg_codes st"
  "pg_out (fold (\<lambda>(code, e). stopRemotePoller code) xs st) = pg_out st"
  by (induction xs arbitrary: st) auto

lemma cleanup_simps:
  "pg_codes (cleanupExpiredCodes now st) = filter (\<lambda>(code, e). \<not> sc_expiresAt e \<le> now) (pg_codes st)"
  "pg_out (cleanupExpiredCodes now st) = pg_out st" "pg_pending (cleanupExpiredCodes now st) = pg_pending st"
proof -
  have pend: "pg_pending (fold (\<lambda>(code, e). stopRemotePoller code) xs s) = pg_pending s" for xs s
    by (induction xs arbitrary: s) (auto simp: stopRemotePoller_def)
  show "pg_pending (cleanupExpiredCodes now st) = pg_pending st" by (simp add: cleanupExpiredCodes_def Let_def pend)
qed (simp_all add: cleanupExpiredCodes_def Let_def)

lemma code_after_cleanup:
  "codes_ok st \<Longrightarrow> map_of (pg_codes (cleanupExpiredCodes now st)) c =
     (case map_of (pg_codes st) c of None \<Rightarrow> None | Some e \<Rightarrow> if sc_expiresAt e \<le> now then None else Some e)"
  unfolding cleanup_simps by (subst map_of_filter_distinct) (auto simp: codes_ok_def split: option.splits)

text \<open>
  What holds of one code: it was issued at most to expire at a time, and the requests so far and the
  one it can still bring are bounded.
\<close>

definition code_bound :: "string \<Rightarrow> time_ms \<Rightarrow> nat \<Rightarrow> pairing_state \<Rightarrow> bool" where
  "code_bound c x n st \<longleftrightarrow> codes_ok st \<and> requests_for c st + open_code c st \<le> n \<and>
     (\<forall>e. map_of (pg_codes st) c = Some e \<longrightarrow> sc_expiresAt e \<le> x)"

lemma bound_quiet: "quiet st st' \<Longrightarrow> code_bound c x n st' = code_bound c x n st"
  by (simp add: quiet_def code_bound_def codes_ok_def open_code_def)

lemma bound_cleanup: "code_bound c x n st \<Longrightarrow> code_bound c x n (cleanupExpiredCodes now st)"
proof -
  assume b: "code_bound c x n st"
  have ok: "codes_ok st" using b by (simp add: code_bound_def)
  then have "codes_ok (cleanupExpiredCodes now st)" by (auto simp: codes_ok_def cleanup_simps distinct_map_filter)
  moreover have "open_code c (cleanupExpiredCodes now st) \<le> open_code c st"
    by (simp add: open_code_def code_after_cleanup [OF ok] split: option.split)
  moreover have "requests_for c (cleanupExpiredCodes now st) = requests_for c st" by (simp add: requests_for_def cleanup_simps)
  ultimately show ?thesis using b by (auto simp: code_bound_def code_after_cleanup [OF ok] split: option.splits if_splits)
qed

lemma mem_update: "p \<in> set (AList.update k v xs) \<Longrightarrow> p = (k, v) \<or> p \<in> set xs"
  by (induction xs) (auto split: if_splits)

lemma bound_request: "code_bound c x n st \<Longrightarrow> code_bound c x n (snd (handlePairReq channel now m st))"
proof -
  assume b: "code_bound c x n st"
  define s where "s = cleanupExpiredCodes now st"
  have s: "code_bound c x n s" unfolding s_def by (rule bound_cleanup [OF b])
  show ?thesis
  proof (cases "str_of (field m ''code'')")
    case None
    then show ?thesis using s by (simp add: handlePairReq_def s_def [symmetric] Let_def)
  next
    case (Some t)
    let ?k = "normalizeCode t" and ?r = "field m ''requestId''"
    show ?thesis
    proof (cases "map_of (pg_pending s) ?r = None")
      case False
      then show ?thesis using s Some by (auto simp: handlePairReq_def s_def [symmetric] Let_def)
    next
      case True
      note here = handlePairReq_def s_def [symmetric] Let_def Some True
      show ?thesis
      proof (cases "map_of (pg_codes s) ?k")
        case None
        then show ?thesis using s bound_quiet [OF quiet_error] by (simp add: here)
      next
        case (Some entry)
        have mem: "(?k, entry) \<in> set (pg_codes s)" using Some by (rule map_of_SomeD)
        have live: "\<not> sc_expiresAt entry \<le> now" using mem unfolding s_def cleanup_simps by auto
        have code: "normalizeCode (sc_code entry) = ?k" using s mem by (auto simp: code_bound_def codes_ok_def)
        show ?thesis
        proof (cases "sc_used entry")
          case True
          then show ?thesis using s bound_quiet [OF quiet_error] Some live by (simp add: here)
        next
          case False
          define req where "req = \<lparr>pq_requestId = ?r, pq_code = sc_code entry, pq_deviceId = field m ''deviceId'',
            pq_identityPub = field m ''identityPub'', pq_dhPub = field m ''dhPub'', pq_ts = nn (field m ''ts'') (int_num now)\<rparr>"
          let ?s = "out (EmitRequest req) (s\<lparr>pg_codes := AList.update ?k (entry\<lparr>sc_used := True\<rparr>) (pg_codes s),
            pg_pending := AList.update ?r req (pg_pending s)\<rparr>)"
          have res: "snd (handlePairReq channel now m st) = ?s" using Some live False by (simp add: here req_def)
          have ok: "codes_ok ?s" using s code by (auto simp: code_bound_def codes_ok_def distinct_update dest!: mem_update)
          have asks: "asks_for c (EmitRequest req) \<longleftrightarrow> c = ?k" using code by (auto simp: asks_for_def req_def)
          have "requests_for c ?s = requests_for c s + (if c = ?k then 1 else 0)" by (simp add: requests_for_def asks)
          moreover have "open_code c ?s + (if c = ?k then 1 else 0) = open_code c s"
            using Some False by (simp add: open_code_def update_conv')
          ultimately show ?thesis unfolding res using s ok Some by (auto simp: code_bound_def update_conv')
        qed
      qed
    qed
  qed
qed

lemma bound_message: "code_bound c x n st \<Longrightarrow> code_bound c x n (snd (handleMessage channel now m st))"
  using bound_request bound_quiet [OF quiet_result] by (simp add: handleMessage_def)

lemma bound_poll: "code_bound c x n st \<Longrightarrow> code_bound c x n (snd (poll_items pf channel now ps st))"
proof (induction ps arbitrary: st)
  case (Cons p ps)
  show ?case
  proof (cases "fromRemotePayload pf p")
    case (Some m)
    obtain ok st' where r: "handleMessage channel now m st = (ok, st')" by fastforce
    have "code_bound c x n st'" using bound_message [OF Cons.prems, of channel now m] r by simp
    then show ?thesis using Cons.IH Some r by (cases ok) simp_all
  qed (use Cons in simp)
qed simp

lemma bound_submit: "code_bound c x n st \<Longrightarrow> code_bound c x n (submitSyncCode channel k d i h newId now st)"
proof -
  assume b: "code_bound c x n st"
  have q: "quiet st (ensureRemotePoller (normalizeCode k) st)" by (rule quiet_same) simp_all
  show ?thesis using b bound_request
    by (auto simp: submitSyncCode_def Let_def bound_quiet [OF quiet_publish] bound_quiet [OF quiet_out] bound_quiet [OF q] asks_for_def)
qed

lemma bound_pending: "code_bound c x n (st\<lparr>pg_pending := p\<rparr>) = code_bound c x n st"
  by (rule bound_quiet [OF quiet_same]) simp_all

lemma bound_create:
  assumes "code_bound c x n st" "normalizeCode (generateCode random) \<noteq> c"
  shows "code_bound c x n (snd (createSyncCode random ttlMs now st))"
proof -
  define s where "s = cleanupExpiredCodes now st"
  define f where "f = generateCode random"
  let ?e = "\<lparr>sc_code = f, sc_issuedAt = now, sc_expiresAt = now + nullish ttlMs DEFAULT_TTL_MS, sc_used = False\<rparr>"
  have s: "code_bound c x n s" unfolding s_def by (rule bound_cleanup [OF assms(1)])
  let ?s = "s\<lparr>pg_codes := AList.update (normalizeCode f) ?e (pg_codes s)\<rparr>"
  have "codes_ok ?s" using s by (auto simp: code_bound_def codes_ok_def distinct_update dest!: mem_update)
  moreover have "open_code c ?s = open_code c s" using assms(2) by (simp add: open_code_def update_conv' f_def)
  ultimately have "code_bound c x n ?s" using s assms(2) by (simp add: code_bound_def requests_for_def update_conv' f_def)
  moreover have "quiet ?s (ensureRemotePoller (normalizeCode f) ?s)" by (rule quiet_same) simp_all
  ultimately show ?thesis using bound_quiet by (simp add: createSyncCode_def Let_def s_def [symmetric] f_def [symmetric])
qed

text \<open>The code is not issued a second time.\<close>

definition issues :: "string \<Rightarrow> pairing_op \<Rightarrow> bool" where
  "issues c op \<longleftrightarrow> (case op of OpCreate random ttlMs \<Rightarrow> normalizeCode (generateCode random) = c | _ \<Rightarrow> False)"

lemma bound_op: "code_bound c x n st \<Longrightarrow> \<not> issues c op \<Longrightarrow> code_bound c x n (run_pairing_op pf channel (now, op) st)"
  by (cases op) (simp_all add: issues_def bound_message bound_poll bound_create bound_submit approvePairingRequest_def rejectPairingRequest_def
      bound_quiet [OF quiet_answer] bound_pending)

lemma bound_ops:
  "code_bound c x n st \<Longrightarrow> list_all (\<lambda>(now, op). \<not> issues c op) ops \<Longrightarrow> code_bound c x n (run_pairing pf channel ops st)"
  unfolding run_pairing_def by (induction ops arbitrary: st) (auto simp: bound_op)

text \<open>A state in which the code can bring no more requests at a time.\<close>

lemma late_op:
  assumes "code_bound c x n st" "x \<le> now" "\<not> issues c op"
  shows "requests_for c (run_pairing_op pf channel (now, op) st) = requests_for c st"
proof -
  have late: "requests_for c (snd (handlePairReq channel now m s)) = requests_for c s" if b: "code_bound c x n s" for m s
  proof -
    define t where "t = cleanupExpiredCodes now s"
    have ok: "codes_ok s" using b by (simp add: code_bound_def)
    have gone: "map_of (pg_codes t) c = None"
      using b assms(2) by (auto simp: t_def code_after_cleanup [OF ok] code_bound_def split: option.split)
    have same: "requests_for k t = requests_for k s" for k by (simp add: requests_for_def t_def cleanup_simps)
    have t: "codes_ok t" using bound_cleanup [OF b, of now] by (simp add: t_def code_bound_def)
    have other: "normalizeCode (sc_code e) \<noteq> c" if "map_of (pg_codes t) k = Some e" for k e
      using that map_of_SomeD [OF that] t gone by (auto simp: codes_ok_def)
    show ?thesis using gone other quiet_error same
      by (auto simp: handlePairReq_def t_def [symmetric] Let_def quiet_def requests_for_def asks_for_def split: option.splits)
  qed
  have message: "requests_for c (snd (handleMessage channel now m s)) = requests_for c s" if "code_bound c x n s" for m s
    using late [OF that] quiet_result by (simp add: handleMessage_def quiet_def)
  have poll: "code_bound c x n s \<Longrightarrow> requests_for c (snd (poll_items pf channel now ps s)) = requests_for c s" for ps s
  proof (induction ps arbitrary: s)
    case (Cons p ps)
    show ?case
    proof (cases "fromRemotePayload pf p")
      case (Some m)
      obtain ok s' where r: "handleMessage channel now m s = (ok, s')" by fastforce
      have "code_bound c x n s'" "requests_for c s' = requests_for c s"
        using bound_message [OF Cons.prems, of channel now m] message [OF Cons.prems, of m] r by simp_all
      then show ?thesis using Cons.IH Some r by (cases ok) simp_all
    qed (use Cons in simp)
  qed simp
  have quiets: "requests_for c (post_answer channel m s) = requests_for c s" "requests_for c (publishRemoteMessage m s) = requests_for c s" for m s
    using quiet_answer quiet_publish by (simp_all add: quiet_def)
  show ?thesis
  proof (cases op)
    case (OpSubmit k d i h newId)
    have q: "quiet st (ensureRemotePoller (normalizeCode k) st)" by (rule quiet_same) simp_all
    then have b: "code_bound c x n (ensureRemotePoller (normalizeCode k) st)" using bound_quiet assms(1) by simp
    have l: "requests_for c (out (PostLocal m) s) = requests_for c s" for m s by (simp add: requests_for_def asks_for_def)
    have "requests_for c (ensureRemotePoller (normalizeCode k) st) = requests_for c st" using q by (simp add: quiet_def)
    then show ?thesis using OpSubmit late [OF b] by (cases channel) (simp_all add: submitSyncCode_def Let_def quiets l)
  next
    case (OpCreate random ttlMs)
    then show ?thesis by (simp add: createSyncCode_def Let_def requests_for_def cleanup_simps)
  qed (use assms message poll quiets in \<open>simp_all add: approvePairingRequest_def rejectPairingRequest_def\<close>, simp_all add: requests_for_def)
qed

lemma late_ops:
  "code_bound c x n st \<Longrightarrow> list_all (\<lambda>(now, op). x \<le> now \<and> \<not> issues c op) ops \<Longrightarrow>
     requests_for c (run_pairing pf channel ops st) = requests_for c st"
  unfolding run_pairing_def by (induction ops arbitrary: st) (auto simp: late_op bound_op)

lemma created_bound:
  assumes "codes_ok st" "createSyncCode random ttlMs now st = (entry, st1)"
  shows "code_bound (normalizeCode (sc_code entry)) (sc_expiresAt entry) (requests_for (normalizeCode (sc_code entry)) st + 1) st1 \<and>
    map_of (pg_codes st1) (normalizeCode (sc_code entry)) = Some entry \<and> pg_pending st1 = pg_pending st \<and> \<not> sc_used entry"
proof -
  define s where "s = cleanupExpiredCodes now st"
  define f where "f = generateCode random"
  have entry: "entry = \<lparr>sc_code = f, sc_issuedAt = now, sc_expiresAt = now + nullish ttlMs DEFAULT_TTL_MS, sc_used = False\<rparr>"
    "st1 = ensureRemotePoller (normalizeCode f) (s\<lparr>pg_codes := AList.update (normalizeCode f) entry (pg_codes s)\<rparr>)"
    using assms(2) by (auto simp: createSyncCode_def Let_def s_def f_def)
  have code: "sc_code entry = f" "\<not> sc_used entry" using entry(1) by simp_all
  have "codes_ok s" using assms(1) by (auto simp: s_def codes_ok_def cleanup_simps distinct_map_filter)
  then have "codes_ok st1" using code by (auto simp: entry(2) codes_ok_def distinct_update dest!: mem_update)
  moreover have "requests_for c st1 = requests_for c st" for c by (simp add: requests_for_def entry(2) s_def cleanup_simps)
  moreover have "pg_pending st1 = pg_pending st" by (simp add: entry(2) s_def cleanup_simps ensureRemotePoller_def Let_def)
  moreover have "map_of (pg_codes st1) (normalizeCode f) = Some entry" by (simp add: entry(2) update_conv')
  ultimately show ?thesis using code by (simp add: code_bound_def open_code_def)
qed

text \<open>
  C29. A pairing code asks the user once and in time: from the moment it is issued, whatever messages
  arrive, from this window, another one or the rendezvous service, and whatever the user
  does, as long as the same code is not drawn again, at most one request is put before the user for it,
  and none at or after the time it expires.
\<close>

theorem pairing_code_asks_once:
  assumes "codes_ok st" "createSyncCode random ttlMs now st = (entry, st1)" "c = normalizeCode (sc_code entry)"
    and "list_all (\<lambda>(t, op). \<not> issues c op) ops" "list_all (\<lambda>(t, op). sc_expiresAt entry \<le> t \<and> \<not> issues c op) late"
  shows "requests_for c (run_pairing pf channel ops st1) \<le> requests_for c st + 1 \<and>
    requests_for c (run_pairing pf channel (ops @ late) st1) = requests_for c (run_pairing pf channel ops st1)"
proof -
  have b: "code_bound c (sc_expiresAt entry) (requests_for c st + 1) st1"
    using created_bound [OF assms(1,2)] assms(3) by simp
  have b': "code_bound c (sc_expiresAt entry) (requests_for c st + 1) (run_pairing pf channel ops st1)"
    by (rule bound_ops [OF b assms(4)])
  from late_ops [OF this assms(5)] b' show ?thesis by (simp add: code_bound_def run_pairing_def)
qed

text \<open>The first message that names the code in time, however it is written, does ask.\<close>

theorem pairing_code_asks:
  assumes "codes_ok st" "createSyncCode random ttlMs now st = (entry, st1)"
    and "normalizeCode text = normalizeCode (sc_code entry)" "t < sc_expiresAt entry" "map_of (pg_pending st) r = None"
    and m: "field m ''type'' = JStr ''PAIR_REQ''" "field m ''code'' = JStr text" "field m ''requestId'' = r"
  shows "\<exists>req st2. handleMessage channel t m st1 = (True, st2) \<and> pg_out st2 = pg_out st1 @ [EmitRequest req] \<and>
    pq_requestId req = r \<and> pq_deviceId req = field m ''deviceId'' \<and> pq_identityPub req = field m ''identityPub''"
proof -
  have c: "map_of (pg_codes st1) (normalizeCode text) = Some entry" "pg_pending st1 = pg_pending st" "\<not> sc_used entry" "codes_ok st1"
    using created_bound [OF assms(1,2)] assms(3) by (simp_all add: code_bound_def)
  then have "map_of (pg_codes (cleanupExpiredCodes t st1)) (normalizeCode text) = Some entry"
    using code_after_cleanup [OF c(4)] assms(4) by simp
  then show ?thesis using c assms(4,5) m by (simp add: handleMessage_def handlePairReq_def Let_def cleanup_simps)
qed

subsection \<open>Base32 on 32 bits is base32\<close>

text \<open>Bits are listed from the highest.\<close>

definition bits_value :: "bool list \<Rightarrow> nat" where
  "bits_value xs = horner_sum of_bool 2 (rev xs)"

definition low :: "nat \<Rightarrow> 'a::len word \<Rightarrow> bool list" where
  "low n v = map (bit v) (rev [0..<n])"

fun base32_digits :: "bool list \<Rightarrow> nat list" where
  "base32_digits [] = []"
| "base32_digits (x # xs) = bits_value (take 5 (x # xs) @ replicate (5 - length (x # xs)) False) # base32_digits (drop 4 xs)"

definition base32_text :: "bytes \<Rightarrow> string" where
  "base32_text bs = map (\<lambda>n. CODE_ALPHABET ! n) (base32_digits (concat (map (low 8) bs)))"

lemma unat_five: "unat (w AND 31 :: 32 word) = horner_sum of_bool 2 (map (bit w) [0..<5])"
proof -
  have m: "(31 :: 32 word) = mask 5" by (simp add: mask_eq_exp_minus_1)
  have "unat (w AND 31) = take_bit 5 (unat w)" by (simp add: m flip: take_bit_eq_mask) (simp add: unsigned_take_bit_eq)
  also have "\<dots> = horner_sum of_bool 2 (map (bit (unat w)) [0..<5])" by (simp add: horner_sum_bit_eq_take_bit)
  also have "map (bit (unat w)) [0..<5] = map (bit w) [0..<5]" by (simp add: bit_unsigned_iff)
  finally show ?thesis .
qed

lemma low_split: "low (n + k) v = map (\<lambda>i. bit v (k + i)) (rev [0..<n]) @ low k v"
proof -
  have "[0..<n + k] = [0..<k] @ map (\<lambda>i. i + k) [0..<n]"
    using upt_add_eq_append [of 0 k n] map_add_upt [of k n] by (simp add: add.commute)
  then show ?thesis by (simp add: low_def rev_map comp_def add.commute)
qed

lemma length_low [simp]: "length (low n v) = n"
  by (simp add: low_def)

lemma digits_step: "length xs = 5 \<Longrightarrow> base32_digits (xs @ ys) = bits_value xs # base32_digits ys"
  by (cases xs) simp_all

lemma emit_step:
  assumes "5 \<le> n" "n \<le> 32"
  shows "bits_value (map (\<lambda>i. bit v (n - 5 + i)) (rev [0..<5])) = unat (signed_drop_bit (n - 5) v AND 31 :: 32 word)"
proof -
  have "bit v (n - 5 + i) = bit (signed_drop_bit (n - 5) v) i" if "i < 5" for i
    using assms that by (auto simp: bit_signed_drop_bit_iff)
  then have "map (\<lambda>i. bit v (n - 5 + i)) [0..<5] = map (bit (signed_drop_bit (n - 5) v)) [0..<5]" by (intro map_cong refl) simp
  then show ?thesis by (simp only: unat_five bits_value_def rev_map rev_rev_ident)
qed

lemma emit_digits:
  "n \<le> 32 \<Longrightarrow> snd (base32_emit n v) = n mod 5 \<and>
     map (\<lambda>n. CODE_ALPHABET ! n) (base32_digits (low n v @ ys)) =
       fst (base32_emit n v) @ map (\<lambda>n. CODE_ALPHABET ! n) (base32_digits (low (n mod 5) v @ ys))"
proof (induction n v rule: base32_emit.induct)
  case (1 n v)
  show ?case
  proof (cases "n < 5")
    case True
    then show ?thesis by (simp add: base32_emit.simps [of n])
  next
    case False
    have "low n v = map (\<lambda>i. bit v (n - 5 + i)) (rev [0..<5]) @ low (n - 5) v" using low_split [of 5 "n - 5" v] False by simp
    then have "base32_digits (low n v @ ys) = unat (signed_drop_bit (n - 5) v AND 31) # base32_digits (low (n - 5) v @ ys)"
      using emit_step [of n v] False 1(2) by (simp add: digits_step)
    moreover have "(n - 5) mod 5 = n mod 5" using False by (simp add: le_mod_geq)
    ultimately show ?thesis using 1 False by (simp add: base32_emit.simps [of n] split_beta)
  qed
qed

lemma low_extend:
  assumes "n + 8 \<le> 32"
  shows "low (n + 8) (push_bit 8 v OR ucast (b :: byte) :: 32 word) = low n v @ low 8 b"
proof -
  have "map (\<lambda>i. bit (push_bit 8 v OR ucast b :: 32 word) (8 + i)) (rev [0..<n]) = low n v"
  proof -
    have "bit (push_bit 8 v OR ucast b :: 32 word) (8 + i) = bit v i" if "i < n" for i
    proof -
      have "\<not> bit b (8 + i)" using bit_imp_le_length [of b "8 + i"] by auto
      then show ?thesis using assms that by (auto simp: bit_or_iff bit_push_bit_iff bit_ucast_iff)
    qed
    then show ?thesis by (auto simp: low_def)
  qed
  moreover have "low 8 (push_bit 8 v OR ucast b :: 32 word) = low 8 b"
    by (auto simp: low_def bit_or_iff bit_push_bit_iff bit_ucast_iff)
  ultimately show ?thesis by (simp add: low_split)
qed

lemma last_digit:
  assumes "0 < n" "n < 5"
  shows "base32_digits (low n v) = [unat (push_bit (5 - n) v AND 31 :: 32 word)]"
proof -
  obtain x xs where low: "low n v = x # xs" using assms by (cases "low n v") (auto dest: arg_cong [of _ _ length])
  then have len: "length (x # xs) = n" using length_low by metis
  have "rev (low n v @ replicate (5 - n) False) = map (bit (push_bit (5 - n) v)) [0..<5]"
  proof (rule nth_equalityI)
    fix i assume "i < length (rev (low n v @ replicate (5 - n) False))"
    then have "i < 5" using assms by simp
    then show "rev (low n v @ replicate (5 - n) False) ! i = map (bit (push_bit (5 - n) v)) [0..<5] ! i"
      using assms by (auto simp: low_def rev_map nth_append bit_push_bit_iff)
  qed (use assms in simp)
  then have "bits_value (low n v @ replicate (5 - n) False) = unat (push_bit (5 - n) v AND 31)"
    by (simp add: bits_value_def unat_five)
  then show ?thesis using low len assms by simp
qed

lemma loop_digits:
  "n < 5 \<Longrightarrow> base32_loop bs n v = map (\<lambda>n. CODE_ALPHABET ! n) (base32_digits (low n v @ concat (map (low 8) bs)))"
proof (induction bs n v rule: base32_loop.induct)
  case (1 n v)
  then show ?case by (cases "n = 0") (simp_all add: last_digit low_def [of 0])
next
  case (2 b bs n v)
  let ?v = "push_bit 8 v OR ucast b :: 32 word"
  have e: "snd (base32_emit (n + 8) ?v) = (n + 8) mod 5"
    "map (\<lambda>n. CODE_ALPHABET ! n) (base32_digits (low (n + 8) ?v @ ys)) =
       fst (base32_emit (n + 8) ?v) @ map (\<lambda>n. CODE_ALPHABET ! n) (base32_digits (low ((n + 8) mod 5) ?v @ ys))" for ys
    using emit_digits [of "n + 8" ?v] 2(2) by auto
  have "base32_loop bs ((n + 8) mod 5) ?v = map (\<lambda>n. CODE_ALPHABET ! n) (base32_digits (low ((n + 8) mod 5) ?v @ concat (map (low 8) bs)))"
    using 2(1) [OF refl refl prod.collapse] e(1) by simp
  then show ?case using e low_extend [of n v b] 2(2) by (simp add: split_beta Let_def)
qed

text \<open>
  The code is the base32 text of the random bytes, in groups of five bits from the left and
  the last one filled with zeros, though the program collects them in a number of 32 bits that overflows.
\<close>

lemma toBase32_is_base32: "toBase32 bs = base32_text bs"
  using loop_digits [of 0 bs 0] by (simp add: toBase32_def base32_text_def low_def [of 0])

lemma bits_value_inj: "length xs = length ys \<Longrightarrow> bits_value xs = bits_value ys \<Longrightarrow> xs = ys"
proof -
  assume len: "length xs = length ys" and eq: "bits_value xs = bits_value ys"
  have "rev xs ! i = rev ys ! i" if "i < length xs" for i
  proof -
    have "bit (bits_value xs) i = bit (bits_value ys) i" using eq by simp
    then show ?thesis using that len by (simp add: bits_value_def bit_horner_sum_bit_iff)
  qed
  then have "rev xs = rev ys" using len by (intro nth_equalityI) simp_all
  then show ?thesis by simp
qed

lemma bits_value_bound: "bits_value xs < 2 ^ length xs"
  unfolding bits_value_def using horner_sum_of_bool_2_less [of "rev xs"] by simp

lemma digits_inj:
  "length xs = length ys \<Longrightarrow> base32_digits xs = base32_digits ys \<Longrightarrow> xs = ys"
proof (induction xs arbitrary: ys rule: base32_digits.induct)
  case (2 x xs)
  obtain y zs where ys: "ys = y # zs" using 2(2) by (cases ys) auto
  have len: "length xs = length zs" using 2(2) ys by simp
  have "take 5 (x # xs) @ replicate (5 - length (x # xs)) False = take 5 (y # zs) @ replicate (5 - length (y # zs)) False"
    by (rule bits_value_inj) (use 2(3) ys len in \<open>simp_all del: take_Suc_Cons\<close>)
  then have "take 5 (x # xs) = take 5 (y # zs)" using len by simp
  moreover have "drop 4 xs = drop 4 zs" by (rule 2(1)) (use 2(3) ys len in simp_all)
  ultimately have "take 5 (x # xs) @ drop 5 (x # xs) = take 5 (y # zs) @ drop 5 (y # zs)" by simp
  then show ?case unfolding append_take_drop_id ys .
qed simp

lemma digits_bound: "n \<in> set (base32_digits xs) \<Longrightarrow> n < 32"
proof (induction xs rule: base32_digits.induct)
  case (2 x xs)
  have "bits_value (take 5 (x # xs) @ replicate (5 - length (x # xs)) False) < 2 ^ 5"
    using bits_value_bound [of "take 5 (x # xs) @ replicate (5 - length (x # xs)) False"] by (simp add: min_def split: if_splits)
  then show ?case using 2 by auto
qed simp

lemma low_inj: "low LENGTH('a) a = low LENGTH('a) (b :: 'a::len word) \<Longrightarrow> a = b"
proof (rule bit_word_eqI)
  fix i assume low: "low LENGTH('a) a = low LENGTH('a) b" and i: "i < LENGTH('a)"
  have "map (bit a) [0..<LENGTH('a)] = map (bit b) [0..<LENGTH('a)]" using low by (simp add: low_def rev_map)
  then show "bit a i = bit b i" using i by simp
qed

lemma alphabet: "distinct CODE_ALPHABET" "length CODE_ALPHABET = 32"
  "list_all (\<lambda>c. upper_char c = c \<and> \<not> js_space c \<and> c \<noteq> CHR ''-'') CODE_ALPHABET"
  by code_simp+

lemma toBase32_inj: "length as = length bs \<Longrightarrow> toBase32 as = toBase32 bs \<Longrightarrow> as = bs"
proof -
  assume len: "length as = length bs" and eq: "toBase32 as = toBase32 bs"
  let ?d = "\<lambda>bs. base32_digits (concat (map (low 8) bs :: bool list list))"
  have "inj_on ((!) CODE_ALPHABET) {..<32}" using alphabet(1,2) by (auto simp: inj_on_def nth_eq_iff_index_eq)
  moreover have "set (?d as) \<union> set (?d bs) \<subseteq> {..<32}" using digits_bound by auto
  ultimately have "inj_on ((!) CODE_ALPHABET) (set (?d as) \<union> set (?d bs))" by (rule inj_on_subset)
  then have "?d as = ?d bs" using eq by (simp add: toBase32_is_base32 base32_text_def inj_on_map_eq_map)
  moreover have "length (concat (map (low 8) as)) = length (concat (map (low 8) bs))" using len by (simp add: length_concat comp_def sum_list_triv)
  ultimately have "concat (map (low 8) as) = concat (map (low 8) bs)" by (intro digits_inj)
  then have "map (low 8) as = map (low 8) bs" using len by (intro concat_injective) (auto simp: set_zip)
  then show "as = bs" by (rule map_injective) (use low_inj [where 'a = 8] in \<open>auto intro!: injI\<close>)
qed

lemma length_digits: "length (base32_digits xs) = (length xs + 4) div 5"
proof (induction xs rule: base32_digits.induct)
  case (2 x xs)
  show ?case
  proof (cases "length xs < 4")
    case True
    then have "(length xs + 5) div 5 = 1" by (simp add: div_eq_dividend_iff div_add_self2)
    then show ?thesis using True by simp
  next
    case False
    then have "(length xs - 4 + 4) div 5 + 1 = (length xs + 5) div 5" by simp
    then show ?thesis using 2 False by simp
  qed
qed simp

lemma length_toBase32: "length (toBase32 bs) = (8 * length bs + 4) div 5"
  by (simp add: toBase32_is_base32 base32_text_def length_digits length_concat comp_def sum_list_triv mult.commute)

lemma toBase32_chars: "c \<in> set (toBase32 bs) \<Longrightarrow> upper_char c = c \<and> \<not> js_space c \<and> c \<noteq> CHR ''-''"
proof -
  assume "c \<in> set (toBase32 bs)"
  then obtain n where "c = CODE_ALPHABET ! n" "n < 32" using digits_bound by (auto simp: toBase32_is_base32 base32_text_def)
  then have "c \<in> set CODE_ALPHABET" using alphabet(2) nth_mem by simp
  then show ?thesis using alphabet(3) by (simp add: list_all_iff)
qed

text \<open>
  C40. The code a user types is the one that was drawn: the program's base32 on a number of 32 bits, which
  overflows, is base32 of the random bytes; of five bytes a code shows all 40 bits, so that codes of
  different bytes differ, in any spelling that keeps their letters.
\<close>

theorem pairing_codes_differ:
  assumes "length as = 5" "length bs = 5"
  shows "toBase32 as = base32_text as \<and> normalizeCode (generateCode as) = ''NKCSYNC'' @ base32_text as \<and>
    (normalizeCode (generateCode as) = normalizeCode (generateCode bs) \<longleftrightarrow> as = bs)"
proof -
  have norm: "normalizeCode (generateCode cs) = ''NKCSYNC'' @ toBase32 cs" if "length cs = 5" for cs
  proof -
    have len: "length (toBase32 cs) = 8" using that by (simp add: length_toBase32)
    have keep: "map upper_char (filter (\<lambda>c. \<not> js_space c \<and> c \<noteq> CHR ''-'') t) = t" if "set t \<subseteq> set (toBase32 cs)" for t
      using that toBase32_chars by (induction t) auto
    have parts: "map upper_char (filter (\<lambda>c. \<not> js_space c \<and> c \<noteq> CHR ''-'') (take 4 (toBase32 cs))) = take 4 (toBase32 cs)"
      "map upper_char (filter (\<lambda>c. \<not> js_space c \<and> c \<noteq> CHR ''-'') (drop 4 (toBase32 cs))) = drop 4 (toBase32 cs)"
      by (intro keep set_take_subset set_drop_subset)+
    have pre: "map upper_char (filter (\<lambda>c. \<not> js_space c \<and> c \<noteq> CHR ''-'') ''NKC-SYNC-'') = ''NKCSYNC''"
      "filter (\<lambda>c. \<not> js_space c \<and> c \<noteq> CHR ''-'') ''-'' = []" by code_simp+
    have "take 8 (toBase32 cs) = toBase32 cs" "take 4 (drop 4 (toBase32 cs)) = drop 4 (toBase32 cs)" using len by simp_all
    then have "generateCode cs = ''NKC-SYNC-'' @ take 4 (toBase32 cs) @ ''-'' @ drop 4 (toBase32 cs)"
      by (simp only: generateCode_def Let_def)
    then have "normalizeCode (generateCode cs) = ''NKCSYNC'' @ take 4 (toBase32 cs) @ drop 4 (toBase32 cs)"
      unfolding normalizeCode_def by (simp only: filter_append map_append pre parts list.map append_Nil)
    then show ?thesis by simp
  qed
  show ?thesis using norm [OF assms(1)] norm [OF assms(2)] toBase32_inj [of as bs] assms toBase32_is_base32 by auto
qed

subsection \<open>Concrete inputs\<close>

definition sample_bytes :: bytes where "sample_bytes = [1, 2, 3, 4, 255]"

theorem pairing_codes_differ_witness:
  "normalizeCode (generateCode sample_bytes) \<noteq> normalizeCode (generateCode [1, 2, 3, 4, 254]) \<and> length (base32_text sample_bytes) = 8"
  using pairing_codes_differ [of sample_bytes "[1, 2, 3, 4, 254]"] length_toBase32 [of sample_bytes]
  unfolding sample_bytes_def by auto

definition sample_request :: "string \<Rightarrow> json" where
  "sample_request r = JObj [(''type'', JStr ''PAIR_REQ''), (''code'', JStr (generateCode sample_bytes)), (''requestId'', JStr r)]"

lemma sample_created: "codes_ok no_pairing \<and> map_of (pg_pending no_pairing) x = None \<and> requests_for c no_pairing = 0 \<and>
    (\<exists>entry st1. createSyncCode sample_bytes None 10 no_pairing = (entry, st1) \<and>
      normalizeCode (sc_code entry) = normalizeCode (generateCode sample_bytes) \<and> sc_expiresAt entry = 600010)"
  by (simp add: codes_ok_def no_pairing_def requests_for_def createSyncCode_def Let_def DEFAULT_TTL_MS_def)

theorem pairing_code_asks_once_witness:
  "requests_for (normalizeCode (generateCode sample_bytes)) (run_pairing plain_signatures True
      ([(20, OpMessage (sample_request ''r'')), (21, OpMessage (sample_request ''s''))] @ [(600010, OpMessage (sample_request ''t''))])
      (snd (createSyncCode sample_bytes None 10 no_pairing))) \<le> 1"
proof -
  obtain entry st1 where c: "createSyncCode sample_bytes None 10 no_pairing = (entry, st1)"
    "normalizeCode (sc_code entry) = normalizeCode (generateCode sample_bytes)" "sc_expiresAt entry = 600010"
    using sample_created by blast
  have ok: "codes_ok no_pairing" "requests_for c no_pairing = 0" for c using sample_created by blast+
  show ?thesis
    using pairing_code_asks_once [OF ok(1) c(1) c(2) [symmetric],
      of "[(20, OpMessage (sample_request ''r'')), (21, OpMessage (sample_request ''s''))]" "[(600010, OpMessage (sample_request ''t''))]"]
      c(1,3) ok(2) by (simp add: issues_def)
qed

theorem pairing_code_asks_witness:
  "\<exists>req st2. handleMessage True 20 (sample_request ''r'') (snd (createSyncCode sample_bytes None 10 no_pairing)) = (True, st2) \<and>
    pg_out st2 = pg_out (snd (createSyncCode sample_bytes None 10 no_pairing)) @ [EmitRequest req] \<and> pq_requestId req = JStr ''r''"
proof -
  obtain entry st1 where c: "createSyncCode sample_bytes None 10 no_pairing = (entry, st1)"
    "normalizeCode (sc_code entry) = normalizeCode (generateCode sample_bytes)" "sc_expiresAt entry = 600010"
    using sample_created by blast
  have ok: "codes_ok no_pairing" "map_of (pg_pending no_pairing) (JStr ''r'') = None" using sample_created by blast+
  have "20 < sc_expiresAt entry" using c(3) by simp
  from pairing_code_asks [OF ok(1) c(1) c(2) [symmetric] this ok(2), of "sample_request ''r''" True] c(1)
  show ?thesis by (auto simp: sample_request_def)
qed

end
