(* ===== verification/Pin.thy ===== *)
theory Pin
  imports Vault "HOL-Library.AList"
begin

text \<open>
  The PIN that opens the vault without the start key (src/src/security/pin.ts), the session that
  keeps the key between starts (src/src/security/session.ts), and the limiter of attempts
  (src/src/security/rateLimit.ts), over the store of secrets (src/src/security/secretStore.ts). The store holds texts
  by name; a write it does not accept throws, and then changes nothing. A PIN record is the JSON value that
  is read from the store. The password hash and the secret box are arguments.
\<close>

subsection \<open>The store of secrets\<close>

record pin_lib =
  pl_hash_str :: "string \<Rightarrow> bytes \<Rightarrow> string"
  pl_verify :: "string \<Rightarrow> string \<Rightarrow> bool"
  pl_pwhash :: pwhash
  pl_box :: "bytes \<Rightarrow> bytes \<Rightarrow> bytes \<Rightarrow> bytes"
  pl_open :: "bytes \<Rightarrow> bytes \<Rightarrow> bytes \<Rightarrow> bytes option"

record pin_env =
  pe_pf :: platform
  pe_lib :: pin_lib
  pe_available :: bool
  pe_writes :: bool
  pe_now :: time_ms
  pe_salt :: bytes
  pe_nonce :: bytes

type_synonym secrets = "(string \<times> string) list"

datatype pin_error = PinUnavailableError | PinFormatError | NoVaultKey | SecretStoreFailed | PinLibraryThrew

definition secret_get :: "secrets \<Rightarrow> string \<Rightarrow> string option" where
  "secret_get s k = (case map_of s k of Some t \<Rightarrow> if t = [] then None else Some t | None \<Rightarrow> None)"

definition secret_set :: "pin_env \<Rightarrow> string \<Rightarrow> string \<Rightarrow> secrets \<Rightarrow> pin_error + secrets" where
  "secret_set env k v s = (if pe_writes env then Inr (AList.update k v s) else Inl SecretStoreFailed)"

definition secret_remove :: "pin_env \<Rightarrow> string \<Rightarrow> secrets \<Rightarrow> pin_error + secrets" where
  "secret_remove env k s = (if pe_writes env then Inr (AList.delete k s) else Inl SecretStoreFailed)"

definition and_then :: "'e + 'a \<Rightarrow> ('a \<Rightarrow> 'e + 'b) \<Rightarrow> 'e + 'b" where
  "and_then r f = (case r of Inl e \<Rightarrow> Inl e | Inr x \<Rightarrow> f x)"

lemma and_then_simps [simp]: "and_then (Inl e) f = Inl e" "and_then (Inr x) f = f x"
  by (simp_all add: and_then_def)

subsection \<open>PIN records\<close>

definition PIN_RECORD_KEY :: string where "PIN_RECORD_KEY = ''nkc_pin_v1''"
definition PIN_RESET_KEY :: string where "PIN_RESET_KEY = ''nkc_pin_reset_v1''"
definition MAX_BACKOFF_MS :: int where "MAX_BACKOFF_MS = 30000"
definition PIN_ENC_DOMAIN :: string where "PIN_ENC_DOMAIN = ''NKC_PIN_ENC_V1''"

definition PIN_FORMAT :: "string \<Rightarrow> bool" where
  "PIN_FORMAT s \<longleftrightarrow> list_all is_digit s \<and> 4 \<le> length s \<and> length s \<le> 8"

definition assertValidPin :: "string \<Rightarrow> pin_error + string" where
  "assertValidPin pin = (if PIN_FORMAT (trim pin) then Inr (trim pin) else Inl PinFormatError)"

definition derivePinEncKey :: "pin_env \<Rightarrow> string \<Rightarrow> bytes" where
  "derivePinEncKey env pin = pf_generichash (pe_pf env) 32 (concatBytes [encode_utf8 PIN_ENC_DOMAIN, encode_utf8 pin])"

definition pin_usable :: "json \<Rightarrow> bool" where
  "pin_usable v \<longleftrightarrow>
     (field v ''v'' = JNum ''1'' \<and> truthy (field v ''salt_b64'') \<and> truthy (field v ''hash_b64'') \<and>
        truthy (field v ''nonce_b64'') \<and> truthy (field v ''sealedVk_b64'')) \<or>
     (field v ''v'' = JNum ''2'' \<and> truthy (field v ''verifier_str'') \<and>
        truthy (field v ''nonce_b64'') \<and> truthy (field v ''sealedVk_b64''))"

text \<open>A record that cannot be used is removed, whatever is wrong with it.\<close>

definition readPinRecord :: "pin_env \<Rightarrow> secrets \<Rightarrow> pin_error + json option \<times> secrets" where
  "readPinRecord env s = (case secret_get s PIN_RECORD_KEY of
       None \<Rightarrow> Inr (None, s)
     | Some raw \<Rightarrow> (case pf_json_parse (pe_pf env) raw of
         Some v \<Rightarrow> if pin_usable v then Inr (Some v, s) else and_then (secret_remove env PIN_RECORD_KEY s) (\<lambda>s'. Inr (None, s'))
       | None \<Rightarrow> and_then (secret_remove env PIN_RECORD_KEY s) (\<lambda>s'. Inr (None, s'))))"

definition writePinRecord :: "pin_env \<Rightarrow> json \<Rightarrow> secrets \<Rightarrow> pin_error + secrets" where
  "writePinRecord env v s = secret_set env PIN_RECORD_KEY (stringify v) s"

definition setPinNeedsReset :: "pin_env \<Rightarrow> bool \<Rightarrow> secrets \<Rightarrow> pin_error + secrets" where
  "setPinNeedsReset env needsReset s = (if \<not> needsReset then secret_remove env PIN_RESET_KEY s
     else secret_set env PIN_RESET_KEY (stringify (JObj [(''needsReset'', JBool True), (''updatedAt'', int_num (pe_now env))])) s)"

definition getPinNeedsReset :: "pin_env \<Rightarrow> secrets \<Rightarrow> pin_error + bool \<times> secrets" where
  "getPinNeedsReset env s = (case secret_get s PIN_RESET_KEY of
       None \<Rightarrow> Inr (False, s)
     | Some raw \<Rightarrow> (case pf_json_parse (pe_pf env) raw of
         Some v \<Rightarrow> if v = JNull then and_then (secret_remove env PIN_RESET_KEY s) (\<lambda>s'. Inr (False, s'))
                  else Inr (truthy (field v ''needsReset''), s)
       | None \<Rightarrow> and_then (secret_remove env PIN_RESET_KEY s) (\<lambda>s'. Inr (False, s'))))"

definition num_or0 :: "json \<Rightarrow> rat" where
  "num_or0 v = (case finite_num v of Some q \<Rightarrow> q | None \<Rightarrow> 0)"

definition resetFailures :: "time_ms \<Rightarrow> json \<Rightarrow> json" where
  "resetFailures now record' = spread record' [(''failures'', JNum ''0''), (''lockedUntil'', JNum ''0''), (''updatedAt'', int_num now)]"

text \<open>The wait doubles with every failure, up to a bound. The counts are those the program writes, which are not negative.\<close>

definition pin_backoff :: "int \<Rightarrow> int" where
  "pin_backoff failures = min MAX_BACKOFF_MS (1000 * 2 ^ nat (min 5 (failures - 1)))"

definition pin_failures :: "json \<Rightarrow> int" where
  "pin_failures record' = \<lfloor>num_or0 (field record' ''failures'')\<rfloor>"

definition bumpFailures :: "time_ms \<Rightarrow> json \<Rightarrow> json" where
  "bumpFailures now record' = (let failures = pin_failures record' + 1 in
     spread record' [(''failures'', int_num failures), (''lockedUntil'', int_num (now + pin_backoff failures)), (''updatedAt'', int_num now)])"

record pin_status =
  pi_enabled :: bool
  pi_needsReset :: bool
  pi_lockedUntil :: rat
  pi_failures :: rat
  pi_available :: bool

definition getPinStatus :: "pin_env \<Rightarrow> secrets \<Rightarrow> pin_error + pin_status \<times> secrets" where
  "getPinStatus env s0 = (if \<not> pe_available env then
       Inr (\<lparr>pi_enabled = False, pi_needsReset = False, pi_lockedUntil = 0, pi_failures = 0, pi_available = False\<rparr>, s0)
     else and_then (readPinRecord env s0) (\<lambda>(r, s). and_then (getPinNeedsReset env s) (\<lambda>(needsReset, s').
       Inr (\<lparr>pi_enabled = (r \<noteq> None \<or> needsReset), pi_needsReset = needsReset,
         pi_lockedUntil = (case r of Some v \<Rightarrow> num_or0 (field v ''lockedUntil'') | None \<Rightarrow> 0),
         pi_failures = (case r of Some v \<Rightarrow> num_or0 (field v ''failures'') | None \<Rightarrow> 0), pi_available = True\<rparr>, s'))))"

definition pin_record_v2 :: "pin_env \<Rightarrow> string \<Rightarrow> bytes \<Rightarrow> json" where
  "pin_record_v2 env pin vk = JObj [(''v'', JNum ''2''),
     (''verifier_str'', JStr (pl_hash_str (pe_lib env) pin (pe_salt env))),
     (''nonce_b64'', JStr (pf_to_base64 (pe_pf env) (pe_nonce env))),
     (''sealedVk_b64'', JStr (pf_to_base64 (pe_pf env) (pl_box (pe_lib env) vk (pe_nonce env) (derivePinEncKey env pin)))),
     (''failures'', JNum ''0''), (''lockedUntil'', JNum ''0''), (''updatedAt'', int_num (pe_now env))]"

definition setPin :: "pin_env \<Rightarrow> bytes option \<Rightarrow> string \<Rightarrow> secrets \<Rightarrow> pin_error + secrets" where
  "setPin env vaultKey pin s =
     (if \<not> pe_available env then Inl PinUnavailableError
      else and_then (assertValidPin pin) (\<lambda>normalized. case vaultKey of
          None \<Rightarrow> Inl NoVaultKey
        | Some vk \<Rightarrow> and_then (writePinRecord env (pin_record_v2 env normalized vk) s) (setPinNeedsReset env False)))"

datatype pin_result = PinOk bytes | PinNotSet | PinLocked rat | PinMismatch int | PinUnavailable

definition pin_mismatch :: "pin_env \<Rightarrow> json \<Rightarrow> secrets \<Rightarrow> pin_error + pin_result \<times> secrets" where
  "pin_mismatch env record' s = and_then (writePinRecord env (bumpFailures (pe_now env) record') s)
     (\<lambda>s'. Inr (PinMismatch (pin_backoff (pin_failures record' + 1)), s'))"

definition b64_of :: "pin_env \<Rightarrow> json \<Rightarrow> pin_error + bytes" where
  "b64_of env v = (case fromB64 (pe_pf env) v of None \<Rightarrow> Inl PinLibraryThrew | Some bs \<Rightarrow> Inr bs)"

definition verify_v2 :: "pin_env \<Rightarrow> json \<Rightarrow> string \<Rightarrow> secrets \<Rightarrow> pin_error + pin_result \<times> secrets" where
  "verify_v2 env record' pin s = (case str_of (field record' ''verifier_str'') of
       None \<Rightarrow> Inl PinLibraryThrew
     | Some verifier \<Rightarrow>
         if \<not> pl_verify (pe_lib env) verifier pin then pin_mismatch env record' s
         else and_then (b64_of env (field record' ''nonce_b64'')) (\<lambda>nonce.
              and_then (b64_of env (field record' ''sealedVk_b64'')) (\<lambda>sealed.
                case pl_open (pe_lib env) sealed nonce (derivePinEncKey env pin) of
                  None \<Rightarrow> Inl PinLibraryThrew
                | Some vk \<Rightarrow> and_then (writePinRecord env (resetFailures (pe_now env) record') s) (\<lambda>s'. Inr (PinOk vk, s')))))"

text \<open>A record of the first version is replaced by one of the second when its PIN is right.\<close>

definition verify_v1 :: "pin_env \<Rightarrow> json \<Rightarrow> string \<Rightarrow> secrets \<Rightarrow> pin_error + pin_result \<times> secrets" where
  "verify_v1 env record' pin s =
     and_then (b64_of env (field record' ''salt_b64'')) (\<lambda>salt.
     and_then (b64_of env (field record' ''hash_b64'')) (\<lambda>expected.
       case pl_pwhash (pe_lib env) 32 pin salt (num_floor (field record' ''opslimit'')) (num_floor (field record' ''memlimit'')) of
         None \<Rightarrow> Inl PinLibraryThrew
       | Some pinKey \<Rightarrow>
           if length pinKey \<noteq> length expected then Inl PinLibraryThrew
           else if pinKey \<noteq> expected then pin_mismatch env record' s
           else and_then (b64_of env (field record' ''nonce_b64'')) (\<lambda>nonce.
                and_then (b64_of env (field record' ''sealedVk_b64'')) (\<lambda>sealed.
                  case pl_open (pe_lib env) sealed nonce pinKey of
                    None \<Rightarrow> Inl PinLibraryThrew
                  | Some vk \<Rightarrow> (case writePinRecord env (pin_record_v2 env pin vk) s of
                        Inr s' \<Rightarrow> Inr (PinOk vk, s')
                      | Inl _ \<Rightarrow> and_then (writePinRecord env (resetFailures (pe_now env) record') s) (\<lambda>s'. Inr (PinOk vk, s')))))))"

definition verifyPin :: "pin_env \<Rightarrow> string \<Rightarrow> secrets \<Rightarrow> pin_error + pin_result \<times> secrets" where
  "verifyPin env pin s0 =
     (if \<not> pe_available env then Inr (PinUnavailable, s0)
      else and_then (readPinRecord env s0) (\<lambda>(r, s). case r of
          None \<Rightarrow> and_then (getPinNeedsReset env s) (\<lambda>(_, s'). Inr (PinNotSet, s'))
        | Some record' \<Rightarrow>
            let lockedUntil = num_or0 (field record' ''lockedUntil'') in
            if lockedUntil \<noteq> 0 \<and> of_int (pe_now env) < lockedUntil then Inr (PinLocked (lockedUntil - of_int (pe_now env)), s)
            else if \<not> PIN_FORMAT (trim pin) then pin_mismatch env record' s
            else if field record' ''v'' = JNum ''2'' then verify_v2 env record' (trim pin) s
            else verify_v1 env record' (trim pin) s))"

definition clearPin :: "pin_env \<Rightarrow> secrets \<Rightarrow> pin_error + secrets" where
  "clearPin env s = (if \<not> pe_available env then Inl PinUnavailableError
     else and_then (secret_remove env PIN_RECORD_KEY s) (setPinNeedsReset env False))"

definition clearPinRecord :: "pin_env \<Rightarrow> secrets \<Rightarrow> pin_error + secrets" where
  "clearPinRecord env s = (if \<not> pe_available env then Inl PinUnavailableError
     else and_then (secret_remove env PIN_RECORD_KEY s) (setPinNeedsReset env True))"

definition wipePinState :: "pin_env \<Rightarrow> secrets \<Rightarrow> pin_error + secrets" where
  "wipePinState env s = (if \<not> pe_available env then Inr s
     else and_then (secret_remove env PIN_RECORD_KEY s) (secret_remove env PIN_RESET_KEY))"

subsection \<open>Records as they are stored\<close>

lemma pin_usable_object: "pin_usable v \<Longrightarrow> \<exists>kvs. v = JObj kvs"
  by (cases v) (auto simp: pin_usable_def)

lemma pin_usable_meaning:
  assumes "wf_json v" "wf_json w" "meaning w = meaning v" "pin_usable v"
  shows "pin_usable w"
proof -
  have f: "meaning (field v k) = meaning (field w k)" for k by (rule field_meaning [OF assms(1,2) assms(3) [symmetric]])
  have "truthy (field w k) = truthy (field v k)" for k using meaning_truthy [OF f [of k]] by simp
  moreover have "field v ''v'' = JNum n \<Longrightarrow> field w ''v'' = JNum n" for n using f [of "''v''"] by (simp add: meaning_number)
  ultimately show ?thesis using assms(4) by (auto simp: pin_usable_def)
qed

text \<open>The store holds a PIN record.\<close>

definition holds_pin :: "platform \<Rightarrow> secrets \<Rightarrow> json \<Rightarrow> bool" where
  "holds_pin pf s v \<longleftrightarrow> (\<exists>t. secret_get s PIN_RECORD_KEY = Some t \<and> pf_json_parse pf t = Some v) \<and> pin_usable v \<and> wf_json v"

lemma read_held: "holds_pin (pe_pf env) s v \<Longrightarrow> readPinRecord env s = Inr (Some v, s)"
  by (auto simp: holds_pin_def readPinRecord_def)

lemma write_held:
  assumes "vault_codec (pe_pf env)" "pe_writes env" "pin_usable v" "wf_json v"
  shows "\<exists>s' w. writePinRecord env v s = Inr s' \<and> holds_pin (pe_pf env) s' w \<and> wf_json w \<and> meaning w = meaning v"
proof -
  obtain w where w: "pf_json_parse (pe_pf env) (stringify v) = Some w" "wf_json w" "meaning w = meaning v"
    using text_codec.json [OF assms(1) [unfolded vault_codec_def] assms(4)] by blast
  have "stringify v \<noteq> []" using pin_usable_object [OF assms(3)] by auto
  then have "holds_pin (pe_pf env) (AList.update PIN_RECORD_KEY (stringify v) s) w"
    using w pin_usable_meaning [OF assms(4) w(2,3) assms(3)] by (simp add: holds_pin_def secret_get_def update_conv')
  then show ?thesis using assms(2) w by (auto simp: writePinRecord_def secret_set_def)
qed

subsection \<open>The PIN gives the key back\<close>

definition pin_lib_ok :: "platform \<Rightarrow> pin_lib \<Rightarrow> bool" where
  "pin_lib_ok pf lib \<longleftrightarrow> (\<forall>p r. pl_hash_str lib p r \<noteq> [] \<and> pl_verify lib (pl_hash_str lib p r) p) \<and>
     (\<forall>m n k. pl_open lib (pl_box lib m n k) n k = Some m \<and> pl_box lib m n k \<noteq> []) \<and>
     (\<forall>bs. bs \<noteq> [] \<longrightarrow> pf_to_base64 pf bs \<noteq> [])"

lemma setPin_holds:
  assumes "vault_codec (pe_pf env)" "pin_lib_ok (pe_pf env) (pe_lib env)" "pe_nonce env \<noteq> []"
    and "setPin env (Some vk) pin s = Inr s'"
  shows "PIN_FORMAT (trim pin) \<and> (\<exists>w. holds_pin (pe_pf env) s' w \<and> wf_json w \<and> meaning w = meaning (pin_record_v2 env (trim pin) vk))"
proof -
  let ?v = "pin_record_v2 env (trim pin) vk"
  have usable: "pin_usable ?v" using assms(2,3) by (simp add: pin_usable_def pin_record_v2_def pin_lib_ok_def)
  have wf: "wf_json ?v" by (simp add: pin_record_v2_def settable_def is_num_char_def is_digit_def)
  have ok: "pe_writes env" "PIN_FORMAT (trim pin)" "and_then (writePinRecord env ?v s) (setPinNeedsReset env False) = Inr s'"
    using assms(4) by (auto simp: setPin_def assertValidPin_def setPinNeedsReset_def secret_remove_def writePinRecord_def secret_set_def
      and_then_def split: if_splits)
  obtain s1 w where w: "writePinRecord env ?v s = Inr s1" "holds_pin (pe_pf env) s1 w" "wf_json w" "meaning w = meaning ?v"
    using write_held [OF assms(1) ok(1) usable wf] by blast
  have "s' = AList.delete PIN_RESET_KEY s1" using ok w(1) by (simp add: setPinNeedsReset_def secret_remove_def)
  moreover have "PIN_RESET_KEY \<noteq> PIN_RECORD_KEY" by (simp add: PIN_RESET_KEY_def PIN_RECORD_KEY_def)
  ultimately have "holds_pin (pe_pf env) s' w"
    using w(2) by (simp add: holds_pin_def secret_get_def delete_conv')
  then show ?thesis using w ok(2) by blast
qed

text \<open>The store holds a key sealed under a PIN.\<close>

definition sealed_under_pin :: "pin_env \<Rightarrow> string \<Rightarrow> bytes \<Rightarrow> secrets \<Rightarrow> bool" where
  "sealed_under_pin env pin vk s \<longleftrightarrow> PIN_FORMAT (trim pin) \<and>
     (\<exists>w. holds_pin (pe_pf env) s w \<and> wf_json w \<and> meaning w = meaning (pin_record_v2 env (trim pin) vk))"

lemma sealed_pin_other:
  "secret_get s' PIN_RECORD_KEY = secret_get s PIN_RECORD_KEY \<Longrightarrow> sealed_under_pin env pin vk s' = sealed_under_pin env pin vk s"
  by (simp add: sealed_under_pin_def holds_pin_def)

lemma sealed_pin_opens:
  assumes "vault_codec (pe_pf env)" "pin_lib_ok (pe_pf env) (pe_lib env)" "sealed_under_pin env pin vk s"
    and later: "pe_pf env' = pe_pf env" "pe_lib env' = pe_lib env" "pe_available env'" "pe_writes env'" "trim pin' = trim pin"
  shows "\<exists>t. verifyPin env' pin' s = Inr (PinOk vk, AList.update PIN_RECORD_KEY t s)"
proof -
  let ?v = "pin_record_v2 env (trim pin) vk"
  obtain w where fmt: "PIN_FORMAT (trim pin)" and w: "holds_pin (pe_pf env) s w" "wf_json w" "meaning w = meaning ?v"
    using assms(3) by (auto simp: sealed_under_pin_def)
  have wf: "wf_json ?v" by (simp add: pin_record_v2_def settable_def is_num_char_def is_digit_def)
  have f: "meaning (field ?v k) = meaning (field w k)" for k by (rule field_meaning [OF wf w(2) w(3) [symmetric]])
  have parts: "field w ''v'' = JNum ''2''" "field w ''lockedUntil'' = JNum ''0''"
    "field w ''verifier_str'' = JStr (pl_hash_str (pe_lib env) (trim pin) (pe_salt env))"
    "field w ''nonce_b64'' = JStr (pf_to_base64 (pe_pf env) (pe_nonce env))"
    "field w ''sealedVk_b64'' = JStr (pf_to_base64 (pe_pf env) (pl_box (pe_lib env) vk (pe_nonce env) (derivePinEncKey env (trim pin))))"
    using f [of "''v''"] f [of "''lockedUntil''"] f [of "''verifier_str''"] f [of "''nonce_b64''"] f [of "''sealedVk_b64''"]
    by (simp_all add: pin_record_v2_def meaning_string meaning_number)
  have unlocked: "num_or0 (field w ''lockedUntil'') = 0" using parts(2)
    by (simp add: num_or0_def num_value_def exponent_value_def index_value_def Let_def)
  have key: "derivePinEncKey env' = derivePinEncKey env" using later(1) by (simp add: derivePinEncKey_def fun_eq_iff)
  note codec = text_codec.b64 [OF assms(1) [unfolded vault_codec_def]]
  have "readPinRecord env' s = Inr (Some w, s)" using w(1) later(1) by (intro read_held) simp
  then show ?thesis
    using later fmt parts unlocked key codec assms(2)
    by (auto simp: verifyPin_def Let_def verify_v2_def b64_of_def fromB64_def pin_lib_ok_def writePinRecord_def secret_set_def)
qed

text \<open>
  The PIN gives the key of the vault back: what was set with a PIN is returned for the
  same PIN at any later time, with space around it or not, and the count of failures starts anew; the libraries
  verify, open and decode what they made.
\<close>

theorem pin_gives_key_back:
  assumes "vault_codec (pe_pf env)" "pin_lib_ok (pe_pf env) (pe_lib env)" "pe_nonce env \<noteq> []"
    and set': "setPin env (Some vk) pin s = Inr s'"
    and later: "pe_pf env' = pe_pf env" "pe_lib env' = pe_lib env" "pe_available env'" "pe_writes env'" "trim pin' = trim pin"
  shows "\<exists>s''. verifyPin env' pin' s' = Inr (PinOk vk, s'')"
proof -
  have "sealed_under_pin env pin vk s'" unfolding sealed_under_pin_def by (rule setPin_holds [OF assms(1-3) set'])
  from sealed_pin_opens [OF assms(1,2) this later] show ?thesis by blast
qed

subsection \<open>Guesses\<close>

text \<open>
  The times at which a guess was compared with the record and refused, in a sequence of attempts
  that ends with the first right one.
\<close>

fun guesses :: "pin_env \<Rightarrow> (time_ms \<times> string) list \<Rightarrow> secrets \<Rightarrow> time_ms list" where
  "guesses env [] s = []"
| "guesses env ((t, pin) # xs) s = (case verifyPin (env\<lparr>pe_now := t\<rparr>) pin s of
       Inr (PinMismatch _, s') \<Rightarrow> t # guesses env xs s'
     | Inr (PinOk _, _) \<Rightarrow> []
     | Inr (_, s') \<Rightarrow> guesses env xs s'
     | Inl _ \<Rightarrow> guesses env xs s)"

lemma backoff_positive: "0 < pin_backoff f"
  by (simp add: pin_backoff_def MAX_BACKOFF_MS_def)

lemma bump_usable:
  assumes "pin_usable v" "wf_json v"
  shows "pin_usable (bumpFailures now v)" "wf_json (bumpFailures now v)"
    "field (bumpFailures now v) ''failures'' = int_num (pin_failures v + 1)"
    "field (bumpFailures now v) ''lockedUntil'' = int_num (now + pin_backoff (pin_failures v + 1))"
proof -
  have "is_object v" using pin_usable_object [OF assms(1)] by auto
  then show "wf_json (bumpFailures now v)" using assms(2) by (simp add: bumpFailures_def Let_def wf_spread)
  show "pin_usable (bumpFailures now v)" using assms(1) by (simp add: bumpFailures_def Let_def pin_usable_def field_spread)
qed (simp_all add: bumpFailures_def Let_def field_spread)

text \<open>What one attempt does to a record that is there.\<close>

lemma attempt_cases:
  assumes "vault_codec (pe_pf env)" "pe_writes env" "holds_pin (pe_pf env) s v"
  obtains (locked) q where "verifyPin env pin s = Inr (PinLocked q, s)"
    | (refused) s' w b where "verifyPin env pin s = Inr (PinMismatch b, s')" "holds_pin (pe_pf env) s' w"
        "pin_failures w = pin_failures v + 1" "num_or0 (field w ''lockedUntil'') = of_int (pe_now env + pin_backoff (pin_failures v + 1))"
        "num_or0 (field v ''lockedUntil'') = 0 \<or> num_or0 (field v ''lockedUntil'') \<le> of_int (pe_now env)"
    | (right) vk s' where "verifyPin env pin s = Inr (PinOk vk, s')"
    | (threw) e where "verifyPin env pin s = Inl e"
    | (unavailable) "verifyPin env pin s = Inr (PinUnavailable, s)"
proof -
  have v: "pin_usable v" "wf_json v" using assms(3) by (simp_all add: holds_pin_def)
  obtain s' w where w: "writePinRecord env (bumpFailures (pe_now env) v) s = Inr s'" "holds_pin (pe_pf env) s' w" "wf_json w"
    "meaning w = meaning (bumpFailures (pe_now env) v)"
    using write_held [OF assms(1,2) bump_usable(1,2) [OF v]] by blast
  have f: "meaning (field w k) = meaning (field (bumpFailures (pe_now env) v) k)" for k
    by (rule field_meaning [OF w(3) bump_usable(2) [OF v] w(4)])
  have nums: "pin_failures w = pin_failures v + 1"
    "num_or0 (field w ''lockedUntil'') = of_int (pe_now env + pin_backoff (pin_failures v + 1))"
    using meaning_finite [OF f [of "''failures''"]] meaning_finite [OF f [of "''lockedUntil''"]] bump_usable(3,4) [OF v]
    by (simp_all add: pin_failures_def num_or0_def)
  let ?l = "num_or0 (field v ''lockedUntil'')"
  have mism: "pin_mismatch env v s = Inr (PinMismatch (pin_backoff (pin_failures v + 1)), s')" by (simp add: pin_mismatch_def w(1))
  have two: "verify_v2 env v p s = pin_mismatch env v s \<or> (\<exists>vk s'. verify_v2 env v p s = Inr (PinOk vk, s')) \<or> (\<exists>e. verify_v2 env v p s = Inl e)" for p
    by (simp add: verify_v2_def and_then_def split: option.split sum.split)
  have one: "verify_v1 env v p s = pin_mismatch env v s \<or> (\<exists>vk s'. verify_v1 env v p s = Inr (PinOk vk, s')) \<or> (\<exists>e. verify_v1 env v p s = Inl e)" for p
    by (simp add: verify_v1_def and_then_def split: option.split sum.split)
  have run: "verifyPin env pin s = (if \<not> pe_available env then Inr (PinUnavailable, s)
      else if ?l \<noteq> 0 \<and> of_int (pe_now env) < ?l then Inr (PinLocked (?l - of_int (pe_now env)), s)
      else if \<not> PIN_FORMAT (trim pin) then pin_mismatch env v s
      else if field v ''v'' = JNum ''2'' then verify_v2 env v (trim pin) s else verify_v1 env v (trim pin) s)"
    using read_held [OF assms(3)] by (simp add: verifyPin_def Let_def)
  show thesis
  proof (cases "pe_available env \<and> \<not> (?l \<noteq> 0 \<and> of_int (pe_now env) < ?l)")
    case True
    then have "verifyPin env pin s = pin_mismatch env v s \<or> (\<exists>vk s'. verifyPin env pin s = Inr (PinOk vk, s')) \<or> (\<exists>e. verifyPin env pin s = Inl e)"
      using run one [of "trim pin"] two [of "trim pin"] by auto
    then show thesis using refused [OF _ w(2) nums] mism True right threw by fastforce
  next
    case False
    then have "verifyPin env pin s = Inr (PinUnavailable, s) \<or> verifyPin env pin s = Inr (PinLocked (?l - of_int (pe_now env)), s)"
      unfolding run by auto
    then show thesis using locked unavailable by blast
  qed
qed

lemma guesses_spaced:
  assumes "vault_codec (pe_pf env)" "pe_writes env"
  shows "holds_pin (pe_pf env) s v \<Longrightarrow> \<forall>(t, pin) \<in> set xs. 0 \<le> t \<Longrightarrow>
    (guesses env xs s \<noteq> [] \<longrightarrow> num_or0 (field v ''lockedUntil'') \<le> of_int (hd (guesses env xs s))) \<and>
    (\<forall>k. Suc k < length (guesses env xs s) \<longrightarrow>
       guesses env xs s ! k + pin_backoff (pin_failures v + int k + 1) \<le> guesses env xs s ! Suc k)"
proof (induction xs arbitrary: s v)
  case (Cons x xs)
  obtain t pin where x: "x = (t, pin)" by (cases x)
  have t: "0 \<le> t" and rest: "\<forall>(t, pin) \<in> set xs. 0 \<le> t" using Cons.prems(2) x by auto
  have held: "holds_pin (pe_pf (env\<lparr>pe_now := t\<rparr>)) s v" using Cons.prems(1) by simp
  have env: "vault_codec (pe_pf (env\<lparr>pe_now := t\<rparr>))" "pe_writes (env\<lparr>pe_now := t\<rparr>)" using assms by simp_all
  from env held show ?case
  proof (cases rule: attempt_cases [where pin = pin])
    case (refused s' w b)
    let ?ts = "guesses env xs s'"
    have ih: "(?ts \<noteq> [] \<longrightarrow> num_or0 (field w ''lockedUntil'') \<le> of_int (hd ?ts)) \<and>
        (\<forall>k. Suc k < length ?ts \<longrightarrow> ?ts ! k + pin_backoff (pin_failures w + int k + 1) \<le> ?ts ! Suc k)"
      by (rule Cons.IH [OF _ rest]) (use refused(2) in simp)
    have run: "guesses env (x # xs) s = t # ?ts" using refused(1) x by simp
    have first: "?ts \<noteq> [] \<Longrightarrow> t + pin_backoff (pin_failures v + 1) \<le> hd ?ts"
    proof -
      assume "?ts \<noteq> []"
      then have "(of_int (t + pin_backoff (pin_failures v + 1)) :: rat) \<le> of_int (hd ?ts)" using ih refused(4) by simp
      then show ?thesis by (simp only: of_int_le_iff)
    qed
    have "(t # ?ts) ! k + pin_backoff (pin_failures v + int k + 1) \<le> (t # ?ts) ! Suc k" if "Suc k < length (t # ?ts)" for k
    proof (cases k)
      case 0
      then show ?thesis using first that by (cases ?ts) auto
    next
      case (Suc j)
      have "?ts ! j + pin_backoff (pin_failures w + int j + 1) \<le> ?ts ! Suc j" using ih that Suc by simp
      moreover have "pin_failures w + int j + 1 = pin_failures v + int k + 1" using refused(3) Suc by simp
      ultimately show ?thesis using Suc by simp
    qed
    moreover have "num_or0 (field v ''lockedUntil'') \<le> of_int t" using refused(5) t by auto
    ultimately show ?thesis unfolding run by simp
  qed (use Cons.IH [OF Cons.prems(1) rest] x in simp_all)
qed simp

text \<open>
  C18. Guesses of the PIN are spaced: whatever is entered and whenever, of a record of either
  version, each guess that is compared waits for the backoff of the failures before it, counted over every attempt
  until the right one. From the sixth failure on a guess takes 30 seconds.
\<close>

theorem pin_guesses_are_spaced:
  assumes "vault_codec (pe_pf env)" "pe_writes env" "holds_pin (pe_pf env) s v" "\<forall>(t, pin) \<in> set xs. 0 \<le> t"
    and "Suc k < length (guesses env xs s)"
  shows "guesses env xs s ! k + pin_backoff (pin_failures v + int k + 1) \<le> guesses env xs s ! Suc k \<and>
    (5 \<le> pin_failures v + int k \<longrightarrow> guesses env xs s ! k + 30000 \<le> guesses env xs s ! Suc k)"
proof -
  have "pin_backoff (pin_failures v + int k + 1) = 30000" if "5 \<le> pin_failures v + int k"
    using that by (simp add: pin_backoff_def MAX_BACKOFF_MS_def min_def)
  then show ?thesis using guesses_spaced [OF assms(1-4)] assms(5) by auto
qed

subsection \<open>The key without the verifier\<close>

lemma digits_are: "{c. is_digit c} = char_of ` {48..57 :: nat}"
proof (intro set_eqI iffI)
  fix c assume "c \<in> {c. is_digit c}"
  then have "(of_char c :: nat) \<in> {48..57}" by (simp add: is_digit_def Let_def)
  then have "char_of (of_char c :: nat) \<in> char_of ` {48..57 :: nat}" by (rule imageI)
  then show "c \<in> char_of ` {48..57 :: nat}" by simp
qed (auto simp: is_digit_def Let_def)

lemma card_digits: "card {c. is_digit c} = 10"
proof -
  have "inj_on char_of {48..57 :: nat}"
    by (rule inj_on_inverseI [where g = of_char]) simp
  then show ?thesis by (simp add: digits_are card_image)
qed

lemma card_pins_of: "card {s. list_all is_digit s \<and> length s = n} = 10 ^ n"
proof -
  have "{s. list_all is_digit s \<and> length s = n} = {xs. set xs \<subseteq> {c. is_digit c} \<and> length xs = n}" by (auto simp: list_all_iff)
  moreover have "finite {c. is_digit c}" by (simp add: digits_are)
  ultimately show ?thesis by (simp add: card_lists_length_eq card_digits)
qed

lemma finite_pins_of: "finite {s. list_all is_digit s \<and> length s = n}"
  using card_pins_of [of n] by (metis card.infinite power_not_zero zero_neq_numeral)

lemma pins_by_length: "{s. PIN_FORMAT s} = (\<Union>n \<in> {4..8}. {s. list_all is_digit s \<and> length s = n})"
  by (auto simp: PIN_FORMAT_def)

lemma card_pins: "card {s. PIN_FORMAT s} = 111110000"
proof -
  have "card {s. PIN_FORMAT s} = (\<Sum>n \<in> {4..8}. card {s. list_all is_digit s \<and> length s = n})"
    unfolding pins_by_length by (rule card_UN_disjoint) (auto simp: finite_pins_of)
  also have "\<dots> = (\<Sum>n \<in> {4..8 :: nat}. 10 ^ n)" by (simp add: card_pins_of)
  also have "{4..8 :: nat} = {4, 5, 6, 7, 8}" by auto
  also have "(\<Sum>n \<in> {4, 5, 6, 7, 8 :: nat}. (10 :: nat) ^ n) = 111110000" by simp
  finally show ?thesis .
qed

text \<open>
  The verifier costs an argon2 hash, but the key is sealed under one fast hash of the PIN, without
  salt: who reads the record opens it with one of 111110000 keys that are the same for every record, and meets
  neither the verifier nor the wait between guesses. A record of the first version, whose key is
  sealed under the argon2 hash itself, is replaced by such a one.
\<close>

theorem sealed_key_needs_no_verifier:
  assumes "vault_codec (pe_pf env)" "pin_lib_ok (pe_pf env) (pe_lib env)" "pe_nonce env \<noteq> []"
    and "setPin env (Some vk) pin s = Inr s'"
  shows "\<exists>w p nonce sealed. holds_pin (pe_pf env) s' w \<and> fromB64 (pe_pf env) (field w ''nonce_b64'') = Some nonce \<and>
    fromB64 (pe_pf env) (field w ''sealedVk_b64'') = Some sealed \<and> p \<in> {s. PIN_FORMAT s} \<and> card {s. PIN_FORMAT s} = 111110000 \<and>
    pl_open (pe_lib env) sealed nonce (pf_generichash (pe_pf env) 32 (encode_utf8 PIN_ENC_DOMAIN @ encode_utf8 p)) = Some vk"
proof -
  let ?v = "pin_record_v2 env (trim pin) vk"
  obtain w where fmt: "PIN_FORMAT (trim pin)" and w: "holds_pin (pe_pf env) s' w" "wf_json w" "meaning w = meaning ?v"
    using setPin_holds [OF assms] by blast
  have wf: "wf_json ?v" by (simp add: pin_record_v2_def settable_def is_num_char_def is_digit_def)
  have f: "meaning (field ?v k) = meaning (field w k)" for k by (rule field_meaning [OF wf w(2) w(3) [symmetric]])
  have "field w ''nonce_b64'' = JStr (pf_to_base64 (pe_pf env) (pe_nonce env))"
    "field w ''sealedVk_b64'' = JStr (pf_to_base64 (pe_pf env) (pl_box (pe_lib env) vk (pe_nonce env) (derivePinEncKey env (trim pin))))"
    using f [of "''nonce_b64''"] f [of "''sealedVk_b64''"] by (simp_all add: pin_record_v2_def meaning_string)
  moreover have "pl_open (pe_lib env) (pl_box (pe_lib env) vk (pe_nonce env) (derivePinEncKey env (trim pin))) (pe_nonce env)
      (derivePinEncKey env (trim pin)) = Some vk" using assms(2) by (simp add: pin_lib_ok_def)
  ultimately show ?thesis using w(1) fmt text_codec.b64 [OF assms(1) [unfolded vault_codec_def]] card_pins
    by (intro exI [of _ w] exI [of _ "trim pin"]) (simp add: fromB64_def derivePinEncKey_def concatBytes_def)
qed

subsection \<open>The session\<close>

record session =
  se_key :: bytes
  se_createdAt :: time_ms
  se_expiresAt :: rat

definition SESSION_KEY :: string where "SESSION_KEY = ''nkc_session_v1''"
definition MAX_TTL_MS :: int where "MAX_TTL_MS = 2 ^ 53 - 1"

definition clampTtl :: "int \<Rightarrow> int" where
  "clampTtl ttlMs = min ttlMs MAX_TTL_MS"

definition session_json :: "bytes \<Rightarrow> time_ms \<Rightarrow> int \<Rightarrow> json" where
  "session_json key now expiresAt = JObj [(''v'', JNum ''1''), (''vaultKey_b64'', JStr (encodeBase64Url key)),
     (''createdAt'', int_num now), (''expiresAt'', int_num expiresAt)]"

text \<open>The session in memory is set before the store is asked.\<close>

definition setSession :: "pin_env \<Rightarrow> bytes \<Rightarrow> int \<Rightarrow> session option \<times> secrets \<Rightarrow> pin_error option \<times> session option \<times> secrets" where
  "setSession env vaultKey ttlMs ms =
     (let expiresAt = min (pe_now env + clampTtl ttlMs) MAX_TTL_MS;
          m = Some \<lparr>se_key = vaultKey, se_createdAt = pe_now env, se_expiresAt = of_int expiresAt\<rparr>
      in case secret_set env SESSION_KEY (stringify (session_json vaultKey (pe_now env) expiresAt)) (snd ms) of
           Inl e \<Rightarrow> (Some e, m, snd ms) | Inr s \<Rightarrow> (None, m, s))"

definition removed_session :: "pin_env \<Rightarrow> secrets \<Rightarrow> secrets" where
  "removed_session env s = (case secret_remove env SESSION_KEY s of Inl _ \<Rightarrow> s | Inr s' \<Rightarrow> s')"

definition clearSession :: "pin_env \<Rightarrow> session option \<times> secrets \<Rightarrow> session option \<times> secrets" where
  "clearSession env ms = (None, removed_session env (snd ms))"

definition session_valid :: "time_ms \<Rightarrow> json \<Rightarrow> bool" where
  "session_valid now v \<longleftrightarrow> field v ''v'' = JNum ''1'' \<and> str_of (field v ''vaultKey_b64'') \<noteq> None \<and>
     finite_num (field v ''createdAt'') \<noteq> None \<and> finite_num (field v ''expiresAt'') \<noteq> None \<and>
     of_int now < num_or0 (field v ''expiresAt'')"

definition getSession :: "pin_env \<Rightarrow> session option \<times> secrets \<Rightarrow> (bytes \<times> rat) option \<times> session option \<times> secrets" where
  "getSession env ms = (case fst ms of
       Some m \<Rightarrow> if se_expiresAt m \<le> of_int (pe_now env) then (None, clearSession env ms)
                else (Some (se_key m, se_expiresAt m), ms)
     | None \<Rightarrow> (case secret_get (snd ms) SESSION_KEY of
         None \<Rightarrow> (None, ms)
       | Some raw \<Rightarrow> (case pf_json_parse (pe_pf env) raw of
           Some v \<Rightarrow> if \<not> session_valid (pe_now env) v then (None, None, removed_session env (snd ms))
             else (case decodeBase64Url (text_of_str (field v ''vaultKey_b64'')) of
                 None \<Rightarrow> (None, None, removed_session env (snd ms))
               | Some key \<Rightarrow> (Some (key, num_or0 (field v ''expiresAt'')),
                   Some \<lparr>se_key = key, se_createdAt = \<lfloor>num_or0 (field v ''createdAt'')\<rfloor>, se_expiresAt = num_or0 (field v ''expiresAt'')\<rparr>, snd ms))
         | None \<Rightarrow> (None, None, removed_session env (snd ms)))))"

text \<open>A session that was stored is found by the next start of the application, until it expires.\<close>

theorem session_survives_restart:
  assumes "vault_codec (pe_pf env)" "pe_writes env" "pe_pf env' = pe_pf env"
    and live: "pe_now env' < min (pe_now env + clampTtl ttlMs) MAX_TTL_MS"
  shows "\<exists>m s m'. setSession env key ttlMs ms = (None, m, s) \<and>
    getSession env' (None, s) = (Some (key, of_int (min (pe_now env + clampTtl ttlMs) MAX_TTL_MS)), m', s)"
proof -
  let ?x = "min (pe_now env + clampTtl ttlMs) MAX_TTL_MS"
  let ?v = "session_json key (pe_now env) ?x"
  have wf: "wf_json ?v" by (simp add: session_json_def settable_def is_num_char_def is_digit_def)
  obtain w where w: "pf_json_parse (pe_pf env) (stringify ?v) = Some w" "wf_json w" "meaning w = meaning ?v"
    using text_codec.json [OF assms(1) [unfolded vault_codec_def] wf] by blast
  have f: "meaning (field w k) = meaning (field ?v k)" for k by (rule field_meaning [OF w(2) wf w(3)])
  have "field w ''v'' = JNum ''1''" "field w ''vaultKey_b64'' = JStr (encodeBase64Url key)"
    using f [of "''v''"] f [of "''vaultKey_b64''"] by (simp_all add: session_json_def meaning_string meaning_number)
  moreover have "finite_num (field w ''createdAt'') = Some (of_int (pe_now env))" "finite_num (field w ''expiresAt'') = Some (of_int ?x)"
    using meaning_finite [OF f [of "''createdAt''"]] meaning_finite [OF f [of "''expiresAt''"]] by (simp_all add: session_json_def)
  moreover have "(of_int (pe_now env') :: rat) < of_int ?x" using live by (simp only: of_int_less_iff)
  moreover have "stringify ?v \<noteq> []" by (simp add: session_json_def)
  ultimately show ?thesis
    using w(1) assms(2,3) by (simp add: setSession_def Let_def secret_set_def getSession_def secret_get_def update_conv' session_valid_def
      num_or0_def text_of_str_def decode_encode)
qed

subsection \<open>The limiter of attempts\<close>

record limit_state =
  lm_fails :: nat
  lm_nextAllowedAt :: time_ms

type_synonym limits = "string \<Rightarrow> limit_state option"

text \<open>The result: the time to wait, if any.\<close>

definition checkAllowed :: "time_ms \<Rightarrow> string \<Rightarrow> limits \<Rightarrow> int option" where
  "checkAllowed now key states = (case states key of
       None \<Rightarrow> None
     | Some st \<Rightarrow> if lm_nextAllowedAt st \<le> now then None else Some (max 0 (lm_nextAllowedAt st - now)))"

definition recordFail :: "time_ms \<Rightarrow> string \<Rightarrow> limits \<Rightarrow> limits" where
  "recordFail now key states =
     (let fails = (case states key of Some st \<Rightarrow> lm_fails st | None \<Rightarrow> 0) + 1
      in states(key \<mapsto> \<lparr>lm_fails = fails, lm_nextAllowedAt = now + min (2 ^ fails * 500) 30000\<rparr>))"

definition recordSuccess :: "string \<Rightarrow> limits \<Rightarrow> limits" where
  "recordSuccess key states = states(key := None)"

text \<open>After a failure the next attempt waits, the longer the more failed before, but never over 30 seconds.\<close>

theorem failure_makes_wait:
  assumes "now \<le> t" "t < now + 1000"
  shows "\<exists>w. checkAllowed t key (recordFail now key states) = Some w \<and> 0 < w \<and> w \<le> 30000 \<and>
    checkAllowed t key (recordSuccess key (recordFail now key states)) = None"
proof -
  have "(1000 :: int) \<le> min (2 ^ (n + 1) * 500) 30000" for n by simp
  then have "t < now + min (2 ^ ((case states key of Some st \<Rightarrow> lm_fails st | None \<Rightarrow> 0) + 1) * 500) 30000"
    using assms(2) by (meson add_left_mono order_less_le_trans)
  then show ?thesis using assms(1) by (auto simp: checkAllowed_def recordFail_def recordSuccess_def Let_def)
qed

subsection \<open>Concrete inputs\<close>

definition plain_pin_lib :: pin_lib where
  "plain_pin_lib = \<lparr>pl_hash_str = (\<lambda>p r. CHR ''$'' # p), pl_verify = (\<lambda>v p. v = CHR ''$'' # p),
     pl_pwhash = (\<lambda>n p s ops mem. Some (encode_utf8 p)), pl_box = (\<lambda>m n k. 0 # m), pl_open = (\<lambda>c n k. Some (tl c))\<rparr>"

definition plain_pin_env :: pin_env where
  "plain_pin_env = \<lparr>pe_pf = vault_platform, pe_lib = plain_pin_lib, pe_available = True, pe_writes = True, pe_now = 5,
     pe_salt = [1], pe_nonce = [2]\<rparr>"

lemma plain_pin_ok: "vault_codec (pe_pf plain_pin_env)" "pin_lib_ok (pe_pf plain_pin_env) (pe_lib plain_pin_env)" "pe_nonce plain_pin_env \<noteq> []"
proof -
  have "encodeBase64 bs \<noteq> []" if "bs \<noteq> []" for bs
  proof
    assume "encodeBase64 bs = []"
    moreover have "encodeBase64 [] = []" by (simp add: encodeBase64_def btoa_def toBinaryString_def)
    ultimately show False using decode_encode_padded [of bs] decode_encode_padded [of "[]"] that by simp
  qed
  then show "vault_codec (pe_pf plain_pin_env)" "pin_lib_ok (pe_pf plain_pin_env) (pe_lib plain_pin_env)" "pe_nonce plain_pin_env \<noteq> []"
    using vault_platform_ok(1) by (simp_all add: plain_pin_env_def pin_lib_ok_def plain_pin_lib_def vault_platform_def)
qed

lemma plain_pin_set: "\<exists>s'. setPin plain_pin_env (Some [7]) ''1234'' [] = Inr s'"
  by (simp add: setPin_def assertValidPin_def plain_pin_env_def trim_def js_space_def Let_def PIN_FORMAT_def is_digit_def
    writePinRecord_def secret_set_def setPinNeedsReset_def secret_remove_def)

theorem pin_gives_key_back_witness:
  "\<exists>s' s''. setPin plain_pin_env (Some [7]) ''1234'' [] = Inr s' \<and> verifyPin plain_pin_env '' 1234'' s' = Inr (PinOk [7], s'')"
proof -
  obtain s' where s: "setPin plain_pin_env (Some [7]) ''1234'' [] = Inr s'" using plain_pin_set by blast
  have "trim '' 1234'' = trim ''1234''" by (simp add: trim_def js_space_def Let_def)
  from pin_gives_key_back [OF plain_pin_ok s refl refl _ _ this] s show ?thesis by (auto simp: plain_pin_env_def)
qed

theorem sealed_key_needs_no_verifier_witness:
  "\<exists>s' w p nonce sealed. setPin plain_pin_env (Some [7]) ''1234'' [] = Inr s' \<and> holds_pin (pe_pf plain_pin_env) s' w \<and>
    fromB64 (pe_pf plain_pin_env) (field w ''nonce_b64'') = Some nonce \<and>
    fromB64 (pe_pf plain_pin_env) (field w ''sealedVk_b64'') = Some sealed \<and> p \<in> {s. PIN_FORMAT s} \<and>
    pl_open (pe_lib plain_pin_env) sealed nonce (pf_generichash (pe_pf plain_pin_env) 32 (encode_utf8 PIN_ENC_DOMAIN @ encode_utf8 p)) = Some [7]"
proof -
  obtain s' where s: "setPin plain_pin_env (Some [7]) ''1234'' [] = Inr s'" using plain_pin_set by blast
  from sealed_key_needs_no_verifier [OF plain_pin_ok s] s show ?thesis by blast
qed

text \<open>Two wrong guesses: the one after a second and a half counts, the one after half a second does not.\<close>

definition guess_record :: json where
  "guess_record = JObj [(''v'', JNum ''2''), (''verifier_str'', JStr ''x''), (''nonce_b64'', JStr ''eA==''), (''sealedVk_b64'', JStr ''eA==''),
     (''failures'', JNum ''0''), (''lockedUntil'', JNum ''0'')]"

definition guess_store :: secrets where
  "guess_store = [(PIN_RECORD_KEY, stringify guess_record)]"

lemma guess_store_read: "\<exists>w. holds_pin vault_platform guess_store w \<and> meaning w = meaning guess_record \<and> wf_json w"
proof -
  have ok: "wf_json guess_record" "pin_usable guess_record" "stringify guess_record \<noteq> []"
    by (simp_all add: guess_record_def settable_def is_num_char_def is_digit_def pin_usable_def)
  obtain w where w: "parse_text (stringify guess_record) = Some w" "wf_json w" "meaning w = meaning guess_record"
    using written_text_is_read [OF ok(1)] by blast
  then show ?thesis using ok pin_usable_meaning [OF ok(1) w(2,3) ok(2)]
    by (auto simp: holds_pin_def guess_store_def secret_get_def vault_platform_def)
qed

lemma wrong_pin_counts:
  assumes "holds_pin vault_platform s v" "num_or0 (field v ''lockedUntil'') \<le> of_int t" "0 \<le> t"
  shows "\<exists>s' w. verifyPin (plain_pin_env\<lparr>pe_now := t\<rparr>) ''x'' s = Inr (PinMismatch (pin_backoff (pin_failures v + 1)), s') \<and>
    holds_pin vault_platform s' w \<and> pin_failures w = pin_failures v + 1 \<and>
    num_or0 (field w ''lockedUntil'') = of_int (t + pin_backoff (pin_failures v + 1))"
proof -
  let ?env = "plain_pin_env\<lparr>pe_now := t\<rparr>"
  have e: "vault_codec (pe_pf ?env)" "pe_writes ?env" "pe_available ?env" "pe_pf ?env = vault_platform" "pe_now ?env = t"
    using plain_pin_ok(1) by (simp_all add: plain_pin_env_def)
  have bad: "\<not> PIN_FORMAT (trim ''x'')" by (simp add: trim_def js_space_def Let_def PIN_FORMAT_def)
  have read: "readPinRecord ?env s = Inr (Some v, s)" by (rule read_held) (simp add: e assms(1))
  have run: "verifyPin ?env ''x'' s = pin_mismatch ?env v s"
    using read e(3,5) assms(2,3) bad by (auto simp: verifyPin_def Let_def)
  have held: "holds_pin (pe_pf ?env) s v" using assms(1) e(4) by simp
  from e(1,2) held show ?thesis
  proof (cases rule: attempt_cases [where pin = "''x''"])
    case (refused s' w b)
    moreover have "b = pin_backoff (pin_failures v + 1)" using refused(1) run by (auto simp: pin_mismatch_def and_then_def split: sum.splits)
    ultimately show ?thesis using e(4,5) by auto
  qed (auto simp: run pin_mismatch_def and_then_def writePinRecord_def secret_set_def e(2) split: if_splits)
qed

theorem pin_guesses_are_spaced_witness:
  "guesses plain_pin_env [(0, ''x''), (500, ''x''), (1500, ''x'')] guess_store ! 0 + 1000
     \<le> guesses plain_pin_env [(0, ''x''), (500, ''x''), (1500, ''x'')] guess_store ! 1"
proof -
  let ?xs = "[(0, ''x''), (500, ''x''), (1500, ''x'')] :: (time_ms \<times> string) list"
  obtain v where v: "holds_pin vault_platform guess_store v" "meaning v = meaning guess_record" "wf_json v"
    using guess_store_read by blast
  have wf: "wf_json guess_record" by (simp add: guess_record_def settable_def is_num_char_def is_digit_def)
  have f: "meaning (field v k) = meaning (field guess_record k)" for k by (rule field_meaning [OF v(3) wf v(2)])
  have zero: "num_or0 (field v ''lockedUntil'') = 0" "pin_failures v = 0"
    using meaning_finite [OF f [of "''lockedUntil''"]] meaning_finite [OF f [of "''failures''"]]
    by (simp_all add: pin_failures_def num_or0_def guess_record_def num_value_def exponent_value_def index_value_def Let_def)
  obtain s1 w1 where one: "verifyPin (plain_pin_env\<lparr>pe_now := 0\<rparr>) ''x'' guess_store = Inr (PinMismatch (pin_backoff 1), s1)"
    "holds_pin vault_platform s1 w1" "pin_failures w1 = 1" "num_or0 (field w1 ''lockedUntil'') = of_int (0 + pin_backoff 1)"
    using wrong_pin_counts [OF v(1), of 0] zero by auto
  have b: "pin_backoff 1 = 1000" by (simp add: pin_backoff_def MAX_BACKOFF_MS_def)
  have locked: "verifyPin (plain_pin_env\<lparr>pe_now := 500\<rparr>) ''x'' s1 = Inr (PinLocked 500, s1)"
    using read_held [of "plain_pin_env\<lparr>pe_now := 500\<rparr>" s1 w1] one(2,4) b
    by (simp add: verifyPin_def Let_def plain_pin_env_def)
  obtain s2 where two: "verifyPin (plain_pin_env\<lparr>pe_now := 1500\<rparr>) ''x'' s1 = Inr (PinMismatch (pin_backoff 2), s2)"
    using wrong_pin_counts [OF one(2), of 1500] one(3,4) b by auto
  have run: "guesses plain_pin_env ?xs guess_store = [0, 1500]" using one(1) locked two by simp
  have "guesses plain_pin_env ?xs guess_store ! 0 + pin_backoff (pin_failures v + int 0 + 1) \<le> guesses plain_pin_env ?xs guess_store ! Suc 0"
    by (rule conjunct1 [OF pin_guesses_are_spaced]) (use plain_pin_ok(1) v(1) run in \<open>simp_all add: plain_pin_env_def\<close>)
  then show ?thesis using zero b by simp
qed

theorem session_survives_restart_witness:
  "\<exists>m s m'. setSession plain_pin_env [7] 1000 (None, []) = (None, m, s) \<and>
    getSession (plain_pin_env\<lparr>pe_now := 900\<rparr>) (None, s) = (Some ([7], 1005), m', s)"
  using session_survives_restart [OF plain_pin_ok(1), of "plain_pin_env\<lparr>pe_now := 900\<rparr>" 1000 "[7]" "(None, [])"]
  by (simp add: plain_pin_env_def clampTtl_def MAX_TTL_MS_def)

theorem failure_makes_wait_witness:
  "\<exists>w. checkAllowed 500 ''k'' (recordFail 0 ''k'' (\<lambda>_. None)) = Some w \<and> 0 < w \<and> w \<le> 30000 \<and>
    checkAllowed 500 ''k'' (recordSuccess ''k'' (recordFail 0 ''k'' (\<lambda>_. None))) = None"
  by (rule failure_makes_wait) simp_all

end
