(* ===== verification/App_Start.thy ===== *)
theory App_Start
  imports Vault_Rotation Pin Identity_Keys
begin

text \<open>
  What opens and closes the application (src/src/app/App.tsx): the start, a new account, unlocking with the
  start key and with the PIN, locking, logging out, the PIN's settings and the change of the start
  key, over the vault (Vault_Db, Vault_Rotation), the PIN and the session (Pin), and the keys of the
  device (Identity_Keys); with the repair of texts and the sample data of a new account (src/src/db/repo.ts), and
  the screen that shows the start key (src/src/components/StartKey.tsx, src/src/security/startKey.ts).

  The messages of a conversation are loaded by an argument, which App_Load fills with the operation of
  Message_Store (src/src/security/messageStore.ts), and so is the repair of one text, which is about
  characters outside of the model's strings; the sample data, whose texts are Korean, are an
  argument too. The handlers run to their end, so that their guards against a second
  call and their time limits do not show. Toasts, routes and logs are left out.
\<close>

subsection \<open>State\<close>

datatype ui_mode = Locked | Onboarding | InApp
datatype start_tab = CreateTab | StartKeyTab

record app_data =
  ad_user :: json
  ad_friends :: "json list"
  ad_convs :: "json list"
  ad_messages :: "(string \<times> json list) list"

record shell =
  sh_db :: vault_db
  sh_keys :: key_store
  sh_session :: "session option"
  sh_mode :: ui_mode
  sh_tab :: start_tab
  sh_pinEnabled :: bool
  sh_pinNeedsReset :: bool
  sh_unlocked :: bool
  sh_data :: "app_data option"

text \<open>What throws: an operation of the database, or anything else.\<close>

datatype shell_error = DbThrew db_error | OtherThrew

record shell_env =
  sx_vault :: vault_env
  sx_pin :: pin_env
  sx_stores :: store_env
  sx_identity :: key_pair
  sx_dh :: key_pair
  sx_uuid :: string
  sx_vk :: bytes
  sx_userId :: string
  sx_samples :: "json list \<times> (json \<times> json list) list"
  sx_fix :: "string \<Rightarrow> string"
  sx_load :: "json \<Rightarrow> json option \<Rightarrow> json \<Rightarrow> vault_db \<Rightarrow> (shell_error + json list) \<times> vault_db"

definition secrets_of :: "shell \<Rightarrow> secrets" where
  "secrets_of sh = ks_secret (sh_keys sh)"

definition set_secrets :: "secrets \<Rightarrow> shell \<Rightarrow> shell" where
  "set_secrets s sh = sh\<lparr>sh_keys := (sh_keys sh)\<lparr>ks_secret := s\<rparr>\<rparr>"

subsection \<open>The repair of texts\<close>

definition TEXT_ENCODING_FIX_KEY :: string where
  "TEXT_ENCODING_FIX_KEY = ''text_encoding_fix_v1''"

definition fixed :: "(string \<Rightarrow> string) \<Rightarrow> json \<Rightarrow> json" where
  "fixed fix v = (case v of JStr s \<Rightarrow> JStr (fix s) | _ \<Rightarrow> v)"

text \<open>The rows of one table, with the two fields that are texts and the operation that saves a row.\<close>

fun repair_rows :: "vault_env \<Rightarrow> (string \<Rightarrow> string) \<Rightarrow> bytes \<Rightarrow> string \<Rightarrow> string \<times> string \<Rightarrow>
    (string \<Rightarrow> json \<Rightarrow> vault_db \<Rightarrow> db_error + vault_db) \<Rightarrow> enc_row list \<Rightarrow> vault_db \<Rightarrow> db_error option \<times> vault_db" where
  "repair_rows env fix vk type names save [] db = (None, db)"
| "repair_rows env fix vk type names save (r # rs) db = (case open_row (ve_pf env) vk type r of
       Inl e \<Rightarrow> (Some e, db)
     | Inr v \<Rightarrow>
         let a = fixed fix (field v (fst names)); b = fixed fix (field v (snd names))
         in if a = field v (fst names) \<and> b = field v (snd names) then repair_rows env fix vk type names save rs db
            else (case save (text_of_str (field v ''id'')) (spread v [(fst names, a), (snd names, b)]) db of
                Inl e \<Rightarrow> (Some e, db) | Inr db' \<Rightarrow> repair_rows env fix vk type names save rs db'))"

definition repairVaultTextEncoding :: "vault_env \<Rightarrow> (string \<Rightarrow> string) \<Rightarrow> vault_db \<Rightarrow> db_error option \<times> vault_db" where
  "repairVaultTextEncoding env fix db =
     (if map_of (vd_meta db) TEXT_ENCODING_FIX_KEY = Some ''1'' then (None, db)
      else (case requireVaultKey db of
          Inl e \<Rightarrow> (Some e, db)
        | Inr vk \<Rightarrow>
            (case repair_rows env fix vk ''profile'' (''displayName'', ''status'') (vault_saveProfile env) (vd_profiles db) db of
               (Some e, db1) \<Rightarrow> (Some e, db1)
             | (None, db1) \<Rightarrow>
                 (case repair_rows env fix vk ''conv'' (''name'', ''lastMessage'') (vault_saveConversation env) (vd_conversations db1) db1 of
                    (Some e, db2) \<Rightarrow> (Some e, db2)
                  | (None, db2) \<Rightarrow> (None, put_meta TEXT_ENCODING_FIX_KEY ''1'' db2)))))"

subsection \<open>Filling the application\<close>

definition resetAppState :: "shell \<Rightarrow> shell" where
  "resetAppState sh = sh\<lparr>sh_unlocked := False, sh_data := None\<rparr>"

definition clearStoredSession :: "shell_env \<Rightarrow> shell \<Rightarrow> shell" where
  "clearStoredSession env sh = (let (m, s) = clearSession (sx_pin env) (sh_session sh, secrets_of sh)
     in set_secrets s (sh\<lparr>sh_session := m\<rparr>))"

definition lock_shell :: "shell \<Rightarrow> shell" where
  "lock_shell sh = sh\<lparr>sh_db := lockVault (sh_db sh)\<rparr>"

text \<open>The session ends: the stored session, the key, the data that is shown.\<close>

definition sign_out :: "shell_env \<Rightarrow> shell \<Rightarrow> shell" where
  "sign_out env sh = resetAppState (lock_shell (clearStoredSession env sh))"

definition onboard :: "start_tab \<Rightarrow> shell \<Rightarrow> shell" where
  "onboard tab sh = sh\<lparr>sh_mode := Onboarding, sh_tab := tab\<rparr>"

definition set_pin_flags :: "bool \<Rightarrow> bool \<Rightarrow> shell \<Rightarrow> shell" where
  "set_pin_flags enabled needsReset sh = sh\<lparr>sh_pinEnabled := enabled, sh_pinNeedsReset := needsReset\<rparr>"

text \<open>The user's own profile is the first of its kind.\<close>

definition user_profile :: "json list \<Rightarrow> json option" where
  "user_profile profiles = find (\<lambda>p. field p ''kind'' = JStr ''user'') profiles"

definition friend_profiles :: "json list \<Rightarrow> json list" where
  "friend_profiles profiles = filter (\<lambda>p. field p ''kind'' = JStr ''friend'') profiles"

text \<open>The partner of a conversation of two; the list of participants may be missing, which throws.\<close>

definition partner_of :: "json \<Rightarrow> json list \<Rightarrow> json \<Rightarrow> shell_error + json option" where
  "partner_of user friends conv = (if field conv ''type'' = JStr ''group'' then Inr None
     else (case field conv ''participants'' of
         JArr ids \<Rightarrow> if length ids \<noteq> 2 then Inr None
           else (case find (\<lambda>i. truthy i \<and> i \<noteq> field user ''id'') ids of
               None \<Rightarrow> Inr None | Some i \<Rightarrow> Inr (find (\<lambda>p. field p ''id'' = i) friends))
       | _ \<Rightarrow> Inl OtherThrew))"

fun load_messages :: "shell_env \<Rightarrow> json \<Rightarrow> json list \<Rightarrow> json list \<Rightarrow> vault_db \<Rightarrow>
    (shell_error + (string \<times> json list) list) \<times> vault_db" where
  "load_messages env user friends [] db = (Inr [], db)"
| "load_messages env user friends (conv # convs) db = (case partner_of user friends conv of
       Inl e \<Rightarrow> (Inl e, db)
     | Inr partner \<Rightarrow> (case sx_load env conv partner (field user ''id'') db of
         (Inl e, db1) \<Rightarrow> (Inl e, db1)
       | (Inr ms, db1) \<Rightarrow> (case load_messages env user friends convs db1 of
           (Inl e, db2) \<Rightarrow> (Inl e, db2)
         | (Inr rest, db2) \<Rightarrow> (Inr ((text_of_str (field conv ''id''), ms) # rest), db2))))"

text \<open>The texts of errors for which the storage is reset: those of the library for a record that does
  not open, and of a ciphertext that is too short.\<close>

fun resets_storage :: "shell_error \<Rightarrow> bool" where
  "resets_storage (DbThrew (VaultFailed e)) = (e \<in> {OpenThrew, BadCiphertextLength})"
| "resets_storage _ = False"

definition hydrate_failed :: "shell_env \<Rightarrow> shell_error \<Rightarrow> shell \<Rightarrow> bool \<times> shell" where
  "hydrate_failed env e sh0 =
     (let sh = sign_out env (if resets_storage e then sh0\<lparr>sh_db := resetVaultStorage (sh_db sh0)\<rparr> else sh0)
      in case getPinStatus (sx_pin env) (secrets_of sh) of
           Inl _ \<Rightarrow> (False, sh)
         | Inr (st, s) \<Rightarrow>
             let sh1 = set_pin_flags (pi_enabled st) (pi_needsReset st) (set_secrets s sh)
             in (True, if pi_enabled st \<and> \<not> pi_needsReset st then sh1\<lparr>sh_mode := Locked\<rparr> else onboard StartKeyTab sh1))"

definition fill_app :: "shell_env \<Rightarrow> json \<Rightarrow> json list \<Rightarrow> shell \<Rightarrow> bool \<times> shell" where
  "fill_app env user friends sh = (case listConversations (sx_vault env) (sh_db sh) of
       Inl e \<Rightarrow> hydrate_failed env (DbThrew e) sh
     | Inr convs \<Rightarrow> (case load_messages env user friends convs (sh_db sh) of
         (Inl e, db) \<Rightarrow> hydrate_failed env e (sh\<lparr>sh_db := db\<rparr>)
       | (Inr ms, db) \<Rightarrow> (True, sh\<lparr>sh_db := db, sh_unlocked := True, sh_mode := InApp,
           sh_data := Some \<lparr>ad_user = user, ad_friends = friends, ad_convs = convs, ad_messages = ms\<rparr>\<rparr>)))"

text \<open>False where it throws itself.\<close>

definition hydrateVault :: "shell_env \<Rightarrow> shell \<Rightarrow> bool \<times> shell" where
  "hydrateVault env sh0 =
     (if (case vd_key (sh_db sh0) of None \<Rightarrow> False | Some vk \<Rightarrow> \<not> verifyVaultKeyId (sx_vault env) vk (sh_db sh0))
      then (True, onboard StartKeyTab (set_pin_flags False False (sign_out env (sh0\<lparr>sh_db := resetVaultStorage (sh_db sh0)\<rparr>))))
      else (case repairVaultTextEncoding (sx_vault env) (sx_fix env) (sh_db sh0) of
          (Some e, db) \<Rightarrow> hydrate_failed env (DbThrew e) (sh0\<lparr>sh_db := db\<rparr>)
        | (None, db) \<Rightarrow>
            let sh = sh0\<lparr>sh_db := db\<rparr>
            in case listProfiles (sx_vault env) db of
                 Inl e \<Rightarrow> hydrate_failed env (DbThrew e) sh
               | Inr profiles \<Rightarrow> (case user_profile profiles of
                   None \<Rightarrow> (True, onboard CreateTab (set_pin_flags False False (sign_out env sh)))
                 | Some user \<Rightarrow> fill_app env user (friend_profiles profiles) sh)))"

subsection \<open>The start of the application\<close>

definition setStoredSession :: "shell_env \<Rightarrow> bytes \<Rightarrow> shell \<Rightarrow> bool \<times> shell" where
  "setStoredSession env vk sh =
     (case setSession (sx_pin env) vk MAX_TTL_MS (sh_session sh, secrets_of sh) of
        (e, m, s) \<Rightarrow> (e = None, set_secrets s (sh\<lparr>sh_session := m\<rparr>)))"

definition getStoredSession :: "shell_env \<Rightarrow> shell \<Rightarrow> bytes option \<times> shell" where
  "getStoredSession env sh = (case getSession (sx_pin env) (sh_session sh, secrets_of sh) of
     (r, m, s) \<Rightarrow> (map_option fst r, set_secrets s (sh\<lparr>sh_session := m\<rparr>)))"

definition use_key :: "bytes \<Rightarrow> shell \<Rightarrow> shell" where
  "use_key vk sh = sh\<lparr>sh_db := setVaultKey vk (sh_db sh)\<rparr>"

text \<open>Stores the session and fills the application; False where one of them throws.\<close>

definition enter :: "shell_env \<Rightarrow> bytes \<Rightarrow> shell \<Rightarrow> bool \<times> shell" where
  "enter env vk sh = (case setStoredSession env vk sh of
     (False, sh1) \<Rightarrow> (False, sh1) | (True, sh1) \<Rightarrow> hydrateVault env sh1)"

definition boot :: "shell_env \<Rightarrow> shell \<Rightarrow> shell" where
  "boot env sh0 = (case getVaultHeader (sx_vault env) (sh_db sh0) of
       (None, db) \<Rightarrow> onboard CreateTab (sh0\<lparr>sh_db := db\<rparr>)
     | (Some _, db) \<Rightarrow> (let sh = sh0\<lparr>sh_db := db\<rparr> in
         case getPinStatus (sx_pin env) (secrets_of sh) of
           Inl _ \<Rightarrow> sh\<lparr>sh_mode := Onboarding\<rparr>
         | Inr (st, s) \<Rightarrow>
             let sh1 = set_pin_flags (pi_enabled st) (pi_needsReset st) (set_secrets s sh)
             in if pi_enabled st \<and> \<not> pi_needsReset st then sh1\<lparr>sh_mode := Locked\<rparr>
                else (case getStoredSession env sh1 of
                    (None, sh2) \<Rightarrow> onboard StartKeyTab sh2
                  | (Some vk, sh2) \<Rightarrow> (case enter env vk (use_key vk sh2) of
                      (True, sh3) \<Rightarrow> sh3 | (False, sh3) \<Rightarrow> sh3\<lparr>sh_mode := Onboarding\<rparr>))))"

subsection \<open>Handlers\<close>

text \<open>The keys of the device; a stored text that is broken throws.\<close>

definition ensureDeviceKeys :: "shell_env \<Rightarrow> shell \<Rightarrow> bool \<times> shell" where
  "ensureDeviceKeys env sh =
     (let (i, k1) = getOrCreateIdentityKeypair (sx_stores env) (sx_identity env) (sh_keys sh);
          (d, k2) = getOrCreateDhKeypair (sx_stores env) (sx_dh env) k1
      in if i = None \<or> d = None then (False, sh\<lparr>sh_keys := k2\<rparr>)
         else (True, sh\<lparr>sh_keys := snd (getOrCreateDeviceId (sx_stores env) (sx_uuid env) k2)\<rparr>))"

text \<open>One save after the other, up to the first that throws; what was saved before it stays.\<close>

fun save_each :: "('a \<Rightarrow> vault_db \<Rightarrow> db_error option \<times> vault_db) \<Rightarrow> 'a list \<Rightarrow> vault_db \<Rightarrow> db_error option \<times> vault_db" where
  "save_each save [] db = (None, db)"
| "save_each save (x # xs) db = (case save x db of (Some e, db') \<Rightarrow> (Some e, db') | (None, db') \<Rightarrow> save_each save xs db')"

definition or_kept :: "vault_db \<Rightarrow> db_error + vault_db \<Rightarrow> db_error option \<times> vault_db" where
  "or_kept db r = (case r of Inl e \<Rightarrow> (Some e, db) | Inr db' \<Rightarrow> (None, db'))"

definition id_of :: "json \<Rightarrow> string" where
  "id_of v = text_of_str (field v ''id'')"

text \<open>A sample conversation, with its messages after it.\<close>

definition save_sample :: "vault_env \<Rightarrow> json \<times> json list \<Rightarrow> vault_db \<Rightarrow> db_error option \<times> vault_db" where
  "save_sample env sample db = (case or_kept db (vault_saveConversation env (id_of (fst sample)) (fst sample) db) of
       (Some e, db1) \<Rightarrow> (Some e, db1)
     | (None, db1) \<Rightarrow> save_each (\<lambda>m d. or_kept d (vault_saveMessage env (id_of m) (text_of_str (field m ''convId''))
         (nullish (finite_num (field m ''ts'')) 0) m d)) (snd sample) db1)"

text \<open>The user, then the sample friends, then the conversations.\<close>

definition seedVaultData :: "vault_env \<Rightarrow> json \<Rightarrow> json list \<times> (json \<times> json list) list \<Rightarrow> vault_db \<Rightarrow> db_error option \<times> vault_db" where
  "seedVaultData env user samples db =
     (case save_each (\<lambda>p d. or_kept d (vault_saveProfile env (id_of p) p d)) (user # fst samples) db of
        (Some e, db1) \<Rightarrow> (Some e, db1) | (None, db1) \<Rightarrow> save_each (save_sample env) (snd samples) db1)"

definition new_user :: "shell_env \<Rightarrow> string \<Rightarrow> json" where
  "new_user env displayName = JObj [(''id'', JStr (sx_userId env)), (''displayName'', JStr displayName),
     (''status'', JStr ''Hello from NKC''), (''theme'', JStr ''light''), (''kind'', JStr ''user''),
     (''createdAt'', int_num (ve_now (sx_vault env))), (''updatedAt'', int_num (ve_now (sx_vault env)))]"

definition handleCreate :: "shell_env \<Rightarrow> string \<Rightarrow> shell \<Rightarrow> shell" where
  "handleCreate env displayName sh0 =
     (let sh1 = clearStoredSession env sh0;
          sh2 = sh1\<lparr>sh_db := bootstrapVault (sx_vault env) (sx_vk env) (resetVaultStorage (sh_db sh1))\<rparr>
      in case ensureDeviceKeys env sh2 of
           (False, sh3) \<Rightarrow> lock_shell sh3
         | (True, sh3) \<Rightarrow> (case seedVaultData (sx_vault env) (new_user env displayName) (sx_samples env) (sh_db sh3) of
             (Some e, db) \<Rightarrow> lock_shell (sh3\<lparr>sh_db := db\<rparr>)
           | (None, db) \<Rightarrow> (case enter env (sx_vk env) (sh3\<lparr>sh_db := db\<rparr>) of
               (True, sh4) \<Rightarrow> sh4 | (False, sh4) \<Rightarrow> lock_shell sh4)))"

definition handleStartKeyUnlock :: "shell_env \<Rightarrow> string \<Rightarrow> shell \<Rightarrow> shell" where
  "handleStartKeyUnlock env startKey sh0 =
     (if \<not> validateStartKey startKey then sh0
      else (case unlockVault (sx_vault env) startKey (sh_db sh0) of
          (Some _, db) \<Rightarrow> lock_shell (sh0\<lparr>sh_db := db\<rparr>)
        | (None, db) \<Rightarrow> (case ensureDeviceKeys env (sh0\<lparr>sh_db := db\<rparr>) of
            (False, sh1) \<Rightarrow> lock_shell sh1
          | (True, sh1) \<Rightarrow> (case (vd_key db, listProfiles (sx_vault env) db) of
              (Some vk, Inr profiles) \<Rightarrow>
                if profiles = [] then lock_shell sh1
                else (case enter env vk sh1 of (True, sh2) \<Rightarrow> sh2 | (False, sh2) \<Rightarrow> lock_shell sh2)
            | _ \<Rightarrow> lock_shell sh1))))"

datatype unlock_result = UnlockOk | UnlockRefused pin_result | UnlockStale | UnlockFailed | UnlockThrew

text \<open>Takes the PIN away and asks for a new one; False where it throws.\<close>

definition drop_pin :: "shell_env \<Rightarrow> shell \<Rightarrow> bool \<times> shell" where
  "drop_pin env sh = (case clearPinRecord (sx_pin env) (secrets_of sh) of
     Inl _ \<Rightarrow> (False, sh) | Inr s \<Rightarrow> (True, set_pin_flags True True (set_secrets s sh)))"

definition handlePinUnlock :: "shell_env \<Rightarrow> string \<Rightarrow> shell \<Rightarrow> unlock_result \<times> shell" where
  "handlePinUnlock env pin sh0 = (case verifyPin (sx_pin env) pin (secrets_of sh0) of
       Inl _ \<Rightarrow> (UnlockThrew, sh0)
     | Inr (r, s) \<Rightarrow> (let sh = set_secrets s sh0 in case r of
         PinOk vk \<Rightarrow>
           if \<not> verifyVaultKeyId (sx_vault env) vk (sh_db sh)
           then (case drop_pin env sh of
               (True, sh1) \<Rightarrow> (UnlockStale, sh1)
             | (False, sh1) \<Rightarrow> (case drop_pin env sh1 of (True, sh2) \<Rightarrow> (UnlockFailed, sh2) | (False, sh2) \<Rightarrow> (UnlockThrew, sh2)))
           else (case enter env vk (use_key vk sh) of
               (True, sh1) \<Rightarrow> (UnlockOk, sh1)
             | (False, sh1) \<Rightarrow> (case drop_pin env sh1 of (True, sh2) \<Rightarrow> (UnlockFailed, sh2) | (False, sh2) \<Rightarrow> (UnlockThrew, sh2)))
       | _ \<Rightarrow> (UnlockRefused r, sh)))"

text \<open>The state of the PIN is read again where the application takes it as not usable.\<close>

definition resynced_pin :: "shell_env \<Rightarrow> shell \<Rightarrow> shell" where
  "resynced_pin env sh = (if sh_pinEnabled sh \<and> \<not> sh_pinNeedsReset sh then sh
     else (case getPinStatus (sx_pin env) (secrets_of sh) of
         Inl _ \<Rightarrow> sh | Inr (st, s) \<Rightarrow> set_pin_flags (pi_enabled st) (pi_needsReset st) (set_secrets s sh)))"

definition handleLock :: "shell_env \<Rightarrow> shell \<Rightarrow> shell" where
  "handleLock env sh0 = (let sh = resynced_pin env sh0 in
     if \<not> sh_pinEnabled sh \<or> sh_pinNeedsReset sh then sh else (sign_out env sh)\<lparr>sh_mode := Locked\<rparr>)"

definition handleLogout :: "shell_env \<Rightarrow> shell \<Rightarrow> shell" where
  "handleLogout env sh0 = (let sh = sign_out env sh0 in
     case getPinStatus (sx_pin env) (secrets_of sh) of
       Inl _ \<Rightarrow> sh
     | Inr (st, s) \<Rightarrow>
         let sh1 = set_pin_flags (pi_enabled st) (pi_needsReset st) (set_secrets s sh)
         in if pi_enabled st \<and> \<not> pi_needsReset st then sh1\<lparr>sh_mode := Locked\<rparr> else onboard StartKeyTab sh1)"

definition handleSetPin :: "shell_env \<Rightarrow> string \<Rightarrow> shell \<Rightarrow> pin_error option \<times> shell" where
  "handleSetPin env pin sh = (case setPin (sx_pin env) (vd_key (sh_db sh)) pin (secrets_of sh) of
     Inl e \<Rightarrow> (Some e, sh) | Inr s \<Rightarrow> (None, set_pin_flags True False (set_secrets s sh)))"

text \<open>True where the PIN is gone; otherwise it throws.\<close>

definition handleDisablePin :: "shell_env \<Rightarrow> shell \<Rightarrow> bool \<times> shell" where
  "handleDisablePin env sh = (case clearPin (sx_pin env) (secrets_of sh) of
       Inl _ \<Rightarrow> (False, sh)
     | Inr s \<Rightarrow> (case getPinStatus (sx_pin env) s of
         Inl _ \<Rightarrow> (False, set_secrets s sh)
       | Inr (st, s') \<Rightarrow> if pi_enabled st then (False, set_secrets s' sh) else (True, set_pin_flags False False (set_secrets s' sh))))"

text \<open>The change of the start key; True where it does not throw. A key of the wrong form is only reported.\<close>

definition handleRotateStartKey :: "shell_env \<Rightarrow> string \<Rightarrow> shell \<Rightarrow> bool \<times> shell" where
  "handleRotateStartKey env newKey sh0 = (if \<not> validateStartKey newKey then (True, sh0)
     else (case rotateVaultKeys (sx_vault env) newKey (sh_db sh0) of
         (Some _, db) \<Rightarrow> (False, sh0\<lparr>sh_db := db\<rparr>)
       | (None, db) \<Rightarrow> (let sh = sh0\<lparr>sh_db := db\<rparr> in
           case (case vd_key db of None \<Rightarrow> (True, sh) | Some vk \<Rightarrow> setStoredSession env vk sh) of
             (False, sh1) \<Rightarrow> (False, sh1)
           | (True, sh1) \<Rightarrow> drop_pin env sh1)))"

text \<open>The lock screen's way to the start key: the PIN is dropped, even where that throws.\<close>

definition handleUseStartKey :: "shell_env \<Rightarrow> shell \<Rightarrow> shell" where
  "handleUseStartKey env sh = onboard StartKeyTab (set_pin_flags True True (snd (drop_pin env sh)))"

text \<open>Deleting everything; the program starts anew after it. False where it throws before.\<close>

definition restarted :: "shell \<Rightarrow> shell" where
  "restarted sh = (lock_shell sh)\<lparr>sh_session := None, sh_mode := Onboarding, sh_tab := CreateTab,
     sh_pinEnabled := False, sh_pinNeedsReset := False, sh_unlocked := False, sh_data := None\<rparr>"

definition handleWipe :: "shell_env \<Rightarrow> shell \<Rightarrow> bool \<times> shell" where
  "handleWipe env sh0 = (let sh = clearStoredSession env sh0 in
     case wipePinState (sx_pin env) (secrets_of sh) of
       Inl _ \<Rightarrow> (False, sh)
     | Inr s \<Rightarrow> (True, boot env (restarted (set_secrets s (sh\<lparr>sh_db := resetVaultStorage (sh_db sh)\<rparr>)))))"

text \<open>The lock screen deletes the vault too (src/src/components/Unlock.tsx), and leaves the PIN.\<close>

definition handleReset :: "shell_env \<Rightarrow> shell \<Rightarrow> shell" where
  "handleReset env sh0 = (let sh = clearStoredSession env sh0
     in boot env (restarted (sh\<lparr>sh_db := resetVaultStorage (sh_db sh)\<rparr>)))"

subsection \<open>Open and closed\<close>

text \<open>
  What the screens let happen, and more: an account is made and the start key entered before the
  application is open, a PIN at the lock screen, and the rest while it is open. What the open application saves
  keeps the key, and is followed by filling it again. Each step meets an environment of its own.
\<close>

inductive shell_step :: "(shell_env \<Rightarrow> bool) \<Rightarrow> shell \<Rightarrow> shell \<Rightarrow> bool" for W where
  create: "W env \<Longrightarrow> sh_mode sh = Onboarding \<Longrightarrow> shell_step W sh (handleCreate env displayName sh)"
| start_key: "W env \<Longrightarrow> sh_mode sh = Onboarding \<Longrightarrow> shell_step W sh (handleStartKeyUnlock env startKey sh)"
| enter_pin: "W env \<Longrightarrow> sh_mode sh = Locked \<Longrightarrow> shell_step W sh (snd (handlePinUnlock env pin sh))"
| use_start_key: "W env \<Longrightarrow> sh_mode sh = Locked \<Longrightarrow> shell_step W sh (handleUseStartKey env sh)"
| lock: "W env \<Longrightarrow> sh_mode sh = InApp \<Longrightarrow> shell_step W sh (handleLock env sh)"
| logout: "W env \<Longrightarrow> sh_mode sh = InApp \<Longrightarrow> shell_step W sh (handleLogout env sh)"
| set_pin: "W env \<Longrightarrow> sh_mode sh = InApp \<Longrightarrow> shell_step W sh (snd (handleSetPin env pin sh))"
| disable_pin: "W env \<Longrightarrow> sh_mode sh = InApp \<Longrightarrow> shell_step W sh (snd (handleDisablePin env sh))"
| new_start_key: "W env \<Longrightarrow> sh_mode sh = InApp \<Longrightarrow> shell_step W sh (snd (handleRotateStartKey env startKey sh))"
| edit: "W env \<Longrightarrow> sh_mode sh = InApp \<Longrightarrow> vd_key db = vd_key (sh_db sh) \<Longrightarrow>
    shell_step W sh (snd (hydrateVault env (sh\<lparr>sh_db := db\<rparr>)))"
| wipe: "W env \<Longrightarrow> sh_mode sh = InApp \<Longrightarrow> handleWipe env sh = (True, sh') \<Longrightarrow> shell_step W sh sh'"
| reset: "W env \<Longrightarrow> sh_mode sh = Locked \<Longrightarrow> shell_step W sh (handleReset env sh)"
| restart: "W env \<Longrightarrow> shell_step W sh (boot env (restarted sh))"

definition closed_shell :: "shell \<Rightarrow> bool" where
  "closed_shell sh \<longleftrightarrow> vd_key (sh_db sh) = None \<and> sh_session sh = None \<and> \<not> sh_unlocked sh \<and> sh_data sh = None"

definition open_shell :: "shell \<Rightarrow> bool" where
  "open_shell sh \<longleftrightarrow> vd_key (sh_db sh) \<noteq> None \<and> sh_unlocked sh \<and> sh_data sh \<noteq> None"

definition shell_ok :: "shell \<Rightarrow> bool" where
  "shell_ok sh \<longleftrightarrow> (if sh_mode sh = InApp then open_shell sh else closed_shell sh)"

text \<open>An environment whose store accepts writes, and where reading messages keeps the key.\<close>

definition shell_works :: "shell_env \<Rightarrow> bool" where
  "shell_works env \<longleftrightarrow> pe_writes (sx_pin env) \<and> (\<forall>c p u db. vd_key (snd (sx_load env c p u db)) = vd_key db)"

named_theorems shell_simps

lemma secrets_of_simps [shell_simps]:
  "secrets_of (sh\<lparr>sh_db := db\<rparr>) = secrets_of sh" "secrets_of (sh\<lparr>sh_mode := mode\<rparr>) = secrets_of sh"
  "secrets_of (sh\<lparr>sh_session := m\<rparr>) = secrets_of sh" "secrets_of (sh\<lparr>sh_data := x\<rparr>) = secrets_of sh"
  "secrets_of (sh\<lparr>sh_unlocked := b\<rparr>) = secrets_of sh"
  by (simp_all add: secrets_of_def)

lemma set_secrets_simps [shell_simps]:
  "sh_db (set_secrets s sh) = sh_db sh" "sh_mode (set_secrets s sh) = sh_mode sh" "sh_session (set_secrets s sh) = sh_session sh"
  "sh_unlocked (set_secrets s sh) = sh_unlocked sh" "sh_data (set_secrets s sh) = sh_data sh" "secrets_of (set_secrets s sh) = s"
  "sh_pinEnabled (set_secrets s sh) = sh_pinEnabled sh" "sh_pinNeedsReset (set_secrets s sh) = sh_pinNeedsReset sh"
  by (simp_all add: set_secrets_def secrets_of_def)

lemma set_pin_flags_simps [shell_simps]:
  "sh_db (set_pin_flags a b sh) = sh_db sh" "sh_mode (set_pin_flags a b sh) = sh_mode sh" "sh_session (set_pin_flags a b sh) = sh_session sh"
  "sh_unlocked (set_pin_flags a b sh) = sh_unlocked sh" "sh_data (set_pin_flags a b sh) = sh_data sh"
  "secrets_of (set_pin_flags a b sh) = secrets_of sh" "sh_pinEnabled (set_pin_flags a b sh) = a" "sh_pinNeedsReset (set_pin_flags a b sh) = b"
  by (simp_all add: set_pin_flags_def secrets_of_def)

lemma onboard_simps [shell_simps]:
  "sh_db (onboard t sh) = sh_db sh" "sh_mode (onboard t sh) = Onboarding" "sh_session (onboard t sh) = sh_session sh"
  "sh_unlocked (onboard t sh) = sh_unlocked sh" "sh_data (onboard t sh) = sh_data sh" "secrets_of (onboard t sh) = secrets_of sh"
  by (simp_all add: onboard_def secrets_of_def)

lemma lock_shell_simps [shell_simps]:
  "sh_db (lock_shell sh) = (sh_db sh)\<lparr>vd_key := None\<rparr>" "sh_mode (lock_shell sh) = sh_mode sh"
  "sh_session (lock_shell sh) = sh_session sh" "sh_unlocked (lock_shell sh) = sh_unlocked sh" "sh_data (lock_shell sh) = sh_data sh"
  "secrets_of (lock_shell sh) = secrets_of sh" "sh_pinEnabled (lock_shell sh) = sh_pinEnabled sh"
  "sh_pinNeedsReset (lock_shell sh) = sh_pinNeedsReset sh"
  by (simp_all add: lock_shell_def lockVault_def clearVaultKey_def secrets_of_def)

lemma clearStoredSession_simps [shell_simps]:
  "sh_db (clearStoredSession env sh) = sh_db sh" "sh_mode (clearStoredSession env sh) = sh_mode sh"
  "sh_session (clearStoredSession env sh) = None" "sh_unlocked (clearStoredSession env sh) = sh_unlocked sh"
  "sh_data (clearStoredSession env sh) = sh_data sh"
  "secrets_of (clearStoredSession env sh) = removed_session (sx_pin env) (secrets_of sh)"
  "sh_pinEnabled (clearStoredSession env sh) = sh_pinEnabled sh" "sh_pinNeedsReset (clearStoredSession env sh) = sh_pinNeedsReset sh"
  by (simp_all add: clearStoredSession_def clearSession_def shell_simps)

lemma sign_out_simps [shell_simps]:
  "sh_db (sign_out env sh) = (sh_db sh)\<lparr>vd_key := None\<rparr>" "sh_mode (sign_out env sh) = sh_mode sh"
  "sh_session (sign_out env sh) = None" "\<not> sh_unlocked (sign_out env sh)" "sh_data (sign_out env sh) = None"
  "secrets_of (sign_out env sh) = removed_session (sx_pin env) (secrets_of sh)"
  "sh_pinEnabled (sign_out env sh) = sh_pinEnabled sh" "sh_pinNeedsReset (sign_out env sh) = sh_pinNeedsReset sh"
  by (simp_all add: sign_out_def resetAppState_def shell_simps)

lemma closed_simps [shell_simps]:
  "closed_shell (set_secrets s sh) = closed_shell sh" "closed_shell (set_pin_flags a b sh) = closed_shell sh"
  "closed_shell (onboard t sh) = closed_shell sh" "closed_shell (sign_out env sh)" "closed_shell (sh\<lparr>sh_mode := m\<rparr>) = closed_shell sh"
  "shell_ok (set_secrets s sh) = shell_ok sh" "shell_ok (set_pin_flags a b sh) = shell_ok sh" "shell_ok (onboard t sh) = closed_shell sh"
  by (simp_all add: closed_shell_def open_shell_def shell_ok_def shell_simps)

lemma read_record: "pe_writes env \<Longrightarrow> \<exists>r s'. readPinRecord env s = Inr (r, s')"
  by (auto simp: readPinRecord_def secret_remove_def split: option.split)

lemma read_reset: "pe_writes env \<Longrightarrow> \<exists>b s'. getPinNeedsReset env s = Inr (b, s')"
  by (auto simp: getPinNeedsReset_def secret_remove_def split: option.split)

lemma status_reads:
  assumes "pe_writes env"
  obtains st s' where "getPinStatus env s = Inr (st, s')"
proof -
  obtain r s1 where r: "readPinRecord env s = Inr (r, s1)" using read_record [OF assms] by blast
  obtain b s2 where "getPinNeedsReset env s1 = Inr (b, s2)" using read_reset [OF assms] by blast
  with r have "\<exists>st s'. getPinStatus env s = Inr (st, s')" by (simp add: getPinStatus_def)
  then show ?thesis using that by blast
qed

lemma put_meta_key [simp]: "vd_key (put_meta k v db) = vd_key db"
  by (simp add: put_meta_def)

lemma save_keeps_key:
  "vault_saveProfile env i v db = Inr db' \<Longrightarrow> vd_key db' = vd_key db"
  "vault_saveConversation env i v db = Inr db' \<Longrightarrow> vd_key db' = vd_key db"
  by (auto simp: vault_saveProfile_def vault_saveConversation_def with_key_def split: sum.splits)

lemma repair_rows_key:
  assumes "\<And>i v d d'. save i v d = Inr d' \<Longrightarrow> vd_key d' = vd_key d"
  shows "vd_key (snd (repair_rows env fix vk type names save rs db)) = vd_key db"
  using assms by (induction rs arbitrary: db) (auto simp: Let_def split: sum.splits)

lemma repair_key [simp]: "vd_key (snd (repairVaultTextEncoding env fix db)) = vd_key db"
proof -
  have p: "vd_key (snd (repair_rows env fix vk t names (vault_saveProfile env) rs d)) = vd_key d" for vk t names rs d
    by (rule repair_rows_key) (rule save_keeps_key)
  have c: "vd_key (snd (repair_rows env fix vk t names (vault_saveConversation env) rs d)) = vd_key d" for vk t names rs d
    by (rule repair_rows_key) (rule save_keeps_key)
  show ?thesis
  proof (cases "vd_key db")
    case (Some vk)
    obtain r1 d1 where r1: "repair_rows env fix vk ''profile'' (''displayName'', ''status'') (vault_saveProfile env) (vd_profiles db) db = (r1, d1)"
      by fastforce
    obtain r2 d2 where r2: "repair_rows env fix vk ''conv'' (''name'', ''lastMessage'') (vault_saveConversation env) (vd_conversations d1) d1 = (r2, d2)"
      by fastforce
    have "vd_key d1 = vd_key db" "vd_key d2 = vd_key d1" using p c r1 r2 by (metis snd_conv)+
    then show ?thesis using Some r1 r2
      by (simp add: repairVaultTextEncoding_def requireVaultKey_def split: option.split)
  qed (simp add: repairVaultTextEncoding_def requireVaultKey_def)
qed

lemma load_messages_key: "shell_works env \<Longrightarrow> vd_key (snd (load_messages env user friends convs db)) = vd_key db"
proof (induction convs arbitrary: db)
  case (Cons c cs)
  have "vd_key d = vd_key db" if "sx_load env c p u db = (r, d)" for p u r d
    using Cons.prems that unfolding shell_works_def by (metis snd_conv)
  moreover have "vd_key d' = vd_key d" if "load_messages env user friends cs d = (r, d')" for d r d'
    using Cons.IH [OF Cons.prems, of d] that by simp
  ultimately show ?case by (auto split: sum.splits prod.splits)
qed simp

lemma hydrate_failed_closes:
  assumes "shell_works env"
  shows "fst (hydrate_failed env e sh) \<and> closed_shell (snd (hydrate_failed env e sh)) \<and> sh_mode (snd (hydrate_failed env e sh)) \<noteq> InApp"
proof -
  let ?sh = "sign_out env (if resets_storage e then sh\<lparr>sh_db := resetVaultStorage (sh_db sh)\<rparr> else sh)"
  obtain st s where "getPinStatus (sx_pin env) (secrets_of ?sh) = Inr (st, s)"
    using status_reads assms unfolding shell_works_def by blast
  then show ?thesis by (simp add: hydrate_failed_def Let_def shell_simps)
qed

lemma fill_ok:
  assumes "shell_works env"
  shows "fst (fill_app env user friends sh) \<and> shell_ok (snd (fill_app env user friends sh))"
proof (cases "listConversations (sx_vault env) (sh_db sh)")
  case (Inl e)
  then show ?thesis using hydrate_failed_closes [OF assms] by (simp add: fill_app_def shell_ok_def)
next
  case (Inr convs)
  then have key: "vd_key (sh_db sh) \<noteq> None" by (cases "vd_key (sh_db sh)") (simp_all add: listConversations_def with_key_def requireVaultKey_def)
  obtain r db where load: "load_messages env user friends convs (sh_db sh) = (r, db)" by fastforce
  then have "vd_key db = vd_key (sh_db sh)" using load_messages_key [OF assms, of user friends convs "sh_db sh"] by simp
  then show ?thesis using Inr load key hydrate_failed_closes [OF assms]
    by (cases r) (simp_all add: fill_app_def shell_ok_def open_shell_def)
qed

lemma hydrate_ok:
  assumes "shell_works env"
  shows "fst (hydrateVault env sh) \<and> shell_ok (snd (hydrateVault env sh))"
proof -
  have failed: "fst (hydrate_failed env e s)" "shell_ok (snd (hydrate_failed env e s))" for e s
    using hydrate_failed_closes [OF assms] by (simp_all add: shell_ok_def)
  obtain r db where rep: "repairVaultTextEncoding (sx_vault env) (sx_fix env) (sh_db sh) = (r, db)" by fastforce
  show ?thesis
    using failed fill_ok [OF assms] rep
    by (auto simp: hydrateVault_def Let_def shell_simps split: sum.split option.split)
qed

lemma enter_ok:
  assumes "shell_works env"
  shows "fst (enter env vk sh) \<and> shell_ok (snd (enter env vk sh))"
proof -
  have "fst (setStoredSession env vk sh)" using assms
    by (simp add: setStoredSession_def setSession_def Let_def secret_set_def shell_works_def)
  then show ?thesis using hydrate_ok [OF assms] by (auto simp: enter_def split: prod.split bool.split)
qed

lemma entered: "shell_works env \<Longrightarrow> enter env vk sh = (ok, sh') \<Longrightarrow> ok \<and> shell_ok sh'"
  using enter_ok [of env vk sh] by simp

lemma closed_parts [shell_simps]:
  "closed_shell (sh\<lparr>sh_keys := k\<rparr>) = closed_shell sh"
  "closed_shell (sh\<lparr>sh_db := db\<rparr>) \<longleftrightarrow> vd_key db = None \<and> sh_session sh = None \<and> \<not> sh_unlocked sh \<and> sh_data sh = None"
  "closed_shell (lock_shell sh) \<longleftrightarrow> sh_session sh = None \<and> \<not> sh_unlocked sh \<and> sh_data sh = None"
  by (simp_all add: closed_shell_def shell_simps)

lemma ensure_only_keys: "\<exists>ok k. ensureDeviceKeys env sh = (ok, sh\<lparr>sh_keys := k\<rparr>)"
  by (cases "ensureDeviceKeys env sh") (auto simp: ensureDeviceKeys_def Let_def split: prod.splits if_splits)

lemma onboarding_closed: "shell_ok sh \<Longrightarrow> sh_mode sh \<noteq> InApp \<Longrightarrow> sh_session sh = None \<and> \<not> sh_unlocked sh \<and> sh_data sh = None"
  by (simp add: shell_ok_def closed_shell_def)

lemma ok_of_closed: "closed_shell sh \<Longrightarrow> sh_mode sh \<noteq> InApp \<Longrightarrow> shell_ok sh"
  by (simp add: shell_ok_def)

lemma lock_shell_ok:
  "sh_mode sh \<noteq> InApp \<Longrightarrow> sh_session sh = None \<Longrightarrow> \<not> sh_unlocked sh \<Longrightarrow> sh_data sh = None \<Longrightarrow> shell_ok (lock_shell sh)"
  by (simp add: ok_of_closed shell_simps)

lemma create_ok:
  assumes "shell_works env" "shell_ok sh" "sh_mode sh = Onboarding"
  shows "shell_ok (handleCreate env displayName sh)"
proof -
  let ?sh = "(clearStoredSession env sh)\<lparr>sh_db := bootstrapVault (sx_vault env) (sx_vk env) (resetVaultStorage (sh_db (clearStoredSession env sh)))\<rparr>"
  obtain ok k where k: "ensureDeviceKeys env ?sh = (ok, ?sh\<lparr>sh_keys := k\<rparr>)" using ensure_only_keys by blast
  have lock: "shell_ok (lock_shell (?sh\<lparr>sh_keys := k\<rparr>))" "\<And>db. shell_ok (lock_shell (?sh\<lparr>sh_keys := k, sh_db := db\<rparr>))"
    by (rule lock_shell_ok, use onboarding_closed [OF assms(2)] assms(3) in \<open>simp_all add: shell_simps\<close>)+
  show ?thesis using lock k
    by (auto simp: handleCreate_def Let_def split: option.split prod.split bool.split dest: entered [OF assms(1)])
qed

lemma start_key_ok:
  assumes "shell_works env" "shell_ok sh" "sh_mode sh = Onboarding"
  shows "shell_ok (handleStartKeyUnlock env startKey sh)"
proof -
  obtain e db where u: "unlockVault (sx_vault env) startKey (sh_db sh) = (e, db)" by fastforce
  obtain ok k where k: "ensureDeviceKeys env (sh\<lparr>sh_db := db\<rparr>) = (ok, sh\<lparr>sh_db := db, sh_keys := k\<rparr>)" using ensure_only_keys [of env "sh\<lparr>sh_db := db\<rparr>"] by auto
  have lock: "shell_ok (lock_shell (sh\<lparr>sh_db := db, sh_keys := k\<rparr>))" "shell_ok (lock_shell (sh\<lparr>sh_db := db\<rparr>))"
    using onboarding_closed [OF assms(2)] assms(3) by (intro lock_shell_ok; simp)+
  show ?thesis using lock k u assms(2) entered [OF assms(1)]
    by (auto simp: handleStartKeyUnlock_def split: sum.split prod.split bool.split option.split)
qed

lemma drop_pin_ok [shell_simps]: "shell_ok (snd (drop_pin env sh)) = shell_ok sh"
  by (simp add: drop_pin_def shell_simps split: sum.split)

lemma pin_ok:
  assumes "shell_works env" "shell_ok sh"
  shows "shell_ok (snd (handlePinUnlock env pin sh))"
proof -
  have d: "shell_ok s' = shell_ok s" if "drop_pin env s = (b, s')" for b s s' using drop_pin_ok [of env s] that by simp
  show ?thesis using d assms(2) entered [OF assms(1)]
    by (auto simp: handlePinUnlock_def Let_def shell_simps split: sum.split prod.split bool.split pin_result.split)
qed

lemma lock_ok:
  assumes "shell_ok sh"
  shows "shell_ok (handleLock env sh)"
proof -
  have "shell_ok (resynced_pin env sh)" using assms by (simp add: resynced_pin_def shell_simps split: sum.split prod.split)
  then show ?thesis by (simp add: handleLock_def Let_def ok_of_closed shell_simps)
qed

lemma logout_ok:
  assumes "shell_works env"
  shows "shell_ok (handleLogout env sh) \<and> sh_mode (handleLogout env sh) \<noteq> InApp"
proof -
  obtain st s where "getPinStatus (sx_pin env) (secrets_of (sign_out env sh)) = Inr (st, s)"
    using status_reads assms unfolding shell_works_def by blast
  then show ?thesis by (simp add: handleLogout_def Let_def shell_simps ok_of_closed)
qed

lemma set_pin_ok: "shell_ok sh \<Longrightarrow> shell_ok (snd (handleSetPin env pin sh))"
  by (simp add: handleSetPin_def shell_simps split: sum.split)

lemma disable_pin_ok: "shell_ok sh \<Longrightarrow> shell_ok (snd (handleDisablePin env sh))"
  by (auto simp: handleDisablePin_def shell_simps split: sum.split prod.split)

lemma rotate_item_key: "rotate_item env old new x db = Inr db' \<Longrightarrow> vd_key db' = vd_key db"
  by (cases x) (auto split: sum.splits)

lemma rotate_all_key: "vd_key (snd (rotate_all env old new xs db)) = vd_key db"
  by (induction xs arbitrary: db) (auto split: sum.split dest: rotate_item_key)

lemma rotation_key:
  assumes "vd_key db \<noteq> None"
  shows "vd_key (snd (rotateVaultKeys env startKey db)) \<noteq> None"
proof -
  have "vd_key d = vd_key db" if "rotate_all env old new xs db = (r, d)" for old new xs r d
    using rotate_all_key [of env old new xs db] that by simp
  then show ?thesis using assms
    by (auto simp: rotateVaultKeys_def Let_def finish_rotation_def setVaultKey_def setVaultKeyId_def
        split: sum.split option.split prod.split)
qed

lemma stored_session_open: "open_shell sh \<Longrightarrow> setStoredSession env vk sh = (b, sh') \<Longrightarrow> open_shell sh' \<and> sh_mode sh' = sh_mode sh"
  by (auto simp: setStoredSession_def open_shell_def shell_simps split: prod.splits)

lemma rotate_ok:
  assumes "shell_ok sh" "sh_mode sh = InApp"
  shows "shell_ok (snd (handleRotateStartKey env startKey sh))"
proof -
  obtain e db where r: "rotateVaultKeys (sx_vault env) startKey (sh_db sh) = (e, db)" by fastforce
  then have "vd_key db \<noteq> None" using rotation_key [of "sh_db sh" "sx_vault env" startKey] assms by (simp add: shell_ok_def open_shell_def)
  then have op: "open_shell (sh\<lparr>sh_db := db\<rparr>)" using assms by (simp add: shell_ok_def open_shell_def)
  have ok: "shell_ok (sh\<lparr>sh_db := db\<rparr>)" using op assms by (simp add: shell_ok_def)
  have s: "shell_ok s'" if "setStoredSession env vk (sh\<lparr>sh_db := db\<rparr>) = (b, s')" for b s' vk
    using stored_session_open [OF op that] assms(2) by (simp add: shell_ok_def)
  show ?thesis using ok r s assms(1) by (auto simp: handleRotateStartKey_def Let_def shell_simps split: option.split prod.split bool.split)
qed

lemma use_start_key_ok:
  assumes "shell_ok sh" "sh_mode sh = Locked"
  shows "shell_ok (handleUseStartKey env sh)"
proof -
  have "closed_shell (snd (drop_pin env sh))"
    using assms by (auto simp: drop_pin_def shell_ok_def shell_simps split: sum.split)
  then show ?thesis by (simp add: handleUseStartKey_def shell_simps)
qed

lemma read_session_closed: "closed_shell sh \<Longrightarrow> getStoredSession env sh = (None, sh') \<Longrightarrow> closed_shell sh'"
  by (auto simp: getStoredSession_def getSession_def closed_shell_def shell_simps split: option.splits if_splits prod.splits)

lemma restarted_closed: "closed_shell (restarted sh)"
  by (simp add: restarted_def closed_shell_def shell_simps)

lemma boot_ok:
  assumes "shell_works env" "closed_shell sh"
  shows "shell_ok (boot env sh)"
proof -
  obtain h db where h: "getVaultHeader (sx_vault env) (sh_db sh) = (h, db)" by fastforce
  have "vd_key db = vd_key (sh_db sh)" using h by (auto simp: getVaultHeader_def split: option.splits if_splits)
  then have c: "closed_shell (sh\<lparr>sh_db := db\<rparr>)" using assms(2) by (simp add: closed_shell_def)
  obtain st s where st: "getPinStatus (sx_pin env) (secrets_of sh) = Inr (st, s)"
    using status_reads assms(1) unfolding shell_works_def by blast
  let ?sh = "set_pin_flags (pi_enabled st) (pi_needsReset st) (set_secrets s (sh\<lparr>sh_db := db\<rparr>))"
  obtain r sh2 where r: "getStoredSession env ?sh = (r, sh2)" by fastforce
  have none: "closed_shell sh2" if "r = None"
    using read_session_closed [of ?sh env sh2] r that c by (simp add: shell_simps)
  show ?thesis
    using h st r none c entered [OF assms(1)]
    by (auto simp: boot_def Let_def shell_simps ok_of_closed split: option.split prod.split bool.split)
qed

lemma wipe_ok: "shell_works env \<Longrightarrow> handleWipe env sh = (True, sh') \<Longrightarrow> shell_ok sh'"
  by (auto simp: handleWipe_def Let_def boot_ok restarted_closed split: sum.splits)

text \<open>
  C5. The application is either open, with the key of the vault and the data in memory, or closed with none of them: this
  holds at every start and after whatever the screens let happen then, unlocking that fails at any point, rows that
  do not open, a key that is of another vault, or a change of the start key that stops, as long as the store of
  secrets accepts writes.
\<close>

theorem closed_app_holds_no_key:
  assumes "shell_works env" "(shell_step shell_works)\<^sup>*\<^sup>* (boot env (restarted sh0)) sh"
  shows "if sh_mode sh = InApp then vd_key (sh_db sh) \<noteq> None \<and> sh_unlocked sh \<and> sh_data sh \<noteq> None
    else vd_key (sh_db sh) = None \<and> sh_session sh = None \<and> \<not> sh_unlocked sh \<and> sh_data sh = None"
proof -
  have keep: "shell_ok s'" if "shell_step shell_works s s'" "shell_ok s" for s s'
    using that by (induction rule: shell_step.induct)
      (simp_all add: create_ok start_key_ok pin_ok use_start_key_ok lock_ok logout_ok set_pin_ok disable_pin_ok rotate_ok
        hydrate_ok boot_ok restarted_closed handleReset_def Let_def wipe_ok)
  from assms(2) have "shell_ok sh"
  proof (induction rule: rtranclp_induct)
    case base
    show ?case by (rule boot_ok [OF assms(1) restarted_closed])
  next
    case (step s s')
    show ?case by (rule keep [OF step.hyps(2) step.IH])
  qed
  then show ?thesis by (cases "sh_mode sh = InApp") (simp_all add: shell_ok_def open_shell_def closed_shell_def)
qed

subsection \<open>Locking and the PIN\<close>

lemma save_keeps_meta:
  "vault_saveProfile env i v db = Inr db' \<Longrightarrow> vd_meta db' = vd_meta db"
  "vault_saveConversation env i v db = Inr db' \<Longrightarrow> vd_meta db' = vd_meta db"
  by (auto simp: vault_saveProfile_def vault_saveConversation_def with_key_def split: sum.splits)

lemma repair_rows_meta:
  assumes "\<And>i v d d'. save i v d = Inr d' \<Longrightarrow> vd_meta d' = vd_meta d"
  shows "vd_meta (snd (repair_rows env fix vk type names save rs db)) = vd_meta db"
  using assms by (induction rs arbitrary: db) (auto simp: Let_def split: sum.splits)

lemma repair_settled:
  assumes "repairVaultTextEncoding env fix db = (None, db')"
  shows "map_of (vd_meta db') TEXT_ENCODING_FIX_KEY = Some ''1'' \<and> getVaultKeyId db' = getVaultKeyId db"
proof (cases "map_of (vd_meta db) TEXT_ENCODING_FIX_KEY = Some ''1''")
  case False
  have p: "vd_meta (snd (repair_rows env fix vk t names (vault_saveProfile env) rs d)) = vd_meta d" for vk t names rs d
    by (rule repair_rows_meta) (rule save_keeps_meta)
  have c: "vd_meta (snd (repair_rows env fix vk t names (vault_saveConversation env) rs d)) = vd_meta d" for vk t names rs d
    by (rule repair_rows_meta) (rule save_keeps_meta)
  obtain vk where vk: "vd_key db = Some vk" using assms False by (cases "vd_key db") (simp_all add: repairVaultTextEncoding_def requireVaultKey_def)
  obtain r1 d1 where r1: "repair_rows env fix vk ''profile'' (''displayName'', ''status'') (vault_saveProfile env) (vd_profiles db) db = (r1, d1)"
    by fastforce
  obtain r2 d2 where r2: "repair_rows env fix vk ''conv'' (''name'', ''lastMessage'') (vault_saveConversation env) (vd_conversations d1) d1 = (r2, d2)"
    by fastforce
  have "vd_meta d1 = vd_meta db" "vd_meta d2 = vd_meta d1" using p c r1 r2 by (metis snd_conv)+
  moreover have "db' = put_meta TEXT_ENCODING_FIX_KEY ''1'' d2"
    using assms False vk r1 r2 by (simp add: repairVaultTextEncoding_def requireVaultKey_def split: option.splits)
  ultimately show ?thesis
    by (simp add: put_meta_def update_conv' getVaultKeyId_def TEXT_ENCODING_FIX_KEY_def VAULT_KEY_ID_KEY_def)
qed (use assms in \<open>simp add: repairVaultTextEncoding_def\<close>)

text \<open>What filled the application.\<close>

lemma filled_by:
  assumes "shell_works env" "hydrateVault env sh0 = (True, sh)" "sh_mode sh = InApp"
  obtains vk db profiles user convs ms where "vd_key (sh_db sh0) = Some vk" "verifyVaultKeyId (sx_vault env) vk (sh_db sh0)"
    "repairVaultTextEncoding (sx_vault env) (sx_fix env) (sh_db sh0) = (None, db)" "vd_key db = Some vk"
    "map_of (vd_meta db) TEXT_ENCODING_FIX_KEY = Some ''1''" "listProfiles (sx_vault env) db = Inr profiles"
    "user_profile profiles = Some user" "listConversations (sx_vault env) db = Inr convs"
    "load_messages env user (friend_profiles profiles) convs db = (Inr ms, sh_db sh)"
    "sh = sh0\<lparr>sh_db := sh_db sh, sh_unlocked := True, sh_mode := InApp,
       sh_data := Some \<lparr>ad_user = user, ad_friends = friend_profiles profiles, ad_convs = convs, ad_messages = ms\<rparr>\<rparr>"
proof -
  have failed: "hydrate_failed env e s \<noteq> (True, sh)" for e s
    using hydrate_failed_closes [OF assms(1), of e s] assms(3) by auto
  have keyok: "\<not> (case vd_key (sh_db sh0) of None \<Rightarrow> False | Some vk \<Rightarrow> \<not> verifyVaultKeyId (sx_vault env) vk (sh_db sh0))"
    using assms(2,3) by (auto simp: hydrateVault_def shell_simps)
  obtain r db where rep: "repairVaultTextEncoding (sx_vault env) (sx_fix env) (sh_db sh0) = (r, db)" by fastforce
  have r: "r = None" using assms(2) failed rep keyok by (cases r) (auto simp: hydrateVault_def)
  obtain profiles where profiles: "listProfiles (sx_vault env) db = Inr profiles"
    using assms(2) failed rep r keyok by (cases "listProfiles (sx_vault env) db") (auto simp: hydrateVault_def Let_def)
  obtain user where user: "user_profile profiles = Some user"
    using assms(2,3) rep r keyok profiles by (cases "user_profile profiles") (auto simp: hydrateVault_def Let_def shell_simps)
  have fill: "fill_app env user (friend_profiles profiles) (sh0\<lparr>sh_db := db\<rparr>) = (True, sh)"
    using assms(2) rep r keyok profiles user by (simp add: hydrateVault_def Let_def)
  obtain convs where convs: "listConversations (sx_vault env) db = Inr convs"
    using fill failed by (cases "listConversations (sx_vault env) db") (auto simp: fill_app_def)
  obtain x db' where load: "load_messages env user (friend_profiles profiles) convs db = (x, db')" by fastforce
  obtain ms where ms: "x = Inr ms" using fill failed convs load by (cases x) (auto simp: fill_app_def)
  have sh: "sh = sh0\<lparr>sh_db := db', sh_unlocked := True, sh_mode := InApp,
       sh_data := Some \<lparr>ad_user = user, ad_friends = friend_profiles profiles, ad_convs = convs, ad_messages = ms\<rparr>\<rparr>"
    using fill convs load ms by (simp add: fill_app_def)
  obtain vk where vk: "vd_key db = Some vk" using convs by (cases "vd_key db") (auto simp: listConversations_def with_key_def requireVaultKey_def)
  have settled: "map_of (vd_meta db) TEXT_ENCODING_FIX_KEY = Some ''1''" using repair_settled rep r by blast
  have key: "vd_key (sh_db sh0) = Some vk" using repair_key [of "sx_vault env" "sx_fix env" "sh_db sh0"] rep vk by simp
  show ?thesis
  proof (rule that)
    show "verifyVaultKeyId (sx_vault env) vk (sh_db sh0)" using key keyok by simp
    show "load_messages env user (friend_profiles profiles) convs db = (Inr ms, sh_db sh)" using load ms sh by simp
    show "sh = sh0\<lparr>sh_db := sh_db sh, sh_unlocked := True, sh_mode := InApp,
       sh_data := Some \<lparr>ad_user = user, ad_friends = friend_profiles profiles, ad_convs = convs, ad_messages = ms\<rparr>\<rparr>"
      using sh by simp
  qed (use key rep r vk settled profiles user convs in simp_all)
qed

lemma filled_again:
  assumes "shell_works env" "hydrateVault env sh0 = (True, sh)" "sh_mode sh = InApp" "sh_db sh1 = sh_db sh0"
  shows "hydrateVault env sh1 = (True, sh1\<lparr>sh_db := sh_db sh, sh_unlocked := True, sh_mode := InApp, sh_data := sh_data sh\<rparr>)"
proof (rule filled_by [OF assms(1-3)])
  fix vk db profiles user convs ms
  assume a: "vd_key (sh_db sh0) = Some vk" "verifyVaultKeyId (sx_vault env) vk (sh_db sh0)"
    "repairVaultTextEncoding (sx_vault env) (sx_fix env) (sh_db sh0) = (None, db)" "listProfiles (sx_vault env) db = Inr profiles"
    "user_profile profiles = Some user" "listConversations (sx_vault env) db = Inr convs"
    "load_messages env user (friend_profiles profiles) convs db = (Inr ms, sh_db sh)"
    and sh: "sh = sh0\<lparr>sh_db := sh_db sh, sh_unlocked := True, sh_mode := InApp,
       sh_data := Some \<lparr>ad_user = user, ad_friends = friend_profiles profiles, ad_convs = convs, ad_messages = ms\<rparr>\<rparr>"
  have "sh_data sh = Some \<lparr>ad_user = user, ad_friends = friend_profiles profiles, ad_convs = convs, ad_messages = ms\<rparr>"
    by (subst sh) simp
  then show ?thesis using a assms(4) by (simp add: hydrateVault_def Let_def fill_app_def)
qed

lemma removed_session_other: "k \<noteq> SESSION_KEY \<Longrightarrow> secret_get (removed_session env s) k = secret_get s k"
  by (simp add: removed_session_def secret_remove_def secret_get_def delete_conv')

text \<open>Where the application can be filled again, the PIN does it, whenever it is entered.\<close>

lemma pin_fills_again:
  assumes shown: "sh_mode sh = InApp" "vd_key (sh_db sh) = Some vk"
    and pin: "sh_pinEnabled sh" "\<not> sh_pinNeedsReset sh" "vault_codec (pe_pf (sx_pin env))"
      "pin_lib_ok (pe_pf (sx_pin env)) (pe_lib (sx_pin env))" "sealed_under_pin (sx_pin env) pin vk (secrets_of sh)"
    and later: "pe_pf (sx_pin env') = pe_pf (sx_pin env)" "pe_lib (sx_pin env') = pe_lib (sx_pin env)" "pe_available (sx_pin env')"
      "shell_works env'" "trim pin' = trim pin"
    and again: "hydrateVault env' sh = (True, sh2)" "sh_mode sh2 = InApp"
  shows "\<exists>back. handlePinUnlock env' pin' ((sign_out env sh)\<lparr>sh_mode := Locked\<rparr>) = (UnlockOk, back) \<and>
    sh_mode back = InApp \<and> sh_db back = sh_db sh2 \<and> sh_data back = sh_data sh2"
proof -
  let ?l = "(sign_out env sh)\<lparr>sh_mode := Locked\<rparr>"
  have writes: "pe_writes (sx_pin env')" using later(4) by (simp add: shell_works_def)
  have "sealed_under_pin (sx_pin env) pin vk (secrets_of ?l)"
    using pin(5) sealed_pin_other [OF removed_session_other]
    by (simp add: shell_simps PIN_RECORD_KEY_def SESSION_KEY_def)
  from sealed_pin_opens [OF pin(3,4) this later(1-3) writes later(5)] obtain t where
    t: "verifyPin (sx_pin env') pin' (secrets_of ?l) = Inr (PinOk vk, AList.update PIN_RECORD_KEY t (secrets_of ?l))" by blast
  let ?s = "set_secrets (AList.update PIN_RECORD_KEY t (secrets_of ?l)) ?l"
  have db: "sh_db (use_key vk ?s) = sh_db sh" using shown(2) by (simp add: use_key_def setVaultKey_def shell_simps)
  have ver: "verifyVaultKeyId (sx_vault env') vk (sh_db ?s)"
    by (rule filled_by [OF later(4) again]) (use shown(2) in \<open>simp add: verifyVaultKeyId_def getVaultKeyId_def shell_simps\<close>)
  obtain s2 where s2: "setStoredSession env' vk (use_key vk ?s) = (True, s2)" "sh_db s2 = sh_db sh"
    using writes db by (simp add: setStoredSession_def setSession_def Let_def secret_set_def shell_simps)
  from filled_again [OF later(4) again s2(2)] have
    "handlePinUnlock env' pin' ?l = (UnlockOk, s2\<lparr>sh_db := sh_db sh2, sh_unlocked := True, sh_mode := InApp, sh_data := sh_data sh2\<rparr>)"
    using t ver s2(1) by (simp add: handlePinUnlock_def Let_def enter_def)
  then show ?thesis by simp
qed

subsection \<open>What the lock does not cover\<close>

text \<open>
  While the application is open its key is stored for the next start, and the lock screen that the next start
  shows does not remove it: closing the program instead of locking it leaves the key of the vault in the store of
  secrets, not sealed under the PIN.
\<close>

lemma boot_to_lock_screen:
  assumes "vault_codec (pe_pf (sx_pin env))" "sealed_under_pin (sx_pin env) pin vk (secrets_of sh)"
    "secret_get (secrets_of sh) PIN_RESET_KEY = None" "fst (getVaultHeader (sx_vault env') (sh_db sh)) \<noteq> None"
    "pe_pf (sx_pin env') = pe_pf (sx_pin env)" "pe_available (sx_pin env')"
  shows "sh_mode (boot env' sh) = Locked \<and> secrets_of (boot env' sh) = secrets_of sh \<and> sh_session (boot env' sh) = sh_session sh"
proof -
  obtain w where "holds_pin (pe_pf (sx_pin env')) (secrets_of sh) w" using assms(2,5) by (auto simp: sealed_under_pin_def)
  from read_held [OF this] obtain st where "getPinStatus (sx_pin env') (secrets_of sh) = Inr (st, secrets_of sh)" "pi_enabled st" "\<not> pi_needsReset st"
    using assms(3,6) by (simp add: getPinStatus_def getPinNeedsReset_def)
  then show ?thesis using assms(4) by (auto simp: boot_def Let_def shell_simps split: prod.splits option.splits)
qed

theorem lock_screen_leaves_key_stored:
  assumes env: "vault_codec (pe_pf (sx_pin env))" "pe_writes (sx_pin env)"
    and pin: "sealed_under_pin (sx_pin env) pin vk (secrets_of sh)" "secret_get (secrets_of sh) PIN_RESET_KEY = None"
    and entered: "setStoredSession env vk sh = (True, sh1)"
    and later: "pe_pf (sx_pin env') = pe_pf (sx_pin env)" "pe_available (sx_pin env')" "pe_now (sx_pin env') < MAX_TTL_MS"
      "0 \<le> pe_now (sx_pin env)" "fst (getVaultHeader (sx_vault env') (lockVault (sh_db sh))) \<noteq> None"
  shows "sh_mode (boot env' (restarted sh1)) = Locked \<and> fst (getStoredSession env' (boot env' (restarted sh1))) = Some vk"
proof -
  have max: "min (pe_now (sx_pin env) + clampTtl MAX_TTL_MS) MAX_TTL_MS = MAX_TTL_MS" using later(4) by (simp add: clampTtl_def)
  obtain m s m' where set': "setSession (sx_pin env) vk MAX_TTL_MS (sh_session sh, secrets_of sh) = (None, m, s)"
    and get: "getSession (sx_pin env') (None, s) = (Some (vk, of_int MAX_TTL_MS), m', s)"
    using session_survives_restart [OF env later(1), of MAX_TTL_MS vk "(sh_session sh, secrets_of sh)"] later(3) max by auto
  have s: "\<exists>t. s = AList.update SESSION_KEY t (secrets_of sh)"
    using set' by (auto simp: setSession_def Let_def secret_set_def split: if_splits)
  then have other: "secret_get s k = secret_get (secrets_of sh) k" if "k \<noteq> SESSION_KEY" for k
    using that by (auto simp: secret_get_def update_conv')
  have sh1: "secrets_of (restarted sh1) = s" "sh_db (restarted sh1) = lockVault (sh_db sh)" "sh_session (restarted sh1) = None"
    using entered set' by (auto simp: setStoredSession_def restarted_def shell_simps lockVault_def clearVaultKey_def secrets_of_def set_secrets_def lock_shell_def)
  have "PIN_RECORD_KEY \<noteq> SESSION_KEY" "PIN_RESET_KEY \<noteq> SESSION_KEY" by (simp_all add: PIN_RECORD_KEY_def PIN_RESET_KEY_def SESSION_KEY_def)
  then have "sealed_under_pin (sx_pin env) pin vk (secrets_of (restarted sh1))" "secret_get (secrets_of (restarted sh1)) PIN_RESET_KEY = None"
    using pin other sealed_pin_other [of s "secrets_of sh"] sh1(1) by simp_all
  from boot_to_lock_screen [OF env(1) this _ later(1,2)] sh1 later(5) get show ?thesis
    by (auto simp: getStoredSession_def)
qed

text \<open>
  Deleting the vault at the lock screen leaves the PIN of the deleted vault: once a new account is there, the next
  start asks for that PIN. Deleting everything in the settings removes it.
\<close>

theorem reset_keeps_the_pin:
  assumes env: "shell_works env" "pe_available (sx_pin env)" "vault_codec (pe_pf (sx_pin env))"
    and pin: "sealed_under_pin (sx_pin env) pin vk (secrets_of sh)" "secret_get (secrets_of sh) PIN_RESET_KEY = None"
    and header: "fst (getVaultHeader (sx_vault env) db) \<noteq> None"
  shows "sh_db (handleReset env sh) = fresh_db \<and> sh_mode (handleReset env sh) = Onboarding \<and>
    sh_mode (boot env ((handleReset env sh)\<lparr>sh_db := db\<rparr>)) = Locked \<and>
    (\<exists>out. handleWipe env sh = (True, out) \<and> secret_get (secrets_of out) PIN_RECORD_KEY = None)"
proof -
  let ?s = "removed_session (sx_pin env) (secrets_of sh)"
  have fresh: "boot env (restarted c) = onboard CreateTab (restarted c)" if "sh_db c = fresh_db" for c
    using that by (cases c) (simp add: boot_def restarted_def fresh_db_def getVaultHeader_def lock_shell_def lockVault_def clearVaultKey_def onboard_def)
  have restarted_secrets: "secrets_of (restarted s) = secrets_of s" "sh_db (restarted s) = (sh_db s)\<lparr>vd_key := None\<rparr>" for s
    by (simp_all add: restarted_def shell_simps secrets_of_def lock_shell_def lockVault_def clearVaultKey_def)
  have keys: "PIN_RECORD_KEY \<noteq> SESSION_KEY" "PIN_RESET_KEY \<noteq> SESSION_KEY" "PIN_RECORD_KEY \<noteq> PIN_RESET_KEY"
    by (simp_all add: PIN_RECORD_KEY_def PIN_RESET_KEY_def SESSION_KEY_def)
  let ?r = "handleReset env sh"
  have r: "sh_db ?r = fresh_db" "sh_mode ?r = Onboarding" "secrets_of ?r = ?s"
    by (simp_all add: handleReset_def Let_def fresh resetVaultStorage_def shell_simps restarted_secrets) (simp_all add: fresh_db_def)
  have "sealed_under_pin (sx_pin env) pin vk (secrets_of (?r\<lparr>sh_db := db\<rparr>))" "secret_get (secrets_of (?r\<lparr>sh_db := db\<rparr>)) PIN_RESET_KEY = None"
    using pin keys removed_session_other sealed_pin_other [of ?s "secrets_of sh"] r(3) by (simp_all add: shell_simps)
  from boot_to_lock_screen [OF env(3) this _ refl env(2)] header have "sh_mode (boot env (?r\<lparr>sh_db := db\<rparr>)) = Locked" by simp
  moreover have "\<exists>out. handleWipe env sh = (True, out) \<and> secret_get (secrets_of out) PIN_RECORD_KEY = None"
    using env(1,2) keys by (simp add: handleWipe_def Let_def wipePinState_def secret_remove_def shell_works_def fresh resetVaultStorage_def shell_simps
      restarted_secrets secret_get_def delete_conv')
  ultimately show ?thesis using r by simp
qed

text \<open>A row that no start key opens, as those of an account whose start key was never changed: its key is random.\<close>

definition sealed_for_no_start_key :: "platform \<Rightarrow> enc_row \<Rightarrow> bool" where
  "sealed_for_no_start_key pf r \<longleftrightarrow> (\<forall>mkm. \<exists>e. open_row pf (deriveVk pf mkm) ''profile'' r = Inl e)"

definition try_start_keys :: "(shell_env \<times> string) list \<Rightarrow> shell \<Rightarrow> shell" where
  "try_start_keys xs sh = fold (\<lambda>(env, key). handleStartKeyUnlock env key) xs sh"

lemma collect_fails: "x \<in> set xs \<Longrightarrow> f x = Inl e \<Longrightarrow> \<exists>e'. collect (map f xs) = Inl e'"
  by (induction xs) (auto split: sum.split)

lemma start_key_refused:
  assumes "shell_ok sh" "sh_mode sh = Onboarding" "r \<in> set (vd_profiles (sh_db sh))" "sealed_for_no_start_key (ve_pf (sx_vault env)) r"
  shows "closed_shell (handleStartKeyUnlock env key sh) \<and> sh_mode (handleStartKeyUnlock env key sh) = Onboarding \<and>
    vd_profiles (sh_db (handleStartKeyUnlock env key sh)) = vd_profiles (sh_db sh)"
proof (cases "validateStartKey key")
  case True
  have closed: "closed_shell sh" using assms(1,2) by (simp add: shell_ok_def)
  obtain e db where u: "unlockVault (sx_vault env) key (sh_db sh) = (e, db)" by fastforce
  have rows: "vd_profiles db = vd_profiles (sh_db sh)"
    using u by (auto simp: unlockVault_def ensureVaultHeader_def getVaultHeader_def Let_def setVaultKeyId_def setVaultKey_def put_meta_def
        split: option.splits sum.splits if_splits)
  obtain ok k where k: "ensureDeviceKeys env (sh\<lparr>sh_db := db\<rparr>) = (ok, sh\<lparr>sh_db := db, sh_keys := k\<rparr>)" using ensure_only_keys [of env "sh\<lparr>sh_db := db\<rparr>"] by auto
  have vk: "\<exists>mkm. vd_key db = Some (deriveVk (ve_pf (sx_vault env)) mkm)" if "e = None"
    using u that by (auto simp: unlockVault_def Let_def setVaultKeyId_def setVaultKey_def split: prod.splits sum.splits option.splits)
  have "\<exists>e'. listProfiles (sx_vault env) db = Inl e'" if none: "e = None"
  proof -
    obtain mkm where m: "vd_key db = Some (deriveVk (ve_pf (sx_vault env)) mkm)" using vk [OF none] by blast
    obtain e' where "open_row (ve_pf (sx_vault env)) (deriveVk (ve_pf (sx_vault env)) mkm) ''profile'' r = Inl e'"
      using assms(4) by (auto simp: sealed_for_no_start_key_def)
    from collect_fails [where f = "open_row (ve_pf (sx_vault env)) (deriveVk (ve_pf (sx_vault env)) mkm) ''profile''", OF assms(3) this]
    show ?thesis using m rows by (simp add: listProfiles_def with_key_def requireVaultKey_def)
  qed
  then have "handleStartKeyUnlock env key sh = lock_shell (sh\<lparr>sh_db := db\<rparr>) \<or>
      handleStartKeyUnlock env key sh = lock_shell (sh\<lparr>sh_db := db, sh_keys := k\<rparr>)"
    using True u k vk by (cases e; cases ok) (auto simp: handleStartKeyUnlock_def)
  then show ?thesis using closed assms(2) rows by (auto simp: shell_simps closed_shell_def)
qed (use assms in \<open>simp add: handleStartKeyUnlock_def shell_ok_def\<close>)

text \<open>
  Logging out can be final: without a PIN, the vault of an account whose start key was never changed is
  closed to every start key, however many are tried, while its rows stay where they are.
\<close>

theorem logout_can_be_final:
  assumes env: "shell_works env"
    and pin: "secret_get (secrets_of sh) PIN_RECORD_KEY = None" "secret_get (secrets_of sh) PIN_RESET_KEY = None"
    and row: "r \<in> set (vd_profiles (sh_db sh))" "\<forall>(env', key) \<in> set xs. sealed_for_no_start_key (ve_pf (sx_vault env')) r"
  shows "sh_mode (try_start_keys xs (handleLogout env sh)) = Onboarding \<and> closed_shell (try_start_keys xs (handleLogout env sh)) \<and>
    vd_profiles (sh_db (try_start_keys xs (handleLogout env sh))) = vd_profiles (sh_db sh) \<and>
    secret_get (secrets_of (handleLogout env sh)) SESSION_KEY = None"
proof -
  have keys: "PIN_RECORD_KEY \<noteq> SESSION_KEY" "PIN_RESET_KEY \<noteq> SESSION_KEY" by (simp_all add: PIN_RECORD_KEY_def PIN_RESET_KEY_def SESSION_KEY_def)
  have out: "sh_mode (handleLogout env sh) = Onboarding" "closed_shell (handleLogout env sh)"
    "vd_profiles (sh_db (handleLogout env sh)) = vd_profiles (sh_db sh)"
    "secret_get (secrets_of (handleLogout env sh)) SESSION_KEY = None"
    using env pin keys removed_session_other
    by (simp_all add: handleLogout_def Let_def shell_simps getPinStatus_def readPinRecord_def getPinNeedsReset_def)
      (simp add: removed_session_def secret_remove_def shell_works_def secret_get_def delete_conv')
  have "sh_mode (try_start_keys xs s) = Onboarding \<and> closed_shell (try_start_keys xs s) \<and> vd_profiles (sh_db (try_start_keys xs s)) = vd_profiles (sh_db sh)"
    if "sh_mode s = Onboarding" "closed_shell s" "vd_profiles (sh_db s) = vd_profiles (sh_db sh)" for s
    using that row
  proof (induction xs arbitrary: s)
    case (Cons x xs)
    obtain env' key where x: "x = (env', key)" by (cases x)
    have "shell_ok s" using Cons.prems by (simp add: ok_of_closed)
    from start_key_refused [OF this Cons.prems(1), of r env' key] Cons.prems x
    have "closed_shell (handleStartKeyUnlock env' key s)" "sh_mode (handleStartKeyUnlock env' key s) = Onboarding"
      "vd_profiles (sh_db (handleStartKeyUnlock env' key s)) = vd_profiles (sh_db sh)" by auto
    from Cons.IH [OF this(2,1,3)] Cons.prems(4,5) x show ?case by (simp add: try_start_keys_def)
  qed (simp add: try_start_keys_def)
  from this [OF out(1-3)] out(4) show ?thesis by blast
qed

subsection \<open>Concrete inputs\<close>

definition demo_shell_env :: shell_env where
  "demo_shell_env = \<lparr>sx_vault = demo_env, sx_pin = plain_pin_env, sx_stores = all_answer, sx_identity = sample_pair, sx_dh = sample_pair,
     sx_uuid = ''d'', sx_vk = [1], sx_userId = ''u'', sx_samples = ([], []), sx_fix = (\<lambda>s. s), sx_load = (\<lambda>c p u db. (Inr [], db))\<rparr>"

lemma demo_shell_env_simps [simp]: "sx_vault demo_shell_env = demo_env" "sx_pin demo_shell_env = plain_pin_env"
  "shell_works demo_shell_env" "pe_writes plain_pin_env" "pe_available plain_pin_env" "pe_now plain_pin_env = 5"
  by (simp_all add: demo_shell_env_def shell_works_def plain_pin_env_def)

definition demo_user :: json where
  "demo_user = JObj [(''id'', JStr ''u''), (''kind'', JStr ''user'')]"

text \<open>The vault of an account with a random key, open.\<close>

definition demo_account :: vault_db where
  "demo_account = fresh_db\<lparr>vd_key := Some [1], vd_meta := [(VAULT_META_KEY, ''{}''), (TEXT_ENCODING_FIX_KEY, ''1'')],
     vd_profiles := [sealed_row demo_env [1] ''profile'' demo_user ''u'']\<rparr>"

definition demo_shell :: "secrets \<Rightarrow> shell" where
  "demo_shell s = \<lparr>sh_db = demo_account, sh_keys = empty_stores\<lparr>ks_secret := s\<rparr>, sh_session = None, sh_mode = Onboarding, sh_tab = StartKeyTab,
     sh_pinEnabled = True, sh_pinNeedsReset = False, sh_unlocked = False, sh_data = None\<rparr>"

lemma demo_shell_simps [simp]: "sh_db (demo_shell s) = demo_account" "secrets_of (demo_shell s) = s" "sh_session (demo_shell s) = None"
  by (simp_all add: demo_shell_def secrets_of_def)

lemma demo_vault_header: "fst (getVaultHeader demo_env demo_account) \<noteq> None" "fst (getVaultHeader demo_env (lockVault demo_account)) \<noteq> None"
proof -
  have "parse_text ''{}'' = Some (JObj [])" by code_simp
  then show "fst (getVaultHeader demo_env demo_account) \<noteq> None" "fst (getVaultHeader demo_env (lockVault demo_account)) \<noteq> None"
    by (simp_all add: getVaultHeader_def demo_account_def lockVault_def clearVaultKey_def keyed_platform_def vault_platform_def)
qed

lemma demo_hydrated: "\<exists>d. hydrateVault demo_shell_env (demo_shell s) =
    (True, (demo_shell s)\<lparr>sh_unlocked := True, sh_mode := InApp, sh_data := Some d\<rparr>)"
proof -
  have wf: "wf_json demo_user" by (simp add: demo_user_def settable_def)
  have "row_content keyed_platform [1] ''profile'' (sealed_row demo_env [1] ''profile'' demo_user ''u'') = (''u'', Some (meaning demo_user))"
    using json_content_sealed [OF keyed_platform_ok demo_nonce_length wf] by (simp add: row_content_def sealed_row_def)
  then obtain w where w: "open_row keyed_platform [1] ''profile'' (sealed_row demo_env [1] ''profile'' demo_user ''u'') = Inr w"
    "meaning w = meaning demo_user" "wf_json w"
    by (auto simp: row_content_def json_content_def open_row_def in_vault_def split: sum.splits if_splits)
  have "meaning (field w ''kind'') = meaning (field demo_user ''kind'')" by (rule field_meaning [OF w(3) wf w(2)])
  then have "user_profile [w] = Some w" by (simp add: user_profile_def demo_user_def meaning_string)
  moreover have "listProfiles demo_env demo_account = Inr [w]" "listConversations demo_env demo_account = Inr []"
    using w(1) by (simp_all add: listProfiles_def listConversations_def with_key_def requireVaultKey_def demo_account_def fresh_db_def)
  moreover have "repairVaultTextEncoding demo_env f demo_account = (None, demo_account)" for f
    by (simp add: repairVaultTextEncoding_def demo_account_def TEXT_ENCODING_FIX_KEY_def VAULT_META_KEY_def)
  moreover have "vd_key demo_account = Some [1]" "verifyVaultKeyId demo_env [1] demo_account"
    by (simp_all add: demo_account_def verifyVaultKeyId_def getVaultKeyId_def TEXT_ENCODING_FIX_KEY_def VAULT_META_KEY_def VAULT_KEY_ID_KEY_def)
  ultimately show ?thesis by (simp add: hydrateVault_def fill_app_def demo_shell_def)
qed

lemma demo_pin_store: "\<exists>s. sealed_under_pin plain_pin_env ''1234'' [1] s \<and> secret_get s PIN_RESET_KEY = None"
proof -
  obtain s where s: "setPin plain_pin_env (Some [1]) ''1234'' [] = Inr s"
    by (auto simp: setPin_def assertValidPin_def plain_pin_env_def trim_def js_space_def Let_def PIN_FORMAT_def is_digit_def
      writePinRecord_def secret_set_def setPinNeedsReset_def secret_remove_def)
  have "secret_get s PIN_RESET_KEY = None" using s
    by (auto simp: setPin_def setPinNeedsReset_def secret_remove_def secret_get_def delete_conv' and_then_def split: sum.splits if_splits)
  then show ?thesis using setPin_holds [OF plain_pin_ok s] unfolding sealed_under_pin_def by blast
qed

text \<open>A start that finds a stored session opens the application.\<close>

lemma demo_start: "\<exists>s. sh_mode (boot demo_shell_env (restarted (demo_shell s))) = InApp"
proof -
  obtain m s m' where set': "setSession plain_pin_env [1] MAX_TTL_MS (None, []) = (None, m, s)"
    and get: "getSession plain_pin_env (None, s) = (Some ([1], of_int (min (5 + clampTtl MAX_TTL_MS) MAX_TTL_MS)), m', s)"
    using session_survives_restart [OF plain_pin_ok(1), of plain_pin_env MAX_TTL_MS "[1]" "(None, [])"] by (auto simp: clampTtl_def MAX_TTL_MS_def)
  obtain t where s: "s = [(SESSION_KEY, t)]" using set' by (auto simp: setSession_def Let_def secret_set_def)
  let ?sh = "restarted (demo_shell s)"
  have st: "getPinStatus plain_pin_env s = Inr (\<lparr>pi_enabled = False, pi_needsReset = False, pi_lockedUntil = 0, pi_failures = 0, pi_available = True\<rparr>, s)"
    by (simp add: s getPinStatus_def readPinRecord_def getPinNeedsReset_def secret_get_def SESSION_KEY_def PIN_RECORD_KEY_def PIN_RESET_KEY_def)
  have sh: "sh_db ?sh = lockVault demo_account" "secrets_of ?sh = s" "sh_session ?sh = None"
    by (simp_all add: restarted_def shell_simps lockVault_def clearVaultKey_def) (simp_all add: secrets_of_def demo_shell_def lock_shell_def)
  have same: "?sh\<lparr>sh_db := lockVault demo_account\<rparr> = ?sh" by (simp only: sh(1) [symmetric]) simp
  obtain h where h: "getVaultHeader demo_env (sh_db ?sh) = (Some h, sh_db ?sh)"
    using demo_vault_header(2) by (auto simp: sh(1) getVaultHeader_def split: option.splits if_splits)
  let ?sh1 = "set_pin_flags False False (set_secrets s ?sh)"
  have stored: "getStoredSession demo_shell_env ?sh1 = (Some [1], set_secrets s (?sh1\<lparr>sh_session := m'\<rparr>))"
    using get sh by (simp add: getStoredSession_def shell_simps)
  let ?sh2 = "use_key [1] (set_secrets s (?sh1\<lparr>sh_session := m'\<rparr>))"
  obtain sh3 where sh3: "setStoredSession demo_shell_env [1] ?sh2 = (True, sh3)" "sh_db sh3 = sh_db ?sh2"
    by (simp add: setStoredSession_def setSession_def Let_def secret_set_def shell_simps)
  have db: "sh_db sh3 = demo_account"
    using sh3(2) sh(1) by (simp add: use_key_def setVaultKey_def shell_simps lockVault_def clearVaultKey_def demo_account_def)
  obtain d where d: "hydrateVault demo_shell_env (demo_shell s) = (True, (demo_shell s)\<lparr>sh_unlocked := True, sh_mode := InApp, sh_data := Some d\<rparr>)"
    using demo_hydrated by blast
  have "hydrateVault demo_shell_env sh3 = (True, sh3\<lparr>sh_db := demo_account, sh_unlocked := True, sh_mode := InApp, sh_data := Some d\<rparr>)"
    using filled_again [OF _ d, of sh3] db by simp
  then have "sh_mode (boot demo_shell_env ?sh) = InApp"
    using h st sh(1,2) stored sh3(1) by (simp add: same boot_def enter_def Let_def shell_simps)
  then show ?thesis by blast
qed

theorem closed_app_holds_no_key_witness:
  "\<exists>s. let sh = boot demo_shell_env (restarted (demo_shell s)) in vd_key (sh_db sh) \<noteq> None \<and> sh_unlocked sh \<and> sh_data sh \<noteq> None \<and>
    (let sh' = handleLogout demo_shell_env sh in vd_key (sh_db sh') = None \<and> sh_session sh' = None \<and> \<not> sh_unlocked sh' \<and> sh_data sh' = None)"
proof -
  obtain s where s: "sh_mode (boot demo_shell_env (restarted (demo_shell s))) = InApp" using demo_start by blast
  let ?sh = "boot demo_shell_env (restarted (demo_shell s))"
  have "shell_step shell_works ?sh (handleLogout demo_shell_env ?sh)" by (rule logout) (use s in simp_all)
  then have run: "(shell_step shell_works)\<^sup>*\<^sup>* ?sh (handleLogout demo_shell_env ?sh)" by (rule r_into_rtranclp)
  show ?thesis
    using closed_app_holds_no_key [of demo_shell_env "demo_shell s" ?sh] closed_app_holds_no_key [OF _ run]
      logout_ok [of demo_shell_env ?sh] s by (intro exI [of _ s]) (simp add: Let_def)
qed

theorem lock_screen_leaves_key_stored_witness:
  "\<exists>s sh1. setStoredSession demo_shell_env [1] (demo_shell s) = (True, sh1) \<and> sh_mode (boot demo_shell_env (restarted sh1)) = Locked \<and>
    fst (getStoredSession demo_shell_env (boot demo_shell_env (restarted sh1))) = Some [1]"
proof -
  obtain s where s: "sealed_under_pin plain_pin_env ''1234'' [1] s" "secret_get s PIN_RESET_KEY = None" using demo_pin_store by blast
  obtain sh1 where sh1: "setStoredSession demo_shell_env [1] (demo_shell s) = (True, sh1)"
    by (simp add: setStoredSession_def setSession_def Let_def secret_set_def)
  have "sh_mode (boot demo_shell_env (restarted sh1)) = Locked \<and> fst (getStoredSession demo_shell_env (boot demo_shell_env (restarted sh1))) = Some [1]"
    by (rule lock_screen_leaves_key_stored [OF _ _ _ _ sh1, of "''1234''"])
      (use plain_pin_ok(1) s demo_vault_header in \<open>simp_all add: MAX_TTL_MS_def\<close>)
  then show ?thesis using sh1 by blast
qed

theorem reset_keeps_the_pin_witness:
  "\<exists>s. sealed_under_pin plain_pin_env ''1234'' [1] s \<and>
    sh_mode (boot demo_shell_env ((handleReset demo_shell_env (demo_shell s))\<lparr>sh_db := demo_account\<rparr>)) = Locked"
proof -
  obtain s where s: "sealed_under_pin plain_pin_env ''1234'' [1] s" "secret_get s PIN_RESET_KEY = None" using demo_pin_store by blast
  from reset_keeps_the_pin [of demo_shell_env "''1234''" "[1]" "demo_shell s" demo_account] show ?thesis
    using s plain_pin_ok(1) demo_vault_header by auto
qed

theorem logout_can_be_final_witness:
  "let out = try_start_keys [(demo_shell_env, demo_key), (demo_shell_env, ''x'')] (handleLogout demo_shell_env (demo_shell [])) in
    sh_mode out = Onboarding \<and> closed_shell out \<and> vd_profiles (sh_db out) = vd_profiles demo_account"
proof -
  let ?r = "sealed_row demo_env [1] ''profile'' demo_user ''u''"
  have "deriveVk keyed_platform mkm \<noteq> [] \<and> hd (deriveVk keyed_platform mkm) \<noteq> 1" for mkm
    by (simp add: deriveVk_def keyed_platform_def vault_platform_def open_platform_def concatBytes_def encode_utf8_def utf8_char_def
      DOMAIN_VK_def take_Cons')
  then have r: "sealed_for_no_start_key keyed_platform ?r"
    using other_key_fails [of _ "[1]" demo_nonce] demo_nonce_length
    by (simp add: sealed_for_no_start_key_def open_row_def sealed_row_def decryptJsonRecord_def encryptJsonRecord_def in_vault_def)
  from logout_can_be_final [of demo_shell_env "demo_shell []" ?r "[(demo_shell_env, demo_key), (demo_shell_env, ''x'')]"]
  show ?thesis using r by (simp add: secret_get_def Let_def) (simp add: demo_account_def)
qed

end
