(* ===== verification/Message_Store.thy ===== *)
theory Message_Store
  imports Sync_Engine Media_Store
begin

text \<open>
  What the chat shows of a conversation (src/src/security/messageStore.ts): the rows of the messages table, and
  the events of the conversation, opened again from the first one under ratchets of their own that
  are thrown away afterwards; receipts, group events and chunks of media in them take effect again.

  Conversations, messages, profiles and media are the sealed rows of Vault_Db; receipts are rows of their own, in clear.
  A group event is decided by Group_Sync on the rows opened. An exception inside the loop over the events that the loop catches leaves no
  message; one it does not catch ends the load, whose result is then None. The ids and texts of a receipt that
  are no strings are stored as their texts, and a time with its integer part.
\<close>

subsection \<open>State\<close>

record chat_state =
  ch_db :: vault_db
  ch_events :: "stored_event list"
  ch_ratchets :: ratchet_store
  ch_receipts :: "receipt_record list"

record chat_env =
  cx_local :: local_env
  cx_vault :: vault_env

definition LEGACY_MEDIA_MAX_CHUNKS :: nat where "LEGACY_MEDIA_MAX_CHUNKS = 500"
definition LEGACY_MEDIA_MAX_CHUNK_BYTES :: nat where "LEGACY_MEDIA_MAX_CHUNK_BYTES = 1024 * 1024"

definition LEGACY_MEDIA_MAX_B64_LENGTH :: nat where
  "LEGACY_MEDIA_MAX_B64_LENGTH = nat \<lceil>of_nat (LEGACY_MEDIA_MAX_CHUNK_BYTES * 4) / (3 :: rat)\<rceil> + 4"

text \<open>The text that stands for a message that cannot be opened yet, in Korean.\<close>

definition text_deferred :: string where
  "text_deferred = octets [235, 179, 181, 237, 152, 184, 237, 153, 148, 32, 235, 179, 180, 235, 165, 152]"

subsection \<open>Numbers of any value\<close>

text \<open>\<open>Number(value)\<close>, None where it is not finite: the numerals of the language, with space around them, and
  what is no string through its text.\<close>

definition decimal_text :: "string \<Rightarrow> bool" where
  "decimal_text r = (let
       mant = takeWhile (\<lambda>c. c \<noteq> CHR ''e'') r;
       rest = drop (length mant) r;
       whole = takeWhile (\<lambda>c. c \<noteq> CHR ''.'') mant;
       frac = drop (Suc (length whole)) mant;
       e = tl rest; ds = (if e \<noteq> [] \<and> hd e \<in> set ''+-'' then tl e else e)
     in list_all is_digit whole \<and> list_all is_digit frac \<and> whole @ frac \<noteq> [] \<and>
        (rest = [] \<or> ds \<noteq> [] \<and> list_all is_digit ds))"

definition digit_value :: "char \<Rightarrow> nat" where
  "digit_value c = (let n = of_char c :: nat in if is_digit c then n - 48 else if 97 \<le> n \<and> n \<le> 122 then n - 87 else 99)"

definition radix_text :: "nat \<Rightarrow> string \<Rightarrow> rat option" where
  "radix_text b ds = (if ds \<noteq> [] \<and> list_all (\<lambda>c. digit_value c < b) ds
     then Some (of_nat (foldl (\<lambda>n c. n * b + digit_value c) 0 ds)) else None)"

definition string_number :: "string \<Rightarrow> rat option" where
  "string_number s = (let t = to_lower (trim s); r = (if t \<noteq> [] \<and> hd t \<in> set ''+-'' then tl t else t) in
     if t = [] then Some 0
     else if starts_with t ''0x'' then radix_text 16 (drop 2 t)
     else if starts_with t ''0o'' then radix_text 8 (drop 2 t)
     else if starts_with t ''0b'' then radix_text 2 (drop 2 t)
     else if decimal_text r then Some (if hd t = CHR ''-'' then - num_value r else num_value r)
     else None)"

fun number_value :: "json \<Rightarrow> rat option" where
  "number_value (JNum t) = finite_num (JNum t)"
| "number_value (JStr s) = string_number s"
| "number_value (JBool b) = Some (if b then 1 else 0)"
| "number_value JNull = Some 0"
| "number_value JUndef = None"
| "number_value (JArr []) = Some 0"
| "number_value (JArr [v]) = (case v of JNull \<Rightarrow> Some 0 | JUndef \<Rightarrow> Some 0 | JBool b \<Rightarrow> None | _ \<Rightarrow> number_value v)"
| "number_value (JArr (v # w # vs)) = None"
| "number_value (JObj kvs) = None"

text \<open>\<open>Number.isInteger\<close>, with the integer.\<close>

definition integer_of :: "json \<Rightarrow> int option" where
  "integer_of v = (case number_value v of None \<Rightarrow> None | Some q \<Rightarrow> if of_int \<lfloor>q\<rfloor> = q then Some \<lfloor>q\<rfloor> else None)"

subsection \<open>Who sent an event\<close>

text \<open>None where the verification throws; the sender, with the key that verifies.\<close>

definition determineSenderAndKey ::
    "platform \<Rightarrow> json \<Rightarrow> json \<Rightarrow> json \<Rightarrow> bytes \<Rightarrow> bytes \<Rightarrow> (json \<times> bytes) option option" where
  "determineSenderAndKey pf envelope currentUserId friendId myIdentityPub theirIdentityPub =
     (case verifyEnvelopeSignature pf envelope myIdentityPub of
        None \<Rightarrow> None
      | Some True \<Rightarrow> Some (Some (currentUserId, myIdentityPub))
      | Some False \<Rightarrow> (case verifyEnvelopeSignature pf envelope theirIdentityPub of
          None \<Rightarrow> None
        | Some True \<Rightarrow> Some (Some (friendId, theirIdentityPub))
        | Some False \<Rightarrow> Some None))"

subsection \<open>What an opened body does\<close>

text \<open>A group event over the sealed rows: conversations and profiles are opened, the conversation it changes and the messages
  it leaves are sealed and written. Where the conversations do not open, or a spread throws, or the conversation has no
  id to be stored under, nothing is written.\<close>

definition opened_rows :: "vault_env \<Rightarrow> vault_db \<Rightarrow> json list \<Rightarrow> app_state" where
  "opened_rows env db convs = \<lparr>ap_conversations = convs, ap_messages = [],
     ap_profiles = (case listProfiles env db of Inl _ \<Rightarrow> [] | Inr ps \<Rightarrow> ps),
     ap_receipts = [], ap_deferredRoles = [], ap_userIdCache = None, ap_calls = []\<rparr>"

definition or_unchanged :: "vault_db \<Rightarrow> db_error + vault_db \<Rightarrow> vault_db" where
  "or_unchanged db r = (case r of Inl _ \<Rightarrow> db | Inr db' \<Rightarrow> db')"

definition save_leave_message :: "vault_env \<Rightarrow> json \<Rightarrow> vault_db \<Rightarrow> vault_db" where
  "save_leave_message env m db = or_unchanged db (vault_saveMessage env (text_of_str (field m ''id''))
     (text_of (field m ''convId'')) (number_of (field m ''ts'')) m db)"

definition store_writes :: "vault_env \<Rightarrow> group_writes \<Rightarrow> vault_db \<Rightarrow> vault_db" where
  "store_writes env w db = (case w of
       None \<Rightarrow> db
     | Some (c, ms) \<Rightarrow> (case str_of (field c ''id'') of
         None \<Rightarrow> db
       | Some i \<Rightarrow> fold (save_leave_message env) ms (or_unchanged db (vault_saveConversation env i c db))))"

definition apply_group_stored :: "vault_env \<Rightarrow> json \<Rightarrow> json \<Rightarrow> json \<Rightarrow> vault_db \<Rightarrow> vault_db" where
  "apply_group_stored env payload senderId currentUserId db = (case listConversations env db of
       Inl _ \<Rightarrow> db
     | Inr convs \<Rightarrow> (case group_event_writes payload senderId currentUserId (opened_rows env db convs) of
         None \<Rightarrow> db | Some w \<Rightarrow> store_writes env w db))"

definition storeReadReceipt :: "string \<Rightarrow> string \<Rightarrow> int \<Rightarrow> string \<Rightarrow> receipt_record list \<Rightarrow> receipt_record list" where
  "storeReadReceipt convId msgId ts actorId = putReceipt
     \<lparr>rc_id = read_receipt_id msgId actorId, rc_convId = convId, rc_msgId = msgId, rc_kind = Read, rc_ts = ts,
      rc_actorId = Some actorId, rc_cursorTs = None, rc_anchorMsgId = None\<rparr>"

definition legacy_chunk_id :: "string \<Rightarrow> string \<Rightarrow> nat \<Rightarrow> string" where
  "legacy_chunk_id ownerType ownerId idx = ownerType @ '':'' @ ownerId @ '':'' @ nat_text idx"

definition storeMediaChunk :: "vault_env \<Rightarrow> json \<Rightarrow> vault_db \<Rightarrow> vault_db" where
  "storeMediaChunk env body db =
     (case (vd_key db, integer_of (field body ''idx''), integer_of (field body ''total''), str_of (field body ''b64'')) of
        (Some vk, Some idx, Some tot, Some b64) \<Rightarrow>
          let ownerId = text_of_str (field body ''ownerId'');
              ownerType = (if field body ''ownerType'' = JStr ''group'' then ''group'' else ''message'');
              claimed = (case field body ''mime'' of JStr s \<Rightarrow> JStr s | _ \<Rightarrow> JStr ''application/octet-stream'');
              mime = normalizeMediaMime claimed
          in if \<not> isValidMediaOwnerId (field body ''ownerId'') then db
             else if idx < 0 \<or> tot \<le> 0 \<or> tot \<le> idx \<or> int LEGACY_MEDIA_MAX_CHUNKS < tot \<or> LEGACY_MEDIA_MAX_B64_LENGTH < length b64 then db
             else if isPreviewMediaClaim claimed \<and> \<not> isSafePreviewMime mime then db
             else (case decodeBase64Url b64 of
                 None \<Rightarrow> db
               | Some bs \<Rightarrow>
                   if bs = [] \<or> LEGACY_MEDIA_MAX_CHUNK_BYTES < length bs then db
                   else if idx = 0 \<and> isSafePreviewMime mime \<and> \<not> hasValidPreviewSignature (JStr mime) bs then db
                   else if (case owner_rows ownerType ownerId db of [] \<Rightarrow> False
                     | existing # _ \<Rightarrow> md_total existing \<noteq> tot \<or> normalizeMediaMime (JStr (md_mime existing)) \<noteq> mime) then db
                   else put_media [\<lparr>md_id = legacy_chunk_id ownerType ownerId (nat idx), md_ownerType = ownerType, md_ownerId = ownerId,
                     md_idx = nat idx, md_enc = encodeBinaryEnvelope (ve_pf env) vk (legacy_chunk_id ownerType ownerId (nat idx)) ''mediaChunk''
                       (ve_nonce env (legacy_chunk_id ownerType ownerId (nat idx))) bs,
                     md_mime = mime, md_total = tot, md_updatedAt = ve_now env\<rparr>] db)
      | _ \<Rightarrow> db)"

definition shown_message :: "json \<Rightarrow> json \<Rightarrow> json \<Rightarrow> json \<Rightarrow> json \<Rightarrow> json" where
  "shown_message conv body senderId ts messageId = JObj
     [(''id'', messageId), (''convId'', field conv ''id''), (''senderId'', senderId),
      (''text'', nn (field body ''text'') (JStr [])), (''ts'', ts),
      (''media'', if field body ''media'' = JUndef then JUndef
         else nullish (parseIncomingMediaRef (field body ''media'') (str_of messageId)) JUndef),
      (''clientBatchId'', field body ''clientBatchId'')]"

definition handleBody :: "chat_env \<Rightarrow> json \<Rightarrow> json \<Rightarrow> json \<Rightarrow> json \<Rightarrow> json \<Rightarrow> json \<Rightarrow> chat_state \<Rightarrow> json option \<times> chat_state" where
  "handleBody env conv currentUserId body senderId ts messageId st =
     (let type = field body ''type''; kind = field body ''kind'' in
      if \<not> is_object body then (None, st)
      else if isGroupEventPayload body
      then (None, st\<lparr>ch_db := apply_group_stored (cx_vault env) body senderId currentUserId (ch_db st)\<rparr>)
      else if type = JStr ''msg'' then (Some (shown_message conv body senderId ts messageId), st)
      else if type = JStr ''rcpt'' \<and> kind = JStr ''read'' \<and> str_of (field body ''msgId'') \<noteq> None
      then (None, st\<lparr>ch_receipts := storeReadReceipt (text_of (nn (field body ''convId'') (field conv ''id'')))
        (text_of_str (field body ''msgId'')) (num_floor (nn (field body ''ts'') ts)) (text_of senderId) (ch_receipts st)\<rparr>)
      else if type = JStr ''rcpt'' \<and> kind = JStr ''read_cursor''
      then (None, case finite_num (if finite_num (field body ''cursorTs'') \<noteq> None then field body ''cursorTs'' else nn (field body ''ts'') ts) of
          None \<Rightarrow> st
        | Some q \<Rightarrow> st\<lparr>ch_receipts := putReadCursor (le_now (cx_local env))
            (text_of (nn (field body ''convId'') (field conv ''id''))) (text_of senderId) (Some \<lfloor>q\<rfloor>)
            (str_of (nn (field body ''anchorMsgId'') (field body ''msgId''))) (ch_receipts st)\<rparr>)
      else if type = JStr ''media'' \<and> field body ''phase'' = JStr ''chunk'' \<and> str_of (field body ''ownerId'') \<noteq> None \<and>
        str_of (field body ''b64'') \<noteq> None
      then (None, st\<lparr>ch_db := storeMediaChunk (cx_vault env) body (ch_db st)\<rparr>)
      else (None, st))"

subsection \<open>Opening the events again\<close>

record replay =
  rp_conv :: json
  rp_user :: json
  rp_friendId :: json
  rp_convId :: string
  rp_baseKey :: bytes
  rp_legacyKey :: bytes
  rp_myKey :: bytes
  rp_theirKey :: bytes

datatype reopened = Waits | NotOpened | Opened json

definition of_decrypted :: "box_error + json \<Rightarrow> reopened" where
  "of_decrypted r = (case r of Inl _ \<Rightarrow> NotOpened | Inr body \<Rightarrow> Opened body)"

definition reopen_v2 :: "local_env \<Rightarrow> replay \<Rightarrow> json \<Rightarrow> bytes \<Rightarrow> ratchet_store \<Rightarrow> reopened \<times> ratchet_store" where
  "reopen_v2 env rp envelope verifyKey rs =
     (let rk = field (field envelope ''header'') ''rk'';
          (recv, rs1) = tryRecvDhKey (le_crypto env) (le_fresh env (rp_convId rp)) rs (rp_convId rp) (rp_baseKey rp)
            \<lparr>hr_i = rk_index rk, hr_dh = text_of_str (field rk ''dh''), hr_pn = None\<rparr> MAX_SKIP
      in case recv of
           RecvThrows \<Rightarrow> (NotOpened, rs1)
         | RecvDeferred \<Rightarrow> (Waits, rs1)
         | RecvKey key s \<Rightarrow> (case decryptEnvelope (le_platform env) key envelope verifyKey of
             Inl _ \<Rightarrow> (NotOpened, rs1) | Inr body \<Rightarrow> (Opened body, commit_recv rs1 (rp_convId rp) s)))"

definition reopen_v1 :: "local_env \<Rightarrow> replay \<Rightarrow> json \<Rightarrow> bytes \<Rightarrow> ratchet_store \<Rightarrow> reopened \<times> ratchet_store" where
  "reopen_v1 env rp envelope verifyKey rs =
     (case tryRecvKey (le_crypto env) rs (rp_convId rp) (rp_baseKey rp) (rk_index (field (field envelope ''header'') ''rk'')) MAX_SKIP of
        (None, rs1) \<Rightarrow> (Waits, rs1)
      | (Some key, rs1) \<Rightarrow> (of_decrypted (decryptEnvelope (le_platform env) key envelope verifyKey), rs1))"

definition reopen :: "local_env \<Rightarrow> replay \<Rightarrow> json \<Rightarrow> bytes \<Rightarrow> ratchet_store \<Rightarrow> reopened \<times> ratchet_store" where
  "reopen env rp envelope verifyKey rs = (let rk = field (field envelope ''header'') ''rk'' in
     if rk_is ''2'' rk \<and> str_of (field rk ''dh'') \<noteq> None then reopen_v2 env rp envelope verifyKey rs
     else if rk_is ''1'' rk then reopen_v1 env rp envelope verifyKey rs
     else (of_decrypted (decryptEnvelope (le_platform env) (rp_legacyKey rp) envelope verifyKey), rs))"

definition pushMessageIfNew :: "json \<Rightarrow> json list \<Rightarrow> json list" where
  "pushMessageIfNew m ms = (if field m ''id'' \<in> (\<lambda>x. field x ''id'') ` set ms then ms else ms @ [m])"

definition waiting_message :: "replay \<Rightarrow> json \<Rightarrow> json \<Rightarrow> json" where
  "waiting_message rp header senderId = JObj [(''id'', field header ''eventId''), (''convId'', field (rp_conv rp) ''id''),
     (''senderId'', senderId), (''text'', JStr text_deferred), (''ts'', field header ''ts'')]"

text \<open>One event; the messages so far, and None where the load ends with an exception.\<close>

definition replay_event :: "chat_env \<Rightarrow> replay \<Rightarrow> stored_event \<Rightarrow> json list \<Rightarrow> chat_state \<Rightarrow> json list option \<times> chat_state" where
  "replay_event env rp record' ms st = (case pf_json_parse (le_platform (cx_local env)) (se_envelopeJson record') of
       None \<Rightarrow> (Some ms, st)
     | Some envelope \<Rightarrow> (case determineSenderAndKey (le_platform (cx_local env)) envelope (rp_user rp) (rp_friendId rp) (rp_myKey rp) (rp_theirKey rp) of
         None \<Rightarrow> (None, st)
       | Some None \<Rightarrow> (Some ms, st)
       | Some (Some (senderId, verifyKey)) \<Rightarrow>
           let header = field envelope ''header''; (r, rs) = reopen (cx_local env) rp envelope verifyKey (ch_ratchets st);
               st1 = st\<lparr>ch_ratchets := rs\<rparr>
           in (case r of
                 Waits \<Rightarrow> (Some (pushMessageIfNew (waiting_message rp header senderId) ms), st1)
               | NotOpened \<Rightarrow> (Some ms, st1)
               | Opened body \<Rightarrow> (case handleBody env (rp_conv rp) (rp_user rp) body senderId (field header ''ts'') (field header ''eventId'') st1 of
                   (None, st2) \<Rightarrow> (Some ms, st2) | (Some m, st2) \<Rightarrow> (Some (pushMessageIfNew m ms), st2)))))"

fun replay_events :: "chat_env \<Rightarrow> replay \<Rightarrow> stored_event list \<Rightarrow> json list \<Rightarrow> chat_state \<Rightarrow> json list option \<times> chat_state" where
  "replay_events env rp [] ms st = (Some ms, st)"
| "replay_events env rp (r # rs) ms st = (case replay_event env rp r ms st of
       (None, st1) \<Rightarrow> (None, st1) | (Some ms1, st1) \<Rightarrow> replay_events env rp rs ms1 st1)"

text \<open>The key pair in use is taken over into the ratchet of the replay.\<close>

definition start_replay :: "chat_env \<Rightarrow> replay \<Rightarrow> string \<Rightarrow> ratchet_store \<Rightarrow> ratchet_store" where
  "start_replay env rp convId rs = (case getDhRatchetState rs convId of
       None \<Rightarrow> rs
     | Some existing \<Rightarrow>
         let (s, rs1) = getOrInitDhRatchetState (le_crypto (cx_local env)) (le_fresh (cx_local env) (rp_convId rp)) rs (rp_convId rp) (rp_baseKey rp)
         in setDhRatchetState rs1 (rp_convId rp) (s\<lparr>r2_selfPriv := r2_selfPriv existing, r2_selfPub := r2_selfPub existing\<rparr>))"

definition drop_replay :: "string \<Rightarrow> ratchet_store \<Rightarrow> ratchet_store" where
  "drop_replay i rs = clearDhRatchetState (clearRatchetState rs i) i"

text \<open>The keys of a replay; None where one of them cannot be made.\<close>

definition replay_of :: "chat_env \<Rightarrow> json \<Rightarrow> json \<Rightarrow> json \<Rightarrow> replay option" where
  "replay_of env conv friend currentUserId =
     (let l = cx_local env; friendKey = text_of (nn (field friend ''friendId'') (field friend ''id'')); convId = text_of (field conv ''id'')
      in case Option.bind (str_of (field friend ''dhPub'')) decodeBase64Url of
           None \<Rightarrow> None
         | Some theirDhPub \<Rightarrow>
             (case (deriveConversationKey (le_platform l) (le_dhPriv l) theirDhPub (le_psk l friendKey) (Some (encode_utf8 (''direct:'' @ friendKey))),
                 deriveConversationKey (le_platform l) (le_dhPriv l) theirDhPub (le_psk l friendKey) (Some (encode_utf8 (''conv:'' @ convId))),
                 Option.bind (str_of (field friend ''identityPub'')) decodeBase64Url) of
               (Some legacyKey, Some baseKey, Some theirKey) \<Rightarrow> Some \<lparr>rp_conv = conv, rp_user = currentUserId, rp_friendId = field friend ''id'',
                 rp_convId = convId @ '':replay:'' @ le_newId l convId, rp_baseKey = baseKey, rp_legacyKey = legacyKey,
                 rp_myKey = le_identityPub l, rp_theirKey = theirKey\<rparr>
             | _ \<Rightarrow> None))"

definition tombstone_ids :: "vault_db \<Rightarrow> json set" where
  "tombstone_ids db = (\<lambda>t. JStr (ts_id t)) ` {t \<in> set (vd_tombstones db). ts_type t = ''message''}"

definition without_deleted :: "json set \<Rightarrow> json list \<Rightarrow> json list" where
  "without_deleted gone ms = filter (\<lambda>m. field m ''id'' \<notin> gone) ms"

definition stored_messages :: "chat_env \<Rightarrow> json \<Rightarrow> vault_db \<Rightarrow> json list" where
  "stored_messages env conv db = (case listMessagesByConv (cx_vault env) (text_of (field conv ''id'')) db of Inl _ \<Rightarrow> [] | Inr ms \<Rightarrow> ms)"

definition loadConversationMessages :: "chat_env \<Rightarrow> json \<Rightarrow> json option \<Rightarrow> json \<Rightarrow> chat_state \<Rightarrow> json list option \<times> chat_state" where
  "loadConversationMessages env conv friend currentUserId st =
     (let legacy = stored_messages env conv (ch_db st); gone = tombstone_ids (ch_db st); f = nullish friend JNull in
      if \<not> truthy (field f ''dhPub'') \<or> \<not> truthy (field f ''identityPub'') then (Some (without_deleted gone legacy), st)
      else (case replay_of env conv f currentUserId of
          None \<Rightarrow> (None, st)
        | Some rp \<Rightarrow>
            let convId = text_of (field conv ''id'');
                (r, st1) = replay_events env rp (listEventsByConv convId (ch_events st)) legacy
                  (st\<lparr>ch_ratchets := start_replay env rp convId (ch_ratchets st)\<rparr>);
                st2 = st1\<lparr>ch_ratchets := drop_replay (rp_convId rp) (ch_ratchets st1)\<rparr>
            in (map_option (\<lambda>ms. without_deleted gone (sort_key (\<lambda>m. number_of (field m ''ts'')) ms)) r, st2)))"

subsection \<open>What a load leaves alone\<close>

definition same_ratchets :: "string \<Rightarrow> ratchet_store \<Rightarrow> ratchet_store \<Rightarrow> bool" where
  "same_ratchets i rs rs' \<longleftrightarrow> (\<forall>c. c \<noteq> i \<longrightarrow> rt_v1 rs' c = rt_v1 rs c \<and> rt_v2 rs' c = rt_v2 rs c)"

lemma same_ratchets_refl [simp]: "same_ratchets i rs rs"
  by (simp add: same_ratchets_def)

lemma same_ratchets_trans: "same_ratchets i a b \<Longrightarrow> same_ratchets i b c \<Longrightarrow> same_ratchets i a c"
  by (simp add: same_ratchets_def)

lemma set_same [simp]:
  "same_ratchets i a (setRatchetState b i s) = same_ratchets i a b" "same_ratchets i a (setDhRatchetState b i t) = same_ratchets i a b"
  "same_ratchets i a (drop_replay i b) = same_ratchets i a b"
  by (auto simp: same_ratchets_def setRatchetState_def setDhRatchetState_def drop_replay_def clearRatchetState_def clearDhRatchetState_def)

lemma init_same:
  "getOrInitRatchetState lib rs i k = (s, rs') \<Longrightarrow> same_ratchets i rs rs'"
  "getOrInitDhRatchetState lib kp rs i k = (t, rs') \<Longrightarrow> same_ratchets i rs rs'"
  by (auto simp: getOrInitRatchetState_def getOrInitDhRatchetState_def Let_def split: option.splits)

lemma recv_same:
  "tryRecvKey lib rs i k j n = (r, rs') \<Longrightarrow> same_ratchets i rs rs'"
  "tryRecvDhKey lib kp rs i k rk n = (d, rs') \<Longrightarrow> same_ratchets i rs rs'"
  by (auto simp: tryRecvKey_def tryRecvDhKey_def Let_def split: prod.splits if_splits dest: init_same)

lemma reopen_same:
  assumes "reopen env rp envelope key rs = (r, rs')"
  shows "same_ratchets (rp_convId rp) rs rs'"
proof -
  have v2: "same_ratchets (rp_convId rp) rs rs'" if "reopen_v2 env rp envelope key rs = (r, rs')" for r rs'
    using that by (auto simp: reopen_v2_def Let_def commit_recv_def split: prod.splits recv_result.splits sum.splits dest: recv_same)
  have v1: "same_ratchets (rp_convId rp) rs rs'" if "reopen_v1 env rp envelope key rs = (r, rs')" for r rs'
    using that by (auto simp: reopen_v1_def split: prod.splits option.splits dest: recv_same)
  show ?thesis using assms v1 v2 by (auto simp: reopen_def Let_def split: if_splits)
qed

text \<open>All a load changes: ratchets of its own, and what group events, receipts and chunks of media write.\<close>

definition same_but_replayed :: "vault_db \<Rightarrow> vault_db \<Rightarrow> bool" where
  "same_but_replayed db db' \<longleftrightarrow>
     db' = db\<lparr>vd_conversations := vd_conversations db', vd_messages := vd_messages db', vd_media := vd_media db'\<rparr>"

lemma same_but_replayed_refl [simp]: "same_but_replayed db db"
  by (simp add: same_but_replayed_def)

lemma same_but_replayed_trans: "same_but_replayed a b \<Longrightarrow> same_but_replayed b c \<Longrightarrow> same_but_replayed a c"
  by (cases a; cases b; cases c) (simp add: same_but_replayed_def)

lemma same_but_replayed_updates:
  "same_but_replayed db (db\<lparr>vd_conversations := cs\<rparr>)" "same_but_replayed db (db\<lparr>vd_messages := ms\<rparr>)"
  "same_but_replayed db (db\<lparr>vd_media := media\<rparr>)"
  by (simp_all add: same_but_replayed_def)

lemma same_but_replayed_keeps:
  "same_but_replayed a b \<Longrightarrow> vd_profiles b = vd_profiles a \<and> vd_tombstones b = vd_tombstones a \<and> vd_key b = vd_key a \<and> vd_meta b = vd_meta a"
  by (cases a; cases b) (simp add: same_but_replayed_def)

lemma group_only_replayed: "same_but_replayed db (apply_group_stored env payload s u db)"
proof -
  have m: "same_but_replayed d (save_leave_message env m d)" for m d
    by (simp add: save_leave_message_def or_unchanged_def vault_saveMessage_def with_key_def same_but_replayed_updates split: sum.split)
  have ms: "same_but_replayed d (fold (save_leave_message env) ms d)" for ms d
    by (induction ms arbitrary: d) (auto intro: same_but_replayed_trans m)
  have "same_but_replayed db (or_unchanged db (vault_saveConversation env i c db))" for i c
    by (simp add: or_unchanged_def vault_saveConversation_def with_key_def same_but_replayed_updates split: sum.split)
  then have "same_but_replayed db (store_writes env w db)" for w
    using same_but_replayed_trans [OF _ ms] by (simp add: store_writes_def split: option.split)
  then show ?thesis by (simp add: apply_group_stored_def split: sum.split option.split)
qed

definition only_replayed :: "string \<Rightarrow> chat_state \<Rightarrow> chat_state \<Rightarrow> bool" where
  "only_replayed i st st' \<longleftrightarrow> same_ratchets i (ch_ratchets st) (ch_ratchets st') \<and> ch_events st' = ch_events st \<and>
     same_but_replayed (ch_db st) (ch_db st')"

lemma only_replayed_refl [simp]: "only_replayed i st st"
  by (simp add: only_replayed_def)

lemma only_replayed_trans: "only_replayed i a b \<Longrightarrow> only_replayed i b c \<Longrightarrow> only_replayed i a c"
  by (auto simp: only_replayed_def intro: same_ratchets_trans same_but_replayed_trans)

lemma only_replayed_ratchets: "same_ratchets i (ch_ratchets st) rs \<Longrightarrow> only_replayed i st (st\<lparr>ch_ratchets := rs\<rparr>)"
  by (simp add: only_replayed_def)

lemma chunk_only_media: "\<exists>media. storeMediaChunk env body db = db\<lparr>vd_media := media\<rparr>"
proof -
  define P where "P d \<longleftrightarrow> (\<exists>media. d = db\<lparr>vd_media := media\<rparr>)" for d
  have "P db" unfolding P_def by (rule exI [of _ "vd_media db"]) simp
  moreover have "P (db\<lparr>vd_media := media\<rparr>)" for media by (auto simp: P_def)
  ultimately have "P (storeMediaChunk env body db)" by (simp add: storeMediaChunk_def Let_def put_media_def split: option.split)
  then show ?thesis by (simp add: P_def)
qed

lemma body_only_replayed:
  assumes "handleBody env conv u body s ts i st = (r, st')"
  shows "only_replayed c st st'"
proof -
  have app: "only_replayed c st (st\<lparr>ch_receipts := a\<rparr>)" for a
    by (simp add: only_replayed_def)
  have group: "only_replayed c st (st\<lparr>ch_db := apply_group_stored (cx_vault env) body s u (ch_db st)\<rparr>)" for s u
    by (simp add: only_replayed_def group_only_replayed)
  have media: "only_replayed c st (st\<lparr>ch_db := storeMediaChunk (cx_vault env) body (ch_db st)\<rparr>)"
    using chunk_only_media [of "cx_vault env" body "ch_db st"] by (auto simp: only_replayed_def same_but_replayed_updates)
  show ?thesis using assms app group media by (auto simp: handleBody_def Let_def split: if_splits option.splits)
qed

lemma event_only_replayed:
  assumes "replay_event env rp e ms st = (r, st')"
  shows "only_replayed (rp_convId rp) st st'"
proof -
  have o: "only_replayed (rp_convId rp) st (st\<lparr>ch_ratchets := rs\<rparr>)" if "reopen l rp envelope key (ch_ratchets st) = (x, rs)" for l envelope key x rs
    by (rule only_replayed_ratchets) (rule reopen_same [OF that])
  have b: "only_replayed (rp_convId rp) st st2"
    if "reopen l rp envelope key (ch_ratchets st) = (x, rs)" "handleBody env conv u body s ts i (st\<lparr>ch_ratchets := rs\<rparr>) = (y, st2)"
    for l envelope key x rs conv u body s ts i y st2
    by (rule only_replayed_trans [OF o [OF that(1)] body_only_replayed [OF that(2)]])
  show ?thesis using assms unfolding replay_event_def Let_def
    by (auto split: option.splits prod.splits reopened.splits dest: o b)
qed

lemma events_only_replayed: "replay_events env rp es ms st = (r, st') \<Longrightarrow> only_replayed (rp_convId rp) st st'"
proof (induction es arbitrary: ms st)
  case (Cons e es)
  then show ?case
    by (auto split: prod.splits option.splits dest: event_only_replayed intro: only_replayed_trans)
qed simp

lemma start_same: "same_ratchets (rp_convId rp) rs (start_replay env rp i rs)"
  by (auto simp: start_replay_def Let_def split: option.splits prod.splits dest: init_same)

lemma replay_of_id: "replay_of env conv friend u = Some rp \<Longrightarrow>
    rp_convId rp = text_of (field conv ''id'') @ '':replay:'' @ le_newId (cx_local env) (text_of (field conv ''id'')) \<and>
    rp_user rp = u \<and> rp_friendId rp = field friend ''id'' \<and> rp_myKey rp = le_identityPub (cx_local env) \<and>
    Option.bind (str_of (field friend ''identityPub'')) decodeBase64Url = Some (rp_theirKey rp)"
  by (auto simp: replay_of_def Let_def split: option.splits)

lemma load_only_replayed:
  assumes "loadConversationMessages env conv friend u st = (r, st')"
  shows "only_replayed (text_of (field conv ''id'') @ '':replay:'' @ le_newId (cx_local env) (text_of (field conv ''id''))) st st'"
proof (cases "truthy (field (nullish friend JNull) ''dhPub'') \<and> truthy (field (nullish friend JNull) ''identityPub'')")
  case keys: True
  show ?thesis
  proof (cases "replay_of env conv (nullish friend JNull) u")
    case (Some rp)
    let ?i = "text_of (field conv ''id'')" and ?gone = "tombstone_ids (ch_db st)"
    let ?st = "st\<lparr>ch_ratchets := start_replay env rp ?i (ch_ratchets st)\<rparr>"
    obtain x st1 where run: "replay_events env rp (listEventsByConv ?i (ch_events st)) (stored_messages env conv (ch_db st)) ?st = (x, st1)"
      by fastforce
    have st': "st' = st1\<lparr>ch_ratchets := drop_replay (rp_convId rp) (ch_ratchets st1)\<rparr>"
      using assms keys Some run by (simp add: loadConversationMessages_def Let_def)
    have "only_replayed (rp_convId rp) st ?st" by (rule only_replayed_ratchets) (rule start_same)
    moreover have "only_replayed (rp_convId rp) ?st st1" by (rule events_only_replayed [OF run])
    moreover have "only_replayed (rp_convId rp) st1 st'" unfolding st' by (rule only_replayed_ratchets) simp
    ultimately have "only_replayed (rp_convId rp) st st'" by (blast intro: only_replayed_trans)
    then show ?thesis using replay_of_id [OF Some] by simp
  qed (use assms keys in \<open>simp add: loadConversationMessages_def Let_def\<close>)
qed (use assms in \<open>auto simp: loadConversationMessages_def Let_def\<close>)

text \<open>
  C15. Opening the events of a conversation again leaves all ratchets in use alone: whether the load ends with messages or
  an exception, the keys of every conversation are what they were, so that the next message of any of them is sent and
  received as if nothing had been loaded. The log of events, the profiles, the tombstones and the key are the same;
  conversations, messages, receipts and media may change, by what the replayed events write.
\<close>

theorem loading_keeps_ratchets:
  assumes "loadConversationMessages env conv friend u st = (r, st')"
    and "c \<noteq> text_of (field conv ''id'') @ '':replay:'' @ le_newId (cx_local env) (text_of (field conv ''id''))"
  shows "getRatchetState (ch_ratchets st') c = getRatchetState (ch_ratchets st) c \<and>
    getDhRatchetState (ch_ratchets st') c = getDhRatchetState (ch_ratchets st) c \<and>
    ch_events st' = ch_events st \<and> vd_profiles (ch_db st') = vd_profiles (ch_db st) \<and>
    vd_tombstones (ch_db st') = vd_tombstones (ch_db st) \<and> vd_key (ch_db st') = vd_key (ch_db st)"
  using load_only_replayed [OF assms(1)] assms(2) same_but_replayed_keeps [of "ch_db st" "ch_db st'"]
  by (simp add: only_replayed_def same_ratchets_def getRatchetState_def getDhRatchetState_def)

subsection \<open>What is shown was written by one of the two\<close>

text \<open>A message that an event vouches for: its envelope is signed with the key of the sender the message names, and what is shown is what
  it holds, or that it cannot be opened yet.\<close>

definition vouched :: "local_env \<Rightarrow> replay \<Rightarrow> stored_event \<Rightarrow> json \<Rightarrow> bool" where
  "vouched env rp e m \<longleftrightarrow> (\<exists>envelope senderId key. pf_json_parse (le_platform env) (se_envelopeJson e) = Some envelope \<and>
     (senderId, key) \<in> {(rp_user rp, rp_myKey rp), (rp_friendId rp, rp_theirKey rp)} \<and>
     verifyEnvelopeSignature (le_platform env) envelope key = Some True \<and>
     (let header = field envelope ''header'' in m = waiting_message rp header senderId \<or>
        (\<exists>k body. decryptEnvelope (le_platform env) k envelope key = Inr body \<and>
           m = shown_message (rp_conv rp) body senderId (field header ''ts'') (field header ''eventId''))))"

lemma sender_verified:
  "determineSenderAndKey pf envelope u f mine theirs = Some (Some (s, key)) \<Longrightarrow>
     (s, key) \<in> {(u, mine), (f, theirs)} \<and> verifyEnvelopeSignature pf envelope key = Some True"
  by (auto simp: determineSenderAndKey_def split: option.splits bool.splits)

lemma reopen_decrypted:
  assumes "reopen env rp envelope key rs = (Opened body, rs')"
  shows "\<exists>k. decryptEnvelope (le_platform env) k envelope key = Inr body"
proof -
  have d: "\<exists>k. decryptEnvelope (le_platform env) k envelope key = Inr body" if "of_decrypted (decryptEnvelope (le_platform env) k envelope key) = Opened body" for k
    using that by (auto simp: of_decrypted_def split: sum.splits)
  have "\<exists>k. decryptEnvelope (le_platform env) k envelope key = Inr body" if "reopen_v1 env rp envelope key rs = (Opened body, rs')"
    using that d by (auto simp: reopen_v1_def split: prod.splits option.splits)
  moreover have "\<exists>k. decryptEnvelope (le_platform env) k envelope key = Inr body" if "reopen_v2 env rp envelope key rs = (Opened body, rs')"
    using that by (auto simp: reopen_v2_def Let_def split: prod.splits recv_result.splits sum.splits)
  ultimately show ?thesis using assms d by (auto simp: reopen_def Let_def split: if_splits)
qed

lemma body_shows: "handleBody env conv u body s ts i st = (Some m, st') \<Longrightarrow> m = shown_message conv body s ts i"
  by (auto simp: handleBody_def Let_def split: if_splits)

lemma event_adds:
  assumes "replay_event env rp e ms st = (Some ms', st')"
  shows "ms' = ms \<or> (\<exists>m. ms' = pushMessageIfNew m ms \<and> vouched (cx_local env) rp e m)"
proof (cases "pf_json_parse (le_platform (cx_local env)) (se_envelopeJson e)")
  case (Some envelope)
  let ?pf = "le_platform (cx_local env)" and ?header = "field envelope ''header''"
  show ?thesis
  proof (cases "determineSenderAndKey ?pf envelope (rp_user rp) (rp_friendId rp) (rp_myKey rp) (rp_theirKey rp)")
    case resolved: (Some x)
    show ?thesis
    proof (cases x)
      case sk: (Some sk)
      obtain s key where k: "sk = (s, key)" by (cases sk)
      have ver: "(s, key) \<in> {(rp_user rp, rp_myKey rp), (rp_friendId rp, rp_theirKey rp)}" "verifyEnvelopeSignature ?pf envelope key = Some True"
        using sender_verified resolved sk k by blast+
      obtain r rs where r: "reopen (cx_local env) rp envelope key (ch_ratchets st) = (r, rs)" by fastforce
      have v: "vouched (cx_local env) rp e m"
        if "m = waiting_message rp ?header s \<or> (\<exists>k body. decryptEnvelope ?pf k envelope key = Inr body \<and>
          m = shown_message (rp_conv rp) body s (field ?header ''ts'') (field ?header ''eventId''))" for m
        unfolding vouched_def Let_def using Some ver that by blast
      show ?thesis
      proof (cases r)
        case Waits
        then show ?thesis using assms Some resolved sk k r v by (auto simp: replay_event_def Let_def)
      next
        case NotOpened
        then show ?thesis using assms Some resolved sk k r by (auto simp: replay_event_def Let_def)
      next
        case (Opened body)
        obtain k' where k': "decryptEnvelope ?pf k' envelope key = Inr body" using reopen_decrypted r Opened by blast
        obtain mm st2 where h: "handleBody env (rp_conv rp) (rp_user rp) body s (field ?header ''ts'') (field ?header ''eventId'') (st\<lparr>ch_ratchets := rs\<rparr>) = (mm, st2)"
          by fastforce
        show ?thesis
        proof (cases mm)
          case mm: (Some m)
          then have "m = shown_message (rp_conv rp) body s (field ?header ''ts'') (field ?header ''eventId'')" using body_shows h by blast
          then have "vouched (cx_local env) rp e m" using v k' by blast
          moreover have "ms' = pushMessageIfNew m ms" using assms Some resolved sk k r Opened h mm by (simp add: replay_event_def Let_def)
          ultimately show ?thesis by blast
        qed (use assms Some resolved sk k r Opened h in \<open>simp add: replay_event_def Let_def\<close>)
      qed
    qed (use assms Some resolved in \<open>simp add: replay_event_def\<close>)
  qed (use assms Some in \<open>simp add: replay_event_def\<close>)
qed (use assms in \<open>simp add: replay_event_def\<close>)

lemma push_distinct: "distinct (map (\<lambda>x. field x ''id'') ms) \<Longrightarrow> distinct (map (\<lambda>x. field x ''id'') (pushMessageIfNew m ms))"
  by (auto simp: pushMessageIfNew_def)

lemma replay_adds:
  "replay_events env rp es ms st = (Some ms', st') \<Longrightarrow>
   (\<exists>new. ms' = ms @ new \<and> (\<forall>m \<in> set new. \<exists>e \<in> set es. vouched (cx_local env) rp e m)) \<and>
   (distinct (map (\<lambda>x. field x ''id'') ms) \<longrightarrow> distinct (map (\<lambda>x. field x ''id'') ms'))"
proof (induction es arbitrary: ms st)
  case (Cons e es)
  obtain ms1 st1 where one: "replay_event env rp e ms st = (Some ms1, st1)" and rest: "replay_events env rp es ms1 st1 = (Some ms', st')"
    using Cons.prems by (auto split: prod.splits option.splits)
  from event_adds [OF one] have step: "(\<exists>n. ms1 = ms @ n \<and> (\<forall>m \<in> set n. vouched (cx_local env) rp e m)) \<and>
      (distinct (map (\<lambda>x. field x ''id'') ms) \<longrightarrow> distinct (map (\<lambda>x. field x ''id'') ms1))"
    by (auto simp: push_distinct) (auto simp: pushMessageIfNew_def split: if_splits)
  from Cons.IH [OF rest] step show ?case by fastforce
qed simp

text \<open>
  C6. What a conversation with a partner whose two keys are known shows was written by one of the two: every message is
  a row of the messages table, or an event of the log whose envelope is signed with the key of the sender it names, shown as it
  was sealed or as waiting; no deleted message is shown, no message twice where the rows have different ids, and they are in
  the order of their times.
\<close>

theorem loaded_messages_are_genuine:
  assumes load: "loadConversationMessages env conv (Some friend) u st = (Some ms, st')"
    and keys: "truthy (field friend ''dhPub'')" "truthy (field friend ''identityPub'')"
    and m: "m \<in> set ms"
  shows "field m ''id'' \<notin> tombstone_ids (ch_db st) \<and>
    (m \<in> set (stored_messages env conv (ch_db st)) \<or>
     (\<exists>rp e. replay_of env conv friend u = Some rp \<and> e \<in> set (listEventsByConv (text_of (field conv ''id'')) (ch_events st)) \<and>
        vouched (cx_local env) rp e m)) \<and>
    (distinct (map (\<lambda>x. field x ''id'') (stored_messages env conv (ch_db st))) \<longrightarrow> distinct (map (\<lambda>x. field x ''id'') ms)) \<and>
    sorted (map (\<lambda>x. number_of (field x ''ts'')) ms)"
proof -
  let ?i = "text_of (field conv ''id'')"
  obtain rp where rp: "replay_of env conv friend u = Some rp"
    using load keys by (cases "replay_of env conv friend u") (simp_all add: loadConversationMessages_def Let_def)
  obtain x st1 where run: "replay_events env rp (listEventsByConv ?i (ch_events st)) (stored_messages env conv (ch_db st))
      (st\<lparr>ch_ratchets := start_replay env rp ?i (ch_ratchets st)\<rparr>) = (x, st1)" by fastforce
  obtain all where all: "x = Some all" "ms = without_deleted (tombstone_ids (ch_db st)) (sort_key (\<lambda>m. number_of (field m ''ts'')) all)"
    using load keys rp run by (auto simp: loadConversationMessages_def Let_def)
  have adds: "\<exists>new. all = stored_messages env conv (ch_db st) @ new \<and>
      (\<forall>m \<in> set new. \<exists>e \<in> set (listEventsByConv ?i (ch_events st)). vouched (cx_local env) rp e m)"
    "distinct (map (\<lambda>x. field x ''id'') (stored_messages env conv (ch_db st))) \<longrightarrow> distinct (map (\<lambda>x. field x ''id'') all)"
    using replay_adds run all(1) by blast+
  have "m \<in> set all" "field m ''id'' \<notin> tombstone_ids (ch_db st)" using m all(2) by (auto simp: without_deleted_def)
  moreover have "distinct (map (\<lambda>x. field x ''id'') ms)" if "distinct (map (\<lambda>x. field x ''id'') all)"
  proof -
    have "distinct all" "inj_on (\<lambda>x. field x ''id'') (set all)" using that by (simp_all add: distinct_map)
    then show ?thesis unfolding all(2) without_deleted_def by (auto simp: distinct_map intro: inj_on_subset)
  qed
  moreover have "sorted (map (\<lambda>x. number_of (field x ''ts'')) ms)"
    unfolding all(2) without_deleted_def by (rule sorted_filter) simp
  ultimately show ?thesis using adds rp by auto
qed

subsection \<open>What is deleted, and what is cleared\<close>

lemma put_tombstones:
  "\<forall>r \<in> set rows. ts_type r = ''message'' \<Longrightarrow>
   {i. \<exists>t \<in> set t0. ts_id t = i \<and> ts_type t = ''message''} \<union> ts_id ` set rows \<subseteq>
   {i. \<exists>t \<in> set (fold (tbl_put ts_id) rows t0). ts_id t = i \<and> ts_type t = ''message''}"
proof (induction rows arbitrary: t0)
  case (Cons r rows)
  have "{i. \<exists>t \<in> set t0. ts_id t = i \<and> ts_type t = ''message''} \<union> {ts_id r} \<subseteq>
      {i. \<exists>t \<in> set (tbl_put ts_id r t0). ts_id t = i \<and> ts_type t = ''message''}"
    using Cons.prems by (induction t0) auto
  moreover have "{i. \<exists>t \<in> set (tbl_put ts_id r t0). ts_id t = i \<and> ts_type t = ''message''} \<union> ts_id ` set rows \<subseteq>
      {i. \<exists>t \<in> set (fold (tbl_put ts_id) rows (tbl_put ts_id r t0)). ts_id t = i \<and> ts_type t = ''message''}"
    by (rule Cons.IH) (use Cons.prems in simp)
  ultimately show ?case by auto
qed auto

lemma deleted_are_tombstones:
  assumes "deleteMessagesById env noise ids db = Inr db'" "ids \<noteq> []" "i \<in> set ids"
  shows "JStr i \<in> tombstone_ids db'"
proof -
  let ?rows = "map (\<lambda>i. \<lparr>ts_id = i, ts_type = ''message'', ts_deletedAt = ve_now env\<rparr>) (rev (remdups (rev ids)))"
  obtain db2 where db': "db' = db2\<lparr>vd_tombstones := fold (tbl_put ts_id) ?rows (vd_tombstones db2)\<rparr>"
    using assms(1,2) by (auto simp: deleteMessagesById_def with_key_def Let_def split: sum.splits)
  have i: "i \<in> ts_id ` set ?rows" using assms(3) by (auto simp: image_image)
  have "\<forall>r \<in> set ?rows. ts_type r = ''message''" by auto
  from put_tombstones [OF this, of "vd_tombstones db2"] i
  obtain t where "t \<in> set (fold (tbl_put ts_id) ?rows (vd_tombstones db2))" "ts_id t = i" "ts_type t = ''message''" by blast
  then show ?thesis unfolding tombstone_ids_def db' by (force simp del: fold_map)
qed

lemma no_deleted_loaded:
  assumes "loadConversationMessages env conv friend u st = (Some ms, st')" "m \<in> set ms"
  shows "field m ''id'' \<notin> tombstone_ids (ch_db st)"
  using assms by (auto simp: loadConversationMessages_def Let_def without_deleted_def split: if_splits option.splits prod.splits)

text \<open>
  C22. Deleted messages stay gone: whatever rows come back and whatever the log of events holds of them, no later load
  of any conversation, with any partner, shows a message that was deleted, as long as no tombstone is taken away.
\<close>

theorem deleted_messages_stay_gone:
  assumes "deleteMessagesById env' noise ids db = Inr db'" "ids \<noteq> []" "tombstone_ids db' \<subseteq> tombstone_ids (ch_db st)"
    and "loadConversationMessages env conv friend u st = (Some ms, st')" "m \<in> set ms"
  shows "field m ''id'' \<notin> JStr ` set ids"
proof
  assume "field m ''id'' \<in> JStr ` set ids"
  then obtain i where "i \<in> set ids" "field m ''id'' = JStr i" by blast
  then show False using no_deleted_loaded [OF assms(4,5)] deleted_are_tombstones [OF assms(1,2)] assms(3) by (metis subsetD)
qed

text \<open>What the events give depends on the ratchets only.\<close>

lemma body_result: "fst (handleBody env conv u body s ts i st) = fst (handleBody env conv u body s ts i st')"
  by (simp add: handleBody_def Let_def)

lemma body_ratchets: "ch_ratchets (snd (handleBody env conv u body s ts i st)) = ch_ratchets st"
  by (simp add: handleBody_def Let_def split: option.split)

definition ids_of :: "json list \<Rightarrow> json set" where
  "ids_of ms = (\<lambda>m. field m ''id'') ` set ms"

lemma ids_of_push [simp]: "ids_of (pushMessageIfNew m ms) = insert (field m ''id'') (ids_of ms)"
  by (auto simp: ids_of_def pushMessageIfNew_def)

lemma event_result:
  assumes "ch_ratchets st = ch_ratchets st'"
  shows "fst (replay_event env rp e ms st) = fst (replay_event env rp e ms st') \<and>
    ch_ratchets (snd (replay_event env rp e ms st)) = ch_ratchets (snd (replay_event env rp e ms st'))"
proof -
  have b: "fst (handleBody env conv u body s ts i (st\<lparr>ch_ratchets := rs\<rparr>)) = fst (handleBody env conv u body s ts i (st'\<lparr>ch_ratchets := rs\<rparr>))"
    "ch_ratchets (snd (handleBody env conv u body s ts i (x\<lparr>ch_ratchets := rs\<rparr>))) = rs" for conv u body s ts i rs and x :: chat_state
    using body_result by (auto simp: body_ratchets)
  show ?thesis using b assms
    by (simp add: replay_event_def Let_def split_beta split: option.split reopened.split)
qed

lemma events_result:
  "ch_ratchets st = ch_ratchets st' \<Longrightarrow> fst (replay_events env rp es ms st) = fst (replay_events env rp es ms st')"
proof (induction es arbitrary: ms st st')
  case (Cons e es)
  obtain r s1 where a: "replay_event env rp e ms st = (r, s1)" by fastforce
  obtain s2 where b: "replay_event env rp e ms st' = (r, s2)" "ch_ratchets s1 = ch_ratchets s2"
    using event_result [OF Cons.prems, of env rp e ms] a by (cases "replay_event env rp e ms st'") auto
  show ?case using a b Cons.IH [OF b(2)] by (auto split: option.split)
qed simp

lemma event_ids:
  "replay_event env rp e ms st = (Some ms1, st1) \<Longrightarrow>
   \<exists>ms2. replay_event env rp e ms0 st = (Some ms2, st1) \<and> ids_of ms1 \<union> ids_of ms0 = ids_of ms2 \<union> ids_of ms"
  by (auto simp: replay_event_def Let_def split: option.splits prod.splits reopened.splits)

lemma events_ids:
  "fst (replay_events env rp es ms st) = Some ms1 \<Longrightarrow>
   \<exists>ms2. fst (replay_events env rp es ms0 st) = Some ms2 \<and> ids_of ms1 \<union> ids_of ms0 = ids_of ms2 \<union> ids_of ms"
proof (induction es arbitrary: ms ms0 st)
  case (Cons e es)
  obtain a st1 where a: "replay_event env rp e ms st = (Some a, st1)" "fst (replay_events env rp es a st1) = Some ms1"
    using Cons.prems by (auto split: prod.splits option.splits)
  obtain b where b: "replay_event env rp e ms0 st = (Some b, st1)" "ids_of a \<union> ids_of ms0 = ids_of b \<union> ids_of ms"
    using event_ids [OF a(1)] by blast
  obtain ms2 where c: "fst (replay_events env rp es b st1) = Some ms2" "ids_of ms1 \<union> ids_of b = ids_of ms2 \<union> ids_of a"
    using Cons.IH [OF a(2)] by blast
  have "ids_of a \<subseteq> ids_of ms1" "ids_of b \<subseteq> ids_of ms2"
    using replay_adds a(2) c(1) by (metis (no_types, lifting) Un_upper1 ids_of_def image_Un prod.collapse set_append)+
  then have "ids_of ms1 \<union> ids_of ms0 = ids_of ms2 \<union> ids_of ms" using b(2) c(2) by blast
  then show ?case using b(1) c(1) by auto
qed (auto simp: ids_of_def)

lemma ids_without: "ids_of (without_deleted gone (sort_key f ms)) = ids_of ms - gone"
  by (auto simp: ids_of_def without_deleted_def)

lemma clear_rows_keeps: "vd_key (clear_rows env vk cs db) = vd_key db \<and> vd_messages (clear_rows env vk cs db) = vd_messages db \<and>
    vd_tombstones (clear_rows env vk cs db) = vd_tombstones db"
  by (induction cs arbitrary: db) auto

lemma fold_put_keys: "key ` set (fold (tbl_put key) rows t) \<subseteq> key ` set t \<union> key ` set rows"
proof (induction rows arbitrary: t)
  case (Cons r rows)
  have "key ` set (tbl_put key r t) \<subseteq> insert (key r) (key ` set t)" using set_tbl_put [of key r t] by auto
  then show ?case using Cons.IH [of "tbl_put key r t"] by (simp del: fold_map) blast
qed simp

lemma cleared:
  assumes "clearChatHistory env noise db = Inr db'"
  shows "vd_messages db' = [] \<and> vd_tombstones db' = vd_tombstones db \<and> vd_key db' = vd_key db \<and> vd_key db' \<noteq> None"
proof -
  obtain vk convs where k: "vd_key db = Some vk" "listConversations env db = Inr convs"
    using assms by (auto simp: clearChatHistory_def with_key_def requireVaultKey_def split: option.splits sum.splits)
  let ?db1 = "clear_rows env vk convs db"
  note keep = clear_rows_keeps [of env vk convs db]
  obtain db2 where two: "secureEraseMessages env (vd_messages ?db1) ?db1 = Inr db2"
    and three: "secureEraseMediaChunks env noise (filter (\<lambda>r. md_ownerType r = ''message'') (vd_media db2)) db2 = Inr db'"
    using assms k by (auto simp: clearChatHistory_def with_key_def requireVaultKey_def Let_def split: sum.splits)
  have ids: "mr_id ` set (fold (tbl_put mr_id) (map (wiped_message env vk) rs) rs) \<subseteq> mr_id ` set rs" for rs
    using fold_put_keys [of mr_id "map (wiped_message env vk) rs" rs]
    by (auto simp: image_image wiped_message_def sealed_message_def simp del: fold_map)
  have "tbl_bulk_delete mr_id (map mr_id rs) (fold (tbl_put mr_id) (map (wiped_message env vk) rs) rs) = []" for rs
    using ids [of rs] by (fastforce simp: tbl_bulk_delete_def filter_empty_conv simp del: fold_map)
  then have db2: "vd_messages db2 = [] \<and> vd_tombstones db2 = vd_tombstones db \<and> vd_key db2 = Some vk"
    using two keep k(1) by (auto simp: secureEraseMessages_def with_key_def requireVaultKey_def simp del: fold_map split: if_splits)
  then show ?thesis using three k(1)
    by (auto simp: secureEraseMediaChunks_def with_key_def requireVaultKey_def split: if_splits)
qed

text \<open>
  Clearing the history does not clear it: the rows of the messages are erased, but neither are the events
  of the log nor are tombstones left, so that the next load opens the events again and shows all of
  them; only rows without an event are gone.
\<close>

theorem cleared_history_comes_back:
  assumes load: "loadConversationMessages env conv (Some friend) u st = (Some ms, st1)"
    and keys: "truthy (field friend ''dhPub'')" "truthy (field friend ''identityPub'')"
    and clear: "clearChatHistory (cx_vault env) noise (ch_db st) = Inr db'"
  shows "\<exists>ms' st2. loadConversationMessages env conv (Some friend) u (st\<lparr>ch_db := db'\<rparr>) = (Some ms', st2) \<and>
    (\<forall>m \<in> set ms. field m ''id'' \<in> ids_of ms' \<or> field m ''id'' \<in> ids_of (stored_messages env conv (ch_db st)))"
proof -
  let ?i = "text_of (field conv ''id'')" and ?gone = "tombstone_ids (ch_db st)" and ?stored = "stored_messages env conv (ch_db st)"
  obtain rp where rp: "replay_of env conv friend u = Some rp"
    using load keys by (cases "replay_of env conv friend u") (simp_all add: loadConversationMessages_def Let_def)
  let ?es = "listEventsByConv ?i (ch_events st)" and ?st = "st\<lparr>ch_ratchets := start_replay env rp ?i (ch_ratchets st)\<rparr>"
  obtain x s1 where run: "replay_events env rp ?es ?stored ?st = (x, s1)" by fastforce
  obtain all where all: "x = Some all" "ms = without_deleted ?gone (sort_key (\<lambda>m. number_of (field m ''ts'')) all)"
    using load keys rp run by (auto simp: loadConversationMessages_def Let_def)
  have c: "tombstone_ids db' = ?gone" "stored_messages env conv db' = []"
    using cleared [OF clear] by (auto simp: tombstone_ids_def stored_messages_def listMessagesByConv_def with_key_def requireVaultKey_def
      rows_of_conv_def split: option.splits)
  have "fst (replay_events env rp ?es ?stored ?st) = Some all" using run all(1) by simp
  from events_ids [OF this, of "[]"] obtain again where again: "fst (replay_events env rp ?es [] ?st) = Some again"
    "ids_of all \<union> ids_of [] = ids_of again \<union> ids_of ?stored" by blast
  have same: "ch_ratchets ?st = ch_ratchets (st\<lparr>ch_db := db', ch_ratchets := start_replay env rp ?i (ch_ratchets st)\<rparr>)" by simp
  obtain s2 where s2: "replay_events env rp ?es [] (st\<lparr>ch_db := db', ch_ratchets := start_replay env rp ?i (ch_ratchets st)\<rparr>) = (Some again, s2)"
    using events_result [OF same, of env rp ?es "[]"] again(1)
    by (cases "replay_events env rp ?es [] (st\<lparr>ch_db := db', ch_ratchets := start_replay env rp ?i (ch_ratchets st)\<rparr>)") simp
  let ?ms' = "without_deleted ?gone (sort_key (\<lambda>m. number_of (field m ''ts'')) again)"
  have "\<exists>st2. loadConversationMessages env conv (Some friend) u (st\<lparr>ch_db := db'\<rparr>) = (Some ?ms', st2)"
    using keys rp c s2 by (simp add: loadConversationMessages_def Let_def)
  moreover have "ids_of ms \<subseteq> ids_of ?ms' \<union> ids_of ?stored"
    using again(2) unfolding all(2) ids_without by (auto simp: ids_of_def)
  then have "\<forall>m \<in> set ms. field m ''id'' \<in> ids_of ?ms' \<or> field m ''id'' \<in> ids_of ?stored"
    by (auto simp: ids_of_def)
  ultimately show ?thesis by blast
qed

text \<open>A contact whose key cannot be decoded ends every load of its conversation with an exception.\<close>

lemma bad_key_throws:
  assumes "truthy (field friend ''dhPub'')" "truthy (field friend ''identityPub'')"
    and "Option.bind (str_of (field friend ''dhPub'')) decodeBase64Url = None \<or>
      Option.bind (str_of (field friend ''identityPub'')) decodeBase64Url = None"
  shows "loadConversationMessages env conv (Some friend) u st = (None, st)"
proof -
  have "replay_of env conv friend u = None" using assms(3) by (auto simp: replay_of_def Let_def split: option.splits)
  then show ?thesis using assms(1,2) by (simp add: loadConversationMessages_def Let_def)
qed

subsection \<open>Concrete inputs\<close>

text \<open>A conversation with one event, a message of the partner, whose envelope is the text \<open>e\<close>.\<close>

definition chat_body :: json where
  "chat_body = JObj [(''type'', JStr ''msg''), (''text'', JStr ''hi'')]"

definition chat_envelope :: json where
  "chat_envelope = JObj [(''header'', JObj [(''eventId'', JStr ''m''), (''ts'', JNum ''5'')]), (''nonce'', JStr []),
     (''ciphertext'', JStr []), (''sig'', JStr [])]"

definition chat_platform :: platform where
  "chat_platform = open_platform\<lparr>pf_from_base64 := (\<lambda>_. Some []), pf_verify := (\<lambda>s m k. Some (k = [7])),
     pf_aead_decrypt := (\<lambda>c a n k. Some []), pf_text_decode := (\<lambda>_. ''b''),
     pf_json_parse := (\<lambda>s. if s = ''e'' then Some chat_envelope else if s = ''b'' then Some chat_body else None)\<rparr>"

definition chat_env :: chat_env where
  "chat_env = \<lparr>cx_local = (Sync_Engine.demo_env [])\<lparr>le_platform := chat_platform\<rparr>, cx_vault = plain_env\<rparr>"

definition chat_conv :: json where "chat_conv = JObj [(''id'', JStr ''c'')]"

definition chat_friend :: json where
  "chat_friend = JObj [(''id'', JStr ''f''), (''dhPub'', JStr (encodeBase64Url [3])), (''identityPub'', JStr (encodeBase64Url [7]))]"

definition chat_start :: chat_state where
  "chat_start = \<lparr>ch_db = fresh_db\<lparr>vd_key := Some [1]\<rparr>, ch_events = [\<lparr>se_eventId = ''m'', se_convId = JStr ''c'', se_authorDeviceId = JStr ''d'',
     se_lamport = JNum ''1'', se_ts = JNum ''5'', se_envelopeJson = ''e'', se_prevHash = JUndef, se_eventHash = ''h'', se_conflict = False\<rparr>],
     ch_ratchets = empty_ratchets, ch_receipts = []\<rparr>"

definition chat_shown :: json where
  "chat_shown = shown_message chat_conv chat_body (JStr ''f'') (JNum ''5'') (JStr ''m'')"

lemma chat_loaded_from:
  assumes "stored_messages chat_env chat_conv db = []"
  shows "\<exists>st'. loadConversationMessages chat_env chat_conv (Some chat_friend) (JStr ''u'') (chat_start\<lparr>ch_db := db\<rparr>) =
    (Some (without_deleted (tombstone_ids db) [chat_shown]), st')"
proof -
  have ne: "encodeBase64Url [3] \<noteq> []" "encodeBase64Url [7] \<noteq> []" using encode_nonempty by simp_all
  obtain k where k: "\<And>a b c d. deriveConversationKey chat_platform a b c d = Some (k a b c d)"
  proof (rule that)
    fix a b c d show "deriveConversationKey chat_platform a b c d = Some (the (deriveConversationKey chat_platform a b c d))"
      by (simp add: deriveConversationKey_def chat_platform_def open_platform_def)
  qed
  obtain rp where rp: "replay_of chat_env chat_conv chat_friend (JStr ''u'') = Some rp" "rp_conv rp = chat_conv" "rp_friendId rp = JStr ''f''"
    "rp_myKey rp = [5]" "rp_theirKey rp = [7]"
    using k by (auto simp: replay_of_def Let_def chat_env_def chat_friend_def Sync_Engine.demo_env_def decode_encode)
  have es: "listEventsByConv ''c'' (ch_events chat_start) = ch_events chat_start"
    by (simp add: listEventsByConv_def chat_start_def)
  have pf: "le_platform (cx_local chat_env) = chat_platform" by (simp add: chat_env_def)
  have sender: "determineSenderAndKey chat_platform chat_envelope (rp_user rp) (JStr ''f'') [5] [7] = Some (Some (JStr ''f'', [7]))"
    by (simp add: determineSenderAndKey_def verifyEnvelopeSignature_def fromB64_def chat_envelope_def chat_platform_def)
  have dec: "decryptEnvelope chat_platform k chat_envelope [7] = Inr chat_body" for k
    by (simp add: decryptEnvelope_def fromB64_def chat_envelope_def chat_platform_def)
  have re: "reopen (cx_local chat_env) rp chat_envelope [7] rs = (Opened chat_body, rs)" for rs
    by (simp add: reopen_def rk_is_def chat_envelope_def of_decrypted_def pf dec [unfolded chat_envelope_def])
  have hd': "field chat_envelope ''header'' = JObj [(''eventId'', JStr ''m''), (''ts'', JNum ''5'')]" "pf_json_parse chat_platform ''e'' = Some chat_envelope"
    by (simp_all add: chat_envelope_def chat_platform_def)
  have body: "handleBody chat_env chat_conv u chat_body (JStr ''f'') (JNum ''5'') (JStr ''m'') st = (Some chat_shown, st)" for u st
    by (simp add: handleBody_def isGroupEventPayload_def chat_shown_def chat_body_def)
  have one: "replay_events chat_env rp (ch_events chat_start) [] st = (Some [chat_shown], st)" for st
    using rp(2-5) sender re hd' body by (simp add: chat_start_def replay_event_def pf pushMessageIfNew_def)
  show ?thesis
    using rp(1) ne es assms one by (simp add: loadConversationMessages_def Let_def chat_friend_def chat_conv_def without_deleted_def)
qed

lemma chat_start_db: "stored_messages chat_env chat_conv (ch_db chat_start) = []" "tombstone_ids (ch_db chat_start) = {}"
  by (simp_all add: stored_messages_def listMessagesByConv_def with_key_def requireVaultKey_def rows_of_conv_def chat_start_def
    fresh_db_def tombstone_ids_def)

lemma chat_loaded: "\<exists>st'. loadConversationMessages chat_env chat_conv (Some chat_friend) (JStr ''u'') chat_start = (Some [chat_shown], st')"
  using chat_loaded_from [OF chat_start_db(1)] by (simp add: chat_start_db without_deleted_def)

theorem loading_keeps_ratchets_witness:
  "\<exists>r st'. loadConversationMessages chat_env chat_conv (Some chat_friend) (JStr ''u'') chat_start = (r, st') \<and>
    getDhRatchetState (ch_ratchets st') ''c'' = getDhRatchetState (ch_ratchets chat_start) ''c'' \<and> ch_events st' = ch_events chat_start"
proof -
  obtain r st' where l: "loadConversationMessages chat_env chat_conv (Some chat_friend) (JStr ''u'') chat_start = (r, st')" by fastforce
  from loading_keeps_ratchets [OF l, of "''c''"] l show ?thesis by (simp add: chat_conv_def)
qed

theorem loaded_messages_are_genuine_witness:
  "\<exists>rp e. replay_of chat_env chat_conv chat_friend (JStr ''u'') = Some rp \<and> e \<in> set (ch_events chat_start) \<and> vouched (cx_local chat_env) rp e chat_shown"
proof -
  obtain st' where l: "loadConversationMessages chat_env chat_conv (Some chat_friend) (JStr ''u'') chat_start = (Some [chat_shown], st')"
    using chat_loaded by blast
  have "encodeBase64Url [3] \<noteq> []" "encodeBase64Url [7] \<noteq> []" using encode_nonempty by simp_all
  moreover have "stored_messages chat_env chat_conv (ch_db chat_start) = []"
    by (simp add: stored_messages_def listMessagesByConv_def with_key_def requireVaultKey_def rows_of_conv_def chat_start_def fresh_db_def)
  ultimately show ?thesis
    using loaded_messages_are_genuine [OF l, of chat_shown] by (auto simp: chat_friend_def listEventsByConv_def)
qed

theorem deleted_messages_stay_gone_witness:
  "\<exists>db' ms st'. deleteMessagesById plain_env [0] [''m''] (ch_db chat_start) = Inr db' \<and>
    loadConversationMessages chat_env chat_conv (Some chat_friend) (JStr ''u'') (chat_start\<lparr>ch_db := db'\<rparr>) = (Some ms, st') \<and>
    chat_shown \<notin> set ms"
proof -
  have "\<exists>db'. deleteMessagesById plain_env [0] [''m''] (ch_db chat_start) = Inr db' \<and> vd_messages db' = []"
    by (simp add: deleteMessagesById_def with_key_def requireVaultKey_def chat_start_def fresh_db_def secureEraseMessages_def
      secureEraseMediaChunks_def List.map_filter_def)
  then obtain db' where d: "deleteMessagesById plain_env [0] [''m''] (ch_db chat_start) = Inr db'" "vd_messages db' = []" by blast
  have "stored_messages chat_env chat_conv db' = []"
    using d(2) by (simp add: stored_messages_def listMessagesByConv_def with_key_def rows_of_conv_def split: sum.split)
  from chat_loaded_from [OF this] obtain ms st' where
    l: "loadConversationMessages chat_env chat_conv (Some chat_friend) (JStr ''u'') (chat_start\<lparr>ch_db := db'\<rparr>) = (Some ms, st')" by blast
  have "chat_shown \<notin> set ms"
  proof
    assume "chat_shown \<in> set ms"
    from deleted_messages_stay_gone [OF d(1) _ _ l this] show False by (simp add: chat_shown_def shown_message_def)
  qed
  with d(1) l show ?thesis by blast
qed

theorem cleared_history_comes_back_witness:
  "\<exists>db' ms' st2. clearChatHistory plain_env [0] (ch_db chat_start) = Inr db' \<and>
    loadConversationMessages chat_env chat_conv (Some chat_friend) (JStr ''u'') (chat_start\<lparr>ch_db := db'\<rparr>) = (Some ms', st2) \<and>
    JStr ''m'' \<in> ids_of ms'"
proof -
  obtain st' where l: "loadConversationMessages chat_env chat_conv (Some chat_friend) (JStr ''u'') chat_start = (Some [chat_shown], st')"
    using chat_loaded by blast
  have "encodeBase64Url [3] \<noteq> []" "encodeBase64Url [7] \<noteq> []" using encode_nonempty by simp_all
  moreover have "\<exists>db'. clearChatHistory plain_env [0] (ch_db chat_start) = Inr db'"
    by (simp add: clearChatHistory_def with_key_def requireVaultKey_def chat_start_def fresh_db_def listConversations_def
      secureEraseMessages_def secureEraseMediaChunks_def)
  then obtain db' where c: "clearChatHistory plain_env [0] (ch_db chat_start) = Inr db'" by blast
  moreover have "cx_vault chat_env = plain_env" "stored_messages chat_env chat_conv (ch_db chat_start) = []"
    by (simp_all add: chat_env_def stored_messages_def listMessagesByConv_def with_key_def requireVaultKey_def rows_of_conv_def chat_start_def fresh_db_def)
  ultimately show ?thesis
    using cleared_history_comes_back [OF l, of "[0]" db'] by (auto simp: chat_friend_def ids_of_def chat_shown_def shown_message_def)
qed

end
