(* ===== verification/App_Load.thy ===== *)
theory App_Load
  imports App_Start Message_Store
begin

text \<open>
  The start of the application with the messages of its conversations: App_Start over the operation of
  Message_Store. What a load writes into conversations, messages and media is there for the next one and afterwards; each
  conversation is loaded with the events and the ratchets as they are at the start, which the loads leave alone, and the
  receipts the loads write, which no load reads, are not kept.
\<close>

definition load_in :: "chat_env \<Rightarrow> chat_state \<Rightarrow> json \<Rightarrow> json option \<Rightarrow> json \<Rightarrow> vault_db \<Rightarrow> (shell_error + json list) \<times> vault_db" where
  "load_in env st conv partner userId db = (case loadConversationMessages env conv partner userId (st\<lparr>ch_db := db\<rparr>) of
     (None, st') \<Rightarrow> (Inl OtherThrew, ch_db st') | (Some ms, st') \<Rightarrow> (Inr ms, ch_db st'))"

lemma load_in_db: "same_but_replayed db (snd (load_in env st conv partner userId db))"
proof -
  obtain r st' where l: "loadConversationMessages env conv partner userId (st\<lparr>ch_db := db\<rparr>) = (r, st')" by fastforce
  from load_only_replayed [OF l] l show ?thesis by (auto simp: only_replayed_def load_in_def split: option.split)
qed

text \<open>What App_Start asks of the load holds of this one.\<close>

lemma load_in_works:
  assumes "pe_writes (sx_pin env)" "sx_load env = load_in cenv st"
  shows "shell_works env"
proof -
  have "vd_key (snd (load_in cenv st c p u db)) = vd_key db" for c p u db
    using same_but_replayed_keeps [OF load_in_db] by blast
  then show ?thesis using assms by (simp add: shell_works_def)
qed

lemma load_messages_db:
  assumes "sx_load env = load_in cenv st"
  shows "same_but_replayed db (snd (load_messages env user friends convs db))"
proof (induction convs arbitrary: db)
  case (Cons c cs)
  have one: "same_but_replayed d d'" if "sx_load env c p u d = (r, d')" for p u d r d'
    using load_in_db [of d cenv st c p u] that assms by simp
  have rest: "same_but_replayed d d'" if "load_messages env user friends cs d = (r, d')" for d r d'
    using Cons.IH [of d] that by simp
  show ?case by (auto split: sum.split prod.split dest: one rest intro: same_but_replayed_trans)
qed simp

text \<open>
  C19. Locking forgets and the PIN restores: an open application that is locked holds neither the key nor the data.
  Where the application, still open, could be filled again at the time the PIN is entered, the PIN does exactly that: it
  opens the same vault under the same key, with the same profiles and tombstones, shows the same user and the
  same friends, and of conversations and messages what filling it again without the lock would show and store; so the lock
  itself loses nothing.
\<close>

theorem pin_restores_what_lock_closed:
  assumes env: "pe_writes (sx_pin env)" "sx_load env = load_in cenv st"
    and filled: "hydrateVault env sh0 = (True, sh)" "sh_mode sh = InApp" "vd_key (sh_db sh) = Some vk"
    and pin: "sh_pinEnabled sh" "\<not> sh_pinNeedsReset sh" "vault_codec (pe_pf (sx_pin env))"
      "pin_lib_ok (pe_pf (sx_pin env)) (pe_lib (sx_pin env))" "sealed_under_pin (sx_pin env) pin vk (secrets_of sh)"
    and later: "pe_pf (sx_pin env') = pe_pf (sx_pin env)" "pe_lib (sx_pin env') = pe_lib (sx_pin env)" "pe_available (sx_pin env')"
      "pe_writes (sx_pin env')" "trim pin' = trim pin" "ve_pf (sx_vault env') = ve_pf (sx_vault env)" "sx_load env' = load_in cenv' st'"
    and again: "hydrateVault env' sh = (True, sh2)" "sh_mode sh2 = InApp"
  shows "\<exists>after d d'. sh_mode (handleLock env sh) = Locked \<and> closed_shell (handleLock env sh) \<and>
    handlePinUnlock env' pin' (handleLock env sh) = (UnlockOk, after) \<and>
    sh_mode after = InApp \<and> sh_db after = sh_db sh2 \<and> sh_data after = sh_data sh2 \<and>
    vd_key (sh_db after) = Some vk \<and> vd_profiles (sh_db after) = vd_profiles (sh_db sh) \<and>
    vd_tombstones (sh_db after) = vd_tombstones (sh_db sh) \<and>
    sh_data sh = Some d \<and> sh_data after = Some d' \<and> ad_user d' = ad_user d \<and> ad_friends d' = ad_friends d"
proof -
  let ?l = "(sign_out env sh)\<lparr>sh_mode := Locked\<rparr>"
  have works: "shell_works env" "shell_works env'"
    by (rule load_in_works [OF env], rule load_in_works [OF later(4,7)])
  have l: "handleLock env sh = ?l" using pin(1,2) by (simp add: handleLock_def resynced_pin_def)
  obtain after where after: "handlePinUnlock env' pin' ?l = (UnlockOk, after)" "sh_mode after = InApp"
    "sh_db after = sh_db sh2" "sh_data after = sh_data sh2"
    using pin_fills_again [OF filled(2,3) pin later(1-3) works(2) later(5) again] by blast
  obtain db profiles user convs ms where one: "map_of (vd_meta db) TEXT_ENCODING_FIX_KEY = Some ''1''"
    "listProfiles (sx_vault env) db = Inr profiles" "user_profile profiles = Some user"
    "load_messages env user (friend_profiles profiles) convs db = (Inr ms, sh_db sh)"
    "sh = sh0\<lparr>sh_db := sh_db sh, sh_unlocked := True, sh_mode := InApp,
       sh_data := Some \<lparr>ad_user = user, ad_friends = friend_profiles profiles, ad_convs = convs, ad_messages = ms\<rparr>\<rparr>"
    by (rule filled_by [OF works(1) filled(1,2)])
  have same: "same_but_replayed db (sh_db sh)"
    using load_messages_db [OF env(2), of db user "friend_profiles profiles" convs] one(4) by simp
  obtain db' profiles' user' convs' ms' where two:
    "repairVaultTextEncoding (sx_vault env') (sx_fix env') (sh_db sh) = (None, db')"
    "listProfiles (sx_vault env') db' = Inr profiles'" "user_profile profiles' = Some user'"
    "load_messages env' user' (friend_profiles profiles') convs' db' = (Inr ms', sh_db sh2)"
    "sh2 = sh\<lparr>sh_db := sh_db sh2, sh_unlocked := True, sh_mode := InApp,
       sh_data := Some \<lparr>ad_user = user', ad_friends = friend_profiles profiles', ad_convs = convs', ad_messages = ms'\<rparr>\<rparr>"
    by (rule filled_by [OF works(2) again])
  have db': "db' = sh_db sh" using two(1) one(1) same_but_replayed_keeps [OF same] by (simp add: repairVaultTextEncoding_def)
  have same2: "same_but_replayed (sh_db sh) (sh_db sh2)"
    using load_messages_db [OF later(7), of "sh_db sh" user' "friend_profiles profiles'" convs'] two(4) db' by simp
  have "profiles' = profiles"
    using one(2) two(2) db' later(6) same_but_replayed_keeps [OF same] by (simp add: listProfiles_def with_key_def requireVaultKey_def)
  moreover from this have "user' = user" using one(3) two(3) by simp
  moreover have "sh_data sh = Some \<lparr>ad_user = user, ad_friends = friend_profiles profiles, ad_convs = convs, ad_messages = ms\<rparr>"
    by (subst one(5)) simp
  moreover have "sh_data sh2 = Some \<lparr>ad_user = user', ad_friends = friend_profiles profiles', ad_convs = convs', ad_messages = ms'\<rparr>"
    by (subst two(5)) simp
  ultimately show ?thesis using l after same_but_replayed_keeps [OF same2] filled(3) by (simp add: shell_simps)
qed

lemma load_fails:
  assumes "c \<in> set convs" "partner_of user friends c = Inr p" "\<And>db. \<exists>e. fst (sx_load env c p (field user ''id'') db) = Inl e"
  shows "\<exists>e. fst (load_messages env user friends convs db) = Inl e"
  using assms(1)
proof (induction convs arbitrary: db)
  case (Cons d ds)
  show ?case
  proof (cases "d = c")
    case True
    then show ?thesis using assms(2) assms(3) [of db] by (auto split: sum.split prod.split)
  next
    case False
    then have "\<exists>e. fst (load_messages env user friends ds db) = Inl e" for db using Cons by simp
    then show ?thesis by (auto split: sum.split prod.split) (metis fst_conv sum.distinct(1))+
  qed
qed simp

text \<open>
  One contact closes the application: where a contact of a conversation of two has a key that cannot be decoded, every
  attempt to fill the application ends with the session closed, although vault, key and rows are in
  order.
\<close>

theorem undecodable_contact_key_closes_app:
  assumes env: "pe_writes (sx_pin env)" "sx_load env = load_in cenv st"
    and vault: "repairVaultTextEncoding (sx_vault env) (sx_fix env) (sh_db sh) = (None, db)"
      "listProfiles (sx_vault env) db = Inr profiles" "user_profile profiles = Some user" "listConversations (sx_vault env) db = Inr convs"
    and contact: "c \<in> set convs" "partner_of user (friend_profiles profiles) c = Inr (Some f)" "truthy (field f ''dhPub'')"
      "field f ''identityPub'' = JStr k" "k \<noteq> []" "decodeBase64Url k = None"
  shows "sh_mode (snd (hydrateVault env sh)) \<noteq> InApp \<and> closed_shell (snd (hydrateVault env sh))"
proof -
  have works: "shell_works env" by (rule load_in_works [OF env])
  have "\<exists>e. fst (sx_load env c (Some f) (field user ''id'') db') = Inl e" for db'
    using bad_key_throws [of f cenv c "field user ''id''" "st\<lparr>ch_db := db'\<rparr>"] contact(3-6) by (simp add: env(2) load_in_def)
  from load_fails [where env = env, OF contact(1,2) this] obtain e d where
    l: "load_messages env user (friend_profiles profiles) convs db = (Inl e, d)" by (metis prod.collapse)
  have "snd (hydrateVault env sh) = snd (hydrate_failed env e (sh\<lparr>sh_db := d\<rparr>)) \<or>
      snd (hydrateVault env sh) = onboard StartKeyTab (set_pin_flags False False (sign_out env (sh\<lparr>sh_db := resetVaultStorage (sh_db sh)\<rparr>)))"
    using vault l by (simp add: hydrateVault_def Let_def fill_app_def)
  then show ?thesis using hydrate_failed_closes [OF works] by (auto simp: shell_simps)
qed

subsection \<open>Concrete inputs\<close>

definition closing_friend :: json where
  "closing_friend = JObj [(''id'', JStr ''f''), (''kind'', JStr ''friend''), (''dhPub'', JStr ''AA''), (''identityPub'', JStr ''!'')]"

definition closing_conv :: json where
  "closing_conv = JObj [(''id'', JStr ''c''), (''participants'', JArr [JStr ''u'', JStr ''f''])]"

definition closing_account :: vault_db where
  "closing_account = demo_account\<lparr>vd_profiles := [sealed_row Vault_Rotation.demo_env [1] ''profile'' closing_friend ''f'',
       sealed_row Vault_Rotation.demo_env [1] ''profile'' demo_user ''u''],
     vd_conversations := [sealed_row Vault_Rotation.demo_env [1] ''conv'' closing_conv ''c'']\<rparr>"

lemma opens_as_sealed:
  assumes "parse_text (stringify v) = Some v"
  shows "open_row keyed_platform [1] type (sealed_row Vault_Rotation.demo_env [1] type v i) = Inr v"
proof -
  have "open_record keyed_platform [1] i type (seal_record keyed_platform [1] i type demo_nonce (encode_utf8 (stringify v))) = Inr (encode_utf8 (stringify v))"
    by (rule open_seal [OF keyed_platform_ok demo_nonce_length])
  then show ?thesis
    using text_codec.utf8 [OF keyed_platform_ok(1) [unfolded vault_codec_def]] assms
    by (simp add: open_row_def sealed_row_def in_vault_def decryptJsonRecord_def encryptJsonRecord_def)
      (simp add: keyed_platform_def vault_platform_def)
qed

lemma closing_rows:
  "listProfiles Vault_Rotation.demo_env closing_account = Inr [closing_friend, demo_user]"
  "listConversations Vault_Rotation.demo_env closing_account = Inr [closing_conv]"
proof -
  have p: "parse_text (stringify closing_friend) = Some closing_friend" "parse_text (stringify demo_user) = Some demo_user"
    "parse_text (stringify closing_conv) = Some closing_conv" by code_simp+
  show "listProfiles Vault_Rotation.demo_env closing_account = Inr [closing_friend, demo_user]"
    "listConversations Vault_Rotation.demo_env closing_account = Inr [closing_conv]"
    using opens_as_sealed [OF p(1)] opens_as_sealed [OF p(2)] opens_as_sealed [OF p(3)]
    by (simp_all add: listProfiles_def listConversations_def with_key_def requireVaultKey_def closing_account_def demo_account_def)
qed

theorem undecodable_contact_key_closes_app_witness:
  "closed_shell (snd (hydrateVault (demo_shell_env\<lparr>sx_load := load_in chat_env chat_start\<rparr>) ((demo_shell [])\<lparr>sh_db := closing_account\<rparr>)))"
proof -
  have none: "decodeBase64Url ''!'' = None" by code_simp
  have "repairVaultTextEncoding Vault_Rotation.demo_env f closing_account = (None, closing_account)" for f
    by (simp add: repairVaultTextEncoding_def closing_account_def demo_account_def TEXT_ENCODING_FIX_KEY_def VAULT_META_KEY_def)
  moreover have "user_profile [closing_friend, demo_user] = Some demo_user" "friend_profiles [closing_friend, demo_user] = [closing_friend]"
    by (simp_all add: user_profile_def friend_profiles_def closing_friend_def demo_user_def)
  moreover have "partner_of demo_user [closing_friend] closing_conv = Inr (Some closing_friend)"
    by (simp add: partner_of_def closing_conv_def closing_friend_def demo_user_def)
  ultimately show ?thesis
    using undecodable_contact_key_closes_app [of "demo_shell_env\<lparr>sx_load := load_in chat_env chat_start\<rparr>" chat_env chat_start
        "(demo_shell [])\<lparr>sh_db := closing_account\<rparr>" closing_account "[closing_friend, demo_user]" demo_user "[closing_conv]" closing_conv closing_friend "''!''"]
      closing_rows none by (simp add: closing_friend_def)
qed

text \<open>An account with one conversation, whose partner is no friend.\<close>

definition talking_account :: vault_db where
  "talking_account = demo_account\<lparr>vd_conversations := [sealed_row Vault_Rotation.demo_env [1] ''conv'' closing_conv ''c'']\<rparr>"

definition talking_env :: "pin_env \<Rightarrow> shell_env" where
  "talking_env p = demo_shell_env\<lparr>sx_pin := p, sx_load := load_in (chat_env\<lparr>cx_vault := Vault_Rotation.demo_env\<rparr>) chat_start\<rparr>"

lemma talking_hydrated:
  assumes "sh_db sh = talking_account"
  shows "hydrateVault (talking_env p) sh = (True, sh\<lparr>sh_unlocked := True, sh_mode := InApp,
    sh_data := Some \<lparr>ad_user = demo_user, ad_friends = [], ad_convs = [closing_conv], ad_messages = [(''c'', [])]\<rparr>\<rparr>)"
proof -
  have p: "parse_text (stringify demo_user) = Some demo_user" "parse_text (stringify closing_conv) = Some closing_conv" by code_simp+
  have rows: "listProfiles Vault_Rotation.demo_env talking_account = Inr [demo_user]"
    "listConversations Vault_Rotation.demo_env talking_account = Inr [closing_conv]"
    using opens_as_sealed [OF p(1)] opens_as_sealed [OF p(2)]
    by (simp_all add: listProfiles_def listConversations_def with_key_def requireVaultKey_def talking_account_def demo_account_def)
  have settled: "repairVaultTextEncoding Vault_Rotation.demo_env f talking_account = (None, talking_account)" for f
    by (simp add: repairVaultTextEncoding_def talking_account_def demo_account_def TEXT_ENCODING_FIX_KEY_def VAULT_META_KEY_def)
  have key: "vd_key talking_account = Some [1]" "verifyVaultKeyId Vault_Rotation.demo_env [1] talking_account"
    by (simp_all add: talking_account_def demo_account_def verifyVaultKeyId_def getVaultKeyId_def TEXT_ENCODING_FIX_KEY_def VAULT_META_KEY_def VAULT_KEY_ID_KEY_def)
  have user: "user_profile [demo_user] = Some demo_user" "friend_profiles [demo_user] = []"
    by (simp_all add: user_profile_def friend_profiles_def demo_user_def)
  have partner: "partner_of demo_user [] closing_conv = Inr None" by (simp add: partner_of_def closing_conv_def demo_user_def)
  have none: "stored_messages (chat_env\<lparr>cx_vault := Vault_Rotation.demo_env\<rparr>) closing_conv talking_account = []"
    by (simp add: stored_messages_def listMessagesByConv_def with_key_def requireVaultKey_def rows_of_conv_def talking_account_def demo_account_def fresh_db_def)
  have load: "sx_load (talking_env p) closing_conv None u talking_account = (Inr [], talking_account)" for u
    using none by (simp add: talking_env_def load_in_def loadConversationMessages_def Let_def without_deleted_def)
  have c: "text_of_str (field closing_conv ''id'') = ''c''" by (simp add: closing_conv_def text_of_str_def)
  have v: "sx_vault (talking_env p) = Vault_Rotation.demo_env" by (simp add: talking_env_def)
  have same: "sh\<lparr>sh_db := talking_account\<rparr> = sh" using assms by (cases sh) simp
  show ?thesis using rows settled key user partner load c v same
    by (simp add: hydrateVault_def Let_def fill_app_def assms)
qed

theorem pin_restores_what_lock_closed_witness:
  "\<exists>sh after. sh_mode sh = InApp \<and> vd_key (sh_db sh) = Some [1] \<and> closed_shell (handleLock (talking_env plain_pin_env) sh) \<and>
    handlePinUnlock (talking_env (plain_pin_env\<lparr>pe_now := 99\<rparr>)) ''1234'' (handleLock (talking_env plain_pin_env) sh) = (UnlockOk, after) \<and>
    sh_db after = sh_db sh \<and> sh_data after = sh_data sh"
proof -
  obtain s where s: "sealed_under_pin plain_pin_env ''1234'' [1] s" using demo_pin_store by blast
  let ?d = "\<lparr>ad_user = demo_user, ad_friends = [], ad_convs = [closing_conv], ad_messages = [(''c'', [])]\<rparr>"
  let ?sh = "((demo_shell s)\<lparr>sh_db := talking_account\<rparr>)\<lparr>sh_unlocked := True, sh_mode := InApp, sh_data := Some ?d\<rparr>"
  let ?now = "talking_env plain_pin_env" and ?later = "talking_env (plain_pin_env\<lparr>pe_now := 99\<rparr>)"
  have f: "hydrateVault ?now ((demo_shell s)\<lparr>sh_db := talking_account\<rparr>) = (True, ?sh)" by (rule talking_hydrated) simp
  have g: "hydrateVault ?later ?sh = (True, ?sh)" using talking_hydrated [of ?sh] by simp
  have k: "vd_key (sh_db ?sh) = Some [1]" by (simp add: talking_account_def demo_account_def)
  have env: "sx_load (talking_env p) = load_in (chat_env\<lparr>cx_vault := Vault_Rotation.demo_env\<rparr>) chat_start" "sx_pin (talking_env p) = p"
    "ve_pf (sx_vault (talking_env p)) = keyed_platform" for p
    by (simp_all add: talking_env_def)
  have sealed: "sealed_under_pin plain_pin_env ''1234'' [1] (secrets_of ?sh)" using s by (simp add: shell_simps)
  have flags: "sh_pinEnabled ?sh" "\<not> sh_pinNeedsReset ?sh" by (simp_all add: demo_shell_def)
  have "\<exists>after d d'. sh_mode (handleLock ?now ?sh) = Locked \<and> closed_shell (handleLock ?now ?sh) \<and>
    handlePinUnlock ?later ''1234'' (handleLock ?now ?sh) = (UnlockOk, after) \<and>
    sh_mode after = InApp \<and> sh_db after = sh_db ?sh \<and> sh_data after = sh_data ?sh \<and>
    vd_key (sh_db after) = Some [1] \<and> vd_profiles (sh_db after) = vd_profiles (sh_db ?sh) \<and>
    vd_tombstones (sh_db after) = vd_tombstones (sh_db ?sh) \<and>
    sh_data ?sh = Some d \<and> sh_data after = Some d' \<and> ad_user d' = ad_user d \<and> ad_friends d' = ad_friends d"
    by (rule pin_restores_what_lock_closed [OF _ env(1) f _ k flags _ _ _ _ _ _ _ _ _ env(1) g, where pin = "''1234''"])
      (use plain_pin_ok sealed in \<open>simp_all add: env\<close>)
  then obtain after where a: "handlePinUnlock ?later ''1234'' (handleLock ?now ?sh) = (UnlockOk, after)"
    "closed_shell (handleLock ?now ?sh)" "sh_db after = sh_db ?sh" "sh_data after = sh_data ?sh" by blast
  have m: "sh_mode ?sh = InApp" by simp
  show ?thesis by (rule exI [of _ ?sh], rule exI [of _ after]) (intro conjI m k a)
qed

end
