(* ===== verification/Spec2Isabelle.thy ===== *)
theory Spec2Isabelle
  imports Router Onion_Relay Sync_Handshake Media_Transfers Friend_Workers Media_Flow Device_Pairing App_Load
begin

text \<open>
  NKC is a messenger without a server (TypeScript, Electron): peers reach one another through Tor
  or a direct connection, every message is sealed end to end, and every device keeps its own data. This
  development models its core, the code under src/src that decides what is sent, stored and
  believed; the sources are named relative to that directory.

  The parts and how they interact. A message the user writes becomes a record of the outbox
  (Outbox_Store: storage/outboxStore.ts) and is handed to the router (Router_Core, Router:
  net/router.ts), which asks the network configuration (Net_Config: net/netConfig.ts,
  net/netConfigStore.ts) and the transport policy (Route_Controller: net/routeController.ts,
  net/transportPolicy.ts) for a transport, tries it and then what the error allows. The delivery
  worker (Delivery: delivery/deliveryScheduler.ts, policies/deliveryPolicy.ts) calls the router again for what is
  due and settles records, receipts (Receipt_Store: storage/receiptStore.ts) and media progress
  (Media_Transfers: storage/mediaTransferStore.ts) when an acknowledgement comes. The internal
  onion (Onion_Route, Onion_Relay: net/internalOnion) builds a chain of relays among friends and
  forwards packets along it. What arrives is opened and taken in by the synchronisation engine
  (sync/syncEngine.ts): the handshake and the dispatch of frames (Sync_Handshake), the event log
  with its watermarks (Sync_Engine), the flow control of long responses (Sync_Flow), the effect of
  an event on the application's data (Sync_Apply) and on groups (Group_Sync: sync/groupSync.ts), over the
  tables and peers of Sync_State. Its keys come from the ratchets (Ratchet: crypto/ratchet.ts,
  security/ratchetStore.ts), its envelopes from Envelope_Box (crypto/box.ts), the bytes that are signed from
  Canonical_Json (crypto/canonicalJson.ts), what is shown of a received file from Media_Policy
  (security/mediaPolicy.ts). Friends are made by codes (Friend_Code: security/friendCode.ts,
  inviteCode.ts, inviteUseStore.ts), with their checksum (Sha256: security/sha256.ts) and their
  text form (Base64url: security/base64url.ts), and by signed control frames whose records commit to
  one another (Friend_Protocol: friends/friendControlFrame.ts, net/friendProtocol); Friend_Frames is what
  they do to contacts (sync/syncEngine.ts), Friend_Workers the listener and the workers around them (friends/).

  What a device keeps is sealed under the key of its vault: Vault has the start keys, the derivation and the
  envelope of a row (crypto/vault.ts, crypto/sessionKeyring.ts), Vault_Db the tables of profiles,
  conversations and messages with the header and the key id (db/repo.ts), Vault_Rotation the change of
  the start key, Media_Store and Media_Flow files in chunks, photos and deletion (db/repo.ts), Json_Parser the parser of the
  texts that are stored. Pin (security/pin.ts, session.ts, secretStore.ts, rateLimit.ts) seals the vault's key under a PIN and
  keeps the session; App_Start (app/App.tsx, components/Unlock.tsx) is what opens, fills and closes the application over
  them, Message_Store (security/messageStore.ts) what it shows of a conversation, from the rows and from the events of the
  log, and App_Load the two together. Identity_Keys (security/identityKeys.ts, pskStore.ts, publicStore.ts, deviceRole.ts) keeps the keys of the device,
  Devices (devices/deviceRegistry.ts, deviceApprovals.ts) what it believes of the user's other devices, and
  Device_Pairing (devices/devicePairing.ts) makes two devices known to one another by a code.

  How state and operations correspond. A module's variables are a record, an operation is a
  function that returns the new state, one definition for one function of the source, named as it is there;
  a part of a long function that has a name of its own here is mapped to its lines. A Dexie table is a
  list ordered by its primary key (Keyed_Table: the locale keyed_table, interpreted for every table), a
  JavaScript Map an association list in the order of insertion, a JSON value the datatype of
  Canonical_Json, read with the operations of Json_Value, which are those of the language. What throws
  is an option or a sum, at the width the code has it; a number that wraps is a word. Code of
  libraries and of the platform (libsodium, the text decoder, the JSON parser, the transports, the secret store)
  is an argument, and what is assumed of it is a hypothesis of the theorem that needs it, each
  with a witness on a concrete instance. Asynchronous operations run to their end one after
  another, except where a theorem is about what happens in between: the delivery worker and an
  acknowledgement, the builds of the onion route, two greetings at once, the timers of the flow control.

  What the groups of lemmas show.
  \<^item> Transport: onion mode is left only when the route or the proxy is missing; a message that was
    accepted is delivered or in the outbox; a record whose acknowledgement comes while it is being sent stays acknowledged; the
    worker sends what is due only;
    the configuration's rules always hold.
  \<^item> Internal onion: the manager's state is consistent under every interleaving of builds, timers and
    frames; ready means that every hop answered; data reaches its target through the relays of the
    route, one after the other, and relays only send onward; control messages need the friend's signature.
  \<^item> Keys and bytes: both ratchets give the receiver the sender's key, also out of order within the window; a sealed
    envelope opens and what is accepted was signed as it stands; canonical bytes are equal exactly for values
    that mean the same, which needs a parser of the printed text in the proof only; the
    hand-written SHA-256 meets the standard's own definition; base64url and the two codes round trip.
  \<^item> Synchronisation: a batch has the effect of its events that verify, each as it was signed, and of no other; redelivery changes nothing; an ordered
    batch is stored; a request is answered in full; a response is cut without loss, its window and its length in
    time are bounded; watermarks never fall.
  \<^item> Handshake: a pinned identity survives every sequence of frames, a frame is accepted only as it
    was signed, a replay does nothing, an acknowledgement counts once.
  \<^item> Data: a group changes by an authorized sender only; a contact event with both keys keeps the pins; an
    accepted media reference is within the limits.
  \<^item> Friends: honest frames are accepted, a frame counts once, it takes effect only when its sender signed
    it or the transcript of it, a stranger's request waits for the user, attempts are spaced.
  \<^item> Vault: a record opens in its own place only, the encrypted table is a table of the values, a change of the start key
    keeps what the rows hold and, where it is cut short, leaves rows under two keys, a file arrives whole and what is deleted is gone.
  \<^item> Conversations: what is shown was written by one of the two, what was deleted stays gone, and loading leaves the
    ratchets alone, while group events, receipts and chunks it opens again are written again.
  \<^item> Opening: the application is open with the key in memory or closed without it, whatever fails in between; the PIN
    opens again what filling the application would show without the lock; guesses of it are spaced.
  \<^item> Devices: the registry agrees on the latest event of each device in whatever order events come, except on the role
    where two of the latest differ in nothing else, an approval counts until it expires, a pairing code asks
    the user once and is the one that was drawn.
  Theorems without a number in their text record what the code does where it does not do what it
  means to; they are the findings of the manifest.

  Bounds and fuel. No definition uses fuel: loops are structural, over a finite list, or functions with a
  measure (Sync_Flow's pump_loop: frames left; Sha256's fips_blocks: bytes left). Retry limits, windows and
  lifetimes are the code's own constants, each a definition.

  Not modelled. The rendering of the user interface (app, components, screens, ui) and its handlers beside those of
  App_Start, the main process (main.ts, main/: Tor and its proxy, updates, the native worker), diagnostics, and the transports
  behind the router's interface. Of the synchronisation engine: the events a device writes itself (buildContactEvents
  and what follows it); of the pairing: its sessions over the HTTP rendezvous service (devices/deviceSync.ts). Of the vault: the repair of one wrongly
  decoded text, the sample data of a new account, and the statistics of the settings. Logging is left out everywhere.
\<close>

end
